(* ===== verification/Prelude.thy ===== *)
theory Prelude
  imports Main "HOL-Library.AList" "HOL-Library.Char_ord" "HOL-Library.List_Lexorder"
begin

text \<open>
  Shared vocabulary of the development: the exceptions the Python code raises, results and
  state-threading computations that may raise, Python dictionaries as association lists in
  insertion order, sorted key lists, time stamps, and the lemma collections the component
  theories extend.

  \<^item> \<open>rbind\<close> sequences computations that return a value or raise (\<open>Inl\<close> is the exception);
  \<^item> \<open>sx\<close> computations also carry a state that survives an exception, as a Python object
    mutated before a \<open>raise\<close> does;
  \<^item> a dictionary is an association list: \<open>map_of\<close> reads it and \<open>AList.update\<close> writes it,
    keeping the position of an existing key and appending a new one, as \<open>dict\<close> does;
  \<^item> a \<open>pd.Timestamp\<close> is its integer of nanoseconds; \<open>Naive\<close> marks a missing time zone.
\<close>

named_theorems result_simps "sequencing of computations that may raise"
named_theorems invariant_rules "operations keep the invariant of their component"

section \<open>Exceptions and results\<close>

text \<open>\<open>NoReturn\<close> is no exception of the code: it stands for a loop that has used up its fuel.\<close>

datatype exc =
    ValueError
  | TypeError
  | KeyError
  | AttributeError
  | AssertionError
  | ArithmeticError
  | Inexact
  | DataIntegrityError
  | LiveTradingError
  | RiskGateBreach
  | ReconciliationBreach
  | ForeignOpenOrderError
  | CausalityViolation
  | StaleSignalError
  | StaleOrderIdentity
  | OrderStatusUnknown
  | TransientReadError
  | OrderObsolete
  | CancelNotConfirmed
  | ExecutionInterrupted
  | SystemExit
  | OSError
  | NoReturn
  | VenueError "int option" int

type_synonym 'a res = "exc + 'a"

definition rbind :: "'e + 'a \<Rightarrow> ('a \<Rightarrow> 'e + 'b) \<Rightarrow> 'e + 'b" where
  "rbind m f = (case m of Inl e \<Rightarrow> Inl e | Inr x \<Rightarrow> f x)"

definition guard_res :: "bool \<Rightarrow> 'e \<Rightarrow> 'e + unit" where
  "guard_res c e = (if c then Inr () else Inl e)"

lemma rbind_Inl [simp, result_simps]: "rbind (Inl e) f = Inl e"
  by (simp add: rbind_def)

lemma rbind_Inr [simp, result_simps]: "rbind (Inr x) f = f x"
  by (simp add: rbind_def)

lemma rbind_eq_Inr [result_simps]:
  "rbind m f = Inr y \<longleftrightarrow> (\<exists>x. m = Inr x \<and> f x = Inr y)"
  by (cases m) auto

lemma rbind_eq_Inl [result_simps]:
  "rbind m f = Inl e \<longleftrightarrow> m = Inl e \<or> (\<exists>x. m = Inr x \<and> f x = Inl e)"
  by (cases m) auto

lemma guard_res_Inr [simp, result_simps]: "guard_res c e = Inr u \<longleftrightarrow> c"
  by (simp add: guard_res_def)

lemma guard_res_Inl [simp, result_simps]: "guard_res c e = Inl e' \<longleftrightarrow> \<not> c \<and> e' = e"
  by (auto simp: guard_res_def)

text \<open>A loop whose body may raise: the exception leaves the loop.\<close>

primrec rfold :: "('a \<Rightarrow> 's \<Rightarrow> 'e + 's) \<Rightarrow> 'a list \<Rightarrow> 's \<Rightarrow> 'e + 's" where
  "rfold f [] s = Inr s"
| "rfold f (x # xs) s = rbind (f x s) (rfold f xs)"

lemma rfold_append: "rfold f (xs @ ys) s = rbind (rfold f xs s) (rfold f ys)"
  by (induction xs arbitrary: s) (auto simp: rbind_def split: sum.splits)

lemma rfold_invariant:
  assumes "rfold f xs s = Inr t" and "P s"
    and "\<And>x s t. x \<in> set xs \<Longrightarrow> P s \<Longrightarrow> f x s = Inr t \<Longrightarrow> P t"
  shows "P t"
  using assms
proof (induction xs arbitrary: s)
  case (Cons x xs)
  from Cons.prems(1) obtain u where u: "f x s = Inr u" "rfold f xs u = Inr t"
    by (auto simp: result_simps)
  from Cons.prems(3) [of x s u] Cons.prems(2) u(1) have "P u" by simp
  then show ?case using Cons.IH u(2) Cons.prems(3) by auto
qed simp

section \<open>Computations with a state that survives exceptions\<close>

type_synonym ('s, 'a) sx = "'s \<Rightarrow> 'a res \<times> 's"

definition sx_return :: "'a \<Rightarrow> ('s, 'a) sx" where
  "sx_return x = (\<lambda>s. (Inr x, s))"

definition sx_raise :: "exc \<Rightarrow> ('s, 'a) sx" where
  "sx_raise e = (\<lambda>s. (Inl e, s))"

definition sx_lift :: "'a res \<Rightarrow> ('s, 'a) sx" where
  "sx_lift m = (\<lambda>s. (m, s))"

definition sx_bind :: "('s, 'a) sx \<Rightarrow> ('a \<Rightarrow> ('s, 'b) sx) \<Rightarrow> ('s, 'b) sx" where
  "sx_bind m f = (\<lambda>s. case m s of (Inl e, t) \<Rightarrow> (Inl e, t) | (Inr x, t) \<Rightarrow> f x t)"

definition sx_gets :: "('s \<Rightarrow> 'a) \<Rightarrow> ('s, 'a) sx" where
  "sx_gets g = (\<lambda>s. (Inr (g s), s))"

definition sx_modify :: "('s \<Rightarrow> 's) \<Rightarrow> ('s, unit) sx" where
  "sx_modify g = (\<lambda>s. (Inr (), g s))"

primrec sx_foldM :: "('a \<Rightarrow> 'b \<Rightarrow> ('s, 'b) sx) \<Rightarrow> 'a list \<Rightarrow> 'b \<Rightarrow> ('s, 'b) sx" where
  "sx_foldM f [] acc = sx_return acc"
| "sx_foldM f (x # xs) acc = sx_bind (f x acc) (sx_foldM f xs)"

lemmas sx_defs = sx_return_def sx_raise_def sx_lift_def sx_bind_def sx_gets_def sx_modify_def

lemma sx_bind_run: "sx_bind m f s =
    (case m s of (Inl e, t) \<Rightarrow> (Inl e, t) | (Inr x, t) \<Rightarrow> f x t)"
  by (simp add: sx_bind_def)

text \<open>A preorder between the state before and after that every step respects is respected by the
  whole computation, whether it ends or raises.\<close>

definition sx_keeps :: "('s \<Rightarrow> 's \<Rightarrow> bool) \<Rightarrow> ('s, 'a) sx \<Rightarrow> bool" where
  "sx_keeps R m \<longleftrightarrow> (\<forall>s. R s (snd (m s)))"

lemma sx_keepsD: "sx_keeps R m \<Longrightarrow> m s = (r, t) \<Longrightarrow> R s t"
  by (metis sx_keeps_def snd_conv)

lemma sx_keeps_pure:
  assumes "reflp R"
  shows "sx_keeps R (sx_return x)" "sx_keeps R (sx_raise e)" "sx_keeps R (sx_lift m)" "sx_keeps R (sx_gets g)"
  using assms by (simp_all add: sx_keeps_def sx_defs reflp_def)

lemma sx_keeps_modify: "(\<And>s. R s (g s)) \<Longrightarrow> sx_keeps R (sx_modify g)"
  by (simp add: sx_keeps_def sx_modify_def)

lemma sx_keeps_bind:
  assumes "transp R" "sx_keeps R m" "\<And>x. sx_keeps R (f x)" shows "sx_keeps R (sx_bind m f)"
  unfolding sx_keeps_def
proof
  fix s
  obtain r u where m: "m s = (r, u)" by (cases "m s")
  then have "R s u" using assms(2) by (rule sx_keepsD [rotated])
  then show "R s (snd (sx_bind m f s))"
    using assms(1,3) m by (cases r) (auto simp: sx_bind_def sx_keeps_def dest: transpD)
qed

lemma sx_keeps_foldM:
  assumes "reflp R" "transp R" "\<And>x acc. x \<in> set xs \<Longrightarrow> sx_keeps R (f x acc)" shows "sx_keeps R (sx_foldM f xs acc)"
  using assms(3)
  by (induction xs arbitrary: acc) (auto intro!: sx_keeps_bind sx_keeps_pure assms(1,2))

lemma preorder_eq_on: "reflp (\<lambda>s t. f t = f s)" "transp (\<lambda>s t. f t = f s)"
  by (simp_all add: reflp_def transp_def)

lemma preorder_le_on: "reflp (\<lambda>s t. (f s :: 'a::preorder) \<le> f t)" "transp (\<lambda>s t. (f s :: 'a::preorder) \<le> f t)"
  by (auto simp: reflp_def transp_def intro: order_trans)

lemma sx_foldM_append: "sx_foldM f (xs @ ys) acc = sx_bind (sx_foldM f xs acc) (sx_foldM f ys)"
  by (induction xs arbitrary: acc) (auto simp: fun_eq_iff sx_defs split: prod.splits sum.splits)

text \<open>A loop invariant that may speak of the elements already handled.\<close>

lemma sx_foldM_invariant_from:
  assumes "sx_foldM f xs acc s = (Inr acc', s')" "P d acc s"
    and "\<And>d x acc s acc1 s1. x \<in> set xs \<Longrightarrow> P d acc s \<Longrightarrow> f x acc s = (Inr acc1, s1) \<Longrightarrow> P (d @ [x]) acc1 s1"
  shows "P (d @ xs) acc' s'"
  using assms
proof (induction xs arbitrary: d acc s)
  case Nil
  then show ?case by (simp add: sx_return_def)
next
  case (Cons x xs)
  obtain acc1 s1 where x: "f x acc s = (Inr acc1, s1)" "sx_foldM f xs acc1 s1 = (Inr acc', s')"
    using Cons.prems(1) by (auto simp: sx_bind_def split: prod.splits sum.splits)
  have "P (d @ [x]) acc1 s1" using Cons.prems(3) [OF _ Cons.prems(2) x(1)] by simp
  from Cons.IH [OF x(2) this Cons.prems(3)] show ?case by simp
qed

lemmas sx_foldM_invariant = sx_foldM_invariant_from [where d = "[]", unfolded append_Nil]

lemma sx_bind_Inr: "sx_bind m f s = (Inr y, t) \<longleftrightarrow> (\<exists>x u. m s = (Inr x, u) \<and> f x u = (Inr y, t))"
  by (auto simp: sx_bind_def split: prod.splits sum.splits)

lemma sx_pure_Inr [simp]:
  "sx_return x s = (Inr y, t) \<longleftrightarrow> x = y \<and> s = t" "sx_raise e s = (Inr y, t) \<longleftrightarrow> False"
  "sx_lift m s = (Inr y, t) \<longleftrightarrow> m = Inr y \<and> s = t"
  by (auto simp: sx_defs)

lemma sx_keeps_bind_post:
  assumes "transp R" "sx_keeps R m" "\<And>s x t. m s = (Inr x, t) \<Longrightarrow> R t (snd (f x t))" shows "sx_keeps R (sx_bind m f)"
  unfolding sx_keeps_def
proof
  fix s
  obtain r u where m: "m s = (r, u)" by (cases "m s")
  then have "R s u" using assms(2) by (rule sx_keepsD [rotated])
  then show "R s (snd (sx_bind m f s))"
    using assms(1,3) m by (cases r) (auto simp: sx_bind_def dest: transpD)
qed

section \<open>Dictionaries\<close>

type_synonym ('k, 'v) dict = "('k \<times> 'v) list"

definition dict_get :: "('k, 'v) dict \<Rightarrow> 'k \<Rightarrow> 'v \<Rightarrow> 'v" where
  "dict_get d k v = (case map_of d k of None \<Rightarrow> v | Some x \<Rightarrow> x)"

abbreviation dict_ok :: "('k, 'v) dict \<Rightarrow> bool" where
  "dict_ok d \<equiv> distinct (map fst d)"

lemma map_of_update [simp]: "map_of (AList.update k v d) = (map_of d)(k \<mapsto> v)"
  by (rule AList.update_conv')

lemma dict_get_update [simp]:
  "dict_get (AList.update k v d) k' w = (if k' = k then v else dict_get d k' w)"
  by (simp add: dict_get_def)

lemma dict_ok_update [simp, intro]: "dict_ok d \<Longrightarrow> dict_ok (AList.update k v d)"
  by (rule AList.distinct_update)

lemma keys_update [simp]: "fst ` set (AList.update k v d) = insert k (fst ` set d)"
  using AList.dom_update [of k v d] by auto

lemma map_of_filter_value:
  "dict_ok d \<Longrightarrow>
   map_of (filter (\<lambda>(k, v). P v) d) k = (case map_of d k of None \<Rightarrow> None | Some v \<Rightarrow> if P v then Some v else None)"
  by (induction d) (auto split: option.splits simp: map_of_eq_None_iff dest!: map_of_SomeD
      intro: rev_image_eqI)

lemma dict_ok_filter [simp, intro]: "dict_ok d \<Longrightarrow> dict_ok (filter P d)"
  by (induction d) auto

section \<open>Sorted key lists\<close>

text \<open>Python's \<open>sorted(set(...))\<close> over strings: ascending and without repetition.\<close>

definition sorted_set :: "'a::linorder list \<Rightarrow> 'a list" where
  "sorted_set xs = sort (remdups xs)"

lemma set_sorted_set [simp]: "set (sorted_set xs) = set xs"
  by (simp add: sorted_set_def)

lemma distinct_sorted_set [simp, intro]: "distinct (sorted_set xs)"
  by (simp add: sorted_set_def)

lemma sorted_sorted_set [simp, intro]: "sorted (sorted_set xs)"
  by (simp add: sorted_set_def)

lemma sorted_set_cong: "set xs = set ys \<Longrightarrow> sorted_set xs = sorted_set ys"
  by (rule sorted_distinct_set_unique) auto

lemma sorted_set_idem [simp]: "sorted_set (sorted_set xs) = sorted_set xs"
  by (rule sorted_set_cong) simp

lemma sorted_set_Nil_iff [simp]: "sorted_set xs = [] \<longleftrightarrow> xs = []"
  by (metis set_empty set_sorted_set)

lemma sorted_le_last: "sorted xs \<Longrightarrow> x \<in> set xs \<Longrightarrow> x \<le> last xs"
  by (induction xs) auto

section \<open>Time stamps\<close>

type_synonym timestamp = int

datatype pd_timestamp = Naive timestamp | Aware timestamp

definition tz_aware :: "exc \<Rightarrow> pd_timestamp \<Rightarrow> timestamp res" where
  "tz_aware e ts = (case ts of Naive _ \<Rightarrow> Inl e | Aware t \<Rightarrow> Inr t)"

lemma tz_aware_simps [simp]:
  "tz_aware e (Naive t) = Inl e" "tz_aware e (Aware t) = Inr t"
  by (simp_all add: tz_aware_def)

text \<open>\<open>tz_localize("UTC")\<close> of a naive stamp, \<open>tz_convert("UTC")\<close> of an aware one.\<close>

definition as_utc :: "pd_timestamp \<Rightarrow> timestamp" where
  "as_utc ts = (case ts of Naive t \<Rightarrow> t | Aware t \<Rightarrow> t)"

lemma as_utc_simps [simp]: "as_utc (Naive t) = t" "as_utc (Aware t) = t"
  by (simp_all add: as_utc_def)

end
