(* ===== verification/Decimal_Arith.thy ===== *)
theory Decimal_Arith
  imports Prelude Complex_Main
begin

text \<open>
  Python's \<open>decimal\<close> arithmetic on finite values.  A \<open>Decimal\<close> is the rational it denotes; an
  arithmetic operation computes the exact result and rounds it, half to even, to the number of
  significant digits of the context: 28 in the default context, 60 in the context of the tax
  code.  Unary minus and \<open>abs\<close> round too; comparisons, \<open>min\<close>, \<open>max\<close> and
  \<open>to_integral_value\<close> are exact.  The exponent limits of the context and the values NaN and
  Infinity are not modelled: where the code tests for them, the model has a case of its own.

  Rounding is odd, monotone, keeps the sign and leaves every value of at most that many digits
  unchanged; these laws are the locale \<open>decimal_context\<close>, interpreted for both contexts.
\<close>

type_synonym decimal = rat

section \<open>Rounding to an integer\<close>

definition half_even :: "rat \<Rightarrow> int" where
  "half_even x = (let f = \<lfloor>x\<rfloor>; r = x - of_int f
     in if r < 1 / 2 then f else if r > 1 / 2 then f + 1 else if even f then f else f + 1)"

lemma half_even_of_int [simp]: "half_even (of_int k) = k"
  by (simp add: half_even_def)

lemma half_even_bounds: "\<lfloor>x\<rfloor> \<le> half_even x" "half_even x \<le> \<lceil>x\<rceil>"
proof -
  show "\<lfloor>x\<rfloor> \<le> half_even x" by (simp add: half_even_def Let_def)
  have "x - of_int \<lfloor>x\<rfloor> \<noteq> 0 \<Longrightarrow> \<lceil>x\<rceil> = \<lfloor>x\<rfloor> + 1"
    by (metis ceiling_altdef eq_iff_diff_eq_0)
  then show "half_even x \<le> \<lceil>x\<rceil>"
    by (auto simp: half_even_def Let_def floor_le_ceiling)
qed

lemma half_even_error: "\<bar>of_int (half_even x) - x\<bar> \<le> 1 / 2"
proof -
  define f where "f = rat_of_int \<lfloor>x\<rfloor>"
  have f: "f \<le> x" "x < f + 1" using floor_correct [of x] by (simp_all add: f_def)
  have "rat_of_int (half_even x) = f \<and> x - f \<le> 1 / 2 \<or> rat_of_int (half_even x) = f + 1 \<and> 1 / 2 \<le> x - f"
    by (auto simp: half_even_def Let_def f_def)
  with f show ?thesis by (auto simp: abs_if)
qed

lemma half_even_mono: assumes "x \<le> y" shows "half_even x \<le> half_even y"
proof (cases "\<lfloor>x\<rfloor> = \<lfloor>y\<rfloor>")
  case True
  with assms show ?thesis by (auto simp: half_even_def Let_def)
next
  case False
  then have less: "\<lfloor>x\<rfloor> < \<lfloor>y\<rfloor>" using assms floor_mono [OF assms] by linarith
  have "half_even x \<le> \<lfloor>x\<rfloor> + 1" by (auto simp: half_even_def Let_def)
  also have "\<dots> \<le> \<lfloor>y\<rfloor>" using less by simp
  also have "\<dots> \<le> half_even y" by (rule half_even_bounds)
  finally show ?thesis .
qed

lemma half_even_minus: "half_even (- x) = - half_even x"
proof (cases "x = of_int \<lfloor>x\<rfloor>")
  case True
  then show ?thesis by (metis half_even_of_int of_int_minus)
next
  case False
  then have "\<lceil>x\<rceil> = \<lfloor>x\<rfloor> + 1" by (simp add: ceiling_altdef)
  then have "\<lfloor>- x\<rfloor> = - \<lfloor>x\<rfloor> - 1" by (simp add: floor_minus)
  then show ?thesis using False by (auto simp: half_even_def Let_def)
qed

definition round_down_int :: "rat \<Rightarrow> int" where
  "round_down_int x = (if 0 \<le> x then \<lfloor>x\<rfloor> else \<lceil>x\<rceil>)"

definition round_up_int :: "rat \<Rightarrow> int" where
  "round_up_int x = (if 0 \<le> x then \<lceil>x\<rceil> else \<lfloor>x\<rfloor>)"

section \<open>The decimal exponent of a number\<close>

fun ilog10 :: "nat \<Rightarrow> nat" where
  "ilog10 n = (if n < 10 then 0 else Suc (ilog10 (n div 10)))"

declare ilog10.simps [simp del]

lemma ilog10_bounds: "0 < n \<Longrightarrow> 10 ^ ilog10 n \<le> n \<and> n < 10 ^ Suc (ilog10 n)"
proof (induction n rule: ilog10.induct)
  case (1 n)
  show ?case
  proof (cases "n < 10")
    case True
    with 1 show ?thesis by (simp add: ilog10.simps [of n])
  next
    case False
    with 1 have "10 ^ ilog10 (n div 10) \<le> n div 10 \<and> n div 10 < 10 ^ Suc (ilog10 (n div 10))"
      by simp
    then have "10 * 10 ^ ilog10 (n div 10) \<le> n" "n < 10 * 10 ^ Suc (ilog10 (n div 10))"
      by linarith+
    with False show ?thesis by (simp add: ilog10.simps [of n])
  qed
qed

definition pow10 :: "int \<Rightarrow> rat" where
  "pow10 e = (if 0 \<le> e then 10 ^ nat e else 1 / 10 ^ nat (- e))"

lemma pow10_powi: "pow10 e = 10 powi e"
  by (simp add: pow10_def power_int_def inverse_eq_divide power_one_over)

lemma pow10_pos [simp]: "0 < pow10 e"
  by (simp add: pow10_def)

lemma pow10_nonneg [simp]: "0 \<le> pow10 e"
  using pow10_pos by (rule less_imp_le)

lemma pow10_neq0 [simp]: "pow10 e \<noteq> 0"
  using pow10_pos [of e] by (rule less_imp_neq [THEN not_sym])

lemma pow10_not_le_0 [simp]: "\<not> pow10 e \<le> 0"
  by (simp add: not_le)

lemma pow10_not_less_0 [simp]: "\<not> pow10 e < 0"
  by (simp add: not_less)

lemma pow10_add: "pow10 (a + b) = pow10 a * pow10 b"
  by (simp add: pow10_powi power_int_add)

lemma pow10_diff: "pow10 (a - b) = pow10 a / pow10 b"
  by (simp add: pow10_powi power_int_diff)

lemma pow10_of_nat [simp]: "pow10 (int n) = 10 ^ n"
  by (simp add: pow10_def)

lemma pow10_0 [simp]: "pow10 0 = 1"
  by (simp add: pow10_def)

lemma pow10_Suc: "pow10 (e + 1) = 10 * pow10 e"
proof -
  have "pow10 1 = 10" by (simp add: pow10_def)
  then show ?thesis by (simp add: pow10_add)
qed

lemma pow10_mono: "a \<le> b \<Longrightarrow> pow10 a \<le> pow10 b"
  by (simp add: pow10_powi power_int_increasing)

lemma pow10_strict_mono: "a < b \<Longrightarrow> pow10 a < pow10 b"
  by (simp add: pow10_powi power_int_strict_increasing)

lemma pow10_less_iff: "pow10 a < pow10 b \<longleftrightarrow> a < b"
  by (metis linorder_not_less pow10_mono pow10_strict_mono)

lemma pow10_int: "0 \<le> e \<Longrightarrow> pow10 e = of_int (10 ^ nat e)"
  by (simp add: pow10_def)

text \<open>\<open>Decimal.adjusted()\<close>: the exponent of the most significant digit of a positive value.\<close>

definition adjusted :: "rat \<Rightarrow> int" where
  "adjusted x = (if 1 \<le> x then int (ilog10 (nat \<lfloor>x\<rfloor>))
     else - int (Suc (ilog10 (nat (\<lceil>1 / x\<rceil> - 1)))))"

lemma adjusted_bounds:
  assumes "0 < x" shows "pow10 (adjusted x) \<le> x \<and> x < pow10 (adjusted x + 1)"
proof (cases "1 \<le> x")
  case True
  define n where "n = nat \<lfloor>x\<rfloor>"
  have n: "rat_of_nat n \<le> x" "x < rat_of_nat n + 1" "0 < n"
    using True floor_correct [of x] by (auto simp: n_def)
  from ilog10_bounds [OF n(3)] have b: "10 ^ ilog10 n \<le> n" "n + 1 \<le> 10 ^ Suc (ilog10 n)" by auto
  have "rat_of_nat (10 ^ ilog10 n) \<le> rat_of_nat n" "rat_of_nat (n + 1) \<le> rat_of_nat (10 ^ Suc (ilog10 n))"
    using b by (simp_all only: of_nat_le_iff)
  then have "(10::rat) ^ ilog10 n \<le> rat_of_nat n" "rat_of_nat n + 1 \<le> (10::rat) ^ Suc (ilog10 n)"
    by (simp_all only: of_nat_power of_nat_numeral of_nat_add of_nat_1)
  with n have "10 ^ ilog10 n \<le> x" "x < 10 ^ Suc (ilog10 n)" by linarith+
  then show ?thesis using True by (simp add: adjusted_def n_def [symmetric] pow10_Suc)
next
  case False
  define y where "y = 1 / x"
  define n where "n = nat (\<lceil>y\<rceil> - 1)"
  have "1 < y" using False assms by (simp add: y_def field_simps)
  then have n: "rat_of_nat n < y" "y \<le> rat_of_nat n + 1" "0 < n"
    using ceiling_correct [of y] by (auto simp: n_def)
  from ilog10_bounds [OF n(3)] have b: "10 ^ ilog10 n \<le> n" "n + 1 \<le> 10 ^ Suc (ilog10 n)" by auto
  have "rat_of_nat (10 ^ ilog10 n) \<le> rat_of_nat n" "rat_of_nat (n + 1) \<le> rat_of_nat (10 ^ Suc (ilog10 n))"
    using b by (simp_all only: of_nat_le_iff)
  then have "(10::rat) ^ ilog10 n \<le> rat_of_nat n" "rat_of_nat n + 1 \<le> (10::rat) ^ Suc (ilog10 n)"
    by (simp_all only: of_nat_power of_nat_numeral of_nat_add of_nat_1)
  with n have "10 ^ ilog10 n < y" "y \<le> 10 ^ Suc (ilog10 n)" by linarith+
  then have "10 ^ ilog10 n * x < 1" "1 \<le> 10 ^ Suc (ilog10 n) * x"
    using assms by (simp_all add: y_def field_simps)
  then have "1 / 10 ^ Suc (ilog10 n) \<le> x" "x < 1 / 10 ^ ilog10 n"
    by (simp_all add: pos_divide_le_eq pos_less_divide_eq mult.commute)
  moreover have "adjusted x = - int (Suc (ilog10 n))" using False by (simp add: adjusted_def n_def y_def)
  moreover have "pow10 (- int (Suc (ilog10 n))) = 1 / 10 ^ Suc (ilog10 n)"
    using pow10_diff [of 0 "int (Suc (ilog10 n))"] by (simp del: of_nat_Suc)
  moreover have "pow10 (- int (Suc (ilog10 n)) + 1) = 1 / 10 ^ ilog10 n"
    using pow10_diff [of 0 "int (ilog10 n)"] by simp
  ultimately show ?thesis by simp
qed

lemma adjusted_unique:
  assumes "pow10 e \<le> x" "x < pow10 (e + 1)" shows "adjusted x = e"
proof -
  have "0 < x" using assms(1) pow10_pos [of e] by linarith
  from adjusted_bounds [OF this] assms
  have "pow10 e < pow10 (adjusted x + 1)" "pow10 (adjusted x) < pow10 (e + 1)" by linarith+
  then show ?thesis by (simp add: pow10_less_iff)
qed

lemma adjusted_mono: "0 < x \<Longrightarrow> x \<le> y \<Longrightarrow> adjusted x \<le> adjusted y"
  using adjusted_bounds [of x] adjusted_bounds [of y] pow10_less_iff [of "adjusted x" "adjusted y + 1"]
  by simp

section \<open>Rounding to significant digits\<close>

definition dec_round :: "nat \<Rightarrow> rat \<Rightarrow> rat" where
  "dec_round p x = (if x = 0 then 0
     else let q = pow10 (adjusted \<bar>x\<bar> - int p + 1) in of_int (half_even (x / q)) * q)"

definition dec_repr :: "nat \<Rightarrow> rat \<Rightarrow> bool" where
  "dec_repr p x \<longleftrightarrow> (\<exists>m e. \<bar>m\<bar> < 10 ^ p \<and> x = of_int m * pow10 e)"

lemma dec_round_0 [simp]: "dec_round p 0 = 0"
  by (simp add: dec_round_def)

lemma dec_round_minus: "dec_round p (- x) = - dec_round p x"
  by (simp add: dec_round_def Let_def half_even_minus)

lemma dec_reprI: "\<bar>m\<bar> < 10 ^ p \<Longrightarrow> dec_repr p (of_int m * pow10 e)"
  by (auto simp: dec_repr_def)

lemma dec_round_exact: assumes "dec_repr p x" shows "dec_round p x = x"
proof (cases "x = 0")
  case False
  from assms obtain m e where m: "\<bar>m\<bar> < 10 ^ p" and x: "x = of_int m * pow10 e"
    by (auto simp: dec_repr_def)
  define d where "d = adjusted \<bar>x\<bar> - int p + 1"
  have "pow10 (adjusted \<bar>x\<bar>) \<le> \<bar>x\<bar>" using False adjusted_bounds [of "\<bar>x\<bar>"] by simp
  also have "\<dots> = of_int \<bar>m\<bar> * pow10 e" by (simp add: x abs_mult)
  also have "\<dots> < of_int (10 ^ p) * pow10 e" using m by (intro mult_strict_right_mono) (simp_all only: of_int_less_iff pow10_pos)
  also have "\<dots> = pow10 (int p + e)" by (simp add: pow10_add)
  finally have "d \<le> e" by (simp add: pow10_less_iff d_def)
  then have "x / pow10 d = of_int (m * 10 ^ nat (e - d))"
    using pow10_int [of "e - d"] by (simp add: x pow10_diff times_divide_eq_right [symmetric] del: times_divide_eq_right)
  then have "of_int (half_even (x / pow10 d)) = x / pow10 d" by (metis half_even_of_int)
  then show ?thesis using False by (simp add: dec_round_def d_def Let_def)
qed simp

lemma dec_round_bracket:
  assumes "0 < x" "0 < p"
  shows "pow10 (adjusted x) \<le> dec_round p x \<and> dec_round p x \<le> pow10 (adjusted x + 1)"
proof -
  define a where "a = adjusted x"
  define q where "q = pow10 (a - int p + 1)"
  have q: "0 < q" by (simp add: q_def)
  have qa: "pow10 a = of_int (10 ^ (p - 1)) * q"
  proof -
    have "pow10 a = pow10 (int (p - 1) + (a - int p + 1))" using assms(2) by (simp add: of_nat_diff)
    then show ?thesis by (simp only: pow10_add q_def) simp
  qed
  have qb: "pow10 (a + 1) = of_int (10 ^ p) * q"
  proof -
    have "pow10 (a + 1) = pow10 (int p + (a - int p + 1))" by simp
    then show ?thesis by (simp only: pow10_add q_def) simp
  qed
  have "of_int (10 ^ (p - 1)) \<le> x / q" "x / q \<le> of_int (10 ^ p)"
    using adjusted_bounds [OF assms(1)] q qa qb by (simp_all add: a_def pos_le_divide_eq pos_divide_le_eq)
  then have "half_even (of_int (10 ^ (p - 1))) \<le> half_even (x / q)" "half_even (x / q) \<le> half_even (of_int (10 ^ p))"
    by (blast intro: half_even_mono)+
  then have "10 ^ (p - 1) \<le> half_even (x / q)" "half_even (x / q) \<le> 10 ^ p"
    by (simp_all only: half_even_of_int)
  then have "of_int (10 ^ (p - 1)) * q \<le> of_int (half_even (x / q)) * q"
    "of_int (half_even (x / q)) * q \<le> of_int (10 ^ p) * q"
    using q by (simp_all only: mult_le_cancel_right_pos of_int_le_iff)
  then show ?thesis using assms(1) by (simp only: qa [symmetric] qb [symmetric]) (simp add: dec_round_def q_def a_def Let_def)
qed

lemma dec_round_pos: "0 < p \<Longrightarrow> 0 < x \<Longrightarrow> 0 < dec_round p x"
  using dec_round_bracket [of x p] pow10_pos [of "adjusted x"] by linarith

lemma dec_round_mono_pos:
  assumes "0 < p" "0 < x" "x \<le> y" shows "dec_round p x \<le> dec_round p y"
proof (cases "adjusted x = adjusted y")
  case True
  with assms show ?thesis
    by (auto simp: dec_round_def Let_def intro!: mult_right_mono half_even_mono divide_right_mono)
next
  case False
  with assms have less: "adjusted x + 1 \<le> adjusted y" using adjusted_mono [of x y] by simp
  have "dec_round p x \<le> pow10 (adjusted x + 1)" using dec_round_bracket assms by blast
  also have "\<dots> \<le> pow10 (adjusted y)" using less by (rule pow10_mono)
  also have "\<dots> \<le> dec_round p y" using dec_round_bracket [of y p] assms by simp
  finally show ?thesis .
qed

lemma dec_round_mono: assumes "0 < p" "x \<le> y" shows "dec_round p x \<le> dec_round p y"
proof -
  consider "0 < x" | "x \<le> 0" "0 \<le> y" | "y < 0" by linarith
  then show ?thesis
  proof cases
    case 1
    with assms show ?thesis by (simp add: dec_round_mono_pos)
  next
    case 2
    have "dec_round p x \<le> 0"
      using 2 dec_round_pos [of p "- x"] assms(1) by (cases "x = 0") (auto simp: dec_round_minus)
    moreover have "0 \<le> dec_round p y"
      using 2 dec_round_pos [of p y] assms(1) by (cases "y = 0") auto
    ultimately show ?thesis by simp
  next
    case 3
    then have "dec_round p (- y) \<le> dec_round p (- x)" using assms by (intro dec_round_mono_pos) auto
    then show ?thesis by (simp add: dec_round_minus)
  qed
qed

lemma dec_repr_round: assumes "0 < p" shows "dec_repr p (dec_round p x)"
proof (cases "x = 0")
  case True
  then show ?thesis using dec_reprI [of 0 p 0] by simp
next
  case False
  define d where "d = adjusted \<bar>x\<bar> - int p + 1"
  define k where "k = half_even (x / pow10 d)"
  have r: "dec_round p x = of_int k * pow10 d" using False by (simp add: dec_round_def d_def k_def Let_def)
  have "\<bar>dec_round p x\<bar> = dec_round p \<bar>x\<bar>"
    using dec_round_pos [OF assms, of "\<bar>x\<bar>"] False
    by (cases "0 < x") (auto simp: dec_round_minus abs_if)
  then have "\<bar>of_int k * pow10 d\<bar> \<le> pow10 (adjusted \<bar>x\<bar> + 1)"
    using dec_round_bracket [of "\<bar>x\<bar>" p] False assms r by simp
  also have "adjusted \<bar>x\<bar> + 1 = int p + d" by (simp add: d_def)
  finally have "rat_of_int \<bar>k\<bar> * pow10 d \<le> of_int (10 ^ p) * pow10 d"
    by (simp add: abs_mult pow10_add)
  then have "rat_of_int \<bar>k\<bar> \<le> of_int (10 ^ p)" by (simp only: mult_le_cancel_right_pos pow10_pos)
  then have "\<bar>k\<bar> \<le> 10 ^ p" by (simp only: of_int_le_iff)
  then consider "\<bar>k\<bar> < 10 ^ p" | "\<bar>k\<bar> = 10 ^ p" by linarith
  then show ?thesis
  proof cases
    case 1
    then show ?thesis by (simp add: r dec_reprI)
  next
    case 2
    then have "k = sgn k * 10 ^ p" by (metis abs_mult_sgn mult.commute)
    then have "rat_of_int k = of_int (sgn k * 10 ^ p)" by (rule arg_cong)
    then have "of_int k * pow10 d = of_int (sgn k) * (10 ^ p * pow10 d)"
      by (simp only: of_int_mult of_int_power of_int_numeral mult.assoc)
    also have "\<dots> = of_int (sgn k) * pow10 (int p + d)" by (simp add: pow10_add)
    finally have "dec_round p x = of_int (sgn k) * pow10 (int p + d)" using r by simp
    moreover have "\<bar>sgn k\<bar> < (10::int) ^ p"
      using assms one_less_power [of "10::int" p] by (auto simp: sgn_if)
    ultimately show ?thesis by (simp add: dec_reprI)
  qed
qed

lemma dec_repr_minus [simp]: "dec_repr p (- x) = dec_repr p x"
proof -
  have "dec_repr p (- x)" if "dec_repr p x" for x
    using that dec_reprI [of "- m" p e for m e] by (fastforce simp: dec_repr_def)
  from this [of x] this [of "- x"] show ?thesis by auto
qed

lemma dec_repr_pow10: "0 < p \<Longrightarrow> dec_repr p (pow10 e)"
  using dec_reprI [of 1 p e] one_less_power [of "10::int" p] by simp

lemma dec_repr_of_int: "\<bar>k\<bar> < 10 ^ p \<Longrightarrow> dec_repr p (of_int k)"
  using dec_reprI [of k p 0] by simp

lemma dec_repr_mult_pow10: "dec_repr p x \<Longrightarrow> dec_repr p (x * pow10 e)"
  unfolding dec_repr_def by (metis (no_types, lifting) mult.assoc pow10_add)

lemma dec_repr_div_pow10: "dec_repr p x \<Longrightarrow> dec_repr p (x / pow10 e)"
  using dec_repr_mult_pow10 [of p x "- e"] pow10_diff [of 0 e] by simp

text \<open>Cutting the fraction off a value of at most \<open>p\<close> digits leaves at most \<open>p\<close> digits.\<close>

lemma dec_repr_floor:
  assumes "0 \<le> x" "dec_repr p x" shows "dec_repr p (of_int \<lfloor>x\<rfloor>)"
proof -
  from assms(2) obtain m e where m: "\<bar>m\<bar> < 10 ^ p" and x: "x = of_int m * pow10 e"
    by (auto simp: dec_repr_def)
  show ?thesis
  proof (cases "0 \<le> e")
    case True
    then have "x = of_int (m * 10 ^ nat e)" by (simp add: x pow10_int)
    then show ?thesis using assms(2) by (metis floor_of_int)
  next
    case False
    have "0 \<le> m" using assms(1) pow10_pos [of e] by (auto simp: x zero_le_mult_iff)
    have "pow10 e \<le> 1" using pow10_mono [of e 0] False by simp
    then have "x \<le> of_int m" using \<open>0 \<le> m\<close> by (simp add: x mult_left_le)
    then have "\<lfloor>x\<rfloor> \<le> m" by linarith
    moreover have "0 \<le> \<lfloor>x\<rfloor>" using assms(1) by simp
    ultimately show ?thesis using m by (intro dec_repr_of_int) linarith
  qed
qed

lemma dec_repr_ceiling:
  assumes "0 \<le> x" "dec_repr p x" shows "dec_repr p (of_int \<lceil>x\<rceil>)"
proof -
  from assms(2) obtain m e where m: "\<bar>m\<bar> < 10 ^ p" and x: "x = of_int m * pow10 e"
    by (auto simp: dec_repr_def)
  show ?thesis
  proof (cases "0 \<le> e")
    case True
    then have "x = of_int (m * 10 ^ nat e)" by (simp add: x pow10_int)
    then show ?thesis using assms(2) by (metis ceiling_of_int)
  next
    case False
    have "0 \<le> m" using assms(1) pow10_pos [of e] by (auto simp: x zero_le_mult_iff)
    have "pow10 e \<le> 1" using pow10_mono [of e 0] False by simp
    then have "x \<le> of_int m" using \<open>0 \<le> m\<close> by (simp add: x mult_left_le)
    then have "\<lceil>x\<rceil> \<le> m" by (rule ceiling_le)
    moreover have "0 \<le> \<lceil>x\<rceil>" using assms(1) by simp
    ultimately show ?thesis using m by (intro dec_repr_of_int) linarith
  qed
qed

section \<open>The contexts\<close>

locale decimal_context =
  fixes rnd :: "rat \<Rightarrow> rat" and exact :: "rat \<Rightarrow> bool"
  assumes rnd_minus: "rnd (- x) = - rnd x"
    and rnd_mono: "x \<le> y \<Longrightarrow> rnd x \<le> rnd y"
    and rnd_pos: "0 < x \<Longrightarrow> 0 < rnd x"
    and rnd_exact: "exact x \<Longrightarrow> rnd x = x"
    and exact_rnd: "exact (rnd x)"
begin

lemma rnd_0: "rnd 0 = 0"
  using rnd_minus [of 0] by simp

lemma rnd_idem: "rnd (rnd x) = rnd x"
  by (rule rnd_exact) (rule exact_rnd)

lemma rnd_pos_iff: "0 < rnd x \<longleftrightarrow> 0 < x"
  using rnd_pos [of x] rnd_mono [of x 0] rnd_0 by (metis linorder_not_less)

lemma rnd_neg_iff: "rnd x < 0 \<longleftrightarrow> x < 0"
  using rnd_pos_iff [of "- x"] by (simp add: rnd_minus)

lemma rnd_eq_0_iff: "rnd x = 0 \<longleftrightarrow> x = 0"
  using rnd_pos_iff [of x] rnd_neg_iff [of x] by linarith

lemma rnd_abs: "rnd \<bar>x\<bar> = \<bar>rnd x\<bar>"
  using rnd_pos_iff [of x] rnd_neg_iff [of x] by (auto simp: abs_if rnd_minus)

lemma rnd_le_exact: "exact y \<Longrightarrow> x \<le> y \<Longrightarrow> rnd x \<le> y"
  using rnd_mono [of x y] rnd_exact [of y] by simp

lemma rnd_ge_exact: "exact y \<Longrightarrow> y \<le> x \<Longrightarrow> y \<le> rnd x"
  using rnd_mono [of y x] rnd_exact [of y] by simp

end

abbreviation default_prec :: nat where "default_prec \<equiv> 28"
abbreviation tax_prec :: nat where "tax_prec \<equiv> 60"

definition rnd28 :: "rat \<Rightarrow> rat" where "rnd28 = dec_round default_prec"

definition exact28 :: "rat \<Rightarrow> bool" where "exact28 = dec_repr default_prec"

definition rnd60 :: "rat \<Rightarrow> rat" where "rnd60 = dec_round tax_prec"

definition exact60 :: "rat \<Rightarrow> bool" where "exact60 = dec_repr tax_prec"

interpretation d28: decimal_context rnd28 exact28
  by unfold_locales
    (auto simp: rnd28_def exact28_def dec_round_minus dec_round_mono dec_round_pos dec_round_exact dec_repr_round)

interpretation d60: decimal_context rnd60 exact60
  by unfold_locales
    (auto simp: rnd60_def exact60_def dec_round_minus dec_round_mono dec_round_pos dec_round_exact dec_repr_round)

text \<open>The operators of the default context.\<close>

definition dadd :: "decimal \<Rightarrow> decimal \<Rightarrow> decimal" where "dadd a b = rnd28 (a + b)"

definition dsub :: "decimal \<Rightarrow> decimal \<Rightarrow> decimal" where "dsub a b = rnd28 (a - b)"

definition dmul :: "decimal \<Rightarrow> decimal \<Rightarrow> decimal" where "dmul a b = rnd28 (a * b)"

definition ddiv :: "decimal \<Rightarrow> decimal \<Rightarrow> decimal res" where
  "ddiv a b = (if b = 0 then Inl ArithmeticError else Inr (rnd28 (a / b)))"

definition dneg :: "decimal \<Rightarrow> decimal" where "dneg a = rnd28 (- a)"

definition dabs :: "decimal \<Rightarrow> decimal" where "dabs a = rnd28 \<bar>a\<bar>"

lemma dsub_pos_iff [simp]: "0 < dsub a b \<longleftrightarrow> b < a"
  by (simp add: dsub_def d28.rnd_pos_iff)

lemma dsub_le_0_iff [simp]: "dsub a b \<le> 0 \<longleftrightarrow> a \<le> b"
  using dsub_pos_iff [of a b] by (simp only: linorder_not_less [symmetric])

lemma dsub_eq_0_iff [simp]: "dsub a b = 0 \<longleftrightarrow> a = b"
  by (simp add: dsub_def d28.rnd_eq_0_iff)

lemma dsub_self [simp]: "dsub a a = 0"
  by (simp add: dsub_def d28.rnd_0)

lemma dmul_pos: "0 < a \<Longrightarrow> 0 < b \<Longrightarrow> 0 < dmul a b"
  by (simp add: dmul_def d28.rnd_pos_iff)

lemma dabs_nonneg [simp]: "0 \<le> dabs a"
  by (simp add: dabs_def d28.rnd_abs)

lemma dabs_pos_iff [simp]: "0 < dabs a \<longleftrightarrow> a \<noteq> 0"
  by (simp add: dabs_def d28.rnd_pos_iff)

lemma dabs_0 [simp]: "dabs 0 = 0"
  by (simp add: dabs_def d28.rnd_0)

lemma dneg_0 [simp]: "dneg 0 = 0"
  by (simp add: dneg_def d28.rnd_0)

lemma dneg_eq_0_iff [simp]: "dneg a = 0 \<longleftrightarrow> a = 0"
  by (simp add: dneg_def d28.rnd_eq_0_iff)

lemma dneg_exact: "exact28 a \<Longrightarrow> dneg a = - a"
  by (simp add: dneg_def d28.rnd_minus d28.rnd_exact)

lemma dabs_exact: "exact28 a \<Longrightarrow> dabs a = \<bar>a\<bar>"
  by (simp add: dabs_def d28.rnd_abs d28.rnd_exact)

lemma exact28_minus [simp]: "exact28 (- x) = exact28 x"
  by (simp add: exact28_def)

lemma exact28_abs [simp]: "exact28 \<bar>x\<bar> = exact28 x"
  by (simp add: abs_if)

lemma exact28_0 [simp]: "exact28 0"
  using d28.exact_rnd [of 0] by (simp add: d28.rnd_0)

text \<open>Integers below \<open>10 ^ 28\<close> and their multiples by powers of ten are exact: the form in which
  a concrete literal is recognised.\<close>

lemma exact28_scaled: "\<bar>m\<bar> < 10 ^ 28 \<Longrightarrow> x = of_int m * pow10 e \<Longrightarrow> exact28 x"
  by (auto simp: exact28_def intro: dec_reprI)

lemma exact28_numeral: "numeral n < (10::int) ^ 28 \<Longrightarrow> exact28 (numeral n)"
  using exact28_scaled [of "numeral n" "numeral n" 0] by simp

lemma exact28_1 [simp]: "exact28 1"
  using exact28_scaled [of 1 1 0] by simp

lemma rnd28_scaled: "\<bar>m\<bar> < 10 ^ 28 \<Longrightarrow> x = of_int m * pow10 e \<Longrightarrow> rnd28 x = x"
  using exact28_scaled [of m x e] d28.rnd_exact by simp

end
