(* ===== verification/Json.thy ===== *)
theory Json
  imports Decimal_Arith
begin

text \<open>
  Decoded JSON documents and the Python conversions the code applies to them: \<open>str\<close>, \<open>int\<close>,
  \<open>Decimal(str(x))\<close>, \<open>pd.Timestamp(str(x))\<close>, dictionary access and iteration.

  The text forms of decimals, integers and time stamps are a parameter, the record
  \<open>text_codec\<close>.  What the code relies on is that a value it wrote reads back:
  \<open>codec_ok\<close>.  The witnesses use the concrete codec \<open>plain_codec\<close>.
\<close>

datatype json =
    JNull
  | JBool bool
  | JInt int
  | JFloat decimal
  | JStr string
  | JArr "json list"
  | JObj "(string \<times> json) list"

text \<open>What \<open>Decimal(text)\<close> makes of a text.\<close>

datatype dec_text = DecFinite decimal | DecNonFinite | DecInvalid

record text_codec =
  tc_repr :: "json \<Rightarrow> string"
  tc_int :: "string \<Rightarrow> int option"
  tc_dec :: "string \<Rightarrow> dec_text"
  tc_dec_str :: "decimal \<Rightarrow> string"
  tc_ts :: "string \<Rightarrow> pd_timestamp option"
  tc_iso :: "timestamp \<Rightarrow> string"

definition codec_ok :: "text_codec \<Rightarrow> bool" where
  "codec_ok c \<longleftrightarrow> (\<forall>x. tc_dec c (tc_dec_str c x) = DecFinite x) \<and> (\<forall>t. tc_ts c (tc_iso c t) = Some (Aware t))"

lemma codec_ok_dec [simp]: "codec_ok c \<Longrightarrow> tc_dec c (tc_dec_str c x) = DecFinite x"
  by (simp add: codec_ok_def)

lemma codec_ok_ts [simp]: "codec_ok c \<Longrightarrow> tc_ts c (tc_iso c t) = Some (Aware t)"
  by (simp add: codec_ok_def)

section \<open>Decimal digits\<close>

definition digit_char :: "nat \<Rightarrow> char" where
  "digit_char d = char_of (48 + d)"

fun str_nat :: "nat \<Rightarrow> string" where
  "str_nat n = (if n < 10 then [digit_char n] else str_nat (n div 10) @ [digit_char (n mod 10)])"

declare str_nat.simps [simp del]

definition str_int :: "int \<Rightarrow> string" where
  "str_int i = (if 0 \<le> i then str_nat (nat i) else CHR ''-'' # str_nat (nat (- i)))"

definition digit_val :: "char \<Rightarrow> nat" where
  "digit_val c = of_char c - 48"

definition nat_of_digits :: "string \<Rightarrow> nat" where
  "nat_of_digits s = foldl (\<lambda>a c. 10 * a + digit_val c) 0 s"

definition is_digit :: "char \<Rightarrow> bool" where
  "is_digit c \<longleftrightarrow> 48 \<le> (of_char c :: nat) \<and> of_char c \<le> (57 :: nat)"

lemma digit_val_digit_char [simp]: "d < 10 \<Longrightarrow> digit_val (digit_char d) = d"
  by (simp add: digit_val_def digit_char_def)

lemma is_digit_digit_char [simp]: "d < 10 \<Longrightarrow> is_digit (digit_char d)"
  by (simp add: is_digit_def digit_char_def)

lemma nat_of_digits_str_nat [simp]: "nat_of_digits (str_nat n) = n"
proof (induction n rule: str_nat.induct)
  case (1 n)
  show ?case
  proof (cases "n < 10")
    case True
    then show ?thesis by (simp add: str_nat.simps [of n] nat_of_digits_def)
  next
    case False
    with 1 have "nat_of_digits (str_nat (n div 10)) = n div 10" by simp
    with False show ?thesis by (simp add: str_nat.simps [of n] nat_of_digits_def)
  qed
qed

lemma str_nat_inject [simp]: "str_nat m = str_nat n \<longleftrightarrow> m = n"
  by (metis nat_of_digits_str_nat)

lemma str_nat_digits: "c \<in> set (str_nat n) \<Longrightarrow> is_digit c"
proof (induction n rule: str_nat.induct)
  case (1 n)
  then show ?case
    by (cases "n < 10") (auto simp: str_nat.simps [of n])
qed

lemma str_nat_nonempty [simp]: "str_nat n \<noteq> []"
  by (subst str_nat.simps) simp

lemma dash_not_digit [simp]: "\<not> is_digit CHR ''-''"
  by (simp add: is_digit_def)

lemma dash_notin_str_nat [simp]: "CHR ''-'' \<notin> set (str_nat n)"
  using str_nat_digits dash_not_digit by blast

lemma str_int_inject [simp]: "str_int i = str_int j \<longleftrightarrow> i = j"
proof -
  have "CHR ''-'' # s \<noteq> str_nat n" for s n
    by (metis dash_notin_str_nat list.set_intros(1))
  then show ?thesis unfolding str_int_def by (auto dest: sym)
qed

section \<open>Python conversions\<close>

definition py_str :: "text_codec \<Rightarrow> json \<Rightarrow> string" where
  "py_str c j = (case j of JStr s \<Rightarrow> s | JNull \<Rightarrow> ''None'' | JBool b \<Rightarrow> (if b then ''True'' else ''False'')
     | JInt i \<Rightarrow> str_int i | _ \<Rightarrow> tc_repr c j)"

definition py_int :: "text_codec \<Rightarrow> json \<Rightarrow> int res" where
  "py_int c j = (case j of JInt i \<Rightarrow> Inr i | JBool b \<Rightarrow> Inr (of_bool b)
     | JFloat q \<Rightarrow> Inr (round_down_int q)
     | JStr s \<Rightarrow> (case tc_int c s of None \<Rightarrow> Inl ValueError | Some i \<Rightarrow> Inr i)
     | _ \<Rightarrow> Inl TypeError)"

text \<open>\<open>bool(x)\<close>: the truth value of a decoded value.\<close>

definition py_bool :: "json \<Rightarrow> bool" where
  "py_bool j = (case j of JNull \<Rightarrow> False | JBool b \<Rightarrow> b | JInt i \<Rightarrow> i \<noteq> 0 | JFloat q \<Rightarrow> q \<noteq> 0
     | JStr s \<Rightarrow> s \<noteq> [] | JArr xs \<Rightarrow> xs \<noteq> [] | JObj kvs \<Rightarrow> kvs \<noteq> [])"

text \<open>\<open>Decimal(str(x))\<close>: a text that is no number raises \<open>InvalidOperation\<close>, an arithmetic error.
  A text that denotes NaN or Infinity is refused in the same way.\<close>

definition py_decimal :: "text_codec \<Rightarrow> json \<Rightarrow> decimal res" where
  "py_decimal c j = (case tc_dec c (py_str c j) of DecFinite x \<Rightarrow> Inr x | _ \<Rightarrow> Inl ArithmeticError)"

text \<open>\<open>float(x)\<close>\<close>

definition py_float :: "text_codec \<Rightarrow> json \<Rightarrow> decimal res" where
  "py_float c j = (case j of JInt i \<Rightarrow> Inr (of_int i) | JFloat q \<Rightarrow> Inr q | JBool b \<Rightarrow> Inr (of_bool b)
     | JStr s \<Rightarrow> (case tc_dec c s of DecFinite x \<Rightarrow> Inr x | _ \<Rightarrow> Inl ValueError)
     | _ \<Rightarrow> Inl TypeError)"

lemma py_str_JStr [simp]: "py_str c (JStr s) = s"
  by (simp add: py_str_def)

lemma py_int_JInt [simp]: "py_int c (JInt i) = Inr i"
  by (simp add: py_int_def)

lemma py_bool_JBool [simp]: "py_bool (JBool b) = b"
  by (simp add: py_bool_def)

lemma py_float_JFloat [simp]: "py_float c (JFloat q) = Inr q"
  by (simp add: py_float_def)

lemma py_decimal_dec_str [simp]: "codec_ok c \<Longrightarrow> py_decimal c (JStr (tc_dec_str c x)) = Inr x"
  by (simp add: py_decimal_def)

section \<open>Dictionary access and iteration\<close>

text \<open>\<open>d.get(k)\<close>: \<open>None\<close> stands both for a missing key and for a null value.\<close>

definition obj_get :: "(string \<times> json) list \<Rightarrow> string \<Rightarrow> json" where
  "obj_get d k = (case map_of d k of None \<Rightarrow> JNull | Some v \<Rightarrow> v)"

definition obj_get_default :: "(string \<times> json) list \<Rightarrow> string \<Rightarrow> json \<Rightarrow> json" where
  "obj_get_default d k v = (case map_of d k of None \<Rightarrow> v | Some x \<Rightarrow> x)"

definition obj_item :: "(string \<times> json) list \<Rightarrow> string \<Rightarrow> json res" where
  "obj_item d k = (case map_of d k of None \<Rightarrow> Inl KeyError | Some v \<Rightarrow> Inr v)"

text \<open>A value used as a mapping: any other type has no \<open>get\<close> method.\<close>

definition as_obj :: "json \<Rightarrow> (string \<times> json) list res" where
  "as_obj j = (case j of JObj d \<Rightarrow> Inr d | _ \<Rightarrow> Inl AttributeError)"

definition py_iter :: "json \<Rightarrow> json list res" where
  "py_iter j = (case j of JArr xs \<Rightarrow> Inr xs | JObj d \<Rightarrow> Inr (map (JStr \<circ> fst) d)
     | JStr s \<Rightarrow> Inr (map (\<lambda>ch. JStr [ch]) s) | _ \<Rightarrow> Inl TypeError)"

text \<open>White space that \<open>str.strip\<close> removes.\<close>

definition is_space :: "char \<Rightarrow> bool" where
  "is_space ch \<longleftrightarrow> (let n = of_char ch :: nat in 9 \<le> n \<and> n \<le> 13 \<or> 28 \<le> n \<and> n \<le> 32 \<or> n = 133 \<or> n = 160)"

definition strip :: "string \<Rightarrow> string" where
  "strip s = rev (dropWhile is_space (rev (dropWhile is_space s)))"

definition char_upper :: "char \<Rightarrow> char" where
  "char_upper ch = (let n = of_char ch :: nat in if 97 \<le> n \<and> n \<le> 122 then char_of (n - 32) else ch)"

definition char_lower :: "char \<Rightarrow> char" where
  "char_lower ch = (let n = of_char ch :: nat in if 65 \<le> n \<and> n \<le> 90 then char_of (n + 32) else ch)"

definition py_upper :: "string \<Rightarrow> string" where "py_upper = map char_upper"

definition py_lower :: "string \<Rightarrow> string" where "py_lower = map char_lower"

lemma obj_get_simps [simp]:
  "obj_get [] k = JNull" "obj_get ((k', v) # d) k = (if k' = k then v else obj_get d k)"
  by (simp_all add: obj_get_def)

lemma obj_get_default_simps [simp]:
  "obj_get_default [] k w = w" "obj_get_default ((k', v) # d) k w = (if k' = k then v else obj_get_default d k w)"
  by (simp_all add: obj_get_default_def)

lemma obj_item_simps [simp]:
  "obj_item [] k = Inl KeyError" "obj_item ((k', v) # d) k = (if k' = k then Inr v else obj_item d k)"
  by (simp_all add: obj_item_def)

lemma as_obj_JObj [simp]: "as_obj (JObj d) = Inr d"
  by (simp add: as_obj_def)

lemma py_iter_JArr [simp]: "py_iter (JArr xs) = Inr xs"
  by (simp add: py_iter_def)

text \<open>Converting every element of a list, stopping at the first exception.\<close>

primrec rmap :: "('a \<Rightarrow> 'b res) \<Rightarrow> 'a list \<Rightarrow> 'b list res" where
  "rmap f [] = Inr []"
| "rmap f (x # xs) = rbind (f x) (\<lambda>y. rbind (rmap f xs) (\<lambda>ys. Inr (y # ys)))"

lemma rmap_Inr: "(\<And>x. x \<in> set xs \<Longrightarrow> f x = Inr (g x)) \<Longrightarrow> rmap f xs = Inr (map g xs)"
  by (induction xs) simp_all

lemma rmap_map: "(\<And>x. x \<in> set xs \<Longrightarrow> f (g x) = Inr (h x)) \<Longrightarrow> rmap f (map g xs) = Inr (map h xs)"
  by (induction xs) simp_all

lemmas rmap_decode = rmap_map [where h = "\<lambda>x. x", unfolded list.map_ident]

section \<open>A concrete codec\<close>

text \<open>Numbers and instants written as tallies of their numerator and denominator: a codec that
  satisfies \<open>codec_ok\<close>, for the witnesses.\<close>

definition tally_int :: "int \<Rightarrow> string" where
  "tally_int i = (if 0 \<le> i then CHR ''+'' # replicate (nat i) CHR ''1'' else replicate (nat (- i)) CHR ''1'')"

definition untally_int :: "string \<Rightarrow> int" where
  "untally_int s = (case s of [] \<Rightarrow> 0 | ch # r \<Rightarrow> if ch = CHR ''+'' then int (length r) else - int (length s))"

definition tally_rat :: "rat \<Rightarrow> string" where
  "tally_rat q = (case quotient_of q of (n, d) \<Rightarrow> tally_int n @ CHR ''/'' # tally_int d)"

definition untally_rat :: "string \<Rightarrow> rat" where
  "untally_rat s = Fract (untally_int (takeWhile (\<lambda>ch. ch \<noteq> CHR ''/'') s))
     (untally_int (tl (dropWhile (\<lambda>ch. ch \<noteq> CHR ''/'') s)))"

definition plain_codec :: text_codec where
  "plain_codec = \<lparr>tc_repr = (\<lambda>j. ''?''), tc_int = (\<lambda>s. Some (untally_int s)),
     tc_dec = (\<lambda>s. DecFinite (untally_rat s)), tc_dec_str = tally_rat,
     tc_ts = (\<lambda>s. Some (Aware (untally_int s))), tc_iso = tally_int\<rparr>"

lemma untally_tally_int [simp]: "untally_int (tally_int i) = i"
  by (cases "nat (- i)") (auto simp: untally_int_def tally_int_def)

lemma slash_notin_tally_int: "ch \<in> set (tally_int i) \<Longrightarrow> ch \<noteq> CHR ''/''"
  by (auto simp: tally_int_def split: if_splits)

lemma untally_tally_rat [simp]: "untally_rat (tally_rat q) = q"
proof -
  obtain n d where nd: "quotient_of q = (n, d)" by (cases "quotient_of q")
  have "takeWhile (\<lambda>ch. ch \<noteq> CHR ''/'') (tally_int n @ CHR ''/'' # tally_int d) = tally_int n"
    "dropWhile (\<lambda>ch. ch \<noteq> CHR ''/'') (tally_int n @ CHR ''/'' # tally_int d) = CHR ''/'' # tally_int d"
    using slash_notin_tally_int by (auto simp: takeWhile_append2 dropWhile_append2)
  then show ?thesis
    using quotient_of_div [OF nd, symmetric] by (simp add: untally_rat_def tally_rat_def nd Fract_of_int_quotient)
qed

lemma plain_codec_ok: "codec_ok plain_codec"
  by (simp add: codec_ok_def plain_codec_def)

end
