(* ===== verification/Filters.thy ===== *)
theory Filters
  imports Json
begin

text \<open>
  \<open>src/live/filters.py\<close>: the venue's symbol filters, read from \<open>exchangeInfo\<close>, and the
  quantization of an order to them.  The parsers keep every early exit of the code; the
  quantizer is shown to return only orders the venue's filters accept, never above the
  requested size, and to be maximal below it.
\<close>

section \<open>Data\<close>

definition POSITION_CONTROL_NONE :: string where
  "POSITION_CONTROL_NONE = ''NONE''"

record quantized_order =
  qo_quantity :: decimal
  qo_price :: decimal
  qo_reduce_only :: bool

record symbol_filters =
  sf_symbol :: string
  sf_tick_size :: decimal
  sf_step_size :: decimal
  sf_min_qty :: decimal
  sf_min_notional :: decimal
  sf_max_qty :: decimal
  sf_quantity_precision :: int
  sf_price_precision :: int
  sf_position_control_side :: string

definition blocks_risk_increase :: "symbol_filters \<Rightarrow> bool" where
  "blocks_risk_increase f \<longleftrightarrow> sf_position_control_side f \<noteq> POSITION_CONTROL_NONE"

record delivery_info =
  di_status :: string
  di_delivery_time :: "timestamp option"

section \<open>Parsing exchangeInfo\<close>

definition required :: "(string \<times> json) list \<Rightarrow> string \<Rightarrow> json res" where
  "required m key = (case map_of m key of None \<Rightarrow> Inl DataIntegrityError | Some v \<Rightarrow> Inr v)"

definition entry_filters :: "(string \<times> json) list \<Rightarrow> json list res" where
  "entry_filters entry = (case map_of entry ''filters'' of None \<Rightarrow> Inr [] | Some j \<Rightarrow> py_iter j)"

fun find_filter :: "string \<Rightarrow> json list \<Rightarrow> (string \<times> json) list option res" where
  "find_filter ft [] = Inr None"
| "find_filter ft (item # items) =
     rbind (as_obj item) (\<lambda>d. if obj_get d ''filterType'' = JStr ft then Inr (Some d) else find_filter ft items)"

definition filter_of :: "(string \<times> json) list \<Rightarrow> string \<Rightarrow> (string \<times> json) list res" where
  "filter_of entry ft =
     rbind (entry_filters entry) (\<lambda>items.
     rbind (find_filter ft items) (\<lambda>found.
       case found of None \<Rightarrow> Inl DataIntegrityError | Some d \<Rightarrow> Inr d))"

definition notional_filter :: "(string \<times> json) list \<Rightarrow> (string \<times> json) list res" where
  "notional_filter entry =
     rbind (entry_filters entry) (\<lambda>items.
     rbind (find_filter ''MIN_NOTIONAL'' items) (\<lambda>found.
       case found of Some d \<Rightarrow> Inr d
       | None \<Rightarrow> rbind (find_filter ''NOTIONAL'' items) (\<lambda>found2.
           case found2 of Some d \<Rightarrow> Inr d | None \<Rightarrow> Inl DataIntegrityError)))"

fun position_control :: "text_codec \<Rightarrow> json list \<Rightarrow> string" where
  "position_control c [] = POSITION_CONTROL_NONE"
| "position_control c (item # items) =
     (case item of JObj d \<Rightarrow>
        if obj_get d ''filterType'' = JStr ''POSITION_RISK_CONTROL''
        then py_upper (py_str c (obj_get_default d ''positionControlSide'' (JStr POSITION_CONTROL_NONE)))
        else position_control c items
      | _ \<Rightarrow> position_control c items)"

definition tradable_entry :: "(string \<times> json) list \<Rightarrow> bool" where
  "tradable_entry entry \<longleftrightarrow> obj_get entry ''contractType'' = JStr ''PERPETUAL''
     \<and> obj_get entry ''quoteAsset'' = JStr ''USDT'' \<and> obj_get entry ''status'' = JStr ''TRADING''"

definition required_decimal :: "text_codec \<Rightarrow> (string \<times> json) list \<Rightarrow> string \<Rightarrow> decimal res" where
  "required_decimal c m key = rbind (required m key) (py_decimal c)"

definition parse_symbol_entry :: "text_codec \<Rightarrow> (string \<times> json) list \<Rightarrow> symbol_filters res" where
  "parse_symbol_entry c entry =
     rbind (required entry ''symbol'') (\<lambda>sym.
     rbind (filter_of entry ''PRICE_FILTER'') (\<lambda>price_filter.
     rbind (filter_of entry ''LOT_SIZE'') (\<lambda>lot_size.
     rbind (notional_filter entry) (\<lambda>notional.
     rbind (entry_filters entry) (\<lambda>items.
     rbind (required_decimal c price_filter ''tickSize'') (\<lambda>tick.
     rbind (required_decimal c lot_size ''stepSize'') (\<lambda>step.
     rbind (required_decimal c lot_size ''minQty'') (\<lambda>minq.
     rbind (required_decimal c notional (if map_of notional ''minNotional'' \<noteq> None then ''minNotional'' else ''notional'')) (\<lambda>minn.
     rbind (required_decimal c lot_size ''maxQty'') (\<lambda>maxq.
     rbind (rbind (required entry ''quantityPrecision'') (py_int c)) (\<lambda>qp.
     rbind (rbind (required entry ''pricePrecision'') (py_int c)) (\<lambda>pp.
       Inr \<lparr>sf_symbol = py_str c sym, sf_tick_size = tick, sf_step_size = step, sf_min_qty = minq,
            sf_min_notional = minn, sf_max_qty = maxq, sf_quantity_precision = qp,
            sf_price_precision = pp, sf_position_control_side = position_control c items\<rparr>))))))))))))"

definition parse_exchange_filters ::
    "text_codec \<Rightarrow> (string \<times> json) list \<Rightarrow> (string, symbol_filters) dict res" where
  "parse_exchange_filters c exchange_info =
     rbind (required exchange_info ''symbols'') (\<lambda>symbols.
     rbind (py_iter symbols) (\<lambda>entries.
       rfold (\<lambda>j parsed. rbind (as_obj j) (\<lambda>entry.
           if \<not> tradable_entry entry then Inr parsed
           else rbind (parse_symbol_entry c entry) (\<lambda>f. Inr (AList.update (sf_symbol f) f parsed))))
         entries []))"

definition DELISTED_STATUSES :: "string list" where
  "DELISTED_STATUSES = [''SETTLING'', ''CLOSE'']"

definition parse_delivery_schedule ::
    "text_codec \<Rightarrow> (string \<times> json) list \<Rightarrow> (string, delivery_info) dict res" where
  "parse_delivery_schedule c exchange_info =
     rbind (required exchange_info ''symbols'') (\<lambda>symbols.
     rbind (py_iter symbols) (\<lambda>entries.
       rfold (\<lambda>j schedule. rbind (as_obj j) (\<lambda>entry.
           if obj_get entry ''symbol'' = JNull then Inr schedule
           else rbind (case obj_get entry ''deliveryDate'' of JNull \<Rightarrow> Inr None
                       | raw \<Rightarrow> rbind (py_int c raw) (\<lambda>ms. Inr (Some (ms * 1000000)))) (\<lambda>delivery_time.
             Inr (AList.update (py_str c (obj_get entry ''symbol''))
               \<lparr>di_status = py_str c (obj_get_default entry ''status'' (JStr [])), di_delivery_time = delivery_time\<rparr>
               schedule))))
         entries []))"

definition is_delisted :: "delivery_info \<Rightarrow> timestamp \<Rightarrow> bool" where
  "is_delisted info now \<longleftrightarrow> di_status info \<in> set DELISTED_STATUSES
     \<and> (case di_delivery_time info of None \<Rightarrow> False | Some t \<Rightarrow> t \<le> now)"

definition held_symbols_absent_from_exchange ::
    "text_codec \<Rightarrow> (string, decimal) dict \<Rightarrow> (string \<times> json) list \<Rightarrow> string list res" where
  "held_symbols_absent_from_exchange c positions exchange_info =
     rbind (required exchange_info ''symbols'') (\<lambda>symbols.
     rbind (py_iter symbols) (\<lambda>entries.
       let listed = map (\<lambda>e. case e of JObj d \<Rightarrow> py_str c (obj_get d ''symbol'') | _ \<Rightarrow> [])
                        (filter (\<lambda>e. case e of JObj d \<Rightarrow> True | _ \<Rightarrow> False) entries)
       in Inr (sort (map fst (filter (\<lambda>(s, q). q \<noteq> 0 \<and> s \<notin> set listed) positions)))))"

section \<open>Quantization\<close>

datatype rounding = ROUND_DOWN | ROUND_UP

definition to_integral_value :: "rounding \<Rightarrow> decimal \<Rightarrow> decimal" where
  "to_integral_value r x = of_int (case r of ROUND_DOWN \<Rightarrow> round_down_int x | ROUND_UP \<Rightarrow> round_up_int x)"

definition quantize_to_multiple :: "decimal \<Rightarrow> decimal \<Rightarrow> rounding \<Rightarrow> decimal res" where
  "quantize_to_multiple value multiple rounding =
     (if multiple \<le> 0 then Inl ValueError
      else rbind (ddiv value multiple) (\<lambda>q. Inr (dmul (to_integral_value rounding q) multiple)))"

definition quantize_order ::
    "symbol_filters \<Rightarrow> decimal \<Rightarrow> decimal \<Rightarrow> bool \<Rightarrow> quantized_order option res" where
  "quantize_order filters target_qty reference_price reduce_only =
     (let side_buy = (0 \<le> target_qty);
          qty0 = min (dabs target_qty) (sf_max_qty filters)
      in rbind (quantize_to_multiple qty0 (sf_step_size filters) ROUND_DOWN) (\<lambda>qty.
         if qty < sf_min_qty filters then Inr None
         else rbind (quantize_to_multiple reference_price (sf_tick_size filters)
                      (if side_buy then ROUND_DOWN else ROUND_UP)) (\<lambda>price0.
           let price = (if price0 \<le> 0 then sf_tick_size filters else price0);
               notional = dmul qty price
           in if notional < sf_min_notional filters \<and> \<not> (reduce_only \<and> target_qty \<noteq> 0) then Inr None
              else Inr (Some \<lparr>qo_quantity = (if side_buy then qty else dneg qty),
                              qo_price = price, qo_reduce_only = reduce_only\<rparr>))))"

section \<open>Correctness of quantization\<close>

text \<open>The venue publishes step and tick sizes that are powers of ten, and a maximal quantity of at
  most 28 digits; then every quotient and product of the quantizer is exact.\<close>

definition filters_wf :: "symbol_filters \<Rightarrow> bool" where
  "filters_wf f \<longleftrightarrow> (\<exists>s. sf_step_size f = pow10 s) \<and> (\<exists>t. sf_tick_size f = pow10 t)
     \<and> 0 < sf_min_qty f \<and> 0 \<le> sf_max_qty f \<and> exact28 (sf_max_qty f)"

lemma exact28_div_pow10: "exact28 x \<Longrightarrow> exact28 (x / pow10 e)"
  by (simp add: exact28_def dec_repr_div_pow10)

lemma exact28_mult_pow10: "exact28 x \<Longrightarrow> exact28 (x * pow10 e)"
  by (simp add: exact28_def dec_repr_mult_pow10)

lemma quantize_down_pow10:
  assumes "exact28 v" "0 \<le> v"
  shows "quantize_to_multiple v (pow10 e) ROUND_DOWN = Inr (of_int \<lfloor>v / pow10 e\<rfloor> * pow10 e)"
proof -
  have q: "exact28 (v / pow10 e)" using assms(1) by (rule exact28_div_pow10)
  have "0 \<le> v / pow10 e" using assms(2) by simp
  then have "exact28 (of_int \<lfloor>v / pow10 e\<rfloor>)" using q by (simp add: exact28_def dec_repr_floor)
  then have "exact28 (of_int \<lfloor>v / pow10 e\<rfloor> * pow10 e)" by (rule exact28_mult_pow10)
  with q \<open>0 \<le> v / pow10 e\<close> show ?thesis
    by (simp add: quantize_to_multiple_def ddiv_def dmul_def d28.rnd_exact to_integral_value_def
        round_down_int_def not_le [symmetric] del: zero_le_divide_iff)
qed

lemma quantize_up_pow10:
  assumes "exact28 v" "0 \<le> v"
  shows "quantize_to_multiple v (pow10 e) ROUND_UP = Inr (of_int \<lceil>v / pow10 e\<rceil> * pow10 e)"
proof -
  have q: "exact28 (v / pow10 e)" using assms(1) by (rule exact28_div_pow10)
  have "0 \<le> v / pow10 e" using assms(2) by simp
  then have "exact28 (of_int \<lceil>v / pow10 e\<rceil>)" using q by (simp add: exact28_def dec_repr_ceiling)
  then have "exact28 (of_int \<lceil>v / pow10 e\<rceil> * pow10 e)" by (rule exact28_mult_pow10)
  with q \<open>0 \<le> v / pow10 e\<close> show ?thesis
    by (simp add: quantize_to_multiple_def ddiv_def dmul_def d28.rnd_exact to_integral_value_def
        round_up_int_def not_le [symmetric] del: zero_le_divide_iff)
qed

lemma floor_multiple_le: "of_int \<lfloor>v / pow10 e\<rfloor> * pow10 e \<le> v"
  by (rule iffD1 [OF pos_le_divide_eq [OF pow10_pos]]) (rule of_int_floor_le)

lemma floor_multiple_gt: "v < of_int \<lfloor>v / pow10 e\<rfloor> * pow10 e + pow10 e"
proof -
  have "v / pow10 e < of_int \<lfloor>v / pow10 e\<rfloor> + 1" by linarith
  then have "v < (of_int \<lfloor>v / pow10 e\<rfloor> + 1) * pow10 e"
    by (rule iffD1 [OF pos_divide_less_eq [OF pow10_pos]])
  then show ?thesis by (simp add: distrib_right)
qed

lemma ceiling_multiple_ge: "v \<le> of_int \<lceil>v / pow10 e\<rceil> * pow10 e"
  by (rule iffD1 [OF pos_divide_le_eq [OF pow10_pos]]) (rule le_of_int_ceiling)

text \<open>With well-formed filters and inputs of at most 28 digits, the quantizer computes on exact
  numbers: floors and ceilings of the exact quotients.  Only the notional is rounded.\<close>

definition quantized_qty :: "symbol_filters \<Rightarrow> int \<Rightarrow> decimal \<Rightarrow> decimal" where
  "quantized_qty f s target = of_int \<lfloor>min \<bar>target\<bar> (sf_max_qty f) / pow10 s\<rfloor> * pow10 s"

definition quantized_price :: "int \<Rightarrow> decimal \<Rightarrow> decimal \<Rightarrow> decimal" where
  "quantized_price t target ref =
     max (of_int (if 0 \<le> target then \<lfloor>ref / pow10 t\<rfloor> else \<lceil>ref / pow10 t\<rceil>) * pow10 t) (pow10 t)"

lemma tick_floor:
  "max (of_int k * pow10 t) (pow10 t) = (if of_int k * pow10 t \<le> 0 then pow10 t else of_int k * pow10 t)"
proof -
  have "k \<le> 0 \<or> 1 \<le> k" by linarith
  moreover have "of_int k * pow10 t \<le> 0 \<longleftrightarrow> k \<le> 0" by (simp add: mult_le_0_iff)
  moreover have "k \<le> 0 \<Longrightarrow> of_int k * pow10 t \<le> pow10 t" by (metis calculation(2) order.trans pow10_nonneg)
  moreover have "1 \<le> k \<Longrightarrow> pow10 t \<le> of_int k * pow10 t" by (simp add: mult_le_cancel_right1)
  ultimately show ?thesis by (auto simp: max_def)
qed

lemma exact28_quantized_qty:
  assumes "0 \<le> sf_max_qty f" "exact28 (sf_max_qty f)" "exact28 target"
  shows "exact28 (quantized_qty f s target)"
proof -
  have "exact28 (min \<bar>target\<bar> (sf_max_qty f))" "0 \<le> min \<bar>target\<bar> (sf_max_qty f)"
    using assms by (auto simp: min_def)
  then show ?thesis
    by (simp add: quantized_qty_def exact28_def dec_repr_floor dec_repr_mult_pow10 dec_repr_div_pow10 del: min_le_iff_disj)
qed

lemma quantize_order_exact:
  assumes "sf_step_size f = pow10 s" "sf_tick_size f = pow10 t" "0 \<le> sf_max_qty f" "exact28 (sf_max_qty f)"
    and "exact28 target" "exact28 ref" "0 \<le> ref"
  shows "quantize_order f target ref ro =
    (let qty = quantized_qty f s target; price = quantized_price t target ref
     in if qty < sf_min_qty f \<or> dmul qty price < sf_min_notional f \<and> \<not> (ro \<and> target \<noteq> 0) then Inr None
        else Inr (Some \<lparr>qo_quantity = (if 0 \<le> target then qty else - qty), qo_price = price, qo_reduce_only = ro\<rparr>))"
proof -
  define v where "v = min \<bar>target\<bar> (sf_max_qty f)"
  have v: "exact28 v" "0 \<le> v" using assms by (auto simp: v_def min_def)
  have qty28: "exact28 (quantized_qty f s target)" using assms by (intro exact28_quantized_qty)
  have q1: "quantize_to_multiple (min (dabs target) (sf_max_qty f)) (sf_step_size f) ROUND_DOWN = Inr (quantized_qty f s target)"
    using v assms by (simp add: dabs_exact v_def [symmetric] quantize_down_pow10 quantized_qty_def)
  define p0 where "p0 = of_int (if 0 \<le> target then \<lfloor>ref / pow10 t\<rfloor> else \<lceil>ref / pow10 t\<rceil>) * pow10 t"
  have q2: "quantize_to_multiple ref (sf_tick_size f) (if 0 \<le> target then ROUND_DOWN else ROUND_UP) = Inr p0"
    using assms by (simp add: p0_def quantize_down_pow10 quantize_up_pow10)
  have q3: "(if p0 \<le> 0 then sf_tick_size f else p0) = quantized_price t target ref"
    unfolding quantized_price_def p0_def assms(2) by (rule tick_floor [symmetric])
  show ?thesis
    unfolding quantize_order_def Let_def q1 rbind_Inr q2 q3 dneg_exact [OF qty28]
    by (cases "quantized_qty f s target < sf_min_qty f") (simp_all only: if_True if_False simp_thms)
qed

section \<open>Properties\<close>

definition btc_filters :: symbol_filters where
  "btc_filters = \<lparr>sf_symbol = ''BTCUSDT'', sf_tick_size = 1 / 10, sf_step_size = 1 / 1000,
     sf_min_qty = 1 / 1000, sf_min_notional = 100, sf_max_qty = 1000,
     sf_quantity_precision = 3, sf_price_precision = 2, sf_position_control_side = ''NONE''\<rparr>"

lemma pow10_minus_numeral: "pow10 (- numeral n) = 1 / 10 ^ numeral n" "pow10 (- 1) = 1 / 10"
  by (simp_all add: pow10_def)

lemma btc_filters_wf: "filters_wf btc_filters"
proof -
  have "sf_step_size btc_filters = pow10 (- 3)" "sf_tick_size btc_filters = pow10 (- 1)"
    by (simp_all add: btc_filters_def pow10_minus_numeral)
  moreover have "exact28 1000" by (rule exact28_numeral) simp
  ultimately show ?thesis by (auto simp: filters_wf_def btc_filters_def)
qed

lemma btc_quantize:
  assumes "exact28 c"
  shows "quantize_order btc_filters c 50000 ro =
    (let qty = of_int \<lfloor>min \<bar>c\<bar> 1000 * 1000\<rfloor> / 1000
     in if qty < 1 / 1000 \<or> dmul qty 50000 < 100 \<and> \<not> (ro \<and> c \<noteq> 0) then Inr None
        else Inr (Some \<lparr>qo_quantity = (if 0 \<le> c then qty else - qty), qo_price = 50000, qo_reduce_only = ro\<rparr>))"
proof -
  have r: "exact28 50000" "exact28 1000" by (rule exact28_numeral, simp)+
  have p: "quantized_price (- 1) c 50000 = 50000" by (simp add: quantized_price_def pow10_minus_numeral)
  have q: "quantized_qty btc_filters (- 3) c = of_int \<lfloor>min \<bar>c\<bar> 1000 * 1000\<rfloor> / 1000"
    by (simp add: quantized_qty_def btc_filters_def pow10_minus_numeral)
  have "quantize_order btc_filters c 50000 ro =
    (let qty = quantized_qty btc_filters (- 3) c; price = quantized_price (- 1) c 50000
     in if qty < sf_min_qty btc_filters \<or> dmul qty price < sf_min_notional btc_filters \<and> \<not> (ro \<and> c \<noteq> 0) then Inr None
        else Inr (Some \<lparr>qo_quantity = (if 0 \<le> c then qty else - qty), qo_price = price, qo_reduce_only = ro\<rparr>))"
    by (rule quantize_order_exact) (simp_all add: assms r btc_filters_def pow10_minus_numeral)
  then show ?thesis unfolding p q by (simp add: btc_filters_def)
qed

text \<open>C34: An order that \<open>quantize_order\<close> returns meets every filter of the venue: the quantity is a
  multiple of the step size, between the minimal and the maximal quantity, on the requested side,
  never larger than requested and larger than any smaller multiple the filters allow; the price is
  a positive multiple of the tick on the passive side of the reference price (or the first tick);
  the notional reaches the minimum unless the order reduces a position.\<close>

theorem quantize_order_respects_filters:
  assumes "filters_wf f" "exact28 target" "exact28 ref" "0 \<le> ref"
    and "quantize_order f target ref ro = Inr (Some q)"
  shows "(\<exists>k::int. \<bar>qo_quantity q\<bar> = of_int k * sf_step_size f)
    \<and> \<bar>qo_quantity q\<bar> \<le> \<bar>target\<bar>
    \<and> min \<bar>target\<bar> (sf_max_qty f) < \<bar>qo_quantity q\<bar> + sf_step_size f
    \<and> sf_min_qty f \<le> \<bar>qo_quantity q\<bar> \<and> \<bar>qo_quantity q\<bar> \<le> sf_max_qty f
    \<and> (if 0 \<le> target then 0 < qo_quantity q else qo_quantity q < 0)
    \<and> (\<exists>k::int. qo_price q = of_int k * sf_tick_size f) \<and> 0 < qo_price q
    \<and> (if 0 \<le> target then qo_price q \<le> max ref (sf_tick_size f) else ref \<le> qo_price q)
    \<and> (sf_min_notional f \<le> dmul \<bar>qo_quantity q\<bar> (qo_price q) \<or> (ro \<and> target \<noteq> 0))"
proof -
  obtain s t where st: "sf_step_size f = pow10 s" "sf_tick_size f = pow10 t"
    using assms(1) by (auto simp: filters_wf_def)
  define qty where "qty = quantized_qty f s target"
  define price where "price = quantized_price t target ref"
  have run: "sf_min_qty f \<le> qty" "sf_min_notional f \<le> dmul qty price \<or> (ro \<and> target \<noteq> 0)"
    "qo_quantity q = (if 0 \<le> target then qty else - qty)" "qo_price q = price"
    using assms quantize_order_exact [OF st, of target ref ro]
    by (auto simp: filters_wf_def Let_def qty_def price_def split: if_splits)
  have pos: "0 < qty" using run(1) assms(1) by (simp add: filters_wf_def)
  then have abs: "\<bar>qo_quantity q\<bar> = qty" by (simp add: run(3))
  have bound: "qty \<le> min \<bar>target\<bar> (sf_max_qty f)" "min \<bar>target\<bar> (sf_max_qty f) < qty + pow10 s"
    unfolding qty_def quantized_qty_def by (rule floor_multiple_le floor_multiple_gt)+
  show ?thesis
    unfolding abs st run(4)
  proof (intro conjI)
    show "\<exists>k::int. qty = of_int k * pow10 s" unfolding qty_def quantized_qty_def by blast
    show "\<exists>k::int. price = of_int k * pow10 t"
      unfolding price_def quantized_price_def by (metis max_def mult_1 of_int_1)
    show "0 < price" by (simp add: price_def quantized_price_def less_max_iff_disj)
    show "(if 0 \<le> target then price \<le> max ref (pow10 t) else ref \<le> price)"
      using max.mono [OF floor_multiple_le order_refl, of ref t "pow10 t"] ceiling_multiple_ge [of ref t]
      by (auto simp: price_def quantized_price_def le_max_iff_disj simp del: max.bounded_iff)
    show "(if 0 \<le> target then 0 < qo_quantity q else qo_quantity q < 0)" using pos run(3) by simp
  qed (use bound run in auto)
qed

theorem quantize_order_respects_filters_witness:
  "\<exists>q. quantize_order btc_filters (- (1234 / 10000)) 50000 False = Inr (Some q)
     \<and> qo_quantity q = - (123 / 1000) \<and> 50000 \<le> qo_price q"
proof -
  have e: "exact28 (- (1234 / 10000))"
    by (rule exact28_scaled [of "- 1234" _ "- 4"]) (simp_all add: pow10_minus_numeral)
  have r: "exact28 50000" by (rule exact28_numeral) simp
  have n: "rnd28 6150 = 6150" by (rule d28.rnd_exact, rule exact28_numeral) simp
  have fl: "\<lfloor>617 / 5 :: rat\<rfloor> = 123" by (simp add: floor_eq_iff)
  have run: "quantize_order btc_filters (- (1234 / 10000)) 50000 False =
      Inr (Some \<lparr>qo_quantity = - (123 / 1000), qo_price = 50000, qo_reduce_only = False\<rparr>)"
    unfolding btc_quantize [OF e] by (simp add: dmul_def min_def fl n)
  show ?thesis
    using quantize_order_respects_filters [OF btc_filters_wf e r _ run] run
    by simp
qed

end
