(* ===== verification/Planner.thy ===== *)
theory Planner
  imports Filters
begin

text \<open>
  \<open>src/live/planner.py\<close>: splitting the difference between target and current positions into
  order intents, the deterministic client order id, and the split of intents under the venue's
  position-risk control.  The symbol tag (the first ten base-32 characters of a SHA-256 digest)
  is a parameter.
\<close>

section \<open>Client order ids\<close>

definition CLIENT_ORDER_NAMESPACE :: string where
  "CLIENT_ORDER_NAMESPACE = ''mh''"

definition client_id_char :: "char \<Rightarrow> bool" where
  "client_id_char ch \<longleftrightarrow> ch \<in> set ''._-'' \<or> is_digit ch
     \<or> 65 \<le> (of_char ch :: nat) \<and> of_char ch \<le> (90 :: nat) \<or> 97 \<le> (of_char ch :: nat) \<and> of_char ch \<le> (122 :: nat)"

definition client_order_id_pattern :: "string \<Rightarrow> bool" where
  "client_order_id_pattern s \<longleftrightarrow> 1 \<le> length s \<and> length s \<le> 36 \<and> list_all client_id_char s"

definition build_client_order_id ::
    "(string \<Rightarrow> string) \<Rightarrow> string \<Rightarrow> string \<Rightarrow> int \<Rightarrow> int \<Rightarrow> int \<Rightarrow> string res" where
  "build_client_order_id tag run_id symbol leg_index generation submit_seq =
     (let candidate = CLIENT_ORDER_NAMESPACE @ run_id @ ''-'' @ tag symbol @ ''-'' @ str_int leg_index
            @ ''-'' @ str_int generation @ ''-'' @ str_int submit_seq
      in if client_order_id_pattern candidate then Inr candidate else Inl ValueError)"

section \<open>Order intents\<close>

record order_intent =
  oi_symbol :: string
  oi_side :: string
  oi_quantity :: decimal
  oi_reduce_only :: bool
  oi_target_qty :: decimal
  oi_current_qty :: decimal
  oi_client_order_prefix :: string
  oi_leg_index :: int
  oi_decision_price :: decimal

definition plan_components :: "decimal \<Rightarrow> decimal \<Rightarrow> (decimal \<times> bool) list" where
  "plan_components target current_qty =
     (if current_qty \<noteq> 0 \<and> target \<noteq> 0 \<and> (0 < target) \<noteq> (0 < current_qty)
      then [(dneg current_qty, True), (target, False)]
      else [(dsub target current_qty, dabs target < dabs current_qty)])"

fun plan_legs :: "symbol_filters \<Rightarrow> decimal \<Rightarrow> string \<Rightarrow> decimal \<Rightarrow> decimal \<Rightarrow> string \<Rightarrow> int
    \<Rightarrow> (decimal \<times> bool) list \<Rightarrow> order_intent list res" where
  "plan_legs f mark symbol target current_qty run_id leg_index [] = Inr []"
| "plan_legs f mark symbol target current_qty run_id leg_index ((component_qty, reduce_only) # rest) =
     rbind (quantize_order f component_qty mark reduce_only) (\<lambda>quantized.
     rbind (plan_legs f mark symbol target current_qty run_id (leg_index + 1) rest) (\<lambda>intents.
       case quantized of None \<Rightarrow> Inr intents
       | Some q \<Rightarrow> Inr (\<lparr>oi_symbol = symbol, oi_side = (if 0 < qo_quantity q then ''BUY'' else ''SELL''),
            oi_quantity = dabs (qo_quantity q), oi_reduce_only = reduce_only, oi_target_qty = target,
            oi_current_qty = current_qty, oi_client_order_prefix = run_id, oi_leg_index = leg_index,
            oi_decision_price = mark\<rparr> # intents)))"

definition plan_symbol :: "(string, decimal) dict \<Rightarrow> (string, decimal) dict \<Rightarrow> (string, symbol_filters) dict
    \<Rightarrow> (string, decimal) dict \<Rightarrow> string \<Rightarrow> string \<Rightarrow> order_intent list res" where
  "plan_symbol targets current filters marks run_id symbol =
     (let target = dict_get targets symbol 0
      in case (map_of filters symbol, map_of marks symbol) of
           (Some f, Some mark) \<Rightarrow>
             if mark \<le> 0 then Inr []
             else (let current_qty = dict_get current symbol 0
                   in plan_legs f mark symbol target current_qty run_id 0 (plan_components target current_qty))
         | _ \<Rightarrow> Inr [])"

definition plan_orders :: "(string, decimal) dict \<Rightarrow> (string, decimal) dict \<Rightarrow> (string, symbol_filters) dict
    \<Rightarrow> (string, decimal) dict \<Rightarrow> string \<Rightarrow> order_intent list res" where
  "plan_orders targets current filters marks run_id =
     rbind (rmap (plan_symbol targets current filters marks run_id)
        (sorted_set (map fst targets @ map fst current))) (\<lambda>legs. Inr (concat legs))"

definition risk_blocked :: "(string, symbol_filters) dict \<Rightarrow> order_intent \<Rightarrow> bool" where
  "risk_blocked filters i \<longleftrightarrow> (case map_of filters (oi_symbol i) of None \<Rightarrow> False
     | Some f \<Rightarrow> blocks_risk_increase f \<and> \<not> oi_reduce_only i)"

fun partition_risk_controlled ::
    "order_intent list \<Rightarrow> (string, symbol_filters) dict \<Rightarrow> order_intent list \<times> order_intent list" where
  "partition_risk_controlled [] filters = ([], [])"
| "partition_risk_controlled (intent # intents) filters =
     (case partition_risk_controlled intents filters of (allowed, blocked) \<Rightarrow>
        if risk_blocked filters intent then (allowed, intent # blocked) else (intent # allowed, blocked))"

section \<open>Client order ids are unique per submission\<close>

lemma client_id_suffix:
  assumes "p @ CHR ''-'' # str_nat m = q @ CHR ''-'' # str_nat n" shows "m = n"
proof -
  have "takeWhile (\<lambda>ch. ch \<noteq> CHR ''-'') (rev (r @ CHR ''-'' # str_nat k)) = rev (str_nat k)" for r k
  proof -
    have "takeWhile (\<lambda>ch. ch \<noteq> CHR ''-'') (rev (str_nat k) @ CHR ''-'' # rev r) = rev (str_nat k)"
      using dash_notin_str_nat [of k] by (subst takeWhile_append2) auto
    then show ?thesis by simp
  qed
  from this [of p m] this [of q n] assms have "rev (str_nat m) = rev (str_nat n)" by simp
  then show ?thesis by simp
qed

lemma client_id_form:
  assumes "build_client_order_id tag r s l g n = Inr cid" "0 \<le> n"
  shows "\<exists>p. cid = p @ CHR ''-'' # str_nat (nat n)"
proof -
  have "str_int n = str_nat (nat n)" using assms(2) by (simp add: str_int_def)
  with assms(1) have "cid = (CLIENT_ORDER_NAMESPACE @ r @ ''-'' @ tag s @ ''-'' @ str_int l @ ''-'' @ str_int g)
      @ CHR ''-'' # str_nat (nat n)"
    by (simp add: build_client_order_id_def Let_def split: if_splits)
  then show ?thesis by blast
qed

text \<open>Two submissions with different journal sequence numbers never share a client order id,
  whatever run, symbol, leg and generation they belong to.\<close>

theorem client_order_id_unique:
  assumes "build_client_order_id tag r1 s1 l1 g1 n1 = Inr cid"
    and "build_client_order_id tag r2 s2 l2 g2 n2 = Inr cid"
    and "0 \<le> n1" "0 \<le> n2"
  shows "n1 = n2"
proof -
  obtain p q where p: "cid = p @ CHR ''-'' # str_nat (nat n1)" and q: "cid = q @ CHR ''-'' # str_nat (nat n2)"
    using client_id_form [OF assms(1,3)] client_id_form [OF assms(2,4)] by blast
  have "nat n1 = nat n2" by (rule client_id_suffix [OF trans [OF p [symmetric] q]])
  with assms(3,4) show ?thesis by simp
qed

theorem client_order_id_unique_witness:
  "build_client_order_id (\<lambda>s. ''ABCDEFGHIJ'') ''20260101'' ''BTCUSDT'' 0 0 7 = Inr ''mh20260101-ABCDEFGHIJ-0-0-7''
   \<and> build_client_order_id (\<lambda>s. ''ABCDEFGHIJ'') ''20260101'' ''BTCUSDT'' 0 1 8 \<noteq> Inr ''mh20260101-ABCDEFGHIJ-0-0-7''
   \<and> (7 :: int) = 7"
proof -
  have run: "build_client_order_id (\<lambda>s. ''ABCDEFGHIJ'') ''20260101'' ''BTCUSDT'' 0 0 7 = Inr ''mh20260101-ABCDEFGHIJ-0-0-7''"
    by (simp add: build_client_order_id_def CLIENT_ORDER_NAMESPACE_def str_int_def str_nat.simps digit_char_def
        client_order_id_pattern_def client_id_char_def is_digit_def char_of_def bit_0)
  have "build_client_order_id (\<lambda>s. ''ABCDEFGHIJ'') ''20260101'' ''BTCUSDT'' 0 1 8 \<noteq> Inr ''mh20260101-ABCDEFGHIJ-0-0-7''"
    using client_order_id_unique [OF run, of "''20260101''" "''BTCUSDT''" 0 1 8] by auto
  with run client_order_id_unique [OF run run] show ?thesis by simp
qed

section \<open>Planned orders move positions toward their targets\<close>

definition signed_quantity :: "order_intent \<Rightarrow> decimal" where
  "signed_quantity i = (if oi_side i = ''BUY'' then oi_quantity i else - oi_quantity i)"

text \<open>What a quantized component becomes: an intent on the component's side, no larger than it.\<close>

lemma quantized_component:
  assumes "quantize_order f c mark ro = Inr (Some q)" "filters_wf f" "exact28 c" "exact28 mark" "0 < mark"
  shows "dabs (qo_quantity q) = \<bar>qo_quantity q\<bar>" "0 < \<bar>qo_quantity q\<bar>" "\<bar>qo_quantity q\<bar> \<le> \<bar>c\<bar>"
    "0 < qo_quantity q \<longleftrightarrow> 0 < c" "c \<noteq> 0"
proof -
  obtain s t where st: "sf_step_size f = pow10 s" "sf_tick_size f = pow10 t" "0 < sf_min_qty f"
      "0 \<le> sf_max_qty f" "exact28 (sf_max_qty f)"
    using assms(2) by (auto simp: filters_wf_def)
  define qty where "qty = quantized_qty f s c"
  have run: "sf_min_qty f \<le> qty" "qo_quantity q = (if 0 \<le> c then qty else - qty)"
    using assms st quantize_order_exact [OF st(1,2,4,5), of c mark ro]
    by (auto simp: Let_def qty_def split: if_splits)
  have bound: "qty \<le> \<bar>c\<bar>"
    using floor_multiple_le [of "min \<bar>c\<bar> (sf_max_qty f)" s] by (simp add: qty_def quantized_qty_def)
  have "exact28 qty" unfolding qty_def using st assms(3) by (intro exact28_quantized_qty)
  then have "exact28 (qo_quantity q)" by (simp add: run(2))
  then show "dabs (qo_quantity q) = \<bar>qo_quantity q\<bar>" by (rule dabs_exact)
  have pos: "0 < qty" using run(1) st(3) by simp
  show "0 < \<bar>qo_quantity q\<bar>" "\<bar>qo_quantity q\<bar> \<le> \<bar>c\<bar>" using pos bound by (auto simp: run(2))
  show "c \<noteq> 0" using pos bound by auto
  with pos show "0 < qo_quantity q \<longleftrightarrow> 0 < c" by (auto simp: run(2))
qed

definition between :: "decimal \<Rightarrow> decimal \<Rightarrow> bool" where
  "between x d \<longleftrightarrow> (if 0 \<le> d then 0 \<le> x \<and> x \<le> d else d \<le> x \<and> x \<le> 0)"

lemma between_0 [simp]: "between 0 d"
  by (simp add: between_def)

definition leg_intent :: "string \<Rightarrow> decimal \<Rightarrow> decimal \<Rightarrow> decimal \<times> bool \<Rightarrow> order_intent \<Rightarrow> bool" where
  "leg_intent symbol target cur c i \<longleftrightarrow> oi_symbol i = symbol \<and> oi_target_qty i = target \<and> oi_current_qty i = cur
     \<and> oi_reduce_only i = snd c \<and> 0 < oi_quantity i \<and> oi_quantity i \<le> \<bar>fst c\<bar>
     \<and> oi_side i = (if 0 < fst c then ''BUY'' else ''SELL'') \<and> fst c \<noteq> 0"

lemma leg_intent_between: "leg_intent symbol target cur c i \<Longrightarrow> between (signed_quantity i) (fst c)"
  by (auto simp: leg_intent_def between_def signed_quantity_def)

text \<open>The legs of one symbol: each component yields at most one intent, in order.\<close>

lemma plan_legs_1:
  assumes "plan_legs f mark symb target cur rid k [c] = Inr xs" "filters_wf f" "exact28 (fst c)" "exact28 mark" "0 < mark"
  shows "xs = [] \<or> (\<exists>i. xs = [i] \<and> leg_intent symb target cur c i)"
  using assms quantized_component [of f "fst c" mark "snd c"]
  by (cases c) (auto simp: result_simps leg_intent_def split: option.splits)

lemma plan_legs_2:
  assumes "plan_legs f mark symb target cur rid k [c, d] = Inr xs" "filters_wf f" "exact28 (fst c)" "exact28 (fst d)"
    "exact28 mark" "0 < mark"
  shows "\<exists>ys zs. xs = ys @ zs \<and> (ys = [] \<or> (\<exists>i. ys = [i] \<and> leg_intent symb target cur c i))
     \<and> (zs = [] \<or> (\<exists>i. zs = [i] \<and> leg_intent symb target cur d i))"
proof -
  obtain ys zs where xs: "xs = ys @ zs" and ys: "plan_legs f mark symb target cur rid k [c] = Inr ys"
    and zs: "plan_legs f mark symb target cur rid (k + 1) [d] = Inr zs"
    using assms(1) by (cases c) (auto simp: result_simps split: option.splits)
  show ?thesis
    using xs plan_legs_1 [OF ys assms(2,3,5,6)] plan_legs_1 [OF zs assms(2,4,5,6)] by (intro exI conjI)
qed

text \<open>The inputs the planner works on: well-formed filters and values of at most 28 digits.\<close>

definition plan_inputs_ok :: "(string, decimal) dict \<Rightarrow> (string, decimal) dict \<Rightarrow> (string, symbol_filters) dict
    \<Rightarrow> (string, decimal) dict \<Rightarrow> bool" where
  "plan_inputs_ok targets current filters marks \<longleftrightarrow>
     (\<forall>f \<in> snd ` set filters. filters_wf f) \<and> (\<forall>x \<in> snd ` set targets. exact28 x)
     \<and> (\<forall>x \<in> snd ` set current. exact28 x) \<and> (\<forall>x \<in> snd ` set marks. exact28 x)"

lemma dict_get_in: "(\<forall>x \<in> snd ` set d. P x) \<Longrightarrow> P v \<Longrightarrow> P (dict_get d k v)"
  using map_of_SomeD by (fastforce simp: dict_get_def split: option.splits)

definition flips :: "decimal \<Rightarrow> decimal \<Rightarrow> bool" where
  "flips target cur \<longleftrightarrow> cur \<noteq> 0 \<and> target \<noteq> 0 \<and> (0 < target) \<noteq> (0 < cur)"

definition close_leg :: "decimal \<Rightarrow> decimal \<times> bool" where "close_leg cur = (- cur, True)"

definition delta_leg :: "decimal \<Rightarrow> decimal \<Rightarrow> decimal \<times> bool" where
  "delta_leg target cur = (rnd28 (target - cur), \<bar>target\<bar> < \<bar>cur\<bar>)"

lemma plan_components_exact:
  "exact28 target \<Longrightarrow> exact28 cur \<Longrightarrow> plan_components target cur =
     (if flips target cur then [close_leg cur, (target, False)] else [delta_leg target cur])"
  by (simp add: plan_components_def flips_def close_leg_def delta_leg_def dneg_exact dabs_exact dsub_def)

lemma plan_symbol_legs:
  assumes "plan_symbol targets current filters marks rid s = Inr xs" "plan_inputs_ok targets current filters marks"
    and "target = dict_get targets s 0" "cur = dict_get current s 0"
  obtains ys zs where "xs = ys @ zs"
    "ys = [] \<or> (\<exists>i. ys = [i] \<and> leg_intent s target cur (if flips target cur then close_leg cur else delta_leg target cur) i)"
    "zs = [] \<or> (\<exists>i. zs = [i] \<and> flips target cur \<and> leg_intent s target cur (target, False) i)"
proof (cases "map_of filters s = None \<or> map_of marks s = None \<or> the (map_of marks s) \<le> 0")
  case True
  then have "xs = []" using assms(1) by (auto simp: plan_symbol_def Let_def split: option.splits)
  then show thesis using that [of "[]" "[]"] by simp
next
  case False
  then obtain f m where fm: "map_of filters s = Some f" "map_of marks s = Some m" "0 < m" by auto
  then have ok: "filters_wf f" "exact28 m" "exact28 target" "exact28 cur"
    using assms(2-4) by (auto simp: plan_inputs_ok_def dict_get_in dest!: map_of_SomeD)
  have run: "plan_legs f m s target cur rid 0 (plan_components target cur) = Inr xs"
    using assms(1,3,4) fm by (simp add: plan_symbol_def Let_def)
  show thesis
  proof (cases "flips target cur")
    case True
    then have "plan_legs f m s target cur rid 0 [close_leg cur, (target, False)] = Inr xs"
      using run ok by (simp add: plan_components_exact)
    from plan_legs_2 [OF this ok(1)] ok fm(3) obtain ys zs where "xs = ys @ zs"
      "ys = [] \<or> (\<exists>i. ys = [i] \<and> leg_intent s target cur (close_leg cur) i)"
      "zs = [] \<or> (\<exists>i. zs = [i] \<and> leg_intent s target cur (target, False) i)"
      by (auto simp: close_leg_def)
    with True that show thesis by simp
  next
    case False
    then have "plan_legs f m s target cur rid 0 [delta_leg target cur] = Inr xs"
      using run ok by (simp add: plan_components_exact)
    from plan_legs_1 [OF this ok(1)] ok fm(3) d28.exact_rnd
    have "xs = [] \<or> (\<exists>i. xs = [i] \<and> leg_intent s target cur (delta_leg target cur) i)"
      by (auto simp: delta_leg_def)
    with False that [of xs "[]"] show thesis by simp
  qed
qed

definition net_quantity :: "string \<Rightarrow> order_intent list \<Rightarrow> decimal" where
  "net_quantity s xs = sum_list (map signed_quantity (filter (\<lambda>i. oi_symbol i = s) xs))"

lemma plan_symbol_intents:
  assumes "plan_symbol targets current filters marks rid s = Inr xs" "plan_inputs_ok targets current filters marks"
  shows "\<forall>i \<in> set xs. oi_symbol i = s \<and> 0 < oi_quantity i"
proof -
  obtain ys zs c d where "xs = ys @ zs"
    "ys = [] \<or> (\<exists>i. ys = [i] \<and> leg_intent s (dict_get targets s 0) (dict_get current s 0) c i)"
    "zs = [] \<or> (\<exists>i. zs = [i] \<and> leg_intent s (dict_get targets s 0) (dict_get current s 0) d i)"
    by (rule plan_symbol_legs [OF assms refl refl]) blast
  then show ?thesis by (elim disjE exE conjE) (simp_all add: leg_intent_def)
qed

lemma leg_between:
  "ys = [] \<or> (\<exists>i. ys = [i] \<and> leg_intent s t cur c i) \<Longrightarrow> between (sum_list (map signed_quantity ys)) (fst c)"
  by (elim disjE exE conjE) (simp_all add: leg_intent_between)

lemma plan_symbol_net:
  assumes "plan_symbol targets current filters marks rid s = Inr xs" "plan_inputs_ok targets current filters marks"
    and "exact28 (dict_get targets s 0 - dict_get current s 0)"
  shows "between (sum_list (map signed_quantity xs)) (dict_get targets s 0 - dict_get current s 0)"
proof -
  define target cur where tc: "target = dict_get targets s 0" "cur = dict_get current s 0"
  obtain ys zs where xs: "xs = ys @ zs"
    and ys: "ys = [] \<or> (\<exists>i. ys = [i] \<and> leg_intent s target cur (if flips target cur then close_leg cur else delta_leg target cur) i)"
    and zs: "zs = [] \<or> (\<exists>i. zs = [i] \<and> flips target cur \<and> leg_intent s target cur (target, False) i)"
    using plan_symbol_legs [OF assms(1,2) tc] by blast
  show ?thesis
  proof (cases "flips target cur")
    case True
    have "between (sum_list (map signed_quantity ys)) (- cur)" "between (sum_list (map signed_quantity zs)) target"
      using leg_between [of ys s target cur "close_leg cur"] leg_between [of zs s target cur "(target, False)"] ys zs True
      by (auto simp: close_leg_def)
    then show ?thesis using True unfolding xs tc [symmetric]
      by (auto simp: between_def flips_def split: if_splits)
  next
    case False
    then have "zs = []" "between (sum_list (map signed_quantity ys)) (rnd28 (target - cur))"
      using ys zs leg_between [of ys s target cur "delta_leg target cur"] by (auto simp: delta_leg_def)
    with assms(3) show ?thesis unfolding xs tc [symmetric] by (simp add: d28.rnd_exact)
  qed
qed

lemma rmap_InrD: "rmap f xs = Inr ys \<Longrightarrow> length ys = length xs \<and> (\<forall>k < length xs. f (xs ! k) = Inr (ys ! k))"
  by (induction xs arbitrary: ys) (auto simp: result_simps nth_Cons split: nat.splits)

lemma net_quantity_append: "net_quantity s (xs @ ys) = net_quantity s xs + net_quantity s ys"
  by (simp add: net_quantity_def)

text \<open>In a plan, the intents of one symbol are exactly what planning that symbol yields.\<close>

lemma concat_filter_symbol:
  assumes "rmap f xs = Inr ys" "distinct xs" "\<And>s legs. f s = Inr legs \<Longrightarrow> \<forall>i \<in> set legs. oi_symbol i = s"
  shows "filter (\<lambda>i. oi_symbol i = s) (concat ys) =
    (if s \<in> set xs then (case f s of Inr legs \<Rightarrow> legs | Inl e \<Rightarrow> []) else [])"
  using assms(1,2)
proof (induction xs arbitrary: ys)
  case (Cons x xs)
  then obtain z zs where z: "f x = Inr z" "rmap f xs = Inr zs" "ys = z # zs" by (auto simp: result_simps)
  have "\<forall>i \<in> set z. oi_symbol i = x" using assms(3) z(1) by blast
  then have "filter (\<lambda>i. oi_symbol i = s) z = (if s = x then z else [])"
    by (auto simp: filter_empty_conv intro: filter_True)
  with Cons z show ?case by auto
qed simp

lemma plan_orders_symbol:
  assumes "plan_orders targets current filters marks rid = Inr xs" "plan_inputs_ok targets current filters marks"
  shows "\<exists>legs. filter (\<lambda>i. oi_symbol i = s) xs = legs \<and> (legs = [] \<or> plan_symbol targets current filters marks rid s = Inr legs)"
proof -
  define ss where "ss = sorted_set (map fst targets @ map fst current)"
  obtain ys where ys: "rmap (plan_symbol targets current filters marks rid) ss = Inr ys" "xs = concat ys"
    using assms(1) by (auto simp: plan_orders_def ss_def result_simps)
  have "filter (\<lambda>i. oi_symbol i = s) xs =
      (if s \<in> set ss then (case plan_symbol targets current filters marks rid s of Inr legs \<Rightarrow> legs | Inl e \<Rightarrow> []) else [])"
    unfolding ys(2) using ys(1) plan_symbol_intents [OF _ assms(2)]
    by (intro concat_filter_symbol) (auto simp: ss_def)
  then show ?thesis by (auto split: sum.splits)
qed

text \<open>C35: The orders planned for a symbol move its position toward the target and never past it: the
  signed sum of their quantities lies between zero and the distance to the target, also when the
  position flips and is closed and reopened by two orders.\<close>

theorem plan_orders_toward_target:
  assumes "plan_inputs_ok targets current filters marks"
    and "plan_orders targets current filters marks rid = Inr xs"
    and "exact28 (dict_get targets s 0 - dict_get current s 0)"
  shows "(if dict_get current s 0 \<le> dict_get targets s 0
     then 0 \<le> net_quantity s xs \<and> dict_get current s 0 + net_quantity s xs \<le> dict_get targets s 0
     else net_quantity s xs \<le> 0 \<and> dict_get targets s 0 \<le> dict_get current s 0 + net_quantity s xs)"
proof -
  obtain legs where "filter (\<lambda>i. oi_symbol i = s) xs = legs" "legs = [] \<or> plan_symbol targets current filters marks rid s = Inr legs"
    using plan_orders_symbol [OF assms(2,1)] by blast
  then have "between (net_quantity s xs) (dict_get targets s 0 - dict_get current s 0)"
    using plan_symbol_net [OF _ assms(1,3)] by (auto simp: net_quantity_def)
  then show ?thesis by (auto simp: between_def split: if_splits)
qed

lemma btc_plan_inputs_ok: "plan_inputs_ok [(''BTCUSDT'', - 1)] [(''BTCUSDT'', 2)] [(''BTCUSDT'', btc_filters)] [(''BTCUSDT'', 50000)]"
proof -
  have "exact28 50000" "exact28 2" by (rule exact28_numeral, simp)+
  then show ?thesis by (simp add: plan_inputs_ok_def btc_filters_wf)
qed

lemma btc_plan:
  "plan_orders [(''BTCUSDT'', - 1)] [(''BTCUSDT'', 2)] [(''BTCUSDT'', btc_filters)] [(''BTCUSDT'', 50000)] ''r'' = Inr
    [\<lparr>oi_symbol = ''BTCUSDT'', oi_side = ''SELL'', oi_quantity = 2, oi_reduce_only = True, oi_target_qty = - 1,
      oi_current_qty = 2, oi_client_order_prefix = ''r'', oi_leg_index = 0, oi_decision_price = 50000\<rparr>,
     \<lparr>oi_symbol = ''BTCUSDT'', oi_side = ''SELL'', oi_quantity = 1, oi_reduce_only = False, oi_target_qty = - 1,
      oi_current_qty = 2, oi_client_order_prefix = ''r'', oi_leg_index = 1, oi_decision_price = 50000\<rparr>]"
proof -
  have e: "exact28 2" "exact28 50000" "exact28 100000" by (rule exact28_numeral, simp)+
  have leg: "quantize_order btc_filters (- 2) 50000 True =
      Inr (Some \<lparr>qo_quantity = - 2, qo_price = 50000, qo_reduce_only = True\<rparr>)"
    "quantize_order btc_filters (- 1) 50000 False =
      Inr (Some \<lparr>qo_quantity = - 1, qo_price = 50000, qo_reduce_only = False\<rparr>)"
    using e by (simp_all add: btc_quantize min_def dmul_def d28.rnd_exact)
  show ?thesis
    using e leg by (simp add: plan_orders_def sorted_set_def plan_symbol_def dict_get_def plan_components_exact
        flips_def close_leg_def dabs_exact Let_def)
qed

theorem plan_orders_toward_target_witness:
  "\<exists>xs. plan_orders [(''BTCUSDT'', - 1)] [(''BTCUSDT'', 2)] [(''BTCUSDT'', btc_filters)] [(''BTCUSDT'', 50000)] ''r'' = Inr xs
     \<and> length xs = 2 \<and> net_quantity ''BTCUSDT'' xs \<le> 0 \<and> - 1 \<le> 2 + net_quantity ''BTCUSDT'' xs"
proof -
  have "exact28 3" by (rule exact28_numeral) simp
  then show ?thesis
    using plan_orders_toward_target [OF btc_plan_inputs_ok btc_plan, of "''BTCUSDT''"] btc_plan
    by (simp add: dict_get_def)
qed

definition reduces_position :: "decimal \<Rightarrow> order_intent \<Rightarrow> bool" where
  "reduces_position cur i \<longleftrightarrow> 0 < oi_quantity i \<and> oi_quantity i \<le> \<bar>cur\<bar>
     \<and> oi_side i = (if 0 < cur then ''SELL'' else ''BUY'')"

lemma reduce_leg_bounds:
  assumes "leg_intent s target cur (if flips target cur then close_leg cur else delta_leg target cur) i"
    and "oi_reduce_only i" "exact28 cur"
  shows "reduces_position cur i"
proof (cases "flips target cur")
  case True
  with assms show ?thesis by (auto simp: leg_intent_def close_leg_def flips_def reduces_position_def)
next
  case False
  with assms have i: "\<bar>target\<bar> < \<bar>cur\<bar>" "oi_quantity i \<le> rnd28 \<bar>target - cur\<bar>" "0 < oi_quantity i"
    "oi_side i = (if cur < target then ''BUY'' else ''SELL'')"
    by (auto simp: leg_intent_def delta_leg_def d28.rnd_abs d28.rnd_pos_iff)
  have "\<bar>target - cur\<bar> \<le> \<bar>cur\<bar>" using i(1) False by (auto simp: flips_def abs_if split: if_splits)
  then have "rnd28 \<bar>target - cur\<bar> \<le> \<bar>cur\<bar>" using assms(3) by (intro d28.rnd_le_exact) simp_all
  with i show ?thesis by (auto simp: reduces_position_def abs_if split: if_splits)
qed

lemma plan_symbol_reduce_only:
  assumes "plan_symbol targets current filters marks rid s = Inr legs" "plan_inputs_ok targets current filters marks"
  shows "(\<forall>i \<in> set legs. oi_reduce_only i \<longrightarrow> reduces_position (dict_get current s 0) i)
     \<and> length (filter oi_reduce_only legs) \<le> 1"
proof -
  define target cur where tc: "target = dict_get targets s 0" "cur = dict_get current s 0"
  have cur28: "exact28 cur" using assms(2) by (simp add: tc plan_inputs_ok_def dict_get_in)
  obtain ys zs where legs: "legs = ys @ zs"
    and ys: "ys = [] \<or> (\<exists>i. ys = [i] \<and> leg_intent s target cur (if flips target cur then close_leg cur else delta_leg target cur) i)"
    and zs: "zs = [] \<or> (\<exists>i. zs = [i] \<and> flips target cur \<and> leg_intent s target cur (target, False) i)"
    using plan_symbol_legs [OF assms tc] by blast
  have "\<forall>i \<in> set ys. oi_reduce_only i \<longrightarrow> reduces_position cur i"
    using ys reduce_leg_bounds [OF _ _ cur28] by fastforce
  moreover have "\<forall>i \<in> set zs. \<not> oi_reduce_only i" using zs by (auto simp: leg_intent_def)
  moreover have "length (filter oi_reduce_only ys) \<le> 1" using ys by auto
  ultimately show ?thesis by (auto simp: legs tc(2) [symmetric] filter_empty_conv)
qed

text \<open>An order flagged reduce-only trades against the position it belongs to and is no larger than
  it, and a symbol has at most one such order in a plan.\<close>

theorem plan_orders_reduce_only:
  assumes "plan_inputs_ok targets current filters marks"
    and "plan_orders targets current filters marks rid = Inr xs"
  shows "(\<forall>i \<in> set xs. oi_reduce_only i \<longrightarrow> 0 < oi_quantity i \<and> oi_quantity i \<le> \<bar>dict_get current (oi_symbol i) 0\<bar>
            \<and> oi_side i = (if 0 < dict_get current (oi_symbol i) 0 then ''SELL'' else ''BUY''))
     \<and> length (filter (\<lambda>i. oi_symbol i = s \<and> oi_reduce_only i) xs) \<le> 1"
proof -
  have one: "(\<forall>i \<in> set (filter (\<lambda>i. oi_symbol i = s) xs). oi_reduce_only i \<longrightarrow> reduces_position (dict_get current s 0) i)
     \<and> length (filter oi_reduce_only (filter (\<lambda>i. oi_symbol i = s) xs)) \<le> 1" for s
    using plan_orders_symbol [OF assms(2,1), of s] plan_symbol_reduce_only [OF _ assms(1), of rid s] by fastforce
  have "filter (\<lambda>i. oi_symbol i = s \<and> oi_reduce_only i) xs = filter oi_reduce_only (filter (\<lambda>i. oi_symbol i = s) xs)"
    by (simp add: conj_commute)
  with one show ?thesis by (auto simp: reduces_position_def)
qed

theorem plan_orders_reduce_only_witness:
  "\<exists>xs. plan_orders [(''BTCUSDT'', - 1)] [(''BTCUSDT'', 2)] [(''BTCUSDT'', btc_filters)] [(''BTCUSDT'', 50000)] ''r'' = Inr xs
     \<and> length (filter (\<lambda>i. oi_symbol i = ''BTCUSDT'' \<and> oi_reduce_only i) xs) \<le> 1
     \<and> oi_reduce_only (hd xs) \<and> oi_quantity (hd xs) \<le> 2"
  using plan_orders_reduce_only [OF btc_plan_inputs_ok btc_plan, of "''BTCUSDT''"] btc_plan
  by (simp add: dict_get_def)

end
