(* ===== verification/Derisk.thy ===== *)
theory Derisk
  imports Planner
begin

text \<open>
  \<open>src/live/derisk.py\<close>: the filters applied to order intents while the account state is
  uncertain.  Only intents that shrink an existing position pass, and no intent passes on a
  symbol with an unresolved own order.
\<close>

definition UNRESOLVED_ORDER_BLOCK_REASON :: string where
  "UNRESOLVED_ORDER_BLOCK_REASON = ''unresolved_order_symbol''"

record derisk_plan =
  dp_kept :: "order_intent list"
  dp_blocked :: "(order_intent \<times> string) list"

text \<open>The reason the loop body blocks an intent for, in the order of its tests.\<close>

definition derisk_block_reason :: "string list \<Rightarrow> (string, decimal) dict \<Rightarrow> order_intent \<Rightarrow> string option" where
  "derisk_block_reason excluded current_positions intent =
     (if oi_symbol intent \<in> set excluded then Some ''foreign_order_symbol''
      else let current = dict_get current_positions (oi_symbol intent) 0
           in if current = 0 then Some ''no_position''
              else if oi_leg_index intent = 1 \<and> \<not> oi_reduce_only intent then Some ''flip_open_leg''
              else if \<not> oi_reduce_only intent then Some ''increase''
              else if oi_side intent \<noteq> (if 0 < current then ''SELL'' else ''BUY'') then Some ''increase''
              else if dabs current < oi_quantity intent then Some ''exceeds_position''
              else None)"

primrec split_intents :: "(order_intent \<Rightarrow> string option) \<Rightarrow> order_intent list \<Rightarrow> derisk_plan" where
  "split_intents reason [] = \<lparr>dp_kept = [], dp_blocked = []\<rparr>"
| "split_intents reason (intent # intents) =
     (let rest = split_intents reason intents
      in case reason intent of
           None \<Rightarrow> rest\<lparr>dp_kept := intent # dp_kept rest\<rparr>
         | Some r \<Rightarrow> rest\<lparr>dp_blocked := (intent, r) # dp_blocked rest\<rparr>)"

definition derisk_filter :: "order_intent list \<Rightarrow> (string, decimal) dict \<Rightarrow> string list \<Rightarrow> derisk_plan" where
  "derisk_filter intents current_positions excluded_symbols =
     split_intents (derisk_block_reason excluded_symbols current_positions) intents"

definition freeze_unresolved_symbols :: "order_intent list \<Rightarrow> string list \<Rightarrow> derisk_plan" where
  "freeze_unresolved_symbols intents frozen_symbols =
     split_intents (\<lambda>intent. if oi_symbol intent \<in> set frozen_symbols
        then Some UNRESOLVED_ORDER_BLOCK_REASON else None) intents"

lemma split_intents_kept: "dp_kept (split_intents reason xs) = filter (\<lambda>i. reason i = None) xs"
  by (induction xs) (auto simp: Let_def split: option.splits)

lemma split_intents_blocked:
  "dp_blocked (split_intents reason xs) =
     map (\<lambda>i. (i, the (reason i))) (filter (\<lambda>i. reason i \<noteq> None) xs)"
  by (induction xs) (auto simp: Let_def split: option.splits)

lemma derisk_filter_kept_iff:
  "i \<in> set (dp_kept (derisk_filter intents pos excl)) \<longleftrightarrow>
     i \<in> set intents \<and> derisk_block_reason excl pos i = None"
  by (auto simp: derisk_filter_def split_intents_kept)

text \<open>While the account is de-risk-only, every intent that passes strictly shrinks the position
  it trades without crossing zero, and no intent on an excluded symbol passes.\<close>

theorem derisk_filter_only_reduces:
  assumes "i \<in> set (dp_kept (derisk_filter intents pos excl))"
    and "exact28 (dict_get pos (oi_symbol i) 0)" and "0 < oi_quantity i"
  shows "oi_symbol i \<notin> set excl
    \<and> (if 0 < dict_get pos (oi_symbol i) 0
       then 0 \<le> dict_get pos (oi_symbol i) 0 + signed_quantity i
            \<and> dict_get pos (oi_symbol i) 0 + signed_quantity i < dict_get pos (oi_symbol i) 0
       else dict_get pos (oi_symbol i) 0 + signed_quantity i \<le> 0
            \<and> dict_get pos (oi_symbol i) 0 < dict_get pos (oi_symbol i) 0 + signed_quantity i)"
  using assms dabs_exact [OF assms(2)]
  by (auto simp: derisk_filter_kept_iff derisk_block_reason_def Let_def signed_quantity_def split: if_splits)

definition example_intent :: order_intent where
  "example_intent = \<lparr>oi_symbol = ''BTCUSDT'', oi_side = ''SELL'', oi_quantity = 2, oi_reduce_only = True,
     oi_target_qty = 1, oi_current_qty = 3, oi_client_order_prefix = ''20260101'', oi_leg_index = 0,
     oi_decision_price = 50000\<rparr>"

theorem derisk_filter_only_reduces_witness:
  "dp_kept (derisk_filter [example_intent] [(''BTCUSDT'', 3)] []) = [example_intent]
   \<and> 3 + signed_quantity example_intent < 3 \<and> 0 \<le> 3 + signed_quantity example_intent"
proof -
  have e: "exact28 3" by (rule exact28_numeral) simp
  have k: "dp_kept (derisk_filter [example_intent] [(''BTCUSDT'', 3)] []) = [example_intent]"
    by (simp add: derisk_filter_def derisk_block_reason_def example_intent_def dict_get_def dabs_exact e)
  then show ?thesis
    using derisk_filter_only_reduces [of example_intent "[example_intent]" "[(''BTCUSDT'', 3)]" "[]"] e
    by (simp add: example_intent_def dict_get_def)
qed

lemma derisk_kept_reduce_only:
  "derisk_block_reason excl pos i = None \<Longrightarrow> oi_reduce_only i"
  by (auto simp: derisk_block_reason_def Let_def split: if_splits)

text \<open>C36: The de-risk filter applied to a whole plan never increases exposure: on every symbol, all
  kept orders together move the position toward zero and not across it.\<close>

theorem derisked_plan_shrinks_exposure:
  assumes "plan_inputs_ok targets current filters marks"
    and "plan_orders targets current filters marks rid = Inr xs"
  shows "if 0 \<le> dict_get current s 0
    then 0 \<le> dict_get current s 0 + net_quantity s (dp_kept (derisk_filter xs current excl))
         \<and> net_quantity s (dp_kept (derisk_filter xs current excl)) \<le> 0
    else dict_get current s 0 + net_quantity s (dp_kept (derisk_filter xs current excl)) \<le> 0
         \<and> 0 \<le> net_quantity s (dp_kept (derisk_filter xs current excl))"
proof -
  define kept where "kept = filter (\<lambda>i. oi_symbol i = s) (dp_kept (derisk_filter xs current excl))"
  define reds where "reds = filter oi_reduce_only (filter (\<lambda>i. oi_symbol i = s) xs)"
  have kept: "kept = filter (\<lambda>i. derisk_block_reason excl current i = None) reds"
    using derisk_kept_reduce_only by (auto simp: kept_def reds_def derisk_filter_def split_intents_kept intro!: filter_cong)
  have "(\<forall>i \<in> set reds. reduces_position (dict_get current s 0) i) \<and> length reds \<le> 1"
    using plan_orders_symbol [OF assms(2,1), of s] plan_symbol_reduce_only [OF _ assms(1), of rid s]
    unfolding reds_def by fastforce
  then have "(\<forall>i \<in> set kept. reduces_position (dict_get current s 0) i) \<and> length kept \<le> 1"
    by (auto simp: kept intro: le_trans [OF length_filter_le])
  then have "kept = [] \<or> (\<exists>i. kept = [i] \<and> reduces_position (dict_get current s 0) i)"
    by (cases kept) auto
  then show ?thesis
    unfolding net_quantity_def kept_def [symmetric]
    by (auto simp: reduces_position_def signed_quantity_def split: if_splits)
qed

theorem derisked_plan_shrinks_exposure_witness:
  "\<exists>xs. plan_orders [(''BTCUSDT'', - 1)] [(''BTCUSDT'', 2)] [(''BTCUSDT'', btc_filters)] [(''BTCUSDT'', 50000)] ''r'' = Inr xs
     \<and> 0 \<le> 2 + net_quantity ''BTCUSDT'' (dp_kept (derisk_filter xs [(''BTCUSDT'', 2)] []))
     \<and> dp_kept (derisk_filter xs [(''BTCUSDT'', 2)] []) = [hd xs]"
proof -
  have "exact28 2" by (rule exact28_numeral) simp
  then show ?thesis
    using derisked_plan_shrinks_exposure [OF btc_plan_inputs_ok btc_plan, of "''BTCUSDT''" "[]"] btc_plan
    by (simp add: derisk_filter_def derisk_block_reason_def dict_get_def dabs_exact)
qed

text \<open>Freezing the symbols with unresolved own orders keeps exactly the intents on other symbols,
  in their order, and blocks every other intent with the freeze reason.\<close>

theorem freeze_unresolved_symbols_exact:
  "dp_kept (freeze_unresolved_symbols intents frozen) = filter (\<lambda>i. oi_symbol i \<notin> set frozen) intents
   \<and> dp_blocked (freeze_unresolved_symbols intents frozen) =
       map (\<lambda>i. (i, UNRESOLVED_ORDER_BLOCK_REASON)) (filter (\<lambda>i. oi_symbol i \<in> set frozen) intents)"
  by (auto simp: freeze_unresolved_symbols_def split_intents_kept split_intents_blocked
      intro: filter_cong)

end
