(* ===== verification/Sizing.thy ===== *)
theory Sizing
  imports Filters
begin

text \<open>
  \<open>src/live/sizing.py\<close>: from target weights to quantized target quantities.  A weight is a float;
  the model has it as the decimal of its shortest representation, \<open>None\<close> standing for NaN and the
  infinities.  A symbol whose order the filters drop is reported with a reason, and its notional is
  never given to another symbol.
\<close>

record dropped_symbol =
  ds_symbol :: string
  ds_reason :: string
  ds_target_notional :: decimal

datatype sizing_outcome = Skipped | Dropped dropped_symbol | Sized decimal

text \<open>One iteration of the loop: the symbol is skipped, dropped or sized.\<close>

definition size_symbol :: "(string, decimal) dict \<Rightarrow> (string, symbol_filters) dict \<Rightarrow> decimal
    \<Rightarrow> (string, decimal) dict option \<Rightarrow> string \<Rightarrow> decimal option \<Rightarrow> sizing_outcome res" where
  "size_symbol marks filters equity_usdt sizing_marks sy weight =
     (case weight of None \<Rightarrow> Inr Skipped
      | Some w \<Rightarrow>
        if w = 0 then Inr Skipped
        else let target_notional = dmul equity_usdt w;
                 drop = (\<lambda>reason. Dropped \<lparr>ds_symbol = sy, ds_reason = reason, ds_target_notional = target_notional\<rparr>)
        in case (map_of filters sy, map_of marks sy) of
             (Some f, Some mark) \<Rightarrow>
               if mark \<le> 0 then Inr (drop ''NOT_TRADABLE'')
               else (case (case sizing_marks of None \<Rightarrow> Some mark | Some sm \<Rightarrow> map_of sm sy) of
                   None \<Rightarrow> Inr (drop ''DECISION_MARK_MISSING'')
                 | Some s_mark \<Rightarrow>
                     rbind (ddiv target_notional s_mark) (\<lambda>raw_qty.
                     rbind (quantize_order f raw_qty mark False) (\<lambda>quantized.
                       case quantized of
                         None \<Rightarrow> Inr (drop (if dabs raw_qty < sf_min_qty f then ''MIN_QTY'' else ''MIN_NOTIONAL''))
                       | Some q \<Rightarrow> Inr (Sized (qo_quantity q)))))
           | _ \<Rightarrow> Inr (drop ''NOT_TRADABLE''))"

definition sizing_step where
  "sizing_step marks filters equity_usdt sizing_marks =
     (\<lambda>(sy, w) (targets, dropped).
        rbind (size_symbol marks filters equity_usdt sizing_marks sy w) (\<lambda>outcome.
          Inr (case outcome of Skipped \<Rightarrow> (targets, dropped)
               | Dropped d \<Rightarrow> (targets, dropped @ [d])
               | Sized q \<Rightarrow> (AList.update sy q targets, dropped))))"

definition target_quantities :: "(string \<times> decimal option) list \<Rightarrow> (string, decimal) dict \<Rightarrow> (string, symbol_filters) dict
    \<Rightarrow> decimal \<Rightarrow> (string, decimal) dict option \<Rightarrow> ((string, decimal) dict \<times> dropped_symbol list) res" where
  "target_quantities weights marks filters equity_usdt sizing_marks =
     rfold (sizing_step marks filters equity_usdt sizing_marks) weights ([], [])"

lemma size_symbol_dropped: "size_symbol marks filters eq sm sy w = Inr (Dropped d) \<Longrightarrow> ds_symbol d = sy"
  by (auto simp: size_symbol_def Let_def result_simps split: option.splits if_splits)

text \<open>The loop is pointwise: what happens to a symbol depends on its own weight only.\<close>

lemma sizing_fold:
  assumes "rfold (sizing_step marks filters eq sm) weights (t0, d0) = Inr (t, d)" "distinct (map fst weights)"
    and "fst ` set weights \<inter> fst ` set t0 = {}"
  shows "(\<forall>sy. map_of t sy = (case map_of weights sy of None \<Rightarrow> map_of t0 sy
            | Some w \<Rightarrow> (case size_symbol marks filters eq sm sy w of Inr (Sized q) \<Rightarrow> Some q | _ \<Rightarrow> None)))
     \<and> (\<exists>ds. d = d0 @ ds \<and> (\<forall>x. x \<in> set ds \<longleftrightarrow> (\<exists>(sy, w) \<in> set weights. size_symbol marks filters eq sm sy w = Inr (Dropped x))))
     \<and> (\<forall>(sy, w) \<in> set weights. \<exists>r. size_symbol marks filters eq sm sy w = Inr r)"
  using assms
proof (induction weights arbitrary: t0 d0)
  case Nil
  then show ?case by simp
next
  case (Cons p weights)
  obtain sy w where p: "p = (sy, w)" by (cases p)
  obtain r where r: "size_symbol marks filters eq sm sy w = Inr r"
    using Cons.prems(1) by (auto simp: p sizing_step_def result_simps)
  define t1 d1 where td: "t1 = (case r of Sized q \<Rightarrow> AList.update sy q t0 | _ \<Rightarrow> t0)"
    "d1 = (case r of Dropped x \<Rightarrow> d0 @ [x] | _ \<Rightarrow> d0)"
  have step: "rfold (sizing_step marks filters eq sm) weights (t1, d1) = Inr (t, d)"
    using Cons.prems(1) r by (simp add: p sizing_step_def td split: sizing_outcome.splits)
  have disj: "fst ` set weights \<inter> fst ` set t1 = {}"
    using Cons.prems by (auto simp: p td split: sizing_outcome.splits)
  have t0sy: "map_of t0 sy = None" using Cons.prems(3) by (auto simp: p map_of_eq_None_iff)
  have wsy: "map_of weights sy = None" using Cons.prems(2) by (simp add: p map_of_eq_None_iff)
  have t1: "k \<noteq> sy \<Longrightarrow> map_of t1 k = map_of t0 k" for k by (simp add: td split: sizing_outcome.splits)
  have t1sy: "map_of t1 sy = (case r of Sized q \<Rightarrow> Some q | _ \<Rightarrow> None)"
    using t0sy by (simp add: td split: sizing_outcome.splits)
  note IH = Cons.IH [OF step _ disj]
  show ?case
  proof (intro conjI)
    show "\<forall>k. map_of t k = (case map_of (p # weights) k of None \<Rightarrow> map_of t0 k
            | Some w \<Rightarrow> (case size_symbol marks filters eq sm k w of Inr (Sized q) \<Rightarrow> Some q | _ \<Rightarrow> None))"
      using IH Cons.prems(2) r t1 t1sy wsy by (auto simp: p cong: option.case_cong)
    show "\<exists>ds. d = d0 @ ds \<and> (\<forall>x. x \<in> set ds \<longleftrightarrow>
        (\<exists>(k, w) \<in> set (p # weights). size_symbol marks filters eq sm k w = Inr (Dropped x)))"
      using IH Cons.prems(2) r by (cases r) (auto simp: p td)
    show "\<forall>(k, w) \<in> set (p # weights). \<exists>r. size_symbol marks filters eq sm k w = Inr r"
      using IH Cons.prems(2) r by (auto simp: p)
  qed
qed

text \<open>Sizing treats every symbol on its own: a symbol's target quantity is what its own weight
  yields, whatever the other weights are, and the dropped list holds exactly the symbols whose own
  sizing is dropped.  So dropped notional is never redistributed.\<close>

theorem target_quantities_pointwise:
  assumes "target_quantities weights marks filters equity sm = Inr (targets, dropped)"
    and "distinct (map fst weights)"
  shows "(\<forall>sy q. map_of targets sy = Some q \<longleftrightarrow>
            (\<exists>w. (sy, w) \<in> set weights \<and> size_symbol marks filters equity sm sy w = Inr (Sized q)))
     \<and> (\<forall>x. x \<in> set dropped \<longleftrightarrow>
            (\<exists>(sy, w) \<in> set weights. size_symbol marks filters equity sm sy w = Inr (Dropped x)))
     \<and> (\<forall>x \<in> set dropped. map_of targets (ds_symbol x) = None)"
proof -
  have run: "rfold (sizing_step marks filters equity sm) weights ([], []) = Inr (targets, dropped)"
    using assms(1) by (simp add: target_quantities_def)
  have t: "\<forall>sy. map_of targets sy = (case map_of weights sy of None \<Rightarrow> None
            | Some w \<Rightarrow> (case size_symbol marks filters equity sm sy w of Inr (Sized q) \<Rightarrow> Some q | _ \<Rightarrow> None))"
    and d: "\<forall>x. x \<in> set dropped \<longleftrightarrow> (\<exists>(sy, w) \<in> set weights. size_symbol marks filters equity sm sy w = Inr (Dropped x))"
    using sizing_fold [OF run assms(2)] by (auto cong: option.case_cong)
  have w: "map_of weights sy = Some w \<longleftrightarrow> (sy, w) \<in> set weights" for sy w
    using assms(2) by (rule map_of_eq_Some_iff)
  have "\<forall>sy q. map_of targets sy = Some q \<longleftrightarrow>
      (\<exists>w. (sy, w) \<in> set weights \<and> size_symbol marks filters equity sm sy w = Inr (Sized q))"
    unfolding w [symmetric] t [rule_format] by (auto split: option.splits sum.splits sizing_outcome.splits)
  moreover have "map_of targets (ds_symbol x) = None" if "x \<in> set dropped" for x
  proof -
    from that d obtain sy w' where sw: "(sy, w') \<in> set weights" "size_symbol marks filters equity sm sy w' = Inr (Dropped x)"
      by auto
    then have "map_of weights (ds_symbol x) = Some w'" "ds_symbol x = sy"
      using w size_symbol_dropped by auto
    then show ?thesis using t sw(2) by simp
  qed
  ultimately show ?thesis using d by blast
qed

theorem target_quantities_pointwise_witness:
  "\<exists>dropped. target_quantities [(''BTCUSDT'', Some (1 / 2)), (''ETHUSDT'', Some (1 / 2))] [(''BTCUSDT'', 50000)]
       [(''BTCUSDT'', btc_filters)] 100000 None = Inr ([(''BTCUSDT'', 1)], dropped)
     \<and> map ds_symbol dropped = [''ETHUSDT''] \<and> map_of [(''BTCUSDT'', 1::decimal)] ''ETHUSDT'' = None"
proof -
  have e: "exact28 50000" by (rule exact28_numeral) simp
  have b: "quantize_order btc_filters 1 50000 False = Inr (Some \<lparr>qo_quantity = 1, qo_price = 50000, qo_reduce_only = False\<rparr>)"
    using e by (simp add: btc_quantize min_def dmul_def d28.rnd_exact)
  define dr where "dr = \<lparr>ds_symbol = ''ETHUSDT'', ds_reason = ''NOT_TRADABLE'', ds_target_notional = 50000\<rparr>"
  have run: "target_quantities [(''BTCUSDT'', Some (1 / 2)), (''ETHUSDT'', Some (1 / 2))] [(''BTCUSDT'', 50000)]
       [(''BTCUSDT'', btc_filters)] 100000 None = Inr ([(''BTCUSDT'', 1)], [dr])"
    using e b by (simp add: target_quantities_def sizing_step_def size_symbol_def dmul_def ddiv_def d28.rnd_exact Let_def dr_def)
  show ?thesis using target_quantities_pointwise [OF run] run by (simp add: dr_def)
qed

end
