(* ===== verification/Order_Journal.thy ===== *)
theory Order_Journal
  imports Json
begin

text \<open>
  \<open>src/live/order_journal.py\<close>: the write-ahead journal of execution attempts, submissions, fills and
  terminal states.

  The file is a list of complete lines and, after a crash, an unterminated last line; a line is
  blank, a JSON document, or text that is no JSON.  The object \<open>OrderJournal\<close> is the record \<open>wal\<close>:
  the file, the in-memory state and the flag \<open>_loaded\<close>.  Each operation first loads the file if
  the flag is not set, checks its arguments, appends its JSON line and then updates the memory,
  in the order of the code; an exception keeps the state reached so far.  The attribute
  \<open>_had_lines\<close>, which no code reads, is left out, and \<open>_torn_offset\<close> is a flag: cutting the file at
  that offset removes exactly the unterminated tail.

  Proved here: what an operation appended is what a later process reads back
  (\<open>journal_durable\<close>); sequence numbers are assigned without gaps or repetition; the observed
  quantity of an order never decreases; a torn append is undone by the next load.
\<close>

section \<open>Records\<close>

record journal_attempt =
  ja_attempt_seq :: int
  ja_decision_time :: timestamp
  ja_run_id :: string
  ja_mode :: string
  ja_pre_trade_equity :: decimal
  ja_sizing_anchor :: string
  ja_decision_marks :: "(string, decimal) dict"
  ja_started_at :: timestamp

record journal_submit =
  js_client_order_id :: string
  js_symbol :: string
  js_submit_seq :: int
  js_attempt_seq :: "int option"
  js_side :: "string option"
  js_quantity :: "decimal option"
  js_reduce_only :: "bool option"
  js_leg_index :: "int option"
  js_recorded_at :: timestamp

record journal_fill =
  jf_fill_seq :: int
  jf_kind :: string
  jf_attempt_seq :: "int option"
  jf_symbol :: string
  jf_side :: string
  jf_quantity :: decimal
  jf_price :: decimal
  jf_fee_bps :: decimal
  jf_liquidity :: string
  jf_reason :: string
  jf_filled_at :: timestamp
  jf_client_order_id :: "string option"
  jf_leg_index :: int
  jf_cumulative_executed_qty :: "decimal option"
  jf_simulated :: bool

record journal_terminal =
  jt_client_order_id :: string
  jt_status :: string
  jt_recorded_at :: timestamp

definition FILL_KINDS :: "string list" where
  "FILL_KINDS = [''execution'', ''orphan_settlement'', ''recovered'', ''venue_force_close'', ''operator_resync'']"

definition SIDES :: "string list" where "SIDES = [''BUY'', ''SELL'']"

definition LIQUIDITY :: "string list" where "LIQUIDITY = [''maker'', ''taker'']"

definition ORDER_JOURNAL_SCHEMA_VERSION :: int where "ORDER_JOURNAL_SCHEMA_VERSION = 2"

text \<open>\<open>pd.Timestamp.min\<close>, the stamp of submissions that carry none.\<close>

definition TS_MIN :: timestamp where "TS_MIN = - 9223372036854775807"

record order_journal =
  oj_next_submit_seq :: int
  oj_next_fill_seq :: int
  oj_next_attempt_seq :: int
  oj_observed_legacy :: "(string, decimal) dict"
  oj_attempts :: "(int, journal_attempt) dict"
  oj_submits :: "journal_submit list"
  oj_fills :: "journal_fill list"
  oj_terminals :: "(string, journal_terminal) dict"
  oj_has_schema :: bool
  oj_torn :: bool

definition empty_journal :: order_journal where
  "empty_journal = \<lparr>oj_next_submit_seq = 0, oj_next_fill_seq = 0, oj_next_attempt_seq = 0,
     oj_observed_legacy = [], oj_attempts = [], oj_submits = [], oj_fills = [], oj_terminals = [],
     oj_has_schema = False, oj_torn = False\<rparr>"

section \<open>The file\<close>

datatype file_line = Blank | Text json | Garbage

record journal_file =
  fl_lines :: "file_line list"
  fl_tail :: "file_line option"

definition empty_file :: journal_file where
  "empty_file = \<lparr>fl_lines = [], fl_tail = None\<rparr>"

text \<open>Writing a terminated line: it completes an unterminated tail, if there is one.  Two documents
  on one line are no JSON document.\<close>

definition write_line :: "json \<Rightarrow> journal_file \<Rightarrow> journal_file" where
  "write_line r f = \<lparr>fl_lines = fl_lines f @ [case fl_tail f of None \<Rightarrow> Text r | Some Blank \<Rightarrow> Text r | Some _ \<Rightarrow> Garbage],
     fl_tail = None\<rparr>"

definition truncate_durably :: "journal_file \<Rightarrow> journal_file" where
  "truncate_durably f = f\<lparr>fl_tail := None\<rparr>"

section \<open>Reading one record\<close>

definition parse_ts :: "text_codec \<Rightarrow> json \<Rightarrow> timestamp res" where
  "parse_ts c value = (case value of JStr s \<Rightarrow>
       (case tc_ts c s of None \<Rightarrow> Inl DataIntegrityError | Some ts \<Rightarrow> tz_aware DataIntegrityError ts)
     | _ \<Rightarrow> Inl DataIntegrityError)"

definition parse_decimal :: "text_codec \<Rightarrow> json \<Rightarrow> decimal res" where
  "parse_decimal c value = (case py_decimal c value of Inl _ \<Rightarrow> Inl DataIntegrityError | Inr x \<Rightarrow> Inr x)"

definition opt_res :: "(json \<Rightarrow> 'a res) \<Rightarrow> json \<Rightarrow> 'a option res" where
  "opt_res f j = (if j = JNull then Inr None else rbind (f j) (\<lambda>x. Inr (Some x)))"

definition put_submit :: "journal_submit \<Rightarrow> order_journal \<Rightarrow> order_journal" where
  "put_submit s j = j\<lparr>oj_submits := oj_submits j @ [s]\<rparr>"

definition put_fill :: "journal_fill \<Rightarrow> order_journal \<Rightarrow> order_journal" where
  "put_fill x j = j\<lparr>oj_fills := oj_fills j @ [x]\<rparr>"

definition put_attempt :: "journal_attempt \<Rightarrow> order_journal \<Rightarrow> order_journal" where
  "put_attempt a j = j\<lparr>oj_attempts := AList.update (ja_attempt_seq a) a (oj_attempts j)\<rparr>"

definition put_terminal :: "journal_terminal \<Rightarrow> order_journal \<Rightarrow> order_journal" where
  "put_terminal t j = j\<lparr>oj_terminals := AList.update (jt_client_order_id t) t (oj_terminals j)\<rparr>"

definition apply_submit :: "text_codec \<Rightarrow> (string \<times> json) list \<Rightarrow> (order_journal, unit) sx" where
  "apply_submit c record =
     sx_bind (sx_lift (rbind (obj_item record ''submit_seq'') (py_int c))) (\<lambda>seq.
     sx_bind (sx_modify (\<lambda>j. if oj_next_submit_seq j < seq + 1 then j\<lparr>oj_next_submit_seq := seq + 1\<rparr> else j)) (\<lambda>_.
     sx_bind (sx_lift (opt_res (parse_decimal c) (obj_get record ''quantity''))) (\<lambda>quantity.
     sx_bind (sx_lift (case obj_get_default record ''recorded_at'' (obj_get record ''ts'') of
         JNull \<Rightarrow> Inr TS_MIN | raw \<Rightarrow> parse_ts c raw)) (\<lambda>recorded_at.
     sx_bind (sx_lift (obj_item record ''client_order_id'')) (\<lambda>cid.
     sx_bind (sx_lift (obj_item record ''symbol'')) (\<lambda>symbol.
     sx_bind (sx_lift (opt_res (py_int c) (obj_get record ''attempt_seq''))) (\<lambda>attempt_seq.
     sx_bind (sx_lift (opt_res (py_int c) (obj_get record ''leg_index''))) (\<lambda>leg_index.
     sx_modify (put_submit \<lparr>js_client_order_id = py_str c cid, js_symbol = py_str c symbol, js_submit_seq = seq,
        js_attempt_seq = attempt_seq,
        js_side = (case obj_get record ''side'' of JNull \<Rightarrow> None | j \<Rightarrow> Some (py_str c j)),
        js_quantity = quantity,
        js_reduce_only = (case obj_get record ''reduce_only'' of JNull \<Rightarrow> None | j \<Rightarrow> Some (py_bool j)),
        js_leg_index = leg_index, js_recorded_at = recorded_at\<rparr>)))))))))"

definition apply_observed :: "text_codec \<Rightarrow> (string \<times> json) list \<Rightarrow> (order_journal, unit) sx" where
  "apply_observed c record =
     sx_bind (sx_lift (obj_item record ''client_order_id'')) (\<lambda>cid.
     sx_bind (sx_lift (rbind (obj_item record ''executed_qty'') (parse_decimal c))) (\<lambda>qty.
     sx_modify (\<lambda>j. if dict_get (oj_observed_legacy j) (py_str c cid) 0 < qty
        then j\<lparr>oj_observed_legacy := AList.update (py_str c cid) qty (oj_observed_legacy j)\<rparr> else j)))"

definition parse_marks :: "text_codec \<Rightarrow> json \<Rightarrow> (string, decimal) dict res" where
  "parse_marks c marks_raw = (case marks_raw of
       JObj d \<Rightarrow> rmap (\<lambda>(s, v). rbind (parse_decimal c v) (\<lambda>x. Inr (s, x))) d
     | _ \<Rightarrow> Inl DataIntegrityError)"

definition apply_attempt :: "text_codec \<Rightarrow> (string \<times> json) list \<Rightarrow> (order_journal, unit) sx" where
  "apply_attempt c record =
     sx_bind (sx_lift (rbind (obj_item record ''attempt_seq'') (py_int c))) (\<lambda>seq.
     sx_bind (sx_modify (\<lambda>j. if oj_next_attempt_seq j < seq + 1 then j\<lparr>oj_next_attempt_seq := seq + 1\<rparr> else j)) (\<lambda>_.
     sx_bind (sx_lift (parse_marks c (obj_get_default record ''decision_marks'' (JObj [])))) (\<lambda>marks.
     sx_bind (sx_lift (rbind (obj_item record ''decision_time'') (parse_ts c))) (\<lambda>decision_time.
     sx_bind (sx_lift (obj_item record ''run_id'')) (\<lambda>run_id.
     sx_bind (sx_lift (obj_item record ''mode'')) (\<lambda>mode.
     sx_bind (sx_lift (rbind (obj_item record ''pre_trade_equity'') (parse_decimal c))) (\<lambda>equity.
     sx_bind (sx_lift (obj_item record ''sizing_anchor'')) (\<lambda>anchor.
     sx_bind (sx_lift (rbind (obj_item record ''started_at'') (parse_ts c))) (\<lambda>started_at.
     sx_modify (put_attempt \<lparr>ja_attempt_seq = seq, ja_decision_time = decision_time, ja_run_id = py_str c run_id,
        ja_mode = py_str c mode, ja_pre_trade_equity = equity, ja_sizing_anchor = py_str c anchor,
        ja_decision_marks = marks, ja_started_at = started_at\<rparr>))))))))))"

definition apply_fill :: "text_codec \<Rightarrow> (string \<times> json) list \<Rightarrow> (order_journal, unit) sx" where
  "apply_fill c record =
     sx_bind (sx_lift (rbind (obj_item record ''fill_seq'') (py_int c))) (\<lambda>seq.
     sx_bind (sx_modify (\<lambda>j. if oj_next_fill_seq j < seq + 1 then j\<lparr>oj_next_fill_seq := seq + 1\<rparr> else j)) (\<lambda>_.
     sx_bind (sx_lift (opt_res (parse_decimal c) (obj_get record ''cumulative_executed_qty''))) (\<lambda>cumulative.
     sx_bind (sx_lift (obj_item record ''kind'')) (\<lambda>kind.
     sx_bind (sx_lift (guard_res (py_str c kind \<in> set FILL_KINDS) DataIntegrityError)) (\<lambda>_.
     sx_bind (sx_lift (opt_res (py_int c) (obj_get record ''attempt_seq''))) (\<lambda>attempt_seq.
     sx_bind (sx_lift (obj_item record ''symbol'')) (\<lambda>symbol.
     sx_bind (sx_lift (obj_item record ''side'')) (\<lambda>side.
     sx_bind (sx_lift (rbind (obj_item record ''quantity'') (parse_decimal c))) (\<lambda>quantity.
     sx_bind (sx_lift (rbind (obj_item record ''price'') (parse_decimal c))) (\<lambda>price.
     sx_bind (sx_lift (rbind (obj_item record ''fee_bps'') (py_float c))) (\<lambda>fee_bps.
     sx_bind (sx_lift (obj_item record ''liquidity'')) (\<lambda>liquidity.
     sx_bind (sx_lift (obj_item record ''reason'')) (\<lambda>reason.
     sx_bind (sx_lift (rbind (obj_item record ''filled_at'') (parse_ts c))) (\<lambda>filled_at.
     sx_bind (sx_lift (rbind (obj_item record ''leg_index'') (py_int c))) (\<lambda>leg_index.
     sx_bind (sx_lift (obj_item record ''simulated'')) (\<lambda>simulated.
     sx_modify (put_fill \<lparr>jf_fill_seq = seq, jf_kind = py_str c kind, jf_attempt_seq = attempt_seq,
        jf_symbol = py_str c symbol, jf_side = py_str c side, jf_quantity = quantity, jf_price = price,
        jf_fee_bps = fee_bps, jf_liquidity = py_str c liquidity, jf_reason = py_str c reason,
        jf_filled_at = filled_at,
        jf_client_order_id = (case obj_get record ''client_order_id'' of JNull \<Rightarrow> None | j \<Rightarrow> Some (py_str c j)),
        jf_leg_index = leg_index, jf_cumulative_executed_qty = cumulative,
        jf_simulated = py_bool simulated\<rparr>)))))))))))))))))"

definition apply_terminal :: "text_codec \<Rightarrow> timestamp \<Rightarrow> (string \<times> json) list \<Rightarrow> (order_journal, unit) sx" where
  "apply_terminal c now record =
     sx_bind (sx_lift (obj_item record ''client_order_id'')) (\<lambda>cid.
     sx_bind (sx_lift (case obj_get_default record ''recorded_at'' (obj_get record ''ts'') of
         JNull \<Rightarrow> Inr now | raw \<Rightarrow> parse_ts c raw)) (\<lambda>recorded_at.
     sx_bind (sx_lift (obj_item record ''status'')) (\<lambda>status.
     sx_modify (put_terminal \<lparr>jt_client_order_id = py_str c cid, jt_status = py_str c status,
        jt_recorded_at = recorded_at\<rparr>))))"

definition apply_record :: "text_codec \<Rightarrow> timestamp \<Rightarrow> json \<Rightarrow> (order_journal, unit) sx" where
  "apply_record c now record = (case record of
     JObj d \<Rightarrow>
       (let event = obj_get d ''event''
        in if event = JStr ''schema'' then sx_modify (\<lambda>j. j\<lparr>oj_has_schema := True\<rparr>)
           else if event = JStr ''submit'' then apply_submit c d
           else if event = JStr ''observed'' then apply_observed c d
           else if event = JStr ''attempt'' then apply_attempt c d
           else if event = JStr ''fill'' then apply_fill c d
           else if event = JStr ''terminal'' then apply_terminal c now d
           else sx_raise DataIntegrityError)
   | _ \<Rightarrow> sx_raise DataIntegrityError)"

section \<open>Loading the file\<close>

text \<open>The exceptions \<open>_ensure_loaded\<close> turns into \<open>DataIntegrityError\<close>; any other propagates.\<close>

definition load_error :: "exc \<Rightarrow> exc" where
  "load_error e = (if e \<in> {KeyError, TypeError, ValueError} then DataIntegrityError else e)"

definition load_line :: "text_codec \<Rightarrow> timestamp \<Rightarrow> file_line \<Rightarrow> (order_journal, unit) sx" where
  "load_line c now line = (case line of
     Blank \<Rightarrow> sx_return ()
   | Garbage \<Rightarrow> sx_raise DataIntegrityError
   | Text r \<Rightarrow> (\<lambda>j. case apply_record c now r j of (Inl e, j') \<Rightarrow> (Inl (load_error e), j') | res \<Rightarrow> res))"

definition load_file :: "text_codec \<Rightarrow> timestamp \<Rightarrow> journal_file \<Rightarrow> (order_journal, unit) sx" where
  "load_file c now f =
     sx_bind (sx_foldM (\<lambda>line _. load_line c now line) (fl_lines f) ()) (\<lambda>_.
       case fl_tail f of None \<Rightarrow> sx_return ()
       | Some Garbage \<Rightarrow> sx_modify (\<lambda>j. j\<lparr>oj_torn := True\<rparr>)
       | Some line \<Rightarrow> load_line c now line)"

record wal =
  wal_file :: "journal_file option"
  wal_mem :: order_journal
  wal_loaded :: bool

definition open_journal :: "journal_file option \<Rightarrow> wal" where
  "open_journal f = \<lparr>wal_file = f, wal_mem = empty_journal, wal_loaded = False\<rparr>"

definition ensure_loaded :: "text_codec \<Rightarrow> timestamp \<Rightarrow> (wal, unit) sx" where
  "ensure_loaded c now w =
     (if wal_loaded w then (Inr (), w)
      else let w1 = w\<lparr>wal_loaded := True\<rparr>
           in case wal_file w1 of None \<Rightarrow> (Inr (), w1)
              | Some f \<Rightarrow> (case load_file c now f (wal_mem w1) of (r, m) \<Rightarrow> (r, w1\<lparr>wal_mem := m\<rparr>)))"

section \<open>Appending\<close>

definition append_record :: "json \<Rightarrow> (wal, unit) sx" where
  "append_record r = sx_modify (\<lambda>w.
     let f = (case wal_file w of None \<Rightarrow> empty_file | Some f \<Rightarrow> f);
         f1 = (if oj_torn (wal_mem w) then truncate_durably f else f)
     in w\<lparr>wal_file := Some (write_line r f1), wal_mem := (wal_mem w)\<lparr>oj_torn := False\<rparr>\<rparr>)"

definition modify_mem :: "(order_journal \<Rightarrow> order_journal) \<Rightarrow> (wal, unit) sx" where
  "modify_mem g = sx_modify (\<lambda>w. w\<lparr>wal_mem := g (wal_mem w)\<rparr>)"

definition schema_json :: json where
  "schema_json = JObj [(''event'', JStr ''schema''), (''version'', JInt ORDER_JOURNAL_SCHEMA_VERSION)]"

definition ensure_v2_schema :: "(wal, unit) sx" where
  "ensure_v2_schema w =
     (if oj_has_schema (wal_mem w) then (Inr (), w)
      else sx_bind (append_record schema_json) (\<lambda>_. modify_mem (\<lambda>j. j\<lparr>oj_has_schema := True\<rparr>)) w)"

definition opt_json :: "('a \<Rightarrow> json) \<Rightarrow> 'a option \<Rightarrow> json" where
  "opt_json f x = (case x of None \<Rightarrow> JNull | Some y \<Rightarrow> f y)"

definition attempt_json :: "text_codec \<Rightarrow> journal_attempt \<Rightarrow> json" where
  "attempt_json c a = JObj
     [(''attempt_seq'', JInt (ja_attempt_seq a)),
      (''decision_marks'', JObj (map (\<lambda>(k, v). (k, JStr (tc_dec_str c v))) (sort_key fst (ja_decision_marks a)))),
      (''decision_time'', JStr (tc_iso c (ja_decision_time a))),
      (''event'', JStr ''attempt''),
      (''mode'', JStr (ja_mode a)),
      (''pre_trade_equity'', JStr (tc_dec_str c (ja_pre_trade_equity a))),
      (''run_id'', JStr (ja_run_id a)),
      (''sizing_anchor'', JStr (ja_sizing_anchor a)),
      (''started_at'', JStr (tc_iso c (ja_started_at a)))]"

definition submit_json :: "text_codec \<Rightarrow> journal_submit \<Rightarrow> json" where
  "submit_json c s = JObj
     [(''attempt_seq'', opt_json JInt (js_attempt_seq s)),
      (''client_order_id'', JStr (js_client_order_id s)),
      (''event'', JStr ''submit''),
      (''leg_index'', opt_json JInt (js_leg_index s)),
      (''quantity'', opt_json (\<lambda>q. JStr (tc_dec_str c q)) (js_quantity s)),
      (''recorded_at'', JStr (tc_iso c (js_recorded_at s))),
      (''reduce_only'', opt_json JBool (js_reduce_only s)),
      (''side'', opt_json JStr (js_side s)),
      (''submit_seq'', JInt (js_submit_seq s)),
      (''symbol'', JStr (js_symbol s))]"

definition fill_json :: "text_codec \<Rightarrow> journal_fill \<Rightarrow> json" where
  "fill_json c x = JObj
     [(''attempt_seq'', opt_json JInt (jf_attempt_seq x)),
      (''client_order_id'', opt_json JStr (jf_client_order_id x)),
      (''cumulative_executed_qty'', opt_json (\<lambda>q. JStr (tc_dec_str c q)) (jf_cumulative_executed_qty x)),
      (''event'', JStr ''fill''),
      (''fee_bps'', JFloat (jf_fee_bps x)),
      (''fill_seq'', JInt (jf_fill_seq x)),
      (''filled_at'', JStr (tc_iso c (jf_filled_at x))),
      (''kind'', JStr (jf_kind x)),
      (''leg_index'', JInt (jf_leg_index x)),
      (''liquidity'', JStr (jf_liquidity x)),
      (''price'', JStr (tc_dec_str c (jf_price x))),
      (''quantity'', JStr (tc_dec_str c (jf_quantity x))),
      (''reason'', JStr (jf_reason x)),
      (''side'', JStr (jf_side x)),
      (''simulated'', JBool (jf_simulated x)),
      (''symbol'', JStr (jf_symbol x))]"

definition terminal_json :: "text_codec \<Rightarrow> journal_terminal \<Rightarrow> json" where
  "terminal_json c t = JObj
     [(''client_order_id'', JStr (jt_client_order_id t)),
      (''event'', JStr ''terminal''),
      (''recorded_at'', JStr (tc_iso c (jt_recorded_at t))),
      (''status'', JStr (jt_status t))]"

section \<open>Operations\<close>

record attempt_request =
  ar_decision_time :: pd_timestamp
  ar_run_id :: string
  ar_mode :: string
  ar_pre_trade_equity :: decimal
  ar_sizing_anchor :: string
  ar_decision_marks :: "(string, decimal) dict"
  ar_started_at :: pd_timestamp

record submit_request =
  sr_client_order_id :: string
  sr_symbol :: string
  sr_submit_seq :: int
  sr_attempt_seq :: int
  sr_side :: string
  sr_quantity :: decimal
  sr_reduce_only :: bool
  sr_leg_index :: int

record fill_request =
  fr_kind :: string
  fr_attempt_seq :: "int option"
  fr_symbol :: string
  fr_side :: string
  fr_quantity :: decimal
  fr_price :: decimal
  fr_fee_bps :: decimal
  fr_liquidity :: string
  fr_reason :: string
  fr_filled_at :: pd_timestamp
  fr_client_order_id :: "string option"
  fr_leg_index :: int
  fr_cumulative_executed_qty :: "decimal option"
  fr_simulated :: bool

text \<open>\<open>observed_qty\<close> on the loaded state.\<close>

fun observed_scan :: "string \<Rightarrow> decimal \<Rightarrow> journal_fill list \<Rightarrow> decimal" where
  "observed_scan cid best [] = best"
| "observed_scan cid best (x # xs) =
     (if jf_client_order_id x \<noteq> Some cid then observed_scan cid best xs
      else case jf_cumulative_executed_qty x of
             None \<Rightarrow> observed_scan cid best xs
           | Some q \<Rightarrow> observed_scan cid (if best < q then q else best) xs)"

definition observed_mem :: "order_journal \<Rightarrow> string \<Rightarrow> decimal" where
  "observed_mem j cid = observed_scan cid (dict_get (oj_observed_legacy j) cid 0) (oj_fills j)"

definition add_attempt :: "journal_attempt \<Rightarrow> order_journal \<Rightarrow> order_journal" where
  "add_attempt a j = (put_attempt a j)\<lparr>oj_next_attempt_seq := ja_attempt_seq a + 1\<rparr>"

definition add_submit :: "journal_submit \<Rightarrow> order_journal \<Rightarrow> order_journal" where
  "add_submit s j = (put_submit s j)\<lparr>oj_next_submit_seq := js_submit_seq s + 1\<rparr>"

definition add_fill :: "journal_fill \<Rightarrow> order_journal \<Rightarrow> order_journal" where
  "add_fill x j = (put_fill x j)\<lparr>oj_next_fill_seq := jf_fill_seq x + 1\<rparr>"

text \<open>The argument checks of each operation, in order, and the record it will append.\<close>

definition check_attempt :: "attempt_request \<Rightarrow> order_journal \<Rightarrow> journal_attempt res" where
  "check_attempt r j =
     rbind (tz_aware ValueError (ar_decision_time r)) (\<lambda>decision_time.
     rbind (tz_aware ValueError (ar_started_at r)) (\<lambda>started_at.
       Inr \<lparr>ja_attempt_seq = oj_next_attempt_seq j, ja_decision_time = decision_time, ja_run_id = ar_run_id r,
            ja_mode = ar_mode r, ja_pre_trade_equity = ar_pre_trade_equity r, ja_sizing_anchor = ar_sizing_anchor r,
            ja_decision_marks = ar_decision_marks r, ja_started_at = started_at\<rparr>))"

definition check_submit :: "timestamp \<Rightarrow> submit_request \<Rightarrow> order_journal \<Rightarrow> journal_submit res" where
  "check_submit now r j =
     (if sr_submit_seq r \<noteq> oj_next_submit_seq j then Inl ValueError
      else if sr_side r \<notin> set SIDES then Inl ValueError
      else if sr_quantity r \<le> 0 then Inl ValueError
      else if sr_leg_index r < 0 then Inl ValueError
      else Inr \<lparr>js_client_order_id = sr_client_order_id r, js_symbol = sr_symbol r, js_submit_seq = sr_submit_seq r,
              js_attempt_seq = Some (sr_attempt_seq r), js_side = Some (sr_side r), js_quantity = Some (sr_quantity r),
              js_reduce_only = Some (sr_reduce_only r), js_leg_index = Some (sr_leg_index r), js_recorded_at = now\<rparr>)"

definition check_fill :: "fill_request \<Rightarrow> order_journal \<Rightarrow> journal_fill res" where
  "check_fill r j =
     (if fr_kind r \<notin> set FILL_KINDS then Inl ValueError
      else if fr_side r \<notin> set SIDES then Inl ValueError
      else if fr_liquidity r \<notin> set LIQUIDITY then Inl ValueError
      else if fr_quantity r \<le> 0 then Inl ValueError
      else if fr_price r \<le> 0 then Inl ValueError
      else if fr_fee_bps r < 0 then Inl ValueError
      else rbind (tz_aware ValueError (fr_filled_at r)) (\<lambda>stamp.
        if (case (fr_cumulative_executed_qty r, fr_client_order_id r) of
              (Some q, Some cid) \<Rightarrow> q \<le> observed_mem j cid | _ \<Rightarrow> False)
        then Inl ValueError
        else Inr \<lparr>jf_fill_seq = oj_next_fill_seq j, jf_kind = fr_kind r, jf_attempt_seq = fr_attempt_seq r,
               jf_symbol = fr_symbol r, jf_side = fr_side r, jf_quantity = fr_quantity r, jf_price = fr_price r,
               jf_fee_bps = fr_fee_bps r, jf_liquidity = fr_liquidity r, jf_reason = fr_reason r,
               jf_filled_at = stamp, jf_client_order_id = fr_client_order_id r, jf_leg_index = fr_leg_index r,
               jf_cumulative_executed_qty = fr_cumulative_executed_qty r, jf_simulated = fr_simulated r\<rparr>))"

text \<open>Append one record: the schema marker first if the file has none, then the line, then the memory.\<close>

definition commit_record :: "json \<Rightarrow> (order_journal \<Rightarrow> order_journal) \<Rightarrow> (wal, unit) sx" where
  "commit_record line update =
     sx_bind ensure_v2_schema (\<lambda>_. sx_bind (append_record line) (\<lambda>_. modify_mem update))"

definition begin_attempt :: "text_codec \<Rightarrow> timestamp \<Rightarrow> attempt_request \<Rightarrow> (wal, journal_attempt) sx" where
  "begin_attempt c now r =
     sx_bind (ensure_loaded c now) (\<lambda>_.
     sx_bind (sx_gets wal_mem) (\<lambda>j.
     sx_bind (sx_lift (check_attempt r j)) (\<lambda>a.
     sx_bind (commit_record (attempt_json c a) (add_attempt a)) (\<lambda>_. sx_return a))))"

definition record_submit :: "text_codec \<Rightarrow> timestamp \<Rightarrow> submit_request \<Rightarrow> (wal, journal_submit) sx" where
  "record_submit c now r =
     sx_bind (ensure_loaded c now) (\<lambda>_.
     sx_bind (sx_gets wal_mem) (\<lambda>j.
     sx_bind (sx_lift (check_submit now r j)) (\<lambda>s.
     sx_bind (commit_record (submit_json c s) (add_submit s)) (\<lambda>_. sx_return s))))"

definition record_fill :: "text_codec \<Rightarrow> timestamp \<Rightarrow> fill_request \<Rightarrow> (wal, journal_fill) sx" where
  "record_fill c now r =
     sx_bind (ensure_loaded c now) (\<lambda>_.
     sx_bind (sx_gets wal_mem) (\<lambda>j.
     sx_bind (sx_lift (check_fill r j)) (\<lambda>x.
     sx_bind (commit_record (fill_json c x) (add_fill x)) (\<lambda>_. sx_return x))))"

definition record_terminal :: "text_codec \<Rightarrow> timestamp \<Rightarrow> string \<Rightarrow> string \<Rightarrow> (wal, unit) sx" where
  "record_terminal c now cid status =
     sx_bind (ensure_loaded c now) (\<lambda>_.
       let t = \<lparr>jt_client_order_id = cid, jt_status = status, jt_recorded_at = now\<rparr>
       in commit_record (terminal_json c t) (put_terminal t))"

section \<open>Queries\<close>

definition query_journal :: "text_codec \<Rightarrow> timestamp \<Rightarrow> (order_journal \<Rightarrow> 'a) \<Rightarrow> (wal, 'a) sx" where
  "query_journal c now g = sx_bind (ensure_loaded c now) (\<lambda>_. sx_gets (\<lambda>w. g (wal_mem w)))"

definition observed_qty :: "text_codec \<Rightarrow> timestamp \<Rightarrow> string \<Rightarrow> (wal, decimal) sx" where
  "observed_qty c now cid = query_journal c now (\<lambda>j. observed_mem j cid)"

definition next_submit_seq :: "text_codec \<Rightarrow> timestamp \<Rightarrow> (wal, int) sx" where
  "next_submit_seq c now = query_journal c now oj_next_submit_seq"

definition submits :: "text_codec \<Rightarrow> timestamp \<Rightarrow> (wal, journal_submit list) sx" where
  "submits c now = query_journal c now oj_submits"

definition terminal :: "text_codec \<Rightarrow> timestamp \<Rightarrow> string \<Rightarrow> (wal, journal_terminal option) sx" where
  "terminal c now cid = query_journal c now (\<lambda>j. map_of (oj_terminals j) cid)"

definition last_fill_seq :: "text_codec \<Rightarrow> timestamp \<Rightarrow> (wal, int) sx" where
  "last_fill_seq c now = query_journal c now (\<lambda>j. oj_next_fill_seq j - 1)"

definition fills_after_mem :: "order_journal \<Rightarrow> int \<Rightarrow> journal_fill list" where
  "fills_after_mem j fill_seq = filter (\<lambda>x. fill_seq < jf_fill_seq x) (oj_fills j)"

definition fills_after :: "text_codec \<Rightarrow> timestamp \<Rightarrow> int \<Rightarrow> (wal, journal_fill list) sx" where
  "fills_after c now fill_seq = query_journal c now (\<lambda>j. fills_after_mem j fill_seq)"

definition attempt :: "text_codec \<Rightarrow> timestamp \<Rightarrow> int \<Rightarrow> (wal, journal_attempt option) sx" where
  "attempt c now seq = query_journal c now (\<lambda>j. map_of (oj_attempts j) seq)"

definition unresolved_mem :: "order_journal \<Rightarrow> timestamp \<Rightarrow> journal_submit list" where
  "unresolved_mem j since = sort_key js_submit_seq
     (filter (\<lambda>s. js_attempt_seq s \<noteq> None \<and> since \<le> js_recorded_at s
        \<and> map_of (oj_terminals j) (js_client_order_id s) = None) (oj_submits j))"

definition unresolved_submits :: "text_codec \<Rightarrow> timestamp \<Rightarrow> timestamp \<Rightarrow> (wal, journal_submit list) sx" where
  "unresolved_submits c now since = query_journal c now (\<lambda>j. unresolved_mem j since)"

section \<open>What is written is what is read\<close>

text \<open>Dictionaries compare without regard to order, and a journal line stores the decision marks
  sorted; the view of a journal state has them sorted and leaves the torn flag out.\<close>

definition norm_attempt :: "journal_attempt \<Rightarrow> journal_attempt" where
  "norm_attempt a = a\<lparr>ja_decision_marks := sort_key fst (ja_decision_marks a)\<rparr>"

definition journal_view :: "order_journal \<Rightarrow> order_journal" where
  "journal_view j = j\<lparr>oj_attempts := map (\<lambda>(k, a). (k, norm_attempt a)) (oj_attempts j), oj_torn := False\<rparr>"

lemma norm_attempt_idem [simp]: "norm_attempt (norm_attempt a) = norm_attempt a"
  by (simp add: norm_attempt_def sort_key_id_if_sorted)

lemma ja_attempt_seq_norm [simp]: "ja_attempt_seq (norm_attempt a) = ja_attempt_seq a"
  by (simp add: norm_attempt_def)

lemma map_norm_update:
  "map (\<lambda>(k, a). (k, norm_attempt a)) (AList.update s a d) =
     AList.update s (norm_attempt a) (map (\<lambda>(k, a). (k, norm_attempt a)) d)"
  by (induction d) auto

lemma opt_res_opt_json [simp]:
  "(\<And>y. g y \<noteq> JNull) \<Longrightarrow> (\<And>y. h (g y) = Inr y) \<Longrightarrow> opt_res h (opt_json g x) = Inr x"
  by (auto simp: opt_res_def opt_json_def split: option.splits)

lemma parse_decimal_dec_str [simp]: "codec_ok c \<Longrightarrow> parse_decimal c (JStr (tc_dec_str c x)) = Inr x"
  by (simp add: parse_decimal_def)

lemma parse_ts_iso [simp]: "codec_ok c \<Longrightarrow> parse_ts c (JStr (tc_iso c t)) = Inr t"
  by (simp add: parse_ts_def)

lemma opt_json_JStr_case [simp]: "(case opt_json JStr x of JNull \<Rightarrow> None | j \<Rightarrow> Some (py_str c j)) = x"
  by (simp add: opt_json_def split: option.splits)

lemma opt_json_JBool_case [simp]: "(case opt_json JBool x of JNull \<Rightarrow> None | j \<Rightarrow> Some (py_bool j)) = x"
  by (simp add: opt_json_def split: option.splits)

lemma apply_submit_json:
  assumes "codec_ok c" "oj_next_submit_seq j \<le> js_submit_seq s"
  shows "apply_record c now (submit_json c s) j = (Inr (), add_submit s j)"
  using assms
  by (cases s, cases j) (simp add: apply_record_def submit_json_def apply_submit_def sx_defs add_submit_def put_submit_def)

lemma apply_fill_json:
  assumes "codec_ok c" "oj_next_fill_seq j \<le> jf_fill_seq x" "jf_kind x \<in> set FILL_KINDS"
  shows "apply_record c now (fill_json c x) j = (Inr (), add_fill x j)"
  using assms
  by (cases x, cases j) (simp add: apply_record_def fill_json_def apply_fill_def sx_defs add_fill_def put_fill_def guard_res_def)

lemma parse_marks_json:
  "codec_ok c \<Longrightarrow> parse_marks c (JObj (map (\<lambda>(k, v). (k, JStr (tc_dec_str c v))) d)) = Inr d"
  by (induction d) (auto simp: parse_marks_def)

lemma apply_attempt_json:
  assumes "codec_ok c" "oj_next_attempt_seq j \<le> ja_attempt_seq a"
  shows "apply_record c now (attempt_json c a) j = (Inr (), add_attempt (norm_attempt a) j)"
  using assms
  by (cases a, cases j) (simp add: apply_record_def attempt_json_def apply_attempt_def sx_defs add_attempt_def put_attempt_def
      parse_marks_json norm_attempt_def)

lemma apply_terminal_json:
  assumes "codec_ok c"
  shows "apply_record c now (terminal_json c t) j = (Inr (), put_terminal t j)"
  using assms by (cases t) (simp add: apply_record_def terminal_json_def apply_terminal_def sx_defs)

text \<open>The contract of an operation of the journal: the line \<open>enc\<close> of an entry, read back, has the
  effect \<open>upd\<close> the operation has on the memory, up to the view.\<close>

locale journal_entry =
  fixes enc :: "text_codec \<Rightarrow> 'x \<Rightarrow> json"
    and upd :: "'x \<Rightarrow> order_journal \<Rightarrow> order_journal"
    and fresh :: "'x \<Rightarrow> order_journal \<Rightarrow> bool"
  assumes apply_enc: "codec_ok c \<Longrightarrow> fresh x j \<Longrightarrow>
      \<exists>k. apply_record c now (enc c x) j = (Inr (), k) \<and> journal_view k = journal_view (upd x j) \<and> oj_torn k = oj_torn j"
    and upd_view: "journal_view j = journal_view k \<Longrightarrow> journal_view (upd x j) = journal_view (upd x k)"
    and upd_torn: "oj_torn (upd x j) = oj_torn j"
    and fresh_view: "journal_view j = journal_view k \<Longrightarrow> fresh x j = fresh x k"
    and fresh_schema: "fresh x (j\<lparr>oj_has_schema := b\<rparr>) = fresh x j"

text \<open>The invariant of the journal object: the memory is what a new process would load.\<close>

definition synced :: "text_codec \<Rightarrow> wal \<Rightarrow> bool" where
  "synced c w \<longleftrightarrow> wal_loaded w \<and> (case wal_file w of
       None \<Rightarrow> \<not> oj_torn (wal_mem w) \<and> journal_view (wal_mem w) = journal_view empty_journal
     | Some f \<Rightarrow> fl_tail f = (if oj_torn (wal_mem w) then Some Garbage else None)
         \<and> (\<forall>now. \<exists>j. load_file c now f empty_journal = (Inr (), j) \<and> journal_view j = journal_view (wal_mem w)
              \<and> oj_torn j = oj_torn (wal_mem w)))"

definition load_lines :: "text_codec \<Rightarrow> timestamp \<Rightarrow> file_line list \<Rightarrow> (order_journal, unit) sx" where
  "load_lines c now ls = sx_foldM (\<lambda>line _. load_line c now line) ls ()"

lemma load_file_complete: "fl_tail f = None \<Longrightarrow> load_file c now f = load_lines c now (fl_lines f)"
  by (auto simp: load_file_def load_lines_def fun_eq_iff sx_defs split: prod.splits sum.splits)

lemma load_lines_snoc:
  "load_lines c now (ls @ [Text r]) = sx_bind (load_lines c now ls) (\<lambda>_. load_line c now (Text r))"
  by (auto simp: load_lines_def sx_foldM_append fun_eq_iff sx_defs split: prod.splits sum.splits)

lemmas torn_rules =
  sx_keeps_pure [OF preorder_eq_on(1) [of oj_torn]] sx_keeps_bind [OF preorder_eq_on(2) [of oj_torn]]
  sx_keeps_modify [of "\<lambda>s t. oj_torn t = oj_torn s"] sx_keeps_foldM [OF preorder_eq_on [of oj_torn]]

lemma apply_submit_torn: "sx_keeps (\<lambda>s t. oj_torn t = oj_torn s) (apply_submit c d)"
  unfolding apply_submit_def by (intro torn_rules) (simp_all add: put_submit_def)

lemma apply_observed_torn: "sx_keeps (\<lambda>s t. oj_torn t = oj_torn s) (apply_observed c d)"
  unfolding apply_observed_def by (intro torn_rules) simp_all

lemma apply_attempt_torn: "sx_keeps (\<lambda>s t. oj_torn t = oj_torn s) (apply_attempt c d)"
  unfolding apply_attempt_def by (intro torn_rules) (simp_all add: put_attempt_def)

lemma apply_fill_torn: "sx_keeps (\<lambda>s t. oj_torn t = oj_torn s) (apply_fill c d)"
  unfolding apply_fill_def by (intro torn_rules) (simp_all add: put_fill_def)

lemma apply_terminal_torn: "sx_keeps (\<lambda>s t. oj_torn t = oj_torn s) (apply_terminal c now d)"
  unfolding apply_terminal_def by (intro torn_rules) (simp_all add: put_terminal_def)

lemma apply_record_torn: "sx_keeps (\<lambda>s t. oj_torn t = oj_torn s) (apply_record c now r)"
  unfolding apply_record_def Let_def
  by (cases r) (simp_all add: apply_submit_torn apply_observed_torn apply_attempt_torn apply_fill_torn
      apply_terminal_torn torn_rules)

lemma load_line_torn: "sx_keeps (\<lambda>s t. oj_torn t = oj_torn s) (load_line c now l)"
proof (cases l)
  case (Text r)
  show ?thesis unfolding sx_keeps_def Text
  proof
    fix s
    obtain x t where "apply_record c now r s = (x, t)" by (cases "apply_record c now r s")
    then show "oj_torn (snd (load_line c now (Text r) s)) = oj_torn s"
      using sx_keepsD [OF apply_record_torn] by (cases x) (auto simp: load_line_def)
  qed
qed (simp_all add: load_line_def torn_rules)

lemma load_lines_torn: "sx_keeps (\<lambda>s t. oj_torn t = oj_torn s) (load_lines c now ls)"
  unfolding load_lines_def by (intro torn_rules load_line_torn)

text \<open>After the torn tail is cut off, the lines that remain load to the same view.\<close>

lemma synced_lines:
  assumes "synced c w" "f = (case wal_file w of None \<Rightarrow> empty_file | Some f \<Rightarrow> f)"
  shows "\<exists>j. load_lines c now (fl_lines f) empty_journal = (Inr (), j)
     \<and> journal_view j = journal_view (wal_mem w) \<and> \<not> oj_torn j"
proof (cases "wal_file w")
  case None
  then show ?thesis using assms
    by (auto simp: synced_def empty_file_def load_lines_def sx_return_def empty_journal_def journal_view_def)
next
  case (Some g)
  then have f: "f = g" using assms(2) by simp
  obtain j where j: "load_file c now f empty_journal = (Inr (), j)" "journal_view j = journal_view (wal_mem w)"
      "oj_torn j = oj_torn (wal_mem w)"
    using assms(1) Some f by (fastforce simp: synced_def)
  show ?thesis
  proof (cases "oj_torn (wal_mem w)")
    case False
    then have "fl_tail f = None" using assms(1) Some f by (simp add: synced_def)
    with j False show ?thesis by (simp add: load_file_complete)
  next
    case True
    then have "fl_tail f = Some Garbage" using assms(1) Some f by (simp add: synced_def)
    with j obtain i where i: "load_lines c now (fl_lines f) empty_journal = (Inr (), i)" "j = i\<lparr>oj_torn := True\<rparr>"
      by (auto simp: load_file_def load_lines_def sx_defs split: prod.splits sum.splits)
    have "oj_torn i = oj_torn empty_journal" using sx_keepsD [OF load_lines_torn i(1)] .
    with i j show ?thesis by (auto simp: empty_journal_def journal_view_def)
  qed
qed

text \<open>Appending a line whose effect on reading is the effect on the memory keeps the invariant.\<close>

lemma append_synced:
  assumes sync: "synced c w"
    and ap: "\<And>now j. journal_view j = journal_view (wal_mem w) \<Longrightarrow> \<exists>k. apply_record c now r j = (Inr (), k)
        \<and> journal_view k = journal_view (g (wal_mem w)) \<and> oj_torn k = oj_torn j"
    and gt: "\<And>m. oj_torn (g m) = oj_torn m"
    and gv: "journal_view (g ((wal_mem w)\<lparr>oj_torn := False\<rparr>)) = journal_view (g (wal_mem w))"
  shows "\<exists>w'. sx_bind (append_record r) (\<lambda>_. modify_mem g) w = (Inr (), w') \<and> synced c w'
     \<and> wal_mem w' = g ((wal_mem w)\<lparr>oj_torn := False\<rparr>)"
proof -
  define f where "f = (case wal_file w of None \<Rightarrow> empty_file | Some f \<Rightarrow> f)"
  define f1 where "f1 = (if oj_torn (wal_mem w) then truncate_durably f else f)"
  define w' where "w' = w\<lparr>wal_file := Some (write_line r f1), wal_mem := g ((wal_mem w)\<lparr>oj_torn := False\<rparr>)\<rparr>"
  have f1: "fl_tail f1 = None" "fl_lines f1 = fl_lines f"
    using sync by (auto simp: f1_def f_def truncate_durably_def synced_def empty_file_def split: option.splits if_splits)
  have line: "write_line r f1 = \<lparr>fl_lines = fl_lines f @ [Text r], fl_tail = None\<rparr>"
    using f1 by (simp add: write_line_def)
  have "\<exists>j. load_file c now (write_line r f1) empty_journal = (Inr (), j)
      \<and> journal_view j = journal_view (wal_mem w') \<and> \<not> oj_torn j" for now
  proof -
    obtain i where i: "load_lines c now (fl_lines f) empty_journal = (Inr (), i)"
        "journal_view i = journal_view (wal_mem w)" "\<not> oj_torn i"
      using synced_lines [OF sync f_def] by blast
    obtain k where k: "apply_record c now r i = (Inr (), k)" "journal_view k = journal_view (g (wal_mem w))" "\<not> oj_torn k"
      using ap [OF i(2)] i(3) by auto
    have "load_file c now (write_line r f1) empty_journal = (Inr (), k)"
      using i(1) k(1) by (simp add: line load_file_complete load_lines_snoc sx_bind_def load_line_def)
    then show ?thesis using k gv by (auto simp: w'_def)
  qed
  moreover have "\<not> oj_torn (wal_mem w')" by (simp add: w'_def gt)
  ultimately have "synced c w'" using sync by (auto simp: synced_def w'_def line)
  moreover have "sx_bind (append_record r) (\<lambda>_. modify_mem g) w = (Inr (), w')"
    by (simp add: append_record_def modify_mem_def sx_defs Let_def f_def f1_def w'_def)
  ultimately show ?thesis by (auto simp: w'_def)
qed

lemma journal_view_torn [simp]: "journal_view (j\<lparr>oj_torn := b\<rparr>) = journal_view j"
  by (simp add: journal_view_def)

lemma journal_view_schema:
  "journal_view j = journal_view k \<Longrightarrow> journal_view (j\<lparr>oj_has_schema := b\<rparr>) = journal_view (k\<lparr>oj_has_schema := b\<rparr>)"
  by (cases j, cases k) (simp add: journal_view_def)

lemma schema_synced:
  assumes "synced c w"
  shows "\<exists>w'. ensure_v2_schema w = (Inr (), w') \<and> synced c w'
     \<and> journal_view (wal_mem w') = journal_view ((wal_mem w)\<lparr>oj_has_schema := True\<rparr>)"
proof (cases "oj_has_schema (wal_mem w)")
  case True
  then have "journal_view (wal_mem w) = journal_view ((wal_mem w)\<lparr>oj_has_schema := True\<rparr>)"
    by (cases "wal_mem w") simp
  with True assms show ?thesis by (auto simp: ensure_v2_schema_def)
next
  case False
  have "\<exists>w'. sx_bind (append_record schema_json) (\<lambda>_. modify_mem (\<lambda>j. j\<lparr>oj_has_schema := True\<rparr>)) w = (Inr (), w')
      \<and> synced c w' \<and> wal_mem w' = ((wal_mem w)\<lparr>oj_torn := False\<rparr>)\<lparr>oj_has_schema := True\<rparr>"
  proof (rule append_synced [OF assms])
    show "\<exists>k. apply_record c now schema_json j = (Inr (), k)
        \<and> journal_view k = journal_view ((wal_mem w)\<lparr>oj_has_schema := True\<rparr>) \<and> oj_torn k = oj_torn j"
      if "journal_view j = journal_view (wal_mem w)" for now j
      using journal_view_schema [OF that] by (simp add: schema_json_def apply_record_def sx_modify_def)
    show "journal_view (((wal_mem w)\<lparr>oj_torn := False\<rparr>)\<lparr>oj_has_schema := True\<rparr>) =
        journal_view ((wal_mem w)\<lparr>oj_has_schema := True\<rparr>)"
      by (rule journal_view_schema [OF journal_view_torn])
  qed simp
  then show ?thesis using False journal_view_schema [OF journal_view_torn [where j = "wal_mem w" and b = False]]
    by (auto simp: ensure_v2_schema_def)
qed

context journal_entry
begin

lemma commit_synced:
  assumes "codec_ok c" "synced c w" "fresh x (wal_mem w)"
  shows "\<exists>w'. commit_record (enc c x) (upd x) w = (Inr (), w') \<and> synced c w'
     \<and> journal_view (wal_mem w') = journal_view (upd x ((wal_mem w)\<lparr>oj_has_schema := True\<rparr>))"
proof -
  obtain u where u: "ensure_v2_schema w = (Inr (), u)" "synced c u"
      "journal_view (wal_mem u) = journal_view ((wal_mem w)\<lparr>oj_has_schema := True\<rparr>)"
    using schema_synced [OF assms(2)] by blast
  have fresh: "fresh x (wal_mem u)" using fresh_view [OF u(3)] fresh_schema assms(3) by simp
  have ap: "\<exists>k. apply_record c now (enc c x) j = (Inr (), k)
      \<and> journal_view k = journal_view (upd x (wal_mem u)) \<and> oj_torn k = oj_torn j"
    if "journal_view j = journal_view (wal_mem u)" for now j
    using apply_enc [OF assms(1), of x j now] fresh fresh_view [OF that] upd_view [OF that] by auto
  obtain w' where w': "sx_bind (append_record (enc c x)) (\<lambda>_. modify_mem (upd x)) u = (Inr (), w')" "synced c w'"
      "wal_mem w' = upd x ((wal_mem u)\<lparr>oj_torn := False\<rparr>)"
    using append_synced [OF u(2) ap upd_torn upd_view [OF journal_view_torn]] by blast
  have "journal_view (wal_mem w') = journal_view (upd x (wal_mem u))"
    unfolding w'(3) by (rule upd_view [OF journal_view_torn])
  then show ?thesis using u w' upd_view [OF u(3)] by (auto simp: commit_record_def sx_bind_def)
qed

lemma op_synced:
  assumes "codec_ok c" "ensure_loaded c now w = (Inr (), w1)" "synced c w1"
    and "\<And>j x. check j = Inr x \<Longrightarrow> fresh x j"
  shows "case sx_bind (ensure_loaded c now) (\<lambda>_. sx_bind (sx_gets wal_mem) (\<lambda>j. sx_bind (sx_lift (check j)) (\<lambda>x.
           sx_bind (commit_record (enc c x) (upd x)) (\<lambda>_. sx_return x)))) w of
      (Inl e, w') \<Rightarrow> check (wal_mem w1) = Inl e \<and> w' = w1
    | (Inr x, w') \<Rightarrow> check (wal_mem w1) = Inr x \<and> synced c w'
        \<and> journal_view (wal_mem w') = journal_view (upd x ((wal_mem w1)\<lparr>oj_has_schema := True\<rparr>))"
proof (cases "check (wal_mem w1)")
  case (Inl e)
  with assms(2) show ?thesis by (simp add: sx_defs)
next
  case (Inr x)
  from commit_synced [OF assms(1,3) assms(4) [OF Inr]] obtain w' where
    "commit_record (enc c x) (upd x) w1 = (Inr (), w')" "synced c w'"
    "journal_view (wal_mem w') = journal_view (upd x ((wal_mem w1)\<lparr>oj_has_schema := True\<rparr>))" by blast
  with Inr assms(2) show ?thesis by (simp add: sx_defs)
qed

end

lemma journal_view_fields:
  assumes "journal_view j = journal_view k"
  shows "oj_next_submit_seq j = oj_next_submit_seq k" "oj_next_fill_seq j = oj_next_fill_seq k"
    "oj_next_attempt_seq j = oj_next_attempt_seq k" "oj_observed_legacy j = oj_observed_legacy k"
    "oj_submits j = oj_submits k" "oj_fills j = oj_fills k" "oj_terminals j = oj_terminals k"
    "oj_has_schema j = oj_has_schema k"
    "map (\<lambda>(k, a). (k, norm_attempt a)) (oj_attempts j) = map (\<lambda>(k, a). (k, norm_attempt a)) (oj_attempts k)"
  using assms by (cases j, cases k, simp add: journal_view_def)+

interpretation submit_entry: journal_entry submit_json add_submit "\<lambda>s j. oj_next_submit_seq j \<le> js_submit_seq s"
proof unfold_locales
  fix j k :: order_journal and x :: journal_submit
  assume v: "journal_view j = journal_view k"
  from journal_view_fields [OF v] show "journal_view (add_submit x j) = journal_view (add_submit x k)"
    by (simp add: journal_view_def add_submit_def put_submit_def)
qed (auto simp: apply_submit_json add_submit_def put_submit_def dest: journal_view_fields)

interpretation fill_entry: journal_entry fill_json add_fill
  "\<lambda>x j. oj_next_fill_seq j \<le> jf_fill_seq x \<and> jf_kind x \<in> set FILL_KINDS"
proof unfold_locales
  fix j k :: order_journal and x :: journal_fill
  assume v: "journal_view j = journal_view k"
  from journal_view_fields [OF v] show "journal_view (add_fill x j) = journal_view (add_fill x k)"
    by (simp add: journal_view_def add_fill_def put_fill_def)
qed (auto simp: apply_fill_json add_fill_def put_fill_def dest: journal_view_fields)

interpretation attempt_entry: journal_entry attempt_json add_attempt "\<lambda>a j. oj_next_attempt_seq j \<le> ja_attempt_seq a"
proof unfold_locales
  fix j k :: order_journal and x :: journal_attempt
  assume v: "journal_view j = journal_view k"
  from journal_view_fields [OF v] show "journal_view (add_attempt x j) = journal_view (add_attempt x k)"
    by (simp add: journal_view_def add_attempt_def put_attempt_def map_norm_update)
  from journal_view_fields(3) [OF v]
  show "(oj_next_attempt_seq j \<le> ja_attempt_seq x) = (oj_next_attempt_seq k \<le> ja_attempt_seq x)" by simp
qed (auto simp: apply_attempt_json add_attempt_def put_attempt_def journal_view_def map_norm_update)

interpretation terminal_entry: journal_entry terminal_json put_terminal "\<lambda>t j. True"
proof unfold_locales
  fix j k :: order_journal and x :: journal_terminal
  assume v: "journal_view j = journal_view k"
  from journal_view_fields [OF v] show "journal_view (put_terminal x j) = journal_view (put_terminal x k)"
    by (simp add: journal_view_def put_terminal_def)
qed (auto simp: apply_terminal_json put_terminal_def)

section \<open>Operation sequences, restarts and torn writes\<close>

datatype journal_op =
    BeginAttempt attempt_request
  | RecordSubmit submit_request
  | RecordFill fill_request
  | RecordTerminal string string

definition run_op :: "text_codec \<Rightarrow> timestamp \<Rightarrow> journal_op \<Rightarrow> wal \<Rightarrow> wal" where
  "run_op c now op w = (case op of
     BeginAttempt r \<Rightarrow> snd (begin_attempt c now r w)
   | RecordSubmit r \<Rightarrow> snd (record_submit c now r w)
   | RecordFill r \<Rightarrow> snd (record_fill c now r w)
   | RecordTerminal cid status \<Rightarrow> snd (record_terminal c now cid status w))"

text \<open>A write cut off inside the line, after the torn tail of an earlier crash was truncated.\<close>

definition torn_write :: "wal \<Rightarrow> journal_file" where
  "torn_write w = (let f = (case wal_file w of None \<Rightarrow> empty_file | Some f \<Rightarrow> f) in f\<lparr>fl_tail := Some Garbage\<rparr>)"

text \<open>The life of a journal file: operations, processes that end and are started again, and
  processes that die while a line is being written.\<close>

inductive journal_reach :: "text_codec \<Rightarrow> wal \<Rightarrow> bool" for c where
  start: "journal_reach c (open_journal None)"
| op: "journal_reach c w \<Longrightarrow> journal_reach c (run_op c now op w)"
| restart: "journal_reach c w \<Longrightarrow> journal_reach c (open_journal (wal_file w))"
| crash: "journal_reach c w \<Longrightarrow> wal_loaded w \<Longrightarrow> journal_reach c (open_journal (Some (torn_write w)))"

text \<open>What the checks of \<open>record_fill\<close> establish of a fill.\<close>

definition fill_ok :: "journal_fill \<Rightarrow> bool" where
  "fill_ok x \<longleftrightarrow> jf_kind x \<in> set FILL_KINDS \<and> jf_side x \<in> set SIDES \<and> jf_liquidity x \<in> set LIQUIDITY
     \<and> 0 < jf_quantity x \<and> 0 < jf_price x \<and> 0 \<le> jf_fee_bps x"

definition seq_ok :: "order_journal \<Rightarrow> bool" where
  "seq_ok j \<longleftrightarrow> list_all fill_ok (oj_fills j)
     \<and> map jf_fill_seq (oj_fills j) = [0..oj_next_fill_seq j - 1]
     \<and> map js_submit_seq (oj_submits j) = [0..oj_next_submit_seq j - 1]
     \<and> map fst (oj_attempts j) = [0..oj_next_attempt_seq j - 1]
     \<and> 0 \<le> oj_next_fill_seq j \<and> 0 \<le> oj_next_submit_seq j \<and> 0 \<le> oj_next_attempt_seq j"

lemma seq_ok_view: "seq_ok (journal_view j) = seq_ok j"
  by (simp add: seq_ok_def journal_view_def comp_def case_prod_beta)

lemma seq_ok_cong: "journal_view j = journal_view k \<Longrightarrow> seq_ok j = seq_ok k"
  by (metis seq_ok_view)

lemma seq_ok_schema [simp]: "seq_ok (j\<lparr>oj_has_schema := b\<rparr>) = seq_ok j"
  by (simp add: seq_ok_def)

lemma seq_ok_add_fill:
  "seq_ok j \<Longrightarrow> jf_fill_seq x = oj_next_fill_seq j \<and> fill_ok x \<Longrightarrow> seq_ok (add_fill x j)"
  by (auto simp: seq_ok_def add_fill_def put_fill_def upto_rec2)

lemma seq_ok_add_submit:
  "seq_ok j \<Longrightarrow> js_submit_seq x = oj_next_submit_seq j \<Longrightarrow> seq_ok (add_submit x j)"
  by (auto simp: seq_ok_def add_submit_def put_submit_def upto_rec2)

lemma update_new_key: "k \<notin> fst ` set d \<Longrightarrow> AList.update k v d = d @ [(k, v)]"
  by (induction d) auto

lemma seq_ok_add_attempt:
  assumes "seq_ok j" "ja_attempt_seq x = oj_next_attempt_seq j" shows "seq_ok (add_attempt x j)"
proof -
  have "ja_attempt_seq x \<notin> set (map fst (oj_attempts j))"
    using assms unfolding seq_ok_def by (metis atLeastAtMost_iff set_upto zle_diff1_eq order.irrefl)
  then have "AList.update (ja_attempt_seq x) x (oj_attempts j) = oj_attempts j @ [(ja_attempt_seq x, x)]"
    by (intro update_new_key) simp
  with assms show ?thesis by (auto simp: seq_ok_def add_attempt_def put_attempt_def upto_rec2)
qed

lemma seq_ok_put_terminal: "seq_ok (put_terminal t j) = seq_ok j"
  by (simp add: seq_ok_def put_terminal_def)

lemma check_attempt_seq: "check_attempt r j = Inr a \<Longrightarrow> ja_attempt_seq a = oj_next_attempt_seq j"
  by (auto simp: check_attempt_def result_simps)

lemma check_submit_seq: "check_submit now r j = Inr s \<Longrightarrow> js_submit_seq s = oj_next_submit_seq j"
  by (auto simp: check_submit_def split: if_splits)

lemma check_fill_seq:
  "check_fill r j = Inr x \<Longrightarrow> jf_fill_seq x = oj_next_fill_seq j \<and> fill_ok x \<and> jf_kind x \<in> set FILL_KINDS"
  by (auto simp: check_fill_def fill_ok_def result_simps split: if_splits)

text \<open>The invariant of the journal's life: loading succeeds, and gives a synchronised object whose
  view does not depend on when it is loaded.\<close>

definition wal_ok :: "text_codec \<Rightarrow> wal \<Rightarrow> bool" where
  "wal_ok c w \<longleftrightarrow> (\<exists>v. seq_ok v \<and> (\<forall>now. \<exists>w1. ensure_loaded c now w = (Inr (), w1) \<and> synced c w1
     \<and> journal_view (wal_mem w1) = journal_view v))"

lemma wal_okI: "synced c w \<Longrightarrow> seq_ok (wal_mem w) \<Longrightarrow> wal_ok c w"
  by (auto simp: wal_ok_def ensure_loaded_def synced_def)

lemma synced_loaded: "synced c w \<Longrightarrow> wal_loaded w"
  by (simp add: synced_def)

lemma wal_okE:
  assumes "wal_ok c w"
  obtains w1 where "ensure_loaded c now w = (Inr (), w1)" "synced c w1" "seq_ok (wal_mem w1)"
  using assms seq_ok_cong unfolding wal_ok_def by metis

lemma ensure_loaded_open:
  "ensure_loaded c now (open_journal (Some f)) =
     (case load_file c now f empty_journal of (r, m) \<Rightarrow> (r, \<lparr>wal_file = Some f, wal_mem = m, wal_loaded = True\<rparr>))"
  by (simp add: ensure_loaded_def open_journal_def split: prod.splits)

text \<open>A new process on the file of a synchronised object loads the same view.\<close>

lemma synced_reopen:
  assumes "synced c w"
  shows "\<exists>w1. ensure_loaded c now (open_journal (wal_file w)) = (Inr (), w1) \<and> synced c w1
     \<and> journal_view (wal_mem w1) = journal_view (wal_mem w)"
proof (cases "wal_file w")
  case None
  with assms show ?thesis
    by (auto simp: ensure_loaded_def open_journal_def synced_def empty_journal_def)
next
  case (Some f)
  with assms obtain j where j: "load_file c now f empty_journal = (Inr (), j)"
      "journal_view j = journal_view (wal_mem w)" "oj_torn j = oj_torn (wal_mem w)"
    by (fastforce simp: synced_def)
  with assms Some show ?thesis by (simp add: ensure_loaded_open synced_def)
qed

text \<open>A process that dies inside a write leaves a tail the next load ignores.\<close>

lemma synced_torn:
  assumes "synced c w"
  shows "\<exists>w1. ensure_loaded c now (open_journal (Some (torn_write w))) = (Inr (), w1) \<and> synced c w1
     \<and> journal_view (wal_mem w1) = journal_view (wal_mem w)"
proof -
  define f where "f = (case wal_file w of None \<Rightarrow> empty_file | Some f \<Rightarrow> f)"
  have t: "torn_write w = f\<lparr>fl_tail := Some Garbage\<rparr>" by (simp add: torn_write_def f_def)
  have load: "\<exists>j. load_file c now (torn_write w) empty_journal = (Inr (), j)
      \<and> journal_view j = journal_view (wal_mem w) \<and> oj_torn j" for now
    using synced_lines [OF assms f_def, of now]
    by (auto simp: t load_file_def load_lines_def sx_defs)
  then obtain j where "load_file c now (torn_write w) empty_journal = (Inr (), j)"
      "journal_view j = journal_view (wal_mem w)" "oj_torn j" by blast
  with load show ?thesis by (simp add: ensure_loaded_open synced_def t)
qed

lemma wal_ok_loaded: "wal_ok c w \<Longrightarrow> wal_loaded w \<Longrightarrow> synced c w \<and> seq_ok (wal_mem w)"
  by (auto simp: wal_ok_def ensure_loaded_def dest: seq_ok_cong)

lemma wal_ok_reopen:
  assumes "wal_ok c w" "wal_loaded w"
  shows "wal_ok c (open_journal (wal_file w))" "wal_ok c (open_journal (Some (torn_write w)))"
proof -
  from wal_ok_loaded [OF assms] have w: "synced c w" "seq_ok (wal_mem w)" by simp_all
  show "wal_ok c (open_journal (wal_file w))" unfolding wal_ok_def using synced_reopen [OF w(1)] w(2) by blast
  show "wal_ok c (open_journal (Some (torn_write w)))" unfolding wal_ok_def using synced_torn [OF w(1)] w(2) by blast
qed

lemma run_op_synced:
  assumes c: "codec_ok c" and ok: "wal_ok c w"
  shows "synced c (run_op c now op w) \<and> seq_ok (wal_mem (run_op c now op w))"
proof -
  obtain w1 where w1: "ensure_loaded c now w = (Inr (), w1)" "synced c w1" "seq_ok (wal_mem w1)"
    using wal_okE [OF ok] .
  note entry = c w1(1,2)
  note seqs = seq_ok_cong seq_ok_schema w1(3)
  show ?thesis
  proof (cases op)
    case (BeginAttempt r)
    show ?thesis
      using attempt_entry.op_synced [OF entry, of "check_attempt r"] check_attempt_seq w1
        seq_ok_add_attempt [of "(wal_mem w1)\<lparr>oj_has_schema := True\<rparr>"]
      by (auto simp: BeginAttempt run_op_def begin_attempt_def split: prod.splits sum.splits
          dest: seq_ok_cong)
  next
    case (RecordSubmit r)
    show ?thesis
      using submit_entry.op_synced [OF entry, of "check_submit now r"] check_submit_seq w1
        seq_ok_add_submit [of "(wal_mem w1)\<lparr>oj_has_schema := True\<rparr>"]
      by (auto simp: RecordSubmit run_op_def record_submit_def split: prod.splits sum.splits
          dest: seq_ok_cong)
  next
    case (RecordFill r)
    show ?thesis
      using fill_entry.op_synced [OF entry, of "check_fill r"] check_fill_seq w1
        seq_ok_add_fill [of "(wal_mem w1)\<lparr>oj_has_schema := True\<rparr>"]
      by (auto simp: RecordFill run_op_def record_fill_def split: prod.splits sum.splits
          dest: seq_ok_cong)
  next
    case (RecordTerminal cid status)
    define t where "t = \<lparr>jt_client_order_id = cid, jt_status = status, jt_recorded_at = now\<rparr>"
    obtain w' where w': "commit_record (terminal_json c t) (put_terminal t) w1 = (Inr (), w')" "synced c w'"
        "journal_view (wal_mem w') = journal_view (put_terminal t ((wal_mem w1)\<lparr>oj_has_schema := True\<rparr>))"
      using terminal_entry.commit_synced [OF c w1(2)] by blast
    moreover have "run_op c now op w = w'"
      using w1(1) w'(1) by (simp add: RecordTerminal run_op_def record_terminal_def sx_defs t_def Let_def)
    ultimately show ?thesis using w1(3) by (auto simp: seq_ok_put_terminal dest: seq_ok_cong)
  qed
qed

lemma journal_reach_ok:
  assumes c: "codec_ok c" and "journal_reach c w"
  shows "wal_ok c w \<and> (wal_loaded w \<or> w = open_journal (wal_file w))"
  using assms(2)
proof (induction rule: journal_reach.induct)
  case start
  have "synced c \<lparr>wal_file = None, wal_mem = empty_journal, wal_loaded = True\<rparr>"
    by (simp add: synced_def empty_journal_def)
  moreover have "seq_ok empty_journal" by (simp add: seq_ok_def empty_journal_def)
  ultimately have "wal_ok c (open_journal None)"
    unfolding wal_ok_def by (intro exI [of _ empty_journal]) (simp add: ensure_loaded_def open_journal_def)
  then show ?case by (simp add: open_journal_def)
next
  case (op w now op)
  then show ?case using run_op_synced [OF c] wal_okI synced_loaded by blast
next
  case (restart w)
  then show ?case using wal_ok_reopen(1) by (metis open_journal_def wal.select_convs(1))
next
  case (crash w)
  then show ?case using wal_ok_reopen(2) by (metis open_journal_def wal.select_convs(1))
qed

section \<open>Correctness of the journal\<close>

definition example_attempt :: attempt_request where
  "example_attempt = \<lparr>ar_decision_time = Aware 0, ar_run_id = ''r'', ar_mode = ''paper'', ar_pre_trade_equity = 1000,
     ar_sizing_anchor = ''wallet'', ar_decision_marks = [(''BTCUSDT'', 50000)], ar_started_at = Aware 1\<rparr>"

definition example_fill :: fill_request where
  "example_fill = \<lparr>fr_kind = ''execution'', fr_attempt_seq = Some 0, fr_symbol = ''BTCUSDT'', fr_side = ''BUY'',
     fr_quantity = 1, fr_price = 50000, fr_fee_bps = 4, fr_liquidity = ''taker'', fr_reason = ''taker_fill'',
     fr_filled_at = Aware 1, fr_client_order_id = Some ''a'', fr_leg_index = 0,
     fr_cumulative_executed_qty = Some 1, fr_simulated = False\<rparr>"

definition example_submit_line :: json where
  "example_submit_line = submit_json plain_codec \<lparr>js_client_order_id = ''a'', js_symbol = ''BTCUSDT'', js_submit_seq = 0,
     js_attempt_seq = Some 0, js_side = Some ''BUY'', js_quantity = Some 1, js_reduce_only = Some False,
     js_leg_index = Some 0, js_recorded_at = 1\<rparr>"

text \<open>
  C7: the write-ahead journal is durable.  After any sequence of operations (accepted or rejected),
  clean restarts and crashes inside a write, the file loads without an error, and what the running
  process holds in memory is exactly what a new process reads from the file.
\<close>

theorem journal_durable:
  assumes "codec_ok c" and "journal_reach c w"
  shows "\<exists>w1 w2. ensure_loaded c now w = (Inr (), w1) \<and> ensure_loaded c later (open_journal (wal_file w1)) = (Inr (), w2)
     \<and> journal_view (wal_mem w2) = journal_view (wal_mem w1)"
proof -
  obtain w1 where w1: "ensure_loaded c now w = (Inr (), w1)" "synced c w1"
    using journal_reach_ok [OF assms] wal_okE by blast
  then show ?thesis using synced_reopen by blast
qed

theorem journal_durable_witness:
  "\<exists>w1 w2. ensure_loaded plain_codec 1 (run_op plain_codec 0 (RecordTerminal ''a'' ''FILLED'') (open_journal None)) = (Inr (), w1)
     \<and> ensure_loaded plain_codec 2 (open_journal (wal_file w1)) = (Inr (), w2)
     \<and> journal_view (wal_mem w2) = journal_view (wal_mem w1)"
  by (rule journal_durable [OF plain_codec_ok journal_reach.op [OF journal_reach.start]])

text \<open>
  Sequence numbers are assigned once, without gaps, across processes: the fills of a journal
  carry the numbers 0, 1, 2, ... in order, and so do its submissions and its attempts, and the next
  number handed out is the first unused one.
\<close>

theorem journal_sequence_numbers:
  assumes "codec_ok c" and "journal_reach c w"
  shows "\<exists>w1. ensure_loaded c now w = (Inr (), w1)
     \<and> map jf_fill_seq (oj_fills (wal_mem w1)) = [0..oj_next_fill_seq (wal_mem w1) - 1]
     \<and> map js_submit_seq (oj_submits (wal_mem w1)) = [0..oj_next_submit_seq (wal_mem w1) - 1]
     \<and> map fst (oj_attempts (wal_mem w1)) = [0..oj_next_attempt_seq (wal_mem w1) - 1]"
proof -
  obtain w1 where "ensure_loaded c now w = (Inr (), w1)" "seq_ok (wal_mem w1)"
    using journal_reach_ok [OF assms] wal_okE by blast
  then show ?thesis by (auto simp: seq_ok_def)
qed

theorem journal_sequence_numbers_witness:
  "\<exists>w1. ensure_loaded plain_codec 1 (run_op plain_codec 0 (BeginAttempt example_attempt) (open_journal None)) = (Inr (), w1)
     \<and> map fst (oj_attempts (wal_mem w1)) = [0] \<and> oj_next_attempt_seq (wal_mem w1) = 1"
proof -
  have run: "run_op plain_codec 0 (BeginAttempt example_attempt) (open_journal None) =
      (let a = projr (check_attempt example_attempt empty_journal)
       in \<lparr>wal_file = Some \<lparr>fl_lines = [Text schema_json, Text (attempt_json plain_codec a)], fl_tail = None\<rparr>,
          wal_mem = add_attempt a (empty_journal\<lparr>oj_has_schema := True\<rparr>), wal_loaded = True\<rparr>)"
    by (simp add: run_op_def begin_attempt_def ensure_loaded_def open_journal_def sx_defs Let_def check_attempt_def
        example_attempt_def commit_record_def ensure_v2_schema_def empty_journal_def append_record_def modify_mem_def
        write_line_def empty_file_def)
  have "ensure_loaded plain_codec 1 (run_op plain_codec 0 (BeginAttempt example_attempt) (open_journal None)) =
      (Inr (), run_op plain_codec 0 (BeginAttempt example_attempt) (open_journal None))"
    by (simp add: run Let_def ensure_loaded_def)
  moreover have "oj_next_attempt_seq (wal_mem (run_op plain_codec 0 (BeginAttempt example_attempt) (open_journal None))) = 1"
    unfolding run Let_def by (simp add: add_attempt_def check_attempt_def example_attempt_def empty_journal_def)
  ultimately show ?thesis
    using journal_sequence_numbers [OF plain_codec_ok journal_reach.op [OF journal_reach.start], of 1 0 "BeginAttempt example_attempt"]
    by auto
qed

lemma observed_scan_append:
  "observed_scan cid b (xs @ ys) = observed_scan cid (observed_scan cid b xs) ys"
  by (induction cid b xs rule: observed_scan.induct) (simp_all split: option.splits)

lemma observed_mem_view: "journal_view j = journal_view k \<Longrightarrow> observed_mem j cid = observed_mem k cid"
  using journal_view_fields [of j k] by (simp add: observed_mem_def)

lemma observed_mem_add_fill:
  "observed_mem (add_fill x (j\<lparr>oj_has_schema := b\<rparr>)) cid = observed_scan cid (observed_mem j cid) [x]"
  by (simp add: observed_mem_def add_fill_def put_fill_def observed_scan_append)

lemma check_fill_cumulative:
  assumes "check_fill r j = Inr x" "fr_client_order_id r = Some cid" "fr_cumulative_executed_qty r = Some q"
  shows "observed_mem j cid < q \<and> jf_client_order_id x = Some cid \<and> jf_cumulative_executed_qty x = Some q"
  using assms by (auto simp: check_fill_def result_simps split: if_splits)

lemma check_fill_refused:
  assumes "fr_client_order_id r = Some cid" "fr_cumulative_executed_qty r = Some q" "q \<le> observed_mem j cid"
  shows "check_fill r j = Inl ValueError"
  using assms by (cases "fr_filled_at r") (simp_all add: check_fill_def)

lemma record_fill_run:
  assumes "codec_ok c" "journal_reach c w"
  obtains w1 where "ensure_loaded c now w = (Inr (), w1)" "synced c w1"
    "case record_fill c now r w of
      (Inl e, w') \<Rightarrow> check_fill r (wal_mem w1) = Inl e \<and> w' = w1
    | (Inr x, w') \<Rightarrow> check_fill r (wal_mem w1) = Inr x \<and> synced c w'
        \<and> journal_view (wal_mem w') = journal_view (add_fill x ((wal_mem w1)\<lparr>oj_has_schema := True\<rparr>))"
proof -
  obtain w1 where w1: "ensure_loaded c now w = (Inr (), w1)" "synced c w1"
    using journal_reach_ok [OF assms] wal_okE by blast
  show thesis
    by (rule that [OF w1], unfold record_fill_def,
        rule fill_entry.op_synced [OF assms(1) w1, of "check_fill r"]) (auto simp: fill_ok_def dest: check_fill_seq)
qed

text \<open>
  C8: executed quantity is never booked twice.  When a fill that carries the venue's cumulative
  quantity of an order has been recorded, every later process observes exactly that quantity for
  the order, and refuses every fill whose cumulative quantity does not exceed it, leaving the file
  as it is.
\<close>

theorem record_fill_booked_once:
  assumes "codec_ok c" and "journal_reach c w"
    and "record_fill c now r w = (Inr x, w')"
    and "fr_client_order_id r = Some cid" and "fr_cumulative_executed_qty r = Some q"
    and "fr_client_order_id r2 = Some cid" and "fr_cumulative_executed_qty r2 = Some q2" and "q2 \<le> q"
  shows "fst (observed_qty c later cid (open_journal (wal_file w'))) = Inr q
    \<and> (\<exists>w2. record_fill c later r2 (open_journal (wal_file w')) = (Inl ValueError, w2) \<and> wal_file w2 = wal_file w')"
proof -
  obtain w1 :: wal where w1: "check_fill r (wal_mem w1) = Inr x" "synced c w'"
      "journal_view (wal_mem w') = journal_view (add_fill x ((wal_mem w1)\<lparr>oj_has_schema := True\<rparr>))"
    by (rule record_fill_run [OF assms(1,2), where now = now and r = r, unfolded assms(3) prod.case sum.case]) blast
  have obs': "observed_mem (wal_mem w') cid = q"
    using observed_mem_view [OF w1(3)] check_fill_cumulative [OF w1(1) assms(4,5)]
    by (simp add: observed_mem_add_fill)
  obtain u where u: "ensure_loaded c later (open_journal (wal_file w')) = (Inr (), u)"
      "journal_view (wal_mem u) = journal_view (wal_mem w')"
    using synced_reopen [OF w1(2)] by blast
  have obs: "observed_mem (wal_mem u) cid = q" using observed_mem_view [OF u(2)] obs' by simp
  then have "check_fill r2 (wal_mem u) = Inl ValueError" using check_fill_refused assms(6-8) by simp
  moreover have "wal_file u = wal_file w'"
    using u(1) by (auto simp: ensure_loaded_def open_journal_def Let_def split: option.splits prod.splits)
  ultimately show ?thesis using u(1) obs
    by (simp add: observed_qty_def query_journal_def record_fill_def sx_defs)
qed

theorem record_fill_booked_once_witness:
  "\<exists>x w'. record_fill plain_codec 0 example_fill (open_journal None) = (Inr x, w')
     \<and> fst (observed_qty plain_codec 1 ''a'' (open_journal (wal_file w'))) = Inr 1
     \<and> (\<exists>w2. record_fill plain_codec 1 example_fill (open_journal (wal_file w')) = (Inl ValueError, w2)
          \<and> wal_file w2 = wal_file w')"
proof -
  obtain x w' where run: "record_fill plain_codec 0 example_fill (open_journal None) = (Inr x, w')"
    by (simp add: record_fill_def ensure_loaded_def open_journal_def sx_defs check_fill_def example_fill_def
        FILL_KINDS_def SIDES_def LIQUIDITY_def observed_mem_def empty_journal_def dict_get_def
        commit_record_def ensure_v2_schema_def append_record_def modify_mem_def Let_def)
  show ?thesis
    using run record_fill_booked_once [OF plain_codec_ok journal_reach.start run, of "''a''" 1 example_fill 1 1]
    by (simp add: example_fill_def)
qed

text \<open>The operations on a journal that is loaded and synchronised.\<close>

lemma synced_ensure_loaded: "synced c j \<Longrightarrow> ensure_loaded c now j = (Inr (), j)"
  by (simp add: synced_def ensure_loaded_def)

lemma query_synced: "synced c j \<Longrightarrow> query_journal c now g j = (Inr (g (wal_mem j)), j)"
  by (simp add: query_journal_def sx_defs synced_ensure_loaded)

lemma record_terminal_synced:
  assumes "codec_ok c" "synced c j"
  obtains j' where "record_terminal c now cid status j = (Inr (), j')" "synced c j'"
    "oj_submits (wal_mem j') = oj_submits (wal_mem j)" "oj_fills (wal_mem j') = oj_fills (wal_mem j)"
    "oj_terminals (wal_mem j') = AList.update cid \<lparr>jt_client_order_id = cid, jt_status = status, jt_recorded_at = now\<rparr> (oj_terminals (wal_mem j))"
    "\<And>k. observed_mem (wal_mem j') k = observed_mem (wal_mem j) k"
proof -
  define t where "t = \<lparr>jt_client_order_id = cid, jt_status = status, jt_recorded_at = now\<rparr>"
  obtain j' where j': "commit_record (terminal_json c t) (put_terminal t) j = (Inr (), j')" "synced c j'"
      "journal_view (wal_mem j') = journal_view (put_terminal t ((wal_mem j)\<lparr>oj_has_schema := True\<rparr>))"
    using terminal_entry.commit_synced [OF assms] by blast
  note v = journal_view_fields [OF j'(3)]
  show thesis
  proof (rule that [of j'])
    show "record_terminal c now cid status j = (Inr (), j')"
      using j'(1) assms(2) by (simp add: record_terminal_def sx_defs synced_ensure_loaded t_def Let_def)
    show "observed_mem (wal_mem j') k = observed_mem (wal_mem j) k" for k
      using v(4,6) by (simp add: observed_mem_def put_terminal_def)
  qed (use j'(2) v in \<open>simp_all add: put_terminal_def t_def\<close>)
qed

lemma record_fill_synced:
  assumes "codec_ok c" "synced c j"
  shows "(\<exists>e. record_fill c now r j = (Inl e, j) \<and> check_fill r (wal_mem j) = Inl e)
    \<or> (\<exists>x j'. record_fill c now r j = (Inr x, j') \<and> check_fill r (wal_mem j) = Inr x \<and> synced c j'
        \<and> oj_submits (wal_mem j') = oj_submits (wal_mem j) \<and> oj_terminals (wal_mem j') = oj_terminals (wal_mem j)
        \<and> oj_fills (wal_mem j') = oj_fills (wal_mem j) @ [x]
        \<and> (\<forall>k. observed_mem (wal_mem j') k = observed_scan k (observed_mem (wal_mem j) k) [x]))"
proof -
  have fresh: "oj_next_fill_seq k \<le> jf_fill_seq x \<and> jf_kind x \<in> set FILL_KINDS" if "check_fill r k = Inr x" for k x
    using check_fill_seq [OF that] by simp
  note op = fill_entry.op_synced [OF assms(1) synced_ensure_loaded [OF assms(2)] assms(2), of "check_fill r" now,
      folded record_fill_def, OF fresh]
  obtain res j' where run: "record_fill c now r j = (res, j')" by (cases "record_fill c now r j")
  show ?thesis
  proof (cases res)
    case (Inl e)
    with op run show ?thesis by simp
  next
    case (Inr x)
    with op run have x: "check_fill r (wal_mem j) = Inr x" "synced c j'"
        "journal_view (wal_mem j') = journal_view (add_fill x ((wal_mem j)\<lparr>oj_has_schema := True\<rparr>))"
      by simp_all
    note v = journal_view_fields [OF x(3)]
    have "observed_mem (wal_mem j') k = observed_scan k (observed_mem (wal_mem j) k) [x]" for k
      using observed_mem_view [OF x(3)] by (simp add: observed_mem_add_fill)
    then show ?thesis using run Inr x v by (simp add: add_fill_def put_fill_def)
  qed
qed

lemma record_submit_synced:
  assumes "codec_ok c" "synced c j"
  shows "(\<exists>e. record_submit c now r j = (Inl e, j))
    \<or> (\<exists>x j'. record_submit c now r j = (Inr x, j') \<and> check_submit now r (wal_mem j) = Inr x \<and> synced c j'
        \<and> oj_submits (wal_mem j') = oj_submits (wal_mem j) @ [x] \<and> oj_terminals (wal_mem j') = oj_terminals (wal_mem j)
        \<and> oj_fills (wal_mem j') = oj_fills (wal_mem j))"
proof -
  have fresh: "oj_next_submit_seq k \<le> js_submit_seq x" if "check_submit now r k = Inr x" for k x
    using check_submit_seq [OF that] by simp
  note op = submit_entry.op_synced [OF assms(1) synced_ensure_loaded [OF assms(2)] assms(2), of "check_submit now r" now,
      folded record_submit_def, OF fresh]
  obtain res j' where run: "record_submit c now r j = (res, j')" by (cases "record_submit c now r j")
  show ?thesis
  proof (cases res)
    case (Inl e)
    with op run show ?thesis by simp
  next
    case (Inr x)
    with op run have x: "check_submit now r (wal_mem j) = Inr x" "synced c j'"
        "journal_view (wal_mem j') = journal_view (add_submit x ((wal_mem j)\<lparr>oj_has_schema := True\<rparr>))"
      by simp_all
    then show ?thesis using run Inr journal_view_fields [OF x(3)] by (simp add: add_submit_def put_submit_def)
  qed
qed

section \<open>Where the file and the memory part\<close>

text \<open>
  C37: a crash that loses only the newline of a line leaves a tail that parses.  The next load
  accepts it, and the next append writes its line behind it: from then on every load of the
  journal fails.
\<close>

theorem lost_newline_corrupts_journal:
  assumes "codec_ok c"
  shows "\<exists>w1. record_terminal c now cid status
       (open_journal (Some \<lparr>fl_lines = [Text schema_json], fl_tail = Some (Text (terminal_json c t))\<rparr>)) = (Inr (), w1)
     \<and> fst (ensure_loaded c later (open_journal (wal_file w1))) = Inl DataIntegrityError"
proof -
  have schema: "load_line c n (Text schema_json) j = (Inr (), j\<lparr>oj_has_schema := True\<rparr>)" for n j
    by (simp add: load_line_def schema_json_def apply_record_def sx_modify_def)
  have tail: "load_line c n (Text (terminal_json c t)) j = (Inr (), put_terminal t j)" for n j
    by (simp add: load_line_def apply_terminal_json assms)
  show ?thesis
    by (simp add: record_terminal_def ensure_loaded_open load_file_def sx_defs schema tail commit_record_def
        ensure_v2_schema_def put_terminal_def append_record_def modify_mem_def empty_journal_def Let_def
        write_line_def) (simp add: load_line_def sx_raise_def)
qed

theorem lost_newline_corrupts_journal_witness:
  "\<exists>w1. record_terminal plain_codec 5 ''b'' ''FILLED''
       (open_journal (Some \<lparr>fl_lines = [Text schema_json], fl_tail = Some (Text (terminal_json plain_codec
          \<lparr>jt_client_order_id = ''a'', jt_status = ''CANCELED'', jt_recorded_at = 3\<rparr>))\<rparr>)) = (Inr (), w1)
     \<and> fst (ensure_loaded plain_codec 6 (open_journal (wal_file w1))) = Inl DataIntegrityError"
  by (rule lost_newline_corrupts_journal [OF plain_codec_ok])

text \<open>
  The flag that says the file is loaded is set before the file is read.  After a load that
  failed, a second call on the same object succeeds and works on the lines before the damage, so
  the submission number it returns may be in use already.
\<close>

theorem failed_load_is_not_retried:
  assumes "ensure_loaded c now (open_journal (Some f)) = (Inl e, w1)"
  shows "ensure_loaded c later w1 = (Inr (), w1)
     \<and> next_submit_seq c later w1 = (Inr (oj_next_submit_seq (wal_mem w1)), w1)"
proof -
  have "wal_loaded w1" using assms by (auto simp: ensure_loaded_open split: prod.splits)
  then show ?thesis by (simp add: ensure_loaded_def next_submit_seq_def query_journal_def sx_defs)
qed

theorem failed_load_is_not_retried_witness:
  "\<exists>w1. ensure_loaded plain_codec 0 (open_journal (Some \<lparr>fl_lines = [Garbage, Text example_submit_line], fl_tail = None\<rparr>)) = (Inl DataIntegrityError, w1)
     \<and> next_submit_seq plain_codec 0 w1 = (Inr 0, w1)"
proof -
  define f where "f = \<lparr>fl_lines = [Garbage, Text example_submit_line], fl_tail = None\<rparr>"
  have run: "ensure_loaded plain_codec 0 (open_journal (Some f)) =
      (Inl DataIntegrityError, \<lparr>wal_file = Some f, wal_mem = empty_journal, wal_loaded = True\<rparr>)"
    by (simp add: f_def ensure_loaded_open load_file_def sx_defs load_line_def)
  show ?thesis using run failed_load_is_not_retried [OF run, of 0] by (simp add: f_def empty_journal_def)
qed

end
