(* ===== verification/Venue.thy ===== *)
theory Venue
  imports Order_Journal Planner
begin

text \<open>
  The venue as the live code sees it: \<open>src/live/errors.py\<close> (the error policy),
  \<open>src/live/order_identity.py\<close> and the confirmed cancel of \<open>src/live/order_cancel.py\<close>.

  The order client is not part of the model: it is the record \<open>venue_client\<close> of functions on an
  environment state that holds everything outside the process, the wall clock included.  Every
  call may change that state and may raise.  The state of a run is a \<open>world\<close>: the order journal,
  the environment, and the audit events written so far.

  Proved here: an order counts as closed only on the strength of an order query
  (\<open>cancel_confirmed_by_query\<close>), and errors that are not registered fail closed.
\<close>

section \<open>Error policy\<close>

datatype error_action =
    RETRY_BACKOFF
  | RETRY_BACKOFF_LONG
  | RESYNC_CLOCK
  | RESYNC_THEN_DECIDE
  | BENIGN
  | BENIGN_REPRICE
  | BENIGN_ABORT
  | INTENT_REJECT
  | MARGIN_WAIT
  | RISK_INCREASE_FREEZE
  | FAIL_CLOSED

definition BINANCE_ERROR_POLICY :: "(int, error_action) dict" where
  "BINANCE_ERROR_POLICY =
    [(- 1000, RETRY_BACKOFF), (- 1001, RETRY_BACKOFF), (- 1003, RETRY_BACKOFF_LONG), (- 1007, RESYNC_THEN_DECIDE),
     (- 1021, RESYNC_CLOCK), (- 1022, FAIL_CLOSED), (- 1013, INTENT_REJECT), (- 2010, FAIL_CLOSED), (- 2011, BENIGN),
     (- 2019, MARGIN_WAIT), (- 4046, BENIGN), (- 5022, BENIGN_REPRICE), (- 2022, BENIGN_ABORT), (- 4131, BENIGN_REPRICE),
     (- 4164, INTENT_REJECT), (- 4140, INTENT_REJECT), (- 2027, INTENT_REJECT), (- 1111, INTENT_REJECT),
     (- 4014, INTENT_REJECT), (- 4023, INTENT_REJECT), (- 4003, INTENT_REJECT), (- 4400, RISK_INCREASE_FREEZE),
     (- 4016, INTENT_REJECT), (- 4005, INTENT_REJECT), (- 4118, INTENT_REJECT), (- 4116, FAIL_CLOSED)]"

definition resolve_error_action :: "int option \<Rightarrow> error_action" where
  "resolve_error_action code = (case code of None \<Rightarrow> FAIL_CLOSED | Some k \<Rightarrow> dict_get BINANCE_ERROR_POLICY k FAIL_CLOSED)"

section \<open>The client and the world\<close>

type_synonym payload = "(string \<times> json) list"

record 'v venue_client =
  vc_cancel :: "string \<Rightarrow> string \<Rightarrow> 'v \<Rightarrow> unit res \<times> 'v"
  vc_query :: "string \<Rightarrow> string \<Rightarrow> 'v \<Rightarrow> payload res \<times> 'v"
  vc_open_orders :: "'v \<Rightarrow> payload list res \<times> 'v"
  vc_now :: "'v \<Rightarrow> timestamp"
  vc_clock_offset_margin_ms :: int
  vc_suppressed :: bool

record audit_event =
  ae_event :: string
  ae_symbol :: string
  ae_client_order_id :: string
  ae_status :: string

record 'v world =
  wd_journal :: wal
  wd_venue :: 'v
  wd_audit :: "audit_event list"

definition on_venue :: "('v \<Rightarrow> 'a res \<times> 'v) \<Rightarrow> ('v world, 'a) sx" where
  "on_venue m w = (case m (wd_venue w) of (r, v) \<Rightarrow> (r, w\<lparr>wd_venue := v\<rparr>))"

text \<open>A journal operation; the journal reads the wall clock.\<close>

definition on_journal :: "'v venue_client \<Rightarrow> (timestamp \<Rightarrow> (wal, 'a) sx) \<Rightarrow> ('v world, 'a) sx" where
  "on_journal vc m w = (case m (vc_now vc (wd_venue w)) (wd_journal w) of (r, j) \<Rightarrow> (r, w\<lparr>wd_journal := j\<rparr>))"

definition audit_record :: "string \<Rightarrow> string \<Rightarrow> string \<Rightarrow> string \<Rightarrow> ('v world, unit) sx" where
  "audit_record event symbol cid status =
     sx_modify (\<lambda>w. w\<lparr>wd_audit := wd_audit w @ [\<lparr>ae_event = event, ae_symbol = symbol, ae_client_order_id = cid, ae_status = status\<rparr>]\<rparr>)"

section \<open>Order identity\<close>

definition assert_order_identity :: "text_codec \<Rightarrow> payload \<Rightarrow> timestamp \<Rightarrow> int \<Rightarrow> unit res" where
  "assert_order_identity c payload submitted_at tolerance_ms = (case obj_get payload ''time'' of
     JNull \<Rightarrow> Inl DataIntegrityError
   | JBool _ \<Rightarrow> Inl DataIntegrityError
   | raw \<Rightarrow> (case py_decimal c raw of
       Inl _ \<Rightarrow> Inl DataIntegrityError
     | Inr venue_ms \<Rightarrow>
         if venue_ms \<le> 0 \<or> venue_ms \<noteq> of_int \<lfloor>venue_ms\<rfloor> then Inl DataIntegrityError
         else if tolerance_ms \<le> 0 then Inl DataIntegrityError
         else if venue_ms < of_int (submitted_at div 1000000 - tolerance_ms) then Inl StaleOrderIdentity
         else Inr ()))"

section \<open>Confirmed cancellation\<close>

definition ORDER_GONE_CODES :: "int list" where "ORDER_GONE_CODES = [- 2011, - 2013]"

definition ORDER_DOES_NOT_EXIST_CODE :: int where "ORDER_DOES_NOT_EXIST_CODE = - 2013"

definition ORDER_NOT_FOUND_STATUS :: string where "ORDER_NOT_FOUND_STATUS = ''NOT_FOUND''"

definition OPEN_ORDER_STATUSES :: "string list" where "OPEN_ORDER_STATUSES = [''NEW'', ''PARTIALLY_FILLED'']"

record unresolved_order =
  uo_client_order_id :: string
  uo_symbol :: string
  uo_attempt_seq :: "int option"
  uo_leg_index :: int

record cancel_confirmation =
  cc_symbol :: string
  cc_client_order_id :: string
  cc_closed :: bool
  cc_status :: string
  cc_payload :: "payload option"

text \<open>\<open>str(payload.get("status", "") or "")\<close>\<close>

definition payload_status :: "text_codec \<Rightarrow> payload \<Rightarrow> string" where
  "payload_status c p = (let v = obj_get_default p ''status'' (JStr []) in if py_bool v then py_str c v else [])"

text \<open>The cancel request: a code of a vanished order and an unknown outcome are both left to the query.\<close>

definition send_cancel :: "'v venue_client \<Rightarrow> string \<Rightarrow> string \<Rightarrow> ('v world, unit) sx" where
  "send_cancel vc symbol cid w = (case on_venue (vc_cancel vc symbol cid) w of
     (Inl (VenueError (Some code) http), w') \<Rightarrow> if code \<in> set ORDER_GONE_CODES then (Inr (), w') else (Inl (VenueError (Some code) http), w')
   | (Inl OrderStatusUnknown, w') \<Rightarrow> (Inr (), w')
   | res \<Rightarrow> res)"

text \<open>The order query: \<open>None\<close> when the venue does not know the order.\<close>

definition query_known :: "'v venue_client \<Rightarrow> string \<Rightarrow> string \<Rightarrow> ('v world, payload option) sx" where
  "query_known vc symbol cid w = (case on_venue (vc_query vc symbol cid) w of
     (Inr p, w') \<Rightarrow> (Inr (Some p), w')
   | (Inl (VenueError (Some code) http), w') \<Rightarrow>
       if code = ORDER_DOES_NOT_EXIST_CODE then (Inr None, w') else (Inl (VenueError (Some code) http), w')
   | (Inl e, w') \<Rightarrow> (Inl e, w'))"

definition cancel_and_confirm ::
    "text_codec \<Rightarrow> 'v venue_client \<Rightarrow> string \<Rightarrow> string \<Rightarrow> ('v world, cancel_confirmation) sx" where
  "cancel_and_confirm c vc symbol cid =
     sx_bind (send_cancel vc symbol cid) (\<lambda>_.
     sx_bind (query_known vc symbol cid) (\<lambda>answer. case answer of
       None \<Rightarrow> sx_return \<lparr>cc_symbol = symbol, cc_client_order_id = cid, cc_closed = True,
                 cc_status = ORDER_NOT_FOUND_STATUS, cc_payload = None\<rparr>
     | Some p \<Rightarrow>
         let status = payload_status c p
         in if status = [] then sx_raise DataIntegrityError
            else sx_return \<lparr>cc_symbol = symbol, cc_client_order_id = cid,
                   cc_closed = (status \<notin> set OPEN_ORDER_STATUSES), cc_status = status, cc_payload = Some p\<rparr>))"

section \<open>Properties\<close>

lemma on_venue_run: "on_venue m w = (fst (m (wd_venue w)), w\<lparr>wd_venue := snd (m (wd_venue w))\<rparr>)"
  by (simp add: on_venue_def split: prod.splits)

lemma on_journal_run:
  "on_journal vc m w = (fst (m (vc_now vc (wd_venue w)) (wd_journal w)), w\<lparr>wd_journal := snd (m (vc_now vc (wd_venue w)) (wd_journal w))\<rparr>)"
  by (simp add: on_journal_def split: prod.splits)

lemma send_cancel_state: "snd (send_cancel vc symbol cid w) = w\<lparr>wd_venue := snd (vc_cancel vc symbol cid (wd_venue w))\<rparr>"
  by (simp add: send_cancel_def on_venue_run split: sum.splits exc.splits option.splits)

lemma query_known_state: "snd (query_known vc symbol cid w) = w\<lparr>wd_venue := snd (vc_query vc symbol cid (wd_venue w))\<rparr>"
  by (simp add: query_known_def on_venue_run split: sum.splits exc.splits option.splits)

lemma cancel_and_confirm_frame:
  "wd_journal (snd (cancel_and_confirm c vc symbol cid w)) = wd_journal w
   \<and> wd_audit (snd (cancel_and_confirm c vc symbol cid w)) = wd_audit w"
proof -
  obtain r w1 where s: "send_cancel vc symbol cid w = (r, w1)" by (cases "send_cancel vc symbol cid w")
  obtain r2 w2 where q: "query_known vc symbol cid w1 = (r2, w2)" by (cases "query_known vc symbol cid w1")
  have "w1 = w\<lparr>wd_venue := wd_venue w1\<rparr>" "w2 = w1\<lparr>wd_venue := wd_venue w2\<rparr>"
    using send_cancel_state [of vc symbol cid w] query_known_state [of vc symbol cid w1] s q by (cases w; cases w1; simp)+
  then have "wd_journal w1 = wd_journal w" "wd_journal w2 = wd_journal w1" "wd_audit w1 = wd_audit w" "wd_audit w2 = wd_audit w1"
    by (metis world.select_convs world.surjective world.update_convs(2))+
  with s q show ?thesis
    by (simp add: cancel_and_confirm_def sx_defs Let_def split: sum.splits option.splits)
qed

text \<open>
  The verdict of a confirmed cancel rests on the order query alone.  Whatever the cancel
  request answered, the order counts as closed exactly if the query after it reports a status that
  is not an open one, or answers that the order does not exist; the journal is not touched.
\<close>

theorem cancel_confirmed_by_query:
  assumes "cancel_and_confirm c vc symbol cid w = (Inr conf, w')"
  shows "cc_client_order_id conf = cid \<and> wd_journal w' = wd_journal w
    \<and> (cc_closed conf \<longleftrightarrow>
        (case fst (vc_query vc symbol cid (snd (vc_cancel vc symbol cid (wd_venue w)))) of
           Inr p \<Rightarrow> payload_status c p \<notin> set OPEN_ORDER_STATUSES
         | Inl e \<Rightarrow> (\<exists>http. e = VenueError (Some ORDER_DOES_NOT_EXIST_CODE) http)))"
proof -
  obtain w1 where s: "send_cancel vc symbol cid w = (Inr (), w1)"
    using assms by (auto simp: cancel_and_confirm_def sx_defs split: prod.splits sum.splits)
  have v: "wd_venue w1 = snd (vc_cancel vc symbol cid (wd_venue w))" using send_cancel_state [of vc symbol cid w] s by simp
  have j: "wd_journal w' = wd_journal w" using cancel_and_confirm_frame [of c vc symbol cid w] assms by simp
  show ?thesis
    using assms unfolding v [symmetric]
    by (auto simp: j cancel_and_confirm_def sx_defs s query_known_def on_venue_run Let_def
        split: sum.splits exc.splits option.splits if_splits)
qed

text \<open>A venue that holds one open order and never accepts a cancel, for the witnesses.\<close>

definition stubborn_venue :: "unit venue_client" where
  "stubborn_venue = \<lparr>vc_cancel = (\<lambda>s cid v. (Inl OrderStatusUnknown, v)),
     vc_query = (\<lambda>s cid v. (Inr [(''status'', JStr ''NEW''), (''time'', JStr (tc_dec_str plain_codec 5000))], v)),
     vc_open_orders = (\<lambda>v. (Inr [[(''clientOrderId'', JStr ''mh-1''), (''symbol'', JStr ''BTCUSDT'')],
        [(''clientOrderId'', JStr ''web-1''), (''symbol'', JStr ''ETHUSDT'')]], v)),
     vc_now = (\<lambda>v. 0), vc_clock_offset_margin_ms = 0, vc_suppressed = False\<rparr>"

definition start_world :: "unit world" where
  "start_world = \<lparr>wd_journal = open_journal None, wd_venue = (), wd_audit = []\<rparr>"

theorem cancel_confirmed_by_query_witness:
  "\<exists>conf w'. cancel_and_confirm plain_codec stubborn_venue ''BTCUSDT'' ''mh-1'' start_world = (Inr conf, w') \<and> \<not> cc_closed conf"
proof -
  obtain conf w' where run: "cancel_and_confirm plain_codec stubborn_venue ''BTCUSDT'' ''mh-1'' start_world = (Inr conf, w')"
    by (simp add: cancel_and_confirm_def stubborn_venue_def start_world_def send_cancel_def query_known_def on_venue_def
        sx_defs payload_status_def py_bool_def Let_def)
  show ?thesis
    using run cancel_confirmed_by_query [OF run]
    by (simp add: stubborn_venue_def payload_status_def py_bool_def OPEN_ORDER_STATUSES_def Let_def)
qed

text \<open>
  Only errors registered as transient are retried: the policy answers a retry exactly for the
  five transient codes, and an unregistered or missing code fails closed.
\<close>

theorem resolve_error_action_registry:
  "(resolve_error_action code \<in> {RETRY_BACKOFF, RETRY_BACKOFF_LONG, RESYNC_CLOCK, RESYNC_THEN_DECIDE} \<longleftrightarrow>
      code \<in> Some ` {- 1000, - 1001, - 1003, - 1007, - 1021})
   \<and> (code \<in> Some ` fst ` set BINANCE_ERROR_POLICY \<or> resolve_error_action code = FAIL_CLOSED)"
proof (cases code)
  case None
  then show ?thesis by (simp add: resolve_error_action_def)
next
  case (Some k)
  show ?thesis
    by (auto simp: Some resolve_error_action_def dict_get_def BINANCE_ERROR_POLICY_def split: if_splits)
qed

end
