(* ===== verification/Recovery.thy ===== *)
theory Recovery
  imports Venue
begin

text \<open>
  \<open>src/live/recovery.py\<close>: restart recovery of executions the journal never observed, and the
  settlement of the orders recovery left open.

  The operations run on the \<open>world\<close> of theory \<open>Venue\<close>, for every behaviour of the client.  The
  default identity tolerance, which comes from the settings module, is a parameter.

  Proved here: booking a venue answer makes the journal's observed quantity the executed quantity
  and booking it again books nothing; recovery accounts for every unresolved submission; no order
  the venue reports open becomes terminal.
\<close>

section \<open>Operations\<close>

record recovery_report =
  rr_recovered :: "journal_fill list"
  rr_resolved_ids :: "string list"
  rr_unresolved_ids :: "string list"
  rr_unresolved :: "unresolved_order list"

record unresolved_settlement =
  us_recovered :: "journal_fill list"
  us_resolved_ids :: "string list"
  us_still_open :: "unresolved_order list"

definition venue_decimal :: "text_codec \<Rightarrow> payload \<Rightarrow> string \<Rightarrow> decimal res" where
  "venue_decimal c payload key = (case obj_get payload key of JNull \<Rightarrow> Inl DataIntegrityError
     | raw \<Rightarrow> (case py_decimal c raw of Inl _ \<Rightarrow> Inl DataIntegrityError | Inr x \<Rightarrow> Inr x))"

definition venue_update_time :: "text_codec \<Rightarrow> payload \<Rightarrow> timestamp res" where
  "venue_update_time c payload = (case py_int c (obj_get payload ''updateTime'') of
       Inl _ \<Rightarrow> Inl DataIntegrityError
     | Inr millis \<Rightarrow> if millis \<le> 0 then Inl DataIntegrityError else Inr (millis * 1000000))"

definition submits_by_id :: "journal_submit list \<Rightarrow> (string, journal_submit) dict" where
  "submits_by_id subs = foldl (\<lambda>d s. AList.update (js_client_order_id s) s d) [] subs"

definition guard_order_identity ::
    "text_codec \<Rightarrow> (string, journal_submit) dict \<Rightarrow> payload \<Rightarrow> string \<Rightarrow> int \<Rightarrow> unit res" where
  "guard_order_identity c subs payload order_id tolerance = (case map_of subs order_id of
       None \<Rightarrow> Inr ()
     | Some s \<Rightarrow> if js_recorded_at s = TS_MIN then Inr ()
         else assert_order_identity c payload (js_recorded_at s) tolerance)"

definition recovered_request ::
    "string \<Rightarrow> string \<Rightarrow> int option \<Rightarrow> int \<Rightarrow> string \<Rightarrow> decimal \<Rightarrow> decimal \<Rightarrow> decimal \<Rightarrow> timestamp \<Rightarrow> decimal \<Rightarrow> fill_request" where
  "recovered_request order_id symbol attempt_seq leg_index side delta price taker_fee_bps filled_at executed =
     \<lparr>fr_kind = ''recovered'', fr_attempt_seq = attempt_seq, fr_symbol = symbol, fr_side = side,
      fr_quantity = delta, fr_price = price, fr_fee_bps = taker_fee_bps, fr_liquidity = ''taker'',
      fr_reason = ''recovered_fill'', fr_filled_at = Aware filled_at, fr_client_order_id = Some order_id,
      fr_leg_index = leg_index, fr_cumulative_executed_qty = Some executed, fr_simulated = False\<rparr>"

text \<open>\<open>payload.get("side")\<close> must be one of the two side texts.\<close>

definition payload_side :: "payload \<Rightarrow> string res" where
  "payload_side payload = (case obj_get payload ''side'' of
     JStr s \<Rightarrow> if s \<in> set SIDES then Inr s else Inl DataIntegrityError
   | _ \<Rightarrow> Inl DataIntegrityError)"

definition book_recovered_delta ::
    "text_codec \<Rightarrow> 'v venue_client \<Rightarrow> string \<Rightarrow> string \<Rightarrow> int option \<Rightarrow> int \<Rightarrow> payload \<Rightarrow> decimal \<Rightarrow> int
     \<Rightarrow> (string, journal_submit) dict \<Rightarrow> ('v world, journal_fill option) sx" where
  "book_recovered_delta c vc order_id symbol attempt_seq leg_index payload taker_fee_bps tolerance subs =
     sx_bind (sx_lift (guard_order_identity c subs payload order_id tolerance)) (\<lambda>_.
     sx_bind (sx_lift (venue_decimal c payload ''executedQty'')) (\<lambda>executed.
     sx_bind (on_journal vc (\<lambda>now. observed_qty c now order_id)) (\<lambda>observed.
       let delta = dsub executed observed
       in if delta \<le> 0 then sx_return None
          else sx_bind (sx_lift (payload_side payload)) (\<lambda>side.
               sx_bind (sx_lift (venue_decimal c payload ''avgPrice'')) (\<lambda>price.
               sx_bind (sx_lift (guard_res (0 < price) DataIntegrityError)) (\<lambda>_.
               sx_bind (sx_lift (venue_update_time c payload)) (\<lambda>filled_at.
               sx_bind (on_journal vc (\<lambda>now. record_fill c now
                 (recovered_request order_id symbol attempt_seq leg_index side delta price taker_fee_bps filled_at executed))) (\<lambda>fill.
               sx_bind (audit_record ''order_recovered'' symbol order_id (payload_status c payload)) (\<lambda>_.
                 sx_return (Some fill))))))))))"

definition effective_tolerance :: "'v venue_client \<Rightarrow> int \<Rightarrow> int" where
  "effective_tolerance vc tolerance =
     tolerance + (if 0 < vc_clock_offset_margin_ms vc then vc_clock_offset_margin_ms vc else 0)"

definition opt_list :: "'a option \<Rightarrow> 'a list" where
  "opt_list x = (case x of None \<Rightarrow> [] | Some y \<Rightarrow> [y])"

text \<open>The terminal record and the audit line of a resolved order.\<close>

definition mark_resolved :: "text_codec \<Rightarrow> 'v venue_client \<Rightarrow> string \<Rightarrow> string \<Rightarrow> string \<Rightarrow> 'a \<Rightarrow> ('v world, 'a) sx" where
  "mark_resolved c vc cid symbol status x =
     sx_bind (on_journal vc (\<lambda>now. record_terminal c now cid status)) (\<lambda>_.
     sx_bind (audit_record ''order_recovery_resolved'' symbol cid status) (\<lambda>_. sx_return x))"

text \<open>One submission of \<open>recover_unresolved_orders\<close>.\<close>

definition recover_submit ::
    "text_codec \<Rightarrow> 'v venue_client \<Rightarrow> decimal \<Rightarrow> int \<Rightarrow> (string, journal_submit) dict
     \<Rightarrow> journal_submit \<Rightarrow> recovery_report \<Rightarrow> ('v world, recovery_report) sx" where
  "recover_submit c vc fee tolerance subs submit rep =
     sx_bind (query_known vc (js_symbol submit) (js_client_order_id submit)) (\<lambda>answer. case answer of
       None \<Rightarrow> mark_resolved c vc (js_client_order_id submit) (js_symbol submit) ORDER_NOT_FOUND_STATUS
                 (rep\<lparr>rr_resolved_ids := rr_resolved_ids rep @ [js_client_order_id submit]\<rparr>)
     | Some payload \<Rightarrow>
         sx_bind (sx_lift (guard_order_identity c subs payload (js_client_order_id submit) (effective_tolerance vc tolerance))) (\<lambda>_.
           if payload_status c payload = [] then sx_raise DataIntegrityError
           else if payload_status c payload \<in> set OPEN_ORDER_STATUSES
           then sx_return (rep\<lparr>rr_unresolved_ids := rr_unresolved_ids rep @ [js_client_order_id submit],
                  rr_unresolved := rr_unresolved rep @ [\<lparr>uo_client_order_id = js_client_order_id submit, uo_symbol = js_symbol submit,
                     uo_attempt_seq = js_attempt_seq submit, uo_leg_index = (case js_leg_index submit of None \<Rightarrow> 0 | Some i \<Rightarrow> i)\<rparr>]\<rparr>)
           else sx_bind (book_recovered_delta c vc (js_client_order_id submit) (js_symbol submit) (js_attempt_seq submit)
                           (case js_leg_index submit of None \<Rightarrow> 0 | Some i \<Rightarrow> i) payload fee (effective_tolerance vc tolerance) subs)
                  (\<lambda>fill. mark_resolved c vc (js_client_order_id submit) (js_symbol submit) (payload_status c payload)
                     (rep\<lparr>rr_recovered := rr_recovered rep @ opt_list fill,
                        rr_resolved_ids := rr_resolved_ids rep @ [js_client_order_id submit]\<rparr>))))"

definition empty_report :: recovery_report where
  "empty_report = \<lparr>rr_recovered = [], rr_resolved_ids = [], rr_unresolved_ids = [], rr_unresolved = []\<rparr>"

definition recover_unresolved_orders ::
    "text_codec \<Rightarrow> 'v venue_client \<Rightarrow> timestamp \<Rightarrow> int \<Rightarrow> decimal \<Rightarrow> int \<Rightarrow> ('v world, recovery_report) sx" where
  "recover_unresolved_orders c vc now lookback taker_fee_bps tolerance =
     (if vc_suppressed vc then sx_return empty_report
      else sx_bind (on_journal vc (\<lambda>clock. unresolved_submits c clock (now - lookback))) (\<lambda>subs.
             sx_foldM (recover_submit c vc taker_fee_bps tolerance (submits_by_id subs)) subs empty_report))"

text \<open>One order of \<open>settle_unresolved_orders\<close>.\<close>

definition settle_order ::
    "text_codec \<Rightarrow> 'v venue_client \<Rightarrow> decimal \<Rightarrow> int \<Rightarrow> (string, journal_submit) dict
     \<Rightarrow> unresolved_order \<Rightarrow> unresolved_settlement \<Rightarrow> ('v world, unresolved_settlement) sx" where
  "settle_order c vc taker_fee_bps tolerance subs order acc =
     (let cid = uo_client_order_id order;
          resolved = (\<lambda>acc. acc\<lparr>us_resolved_ids := us_resolved_ids acc @ [cid]\<rparr>)
      in sx_bind (cancel_and_confirm c vc (uo_symbol order) cid) (\<lambda>conf.
           if cc_status conf = ORDER_NOT_FOUND_STATUS
           then mark_resolved c vc cid (uo_symbol order) ORDER_NOT_FOUND_STATUS (resolved acc)
           else case cc_payload conf of
             None \<Rightarrow> sx_raise AssertionError
           | Some payload \<Rightarrow>
               sx_bind (book_recovered_delta c vc cid (uo_symbol order) (uo_attempt_seq order) (uo_leg_index order) payload
                          taker_fee_bps (effective_tolerance vc tolerance) subs) (\<lambda>fill.
                 let acc = acc\<lparr>us_recovered := us_recovered acc @ opt_list fill\<rparr>
                 in if cc_closed conf then mark_resolved c vc cid (uo_symbol order) (cc_status conf) (resolved acc)
                    else sx_return (acc\<lparr>us_still_open := us_still_open acc @ [order]\<rparr>))))"

definition settle_unresolved_orders ::
    "text_codec \<Rightarrow> 'v venue_client \<Rightarrow> unresolved_order list \<Rightarrow> decimal \<Rightarrow> int \<Rightarrow> ('v world, unresolved_settlement) sx" where
  "settle_unresolved_orders c vc unresolved taker_fee_bps tolerance =
     (if vc_suppressed vc then sx_return \<lparr>us_recovered = [], us_resolved_ids = [], us_still_open = []\<rparr>
      else sx_bind (on_journal vc (\<lambda>now. submits c now)) (\<lambda>all_submits.
             sx_foldM (settle_order c vc taker_fee_bps tolerance (submits_by_id all_submits)) unresolved
               \<lparr>us_recovered = [], us_resolved_ids = [], us_still_open = []\<rparr>))"

section \<open>Booking a venue answer\<close>

abbreviation mem :: "'v world \<Rightarrow> order_journal" where "mem w \<equiv> wal_mem (wd_journal w)"

text \<open>A step that keeps the journal synchronised and touches neither submissions nor terminal records.\<close>

definition steady :: "text_codec \<Rightarrow> 'v world \<Rightarrow> 'v world \<Rightarrow> bool" where
  "steady c w w' \<longleftrightarrow> (synced c (wd_journal w) \<longrightarrow> synced c (wd_journal w')
     \<and> oj_submits (mem w') = oj_submits (mem w) \<and> oj_terminals (mem w') = oj_terminals (mem w))"

lemma steady_preorder: "reflp (steady c)" "transp (steady c)"
  by (auto simp: steady_def reflp_def transp_def)

lemma steady_venue: "sx_keeps (steady c) (on_venue m)" "sx_keeps (steady c) (audit_record e s k st)"
  by (simp_all add: sx_keeps_def steady_def on_venue_run audit_record_def sx_modify_def)

lemma steady_query: "sx_keeps (steady c) (on_journal vc (\<lambda>now. query_journal c now g))"
  by (simp add: sx_keeps_def steady_def on_journal_run query_synced)

lemma world_same [simp]: "w\<lparr>wd_journal := wd_journal w\<rparr> = w"
  by (cases w) simp

lemma query_world_synced:
  "synced c (wd_journal w) \<Longrightarrow> on_journal vc (\<lambda>now. query_journal c now g) w = (Inr (g (mem w)), w)"
  by (simp add: on_journal_run query_synced)

lemma observed_synced:
  "synced c (wd_journal w) \<Longrightarrow> on_journal vc (\<lambda>now. observed_qty c now k) w = (Inr (observed_mem (mem w) k), w)"
  unfolding observed_qty_def by (rule query_world_synced)

lemma steady_fill: "codec_ok c \<Longrightarrow> sx_keeps (steady c) (on_journal vc (\<lambda>now. record_fill c now r))"
  for vc :: "'v venue_client"
  unfolding sx_keeps_def steady_def
proof (intro allI impI)
  fix w :: "'v world"
  assume "codec_ok c" "synced c (wd_journal w)"
  from record_fill_synced [OF this, of "vc_now vc (wd_venue w)" r]
  show "synced c (wd_journal (snd (on_journal vc (\<lambda>now. record_fill c now r) w)))
     \<and> oj_submits (mem (snd (on_journal vc (\<lambda>now. record_fill c now r) w))) = oj_submits (mem w)
     \<and> oj_terminals (mem (snd (on_journal vc (\<lambda>now. record_fill c now r) w))) = oj_terminals (mem w)"
    using \<open>synced c (wd_journal w)\<close> by (auto simp: on_journal_run)
qed

lemmas steady_rules =
  sx_keeps_pure [OF steady_preorder(1)] sx_keeps_bind [OF steady_preorder(2)] steady_venue steady_query steady_fill

lemma book_steady:
  assumes "codec_ok c"
  shows "sx_keeps (steady c) (book_recovered_delta c vc k s a l p fee tol subs)"
proof -
  have if_steady: "sx_keeps (steady c) m1 \<Longrightarrow> sx_keeps (steady c) m2 \<Longrightarrow> sx_keeps (steady c) (if b then m1 else m2)"
    for b and m1 m2 :: "('v world, 'b) sx" by simp
  show ?thesis
    unfolding book_recovered_delta_def observed_qty_def Let_def
    by (intro steady_rules if_steady assms)
qed

text \<open>What a successful booking does to the observed quantities.\<close>

lemma book_observed:
  assumes c: "codec_ok c" and sync: "synced c (wd_journal w)"
    and run: "book_recovered_delta c vc k s a l p fee tol subs w = (Inr r, w')"
    and ex: "venue_decimal c p ''executedQty'' = Inr executed"
  shows "observed_mem (mem w') k = max (observed_mem (mem w) k) executed"
    and "i \<noteq> k \<Longrightarrow> observed_mem (mem w') i = observed_mem (mem w) i"
    and "guard_order_identity c subs p k tol = Inr ()"
proof -
  let ?o = "observed_mem (mem w) k"
  have q: "on_journal vc (\<lambda>now. observed_qty c now k) w = (Inr ?o, w)"
    by (rule observed_synced [OF sync])
  from run show guard: "guard_order_identity c subs p k tol = Inr ()"
    by (auto simp: book_recovered_delta_def sx_bind_Inr)
  have "observed_mem (mem w') k = max ?o executed \<and> (i \<noteq> k \<longrightarrow> observed_mem (mem w') i = observed_mem (mem w) i)"
  proof (cases "executed \<le> ?o")
    case True
    then have "w' = w" using run by (simp add: book_recovered_delta_def sx_defs guard ex q Let_def)
    with True show ?thesis by (simp add: max_def)
  next
    case False
    from run False obtain side price ts x u where
      rec: "on_journal vc (\<lambda>now. record_fill c now (recovered_request k s a l side (dsub executed ?o) price fee ts executed)) w = (Inr x, u)"
      and u: "wd_journal w' = wd_journal u"
      by (auto simp: book_recovered_delta_def sx_bind_Inr ex q Let_def audit_record_def sx_modify_def)
    let ?r = "recovered_request k s a l side (dsub executed ?o) price fee ts executed"
    obtain j' where j': "check_fill ?r (mem w) = Inr x" "wd_journal u = j'"
        "\<forall>i. observed_mem (wal_mem j') i = observed_scan i (observed_mem (mem w) i) [x]"
      using record_fill_synced [OF c sync, of "vc_now vc (wd_venue w)" ?r] rec
      by (auto simp: on_journal_run)
    have "?o < executed \<and> jf_client_order_id x = Some k \<and> jf_cumulative_executed_qty x = Some executed"
      using check_fill_cumulative [OF j'(1)] by (simp add: recovered_request_def)
    with j' u show ?thesis by (auto simp: max_def)
  qed
  then show "observed_mem (mem w') k = max ?o executed" "i \<noteq> k \<Longrightarrow> observed_mem (mem w') i = observed_mem (mem w) i"
    by simp_all
qed

text \<open>
  Recovery books each executed quantity once.  Booking a venue answer on a synchronised
  journal makes the observed quantity of the order the executed quantity the answer reports (or
  leaves it if it is already larger), leaves every other order's, and booking the same answer again
  books nothing and changes nothing.
\<close>

theorem book_recovered_delta_once:
  assumes "codec_ok c" and "synced c (wd_journal w)"
    and "venue_decimal c payload ''executedQty'' = Inr executed"
    and "book_recovered_delta c vc order_id symbol aseq leg payload fee tolerance subs w = (Inr r, w')"
  shows "observed_mem (mem w') order_id = max (observed_mem (mem w) order_id) executed
    \<and> (i \<noteq> order_id \<longrightarrow> observed_mem (mem w') i = observed_mem (mem w) i)
    \<and> book_recovered_delta c vc order_id symbol aseq leg payload fee tolerance subs w' = (Inr None, w')"
proof -
  note o = book_observed [OF assms(1,2,4,3)]
  have "steady c w w'" using sx_keepsD [OF book_steady [OF assms(1)] assms(4)] .
  then have sync: "synced c (wd_journal w')" using assms(2) by (simp add: steady_def)
  have "on_journal vc (\<lambda>now. observed_qty c now order_id) w' = (Inr (observed_mem (mem w') order_id), w')"
    by (rule observed_synced [OF sync])
  then have "book_recovered_delta c vc order_id symbol aseq leg payload fee tolerance subs w' = (Inr None, w')"
    by (simp add: book_recovered_delta_def sx_defs o(3) assms(3) o(1) Let_def)
  with o(1,2) show ?thesis by simp
qed

definition loaded_world :: "unit world" where
  "loaded_world = \<lparr>wd_journal = \<lparr>wal_file = None, wal_mem = empty_journal, wal_loaded = True\<rparr>, wd_venue = (), wd_audit = []\<rparr>"

lemma loaded_world_synced: "synced c (wd_journal loaded_world)"
  by (simp add: loaded_world_def synced_def empty_journal_def)

definition filled_payload :: payload where
  "filled_payload = [(''status'', JStr ''FILLED''), (''executedQty'', JStr (tc_dec_str plain_codec 1)), (''side'', JStr ''BUY''),
     (''avgPrice'', JStr (tc_dec_str plain_codec 5)), (''updateTime'', JInt 7)]"

theorem book_recovered_delta_once_witness:
  "\<exists>r w'. book_recovered_delta plain_codec stubborn_venue ''mh-1'' ''BTCUSDT'' None 0 filled_payload 4 10 [] loaded_world = (Inr r, w')
     \<and> observed_mem (mem w') ''mh-1'' = 1
     \<and> book_recovered_delta plain_codec stubborn_venue ''mh-1'' ''BTCUSDT'' None 0 filled_payload 4 10 [] w' = (Inr None, w')"
proof -
  have ex: "venue_decimal plain_codec filled_payload ''executedQty'' = Inr 1"
    by (simp add: venue_decimal_def filled_payload_def plain_codec_ok)
  have obs: "observed_mem (mem loaded_world) ''mh-1'' = 0"
    by (simp add: loaded_world_def empty_journal_def observed_mem_def dict_get_def)
  obtain r w' where run: "book_recovered_delta plain_codec stubborn_venue ''mh-1'' ''BTCUSDT'' None 0 filled_payload 4 10 [] loaded_world = (Inr r, w')"
    by (simp add: book_recovered_delta_def guard_order_identity_def sx_defs ex observed_synced loaded_world_synced obs
        payload_side_def SIDES_def venue_decimal_def venue_update_time_def filled_payload_def plain_codec_ok Let_def guard_res_def)
      (auto simp: on_journal_run record_fill_def ensure_loaded_def loaded_world_def sx_defs check_fill_def recovered_request_def
        FILL_KINDS_def SIDES_def LIQUIDITY_def observed_mem_def empty_journal_def dict_get_def dsub_def d28.rnd_exact
        commit_record_def ensure_v2_schema_def append_record_def modify_mem_def Let_def audit_record_def)
  show ?thesis
    using run book_recovered_delta_once [OF plain_codec_ok loaded_world_synced ex run, of "''mh-1''"] obs by (simp add: max_def)
qed

section \<open>Recovery accounts for every submission\<close>

text \<open>The terminal record of one order, written on a synchronised journal.\<close>

lemma mark_resolved_run:
  assumes "codec_ok c" "synced c (wd_journal w)"
  shows "\<exists>w' t. mark_resolved c vc cid symbol status x w = (Inr x, w') \<and> synced c (wd_journal w')
    \<and> oj_submits (mem w') = oj_submits (mem w) \<and> oj_terminals (mem w') = AList.update cid t (oj_terminals (mem w))"
proof -
  obtain j' where "record_terminal c (vc_now vc (wd_venue w)) cid status (wd_journal w) = (Inr (), j')" "synced c j'"
      "oj_submits (wal_mem j') = oj_submits (mem w)"
      "oj_terminals (wal_mem j') = AList.update cid \<lparr>jt_client_order_id = cid, jt_status = status,
         jt_recorded_at = vc_now vc (wd_venue w)\<rparr> (oj_terminals (mem w))"
    by (rule record_terminal_synced [OF assms])
  then show ?thesis
    by (simp add: mark_resolved_def sx_defs on_journal_run audit_record_def) blast
qed

lemma mark_resolved_result:
  assumes "codec_ok c" "synced c (wd_journal w)" "mark_resolved c vc cid symbol status x w = (r, w')"
  shows "r = Inr x \<and> synced c (wd_journal w') \<and> oj_submits (mem w') = oj_submits (mem w)
    \<and> (\<exists>t. oj_terminals (mem w') = AList.update cid t (oj_terminals (mem w)))"
  using mark_resolved_run [OF assms(1,2), of vc cid symbol status x] assms(3) by auto

lemma query_known_steady: "sx_keeps (steady c) (query_known vc symbol cid)"
  by (simp add: sx_keeps_def steady_def query_known_state)

lemma cancel_and_confirm_steady: "sx_keeps (steady c) (cancel_and_confirm c vc symbol cid)"
  by (simp add: sx_keeps_def steady_def cancel_and_confirm_frame)

lemma steadyD:
  "sx_keeps (steady c) m \<Longrightarrow> m w = (r, w') \<Longrightarrow> synced c (wd_journal w) \<Longrightarrow> synced c (wd_journal w')
     \<and> oj_submits (mem w') = oj_submits (mem w) \<and> oj_terminals (mem w') = oj_terminals (mem w)"
  by (drule (1) sx_keepsD) (simp add: steady_def)

lemma recover_submit_step:
  assumes c: "codec_ok c" and sync: "synced c (wd_journal w)"
    and run: "recover_submit c vc fee tolerance subs submit rep w = (Inr rep', w')"
  shows "synced c (wd_journal w') \<and> oj_submits (mem w') = oj_submits (mem w)
    \<and> (rr_resolved_ids rep' = rr_resolved_ids rep @ [js_client_order_id submit] \<and> rr_unresolved_ids rep' = rr_unresolved_ids rep
         \<and> (\<exists>t. oj_terminals (mem w') = AList.update (js_client_order_id submit) t (oj_terminals (mem w)))
       \<or> rr_resolved_ids rep' = rr_resolved_ids rep \<and> rr_unresolved_ids rep' = rr_unresolved_ids rep @ [js_client_order_id submit]
         \<and> oj_terminals (mem w') = oj_terminals (mem w))"
proof -
  let ?cid = "js_client_order_id submit"
  obtain answer u where q: "query_known vc (js_symbol submit) ?cid w = (Inr answer, u)"
    using run by (auto simp: recover_submit_def sx_bind_Inr)
  note u = steadyD [OF query_known_steady q sync]
  show ?thesis
  proof (cases answer)
    case None
    then have "mark_resolved c vc ?cid (js_symbol submit) ORDER_NOT_FOUND_STATUS
        (rep\<lparr>rr_resolved_ids := rr_resolved_ids rep @ [?cid]\<rparr>) u = (Inr rep', w')"
      using run q by (simp add: recover_submit_def sx_bind_def)
    from mark_resolved_result [OF c _ this] u show ?thesis by auto
  next
    case (Some payload)
    show ?thesis
    proof (cases "payload_status c payload \<in> set OPEN_ORDER_STATUSES")
      case True
      with run q Some show ?thesis using u
        by (auto simp: recover_submit_def sx_bind_def sx_defs split: sum.splits if_splits)
    next
      case False
      with run q Some obtain fill v where
        b: "book_recovered_delta c vc ?cid (js_symbol submit) (js_attempt_seq submit)
             (case js_leg_index submit of None \<Rightarrow> 0 | Some i \<Rightarrow> i) payload fee (effective_tolerance vc tolerance) subs u = (Inr fill, v)"
        and m: "mark_resolved c vc ?cid (js_symbol submit) (payload_status c payload)
             (rep\<lparr>rr_recovered := rr_recovered rep @ opt_list fill, rr_resolved_ids := rr_resolved_ids rep @ [?cid]\<rparr>) v = (Inr rep', w')"
        by (auto simp: recover_submit_def sx_bind_Inr split: if_splits)
      from u steadyD [OF book_steady [OF c] b] have v: "synced c (wd_journal v)" "oj_submits (mem v) = oj_submits (mem w)"
          "oj_terminals (mem v) = oj_terminals (mem w)" by simp_all
      from mark_resolved_result [OF c v(1) m] v show ?thesis by auto
    qed
  qed
qed

text \<open>
  C16: restart recovery accounts for every open question of the journal.  When it returns, each
  submission it started from is either resolved, with a terminal record in the journal, or
  reported as still open; and the submissions the journal still counts as unresolved are exactly
  the ones recovery did not resolve.
\<close>

theorem recovery_accounts_for_every_submit:
  assumes "codec_ok c" and "synced c (wd_journal w)" and "\<not> vc_suppressed vc"
    and "recover_unresolved_orders c vc now lookback fee tolerance w = (Inr rep, w')"
  shows "synced c (wd_journal w')
    \<and> js_client_order_id ` set (unresolved_mem (mem w) (now - lookback)) = set (rr_resolved_ids rep) \<union> set (rr_unresolved_ids rep)
    \<and> unresolved_mem (mem w') (now - lookback) =
        filter (\<lambda>s. js_client_order_id s \<notin> set (rr_resolved_ids rep)) (unresolved_mem (mem w) (now - lookback))"
proof -
  let ?subs = "unresolved_mem (mem w) (now - lookback)"
  let ?P = "\<lambda>d rep u. synced c (wd_journal u) \<and> oj_submits (mem u) = oj_submits (mem w)
    \<and> js_client_order_id ` set d = set (rr_resolved_ids rep) \<union> set (rr_unresolved_ids rep)
    \<and> (\<forall>k. map_of (oj_terminals (mem u)) k = None \<longleftrightarrow> map_of (oj_terminals (mem w)) k = None \<and> k \<notin> set (rr_resolved_ids rep))"
  have loop: "sx_foldM (recover_submit c vc fee tolerance (submits_by_id ?subs)) ?subs empty_report w = (Inr rep, w')"
    using assms(2-4) by (simp add: recover_unresolved_orders_def unresolved_submits_def sx_bind_def query_world_synced)
  have step: "?P (d @ [x]) rep1 u1"
    if "?P d rep u" "recover_submit c vc fee tolerance (submits_by_id ?subs) x rep u = (Inr rep1, u1)" for d x rep u rep1 u1
  proof -
    have "synced c (wd_journal u)" using that(1) by simp
    from recover_submit_step [OF assms(1) this that(2)] that(1) show ?thesis by (auto split: if_splits)
  qed
  have init: "?P [] empty_report w" using assms(2) by (simp add: empty_report_def)
  have inv: "?P ?subs rep w'" by (rule sx_foldM_invariant [where P = ?P, OF loop init]) (rule step)
  then have "unresolved_mem (mem w') (now - lookback) =
      filter (\<lambda>s. js_client_order_id s \<notin> set (rr_resolved_ids rep)) ?subs"
    unfolding unresolved_mem_def filter_sort filter_filter
    by (intro arg_cong [of _ _ "sort_key js_submit_seq"]) (auto intro!: filter_cong)
  with inv show ?thesis by blast
qed

definition submitted_world :: "unit world" where
  "submitted_world = \<lparr>wd_journal = run_op plain_codec 0 (RecordSubmit \<lparr>sr_client_order_id = ''mh-1'', sr_symbol = ''BTCUSDT'',
     sr_submit_seq = 0, sr_attempt_seq = 0, sr_side = ''BUY'', sr_quantity = 1, sr_reduce_only = False, sr_leg_index = 0\<rparr>)
       (open_journal None), wd_venue = (), wd_audit = []\<rparr>"

lemma submitted_world_synced: "synced plain_codec (wd_journal submitted_world)"
  using run_op_synced [OF plain_codec_ok journal_reach_ok [OF plain_codec_ok journal_reach.start, THEN conjunct1]]
  by (simp add: submitted_world_def)

lemma submitted_world_unresolved: "map js_client_order_id (unresolved_mem (mem submitted_world) 0) = [''mh-1'']"
  by (simp add: submitted_world_def run_op_def record_submit_def ensure_loaded_def open_journal_def sx_defs check_submit_def
      SIDES_def empty_journal_def commit_record_def ensure_v2_schema_def append_record_def modify_mem_def Let_def
      add_submit_def put_submit_def unresolved_mem_def)

lemma submitted_world_recovery:
  "\<exists>rep. recover_unresolved_orders plain_codec stubborn_venue 5 5 4 10 submitted_world = (Inr rep, submitted_world)
     \<and> rr_unresolved_ids rep = [''mh-1'']"
proof -
  obtain x where subs: "unresolved_mem (mem submitted_world) 0 = [x]" and x: "js_client_order_id x = ''mh-1''" "js_recorded_at x = 0"
    by (simp add: submitted_world_def run_op_def record_submit_def ensure_loaded_def open_journal_def sx_defs check_submit_def
      SIDES_def empty_journal_def commit_record_def ensure_v2_schema_def append_record_def modify_mem_def Let_def
      add_submit_def put_submit_def unresolved_mem_def)
  show ?thesis
    by (simp add: recover_unresolved_orders_def unresolved_submits_def query_world_synced submitted_world_synced subs sx_defs
        recover_submit_def query_known_def on_venue_run stubborn_venue_def payload_status_def py_bool_def OPEN_ORDER_STATUSES_def
        guard_order_identity_def submits_by_id_def x TS_MIN_def assert_order_identity_def plain_codec_ok effective_tolerance_def
        empty_report_def Let_def)
qed

theorem recovery_accounts_for_every_submit_witness:
  "\<exists>rep. recover_unresolved_orders plain_codec stubborn_venue 5 5 4 10 submitted_world = (Inr rep, submitted_world)
     \<and> {''mh-1''} = set (rr_resolved_ids rep) \<union> set (rr_unresolved_ids rep)"
proof -
  obtain rep where rep: "recover_unresolved_orders plain_codec stubborn_venue 5 5 4 10 submitted_world = (Inr rep, submitted_world)"
    using submitted_world_recovery by blast
  have "js_client_order_id ` set (unresolved_mem (mem submitted_world) 0) = {''mh-1''}"
    using arg_cong [OF submitted_world_unresolved, of set] by simp
  then show ?thesis
    using rep recovery_accounts_for_every_submit [OF plain_codec_ok submitted_world_synced _ rep]
    by (simp add: stubborn_venue_def)
qed

section \<open>Orders the venue reports open are never closed\<close>

definition keeps_open :: "text_codec \<Rightarrow> string \<Rightarrow> 'v world \<Rightarrow> 'v world \<Rightarrow> bool" where
  "keeps_open c k w w' \<longleftrightarrow> (synced c (wd_journal w) \<longrightarrow> synced c (wd_journal w')
     \<and> map_of (oj_terminals (mem w')) k = map_of (oj_terminals (mem w)) k)"

definition reported_open :: "text_codec \<Rightarrow> 'v venue_client \<Rightarrow> string \<Rightarrow> bool" where
  "reported_open c vc k \<longleftrightarrow> (\<forall>s v. case fst (vc_query vc s k v) of
     Inl _ \<Rightarrow> False | Inr p \<Rightarrow> payload_status c p \<in> set OPEN_ORDER_STATUSES)"

lemma keeps_open_preorder: "reflp (keeps_open c k)" "transp (keeps_open c k)"
  by (auto simp: keeps_open_def reflp_def transp_def)

lemma keeps_open_steady: "sx_keeps (steady c) m \<Longrightarrow> sx_keeps (keeps_open c k) m"
  by (auto simp: sx_keeps_def steady_def keeps_open_def)

lemma keeps_open_resolved: "codec_ok c \<Longrightarrow> cid \<noteq> k \<Longrightarrow> sx_keeps (keeps_open c k) (mark_resolved c vc cid s st x)"
  unfolding sx_keeps_def keeps_open_def
  using mark_resolved_result [of c _ vc cid s st x] by (metis fun_upd_other map_of_update prod.collapse)

lemmas keeps_open_rules =
  sx_keeps_pure [OF keeps_open_preorder(1)] sx_keeps_bind [OF keeps_open_preorder(2)]
  keeps_open_steady [OF query_known_steady] keeps_open_steady [OF cancel_and_confirm_steady]
  keeps_open_steady [OF book_steady] keeps_open_steady [OF steady_query] keeps_open_resolved

lemma keeps_open_if:
  "(b \<Longrightarrow> sx_keeps R m1) \<Longrightarrow> (\<not> b \<Longrightarrow> sx_keeps R m2) \<Longrightarrow> sx_keeps R (if b then m1 else m2)"
  by simp

lemma keeps_open_option:
  "sx_keeps R m1 \<Longrightarrow> (\<And>y. x = Some y \<Longrightarrow> sx_keeps R (m2 y)) \<Longrightarrow> sx_keeps R (case x of None \<Rightarrow> m1 | Some y \<Rightarrow> m2 y)"
  by (cases x) simp_all

lemma open_statuses: "[] \<notin> set OPEN_ORDER_STATUSES" "ORDER_NOT_FOUND_STATUS \<notin> set OPEN_ORDER_STATUSES"
  by (simp_all add: OPEN_ORDER_STATUSES_def ORDER_NOT_FOUND_STATUS_def)

lemma query_known_open:
  assumes "reported_open c vc k" "query_known vc s k w = (Inr a, w')"
  shows "\<exists>p. a = Some p \<and> payload_status c p \<in> set OPEN_ORDER_STATUSES"
proof -
  have "case fst (vc_query vc s k (wd_venue w)) of Inl _ \<Rightarrow> False | Inr p \<Rightarrow> payload_status c p \<in> set OPEN_ORDER_STATUSES"
    using assms(1) by (simp add: reported_open_def)
  with assms(2) show ?thesis by (auto simp: query_known_def on_venue_run split: sum.splits)
qed

lemma cancel_and_confirm_open:
  assumes "reported_open c vc k" "cancel_and_confirm c vc s k w = (Inr conf, w')"
  shows "\<not> cc_closed conf \<and> cc_status conf \<in> set OPEN_ORDER_STATUSES"
proof -
  obtain a u u' where a: "query_known vc s k u = (Inr a, u')" and
    r: "(case a of None \<Rightarrow> sx_return \<lparr>cc_symbol = s, cc_client_order_id = k, cc_closed = True,
          cc_status = ORDER_NOT_FOUND_STATUS, cc_payload = None\<rparr>
      | Some p \<Rightarrow> let status = payload_status c p in if status = [] then sx_raise DataIntegrityError
          else sx_return \<lparr>cc_symbol = s, cc_client_order_id = k, cc_closed = (status \<notin> set OPEN_ORDER_STATUSES),
             cc_status = status, cc_payload = Some p\<rparr>) u' = (Inr conf, w')"
    using assms(2) by (auto simp: cancel_and_confirm_def sx_bind_Inr)
  from query_known_open [OF assms(1) a] r show ?thesis by (auto simp: Let_def split: if_splits)
qed

lemma recover_submit_keeps_open:
  assumes "codec_ok c" "reported_open c vc k"
  shows "sx_keeps (keeps_open c k) (recover_submit c vc fee tol subs submit rep)"
proof (cases "js_client_order_id submit = k")
  case False
  show ?thesis unfolding recover_submit_def
    by (intro keeps_open_rules keeps_open_option keeps_open_if assms False)
next
  case True
  show ?thesis unfolding recover_submit_def True
  proof (rule sx_keeps_bind_post [OF keeps_open_preorder(2) keeps_open_steady [OF query_known_steady]])
    fix w a w'
    assume "query_known vc (js_symbol submit) k w = (Inr a, w')"
    from query_known_open [OF assms(2) this] open_statuses(1)
    show "keeps_open c k w' (snd ((case a of
         None \<Rightarrow> mark_resolved c vc k (js_symbol submit) ORDER_NOT_FOUND_STATUS (rep\<lparr>rr_resolved_ids := rr_resolved_ids rep @ [k]\<rparr>)
       | Some payload \<Rightarrow> sx_bind (sx_lift (guard_order_identity c subs payload k (effective_tolerance vc tol))) (\<lambda>_.
           if payload_status c payload = [] then sx_raise DataIntegrityError
           else if payload_status c payload \<in> set OPEN_ORDER_STATUSES
           then sx_return (rep\<lparr>rr_unresolved_ids := rr_unresolved_ids rep @ [k],
                  rr_unresolved := rr_unresolved rep @ [\<lparr>uo_client_order_id = k, uo_symbol = js_symbol submit,
                     uo_attempt_seq = js_attempt_seq submit, uo_leg_index = (case js_leg_index submit of None \<Rightarrow> 0 | Some i \<Rightarrow> i)\<rparr>]\<rparr>)
           else sx_bind (book_recovered_delta c vc k (js_symbol submit) (js_attempt_seq submit)
                           (case js_leg_index submit of None \<Rightarrow> 0 | Some i \<Rightarrow> i) payload fee (effective_tolerance vc tol) subs)
                  (\<lambda>fill. mark_resolved c vc k (js_symbol submit) (payload_status c payload)
                     (rep\<lparr>rr_recovered := rr_recovered rep @ opt_list fill, rr_resolved_ids := rr_resolved_ids rep @ [k]\<rparr>)))) w'))"
      by (auto simp: keeps_open_def sx_defs split: sum.splits)
  qed
qed

lemma settle_order_keeps_open:
  assumes "codec_ok c" "reported_open c vc k"
  shows "sx_keeps (keeps_open c k) (settle_order c vc fee tol subs order acc)"
proof (cases "uo_client_order_id order = k")
  case False
  show ?thesis unfolding settle_order_def Let_def
    by (intro keeps_open_rules keeps_open_option keeps_open_if assms False)
next
  case True
  have rest: "keeps_open c k w' (snd (sx_bind (book_recovered_delta c vc k (uo_symbol order) (uo_attempt_seq order) (uo_leg_index order)
      p fee (effective_tolerance vc tol) subs) (\<lambda>fill. sx_return (g fill)) w'))" for w' p and g :: "_ \<Rightarrow> unresolved_settlement"
  proof -
    have "sx_keeps (keeps_open c k) (sx_bind (book_recovered_delta c vc k (uo_symbol order) (uo_attempt_seq order) (uo_leg_index order)
      p fee (effective_tolerance vc tol) subs) (\<lambda>fill. sx_return (g fill)))" by (intro keeps_open_rules assms)
    then show ?thesis by (simp add: sx_keeps_def)
  qed
  show ?thesis unfolding settle_order_def Let_def True
  proof (rule sx_keeps_bind_post [OF keeps_open_preorder(2) keeps_open_steady [OF cancel_and_confirm_steady]], goal_cases)
    case (1 w conf w')
    from cancel_and_confirm_open [OF assms(2) this] open_statuses(2)
    have "\<not> cc_closed conf" "cc_status conf \<noteq> ORDER_NOT_FOUND_STATUS" by auto
    with rest show ?case by (auto simp: keeps_open_def sx_raise_def split: option.splits)
  qed
qed

text \<open>
  C17: no order the venue keeps reporting open becomes terminal.  Whatever else happens in recovery
  and settlement, errors included, the terminal record of such an order is what it was before, so a
  later restart will ask for it again.
\<close>

theorem open_orders_stay_unresolved:
  assumes "codec_ok c" and "synced c (wd_journal w)" and "reported_open c vc k"
  shows "map_of (oj_terminals (mem (snd (recover_unresolved_orders c vc now lookback fee tolerance w)))) k =
           map_of (oj_terminals (mem w)) k
       \<and> map_of (oj_terminals (mem (snd (settle_unresolved_orders c vc orders fee tolerance w)))) k =
           map_of (oj_terminals (mem w)) k"
proof -
  have "sx_keeps (keeps_open c k) (recover_unresolved_orders c vc now lookback fee tolerance)"
    unfolding recover_unresolved_orders_def unresolved_submits_def
    by (intro keeps_open_if keeps_open_rules sx_keeps_foldM keeps_open_preorder recover_submit_keeps_open assms(1,3))
  moreover have "sx_keeps (keeps_open c k) (settle_unresolved_orders c vc orders fee tolerance)"
    unfolding settle_unresolved_orders_def submits_def
    by (intro keeps_open_if keeps_open_rules sx_keeps_foldM keeps_open_preorder settle_order_keeps_open assms(1,3))
  ultimately show ?thesis using assms(2) by (simp add: sx_keeps_def keeps_open_def)
qed

theorem open_orders_stay_unresolved_witness:
  "map_of (oj_terminals (mem (snd (recover_unresolved_orders plain_codec stubborn_venue 5 5 4 10 submitted_world)))) ''mh-1'' =
     map_of (oj_terminals (mem submitted_world)) ''mh-1''"
proof -
  have "reported_open plain_codec stubborn_venue ''mh-1''"
    by (simp add: reported_open_def stubborn_venue_def payload_status_def py_bool_def OPEN_ORDER_STATUSES_def Let_def)
  from open_orders_stay_unresolved [OF plain_codec_ok submitted_world_synced this] show ?thesis by blast
qed

end
