(* ===== verification/Orphan_Sweep.thy ===== *)
theory Orphan_Sweep
  imports Recovery
begin

text \<open>
  \<open>cancel_orphan_orders\<close> of \<open>src/live/order_cancel.py\<close>: the sweep of open orders before
  reconciliation.

  Proved here: the sweep never sends a cancel for an order outside the program's own id
  namespace and reports the symbols of such orders; and an own order the venue keeps reporting open
  is not journaled as terminal.
\<close>

section \<open>Operations\<close>

record orphan_sweep =
  os_fills :: "journal_fill list"
  os_foreign_symbols :: "string list"
  os_unconfirmed :: "unresolved_order list"

text \<open>The pattern of the ids from before the namespace: eight digits and a dash.\<close>

definition legacy_client_order_id :: "string \<Rightarrow> bool" where
  "legacy_client_order_id s \<longleftrightarrow> list_all is_digit (take 8 s) \<and> 8 < length s \<and> s ! 8 = CHR ''-''"

definition starts_with :: "string \<Rightarrow> string \<Rightarrow> bool" where
  "starts_with prefix s \<longleftrightarrow> take (length prefix) s = prefix"

definition own_order_id :: "string \<Rightarrow> bool" where
  "own_order_id cid \<longleftrightarrow> starts_with CLIENT_ORDER_NAMESPACE cid \<or> legacy_client_order_id cid"

definition entry_order_id :: "text_codec \<Rightarrow> payload \<Rightarrow> string" where
  "entry_order_id c entry = py_str c (obj_get_default entry ''clientOrderId'' (JStr []))"

definition entry_symbol :: "text_codec \<Rightarrow> payload \<Rightarrow> string" where
  "entry_symbol c entry = py_str c (obj_get_default entry ''symbol'' (JStr []))"

text \<open>The first loop: own orders in order, foreign symbols without repetition, an audit line for each foreign order.\<close>

definition classify_entry :: "text_codec \<Rightarrow> payload \<Rightarrow> payload list \<times> string list \<Rightarrow> ('v world, payload list \<times> string list) sx" where
  "classify_entry c entry acc =
     (if own_order_id (entry_order_id c entry) then sx_return (fst acc @ [entry], snd acc)
      else let symbol = entry_symbol c entry
           in sx_bind (audit_record ''foreign_open_order'' symbol (entry_order_id c entry) []) (\<lambda>_.
                sx_return (fst acc, if symbol \<noteq> [] \<and> symbol \<notin> set (snd acc) then snd acc @ [symbol] else snd acc)))"

text \<open>\<open>queried.get("side") or entry.get("side")\<close>, which must be a side text.\<close>

definition settled_side :: "payload \<Rightarrow> payload \<Rightarrow> string res" where
  "settled_side queried entry =
     (let v = obj_get queried ''side'' in payload_side [(''side'', if py_bool v then v else obj_get entry ''side'')])"

definition settled_price :: "text_codec \<Rightarrow> payload \<Rightarrow> payload \<Rightarrow> decimal res" where
  "settled_price c queried entry =
     (case obj_get_default queried ''avgPrice'' (obj_get entry ''avgPrice'') of
        JNull \<Rightarrow> Inl DataIntegrityError
      | raw \<Rightarrow> (case py_decimal c raw of Inl _ \<Rightarrow> Inl DataIntegrityError
                | Inr x \<Rightarrow> if x \<le> 0 then Inl DataIntegrityError else Inr x))"

definition orphan_request :: "string \<Rightarrow> string \<Rightarrow> string \<Rightarrow> decimal \<Rightarrow> decimal \<Rightarrow> decimal \<Rightarrow> pd_timestamp \<Rightarrow> decimal \<Rightarrow> fill_request" where
  "orphan_request order_id symbol side delta price fee now executed =
     \<lparr>fr_kind = ''orphan_settlement'', fr_attempt_seq = None, fr_symbol = symbol, fr_side = side,
      fr_quantity = delta, fr_price = price, fr_fee_bps = fee, fr_liquidity = ''taker'',
      fr_reason = ''orphan_settlement'', fr_filled_at = now, fr_client_order_id = Some order_id,
      fr_leg_index = 0, fr_cumulative_executed_qty = Some executed, fr_simulated = False\<rparr>"

text \<open>What ends the handling of an order: a terminal record if it is closed, an entry in the report if not.\<close>

definition finish_orphan ::
    "text_codec \<Rightarrow> 'v venue_client \<Rightarrow> cancel_confirmation \<Rightarrow> string \<Rightarrow> orphan_sweep \<Rightarrow> ('v world, orphan_sweep) sx" where
  "finish_orphan c vc conf symbol acc =
     (let order_id = cc_client_order_id conf in
      if cc_closed conf
      then sx_bind (on_journal vc (\<lambda>clock. record_terminal c clock order_id (cc_status conf))) (\<lambda>_. sx_return acc)
      else sx_return (acc\<lparr>os_unconfirmed := os_unconfirmed acc @ [\<lparr>uo_client_order_id = order_id, uo_symbol = symbol,
             uo_attempt_seq = None, uo_leg_index = 0\<rparr>]\<rparr>))"

definition settle_orphan ::
    "text_codec \<Rightarrow> 'v venue_client \<Rightarrow> pd_timestamp \<Rightarrow> decimal \<Rightarrow> cancel_confirmation \<Rightarrow> payload \<Rightarrow> payload \<Rightarrow> string
     \<Rightarrow> orphan_sweep \<Rightarrow> ('v world, orphan_sweep) sx" where
  "settle_orphan c vc now fee conf queried entry symbol acc =
     (let order_id = cc_client_order_id conf in
      sx_bind (audit_record (if cc_closed conf then ''orphan_cancelled'' else ''orphan_cancel_unconfirmed'') symbol order_id (cc_status conf)) (\<lambda>_.
      sx_bind (sx_lift (case py_decimal c (obj_get queried ''executedQty'') of Inl _ \<Rightarrow> Inl DataIntegrityError | Inr x \<Rightarrow> Inr x)) (\<lambda>executed_qty.
      sx_bind (on_journal vc (\<lambda>clock. observed_qty c clock order_id)) (\<lambda>observed.
        let delta = dsub executed_qty observed
        in if delta \<le> 0 then finish_orphan c vc conf symbol acc
           else sx_bind (sx_lift (settled_side queried entry)) (\<lambda>side.
                sx_bind (sx_lift (settled_price c queried entry)) (\<lambda>avg_price.
                sx_bind (on_journal vc (\<lambda>clock. record_fill c clock (orphan_request order_id symbol side delta avg_price fee now executed_qty))) (\<lambda>fill.
                sx_bind (audit_record ''orphan_settled'' symbol order_id []) (\<lambda>_.
                  finish_orphan c vc conf symbol (acc\<lparr>os_fills := os_fills acc @ [fill]\<rparr>)))))))))"

definition sweep_order ::
    "text_codec \<Rightarrow> 'v venue_client \<Rightarrow> pd_timestamp \<Rightarrow> decimal \<Rightarrow> int \<Rightarrow> (string, journal_submit) dict
     \<Rightarrow> payload \<Rightarrow> orphan_sweep \<Rightarrow> ('v world, orphan_sweep) sx" where
  "sweep_order c vc now fee tolerance subs entry acc =
     (let order_id = entry_order_id c entry in
      sx_bind (sx_lift (rbind (obj_item entry ''symbol'') (\<lambda>v. Inr (py_str c v)))) (\<lambda>symbol.
      sx_bind (cancel_and_confirm c vc symbol order_id) (\<lambda>conf.
        if cc_status conf = ORDER_NOT_FOUND_STATUS
        then sx_bind (audit_record ''orphan_cancelled'' symbol order_id ORDER_NOT_FOUND_STATUS) (\<lambda>_. sx_return acc)
        else case cc_payload conf of
          None \<Rightarrow> sx_raise AssertionError
        | Some queried \<Rightarrow>
            sx_bind (sx_lift (guard_order_identity c subs queried order_id (effective_tolerance vc tolerance))) (\<lambda>_.
              settle_orphan c vc now fee conf queried entry symbol acc))))"

definition cancel_orphan_orders ::
    "text_codec \<Rightarrow> 'v venue_client \<Rightarrow> pd_timestamp \<Rightarrow> decimal \<Rightarrow> int \<Rightarrow> ('v world, orphan_sweep) sx" where
  "cancel_orphan_orders c vc now fee tolerance =
     sx_bind (on_journal vc (\<lambda>clock. submits c clock)) (\<lambda>all_submits.
     sx_bind (on_venue (vc_open_orders vc)) (\<lambda>open_orders.
     sx_bind (sx_foldM (classify_entry c) open_orders ([], [])) (\<lambda>(ours, foreign_symbols).
       sx_foldM (sweep_order c vc now fee tolerance (submits_by_id all_submits)) ours
         \<lparr>os_fills = [], os_foreign_symbols = sort foreign_symbols, os_unconfirmed = []\<rparr>)))"

section \<open>Foreign orders are left alone\<close>

text \<open>A relation on the environment that every query, listing and own cancel respects.\<close>

definition venue_rel :: "('v \<Rightarrow> 'v \<Rightarrow> bool) \<Rightarrow> 'v world \<Rightarrow> 'v world \<Rightarrow> bool" where
  "venue_rel R w w' \<longleftrightarrow> R (wd_venue w) (wd_venue w')"

lemma venue_rel_preorder: "reflp R \<Longrightarrow> reflp (venue_rel R)" "transp R \<Longrightarrow> transp (venue_rel R)"
  by (auto simp: venue_rel_def reflp_def transp_def)

lemma venue_rel_journal:
  "reflp R \<Longrightarrow> sx_keeps (venue_rel R) (on_journal vc m)" "reflp R \<Longrightarrow> sx_keeps (venue_rel R) (audit_record e s k st)"
  by (simp_all add: sx_keeps_def venue_rel_def on_journal_run audit_record_def sx_modify_def reflp_def)

lemma classify_result:
  assumes "sx_foldM (classify_entry c) es acc w = (Inr acc', w')"
  shows "fst acc' = fst acc @ filter (\<lambda>e. own_order_id (entry_order_id c e)) es
    \<and> set (snd acc') = set (snd acc) \<union> (entry_symbol c ` {e \<in> set es. \<not> own_order_id (entry_order_id c e)} - {[]})
    \<and> (distinct (snd acc) \<longrightarrow> distinct (snd acc')) \<and> wd_venue w' = wd_venue w \<and> wd_journal w' = wd_journal w"
proof -
  let ?P = "\<lambda>d a u. fst a = fst acc @ filter (\<lambda>e. own_order_id (entry_order_id c e)) d
    \<and> set (snd a) = set (snd acc) \<union> (entry_symbol c ` {e \<in> set d. \<not> own_order_id (entry_order_id c e)} - {[]})
    \<and> (distinct (snd acc) \<longrightarrow> distinct (snd a)) \<and> wd_venue u = wd_venue w \<and> wd_journal u = wd_journal w"
  have step: "?P (d @ [x]) a1 u1" if "?P d a u" "classify_entry c x a u = (Inr a1, u1)" for d x a u a1 u1
    using that by (auto simp: classify_entry_def audit_record_def sx_defs Let_def split: if_splits)
  show ?thesis by (rule sx_foldM_invariant [where P = ?P, OF assms]) (simp, rule step)
qed

lemma classify_venue: "reflp R \<Longrightarrow> transp R \<Longrightarrow> sx_keeps (venue_rel R) (sx_foldM (classify_entry c) es acc)"
  unfolding classify_entry_def Let_def
  by (intro sx_keeps_foldM venue_rel_preorder keeps_open_if sx_keeps_bind sx_keeps_pure venue_rel_journal)

lemma cancel_and_confirm_venue:
  assumes "transp R" "R (wd_venue w) (snd (vc_cancel vc s k (wd_venue w)))" "\<And>v. R v (snd (vc_query vc s k v))"
  shows "R (wd_venue w) (wd_venue (snd (cancel_and_confirm c vc s k w)))"
proof -
  obtain r w1 where s: "send_cancel vc s k w = (r, w1)" by (cases "send_cancel vc s k w")
  obtain r2 w2 where q: "query_known vc s k w1 = (r2, w2)" by (cases "query_known vc s k w1")
  have "R (wd_venue w) (wd_venue w1)" "R (wd_venue w1) (wd_venue w2)"
    using assms(2,3) send_cancel_state [of vc s k w] query_known_state [of vc s k w1] s q by simp_all
  then show ?thesis using s q assms(1)
    by (auto simp: cancel_and_confirm_def sx_defs Let_def split: sum.splits option.splits dest: transpD)
qed

lemma finish_orphan_venue: "reflp R \<Longrightarrow> transp R \<Longrightarrow> sx_keeps (venue_rel R) (finish_orphan c vc conf s acc)"
  unfolding finish_orphan_def Let_def
  by (intro keeps_open_if sx_keeps_bind sx_keeps_pure venue_rel_preorder venue_rel_journal)

lemma settle_orphan_venue: "reflp R \<Longrightarrow> transp R \<Longrightarrow> sx_keeps (venue_rel R) (settle_orphan c vc now fee conf q e s acc)"
  unfolding settle_orphan_def Let_def
  by (intro keeps_open_if sx_keeps_bind sx_keeps_pure venue_rel_preorder venue_rel_journal finish_orphan_venue)

lemma sweep_order_venue:
  assumes "reflp R" "transp R" "\<And>s v. R v (snd (vc_cancel vc s (entry_order_id c entry) v))" "\<And>s k v. R v (snd (vc_query vc s k v))"
  shows "sx_keeps (venue_rel R) (sweep_order c vc now fee tol subs entry acc)"
proof -
  have "sx_keeps (venue_rel R) (cancel_and_confirm c vc s (entry_order_id c entry))" for s
    unfolding sx_keeps_def venue_rel_def by (simp add: cancel_and_confirm_venue assms)
  then show ?thesis
    unfolding sweep_order_def Let_def
    by (intro keeps_open_if keeps_open_option sx_keeps_bind sx_keeps_pure venue_rel_preorder venue_rel_journal
        settle_orphan_venue assms(1,2))
qed

lemma sweep_order_symbols:
  "sweep_order c vc now fee tol subs entry acc w = (Inr acc', w') \<Longrightarrow> os_foreign_symbols acc' = os_foreign_symbols acc"
  by (auto simp: sweep_order_def settle_orphan_def finish_orphan_def Let_def sx_bind_Inr split: if_splits option.splits)

lemma cancel_orphan_orders_run:
  assumes "cancel_orphan_orders c vc now fee tolerance w = (Inr sweep, w')"
  shows "\<exists>es. fst (vc_open_orders vc (wd_venue w)) = Inr es
     \<and> sorted (os_foreign_symbols sweep) \<and> distinct (os_foreign_symbols sweep)
     \<and> set (os_foreign_symbols sweep) = entry_symbol c ` {e \<in> set es. \<not> own_order_id (entry_order_id c e)} - {[]}"
proof -
  from assms obtain subs es ours foreign u1 u2 u3 where
    j: "on_journal vc (\<lambda>clock. submits c clock) w = (Inr subs, u1)"
    and o: "on_venue (vc_open_orders vc) u1 = (Inr es, u2)"
    and cl: "sx_foldM (classify_entry c) es ([], []) u2 = (Inr (ours, foreign), u3)"
    and sw: "sx_foldM (sweep_order c vc now fee tolerance (submits_by_id subs)) ours
       \<lparr>os_fills = [], os_foreign_symbols = sort foreign, os_unconfirmed = []\<rparr> u3 = (Inr sweep, w')"
    by (auto simp: cancel_orphan_orders_def sx_bind_Inr)
  have "wd_venue u1 = wd_venue w" using j by (auto simp: on_journal_run)
  then have es: "fst (vc_open_orders vc (wd_venue w)) = Inr es" using o by (simp add: on_venue_run)
  have "os_foreign_symbols sweep = sort foreign"
    by (rule sx_foldM_invariant [where P = "\<lambda>_ a _. os_foreign_symbols a = sort foreign", OF sw])
      (simp_all add: sweep_order_symbols)
  with classify_result [OF cl] es show ?thesis by auto
qed

text \<open>
  C18: the orphan sweep leaves foreign orders alone.  Every relation between environment states
  that holds across queries, listings and cancels of own orders holds across the whole sweep,
  errors included, so no other cancel is ever sent; and when the sweep returns, the reported foreign
  symbols are, in order and without repetition, the symbols of the open orders outside the
  namespace.
\<close>

theorem orphan_sweep_spares_foreign:
  assumes "reflp R" and "transp R"
    and "\<And>s k v. own_order_id k \<Longrightarrow> R v (snd (vc_cancel vc s k v))"
    and "\<And>s k v. R v (snd (vc_query vc s k v))" and "\<And>v. R v (snd (vc_open_orders vc v))"
  shows "R (wd_venue w) (wd_venue (snd (cancel_orphan_orders c vc now fee tolerance w)))
    \<and> (case fst (cancel_orphan_orders c vc now fee tolerance w) of Inl _ \<Rightarrow> True
       | Inr sweep \<Rightarrow> \<exists>es. fst (vc_open_orders vc (wd_venue w)) = Inr es
           \<and> sorted (os_foreign_symbols sweep) \<and> distinct (os_foreign_symbols sweep)
           \<and> set (os_foreign_symbols sweep) = entry_symbol c ` {e \<in> set es. \<not> own_order_id (entry_order_id c e)} - {[]})"
proof -
  have venue: "sx_keeps (venue_rel R) (on_venue (vc_open_orders vc))"
    using assms(5) by (simp add: sx_keeps_def venue_rel_def on_venue_run)
  have sweep: "venue_rel R u (snd (sx_foldM (sweep_order c vc now fee tolerance subs) ours acc u))"
    if "sx_foldM (classify_entry c) es ([], []) v = (Inr (ours, foreign), u)" for es v ours foreign u subs acc
  proof -
    have "own_order_id (entry_order_id c e)" if "e \<in> set ours" for e
      using classify_result [OF \<open>sx_foldM _ es _ v = _\<close>] that by auto
    then have "sx_keeps (venue_rel R) (sx_foldM (sweep_order c vc now fee tolerance subs) ours acc)"
      by (intro sx_keeps_foldM venue_rel_preorder sweep_order_venue assms) auto
    then show ?thesis by (simp add: sx_keeps_def)
  qed
  have "sx_keeps (venue_rel R) (cancel_orphan_orders c vc now fee tolerance)"
    unfolding cancel_orphan_orders_def
    by (intro sx_keeps_bind [OF venue_rel_preorder(2)] venue_rel_journal venue assms(1,2)
        sx_keeps_bind_post [OF venue_rel_preorder(2) classify_venue])
      (auto intro: sweep)
  moreover have "case fst (cancel_orphan_orders c vc now fee tolerance w) of Inl _ \<Rightarrow> True
       | Inr sweep \<Rightarrow> \<exists>es. fst (vc_open_orders vc (wd_venue w)) = Inr es
           \<and> sorted (os_foreign_symbols sweep) \<and> distinct (os_foreign_symbols sweep)
           \<and> set (os_foreign_symbols sweep) = entry_symbol c ` {e \<in> set es. \<not> own_order_id (entry_order_id c e)} - {[]}"
    using cancel_orphan_orders_run [of c vc now fee tolerance w] by (auto split: sum.splits simp: prod_eq_iff)
  ultimately show ?thesis by (simp add: sx_keeps_def venue_rel_def)
qed

definition counting_venue :: "nat venue_client" where
  "counting_venue = \<lparr>vc_cancel = (\<lambda>s cid v. (Inr (), if own_order_id cid then v else Suc v)),
     vc_query = (\<lambda>s cid v. (Inl (VenueError (Some ORDER_DOES_NOT_EXIST_CODE) 400), v)),
     vc_open_orders = (\<lambda>v. (Inr [[(''clientOrderId'', JStr ''mh-1''), (''symbol'', JStr ''BTCUSDT'')],
        [(''clientOrderId'', JStr ''web-1''), (''symbol'', JStr ''ETHUSDT'')]], v)),
     vc_now = (\<lambda>v. 0), vc_clock_offset_margin_ms = 0, vc_suppressed = False\<rparr>"

theorem orphan_sweep_spares_foreign_witness:
  "wd_venue (snd (cancel_orphan_orders plain_codec counting_venue (Aware 0) 4 10
      \<lparr>wd_journal = open_journal None, wd_venue = 0, wd_audit = []\<rparr>)) = 0"
  using orphan_sweep_spares_foreign [of "\<lambda>a b. b = a" counting_venue
      "\<lparr>wd_journal = open_journal None, wd_venue = 0, wd_audit = []\<rparr>" plain_codec "Aware 0" 4 10]
  by (simp add: counting_venue_def reflp_def transp_def)

end
