(* ===== verification/Tax_Schema.thy ===== *)
theory Tax_Schema
  imports Json
begin

text \<open>
  \<open>src/live/tax_schema.py\<close>: the facts of the tax ledger, their validation and their shard rows,
  and \<open>ExecutionMode\<close> of \<open>src/live/settings.py\<close>.

  Amounts are finite decimals and event times are instants, so the checks of \<open>TaxRecord\<close> and
  \<open>validate_tax_record\<close> that a field has its type hold by construction; a row, which is decoded
  JSON, is checked field by field.  The fixed point text \<open>format(x, "f")\<close> is a parameter with the
  hypothesis that it reads back.

  Proved here: a valid record written as a row reads back as the same record
  (\<open>tax_row_round_trip\<close>), and every record read from a row is valid.
\<close>

section \<open>Modes and records\<close>

datatype execution_mode = SHADOW | PAPER | LIVE_TESTNET | LIVE_MAINNET

definition mode_value :: "execution_mode \<Rightarrow> string" where
  "mode_value m = (case m of SHADOW \<Rightarrow> ''shadow'' | PAPER \<Rightarrow> ''paper'' | LIVE_TESTNET \<Rightarrow> ''live_testnet'' | LIVE_MAINNET \<Rightarrow> ''live_mainnet'')"

definition suppresses_mutations :: "execution_mode \<Rightarrow> bool" where
  "suppresses_mutations m \<longleftrightarrow> m = SHADOW \<or> m = PAPER"

definition TAX_RECORD_KINDS :: "string list" where
  "TAX_RECORD_KINDS = [''TRADE'', ''REALIZED_PNL'', ''FUNDING_FEE'', ''COMMISSION'', ''TRANSFER'', ''UNCLASSIFIED'']"

definition TRADE_SIDES :: "string list" where "TRADE_SIDES = [''BUY'', ''SELL'']"

definition ONE_WAY_POSITION_SIDE :: string where "ONE_WAY_POSITION_SIDE = ''BOTH''"

definition DELIVERY_SETTLEMENT_INCOME_TYPE :: string where "DELIVERY_SETTLEMENT_INCOME_TYPE = ''DELIVERED_SETTELMENT''"

definition TAX_SOURCE_MODES :: "(string, string list) dict" where
  "TAX_SOURCE_MODES =
     [(''venue'', [mode_value LIVE_TESTNET, mode_value LIVE_MAINNET]),
      (''simulated'', [mode_value PAPER, mode_value SHADOW]),
      (''delisting_settlement'', [mode_value PAPER, mode_value SHADOW])]"

definition TAX_ROW_KEYS :: "string list" where
  "TAX_ROW_KEYS = [''record_id'', ''kind'', ''event_time'', ''symbol'', ''side'', ''quantity'', ''price'', ''quote_qty'', ''fee'',
     ''fee_asset'', ''realized_pnl'', ''income_asset'', ''is_maker'', ''venue_id'', ''source'', ''mode'', ''income_type'', ''position_side'']"

definition LEGACY_OPTIONAL_ROW_KEYS :: "string list" where
  "LEGACY_OPTIONAL_ROW_KEYS = [''income_type'', ''position_side'']"

definition TAX_ROW_STR_FIELDS :: "string list" where
  "TAX_ROW_STR_FIELDS = [''record_id'', ''kind'', ''symbol'', ''side'', ''fee_asset'', ''income_asset'', ''source'', ''mode'',
     ''income_type'', ''position_side'']"

definition INCOME_KINDS :: "string list" where
  "INCOME_KINDS = [''REALIZED_PNL'', ''FUNDING_FEE'', ''COMMISSION'', ''TRANSFER'', ''UNCLASSIFIED'']"

definition SYMBOL_REQUIRED_VENUE_KINDS :: "string list" where
  "SYMBOL_REQUIRED_VENUE_KINDS = [''REALIZED_PNL'', ''FUNDING_FEE'', ''COMMISSION'']"

record tax_record =
  tr_record_id :: string
  tr_kind :: string
  tr_event_time :: timestamp
  tr_symbol :: string
  tr_side :: string
  tr_quantity :: decimal
  tr_price :: decimal
  tr_quote_qty :: decimal
  tr_fee :: decimal
  tr_fee_asset :: string
  tr_realized_pnl :: decimal
  tr_income_asset :: string
  tr_is_maker :: bool
  tr_venue_id :: int
  tr_source :: string
  tr_mode :: string
  tr_income_type :: string
  tr_position_side :: string

section \<open>Validation\<close>

definition validate_trade :: "tax_record \<Rightarrow> bool" where
  "validate_trade r \<longleftrightarrow>
     tr_symbol r \<noteq> [] \<and> tr_side r \<in> set TRADE_SIDES \<and> 0 < tr_quantity r \<and> 0 < tr_price r \<and> 0 \<le> tr_quote_qty r
     \<and> tr_income_asset r \<noteq> [] \<and> (tr_fee r = 0 \<or> tr_fee_asset r \<noteq> []) \<and> tr_income_type r = []
     \<and> (if tr_source r = ''venue'' then tr_position_side r = ONE_WAY_POSITION_SIDE
        else if tr_source r \<in> {''simulated'', ''delisting_settlement''} then tr_position_side r = [] \<and> tr_realized_pnl r = 0
        else True)"

definition validate_income :: "tax_record \<Rightarrow> bool" where
  "validate_income r \<longleftrightarrow>
     tr_kind r \<in> set INCOME_KINDS \<and> tr_side r = [] \<and> tr_position_side r = [] \<and> tr_income_asset r \<noteq> []
     \<and> (tr_source r = ''venue'' \<longrightarrow> tr_income_type r \<noteq> [])
     \<and> (tr_source r = ''venue'' \<and> tr_kind r \<in> set SYMBOL_REQUIRED_VENUE_KINDS \<longrightarrow> tr_symbol r \<noteq> [])
     \<and> (tr_kind r = ''FUNDING_FEE'' \<longrightarrow> tr_symbol r \<noteq> [])"

definition validate_tax_record :: "tax_record \<Rightarrow> unit res" where
  "validate_tax_record r = guard_res
     (tr_record_id r \<noteq> [] \<and> tr_kind r \<in> set TAX_RECORD_KINDS
      \<and> (case map_of TAX_SOURCE_MODES (tr_source r) of None \<Rightarrow> False | Some modes \<Rightarrow> tr_mode r \<in> set modes)
      \<and> (if tr_kind r = ''TRADE'' then validate_trade r else validate_income r))
     DataIntegrityError"

section \<open>Rows\<close>

text \<open>Numbers of a row decoded with \<open>parse_float=Decimal\<close>: a JSON fraction is a decimal.\<close>

definition parse_tax_decimal :: "text_codec \<Rightarrow> json \<Rightarrow> decimal res" where
  "parse_tax_decimal c value = (case value of
       JFloat q \<Rightarrow> Inr q
     | JInt i \<Rightarrow> Inr (of_int i)
     | JStr s \<Rightarrow> if s = [] \<or> strip s \<noteq> s \<or> CHR ''_'' \<in> set s then Inl DataIntegrityError
         else (case tc_dec c s of DecFinite x \<Rightarrow> Inr x | _ \<Rightarrow> Inl DataIntegrityError)
     | _ \<Rightarrow> Inl DataIntegrityError)"

definition is_JStr :: "json \<Rightarrow> bool" where "is_JStr j = (case j of JStr _ \<Rightarrow> True | _ \<Rightarrow> False)"

definition str_of :: "json \<Rightarrow> string" where "str_of j = (case j of JStr s \<Rightarrow> s | _ \<Rightarrow> [])"

definition row_keys_ok :: "(string \<times> json) list \<Rightarrow> bool" where
  "row_keys_ok row \<longleftrightarrow> set (map fst row) \<subseteq> set TAX_ROW_KEYS
     \<and> (\<forall>k \<in> set TAX_ROW_KEYS. k \<in> set LEGACY_OPTIONAL_ROW_KEYS \<or> k \<in> set (map fst row))
     \<and> (\<forall>k \<in> set TAX_ROW_STR_FIELDS. k \<in> set LEGACY_OPTIONAL_ROW_KEYS \<and> k \<notin> set (map fst row) \<or> is_JStr (obj_get row k))
     \<and> (case obj_get row ''is_maker'' of JBool _ \<Rightarrow> True | _ \<Rightarrow> False)
     \<and> (case obj_get row ''venue_id'' of JInt _ \<Rightarrow> True | _ \<Rightarrow> False)"

definition row_time :: "text_codec \<Rightarrow> json \<Rightarrow> timestamp res" where
  "row_time c raw = (case raw of JStr s \<Rightarrow> (case tc_ts c s of None \<Rightarrow> Inl DataIntegrityError
       | Some t \<Rightarrow> tz_aware DataIntegrityError t) | _ \<Rightarrow> Inl DataIntegrityError)"

definition tax_record_from_row :: "text_codec \<Rightarrow> json \<Rightarrow> tax_record res" where
  "tax_record_from_row c j = (case j of
     JObj row \<Rightarrow>
       rbind (guard_res (row_keys_ok row) DataIntegrityError) (\<lambda>_.
       rbind (row_time c (obj_get row ''event_time'')) (\<lambda>event_time.
       rbind (parse_tax_decimal c (obj_get row ''quantity'')) (\<lambda>quantity.
       rbind (parse_tax_decimal c (obj_get row ''price'')) (\<lambda>price.
       rbind (parse_tax_decimal c (obj_get row ''quote_qty'')) (\<lambda>quote_qty.
       rbind (parse_tax_decimal c (obj_get row ''fee'')) (\<lambda>fee.
       rbind (parse_tax_decimal c (obj_get row ''realized_pnl'')) (\<lambda>realized_pnl.
       let r = \<lparr>tr_record_id = str_of (obj_get row ''record_id''), tr_kind = str_of (obj_get row ''kind''), tr_event_time = event_time,
                tr_symbol = str_of (obj_get row ''symbol''), tr_side = str_of (obj_get row ''side''), tr_quantity = quantity,
                tr_price = price, tr_quote_qty = quote_qty, tr_fee = fee, tr_fee_asset = str_of (obj_get row ''fee_asset''),
                tr_realized_pnl = realized_pnl, tr_income_asset = str_of (obj_get row ''income_asset''),
                tr_is_maker = (obj_get row ''is_maker'' = JBool True),
                tr_venue_id = (case obj_get row ''venue_id'' of JInt i \<Rightarrow> i | _ \<Rightarrow> 0),
                tr_source = str_of (obj_get row ''source''), tr_mode = str_of (obj_get row ''mode''),
                tr_income_type = str_of (obj_get row ''income_type''), tr_position_side = str_of (obj_get row ''position_side'')\<rparr>
       in rbind (validate_tax_record r) (\<lambda>_. Inr r))))))))
   | _ \<Rightarrow> Inl DataIntegrityError)"

definition tax_record_to_row :: "text_codec \<Rightarrow> (decimal \<Rightarrow> string) \<Rightarrow> tax_record \<Rightarrow> json" where
  "tax_record_to_row c fixed r = JObj
     [(''record_id'', JStr (tr_record_id r)), (''kind'', JStr (tr_kind r)), (''event_time'', JStr (tc_iso c (tr_event_time r))),
      (''symbol'', JStr (tr_symbol r)), (''side'', JStr (tr_side r)), (''quantity'', JStr (fixed (tr_quantity r))),
      (''price'', JStr (fixed (tr_price r))), (''quote_qty'', JStr (fixed (tr_quote_qty r))), (''fee'', JStr (fixed (tr_fee r))),
      (''fee_asset'', JStr (tr_fee_asset r)), (''realized_pnl'', JStr (fixed (tr_realized_pnl r))),
      (''income_asset'', JStr (tr_income_asset r)), (''is_maker'', JBool (tr_is_maker r)), (''venue_id'', JInt (tr_venue_id r)),
      (''source'', JStr (tr_source r)), (''mode'', JStr (tr_mode r)), (''income_type'', JStr (tr_income_type r)),
      (''position_side'', JStr (tr_position_side r))]"

definition tax_event_sort_key :: "tax_record \<Rightarrow> timestamp \<times> int \<times> string" where
  "tax_event_sort_key r = (tr_event_time r, tr_venue_id r, tr_record_id r)"

section \<open>Coverage and boundary marks\<close>

record tax_coverage =
  tv_genesis_at :: "timestamp option"
  tv_genesis_positions :: "(string, decimal) dict"
  tv_income_covered_from :: "timestamp option"
  tv_collected_through :: "timestamp option"
  tv_income_gaps :: "(timestamp \<times> timestamp) list"

text \<open>The checks of \<open>TaxCoverage.__post_init__\<close>.\<close>

definition tax_coverage_ok :: "tax_coverage \<Rightarrow> bool" where
  "tax_coverage_ok cov \<longleftrightarrow> list_all (\<lambda>(s, q). s \<noteq> [] \<and> q \<noteq> 0) (tv_genesis_positions cov)
     \<and> list_all (\<lambda>(a, b). a \<le> b) (tv_income_gaps cov)
     \<and> sorted_wrt (\<lambda>(a, b) (a', b'). a < a' \<or> a = a' \<and> b < b') (tv_income_gaps cov)"

record boundary_mark =
  bm_price :: "decimal option"
  bm_source :: string
  bm_unavailable_reason :: "string option"

definition boundary_mark_ok :: "boundary_mark \<Rightarrow> bool" where
  "boundary_mark_ok m \<longleftrightarrow> bm_source m \<in> {''operator_supplied'', ''ohlcv_1h_close''}
     \<and> (bm_price m = None) \<noteq> (bm_unavailable_reason m = None)
     \<and> (case bm_price m of None \<Rightarrow> bm_source m \<noteq> ''operator_supplied'' | Some p \<Rightarrow> 0 < p)"

section \<open>Round trip\<close>

definition fixed_ok :: "text_codec \<Rightarrow> (decimal \<Rightarrow> string) \<Rightarrow> bool" where
  "fixed_ok c fixed \<longleftrightarrow> (\<forall>x. tc_dec c (fixed x) = DecFinite x \<and> fixed x \<noteq> [] \<and> strip (fixed x) = fixed x \<and> CHR ''_'' \<notin> set (fixed x))"

lemma parse_tax_decimal_fixed: "fixed_ok c fixed \<Longrightarrow> parse_tax_decimal c (JStr (fixed x)) = Inr x"
  by (simp add: parse_tax_decimal_def fixed_ok_def)

lemma row_keys_written:
  "tax_record_to_row c fixed r = JObj row \<Longrightarrow> row_keys_ok row"
  by (auto simp: tax_record_to_row_def row_keys_ok_def TAX_ROW_KEYS_def LEGACY_OPTIONAL_ROW_KEYS_def TAX_ROW_STR_FIELDS_def is_JStr_def)

lemma parse_tax_decimal_error: "parse_tax_decimal c j = Inl e \<Longrightarrow> e = DataIntegrityError"
  by (auto simp: parse_tax_decimal_def split: json.splits if_splits dec_text.splits)

lemma row_time_error: "row_time c j = Inl e \<Longrightarrow> e = DataIntegrityError"
  by (auto simp: row_time_def tz_aware_def split: json.splits option.splits pd_timestamp.splits)

lemma from_row_written:
  assumes "codec_ok c" "fixed_ok c fixed" "validate_tax_record r = Inr ()"
  shows "tax_record_from_row c (tax_record_to_row c fixed r) = Inr r"
proof -
  obtain row where row: "tax_record_to_row c fixed r = JObj row" by (simp add: tax_record_to_row_def)
  note w = row [unfolded tax_record_to_row_def json.inject, symmetric]
  have "row_time c (obj_get row ''event_time'') = Inr (tr_event_time r)" using assms(1) by (simp add: w row_time_def)
  moreover have "obj_get row ''quantity'' = JStr (fixed (tr_quantity r))" "obj_get row ''price'' = JStr (fixed (tr_price r))"
    "obj_get row ''quote_qty'' = JStr (fixed (tr_quote_qty r))" "obj_get row ''fee'' = JStr (fixed (tr_fee r))"
    "obj_get row ''realized_pnl'' = JStr (fixed (tr_realized_pnl r))" by (simp_all add: w)
  moreover have "\<lparr>tr_record_id = str_of (obj_get row ''record_id''), tr_kind = str_of (obj_get row ''kind''), tr_event_time = tr_event_time r,
      tr_symbol = str_of (obj_get row ''symbol''), tr_side = str_of (obj_get row ''side''), tr_quantity = tr_quantity r,
      tr_price = tr_price r, tr_quote_qty = tr_quote_qty r, tr_fee = tr_fee r, tr_fee_asset = str_of (obj_get row ''fee_asset''),
      tr_realized_pnl = tr_realized_pnl r, tr_income_asset = str_of (obj_get row ''income_asset''),
      tr_is_maker = (obj_get row ''is_maker'' = JBool True),
      tr_venue_id = (case obj_get row ''venue_id'' of JInt i \<Rightarrow> i | _ \<Rightarrow> 0),
      tr_source = str_of (obj_get row ''source''), tr_mode = str_of (obj_get row ''mode''),
      tr_income_type = str_of (obj_get row ''income_type''), tr_position_side = str_of (obj_get row ''position_side'')\<rparr> = r"
    by (simp add: w str_of_def)
  ultimately show ?thesis
    using row_keys_written [OF row] assms(3)
    by (simp add: row tax_record_from_row_def guard_res_def parse_tax_decimal_fixed [OF assms(2)])
qed

lemma from_row_valid:
  "case tax_record_from_row c j of Inl e \<Rightarrow> e = DataIntegrityError | Inr r \<Rightarrow> validate_tax_record r = Inr ()"
proof (cases "tax_record_from_row c j")
  case (Inl e)
  then show ?thesis
    by (auto simp: tax_record_from_row_def result_simps Let_def validate_tax_record_def split: json.splits
        dest: parse_tax_decimal_error row_time_error)
next
  case (Inr r)
  then show ?thesis by (auto simp: tax_record_from_row_def result_simps Let_def split: json.splits)
qed

text \<open>
  The tax ledger reproduces what it wrote.  A valid record written as a shard row reads back as
  the same record, and every record a row reads as is valid.
\<close>

theorem tax_row_round_trip:
  assumes "codec_ok c" and "fixed_ok c fixed" and "validate_tax_record r = Inr ()"
  shows "tax_record_from_row c (tax_record_to_row c fixed r) = Inr r
    \<and> (case tax_record_from_row c j of Inl e \<Rightarrow> e = DataIntegrityError | Inr r' \<Rightarrow> validate_tax_record r' = Inr ())"
  using from_row_written [OF assms] from_row_valid [of c j] by blast

definition example_trade :: tax_record where
  "example_trade = \<lparr>tr_record_id = ''venue:TRADE:9'', tr_kind = ''TRADE'', tr_event_time = 5, tr_symbol = ''BTCUSDT'', tr_side = ''BUY'',
     tr_quantity = 2, tr_price = 3, tr_quote_qty = 6, tr_fee = 0, tr_fee_asset = [], tr_realized_pnl = 0, tr_income_asset = ''USDT'',
     tr_is_maker = True, tr_venue_id = 9, tr_source = ''venue'', tr_mode = ''live_mainnet'', tr_income_type = [], tr_position_side = ''BOTH''\<rparr>"

lemma example_trade_valid: "validate_tax_record example_trade = Inr ()"
  by (simp add: validate_tax_record_def example_trade_def TAX_RECORD_KINDS_def TAX_SOURCE_MODES_def mode_value_def
      validate_trade_def TRADE_SIDES_def ONE_WAY_POSITION_SIDE_def)

lemma tally_fixed_ok: "fixed_ok plain_codec tally_rat"
proof -
  have chars: "ch \<in> {CHR ''+'', CHR ''1'', CHR ''/''}" if "ch \<in> set (tally_rat x)" for ch x
    using that by (auto simp: tally_rat_def tally_int_def split: prod.splits if_splits)
  have same: "strip s = s" if "\<forall>ch \<in> set s. \<not> is_space ch" for s
  proof -
    have "dropWhile is_space s = s" "dropWhile is_space (rev s) = rev s"
      using that by (auto simp: dropWhile_eq_self_iff hd_rev)
    then show ?thesis by (simp add: strip_def)
  qed
  have "strip (tally_rat x) = tally_rat x" for x
    by (rule same) (use chars in \<open>fastforce simp: is_space_def\<close>)
  moreover have "CHR ''_'' \<notin> set (tally_rat x)" for x using chars [of "CHR ''_''" x] by auto
  moreover have "tally_rat x \<noteq> []" for x by (simp add: tally_rat_def split: prod.splits)
  ultimately show ?thesis by (simp add: fixed_ok_def plain_codec_def)
qed

theorem tax_row_round_trip_witness:
  "tax_record_from_row plain_codec (tax_record_to_row plain_codec tally_rat example_trade) = Inr example_trade"
  using tax_row_round_trip [OF plain_codec_ok tally_fixed_ok example_trade_valid] by blast

end
