(* ===== verification/Tax_Basis.thy ===== *)
theory Tax_Basis
  imports Tax_Schema "HOL-Library.Product_Lexorder" "HOL-Library.Multiset"
begin

text \<open>
  \<open>src/live/tax_basis.py\<close>: the moving-average cost basis of one symbol.

  Every operation runs in a decimal context of 60 digits that traps \<open>Inexact\<close>: an operation
  returns the exact value, or raises if that value has more digits.  Re-averaging divides by integer
  arithmetic, as the code does.

  Proved here: re-averaging is the half-even rounding of the exact average to the quantum; every
  step keeps the position well formed and conserves the quantity; book value changes by the cash of
  the fill and the realized profit, up to half a quantum per unit held; the fold does not depend on
  the order of its input and is causal.
\<close>

section \<open>Exact arithmetic\<close>

definition COST_BASIS_MOVING_AVERAGE :: string where "COST_BASIS_MOVING_AVERAGE = ''moving_average''"

definition AVERAGE_ENTRY_QUANTUM :: decimal where "AVERAGE_ENTRY_QUANTUM = 1 / 10 ^ 18"

definition require_moving_average :: "string \<Rightarrow> unit res" where
  "require_moving_average cost_basis = guard_res (cost_basis = COST_BASIS_MOVING_AVERAGE) ValueError"

definition exact_value :: "decimal \<Rightarrow> decimal res" where
  "exact_value x = (if rnd60 x = x then Inr x else Inl Inexact)"

definition exact_mul :: "decimal \<Rightarrow> decimal \<Rightarrow> decimal res" where "exact_mul a b = exact_value (a * b)"

definition exact_add :: "decimal \<Rightarrow> decimal \<Rightarrow> decimal res" where "exact_add a b = exact_value (a + b)"

definition exact_neg :: "decimal \<Rightarrow> decimal res" where "exact_neg a = exact_value (- a)"

definition exact_abs :: "decimal \<Rightarrow> decimal res" where "exact_abs a = exact_value \<bar>a\<bar>"

definition exact_sub :: "decimal \<Rightarrow> decimal \<Rightarrow> decimal res" where
  "exact_sub a b = rbind (exact_neg b) (exact_add a)"

section \<open>Positions and fills\<close>

record average_cost_position =
  ap_quantity :: decimal
  ap_avg_entry :: decimal
  ap_opened_at :: "timestamp option"

definition FLAT_POSITION :: average_cost_position where
  "FLAT_POSITION = \<lparr>ap_quantity = 0, ap_avg_entry = 0, ap_opened_at = None\<rparr>"

datatype direction = LongPos | ShortPos

record fill_realization =
  fz_record_id :: string
  fz_symbol :: string
  fz_event_time :: timestamp
  fz_closed_quantity :: decimal
  fz_closed_direction :: "direction option"
  fz_entry_notional_closed :: decimal
  fz_exit_notional_closed :: decimal
  fz_realized_pnl :: decimal
  fz_opened_quantity :: decimal
  fz_position_before :: average_cost_position
  fz_position_after :: average_cost_position

definition reaveraged_entry :: "decimal \<Rightarrow> decimal \<Rightarrow> decimal res" where
  "reaveraged_entry total_cost total_quantity =
     (let (cost_num, cost_den) = quotient_of total_cost;
          (quantity_num, quantity_den) = quotient_of total_quantity;
          (quantum_num, quantum_den) = quotient_of AVERAGE_ENTRY_QUANTUM;
          numerator = cost_num * quantity_den * quantum_den;
          denominator = cost_den * quantity_num * quantum_num;
          units = numerator div denominator; remainder = numerator mod denominator;
          units = (if denominator < remainder * 2 \<or> remainder * 2 = denominator \<and> odd units then units + 1 else units)
      in rbind (exact_mul (of_int units) AVERAGE_ENTRY_QUANTUM) (\<lambda>average.
           if average \<le> 0 then Inl DataIntegrityError else Inr average))"

text \<open>A fill in the direction of the position, or from flat.\<close>

definition open_fill :: "average_cost_position \<Rightarrow> tax_record \<Rightarrow> decimal \<Rightarrow> fill_realization res" where
  "open_fill position record after_qty =
     rbind (exact_abs (ap_quantity position)) (\<lambda>held.
     rbind (exact_mul held (ap_avg_entry position)) (\<lambda>old_cost.
     rbind (exact_mul (tr_quantity record) (tr_price record)) (\<lambda>new_cost.
     rbind (exact_add old_cost new_cost) (\<lambda>total_cost.
     rbind (exact_add held (tr_quantity record)) (\<lambda>total_held.
     rbind (if ap_quantity position = 0 then Inr (tr_price record, Some (tr_event_time record))
            else rbind (reaveraged_entry total_cost total_held) (\<lambda>a. Inr (a, ap_opened_at position))) (\<lambda>(avg_after, opened_at).
       Inr \<lparr>fz_record_id = tr_record_id record, fz_symbol = tr_symbol record, fz_event_time = tr_event_time record,
            fz_closed_quantity = 0, fz_closed_direction = None, fz_entry_notional_closed = 0, fz_exit_notional_closed = 0,
            fz_realized_pnl = 0, fz_opened_quantity = tr_quantity record, fz_position_before = position,
            fz_position_after = \<lparr>ap_quantity = after_qty, ap_avg_entry = avg_after, ap_opened_at = opened_at\<rparr>\<rparr>))))))"

text \<open>A fill against the position: it closes, and opens the remainder on the other side.\<close>

definition close_fill :: "average_cost_position \<Rightarrow> tax_record \<Rightarrow> decimal \<Rightarrow> fill_realization res" where
  "close_fill position record after_qty =
     rbind (exact_abs (ap_quantity position)) (\<lambda>held.
       let closed = (if held < tr_quantity record then held else tr_quantity record);
           direction = (if 0 < ap_quantity position then LongPos else ShortPos)
       in rbind (exact_sub (tr_quantity record) closed) (\<lambda>opened.
          rbind (exact_mul (ap_avg_entry position) closed) (\<lambda>entry_closed.
          rbind (exact_mul (tr_price record) closed) (\<lambda>exit_closed.
          rbind (if direction = LongPos then exact_sub exit_closed entry_closed else exact_sub entry_closed exit_closed) (\<lambda>realized.
            let after = (if closed = held
                  then if opened = 0 then FLAT_POSITION
                       else \<lparr>ap_quantity = after_qty, ap_avg_entry = tr_price record, ap_opened_at = Some (tr_event_time record)\<rparr>
                  else \<lparr>ap_quantity = after_qty, ap_avg_entry = ap_avg_entry position, ap_opened_at = ap_opened_at position\<rparr>)
            in Inr \<lparr>fz_record_id = tr_record_id record, fz_symbol = tr_symbol record, fz_event_time = tr_event_time record,
                 fz_closed_quantity = closed, fz_closed_direction = Some direction, fz_entry_notional_closed = entry_closed,
                 fz_exit_notional_closed = exit_closed, fz_realized_pnl = realized, fz_opened_quantity = opened,
                 fz_position_before = position, fz_position_after = after\<rparr>)))))"

definition apply_fill :: "average_cost_position \<Rightarrow> tax_record \<Rightarrow> fill_realization res" where
  "apply_fill position record =
     (if tr_kind record \<noteq> ''TRADE'' then Inl ValueError
      else rbind (validate_tax_record record) (\<lambda>_.
           rbind (if tr_side record = ''BUY'' then Inr (tr_quantity record) else exact_neg (tr_quantity record)) (\<lambda>signed.
           rbind (exact_add (ap_quantity position) signed) (\<lambda>after_qty.
             if ap_quantity position = 0 \<or> (0 < ap_quantity position) = (0 < signed)
             then open_fill position record after_qty else close_fill position record after_qty))))"

definition is_settlement :: "tax_record \<Rightarrow> bool" where
  "is_settlement r \<longleftrightarrow> tr_kind r = ''REALIZED_PNL'' \<and> tr_income_type r = DELIVERY_SETTLEMENT_INCOME_TYPE"

definition apply_settlement_close :: "average_cost_position \<Rightarrow> tax_record \<Rightarrow> fill_realization res" where
  "apply_settlement_close position record =
     (if \<not> is_settlement record then Inl ValueError
      else rbind (validate_tax_record record) (\<lambda>_.
        if ap_quantity position = 0 then Inl DataIntegrityError
        else let direction = (if 0 < ap_quantity position then LongPos else ShortPos)
             in rbind (exact_abs (ap_quantity position)) (\<lambda>closed.
                rbind (exact_mul (ap_avg_entry position) closed) (\<lambda>entry_closed.
                rbind (if direction = LongPos then exact_add entry_closed (tr_realized_pnl record)
                       else exact_sub entry_closed (tr_realized_pnl record)) (\<lambda>exit_closed.
                  Inr \<lparr>fz_record_id = tr_record_id record, fz_symbol = tr_symbol record, fz_event_time = tr_event_time record,
                    fz_closed_quantity = closed, fz_closed_direction = Some direction, fz_entry_notional_closed = entry_closed,
                    fz_exit_notional_closed = exit_closed, fz_realized_pnl = tr_realized_pnl record, fz_opened_quantity = 0,
                    fz_position_before = position, fz_position_after = FLAT_POSITION\<rparr>)))))"

definition apply_event :: "average_cost_position \<Rightarrow> tax_record \<Rightarrow> fill_realization res" where
  "apply_event position record =
     (if tr_kind record = ''TRADE'' then apply_fill position record
      else if is_settlement record then apply_settlement_close position record
      else Inl ValueError)"

fun fold_events :: "tax_record list \<Rightarrow> string list \<Rightarrow> average_cost_position \<Rightarrow> fill_realization list res" where
  "fold_events [] seen position = Inr []"
| "fold_events (r # rs) seen position =
     (if tr_record_id r \<in> set seen then Inl DataIntegrityError
      else rbind (apply_event position r) (\<lambda>step.
           rbind (fold_events rs (tr_record_id r # seen) (fz_position_after step)) (\<lambda>out. Inr (step # out))))"

definition fold_symbol :: "tax_record list \<Rightarrow> average_cost_position \<Rightarrow> fill_realization list res" where
  "fold_symbol records initial =
     (let ordered = sort_key tax_event_sort_key records
      in if 1 < length (remdups (map tr_symbol ordered)) then Inl ValueError
         else fold_events ordered [] initial)"

section \<open>Re-averaging\<close>

lemma half_even_fraction:
  assumes "0 < d"
  shows "half_even (of_int n / of_int d) =
    (if d < n mod d * 2 \<or> n mod d * 2 = d \<and> odd (n div d) then n div d + 1 else n div d)"
proof -
  have "rat_of_int n = of_int (n div d) * of_int d + of_int (n mod d)"
    by (metis mult_div_mod_eq mult.commute of_int_add of_int_mult)
  then have r: "rat_of_int n / of_int d - of_int (n div d) = of_int (n mod d) / of_int d"
    using assms by (simp add: field_simps)
  have "rat_of_int (n mod d) / of_int d < 1 / 2 \<longleftrightarrow> n mod d * 2 < d"
    "1 / 2 < rat_of_int (n mod d) / of_int d \<longleftrightarrow> d < n mod d * 2"
  proof -
    have "rat_of_int (n mod d) / of_int d < 1 / 2 \<longleftrightarrow> rat_of_int (n mod d * 2) < of_int d"
      using assms by (simp add: field_simps)
    then show "rat_of_int (n mod d) / of_int d < 1 / 2 \<longleftrightarrow> n mod d * 2 < d" by (simp only: of_int_less_iff)
    have "1 / 2 < rat_of_int (n mod d) / of_int d \<longleftrightarrow> rat_of_int d < of_int (n mod d * 2)"
      using assms by (simp add: field_simps)
    then show "1 / 2 < rat_of_int (n mod d) / of_int d \<longleftrightarrow> d < n mod d * 2" by (simp only: of_int_less_iff)
  qed
  note side = this
  show ?thesis unfolding half_even_def Let_def floor_divide_of_int_eq r side by auto
qed

lemma quotient_of_quantum: "quotient_of AVERAGE_ENTRY_QUANTUM = (1, 10 ^ 18)"
  unfolding AVERAGE_ENTRY_QUANTUM_def by code_simp

text \<open>The integer arithmetic of the code computes the half-even rounding of the exact average.\<close>

lemma reaveraged_entry_eq:
  assumes "0 < total_quantity"
  shows "reaveraged_entry total_cost total_quantity =
    rbind (exact_mul (of_int (half_even (total_cost / total_quantity / AVERAGE_ENTRY_QUANTUM))) AVERAGE_ENTRY_QUANTUM)
      (\<lambda>average. if average \<le> 0 then Inl DataIntegrityError else Inr average)"
proof -
  obtain cn cd where c: "quotient_of total_cost = (cn, cd)" by fastforce
  obtain qn qd where q: "quotient_of total_quantity = (qn, qd)" by fastforce
  have pos: "0 < cd" "0 < qd" using c q quotient_of_denom_pos by blast+
  have cost: "total_cost = of_int cn / of_int cd" using quotient_of_div [OF c] .
  have qty: "total_quantity = of_int qn / of_int qd" using quotient_of_div [OF q] .
  have qn: "0 < qn" using assms pos by (simp add: qty zero_less_divide_iff)
  have "total_cost / total_quantity / AVERAGE_ENTRY_QUANTUM = of_int (cn * qd * 10 ^ 18) / of_int (cd * qn * 1)"
    using pos qn by (simp add: cost qty AVERAGE_ENTRY_QUANTUM_def)
  moreover have "0 < cd * qn * 1" using pos qn by simp
  ultimately show ?thesis
    by (simp only: reaveraged_entry_def c q quotient_of_quantum Let_def prod.case half_even_fraction)
qed

lemma exact_value_Inr [result_simps]: "exact_value x = Inr y \<longleftrightarrow> y = x \<and> rnd60 x = x"
  by (auto simp: exact_value_def)

lemmas exact_ops [result_simps] = exact_mul_def exact_add_def exact_neg_def exact_abs_def exact_sub_def

lemma quantum_pos [simp]: "0 < AVERAGE_ENTRY_QUANTUM" "0 \<le> AVERAGE_ENTRY_QUANTUM" "AVERAGE_ENTRY_QUANTUM \<noteq> 0"
  by (simp_all add: AVERAGE_ENTRY_QUANTUM_def)

lemma reaveraged_entry_Inr:
  assumes "0 < total_quantity" "reaveraged_entry total_cost total_quantity = Inr average"
  shows "average = of_int (half_even (total_cost / total_quantity / AVERAGE_ENTRY_QUANTUM)) * AVERAGE_ENTRY_QUANTUM"
    and "0 < average" and "\<bar>total_quantity * average - total_cost\<bar> \<le> total_quantity * (AVERAGE_ENTRY_QUANTUM / 2)"
proof -
  define x where "x = total_cost / total_quantity / AVERAGE_ENTRY_QUANTUM"
  from assms show a: "average = of_int (half_even (total_cost / total_quantity / AVERAGE_ENTRY_QUANTUM)) * AVERAGE_ENTRY_QUANTUM"
    and "0 < average"
    by (auto simp: reaveraged_entry_eq result_simps split: if_splits)
  have cost: "total_cost = total_quantity * (x * AVERAGE_ENTRY_QUANTUM)" using assms(1) quantum_pos by (simp add: x_def)
  have "total_quantity * average - total_cost = total_quantity * (AVERAGE_ENTRY_QUANTUM * (of_int (half_even x) - x))"
    unfolding a x_def [symmetric] by (subst cost) (simp add: algebra_simps)
  also have "\<bar>\<dots>\<bar> = total_quantity * (AVERAGE_ENTRY_QUANTUM * \<bar>of_int (half_even x) - x\<bar>)"
    using assms(1) quantum_pos by (simp add: abs_mult less_imp_le)
  also have "\<dots> \<le> total_quantity * (AVERAGE_ENTRY_QUANTUM * (1 / 2))"
    using assms(1) quantum_pos half_even_error [of x] by (intro mult_left_mono) (simp_all add: less_imp_le)
  finally show "\<bar>total_quantity * average - total_cost\<bar> \<le> total_quantity * (AVERAGE_ENTRY_QUANTUM / 2)" by simp
qed

text \<open>
  Re-averaging rounds once.  For a positive quantity the integer arithmetic of the code is the
  half-even rounding of the exact quotient to a multiple of the quantum; it raises only if that
  rounding has more than 60 digits or is not positive.
\<close>

theorem reaveraging_rounds_once:
  assumes "0 < total_quantity"
  shows "reaveraged_entry total_cost total_quantity =
    (let rounded = of_int (half_even (total_cost / total_quantity / AVERAGE_ENTRY_QUANTUM)) * AVERAGE_ENTRY_QUANTUM
     in if rnd60 rounded \<noteq> rounded then Inl Inexact else if rounded \<le> 0 then Inl DataIntegrityError else Inr rounded)"
  using assms by (simp add: reaveraged_entry_eq exact_mul_def exact_value_def Let_def)

theorem reaveraging_rounds_once_witness:
  "reaveraged_entry 10 3 = (if rnd60 (3333333333333333333 / 10 ^ 18) \<noteq> 3333333333333333333 / 10 ^ 18 then Inl Inexact
     else Inr (3333333333333333333 / 10 ^ 18))"
proof -
  have "half_even (10 / 3 / AVERAGE_ENTRY_QUANTUM) = 3333333333333333333"
    by (simp add: half_even_def AVERAGE_ENTRY_QUANTUM_def floor_divide_of_int_eq [where 'a = rat, of "10 ^ 19" 3, simplified])
  then show ?thesis using reaveraging_rounds_once [of 3 10] by (simp add: AVERAGE_ENTRY_QUANTUM_def Let_def)
qed

section \<open>One event\<close>

definition well_formed_position :: "average_cost_position \<Rightarrow> bool" where
  "well_formed_position p \<longleftrightarrow> (if ap_quantity p = 0 then ap_avg_entry p = 0 \<and> ap_opened_at p = None
     else 0 < ap_avg_entry p \<and> ap_opened_at p \<noteq> None)"

definition signed_quantity :: "tax_record \<Rightarrow> decimal" where
  "signed_quantity r = (if tr_side r = ''BUY'' then tr_quantity r else - tr_quantity r)"

text \<open>Entry value of a position, negative for a short one.\<close>

definition book_value :: "average_cost_position \<Rightarrow> decimal" where
  "book_value p = ap_quantity p * ap_avg_entry p"

definition pnl_identity :: "fill_realization \<Rightarrow> bool" where
  "pnl_identity s \<longleftrightarrow> fz_entry_notional_closed s = fz_closed_quantity s * ap_avg_entry (fz_position_before s)
     \<and> fz_realized_pnl s = (case fz_closed_direction s of None \<Rightarrow> 0
         | Some LongPos \<Rightarrow> fz_exit_notional_closed s - fz_entry_notional_closed s
         | Some ShortPos \<Rightarrow> fz_entry_notional_closed s - fz_exit_notional_closed s)"

definition trade_step_ok :: "average_cost_position \<Rightarrow> tax_record \<Rightarrow> fill_realization \<Rightarrow> bool" where
  "trade_step_ok p r s \<longleftrightarrow> well_formed_position (fz_position_after s) \<and> fz_position_before s = p \<and> pnl_identity s
     \<and> ap_quantity (fz_position_after s) = ap_quantity p + signed_quantity r
     \<and> fz_closed_quantity s + fz_opened_quantity s = tr_quantity r \<and> 0 \<le> fz_closed_quantity s \<and> 0 \<le> fz_opened_quantity s
     \<and> fz_closed_quantity s \<le> \<bar>ap_quantity p\<bar>
     \<and> \<bar>book_value (fz_position_after s) - (book_value p + signed_quantity r * tr_price r + fz_realized_pnl s)\<bar>
         \<le> \<bar>ap_quantity (fz_position_after s)\<bar> * (AVERAGE_ENTRY_QUANTUM / 2)"

lemmas step_defs = trade_step_ok_def well_formed_position_def pnl_identity_def book_value_def

lemma open_fill_ok:
  assumes wf: "well_formed_position p" and pos: "0 < tr_quantity r" "0 < tr_price r"
    and dir: "ap_quantity p = 0 \<or> (0 < ap_quantity p) = (0 < signed_quantity r)"
    and step: "open_fill p r (ap_quantity p + signed_quantity r) = Inr s"
  shows "trade_step_ok p r s"
proof (cases "ap_quantity p = 0")
  case True
  with wf step pos show ?thesis
    by (auto simp: open_fill_def result_simps step_defs signed_quantity_def intro: mult_nonneg_nonneg)
next
  case False
  define held where "held = \<bar>ap_quantity p\<bar> + tr_quantity r"
  define cost where "cost = \<bar>ap_quantity p\<bar> * ap_avg_entry p + tr_quantity r * tr_price r"
  have sides: "signed_quantity r = (if 0 < ap_quantity p then tr_quantity r else - tr_quantity r)"
    using dir False pos by (auto simp: signed_quantity_def split: if_splits)
  have heldp: "0 < held" using pos by (simp add: held_def add_nonneg_pos)
  from step False obtain avg where avg: "reaveraged_entry cost held = Inr avg"
    and s: "fz_position_after s = \<lparr>ap_quantity = ap_quantity p + signed_quantity r, ap_avg_entry = avg, ap_opened_at = ap_opened_at p\<rparr>"
      "fz_position_before s = p" "fz_realized_pnl s = 0" "fz_closed_quantity s = 0" "fz_opened_quantity s = tr_quantity r"
      "fz_closed_direction s = None" "fz_entry_notional_closed s = 0"
    by (auto simp: open_fill_def result_simps cost_def held_def)
  have q: "\<bar>ap_quantity p + signed_quantity r\<bar> = held" using False pos by (auto simp: sides held_def abs_if)
  have drift: "\<bar>held * avg - cost\<bar> \<le> held * (AVERAGE_ENTRY_QUANTUM / 2)" by (rule reaveraged_entry_Inr(3) [OF heldp avg])
  have "(ap_quantity p + signed_quantity r) * avg - (ap_quantity p * ap_avg_entry p + signed_quantity r * tr_price r)
      = (if 0 < ap_quantity p then held * avg - cost else - (held * avg - cost))"
    using False by (auto simp: sides held_def cost_def abs_if algebra_simps)
  then have "\<bar>(ap_quantity p + signed_quantity r) * avg - (ap_quantity p * ap_avg_entry p + signed_quantity r * tr_price r)\<bar>
      = \<bar>held * avg - cost\<bar>" by (simp split: if_splits)
  with drift q wf False pos reaveraged_entry_Inr(2) [OF heldp avg] heldp show ?thesis
    by (auto simp: step_defs s)
qed

lemma close_fill_ok:
  assumes wf: "well_formed_position p" and pos: "0 < tr_quantity r" "0 < tr_price r"
    and dir: "ap_quantity p \<noteq> 0" "(0 < ap_quantity p) \<noteq> (0 < signed_quantity r)"
    and step: "close_fill p r (ap_quantity p + signed_quantity r) = Inr s"
  shows "trade_step_ok p r s"
proof -
  have sides: "signed_quantity r = (if 0 < ap_quantity p then - tr_quantity r else tr_quantity r)"
    using dir pos by (auto simp: signed_quantity_def split: if_splits)
  have avg: "0 < ap_avg_entry p" "ap_opened_at p \<noteq> None" using wf dir by (auto simp: well_formed_position_def)
  have drift: "0 \<le> \<bar>ap_quantity p + signed_quantity r\<bar> * (AVERAGE_ENTRY_QUANTUM / 2)"
    using quantum_pos by (intro mult_nonneg_nonneg) (simp_all add: less_imp_le)
  define after where "after = fz_position_after s"
  have "well_formed_position after \<and> fz_position_before s = p \<and> pnl_identity s
     \<and> ap_quantity after = ap_quantity p + signed_quantity r
     \<and> fz_closed_quantity s + fz_opened_quantity s = tr_quantity r \<and> 0 \<le> fz_closed_quantity s \<and> 0 \<le> fz_opened_quantity s
     \<and> fz_closed_quantity s \<le> \<bar>ap_quantity p\<bar>
     \<and> book_value after = book_value p + signed_quantity r * tr_price r + fz_realized_pnl s"
  proof (cases "0 < ap_quantity p")
    case True
    with step pos avg show ?thesis
      by (auto simp: close_fill_def result_simps step_defs sides Let_def FLAT_POSITION_def after_def algebra_simps split: if_splits)
  next
    case False
    with step pos avg dir show ?thesis
      by (auto simp: close_fill_def result_simps step_defs sides Let_def FLAT_POSITION_def after_def algebra_simps split: if_splits)
  qed
  with drift show ?thesis by (simp add: trade_step_ok_def after_def)
qed

lemma validate_trade_pos:
  "validate_tax_record r = Inr u \<Longrightarrow> tr_kind r = ''TRADE'' \<Longrightarrow> 0 < tr_quantity r \<and> 0 < tr_price r"
  by (simp add: validate_tax_record_def validate_trade_def)

lemma apply_fill_ok:
  assumes "well_formed_position p" "apply_fill p r = Inr s"
  shows "trade_step_ok p r s"
proof -
  from assms(2) have trade: "tr_kind r = ''TRADE''" and valid: "validate_tax_record r = Inr ()"
    and step: "(if ap_quantity p = 0 \<or> (0 < ap_quantity p) = (0 < signed_quantity r)
      then open_fill p r (ap_quantity p + signed_quantity r) else close_fill p r (ap_quantity p + signed_quantity r)) = Inr s"
    by (auto simp: apply_fill_def result_simps signed_quantity_def split: if_splits)
  note pos = validate_trade_pos [OF valid trade]
  show ?thesis
    using step assms(1) pos open_fill_ok close_fill_ok by (simp split: if_splits)
qed

lemma apply_settlement_close_ok:
  assumes "apply_settlement_close p r = Inr s"
  shows "fz_position_after s = FLAT_POSITION \<and> fz_position_before s = p \<and> pnl_identity s
    \<and> fz_realized_pnl s = tr_realized_pnl r \<and> fz_closed_quantity s = \<bar>ap_quantity p\<bar> \<and> ap_quantity p \<noteq> 0 \<and> fz_opened_quantity s = 0"
  using assms
  by (auto simp: apply_settlement_close_def result_simps pnl_identity_def Let_def split: if_splits)

lemma apply_event_cases:
  assumes "apply_event p r = Inr s"
  obtains (trade) "tr_kind r = ''TRADE''" "apply_fill p r = Inr s"
  | (settlement) "tr_kind r \<noteq> ''TRADE''" "apply_settlement_close p r = Inr s"
  using assms by (auto simp: apply_event_def split: if_splits)

lemma apply_event_fields:
  assumes "apply_event p r = Inr s"
  shows "fz_event_time s = tr_event_time r" "fz_record_id s = tr_record_id r" "fz_position_before s = p"
  using assms
  by (auto simp: apply_event_def apply_fill_def open_fill_def close_fill_def apply_settlement_close_def result_simps Let_def
      split: if_splits)

lemma well_formed_flat [simp]: "well_formed_position FLAT_POSITION"
  by (simp add: well_formed_position_def FLAT_POSITION_def)

lemma apply_event_well_formed:
  assumes "well_formed_position p" "apply_event p r = Inr s"
  shows "well_formed_position (fz_position_after s) \<and> pnl_identity s"
  using assms(2)
  by (cases rule: apply_event_cases)
    (use apply_fill_ok [OF assms(1)] apply_settlement_close_ok in \<open>auto simp: trade_step_ok_def\<close>)

text \<open>
  C38: the moving-average step.  From a well-formed position (flat without basis, or open with a
  positive average and an opening time) a fill moves the quantity by exactly its signed size, splits
  it into a closed part no larger than the position and an opened part, and leaves a well-formed
  position; the realized profit is exactly the closed notional difference in the direction of the
  position; and the entry value of the position changes by the traded notional plus the realized
  profit, up to half a quantum per unit held, which only re-averaging uses.  A delivery settlement
  closes the whole position at the amount the venue reports.
\<close>

theorem average_cost_step:
  assumes "well_formed_position p" and "apply_event p r = Inr s"
  shows "if tr_kind r = ''TRADE'' then trade_step_ok p r s
    else fz_position_after s = FLAT_POSITION \<and> fz_position_before s = p \<and> pnl_identity s
      \<and> fz_realized_pnl s = tr_realized_pnl r \<and> fz_closed_quantity s = \<bar>ap_quantity p\<bar> \<and> ap_quantity p \<noteq> 0 \<and> fz_opened_quantity s = 0"
  using assms(2)
  by (cases rule: apply_event_cases) (simp_all add: apply_fill_ok [OF assms(1)] apply_settlement_close_ok)

definition example_short :: average_cost_position where
  "example_short = \<lparr>ap_quantity = - 1, ap_avg_entry = 5, ap_opened_at = Some 1\<rparr>"

lemma rnd60_scaled: "\<bar>m\<bar> < 10 ^ 60 \<Longrightarrow> x = of_int m * pow10 e \<Longrightarrow> rnd60 x = x"
  by (auto simp: exact60_def intro!: d60.rnd_exact dec_reprI)

lemma rnd60_numeral [simp]: "numeral n < (10::int) ^ 60 \<Longrightarrow> rnd60 (numeral n) = numeral n"
  using rnd60_scaled [of "numeral n" "numeral n" 0] by simp

lemma rnd60_small [simp]: "rnd60 0 = 0" "rnd60 1 = 1" "rnd60 (- x) = - rnd60 x"
  using rnd60_scaled [of 1 1 0] by (simp_all add: d60.rnd_0 d60.rnd_minus)

text \<open>A buy of 2 at 3 flips a short of 1 at 5: profit 2, and 1 long at 3.\<close>

lemma example_flip:
  "apply_event example_short example_trade = Inr
     \<lparr>fz_record_id = ''venue:TRADE:9'', fz_symbol = ''BTCUSDT'', fz_event_time = 5, fz_closed_quantity = 1,
      fz_closed_direction = Some ShortPos, fz_entry_notional_closed = 5, fz_exit_notional_closed = 3, fz_realized_pnl = 2,
      fz_opened_quantity = 1, fz_position_before = example_short,
      fz_position_after = \<lparr>ap_quantity = 1, ap_avg_entry = 3, ap_opened_at = Some 5\<rparr>\<rparr>"
  using example_trade_valid
  by (simp add: apply_event_def apply_fill_def close_fill_def exact_ops exact_value_def example_short_def Let_def)
    (simp add: example_trade_def close_fill_def exact_ops exact_value_def)

theorem average_cost_step_witness:
  "\<exists>s. apply_event example_short example_trade = Inr s \<and> trade_step_ok example_short example_trade s"
proof -
  have "well_formed_position example_short" by (simp add: well_formed_position_def example_short_def)
  from average_cost_step [OF this example_flip] show ?thesis using example_flip by (simp add: example_trade_def)
qed

section \<open>The fold\<close>

lemma fold_events_trail:
  assumes "fold_events rs seen p = Inr out" "well_formed_position p"
  shows "map fz_record_id out = map tr_record_id rs \<and> map fz_event_time out = map tr_event_time rs
    \<and> map fz_position_before out = butlast (p # map fz_position_after out)
    \<and> list_all (\<lambda>s. well_formed_position (fz_position_after s) \<and> pnl_identity s) out"
  using assms
proof (induction rs arbitrary: seen p out)
  case (Cons r rs)
  from Cons.prems(1) obtain s rest where s: "apply_event p r = Inr s"
    and rest: "fold_events rs (tr_record_id r # seen) (fz_position_after s) = Inr rest" and out: "out = s # rest"
    by (auto simp: result_simps split: if_splits)
  have wf: "well_formed_position (fz_position_after s) \<and> pnl_identity s" using Cons.prems(2) s by (rule apply_event_well_formed)
  show ?case using Cons.IH [OF rest] wf apply_event_fields [OF s] by (simp add: out)
qed simp

lemma fold_events_causal:
  assumes "fold_events rs seen p = Inr out" "sorted (map tr_event_time rs)"
  shows "fold_events (filter (\<lambda>r. tr_event_time r \<le> t) rs) seen p = Inr (filter (\<lambda>s. fz_event_time s \<le> t) out)"
  using assms
proof (induction rs arbitrary: seen p out)
  case (Cons r rs)
  from Cons.prems(1) obtain s rest where s: "apply_event p r = Inr s" and seen: "tr_record_id r \<notin> set seen"
    and rest: "fold_events rs (tr_record_id r # seen) (fz_position_after s) = Inr rest" and out: "out = s # rest"
    by (auto simp: result_simps split: if_splits)
  have IH: "fold_events (filter (\<lambda>r. tr_event_time r \<le> t) rs) (tr_record_id r # seen) (fz_position_after s)
      = Inr (filter (\<lambda>s. fz_event_time s \<le> t) rest)"
    using Cons.IH [OF rest] Cons.prems(2) by simp
  show ?case
  proof (cases "tr_event_time r \<le> t")
    case True
    then show ?thesis using IH s seen apply_event_fields [OF s] by (simp add: out)
  next
    case False
    then have "filter (\<lambda>r. tr_event_time r \<le> t) rs = []" using Cons.prems(2) by (auto simp: filter_empty_conv)
    then show ?thesis using False IH apply_event_fields [OF s] by (simp add: out)
  qed
qed simp

lemma sorted_event_times: "sorted (map tr_event_time (sort_key tax_event_sort_key rs))"
proof -
  have "sorted (map fst (map tax_event_sort_key (sort_key tax_event_sort_key rs)))"
    by (rule sorted_map_mono) (auto simp: monotone_on_def less_eq_prod_def)
  then show ?thesis by (simp add: tax_event_sort_key_def comp_def)
qed

lemma fold_symbol_Inr:
  "fold_symbol records initial = Inr out \<longleftrightarrow>
     length (remdups (map tr_symbol (sort_key tax_event_sort_key records))) \<le> 1
     \<and> fold_events (sort_key tax_event_sort_key records) [] initial = Inr out"
  by (simp add: fold_symbol_def Let_def)

lemma one_symbol_filter:
  assumes "length (remdups (map f xs)) \<le> 1" shows "length (remdups (map f (filter P xs))) \<le> 1"
proof -
  have "card (f ` set (filter P xs)) \<le> card (f ` set xs)" by (intro card_mono) auto
  then show ?thesis using assms by (simp add: length_remdups_card_conv)
qed

text \<open>
  The fold is a causal audit trail.  It has one realization per record, in the order of event
  time, venue id and record id; each starts from the position the previous one left, the first from
  the initial one; every position is well formed and every profit is the closed notional
  difference.  Folding only the records up to a time \<open>t\<close> gives exactly the realizations up to
  \<open>t\<close>: no later record changes an earlier one.
\<close>

theorem fold_symbol_causal_trail:
  assumes "well_formed_position initial" and "fold_symbol records initial = Inr out"
  shows "map fz_record_id out = map tr_record_id (sort_key tax_event_sort_key records)
    \<and> map fz_position_before out = butlast (initial # map fz_position_after out)
    \<and> list_all (\<lambda>s. well_formed_position (fz_position_after s) \<and> pnl_identity s) out
    \<and> fold_symbol (filter (\<lambda>r. tr_event_time r \<le> t) records) initial = Inr (filter (\<lambda>s. fz_event_time s \<le> t) out)"
proof -
  from assms(2) have out: "fold_events (sort_key tax_event_sort_key records) [] initial = Inr out"
    and one: "length (remdups (map tr_symbol (sort_key tax_event_sort_key records))) \<le> 1" by (simp_all add: fold_symbol_Inr)
  have "fold_symbol (filter (\<lambda>r. tr_event_time r \<le> t) records) initial = Inr (filter (\<lambda>s. fz_event_time s \<le> t) out)"
    using fold_events_causal [OF out sorted_event_times] one_symbol_filter [OF one]
    by (simp add: fold_symbol_Inr filter_sort [symmetric])
  then show ?thesis using fold_events_trail [OF out assms(1)] by blast
qed

theorem fold_symbol_causal_trail_witness:
  "\<exists>s. fold_symbol [example_trade] example_short = Inr [s]
     \<and> fold_symbol (filter (\<lambda>r. tr_event_time r \<le> 4) [example_trade]) example_short = Inr (filter (\<lambda>s. fz_event_time s \<le> 4) [s])"
proof -
  have wf: "well_formed_position example_short" by (simp add: well_formed_position_def example_short_def)
  have "\<exists>s. fold_symbol [example_trade] example_short = Inr [s]"
    by (simp add: fold_symbol_def example_flip)
  then obtain s where s: "fold_symbol [example_trade] example_short = Inr [s]" by blast
  from fold_symbol_causal_trail [OF wf s, of 4] s show ?thesis by blast
qed

text \<open>
  The order of the input is irrelevant.  Two lists of the same records, with distinct record
  ids, fold to the same result, errors included.
\<close>

theorem fold_symbol_order_irrelevant:
  assumes "mset records = mset records'" and "distinct (map tr_record_id records)"
  shows "fold_symbol records initial = fold_symbol records' initial"
proof -
  have "inj_on tax_event_sort_key (set records)"
    using assms(2) by (auto simp: inj_on_def distinct_map tax_event_sort_key_def)
  then have "sort_key tax_event_sort_key records = sort_key tax_event_sort_key records'"
    using assms(1) by (intro sort_key_inj_key_eq) simp_all
  then show ?thesis by (simp add: fold_symbol_def)
qed

theorem fold_symbol_order_irrelevant_witness:
  "fold_symbol [example_trade, example_trade\<lparr>tr_record_id := ''b'', tr_event_time := 2\<rparr>] FLAT_POSITION
     = fold_symbol [example_trade\<lparr>tr_record_id := ''b'', tr_event_time := 2\<rparr>, example_trade] FLAT_POSITION"
  by (rule fold_symbol_order_irrelevant) (simp_all add: example_trade_def)

end
