(* ===== verification/Log_Consumer.thy ===== *)
theory Log_Consumer
  imports Prelude
begin

text \<open>
  The contract between an append-only log whose entries carry consecutive sequence numbers and a
  consumer that keeps a watermark: what the consumer holds is the fold of the log up to its
  watermark, and offering it entries again changes nothing.  \<open>src/live/ledger.py\<close> consumes the
  fills of the order journal in this way.
\<close>

locale log_consumer =
  fixes seq :: "'x \<Rightarrow> int"
    and step :: "'x \<Rightarrow> 'v \<Rightarrow> 'v"
    and view :: "'s \<Rightarrow> 'v"
    and mark :: "'s \<Rightarrow> int"
    and consume :: "'s \<Rightarrow> 'x list \<Rightarrow> 's res"
  assumes consume_idle: "filter (\<lambda>x. mark s < seq x) xs = [] \<Longrightarrow> consume s xs = Inr s"
    and consume_seqs: "consume s xs = Inr t \<Longrightarrow> filter (\<lambda>x. mark s < seq x) xs \<noteq> [] \<Longrightarrow>
        map seq (sort_key seq (filter (\<lambda>x. mark s < seq x) xs)) = [mark s + 1..mark t]"
    and consume_view: "consume s xs = Inr t \<Longrightarrow>
        view t = fold step (sort_key seq (filter (\<lambda>x. mark s < seq x) xs)) (view s)"
begin

lemma consume_bound:
  assumes "consume s xs = Inr t" shows "mark s \<le> mark t" "x \<in> set xs \<Longrightarrow> seq x \<le> mark t"
proof -
  define p where "p = sort_key seq (filter (\<lambda>x. mark s < seq x) xs)"
  have "mark s \<le> mark t \<and> (x \<in> set xs \<longrightarrow> seq x \<le> mark t)"
  proof (cases "filter (\<lambda>x. mark s < seq x) xs = []")
    case True
    then show ?thesis using consume_idle [OF True] assms by (auto simp: filter_empty_conv not_less)
  next
    case False
    have p: "map seq p = [mark s + 1..mark t]" using consume_seqs [OF assms False] by (simp add: p_def)
    have "p \<noteq> []" using False by (auto simp: p_def simp flip: set_empty)
    then have less: "mark s < mark t" using p by (cases "mark s + 1 \<le> mark t") auto
    have "seq x \<le> mark t" if "x \<in> set xs" "mark s < seq x"
    proof -
      have "seq x \<in> set (map seq p)" using that by (auto simp: p_def)
      then show ?thesis unfolding p by simp
    qed
    with less show ?thesis by force
  qed
  then show "mark s \<le> mark t" "x \<in> set xs \<Longrightarrow> seq x \<le> mark t" by simp_all
qed

text \<open>Offering the same entries again changes nothing.\<close>

lemma consume_idem: "consume s xs = Inr t \<Longrightarrow> consume t xs = Inr t"
  by (intro consume_idle) (auto simp: filter_empty_conv not_less dest: consume_bound(2))

definition tracks :: "'x list \<Rightarrow> 'v \<Rightarrow> 's \<Rightarrow> bool" where
  "tracks log init s \<longleftrightarrow> - 1 \<le> mark s \<and> mark s < int (length log)
     \<and> view s = fold step (take (nat (mark s + 1)) log) init"

lemma tracks_grow: "tracks log init s \<Longrightarrow> tracks (log @ more) init s"
  by (auto simp: tracks_def)

text \<open>Entries of a numbered log with consecutive numbers are a segment of it.\<close>

lemma log_segment:
  assumes log: "map seq log = [0..int (length log) - 1]" and p: "set p \<subseteq> set log" "map seq p = [a..b]"
    and "0 \<le> a" "a \<le> b"
  shows "b < int (length log)" "take (nat (b + 1)) log = take (nat a) log @ p"
proof -
  have seq_nth: "seq (log ! i) = int i" if "i < length log" for i
  proof -
    have "seq (log ! i) = map seq log ! i" using that by simp
    then show ?thesis unfolding log using that by (simp add: nth_upto)
  qed
  have at: "p ! k = log ! (nat a + k) \<and> nat a + k < length log" if "k < length p" for k
  proof -
    have "p ! k \<in> set log" using that p(1) by auto
    then obtain j where j: "j < length log" "p ! k = log ! j" by (metis in_set_conv_nth)
    have "seq (p ! k) = map seq p ! k" using that by simp
    then have "seq (p ! k) = a + int k" unfolding p(2) using that arg_cong [OF p(2), of length] by (simp add: nth_upto)
    then have "j = nat a + k" using seq_nth [OF j(1)] j(2) assms(4) by simp
    with j show ?thesis by simp
  qed
  have len: "length p = nat (b - a + 1)" using arg_cong [OF p(2), of length] by simp
  have "nat a + (length p - 1) = nat b" using len assms(4,5) by arith
  with at [of "length p - 1"] len assms(4,5) show b: "b < int (length log)" by (simp add: nat_less_iff)
  show "take (nat (b + 1)) log = take (nat a) log @ p"
  proof (rule nth_equalityI)
    show "length (take (nat (b + 1)) log) = length (take (nat a) log @ p)" using b len assms(4,5) by simp
    show "take (nat (b + 1)) log ! i = (take (nat a) log @ p) ! i" if "i < length (take (nat (b + 1)) log)" for i
      using that at [of "i - nat a"] len b assms(4,5) by (auto simp: nth_append)
  qed
qed

lemma consume_tracks:
  assumes log: "map seq log = [0..int (length log) - 1]" and sub: "set xs \<subseteq> set log"
    and "tracks log init s" "consume s xs = Inr t"
  shows "tracks log init t"
proof (cases "filter (\<lambda>x. mark s < seq x) xs = []")
  case True
  with consume_idle [OF True] assms show ?thesis by simp
next
  case False
  define p where "p = sort_key seq (filter (\<lambda>x. mark s < seq x) xs)"
  have p: "map seq p = [mark s + 1..mark t]" "set p \<subseteq> set log" "p \<noteq> []"
    using consume_seqs [OF assms(4) False] sub False by (auto simp: p_def simp flip: set_empty)
  have s: "- 1 \<le> mark s" "view s = fold step (take (nat (mark s + 1)) log) init"
    using assms(3) by (simp_all add: tracks_def)
  have "mark s + 1 \<le> mark t" using p(1,3) by (cases "mark s + 1 \<le> mark t") auto
  from log_segment [OF log p(2,1) _ this] s(1)
  have seg: "mark t < int (length log)" "take (nat (mark t + 1)) log = take (nat (mark s + 1)) log @ p" by simp_all
  moreover have "view t = fold step p (view s)" using consume_view [OF assms(4)] by (simp add: p_def)
  ultimately show ?thesis using s \<open>mark s + 1 \<le> mark t\<close> by (simp add: tracks_def)
qed

text \<open>A consumer that has been offered the whole log holds the fold of the whole log.\<close>

lemma consume_all:
  assumes log: "map seq log = [0..int (length log) - 1]" and "set xs = set log"
    and "tracks log init s" "consume s xs = Inr t"
  shows "view t = fold step log init"
proof -
  have t: "tracks log init t" by (rule consume_tracks [OF log _ assms(3,4)]) (simp add: assms(2))
  have "int (length log) - 1 \<le> mark t"
  proof (cases "log = []")
    case True
    with t show ?thesis by (simp add: tracks_def)
  next
    case False
    then have "seq (last log) = last [0..int (length log) - 1]" by (simp flip: log add: last_map)
    also have "\<dots> = int (length log) - 1"
      using False by (subst upto_rec2) (simp_all add: Suc_le_eq)
    finally show ?thesis using consume_bound(2) [OF assms(4), of "last log"] assms(2) False by simp
  qed
  with t show ?thesis by (simp add: tracks_def)
qed

end

end
