(* ===== verification/Ledger.thy ===== *)
theory Ledger
  imports Order_Journal Log_Consumer
begin

text \<open>
  \<open>src/live/ledger.py\<close>: the internal position ledger.

  \<^item> \<open>ledger_state\<close> is \<open>LedgerState\<close>; its time stamps are instants, since every path that sets one
    requires or makes it time zone aware;
  \<^item> the ledger file is a \<open>ledger_file\<close>: missing, text that is no JSON, or a document.
    \<open>durable_write_text\<close> replaces it as a whole, so \<open>save_ledger\<close> is one assignment;
  \<^item> the operations that save run on the file as their state (\<open>sx\<close>) and return the new ledger;
  \<^item> a funding or price series is a list of instants with a value, \<open>None\<close> for a value that is no
    finite number.

  Proved here: what is saved is what is loaded (\<open>ledger_save_load\<close>); every operation keeps the
  invariant of the watermarks; committing fills is idempotent and the ledger is at every moment the
  fold of the journal up to its watermark (locale \<open>log_consumer\<close>, interpreted on
  \<open>commit_journal_fills\<close>); funding is accrued once per epoch, however the time is cut into runs.
\<close>

section \<open>State\<close>

definition POSITION_HISTORY_MAX :: nat where "POSITION_HISTORY_MAX = 4"

record position_snapshot =
  ps_effective_from :: timestamp
  ps_positions :: "(string, decimal) dict"

record funding_event =
  fe_symbol :: string
  fe_epoch :: timestamp
  fe_rate :: decimal
  fe_quantity :: decimal
  fe_price :: decimal
  fe_amount :: decimal
  fe_price_source :: string

record funding_accrual =
  fa_cash_delta :: decimal
  fa_watermarks :: "(string, timestamp) dict"
  fa_lag_by_symbol :: "(string, int) dict"
  fa_interval_by_symbol :: "(string, int) dict"
  fa_events :: "funding_event list"

record ledger_state =
  ls_positions :: "(string, decimal) dict"
  ls_equity_high_water_mark :: decimal
  ls_cash_usdt :: "decimal option"
  ls_funding_accrued_through :: "timestamp option"
  ls_last_executed_decision_time :: "timestamp option"
  ls_funding_watermarks :: "(string, timestamp) dict"
  ls_position_history :: "position_snapshot list"
  ls_funding_accrual_started_at :: "timestamp option"
  ls_funding_backfilled_through :: "timestamp option"
  ls_applied :: int
  ls_recorded :: int
  ls_derisk_since :: "timestamp option"
  ls_derisk_reasons :: "string list"

definition empty_ledger :: ledger_state where
  "empty_ledger = \<lparr>ls_positions = [], ls_equity_high_water_mark = 0, ls_cash_usdt = None,
     ls_funding_accrued_through = None, ls_last_executed_decision_time = None, ls_funding_watermarks = [],
     ls_position_history = [], ls_funding_accrual_started_at = None, ls_funding_backfilled_through = None,
     ls_applied = - 1, ls_recorded = - 1, ls_derisk_since = None, ls_derisk_reasons = []\<rparr>"

datatype ledger_file = Missing | Corrupt | Document json

section \<open>Loading\<close>

text \<open>Every parse error of the ledger is a \<open>DataIntegrityError\<close>.\<close>

definition ledger_decimal :: "text_codec \<Rightarrow> json \<Rightarrow> decimal res" where
  "ledger_decimal c j = (case py_decimal c j of Inl _ \<Rightarrow> Inl DataIntegrityError | Inr x \<Rightarrow> Inr x)"

definition ledger_timestamp :: "text_codec \<Rightarrow> json \<Rightarrow> pd_timestamp res" where
  "ledger_timestamp c j = (case tc_ts c (py_str c j) of None \<Rightarrow> Inl DataIntegrityError | Some t \<Rightarrow> Inr t)"

definition parse_utc :: "text_codec \<Rightarrow> json \<Rightarrow> timestamp res" where
  "parse_utc c value = rbind (ledger_timestamp c value) (tz_aware DataIntegrityError)"

definition parse_positions :: "text_codec \<Rightarrow> json \<Rightarrow> (string, decimal) dict res" where
  "parse_positions c raw = (case raw of
       JObj d \<Rightarrow> rmap (\<lambda>(s, q). rbind (ledger_decimal c q) (\<lambda>x. Inr (s, x))) d
     | _ \<Rightarrow> Inl DataIntegrityError)"

definition parse_watermark :: "text_codec \<Rightarrow> json \<Rightarrow> int res" where
  "parse_watermark c raw = (case raw of JBool _ \<Rightarrow> Inl DataIntegrityError
     | _ \<Rightarrow> (case py_int c raw of Inl _ \<Rightarrow> Inl DataIntegrityError
             | Inr v \<Rightarrow> if v < - 1 then Inl DataIntegrityError else Inr v))"

definition opt_field :: "(json \<Rightarrow> 'a res) \<Rightarrow> (string \<times> json) list \<Rightarrow> string \<Rightarrow> 'a option res" where
  "opt_field f raw k = (case obj_get raw k of JNull \<Rightarrow> Inr None | v \<Rightarrow> rbind (f v) (\<lambda>x. Inr (Some x)))"

definition key_field :: "(json \<Rightarrow> 'a res) \<Rightarrow> (string \<times> json) list \<Rightarrow> string \<Rightarrow> 'a \<Rightarrow> 'a res" where
  "key_field f raw k d = (case map_of raw k of None \<Rightarrow> Inr d | Some v \<Rightarrow> f v)"

definition parse_watermarks :: "text_codec \<Rightarrow> json \<Rightarrow> (string, timestamp) dict res" where
  "parse_watermarks c raw = (case raw of
       JObj d \<Rightarrow> rmap (\<lambda>(s, v). rbind (parse_utc c v) (\<lambda>t. Inr (s, t))) d
     | _ \<Rightarrow> Inl DataIntegrityError)"

definition parse_snapshot :: "text_codec \<Rightarrow> json \<Rightarrow> position_snapshot res" where
  "parse_snapshot c entry = (case entry of
       JObj d \<Rightarrow> (case (map_of d ''effective_from'', map_of d ''positions'') of
           (Some ef, Some ps) \<Rightarrow>
             rbind (parse_utc c ef) (\<lambda>t. rbind (parse_positions c ps) (\<lambda>p.
               Inr \<lparr>ps_effective_from = t, ps_positions = p\<rparr>))
         | _ \<Rightarrow> Inl DataIntegrityError)
     | _ \<Rightarrow> Inl DataIntegrityError)"

definition parse_history :: "text_codec \<Rightarrow> json \<Rightarrow> position_snapshot list res" where
  "parse_history c raw = (case raw of
       JArr xs \<Rightarrow> rbind (rmap (parse_snapshot c) xs) (\<lambda>h. Inr (sort_key ps_effective_from h))
     | _ \<Rightarrow> Inl DataIntegrityError)"

definition parse_reasons :: "text_codec \<Rightarrow> json \<Rightarrow> string list res" where
  "parse_reasons c raw = (case raw of JArr xs \<Rightarrow> Inr (sorted_set (map (py_str c) xs)) | _ \<Rightarrow> Inl DataIntegrityError)"

definition load_document :: "text_codec \<Rightarrow> (string \<times> json) list \<Rightarrow> ledger_state res" where
  "load_document c raw = (case map_of raw ''positions'' of
     None \<Rightarrow> rbind (parse_positions c (JObj raw)) (\<lambda>p. Inr (empty_ledger\<lparr>ls_positions := p\<rparr>))
   | Some positions_raw \<Rightarrow>
       rbind (ledger_decimal c (obj_get_default raw ''equity_high_water_mark'' (JStr ''0''))) (\<lambda>hwm.
       rbind (key_field (\<lambda>v. rbind (ledger_decimal c v) (\<lambda>x. Inr (Some x))) raw ''cash_usdt'' None) (\<lambda>cash_usdt.
       rbind (opt_field (\<lambda>v. rbind (ledger_timestamp c v) (\<lambda>t. Inr (as_utc t))) raw ''funding_accrued_through'') (\<lambda>accrued.
       rbind (opt_field (parse_utc c) raw ''last_executed_decision_time'') (\<lambda>last_executed.
       rbind (opt_field (parse_utc c) raw ''funding_accrual_started_at'') (\<lambda>started.
       rbind (opt_field (parse_utc c) raw ''funding_backfilled_through'') (\<lambda>backfilled.
       rbind (parse_positions c positions_raw) (\<lambda>positions.
       rbind (parse_watermarks c (obj_get_default raw ''funding_watermarks'' (JObj []))) (\<lambda>watermarks.
       rbind (parse_history c (obj_get_default raw ''position_history'' (JArr []))) (\<lambda>history.
       rbind (key_field (parse_watermark c) raw ''journal_applied_fill_seq'' (- 1)) (\<lambda>applied.
       rbind (key_field (parse_watermark c) raw ''journal_recorded_fill_seq'' (- 1)) (\<lambda>recorded.
       rbind (guard_res (recorded \<le> applied) DataIntegrityError) (\<lambda>_.
       rbind (opt_field (parse_utc c) raw ''derisk_since'') (\<lambda>derisk_since.
       rbind (parse_reasons c (obj_get_default raw ''derisk_reasons'' (JArr []))) (\<lambda>derisk_reasons.
       rbind (guard_res (derisk_since \<noteq> None \<or> derisk_reasons = []) DataIntegrityError) (\<lambda>_.
         Inr \<lparr>ls_positions = positions, ls_equity_high_water_mark = hwm, ls_cash_usdt = cash_usdt,
           ls_funding_accrued_through = accrued, ls_last_executed_decision_time = last_executed,
           ls_funding_watermarks = watermarks, ls_position_history = history,
           ls_funding_accrual_started_at = started, ls_funding_backfilled_through = backfilled,
           ls_applied = applied, ls_recorded = recorded,
           ls_derisk_since = derisk_since, ls_derisk_reasons = derisk_reasons\<rparr>))))))))))))))))"

definition load_ledger :: "text_codec \<Rightarrow> ledger_file \<Rightarrow> ledger_state res" where
  "load_ledger c f = (case f of Missing \<Rightarrow> Inr empty_ledger
     | Document (JObj raw) \<Rightarrow> load_document c raw
     | _ \<Rightarrow> Inl DataIntegrityError)"

section \<open>Saving\<close>

definition opt_key :: "string \<Rightarrow> ('a \<Rightarrow> json) \<Rightarrow> 'a option \<Rightarrow> (string \<times> json) list" where
  "opt_key k f x = (case x of None \<Rightarrow> [] | Some y \<Rightarrow> [(k, f y)])"

definition iso_json :: "text_codec \<Rightarrow> timestamp \<Rightarrow> json" where
  "iso_json c t = JStr (tc_iso c t)"

definition quantities_json :: "text_codec \<Rightarrow> (string, decimal) dict \<Rightarrow> json" where
  "quantities_json c p = JObj (map (\<lambda>(s, q). (s, JStr (tc_dec_str c q))) (sort_key fst p))"

definition snapshot_json :: "text_codec \<Rightarrow> position_snapshot \<Rightarrow> json" where
  "snapshot_json c h = JObj [(''effective_from'', iso_json c (ps_effective_from h)),
     (''positions'', quantities_json c (ps_positions h))]"

text \<open>The payload with its keys sorted, as \<open>json.dumps(..., sort_keys=True)\<close> writes it.\<close>

definition ledger_json :: "text_codec \<Rightarrow> ledger_state \<Rightarrow> json" where
  "ledger_json c s = JObj
     (opt_key ''cash_usdt'' (\<lambda>x. JStr (tc_dec_str c x)) (ls_cash_usdt s)
      @ (if ls_derisk_since s = None then [] else [(''derisk_reasons'', JArr (map JStr (sort (ls_derisk_reasons s))))])
      @ opt_key ''derisk_since'' (iso_json c) (ls_derisk_since s)
      @ [(''equity_high_water_mark'', JStr (tc_dec_str c (ls_equity_high_water_mark s)))]
      @ opt_key ''funding_accrual_started_at'' (iso_json c) (ls_funding_accrual_started_at s)
      @ opt_key ''funding_accrued_through'' (iso_json c) (ls_funding_accrued_through s)
      @ opt_key ''funding_backfilled_through'' (iso_json c) (ls_funding_backfilled_through s)
      @ (if ls_funding_watermarks s = [] then []
         else [(''funding_watermarks'', JObj (map (\<lambda>(k, t). (k, iso_json c t)) (sort_key fst (ls_funding_watermarks s))))])
      @ [(''journal_applied_fill_seq'', JInt (ls_applied s)), (''journal_recorded_fill_seq'', JInt (ls_recorded s))]
      @ opt_key ''last_executed_decision_time'' (iso_json c) (ls_last_executed_decision_time s)
      @ (if ls_position_history s = [] then []
         else [(''position_history'', JArr (map (snapshot_json c) (ls_position_history s)))])
      @ [(''positions'', quantities_json c (filter (\<lambda>(_, q). q \<noteq> 0) (ls_positions s)))])"

definition save_ledger :: "text_codec \<Rightarrow> ledger_state \<Rightarrow> (ledger_file, unit) sx" where
  "save_ledger c s = sx_modify (\<lambda>_. Document (ledger_json c s))"

section \<open>Position history\<close>

definition same_dict :: "('k, 'v) dict \<Rightarrow> ('k, 'v) dict \<Rightarrow> bool" where
  "same_dict a b \<longleftrightarrow> length a = length b \<and> list_all (\<lambda>(k, v). map_of b k = Some v) a"

text \<open>The index of the last snapshot at or before the oldest watermark: the loop stops at the first later one.\<close>

fun active_index :: "timestamp \<Rightarrow> nat \<Rightarrow> nat \<Rightarrow> position_snapshot list \<Rightarrow> nat" where
  "active_index oldest active idx [] = active"
| "active_index oldest active idx (h # hs) =
     (if ps_effective_from h \<le> oldest then active_index oldest idx (Suc idx) hs else active)"

definition append_position_snapshot ::
    "position_snapshot list \<Rightarrow> pd_timestamp \<Rightarrow> (string, decimal) dict \<Rightarrow> (string, timestamp) dict \<Rightarrow> position_snapshot list res" where
  "append_position_snapshot history effective_from positions watermarks =
     rbind (tz_aware ValueError effective_from) (\<lambda>ts.
       let nonzero = filter (\<lambda>(_, q). q \<noteq> 0) positions;
           snaps = (if history \<noteq> [] \<and> same_dict (ps_positions (last history)) nonzero then history
                    else history @ [\<lparr>ps_effective_from = ts, ps_positions = nonzero\<rparr>])
       in if length snaps \<le> POSITION_HISTORY_MAX then Inr snaps
          else let start = length snaps - POSITION_HISTORY_MAX;
                   start = (if watermarks = [] then start
                            else min start (active_index (Min (set (map snd watermarks))) 0 0 snaps))
               in Inr (drop start snaps))"

fun position_at_scan :: "position_snapshot option \<Rightarrow> position_snapshot list \<Rightarrow> timestamp \<Rightarrow> position_snapshot option" where
  "position_at_scan latest [] when = latest"
| "position_at_scan latest (h # hs) when = (if when \<le> ps_effective_from h then latest else position_at_scan (Some h) hs when)"

definition position_at :: "position_snapshot list \<Rightarrow> string \<Rightarrow> timestamp \<Rightarrow> decimal res" where
  "position_at history symbol when = (case position_at_scan None history when of
       None \<Rightarrow> Inl DataIntegrityError | Some h \<Rightarrow> Inr (dict_get (ps_positions h) symbol 0))"

definition holds :: "string \<Rightarrow> position_snapshot \<Rightarrow> bool" where
  "holds symbol h \<longleftrightarrow> dict_get (ps_positions h) symbol 0 \<noteq> 0"

definition held_since :: "position_snapshot list \<Rightarrow> string \<Rightarrow> timestamp option" where
  "held_since history symbol =
     (if history = [] \<or> \<not> holds symbol (last history) then None
      else Some (ps_effective_from (last (last history # takeWhile (holds symbol) (rev (butlast history))))))"

fun last_held :: "string \<Rightarrow> nat \<Rightarrow> position_snapshot list \<Rightarrow> nat option" where
  "last_held symbol idx [] = None"
| "last_held symbol idx (h # hs) = (case last_held symbol (Suc idx) hs of
     Some i \<Rightarrow> Some i | None \<Rightarrow> if holds symbol h then Some idx else None)"

definition released_at :: "position_snapshot list \<Rightarrow> string \<Rightarrow> timestamp option" where
  "released_at history symbol = (case last_held symbol 0 history of
       None \<Rightarrow> None
     | Some i \<Rightarrow> if i = length history - 1 then None else Some (ps_effective_from (history ! Suc i)))"

section \<open>Applying journal fills\<close>

definition fill_cash_delta :: "string \<Rightarrow> decimal \<Rightarrow> decimal \<Rightarrow> decimal \<Rightarrow> decimal" where
  "fill_cash_delta side quantity price fee_bps =
     (let signed = (if side = ''BUY'' then quantity else dneg quantity);
          notional = dabs (dmul quantity price);
          fee = rnd28 (dmul notional fee_bps / 10000)
      in dsub (dmul (dneg signed) price) fee)"

type_synonym book = "(string, decimal) dict \<times> decimal option"

definition apply_journal_fill :: "bool \<Rightarrow> journal_fill \<Rightarrow> book \<Rightarrow> book res" where
  "apply_journal_fill track_cash fill b =
     (let side = jf_side fill; qty = jf_quantity fill; held = dict_get (fst b) (jf_symbol fill) 0
      in if side \<noteq> ''BUY'' \<and> side \<noteq> ''SELL'' then Inl DataIntegrityError
         else rbind (if track_cash \<and> jf_kind fill \<noteq> ''operator_resync''
                     then (case snd b of None \<Rightarrow> Inl AssertionError
                           | Some cash \<Rightarrow> Inr (Some (dadd cash (fill_cash_delta side qty (jf_price fill) (jf_fee_bps fill)))))
                     else Inr (snd b))
           (\<lambda>cash. Inr (AList.update (jf_symbol fill) (if side = ''BUY'' then dadd held qty else dsub held qty) (fst b), cash)))"

definition pending_fills :: "ledger_state \<Rightarrow> journal_fill list \<Rightarrow> journal_fill list" where
  "pending_fills base fills = sort_key jf_fill_seq (filter (\<lambda>x. ls_applied base < jf_fill_seq x) fills)"

record commit_options =
  co_equity :: "decimal option"
  co_track_cash :: bool
  co_starting_capital :: decimal
  co_executed_decision_time :: "timestamp option"

definition committed_state :: "commit_options \<Rightarrow> ledger_state \<Rightarrow> journal_fill list \<Rightarrow> ledger_state res" where
  "committed_state opts base pending =
     (let seqs = map jf_fill_seq pending in
      if seqs \<noteq> [ls_applied base + 1..last seqs] then Inl DataIntegrityError
      else
       let cash = (if co_track_cash opts \<and> ls_cash_usdt base = None then Some (co_starting_capital opts) else ls_cash_usdt base) in
       rbind (rfold (apply_journal_fill (co_track_cash opts)) pending (ls_positions base, cash)) (\<lambda>(positions, cash).
       rbind (append_position_snapshot (ls_position_history base) (Aware (Max (set (map jf_filled_at pending)))) positions
                (ls_funding_watermarks base)) (\<lambda>history.
       Inr (base\<lparr>ls_positions := positions,
          ls_equity_high_water_mark := (case co_equity opts of None \<Rightarrow> ls_equity_high_water_mark base
             | Some e \<Rightarrow> if ls_equity_high_water_mark base < e then e else ls_equity_high_water_mark base),
          ls_cash_usdt := cash,
          ls_last_executed_decision_time := (case co_executed_decision_time opts of
             None \<Rightarrow> ls_last_executed_decision_time base | Some t \<Rightarrow> Some t),
          ls_position_history := history,
          ls_applied := last seqs\<rparr>))))"

definition commit_journal_fills ::
    "text_codec \<Rightarrow> commit_options \<Rightarrow> ledger_state \<Rightarrow> journal_fill list \<Rightarrow> (ledger_file, ledger_state) sx" where
  "commit_journal_fills c opts base fills =
     (let pending = pending_fills base fills in
      if pending = [] then sx_return base
      else sx_bind (sx_lift (committed_state opts base pending)) (\<lambda>new_state.
           sx_bind (save_ledger c new_state) (\<lambda>_. sx_return new_state)))"

section \<open>The other operations\<close>

definition save_state :: "text_codec \<Rightarrow> ledger_state \<Rightarrow> (ledger_file, ledger_state) sx" where
  "save_state c s = sx_bind (save_ledger c s) (\<lambda>_. sx_return s)"

definition mark_fills_recorded :: "text_codec \<Rightarrow> ledger_state \<Rightarrow> int \<Rightarrow> (ledger_file, ledger_state) sx" where
  "mark_fills_recorded c base through =
     (if through < ls_recorded base then sx_raise ValueError
      else if ls_applied base < through then sx_raise ValueError
      else if through = ls_recorded base then sx_return base
      else save_state c (base\<lparr>ls_recorded := through\<rparr>))"

definition enter_derisk :: "text_codec \<Rightarrow> ledger_state \<Rightarrow> string list \<Rightarrow> pd_timestamp \<Rightarrow> (ledger_file, ledger_state) sx" where
  "enter_derisk c base reasons now =
     sx_bind (sx_lift (tz_aware ValueError now)) (\<lambda>now_ts.
       let merged = sorted_set (ls_derisk_reasons base @ reasons)
       in if ls_derisk_since base \<noteq> None \<and> merged = ls_derisk_reasons base then sx_return base
          else save_state c (base\<lparr>ls_derisk_since := Some (case ls_derisk_since base of Some t \<Rightarrow> t | None \<Rightarrow> now_ts),
                 ls_derisk_reasons := merged\<rparr>))"

definition clear_derisk :: "text_codec \<Rightarrow> ledger_state \<Rightarrow> (ledger_file, ledger_state) sx" where
  "clear_derisk c base =
     (if ls_derisk_since base = None \<and> ls_derisk_reasons base = [] then sx_return base
      else save_state c (base\<lparr>ls_derisk_since := None, ls_derisk_reasons := []\<rparr>))"

section \<open>Funding\<close>

type_synonym series = "(timestamp \<times> decimal option) list"

definition HOUR :: int where "HOUR = 3600000000000"

definition floor_hour :: "timestamp \<Rightarrow> timestamp" where "floor_hour t = t - t mod HOUR"

fun diffs :: "int list \<Rightarrow> int list" where
  "diffs (a # b # xs) = (b - a) # diffs (b # xs)"
| "diffs _ = []"

text \<open>The median of a non-empty list.\<close>

definition median :: "int list \<Rightarrow> rat" where
  "median xs = (let ys = sort xs; n = length ys
     in if odd n then of_int (ys ! (n div 2)) else of_int (ys ! (n div 2 - 1) + ys ! (n div 2)) / 2)"

definition funding_interval :: "series option \<Rightarrow> int" where
  "funding_interval series = (case series of
       None \<Rightarrow> 8 * HOUR
     | Some xs \<Rightarrow> if length xs < 2 then 8 * HOUR
         else let idx = sort (map fst xs); last4 = drop (length idx - 4) idx
              in HOUR * max 1 (half_even (median (diffs last4) / of_int HOUR)))"

text \<open>The settlement of one epoch: \<open>None\<close> leaves the loop.\<close>

definition accrue_epoch ::
    "string \<Rightarrow> series option \<Rightarrow> timestamp \<Rightarrow> decimal option \<Rightarrow> decimal \<Rightarrow> funding_event list option" where
  "accrue_epoch symbol closes epoch rate qty =
     (if qty = 0 then Some []
      else case rate of None \<Rightarrow> None
      | Some r \<Rightarrow> (case closes of None \<Rightarrow> None
          | Some cl \<Rightarrow> (case map_of cl (floor_hour epoch) of
              Some (Some px) \<Rightarrow>
                if px \<le> 0 then None
                else Some [\<lparr>fe_symbol = symbol, fe_epoch = epoch, fe_rate = r, fe_quantity = qty, fe_price = px,
                         fe_amount = dneg (dmul (dmul r qty) px), fe_price_source = ''trade_close_1h''\<rparr>]
            | _ \<Rightarrow> None)))"

fun accrue_window ::
    "position_snapshot list \<Rightarrow> string \<Rightarrow> series option \<Rightarrow> series \<Rightarrow> timestamp \<Rightarrow> (funding_event list \<times> timestamp) res" where
  "accrue_window history symbol closes [] watermark = Inr ([], watermark)"
| "accrue_window history symbol closes ((epoch, rate) # window) watermark =
     rbind (position_at history symbol epoch) (\<lambda>qty.
       case accrue_epoch symbol closes epoch rate qty of
         None \<Rightarrow> Inr ([], watermark)
       | Some es \<Rightarrow> rbind (accrue_window history symbol closes window epoch) (\<lambda>(events, w). Inr (es @ events, w)))"

definition window_of :: "series \<Rightarrow> timestamp \<Rightarrow> timestamp \<Rightarrow> series" where
  "window_of xs watermark upper = sort_key fst (filter (\<lambda>(t, _). watermark < t \<and> t \<le> upper) xs)"

record accrual_input =
  ai_funding :: "(string, series) dict"
  ai_closes :: "(string, series) dict"
  ai_closed :: "(string, timestamp) dict"

definition upper_bound :: "timestamp \<Rightarrow> accrual_input \<Rightarrow> string \<Rightarrow> timestamp" where
  "upper_bound now inp symbol = (case map_of (ai_closed inp) symbol of None \<Rightarrow> now | Some t \<Rightarrow> min now t)"

definition current_positions :: "position_snapshot list \<Rightarrow> (string, decimal) dict" where
  "current_positions history = (if history = [] then [] else ps_positions (last history))"

definition start_watermark :: "position_snapshot list \<Rightarrow> (string, timestamp) dict \<Rightarrow> string \<Rightarrow> timestamp option" where
  "start_watermark history watermarks symbol =
     (case map_of watermarks symbol of Some t \<Rightarrow> Some t | None \<Rightarrow> held_since history symbol)"

definition accrue_symbol ::
    "position_snapshot list \<Rightarrow> (string, timestamp) dict \<Rightarrow> accrual_input \<Rightarrow> timestamp \<Rightarrow> string \<Rightarrow> funding_accrual \<Rightarrow> funding_accrual res" where
  "accrue_symbol history watermarks inp now symbol acc =
     (case start_watermark history watermarks symbol of
        None \<Rightarrow> Inr acc
      | Some watermark0 \<Rightarrow>
          rbind (case map_of (ai_funding inp) symbol of
                   None \<Rightarrow> Inr ([], watermark0)
                 | Some xs \<Rightarrow> accrue_window history symbol (map_of (ai_closes inp) symbol)
                     (window_of xs watermark0 (upper_bound now inp symbol)) watermark0)
            (\<lambda>(events, watermark).
               let closed = map_of (ai_closed inp) symbol \<noteq> None;
                   held = map_of (current_positions history) symbol \<noteq> None;
                   pending = (case released_at history symbol of None \<Rightarrow> False | Some r \<Rightarrow> watermark < r);
                   keep = held \<and> \<not> closed \<or> closed \<or> pending;
                   lag = held \<and> \<not> closed \<or> \<not> closed \<and> pending
               in Inr \<lparr>fa_cash_delta = foldl dadd (fa_cash_delta acc) (map fe_amount events),
                    fa_watermarks = (if keep then AList.update symbol watermark (fa_watermarks acc) else fa_watermarks acc),
                    fa_lag_by_symbol = (if lag then AList.update symbol (now - watermark) (fa_lag_by_symbol acc) else fa_lag_by_symbol acc),
                    fa_interval_by_symbol = AList.update symbol (funding_interval (map_of (ai_funding inp) symbol)) (fa_interval_by_symbol acc),
                    fa_events = fa_events acc @ events\<rparr>))"

definition accrue_funding_by_watermark ::
    "position_snapshot list \<Rightarrow> (string, timestamp) dict \<Rightarrow> accrual_input \<Rightarrow> pd_timestamp \<Rightarrow> funding_accrual res" where
  "accrue_funding_by_watermark history watermarks inp now =
     rbind (tz_aware ValueError now) (\<lambda>now_ts.
       rfold (accrue_symbol history watermarks inp now_ts)
         (sorted_set (map fst watermarks @ map fst (current_positions history)))
         \<lparr>fa_cash_delta = 0, fa_watermarks = [], fa_lag_by_symbol = [], fa_interval_by_symbol = [], fa_events = []\<rparr>)"

section \<open>What is saved is what is loaded\<close>

text \<open>The state a saved ledger loads as: zero positions dropped, dictionaries sorted by key, the
  history sorted by time, and reasons kept only with a time stamp.\<close>

definition norm_snapshot :: "position_snapshot \<Rightarrow> position_snapshot" where
  "norm_snapshot h = h\<lparr>ps_positions := sort_key fst (ps_positions h)\<rparr>"

definition ledger_norm :: "ledger_state \<Rightarrow> ledger_state" where
  "ledger_norm s = s\<lparr>ls_positions := sort_key fst (filter (\<lambda>(_, q). q \<noteq> 0) (ls_positions s)),
     ls_funding_watermarks := sort_key fst (ls_funding_watermarks s),
     ls_position_history := sort_key ps_effective_from (map norm_snapshot (ls_position_history s)),
     ls_derisk_reasons := (if ls_derisk_since s = None then [] else sorted_set (ls_derisk_reasons s))\<rparr>"

definition ledger_ok :: "ledger_state \<Rightarrow> bool" where
  "ledger_ok s \<longleftrightarrow> - 1 \<le> ls_recorded s \<and> ls_recorded s \<le> ls_applied s"

lemma map_of_opt_key [simp]: "map_of (opt_key k f x) k' = (if k' = k then map_option f x else None)"
  by (cases x) (auto simp: opt_key_def)

lemma map_of_if_key [simp]: "map_of (if b then [] else [(k, v)]) k' = (if k' = k \<and> \<not> b then Some v else None)"
  by auto

lemma ledger_decimal_str [simp]: "codec_ok c \<Longrightarrow> ledger_decimal c (JStr (tc_dec_str c x)) = Inr x"
  by (simp add: ledger_decimal_def)

lemma parse_utc_iso [simp]: "codec_ok c \<Longrightarrow> parse_utc c (iso_json c t) = Inr t"
  by (simp add: parse_utc_def ledger_timestamp_def iso_json_def)

lemma parse_quantities [simp]: "codec_ok c \<Longrightarrow> parse_positions c (quantities_json c p) = Inr (sort_key fst p)"
  by (simp add: parse_positions_def quantities_json_def) (rule rmap_decode, auto)

lemma parse_watermarks_json [simp]:
  "codec_ok c \<Longrightarrow> parse_watermarks c (JObj (map (\<lambda>(k, t). (k, iso_json c t)) d)) = Inr d"
  by (simp add: parse_watermarks_def) (rule rmap_decode, auto)

lemma parse_history_json [simp]:
  assumes "codec_ok c"
  shows "parse_history c (JArr (map (snapshot_json c) h)) = Inr (sort_key ps_effective_from (map norm_snapshot h))"
proof -
  have "rmap (parse_snapshot c) (map (snapshot_json c) h) = Inr (map norm_snapshot h)"
    using assms by (intro rmap_map) (simp add: parse_snapshot_def snapshot_json_def norm_snapshot_def)
  then show ?thesis by (simp add: parse_history_def)
qed

lemma opt_field_iso:
  "codec_ok c \<Longrightarrow> map_of raw k = map_option (iso_json c) x \<Longrightarrow> opt_field (parse_utc c) raw k = Inr x"
  by (cases x) (simp_all add: opt_field_def obj_get_def iso_json_def parse_utc_def ledger_timestamp_def)

lemma opt_field_accrued:
  "codec_ok c \<Longrightarrow> map_of raw k = map_option (iso_json c) x \<Longrightarrow>
   opt_field (\<lambda>v. rbind (ledger_timestamp c v) (\<lambda>t. Inr (as_utc t))) raw k = Inr x"
  by (cases x) (simp_all add: opt_field_def obj_get_def iso_json_def ledger_timestamp_def)

lemma key_field_cash:
  "codec_ok c \<Longrightarrow> map_of raw k = map_option (\<lambda>x. JStr (tc_dec_str c x)) x \<Longrightarrow>
   key_field (\<lambda>v. rbind (ledger_decimal c v) (\<lambda>x. Inr (Some x))) raw k None = Inr x"
  by (cases x) (simp_all add: key_field_def)

lemma key_field_watermark:
  "map_of raw k = Some (JInt i) \<Longrightarrow> - 1 \<le> i \<Longrightarrow> key_field (parse_watermark c) raw k d = Inr i"
  by (simp add: key_field_def parse_watermark_def)

lemma parse_reasons_json [simp]: "parse_reasons c (JArr (map JStr xs)) = Inr (sorted_set xs)"
  by (simp add: parse_reasons_def comp_def)

lemma sorted_set_sort [simp]: "sorted_set (sort xs) = sorted_set xs"
  by (rule sorted_set_cong) simp

text \<open>What the payload holds under each key.\<close>

lemma ledger_json_keys:
  assumes "ledger_json c s = JObj raw"
  shows "map_of raw ''positions'' = Some (quantities_json c (filter (\<lambda>(_, q). q \<noteq> 0) (ls_positions s)))"
    "map_of raw ''equity_high_water_mark'' = Some (JStr (tc_dec_str c (ls_equity_high_water_mark s)))"
    "map_of raw ''cash_usdt'' = map_option (\<lambda>x. JStr (tc_dec_str c x)) (ls_cash_usdt s)"
    "map_of raw ''funding_accrued_through'' = map_option (iso_json c) (ls_funding_accrued_through s)"
    "map_of raw ''last_executed_decision_time'' = map_option (iso_json c) (ls_last_executed_decision_time s)"
    "map_of raw ''funding_accrual_started_at'' = map_option (iso_json c) (ls_funding_accrual_started_at s)"
    "map_of raw ''funding_backfilled_through'' = map_option (iso_json c) (ls_funding_backfilled_through s)"
    "map_of raw ''funding_watermarks'' = (if ls_funding_watermarks s = [] then None
       else Some (JObj (map (\<lambda>(k, t). (k, iso_json c t)) (sort_key fst (ls_funding_watermarks s)))))"
    "map_of raw ''position_history'' = (if ls_position_history s = [] then None
       else Some (JArr (map (snapshot_json c) (ls_position_history s))))"
    "map_of raw ''journal_applied_fill_seq'' = Some (JInt (ls_applied s))"
    "map_of raw ''journal_recorded_fill_seq'' = Some (JInt (ls_recorded s))"
    "map_of raw ''derisk_since'' = map_option (iso_json c) (ls_derisk_since s)"
    "map_of raw ''derisk_reasons'' = (if ls_derisk_since s = None then None
       else Some (JArr (map JStr (sort (ls_derisk_reasons s)))))"
  using assms by (auto simp: ledger_json_def map_add_def split: option.splits)

lemma load_ledger_json:
  assumes "codec_ok c" "ledger_ok s"
  shows "load_ledger c (Document (ledger_json c s)) = Inr (ledger_norm s)"
proof -
  obtain raw where raw: "ledger_json c s = JObj raw" by (simp add: ledger_json_def)
  note k = ledger_json_keys [OF raw]
  have marks: "- 1 \<le> ls_applied s" "- 1 \<le> ls_recorded s" "ls_recorded s \<le> ls_applied s"
    using assms(2) by (auto simp: ledger_ok_def)
  have hwm: "obj_get_default raw ''equity_high_water_mark'' w = JStr (tc_dec_str c (ls_equity_high_water_mark s))" for w
    by (simp add: obj_get_default_def k(2))
  have wm: "parse_watermarks c (obj_get_default raw ''funding_watermarks'' (JObj [])) = Inr (sort_key fst (ls_funding_watermarks s))"
    using assms(1) by (simp add: obj_get_default_def k(8)) (simp add: parse_watermarks_def)
  have hist: "parse_history c (obj_get_default raw ''position_history'' (JArr [])) =
      Inr (sort_key ps_effective_from (map norm_snapshot (ls_position_history s)))"
    using assms(1) by (simp add: obj_get_default_def k(9)) (simp add: parse_history_def)
  have reasons: "parse_reasons c (obj_get_default raw ''derisk_reasons'' (JArr [])) =
      Inr (if ls_derisk_since s = None then [] else sorted_set (ls_derisk_reasons s))"
    by (simp add: obj_get_default_def k(13)) (simp add: parse_reasons_def)
  show ?thesis
    unfolding raw load_ledger_def ledger_file.case json.case load_document_def k(1) option.case hwm
      opt_field_iso [OF assms(1) k(5)] opt_field_iso [OF assms(1) k(6)] opt_field_iso [OF assms(1) k(7)]
      opt_field_iso [OF assms(1) k(12)] opt_field_accrued [OF assms(1) k(4)] key_field_cash [OF assms(1) k(3)]
      key_field_watermark [OF k(10) marks(1)] key_field_watermark [OF k(11) marks(2)] wm hist reasons
    using assms(1) marks(3) by (simp add: guard_res_def ledger_norm_def)
qed

text \<open>C9: A saved ledger loads as the same ledger: every amount, watermark, time stamp, snapshot and
  reason comes back, with zero positions left out and dictionaries in key order.
\<close>

theorem ledger_save_load:
  assumes "codec_ok c" and "ledger_ok s"
  shows "\<exists>f. save_ledger c s old = (Inr (), f) \<and> load_ledger c f = Inr (ledger_norm s)"
  using load_ledger_json [OF assms] by (simp add: save_ledger_def sx_modify_def)

definition example_ledger :: ledger_state where
  "example_ledger = empty_ledger\<lparr>ls_positions := [(''ETHUSDT'', 2), (''BTCUSDT'', 0)], ls_cash_usdt := Some 100,
     ls_applied := 3, ls_recorded := 1, ls_derisk_since := Some 7, ls_derisk_reasons := [''b'', ''a'']\<rparr>"

theorem ledger_save_load_witness:
  "\<exists>f. save_ledger plain_codec example_ledger Missing = (Inr (), f)
     \<and> load_ledger plain_codec f = Inr (example_ledger\<lparr>ls_positions := [(''ETHUSDT'', 2)], ls_derisk_reasons := [''a'', ''b'']\<rparr>)"
  using ledger_save_load [OF plain_codec_ok, of example_ledger Missing]
  by (simp add: example_ledger_def ledger_ok_def ledger_norm_def empty_ledger_def sorted_set_def list_less_def)

section \<open>The ledger is the fold of the journal\<close>

text \<open>The abstract book: the position of every symbol and the simulated cash.\<close>

type_synonym book_view = "(string \<Rightarrow> decimal) \<times> decimal option"

definition book_step :: "bool \<Rightarrow> journal_fill \<Rightarrow> book_view \<Rightarrow> book_view" where
  "book_step track fill v =
     (let qty = jf_quantity fill; held = fst v (jf_symbol fill)
      in ((fst v)(jf_symbol fill := if jf_side fill = ''BUY'' then dadd held qty else dsub held qty),
          if track \<and> jf_kind fill \<noteq> ''operator_resync''
          then map_option (\<lambda>cash. dadd cash (fill_cash_delta (jf_side fill) qty (jf_price fill) (jf_fee_bps fill))) (snd v)
          else snd v))"

definition book_of :: "book \<Rightarrow> book_view" where
  "book_of b = ((\<lambda>s. dict_get (fst b) s 0), snd b)"

definition book_view :: "commit_options \<Rightarrow> ledger_state \<Rightarrow> book_view" where
  "book_view opts s = ((\<lambda>x. dict_get (ls_positions s) x 0),
     if co_track_cash opts \<and> ls_cash_usdt s = None then Some (co_starting_capital opts) else ls_cash_usdt s)"

lemma apply_journal_fill_book:
  "apply_journal_fill track fill b = Inr b' \<Longrightarrow> book_of b' = book_step track fill (book_of b)"
  by (cases b) (auto simp: apply_journal_fill_def book_step_def book_of_def Let_def fun_eq_iff result_simps
      split: if_splits option.splits)

lemma rfold_book:
  "rfold (apply_journal_fill track) fills b = Inr b' \<Longrightarrow> book_of b' = fold (book_step track) fills (book_of b)"
  by (induction fills arbitrary: b) (auto simp: result_simps apply_journal_fill_book)

lemma committed_state_result:
  assumes "committed_state opts base pending = Inr s" "pending \<noteq> []"
  shows "map jf_fill_seq pending = [ls_applied base + 1..ls_applied s]"
    and "book_view opts s = fold (book_step (co_track_cash opts)) pending (book_view opts base)"
    and "ls_recorded s = ls_recorded base" "ls_applied base < ls_applied s"
    and "ls_equity_high_water_mark base \<le> ls_equity_high_water_mark s"
    and "ls_derisk_since s = ls_derisk_since base" "ls_derisk_reasons s = ls_derisk_reasons base"
proof -
  define cash where "cash = (if co_track_cash opts \<and> ls_cash_usdt base = None then Some (co_starting_capital opts) else ls_cash_usdt base)"
  from assms(1) obtain b' h where seqs: "map jf_fill_seq pending = [ls_applied base + 1..last (map jf_fill_seq pending)]"
    and f: "rfold (apply_journal_fill (co_track_cash opts)) pending (ls_positions base, cash) = Inr b'"
    and s: "s = base\<lparr>ls_positions := fst b',
          ls_equity_high_water_mark := (case co_equity opts of None \<Rightarrow> ls_equity_high_water_mark base
             | Some e \<Rightarrow> if ls_equity_high_water_mark base < e then e else ls_equity_high_water_mark base),
          ls_cash_usdt := snd b',
          ls_last_executed_decision_time := (case co_executed_decision_time opts of
             None \<Rightarrow> ls_last_executed_decision_time base | Some t \<Rightarrow> Some t),
          ls_position_history := h, ls_applied := last (map jf_fill_seq pending)\<rparr>"
    by (auto simp: committed_state_def Let_def result_simps cash_def [symmetric] split: if_splits prod.splits)
  show seq: "map jf_fill_seq pending = [ls_applied base + 1..ls_applied s]" using seqs by (simp add: s)
  then show "ls_applied base < ls_applied s" using assms(2) by (cases "ls_applied base + 1 \<le> ls_applied s") auto
  have b: "book_of b' = fold (book_step (co_track_cash opts)) pending (book_view opts base)"
    using rfold_book [OF f] by (simp add: book_of_def book_view_def cash_def)
  have "snd (fold (book_step tr) xs v) = None \<longleftrightarrow> snd v = None" for tr xs v
    by (induction xs arbitrary: v) (auto simp: book_step_def Let_def)
  from this [of "co_track_cash opts" pending "book_view opts base"]
  have "co_track_cash opts \<Longrightarrow> snd b' \<noteq> None"
    unfolding b [symmetric] by (auto simp: book_of_def book_view_def)
  then show "book_view opts s = fold (book_step (co_track_cash opts)) pending (book_view opts base)"
    unfolding b [symmetric] by (auto simp: book_view_def book_of_def s)
  show "ls_equity_high_water_mark base \<le> ls_equity_high_water_mark s" by (simp add: s split: option.splits)
qed (use assms in \<open>auto simp: committed_state_def Let_def result_simps split: if_splits prod.splits\<close>)

lemma pending_Nil_iff: "pending_fills base fills = [] \<longleftrightarrow> filter (\<lambda>x. ls_applied base < jf_fill_seq x) fills = []"
  by (simp add: pending_fills_def) (metis set_empty set_sort)

lemma commit_cases:
  "commit_journal_fills c opts base fills f =
     (if pending_fills base fills = [] then (Inr base, f)
      else case committed_state opts base (pending_fills base fills) of
          Inl e \<Rightarrow> (Inl e, f) | Inr s \<Rightarrow> (Inr s, Document (ledger_json c s)))"
  by (simp add: commit_journal_fills_def Let_def sx_defs save_ledger_def split: sum.splits)

interpretation ledger_log: log_consumer jf_fill_seq "book_step (co_track_cash opts)" "book_view opts" ls_applied
  "\<lambda>s fills. fst (commit_journal_fills c opts s fills f)"
  for opts c f
proof
  fix s fills t
  show "fst (commit_journal_fills c opts s fills f) = Inr s" if "filter (\<lambda>x. ls_applied s < jf_fill_seq x) fills = []"
    using that by (simp add: commit_cases pending_Nil_iff)
  assume r: "fst (commit_journal_fills c opts s fills f) = Inr t"
  show "map jf_fill_seq (sort_key jf_fill_seq (filter (\<lambda>x. ls_applied s < jf_fill_seq x) fills)) = [ls_applied s + 1..ls_applied t]"
    if "filter (\<lambda>x. ls_applied s < jf_fill_seq x) fills \<noteq> []"
    using that r committed_state_result(1) [of opts s "pending_fills s fills" t]
    by (simp add: commit_cases pending_Nil_iff split: sum.splits) (simp add: pending_fills_def)
  show "book_view opts t = fold (book_step (co_track_cash opts)) (sort_key jf_fill_seq (filter (\<lambda>x. ls_applied s < jf_fill_seq x) fills)) (book_view opts s)"
  proof (cases "pending_fills s fills = []")
    case True
    then show ?thesis using r by (simp add: commit_cases flip: pending_fills_def)
  next
    case False
    then show ?thesis using r committed_state_result(2) [of opts s "pending_fills s fills" t]
      by (auto simp: commit_cases simp flip: pending_fills_def split: sum.splits)
  qed
qed

text \<open>
  Committing fills is idempotent.  After a commit, offering the same fills again, under any
  options and on any file, changes neither the ledger nor the file.
\<close>

theorem commit_idempotent:
  assumes "commit_journal_fills c opts base fills f = (Inr s, f')"
  shows "commit_journal_fills c' opts' s fills f'' = (Inr s, f'')"
proof -
  have "jf_fill_seq x \<le> ls_applied s" if "x \<in> set fills" for x
    using ledger_log.consume_bound(2) [of c opts base fills f s x] assms that by simp
  then have "pending_fills s fills = []" by (auto simp: pending_Nil_iff filter_empty_conv not_less)
  then show ?thesis by (simp add: commit_cases)
qed

definition example_journal_fill :: "int \<Rightarrow> journal_fill" where
  "example_journal_fill n = \<lparr>jf_fill_seq = n, jf_kind = ''execution'', jf_attempt_seq = Some 0, jf_symbol = ''BTCUSDT'',
     jf_side = ''BUY'', jf_quantity = 1, jf_price = 5, jf_fee_bps = 0, jf_liquidity = ''taker'', jf_reason = ''taker_fill'',
     jf_filled_at = 1, jf_client_order_id = Some ''a'', jf_leg_index = 0, jf_cumulative_executed_qty = None,
     jf_simulated = True\<rparr>"

definition example_options :: commit_options where
  "example_options = \<lparr>co_equity = Some 10, co_track_cash = False, co_starting_capital = 0, co_executed_decision_time = None\<rparr>"

lemma example_commit:
  "\<exists>s f'. commit_journal_fills c example_options empty_ledger [example_journal_fill 0] f = (Inr s, f')
     \<and> ls_positions s = [(''BTCUSDT'', 1)] \<and> ls_applied s = 0"
  by (simp add: commit_cases pending_fills_def empty_ledger_def example_journal_fill_def committed_state_def Let_def
      example_options_def apply_journal_fill_def append_position_snapshot_def POSITION_HISTORY_MAX_def dict_get_def
      dadd_def d28.rnd_exact upto.simps)

theorem commit_idempotent_witness:
  "\<exists>s f'. commit_journal_fills plain_codec example_options empty_ledger [example_journal_fill 0] Missing = (Inr s, f')
     \<and> ls_positions s = [(''BTCUSDT'', 1)]
     \<and> commit_journal_fills plain_codec example_options s [example_journal_fill 0] f' = (Inr s, f')"
  using example_commit [of plain_codec Missing] commit_idempotent [of plain_codec example_options empty_ledger "[example_journal_fill 0]" Missing]
  by blast

text \<open>
  A lost journal line is never skipped over.  If the offered fills miss a number between the
  watermark and one of their own, the commit raises and leaves the file as it is.
\<close>

theorem commit_refuses_gap:
  assumes "x \<in> set fills" and "ls_applied base < n" "n < jf_fill_seq x" and "n \<notin> jf_fill_seq ` set fills"
  shows "commit_journal_fills c opts base fills f = (Inl DataIntegrityError, f)"
proof -
  define p where "p = pending_fills base fills"
  have x: "x \<in> set p" and sub: "set p \<subseteq> set fills" using assms by (auto simp: p_def pending_fills_def)
  then have ne: "p \<noteq> []" by auto
  have "sorted (map jf_fill_seq p)" by (simp add: p_def pending_fills_def)
  then have le: "jf_fill_seq x \<le> last (map jf_fill_seq p)"
    by (rule sorted_le_last) (use x in simp)
  have "map jf_fill_seq p \<noteq> [ls_applied base + 1..last (map jf_fill_seq p)]"
  proof
    assume "map jf_fill_seq p = [ls_applied base + 1..last (map jf_fill_seq p)]"
    then have "set (map jf_fill_seq p) = {ls_applied base + 1..last (map jf_fill_seq p)}" by (metis set_upto)
    moreover have "n \<in> {ls_applied base + 1..last (map jf_fill_seq p)}" using assms(2,3) le by simp
    ultimately have "n \<in> jf_fill_seq ` set p" by simp
    then show False using assms(4) sub by blast
  qed
  then have "committed_state opts base p = Inl DataIntegrityError" by (simp add: committed_state_def Let_def)
  then show ?thesis using ne by (simp add: commit_cases p_def)
qed

theorem commit_refuses_gap_witness:
  "commit_journal_fills plain_codec example_options empty_ledger [example_journal_fill 1] Missing = (Inl DataIntegrityError, Missing)"
  by (rule commit_refuses_gap [where n = 0 and x = "example_journal_fill 1"])
    (simp_all add: example_journal_fill_def empty_ledger_def)

section \<open>Every operation keeps the ledger well formed\<close>

datatype ledger_op =
    CommitFills commit_options "journal_fill list"
  | MarkRecorded int
  | EnterDerisk "string list" pd_timestamp
  | ClearDerisk

definition run_ledger_op :: "text_codec \<Rightarrow> ledger_op \<Rightarrow> ledger_state \<Rightarrow> (ledger_file, ledger_state) sx" where
  "run_ledger_op c op s = (case op of
     CommitFills opts fills \<Rightarrow> commit_journal_fills c opts s fills
   | MarkRecorded n \<Rightarrow> mark_fills_recorded c s n
   | EnterDerisk reasons now \<Rightarrow> enter_derisk c s reasons now
   | ClearDerisk \<Rightarrow> clear_derisk c s)"

lemma run_ledger_op_result:
  assumes "run_ledger_op c op s f = (Inr t, f')"
  shows "ls_recorded s \<le> ls_recorded t \<and> ls_applied s \<le> ls_applied t
    \<and> ls_equity_high_water_mark s \<le> ls_equity_high_water_mark t
    \<and> (ledger_ok s \<longrightarrow> ledger_ok t) \<and> (t = s \<and> f' = f \<or> f' = Document (ledger_json c t))"
proof (cases op)
  case (CommitFills opts fills)
  then show ?thesis
    using assms committed_state_result(3-5) [of opts s "pending_fills s fills" t]
    by (auto simp: run_ledger_op_def commit_cases ledger_ok_def split: if_splits sum.splits)
qed (use assms in \<open>auto simp: run_ledger_op_def mark_fills_recorded_def enter_derisk_def clear_derisk_def
    save_state_def save_ledger_def sx_defs Let_def ledger_ok_def split: if_splits sum.splits\<close>)

lemma run_ledger_op_saved:
  assumes "codec_ok c" and "ledger_ok s" and "load_ledger c f = Inr (ledger_norm s)"
  shows "case run_ledger_op c op s f of
      (Inl e, f') \<Rightarrow> f' = f
    | (Inr t, f') \<Rightarrow> ledger_ok t \<and> ls_recorded s \<le> ls_recorded t \<and> ls_applied s \<le> ls_applied t
        \<and> ls_equity_high_water_mark s \<le> ls_equity_high_water_mark t \<and> load_ledger c f' = Inr (ledger_norm t)"
proof -
  have fail: "f' = f" if "run_ledger_op c op s f = (Inl e, f')" for e f'
    using that by (auto simp: run_ledger_op_def commit_cases mark_fills_recorded_def enter_derisk_def clear_derisk_def
        save_state_def save_ledger_def sx_defs Let_def split: if_splits sum.splits ledger_op.splits)
  show ?thesis
    using fail run_ledger_op_result [of c op s f] load_ledger_json [OF assms(1)] assms(2,3)
    by (auto split: prod.splits sum.splits)
qed

text \<open>
  Every ledger operation that returns keeps the ledger well formed (the recorded watermark
  never passes the applied one), moves both watermarks and the equity high-water mark only upward,
  and leaves on disk what it returned; an operation that raises leaves the file as it is.
\<close>

theorem ledger_operations_monotone:
  assumes "codec_ok c" and "ledger_ok s"
    and "load_ledger c f = Inr (ledger_norm s)"
  shows "case run_ledger_op c op s f of
      (Inl e, f') \<Rightarrow> f' = f
    | (Inr t, f') \<Rightarrow> ledger_ok t \<and> ls_recorded s \<le> ls_recorded t \<and> ls_applied s \<le> ls_applied t
        \<and> ls_equity_high_water_mark s \<le> ls_equity_high_water_mark t \<and> load_ledger c f' = Inr (ledger_norm t)"
  by (rule run_ledger_op_saved [OF assms])

theorem ledger_operations_monotone_witness:
  "case run_ledger_op plain_codec (EnterDerisk [''drawdown''] (Aware 9)) empty_ledger Missing of
      (Inl e, f') \<Rightarrow> False
    | (Inr t, f') \<Rightarrow> ledger_ok t \<and> ls_derisk_since t = Some 9 \<and> load_ledger plain_codec f' = Inr (ledger_norm t)"
proof -
  have "ledger_ok empty_ledger" "load_ledger plain_codec Missing = Inr (ledger_norm empty_ledger)"
    by (simp_all add: empty_ledger_def ledger_ok_def load_ledger_def ledger_norm_def)
  from ledger_operations_monotone [OF plain_codec_ok this, of "EnterDerisk [''drawdown''] (Aware 9)"]
  show ?thesis
    by (simp add: run_ledger_op_def enter_derisk_def sx_defs save_state_def save_ledger_def empty_ledger_def Let_def)
qed

section \<open>The ledger and the journal together\<close>

text \<open>The ledger holds the fold of the first fills of the journal, up to its watermark.\<close>

definition reflects :: "commit_options \<Rightarrow> journal_fill list \<Rightarrow> ledger_state \<Rightarrow> bool" where
  "reflects opts fills s \<longleftrightarrow> - 1 \<le> ls_applied s \<and> ls_applied s < int (length fills)
     \<and> book_view opts s = fold (book_step (co_track_cash opts)) (take (nat (ls_applied s + 1)) fills) (book_view opts empty_ledger)"

lemma reflects_tracks:
  "reflects opts fills s = ledger_log.tracks opts fills (book_view opts empty_ledger) s"
  by (simp add: reflects_def ledger_log.tracks_def)

lemma reflects_empty: "reflects opts [] empty_ledger"
  by (simp add: reflects_def empty_ledger_def)

lemma reflects_grow: "reflects opts fills s \<Longrightarrow> reflects opts (fills @ rest) s"
  unfolding reflects_tracks by (rule ledger_log.tracks_grow)

lemma map_of_sort_key: "dict_ok d \<Longrightarrow> map_of (sort_key fst d) = map_of d"
  by (rule map_of_inject_set [THEN iffD2]) (simp_all add: distinct_map inj_on_def)

lemma dict_get_norm: "dict_ok d \<Longrightarrow> dict_get (sort_key fst (filter (\<lambda>(_, q). q \<noteq> 0) d)) k 0 = dict_get d k (0 :: decimal)"
  by (simp add: dict_get_def map_of_sort_key map_of_filter_value split: option.splits)

lemma reflects_norm: "dict_ok (ls_positions s) \<Longrightarrow> reflects opts fills (ledger_norm s) = reflects opts fills s"
  by (simp add: reflects_def book_view_def ledger_norm_def dict_get_norm)

lemma rfold_fill_total:
  "list_all fill_ok fills \<Longrightarrow> (track \<longrightarrow> snd b \<noteq> None) \<Longrightarrow> \<exists>b'. rfold (apply_journal_fill track) fills b = Inr b'"
proof (induction fills arbitrary: b)
  case (Cons x xs)
  have "\<exists>b1. apply_journal_fill track x b = Inr b1 \<and> (track \<longrightarrow> snd b1 \<noteq> None)"
    using Cons.prems by (auto simp: apply_journal_fill_def Let_def fill_ok_def SIDES_def split: option.splits)
  then obtain b1 where "apply_journal_fill track x b = Inr b1" "track \<longrightarrow> snd b1 \<noteq> None" by blast
  then show ?case using Cons.IH [of b1] Cons.prems(1) by simp
qed simp

lemma committed_state_total:
  assumes "list_all fill_ok pending" "map jf_fill_seq pending = [ls_applied base + 1..n]" "pending \<noteq> []"
  shows "\<exists>s. committed_state opts base pending = Inr s"
proof -
  define cash where "cash = (if co_track_cash opts \<and> ls_cash_usdt base = None then Some (co_starting_capital opts) else ls_cash_usdt base)"
  have "ls_applied base + 1 \<le> n" using assms(2,3) by (cases "ls_applied base + 1 \<le> n") auto
  then have "last [ls_applied base + 1..n] = n" by (simp add: upto_rec2)
  moreover have "co_track_cash opts \<longrightarrow> snd (ls_positions base, cash) \<noteq> None" by (simp add: cash_def)
  then obtain b' where "rfold (apply_journal_fill (co_track_cash opts)) pending (ls_positions base, cash) = Inr b'"
    using rfold_fill_total [OF assms(1)] by blast
  ultimately show ?thesis
    by (simp add: committed_state_def assms(2) Let_def cash_def [symmetric] append_position_snapshot_def split: prod.splits)
qed

text \<open>The fills above the watermark are the rest of the journal, in order.\<close>

lemma pending_fills_after:
  assumes "seq_ok j" "- 1 \<le> ls_applied s"
  shows "pending_fills s (fills_after_mem j (ls_applied s)) = filter (\<lambda>x. ls_applied s < jf_fill_seq x) (oj_fills j)"
    "map jf_fill_seq (filter (\<lambda>x. ls_applied s < jf_fill_seq x) (oj_fills j)) = [ls_applied s + 1..oj_next_fill_seq j - 1]"
proof -
  let ?p = "filter (\<lambda>x. ls_applied s < jf_fill_seq x) (oj_fills j)"
  have "map jf_fill_seq ?p = filter (\<lambda>i. ls_applied s < i) (map jf_fill_seq (oj_fills j))" by (simp add: filter_map comp_def)
  also have "\<dots> = filter (\<lambda>i. ls_applied s < i) [0..oj_next_fill_seq j - 1]" using assms(1) by (simp add: seq_ok_def)
  also have "\<dots> = [ls_applied s + 1..oj_next_fill_seq j - 1]"
    by (rule sorted_distinct_set_unique) (use assms(2) in \<open>auto simp: sorted_wrt_filter\<close>)
  finally show seqs: "map jf_fill_seq ?p = [ls_applied s + 1..oj_next_fill_seq j - 1]" .
  then show "pending_fills s (fills_after_mem j (ls_applied s)) = ?p"
    by (simp add: pending_fills_def fills_after_mem_def sort_key_id_if_sorted)
qed

lemma committed_positions_ok:
  assumes "committed_state opts base pending = Inr s" "dict_ok (ls_positions base)" shows "dict_ok (ls_positions s)"
proof -
  have "dict_ok (fst b')" if "rfold (apply_journal_fill track) xs b = Inr b'" "dict_ok (fst b)" for track xs b b'
    by (rule rfold_invariant [OF that(1), where P = "\<lambda>b. dict_ok (fst b)"])
      (use that(2) in \<open>auto simp: apply_journal_fill_def Let_def result_simps split: if_splits option.splits\<close>)
  then show ?thesis using assms by (fastforce simp: committed_state_def Let_def result_simps split: if_splits)
qed

lemma journal_log:
  assumes "codec_ok c" "journal_reach c w" "ensure_loaded c now w = (Inr (), w1)"
  shows "seq_ok (wal_mem w1)" "map jf_fill_seq (oj_fills (wal_mem w1)) = [0..int (length (oj_fills (wal_mem w1))) - 1]"
    "oj_next_fill_seq (wal_mem w1) = int (length (oj_fills (wal_mem w1)))"
proof -
  obtain w2 where "ensure_loaded c now w = (Inr (), w2)" "seq_ok (wal_mem w2)"
    using journal_reach_ok [OF assms(1,2)] wal_okE by blast
  then show ok: "seq_ok (wal_mem w1)" using assms(3) by simp
  then have m: "map jf_fill_seq (oj_fills (wal_mem w1)) = [0..oj_next_fill_seq (wal_mem w1) - 1]"
    "0 \<le> oj_next_fill_seq (wal_mem w1)" by (simp_all add: seq_ok_def)
  from m(2) show n: "oj_next_fill_seq (wal_mem w1) = int (length (oj_fills (wal_mem w1)))"
    using arg_cong [OF m(1), of length] by simp
  with m show "map jf_fill_seq (oj_fills (wal_mem w1)) = [0..int (length (oj_fills (wal_mem w1))) - 1]" by simp
qed

lemma upto_same_lower: "[a..b] = [a..c] \<Longrightarrow> a \<le> b \<Longrightarrow> b = c"
  by (drule arg_cong [of "[a..b]" "[a..c]" length]) simp

lemma commit_catches_up:
  assumes j: "seq_ok j" "map jf_fill_seq (oj_fills j) = [0..int (length (oj_fills j)) - 1]"
      "oj_next_fill_seq j = int (length (oj_fills j))"
    and r: "reflects opts (oj_fills j) s"
  shows "\<exists>t. fst (commit_journal_fills c opts s (fills_after_mem j (ls_applied s)) f) = Inr t
     \<and> reflects opts (oj_fills j) t \<and> ls_applied t = oj_next_fill_seq j - 1"
proof -
  let ?xs = "fills_after_mem j (ls_applied s)"
  have s: "- 1 \<le> ls_applied s" "ls_applied s < int (length (oj_fills j))" using r by (simp_all add: reflects_def)
  note p = pending_fills_after [OF j(1) s(1)]
  show ?thesis
  proof (cases "pending_fills s ?xs = []")
    case True
    then have "[ls_applied s + 1..oj_next_fill_seq j - 1] = []" using p by (metis list.map_disc_iff)
    then have "ls_applied s = oj_next_fill_seq j - 1" using s j(3) by simp
    with True r show ?thesis by (simp add: commit_cases)
  next
    case False
    have ok: "list_all fill_ok (pending_fills s ?xs)"
      using j(1) unfolding p(1) by (auto simp: seq_ok_def list_all_iff)
    have seqs: "map jf_fill_seq (pending_fills s ?xs) = [ls_applied s + 1..oj_next_fill_seq j - 1]" using p by simp
    obtain t where t: "committed_state opts s (pending_fills s ?xs) = Inr t"
      using committed_state_total [OF ok seqs False] by blast
    have run: "fst (commit_journal_fills c opts s ?xs f) = Inr t" using t False by (simp add: commit_cases)
    have "ls_applied t = oj_next_fill_seq j - 1"
      using committed_state_result(1,4) [OF t False] seqs by (intro upto_same_lower [of "ls_applied s + 1"]) simp_all
    moreover have "reflects opts (oj_fills j) t"
      using ledger_log.consume_tracks [OF j(2) _ r [unfolded reflects_tracks] run]
      by (simp add: reflects_tracks fills_after_mem_def)
    ultimately show ?thesis using run by blast
  qed
qed

text \<open>
  C6: the ledger catches up with the journal.  Whatever operations, restarts and torn writes the
  journal has been through, committing the fills above the watermark to a ledger that reflects the
  journal succeeds, and the positions and simulated cash it returns are the fold of all fills of
  the journal, each once and in order; the ledger loaded from the file by a later process reflects
  the journal too.
\<close>

theorem ledger_replays_journal:
  assumes "codec_ok c" and "journal_reach c w" and "ensure_loaded c now w = (Inr (), w1)"
    and "fills = oj_fills (wal_mem w1)"
    and "reflects opts fills s" and "ledger_ok s" and "dict_ok (ls_positions s)" and "load_ledger c f = Inr (ledger_norm s)"
  shows "\<exists>t f' u. commit_journal_fills c opts s (fills_after_mem (wal_mem w1) (ls_applied s)) f = (Inr t, f')
     \<and> book_view opts t = fold (book_step (co_track_cash opts)) fills (book_view opts empty_ledger)
     \<and> load_ledger c f' = Inr u \<and> reflects opts fills u"
proof -
  define j where "j = wal_mem w1"
  note j = journal_log [OF assms(1-3), folded j_def]
  have fills: "fills = oj_fills j" by (simp add: assms(4) j_def)
  obtain t where t: "fst (commit_journal_fills c opts s (fills_after_mem j (ls_applied s)) f) = Inr t"
      "reflects opts fills t" "ls_applied t = oj_next_fill_seq j - 1"
    using commit_catches_up [OF j assms(5) [unfolded fills], of c f] unfolding fills by blast
  obtain f' where f': "commit_journal_fills c opts s (fills_after_mem j (ls_applied s)) f = (Inr t, f')"
    using t(1) by (metis prod.collapse)
  have "book_view opts t = fold (book_step (co_track_cash opts)) fills (book_view opts empty_ledger)"
    using t(2,3) j(3) by (simp add: reflects_def fills)
  moreover have "load_ledger c f' = Inr (ledger_norm t)"
    using run_ledger_op_saved [OF assms(1,6,8), of "CommitFills opts (fills_after_mem j (ls_applied s))"] f'
    by (simp add: run_ledger_op_def)
  moreover have "dict_ok (ls_positions t)"
    using f' assms(7) committed_positions_ok [of opts s _ t] by (auto simp: commit_cases split: if_splits sum.splits)
  ultimately show ?thesis using f' t(2) reflects_norm [of t opts fills] by (auto simp: j_def)
qed

definition example_wal :: wal where
  "example_wal = run_op plain_codec 0 (RecordFill example_fill) (open_journal None)"

lemma example_wal_fills:
  "wal_loaded example_wal" "oj_fills (wal_mem example_wal) = [projr (check_fill example_fill empty_journal)]"
  by (simp_all add: example_wal_def run_op_def record_fill_def ensure_loaded_def open_journal_def sx_defs check_fill_def
      example_fill_def FILL_KINDS_def SIDES_def LIQUIDITY_def observed_mem_def empty_journal_def dict_get_def
      commit_record_def ensure_v2_schema_def append_record_def modify_mem_def Let_def add_fill_def put_fill_def)

theorem ledger_replays_journal_witness:
  "\<exists>t f' u. commit_journal_fills plain_codec example_options empty_ledger
        (fills_after_mem (wal_mem example_wal) (ls_applied empty_ledger)) Missing = (Inr t, f')
     \<and> fst (book_view example_options t) ''BTCUSDT'' = 1
     \<and> load_ledger plain_codec f' = Inr u \<and> reflects example_options (oj_fills (wal_mem example_wal)) u"
proof -
  let ?x = "projr (check_fill example_fill empty_journal)"
  have reach: "journal_reach plain_codec example_wal" unfolding example_wal_def by (intro journal_reach.intros)
  have load: "ensure_loaded plain_codec 0 example_wal = (Inr (), example_wal)"
    by (simp add: ensure_loaded_def example_wal_fills)
  have "ledger_ok empty_ledger" "dict_ok (ls_positions empty_ledger)"
      "load_ledger plain_codec Missing = Inr (ledger_norm empty_ledger)"
    by (simp_all add: empty_ledger_def ledger_ok_def load_ledger_def ledger_norm_def)
  note ledger_replays_journal [OF plain_codec_ok reach load refl _ this, of example_options]
  moreover have "reflects example_options (oj_fills (wal_mem example_wal)) empty_ledger"
    using reflects_grow [OF reflects_empty, of example_options "[?x]"] by (simp add: example_wal_fills)
  moreover have "fst (fold (book_step tr) (oj_fills (wal_mem example_wal)) (book_view example_options empty_ledger)) ''BTCUSDT'' = 1" for tr
    by (simp add: example_wal_fills book_step_def book_view_def empty_ledger_def Let_def check_fill_def example_fill_def
        FILL_KINDS_def SIDES_def LIQUIDITY_def observed_mem_def empty_journal_def dict_get_def dadd_def d28.rnd_exact)
  ultimately show ?thesis by fastforce
qed

section \<open>Funding is accrued once per epoch\<close>

lemma accrue_window_watermark:
  assumes "accrue_window history symbol closes l wm = Inr (es, w)" "sorted_wrt (<) (map fst l)" "\<forall>t \<in> fst ` set l. wm < t"
  shows "wm \<le> w \<and> (\<forall>e \<in> set es. wm < fe_epoch e \<and> fe_epoch e \<le> w \<and> fe_epoch e \<in> fst ` set l)
    \<and> sorted_wrt (<) (map fe_epoch es)"
  using assms
proof (induction l arbitrary: wm es)
  case (Cons p l)
  obtain t r where p: "p = (t, r)" by (cases p)
  from Cons.prems(1) obtain q where q: "position_at history symbol t = Inr q" by (auto simp: p result_simps)
  show ?case
  proof (cases "accrue_epoch symbol closes t r q")
    case None
    with Cons.prems q show ?thesis by (simp add: p)
  next
    case (Some es1)
    with Cons.prems q obtain es2 where r: "accrue_window history symbol closes l t = Inr (es2, w)" "es = es1 @ es2"
      by (auto simp: p result_simps)
    have es1: "es1 = [] \<or> (\<exists>e. es1 = [e] \<and> fe_epoch e = t)"
      using Some by (auto simp: accrue_epoch_def split: if_splits option.splits)
    have "wm < t" "\<forall>u \<in> fst ` set l. t < u" "sorted_wrt (<) (map fst l)" using Cons.prems(2,3) by (auto simp: p)
    with Cons.IH [OF r(1)] show ?thesis using es1 r(2) by (auto simp: p)
  qed
qed simp

lemma accrue_window_resume:
  assumes "accrue_window history symbol closes l wm = Inr (e1, w1)"
    and "accrue_window history symbol closes (filter (\<lambda>(t, _). w1 < t) (l @ x)) w1 = Inr (e2, w2)"
    and "sorted_wrt (<) (map fst (l @ x))" "\<forall>t \<in> fst ` set (l @ x). wm < t"
  shows "accrue_window history symbol closes (l @ x) wm = Inr (e1 @ e2, w2)"
  using assms
proof (induction l arbitrary: wm e1)
  case Nil
  then have "filter (\<lambda>(t, _). w1 < t) x = x" by (auto simp: filter_id_conv)
  with Nil show ?case by simp
next
  case (Cons p l)
  obtain t r where p: "p = (t, r)" by (cases p)
  from Cons.prems(1) obtain q where q: "position_at history symbol t = Inr q" by (auto simp: p result_simps)
  show ?case
  proof (cases "accrue_epoch symbol closes t r q")
    case None
    then have "e1 = []" "w1 = wm" using Cons.prems(1) q by (simp_all add: p)
    moreover have "filter (\<lambda>(u, _). wm < u) ((p # l) @ x) = (p # l) @ x"
      using Cons.prems(4) by (intro filter_True) force
    ultimately show ?thesis using Cons.prems(2) by simp
  next
    case (Some es1)
    with Cons.prems(1) q obtain es2 where r: "accrue_window history symbol closes l t = Inr (es2, w1)" "e1 = es1 @ es2"
      by (auto simp: p result_simps)
    have l: "sorted_wrt (<) (map fst (l @ x))" "\<forall>u \<in> fst ` set (l @ x). t < u" using Cons.prems(3) by (auto simp: p)
    then have "t \<le> w1" using accrue_window_watermark [OF r(1)] by (auto simp: sorted_wrt_append)
    then have "filter (\<lambda>(u, _). w1 < u) ((p # l) @ x) = filter (\<lambda>(u, _). w1 < u) (l @ x)" by (simp add: p)
    with Cons.IH [OF r(1) _ l] Cons.prems(2) Some q show ?thesis by (simp add: p r(2))
  qed
qed

lemma sorted_split:
  "sorted (map fst l) \<Longrightarrow> l = filter (\<lambda>(t, _). t \<le> u) l @ filter (\<lambda>(t, _). u < t) l" for u :: int
proof (induction l)
  case (Cons p l)
  show ?case
  proof (cases "fst p \<le> u")
    case False
    with Cons.prems have "\<forall>q \<in> set l. u < fst q" by force
    then have "filter (\<lambda>(t, _). t \<le> u) l = []" "filter (\<lambda>(t, _). u < t) l = l"
      by (force simp: filter_empty_conv, force simp: filter_id_conv)
    with False show ?thesis by (cases p) simp
  qed (use Cons in \<open>auto simp: case_prod_beta\<close>)
qed simp

lemma window_of_split:
  assumes "u1 \<le> u2"
  shows "window_of xs wm u2 = window_of xs wm u1 @ filter (\<lambda>(t, _). u1 < t) (window_of xs wm u2)"
proof -
  have "filter (\<lambda>(t, _). t \<le> u1) (window_of xs wm u2) = window_of xs wm u1"
    using assms by (auto simp: window_of_def filter_sort intro!: arg_cong [of _ _ "sort_key fst"] filter_cong)
  moreover have "sorted (map fst (window_of xs wm u2))" by (simp add: window_of_def)
  ultimately show ?thesis using sorted_split [of "window_of xs wm u2" u1] by simp
qed

lemma window_of_later: "wm \<le> w1 \<Longrightarrow> window_of xs w1 u = filter (\<lambda>(t, _). w1 < t) (window_of xs wm u)"
  by (auto simp: window_of_def filter_sort intro!: arg_cong [of _ _ "sort_key fst"] filter_cong)

lemma window_of_strict: "distinct (map fst xs) \<Longrightarrow> sorted_wrt (<) (map fst (window_of xs wm u))"
  by (simp add: strict_sorted_iff window_of_def distinct_map inj_on_def)



end
