(* ===== verification/Tax_Ledger.thy ===== *)
theory Tax_Ledger
  imports Ledger Tax_Schema "HOL-Library.Product_Lexorder" "HOL-Library.Multiset"
begin

text \<open>
  \<open>src/live/tax_ledger.py\<close>, the files: monthly shards of rows, appended once per record id, and the
  watermark of the collection.

  A shard is a file of lines with an unterminated tail, as for the order journal; the ledger
  directory is a dictionary of shards.  The month of an event time, \<open>strftime('%Y%m')\<close>, and the fixed
  point text of an amount are parameters.  \<open>TaxLedgerCorruptError\<close> is a \<open>DataIntegrityError\<close> here.
\<close>

section \<open>Shards\<close>

type_synonym tax_dir = "(string, journal_file) dict"

definition tax_shard_path :: "(timestamp \<Rightarrow> string) \<Rightarrow> timestamp \<Rightarrow> string" where
  "tax_shard_path month t = ''tax_ledger_'' @ month t @ ''.jsonl''"

definition shard_row :: "file_line \<Rightarrow> (string \<times> json) list option res" where
  "shard_row line = (case line of
     Blank \<Rightarrow> Inr None
   | Garbage \<Rightarrow> Inl DataIntegrityError
   | Text j \<Rightarrow> (case j of JObj row \<Rightarrow> if py_bool (obj_get row ''record_id'') then Inr (Some row) else Inl DataIntegrityError
               | _ \<Rightarrow> Inl DataIntegrityError))"

text \<open>The rows of the complete lines, and whether there is a torn tail.\<close>

definition read_shard_lines :: "journal_file option \<Rightarrow> ((string \<times> json) list list \<times> bool) res" where
  "read_shard_lines f = (case f of
     None \<Rightarrow> Inr ([], False)
   | Some f \<Rightarrow> rbind (rmap shard_row (fl_lines f)) (\<lambda>rows. Inr (List.map_filter (\<lambda>x. x) rows, fl_tail f \<noteq> None)))"

definition row_id :: "text_codec \<Rightarrow> (string \<times> json) list \<Rightarrow> string" where
  "row_id c row = py_str c (obj_get row ''record_id'')"

primrec fresh_rows :: "string list \<Rightarrow> tax_record list \<Rightarrow> tax_record list" where
  "fresh_rows seen [] = []"
| "fresh_rows seen (r # rs) = (if tr_record_id r \<in> set seen then fresh_rows seen rs else r # fresh_rows (tr_record_id r # seen) rs)"

text \<open>Every touched shard is read before anything is decided.\<close>

definition partition_fresh_tax_records ::
    "text_codec \<Rightarrow> (timestamp \<Rightarrow> string) \<Rightarrow> tax_record list \<Rightarrow> tax_dir \<Rightarrow> (string \<times> tax_record list) list res" where
  "partition_fresh_tax_records c month records dir =
     (let path = (\<lambda>r. tax_shard_path month (tr_event_time r)); shards = sorted_set (map path records)
      in rbind (rmap (\<lambda>shard. rbind (read_shard_lines (map_of dir shard)) (\<lambda>(rows, _). Inr (shard, map (row_id c) rows))) shards)
           (\<lambda>existing. Inr (filter (\<lambda>(_, rows). rows \<noteq> [])
              (map (\<lambda>(shard, seen). (shard, fresh_rows seen (filter (\<lambda>r. path r = shard) records))) existing))))"

definition shard_of :: "tax_dir \<Rightarrow> string \<Rightarrow> journal_file" where
  "shard_of dir shard = (case map_of dir shard of None \<Rightarrow> empty_file | Some f \<Rightarrow> f)"

definition truncate_shard :: "string \<Rightarrow> tax_dir \<Rightarrow> tax_dir" where
  "truncate_shard shard dir =
     (if fl_tail (shard_of dir shard) = None then dir else AList.update shard (truncate_durably (shard_of dir shard)) dir)"

definition write_shard :: "text_codec \<Rightarrow> (decimal \<Rightarrow> string) \<Rightarrow> string \<times> tax_record list \<Rightarrow> tax_dir \<Rightarrow> tax_dir" where
  "write_shard c fixed = (\<lambda>(shard, rows) dir.
     AList.update shard (fold (\<lambda>r. write_line (tax_record_to_row c fixed r)) rows (shard_of dir shard)) dir)"

definition append_tax_records ::
    "text_codec \<Rightarrow> (decimal \<Rightarrow> string) \<Rightarrow> (timestamp \<Rightarrow> string) \<Rightarrow> tax_record list \<Rightarrow> (tax_dir, string list) sx" where
  "append_tax_records c fixed month records =
     (if records = [] then sx_return []
      else sx_bind (sx_lift (rmap validate_tax_record records)) (\<lambda>_.
           sx_bind (sx_gets (partition_fresh_tax_records c month records)) (\<lambda>part.
           sx_bind (sx_lift part) (\<lambda>fresh.
           sx_bind (sx_modify (fold (truncate_shard \<circ> fst) fresh)) (\<lambda>_.
           sx_bind (sx_modify (fold (write_shard c fixed) fresh)) (\<lambda>_.
             sx_return (map fst fresh)))))))"

text \<open>Reading back: one record per id; a second row of the same id must say the same.\<close>

definition add_row ::
    "text_codec \<Rightarrow> (decimal \<Rightarrow> string) \<Rightarrow> (string \<times> json) list \<Rightarrow> (string, tax_record) dict \<Rightarrow> (string, tax_record) dict res" where
  "add_row c fixed row seen = rbind (tax_record_from_row c (JObj row)) (\<lambda>record.
     case map_of seen (row_id c row) of
       None \<Rightarrow> Inr (seen @ [(row_id c row, record)])
     | Some earlier \<Rightarrow> if tax_record_to_row c fixed earlier \<noteq> tax_record_to_row c fixed record then Inl DataIntegrityError else Inr seen)"

definition read_shard ::
    "text_codec \<Rightarrow> (decimal \<Rightarrow> string) \<Rightarrow> tax_dir \<Rightarrow> string \<Rightarrow> (string, tax_record) dict \<Rightarrow> (string, tax_record) dict res" where
  "read_shard c fixed dir shard seen = rbind (read_shard_lines (map_of dir shard)) (\<lambda>(rows, _). rfold (add_row c fixed) rows seen)"

definition read_tax_ledger :: "text_codec \<Rightarrow> (decimal \<Rightarrow> string) \<Rightarrow> tax_dir \<Rightarrow> tax_record list res" where
  "read_tax_ledger c fixed dir =
     rbind (rfold (read_shard c fixed dir) (sorted_set (map fst dir)) []) (\<lambda>seen. Inr (sort_key tax_event_sort_key (map snd seen)))"

section \<open>The watermark\<close>

record tax_watermark =
  tw_last_trade_id :: "(string, int) dict"
  tw_last_collected_at :: "timestamp option"
  tw_known_trade_symbols :: "string list"
  tw_income_covered_from :: "timestamp option"
  tw_income_gaps :: "(timestamp \<times> timestamp) list"
  tw_genesis_at :: "timestamp option"
  tw_genesis_positions :: "(string, decimal) dict"

definition empty_watermark :: tax_watermark where
  "empty_watermark = \<lparr>tw_last_trade_id = [], tw_last_collected_at = None, tw_known_trade_symbols = [], tw_income_covered_from = None,
     tw_income_gaps = [], tw_genesis_at = None, tw_genesis_positions = []\<rparr>"

definition watermark_coverage :: "tax_watermark \<Rightarrow> tax_coverage" where
  "watermark_coverage w = \<lparr>tv_genesis_at = tw_genesis_at w, tv_genesis_positions = tw_genesis_positions w,
     tv_income_covered_from = tw_income_covered_from w, tv_collected_through = tw_last_collected_at w, tv_income_gaps = tw_income_gaps w\<rparr>"

definition load_watermark_timestamp :: "text_codec \<Rightarrow> bool \<Rightarrow> json \<Rightarrow> timestamp option res" where
  "load_watermark_timestamp c strict raw = (case raw of
     JNull \<Rightarrow> Inr None
   | JStr s \<Rightarrow> (case tc_ts c s of
       None \<Rightarrow> Inl DataIntegrityError
     | Some (Naive t) \<Rightarrow> if strict then Inl DataIntegrityError else Inr (Some t)
     | Some (Aware t) \<Rightarrow> Inr (Some t))
   | _ \<Rightarrow> Inl DataIntegrityError)"

definition malformed :: "'a res \<Rightarrow> 'a res" where
  "malformed r = (case r of Inr x \<Rightarrow> Inr x
     | Inl e \<Rightarrow> Inl (if e \<in> {ValueError, TypeError, AttributeError} then DataIntegrityError else e))"

text \<open>\<open>dict(x)\<close> of a decoded value: a mapping, or a sequence of pairs.\<close>

definition json_pair :: "json \<Rightarrow> (json \<times> json) res" where
  "json_pair j = rbind (py_iter j) (\<lambda>xs. case xs of
     [k, v] \<Rightarrow> (case k of JArr _ \<Rightarrow> Inl TypeError | JObj _ \<Rightarrow> Inl TypeError | _ \<Rightarrow> Inr (k, v))
   | _ \<Rightarrow> Inl ValueError)"

definition py_dict :: "json \<Rightarrow> (json \<times> json) list res" where
  "py_dict j = (case j of JObj d \<Rightarrow> Inr (map (\<lambda>(k, v). (JStr k, v)) d) | _ \<Rightarrow> rbind (py_iter j) (rmap json_pair))"

definition load_trade_ids :: "text_codec \<Rightarrow> json \<Rightarrow> (string, int) dict res" where
  "load_trade_ids c raw = rbind (py_dict raw) (\<lambda>items.
     rbind (rmap (\<lambda>(k, v). rbind (py_int c v) (\<lambda>i. Inr (py_str c k, i))) items) (\<lambda>ids.
       Inr (fold (\<lambda>(k, i). AList.update k i) ids [])))"

definition load_symbols :: "json \<Rightarrow> string list res" where
  "load_symbols raw = (case raw of
     JArr xs \<Rightarrow> rbind (rmap (\<lambda>x. case x of JStr s \<Rightarrow> if s = [] then Inl DataIntegrityError else Inr s | _ \<Rightarrow> Inl DataIntegrityError) xs)
       (\<lambda>syms. Inr (sorted_set syms))
   | _ \<Rightarrow> Inl DataIntegrityError)"

definition load_gap :: "text_codec \<Rightarrow> json \<Rightarrow> (timestamp \<times> timestamp) res" where
  "load_gap c raw = (case raw of
     JArr [a, b] \<Rightarrow>
       rbind (load_watermark_timestamp c True a) (\<lambda>start. rbind (load_watermark_timestamp c True b) (\<lambda>stop.
         case (start, stop) of
           (Some s, Some e) \<Rightarrow> if e \<le> s then Inl DataIntegrityError else Inr (s, e)
         | _ \<Rightarrow> Inl AssertionError))
   | _ \<Rightarrow> Inl DataIntegrityError)"

definition load_gaps :: "text_codec \<Rightarrow> json \<Rightarrow> (timestamp \<times> timestamp) list res" where
  "load_gaps c raw = (case raw of JArr xs \<Rightarrow> rmap (load_gap c) xs | _ \<Rightarrow> Inl DataIntegrityError)"

text \<open>A JSON fraction is a float here, which \<open>parse_tax_decimal\<close> refuses.\<close>

definition load_genesis :: "text_codec \<Rightarrow> json \<Rightarrow> (string, decimal) dict res" where
  "load_genesis c raw = (case raw of
     JObj d \<Rightarrow> rmap (\<lambda>(s, v). if s = [] \<or> (\<exists>q. v = JFloat q) then Inl DataIntegrityError
         else rbind (parse_tax_decimal c v) (\<lambda>x. if x = 0 then Inl DataIntegrityError else Inr (s, x))) d
   | _ \<Rightarrow> Inl DataIntegrityError)"

definition load_watermark_document :: "text_codec \<Rightarrow> (string \<times> json) list \<Rightarrow> tax_watermark res" where
  "load_watermark_document c d =
     rbind (load_trade_ids c (obj_get_default d ''last_trade_id'' (JObj []))) (\<lambda>ids.
     rbind (load_watermark_timestamp c False (obj_get d ''last_collected_at'')) (\<lambda>collected.
     rbind (load_symbols (obj_get_default d ''known_trade_symbols'' (JArr []))) (\<lambda>known.
     rbind (load_watermark_timestamp c True (obj_get d ''income_covered_from'')) (\<lambda>covered.
     rbind (load_gaps c (obj_get_default d ''income_gaps'' (JArr []))) (\<lambda>gaps.
     rbind (load_watermark_timestamp c True (obj_get d ''genesis_at'')) (\<lambda>genesis_at.
     rbind (load_genesis c (obj_get_default d ''genesis_positions'' (JObj []))) (\<lambda>genesis.
       Inr \<lparr>tw_last_trade_id = ids, tw_last_collected_at = collected, tw_known_trade_symbols = known, tw_income_covered_from = covered,
            tw_income_gaps = gaps, tw_genesis_at = genesis_at, tw_genesis_positions = genesis\<rparr>)))))))"

definition load_tax_watermark :: "text_codec \<Rightarrow> ledger_file \<Rightarrow> tax_watermark res" where
  "load_tax_watermark c f = (case f of
     Missing \<Rightarrow> Inr empty_watermark
   | Corrupt \<Rightarrow> Inl DataIntegrityError
   | Document j \<Rightarrow> (case j of JObj d \<Rightarrow> malformed (load_watermark_document c d) | _ \<Rightarrow> Inl DataIntegrityError))"

definition iso_option :: "text_codec \<Rightarrow> timestamp option \<Rightarrow> json" where
  "iso_option c t = (case t of None \<Rightarrow> JNull | Some t \<Rightarrow> JStr (tc_iso c t))"

text \<open>Written with \<open>sort_keys=True\<close>.\<close>

definition watermark_json :: "text_codec \<Rightarrow> (decimal \<Rightarrow> string) \<Rightarrow> tax_watermark \<Rightarrow> json" where
  "watermark_json c fixed w = JObj
     [(''genesis_at'', iso_option c (tw_genesis_at w)),
      (''genesis_positions'', JObj (map (\<lambda>(s, q). (s, JStr (fixed q))) (sort_key fst (tw_genesis_positions w)))),
      (''income_covered_from'', iso_option c (tw_income_covered_from w)),
      (''income_gaps'', JArr (map (\<lambda>(a, b). JArr [JStr (tc_iso c a), JStr (tc_iso c b)]) (tw_income_gaps w))),
      (''known_trade_symbols'', JArr (map JStr (sort (tw_known_trade_symbols w)))),
      (''last_collected_at'', iso_option c (tw_last_collected_at w)),
      (''last_trade_id'', JObj (map (\<lambda>(s, i). (s, JInt i)) (sort_key fst (tw_last_trade_id w))))]"

definition save_tax_watermark :: "text_codec \<Rightarrow> (decimal \<Rightarrow> string) \<Rightarrow> tax_watermark \<Rightarrow> (ledger_file, unit) sx" where
  "save_tax_watermark c fixed w = sx_modify (\<lambda>_. Document (watermark_json c fixed w))"

section \<open>Gaps\<close>

definition merge_interval :: "timestamp \<times> timestamp \<Rightarrow> (timestamp \<times> timestamp) list \<Rightarrow> (timestamp \<times> timestamp) list" where
  "merge_interval = (\<lambda>(start, stop) merged. case last merged of (a, b) \<Rightarrow>
     if start \<le> b then (if b < stop then butlast merged @ [(a, stop)] else merged) else merged @ [(start, stop)])"

definition merge_income_gaps :: "(timestamp \<times> timestamp) list \<Rightarrow> (timestamp \<times> timestamp) option \<Rightarrow> (timestamp \<times> timestamp) list" where
  "merge_income_gaps existing new =
     (case sort (existing @ (case new of None \<Rightarrow> [] | Some g \<Rightarrow> [g])) of
        [] \<Rightarrow> [] | iv # ivs \<Rightarrow> fold merge_interval ivs [iv])"

section \<open>What a ledger directory holds\<close>

text \<open>A complete line of a shard is blank or a row of a record of the month of the shard; legacy
  rows, with JSON numbers or without the optional keys, are rows too.\<close>

definition line_record :: "text_codec \<Rightarrow> file_line \<Rightarrow> tax_record option" where
  "line_record c line = (case line of Text (JObj row) \<Rightarrow> (case tax_record_from_row c (JObj row) of Inr r \<Rightarrow> Some r | Inl _ \<Rightarrow> None) | _ \<Rightarrow> None)"

definition shard_records :: "text_codec \<Rightarrow> journal_file \<Rightarrow> tax_record list" where
  "shard_records c f = List.map_filter (line_record c) (fl_lines f)"

definition line_ok :: "text_codec \<Rightarrow> (timestamp \<Rightarrow> string) \<Rightarrow> string \<Rightarrow> file_line \<Rightarrow> bool" where
  "line_ok c month shard line \<longleftrightarrow> line = Blank \<or> (\<exists>r. line_record c line = Some r \<and> tax_shard_path month (tr_event_time r) = shard)"

definition dir_ok :: "text_codec \<Rightarrow> (timestamp \<Rightarrow> string) \<Rightarrow> tax_dir \<Rightarrow> bool" where
  "dir_ok c month dir \<longleftrightarrow> dict_ok dir \<and> (\<forall>shard f. map_of dir shard = Some f \<longrightarrow> (\<forall>line \<in> set (fl_lines f). line_ok c month shard line))"

definition dir_records :: "text_codec \<Rightarrow> tax_dir \<Rightarrow> tax_record set" where
  "dir_records c dir = (\<Union>shard. set (shard_records c (shard_of dir shard)))"

text \<open>A record id names one record.\<close>

definition ids_agree :: "tax_record set \<Rightarrow> bool" where
  "ids_agree R \<longleftrightarrow> (\<forall>r \<in> R. \<forall>r' \<in> R. tr_record_id r = tr_record_id r' \<longrightarrow> r = r')"

lemma blank_line [simp]: "shard_row Blank = Inr None" "line_record c Blank = None"
  by (simp_all add: shard_row_def line_record_def)

lemma line_record_row:
  assumes "line_record c line = Some r"
  obtains row where "line = Text (JObj row)" "tax_record_from_row c (JObj row) = Inr r" "shard_row line = Inr (Some row)" "row_id c row = tr_record_id r"
proof -
  from assms obtain row where row: "line = Text (JObj row)" "tax_record_from_row c (JObj row) = Inr r"
    by (auto simp: line_record_def split: file_line.splits json.splits sum.splits)
  have id: "obj_get row ''record_id'' = JStr (tr_record_id r)" "tr_record_id r \<noteq> []"
  proof -
    have "is_JStr (obj_get row ''record_id'')" "tr_record_id r = str_of (obj_get row ''record_id'')"
      using row(2) by (auto simp: tax_record_from_row_def result_simps guard_res_def Let_def row_keys_ok_def TAX_ROW_STR_FIELDS_def LEGACY_OPTIONAL_ROW_KEYS_def split: if_splits)
    then show "obj_get row ''record_id'' = JStr (tr_record_id r)" by (auto simp: is_JStr_def str_of_def split: json.splits)
    show "tr_record_id r \<noteq> []" using from_row_valid [of c "JObj row"] row(2) by (auto simp: validate_tax_record_def guard_res_def split: if_splits)
  qed
  show ?thesis by (rule that [OF row]) (use row id in \<open>simp_all add: shard_row_def row_id_def py_bool_def\<close>)
qed

lemma line_record_valid: "line_record c line = Some r \<Longrightarrow> validate_tax_record r = Inr ()"
  by (erule line_record_row) (use from_row_valid in \<open>metis sum.case(2)\<close>)

lemma line_record_written:
  "codec_ok c \<Longrightarrow> fixed_ok c fixed \<Longrightarrow> validate_tax_record r = Inr () \<Longrightarrow> line_record c (Text (tax_record_to_row c fixed r)) = Some r"
  using from_row_written [of c fixed r] by (auto simp: line_record_def tax_record_to_row_def)

text \<open>The rows of a well-formed shard, in the order of its records.\<close>

lemma read_lines_ok:
  assumes "\<forall>line \<in> set lines. line_ok c month shard line"
  shows "\<exists>rows. rmap shard_row lines = Inr rows
    \<and> list_all2 (\<lambda>row r. tax_record_from_row c (JObj row) = Inr r \<and> row_id c row = tr_record_id r) (List.map_filter (\<lambda>x. x) rows) (List.map_filter (line_record c) lines)"
  using assms
proof (induction lines)
  case (Cons line lines)
  then obtain rows where IH: "rmap shard_row lines = Inr rows"
      "list_all2 (\<lambda>row r. tax_record_from_row c (JObj row) = Inr r \<and> row_id c row = tr_record_id r) (List.map_filter (\<lambda>x. x) rows) (List.map_filter (line_record c) lines)"
    by auto
  from Cons.prems consider "line = Blank" | r where "line_record c line = Some r" by (auto simp: line_ok_def)
  then show ?case
  proof cases
    case 1
    then show ?thesis using IH by (simp add: map_filter_simps)
  next
    case 2
    then obtain row where "tax_record_from_row c (JObj row) = Inr r" "shard_row line = Inr (Some row)" "row_id c row = tr_record_id r" by (rule line_record_row)
    with 2 IH show ?thesis by (simp add: map_filter_simps)
  qed
qed (simp add: map_filter_simps)

text \<open>Reading: a dictionary of the records by their ids.\<close>

definition by_id :: "(string, tax_record) dict \<Rightarrow> bool" where
  "by_id seen \<longleftrightarrow> dict_ok seen \<and> (\<forall>(k, r) \<in> set seen. k = tr_record_id r)"

lemma by_id_agree: "by_id seen \<Longrightarrow> ids_agree (snd ` set seen)"
proof -
  assume seen: "by_id seen"
  have "r = r'" if "(k, r) \<in> set seen" "(k', r') \<in> set seen" "tr_record_id r = tr_record_id r'" for k k' r r'
  proof -
    have "k = tr_record_id r" "k' = tr_record_id r'" using seen that(1,2) by (auto simp: by_id_def)
    then show ?thesis using seen that eq_key_imp_eq_value [of seen k r r'] by (simp add: by_id_def)
  qed
  then show ?thesis by (fastforce simp: ids_agree_def)
qed

lemma to_row_inject:
  assumes "codec_ok c" "fixed_ok c fixed" "validate_tax_record r = Inr ()" "validate_tax_record r' = Inr ()"
  shows "tax_record_to_row c fixed r = tax_record_to_row c fixed r' \<longleftrightarrow> r = r'"
  using from_row_written [OF assms(1-3)] from_row_written [OF assms(1,2,4)] by (metis sum.inject(2))

lemma add_row_step:
  assumes "by_id seen" "tax_record_from_row c (JObj row) = Inr r" "row_id c row = tr_record_id r" "ids_agree (insert r (snd ` set seen))"
  shows "\<exists>seen'. add_row c fixed row seen = Inr seen' \<and> by_id seen' \<and> snd ` set seen' = insert r (snd ` set seen)"
proof (cases "map_of seen (tr_record_id r)")
  case None
  then have "tr_record_id r \<notin> fst ` set seen" by (simp add: map_of_eq_None_iff)
  then have "by_id (seen @ [(tr_record_id r, r)])" using assms(1) by (auto simp: by_id_def)
  then show ?thesis using assms(2,3) None by (simp add: add_row_def)
next
  case (Some r0)
  then have r0: "(tr_record_id r, r0) \<in> set seen" by (rule map_of_SomeD)
  with assms(1) have "tr_record_id r0 = tr_record_id r" by (auto simp: by_id_def)
  moreover have "r0 \<in> snd ` set seen" using r0 by (metis imageI snd_conv)
  ultimately have "r0 = r" "r \<in> snd ` set seen" using assms(4) by (auto simp: ids_agree_def)
  then have "add_row c fixed row seen = Inr seen" "snd ` set seen = insert r (snd ` set seen)"
    using Some assms(2,3) by (auto simp: add_row_def)
  then show ?thesis using assms(1) by blast
qed

lemma ids_agree_mono: "ids_agree R \<Longrightarrow> S \<subseteq> R \<Longrightarrow> ids_agree S"
  by (auto simp: ids_agree_def)

lemma add_rows:
  assumes "list_all2 (\<lambda>row r. tax_record_from_row c (JObj row) = Inr r \<and> row_id c row = tr_record_id r) rows rs"
    and "by_id seen" "ids_agree (snd ` set seen \<union> set rs)"
  shows "\<exists>seen'. rfold (add_row c fixed) rows seen = Inr seen' \<and> by_id seen' \<and> snd ` set seen' = snd ` set seen \<union> set rs"
  using assms
proof (induction arbitrary: seen rule: list_all2_induct)
  case (Cons row rows r rs)
  obtain s1 where s1: "add_row c fixed row seen = Inr s1" "by_id s1" "snd ` set s1 = insert r (snd ` set seen)"
    using add_row_step [of seen c row r fixed] Cons.hyps(1) Cons.prems ids_agree_mono [OF Cons.prems(2), of "insert r (snd ` set seen)"] by auto
  with Cons.IH [of s1] Cons.prems(2) show ?case by auto
qed simp

lemma read_shard_ok:
  assumes "dir_ok c month dir" "by_id seen" "ids_agree (snd ` set seen \<union> set (shard_records c (shard_of dir shard)))"
  shows "\<exists>seen'. read_shard c fixed dir shard seen = Inr seen' \<and> by_id seen' \<and> snd ` set seen' = snd ` set seen \<union> set (shard_records c (shard_of dir shard))"
proof (cases "map_of dir shard")
  case None
  then show ?thesis using assms(2) by (simp add: read_shard_def read_shard_lines_def shard_of_def shard_records_def empty_file_def map_filter_simps)
next
  case (Some f)
  then have "\<forall>line \<in> set (fl_lines f). line_ok c month shard line" using assms(1) by (simp add: dir_ok_def)
  from read_lines_ok [OF this] obtain rows where "rmap shard_row (fl_lines f) = Inr rows"
      "list_all2 (\<lambda>row r. tax_record_from_row c (JObj row) = Inr r \<and> row_id c row = tr_record_id r) (List.map_filter (\<lambda>x. x) rows) (shard_records c f)"
    by (auto simp: shard_records_def)
  with add_rows [OF this(2) assms(2), of fixed] Some assms(3) show ?thesis by (simp add: read_shard_def read_shard_lines_def shard_of_def)
qed

lemma read_shards_ok:
  assumes "dir_ok c month dir" "by_id seen" "ids_agree (snd ` set seen \<union> (\<Union>shard \<in> set shards. set (shard_records c (shard_of dir shard))))"
  shows "\<exists>seen'. rfold (read_shard c fixed dir) shards seen = Inr seen' \<and> by_id seen'
    \<and> snd ` set seen' = snd ` set seen \<union> (\<Union>shard \<in> set shards. set (shard_records c (shard_of dir shard)))"
  using assms(2,3)
proof (induction shards arbitrary: seen)
  case (Cons shard shards)
  obtain s1 where s1: "read_shard c fixed dir shard seen = Inr s1" "by_id s1" "snd ` set s1 = snd ` set seen \<union> set (shard_records c (shard_of dir shard))"
    using read_shard_ok [OF assms(1) Cons.prems(1) ids_agree_mono [OF Cons.prems(2)], of shard fixed] by auto
  with Cons.IH [of s1] Cons.prems(2) show ?case by (auto simp: Un_assoc)
qed simp

lemma dir_records_keys: "dir_records c dir = (\<Union>shard \<in> set (map fst dir). set (shard_records c (shard_of dir shard)))"
proof -
  have "shard_records c (shard_of dir shard) = []" if "shard \<notin> set (map fst dir)" for shard
  proof -
    have "map_of dir shard = None" using that by (simp add: map_of_eq_None_iff)
    then show ?thesis by (simp add: shard_of_def shard_records_def empty_file_def map_filter_simps)
  qed
  then show ?thesis by (fastforce simp: dir_records_def)
qed

text \<open>A ledger reads as its records, each once, in the order of the events.\<close>

definition reads_as :: "tax_record list \<Rightarrow> tax_record set \<Rightarrow> bool" where
  "reads_as rs R \<longleftrightarrow> set rs = R \<and> distinct (map tr_record_id rs) \<and> sorted (map tax_event_sort_key rs)"

lemma reads_as_unique: "reads_as rs R \<Longrightarrow> reads_as rs' R \<Longrightarrow> rs = rs'"
proof -
  assume r: "reads_as rs R" "reads_as rs' R"
  have inj: "inj_on tax_event_sort_key R" if "reads_as rs R" for rs
    using that by (auto simp: reads_as_def tax_event_sort_key_def inj_on_def distinct_map dest: inj_onD)
  have "map tax_event_sort_key rs = map tax_event_sort_key rs'"
    using r inj [OF r(1)] by (intro sorted_distinct_set_unique) (auto simp: reads_as_def distinct_map intro: inj_on_subset)
  then show ?thesis using r inj [OF r(1)] by (auto simp: reads_as_def intro: map_inj_on)
qed

lemma read_ok:
  assumes "dir_ok c month dir" "ids_agree (dir_records c dir)"
  shows "\<exists>rs. read_tax_ledger c fixed dir = Inr rs \<and> reads_as rs (dir_records c dir)"
proof -
  have "ids_agree (snd ` set [] \<union> (\<Union>shard \<in> set (sorted_set (map fst dir)). set (shard_records c (shard_of dir shard))))"
    using assms(2) dir_records_keys [of c dir] by simp
  from read_shards_ok [OF assms(1) _ this, of fixed] obtain seen where
    seen: "rfold (read_shard c fixed dir) (sorted_set (map fst dir)) [] = Inr seen" "by_id seen" "snd ` set seen = dir_records c dir"
    by (auto simp: by_id_def dir_records_keys)
  have "map tr_record_id (map snd seen) = map fst seen" using seen(2) by (auto simp: by_id_def)
  then have "distinct (map tr_record_id (map snd seen))" using seen(2) by (simp only: by_id_def)
  then have "distinct (map tr_record_id (sort_key tax_event_sort_key (map snd seen)))"
    by (metis mset_sort mset_map mset_eq_imp_distinct_iff)
  then have "reads_as (sort_key tax_event_sort_key (map snd seen)) (dir_records c dir)"
    using seen(3) by (simp add: reads_as_def)
  with seen(1) show ?thesis by (simp add: read_tax_ledger_def)
qed

section \<open>Appending\<close>

lemma fresh_rows_sub: "set (fresh_rows seen rs) \<subseteq> set rs"
  by (induction rs arbitrary: seen) auto

lemma fresh_rows_ids: "tr_record_id ` set rs \<subseteq> set seen \<union> tr_record_id ` set (fresh_rows seen rs)"
proof (induction rs arbitrary: seen)
  case (Cons r rs)
  from Cons.IH [of seen] Cons.IH [of "tr_record_id r # seen"] show ?case by (auto split: if_splits)
qed simp

lemma fresh_rows_Nil: "tr_record_id ` set rs \<subseteq> set seen \<Longrightarrow> fresh_rows seen rs = []"
  by (induction rs arbitrary: seen) auto

definition fresh_of :: "text_codec \<Rightarrow> (timestamp \<Rightarrow> string) \<Rightarrow> tax_record list \<Rightarrow> tax_dir \<Rightarrow> string \<Rightarrow> tax_record list" where
  "fresh_of c month records dir shard = fresh_rows (map tr_record_id (shard_records c (shard_of dir shard)))
     (filter (\<lambda>r. tax_shard_path month (tr_event_time r) = shard) records)"

lemma fresh_of_sub: "r \<in> set (fresh_of c month records dir s) \<Longrightarrow> r \<in> set records \<and> tax_shard_path month (tr_event_time r) = s"
  unfolding fresh_of_def by (drule subsetD [OF fresh_rows_sub]) simp

lemma partition_ok:
  assumes "dir_ok c month dir"
  shows "partition_fresh_tax_records c month records dir = Inr (filter (\<lambda>(_, rows). rows \<noteq> [])
    (map (\<lambda>shard. (shard, fresh_of c month records dir shard)) (sorted_set (map (\<lambda>r. tax_shard_path month (tr_event_time r)) records))))"
proof -
  have read: "rbind (read_shard_lines (map_of dir shard)) (\<lambda>(rows, _). Inr (shard, map (row_id c) rows))
      = Inr (shard, map tr_record_id (shard_records c (shard_of dir shard)))" for shard
  proof (cases "map_of dir shard")
    case (Some f)
    then have "\<forall>line \<in> set (fl_lines f). line_ok c month shard line" using assms by (simp add: dir_ok_def)
    from read_lines_ok [OF this] obtain rows where rows: "rmap shard_row (fl_lines f) = Inr rows"
        "list_all2 (\<lambda>row r. tax_record_from_row c (JObj row) = Inr r \<and> row_id c row = tr_record_id r) (List.map_filter (\<lambda>x. x) rows) (shard_records c f)"
      by (auto simp: shard_records_def)
    have "map (row_id c) (List.map_filter (\<lambda>x. x) rows) = map tr_record_id (shard_records c f)"
      using rows(2) by (induction rule: list_all2_induct) simp_all
    then show ?thesis using rows(1) Some by (simp add: read_shard_lines_def shard_of_def)
  qed (simp add: read_shard_lines_def shard_of_def shard_records_def empty_file_def map_filter_simps)
  show ?thesis unfolding partition_fresh_tax_records_def Let_def
    by (simp add: read rmap_Inr [where g = "\<lambda>shard. (shard, map tr_record_id (shard_records c (shard_of dir shard)))"] comp_def fresh_of_def)
qed

lemma shard_of_update [simp]: "shard_of (AList.update k f dir) s = (if s = k then f else shard_of dir s)"
  by (simp add: shard_of_def)

lemma dir_ok_update:
  "dir_ok c month dir \<Longrightarrow> \<forall>line \<in> set (fl_lines f). line_ok c month shard line \<Longrightarrow> dir_ok c month (AList.update shard f dir)"
  by (auto simp: dir_ok_def)

lemma dir_ok_lines: "dir_ok c month dir \<Longrightarrow> \<forall>line \<in> set (fl_lines (shard_of dir shard)). line_ok c month shard line"
  by (auto simp: dir_ok_def shard_of_def empty_file_def split: option.splits)

lemma truncate_fields: "shard_records c (truncate_durably f) = shard_records c f" "fl_tail (truncate_durably f) = None" "fl_lines (truncate_durably f) = fl_lines f"
  by (simp_all add: truncate_durably_def shard_records_def)

lemma truncate_shard_ok:
  assumes "dir_ok c month dir"
  shows "dir_ok c month (truncate_shard shard dir)" "shard_records c (shard_of (truncate_shard shard dir) s) = shard_records c (shard_of dir s)"
    "fl_tail (shard_of (truncate_shard shard dir) s) = (if s = shard then None else fl_tail (shard_of dir s))"
  using assms dir_ok_lines [OF assms, of shard] by (auto simp: truncate_shard_def truncate_fields intro: dir_ok_update)

text \<open>The shards are cleared of torn tails first.\<close>

lemma truncate_shards:
  "dir_ok c month dir \<Longrightarrow> dir_ok c month (fold (truncate_shard \<circ> fst) fresh dir)
    \<and> (\<forall>s. shard_records c (shard_of (fold (truncate_shard \<circ> fst) fresh dir) s) = shard_records c (shard_of dir s)
        \<and> (s \<in> fst ` set fresh \<longrightarrow> fl_tail (shard_of (fold (truncate_shard \<circ> fst) fresh dir) s) = None)
        \<and> (fl_tail (shard_of dir s) = None \<longrightarrow> fl_tail (shard_of (fold (truncate_shard \<circ> fst) fresh dir) s) = None))"
proof (induction fresh arbitrary: dir)
  case (Cons p fresh)
  note t = truncate_shard_ok [OF Cons.prems, of "fst p"]
  from Cons.IH [OF t(1)] show ?case by (simp add: t(2,3))
qed simp

lemmas truncate_shards_ok = truncate_shards [THEN conjunct1] truncate_shards [THEN conjunct2, rule_format, THEN conjunct1]
  truncate_shards [THEN conjunct2, rule_format, THEN conjunct2, THEN conjunct1, rule_format]

lemma fold_write_line:
  "fl_tail f = None \<Longrightarrow> fold (\<lambda>r. write_line (tax_record_to_row c fixed r)) rows f = f\<lparr>fl_lines := fl_lines f @ map (\<lambda>r. Text (tax_record_to_row c fixed r)) rows\<rparr>"
  by (induction rows arbitrary: f) (simp_all add: write_line_def)

lemma map_filter_written:
  assumes "codec_ok c" "fixed_ok c fixed"
  shows "\<forall>r \<in> set rows. validate_tax_record r = Inr () \<Longrightarrow> List.map_filter (line_record c) (map (\<lambda>r. Text (tax_record_to_row c fixed r)) rows) = rows"
  by (induction rows) (simp_all add: map_filter_simps line_record_written [OF assms])

lemma map_filter_append: "List.map_filter f (xs @ ys) = List.map_filter f xs @ List.map_filter f ys"
  by (simp add: List.map_filter_def)

lemma write_shard_ok:
  assumes cod: "codec_ok c" "fixed_ok c fixed" and "dir_ok c month dir" "fl_tail (shard_of dir shard) = None"
    and rows: "\<forall>r \<in> set rows. validate_tax_record r = Inr () \<and> tax_shard_path month (tr_event_time r) = shard"
  shows "dir_ok c month (write_shard c fixed (shard, rows) dir)"
    "shard_records c (shard_of (write_shard c fixed (shard, rows) dir) s) = shard_records c (shard_of dir s) @ (if s = shard then rows else [])"
    "fl_tail (shard_of (write_shard c fixed (shard, rows) dir) s) = fl_tail (shard_of dir s)"
proof -
  note w = fold_write_line [OF assms(4), of c fixed rows]
  have "\<forall>line \<in> set (map (\<lambda>r. Text (tax_record_to_row c fixed r)) rows). line_ok c month shard line"
    using rows line_record_written [OF cod] by (auto simp: line_ok_def)
  then show "dir_ok c month (write_shard c fixed (shard, rows) dir)"
    using dir_ok_lines [OF assms(3), of shard] by (auto simp: write_shard_def w intro!: dir_ok_update [OF assms(3)])
  show "shard_records c (shard_of (write_shard c fixed (shard, rows) dir) s) = shard_records c (shard_of dir s) @ (if s = shard then rows else [])"
    using rows by (simp add: write_shard_def w shard_records_def map_filter_append map_filter_written [OF cod])
  show "fl_tail (shard_of (write_shard c fixed (shard, rows) dir) s) = fl_tail (shard_of dir s)" by (simp add: write_shard_def w)
qed

lemma write_shards_ok:
  assumes cod: "codec_ok c" "fixed_ok c fixed"
  shows "dir_ok c month dir \<Longrightarrow> \<forall>(shard, rows) \<in> set fresh. fl_tail (shard_of dir shard) = None
      \<and> (\<forall>r \<in> set rows. validate_tax_record r = Inr () \<and> tax_shard_path month (tr_event_time r) = shard) \<Longrightarrow>
    dir_ok c month (fold (write_shard c fixed) fresh dir)
    \<and> (\<forall>s. fl_tail (shard_of (fold (write_shard c fixed) fresh dir) s) = fl_tail (shard_of dir s)
        \<and> set (shard_records c (shard_of (fold (write_shard c fixed) fresh dir) s))
            = set (shard_records c (shard_of dir s)) \<union> (\<Union>(shard, rows) \<in> set fresh. if shard = s then set rows else {}))"
proof (induction fresh arbitrary: dir)
  case (Cons p fresh)
  obtain shard rows where p: "p = (shard, rows)" by (cases p)
  from Cons.prems(2) have here: "fl_tail (shard_of dir shard) = None"
    "\<forall>r \<in> set rows. validate_tax_record r = Inr () \<and> tax_shard_path month (tr_event_time r) = shard" by (auto simp: p)
  note w = write_shard_ok [OF cod Cons.prems(1) here]
  have "\<forall>(sh, rs) \<in> set fresh. fl_tail (shard_of (write_shard c fixed p dir) sh) = None
      \<and> (\<forall>r \<in> set rs. validate_tax_record r = Inr () \<and> tax_shard_path month (tr_event_time r) = sh)"
    using Cons.prems(2) by (auto simp: p w(3))
  from Cons.IH [OF w(1) [folded p] this] show ?case by (auto simp: p w(2,3) split: if_splits)
qed simp

lemma append_ok:
  assumes cod: "codec_ok c" "fixed_ok c fixed" and dir: "dir_ok c month dir" and valid: "\<forall>r \<in> set records. validate_tax_record r = Inr ()"
  obtains dir' where
    "append_tax_records c fixed month records dir = (Inr (filter (\<lambda>s. fresh_of c month records dir s \<noteq> []) (sorted_set (map (\<lambda>r. tax_shard_path month (tr_event_time r)) records))), dir')"
    "dir_ok c month dir'" "\<And>s. set (shard_records c (shard_of dir' s)) = set (shard_records c (shard_of dir s)) \<union> set (fresh_of c month records dir s)"
    "(\<forall>s. fresh_of c month records dir s = []) \<Longrightarrow> dir' = dir"
proof -
  let ?paths = "sorted_set (map (\<lambda>r. tax_shard_path month (tr_event_time r)) records)"
  let ?fresh = "filter (\<lambda>(_, rows). rows \<noteq> []) (map (\<lambda>shard. (shard, fresh_of c month records dir shard)) ?paths)"
  let ?cut = "fold (truncate_shard \<circ> fst) ?fresh dir"
  let ?dir = "fold (write_shard c fixed) ?fresh ?cut"
  have "rmap validate_tax_record records = Inr (map (\<lambda>_. ()) records)" using valid by (intro rmap_Inr) simp
  moreover have "map fst ?fresh = filter (\<lambda>s. fresh_of c month records dir s \<noteq> []) ?paths"
    by (simp add: filter_map comp_def)
  ultimately have run: "append_tax_records c fixed month records dir = (Inr (filter (\<lambda>s. fresh_of c month records dir s \<noteq> []) ?paths), ?dir)"
    by (auto simp: append_tax_records_def partition_ok [OF dir] sx_defs sorted_set_def)
  have fresh: "\<forall>r \<in> set (fresh_of c month records dir s). r \<in> set records \<and> tax_shard_path month (tr_event_time r) = s" for s
    using fresh_of_sub by blast
  have tails: "\<forall>(shard, rows) \<in> set ?fresh. fl_tail (shard_of ?cut shard) = None
      \<and> (\<forall>r \<in> set rows. validate_tax_record r = Inr () \<and> tax_shard_path month (tr_event_time r) = shard)"
  proof (clarify)
    fix shard rows assume p: "(shard, rows) \<in> set ?fresh"
    then have "rows = fresh_of c month records dir shard" by auto
    moreover have "shard \<in> fst ` set ?fresh" using imageI [OF p, of fst] by (simp only: fst_conv)
    then have "fl_tail (shard_of ?cut shard) = None" by (rule truncate_shards_ok(3) [OF dir])
    ultimately show "fl_tail (shard_of ?cut shard) = None \<and> (\<forall>r \<in> set rows. validate_tax_record r = Inr () \<and> tax_shard_path month (tr_event_time r) = shard)"
      using fresh valid by blast
  qed
  note w = write_shards_ok [OF cod truncate_shards_ok(1) [OF dir] tails]
  have "(\<Union>(shard, rows) \<in> set ?fresh. if shard = s then set rows else {}) = set (fresh_of c month records dir s)" for s
  proof -
    have "s \<in> set ?paths" if "fresh_of c month records dir s \<noteq> []"
    proof -
      from that obtain r where "r \<in> set (fresh_of c month records dir s)" using list.set_sel(1) by blast
      from fresh_of_sub [OF this] show ?thesis by auto
    qed
    then show ?thesis by (cases "fresh_of c month records dir s = []") (fastforce split: if_splits)+
  qed
  with w have records: "set (shard_records c (shard_of ?dir s)) = set (shard_records c (shard_of dir s)) \<union> set (fresh_of c month records dir s)" for s
    by (simp add: truncate_shards_ok(2) [OF dir])
  have same: "?dir = dir" if "\<forall>s. fresh_of c month records dir s = []" using that by (simp add: filter_False)
  show ?thesis by (rule that [OF run _ records same]) (use w in auto)
qed

text \<open>Whatever the ids, an append that returns leaves every id it was given in the ledger, and one that
  raises has written nothing.\<close>

lemma append_ids:
  assumes cod: "codec_ok c" "fixed_ok c fixed" and dir: "dir_ok c month dir" and run: "append_tax_records c fixed month records dir = (Inr written, dir')"
  shows "dir_ok c month dir' \<and> dir_records c dir \<subseteq> dir_records c dir' \<and> tr_record_id ` set records \<subseteq> tr_record_id ` dir_records c dir'"
proof (cases "records = []")
  case True
  then show ?thesis using run dir by (simp add: append_tax_records_def)
next
  case False
  then obtain us where "rmap validate_tax_record records = Inr us"
    using run by (auto simp: append_tax_records_def sx_bind_Inr)
  then have valid: "\<forall>r \<in> set records. validate_tax_record r = Inr ()"
    by (induction records arbitrary: us) (auto simp: rbind_eq_Inr)
  obtain dir'' where "append_tax_records c fixed month records dir
        = (Inr (filter (\<lambda>s. fresh_of c month records dir s \<noteq> []) (sorted_set (map (\<lambda>r. tax_shard_path month (tr_event_time r)) records))), dir'')"
    and ok: "dir_ok c month dir''" and recs: "\<And>s. set (shard_records c (shard_of dir'' s)) = set (shard_records c (shard_of dir s)) \<union> set (fresh_of c month records dir s)"
    using append_ok [OF cod dir valid] by blast
  then have same: "dir'' = dir'" using run by simp
  have "tr_record_id r \<in> tr_record_id ` dir_records c dir'" if r: "r \<in> set records" for r
  proof -
    let ?s = "tax_shard_path month (tr_event_time r)"
    have "tr_record_id r \<in> tr_record_id ` set (shard_records c (shard_of dir'' ?s))"
      using fresh_rows_ids [of "filter (\<lambda>r. tax_shard_path month (tr_event_time r) = ?s) records" "map tr_record_id (shard_records c (shard_of dir ?s))"] r
      by (auto simp: recs fresh_of_def image_Un)
    then show ?thesis by (auto simp: dir_records_def same)
  qed
  moreover have "dir_records c dir \<subseteq> dir_records c dir'" by (auto simp: dir_records_def recs simp flip: same)
  ultimately show ?thesis using ok by (auto simp: same)
qed

lemma append_raises: "append_tax_records c fixed month records dir = (Inl e, dir') \<Longrightarrow> dir' = dir"
  by (auto simp: append_tax_records_def sx_defs split: if_splits prod.splits sum.splits)

text \<open>When the ids agree, appending adds the records, and a second time it does nothing.\<close>

lemma append_adds:
  assumes cod: "codec_ok c" "fixed_ok c fixed" and dir: "dir_ok c month dir" and valid: "\<forall>r \<in> set records. validate_tax_record r = Inr ()"
    and agree: "ids_agree (dir_records c dir \<union> set records)"
  obtains written dir' where "append_tax_records c fixed month records dir = (Inr written, dir')" "dir_ok c month dir'"
    "dir_records c dir' = dir_records c dir \<union> set records" "append_tax_records c fixed month records dir' = (Inr [], dir')"
proof -
  obtain dir' where run: "append_tax_records c fixed month records dir
        = (Inr (filter (\<lambda>s. fresh_of c month records dir s \<noteq> []) (sorted_set (map (\<lambda>r. tax_shard_path month (tr_event_time r)) records))), dir')"
    and ok: "dir_ok c month dir'" and recs: "\<And>s. set (shard_records c (shard_of dir' s)) = set (shard_records c (shard_of dir s)) \<union> set (fresh_of c month records dir s)"
    using append_ok [OF cod dir valid] by blast
  have fresh: "set (fresh_of c month records dir s) \<subseteq> set records" for s using fresh_of_sub by blast
  have sub: "set (shard_records c (shard_of dir' s)) \<subseteq> dir_records c dir \<union> set records" for s
    using fresh [of s] by (auto simp: recs dir_records_def)
  have added: "r \<in> set (shard_records c (shard_of dir' (tax_shard_path month (tr_event_time r))))" if r: "r \<in> set records" for r
  proof -
    let ?s = "tax_shard_path month (tr_event_time r)"
    have "tr_record_id r \<in> tr_record_id ` set (shard_records c (shard_of dir' ?s))"
      using fresh_rows_ids [of "filter (\<lambda>r. tax_shard_path month (tr_event_time r) = ?s) records" "map tr_record_id (shard_records c (shard_of dir ?s))"] r
      by (auto simp: recs fresh_of_def image_Un)
    then obtain r' where "r' \<in> set (shard_records c (shard_of dir' ?s))" "tr_record_id r' = tr_record_id r" by force
    moreover from this(1) sub have "r' \<in> dir_records c dir \<union> set records" by blast
    ultimately show ?thesis using agree r by (auto simp: ids_agree_def)
  qed
  have all: "dir_records c dir' = dir_records c dir \<union> set records"
  proof
    show "dir_records c dir' \<subseteq> dir_records c dir \<union> set records" using sub by (fastforce simp: dir_records_def)
    have "dir_records c dir \<subseteq> dir_records c dir'" by (auto simp: dir_records_def recs)
    moreover have "set records \<subseteq> dir_records c dir'" using added by (fastforce simp: dir_records_def)
    ultimately show "dir_records c dir \<union> set records \<subseteq> dir_records c dir'" by blast
  qed
  have "fresh_of c month records dir' s = []" for s
    unfolding fresh_of_def by (rule fresh_rows_Nil) (use added in auto)
  then have "append_tax_records c fixed month records dir' = (Inr [], dir')"
    using append_ok [OF cod ok valid] by (metis (mono_tags, lifting) filter_False)
  with run ok all show ?thesis by (rule that)
qed

text \<open>
  C20: the tax ledger keeps what it is given, once.  Valid records whose ids agree with the ledger are
  appended to their shards, whatever torn tails an earlier process has left; afterwards the ledger
  reads as the records it had and the new ones, each once and in the order of the events, and
  appending the same records again writes nothing.
\<close>

theorem tax_append_read:
  assumes "codec_ok c" and "fixed_ok c fixed" and "dir_ok c month dir" and "\<forall>r \<in> set records. validate_tax_record r = Inr ()"
    and "ids_agree (dir_records c dir \<union> set records)"
  shows "\<exists>written dir' old new. append_tax_records c fixed month records dir = (Inr written, dir')
    \<and> read_tax_ledger c fixed dir = Inr old \<and> read_tax_ledger c fixed dir' = Inr new
    \<and> set new = set old \<union> set records \<and> distinct (map tr_record_id new) \<and> sorted (map tax_event_sort_key new)
    \<and> append_tax_records c fixed month records dir' = (Inr [], dir')"
proof -
  obtain written dir' where run: "append_tax_records c fixed month records dir = (Inr written, dir')" "dir_ok c month dir'"
      "dir_records c dir' = dir_records c dir \<union> set records" "append_tax_records c fixed month records dir' = (Inr [], dir')"
    by (rule append_adds [OF assms])
  from read_ok [OF assms(3) ids_agree_mono [OF assms(5)]] obtain old where
    old: "read_tax_ledger c fixed dir = Inr old" "reads_as old (dir_records c dir)" by blast
  from read_ok [OF run(2)] run(3) assms(5) obtain new where
    new: "read_tax_ledger c fixed dir' = Inr new" "reads_as new (dir_records c dir \<union> set records)" by metis
  from run(1,4) old new show ?thesis by (auto simp: reads_as_def)
qed

definition plain_month :: "timestamp \<Rightarrow> string" where "plain_month t = ''202601''"

lemma torn_dir_ok: "dir_ok plain_codec plain_month [(''tax_ledger_202601.jsonl'', \<lparr>fl_lines = [Blank], fl_tail = Some Garbage\<rparr>)]"
  by (auto simp: dir_ok_def line_ok_def split: if_splits)

theorem tax_append_read_witness:
  "\<exists>written dir'. append_tax_records plain_codec tally_rat plain_month [example_trade] [(''tax_ledger_202601.jsonl'', \<lparr>fl_lines = [Blank], fl_tail = Some Garbage\<rparr>)]
       = (Inr written, dir') \<and> (\<exists>new. read_tax_ledger plain_codec tally_rat dir' = Inr new \<and> example_trade \<in> set new)"
proof -
  let ?dir = "[(''tax_ledger_202601.jsonl'', \<lparr>fl_lines = [Blank], fl_tail = Some Garbage\<rparr>)]"
  have "dir_records plain_codec ?dir = {}"
    by (simp add: dir_records_keys shard_of_def shard_records_def map_filter_simps)
  then have "ids_agree (dir_records plain_codec ?dir \<union> set [example_trade])" by (simp add: ids_agree_def)
  from tax_append_read [OF plain_codec_ok tally_fixed_ok torn_dir_ok _ this] example_trade_valid show ?thesis by fastforce
qed

section \<open>A crash while appending\<close>

text \<open>The directory of a process that died inside \<open>append_tax_records\<close>: between two truncations, or
  while the rows of one shard were being written, with an unterminated line or without.\<close>

inductive append_crash :: "text_codec \<Rightarrow> (decimal \<Rightarrow> string) \<Rightarrow> (timestamp \<Rightarrow> string) \<Rightarrow> tax_record list \<Rightarrow> tax_dir \<Rightarrow> tax_dir \<Rightarrow> bool"
  for c fixed month records dir where
  truncating: "partition_fresh_tax_records c month records dir = Inr (before @ after) \<Longrightarrow>
    append_crash c fixed month records dir (fold (truncate_shard \<circ> fst) before dir)"
| writing: "partition_fresh_tax_records c month records dir = Inr fresh \<Longrightarrow> fresh = before @ (shard, rows @ rest) # after \<Longrightarrow>
    d = write_shard c fixed (shard, rows) (fold (write_shard c fixed) before (fold (truncate_shard \<circ> fst) fresh dir)) \<Longrightarrow>
    append_crash c fixed month records dir (AList.update shard ((shard_of d shard)\<lparr>fl_tail := tail\<rparr>) d)"

lemma crash_between:
  assumes cod: "codec_ok c" "fixed_ok c fixed" and dir: "dir_ok c month dir" and valid: "\<forall>r \<in> set records. validate_tax_record r = Inr ()"
    and crash: "append_crash c fixed month records dir d"
  shows "dir_ok c month d \<and> dir_records c dir \<subseteq> dir_records c d \<and> dir_records c d \<subseteq> dir_records c dir \<union> set records"
  using crash
proof cases
  case (truncating before after)
  then show ?thesis using truncate_shards_ok(1,2) [OF dir, where fresh = before] by (auto simp: dir_records_def)
next
  case (writing fresh before shard rows rest after u tail)
  let ?cut = "fold (truncate_shard \<circ> fst) fresh dir"
  have p: "r \<in> set records \<and> tax_shard_path month (tr_event_time r) = s" if "(s, rs) \<in> set fresh" "r \<in> set rs" for s rs r
    using writing(2) that fresh_of_sub [of r c month records dir s] by (auto simp: partition_ok [OF dir])
  have tails: "fl_tail (shard_of ?cut s) = None" if "(s, rs) \<in> set fresh" for s rs
    using truncate_shards_ok(3) [OF dir, of s fresh] that by (metis fst_conv imageI)
  define part where "part = before @ [(shard, rows)]"
  have part: "r \<in> set records \<and> tax_shard_path month (tr_event_time r) = s \<and> fl_tail (shard_of ?cut s) = None"
    if "(s, rs) \<in> set part" "r \<in> set rs" for s rs r
    using that p [of s _ r] tails [of s] writing(3) by (fastforce simp: part_def)
  have ok: "\<forall>(s, rs) \<in> set part. fl_tail (shard_of ?cut s) = None
      \<and> (\<forall>r \<in> set rs. validate_tax_record r = Inr () \<and> tax_shard_path month (tr_event_time r) = s)"
    using part valid tails writing(3) by (fastforce simp: part_def)
  have u: "u = fold (write_shard c fixed) part ?cut" using writing(4) by (simp add: part_def)
  note w = write_shards_ok [OF cod truncate_shards_ok(1) [OF dir] ok, folded u]
  have recs: "shard_records c (shard_of d s) = shard_records c (shard_of u s)" for s using writing(1) by (simp add: shard_records_def)
  have "dir_ok c month d" unfolding writing(1) using w dir_ok_lines [of c month u shard] by (intro dir_ok_update) auto
  moreover have "set (shard_records c (shard_of d s)) = set (shard_records c (shard_of dir s)) \<union> (\<Union>(s', rs) \<in> set part. if s' = s then set rs else {})" for s
    using w by (simp add: recs truncate_shards_ok(2) [OF dir])
  then have "dir_records c dir \<subseteq> dir_records c d" "dir_records c d \<subseteq> dir_records c dir \<union> set records"
    using part by (auto simp: dir_records_def split: if_splits)
  ultimately show ?thesis by blast
qed

text \<open>
  A crash while appending loses nothing and doubles nothing.  Wherever the process dies, between
  two shards or in the middle of a line, appending the same records again succeeds, and the ledger then
  reads as it would have read without the crash.
\<close>

theorem tax_append_survives_crash:
  assumes "codec_ok c" and "fixed_ok c fixed" and "dir_ok c month dir" and "\<forall>r \<in> set records. validate_tax_record r = Inr ()"
    and "ids_agree (dir_records c dir \<union> set records)" and "append_crash c fixed month records dir d"
  shows "\<exists>w dir' w' d' rs. append_tax_records c fixed month records dir = (Inr w, dir') \<and> read_tax_ledger c fixed dir' = Inr rs
    \<and> append_tax_records c fixed month records d = (Inr w', d') \<and> read_tax_ledger c fixed d' = Inr rs"
proof -
  note crash = crash_between [OF assms(1-4,6)]
  have same: "dir_records c d \<union> set records = dir_records c dir \<union> set records" using crash by blast
  obtain w dir' where run: "append_tax_records c fixed month records dir = (Inr w, dir')" "dir_ok c month dir'" "dir_records c dir' = dir_records c dir \<union> set records"
    by (rule append_adds [OF assms(1-5)])
  obtain w' d' where again: "append_tax_records c fixed month records d = (Inr w', d')" "dir_ok c month d'" "dir_records c d' = dir_records c dir \<union> set records"
  proof -
    have agree: "ids_agree (dir_records c d \<union> set records)" using assms(5) by (simp only: same)
    obtain w' d' where "append_tax_records c fixed month records d = (Inr w', d')" "dir_ok c month d'" "dir_records c d' = dir_records c d \<union> set records"
      by (rule append_adds [OF assms(1,2) conjunct1 [OF crash] assms(4) agree])
    then show thesis using that by (simp only: same)
  qed
  from read_ok [OF run(2), of fixed] read_ok [OF again(2), of fixed] run(3) again(3) assms(5) obtain rs rs' where
    "read_tax_ledger c fixed dir' = Inr rs" "reads_as rs (dir_records c dir \<union> set records)"
    "read_tax_ledger c fixed d' = Inr rs'" "reads_as rs' (dir_records c dir \<union> set records)" by metis
  with run(1) again(1) reads_as_unique show ?thesis by metis
qed

theorem tax_append_survives_crash_witness:
  "\<exists>d w' d' rs. append_crash plain_codec tally_rat plain_month [example_trade] [] d \<and> d \<noteq> []
     \<and> append_tax_records plain_codec tally_rat plain_month [example_trade] d = (Inr w', d') \<and> read_tax_ledger plain_codec tally_rat d' = Inr rs"
proof -
  let ?s = "''tax_ledger_202601.jsonl''"
  have ok: "dir_ok plain_codec plain_month []" by (simp add: dir_ok_def)
  have "partition_fresh_tax_records plain_codec plain_month [example_trade] [] = Inr [(?s, [example_trade])]"
    by (simp add: partition_fresh_tax_records_def plain_month_def tax_shard_path_def read_shard_lines_def sorted_set_def)
  then have crash: "append_crash plain_codec tally_rat plain_month [example_trade] []
      (AList.update ?s ((shard_of (write_shard plain_codec tally_rat (?s, []) (truncate_shard ?s [])) ?s)\<lparr>fl_tail := Some Garbage\<rparr>)
        (write_shard plain_codec tally_rat (?s, []) (truncate_shard ?s [])))" (is "append_crash _ _ _ _ _ ?d")
    by (rule append_crash.writing [where before = "[]" and rows = "[]" and rest = "[example_trade]" and after = "[]"]) simp_all
  have "dir_records plain_codec [] = {}" by (simp add: dir_records_keys)
  then have agree: "ids_agree (dir_records plain_codec [] \<union> set [example_trade])" by (simp add: ids_agree_def)
  have "?d \<noteq> []" by (simp add: write_shard_def truncate_shard_def shard_of_def empty_file_def)
  with crash tax_append_survives_crash [OF plain_codec_ok tally_fixed_ok ok _ agree crash] example_trade_valid show ?thesis by fastforce
qed

section \<open>The watermark reads back\<close>

text \<open>What a collection maintains, and what the loader insists on.\<close>

definition watermark_ok :: "tax_watermark \<Rightarrow> bool" where
  "watermark_ok w \<longleftrightarrow> dict_ok (tw_last_trade_id w) \<and> dict_ok (tw_genesis_positions w)
     \<and> sorted (tw_known_trade_symbols w) \<and> distinct (tw_known_trade_symbols w) \<and> [] \<notin> set (tw_known_trade_symbols w)
     \<and> (\<forall>(a, b) \<in> set (tw_income_gaps w). a < b) \<and> (\<forall>(s, q) \<in> set (tw_genesis_positions w). s \<noteq> [] \<and> q \<noteq> 0)"

definition watermark_norm :: "tax_watermark \<Rightarrow> tax_watermark" where
  "watermark_norm w = w\<lparr>tw_last_trade_id := sort_key fst (tw_last_trade_id w), tw_genesis_positions := sort_key fst (tw_genesis_positions w)\<rparr>"

lemma load_iso_option [simp]: "codec_ok c \<Longrightarrow> load_watermark_timestamp c strict (iso_option c t) = Inr t"
  by (simp add: load_watermark_timestamp_def iso_option_def split: option.splits)

lemma fold_update_fresh: "dict_ok (d @ kvs) \<Longrightarrow> fold (\<lambda>(k, v). AList.update k v) kvs d = d @ kvs"
proof (induction kvs arbitrary: d)
  case (Cons kv kvs)
  obtain k v where kv: "kv = (k, v)" by (cases kv)
  have "k \<notin> fst ` set d" using Cons.prems by (auto simp: kv)
  then have "AList.update k v d = d @ [(k, v)]" by (induction d) auto
  then show ?case using Cons.IH [of "d @ [(k, v)]"] Cons.prems by (simp add: kv)
qed simp

lemma dict_ok_sort_key [simp]: "dict_ok (sort_key fst d) = dict_ok d"
  by (metis mset_sort mset_map mset_eq_imp_distinct_iff)

lemma load_trade_ids_written:
  assumes "dict_ok d" shows "load_trade_ids c (JObj (map (\<lambda>(s, i). (s, JInt i)) d)) = Inr d"
proof -
  have "rmap (\<lambda>(k, v). rbind (py_int c v) (\<lambda>i. Inr (py_str c k, i))) (map (\<lambda>(s, i). (JStr s, JInt i)) d) = Inr d"
    by (rule rmap_decode) auto
  then show ?thesis using fold_update_fresh [of "[]" d] assms by (simp add: load_trade_ids_def py_dict_def comp_def case_prod_unfold)
qed

lemma load_symbols_written:
  assumes "sorted xs" "distinct xs" "[] \<notin> set xs" shows "load_symbols (JArr (map JStr xs)) = Inr xs"
proof -
  have "rmap (\<lambda>x. case x of JStr s \<Rightarrow> if s = [] then Inl DataIntegrityError else Inr s | _ \<Rightarrow> Inl DataIntegrityError) (map JStr xs) = Inr xs"
    by (rule rmap_decode) (use assms(3) in auto)
  then show ?thesis using assms(1,2) by (simp add: load_symbols_def sorted_set_def distinct_remdups_id sorted_sort_id)
qed

lemma load_gaps_written:
  assumes "codec_ok c" "\<forall>(a, b) \<in> set gaps. a < b"
  shows "load_gaps c (JArr (map (\<lambda>(a, b). JArr [JStr (tc_iso c a), JStr (tc_iso c b)]) gaps)) = Inr gaps"
proof -
  have "load_gap c (JArr [JStr (tc_iso c a), JStr (tc_iso c b)]) = Inr (a, b)" if "(a, b) \<in> set gaps" for a b
    using assms that by (auto simp: load_gap_def load_watermark_timestamp_def)
  then show ?thesis unfolding load_gaps_def json.case by (intro rmap_decode) auto
qed

lemma load_genesis_written:
  assumes "fixed_ok c fixed" "\<forall>(s, q) \<in> set d. s \<noteq> [] \<and> q \<noteq> 0"
  shows "load_genesis c (JObj (map (\<lambda>(s, q). (s, JStr (fixed q))) d)) = Inr d"
  unfolding load_genesis_def json.case by (rule rmap_decode) (use assms in \<open>auto simp: parse_tax_decimal_fixed\<close>)

lemma saved_watermark_loads:
  assumes "codec_ok c" and "fixed_ok c fixed" and "watermark_ok w"
  shows "\<exists>f. save_tax_watermark c fixed w f0 = (Inr (), f) \<and> load_tax_watermark c f = Inr (watermark_norm w)"
proof -
  have ok: "dict_ok (sort_key fst (tw_last_trade_id w))" "\<forall>(a, b) \<in> set (tw_income_gaps w). a < b"
      "\<forall>(s, q) \<in> set (sort_key fst (tw_genesis_positions w)). s \<noteq> [] \<and> q \<noteq> 0"
      "sorted (tw_known_trade_symbols w)" "distinct (tw_known_trade_symbols w)" "[] \<notin> set (tw_known_trade_symbols w)"
    using assms(3) by (auto simp: watermark_ok_def)
  show ?thesis
    by (simp add: save_tax_watermark_def sx_defs load_tax_watermark_def watermark_json_def load_watermark_document_def assms(1)
        load_trade_ids_written [OF ok(1)] load_symbols_written [OF ok(4-6)] sorted_sort_id [OF ok(4)] load_gaps_written [OF assms(1) ok(2)]
        load_genesis_written [OF assms(2) ok(3)] malformed_def watermark_norm_def)
qed

text \<open>
  The watermark of the collection survives a restart: what was saved loads as the same progress,
  gaps, genesis and symbols, with the dictionaries in the order of their keys.
\<close>

theorem watermark_save_load:
  assumes "codec_ok c" and "fixed_ok c fixed" and "watermark_ok w"
  shows "\<exists>f. save_tax_watermark c fixed w f0 = (Inr (), f) \<and> load_tax_watermark c f = Inr (watermark_norm w)"
  by (rule saved_watermark_loads [OF assms])

theorem watermark_save_load_witness:
  "\<exists>f. save_tax_watermark plain_codec tally_rat (empty_watermark\<lparr>tw_last_trade_id := [(''ETHUSDT'', 7), (''BTCUSDT'', 3)], tw_income_gaps := [(1, 4)]\<rparr>) Missing = (Inr (), f)
     \<and> load_tax_watermark plain_codec f = Inr (empty_watermark\<lparr>tw_last_trade_id := [(''BTCUSDT'', 3), (''ETHUSDT'', 7)], tw_income_gaps := [(1, 4)]\<rparr>)"
proof -
  let ?w = "empty_watermark\<lparr>tw_last_trade_id := [(''ETHUSDT'', 7), (''BTCUSDT'', 3)], tw_income_gaps := [(1, 4)]\<rparr>"
  have ok: "watermark_ok ?w" by (simp add: watermark_ok_def empty_watermark_def)
  have "watermark_norm ?w = empty_watermark\<lparr>tw_last_trade_id := [(''BTCUSDT'', 3), (''ETHUSDT'', 7)], tw_income_gaps := [(1, 4)]\<rparr>"
    by (simp add: watermark_norm_def empty_watermark_def)
  with watermark_save_load [OF plain_codec_ok tally_fixed_ok ok, of Missing] show ?thesis by metis
qed

section \<open>Merged gaps\<close>

abbreviation covered :: "(timestamp \<times> timestamp) list \<Rightarrow> timestamp set" where
  "covered ivs \<equiv> \<Union>(a, b) \<in> set ivs. {a..b}"

definition separated :: "(timestamp \<times> timestamp) list \<Rightarrow> bool" where
  "separated ivs \<longleftrightarrow> (\<forall>(a, b) \<in> set ivs. a \<le> b) \<and> sorted_wrt (\<lambda>(a, b) (a', b'). b < a') ivs"

lemma merge_interval_step:
  assumes "separated (ivs @ [(a, b)])" "a \<le> s" "s \<le> e"
  obtains ivs' a' b' where "merge_interval (s, e) (ivs @ [(a, b)]) = ivs' @ [(a', b')]" "separated (ivs' @ [(a', b')])" "a' \<le> s"
    "covered (ivs' @ [(a', b')]) = covered (ivs @ [(a, b)]) \<union> {s..e}"
proof (cases "s \<le> b")
  case True
  show ?thesis
  proof (rule that [of ivs a "max b e"])
    show "merge_interval (s, e) (ivs @ [(a, b)]) = ivs @ [(a, max b e)]" using True by (simp add: merge_interval_def max_def)
    show "separated (ivs @ [(a, max b e)])" using assms by (auto simp: separated_def sorted_wrt_append)
    have "{a..max b e} = {a..b} \<union> {s..e}" using True assms by (auto simp: separated_def max_def)
    then show "covered (ivs @ [(a, max b e)]) = covered (ivs @ [(a, b)]) \<union> {s..e}" by auto
  qed (rule assms(2))
next
  case False
  show ?thesis
  proof (rule that [of "ivs @ [(a, b)]" s e])
    show "merge_interval (s, e) (ivs @ [(a, b)]) = (ivs @ [(a, b)]) @ [(s, e)]" using False by (simp add: merge_interval_def)
    show "separated ((ivs @ [(a, b)]) @ [(s, e)])" using assms False by (fastforce simp: separated_def sorted_wrt_append)
  qed auto
qed

lemma merge_intervals:
  assumes "sorted ((s, e) # ivs)" "\<forall>(s, e) \<in> set ivs. s \<le> e" "separated (ms @ [(a, b)])" "a \<le> s"
  shows "separated (fold merge_interval ivs (ms @ [(a, b)])) \<and> covered (fold merge_interval ivs (ms @ [(a, b)])) = covered (ms @ [(a, b)]) \<union> covered ivs"
  using assms
proof (induction ivs arbitrary: s e ms a b)
  case (Cons iv ivs)
  obtain s' e' where iv: "iv = (s', e')" by (cases iv)
  have le: "s \<le> s'" "s' \<le> e'" using Cons.prems(1,2) by (auto simp: iv less_eq_prod_def)
  obtain ms' a' b' where m: "merge_interval (s', e') (ms @ [(a, b)]) = ms' @ [(a', b')]" "separated (ms' @ [(a', b')])" "a' \<le> s'"
      "covered (ms' @ [(a', b')]) = covered (ms @ [(a, b)]) \<union> {s'..e'}"
    by (rule merge_interval_step [OF Cons.prems(3) _ le(2)]) (use Cons.prems(4) le in auto)
  from Cons.IH [of s' e' ms' a' b'] Cons.prems(1,2) m show ?case by (auto simp: iv)
qed simp

lemma merged_gaps:
  assumes "\<forall>(a, b) \<in> set gaps. a < b" and "\<forall>(a, b) \<in> set_option new. a < b"
  shows "separated (merge_income_gaps gaps new) \<and> covered (merge_income_gaps gaps new) = covered gaps \<union> (\<Union>(a, b) \<in> set_option new. {a..b})"
proof -
  define ivs where "ivs = gaps @ (case new of None \<Rightarrow> [] | Some g \<Rightarrow> [g])"
  have set: "set (sort ivs) = set gaps \<union> set_option new" by (auto simp: ivs_def split: option.splits)
  then have ne: "\<forall>(a, b) \<in> set (sort ivs). a \<le> b" using assms by fastforce
  have cov: "covered (sort ivs) = covered gaps \<union> (\<Union>(a, b) \<in> set_option new. {a..b})" unfolding set by blast
  show ?thesis
  proof (cases "sort ivs")
    case Nil
    then show ?thesis using cov by (simp add: merge_income_gaps_def flip: ivs_def) (simp add: separated_def)
  next
    case (Cons iv rest)
    obtain s e where iv: "iv = (s, e)" by (cases iv)
    have "sorted ((s, e) # rest)" using sorted_sort [of ivs] by (simp add: Cons iv)
    moreover have "separated ([] @ [(s, e)])" "\<forall>(s, e) \<in> set rest. s \<le> e" using ne by (auto simp: separated_def Cons iv)
    ultimately show ?thesis using merge_intervals [of s e rest "[]" s e] cov by (simp add: merge_income_gaps_def Cons iv flip: ivs_def)
  qed
qed

lemma merge_interval_proper:
  assumes "merged \<noteq> []" "\<forall>iv \<in> set merged. fst iv < snd iv" "fst iv < snd iv"
  shows "merge_interval iv merged \<noteq> [] \<and> (\<forall>iv \<in> set (merge_interval iv merged). fst iv < snd iv)"
proof -
  obtain ms a b where "merged = ms @ [(a, b)]" using assms(1) by (cases merged rule: rev_cases) auto
  then show ?thesis using assms by (cases iv) (auto simp: merge_interval_def)
qed

lemma merge_intervals_proper:
  assumes "merged \<noteq> []" "\<forall>iv \<in> set merged. fst iv < snd iv" "\<forall>iv \<in> set ivs. fst iv < snd iv"
  shows "\<forall>iv \<in> set (fold merge_interval ivs merged). fst iv < snd iv"
  using assms
proof (induction ivs arbitrary: merged)
  case (Cons iv ivs)
  then have "merge_interval iv merged \<noteq> [] \<and> (\<forall>iv \<in> set (merge_interval iv merged). fst iv < snd iv)"
    by (intro merge_interval_proper) simp_all
  then show ?case using Cons.IH [of "merge_interval iv merged"] Cons.prems(3) by simp
qed simp

lemma merged_gaps_proper:
  assumes "\<forall>(a, b) \<in> set gaps. a < b" "\<forall>(a, b) \<in> set_option new. a < b"
  shows "\<forall>(a, b) \<in> set (merge_income_gaps gaps new). a < b"
proof -
  define ivs where "ivs = sort (gaps @ (case new of None \<Rightarrow> [] | Some g \<Rightarrow> [g]))"
  have proper: "\<forall>iv \<in> set ivs. fst iv < snd iv" using assms by (auto simp: ivs_def split: option.splits)
  show ?thesis
  proof (cases ivs)
    case Nil
    then show ?thesis by (simp add: merge_income_gaps_def flip: ivs_def)
  next
    case (Cons iv rest)
    then have "merge_income_gaps gaps new = fold merge_interval rest [iv]" by (simp add: merge_income_gaps_def flip: ivs_def)
    moreover have "\<forall>iv \<in> set (fold merge_interval rest [iv]). fst iv < snd iv"
      by (rule merge_intervals_proper) (use proper Cons in auto)
    ultimately show ?thesis by (simp add: case_prod_unfold)
  qed
qed

text \<open>
  The gaps in the history are kept exactly.  Recording a new gap gives a list of separate, ordered
  intervals that cover what the old gaps and the new one cover, and nothing else.
\<close>

theorem merged_gaps_exact:
  assumes "\<forall>(a, b) \<in> set gaps. a < b" and "\<forall>(a, b) \<in> set_option new. a < b"
  shows "separated (merge_income_gaps gaps new) \<and> covered (merge_income_gaps gaps new) = covered gaps \<union> (\<Union>(a, b) \<in> set_option new. {a..b})"
  by (rule merged_gaps [OF assms])

theorem merged_gaps_exact_witness:
  "covered (merge_income_gaps [(1, 3), (8, 9)] (Some (2, 5))) = covered [(1, 3), (8, 9)] \<union> {2..5} \<and> merge_income_gaps [(1, 3), (8, 9)] (Some (2, 5)) = [(1, 5), (8, 9)]"
proof -
  have "merge_income_gaps [(1, 3), (8, 9)] (Some (2, 5)) = [(1, 5), (8, 9)]"
    by (simp add: merge_income_gaps_def merge_interval_def)
  with merged_gaps_exact [of "[(1, 3), (8, 9)]" "Some (2, 5)"] show ?thesis by simp
qed

end
