(* ===== verification/Tax_Collection.thy ===== *)
theory Tax_Collection
  imports Tax_Ledger
begin

text \<open>
  \<open>src/live/tax_ledger.py\<close>, the collection: reading the trades and the income of the account page by
  page under one page budget, the new watermark, and the cycle that loads the watermark, collects,
  appends to the ledger and saves the watermark.

  The venue is a parameter: a client over an arbitrary venue state, whose requests return decoded JSON
  or raise.  \<open>int(t.timestamp() * 1000)\<close> is the parameter \<open>cp_ms\<close>; the hypothesis on it is that it
  rounds down to a millisecond.  The page budget that is left, \<open>max_pages - pages_used\<close>, is part of the
  collector state; it decreases with every page read, and is the measure of both loops.  An issue
  keeps its stream and its stage; its detail is a text for the operator.
\<close>

section \<open>Venue rows\<close>

record tax_issue =
  ti_stream :: string
  ti_stage :: string

definition INCOME_TYPE_KIND :: "(string, string) dict" where
  "INCOME_TYPE_KIND =
     [(''REALIZED_PNL'', ''REALIZED_PNL''), (''DELIVERED_SETTELMENT'', ''REALIZED_PNL''), (''FUNDING_FEE'', ''FUNDING_FEE''),
      (''COMMISSION'', ''COMMISSION''), (''TRANSFER'', ''TRANSFER''), (''INTERNAL_TRANSFER'', ''TRANSFER''),
      (''CROSS_COLLATERAL_TRANSFER'', ''TRANSFER''), (''STRATEGY_UMFUTURES_TRANSFER'', ''TRANSFER''),
      (''COIN_SWAP_DEPOSIT'', ''TRANSFER''), (''COIN_SWAP_WITHDRAW'', ''TRANSFER''), (''AUTO_EXCHANGE'', ''TRANSFER''),
      (''INSURANCE_CLEAR'', ''UNCLASSIFIED''), (''WELCOME_BONUS'', ''UNCLASSIFIED''), (''REFERRAL_KICKBACK'', ''UNCLASSIFIED''),
      (''COMMISSION_REBATE'', ''UNCLASSIFIED''), (''API_REBATE'', ''UNCLASSIFIED''), (''CONTEST_REWARD'', ''UNCLASSIFIED''),
      (''POSITION_LIMIT_INCREASE_FEE'', ''UNCLASSIFIED''), (''FEE_RETURN'', ''UNCLASSIFIED''), (''BFUSD_REWARD'', ''UNCLASSIFIED''),
      (''OPTIONS_PREMIUM_FEE'', ''UNCLASSIFIED''), (''OPTIONS_SETTLE_PROFIT'', ''UNCLASSIFIED'')]"

definition classify_income_type :: "string \<Rightarrow> (string \<times> bool) res" where
  "classify_income_type t =
     (if t = [] then Inl DataIntegrityError
      else case map_of INCOME_TYPE_KIND (py_upper t) of Some kind \<Rightarrow> Inr (kind, True) | None \<Rightarrow> Inr (''UNCLASSIFIED'', False))"

definition venue_field :: "(string \<times> json) list \<Rightarrow> string \<Rightarrow> json res" where
  "venue_field entry key = (if obj_get entry key = JNull then Inl DataIntegrityError else Inr (obj_get entry key))"

definition venue_int :: "text_codec \<Rightarrow> (string \<times> json) list \<Rightarrow> string \<Rightarrow> int res" where
  "venue_int c entry key = rbind (venue_field entry key) (\<lambda>raw. case py_int c raw of Inr i \<Rightarrow> Inr i | Inl _ \<Rightarrow> Inl DataIntegrityError)"

definition venue_decimal :: "text_codec \<Rightarrow> (string \<times> json) list \<Rightarrow> string \<Rightarrow> decimal res" where
  "venue_decimal c entry key = (case obj_get entry key of
     JStr s \<Rightarrow> parse_tax_decimal c (JStr s) | JInt i \<Rightarrow> parse_tax_decimal c (JInt i) | _ \<Rightarrow> Inl DataIntegrityError)"

text \<open>\<open>pd.Timestamp(ms, unit="ms", tz="UTC")\<close>: a value beyond the 64 bit range of nanoseconds raises
  \<open>OutOfBoundsDatetime\<close>, a \<open>ValueError\<close>.\<close>

definition ms_timestamp :: "int \<Rightarrow> timestamp res" where
  "ms_timestamp ms = (if \<bar>ms * 1000000\<bar> < 2 ^ 63 then Inr (ms * 1000000) else Inl ValueError)"

definition parse_trade_entry :: "text_codec \<Rightarrow> string \<Rightarrow> string \<Rightarrow> (string \<times> json) list \<Rightarrow> tax_record res" where
  "parse_trade_entry c s settlement_asset entry =
     rbind (venue_int c entry ''id'') (\<lambda>venue_id.
     rbind (venue_decimal c entry ''price'') (\<lambda>price.
     rbind (venue_decimal c entry ''qty'') (\<lambda>qty.
     rbind (venue_decimal c entry ''quoteQty'') (\<lambda>quote_qty.
     rbind (venue_decimal c entry ''commission'') (\<lambda>fee.
     rbind (venue_decimal c entry ''realizedPnl'') (\<lambda>realized_pnl.
     rbind (rbind (venue_int c entry ''time'') ms_timestamp) (\<lambda>event_time.
     rbind (venue_field entry ''buyer'') (\<lambda>buyer.
     case buyer of JBool is_buyer \<Rightarrow>
       (case (obj_get entry ''commissionAsset'', obj_get entry ''positionSide'') of
          (JStr fee_asset, JStr position_side) \<Rightarrow>
            if fee_asset = [] \<or> position_side \<noteq> ONE_WAY_POSITION_SIDE then Inl DataIntegrityError
            else Inr \<lparr>tr_record_id = ''venue:TRADE:'' @ str_int venue_id, tr_kind = ''TRADE'', tr_event_time = event_time,
              tr_symbol = (if py_bool (obj_get entry ''symbol'') then py_str c (obj_get entry ''symbol'') else s),
              tr_side = (if is_buyer then ''BUY'' else ''SELL''), tr_quantity = qty, tr_price = price, tr_quote_qty = quote_qty,
              tr_fee = fee, tr_fee_asset = fee_asset, tr_realized_pnl = realized_pnl, tr_income_asset = settlement_asset,
              tr_is_maker = py_bool (obj_get_default entry ''maker'' (JBool False)), tr_venue_id = venue_id, tr_source = ''venue'',
              tr_mode = [], tr_income_type = [], tr_position_side = ONE_WAY_POSITION_SIDE\<rparr>
        | _ \<Rightarrow> Inl DataIntegrityError)
     | _ \<Rightarrow> Inl DataIntegrityError))))))))"

definition parse_trade_row :: "text_codec \<Rightarrow> string \<Rightarrow> string \<Rightarrow> json \<Rightarrow> tax_record res" where
  "parse_trade_row c s settlement_asset entry = (case entry of JObj d \<Rightarrow> parse_trade_entry c s settlement_asset d | _ \<Rightarrow> Inl DataIntegrityError)"

section \<open>The collector\<close>

record 'v tax_client =
  cl_user_trades :: "string \<Rightarrow> int option \<Rightarrow> int \<Rightarrow> 'v \<Rightarrow> json res \<times> 'v"
  cl_income :: "int \<Rightarrow> int \<Rightarrow> int \<Rightarrow> 'v \<Rightarrow> json res \<times> 'v"

record 'v collector =
  co_venue :: 'v
  co_budget :: nat
  co_issues :: "tax_issue list"

record collection_params =
  cp_codec :: text_codec
  cp_ms :: "timestamp \<Rightarrow> int"
  cp_mode :: string
  cp_now :: timestamp
  cp_settlement_asset :: string
  cp_income_page_limit :: int
  cp_trades_page_limit :: int
  cp_income_window :: int
  cp_income_overlap :: int
  cp_income_retention :: int

definition report_issue :: "string \<Rightarrow> string \<Rightarrow> ('v collector, unit) sx" where
  "report_issue stream stage = sx_modify (\<lambda>s. s\<lparr>co_issues := co_issues s @ [\<lparr>ti_stream = stream, ti_stage = stage\<rparr>]\<rparr>)"

text \<open>One request; whatever it raises is a value.  A page that arrived is counted by the caller.\<close>

definition request :: "('v \<Rightarrow> json res \<times> 'v) \<Rightarrow> ('v collector, json res) sx" where
  "request call s = (case call (co_venue s) of (r, v) \<Rightarrow> (Inr r, s\<lparr>co_venue := v\<rparr>))"

definition spend_page :: "('v collector, unit) sx" where
  "spend_page = sx_modify (\<lambda>s. s\<lparr>co_budget := co_budget s - 1\<rparr>)"

definition parse_income_row :: "text_codec \<Rightarrow> json \<Rightarrow> ('v collector, tax_record) sx" where
  "parse_income_row c j = (case j of
     JObj entry \<Rightarrow>
       sx_bind (sx_lift (venue_int c entry ''tranId'')) (\<lambda>tran_id.
       sx_bind (sx_lift (venue_field entry ''incomeType'')) (\<lambda>t. let raw_type = py_str c t in
       sx_bind (sx_lift (classify_income_type raw_type)) (\<lambda>(kind, known).
       sx_bind (if known then sx_return () else report_issue ''income'' ''classify'') (\<lambda>_.
       sx_bind (sx_lift (venue_decimal c entry ''income'')) (\<lambda>inc.
       sx_bind (sx_lift (rbind (venue_int c entry ''time'') ms_timestamp)) (\<lambda>event_time.
         sx_return \<lparr>tr_record_id = ''venue:'' @ py_upper raw_type @ '':'' @ str_int tran_id, tr_kind = kind, tr_event_time = event_time,
           tr_symbol = (if py_bool (obj_get entry ''symbol'') then py_str c (obj_get entry ''symbol'') else []),
           tr_side = [], tr_quantity = 0, tr_price = 0, tr_quote_qty = 0, tr_fee = 0, tr_fee_asset = [], tr_realized_pnl = inc,
           tr_income_asset = (if py_bool (obj_get entry ''asset'') then py_str c (obj_get entry ''asset'') else []),
           tr_is_maker = False, tr_venue_id = tran_id, tr_source = ''venue'', tr_mode = [], tr_income_type = py_upper raw_type,
           tr_position_side = []\<rparr>))))))
   | _ \<Rightarrow> sx_raise DataIntegrityError)"

text \<open>\<open>try: body except DataIntegrityError\<close>: the exception as a value, any other leaves.\<close>

definition sx_catch_integrity :: "('s, 'a) sx \<Rightarrow> ('s, 'a option) sx" where
  "sx_catch_integrity m s = (case m s of
     (Inr x, t) \<Rightarrow> (Inr (Some x), t) | (Inl e, t) \<Rightarrow> (if e = DataIntegrityError then Inr None else Inl e, t))"

section \<open>Trades\<close>

definition opt_with :: "('a \<Rightarrow> 'a \<Rightarrow> 'a) \<Rightarrow> 'a option \<Rightarrow> 'a \<Rightarrow> 'a option" where
  "opt_with f m x = Some (case m of None \<Rightarrow> x | Some y \<Rightarrow> f y x)"

record trade_scan =
  ts_records :: "tax_record list"
  ts_parsed_max :: "int option"
  ts_failed_min :: "int option"
  ts_page_failed :: bool

definition empty_scan :: trade_scan where
  "empty_scan = \<lparr>ts_records = [], ts_parsed_max = None, ts_failed_min = None, ts_page_failed = False\<rparr>"

text \<open>\<open>int(entry["id"])\<close> of a row that did not parse, with \<open>TypeError\<close>, \<open>ValueError\<close> and
  \<open>AttributeError\<close> suppressed: a missing key is a \<open>KeyError\<close>.\<close>

definition failed_id :: "text_codec \<Rightarrow> json \<Rightarrow> int option res" where
  "failed_id c entry = (case entry of
     JObj d \<Rightarrow> rbind (obj_item d ''id'') (\<lambda>raw. case py_int c raw of Inr i \<Rightarrow> Inr (Some i) | Inl _ \<Rightarrow> Inr None)
   | _ \<Rightarrow> Inr None)"

definition trades_stream :: "string \<Rightarrow> string" where "trades_stream s = ''trades:'' @ s"

definition scan_trade :: "collection_params \<Rightarrow> string \<Rightarrow> json \<Rightarrow> trade_scan \<Rightarrow> ('v collector, trade_scan) sx" where
  "scan_trade p s entry sc =
     sx_bind (sx_catch_integrity (sx_lift (parse_trade_row (cp_codec p) s (cp_settlement_asset p) entry))) (\<lambda>parsed. case parsed of
       None \<Rightarrow>
         sx_bind (sx_lift (failed_id (cp_codec p) entry)) (\<lambda>fid.
         sx_bind (report_issue (trades_stream s) ''parse'') (\<lambda>_.
           sx_return (sc\<lparr>ts_page_failed := True,
             ts_failed_min := (case fid of None \<Rightarrow> ts_failed_min sc | Some i \<Rightarrow> opt_with min (ts_failed_min sc) i)\<rparr>)))
     | Some r \<Rightarrow> sx_return (sc\<lparr>ts_records := ts_records sc @ [r\<lparr>tr_mode := cp_mode p\<rparr>],
           ts_parsed_max := opt_with max (ts_parsed_max sc) (tr_venue_id r)\<rparr>))"

definition trade_page ::
    "collection_params \<Rightarrow> string \<Rightarrow> trade_scan \<Rightarrow> (int option \<Rightarrow> trade_scan \<Rightarrow> ('v collector, trade_scan) sx) \<Rightarrow> json \<Rightarrow> ('v collector, trade_scan) sx" where
  "trade_page p s sc rest payload = (case payload of
     JArr page \<Rightarrow> sx_bind (sx_foldM (scan_trade p s) page (sc\<lparr>ts_page_failed := False\<rparr>)) (\<lambda>sc'.
       case ts_parsed_max sc' of
         None \<Rightarrow> sx_return sc'
       | Some m \<Rightarrow> if int (length page) < cp_trades_page_limit p \<or> ts_page_failed sc' then sx_return sc' else rest (Some (m + 1)) sc')
   | _ \<Rightarrow> sx_bind (report_issue (trades_stream s) ''fetch'') (\<lambda>_. sx_return sc))"

primrec trade_pages ::
    "'v tax_client \<Rightarrow> collection_params \<Rightarrow> string \<Rightarrow> nat \<Rightarrow> int option \<Rightarrow> trade_scan \<Rightarrow> ('v collector, trade_scan) sx" where
  "trade_pages cl p s 0 from_id sc = sx_bind (report_issue (trades_stream s) ''page_cap'') (\<lambda>_. sx_return sc)"
| "trade_pages cl p s (Suc n) from_id sc =
     sx_bind (request (cl_user_trades cl s from_id (cp_trades_page_limit p))) (\<lambda>reply. case reply of
       Inl _ \<Rightarrow> sx_bind (report_issue (trades_stream s) ''fetch'') (\<lambda>_. sx_return sc)
     | Inr payload \<Rightarrow> sx_bind spend_page (\<lambda>_. trade_page p s sc (trade_pages cl p s n) payload))"

definition advance_trade_id :: "string \<Rightarrow> trade_scan \<Rightarrow> (string, int) dict \<Rightarrow> (string, int) dict" where
  "advance_trade_id s sc ids = (case (ts_failed_min sc, ts_parsed_max sc) of
     (Some f, _) \<Rightarrow> AList.update s (max (dict_get ids s (-1)) (f - 1)) ids
   | (None, Some m) \<Rightarrow> AList.update s (max (dict_get ids s (-1)) m) ids
   | (None, None) \<Rightarrow> ids)"

definition collect_symbol ::
    "'v tax_client \<Rightarrow> collection_params \<Rightarrow> tax_watermark \<Rightarrow> string \<Rightarrow> tax_record list \<times> (string, int) dict
     \<Rightarrow> ('v collector, tax_record list \<times> (string, int) dict) sx" where
  "collect_symbol cl p w s = (\<lambda>(records, ids).
     sx_bind (sx_gets co_budget) (\<lambda>n.
     sx_bind (trade_pages cl p s n (map_option (\<lambda>i. i + 1) (map_of (tw_last_trade_id w) s)) empty_scan) (\<lambda>sc.
       sx_return (records @ ts_records sc, advance_trade_id s sc ids))))"

definition collect_trades ::
    "'v tax_client \<Rightarrow> collection_params \<Rightarrow> tax_watermark \<Rightarrow> string list \<Rightarrow> ('v collector, tax_record list \<times> (string, int) dict) sx" where
  "collect_trades cl p w symbols = sx_foldM (collect_symbol cl p w) symbols ([], tw_last_trade_id w)"

section \<open>Income\<close>

type_synonym income_signature = "string \<times> decimal \<times> string \<times> string"

record income_scan =
  is_records :: "tax_record list"
  is_seen :: "(string, income_signature) dict"
  is_conflict_cap :: "timestamp option"

definition empty_income :: income_scan where
  "empty_income = \<lparr>is_records = [], is_seen = [], is_conflict_cap = None\<rparr>"

definition income_signature :: "text_codec \<Rightarrow> tax_record \<Rightarrow> income_signature" where
  "income_signature c r = (tr_symbol r, tr_realized_pnl r, tc_iso c (tr_event_time r), tr_income_asset r)"

definition keep_income :: "text_codec \<Rightarrow> tax_record \<Rightarrow> income_scan \<Rightarrow> ('v collector, income_scan) sx" where
  "keep_income c r sc = (case map_of (is_seen sc) (tr_record_id r) of
     Some sig \<Rightarrow>
       if sig \<noteq> income_signature c r
       then sx_bind (report_issue ''income'' ''id_conflict'') (\<lambda>_.
              sx_return (sc\<lparr>is_conflict_cap := opt_with min (is_conflict_cap sc) (tr_event_time r)\<rparr>))
       else sx_return sc
   | None \<Rightarrow> sx_return (sc\<lparr>is_seen := AList.update (tr_record_id r) (income_signature c r) (is_seen sc), is_records := is_records sc @ [r]\<rparr>))"

text \<open>The rows of a page: the scan, the latest time of a row that parsed, and whether one did not.\<close>

definition scan_income ::
    "collection_params \<Rightarrow> json \<Rightarrow> income_scan \<times> timestamp option \<times> bool \<Rightarrow> ('v collector, income_scan \<times> timestamp option \<times> bool) sx" where
  "scan_income p entry = (\<lambda>(sc, page_last, failed).
     sx_bind (sx_catch_integrity (parse_income_row (cp_codec p) entry)) (\<lambda>parsed. case parsed of
       None \<Rightarrow> sx_bind (report_issue ''income'' ''parse'') (\<lambda>_. sx_return (sc, page_last, True))
     | Some r \<Rightarrow> sx_bind (keep_income (cp_codec p) (r\<lparr>tr_mode := cp_mode p\<rparr>) sc) (\<lambda>sc'.
         sx_return (sc', opt_with max page_last (tr_event_time r), failed))))"

text \<open>How the pages of a window end: the budget ran out before the page that starts at a time, the
  window failed, or all its rows were read.\<close>

datatype window_end = Capped timestamp | Window_Failed | Window_Done

text \<open>A page that arrived, with what reads the rest of the window.\<close>

definition income_page ::
    "collection_params \<Rightarrow> timestamp \<Rightarrow> int option \<Rightarrow> bool \<Rightarrow> income_scan
     \<Rightarrow> (timestamp \<Rightarrow> int option \<Rightarrow> bool \<Rightarrow> income_scan \<Rightarrow> ('v collector, window_end \<times> income_scan) sx)
     \<Rightarrow> json \<Rightarrow> ('v collector, window_end \<times> income_scan) sx" where
  "income_page p page_start prev_last_ms failed sc rest payload = (case payload of
     JArr page \<Rightarrow> sx_bind (sx_foldM (scan_income p) page (sc, None, failed)) (\<lambda>(sc', page_last, failed').
       let finish = sx_return (if failed' then Window_Failed else Window_Done, sc') in
       case page_last of
         None \<Rightarrow> finish
       | Some t \<Rightarrow>
           if cp_income_page_limit p \<le> int (length page)
              \<and> (cp_ms p t = cp_ms p page_start \<or> (case prev_last_ms of None \<Rightarrow> False | Some m \<Rightarrow> cp_ms p t \<le> m))
           then sx_bind (report_issue ''income'' ''page_cap'') (\<lambda>_. sx_return (Window_Failed, sc'))
           else if int (length page) < cp_income_page_limit p then finish
           else rest t (Some (cp_ms p t)) failed' sc')
   | _ \<Rightarrow> sx_bind (report_issue ''income'' ''fetch'') (\<lambda>_. sx_return (Window_Failed, sc)))"

primrec income_pages ::
    "'v tax_client \<Rightarrow> collection_params \<Rightarrow> timestamp \<Rightarrow> nat \<Rightarrow> timestamp \<Rightarrow> int option \<Rightarrow> bool \<Rightarrow> income_scan
     \<Rightarrow> ('v collector, window_end \<times> income_scan) sx" where
  "income_pages cl p window_end 0 page_start prev_last_ms failed sc =
     sx_bind (report_issue ''income'' ''page_cap'') (\<lambda>_. sx_return (Capped page_start, sc))"
| "income_pages cl p window_end (Suc n) page_start prev_last_ms failed sc =
     sx_bind (request (cl_income cl (cp_ms p page_start) (cp_ms p window_end) (cp_income_page_limit p))) (\<lambda>reply. case reply of
       Inl _ \<Rightarrow> sx_bind (report_issue ''income'' ''fetch'') (\<lambda>_. sx_return (Window_Failed, sc))
     | Inr payload \<Rightarrow> sx_bind spend_page (\<lambda>_. income_page p page_start prev_last_ms failed sc (income_pages cl p window_end n) payload))"

text \<open>A window that is done has cost a page.\<close>

definition budget_falls :: "'v collector \<Rightarrow> 'v collector \<Rightarrow> bool" where
  "budget_falls s t \<longleftrightarrow> co_budget t \<le> co_budget s"

lemma preorder_budget: "reflp budget_falls" "transp budget_falls"
  by (auto simp: budget_falls_def reflp_def transp_def)

lemma budget_steps [simp, intro]:
  "sx_keeps budget_falls (report_issue a b)" "sx_keeps budget_falls (request f)" "sx_keeps budget_falls spend_page"
  "sx_keeps budget_falls (sx_return x)" "sx_keeps budget_falls (sx_raise e)" "sx_keeps budget_falls (sx_lift m)" "sx_keeps budget_falls (sx_gets g)"
  by (auto simp: sx_keeps_def budget_falls_def report_issue_def request_def spend_page_def sx_defs split: prod.splits)

lemma sx_catch_state: "snd (sx_catch_integrity m s) = snd (m s)"
  by (auto simp: sx_catch_integrity_def split: prod.splits sum.splits)

lemma budget_catch [simp]: "sx_keeps budget_falls (sx_catch_integrity m) = sx_keeps budget_falls m"
  by (simp add: sx_keeps_def sx_catch_state)

lemmas budget_bind = sx_keeps_bind [OF preorder_budget(2)]

lemma budget_income [simp]: "sx_keeps budget_falls (parse_income_row c j)"
  by (auto simp: parse_income_row_def Let_def intro!: budget_bind split: json.splits)

lemma budget_keep_income [simp]: "sx_keeps budget_falls (keep_income c r sc)"
  by (auto simp: keep_income_def intro!: budget_bind split: option.splits)

lemma budget_scan_income [simp]: "sx_keeps budget_falls (scan_income p entry acc)"
  by (auto simp: scan_income_def intro!: budget_bind split: prod.splits option.splits)

lemma budget_scan_incomes: "sx_keeps budget_falls (sx_foldM (scan_income p) page acc)"
  by (rule sx_keeps_foldM [OF preorder_budget]) simp

lemma budget_income_page:
  "(\<And>t m f sc. sx_keeps budget_falls (rest t m f sc)) \<Longrightarrow> sx_keeps budget_falls (income_page p ps prev failed sc rest payload)"
  by (auto simp: income_page_def Let_def intro!: budget_bind budget_scan_incomes split: json.splits option.splits prod.splits)

lemma budget_income_pages: "sx_keeps budget_falls (income_pages cl p we n ps prev failed sc)"
  by (induction n arbitrary: ps prev failed sc) (auto intro!: budget_bind budget_income_page split: sum.splits)

lemma window_done_costs:
  assumes "income_pages cl p we (co_budget s) ws prev failed sc s = (Inr (Window_Done, sc'), s')"
  shows "co_budget s' < co_budget s"
proof (cases "co_budget s")
  case 0
  then show ?thesis using assms by (simp add: sx_bind_Inr)
next
  case (Suc n)
  obtain reply v where call: "cl_income cl (cp_ms p ws) (cp_ms p we) (cp_income_page_limit p) (co_venue s) = (reply, v)" by fastforce
  show ?thesis
  proof (cases reply)
    case (Inl e)
    then show ?thesis using assms Suc call by (simp add: sx_bind_Inr request_def)
  next
    case (Inr payload)
    with assms Suc call have "income_page p ws prev failed sc (income_pages cl p we n) payload (s\<lparr>co_venue := v, co_budget := n\<rparr>) = (Inr (Window_Done, sc'), s')"
      by (simp add: sx_bind_def request_def spend_page_def sx_modify_def)
    from sx_keepsD [OF budget_income_page this] show ?thesis by (simp add: budget_income_pages Suc budget_falls_def)
  qed
qed

record income_result =
  ir_scan :: income_scan
  ir_complete_through :: "timestamp option"
  ir_window_completed :: bool

text \<open>The loop over the windows, which ends because every window that is done has cost a page.\<close>

function income_windows ::
    "'v tax_client \<Rightarrow> collection_params \<Rightarrow> timestamp \<Rightarrow> timestamp option \<Rightarrow> bool \<Rightarrow> income_scan \<Rightarrow> ('v collector, income_result) sx" where
  "income_windows cl p window_start through completed sc s =
     (if cp_now p \<le> window_start
      then (Inr \<lparr>ir_scan = sc, ir_complete_through = Some (cp_now p), ir_window_completed = completed\<rparr>, s)
      else let window_end = min (window_start + cp_income_window p) (cp_now p) in
        case income_pages cl p window_end (co_budget s) window_start None False sc s of
          (Inl e, s') \<Rightarrow> (Inl e, s')
        | (Inr (Capped page_start, sc'), s') \<Rightarrow>
            (Inr \<lparr>ir_scan = sc', ir_complete_through = opt_with max through (page_start - 1000000), ir_window_completed = completed\<rparr>, s')
        | (Inr (Window_Failed, sc'), s') \<Rightarrow>
            (Inr \<lparr>ir_scan = sc', ir_complete_through = through, ir_window_completed = completed\<rparr>, s')
        | (Inr (Window_Done, sc'), s') \<Rightarrow> income_windows cl p window_end (Some window_end) True sc' s')"
  by pat_completeness auto
termination
  by (relation "measure (\<lambda>(cl, p, ws, through, completed, sc, s). co_budget s)") (auto dest: window_done_costs [OF sym])

declare income_windows.simps [simp del]

definition retention_floor :: "collection_params \<Rightarrow> timestamp" where
  "retention_floor p = cp_now p - cp_income_retention p"

definition income_start :: "collection_params \<Rightarrow> tax_watermark \<Rightarrow> timestamp" where
  "income_start p w = min (cp_now p) (case tw_last_collected_at w of
     None \<Rightarrow> retention_floor p
   | Some t \<Rightarrow> if t < retention_floor p then retention_floor p else t - cp_income_overlap p)"

definition retention_gap :: "collection_params \<Rightarrow> tax_watermark \<Rightarrow> (timestamp \<times> timestamp) option" where
  "retention_gap p w = (case tw_last_collected_at w of
     None \<Rightarrow> None | Some t \<Rightarrow> if t < retention_floor p then Some (t, retention_floor p) else None)"

definition collect_income :: "'v tax_client \<Rightarrow> collection_params \<Rightarrow> tax_watermark \<Rightarrow> ('v collector, income_result) sx" where
  "collect_income cl p w =
     sx_bind (if retention_gap p w = None then sx_return () else report_issue ''income'' ''retention_gap'') (\<lambda>_.
       income_windows cl p (income_start p w) None False empty_income)"

section \<open>The new watermark\<close>

definition new_collected_at :: "collection_params \<Rightarrow> tax_watermark \<Rightarrow> income_result \<Rightarrow> timestamp option" where
  "new_collected_at p w r =
     (let advanced = (case (ir_complete_through r, tw_last_collected_at w) of
            (None, old) \<Rightarrow> old | (Some t, None) \<Rightarrow> Some t | (Some t, Some old) \<Rightarrow> Some (max old t));
          bounded = map_option (min (cp_now p)) advanced
      in case is_conflict_cap (ir_scan r) of None \<Rightarrow> bounded | Some cap \<Rightarrow> map_option (min cap) bounded)"

definition new_watermark :: "collection_params \<Rightarrow> tax_watermark \<Rightarrow> string list \<Rightarrow> (string, int) dict \<Rightarrow> income_result \<Rightarrow> tax_watermark" where
  "new_watermark p w symbols ids r =
     \<lparr>tw_last_trade_id = ids, tw_last_collected_at = new_collected_at p w r,
      tw_known_trade_symbols =
        sorted_set (tw_known_trade_symbols w @ filter (\<lambda>s. s \<noteq> []) (symbols @ map tr_symbol (is_records (ir_scan r)))),
      tw_income_covered_from =
        (if tw_last_collected_at w = None \<and> tw_income_covered_from w = None \<and> ir_window_completed r then Some (income_start p w)
         else tw_income_covered_from w),
      tw_income_gaps = merge_income_gaps (tw_income_gaps w) (retention_gap p w),
      tw_genesis_at = tw_genesis_at w, tw_genesis_positions = tw_genesis_positions w\<rparr>"

definition collect_tax_records ::
    "'v tax_client \<Rightarrow> collection_params \<Rightarrow> tax_watermark \<Rightarrow> string list \<Rightarrow> ('v collector, tax_record list \<times> tax_watermark) sx" where
  "collect_tax_records cl p w symbols =
     sx_bind (collect_trades cl p w symbols) (\<lambda>(trade_records, ids).
     sx_bind (collect_income cl p w) (\<lambda>r.
       sx_return (sort_key tr_event_time (trade_records @ is_records (ir_scan r)), new_watermark p w symbols ids r)))"

section \<open>The collection cycle\<close>

definition tax_collection_symbols :: "string list \<Rightarrow> tax_watermark \<Rightarrow> (string, decimal) dict \<Rightarrow> string list res" where
  "tax_collection_symbols requested w venue_positions =
     (let known = tw_known_trade_symbols w @ map fst (tw_last_trade_id w)
      in if [] \<in> set (requested @ known @ map fst venue_positions) then Inl ValueError
         else Inr (sorted_set (requested @ known @ map fst (filter (\<lambda>(_, qty). qty \<noteq> 0) venue_positions))))"

record venue_position_snapshot =
  vs_taken_at :: timestamp
  vs_positions :: "(string, decimal) dict"

record 'v tax_world =
  wd_venue :: 'v
  wd_dir :: tax_dir
  wd_watermark :: ledger_file

definition with_genesis :: "venue_position_snapshot option \<Rightarrow> tax_watermark \<Rightarrow> tax_watermark \<Rightarrow> tax_watermark \<times> tax_issue list" where
  "with_genesis snapshot w new = (case (tw_genesis_at w, snapshot) of
     (None, Some v) \<Rightarrow> (let held = filter (\<lambda>(_, q). q \<noteq> 0) (vs_positions v)
        in (new\<lparr>tw_genesis_at := Some (vs_taken_at v), tw_genesis_positions := held\<rparr>,
            if held = [] then [] else [\<lparr>ti_stream = ''genesis'', ti_stage = ''genesis_not_flat''\<rparr>]))
   | _ \<Rightarrow> (new, []))"

text \<open>The collector runs on the venue of the world and leaves its files alone.\<close>

definition on_venue :: "nat \<Rightarrow> ('v collector, 'a) sx \<Rightarrow> ('v tax_world, 'a \<times> tax_issue list) sx" where
  "on_venue max_pages m s = (case m \<lparr>co_venue = wd_venue s, co_budget = max_pages, co_issues = []\<rparr> of
     (Inl e, t) \<Rightarrow> (Inl e, s\<lparr>wd_venue := co_venue t\<rparr>) | (Inr x, t) \<Rightarrow> (Inr (x, co_issues t), s\<lparr>wd_venue := co_venue t\<rparr>))"

definition on_dir :: "(tax_dir, 'a) sx \<Rightarrow> ('v tax_world, 'a) sx" where
  "on_dir m s = (case m (wd_dir s) of (r, d) \<Rightarrow> (r, s\<lparr>wd_dir := d\<rparr>))"

definition on_watermark :: "(ledger_file, 'a) sx \<Rightarrow> ('v tax_world, 'a) sx" where
  "on_watermark m s = (case m (wd_watermark s) of (r, f) \<Rightarrow> (r, s\<lparr>wd_watermark := f\<rparr>))"

definition persist_collected ::
    "text_codec \<Rightarrow> (decimal \<Rightarrow> string) \<Rightarrow> (timestamp \<Rightarrow> string) \<Rightarrow> tax_record list \<Rightarrow> tax_watermark \<Rightarrow> ('v tax_world, nat) sx" where
  "persist_collected c fixed month records new =
     sx_bind (sx_gets (partition_fresh_tax_records c month records \<circ> wd_dir)) (\<lambda>part.
     sx_bind (sx_lift part) (\<lambda>fresh.
     sx_bind (on_dir (append_tax_records c fixed month records)) (\<lambda>_.
     sx_bind (on_watermark (save_tax_watermark c fixed new)) (\<lambda>_.
       sx_return (sum_list (map (length \<circ> snd) fresh))))))"

definition collect_and_persist_live_tax ::
    "'v tax_client \<Rightarrow> collection_params \<Rightarrow> (decimal \<Rightarrow> string) \<Rightarrow> (timestamp \<Rightarrow> string) \<Rightarrow> nat \<Rightarrow> string list \<Rightarrow> venue_position_snapshot option
     \<Rightarrow> ('v tax_world, nat \<times> tax_issue list) sx" where
  "collect_and_persist_live_tax cl p fixed month max_pages symbols snapshot =
     sx_bind (sx_gets (load_tax_watermark (cp_codec p) \<circ> wd_watermark)) (\<lambda>loaded.
     sx_bind (sx_lift loaded) (\<lambda>w.
     sx_bind (sx_lift (tax_collection_symbols symbols w (case snapshot of None \<Rightarrow> [] | Some v \<Rightarrow> vs_positions v))) (\<lambda>universe.
     sx_bind (on_venue max_pages (collect_tax_records cl p w universe)) (\<lambda>((records, collected), found).
     sx_bind (persist_collected (cp_codec p) fixed month records (fst (with_genesis snapshot w collected))) (\<lambda>new_rows.
       sx_return (new_rows, found @ snd (with_genesis snapshot w collected)))))))"

end
