(* ===== verification/Tax_Coverage.thy ===== *)
theory Tax_Coverage
  imports Tax_Collection
begin

text \<open>
  What the collection of \<open>src/live/tax_ledger.py\<close> promises: the watermark never moves past a row of the
  account that is not in the ledger.

  The contract of the venue is a hypothesis: a request either fails or returns the rows it asks for, the
  first of them up to the limit, in the order of their ids (trades) or of their times (income).  Requests
  may fail at any point, the page budget may run out, and rows may be unreadable.
\<close>

section \<open>Pages\<close>

lemma page_prefix:
  assumes "sorted_wrt (\<lambda>x y. f x < (f y :: int)) xs" "y \<in> set (take n xs)" "x \<in> set xs" "f x \<le> f y"
  shows "x \<in> set (take n xs)"
proof (rule ccontr)
  assume "x \<notin> set (take n xs)"
  then have "x \<in> set (drop n xs)" using assms(3) by (metis Un_iff append_take_drop_id set_append)
  moreover have "sorted_wrt (\<lambda>x y. f x < f y) (take n xs @ drop n xs)" using assms(1) by simp
  ultimately have "f y < f x" using assms(2) by (simp only: sorted_wrt_append)
  then show False using assms(4) by simp
qed

section \<open>Trades\<close>

definition trade_id :: "text_codec \<Rightarrow> json \<Rightarrow> int" where
  "trade_id c row = (case failed_id c row of Inr (Some i) \<Rightarrow> i | _ \<Rightarrow> 0)"

text \<open>The trades of a symbol at the venue: every row has a readable id, and the ids ascend.\<close>

definition trades_ok :: "text_codec \<Rightarrow> json list \<Rightarrow> bool" where
  "trades_ok c rows \<longleftrightarrow> (\<forall>row \<in> set rows. failed_id c row = Inr (Some (trade_id c row))) \<and> sorted_wrt (\<lambda>x y. trade_id c x < trade_id c y) rows"

text \<open>The documented behaviour of a request with \<open>fromId\<close>.\<close>

definition serves_trades :: "text_codec \<Rightarrow> 'v tax_client \<Rightarrow> (string \<Rightarrow> json list) \<Rightarrow> bool" where
  "serves_trades c cl trades \<longleftrightarrow> (\<forall>s from_id limit v. case fst (cl_user_trades cl s (Some from_id) limit v) of
     Inl _ \<Rightarrow> True | Inr payload \<Rightarrow> payload = JArr (take (nat limit) (filter (\<lambda>row. from_id \<le> trade_id c row) (trades s))))"

lemma serves_tradesD:
  "serves_trades c cl trades \<Longrightarrow> fst (cl_user_trades cl s (Some from_id) limit v) = Inr payload \<Longrightarrow>
   payload = JArr (take (nat limit) (filter (\<lambda>row. from_id \<le> trade_id c row) (trades s)))"
  by (force simp: serves_trades_def split: sum.splits)

lemma parsed_entry_id: "parse_trade_entry c s a d = Inr r \<Longrightarrow> venue_int c d ''id'' = Inr (tr_venue_id r)"
  unfolding parse_trade_entry_def rbind_eq_Inr by (elim exE conjE) (auto split: json.splits if_splits)

lemma parsed_trade_id:
  assumes "parse_trade_row c s a row = Inr r" shows "failed_id c row = Inr (Some (tr_venue_id r))"
proof -
  from assms obtain d where d: "row = JObj d" "parse_trade_entry c s a d = Inr r" by (auto simp: parse_trade_row_def split: json.splits)
  from parsed_entry_id [OF d(2)] obtain raw where raw: "map_of d ''id'' = Some raw" "py_int c raw = Inr (tr_venue_id r)"
    by (auto simp: venue_int_def venue_field_def obj_get_def rbind_eq_Inr split: if_splits sum.splits option.splits)
  then show ?thesis by (simp add: d(1) failed_id_def obj_item_def)
qed

abbreviation kept_trade :: "collection_params \<Rightarrow> string \<Rightarrow> json \<Rightarrow> tax_record list \<Rightarrow> bool" where
  "kept_trade p s row records \<equiv> \<exists>r. parse_trade_row (cp_codec p) s (cp_settlement_asset p) row = Inr r \<and> r\<lparr>tr_mode := cp_mode p\<rparr> \<in> set records"

definition readable :: "collection_params \<Rightarrow> string \<Rightarrow> json \<Rightarrow> bool" where
  "readable p s row \<longleftrightarrow> (\<exists>r. parse_trade_row (cp_codec p) s (cp_settlement_asset p) row = Inr r)"

text \<open>The scan of a page, after some of its rows.\<close>

definition scanned :: "collection_params \<Rightarrow> string \<Rightarrow> trade_scan \<Rightarrow> json list \<Rightarrow> trade_scan \<Rightarrow> bool" where
  "scanned p s sc0 rows sc \<longleftrightarrow>
     set (ts_records sc0) \<subseteq> set (ts_records sc)
     \<and> (\<forall>row \<in> set rows. readable p s row \<longrightarrow> kept_trade p s row (ts_records sc))
     \<and> (\<forall>row \<in> set rows. \<not> readable p s row \<longrightarrow> ts_page_failed sc \<and> (\<exists>f. ts_failed_min sc = Some f \<and> f \<le> trade_id (cp_codec p) row))
     \<and> (\<forall>f. ts_failed_min sc = Some f \<longrightarrow> ts_page_failed sc \<and> f \<in> trade_id (cp_codec p) ` set rows)
     \<and> (\<forall>m. ts_parsed_max sc = Some m \<longrightarrow> ts_parsed_max sc0 = Some m \<or> m \<in> trade_id (cp_codec p) ` set rows)
     \<and> (ts_parsed_max sc = None \<longrightarrow> ts_parsed_max sc0 = None)"

lemma scan_trade_step:
  assumes "scanned p s sc0 d sc" "failed_id (cp_codec p) row = Inr (Some (trade_id (cp_codec p) row))"
    and "scan_trade p s row sc st = (Inr sc', st')"
  shows "scanned p s sc0 (d @ [row]) sc'"
proof (cases "readable p s row")
  case True
  then obtain r where r: "parse_trade_row (cp_codec p) s (cp_settlement_asset p) row = Inr r" by (auto simp: readable_def)
  then have "trade_id (cp_codec p) row = tr_venue_id r" using parsed_trade_id [OF r] by (simp add: trade_id_def)
  moreover have "sc' = sc\<lparr>ts_records := ts_records sc @ [r\<lparr>tr_mode := cp_mode p\<rparr>], ts_parsed_max := opt_with max (ts_parsed_max sc) (tr_venue_id r)\<rparr>"
    using assms(3) r by (simp add: scan_trade_def sx_bind_Inr sx_catch_integrity_def sx_lift_def)
  ultimately show ?thesis using assms(1) True r
    by (auto simp: scanned_def opt_with_def max_def split: option.splits if_splits)
next
  case False
  then have "sc' = sc\<lparr>ts_page_failed := True, ts_failed_min := opt_with min (ts_failed_min sc) (trade_id (cp_codec p) row)\<rparr>"
    using assms(2,3) by (auto simp: scan_trade_def sx_bind_Inr sx_catch_integrity_def sx_lift_def readable_def split: sum.splits if_splits)
  then show ?thesis using assms(1) False
    by (force simp: scanned_def opt_with_def min_def split: option.splits if_splits)
qed

lemma scan_trades:
  assumes "sx_foldM (scan_trade p s) page sc0 st = (Inr sc, st')" "ts_failed_min sc0 = None"
    and "\<forall>row \<in> set page. failed_id (cp_codec p) row = Inr (Some (trade_id (cp_codec p) row))"
  shows "scanned p s sc0 page sc"
proof (rule sx_foldM_invariant [OF assms(1), where P = "\<lambda>d sc _. scanned p s sc0 d sc"])
  show "scanned p s sc0 [] sc0" using assms(2) by (simp add: scanned_def)
  show "\<And>d row acc st acc1 st1. row \<in> set page \<Longrightarrow> scanned p s sc0 d acc \<Longrightarrow> scan_trade p s row acc st = (Inr acc1, st1)
      \<Longrightarrow> scanned p s sc0 (d @ [row]) acc1"
    by (rule scan_trade_step) (use assms(3) in auto)
qed

text \<open>Every trade of the symbol with an id above \<open>lo\<close> and up to \<open>hi\<close> has been kept.\<close>

definition trades_kept :: "collection_params \<Rightarrow> string \<Rightarrow> json list \<Rightarrow> int \<Rightarrow> int \<Rightarrow> tax_record list \<Rightarrow> bool" where
  "trades_kept p s rows lo hi records \<longleftrightarrow>
     (\<forall>row \<in> set rows. lo < trade_id (cp_codec p) row \<and> trade_id (cp_codec p) row \<le> hi \<longrightarrow> kept_trade p s row records)"

text \<open>How far a scan lets the watermark of its symbol move.\<close>

definition scan_reach :: "int \<Rightarrow> trade_scan \<Rightarrow> int" where
  "scan_reach lo sc = (case (ts_failed_min sc, ts_parsed_max sc) of (Some f, _) \<Rightarrow> f - 1 | (None, Some m) \<Rightarrow> m | (None, None) \<Rightarrow> lo)"

lemma trades_kept_extend:
  "trades_kept p s rows lo hi records \<Longrightarrow> trades_kept p s rows hi hi' records' \<Longrightarrow> set records \<subseteq> set records' \<Longrightarrow> trades_kept p s rows lo hi' records'"
  unfolding trades_kept_def by (meson not_less subset_eq)

lemma trades_kept_page:
  assumes "trades_ok (cp_codec p) rows" "scanned p s sc0 (take n (filter (\<lambda>row. hi + 1 \<le> trade_id (cp_codec p) row) rows)) sc"
    and "ts_parsed_max sc0 = None \<or> ts_parsed_max sc0 = Some hi"
  shows "trades_kept p s rows hi (scan_reach hi sc) (ts_records sc)"
proof -
  let ?id = "trade_id (cp_codec p)" and ?page = "take n (filter (\<lambda>row. hi + 1 \<le> trade_id (cp_codec p) row) rows)"
  have "kept_trade p s row (ts_records sc)" if row: "row \<in> set rows" "hi < ?id row" "?id row \<le> scan_reach hi sc" for row
  proof -
    have sorted: "sorted_wrt (\<lambda>x y. ?id x < ?id y) (filter (\<lambda>row. hi + 1 \<le> ?id row) rows)"
      using assms(1) by (simp add: trades_ok_def sorted_wrt_filter)
    have page: "row \<in> set ?page" if "y \<in> set ?page" "?id row \<le> ?id y" for y
      by (rule page_prefix [OF sorted that(1) _ that(2)]) (use row in simp)
    show ?thesis
    proof (cases "ts_failed_min sc")
      case (Some f)
      then obtain y where y: "y \<in> set ?page" "?id y = f" using assms(2) by (auto simp: scanned_def)
      have "?id row < f" using row(3) Some by (simp add: scan_reach_def)
      then have "row \<in> set ?page" "readable p s row" using page [OF y(1)] y assms(2) Some by (force simp: scanned_def)+
      then show ?thesis using assms(2) by (auto simp: scanned_def)
    next
      case None
      then obtain m where m: "ts_parsed_max sc = Some m" "?id row \<le> m" using row by (auto simp: scan_reach_def split: option.splits)
      then have "m \<noteq> hi" using row by simp
      then have "m \<in> ?id ` set ?page" using m assms(2,3) by (auto simp: scanned_def)
      then have "row \<in> set ?page" using page m(2) by auto
      then show ?thesis using assms(2) None by (auto simp: scanned_def)
    qed
  qed
  then show ?thesis by (simp add: trades_kept_def)
qed

lemma trade_pages_kept:
  assumes "trades_ok (cp_codec p) (trades s)" "serves_trades (cp_codec p) cl trades"
    and "trade_pages cl p s n (Some (hi + 1)) sc st = (Inr sc', st')"
    and "ts_failed_min sc = None" "ts_parsed_max sc = None \<and> hi = lo \<or> ts_parsed_max sc = Some hi" "trades_kept p s (trades s) lo hi (ts_records sc)"
  shows "trades_kept p s (trades s) lo (scan_reach lo sc') (ts_records sc')"
  using assms(3-6)
proof (induction n arbitrary: hi sc st)
  case 0
  then have "sc' = sc" by (simp add: sx_bind_Inr)
  then show ?case using 0 by (auto simp: scan_reach_def)
next
  case (Suc n)
  have same: ?case if "sc' = sc" using that Suc.prems by (auto simp: scan_reach_def)
  obtain reply v where call: "cl_user_trades cl s (Some (hi + 1)) (cp_trades_page_limit p) (co_venue st) = (reply, v)" by fastforce
  show ?case
  proof (cases reply)
    case (Inl e)
    then show ?thesis using same Suc.prems(1) call by (simp add: sx_bind_Inr request_def)
  next
    case (Inr payload)
    define page where "page = take (nat (cp_trades_page_limit p)) (filter (\<lambda>row. hi + 1 \<le> trade_id (cp_codec p) row) (trades s))"
    have payload: "payload = JArr page"
      using serves_tradesD [OF assms(2), of s "hi + 1" "cp_trades_page_limit p" "co_venue st"] call Inr by (simp add: page_def)
    have "trade_page p s sc (trade_pages cl p s n) payload (st\<lparr>co_venue := v, co_budget := co_budget st - 1\<rparr>) = (Inr sc', st')"
      using Suc.prems(1) call Inr by (simp add: sx_bind_def request_def spend_page_def sx_modify_def)
    then obtain sc1 st1 where
      sc1: "sx_foldM (scan_trade p s) page (sc\<lparr>ts_page_failed := False\<rparr>) (st\<lparr>co_venue := v, co_budget := co_budget st - 1\<rparr>) = (Inr sc1, st1)"
      and rest: "(case ts_parsed_max sc1 of None \<Rightarrow> sx_return sc1
          | Some m \<Rightarrow> if int (length page) < cp_trades_page_limit p \<or> ts_page_failed sc1 then sx_return sc1 else trade_pages cl p s n (Some (m + 1)) sc1) st1
        = (Inr sc', st')"
      unfolding trade_page_def payload json.case sx_bind_Inr by blast
    have "\<forall>row \<in> set page. failed_id (cp_codec p) row = Inr (Some (trade_id (cp_codec p) row))"
      using assms(1) by (auto simp: trades_ok_def page_def dest: in_set_takeD)
    from scan_trades [OF sc1 _ this] Suc.prems(2) have scanned: "scanned p s (sc\<lparr>ts_page_failed := False\<rparr>) page sc1" by simp
    have reach: "scan_reach lo sc1 = scan_reach hi sc1"
      using scanned Suc.prems(3) by (auto simp: scan_reach_def scanned_def split: option.splits)
    have "trades_kept p s (trades s) hi (scan_reach hi sc1) (ts_records sc1)"
      by (rule trades_kept_page [OF assms(1) scanned [unfolded page_def]]) (use Suc.prems(3) in auto)
    then have kept: "trades_kept p s (trades s) lo (scan_reach lo sc1) (ts_records sc1)"
      unfolding reach by (rule trades_kept_extend [OF Suc.prems(4)]) (use scanned in \<open>simp add: scanned_def\<close>)
    show ?thesis
    proof (cases "sc' = sc1")
      case False
      then obtain m where m: "ts_parsed_max sc1 = Some m" "\<not> ts_page_failed sc1" "trade_pages cl p s n (Some (m + 1)) sc1 st1 = (Inr sc', st')"
        using rest by (auto split: option.splits if_splits)
      then have "ts_failed_min sc1 = None" using scanned by (auto simp: scanned_def)
      with m kept Suc.IH [OF m(3)] show ?thesis by (simp add: scan_reach_def)
    qed (use kept in simp)
  qed
qed

lemma advance_trade_id_reach:
  assumes "map_of ids s = Some k" "map_of w s = Some lo" "lo \<le> k"
  shows "map_of (advance_trade_id s sc ids) s = Some (max k (scan_reach lo sc))"
  using assms by (auto simp: advance_trade_id_def scan_reach_def dict_get_def split: option.splits)

lemma advance_trade_id_other [simp]: "s' \<noteq> s \<Longrightarrow> map_of (advance_trade_id s sc ids) s' = map_of ids s'"
  by (simp add: advance_trade_id_def split: option.splits)

lemma dict_ok_advance [simp, intro]: "dict_ok ids \<Longrightarrow> dict_ok (advance_trade_id s sc ids)"
  by (simp add: advance_trade_id_def split: option.splits)

text \<open>What the trades collected so far say about the ids collected so far.\<close>

definition ids_kept :: "collection_params \<Rightarrow> (string \<Rightarrow> json list) \<Rightarrow> tax_watermark \<Rightarrow> tax_record list \<times> (string, int) dict \<Rightarrow> bool" where
  "ids_kept p trades w = (\<lambda>(records, ids). \<forall>s lo. map_of (tw_last_trade_id w) s = Some lo \<longrightarrow>
     (\<exists>hi. map_of ids s = Some hi \<and> lo \<le> hi \<and> trades_kept p s (trades s) lo hi records))"

lemma trades_kept_max:
  "trades_kept p s rows lo a records \<Longrightarrow> trades_kept p s rows lo b records' \<Longrightarrow> trades_kept p s rows lo (max a b) (records @ records')"
  by (auto simp: trades_kept_def max_def split: if_splits)

lemma collect_symbol_kept:
  assumes ok: "\<And>s. trades_ok (cp_codec p) (trades s)" and serves: "serves_trades (cp_codec p) cl trades"
    and acc: "ids_kept p trades w acc" and run: "collect_symbol cl p w s acc st = (Inr acc', st')"
  shows "ids_kept p trades w acc'"
proof -
  obtain records ids where acc_def: "acc = (records, ids)" by (cases acc)
  from run obtain sc st1 where
    sc: "trade_pages cl p s (co_budget st) (map_option (\<lambda>i. i + 1) (map_of (tw_last_trade_id w) s)) empty_scan st = (Inr sc, st1)"
    and acc': "acc' = (records @ ts_records sc, advance_trade_id s sc ids)"
    by (auto simp: collect_symbol_def acc_def sx_bind_Inr sx_gets_def)
  have "\<exists>hi. map_of (advance_trade_id s sc ids) s' = Some hi \<and> lo \<le> hi \<and> trades_kept p s' (trades s') lo hi (records @ ts_records sc)"
    if lo: "map_of (tw_last_trade_id w) s' = Some lo" for s' lo
  proof -
    obtain hi where hi: "map_of ids s' = Some hi" "lo \<le> hi" "trades_kept p s' (trades s') lo hi records"
      using acc lo by (auto simp: ids_kept_def acc_def)
    show ?thesis
    proof (cases "s' = s")
      case True
      have "trades_kept p s (trades s) lo (scan_reach lo sc) (ts_records sc)"
        using trade_pages_kept [of p trades s cl "co_budget st" lo empty_scan st sc st1 lo] sc lo ok serves True
        by (simp add: empty_scan_def trades_kept_def)
      with hi have "trades_kept p s (trades s) lo (max hi (scan_reach lo sc)) (records @ ts_records sc)" using True by (intro trades_kept_max) simp_all
      with hi lo True show ?thesis by (simp add: advance_trade_id_reach [of ids s hi "tw_last_trade_id w" lo])
    next
      case False
      then show ?thesis using hi by (auto simp: trades_kept_def)
    qed
  qed
  then show ?thesis by (simp add: ids_kept_def acc')
qed

lemma collect_trades_kept:
  assumes "\<And>s. trades_ok (cp_codec p) (trades s)" "serves_trades (cp_codec p) cl trades"
    and "collect_trades cl p w symbols st = (Inr acc, st')"
  shows "ids_kept p trades w acc"
proof (rule sx_foldM_invariant [OF assms(3) [unfolded collect_trades_def], where P = "\<lambda>_ acc _. ids_kept p trades w acc"])
  show "ids_kept p trades w ([], tw_last_trade_id w)" by (auto simp: ids_kept_def trades_kept_def)
qed (rule collect_symbol_kept [OF assms(1,2)])

lemma collect_trades_ids:
  assumes "collect_trades cl p w symbols st = (Inr (records, ids), st')" "dict_ok (tw_last_trade_id w)"
  shows "dict_ok ids"
proof -
  have "dict_ok (snd (records, ids))"
  proof (rule sx_foldM_invariant [OF assms(1) [unfolded collect_trades_def], where P = "\<lambda>_ acc _. dict_ok (snd acc)"])
    show "\<And>d s acc st acc1 st1. dict_ok (snd acc) \<Longrightarrow> collect_symbol cl p w s acc st = (Inr acc1, st1) \<Longrightarrow> dict_ok (snd acc1)"
      by (auto simp: collect_symbol_def sx_bind_Inr sx_gets_def split: prod.splits)
  qed (simp add: assms(2))
  then show ?thesis by simp
qed

section \<open>Income\<close>

definition income_of :: "text_codec \<Rightarrow> json \<Rightarrow> tax_record res" where
  "income_of c row = fst (parse_income_row c row \<lparr>co_venue = (), co_budget = 0, co_issues = []\<rparr>)"

definition income_time :: "text_codec \<Rightarrow> json \<Rightarrow> timestamp" where
  "income_time c row = (case income_of c row of Inr r \<Rightarrow> tr_event_time r | Inl _ \<Rightarrow> 0)"

lemma parse_income_value: "fst (parse_income_row c row s) = income_of c row"
  unfolding income_of_def parse_income_row_def report_issue_def sx_defs Let_def
  by (cases row) (simp_all split: sum.splits prod.splits)

text \<open>The income of the account at the venue: every row is readable, and their times ascend.\<close>

definition income_ok :: "text_codec \<Rightarrow> json list \<Rightarrow> bool" where
  "income_ok c rows \<longleftrightarrow> (\<forall>row \<in> set rows. \<exists>r. income_of c row = Inr r) \<and> sorted (map (income_time c) rows)"

text \<open>The documented behaviour of a request with \<open>startTime\<close> and \<open>endTime\<close>, both inclusive.\<close>

definition serves_income :: "text_codec \<Rightarrow> 'v tax_client \<Rightarrow> json list \<Rightarrow> bool" where
  "serves_income c cl income \<longleftrightarrow> (\<forall>a b limit v. case fst (cl_income cl a b limit v) of
     Inl _ \<Rightarrow> True
   | Inr payload \<Rightarrow> payload = JArr (take (nat limit) (filter (\<lambda>row. a * 1000000 \<le> income_time c row \<and> income_time c row \<le> b * 1000000) income)))"

lemma serves_incomeD:
  "serves_income c cl income \<Longrightarrow> fst (cl_income cl a b limit v) = Inr payload \<Longrightarrow>
   payload = JArr (take (nat limit) (filter (\<lambda>row. a * 1000000 \<le> income_time c row \<and> income_time c row \<le> b * 1000000) income))"
  by (force simp: serves_income_def split: sum.splits)

lemma ms_timestamp_whole: "ms_timestamp ms = Inr t \<Longrightarrow> \<exists>ms. t = ms * 1000000"
  by (auto simp: ms_timestamp_def split: if_splits)

lemma income_whole_ms: "income_of c row = Inr r \<Longrightarrow> \<exists>ms. tr_event_time r = ms * 1000000"
  unfolding income_of_def parse_income_row_def Let_def
  by (cases row) (auto simp: sx_defs rbind_eq_Inr dest: ms_timestamp_whole split: sum.splits prod.splits)

text \<open>A row is kept when its id is among the records.\<close>

definition kept_income :: "text_codec \<Rightarrow> json \<Rightarrow> tax_record list \<Rightarrow> bool" where
  "kept_income c row records \<longleftrightarrow> (\<exists>r. income_of c row = Inr r \<and> tr_record_id r \<in> tr_record_id ` set records)"

definition income_scan_ok :: "income_scan \<Rightarrow> bool" where
  "income_scan_ok sc \<longleftrightarrow> fst ` set (is_seen sc) = tr_record_id ` set (is_records sc)"

lemma keep_income_step:
  assumes "keep_income c r sc st = (Inr sc', st')" "income_scan_ok sc"
  shows "income_scan_ok sc' \<and> set (is_records sc) \<subseteq> set (is_records sc') \<and> tr_record_id r \<in> tr_record_id ` set (is_records sc')"
proof (cases "map_of (is_seen sc) (tr_record_id r)")
  case None
  then have "sc' = sc\<lparr>is_seen := AList.update (tr_record_id r) (income_signature c r) (is_seen sc), is_records := is_records sc @ [r]\<rparr>"
    using assms(1) by (simp add: keep_income_def)
  then show ?thesis using assms(2) by (auto simp: income_scan_ok_def)
next
  case (Some sig)
  then have "is_records sc' = is_records sc" "is_seen sc' = is_seen sc" using assms(1) by (auto simp: keep_income_def sx_bind_Inr split: if_splits)
  moreover have "tr_record_id r \<in> fst ` set (is_seen sc)" using Some by (metis domI dom_map_of_conv_image_fst)
  ultimately show ?thesis using assms(2) by (simp add: income_scan_ok_def)
qed

text \<open>After the rows of a page: all are kept, and the latest time is known.\<close>

definition income_scanned :: "text_codec \<Rightarrow> income_scan \<Rightarrow> json list \<Rightarrow> income_scan \<times> timestamp option \<times> bool \<Rightarrow> bool" where
  "income_scanned c sc0 rows = (\<lambda>(sc, page_last, failed). income_scan_ok sc \<and> set (is_records sc0) \<subseteq> set (is_records sc)
     \<and> (\<forall>row \<in> set rows. kept_income c row (is_records sc))
     \<and> (case page_last of None \<Rightarrow> rows = [] | Some t \<Rightarrow> t \<in> income_time c ` set rows \<and> (\<forall>row \<in> set rows. income_time c row \<le> t)))"

lemma scan_income_step:
  assumes "scan_income p row acc st = (Inr acc', st')" "income_of (cp_codec p) row = Inr r" "income_scanned (cp_codec p) sc0 d acc"
  shows "income_scanned (cp_codec p) sc0 (d @ [row]) acc'"
proof -
  obtain sc page_last failed where acc: "acc = (sc, page_last, failed)" by (cases acc)
  obtain st1 where parse: "parse_income_row (cp_codec p) row st = (Inr r, st1)"
    using parse_income_value [of "cp_codec p" row st] assms(2) by (metis prod.collapse)
  from assms(1) obtain sc1 where sc1: "keep_income (cp_codec p) (r\<lparr>tr_mode := cp_mode p\<rparr>) sc st1 = (Inr sc1, st')"
    and acc': "acc' = (sc1, opt_with max page_last (tr_event_time r), failed)"
    by (auto simp: scan_income_def acc sx_bind_Inr sx_catch_integrity_def parse)
  have time: "income_time (cp_codec p) row = tr_event_time r" by (simp add: income_time_def assms(2))
  have "income_scan_ok sc1 \<and> set (is_records sc) \<subseteq> set (is_records sc1) \<and> tr_record_id r \<in> tr_record_id ` set (is_records sc1)"
    using keep_income_step [OF sc1] assms(3) by (simp add: income_scanned_def acc)
  with assms(2,3) time show ?thesis
    by (auto simp: income_scanned_def acc acc' opt_with_def kept_income_def max_def split: option.splits) blast+
qed

lemma scan_incomes:
  assumes "sx_foldM (scan_income p) page (sc0, None, failed) st = (Inr acc, st')" "income_scan_ok sc0"
    and "\<forall>row \<in> set page. \<exists>r. income_of (cp_codec p) row = Inr r"
  shows "income_scanned (cp_codec p) sc0 page acc"
proof (rule sx_foldM_invariant [OF assms(1), where P = "\<lambda>d acc _. income_scanned (cp_codec p) sc0 d acc"])
  show "income_scanned (cp_codec p) sc0 [] (sc0, None, failed)" using assms(2) by (simp add: income_scanned_def)
qed (use scan_income_step assms(3) in blast)

definition income_kept :: "text_codec \<Rightarrow> json list \<Rightarrow> timestamp set \<Rightarrow> tax_record list \<Rightarrow> bool" where
  "income_kept c income A records \<longleftrightarrow> (\<forall>row \<in> set income. income_time c row \<in> A \<longrightarrow> kept_income c row records)"

lemma income_kept_mono:
  "income_kept c income A records \<Longrightarrow> B \<subseteq> A \<Longrightarrow> set records \<subseteq> set records' \<Longrightarrow> income_kept c income B records'"
  unfolding income_kept_def kept_income_def by blast

lemma income_kept_Un: "income_kept c income (A \<union> B) records \<longleftrightarrow> income_kept c income A records \<and> income_kept c income B records"
  by (auto simp: income_kept_def)

definition income_venue :: "collection_params \<Rightarrow> 'v tax_client \<Rightarrow> json list \<Rightarrow> bool" where
  "income_venue p cl income \<longleftrightarrow> income_ok (cp_codec p) income \<and> serves_income (cp_codec p) cl income
     \<and> 0 < cp_income_page_limit p \<and> (\<forall>t. cp_ms p t = t div 1000000)"

lemma page_prefix_le:
  assumes "sorted (map f xs)" "y \<in> set (take n xs)" "x \<in> set xs" "f x < (f y :: int)"
  shows "x \<in> set (take n xs)"
proof (rule ccontr)
  assume "x \<notin> set (take n xs)"
  then have "x \<in> set (drop n xs)" using assms(3) by (metis Un_iff append_take_drop_id set_append)
  moreover have "sorted (map f (take n xs) @ map f (drop n xs))" using assms(1) by (metis append_take_drop_id map_append)
  ultimately have "f y \<le> f x" using assms(2) by (auto simp: sorted_append)
  then show False using assms(4) by simp
qed

lemma income_page_kept:
  assumes venue: "income_venue p cl income"
    and page: "page = take (nat (cp_income_page_limit p))
      (filter (\<lambda>row. cp_ms p ps * 1000000 \<le> income_time (cp_codec p) row \<and> income_time (cp_codec p) row \<le> cp_ms p we * 1000000) income)"
    and scanned: "income_scanned (cp_codec p) sc0 page (sc, page_last, failed)"
  shows "page_last = Some t \<Longrightarrow> income_kept (cp_codec p) income {ps..<t} (is_records sc)"
    and "int (length page) < cp_income_page_limit p \<Longrightarrow> income_kept (cp_codec p) income {ps..we} (is_records sc)"
proof -
  let ?time = "income_time (cp_codec p)" and ?in = "\<lambda>row. cp_ms p ps * 1000000 \<le> income_time (cp_codec p) row \<and> income_time (cp_codec p) row \<le> cp_ms p we * 1000000"
  have ms: "cp_ms p t = t div 1000000" for t using venue by (simp add: income_venue_def)
  have lower: "cp_ms p ps * 1000000 \<le> ps" by (simp add: ms)
  have kept: "kept_income (cp_codec p) row (is_records sc)" if "row \<in> set page" for row using scanned that by (auto simp: income_scanned_def)
  show "income_kept (cp_codec p) income {ps..<t} (is_records sc)" if last: "page_last = Some t"
    unfolding income_kept_def
  proof (intro ballI impI)
    fix row assume row: "row \<in> set income" "?time row \<in> {ps..<t}"
    from last scanned obtain y where y: "y \<in> set page" "?time y = t" by (auto simp: income_scanned_def)
    then have "?in y" by (auto simp: page dest: in_set_takeD)
    then have "?in row" using row y(2) lower by auto
    moreover have "sorted (map ?time (filter ?in income))" using venue by (simp add: income_venue_def income_ok_def sorted_filter)
    ultimately have "row \<in> set page" unfolding page using page_prefix_le [of ?time "filter ?in income" y _ row] y row by (simp add: page)
    then show "kept_income (cp_codec p) row (is_records sc)" by (rule kept)
  qed
  show "income_kept (cp_codec p) income {ps..we} (is_records sc)" if short: "int (length page) < cp_income_page_limit p"
    unfolding income_kept_def
  proof (intro ballI impI)
    fix row assume row: "row \<in> set income" "?time row \<in> {ps..we}"
    then obtain r k where "income_of (cp_codec p) row = Inr r" "tr_event_time r = k * 1000000"
      using venue income_whole_ms unfolding income_venue_def income_ok_def by blast
    then have "?time row = k * 1000000" by (simp add: income_time_def)
    moreover from this row(2) have "k \<le> we div 1000000" using zdiv_mono1 [of "k * 1000000" we 1000000] by simp
    ultimately have "?in row" using row(2) lower by (simp add: ms)
    moreover have "page = filter ?in income" using short unfolding page by (auto simp: min_def split: if_splits)
    ultimately show "kept_income (cp_codec p) row (is_records sc)" using row(1) kept by simp
  qed
qed

lemma income_pages_kept:
  assumes venue: "income_venue p cl income" and run: "income_pages cl p we n ps prev failed sc st = (Inr (stop, sc'), st')"
    and "income_scan_ok sc" "income_kept (cp_codec p) income {lo..<ps} (is_records sc)"
  shows "income_scan_ok sc' \<and> set (is_records sc) \<subseteq> set (is_records sc') \<and>
    (case stop of Capped q \<Rightarrow> income_kept (cp_codec p) income {lo..<q} (is_records sc') | Window_Failed \<Rightarrow> True
     | Window_Done \<Rightarrow> income_kept (cp_codec p) income {lo..we} (is_records sc'))"
  using assms(2-)
proof (induction n arbitrary: ps prev failed sc st)
  case 0
  then show ?case by (auto simp: sx_bind_Inr)
next
  case (Suc n)
  obtain reply v where call: "cl_income cl (cp_ms p ps) (cp_ms p we) (cp_income_page_limit p) (co_venue st) = (reply, v)" by fastforce
  show ?case
  proof (cases reply)
    case (Inl e)
    then show ?thesis using Suc.prems call by (simp add: sx_bind_Inr request_def)
  next
    case (Inr payload)
    define page where "page = take (nat (cp_income_page_limit p))
      (filter (\<lambda>row. cp_ms p ps * 1000000 \<le> income_time (cp_codec p) row \<and> income_time (cp_codec p) row \<le> cp_ms p we * 1000000) income)"
    have payload: "payload = JArr page"
      using serves_incomeD [of "cp_codec p" cl income "cp_ms p ps" "cp_ms p we" "cp_income_page_limit p" "co_venue st" payload] venue call Inr
      by (simp add: page_def income_venue_def)
    have "income_page p ps prev failed sc (income_pages cl p we n) payload (st\<lparr>co_venue := v, co_budget := co_budget st - 1\<rparr>) = (Inr (stop, sc'), st')"
      using Suc.prems(1) call Inr by (simp add: sx_bind_def request_def spend_page_def sx_modify_def)
    then obtain sc1 page_last failed1 st1 where
      fold: "sx_foldM (scan_income p) page (sc, None, failed) (st\<lparr>co_venue := v, co_budget := co_budget st - 1\<rparr>) = (Inr (sc1, page_last, failed1), st1)"
      and rest: "(let finish = sx_return (if failed1 then Window_Failed else Window_Done, sc1) in
          case page_last of None \<Rightarrow> finish
          | Some t \<Rightarrow>
             if cp_income_page_limit p \<le> int (length page) \<and> (cp_ms p t = cp_ms p ps \<or> (case prev of None \<Rightarrow> False | Some m \<Rightarrow> cp_ms p t \<le> m))
             then sx_bind (report_issue ''income'' ''page_cap'') (\<lambda>_. sx_return (Window_Failed, sc1))
             else if int (length page) < cp_income_page_limit p then finish
             else income_pages cl p we n t (Some (cp_ms p t)) failed1 sc1) st1 = (Inr (stop, sc'), st')"
      unfolding income_page_def payload json.case sx_bind_Inr by auto
    have "\<forall>row \<in> set page. \<exists>r. income_of (cp_codec p) row = Inr r"
      using venue by (auto simp: income_venue_def income_ok_def page_def dest: in_set_takeD)
    from scan_incomes [OF fold Suc.prems(2) this] have scanned: "income_scanned (cp_codec p) sc page (sc1, page_last, failed1)" .
    note kept = income_page_kept [OF venue page_def scanned]
    have ok: "income_scan_ok sc1" "set (is_records sc) \<subseteq> set (is_records sc1)" using scanned by (auto simp: income_scanned_def)
    have before: "income_kept (cp_codec p) income {lo..<ps} (is_records sc1)" by (rule income_kept_mono [OF Suc.prems(3) order_refl ok(2)])
    show ?thesis
    proof (cases "int (length page) < cp_income_page_limit p \<or> page_last = None")
      case True
      then have "int (length page) < cp_income_page_limit p" using scanned venue by (auto simp: income_scanned_def income_venue_def)
      from kept(2) [OF this] before have "income_kept (cp_codec p) income ({lo..<ps} \<union> {ps..we}) (is_records sc1)" by (simp only: income_kept_Un)
      then have all: "income_kept (cp_codec p) income {lo..we} (is_records sc1)" by (rule income_kept_mono) auto
      have "sc' = sc1" "stop \<noteq> Window_Done \<Longrightarrow> stop = Window_Failed"
        using rest True by (auto simp: Let_def sx_bind_Inr split: option.splits if_splits)
      then show ?thesis using all ok by (cases stop) auto
    next
      case False
      then obtain t where t: "page_last = Some t" by blast
      from kept(1) [OF t] before have "income_kept (cp_codec p) income ({lo..<ps} \<union> {ps..<t}) (is_records sc1)" by (simp only: income_kept_Un)
      then have next_page: "income_kept (cp_codec p) income {lo..<t} (is_records sc1)" by (rule income_kept_mono) auto
      show ?thesis
      proof (cases "income_pages cl p we n t (Some (cp_ms p t)) failed1 sc1 st1 = (Inr (stop, sc'), st')")
        case True
        from Suc.IH [OF True ok(1) next_page] ok(2) show ?thesis by blast
      next
        case stalled: False
        then have "stop = Window_Failed \<and> sc' = sc1" using rest False t by (auto simp: Let_def sx_bind_Inr split: if_splits)
        then show ?thesis using ok by simp
      qed
    qed
  qed
qed

lemma income_windows_kept:
  assumes "income_venue p cl income" "income_windows cl p ws through completed sc st = (Inr r, st')"
    and "income_scan_ok sc" "income_kept (cp_codec p) income {lo..<ws} (is_records sc)"
    and "\<And>t. through = Some t \<Longrightarrow> income_kept (cp_codec p) income {lo..t} (is_records sc)"
    and "cp_now p \<le> ws \<Longrightarrow> income_kept (cp_codec p) income {lo..cp_now p} (is_records sc)"
    and "ir_complete_through r = Some t"
  shows "income_kept (cp_codec p) income {lo..t} (is_records (ir_scan r))"
  using assms
proof (induction cl p ws through completed sc st rule: income_windows.induct)
  case (1 cl p ws through completed sc st)
  note run = 1(3)
  show ?case
  proof (cases "cp_now p \<le> ws")
    case True
    then show ?thesis using run 1(7,8) by (auto simp: income_windows.simps [of cl p ws])
  next
    case False
    let ?we = "min (ws + cp_income_window p) (cp_now p)"
    obtain res st1 where pages: "income_pages cl p ?we (co_budget st) ws None False sc st = (res, st1)" by fastforce
    with run False obtain stop sc1 where res: "res = Inr (stop, sc1)"
      by (cases res) (auto simp: income_windows.simps [of cl p ws])
    note kept = income_pages_kept [OF 1(2) pages [unfolded res] 1(4,5)]
    have earlier: "income_kept (cp_codec p) income {lo..u} (is_records sc1)" if "through = Some u" for u
      by (rule income_kept_mono [OF 1(6) [OF that] order_refl]) (use kept in simp)
    show ?thesis
    proof (cases stop)
      case (Capped q)
      then have r: "r = \<lparr>ir_scan = sc1, ir_complete_through = opt_with max through (q - 1000000), ir_window_completed = completed\<rparr>"
        using run False pages res by (simp add: income_windows.simps [of cl p ws])
      have "income_kept (cp_codec p) income {lo..<q} (is_records sc1)" using kept Capped by simp
      then have "income_kept (cp_codec p) income {lo..q - 1000000} (is_records sc1)" by (rule income_kept_mono) auto
      then show ?thesis using r earlier 1(8) by (auto simp: opt_with_def max_def split: option.splits if_splits)
    next
      case Window_Failed
      then show ?thesis using run False pages res earlier 1(8) by (auto simp: income_windows.simps [of cl p ws])
    next
      case Window_Done
      have read: "income_kept (cp_codec p) income {lo..?we} (is_records sc1)" using kept Window_Done by simp
      show ?thesis
      proof (rule 1(1) [OF False refl pages [symmetric] res refl Window_Done 1(2)])
        show "income_windows cl p ?we (Some ?we) True sc1 st1 = (Inr r, st')"
          using run False pages res Window_Done by (simp add: Let_def income_windows.simps [of cl p ws])
        show "income_kept (cp_codec p) income {lo..<?we} (is_records sc1)" by (rule income_kept_mono [OF read]) auto
        show "\<And>t. Some ?we = Some t \<Longrightarrow> income_kept (cp_codec p) income {lo..t} (is_records sc1)" using read by simp
        show "cp_now p \<le> ?we \<Longrightarrow> income_kept (cp_codec p) income {lo..cp_now p} (is_records sc1)"
          by (rule income_kept_mono [OF read]) auto
      qed (use kept 1(8) in auto)
    qed
  qed
qed

lemma collect_income_kept:
  assumes "income_venue p cl income" "collect_income cl p w st = (Inr r, st')" "ir_complete_through r = Some t" "income_start p w < cp_now p"
  shows "income_kept (cp_codec p) income {income_start p w..t} (is_records (ir_scan r))"
proof -
  obtain st1 where "income_windows cl p (income_start p w) None False empty_income st1 = (Inr r, st')"
    using assms(2) by (auto simp: collect_income_def sx_bind_Inr)
  from income_windows_kept [OF assms(1) this _ _ _ _ assms(3), of "income_start p w"] assms(4)
  show ?thesis by (simp add: empty_income_def income_scan_ok_def income_kept_def)
qed

section \<open>The cycle\<close>

lemma collect_run:
  assumes "collect_tax_records cl p w symbols st = (Inr (records, w'), st')"
  obtains trade_records ids st1 r where "collect_trades cl p w symbols st = (Inr (trade_records, ids), st1)" "collect_income cl p w st1 = (Inr r, st')"
    "set records = set trade_records \<union> set (is_records (ir_scan r))" "w' = new_watermark p w symbols ids r"
proof -
  from assms obtain trade_records ids st1 r where "collect_trades cl p w symbols st = (Inr (trade_records, ids), st1)" "collect_income cl p w st1 = (Inr r, st')"
    "records = sort_key tr_event_time (trade_records @ is_records (ir_scan r))" "w' = new_watermark p w symbols ids r"
    by (auto simp: collect_tax_records_def sx_bind_Inr)
  then show thesis by (intro that) auto
qed

lemma retention_gap_proper: "\<forall>(a, b) \<in> set_option (retention_gap p w). a < b"
  by (auto simp: retention_gap_def split: option.splits if_splits)

lemma collected_watermark_ok:
  assumes "collect_tax_records cl p w symbols st = (Inr (records, w'), st')" "watermark_ok w"
  shows "watermark_ok w'"
proof -
  from assms(1) obtain trade_records ids st1 r where c: "collect_trades cl p w symbols st = (Inr (trade_records, ids), st1)"
    and w': "w' = new_watermark p w symbols ids r" by (rule collect_run)
  have "dict_ok ids" by (rule collect_trades_ids [OF c]) (use assms(2) in \<open>simp add: watermark_ok_def\<close>)
  moreover have "\<forall>(a, b) \<in> set (merge_income_gaps (tw_income_gaps w) (retention_gap p w)). a < b"
    by (rule merged_gaps_proper [OF _ retention_gap_proper]) (use assms(2) in \<open>simp add: watermark_ok_def\<close>)
  ultimately show ?thesis using assms(2) by (simp add: watermark_ok_def w' new_watermark_def)
qed

definition snapshot_ok :: "venue_position_snapshot option \<Rightarrow> bool" where
  "snapshot_ok snapshot \<longleftrightarrow> (case snapshot of None \<Rightarrow> True | Some v \<Rightarrow> dict_ok (vs_positions v))"

lemma with_genesis_ok:
  assumes "watermark_ok w'" "snapshot_ok snapshot" "tax_collection_symbols symbols w (case snapshot of None \<Rightarrow> [] | Some v \<Rightarrow> vs_positions v) = Inr universe"
  shows "watermark_ok (fst (with_genesis snapshot w w'))"
proof -
  have names: "[] \<notin> fst ` set (vs_positions v)" if "snapshot = Some v" for v
    using assms(3) that by (auto simp: tax_collection_symbols_def Let_def split: if_splits)
  show ?thesis
  proof (cases "tw_genesis_at w = None \<and> snapshot \<noteq> None")
    case True
    then obtain v where v: "snapshot = Some v" by blast
    have "\<forall>(s, q) \<in> set (filter (\<lambda>(_, q). q \<noteq> 0) (vs_positions v)). s \<noteq> [] \<and> q \<noteq> 0" using names [OF v] by force
    then show ?thesis using True v assms(1,2) by (simp add: with_genesis_def watermark_ok_def snapshot_ok_def Let_def)
  next
    case False
    then show ?thesis using assms(1) by (auto simp: with_genesis_def split: option.splits)
  qed
qed

lemma with_genesis_None [simp]: "with_genesis None w w' = (w', [])"
  by (simp add: with_genesis_def split: option.splits)

lemma with_genesis_fields:
  "tw_last_trade_id (fst (with_genesis snapshot w w')) = tw_last_trade_id w'" "tw_last_collected_at (fst (with_genesis snapshot w w')) = tw_last_collected_at w'"
  "tw_income_covered_from (fst (with_genesis snapshot w w')) = tw_income_covered_from w'" "tw_income_gaps (fst (with_genesis snapshot w w')) = tw_income_gaps w'"
  "tw_known_trade_symbols (fst (with_genesis snapshot w w')) = tw_known_trade_symbols w'"
  by (simp_all add: with_genesis_def Let_def split: option.splits)

lemma persist_run:
  assumes "collect_and_persist_live_tax cl p fixed month max_pages symbols snapshot s = (Inr out, s')"
    and "load_tax_watermark (cp_codec p) (wd_watermark s) = Inr w"
  obtains universe records w' st' written where
    "tax_collection_symbols symbols w (case snapshot of None \<Rightarrow> [] | Some v \<Rightarrow> vs_positions v) = Inr universe"
    "collect_tax_records cl p w universe \<lparr>co_venue = wd_venue s, co_budget = max_pages, co_issues = []\<rparr> = (Inr (records, w'), st')"
    "append_tax_records (cp_codec p) fixed month records (wd_dir s) = (Inr written, wd_dir s')"
    "wd_watermark s' = Document (watermark_json (cp_codec p) fixed (fst (with_genesis snapshot w w')))"
proof -
  from assms obtain universe where u: "tax_collection_symbols symbols w (case snapshot of None \<Rightarrow> [] | Some v \<Rightarrow> vs_positions v) = Inr universe"
    and rest: "sx_bind (on_venue max_pages (collect_tax_records cl p w universe)) (\<lambda>((records, collected), found).
     sx_bind (persist_collected (cp_codec p) fixed month records (fst (with_genesis snapshot w collected))) (\<lambda>new_rows.
       sx_return (new_rows, found @ snd (with_genesis snapshot w collected)))) s = (Inr out, s')"
    by (auto simp: collect_and_persist_live_tax_def sx_bind_Inr sx_gets_def)
  from rest obtain records w' found s1 n where v: "on_venue max_pages (collect_tax_records cl p w universe) s = (Inr ((records, w'), found), s1)"
    and rest: "persist_collected (cp_codec p) fixed month records (fst (with_genesis snapshot w w')) s1 = (Inr n, s')"
    by (auto simp: sx_bind_Inr)
  from v obtain st' where c: "collect_tax_records cl p w universe \<lparr>co_venue = wd_venue s, co_budget = max_pages, co_issues = []\<rparr> = (Inr (records, w'), st')"
    and s1: "s1 = s\<lparr>wd_venue := co_venue st'\<rparr>"
    by (auto simp: on_venue_def split: prod.splits sum.splits)
  from rest obtain written s2 where d: "on_dir (append_tax_records (cp_codec p) fixed month records) s1 = (Inr written, s2)"
    and f: "on_watermark (save_tax_watermark (cp_codec p) fixed (fst (with_genesis snapshot w w'))) s2 = (Inr (), s')"
    by (auto simp: persist_collected_def sx_bind_Inr sx_gets_def)
  show thesis
    by (rule that [OF u c]) (use d f s1 in \<open>auto simp: on_dir_def on_watermark_def save_tax_watermark_def sx_modify_def split: prod.splits\<close>)
qed

section \<open>The covered history\<close>

text \<open>What the coverage facts of a watermark mean: every income row between the start of the coverage
  and the last collection is in the ledger, or lies in a recorded gap.\<close>

definition income_covered :: "text_codec \<Rightarrow> json list \<Rightarrow> tax_watermark \<Rightarrow> tax_record set \<Rightarrow> bool" where
  "income_covered c income w R \<longleftrightarrow> (\<forall>start. tw_income_covered_from w = Some start \<longrightarrow>
     (\<exists>stop. tw_last_collected_at w = Some stop
       \<and> (\<forall>row \<in> set income. start \<le> income_time c row \<and> income_time c row \<le> stop \<longrightarrow>
            income_time c row \<in> covered (tw_income_gaps w)
            \<or> (\<exists>r. income_of c row = Inr r \<and> tr_record_id r \<in> tr_record_id ` R))))"

lemma income_kept_in:
  "income_kept c income A records \<Longrightarrow> row \<in> set income \<Longrightarrow> income_time c row \<in> A \<Longrightarrow> tr_record_id ` set records \<subseteq> tr_record_id ` R
   \<Longrightarrow> \<exists>r. income_of c row = Inr r \<and> tr_record_id r \<in> tr_record_id ` R"
  unfolding income_kept_def kept_income_def by blast

lemma window_completed_result:
  assumes "income_windows cl p ws through completed sc st = (Inr r, st')" "ir_window_completed r" "completed \<Longrightarrow> through \<noteq> None"
  shows "ir_complete_through r \<noteq> None \<and> (completed \<or> ws < cp_now p)"
  using assms
proof (induction cl p ws through completed sc st rule: income_windows.induct)
  case (1 cl p ws through completed sc st)
  show ?case
  proof (cases "cp_now p \<le> ws")
    case True
    then show ?thesis using 1(2,3) by (auto simp: income_windows.simps [of cl p ws])
  next
    case False
    let ?we = "min (ws + cp_income_window p) (cp_now p)"
    obtain res st1 where pages: "income_pages cl p ?we (co_budget st) ws None False sc st = (res, st1)" by fastforce
    with 1(2) False obtain stop sc1 where res: "res = Inr (stop, sc1)"
      by (cases res) (auto simp: income_windows.simps [of cl p ws])
    show ?thesis
    proof (cases stop)
      case Window_Done
      with 1(2) False pages res have "income_windows cl p ?we (Some ?we) True sc1 st1 = (Inr r, st')"
        by (simp add: Let_def income_windows.simps [of cl p ws])
      from 1(1) [OF False refl pages [symmetric] res refl Window_Done this 1(3)] show ?thesis using False by simp
    qed (use 1(2-4) False pages res in \<open>auto simp: opt_with_def income_windows.simps [of cl p ws]\<close>)
  qed
qed

lemma new_collected_at_bound:
  assumes "new_collected_at p w r = Some stop"
  shows "stop \<le> cp_now p"
    and "\<And>t. t \<le> stop \<Longrightarrow> (\<exists>old. tw_last_collected_at w = Some old \<and> t \<le> old) \<or> (\<exists>through. ir_complete_through r = Some through \<and> t \<le> through)"
  using assms by (auto simp: new_collected_at_def Let_def split: option.splits if_splits)

lemma new_collected_at_some: "ir_complete_through r \<noteq> None \<or> tw_last_collected_at w \<noteq> None \<Longrightarrow> new_collected_at p w r \<noteq> None"
  by (auto simp: new_collected_at_def Let_def split: option.splits)

lemma income_covered_step:
  assumes venue: "income_venue p cl income" and overlap: "0 \<le> cp_income_overlap p" and w: "watermark_ok w"
    and run: "collect_income cl p w st = (Inr r, st')"
    and old: "income_covered (cp_codec p) income w R" and R: "R \<subseteq> R'" "tr_record_id ` set (is_records (ir_scan r)) \<subseteq> tr_record_id ` R'"
  shows "income_covered (cp_codec p) income (new_watermark p w symbols ids r) R'"
  unfolding income_covered_def
proof (intro allI impI)
  fix start assume start: "tw_income_covered_from (new_watermark p w symbols ids r) = Some start"
  let ?time = "income_time (cp_codec p)"
  have gaps: "covered (merge_income_gaps (tw_income_gaps w) (retention_gap p w)) = covered (tw_income_gaps w) \<union> (\<Union>(a, b) \<in> set_option (retention_gap p w). {a..b})"
    using merged_gaps [OF _ retention_gap_proper, of "tw_income_gaps w" p w] w by (simp add: watermark_ok_def)
  obtain st1 where windows: "income_windows cl p (income_start p w) None False empty_income st1 = (Inr r, st')"
    using run by (auto simp: collect_income_def sx_bind_Inr)
  have first: "start = income_start p w \<and> income_start p w < cp_now p \<and> ir_complete_through r \<noteq> None" if "tw_last_collected_at w = None"
  proof -
    have "tw_income_covered_from w = None" using old that by (auto simp: income_covered_def)
    with start that have "ir_window_completed r" "start = income_start p w" by (auto simp: new_watermark_def split: if_splits)
    with window_completed_result [OF windows] show ?thesis by simp
  qed
  then obtain stop where stop: "new_collected_at p w r = Some stop" using new_collected_at_some by (metis option.exhaust)
  have "?time row \<in> covered (merge_income_gaps (tw_income_gaps w) (retention_gap p w)) \<or> (\<exists>r. income_of (cp_codec p) row = Inr r \<and> tr_record_id r \<in> tr_record_id ` R')"
    if row: "row \<in> set income" "start \<le> ?time row" "?time row \<le> stop" for row
  proof (cases "\<exists>last. tw_last_collected_at w = Some last \<and> ?time row \<le> last")
    case True
    then obtain last where "tw_last_collected_at w = Some last" "?time row \<le> last" by blast
    moreover from this start have "tw_income_covered_from w = Some start" by (simp add: new_watermark_def)
    ultimately have "?time row \<in> covered (tw_income_gaps w) \<or> (\<exists>r. income_of (cp_codec p) row = Inr r \<and> tr_record_id r \<in> tr_record_id ` R)"
      using old row unfolding income_covered_def by fastforce
    then show ?thesis unfolding gaps using R(1) by blast
  next
    case False
    note bound = new_collected_at_bound [OF stop]
    have now: "?time row \<le> cp_now p" using bound(1) row(3) by simp
    from bound(2) [OF row(3)] False obtain through where through: "ir_complete_through r = Some through" "?time row \<le> through" by blast
    have reading: "?thesis" if "income_start p w < cp_now p" "income_start p w \<le> ?time row"
      using income_kept_in [OF collect_income_kept [OF venue run through(1) that(1)] row(1) _ R(2)] that(2) through(2) by simp
    show ?thesis
    proof (cases "tw_last_collected_at w")
      case None
      then show ?thesis using reading first row(2) by simp
    next
      case (Some last)
      then have last: "last < ?time row" using False by auto
      show ?thesis
      proof (cases "last < retention_floor p \<and> ?time row \<le> retention_floor p")
        case True
        then have "retention_gap p w = Some (last, retention_floor p)" using Some by (simp add: retention_gap_def)
        then show ?thesis unfolding gaps using True last by auto
      next
        case gapless: False
        then have "income_start p w \<le> ?time row \<and> income_start p w < cp_now p"
          using Some last now overlap by (auto simp: income_start_def min_def)
        then show ?thesis by (intro reading) auto
      qed
    qed
  qed
  then show "\<exists>stop. tw_last_collected_at (new_watermark p w symbols ids r) = Some stop \<and>
      (\<forall>row \<in> set income. start \<le> ?time row \<and> ?time row \<le> stop \<longrightarrow>
        ?time row \<in> covered (tw_income_gaps (new_watermark p w symbols ids r)) \<or> (\<exists>r. income_of (cp_codec p) row = Inr r \<and> tr_record_id r \<in> tr_record_id ` R'))"
    using stop by (simp add: new_watermark_def)
qed

text \<open>A cycle that raises has recorded nothing: neither the ledger nor the watermark has changed.\<close>

lemma persist_raises:
  assumes "collect_and_persist_live_tax cl p fixed month max_pages symbols snapshot s = (Inl e, s')"
  shows "wd_dir s' = wd_dir s \<and> wd_watermark s' = wd_watermark s"
proof -
  have venue: "wd_dir t = wd_dir s \<and> wd_watermark t = wd_watermark s" if "on_venue n m s = (x, t)" for n m x t
    using that by (auto simp: on_venue_def split: prod.splits sum.splits)
  have persist: "wd_dir u = wd_dir t \<and> wd_watermark u = wd_watermark t" if "persist_collected c fixed month records new t = (Inl e, u)" for c records new t u
    using that by (auto simp: persist_collected_def sx_defs on_dir_def on_watermark_def save_tax_watermark_def dest: append_raises split: prod.splits sum.splits)
  show ?thesis
    using assms unfolding collect_and_persist_live_tax_def
    by (auto simp: sx_bind_def sx_gets_def sx_lift_def sx_return_def split: prod.splits sum.splits dest!: venue persist)
qed

definition world_ok :: "text_codec \<Rightarrow> (timestamp \<Rightarrow> string) \<Rightarrow> json list \<Rightarrow> 'v tax_world \<Rightarrow> bool" where
  "world_ok c month income s \<longleftrightarrow> dir_ok c month (wd_dir s)
     \<and> (\<exists>w. load_tax_watermark c (wd_watermark s) = Inr w \<and> watermark_ok w \<and> income_covered c income w (dir_records c (wd_dir s)))"

lemma income_covered_mono: "income_covered c income w R \<Longrightarrow> R \<subseteq> R' \<Longrightarrow> income_covered c income w R'"
  unfolding income_covered_def by (meson image_mono subsetD)

lemma income_covered_cong:
  "tw_income_covered_from w' = tw_income_covered_from w \<Longrightarrow> tw_last_collected_at w' = tw_last_collected_at w \<Longrightarrow> tw_income_gaps w' = tw_income_gaps w
   \<Longrightarrow> income_covered c income w' R = income_covered c income w R"
  by (simp add: income_covered_def)

lemma watermark_ok_norm: "watermark_ok w \<Longrightarrow> watermark_ok (watermark_norm w)"
  by (simp add: watermark_ok_def watermark_norm_def)

lemma cycle_keeps_world:
  assumes cod: "codec_ok (cp_codec p)" "fixed_ok (cp_codec p) fixed" and venue: "income_venue p cl income" "0 \<le> cp_income_overlap p" "snapshot_ok snapshot"
    and world: "world_ok (cp_codec p) month income s"
    and run: "collect_and_persist_live_tax cl p fixed month max_pages symbols snapshot s = (r, s')"
  shows "world_ok (cp_codec p) month income s'"
proof (cases r)
  case (Inl e)
  then show ?thesis using persist_raises [OF run [unfolded Inl]] world by (simp add: world_ok_def)
next
  case (Inr out)
  from world obtain w where w: "load_tax_watermark (cp_codec p) (wd_watermark s) = Inr w" "watermark_ok w"
      "income_covered (cp_codec p) income w (dir_records (cp_codec p) (wd_dir s))" and dir: "dir_ok (cp_codec p) month (wd_dir s)"
    by (auto simp: world_ok_def)
  from persist_run [OF run [unfolded Inr] w(1)] obtain universe records w' st' written where
      u: "tax_collection_symbols symbols w (case snapshot of None \<Rightarrow> [] | Some v \<Rightarrow> vs_positions v) = Inr universe"
    and c: "collect_tax_records cl p w universe \<lparr>co_venue = wd_venue s, co_budget = max_pages, co_issues = []\<rparr> = (Inr (records, w'), st')"
    and d: "append_tax_records (cp_codec p) fixed month records (wd_dir s) = (Inr written, wd_dir s')"
    and f: "wd_watermark s' = Document (watermark_json (cp_codec p) fixed (fst (with_genesis snapshot w w')))" .
  note ids = append_ids [OF cod dir d]
  let ?new = "fst (with_genesis snapshot w w')"
  have ok: "watermark_ok ?new" by (rule with_genesis_ok [OF collected_watermark_ok [OF c w(2)] venue(3) u])
  have load: "load_tax_watermark (cp_codec p) (wd_watermark s') = Inr (watermark_norm ?new)"
    using saved_watermark_loads [OF cod ok] f by (simp add: save_tax_watermark_def sx_modify_def)
  from c obtain trade_records i st1 ir where ir: "collect_income cl p w st1 = (Inr ir, st')" "set records = set trade_records \<union> set (is_records (ir_scan ir))"
    "w' = new_watermark p w universe i ir" by (rule collect_run)
  have "income_covered (cp_codec p) income w' (dir_records (cp_codec p) (wd_dir s'))"
    unfolding ir(3) by (rule income_covered_step [OF venue(1,2) w(2) ir(1) w(3)]) (use ids ir(2) in auto)
  then have "income_covered (cp_codec p) income (watermark_norm ?new) (dir_records (cp_codec p) (wd_dir s'))"
    by (subst income_covered_cong [of _ w']) (simp_all add: watermark_norm_def with_genesis_fields)
  then show ?thesis using ids load watermark_ok_norm [OF ok] by (auto simp: world_ok_def)
qed

text \<open>The life of a ledger: collection cycles at their own times and with their own settings, which return
  or raise; crashes while a cycle appends its records, before the watermark is saved; and whatever
  happens at the venue.\<close>

inductive tax_history :: "text_codec \<Rightarrow> (decimal \<Rightarrow> string) \<Rightarrow> (timestamp \<Rightarrow> string) \<Rightarrow> 'v tax_client \<Rightarrow> json list \<Rightarrow> 'v tax_world \<Rightarrow> bool"
  for c fixed month cl income where
  first: "wd_dir s = [] \<Longrightarrow> wd_watermark s = Missing \<Longrightarrow> tax_history c fixed month cl income s"
| cycle: "tax_history c fixed month cl income s \<Longrightarrow> cp_codec p = c \<Longrightarrow> income_venue p cl income \<Longrightarrow> 0 \<le> cp_income_overlap p \<Longrightarrow> snapshot_ok snapshot
    \<Longrightarrow> collect_and_persist_live_tax cl p fixed month max_pages symbols snapshot s = (r, s') \<Longrightarrow> tax_history c fixed month cl income s'"
| crash: "tax_history c fixed month cl income s \<Longrightarrow> \<forall>r \<in> set records. validate_tax_record r = Inr ()
    \<Longrightarrow> append_crash c fixed month records (wd_dir s) d \<Longrightarrow> tax_history c fixed month cl income (s\<lparr>wd_dir := d\<rparr>)"
| venue: "tax_history c fixed month cl income s \<Longrightarrow> tax_history c fixed month cl income (s\<lparr>wd_venue := v\<rparr>)"

lemma tax_history_ok:
  assumes "codec_ok c" "fixed_ok c fixed" "tax_history c fixed month cl income s" shows "world_ok c month income s"
  using assms(3)
proof (induction rule: tax_history.induct)
  case (first s)
  then show ?case by (simp add: world_ok_def dir_ok_def load_tax_watermark_def watermark_ok_def empty_watermark_def income_covered_def)
next
  case (cycle s p snapshot max_pages symbols r s')
  then show ?case using cycle_keeps_world [of p fixed cl income snapshot month s max_pages symbols r s'] assms(1,2) by simp
next
  case (crash s records d)
  have "dir_ok c month (wd_dir s)" using crash.IH by (simp add: world_ok_def)
  from crash_between [OF assms(1,2) this crash.hyps(2,3)] crash.IH show ?case
    by (auto simp: world_ok_def intro: income_covered_mono)
next
  case (venue s v)
  then show ?case by (simp add: world_ok_def)
qed

text \<open>
  C21: the coverage facts of the tax ledger are true.  However many cycles have run, at whatever times and
  with whatever failures, page budgets and crashes, every income row of the account between the start of
  the coverage and the time the watermark says is collected is in the ledger, or lies in a gap that the
  watermark records.
\<close>

theorem tax_coverage_true:
  assumes "codec_ok c" and "fixed_ok c fixed" and "tax_history c fixed month cl income s"
  shows "\<exists>w. load_tax_watermark c (wd_watermark s) = Inr w \<and> income_covered c income w (dir_records c (wd_dir s))"
  using tax_history_ok [OF assms] by (auto simp: world_ok_def)

text \<open>A venue with a fixed history, for the witnesses.\<close>

definition fixed_venue :: "text_codec \<Rightarrow> (string \<Rightarrow> json list) \<Rightarrow> json list \<Rightarrow> unit tax_client" where
  "fixed_venue c trades income =
     \<lparr>cl_user_trades = (\<lambda>s from_id limit v. (Inr (JArr (take (nat limit) (filter (\<lambda>row. (case from_id of None \<Rightarrow> 0 | Some i \<Rightarrow> i) \<le> trade_id c row) (trades s)))), v)),
      cl_income = (\<lambda>a b limit v. (Inr (JArr (take (nat limit) (filter (\<lambda>row. a * 1000000 \<le> income_time c row \<and> income_time c row \<le> b * 1000000) income))), v))\<rparr>"

lemma fixed_venue_serves: "serves_trades c (fixed_venue c trades income) trades" "serves_income c (fixed_venue c trades income) income"
  by (simp_all add: serves_trades_def serves_income_def fixed_venue_def)

definition example_income :: "int \<Rightarrow> int \<Rightarrow> json" where
  "example_income i ms = JObj [(''tranId'', JInt i), (''incomeType'', JStr ''FUNDING_FEE''), (''income'', JInt 3), (''time'', JInt ms), (''symbol'', JStr ''BTCUSDT''), (''asset'', JStr ''USDT'')]"

definition example_params :: collection_params where
  "example_params = \<lparr>cp_codec = plain_codec, cp_ms = (\<lambda>t. t div 1000000), cp_mode = ''live_mainnet'', cp_now = 90000000, cp_settlement_asset = ''USDT'',
     cp_income_page_limit = 3, cp_trades_page_limit = 2, cp_income_window = 50000000, cp_income_overlap = 1000000, cp_income_retention = 80000000\<rparr>"

lemma example_income_of:
  assumes "\<bar>ms * 1000000\<bar> < 2 ^ 63"
  shows "income_of plain_codec (example_income i ms) = Inr \<lparr>tr_record_id = ''venue:FUNDING_FEE:'' @ str_int i, tr_kind = ''FUNDING_FEE'', tr_event_time = ms * 1000000,
    tr_symbol = ''BTCUSDT'', tr_side = [], tr_quantity = 0, tr_price = 0, tr_quote_qty = 0, tr_fee = 0, tr_fee_asset = [], tr_realized_pnl = 3,
    tr_income_asset = ''USDT'', tr_is_maker = False, tr_venue_id = i, tr_source = ''venue'', tr_mode = [], tr_income_type = ''FUNDING_FEE'', tr_position_side = []\<rparr>"
  using assms by (simp add: income_of_def parse_income_row_def example_income_def venue_int_def venue_field_def venue_decimal_def obj_get_def sx_defs
      classify_income_type_def INCOME_TYPE_KIND_def py_upper_def char_upper_def ms_timestamp_def parse_tax_decimal_def py_bool_def Let_def)

lemma example_income_time [simp]: "\<bar>ms * 1000000\<bar> < 2 ^ 63 \<Longrightarrow> income_time plain_codec (example_income i ms) = ms * 1000000"
  by (simp only: income_time_def example_income_of sum.case tax_record.simps)

lemma example_income_venue: "income_venue example_params (fixed_venue plain_codec (\<lambda>_. []) [example_income 1 20, example_income 2 60]) [example_income 1 20, example_income 2 60]"
  by (simp add: income_venue_def income_ok_def fixed_venue_serves example_income_of example_params_def)

abbreviation example_world :: "unit tax_world" where
  "example_world \<equiv> \<lparr>wd_venue = (), wd_dir = [], wd_watermark = Missing\<rparr>"

lemma example_history:
  "tax_history plain_codec tally_rat plain_month (fixed_venue plain_codec (\<lambda>_. []) [example_income 1 20, example_income 2 60]) [example_income 1 20, example_income 2 60]
     (snd (collect_and_persist_live_tax (fixed_venue plain_codec (\<lambda>_. []) [example_income 1 20, example_income 2 60]) example_params tally_rat plain_month (Suc (Suc 0)) [] None example_world))"
proof -
  let ?run = "collect_and_persist_live_tax (fixed_venue plain_codec (\<lambda>_. []) [example_income 1 20, example_income 2 60]) example_params tally_rat plain_month (Suc (Suc 0)) [] None"
  have "?run example_world = (fst (?run example_world), snd (?run example_world))" by simp
  from tax_history.cycle [OF tax_history.first _ example_income_venue _ _ this] show ?thesis
    by (simp add: example_params_def snapshot_ok_def)
qed

definition example_record :: "int \<Rightarrow> int \<Rightarrow> tax_record" where
  "example_record i ms = \<lparr>tr_record_id = ''venue:FUNDING_FEE:'' @ str_int i, tr_kind = ''FUNDING_FEE'', tr_event_time = ms * 1000000,
    tr_symbol = ''BTCUSDT'', tr_side = [], tr_quantity = 0, tr_price = 0, tr_quote_qty = 0, tr_fee = 0, tr_fee_asset = [], tr_realized_pnl = 3,
    tr_income_asset = ''USDT'', tr_is_maker = False, tr_venue_id = i, tr_source = ''venue'', tr_mode = [], tr_income_type = ''FUNDING_FEE'', tr_position_side = []\<rparr>"

lemma example_income_parse:
  assumes "\<bar>ms * 1000000\<bar> < 2 ^ 63"
  shows "parse_income_row plain_codec (example_income i ms) s = (Inr (example_record i ms), s)"
  using assms by (simp add: parse_income_row_def example_income_def venue_int_def venue_field_def venue_decimal_def obj_get_def sx_defs Let_def
      classify_income_type_def INCOME_TYPE_KIND_def py_upper_def char_upper_def ms_timestamp_def parse_tax_decimal_def py_bool_def example_record_def)

lemmas income_eval = request_def spend_page_def income_page_def fixed_venue_def sx_defs scan_income_def sx_catch_integrity_def example_income_parse
  keep_income_def empty_income_def income_signature_def example_record_def opt_with_def Let_def

lemma example_income_run:
  "\<exists>seen. collect_income (fixed_venue plain_codec (\<lambda>_. []) [example_income 1 20, example_income 2 60]) example_params empty_watermark
     \<lparr>co_venue = (), co_budget = Suc (Suc 0), co_issues = []\<rparr>
   = (Inr \<lparr>ir_scan = \<lparr>is_records = [example_record 1 20\<lparr>tr_mode := ''live_mainnet''\<rparr>, example_record 2 60\<lparr>tr_mode := ''live_mainnet''\<rparr>],
        is_seen = seen, is_conflict_cap = None\<rparr>, ir_complete_through = Some 90000000, ir_window_completed = True\<rparr>,
      \<lparr>co_venue = (), co_budget = 0, co_issues = []\<rparr>)"
  apply (simp add: collect_income_def income_start_def retention_gap_def retention_floor_def empty_watermark_def example_params_def sx_defs)
  apply (subst income_windows.simps, simp add: income_eval)
  apply (subst income_windows.simps, simp add: income_eval)
  apply (subst income_windows.simps, simp)
  done

theorem tax_coverage_true_witness:
  "\<exists>s w. tax_history plain_codec tally_rat plain_month (fixed_venue plain_codec (\<lambda>_. []) [example_income 1 20, example_income 2 60]) [example_income 1 20, example_income 2 60] s
     \<and> load_tax_watermark plain_codec (wd_watermark s) = Inr w \<and> tw_income_covered_from w = Some 10000000 \<and> tw_last_collected_at w = Some 90000000
     \<and> income_covered plain_codec [example_income 1 20, example_income 2 60] w (dir_records plain_codec (wd_dir s))"
proof -
  let ?cl = "fixed_venue plain_codec (\<lambda>_. []) [example_income 1 20, example_income 2 60]"
  let ?st = "\<lparr>co_venue = (), co_budget = Suc (Suc 0), co_issues = []\<rparr>"
  obtain ir st1 where ir: "collect_income ?cl example_params empty_watermark ?st = (Inr ir, st1)" "ir_complete_through ir = Some 90000000" "ir_window_completed ir"
      "is_conflict_cap (ir_scan ir) = None" "set (is_records (ir_scan ir)) = {example_record 1 20\<lparr>tr_mode := ''live_mainnet''\<rparr>, example_record 2 60\<lparr>tr_mode := ''live_mainnet''\<rparr>}"
    by (rule exE [OF example_income_run], erule that) simp_all
  define records where "records = sort_key tr_event_time (is_records (ir_scan ir))"
  define new where "new = new_watermark example_params empty_watermark [] [] ir"
  have coll: "collect_tax_records ?cl example_params empty_watermark [] ?st = (Inr (records, new), st1)"
    using ir(1) by (simp add: collect_tax_records_def collect_trades_def sx_defs empty_watermark_def records_def new_def)
  have valid: "\<forall>r \<in> set records. validate_tax_record r = Inr ()"
    by (simp add: records_def ir(5) validate_tax_record_def guard_res_def example_record_def validate_income_def TAX_RECORD_KINDS_def TAX_SOURCE_MODES_def mode_value_def INCOME_KINDS_def)
  have dir: "dir_ok plain_codec plain_month []" by (simp add: dir_ok_def)
  obtain written dir' where app: "append_tax_records plain_codec tally_rat plain_month records [] = (Inr written, dir')"
    by (rule append_ok [OF plain_codec_ok tally_fixed_ok dir valid]) (rule that)
  let ?run = "collect_and_persist_live_tax ?cl example_params tally_rat plain_month (Suc (Suc 0)) [] None example_world"
  have run: "snd ?run = \<lparr>wd_venue = co_venue st1, wd_dir = dir', wd_watermark = Document (watermark_json plain_codec tally_rat new)\<rparr>"
    using coll app partition_ok [OF dir, of records]
    by (simp add: collect_and_persist_live_tax_def persist_collected_def sx_defs load_tax_watermark_def tax_collection_symbols_def empty_watermark_def
        on_venue_def on_dir_def on_watermark_def save_tax_watermark_def with_genesis_def example_params_def sorted_set_def)
  have fields: "tw_income_covered_from new = Some 10000000" "tw_last_collected_at new = Some 90000000"
    by (simp_all add: new_def new_watermark_def empty_watermark_def ir new_collected_at_def example_params_def income_start_def retention_floor_def)
  have ok: "watermark_ok new" by (rule collected_watermark_ok [OF coll]) (simp add: watermark_ok_def empty_watermark_def)
  have load: "load_tax_watermark plain_codec (wd_watermark (snd ?run)) = Inr (watermark_norm new)"
    using saved_watermark_loads [OF plain_codec_ok tally_fixed_ok ok] by (simp add: run save_tax_watermark_def sx_modify_def)
  from tax_coverage_true [OF plain_codec_ok tally_fixed_ok example_history] load
  have "income_covered plain_codec [example_income 1 20, example_income 2 60] (watermark_norm new) (dir_records plain_codec (wd_dir (snd ?run)))" by simp
  then show ?thesis using example_history load fields by (intro exI conjI) (auto simp: watermark_norm_def)
qed

section \<open>Trades in the ledger\<close>


section \<open>Where the code differs from its description\<close>

text \<open>A trade row without an \<open>id\<close> is not reported: the \<open>KeyError\<close> of \<open>entry["id"]\<close> is not among
  the suppressed exceptions, and leaves the collection.\<close>

lemma trade_row_without_id_raises:
  assumes "map_of d ''id'' = None"
  shows "scan_trade p s (JObj d) sc st = (Inl KeyError, st)"
  using assms
  by (simp add: scan_trade_def parse_trade_row_def parse_trade_entry_def venue_int_def venue_field_def obj_get_def sx_catch_integrity_def sx_defs failed_id_def obj_item_def)

text \<open>An unreadable income row does not hold the watermark when the page budget runs out in its window:
  the row at 20 ms, without \<open>tranId\<close>, is passed by the watermark at 29 ms.\<close>

lemma page_cap_passes_unreadable_row:
  "\<exists>r st. collect_income \<lparr>cl_user_trades = (\<lambda>_ _ _ v. (Inr (JArr []), v)), cl_income = (\<lambda>_ _ _ v. (Inr (JArr [JObj [(''time'', JInt 20)], example_income 2 30]), v))\<rparr>
     (example_params\<lparr>cp_income_page_limit := 2\<rparr>) empty_watermark \<lparr>co_venue = (), co_budget = Suc 0, co_issues = []\<rparr> = (Inr r, st)
     \<and> ir_complete_through r = Some 29000000 \<and> is_records (ir_scan r) = [example_record 2 30\<lparr>tr_mode := ''live_mainnet''\<rparr>]"
proof -
  have bad: "parse_income_row plain_codec (JObj [(''time'', JInt 20)]) st = (Inl DataIntegrityError, st)" for st :: "unit collector"
    by (simp add: parse_income_row_def venue_int_def venue_field_def obj_get_def sx_defs)
  show ?thesis
    apply (simp add: collect_income_def income_start_def retention_gap_def retention_floor_def empty_watermark_def example_params_def sx_defs)
    apply (subst income_windows.simps, simp add: income_eval bad report_issue_def)
    done
qed

section \<open>A cycle that collects trades\<close>

definition example_trade_row :: "int \<Rightarrow> json" where
  "example_trade_row i = JObj [(''id'', JInt i), (''price'', JInt 10), (''qty'', JInt 2), (''quoteQty'', JInt 20), (''commission'', JInt 1),
     (''realizedPnl'', JInt 0), (''time'', JInt 40), (''buyer'', JBool True), (''commissionAsset'', JStr ''USDT''), (''positionSide'', JStr ''BOTH'')]"

definition example_trade_record :: "int \<Rightarrow> tax_record" where
  "example_trade_record i = \<lparr>tr_record_id = ''venue:TRADE:'' @ str_int i, tr_kind = ''TRADE'', tr_event_time = 40000000, tr_symbol = ''BTCUSDT'', tr_side = ''BUY'',
     tr_quantity = 2, tr_price = 10, tr_quote_qty = 20, tr_fee = 1, tr_fee_asset = ''USDT'', tr_realized_pnl = 0, tr_income_asset = ''USDT'',
     tr_is_maker = False, tr_venue_id = i, tr_source = ''venue'', tr_mode = [], tr_income_type = [], tr_position_side = ''BOTH''\<rparr>"

lemma example_trade_parse: "parse_trade_row plain_codec ''BTCUSDT'' ''USDT'' (example_trade_row i) = Inr (example_trade_record i)"
  by (simp add: parse_trade_row_def parse_trade_entry_def example_trade_row_def example_trade_record_def venue_int_def venue_field_def venue_decimal_def obj_get_def
      obj_get_default_def parse_tax_decimal_def ms_timestamp_def py_bool_def ONE_WAY_POSITION_SIDE_def)

lemma example_trade_id [simp]: "failed_id plain_codec (example_trade_row i) = Inr (Some i)" "trade_id plain_codec (example_trade_row i) = i"
  by (simp_all add: trade_id_def failed_id_def example_trade_row_def obj_item_def)

definition example_watermark :: tax_watermark where
  "example_watermark = empty_watermark\<lparr>tw_last_trade_id := [(''BTCUSDT'', 1)]\<rparr>"

abbreviation example_trades :: "string \<Rightarrow> json list" where
  "example_trades \<equiv> (\<lambda>s. if s = ''BTCUSDT'' then [example_trade_row 1, example_trade_row 2] else [])"

lemma example_collect_trades:
  "collect_tax_records (fixed_venue plain_codec example_trades []) example_params example_watermark [''BTCUSDT''] \<lparr>co_venue = (), co_budget = Suc (Suc (Suc 0)), co_issues = []\<rparr>
   = (Inr ([example_trade_record 2\<lparr>tr_mode := ''live_mainnet''\<rparr>],
       \<lparr>tw_last_trade_id = [(''BTCUSDT'', 2)], tw_last_collected_at = Some 90000000, tw_known_trade_symbols = [''BTCUSDT''], tw_income_covered_from = Some 10000000,
        tw_income_gaps = [], tw_genesis_at = None, tw_genesis_positions = []\<rparr>), \<lparr>co_venue = (), co_budget = 0, co_issues = []\<rparr>)"
proof -
  have trades: "collect_trades (fixed_venue plain_codec example_trades []) example_params example_watermark [''BTCUSDT''] \<lparr>co_venue = (), co_budget = Suc (Suc (Suc 0)), co_issues = []\<rparr>
      = (Inr ([example_trade_record 2\<lparr>tr_mode := ''live_mainnet''\<rparr>], [(''BTCUSDT'', 2)]), \<lparr>co_venue = (), co_budget = Suc (Suc 0), co_issues = []\<rparr>)"
    by (simp add: collect_trades_def collect_symbol_def example_watermark_def empty_watermark_def example_params_def sx_defs request_def fixed_venue_def spend_page_def
        trade_page_def scan_trade_def example_trade_parse sx_catch_integrity_def empty_scan_def opt_with_def example_trade_record_def advance_trade_id_def dict_get_def)
  have income: "collect_income (fixed_venue plain_codec example_trades []) example_params example_watermark \<lparr>co_venue = (), co_budget = Suc (Suc 0), co_issues = []\<rparr>
      = (Inr \<lparr>ir_scan = empty_income, ir_complete_through = Some 90000000, ir_window_completed = True\<rparr>, \<lparr>co_venue = (), co_budget = 0, co_issues = []\<rparr>)"
    apply (simp add: collect_income_def income_start_def retention_gap_def retention_floor_def example_watermark_def empty_watermark_def example_params_def sx_defs)
    apply (subst income_windows.simps, simp add: income_eval)
    apply (subst income_windows.simps, simp add: income_eval)
    apply (subst income_windows.simps, simp)
    done
  have new: "new_watermark example_params example_watermark [''BTCUSDT''] [(''BTCUSDT'', 2)] \<lparr>ir_scan = empty_income, ir_complete_through = Some 90000000, ir_window_completed = True\<rparr>
      = \<lparr>tw_last_trade_id = [(''BTCUSDT'', 2)], tw_last_collected_at = Some 90000000, tw_known_trade_symbols = [''BTCUSDT''], tw_income_covered_from = Some 10000000,
        tw_income_gaps = [], tw_genesis_at = None, tw_genesis_positions = []\<rparr>"
    by (simp add: new_watermark_def empty_income_def example_watermark_def empty_watermark_def sorted_set_def
        new_collected_at_def example_params_def income_start_def retention_floor_def retention_gap_def merge_income_gaps_def)
  show ?thesis by (simp add: collect_tax_records_def sx_bind_def trades income sx_return_def new) (simp add: empty_income_def)
qed


end
