(* ===== verification/Float_Arith.thy ===== *)
theory Float_Arith
  imports Decimal_Arith
begin

text \<open>
  Python's \<open>float\<close>: binary floating point numbers of 53 significant bits, rounded to nearest with
  ties to even.  A value is its exact rational; \<open>fl\<close> is the rounding of one operation.  The
  exponent range is unbounded here: overflow, subnormals, infinities and NaN are not part of the
  model.
\<close>

fun ilog2 :: "nat \<Rightarrow> nat" where
  "ilog2 n = (if n < 2 then 0 else Suc (ilog2 (n div 2)))"

declare ilog2.simps [simp del]

definition pow2 :: "int \<Rightarrow> rat" where
  "pow2 e = (if 0 \<le> e then 2 ^ nat e else 1 / 2 ^ nat (- e))"

definition binexp :: "rat \<Rightarrow> int" where
  "binexp x = (if 1 \<le> x then int (ilog2 (nat \<lfloor>x\<rfloor>)) else - int (Suc (ilog2 (nat (\<lceil>1 / x\<rceil> - 1)))))"

definition fl :: "rat \<Rightarrow> rat" where
  "fl x = (if x = 0 then 0 else let q = pow2 (binexp \<bar>x\<bar> - 52) in of_int (half_even (x / q)) * q)"

definition fsub :: "rat \<Rightarrow> rat \<Rightarrow> rat" where "fsub a b = fl (a - b)"

definition fdiv :: "rat \<Rightarrow> rat \<Rightarrow> rat res" where
  "fdiv a b = (if b = 0 then Inl ArithmeticError else Inr (fl (a / b)))"

lemma pow2_pos [simp]: "0 < pow2 e"
  by (simp add: pow2_def)

lemma fl_0 [simp]: "fl 0 = 0"
  by (simp add: fl_def)

lemma fl_minus: "fl (- x) = - fl x"
  by (simp add: fl_def Let_def half_even_minus)

lemma fl_nonneg: assumes "0 \<le> x" shows "0 \<le> fl x"
proof -
  have "0 \<le> half_even (x / pow2 (binexp x - 52))"
    using half_even_mono [of 0 "x / pow2 (binexp x - 52)"] half_even_of_int [of 0] assms by (simp add: zero_le_divide_iff less_imp_le)
  then show ?thesis using assms by (simp add: fl_def Let_def less_imp_le)
qed

end
