(* ===== verification/Account.thy ===== *)
theory Account
  imports Venue Float_Arith Filters "HOL-Library.Product_Lexorder"
begin

text \<open>
  \<open>src/live/account.py\<close>: account snapshot, venue leverage, sizing equity and reconciliation.

  The REST client is a parameter: \<open>rest_request\<close> and \<open>force_orders\<close> are functions on the
  environment state.  Fractions that the code turns into \<open>Decimal(str(x))\<close> are given as that
  decimal; the float arithmetic of \<open>required_leverage\<close> uses the rounding of theory
  \<open>Float_Arith\<close>.  The audit events are those of theory \<open>Venue\<close>.

  Proved here: a leverage plan is idempotent; the notional cap drops exactly the exposing
  intents above it; reconciliation with zero tolerance passes exactly on equal positions; every
  breach is either explained in full or reported; force-close paging ends on a venue that honours
  its start time, and stops early on a page without executions.
\<close>

section \<open>Data\<close>

definition VENUE_MARGIN_TYPE :: string where "VENUE_MARGIN_TYPE = ''CROSSED''"

definition DELISTED_SYMBOL_STATUSES :: "string list" where "DELISTED_SYMBOL_STATUSES = [''SETTLING'', ''CLOSE'']"

definition CROSS_MARGIN_ALIASES :: "string list" where "CROSS_MARGIN_ALIASES = [''cross'', ''crossed'']"

definition BLOCKED_MARGIN_TYPE_CHANGE_CODES :: "int list" where "BLOCKED_MARGIN_TYPE_CHANGE_CODES = [- 4047, - 4048]"

definition BLOCKED_LEVERAGE_CHANGE_CODES :: "int list" where "BLOCKED_LEVERAGE_CHANGE_CODES = [- 4161]"

record account_snapshot =
  as_taken_at :: timestamp
  as_wallet_balance :: decimal
  as_available_balance :: decimal
  as_total_maint_margin :: decimal
  as_unrealized_pnl :: decimal
  as_positions :: "(string, decimal) dict"
  as_dual_side_position :: bool
  as_multi_assets_margin :: bool

record position_breach =
  pb_symbol :: string
  pb_venue_qty :: decimal
  pb_ledger_qty :: decimal

definition gap :: "position_breach \<Rightarrow> decimal" where
  "gap b = dsub (pb_venue_qty b) (pb_ledger_qty b)"

record venue_force_close =
  vf_symbol :: string
  vf_side :: string
  vf_executed_qty :: decimal
  vf_avg_price :: decimal
  vf_auto_close_type :: string
  vf_order_id :: string
  vf_updated_at :: timestamp

record leverage_bracket =
  lb_bracket :: int
  lb_initial_leverage :: int
  lb_notional_cap :: decimal
  lb_notional_floor :: decimal

record venue_symbol_config =
  vs_symbol :: string
  vs_margin_type :: "string option"
  vs_leverage :: "int option"

record venue_leverage_plan =
  lp_target_leverage :: "(string, int) dict"
  lp_margin_type_changes :: "string list"
  lp_leverage_changes :: "string list"

section \<open>Leverage\<close>

text \<open>\<open>j[k]\<close>: a value that is no object raises \<open>TypeError\<close>.\<close>

definition json_item :: "json \<Rightarrow> string \<Rightarrow> json res" where
  "json_item j k = (case j of JObj d \<Rightarrow> obj_item d k | _ \<Rightarrow> Inl TypeError)"

definition missing_keys :: "exc list \<Rightarrow> 'a res \<Rightarrow> 'a res" where
  "missing_keys es r = (case r of Inl e \<Rightarrow> if e \<in> set es then Inl DataIntegrityError else Inl e | Inr x \<Rightarrow> Inr x)"

definition parse_bracket :: "text_codec \<Rightarrow> json \<Rightarrow> leverage_bracket res" where
  "parse_bracket c entry = missing_keys [KeyError, TypeError]
     (rbind (rbind (json_item entry ''bracket'') (py_int c)) (\<lambda>b.
      rbind (rbind (json_item entry ''initialLeverage'') (py_int c)) (\<lambda>l.
      rbind (rbind (json_item entry ''notionalCap'') (py_decimal c)) (\<lambda>cap.
      rbind (rbind (json_item entry ''notionalFloor'') (py_decimal c)) (\<lambda>fl.
        Inr \<lparr>lb_bracket = b, lb_initial_leverage = l, lb_notional_cap = cap, lb_notional_floor = fl\<rparr>)))))"

definition parse_bracket_row :: "text_codec \<Rightarrow> json \<Rightarrow> (string, leverage_bracket list) dict \<Rightarrow> (string, leverage_bracket list) dict res" where
  "parse_bracket_row c row parsed = (case row of
     JObj d \<Rightarrow> (case (map_of d ''symbol'', obj_get d ''brackets'') of
         (Some s, JArr brackets_raw) \<Rightarrow>
           if brackets_raw = [] then Inl DataIntegrityError
           else rbind (rmap (parse_bracket c) brackets_raw) (\<lambda>bs.
             Inr (AList.update (py_str c s) (sort_key lb_bracket bs) parsed))
       | _ \<Rightarrow> Inl DataIntegrityError)
   | _ \<Rightarrow> Inl DataIntegrityError)"

definition parse_leverage_brackets :: "text_codec \<Rightarrow> json \<Rightarrow> (string, leverage_bracket list) dict res" where
  "parse_leverage_brackets c payload = (case payload of
     JArr rows \<Rightarrow> rfold (parse_bracket_row c) rows [] | _ \<Rightarrow> Inl DataIntegrityError)"

definition parse_config_row :: "text_codec \<Rightarrow> json \<Rightarrow> (string, venue_symbol_config) dict \<Rightarrow> (string, venue_symbol_config) dict res" where
  "parse_config_row c row configs = (case row of
     JObj d \<Rightarrow> (case map_of d ''symbol'' of None \<Rightarrow> Inl DataIntegrityError
       | Some s \<Rightarrow>
           rbind (case map_of d ''leverage'' of None \<Rightarrow> Inr None | Some v \<Rightarrow> rbind (py_int c v) (\<lambda>l. Inr (Some l))) (\<lambda>leverage.
             Inr (AList.update (py_str c s)
               \<lparr>vs_symbol = py_str c s, vs_margin_type = map_option (\<lambda>v. py_lower (py_str c v)) (map_of d ''marginType''),
                vs_leverage = leverage\<rparr> configs)))
   | _ \<Rightarrow> Inl DataIntegrityError)"

definition parse_position_config :: "text_codec \<Rightarrow> json \<Rightarrow> (string, venue_symbol_config) dict res" where
  "parse_position_config c payload = (case payload of
     JArr rows \<Rightarrow> rfold (parse_config_row c) rows [] | _ \<Rightarrow> Inl DataIntegrityError)"

definition required_leverage :: "rat \<Rightarrow> rat \<Rightarrow> int \<Rightarrow> int res" where
  "required_leverage max_gross_leverage buffer_fraction bracket_max_leverage =
     rbind (fdiv max_gross_leverage (fsub 1 buffer_fraction)) (\<lambda>x.
       Inr (max 1 (min bracket_max_leverage \<lceil>x\<rceil>)))"

definition max_notional_at_leverage :: "leverage_bracket list \<Rightarrow> int \<Rightarrow> decimal" where
  "max_notional_at_leverage brackets leverage =
     (let eligible = map lb_notional_cap (filter (\<lambda>b. leverage \<le> lb_initial_leverage b) brackets)
      in if eligible = [] then 0 else Max (set eligible))"

definition needs_margin_change :: "venue_symbol_config option \<Rightarrow> bool" where
  "needs_margin_change config = (case config of None \<Rightarrow> True
     | Some cfg \<Rightarrow> (case vs_margin_type cfg of None \<Rightarrow> True | Some m \<Rightarrow> m \<notin> set CROSS_MARGIN_ALIASES))"

definition needs_leverage_change :: "venue_symbol_config option \<Rightarrow> int \<Rightarrow> bool" where
  "needs_leverage_change config target = (case config of None \<Rightarrow> True | Some cfg \<Rightarrow> vs_leverage cfg \<noteq> Some target)"

definition plan_symbol_leverage ::
    "(string, leverage_bracket list) dict \<Rightarrow> (string, venue_symbol_config) dict \<Rightarrow> rat \<Rightarrow> rat
     \<Rightarrow> string \<Rightarrow> venue_leverage_plan \<Rightarrow> venue_leverage_plan res" where
  "plan_symbol_leverage brackets configs max_gross buffer symbol plan =
     (case map_of brackets symbol of
        Some (b # bs) \<Rightarrow>
          rbind (required_leverage max_gross buffer (lb_initial_leverage b)) (\<lambda>target.
            let config = map_of configs symbol
            in Inr \<lparr>lp_target_leverage = AList.update symbol target (lp_target_leverage plan),
                 lp_margin_type_changes = lp_margin_type_changes plan @ (if needs_margin_change config then [symbol] else []),
                 lp_leverage_changes = lp_leverage_changes plan @ (if needs_leverage_change config target then [symbol] else [])\<rparr>)
      | _ \<Rightarrow> Inl RiskGateBreach)"

definition plan_venue_leverage ::
    "string list \<Rightarrow> (string, leverage_bracket list) dict \<Rightarrow> (string, venue_symbol_config) dict \<Rightarrow> rat \<Rightarrow> rat \<Rightarrow> venue_leverage_plan res" where
  "plan_venue_leverage symbols brackets configs max_gross buffer =
     rfold (plan_symbol_leverage brackets configs max_gross buffer) (sorted_set symbols)
       \<lparr>lp_target_leverage = [], lp_margin_type_changes = [], lp_leverage_changes = []\<rparr>"

type_synonym 'v rest = "string \<Rightarrow> string \<Rightarrow> payload \<Rightarrow> 'v \<Rightarrow> json res \<times> 'v"

text \<open>A configuration change: the codes of a blocked change become a risk gate breach.\<close>

definition post_change :: "'v rest \<Rightarrow> int list \<Rightarrow> string \<Rightarrow> payload \<Rightarrow> ('v world, unit) sx" where
  "post_change req blocked path params w = (case on_venue (req ''POST'' path params) w of
     (Inl (VenueError (Some code) http), w') \<Rightarrow> (Inl (if code \<in> set blocked then RiskGateBreach else VenueError (Some code) http), w')
   | (Inl e, w') \<Rightarrow> (Inl e, w') | (Inr _, w') \<Rightarrow> (Inr (), w'))"

definition ensure_venue_leverage ::
    "text_codec \<Rightarrow> 'v rest \<Rightarrow> string list \<Rightarrow> (string, leverage_bracket list) dict \<Rightarrow> rat \<Rightarrow> rat \<Rightarrow> ('v world, (string, int) dict) sx" where
  "ensure_venue_leverage c req symbols brackets max_gross buffer =
     sx_bind (on_venue (req ''GET'' ''/fapi/v2/positionRisk'' [])) (\<lambda>risk.
     sx_bind (sx_lift (parse_position_config c risk)) (\<lambda>configs.
     sx_bind (sx_lift (plan_venue_leverage symbols brackets configs max_gross buffer)) (\<lambda>plan.
     sx_bind (sx_foldM (\<lambda>symbol _.
         sx_bind (post_change req BLOCKED_MARGIN_TYPE_CHANGE_CODES ''/fapi/v1/marginType''
                    [(''symbol'', JStr symbol), (''marginType'', JStr VENUE_MARGIN_TYPE)]) (\<lambda>_.
           audit_record ''venue_margin_type_set'' symbol [] [])) (lp_margin_type_changes plan) ()) (\<lambda>_.
     sx_bind (sx_foldM (\<lambda>symbol _.
         sx_bind (sx_lift (case map_of (lp_target_leverage plan) symbol of None \<Rightarrow> Inl KeyError | Some l \<Rightarrow> Inr l)) (\<lambda>leverage.
         sx_bind (post_change req BLOCKED_LEVERAGE_CHANGE_CODES ''/fapi/v1/leverage''
                    [(''symbol'', JStr symbol), (''leverage'', JInt leverage)]) (\<lambda>_.
           audit_record ''venue_leverage_set'' symbol [] []))) (lp_leverage_changes plan) ()) (\<lambda>_.
       sx_return (lp_target_leverage plan))))))"

text \<open>The intents that stay, in order; each dropped one leaves an audit line.\<close>

definition cap_intent ::
    "(string, leverage_bracket list) dict \<Rightarrow> (string, int) dict \<Rightarrow> order_intent \<Rightarrow> order_intent list \<Rightarrow> ('v world, order_intent list) sx" where
  "cap_intent brackets leverages intent kept =
     (if oi_reduce_only intent then sx_return (kept @ [intent])
      else case (map_of brackets (oi_symbol intent), map_of leverages (oi_symbol intent)) of
        (Some bs, Some l) \<Rightarrow>
          if max_notional_at_leverage bs l < dmul (dabs (oi_target_qty intent)) (oi_decision_price intent)
          then sx_bind (audit_record ''notional_cap_rejected'' (oi_symbol intent) [] []) (\<lambda>_. sx_return kept)
          else sx_return (kept @ [intent])
      | _ \<Rightarrow> sx_raise KeyError)"

definition reject_intents_over_notional_cap ::
    "order_intent list \<Rightarrow> (string, leverage_bracket list) dict \<Rightarrow> (string, int) dict \<Rightarrow> ('v world, order_intent list) sx" where
  "reject_intents_over_notional_cap intents brackets leverages = sx_foldM (cap_intent brackets leverages) intents []"

section \<open>Delistings and the account snapshot\<close>

definition listing_entries :: "text_codec \<Rightarrow> payload \<Rightarrow> (string, payload) dict res" where
  "listing_entries c exchange_info =
     rbind (case map_of exchange_info ''symbols'' of None \<Rightarrow> Inr [] | Some v \<Rightarrow> py_iter v) (\<lambda>rows.
       Inr (foldl (\<lambda>d row. case row of
              JObj e \<Rightarrow> (case map_of e ''symbol'' of None \<Rightarrow> d | Some s \<Rightarrow> AList.update (py_str c s) e d)
            | _ \<Rightarrow> d) [] rows))"

definition settled_symbol :: "text_codec \<Rightarrow> (string, payload) dict \<Rightarrow> (string, decimal) dict \<Rightarrow> (string, decimal) dict \<Rightarrow> int \<Rightarrow> string \<Rightarrow> bool res" where
  "settled_symbol c entries venue_positions ledger_positions now_ms symbol =
     (if dict_get ledger_positions symbol 0 = 0 then Inr False
      else if dict_get venue_positions symbol 0 \<noteq> 0 then Inr False
      else case map_of entries symbol of
        None \<Rightarrow> Inr False
      | Some entry \<Rightarrow>
          if obj_get entry ''status'' \<notin> JStr ` set DELISTED_SYMBOL_STATUSES then Inr False
          else case obj_get entry ''deliveryDate'' of JNull \<Rightarrow> Inr False
             | v \<Rightarrow> rbind (py_int c v) (\<lambda>delivery. Inr (delivery \<le> now_ms)))"

definition settled_delisting_symbols ::
    "text_codec \<Rightarrow> payload \<Rightarrow> (string, decimal) dict \<Rightarrow> (string, decimal) dict \<Rightarrow> timestamp \<Rightarrow> string list res" where
  "settled_delisting_symbols c exchange_info venue_positions ledger_positions now =
     rbind (listing_entries c exchange_info) (\<lambda>entries.
       rfold (\<lambda>symbol settled. rbind (settled_symbol c entries venue_positions ledger_positions (now div 1000000) symbol) (\<lambda>b.
           Inr (if b then settled @ [symbol] else settled))) (sort (map fst ledger_positions)) [])"

definition required_number :: "text_codec \<Rightarrow> payload \<Rightarrow> string \<Rightarrow> decimal res" where
  "required_number c p key = (case map_of p key of None \<Rightarrow> Inl DataIntegrityError
     | Some v \<Rightarrow> (case py_decimal c v of Inl _ \<Rightarrow> Inl DataIntegrityError | Inr x \<Rightarrow> Inr x))"

definition fetch_flag :: "'v rest \<Rightarrow> string \<Rightarrow> string \<Rightarrow> ('v world, json) sx" where
  "fetch_flag req path key =
     sx_bind (on_venue (req ''GET'' path [])) (\<lambda>payload. case payload of
       JObj d \<Rightarrow> (case map_of d key of None \<Rightarrow> sx_raise DataIntegrityError | Some v \<Rightarrow> sx_return v)
     | _ \<Rightarrow> sx_raise DataIntegrityError)"

definition position_row :: "text_codec \<Rightarrow> json \<Rightarrow> (string, decimal) dict \<Rightarrow> (string, decimal) dict res" where
  "position_row c row positions = (case row of
     JObj d \<Rightarrow> (case (map_of d ''symbol'', map_of d ''positionAmt'') of
         (Some s, Some a) \<Rightarrow> rbind (py_decimal c a) (\<lambda>qty.
            Inr (if qty \<noteq> 0 then AList.update (py_str c s) qty positions else positions))
       | _ \<Rightarrow> Inl DataIntegrityError)
   | _ \<Rightarrow> Inl DataIntegrityError)"

definition flag_of :: "'v rest \<Rightarrow> payload \<Rightarrow> string \<Rightarrow> string \<Rightarrow> ('v world, json) sx" where
  "flag_of req account key path = (case obj_get account key of JNull \<Rightarrow> fetch_flag req path key | v \<Rightarrow> sx_return v)"

definition is_true_text :: "text_codec \<Rightarrow> json \<Rightarrow> bool" where
  "is_true_text c v \<longleftrightarrow> py_lower (py_str c v) = ''true''"

definition fetch_account_snapshot :: "text_codec \<Rightarrow> 'v rest \<Rightarrow> timestamp \<Rightarrow> ('v world, account_snapshot) sx" where
  "fetch_account_snapshot c req now =
     sx_bind (on_venue (req ''GET'' ''/fapi/v2/account'' [])) (\<lambda>account_raw.
     sx_bind (on_venue (req ''GET'' ''/fapi/v2/positionRisk'' [])) (\<lambda>position_risk.
     sx_bind (sx_lift (case account_raw of
         JObj d \<Rightarrow> if map_of d ''totalWalletBalance'' = None then Inl DataIntegrityError else Inr d
       | _ \<Rightarrow> Inl DataIntegrityError)) (\<lambda>account.
     sx_bind (sx_lift (case position_risk of JArr rows \<Rightarrow> rfold (position_row c) rows [] | _ \<Rightarrow> Inl DataIntegrityError)) (\<lambda>positions.
     sx_bind (flag_of req account ''dualSidePosition'' ''/fapi/v1/positionSide/dual'') (\<lambda>dual_side_raw.
     sx_bind (flag_of req account ''multiAssetsMargin'' ''/fapi/v1/multiAssetsMargin'') (\<lambda>multi_assets_raw.
     sx_bind (sx_lift (guard_res (dual_side_raw \<noteq> JNull \<and> multi_assets_raw \<noteq> JNull) DataIntegrityError)) (\<lambda>_.
     sx_bind (sx_lift (required_number c account ''totalWalletBalance'')) (\<lambda>wallet.
     sx_bind (sx_lift (required_number c account ''availableBalance'')) (\<lambda>available.
     sx_bind (sx_lift (required_number c account ''totalInitialMargin'')) (\<lambda>margin.
     sx_bind (sx_lift (required_number c account ''totalUnrealizedProfit'')) (\<lambda>pnl.
       sx_return \<lparr>as_taken_at = now, as_wallet_balance = wallet, as_available_balance = available,
         as_total_maint_margin = margin, as_unrealized_pnl = pnl, as_positions = positions,
         as_dual_side_position = is_true_text c dual_side_raw,
         as_multi_assets_margin = is_true_text c multi_assets_raw\<rparr>)))))))))))"

section \<open>Sizing equity and configuration\<close>

text \<open>A decimal whose \<open>float\<close> is finite: it rounds to a magnitude below the overflow threshold.\<close>

definition float_finite :: "decimal \<Rightarrow> bool" where
  "float_finite x \<longleftrightarrow> \<bar>x\<bar> < (2 ^ 54 - 1) * 2 ^ 970"

definition held_mark :: "(string, decimal) dict \<Rightarrow> (string, decimal) dict option \<Rightarrow> string \<Rightarrow> decimal option" where
  "held_mark marks fallback symbol = (case map_of marks symbol of Some m \<Rightarrow> Some m
     | None \<Rightarrow> (case fallback of None \<Rightarrow> None
         | Some fb \<Rightarrow> (case map_of fb symbol of None \<Rightarrow> None
             | Some candidate \<Rightarrow> if float_finite candidate \<and> 0 < candidate then Some candidate else None)))"

definition mark_position ::
    "(string, decimal) dict \<Rightarrow> (string, decimal) dict option \<Rightarrow> string \<times> decimal \<Rightarrow> decimal \<Rightarrow> decimal res" where
  "mark_position marks fallback sq acc =
     (if snd sq = 0 then Inr acc
      else case held_mark marks fallback (fst sq) of None \<Rightarrow> Inl RiskGateBreach
         | Some mk \<Rightarrow> Inr (dadd acc (dmul (snd sq) mk)))"

definition resolve_sizing_equity ::
    "account_snapshot \<Rightarrow> decimal \<Rightarrow> bool \<Rightarrow> decimal option \<Rightarrow> (string, decimal) dict option
     \<Rightarrow> (string, decimal) dict option \<Rightarrow> (string, decimal) dict option \<Rightarrow> decimal res" where
  "resolve_sizing_equity snapshot cap_usdt suppressed cash_usdt positions marks fallback_marks =
     (if suppressed then
        rbind (case (positions, marks) of
            (Some ps, Some ms) \<Rightarrow> rfold (mark_position ms fallback_marks) ps (case cash_usdt of None \<Rightarrow> cap_usdt | Some x \<Rightarrow> x)
          | _ \<Rightarrow> Inr (case cash_usdt of None \<Rightarrow> cap_usdt | Some x \<Rightarrow> x))
          (\<lambda>equity. if equity \<le> 0 then Inl RiskGateBreach else Inr equity)
      else let equity = dadd (as_wallet_balance snapshot) (as_unrealized_pnl snapshot)
           in if equity \<le> 0 then Inl RiskGateBreach else Inr equity)"

definition assert_venue_configuration :: "account_snapshot \<Rightarrow> unit res" where
  "assert_venue_configuration s =
     (if as_multi_assets_margin s then Inl RiskGateBreach
      else if as_dual_side_position s then Inl RiskGateBreach else Inr ())"

definition free_margin_breached :: "account_snapshot \<Rightarrow> decimal \<Rightarrow> bool res" where
  "free_margin_breached s min_free_margin_fraction =
     (if as_wallet_balance s \<le> 0 then Inr False
      else rbind (ddiv (as_available_balance s) (as_wallet_balance s)) (\<lambda>x. Inr (x < min_free_margin_fraction)))"

definition synthetic_flat_snapshot :: "pd_timestamp \<Rightarrow> account_snapshot" where
  "synthetic_flat_snapshot now = \<lparr>as_taken_at = as_utc now, as_wallet_balance = 0, as_available_balance = 0,
     as_total_maint_margin = 0, as_unrealized_pnl = 0, as_positions = [], as_dual_side_position = False,
     as_multi_assets_margin = False\<rparr>"

definition assert_suppressed_venue_flat :: "account_snapshot \<Rightarrow> unit res" where
  "assert_suppressed_venue_flat s = guard_res (list_all (\<lambda>(_, q). q = 0) (as_positions s)) ReconciliationBreach"

definition effective_positions :: "bool \<Rightarrow> account_snapshot \<Rightarrow> (string, decimal) dict \<Rightarrow> (string, decimal) dict" where
  "effective_positions suppressed s ledger_positions = (if suppressed then ledger_positions else as_positions s)"

section \<open>Reconciliation\<close>

definition EPSILON :: decimal where "EPSILON = 1 / 10 ^ 12"

definition position_breached :: "account_snapshot \<Rightarrow> (string, decimal) dict \<Rightarrow> decimal \<Rightarrow> string list \<Rightarrow> string \<Rightarrow> bool" where
  "position_breached snapshot ledger tolerance settled symbol =
     (let ledger_qty = dict_get ledger symbol 0; venue_qty = dict_get (as_positions snapshot) symbol 0
      in \<not> (symbol \<in> set settled \<and> venue_qty = 0)
         \<and> tolerance < rnd28 (dabs (dsub venue_qty ledger_qty) / max (dabs ledger_qty) EPSILON))"

definition find_position_breaches ::
    "account_snapshot \<Rightarrow> (string, decimal) dict \<Rightarrow> decimal \<Rightarrow> string list \<Rightarrow> position_breach list res" where
  "find_position_breaches snapshot ledger tolerance settled =
     (if tolerance < 0 then Inl ValueError
      else Inr (map (\<lambda>s. \<lparr>pb_symbol = s, pb_venue_qty = dict_get (as_positions snapshot) s 0, pb_ledger_qty = dict_get ledger s 0\<rparr>)
        (filter (position_breached snapshot ledger tolerance settled)
          (sorted_set (map fst ledger @ map fst (filter (\<lambda>(_, q). q \<noteq> 0) (as_positions snapshot)))))))"

definition reconcile_or_halt :: "account_snapshot \<Rightarrow> (string, decimal) dict \<Rightarrow> decimal \<Rightarrow> string list \<Rightarrow> unit res" where
  "reconcile_or_halt snapshot ledger tolerance settled =
     rbind (find_position_breaches snapshot ledger tolerance settled) (\<lambda>breaches.
       if breaches = [] then Inr () else Inl ReconciliationBreach)"

definition signed_close :: "venue_force_close \<Rightarrow> decimal" where
  "signed_close x = (if vf_side x = ''BUY'' then vf_executed_qty x else dneg (vf_executed_qty x))"

definition closes_of :: "venue_force_close list \<Rightarrow> string \<Rightarrow> venue_force_close list" where
  "closes_of force_closes symbol = filter (\<lambda>x. vf_symbol x = symbol) force_closes"

definition breach_explained :: "venue_force_close list \<Rightarrow> decimal \<Rightarrow> position_breach \<Rightarrow> bool" where
  "breach_explained force_closes tolerance breach =
     (let closes = closes_of force_closes (pb_symbol breach);
          signed = foldl dadd 0 (map signed_close closes);
          g = gap breach
      in closes \<noteq> [] \<and> rnd28 (dabs (dsub signed g) / max (max (dabs g) (dabs signed)) EPSILON) \<le> tolerance)"

definition explain_breaches ::
    "position_breach list \<Rightarrow> venue_force_close list \<Rightarrow> decimal \<Rightarrow> venue_force_close list \<times> position_breach list" where
  "explain_breaches breaches force_closes tolerance =
     (sort_key (\<lambda>x. (vf_symbol x, vf_order_id x))
        (concat (map (\<lambda>b. closes_of force_closes (pb_symbol b)) (filter (breach_explained force_closes tolerance) breaches))),
      filter (\<lambda>b. \<not> breach_explained force_closes tolerance b) breaches)"

section \<open>Force closes\<close>

text \<open>One row: \<open>None\<close> for a row without an execution.\<close>

definition parse_force_row :: "text_codec \<Rightarrow> json \<Rightarrow> venue_force_close option res" where
  "parse_force_row c row = (case row of
     JObj e \<Rightarrow>
       rbind (missing_keys [KeyError, TypeError, ValueError]
         (rbind (obj_item e ''symbol'') (\<lambda>s.
          rbind (obj_item e ''side'') (\<lambda>side.
          rbind (rbind (obj_item e ''executedQty'') (py_decimal c)) (\<lambda>qty.
          rbind (rbind (obj_item e ''avgPrice'') (py_decimal c)) (\<lambda>price.
          rbind (rbind (obj_item e ''updateTime'') (py_int c)) (\<lambda>ts.
            Inr \<lparr>vf_symbol = py_str c s, vf_side = py_str c side, vf_executed_qty = qty, vf_avg_price = price,
              vf_auto_close_type = py_str c (obj_get_default e ''autoCloseType'' (JStr [])),
              vf_order_id = py_str c (obj_get_default e ''orderId'' (obj_get_default e ''id'' (JStr []))),
              vf_updated_at = ts * 1000000\<rparr>)))))))
         (\<lambda>x. if vf_side x \<notin> set SIDES then Inl DataIntegrityError
              else if vf_executed_qty x < 0 then Inl DataIntegrityError
              else if vf_executed_qty x = 0 then Inr None
              else if vf_avg_price x \<le> 0 then Inl DataIntegrityError
              else if vf_auto_close_type x \<notin> {''LIQUIDATION'', ''ADL''} then Inl DataIntegrityError
              else Inr (Some x))
   | _ \<Rightarrow> Inl DataIntegrityError)"

text \<open>The rows of one page: new closes, and the largest update time among the rows with an execution.\<close>

definition force_row :: "text_codec \<Rightarrow> json \<Rightarrow> venue_force_close list \<times> int option \<Rightarrow> (venue_force_close list \<times> int option) res" where
  "force_row c row acc = rbind (parse_force_row c row) (\<lambda>x. case x of
     None \<Rightarrow> Inr acc
   | Some y \<Rightarrow>
       let ts = vf_updated_at y div 1000000;
           same = (\<lambda>z. (vf_symbol z, vf_order_id z, vf_updated_at z, vf_executed_qty z, vf_avg_price z) =
                      (vf_symbol y, vf_order_id y, vf_updated_at y, vf_executed_qty y, vf_avg_price y))
       in Inr (if list_ex same (fst acc) then fst acc else fst acc @ [y],
            Some (case snd acc of None \<Rightarrow> ts | Some m \<Rightarrow> max m ts)))"

definition PAGE_LIMIT :: nat where "PAGE_LIMIT = 100"

text \<open>The paging loop with fuel; \<open>None\<close> when the fuel runs out.\<close>

primrec force_close_pages ::
    "nat \<Rightarrow> text_codec \<Rightarrow> (int \<Rightarrow> int \<Rightarrow> 'v \<Rightarrow> json res \<times> 'v) \<Rightarrow> int \<Rightarrow> int \<Rightarrow> venue_force_close list \<Rightarrow> 'v
     \<Rightarrow> (venue_force_close list res \<times> 'v) option" where
  "force_close_pages 0 c force_orders until cursor out v = None"
| "force_close_pages (Suc fuel) c force_orders until cursor out v =
     (case force_orders cursor until v of
        (Inl e, v') \<Rightarrow> Some (Inl e, v')
      | (Inr (JArr rows), v') \<Rightarrow>
          if rows = [] then Some (Inr out, v')
          else (case rfold (force_row c) rows (out, None) of
              Inl e \<Rightarrow> Some (Inl e, v')
            | Inr (out', None) \<Rightarrow> Some (Inr out', v')
            | Inr (out', Some max_ts) \<Rightarrow>
                if until \<le> max_ts \<or> length rows < PAGE_LIMIT then Some (Inr out', v')
                else force_close_pages fuel c force_orders until (max_ts + 1) out' v')
      | (Inr _, v') \<Rightarrow> Some (Inl DataIntegrityError, v'))"

definition fetch_venue_force_closes ::
    "nat \<Rightarrow> text_codec \<Rightarrow> (int \<Rightarrow> int \<Rightarrow> 'v \<Rightarrow> json res \<times> 'v) \<Rightarrow> timestamp \<Rightarrow> timestamp \<Rightarrow> 'v \<Rightarrow> (venue_force_close list res \<times> 'v) option" where
  "fetch_venue_force_closes fuel c force_orders since until v =
     (case force_close_pages fuel c force_orders (until div 1000000) (since div 1000000) [] v of
        None \<Rightarrow> None
      | Some (Inl e, v') \<Rightarrow> Some (Inl e, v')
      | Some (Inr out, v') \<Rightarrow> Some (Inr (sort_key (\<lambda>x. (vf_symbol x, vf_order_id x, vf_updated_at x div 1000000)) out), v'))"

section \<open>Reconciliation compares every symbol\<close>

lemma not_breached_elsewhere:
  assumes "0 \<le> tolerance" "s \<notin> set (map fst ledger @ map fst (filter (\<lambda>(_, q). q \<noteq> 0) (as_positions snapshot)))"
  shows "\<not> position_breached snapshot ledger tolerance settled s"
proof -
  have "dict_get ledger s 0 = 0" using assms(2) by (force simp: dict_get_def split: option.splits dest: map_of_SomeD)
  moreover have "dict_get (as_positions snapshot) s 0 = 0"
    using assms(2) by (force simp: dict_get_def split: option.splits dest: map_of_SomeD)
  ultimately show ?thesis using assms(1) by (simp add: position_breached_def d28.rnd_0)
qed

lemma reconcile_passes_iff:
  assumes "0 \<le> tolerance"
  shows "reconcile_or_halt snapshot ledger tolerance settled = Inr () \<longleftrightarrow> (\<forall>s. \<not> position_breached snapshot ledger tolerance settled s)"
  using assms not_breached_elsewhere [OF assms, of _ ledger snapshot settled]
  by (auto simp: reconcile_or_halt_def find_position_breaches_def filter_empty_conv)

lemma breached_zero_iff:
  "position_breached snapshot ledger 0 settled s \<longleftrightarrow>
     \<not> (s \<in> set settled \<and> dict_get (as_positions snapshot) s 0 = 0) \<and> dict_get (as_positions snapshot) s 0 \<noteq> dict_get ledger s 0"
proof -
  have "0 < a / max x EPSILON \<longleftrightarrow> 0 < a" for a x by (simp add: EPSILON_def zero_less_divide_iff less_max_iff_disj)
  then show ?thesis by (simp add: position_breached_def Let_def d28.rnd_pos_iff)
qed

text \<open>
  C39: reconciliation passes exactly when no symbol at all, listed on either side or not, deviates
  by more than the tolerance; with tolerance zero it passes exactly when the venue and the ledger
  hold the same quantity of every symbol that is not a settled delisting flat on the venue.
\<close>

theorem reconcile_passes_exactly:
  assumes "0 \<le> tolerance"
  shows "(reconcile_or_halt snapshot ledger tolerance settled = Inr () \<longleftrightarrow>
           (\<forall>s. \<not> position_breached snapshot ledger tolerance settled s))
    \<and> (reconcile_or_halt snapshot ledger 0 settled = Inr () \<longleftrightarrow>
        (\<forall>s. s \<in> set settled \<and> dict_get (as_positions snapshot) s 0 = 0
           \<or> dict_get (as_positions snapshot) s 0 = dict_get ledger s 0))"
  using reconcile_passes_iff [OF assms] reconcile_passes_iff [of 0 snapshot ledger settled] breached_zero_iff by auto

theorem reconcile_passes_exactly_witness:
  "reconcile_or_halt (synthetic_flat_snapshot (Aware 0)) [(''BTCUSDT'', 1)] 0 [] \<noteq> Inr ()
   \<and> reconcile_or_halt (synthetic_flat_snapshot (Aware 0)) [(''BTCUSDT'', 1)] 0 [''BTCUSDT''] = Inr ()"
proof -
  have flat: "dict_get (as_positions (synthetic_flat_snapshot (Aware 0))) s 0 = 0" for s
    by (simp add: synthetic_flat_snapshot_def dict_get_def)
  have "dict_get [(''BTCUSDT'', 1)] ''BTCUSDT'' 0 = (1 :: decimal)" "s \<noteq> ''BTCUSDT'' \<Longrightarrow> dict_get [(''BTCUSDT'', 1)] s 0 = (0 :: decimal)" for s
    by (simp_all add: dict_get_def)
  then have "\<exists>s. dict_get [(''BTCUSDT'', 1)] s 0 \<noteq> (0 :: decimal)"
      "\<forall>s. s \<in> set [''BTCUSDT''] \<or> dict_get [(''BTCUSDT'', 1)] s 0 = (0 :: decimal)"
    by (metis zero_neq_one, metis list.set_intros(1))
  then show ?thesis
    using reconcile_passes_exactly [of 0 "synthetic_flat_snapshot (Aware 0)" "[(''BTCUSDT'', 1)]" "[]"]
      reconcile_passes_exactly [of 0 "synthetic_flat_snapshot (Aware 0)" "[(''BTCUSDT'', 1)]" "[''BTCUSDT'']"]
    unfolding flat by force
qed

section \<open>Breaches are explained in full or not at all\<close>

lemma explained_exactly:
  assumes "breach_explained fcs 0 b"
  shows "foldl dadd 0 (map signed_close (closes_of fcs (pb_symbol b))) = gap b"
proof -
  have pos: "0 < max x EPSILON" for x by (simp add: EPSILON_def less_max_iff_disj)
  from assms have "rnd28 (dabs (dsub (foldl dadd 0 (map signed_close (closes_of fcs (pb_symbol b)))) (gap b)) /
      max (max (dabs (gap b)) (dabs (foldl dadd 0 (map signed_close (closes_of fcs (pb_symbol b)))))) EPSILON) \<le> 0"
    by (simp add: breach_explained_def Let_def)
  then have "\<not> 0 < dabs (dsub (foldl dadd 0 (map signed_close (closes_of fcs (pb_symbol b)))) (gap b))"
    unfolding not_less [symmetric] d28.rnd_pos_iff zero_less_divide_iff using pos by auto
  then show ?thesis by simp
qed

text \<open>
  Force closes are adopted for a breach in full or not at all.  Every breach is either
  reported as unexplained, or all force closes of its symbol are adopted; nothing else is adopted;
  and with tolerance zero the adopted closes of a symbol sum to exactly the quantity the ledger is
  missing.
\<close>

theorem explain_breaches_all_or_nothing:
  "(\<forall>b \<in> set bs. b \<in> set (snd (explain_breaches bs fcs tolerance))
      \<or> closes_of fcs (pb_symbol b) \<noteq> [] \<and> set (closes_of fcs (pb_symbol b)) \<subseteq> set (fst (explain_breaches bs fcs tolerance)))
   \<and> (\<forall>x \<in> set (fst (explain_breaches bs fcs tolerance)).
        \<exists>b \<in> set bs - set (snd (explain_breaches bs fcs tolerance)). x \<in> set (closes_of fcs (pb_symbol b)))
   \<and> (\<forall>b \<in> set bs - set (snd (explain_breaches bs fcs 0)).
        foldl dadd 0 (map signed_close (closes_of fcs (pb_symbol b))) = gap b)"
proof (intro conjI ballI)
  fix b assume "b \<in> set bs"
  then show "b \<in> set (snd (explain_breaches bs fcs tolerance))
      \<or> closes_of fcs (pb_symbol b) \<noteq> [] \<and> set (closes_of fcs (pb_symbol b)) \<subseteq> set (fst (explain_breaches bs fcs tolerance))"
    by (auto simp: explain_breaches_def breach_explained_def Let_def)
next
  fix x assume "x \<in> set (fst (explain_breaches bs fcs tolerance))"
  then show "\<exists>b \<in> set bs - set (snd (explain_breaches bs fcs tolerance)). x \<in> set (closes_of fcs (pb_symbol b))"
    by (auto simp: explain_breaches_def)
next
  fix b assume "b \<in> set bs - set (snd (explain_breaches bs fcs 0))"
  then show "foldl dadd 0 (map signed_close (closes_of fcs (pb_symbol b))) = gap b"
    by (intro explained_exactly) (auto simp: explain_breaches_def)
qed

definition example_close :: venue_force_close where
  "example_close = \<lparr>vf_symbol = ''BTCUSDT'', vf_side = ''SELL'', vf_executed_qty = 1, vf_avg_price = 5,
     vf_auto_close_type = ''ADL'', vf_order_id = ''7'', vf_updated_at = 0\<rparr>"

definition example_breach :: position_breach where
  "example_breach = \<lparr>pb_symbol = ''BTCUSDT'', pb_venue_qty = 0, pb_ledger_qty = 1\<rparr>"

theorem explain_breaches_all_or_nothing_witness:
  "snd (explain_breaches [example_breach] [example_close] 0) = []
   \<and> foldl dadd 0 (map signed_close (closes_of [example_close] ''BTCUSDT'')) = gap example_breach"
proof -
  have "exact28 (- 1)" by simp
  then have g: "gap example_breach = - 1" "foldl dadd 0 (map signed_close (closes_of [example_close] ''BTCUSDT'')) = - 1"
    by (simp_all add: gap_def example_breach_def example_close_def closes_of_def signed_close_def dsub_def dadd_def dneg_exact d28.rnd_exact)
  have "breach_explained [example_close] 0 example_breach"
    using g by (simp add: breach_explained_def Let_def example_breach_def d28.rnd_0)
      (simp add: closes_of_def example_close_def)
  then have e: "snd (explain_breaches [example_breach] [example_close] 0) = []" by (simp add: explain_breaches_def)
  with explain_breaches_all_or_nothing [of "[example_breach]" "[example_close]" 0] show ?thesis
    by (simp add: example_breach_def)
qed

section \<open>Force-close paging\<close>

definition honours_start :: "text_codec \<Rightarrow> (int \<Rightarrow> int \<Rightarrow> 'v \<Rightarrow> json res \<times> 'v) \<Rightarrow> bool" where
  "honours_start c force_orders \<longleftrightarrow> (\<forall>start until v rows row x. fst (force_orders start until v) = Inr (JArr rows) \<longrightarrow>
     row \<in> set rows \<longrightarrow> parse_force_row c row = Inr (Some x) \<longrightarrow> start * 1000000 \<le> vf_updated_at x)"

lemma force_rows_max:
  assumes "rfold (force_row c) rows acc = Inr (out, Some m)"
    and "\<And>row x. row \<in> set rows \<Longrightarrow> parse_force_row c row = Inr (Some x) \<Longrightarrow> start * 1000000 \<le> vf_updated_at x"
    and "\<And>m0. snd acc = Some m0 \<Longrightarrow> start \<le> m0"
  shows "start \<le> m"
proof -
  have "\<forall>m0. snd (out, Some m) = Some m0 \<longrightarrow> start \<le> m0"
  proof (rule rfold_invariant [OF assms(1), where P = "\<lambda>a. \<forall>m0. snd a = Some m0 \<longrightarrow> start \<le> m0"])
    fix row a b
    assume row: "row \<in> set rows" and a: "\<forall>m0. snd a = Some m0 \<longrightarrow> start \<le> m0" and b: "force_row c row a = Inr b"
    from b obtain x where x: "parse_force_row c row = Inr x" by (auto simp: force_row_def result_simps)
    show "\<forall>m0. snd b = Some m0 \<longrightarrow> start \<le> m0"
    proof (cases x)
      case None
      with b x a show ?thesis by (simp add: force_row_def)
    next
      case (Some y)
      have "start \<le> vf_updated_at y div 1000000" using assms(2) [OF row] x Some by fastforce
      with b x Some a show ?thesis by (cases "snd a") (auto simp: force_row_def Let_def)
    qed
  qed (use assms(3) in auto)
  then show ?thesis by simp
qed

text \<open>
  Fetching force closes ends.  On a venue whose rows are not older than the requested start,
  one request per millisecond of the range and one more are enough fuel for the paging loop to
  return.
\<close>

theorem force_close_paging_ends:
  assumes "honours_start c force_orders" and "nat (until - cursor) + 1 < fuel"
  shows "\<exists>r. force_close_pages fuel c force_orders until cursor out v = Some r"
  using assms(2)
proof (induction fuel arbitrary: cursor out v)
  case (Suc fuel)
  obtain res v' where res: "force_orders cursor until v = (res, v')" by (cases "force_orders cursor until v")
  show ?case
  proof (cases res)
    case (Inr payload)
    show ?thesis
    proof (cases payload)
      case (JArr rows)
      show ?thesis
      proof (cases "rfold (force_row c) rows (out, None)")
        case (Inr om)
        obtain out' m where om: "om = (out', m)" by (cases om)
        show ?thesis
        proof (cases "m = None \<or> (\<exists>k. m = Some k \<and> (until \<le> k \<or> length rows < PAGE_LIMIT)) \<or> rows = []")
          case True
          then show ?thesis using res \<open>res = Inr payload\<close> JArr Inr om by auto
        next
          case False
          then obtain k where k: "m = Some k" "k < until" "PAGE_LIMIT \<le> length rows" "rows \<noteq> []" by (cases m) auto
          have "cursor \<le> k"
          proof (rule force_rows_max)
            show "rfold (force_row c) rows (out, None) = Inr (out', Some k)" using Inr om k by simp
            show "cursor * 1000000 \<le> vf_updated_at x" if "row \<in> set rows" "parse_force_row c row = Inr (Some x)" for row x
              using assms(1) that res \<open>res = Inr payload\<close> JArr unfolding honours_start_def by (metis fst_conv)
          qed simp
          then have "nat (until - (k + 1)) + 1 < fuel" using Suc.prems k(2) by linarith
          from Suc.IH [OF this] show ?thesis using res \<open>res = Inr payload\<close> JArr Inr om k by auto
        qed
      qed (use res Inr JArr in auto)
    qed (use res Inr in auto)
  qed (use res in auto)
qed simp

theorem force_close_paging_ends_witness:
  "\<exists>r. force_close_pages 7 plain_codec (\<lambda>start until v. (Inr (JArr []), v)) 5 0 [] () = Some r"
  by (rule force_close_paging_ends) (simp_all add: honours_start_def)

text \<open>
  A page without executions stops the paging.  If the first page of force orders holds only
  rows with executed quantity zero, the fetch returns nothing, whatever later pages of the range
  hold and however full the page was.
\<close>

theorem empty_page_stops_paging:
  assumes "force_orders (since div 1000000) (until div 1000000) v = (Inr (JArr rows), v')"
    and "\<forall>row \<in> set rows. parse_force_row c row = Inr None"
  shows "fetch_venue_force_closes (Suc fuel) c force_orders since until v = Some (Inr [], v')"
proof -
  have "rfold (force_row c) rows ([], None) = Inr ([], None)"
    using assms(2) by (induction rows) (simp_all add: force_row_def)
  then show ?thesis using assms(1) by (simp add: fetch_venue_force_closes_def)
qed

definition zero_row :: json where
  "zero_row = JObj [(''symbol'', JStr ''BTCUSDT''), (''side'', JStr ''SELL''), (''executedQty'', JStr (tc_dec_str plain_codec 0)),
     (''avgPrice'', JStr (tc_dec_str plain_codec 0)), (''updateTime'', JInt 1)]"

theorem empty_page_stops_paging_witness:
  "fetch_venue_force_closes 9 plain_codec (\<lambda>start until v. (Inr (JArr (replicate 100 zero_row)), Suc v)) 0 9000000 (0 :: nat) = Some (Inr [], 1)"
proof -
  have "parse_force_row plain_codec zero_row = Inr None"
    by (simp add: parse_force_row_def zero_row_def plain_codec_ok missing_keys_def SIDES_def)
  then show ?thesis
    using empty_page_stops_paging [of "\<lambda>start until v. (Inr (JArr (replicate 100 zero_row)), Suc v)" 0 9000000 0
        "replicate 100 zero_row" 1 plain_codec 8] by simp
qed

section \<open>The notional cap\<close>

definition within_cap :: "(string, leverage_bracket list) dict \<Rightarrow> (string, int) dict \<Rightarrow> order_intent \<Rightarrow> bool" where
  "within_cap brackets leverages i \<longleftrightarrow> oi_reduce_only i \<or>
     dmul (dabs (oi_target_qty i)) (oi_decision_price i) \<le>
       max_notional_at_leverage (the (map_of brackets (oi_symbol i))) (the (map_of leverages (oi_symbol i)))"

text \<open>
  The notional cap drops exactly the exposing intents.  The intents that stay are, in their
  order, those that are reduce-only or whose target notional is at most the cap of the configured
  leverage.
\<close>

theorem notional_cap_exact:
  assumes "reject_intents_over_notional_cap intents brackets leverages w = (Inr kept, w')"
  shows "kept = filter (within_cap brackets leverages) intents"
proof -
  let ?P = "\<lambda>d kept w. kept = filter (within_cap brackets leverages) d"
  have step: "?P (d @ [x]) k1 w1" if "?P d k w" "cap_intent brackets leverages x k w = (Inr k1, w1)"
    for d x k and w w1 :: "'a world" and k1
    using that by (auto simp: cap_intent_def within_cap_def sx_bind_Inr split: if_splits option.splits)
  show ?thesis
    by (rule sx_foldM_invariant [where P = ?P, OF assms [unfolded reject_intents_over_notional_cap_def]])
      (simp, rule step)
qed

definition capped_intent :: order_intent where
  "capped_intent = \<lparr>oi_symbol = ''BTCUSDT'', oi_side = ''BUY'', oi_quantity = 1, oi_reduce_only = False, oi_target_qty = 3,
     oi_current_qty = 0, oi_client_order_prefix = ''r'', oi_leg_index = 0, oi_decision_price = 1\<rparr>"

theorem notional_cap_exact_witness:
  "\<exists>w'. reject_intents_over_notional_cap [capped_intent]
       [(''BTCUSDT'', [\<lparr>lb_bracket = 1, lb_initial_leverage = 5, lb_notional_cap = 2, lb_notional_floor = 0\<rparr>])] [(''BTCUSDT'', 5)]
       start_world = (Inr [], w')
     \<and> [] = filter (within_cap [(''BTCUSDT'', [\<lparr>lb_bracket = 1, lb_initial_leverage = 5, lb_notional_cap = 2, lb_notional_floor = 0\<rparr>])]
              [(''BTCUSDT'', 5)]) [capped_intent]"
proof -
  let ?b = "[(''BTCUSDT'', [\<lparr>lb_bracket = 1, lb_initial_leverage = 5, lb_notional_cap = 2, lb_notional_floor = 0\<rparr>])]"
  have "dmul (dabs 3) 1 = 3" by (simp add: dmul_def dabs_exact exact28_numeral d28.rnd_exact)
  then obtain w' where run: "reject_intents_over_notional_cap [capped_intent] ?b [(''BTCUSDT'', 5)] start_world = (Inr [], w')"
    by (simp add: reject_intents_over_notional_cap_def cap_intent_def capped_intent_def max_notional_at_leverage_def
        audit_record_def sx_defs)
  with notional_cap_exact [OF run] show ?thesis by blast
qed

section \<open>Leverage planning is idempotent\<close>

definition target_of :: "(string, leverage_bracket list) dict \<Rightarrow> rat \<Rightarrow> rat \<Rightarrow> string \<Rightarrow> int res" where
  "target_of brackets mg buf s = (case map_of brackets s of
     Some (b # bs) \<Rightarrow> required_leverage mg buf (lb_initial_leverage b) | _ \<Rightarrow> Inl RiskGateBreach)"

definition plan_of :: "(string, leverage_bracket list) dict \<Rightarrow> (string, venue_symbol_config) dict \<Rightarrow> rat \<Rightarrow> rat \<Rightarrow> string list
    \<Rightarrow> venue_leverage_plan \<Rightarrow> venue_leverage_plan" where
  "plan_of brackets configs mg buf xs plan =
     \<lparr>lp_target_leverage = foldl (\<lambda>d s. AList.update s (projr (target_of brackets mg buf s)) d) (lp_target_leverage plan) xs,
      lp_margin_type_changes = lp_margin_type_changes plan @ filter (\<lambda>s. needs_margin_change (map_of configs s)) xs,
      lp_leverage_changes = lp_leverage_changes plan
        @ filter (\<lambda>s. needs_leverage_change (map_of configs s) (projr (target_of brackets mg buf s))) xs\<rparr>"

lemma plan_symbol_leverage_target:
  "plan_symbol_leverage brackets configs mg buf s plan =
     rbind (target_of brackets mg buf s) (\<lambda>_. Inr (plan_of brackets configs mg buf [s] plan))"
  by (cases "target_of brackets mg buf s")
    (auto simp: plan_symbol_leverage_def target_of_def plan_of_def Let_def split: option.splits list.splits)

lemma plan_of_append: "plan_of b k mg buf (xs @ ys) p = plan_of b k mg buf ys (plan_of b k mg buf xs p)"
  by (simp add: plan_of_def)

lemma rfold_plan:
  "rfold (plan_symbol_leverage brackets configs mg buf) xs plan = Inr plan' \<longleftrightarrow>
     (\<forall>s \<in> set xs. \<exists>t. target_of brackets mg buf s = Inr t) \<and> plan' = plan_of brackets configs mg buf xs plan"
proof (induction xs arbitrary: plan)
  case Nil
  then show ?case by (cases plan) (auto simp: plan_of_def)
next
  case (Cons x xs)
  show ?case using Cons [of "plan_of brackets configs mg buf [x] plan"] plan_of_append [of brackets configs mg buf "[x]" xs plan]
    by (auto simp: plan_symbol_leverage_target result_simps)
qed

lemma map_of_target_fold:
  "map_of (foldl (\<lambda>d s. AList.update s (g s) d) d0 xs) k = (if k \<in> set xs then Some (g k) else map_of d0 k)"
  by (induction xs arbitrary: d0) auto

text \<open>The configuration of the venue after the changes of a plan.\<close>

definition config_of :: "(string, venue_symbol_config) dict \<Rightarrow> string \<Rightarrow> venue_symbol_config" where
  "config_of configs s = (case map_of configs s of Some x \<Rightarrow> x | None \<Rightarrow> \<lparr>vs_symbol = s, vs_margin_type = None, vs_leverage = None\<rparr>)"

definition venue_after :: "venue_leverage_plan \<Rightarrow> (string, venue_symbol_config) dict \<Rightarrow> (string, venue_symbol_config) dict" where
  "venue_after plan configs =
     (let margins = foldl (\<lambda>d s. AList.update s ((config_of configs s)\<lparr>vs_margin_type := Some ''crossed''\<rparr>) d) configs (lp_margin_type_changes plan)
      in foldl (\<lambda>d s. AList.update s ((config_of margins s)\<lparr>vs_leverage := map_of (lp_target_leverage plan) s\<rparr>) d) margins (lp_leverage_changes plan))"

lemma venue_after_settled:
  assumes "plan = plan_of brackets configs mg buf xs \<lparr>lp_target_leverage = [], lp_margin_type_changes = [], lp_leverage_changes = []\<rparr>"
    and "s \<in> set xs"
  shows "\<not> needs_margin_change (map_of (venue_after plan configs) s)"
    and "\<not> needs_leverage_change (map_of (venue_after plan configs) s) (projr (target_of brackets mg buf s))"
proof -
  let ?t = "projr (target_of brackets mg buf s)"
  define margins where "margins = foldl (\<lambda>d s. AList.update s ((config_of configs s)\<lparr>vs_margin_type := Some ''crossed''\<rparr>) d)
    configs (lp_margin_type_changes plan)"
  have m: "map_of margins s = (if needs_margin_change (map_of configs s)
      then Some ((config_of configs s)\<lparr>vs_margin_type := Some ''crossed''\<rparr>) else map_of configs s)"
    using assms by (simp add: margins_def map_of_target_fold plan_of_def)
  have a: "map_of (venue_after plan configs) s = (if needs_leverage_change (map_of configs s) ?t
      then Some ((config_of margins s)\<lparr>vs_leverage := Some ?t\<rparr>) else map_of margins s)"
  proof -
    have "s \<in> set (lp_leverage_changes plan) \<longleftrightarrow> needs_leverage_change (map_of configs s) ?t"
      "map_of (lp_target_leverage plan) s = Some ?t"
      using assms by (simp_all add: plan_of_def map_of_target_fold)
    then show ?thesis by (simp add: venue_after_def Let_def margins_def [symmetric] map_of_target_fold)
  qed
  show "\<not> needs_margin_change (map_of (venue_after plan configs) s)"
    by (auto simp: a m needs_margin_change_def needs_leverage_change_def config_of_def CROSS_MARGIN_ALIASES_def split: option.splits)
  show "\<not> needs_leverage_change (map_of (venue_after plan configs) s) ?t"
    by (auto simp: a m needs_leverage_change_def needs_margin_change_def config_of_def split: option.splits)
qed

text \<open>
  Venue leverage planning is idempotent.  Planned again on the configuration the venue has
  after the changes of the plan, the same symbols get the same target leverages and no change.
\<close>

theorem plan_venue_leverage_idempotent:
  assumes "plan_venue_leverage symbols brackets configs mg buf = Inr plan"
  shows "plan_venue_leverage symbols brackets (venue_after plan configs) mg buf =
     Inr (plan\<lparr>lp_margin_type_changes := [], lp_leverage_changes := []\<rparr>)"
proof -
  from assms have t: "\<forall>s \<in> set (sorted_set symbols). \<exists>t. target_of brackets mg buf s = Inr t"
    and plan: "plan = plan_of brackets configs mg buf (sorted_set symbols) \<lparr>lp_target_leverage = [], lp_margin_type_changes = [], lp_leverage_changes = []\<rparr>"
    by (simp_all add: plan_venue_leverage_def rfold_plan)
  note v = venue_after_settled [OF plan]
  have "filter (\<lambda>s. needs_margin_change (map_of (venue_after plan configs) s)) (sorted_set symbols) = []"
    "filter (\<lambda>s. needs_leverage_change (map_of (venue_after plan configs) s) (projr (target_of brackets mg buf s))) (sorted_set symbols) = []"
    using v by (simp_all add: filter_empty_conv)
  then show ?thesis
    using t unfolding plan_venue_leverage_def rfold_plan by (simp add: plan_of_def plan)
qed

theorem plan_venue_leverage_idempotent_witness:
  "\<exists>plan. plan_venue_leverage [''BTCUSDT''] [(''BTCUSDT'', [\<lparr>lb_bracket = 1, lb_initial_leverage = 5, lb_notional_cap = 2, lb_notional_floor = 0\<rparr>])]
       [] 0 0 = Inr plan \<and> lp_leverage_changes plan = [''BTCUSDT'']
     \<and> plan_venue_leverage [''BTCUSDT''] [(''BTCUSDT'', [\<lparr>lb_bracket = 1, lb_initial_leverage = 5, lb_notional_cap = 2, lb_notional_floor = 0\<rparr>])]
       (venue_after plan []) 0 0 = Inr (plan\<lparr>lp_margin_type_changes := [], lp_leverage_changes := []\<rparr>)"
proof -
  let ?b = "[(''BTCUSDT'', [\<lparr>lb_bracket = 1, lb_initial_leverage = 5, lb_notional_cap = 2, lb_notional_floor = 0\<rparr>])]"
  have "fsub 1 0 \<noteq> 0"
    by (simp add: fsub_def fl_def Let_def binexp_def ilog2.simps pow2_def half_even_def)
  then obtain plan where p: "plan_venue_leverage [''BTCUSDT''] ?b [] 0 0 = Inr plan" "lp_leverage_changes plan = [''BTCUSDT'']"
    by (simp add: plan_venue_leverage_def sorted_set_def plan_symbol_leverage_def required_leverage_def fdiv_def
        needs_leverage_change_def Let_def)
  with plan_venue_leverage_idempotent [OF p(1)] show ?thesis by blast
qed

text \<open>
  Sizing equity of the virtual book fails closed.  When it is returned it is positive, every
  held symbol had a live mark or a positive fallback, and it is the cash plus the marked positions
  in order.
\<close>

theorem virtual_equity_fails_closed:
  assumes "resolve_sizing_equity snapshot cap True cash (Some positions) (Some marks) fallback = Inr equity"
  shows "0 < equity \<and> (\<forall>(s, q) \<in> set positions. q = 0 \<or> held_mark marks fallback s \<noteq> None)
    \<and> equity = foldl (\<lambda>t (s, q). if q = 0 then t else dadd t (dmul q (the (held_mark marks fallback s))))
        (case cash of None \<Rightarrow> cap | Some x \<Rightarrow> x) positions"
proof -
  have fold: "rfold (mark_position marks fallback) ps a = Inr e \<Longrightarrow>
      (\<forall>(s, q) \<in> set ps. q = 0 \<or> held_mark marks fallback s \<noteq> None)
      \<and> e = foldl (\<lambda>t (s, q). if q = 0 then t else dadd t (dmul q (the (held_mark marks fallback s)))) a ps" for ps a e
    by (induction ps arbitrary: a) (auto simp: mark_position_def result_simps split: if_splits option.splits)
  from assms have "rfold (mark_position marks fallback) positions (case cash of None \<Rightarrow> cap | Some x \<Rightarrow> x) = Inr equity" "0 < equity"
    by (auto simp: resolve_sizing_equity_def result_simps split: if_splits)
  with fold show ?thesis by blast
qed

theorem virtual_equity_fails_closed_witness:
  "\<exists>e. resolve_sizing_equity (synthetic_flat_snapshot (Aware 0)) 7 True None (Some [(''BTCUSDT'', 0)]) (Some []) None = Inr e \<and> 0 < e"
proof -
  have run: "resolve_sizing_equity (synthetic_flat_snapshot (Aware 0)) 7 True None (Some [(''BTCUSDT'', 0)]) (Some []) None = Inr 7"
    by (simp add: resolve_sizing_equity_def mark_position_def)
  with virtual_equity_fails_closed [OF run] show ?thesis by blast
qed

end
