(* ===== verification/Delisting.thy ===== *)
theory Delisting
  imports Account Ledger Tax_Schema
begin

text \<open>
  \<open>src/live/delisting_settlement.py\<close>: booking of positions the venue settled at delivery, and the
  tax records of the simulated settlements.

  The settlement evidence comes from the price archive (\<open>src/core/settlement_evidence.py\<close>) and is
  an argument, a dictionary of prices with their delivery times.

  Proved here: booking zeroes exactly the settled positions, leaves the rest of the ledger alone,
  and finds nothing to book when it runs again; and the cash the ledger books is the cash of the
  tax records.
\<close>

record settlement_evidence =
  se_delivery_time :: pd_timestamp
  se_price :: decimal

record delisting_settlement =
  ds_symbol :: string
  ds_quantity :: decimal
  ds_price :: "decimal option"
  ds_fee :: decimal
  ds_delivery_time :: timestamp
  ds_evidence_source :: string

section \<open>Booking\<close>

text \<open>The filter of the first loop: held, past delivery, with evidence.\<close>

definition paper_candidate ::
    "(string, delivery_info) dict \<Rightarrow> (string, settlement_evidence) dict \<Rightarrow> timestamp \<Rightarrow> (string, decimal) dict \<Rightarrow> string
     \<Rightarrow> (string \<times> decimal \<times> settlement_evidence) option" where
  "paper_candidate schedule evidence now positions symbol =
     (case map_of positions symbol of None \<Rightarrow> None | Some qty \<Rightarrow>
        if qty = 0 then None
        else case map_of schedule symbol of None \<Rightarrow> None | Some info \<Rightarrow>
          if di_delivery_time info = None then None
          else if \<not> is_delisted info now then None
          else case map_of evidence symbol of None \<Rightarrow> None | Some proven \<Rightarrow> Some (symbol, qty, proven))"

definition settlement_fee :: "decimal \<Rightarrow> decimal \<Rightarrow> decimal \<Rightarrow> decimal" where
  "settlement_fee qty price fee_rate = rnd28 (dmul (dabs (dmul qty price)) fee_rate / 10000)"

definition paper_step ::
    "decimal \<Rightarrow> string \<times> decimal \<times> settlement_evidence \<Rightarrow> (string, decimal) dict \<times> decimal \<times> delisting_settlement list
     \<Rightarrow> ((string, decimal) dict \<times> decimal \<times> delisting_settlement list) res" where
  "paper_step fee_rate cand acc =
     (let (symbol, qty, proven) = cand; (positions, cash, booked) = acc;
          price = se_price proven; fee = settlement_fee qty price fee_rate
      in rbind (tz_aware TypeError (se_delivery_time proven)) (\<lambda>delivery.
           Inr (AList.update symbol 0 positions, dsub (dadd cash (dmul qty price)) fee,
             booked @ [\<lparr>ds_symbol = symbol, ds_quantity = qty, ds_price = Some price, ds_fee = fee,
                        ds_delivery_time = delivery, ds_evidence_source = ''flat_1h_klines''\<rparr>])))"

definition live_step ::
    "(string, delivery_info) dict \<Rightarrow> timestamp \<Rightarrow> string \<Rightarrow> (string, decimal) dict \<times> delisting_settlement list
     \<Rightarrow> (string, decimal) dict \<times> delisting_settlement list" where
  "live_step schedule now symbol acc =
     (let (positions, booked) = acc;
          delivery = (case map_of schedule symbol of None \<Rightarrow> now
             | Some info \<Rightarrow> (case di_delivery_time info of None \<Rightarrow> now | Some t \<Rightarrow> t))
      in (AList.update symbol 0 positions,
          booked @ [\<lparr>ds_symbol = symbol, ds_quantity = dict_get positions symbol 0, ds_price = None, ds_fee = 0,
                     ds_delivery_time = delivery, ds_evidence_source = ''venue_flat_position''\<rparr>]))"

definition book_paper ::
    "(string, delivery_info) dict \<Rightarrow> (string, settlement_evidence) dict \<Rightarrow> decimal \<Rightarrow> timestamp \<Rightarrow> ledger_state
     \<Rightarrow> (ledger_state \<times> delisting_settlement list) res" where
  "book_paper schedule evidence fee_rate now state =
     (let candidates = List.map_filter (paper_candidate schedule evidence now (ls_positions state)) (sort (map fst (ls_positions state)))
      in if candidates = [] then Inr (state, [])
         else case ls_cash_usdt state of None \<Rightarrow> Inl DataIntegrityError
            | Some cash \<Rightarrow>
                rbind (rfold (paper_step fee_rate) candidates (ls_positions state, cash, [])) (\<lambda>(positions, cash, booked).
                rbind (append_position_snapshot (ls_position_history state) (Aware now) positions (ls_funding_watermarks state)) (\<lambda>history.
                  Inr (state\<lparr>ls_positions := positions, ls_cash_usdt := Some cash, ls_position_history := history\<rparr>, booked))))"

definition book_live ::
    "text_codec \<Rightarrow> payload \<Rightarrow> (string, delivery_info) dict \<Rightarrow> (string, decimal) dict \<Rightarrow> timestamp \<Rightarrow> ledger_state
     \<Rightarrow> (ledger_state \<times> delisting_settlement list) res" where
  "book_live c exchange_info schedule venue_positions now state =
     rbind (settled_delisting_symbols c exchange_info venue_positions (ls_positions state) now) (\<lambda>settled.
       if settled = [] then Inr (state, [])
       else let (positions, booked) = fold (live_step schedule now) settled (ls_positions state, [])
            in rbind (append_position_snapshot (ls_position_history state) (Aware now) positions (ls_funding_watermarks state)) (\<lambda>history.
                 Inr (state\<lparr>ls_positions := positions, ls_position_history := history\<rparr>, booked)))"

definition book_delisting_settlements ::
    "text_codec \<Rightarrow> execution_mode \<Rightarrow> payload \<Rightarrow> (string, decimal) dict \<Rightarrow> (string, settlement_evidence) dict \<Rightarrow> decimal
     \<Rightarrow> pd_timestamp \<Rightarrow> ledger_state \<Rightarrow> (ledger_state \<times> delisting_settlement list) res" where
  "book_delisting_settlements c mode exchange_info venue_positions evidence fee_bps now state =
     rbind (tz_aware DataIntegrityError now) (\<lambda>now_ts.
       if fee_bps < 0 then Inl DataIntegrityError
       else if mode = SHADOW then Inr (state, [])
       else rbind (parse_delivery_schedule c exchange_info) (\<lambda>schedule.
              if mode = PAPER then book_paper schedule evidence fee_bps now_ts state
              else book_live c exchange_info schedule venue_positions now_ts state))"

section \<open>Tax records\<close>

definition settlement_record :: "string \<Rightarrow> delisting_settlement \<Rightarrow> decimal \<Rightarrow> tax_record" where
  "settlement_record mode s price =
     \<lparr>tr_record_id = ''simulated:DELISTING_SETTLEMENT:'' @ ds_symbol s @ '':'' @ str_int (ds_delivery_time s div 1000000),
      tr_kind = ''TRADE'', tr_event_time = ds_delivery_time s, tr_symbol = ds_symbol s,
      tr_side = (if 0 < ds_quantity s then ''SELL'' else ''BUY''), tr_quantity = dabs (ds_quantity s), tr_price = price,
      tr_quote_qty = dabs (dmul (ds_quantity s) price), tr_fee = ds_fee s, tr_fee_asset = ''USDT'', tr_realized_pnl = 0,
      tr_income_asset = ''USDT'', tr_is_maker = False, tr_venue_id = 0, tr_source = ''delisting_settlement'', tr_mode = mode,
      tr_income_type = [], tr_position_side = []\<rparr>"

definition delisting_settlement_tax_records :: "delisting_settlement list \<Rightarrow> string \<Rightarrow> tax_record list" where
  "delisting_settlement_tax_records settlements mode =
     List.map_filter (\<lambda>s. case ds_price s of None \<Rightarrow> None | Some price \<Rightarrow> Some (settlement_record mode s price)) settlements"

section \<open>What booking does\<close>

text \<open>The second dictionary is the first with the given symbols set to zero.\<close>

definition zeroed :: "string list \<Rightarrow> (string, decimal) dict \<Rightarrow> (string, decimal) dict \<Rightarrow> bool" where
  "zeroed syms p p' \<longleftrightarrow> map fst p' = map fst p \<and> (\<forall>s. map_of p' s = (if s \<in> set syms then Some 0 else map_of p s))"

lemma zeroed_Nil [simp]: "zeroed [] p p"
  by (simp add: zeroed_def)

lemma zeroed_Cons: "s \<in> fst ` set p \<Longrightarrow> zeroed syms (AList.update s 0 p) p' \<Longrightarrow> zeroed (s # syms) p p'"
  by (auto simp: zeroed_def AList.update_keys)

lemma zeroed_get: "zeroed syms p p' \<Longrightarrow> dict_get p' s 0 = (if s \<in> set syms then 0 else dict_get p s 0)"
  by (simp add: zeroed_def dict_get_def)

abbreviation holding :: "delisting_settlement \<Rightarrow> string \<times> decimal" where
  "holding b \<equiv> (ds_symbol b, ds_quantity b)"

definition settle_cash :: "delisting_settlement \<Rightarrow> decimal \<Rightarrow> decimal" where
  "settle_cash b cash = dsub (dadd cash (dmul (ds_quantity b) (the (ds_price b)))) (ds_fee b)"

lemma paper_step_Inr:
  assumes "paper_step fee (s, q, e) (p, cash, booked) = Inr acc"
  obtains b where "holding b = (s, q)" "ds_price b = Some (se_price e)"
    "acc = (AList.update s 0 p, settle_cash b cash, booked @ [b])"
  using assms by (fastforce simp: paper_step_def result_simps settle_cash_def Let_def)

lemma paper_fold:
  assumes "rfold (paper_step fee) cands (p, cash, booked) = Inr (p', cash', booked')"
    and "\<forall>x \<in> set cands. fst x \<in> fst ` set p"
  shows "\<exists>new. booked' = booked @ new \<and> map holding new = map (\<lambda>x. (fst x, fst (snd x))) cands
    \<and> cash' = fold settle_cash new cash \<and> zeroed (map fst cands) p p'
    \<and> map ds_price new = map (\<lambda>x. Some (se_price (snd (snd x)))) cands"
  using assms
proof (induction cands arbitrary: p cash booked)
  case (Cons x cands)
  obtain s q e where x: "x = (s, q, e)" by (cases x) auto
  from Cons.prems(1) obtain b where b: "holding b = (s, q)" "ds_price b = Some (se_price e)"
    and rest: "rfold (paper_step fee) cands (AList.update s 0 p, settle_cash b cash, booked @ [b]) = Inr (p', cash', booked')"
    by (auto simp: x result_simps elim: paper_step_Inr)
  have "\<forall>x \<in> set cands. fst x \<in> fst ` set (AList.update s 0 p)" using Cons.prems(2) by simp
  from Cons.IH [OF rest this] obtain new where new: "booked' = (booked @ [b]) @ new"
    "map holding new = map (\<lambda>x. (fst x, fst (snd x))) cands" "cash' = fold settle_cash new (settle_cash b cash)"
    "zeroed (map fst cands) (AList.update s 0 p) p'" "map ds_price new = map (\<lambda>x. Some (se_price (snd (snd x)))) cands" by blast
  have "s \<in> fst ` set p" using Cons.prems(2) by (simp add: x)
  then have "zeroed (map fst (x # cands)) p p'" using zeroed_Cons new(4) by (simp add: x)
  with new b show ?case by (intro exI [of _ "b # new"]) (simp add: x)
qed simp

lemma live_fold:
  assumes "fold (live_step schedule now) syms (p, booked) = (p', booked')" "distinct syms" "set syms \<subseteq> fst ` set p"
  shows "\<exists>new. booked' = booked @ new \<and> map holding new = map (\<lambda>s. (s, dict_get p s 0)) syms \<and> zeroed syms p p'"
  using assms
proof (induction syms arbitrary: p booked)
  case (Cons s syms)
  obtain b where b: "live_step schedule now s (p, booked) = (AList.update s 0 p, booked @ [b])" "holding b = (s, dict_get p s 0)"
    by (simp add: live_step_def Let_def)
  with Cons.prems have "fold (live_step schedule now) syms (AList.update s 0 p, booked @ [b]) = (p', booked')"
    "distinct syms" "set syms \<subseteq> fst ` set (AList.update s 0 p)" by auto
  from Cons.IH [OF this] obtain new where new: "booked' = (booked @ [b]) @ new"
    "map holding new = map (\<lambda>s'. (s', dict_get (AList.update s 0 p) s' 0)) syms" "zeroed syms (AList.update s 0 p) p'" by blast
  moreover have "map (\<lambda>s'. (s', dict_get (AList.update s 0 p) s' 0)) syms = map (\<lambda>s'. (s', dict_get p s' 0)) syms"
    using Cons.prems(2) by auto
  ultimately show ?case using b(2) Cons.prems(3) zeroed_Cons [of s p syms p'] by (intro exI [of _ "b # new"]) simp
qed simp

lemma rfold_filter:
  "rfold (\<lambda>s acc. rbind (f s) (\<lambda>b. Inr (if b then acc @ [s] else acc))) xs acc = Inr out \<longleftrightarrow>
     (\<forall>s \<in> set xs. \<exists>b. f s = Inr b) \<and> out = acc @ filter (\<lambda>s. f s = Inr True) xs"
  by (induction xs arbitrary: acc) (auto simp: result_simps)

lemma settled_symbols_Inr:
  "settled_delisting_symbols c info venue ledger now = Inr settled \<longleftrightarrow>
     (\<exists>entries. listing_entries c info = Inr entries
       \<and> (\<forall>s \<in> fst ` set ledger. \<exists>b. settled_symbol c entries venue ledger (now div 1000000) s = Inr b)
       \<and> settled = filter (\<lambda>s. settled_symbol c entries venue ledger (now div 1000000) s = Inr True) (sort (map fst ledger)))"
  by (auto simp: settled_delisting_symbols_def result_simps rfold_filter)

lemma settled_symbol_held: "settled_symbol c entries venue ledger now s = Inr True \<Longrightarrow> dict_get ledger s 0 \<noteq> 0"
  by (simp add: settled_symbol_def split: if_splits)

text \<open>Once the settled positions are zero, nothing is settled.\<close>

lemma settled_after_booking:
  assumes "settled_delisting_symbols c info venue p now = Inr settled" "zeroed settled p p'"
  shows "settled_delisting_symbols c info venue p' now = Inr []"
proof -
  from assms(1) obtain entries where e: "listing_entries c info = Inr entries"
    and all: "\<forall>s \<in> fst ` set p. \<exists>b. settled_symbol c entries venue p (now div 1000000) s = Inr b"
    and settled: "settled = filter (\<lambda>s. settled_symbol c entries venue p (now div 1000000) s = Inr True) (sort (map fst p))"
    by (auto simp: settled_symbols_Inr)
  have keys: "map fst p' = map fst p" using assms(2) by (simp add: zeroed_def)
  then have keys': "fst ` set p' = fst ` set p" by (metis set_map)
  have "settled_symbol c entries venue p' (now div 1000000) s = Inr False" if "s \<in> fst ` set p" for s
  proof (cases "s \<in> set settled")
    case True
    then show ?thesis using zeroed_get [OF assms(2), of s] by (simp add: settled_symbol_def)
  next
    case False
    then have "settled_symbol c entries venue p' (now div 1000000) s = settled_symbol c entries venue p (now div 1000000) s"
      using zeroed_get [OF assms(2), of s] by (simp add: settled_symbol_def)
    moreover have "settled_symbol c entries venue p (now div 1000000) s = Inr False"
      using all that False by (auto simp: settled image_iff)
    ultimately show ?thesis by simp
  qed
  note none = this
  have "filter (\<lambda>s. settled_symbol c entries venue p' (now div 1000000) s = Inr True) (sort (map fst p')) = []"
    by (auto simp: filter_empty_conv keys none)
  moreover have "\<forall>s \<in> fst ` set p'. \<exists>b. settled_symbol c entries venue p' (now div 1000000) s = Inr b"
    using none unfolding keys' by blast
  ultimately show ?thesis unfolding settled_symbols_Inr using e by metis
qed

lemma history_total: "\<exists>h. append_position_snapshot hist (Aware now) p w = Inr h"
  by (simp add: append_position_snapshot_def Let_def)

lemma paper_candidate_Some:
  "paper_candidate schedule evidence now p s = Some x \<Longrightarrow>
     fst x = s \<and> map_of p s = Some (fst (snd x)) \<and> fst (snd x) \<noteq> 0 \<and> map_of evidence s = Some (snd (snd x))"
  by (auto simp: paper_candidate_def split: option.splits if_splits)

lemma map_filter_fst:
  assumes "\<And>s x. f s = Some x \<Longrightarrow> fst x = s"
  shows "map fst (List.map_filter f xs) = filter (\<lambda>s. f s \<noteq> None) xs"
  using assms by (induction xs) (auto simp: List.map_filter_simps split: option.splits)

lemma candidates_after_booking:
  assumes "zeroed (map fst (List.map_filter (paper_candidate schedule evidence now p) (sort (map fst p)))) p p'"
  shows "List.map_filter (paper_candidate schedule evidence now p') (sort (map fst p')) = []"
proof -
  let ?pc = "paper_candidate schedule evidence now"
  have keys: "map fst p' = map fst p" using assms by (simp add: zeroed_def)
  have names: "map fst (List.map_filter (?pc p) (sort (map fst p))) = filter (\<lambda>s. ?pc p s \<noteq> None) (sort (map fst p))"
    by (rule map_filter_fst) (simp add: paper_candidate_Some)
  have "?pc p' s = None" if "s \<in> fst ` set p" for s
  proof (cases "?pc p s = None")
    case True
    then have "map_of p' s = map_of p s" using assms unfolding names zeroed_def by auto
    with True show ?thesis by (simp add: paper_candidate_def)
  next
    case False
    then have "map_of p' s = Some 0" using assms that unfolding names zeroed_def by auto
    then show ?thesis by (simp add: paper_candidate_def)
  qed
  then have "List.map_filter (?pc p') xs = []" if "set xs \<subseteq> fst ` set p" for xs
    using that by (induction xs) (simp_all add: List.map_filter_simps)
  then show ?thesis by (simp add: keys)
qed

text \<open>What one booking run leaves, for either mode.\<close>

definition books :: "ledger_state \<Rightarrow> ledger_state \<Rightarrow> delisting_settlement list \<Rightarrow> bool" where
  "books state state' booked \<longleftrightarrow> zeroed (map ds_symbol booked) (ls_positions state) (ls_positions state')
     \<and> distinct (map ds_symbol booked)
     \<and> list_all (\<lambda>b. map_of (ls_positions state) (ds_symbol b) = Some (ds_quantity b) \<and> ds_quantity b \<noteq> 0) booked
     \<and> state' = state\<lparr>ls_positions := ls_positions state', ls_cash_usdt := ls_cash_usdt state',
                     ls_position_history := ls_position_history state'\<rparr>"

lemma books_Nil [simp]: "books state state []"
  by (simp add: books_def)

lemma book_paper_books:
  assumes "dict_ok (ls_positions state)" "book_paper schedule evidence fee now state = Inr (state', booked)"
  shows "books state state' booked" "book_paper schedule evidence fee now state' = Inr (state', [])"
    "ls_cash_usdt state = Some cash \<Longrightarrow> ls_cash_usdt state' = Some (fold settle_cash booked cash)"
    "list_all (\<lambda>b. \<exists>e. map_of evidence (ds_symbol b) = Some e \<and> ds_price b = Some (se_price e)) booked"
proof -
  define p where "p = ls_positions state"
  define cands where "cands = List.map_filter (paper_candidate schedule evidence now p) (sort (map fst p))"
  have names: "map fst cands = filter (\<lambda>s. paper_candidate schedule evidence now p s \<noteq> None) (sort (map fst p))"
    unfolding cands_def by (rule map_filter_fst) (simp add: paper_candidate_Some)
  have cand: "fst x \<in> fst ` set p \<and> map_of p (fst x) = Some (fst (snd x)) \<and> fst (snd x) \<noteq> 0 \<and> map_of evidence (fst x) = Some (snd (snd x))"
    if "x \<in> set cands" for x
    using that paper_candidate_Some unfolding cands_def by (force simp: List.map_filter_def)
  have "books state state' booked \<and> book_paper schedule evidence fee now state' = Inr (state', [])
    \<and> (ls_cash_usdt state = Some cash \<longrightarrow> ls_cash_usdt state' = Some (fold settle_cash booked cash))
    \<and> list_all (\<lambda>b. \<exists>e. map_of evidence (ds_symbol b) = Some e \<and> ds_price b = Some (se_price e)) booked"
  proof (cases "cands = []")
    case True
    with assms(2) show ?thesis by (simp add: book_paper_def Let_def cands_def p_def)
  next
    case False
    with assms(2) obtain cash0 p' cash' h where cash: "ls_cash_usdt state = Some cash0"
      and run: "rfold (paper_step fee) cands (p, cash0, []) = Inr (p', cash', booked)"
      and state': "state' = state\<lparr>ls_positions := p', ls_cash_usdt := Some cash', ls_position_history := h\<rparr>"
      by (auto simp: book_paper_def Let_def cands_def p_def result_simps split: option.splits)
    from paper_fold [OF run] cand obtain new where new: "booked = new" "map holding new = map (\<lambda>x. (fst x, fst (snd x))) cands"
      "cash' = fold settle_cash new cash0" "zeroed (map fst cands) p p'" "map ds_price new = map (\<lambda>x. Some (se_price (snd (snd x)))) cands"
      by auto
    have syms: "map ds_symbol booked = map fst cands" using arg_cong [OF new(2), of "map fst"] by (simp add: new(1) comp_def)
    have each: "\<exists>x \<in> set cands. holding b = (fst x, fst (snd x)) \<and> ds_price b = Some (se_price (snd (snd x)))" if "b \<in> set booked" for b
    proof -
      from that obtain i where i: "i < length new" "b = new ! i" by (metis in_set_conv_nth new(1))
      have len: "length cands = length new" using arg_cong [OF new(2), of length] by simp
      show ?thesis using i arg_cong [OF new(2), of "\<lambda>l. l ! i"] arg_cong [OF new(5), of "\<lambda>l. l ! i"] len
        by (intro bexI [of _ "cands ! i"]) auto
    qed
    have "book_paper schedule evidence fee now state' = Inr (state', [])"
      using candidates_after_booking [of schedule evidence now p p'] new(4) by (simp add: book_paper_def state' cands_def)
    moreover have "distinct (map fst cands)" using assms(1) by (simp add: names p_def)
    moreover have "map_of p (ds_symbol b) = Some (ds_quantity b) \<and> ds_quantity b \<noteq> 0
        \<and> (\<exists>e. map_of evidence (ds_symbol b) = Some e \<and> ds_price b = Some (se_price e))" if "b \<in> set booked" for b
      using each [OF that] cand by auto
    ultimately show ?thesis using new(3,4) cash
      by (simp add: books_def state' syms [unfolded new(1)] p_def [symmetric] list_all_iff new(1))
  qed
  then show "books state state' booked" "book_paper schedule evidence fee now state' = Inr (state', [])"
    "ls_cash_usdt state = Some cash \<Longrightarrow> ls_cash_usdt state' = Some (fold settle_cash booked cash)"
    "list_all (\<lambda>b. \<exists>e. map_of evidence (ds_symbol b) = Some e \<and> ds_price b = Some (se_price e)) booked" by blast+
qed

lemma book_live_books:
  assumes "dict_ok (ls_positions state)" "book_live c info schedule venue now state = Inr (state', booked)"
  shows "books state state' booked \<and> ls_cash_usdt state' = ls_cash_usdt state \<and> book_live c info schedule venue now state' = Inr (state', [])"
proof -
  from assms(2) obtain settled where settled: "settled_delisting_symbols c info venue (ls_positions state) now = Inr settled"
    by (auto simp: book_live_def result_simps)
  show ?thesis
  proof (cases "settled = []")
    case True
    with assms(2) settled show ?thesis by (simp add: book_live_def)
  next
    case False
    with assms(2) settled obtain p' h where run: "fold (live_step schedule now) settled (ls_positions state, []) = (p', booked)"
      and state': "state' = state\<lparr>ls_positions := p', ls_position_history := h\<rparr>"
      by (auto simp: book_live_def result_simps split: prod.splits)
    have set: "set settled \<subseteq> fst ` set (ls_positions state)" "distinct settled" "\<forall>s \<in> set settled. dict_get (ls_positions state) s 0 \<noteq> 0"
      using settled assms(1) by (auto simp: settled_symbols_Inr dest: settled_symbol_held)
    from live_fold [OF run set(2,1)] have new: "map holding booked = map (\<lambda>s. (s, dict_get (ls_positions state) s 0)) settled"
      and zero: "zeroed settled (ls_positions state) p'" by auto
    have syms: "map ds_symbol booked = settled" using arg_cong [OF new, of "map fst"] by (simp add: comp_def)
    have "map_of (ls_positions state) (ds_symbol b) = Some (ds_quantity b) \<and> ds_quantity b \<noteq> 0" if "b \<in> set booked" for b
    proof -
      have "holding b \<in> holding ` set booked" using that by (rule imageI)
      then have "holding b \<in> set (map (\<lambda>s. (s, dict_get (ls_positions state) s 0)) settled)" by (simp only: new [symmetric] set_map)
      then show ?thesis using set(3) by (auto simp: dict_get_def split: option.splits)
    qed
    moreover have "book_live c info schedule venue now state' = Inr (state', [])"
      using settled_after_booking [OF settled zero] by (simp add: book_live_def state')
    ultimately show ?thesis using zero set(2) by (simp add: books_def state' syms list_all_iff)
  qed
qed

text \<open>
  C40: a booking run settles exactly what is settled, once.  The booked positions, each with its
  nonzero ledger quantity and each once, become zero; every other position, and everything in the
  ledger but cash and position history, is unchanged; live and shadow runs do not touch the cash; and
  a second run with the same venue data books nothing.
\<close>

theorem delisting_booked_once:
  assumes "dict_ok (ls_positions state)"
    and "book_delisting_settlements c mode exchange_info venue_positions evidence fee_bps now state = Inr (state', booked)"
  shows "books state state' booked
    \<and> (mode = PAPER \<or> ls_cash_usdt state' = ls_cash_usdt state)
    \<and> book_delisting_settlements c mode exchange_info venue_positions evidence fee_bps now state' = Inr (state', [])"
proof (cases mode)
  case SHADOW
  with assms(2) show ?thesis by (auto simp: book_delisting_settlements_def result_simps split: if_splits)
next
  case PAPER
  with assms(2) show ?thesis using book_paper_books(1,2) [OF assms(1)]
    by (fastforce simp: book_delisting_settlements_def result_simps split: if_splits)
next
  case LIVE_TESTNET
  with assms(2) show ?thesis using book_live_books [OF assms(1)]
    by (fastforce simp: book_delisting_settlements_def result_simps split: if_splits)
next
  case LIVE_MAINNET
  with assms(2) show ?thesis using book_live_books [OF assms(1)]
    by (fastforce simp: book_delisting_settlements_def result_simps split: if_splits)
qed

section \<open>The cash of the tax records\<close>

definition record_cash :: "tax_record \<Rightarrow> decimal \<Rightarrow> decimal" where
  "record_cash r cash = dsub (dadd cash (if tr_side r = ''SELL'' then tr_quote_qty r else - tr_quote_qty r)) (tr_fee r)"

lemma settlement_record_cash:
  assumes "ds_price b = Some price" "0 < price" "ds_quantity b \<noteq> 0"
  shows "record_cash (settlement_record mode b price) cash = settle_cash b cash"
proof -
  have "dabs (dmul q price) = \<bar>dmul q price\<bar>" for q
    by (simp add: dabs_def dmul_def d28.rnd_abs d28.rnd_idem)
  moreover have "0 < dmul (ds_quantity b) price \<longleftrightarrow> 0 < ds_quantity b"
    using assms(2) by (simp add: dmul_def d28.rnd_pos_iff zero_less_mult_iff)
  moreover have "dmul (ds_quantity b) price \<noteq> 0" using assms(2,3) by (simp add: dmul_def d28.rnd_eq_0_iff)
  ultimately show ?thesis using assms(1) by (auto simp: record_cash_def settlement_record_def settle_cash_def abs_if)
qed

lemma settlement_record_valid:
  assumes "0 < price" "ds_quantity b \<noteq> 0" "ds_symbol b \<noteq> []" "mode = ''paper''"
  shows "validate_tax_record (settlement_record mode b price) = Inr ()"
  using assms
  by (simp add: validate_tax_record_def settlement_record_def TAX_RECORD_KINDS_def TAX_SOURCE_MODES_def mode_value_def
      validate_trade_def TRADE_SIDES_def)

lemma split_last_colon:
  assumes "x @ CHR '':'' # a = y @ CHR '':'' # b" "CHR '':'' \<notin> set a" "CHR '':'' \<notin> set b"
  shows "x = y"
proof -
  have "dropWhile (\<lambda>ch. ch \<noteq> CHR '':'') (rev (z @ CHR '':'' # d)) = CHR '':'' # rev z" if "CHR '':'' \<notin> set d" for z d
    using that by (auto simp: dropWhile_append)
  from this [OF assms(2), of x] this [OF assms(3), of y] assms(1) show ?thesis by simp
qed

lemma no_colon_str_int: "CHR '':'' \<notin> set (str_int i)"
proof -
  have "CHR '':'' \<notin> set (str_nat n)" for n
    using str_nat_digits [of "CHR '':''" n] by (auto simp: is_digit_def)
  then show ?thesis by (simp add: str_int_def)
qed

lemma settlement_record_id_inj:
  "tr_record_id (settlement_record mode b price) = tr_record_id (settlement_record mode b' price') \<Longrightarrow> ds_symbol b = ds_symbol b'"
  using split_last_colon [of "ds_symbol b" _ "ds_symbol b'"] no_colon_str_int by (auto simp: settlement_record_def)

lemma settlement_records_of:
  assumes "list_all (\<lambda>b. \<exists>price. ds_price b = Some price \<and> 0 < price \<and> ds_quantity b \<noteq> 0 \<and> ds_symbol b \<noteq> []) booked"
    and "distinct (map ds_symbol booked)"
  defines "records \<equiv> delisting_settlement_tax_records booked ''paper''"
  shows "length records = length booked \<and> fold record_cash records cash = fold settle_cash booked cash
    \<and> list_all (\<lambda>r. validate_tax_record r = Inr ()) records \<and> distinct (map tr_record_id records)"
proof -
  have r: "records = map (\<lambda>b. settlement_record ''paper'' b (the (ds_price b))) booked"
    using assms(1) unfolding records_def
    by (induction booked) (auto simp: delisting_settlement_tax_records_def List.map_filter_simps)
  have cash: "fold record_cash records cash = fold settle_cash booked cash" for cash
    using assms(1) unfolding r by (induction booked arbitrary: cash) (auto simp: settlement_record_cash)
  have valid: "list_all (\<lambda>r. validate_tax_record r = Inr ()) records"
    using assms(1) by (auto simp: r list_all_iff settlement_record_valid)
  have "inj_on (\<lambda>b. tr_record_id (settlement_record ''paper'' b (the (ds_price b)))) (set booked)"
  proof (rule inj_onI)
    fix b b' assume in_booked: "b \<in> set booked" "b' \<in> set booked"
      and ids: "tr_record_id (settlement_record ''paper'' b (the (ds_price b))) = tr_record_id (settlement_record ''paper'' b' (the (ds_price b')))"
    from settlement_record_id_inj [OF ids] show "b = b'"
      using assms(2) in_booked unfolding distinct_map by (blast dest: inj_onD)
  qed
  then have "distinct (map tr_record_id records)" using assms(2) by (auto simp: r comp_def distinct_map)
  with cash valid show ?thesis by (simp add: r)
qed

text \<open>
  The ledger and the tax ledger book the same settlement cash.  For a paper run with positive
  evidence prices every settlement has one tax record, all of them valid and with different ids, and
  the cash of the ledger after the run is its cash before with the notional and the fee of every
  record applied in order, in the decimal arithmetic of the program.
\<close>

theorem settlement_cash_matches_tax_records:
  assumes "dict_ok (ls_positions state)" and "[] \<notin> fst ` set (ls_positions state)"
    and "\<forall>e \<in> snd ` set evidence. 0 < se_price e" and "ls_cash_usdt state = Some cash"
    and "book_delisting_settlements c PAPER exchange_info venue_positions evidence fee_bps now state = Inr (state', booked)"
  shows "length (delisting_settlement_tax_records booked (mode_value PAPER)) = length booked
    \<and> ls_cash_usdt state' = Some (fold record_cash (delisting_settlement_tax_records booked (mode_value PAPER)) cash)
    \<and> list_all (\<lambda>r. validate_tax_record r = Inr ()) (delisting_settlement_tax_records booked (mode_value PAPER))
    \<and> distinct (map tr_record_id (delisting_settlement_tax_records booked (mode_value PAPER)))"
proof -
  from assms(5) obtain schedule now_ts where run: "book_paper schedule evidence fee_bps now_ts state = Inr (state', booked)"
    by (auto simp: book_delisting_settlements_def result_simps split: if_splits)
  note b = book_paper_books [OF assms(1) run]
  have "list_all (\<lambda>b. \<exists>price. ds_price b = Some price \<and> 0 < price \<and> ds_quantity b \<noteq> 0 \<and> ds_symbol b \<noteq> []) booked"
  proof (unfold list_all_iff, intro ballI)
    fix x assume x: "x \<in> set booked"
    then obtain e where e: "map_of evidence (ds_symbol x) = Some e" "ds_price x = Some (se_price e)"
      using b(4) by (auto simp: list_all_iff)
    have "0 < se_price e" using assms(3) e(1) by (force dest: map_of_SomeD)
    moreover have held: "map_of (ls_positions state) (ds_symbol x) = Some (ds_quantity x)" "ds_quantity x \<noteq> 0"
      using b(1) x by (auto simp: books_def list_all_iff)
    moreover have "ds_symbol x \<noteq> []" using held(1) assms(2) by (force dest: map_of_SomeD)
    ultimately show "\<exists>price. ds_price x = Some price \<and> 0 < price \<and> ds_quantity x \<noteq> 0 \<and> ds_symbol x \<noteq> []" using e by blast
  qed
  from settlement_records_of [OF this, of cash] b(1) have rec:
    "length (delisting_settlement_tax_records booked ''paper'') = length booked
      \<and> fold record_cash (delisting_settlement_tax_records booked ''paper'') cash = fold settle_cash booked cash
      \<and> list_all (\<lambda>r. validate_tax_record r = Inr ()) (delisting_settlement_tax_records booked ''paper'')
      \<and> distinct (map tr_record_id (delisting_settlement_tax_records booked ''paper''))" by (simp add: books_def)
  have "ls_cash_usdt state' = Some (fold settle_cash booked cash)" using b(3) assms(4) .
  with rec show ?thesis by (simp add: mode_value_def)
qed

definition delisted_info :: payload where
  "delisted_info = [(''symbols'', JArr [JObj [(''symbol'', JStr ''OLDUSDT''), (''status'', JStr ''SETTLING''), (''deliveryDate'', JInt 1)]])]"

definition holding_ledger :: ledger_state where
  "holding_ledger = empty_ledger\<lparr>ls_positions := [(''OLDUSDT'', 2), (''BTCUSDT'', 1)], ls_cash_usdt := Some 10\<rparr>"

definition old_evidence :: "(string, settlement_evidence) dict" where
  "old_evidence = [(''OLDUSDT'', \<lparr>se_delivery_time = Aware 1000000, se_price = 3\<rparr>)]"

lemma sorted_holding: "sort [''OLDUSDT'', ''BTCUSDT''] = [''BTCUSDT'', ''OLDUSDT'']"
  by code_simp

lemma old_settlement_paper:
  "\<exists>state' b. book_delisting_settlements plain_codec PAPER delisted_info [] old_evidence 0 (Aware 5000000) holding_ledger = Inr (state', [b])"
  by (simp add: book_delisting_settlements_def book_paper_def parse_delivery_schedule_def delisted_info_def required_def
      holding_ledger_def empty_ledger_def paper_candidate_def is_delisted_def DELISTED_STATUSES_def old_evidence_def paper_step_def
      sorted_holding List.map_filter_simps Let_def append_position_snapshot_def POSITION_HISTORY_MAX_def)

lemma old_settlement_live:
  "\<exists>state' b. book_delisting_settlements plain_codec LIVE_MAINNET delisted_info [] [] 0 (Aware 5000000) holding_ledger = Inr (state', [b])"
  by (simp add: book_delisting_settlements_def book_live_def parse_delivery_schedule_def delisted_info_def required_def
      holding_ledger_def empty_ledger_def settled_delisting_symbols_def settled_symbol_def listing_entries_def DELISTED_SYMBOL_STATUSES_def
      live_step_def sorted_holding Let_def append_position_snapshot_def POSITION_HISTORY_MAX_def dict_get_def)

theorem delisting_booked_once_witness:
  "\<exists>state' b. book_delisting_settlements plain_codec LIVE_MAINNET delisted_info [] [] 0 (Aware 5000000) holding_ledger = Inr (state', [b])
     \<and> books holding_ledger state' [b]"
proof -
  obtain state' b where run: "book_delisting_settlements plain_codec LIVE_MAINNET delisted_info [] [] 0 (Aware 5000000) holding_ledger = Inr (state', [b])"
    using old_settlement_live by blast
  have "dict_ok (ls_positions holding_ledger)" by (simp add: holding_ledger_def)
  from delisting_booked_once [OF this run] run show ?thesis by blast
qed

theorem settlement_cash_matches_tax_records_witness:
  "\<exists>state' b. book_delisting_settlements plain_codec PAPER delisted_info [] old_evidence 0 (Aware 5000000) holding_ledger = Inr (state', [b])
     \<and> ls_cash_usdt state' = Some (fold record_cash (delisting_settlement_tax_records [b] (mode_value PAPER)) 10)"
proof -
  obtain state' b where run: "book_delisting_settlements plain_codec PAPER delisted_info [] old_evidence 0 (Aware 5000000) holding_ledger = Inr (state', [b])"
    using old_settlement_paper by blast
  have h: "dict_ok (ls_positions holding_ledger)" "[] \<notin> fst ` set (ls_positions holding_ledger)"
    "\<forall>e \<in> snd ` set old_evidence. 0 < se_price e" "ls_cash_usdt holding_ledger = Some 10"
    by (simp_all add: holding_ledger_def old_evidence_def)
  from settlement_cash_matches_tax_records [OF h run] run show ?thesis by blast
qed

end
