(* ===== verification/Evidence.thy ===== *)
theory Evidence
  imports Tax_Ledger Float_Arith
begin

text \<open>
  The evidence of executed fills: the per-fill parquet ledger (\<open>src/live/fills.py\<close>), the simulated tax
  records and the cash reconciliation (\<open>src/live/tax_ledger.py\<close>), and \<open>_commit_and_record\<close> of
  \<open>src/live/runner.py\<close>, which commits the journal to the ledger and then emits the evidence.

  A parquet partition is a list of rows or undecodable; \<open>strftime('%Y%m')\<close> is the parameter of the tax
  shards.  Writes may fail: an argument says which partition raises, what a failed append leaves behind
  in the tax directory, and whether the last save of the ledger raises.  Log and audit lines and alerts
  are left out.
\<close>

section \<open>The per-fill ledger\<close>

record fill_event =
  fv_decision_time :: timestamp
  fv_timestamp :: timestamp
  fv_symbol :: string
  fv_quantity_delta :: decimal
  fv_fill_price :: decimal
  fv_fee_bps :: decimal
  fv_reason :: string
  fv_pre_trade_equity :: decimal
  fv_liquidity :: string
  fv_mode :: string
  fv_run_id :: string
  fv_leg_index :: int
  fv_client_order_id :: string
  fv_decision_mark :: "decimal option"
  fv_sizing_anchor :: string
  fv_fill_id :: "string option"

definition FILL_REASONS :: "string list" where
  "FILL_REASONS = [''maker_fill'', ''backstop_taker'', ''timeout_taker'', ''residual'', ''obsolete'', ''immediate_taker'',
     ''orphan_settlement'', ''recovered_fill'', ''venue_force_close'']"

text \<open>A stored row: the amounts become floats, a missing mark is NaN.\<close>

definition event_to_row :: "fill_event \<Rightarrow> fill_event res" where
  "event_to_row ev =
     (if fv_reason ev \<notin> set FILL_REASONS then Inl ValueError
      else if fv_liquidity ev \<notin> {''maker'', ''taker''} then Inl ValueError
      else Inr (ev\<lparr>fv_quantity_delta := fl (fv_quantity_delta ev), fv_fill_price := fl (fv_fill_price ev), fv_fee_bps := fl (fv_fee_bps ev),
             fv_pre_trade_equity := fl (fv_pre_trade_equity ev), fv_decision_mark := map_option fl (fv_decision_mark ev)\<rparr>))"

primrec dedupe_batch :: "string list \<Rightarrow> fill_event list \<Rightarrow> fill_event list" where
  "dedupe_batch seen [] = []"
| "dedupe_batch seen (ev # evs) = (case fv_fill_id ev of
     None \<Rightarrow> ev # dedupe_batch seen evs
   | Some i \<Rightarrow> if i \<in> set seen then dedupe_batch seen evs else ev # dedupe_batch (i # seen) evs)"

datatype parquet = Frame "fill_event list" | Undecodable

type_synonym fills_dir = "(string, parquet) dict"

text \<open>\<open>read_parquet_or_quarantine\<close>: an undecodable file is moved aside.\<close>

definition read_partition :: "fills_dir \<Rightarrow> string \<Rightarrow> fill_event list option" where
  "read_partition dir m = (case map_of dir m of Some (Frame rows) \<Rightarrow> Some rows | _ \<Rightarrow> None)"

definition unknown_rows :: "fill_event list \<Rightarrow> fill_event list \<Rightarrow> fill_event list" where
  "unknown_rows existing rows = filter (\<lambda>r. case fv_fill_id r of None \<Rightarrow> True | Some i \<Rightarrow> Some i \<notin> fv_fill_id ` set existing) rows"

definition append_month :: "(string \<Rightarrow> exc option) \<Rightarrow> string \<times> fill_event list \<Rightarrow> (fills_dir, unit) sx" where
  "append_month faults = (\<lambda>(m, evs).
     sx_bind (sx_lift (rmap event_to_row (dedupe_batch [] evs))) (\<lambda>rows.
     sx_bind (sx_gets (\<lambda>dir. read_partition dir m)) (\<lambda>existing.
       let new = (case existing of None \<Rightarrow> rows | Some old \<Rightarrow> unknown_rows old rows)
       in if existing \<noteq> None \<and> new = [] then sx_return ()
          else case faults m of
            Some e \<Rightarrow> sx_raise e
          | None \<Rightarrow> sx_modify (AList.update m (Frame ((case existing of None \<Rightarrow> [] | Some old \<Rightarrow> old) @ new))))))"

definition append_fills :: "(timestamp \<Rightarrow> string) \<Rightarrow> (string \<Rightarrow> exc option) \<Rightarrow> fill_event list \<Rightarrow> (fills_dir, unit) sx" where
  "append_fills month faults events =
     (if \<exists>ev \<in> set events. fv_reason ev \<notin> set FILL_REASONS then sx_raise ValueError
      else sx_foldM (\<lambda>m _. append_month faults (m, filter (\<lambda>ev. month (fv_timestamp ev) = m) events))
             (sorted_set (map (\<lambda>ev. month (fv_timestamp ev)) events)) ())"

section \<open>Simulated tax records\<close>

definition fill_ident :: "int \<Rightarrow> string" where "fill_ident n = ''journal:'' @ str_int n"

definition journal_ident :: "string option \<Rightarrow> nat option" where
  "journal_ident i = (case i of
     Some s \<Rightarrow> if take 8 s = ''journal:'' \<and> drop 8 s \<noteq> [] \<and> list_all is_digit (drop 8 s) then Some (nat_of_digits (drop 8 s)) else None
   | None \<Rightarrow> None)"

definition simulated_record :: "string \<Rightarrow> fill_event \<Rightarrow> tax_record option res" where
  "simulated_record mode ev = (case (fv_fill_id ev, journal_ident (fv_fill_id ev)) of
     (Some fill_id, Some venue_id) \<Rightarrow>
       if fv_quantity_delta ev = 0 then Inr None
       else if fv_fill_price ev \<le> 0 then Inl DataIntegrityError
       else if fv_fee_bps ev < 0 then Inl DataIntegrityError
       else let quantity = dabs (fv_quantity_delta ev); quote_qty = dmul quantity (fv_fill_price ev)
         in Inr (Some \<lparr>tr_record_id = ''simulated:TRADE:'' @ fill_id, tr_kind = ''TRADE'', tr_event_time = fv_timestamp ev,
              tr_symbol = fv_symbol ev, tr_side = (if 0 < fv_quantity_delta ev then ''BUY'' else ''SELL''), tr_quantity = quantity,
              tr_price = fv_fill_price ev, tr_quote_qty = quote_qty, tr_fee = rnd28 (dmul quote_qty (fv_fee_bps ev) / 10000),
              tr_fee_asset = ''USDT'', tr_realized_pnl = 0, tr_income_asset = ''USDT'', tr_is_maker = (fv_liquidity ev = ''maker''),
              tr_venue_id = int venue_id, tr_source = ''simulated'', tr_mode = mode, tr_income_type = [], tr_position_side = []\<rparr>)
   | _ \<Rightarrow> Inl DataIntegrityError)"

definition simulated_tax_records :: "string \<Rightarrow> fill_event list \<Rightarrow> tax_record list res" where
  "simulated_tax_records mode events =
     rbind (rmap (simulated_record mode) events) (\<lambda>rs. Inr (sort_key tr_event_time (List.map_filter (\<lambda>x. x) rs)))"

definition funding_tax_record :: "(timestamp \<Rightarrow> int) \<Rightarrow> string \<Rightarrow> string \<Rightarrow> funding_event \<Rightarrow> tax_record" where
  "funding_tax_record ms_of run_id mode ev =
     \<lparr>tr_record_id = ''simulated:FUNDING_FEE:'' @ run_id @ '':'' @ fe_symbol ev @ '':'' @ str_int (ms_of (fe_epoch ev)), tr_kind = ''FUNDING_FEE'',
      tr_event_time = fe_epoch ev, tr_symbol = fe_symbol ev, tr_side = [], tr_quantity = fe_quantity ev, tr_price = fe_price ev,
      tr_quote_qty = dmul (fe_quantity ev) (fe_price ev), tr_fee = 0, tr_fee_asset = ''USDT'', tr_realized_pnl = fe_amount ev,
      tr_income_asset = ''USDT'', tr_is_maker = False, tr_venue_id = 0, tr_source = ''simulated'', tr_mode = mode, tr_income_type = [],
      tr_position_side = []\<rparr>"

definition funding_tax_records :: "(timestamp \<Rightarrow> int) \<Rightarrow> string \<Rightarrow> string \<Rightarrow> funding_event list \<Rightarrow> tax_record list" where
  "funding_tax_records ms_of run_id mode = map (funding_tax_record ms_of run_id mode)"

section \<open>Cash reconciliation\<close>

record cash_reconciliation =
  cr_expected_delta :: decimal
  cr_actual_delta :: decimal
  cr_difference :: decimal
  cr_within_tolerance :: bool

definition trade_flow :: "tax_record \<Rightarrow> decimal res" where
  "trade_flow r =
     (if tr_kind r \<noteq> ''TRADE'' then Inl ValueError
      else if tr_side r = ''BUY'' then Inr (dsub (dneg (tr_quote_qty r)) (tr_fee r))
      else if tr_side r = ''SELL'' then Inr (dsub (tr_quote_qty r) (tr_fee r))
      else if tr_side r = [] \<and> tr_quote_qty r = 0 then Inr (dneg (tr_fee r))
      else Inl ValueError)"

definition reconcile_cycle_cash :: "decimal \<Rightarrow> decimal \<Rightarrow> tax_record list \<Rightarrow> tax_record list \<Rightarrow> decimal \<Rightarrow> cash_reconciliation res" where
  "reconcile_cycle_cash before after trade_records funding_records tolerance =
     rbind (rfold (\<lambda>r x. if tr_kind r \<noteq> ''FUNDING_FEE'' then Inl ValueError else Inr (dadd x (tr_realized_pnl r))) funding_records 0) (\<lambda>funding.
     rbind (rfold (\<lambda>r x. rbind (trade_flow r) (\<lambda>y. Inr (dadd x y))) trade_records funding) (\<lambda>expected.
       let actual = dsub after before; difference = dsub actual expected
       in Inr \<lparr>cr_expected_delta = expected, cr_actual_delta = actual, cr_difference = difference, cr_within_tolerance = (dabs difference \<le> tolerance)\<rparr>))"

section \<open>Commit and record\<close>

definition fill_event_of :: "(int, journal_attempt) dict \<Rightarrow> journal_attempt \<Rightarrow> journal_fill \<Rightarrow> fill_event" where
  "fill_event_of attempts fallback x =
     (let ctx = (case jf_attempt_seq x of None \<Rightarrow> fallback | Some n \<Rightarrow> (case map_of attempts n of None \<Rightarrow> fallback | Some a \<Rightarrow> a))
      in \<lparr>fv_decision_time = ja_decision_time ctx, fv_timestamp = jf_filled_at x, fv_symbol = jf_symbol x,
          fv_quantity_delta = (if jf_side x = ''BUY'' then jf_quantity x else dneg (jf_quantity x)), fv_fill_price = jf_price x,
          fv_fee_bps = jf_fee_bps x, fv_reason = jf_reason x, fv_pre_trade_equity = ja_pre_trade_equity ctx, fv_liquidity = jf_liquidity x,
          fv_mode = ja_mode ctx, fv_run_id = ja_run_id ctx, fv_leg_index = jf_leg_index x,
          fv_client_order_id = (case jf_client_order_id x of None \<Rightarrow> [] | Some i \<Rightarrow> i),
          fv_decision_mark = map_of (ja_decision_marks ctx) (jf_symbol x), fv_sizing_anchor = ja_sizing_anchor ctx,
          fv_fill_id = Some (fill_ident (jf_fill_seq x))\<rparr>)"

definition fill_events_from_journal :: "(int, journal_attempt) dict \<Rightarrow> journal_attempt \<Rightarrow> journal_fill list \<Rightarrow> fill_event list" where
  "fill_events_from_journal attempts fallback fills =
     map (fill_event_of attempts fallback) (filter (\<lambda>x. jf_kind x \<noteq> ''operator_resync'') fills)"

record evidence_store =
  es_ledger :: ledger_file
  es_fills :: fills_dir
  es_tax :: tax_dir

text \<open>What fails: the write of a partition, the append to the tax ledger, which leaves a directory
  behind, and the save of the recorded watermark, which may or may not have replaced the file.\<close>

record io_faults =
  ef_fills :: "string \<Rightarrow> exc option"
  ef_tax :: "tax_dir option"
  ef_mark :: "bool option"

record record_options =
  ro_codec :: text_codec
  ro_fixed :: "decimal \<Rightarrow> string"
  ro_month :: "timestamp \<Rightarrow> string"
  ro_mode :: execution_mode
  ro_starting_capital :: decimal
  ro_tolerance :: decimal

definition on_ledger :: "(ledger_file, 'a) sx \<Rightarrow> (evidence_store, 'a) sx" where
  "on_ledger m s = (case m (es_ledger s) of (r, f) \<Rightarrow> (r, s\<lparr>es_ledger := f\<rparr>))"

definition on_fills :: "(fills_dir, 'a) sx \<Rightarrow> (evidence_store, 'a) sx" where
  "on_fills m s = (case m (es_fills s) of (r, f) \<Rightarrow> (r, s\<lparr>es_fills := f\<rparr>))"

definition on_tax :: "(tax_dir, 'a) sx \<Rightarrow> (evidence_store, 'a) sx" where
  "on_tax m s = (case m (es_tax s) of (r, f) \<Rightarrow> (r, s\<lparr>es_tax := f\<rparr>))"

text \<open>\<open>try: body except Exception\<close>: whether the body returned.\<close>

definition sx_try :: "('s, 'a) sx \<Rightarrow> ('s, 'a option) sx" where
  "sx_try m s = (case m s of (Inr x, t) \<Rightarrow> (Inr (Some x), t) | (Inl _, t) \<Rightarrow> (Inr None, t))"

definition touch_ledger :: "text_codec \<Rightarrow> decimal option \<Rightarrow> timestamp option \<Rightarrow> ledger_state \<Rightarrow> (ledger_file, ledger_state) sx" where
  "touch_ledger c equity executed base =
     (let raised = (case equity of None \<Rightarrow> False | Some e \<Rightarrow> ls_equity_high_water_mark base < e);
          stamped = executed \<noteq> None \<and> ls_last_executed_decision_time base \<noteq> executed;
          s = (if raised then base\<lparr>ls_equity_high_water_mark := the equity\<rparr> else base);
          s' = (if stamped then s\<lparr>ls_last_executed_decision_time := executed\<rparr> else s)
      in if raised \<or> stamped then save_state c s' else sx_return base)"

definition commit_fills ::
    "record_options \<Rightarrow> order_journal \<Rightarrow> decimal option \<Rightarrow> timestamp option \<Rightarrow> ledger_state \<Rightarrow> (ledger_file, ledger_state) sx" where
  "commit_fills ro j equity executed base =
     (let pending = fills_after_mem j (ls_applied base) in
      if pending \<noteq> []
      then commit_journal_fills (ro_codec ro) \<lparr>co_equity = equity, co_track_cash = suppresses_mutations (ro_mode ro),
             co_starting_capital = ro_starting_capital ro, co_executed_decision_time = executed\<rparr> base pending
      else touch_ledger (ro_codec ro) equity executed base)"

definition append_simulated :: "record_options \<Rightarrow> tax_dir option \<Rightarrow> fill_event list \<Rightarrow> (tax_dir, tax_record list) sx" where
  "append_simulated ro left_behind events =
     sx_bind (sx_lift (simulated_tax_records (mode_value (ro_mode ro)) events)) (\<lambda>records.
       if records = [] then sx_return []
       else case left_behind of
         Some d \<Rightarrow> sx_bind (sx_modify (\<lambda>_. d)) (\<lambda>_. sx_raise DataIntegrityError)
       | None \<Rightarrow> sx_bind (append_tax_records (ro_codec ro) (ro_fixed ro) (ro_month ro) records) (\<lambda>_. sx_return records))"

definition reconcile_batch ::
    "record_options \<Rightarrow> ledger_state \<Rightarrow> ledger_state \<Rightarrow> journal_fill list \<Rightarrow> tax_record list \<Rightarrow> tax_record list \<Rightarrow> tax_record list \<Rightarrow> decimal option
     \<Rightarrow> cash_reconciliation option res" where
  "reconcile_batch ro base committed fresh batch funding_records settlement_records cash_before =
     (case (ls_cash_usdt base, ls_cash_usdt committed) of
        (Some base_cash, Some cash) \<Rightarrow>
          (let applied_before = map (\<lambda>x. ''simulated:TRADE:'' @ fill_ident (jf_fill_seq x)) (filter (\<lambda>x. jf_fill_seq x \<le> ls_applied base) fresh);
               trades = filter (\<lambda>r. tr_record_id r \<notin> set applied_before) batch @ settlement_records
           in rbind (reconcile_cycle_cash (case cash_before of None \<Rightarrow> base_cash | Some x \<Rightarrow> x) cash trades funding_records (ro_tolerance ro))
                (\<lambda>r. Inr (Some r)))
      | _ \<Rightarrow> Inr None)"

definition mark_recorded :: "record_options \<Rightarrow> bool option \<Rightarrow> ledger_state \<Rightarrow> int \<Rightarrow> (ledger_file, ledger_state) sx" where
  "mark_recorded ro fault committed through = (case fault of
     None \<Rightarrow> mark_fills_recorded (ro_codec ro) committed through
   | Some replaced \<Rightarrow> sx_bind (if replaced then mark_fills_recorded (ro_codec ro) committed through else sx_return committed) (\<lambda>_. sx_raise LiveTradingError))"

text \<open>The evidence of the fills between the recorded and the applied watermark.\<close>

definition record_fills ::
    "record_options \<Rightarrow> io_faults \<Rightarrow> order_journal \<Rightarrow> journal_attempt \<Rightarrow> tax_record list \<Rightarrow> tax_record list \<Rightarrow> decimal option
     \<Rightarrow> ledger_state \<Rightarrow> ledger_state \<Rightarrow> (evidence_store, ledger_state \<times> cash_reconciliation option) sx" where
  "record_fills ro faults j fallback funding_records settlement_records cash_before base committed =
     (let fresh = filter (\<lambda>x. jf_fill_seq x \<le> ls_applied committed) (fills_after_mem j (ls_recorded committed));
          events = fill_events_from_journal (oj_attempts j) fallback fresh
      in if fresh = [] then sx_return (committed, None)
         else sx_bind (sx_try (on_fills (append_fills (ro_month ro) (ef_fills faults) events))) (\<lambda>written.
           if written = None then sx_return (committed, None)
           else sx_bind (if suppresses_mutations (ro_mode ro) then sx_try (on_tax (append_simulated ro (ef_tax faults) events))
                         else sx_return (Some [])) (\<lambda>batch.
             case batch of None \<Rightarrow> sx_return (committed, None)
             | Some records \<Rightarrow>
               sx_bind (sx_lift (if suppresses_mutations (ro_mode ro)
                   then reconcile_batch ro base committed fresh records funding_records settlement_records cash_before else Inr None)) (\<lambda>reconciliation.
               sx_bind (sx_try (on_ledger (mark_recorded ro (ef_mark faults) committed (jf_fill_seq (last fresh))))) (\<lambda>marked.
                 sx_return (case marked of None \<Rightarrow> committed | Some l \<Rightarrow> l, reconciliation))))))"

definition commit_and_record ::
    "record_options \<Rightarrow> io_faults \<Rightarrow> order_journal \<Rightarrow> journal_attempt \<Rightarrow> decimal option \<Rightarrow> timestamp option \<Rightarrow> tax_record list \<Rightarrow> tax_record list \<Rightarrow> decimal option
     \<Rightarrow> ledger_state \<Rightarrow> (evidence_store, ledger_state \<times> cash_reconciliation option) sx" where
  "commit_and_record ro faults j fallback equity executed funding_records settlement_records cash_before base =
     sx_bind (on_ledger (commit_fills ro j equity executed base))
       (record_fills ro faults j fallback funding_records settlement_records cash_before base)"

section \<open>The evidence of a fill\<close>

definition fill_ids :: "fill_event list \<Rightarrow> string list" where
  "fill_ids rows = List.map_filter fv_fill_id rows"

definition fills_ok :: "fills_dir \<Rightarrow> bool" where
  "fills_ok dir \<longleftrightarrow> (\<forall>m p. map_of dir m = Some p \<longrightarrow> (\<exists>rows. p = Frame rows \<and> distinct (fill_ids rows)))"

definition stored_rows :: "fills_dir \<Rightarrow> string \<Rightarrow> fill_event set" where
  "stored_rows dir m = (case map_of dir m of Some (Frame rows) \<Rightarrow> set rows | _ \<Rightarrow> {})"

definition fills_grow :: "fills_dir \<Rightarrow> fills_dir \<Rightarrow> bool" where
  "fills_grow dir dir' \<longleftrightarrow> (fills_ok dir \<longrightarrow> fills_ok dir' \<and> (\<forall>m. stored_rows dir m \<subseteq> stored_rows dir' m))"

lemma fills_grow_preorder: "reflp fills_grow" "transp fills_grow"
  unfolding fills_grow_def reflp_def transp_def by blast+

lemma fill_ids_simps [simp]: "fill_ids [] = []" "fill_ids (r # rs) = (case fv_fill_id r of None \<Rightarrow> fill_ids rs | Some i \<Rightarrow> i # fill_ids rs)"
    "fill_ids (rs @ rs') = fill_ids rs @ fill_ids rs'"
  by (simp_all add: fill_ids_def map_filter_simps map_filter_append split: option.splits)

lemma set_fill_ids: "i \<in> set (fill_ids rows) \<longleftrightarrow> Some i \<in> fv_fill_id ` set rows"
  by (induction rows) (auto split: option.splits)

lemma event_to_row_id: "event_to_row ev = Inr row \<Longrightarrow> fv_fill_id row = fv_fill_id ev"
  by (auto simp: event_to_row_def split: if_splits)

lemma rows_ids: "rmap event_to_row evs = Inr rows \<Longrightarrow> map fv_fill_id rows = map fv_fill_id evs"
  by (induction evs arbitrary: rows) (auto simp: rbind_eq_Inr event_to_row_id)

lemma fill_ids_cong: "map fv_fill_id rows = map fv_fill_id evs \<Longrightarrow> fill_ids rows = fill_ids evs"
proof (induction evs arbitrary: rows)
  case (Cons ev evs)
  obtain r rs where r: "rows = r # rs" "fv_fill_id r = fv_fill_id ev" "map fv_fill_id rs = map fv_fill_id evs"
    using Cons.prems by (cases rows) auto
  show ?case unfolding r(1) using r(2) Cons.IH [OF r(3)] by (simp split: option.split)
qed simp

lemma dedupe_distinct: "distinct (fill_ids (dedupe_batch seen evs)) \<and> set (fill_ids (dedupe_batch seen evs)) \<inter> set seen = {}"
proof (induction evs arbitrary: seen)
  case (Cons ev evs)
  show ?case
  proof (cases "fv_fill_id ev")
    case (Some i)
    then show ?thesis using Cons [of seen] Cons [of "i # seen"] by auto
  qed (use Cons [of seen] in simp)
qed simp

lemma dedupe_ids: "set (fill_ids evs) \<subseteq> set seen \<union> set (fill_ids (dedupe_batch seen evs))"
proof (induction evs arbitrary: seen)
  case (Cons ev evs)
  show ?case
  proof (cases "fv_fill_id ev")
    case (Some i)
    then show ?thesis using Cons [of seen] Cons [of "i # seen"] by auto
  qed (use Cons [of seen] in simp)
qed simp

lemma unknown_rows_ids:
  assumes "distinct (fill_ids rows)"
  shows "distinct (fill_ids (unknown_rows old rows))" "set (fill_ids (unknown_rows old rows)) \<inter> set (fill_ids old) = {}"
    "set (fill_ids rows) \<subseteq> set (fill_ids old) \<union> set (fill_ids (unknown_rows old rows))"
proof -
  have "fill_ids (unknown_rows old rows) = filter (\<lambda>i. i \<notin> set (fill_ids old)) (fill_ids rows)"
    by (induction rows) (auto simp: unknown_rows_def set_fill_ids split: option.splits)
  then show "distinct (fill_ids (unknown_rows old rows))" "set (fill_ids (unknown_rows old rows)) \<inter> set (fill_ids old) = {}"
    "set (fill_ids rows) \<subseteq> set (fill_ids old) \<union> set (fill_ids (unknown_rows old rows))"
    using assms by auto
qed

text \<open>One partition: rows are only added, ids stay distinct, and on return the ids of the batch are there.\<close>

lemma append_month_run:
  "append_month faults (m, evs) dir = (case rmap event_to_row (dedupe_batch [] evs) of
     Inl e \<Rightarrow> (Inl e, dir)
   | Inr rows \<Rightarrow> (case read_partition dir m of
       None \<Rightarrow> (case faults m of Some e \<Rightarrow> (Inl e, dir) | None \<Rightarrow> (Inr (), AList.update m (Frame rows) dir))
     | Some old \<Rightarrow> if unknown_rows old rows = [] then (Inr (), dir)
         else (case faults m of Some e \<Rightarrow> (Inl e, dir) | None \<Rightarrow> (Inr (), AList.update m (Frame (old @ unknown_rows old rows)) dir))))"
  by (simp add: append_month_def sx_defs Let_def split: sum.split option.split)

lemma append_month_cases:
  obtains "snd (append_month faults (m, evs) dir) = dir"
  | rows old where "rmap event_to_row (dedupe_batch [] evs) = Inr rows" "read_partition dir m = Some old"
      "append_month faults (m, evs) dir = (Inr (), AList.update m (Frame (old @ unknown_rows old rows)) dir)"
  | rows where "rmap event_to_row (dedupe_batch [] evs) = Inr rows" "read_partition dir m = None"
      "append_month faults (m, evs) dir = (Inr (), AList.update m (Frame rows) dir)"
proof -
  note run = append_month_run [of faults m evs dir]
  show thesis
  proof (cases "rmap event_to_row (dedupe_batch [] evs)")
    case (Inl e)
    then show thesis using run that(1) by simp
  next
    case (Inr rows)
    show thesis
      by (cases "read_partition dir m"; cases "faults m"; cases "unknown_rows (the (read_partition dir m)) rows = []")
        (use run Inr that in auto)
  qed
qed

lemma batch_distinct: "rmap event_to_row (dedupe_batch [] evs) = Inr rows \<Longrightarrow> distinct (fill_ids rows)"
  using dedupe_distinct [of "[]" evs] fill_ids_cong [OF rows_ids] by metis

lemma read_partition_Some: "read_partition dir m = Some old \<longleftrightarrow> map_of dir m = Some (Frame old)"
  by (auto simp: read_partition_def split: option.splits parquet.splits)

lemma read_partition_None: "fills_ok dir \<Longrightarrow> read_partition dir m = None \<Longrightarrow> map_of dir m = None"
  by (fastforce simp: fills_ok_def read_partition_def split: option.splits parquet.splits)

lemma append_month_grows: "sx_keeps fills_grow (append_month faults (m, evs))"
  unfolding sx_keeps_def
proof
  fix dir
  show "fills_grow dir (snd (append_month faults (m, evs) dir))"
  proof (rule append_month_cases [of faults m evs dir])
    assume "snd (append_month faults (m, evs) dir) = dir"
    then show ?thesis by (simp add: fills_grow_def)
  next
    fix rows old
    assume r: "rmap event_to_row (dedupe_batch [] evs) = Inr rows" "read_partition dir m = Some old"
      "append_month faults (m, evs) dir = (Inr (), AList.update m (Frame (old @ unknown_rows old rows)) dir)"
    show ?thesis using unknown_rows_ids [OF batch_distinct [OF r(1)], of old] r(2)
      by (auto simp: r(3) fills_grow_def fills_ok_def stored_rows_def read_partition_Some)
  next
    fix rows
    assume r: "rmap event_to_row (dedupe_batch [] evs) = Inr rows" "read_partition dir m = None"
      "append_month faults (m, evs) dir = (Inr (), AList.update m (Frame rows) dir)"
    show ?thesis using batch_distinct [OF r(1)] read_partition_None [OF _ r(2)]
      by (auto simp: r(3) fills_grow_def fills_ok_def stored_rows_def)
  qed
qed

lemma append_month_stores:
  assumes run: "append_month faults (m, evs) dir = (Inr u, dir')" and ev: "ev \<in> set evs" "fv_fill_id ev = Some i"
  shows "Some i \<in> fv_fill_id ` stored_rows dir' m"
proof -
  from run obtain rows where rows: "rmap event_to_row (dedupe_batch [] evs) = Inr rows"
    by (cases "rmap event_to_row (dedupe_batch [] evs)") (simp_all add: append_month_run)
  have "i \<in> set (fill_ids evs)" using ev by (force simp: set_fill_ids)
  then have i: "i \<in> set (fill_ids rows)" using dedupe_ids [of evs "[]"] fill_ids_cong [OF rows_ids [OF rows]] by auto
  show ?thesis
  proof (cases "read_partition dir m")
    case None
    then have "dir' = AList.update m (Frame rows) dir" using run rows by (simp add: append_month_run split: option.splits)
    then show ?thesis using i by (simp add: stored_rows_def set_fill_ids)
  next
    case (Some old)
    have dir': "dir' = (if unknown_rows old rows = [] then dir else AList.update m (Frame (old @ unknown_rows old rows)) dir)"
      using run rows Some by (simp add: append_month_run split: option.splits if_splits)
    have "i \<in> set (fill_ids (old @ unknown_rows old rows))" using i unknown_rows_ids(3) [OF batch_distinct [OF rows], of old] by auto
    then show ?thesis using Some by (auto simp: dir' stored_rows_def set_fill_ids read_partition_Some split: if_splits)
  qed
qed

lemma append_fills_grows: "sx_keeps fills_grow (append_fills month faults events)"
  unfolding append_fills_def
  by (auto intro!: sx_keeps_foldM fills_grow_preorder append_month_grows sx_keeps_pure)

lemma append_fills_stores:
  assumes "append_fills month faults events dir = (Inr u, dir')" "fills_ok dir" "ev \<in> set events" "fv_fill_id ev = Some i"
  shows "Some i \<in> fv_fill_id ` stored_rows dir' (month (fv_timestamp ev))"
proof -
  let ?months = "sorted_set (map (\<lambda>ev. month (fv_timestamp ev)) events)"
  let ?step = "\<lambda>m (_ :: unit). append_month faults (m, filter (\<lambda>ev. month (fv_timestamp ev) = m) events)"
  define P where "P d u dir \<longleftrightarrow> fills_ok dir \<and> (\<forall>m \<in> set d. \<forall>ev \<in> set events. \<forall>i. month (fv_timestamp ev) = m \<and> fv_fill_id ev = Some i
      \<longrightarrow> Some i \<in> fv_fill_id ` stored_rows dir m)" for d and u :: unit and dir
  have run: "sx_foldM ?step ?months () dir = (Inr (), dir')" using assms(1) by (cases u) (simp add: append_fills_def split: if_splits)
  have "P ?months () dir'"
  proof (rule sx_foldM_invariant [OF run, where P = P])
    show "P [] () dir" using assms(2) by (simp add: P_def)
    fix d m acc dir acc1 dir1
    assume inv: "P d acc dir" and step: "?step m acc dir = (Inr acc1, dir1)"
    have grow: "fills_grow dir dir1" by (rule sx_keepsD [OF append_month_grows step])
    have ok: "fills_ok dir1" and sub: "stored_rows dir m' \<subseteq> stored_rows dir1 m'" for m' using inv grow by (auto simp: P_def fills_grow_def)
    have "Some i \<in> fv_fill_id ` stored_rows dir1 m'"
      if ev: "m' \<in> set (d @ [m])" "ev \<in> set events" "month (fv_timestamp ev) = m'" "fv_fill_id ev = Some i" for m' ev i
    proof (cases "m' = m")
      case True
      then show ?thesis using append_month_stores [OF step] ev by simp
    next
      case False
      then have "Some i \<in> fv_fill_id ` stored_rows dir m'" using inv ev by (simp add: P_def)
      then show ?thesis by (rule subsetD [OF image_mono [OF sub]])
    qed
    then show "P (d @ [m]) acc1 dir1" using ok by (simp add: P_def)
  qed
  then show ?thesis using assms(3,4) by (simp add: P_def)
qed

section \<open>Simulated records of a batch\<close>

lemma rmap_in: "rmap f xs = Inr ys \<Longrightarrow> x \<in> set xs \<Longrightarrow> \<exists>y \<in> set ys. f x = Inr y"
  by (induction xs arbitrary: ys) (auto simp: rbind_eq_Inr)

lemma simulated_records_ids:
  assumes "simulated_tax_records mode events = Inr records" "ev \<in> set events" "fv_quantity_delta ev \<noteq> 0"
  shows "\<exists>i. fv_fill_id ev = Some i \<and> ''simulated:TRADE:'' @ i \<in> tr_record_id ` set records"
proof -
  from assms(1) obtain rs where rs: "rmap (simulated_record mode) events = Inr rs" "set records = {r. Some r \<in> set rs}"
    by (auto simp: simulated_tax_records_def rbind_eq_Inr map_filter_def) force+
  obtain y where y: "y \<in> set rs" "simulated_record mode ev = Inr y" using rmap_in [OF rs(1) assms(2)] by blast
  obtain i n where i: "fv_fill_id ev = Some i" "journal_ident (fv_fill_id ev) = Some n"
    using y(2) by (auto simp: simulated_record_def split: option.splits)
  then obtain r where "y = Some r" "tr_record_id r = ''simulated:TRADE:'' @ i"
    using y(2) assms(3) by (auto simp: simulated_record_def Let_def split: if_splits)
  then show ?thesis using y(1) i(1) rs(2) by force
qed

lemma append_simulated_ids:
  assumes cod: "codec_ok (ro_codec ro)" "fixed_ok (ro_codec ro) (ro_fixed ro)" and dir: "dir_ok (ro_codec ro) (ro_month ro) d"
    and run: "append_simulated ro left_behind events d = (Inr records, d')"
  shows "dir_ok (ro_codec ro) (ro_month ro) d' \<and> dir_records (ro_codec ro) d \<subseteq> dir_records (ro_codec ro) d'
    \<and> simulated_tax_records (mode_value (ro_mode ro)) events = Inr records \<and> tr_record_id ` set records \<subseteq> tr_record_id ` dir_records (ro_codec ro) d'"
proof -
  from run obtain recs where recs: "simulated_tax_records (mode_value (ro_mode ro)) events = Inr recs"
    by (auto simp: append_simulated_def sx_bind_Inr)
  show ?thesis
  proof (cases "recs = []")
    case True
    then show ?thesis using run dir recs by (simp add: append_simulated_def sx_bind_Inr)
  next
    case False
    have "left_behind = None" using run recs False by (cases left_behind) (simp_all add: append_simulated_def sx_defs)
    then have "sx_bind (append_tax_records (ro_codec ro) (ro_fixed ro) (ro_month ro) recs) (\<lambda>_. sx_return recs) d = (Inr records, d')"
      using run recs False by (simp add: append_simulated_def sx_bind_def sx_lift_def)
    then obtain written u where w: "append_tax_records (ro_codec ro) (ro_fixed ro) (ro_month ro) recs d = (Inr written, u)" "sx_return recs u = (Inr records, d')"
      unfolding sx_bind_Inr by (elim exE conjE)
    have "recs = records" "u = d'" using w(2) by (simp_all add: sx_return_def)
    then show ?thesis using append_ids [OF cod dir w(1)] recs by simp
  qed
qed

text \<open>An append that raises leaves what a crash may leave.\<close>

definition fault_ok :: "record_options \<Rightarrow> io_faults \<Rightarrow> tax_dir \<Rightarrow> bool" where
  "fault_ok ro faults d \<longleftrightarrow> (\<forall>d'. ef_tax faults = Some d' \<longrightarrow>
     (\<exists>records. (\<forall>r \<in> set records. validate_tax_record r = Inr ()) \<and> append_crash (ro_codec ro) (ro_fixed ro) (ro_month ro) records d d'))"

lemma append_simulated_raises:
  assumes cod: "codec_ok (ro_codec ro)" "fixed_ok (ro_codec ro) (ro_fixed ro)" and dir: "dir_ok (ro_codec ro) (ro_month ro) d" and faults: "fault_ok ro faults d"
    and run: "append_simulated ro (ef_tax faults) events d = (Inl e, d')"
  shows "dir_ok (ro_codec ro) (ro_month ro) d' \<and> dir_records (ro_codec ro) d \<subseteq> dir_records (ro_codec ro) d'"
proof -
  have "d' = d \<or> ef_tax faults = Some d'"
  proof (cases "simulated_tax_records (mode_value (ro_mode ro)) events")
    case (Inr records)
    show ?thesis
    proof (cases "ef_tax faults")
      case None
      then show ?thesis using run Inr append_raises [of "ro_codec ro" "ro_fixed ro" "ro_month ro" records d]
        by (auto simp: append_simulated_def sx_bind_def sx_lift_def sx_return_def split: if_splits prod.splits sum.splits)
    next
      case (Some left_behind)
      then show ?thesis using run Inr by (simp add: append_simulated_def sx_defs split: if_splits)
    qed
  qed (use run in \<open>simp add: append_simulated_def sx_defs\<close>)
  then consider "d' = d" | "ef_tax faults = Some d'" by blast
  then show ?thesis
  proof cases
    case 2
    then obtain records where "\<forall>r \<in> set records. validate_tax_record r = Inr ()" "append_crash (ro_codec ro) (ro_fixed ro) (ro_month ro) records d d'"
      using faults by (auto simp: fault_ok_def)
    from crash_between [OF cod dir this] show ?thesis by blast
  qed (simp add: dir)
qed

section \<open>Evidence is never lost\<close>

definition evidenced :: "record_options \<Rightarrow> journal_fill \<Rightarrow> evidence_store \<Rightarrow> bool" where
  "evidenced ro x s \<longleftrightarrow>
     Some (fill_ident (jf_fill_seq x)) \<in> fv_fill_id ` stored_rows (es_fills s) (ro_month ro (jf_filled_at x))
     \<and> (suppresses_mutations (ro_mode ro) \<and> jf_quantity x \<noteq> 0 \<longrightarrow>
          ''simulated:TRADE:'' @ fill_ident (jf_fill_seq x) \<in> tr_record_id ` dir_records (ro_codec ro) (es_tax s))"

text \<open>Every fill of the journal up to the recorded watermark has its evidence; what an operator
  resynchronised is no trade and has none.\<close>

definition all_evidenced :: "record_options \<Rightarrow> order_journal \<Rightarrow> ledger_state \<Rightarrow> evidence_store \<Rightarrow> bool" where
  "all_evidenced ro j l s \<longleftrightarrow>
     (\<forall>x \<in> set (oj_fills j). jf_fill_seq x \<le> ls_recorded l \<and> jf_kind x \<noteq> ''operator_resync'' \<longrightarrow> evidenced ro x s)"

definition store_ok :: "record_options \<Rightarrow> evidence_store \<Rightarrow> bool" where
  "store_ok ro s \<longleftrightarrow> fills_ok (es_fills s) \<and> dir_ok (ro_codec ro) (ro_month ro) (es_tax s)"

definition store_grow :: "record_options \<Rightarrow> evidence_store \<Rightarrow> evidence_store \<Rightarrow> bool" where
  "store_grow ro s t \<longleftrightarrow> store_ok ro t \<and> (\<forall>m. stored_rows (es_fills s) m \<subseteq> stored_rows (es_fills t) m)
     \<and> dir_records (ro_codec ro) (es_tax s) \<subseteq> dir_records (ro_codec ro) (es_tax t)"

lemma evidenced_grow: "store_grow ro s t \<Longrightarrow> evidenced ro x s \<Longrightarrow> evidenced ro x t"
  unfolding evidenced_def store_grow_def by (meson image_mono subsetD)

lemma store_grow_trans: "store_grow ro s t \<Longrightarrow> store_grow ro t u \<Longrightarrow> store_grow ro s u"
  unfolding store_grow_def by blast

lemma commit_fills_recorded:
  assumes "commit_fills ro j equity executed base f = (Inr committed, f')"
  shows "ls_recorded committed = ls_recorded base \<and> (f' = f \<or> f' = Document (ledger_json (ro_codec ro) committed))"
proof (cases "fills_after_mem j (ls_applied base) = []")
  case True
  then show ?thesis using assms by (auto simp: commit_fills_def touch_ledger_def save_state_def save_ledger_def sx_defs Let_def split: if_splits)
next
  case False
  then show ?thesis using assms
    by (auto simp: commit_fills_def commit_journal_fills_def save_ledger_def sx_bind_Inr sx_modify_def Let_def committed_state_def rbind_eq_Inr split: if_splits)
qed

lemma mark_recorded_result:
  assumes "mark_recorded ro fault committed through f = (r, f')"
  shows "(f' = f \<or> f' = Document (ledger_json (ro_codec ro) (committed\<lparr>ls_recorded := through\<rparr>)))
    \<and> (\<forall>l. r = Inr l \<longrightarrow> l = committed\<lparr>ls_recorded := through\<rparr>)"
proof -
  have mark: "(f' = f \<or> f' = Document (ledger_json (ro_codec ro) (committed\<lparr>ls_recorded := through\<rparr>)))
      \<and> (\<forall>l. r = Inr l \<longrightarrow> l = committed\<lparr>ls_recorded := through\<rparr>)"
    if "mark_fills_recorded (ro_codec ro) committed through f = (r, f')" for r f'
    using that by (auto simp: mark_fills_recorded_def save_state_def save_ledger_def sx_defs split: if_splits)
  show ?thesis
  proof (cases fault)
    case None
    then show ?thesis using assms mark by (simp add: mark_recorded_def)
  next
    case (Some replaced)
    obtain r1 f1 where "mark_fills_recorded (ro_codec ro) committed through f = (r1, f1)" by fastforce
    then show ?thesis using assms Some mark [of r1 f1] by (cases replaced; cases r1) (auto simp: mark_recorded_def sx_bind_def sx_return_def sx_raise_def)
  qed
qed

lemma all_evidenced_grow: "store_grow ro s t \<Longrightarrow> all_evidenced ro j l s \<Longrightarrow> all_evidenced ro j l t"
  using evidenced_grow unfolding all_evidenced_def by blast

lemma event_of_fields: "fv_fill_id (fill_event_of a f x) = Some (fill_ident (jf_fill_seq x))" "fv_timestamp (fill_event_of a f x) = jf_filled_at x"
    "fv_quantity_delta (fill_event_of a f x) = 0 \<longleftrightarrow> jf_quantity x = 0"
  by (simp_all add: fill_event_of_def Let_def)

text \<open>When both appends have returned, every fresh fill has its evidence.\<close>

lemma fresh_evidenced:
  assumes "append_fills (ro_month ro) faults (fill_events_from_journal attempts fallback fresh) (es_fills s) = (Inr u, fd)" "fills_ok (es_fills s)"
    and "suppresses_mutations (ro_mode ro) \<Longrightarrow> simulated_tax_records (mode_value (ro_mode ro)) (fill_events_from_journal attempts fallback fresh) = Inr records
      \<and> tr_record_id ` set records \<subseteq> tr_record_id ` dir_records (ro_codec ro) (es_tax t)"
    and "es_fills t = fd" "x \<in> set fresh" "jf_kind x \<noteq> ''operator_resync''"
  shows "evidenced ro x t"
proof -
  let ?ev = "fill_event_of attempts fallback x"
  have ev: "?ev \<in> set (fill_events_from_journal attempts fallback fresh)" using assms(5,6) by (simp add: fill_events_from_journal_def)
  have "Some (fill_ident (jf_fill_seq x)) \<in> fv_fill_id ` stored_rows fd (ro_month ro (jf_filled_at x))"
    using append_fills_stores [OF assms(1,2) ev event_of_fields(1)] by (simp add: event_of_fields)
  moreover have "''simulated:TRADE:'' @ fill_ident (jf_fill_seq x) \<in> tr_record_id ` dir_records (ro_codec ro) (es_tax t)"
    if "suppresses_mutations (ro_mode ro)" "jf_quantity x \<noteq> 0"
  proof -
    have sim: "simulated_tax_records (mode_value (ro_mode ro)) (fill_events_from_journal attempts fallback fresh) = Inr records"
      and sub: "tr_record_id ` set records \<subseteq> tr_record_id ` dir_records (ro_codec ro) (es_tax t)" using assms(3) that(1) by blast+
    from simulated_records_ids [OF sim ev] that(2) have "''simulated:TRADE:'' @ fill_ident (jf_fill_seq x) \<in> tr_record_id ` set records"
      by (simp add: event_of_fields)
    then show ?thesis by (rule subsetD [OF sub])
  qed
  ultimately show ?thesis using assms(4) by (simp add: evidenced_def)
qed

lemma sx_bind_val: "m s = (Inr x, t) \<Longrightarrow> sx_bind m f s = f x t"
  by (simp add: sx_bind_def)

lemma tax_step_total:
  obtains batch s2 where "(if track then sx_try (on_tax m) else sx_return x) s1 = (Inr batch, s2)"
proof (cases track)
  case True
  obtain r d where "m (es_tax s1) = (r, d)" by fastforce
  then show thesis using True that by (cases r) (simp_all add: sx_try_def on_tax_def)
qed (simp add: that sx_return_def)

lemma tax_step:
  assumes cod: "codec_ok (ro_codec ro)" "fixed_ok (ro_codec ro) (ro_fixed ro)"
    and dir: "dir_ok (ro_codec ro) (ro_month ro) (es_tax s1)" and faults: "fault_ok ro faults (es_tax s1)"
    and run: "(if suppresses_mutations (ro_mode ro) then sx_try (on_tax (append_simulated ro (ef_tax faults) events)) else sx_return (Some [])) s1 = (Inr batch, s2)"
  shows "es_fills s2 = es_fills s1 \<and> es_ledger s2 = es_ledger s1 \<and> dir_ok (ro_codec ro) (ro_month ro) (es_tax s2)
    \<and> dir_records (ro_codec ro) (es_tax s1) \<subseteq> dir_records (ro_codec ro) (es_tax s2)
    \<and> (\<forall>records. suppresses_mutations (ro_mode ro) \<and> batch = Some records \<longrightarrow> simulated_tax_records (mode_value (ro_mode ro)) events = Inr records
        \<and> tr_record_id ` set records \<subseteq> tr_record_id ` dir_records (ro_codec ro) (es_tax s2))"
proof (cases "suppresses_mutations (ro_mode ro)")
  case False
  then have "s2 = s1" using run by (simp add: sx_return_def)
  then show ?thesis using dir False by simp
next
  case True
  obtain res td where td: "append_simulated ro (ef_tax faults) events (es_tax s1) = (res, td)" by fastforce
  show ?thesis
  proof (cases res)
    case (Inl e)
    then have "batch = None" "s2 = s1\<lparr>es_tax := td\<rparr>" using run True td by (simp_all add: sx_try_def on_tax_def)
    then show ?thesis using append_simulated_raises [OF cod dir faults td [unfolded Inl]] by simp
  next
    case (Inr records)
    then have "batch = Some records" "s2 = s1\<lparr>es_tax := td\<rparr>" using run True td by (simp_all add: sx_try_def on_tax_def)
    then show ?thesis using append_simulated_ids [OF cod dir td [unfolded Inr]] by simp
  qed
qed

lemma record_fills_evidence:
  assumes cod: "codec_ok (ro_codec ro)" "fixed_ok (ro_codec ro) (ro_fixed ro)" and ok: "store_ok ro s" and faults: "fault_ok ro faults (es_tax s)"
    and before: "all_evidenced ro j committed s"
    and run: "record_fills ro faults j fallback fr sr cb base committed s = (r, s')"
  shows "store_grow ro s s' \<and> (\<forall>l x. r = Inr (l, x) \<longrightarrow> all_evidenced ro j l s')
    \<and> (es_ledger s' = es_ledger s \<or> (\<exists>l. es_ledger s' = Document (ledger_json (ro_codec ro) l) \<and> all_evidenced ro j l s'))"
proof -
  define fresh where "fresh = filter (\<lambda>x. jf_fill_seq x \<le> ls_applied committed) (fills_after_mem j (ls_recorded committed))"
  define events where "events = fill_events_from_journal (oj_attempts j) fallback fresh"
  note def = record_fills_def [of ro faults j fallback fr sr cb base committed, unfolded Let_def, folded fresh_def, folded events_def]
  have refl: "store_grow ro s s" using ok by (simp add: store_grow_def)
  show ?thesis
  proof (cases "fresh = []")
    case True
    then have "r = Inr (committed, None)" "s' = s" using run by (simp_all add: def sx_return_def)
    then show ?thesis using before refl by simp
  next
    case False
    obtain w fd where fd: "append_fills (ro_month ro) (ef_fills faults) events (es_fills s) = (w, fd)" by fastforce
    define s1 where "s1 = s\<lparr>es_fills := fd\<rparr>"
    have g1: "store_grow ro s s1"
      using sx_keepsD [OF append_fills_grows fd] ok by (auto simp: store_grow_def store_ok_def fills_grow_def s1_def)
    show ?thesis
    proof (cases w)
      case (Inl e)
      then have "r = Inr (committed, None)" "s' = s1" using run False fd by (simp_all add: def sx_bind_def sx_try_def on_fills_def sx_return_def s1_def)
      then show ?thesis using g1 all_evidenced_grow [OF g1 before] by (simp add: s1_def)
    next
      case (Inr u)
      have step: "sx_try (on_fills (append_fills (ro_month ro) (ef_fills faults) events)) s = (Inr (Some u), s1)"
        using fd Inr by (simp add: sx_try_def on_fills_def s1_def)
      obtain batch s2 where b: "(if suppresses_mutations (ro_mode ro) then sx_try (on_tax (append_simulated ro (ef_tax faults) events)) else sx_return (Some [])) s1
          = (Inr batch, s2)" by (rule tax_step_total)
      have t1: "dir_ok (ro_codec ro) (ro_month ro) (es_tax s1)" "fault_ok ro faults (es_tax s1)" using ok faults by (simp_all add: s1_def store_ok_def)
      note tax = tax_step [OF cod t1 b]
      have g2: "store_grow ro s1 s2" using tax g1 by (auto simp: store_grow_def store_ok_def)
      have g: "store_grow ro s s2" by (rule store_grow_trans [OF g1 g2])
      have rest: "(case batch of None \<Rightarrow> sx_return (committed, None)
             | Some records \<Rightarrow>
               sx_bind (sx_lift (if suppresses_mutations (ro_mode ro) then reconcile_batch ro base committed fresh records fr sr cb else Inr None)) (\<lambda>reconciliation.
               sx_bind (sx_try (on_ledger (mark_recorded ro (ef_mark faults) committed (jf_fill_seq (last fresh))))) (\<lambda>marked.
                 sx_return (case marked of None \<Rightarrow> committed | Some l \<Rightarrow> l, reconciliation)))) s2 = (r, s')"
        using run False
        by (simp add: def sx_bind_val [of "sx_try (on_fills (append_fills (ro_month ro) (ef_fills faults) events))", OF step]
            sx_bind_val [of "if suppresses_mutations (ro_mode ro) then sx_try (on_tax (append_simulated ro (ef_tax faults) events)) else sx_return (Some [])", OF b])
      show ?thesis
      proof (cases batch)
        case None
        then have "r = Inr (committed, None)" "s' = s2" using rest by (simp_all add: sx_return_def)
        then show ?thesis using g tax all_evidenced_grow [OF g before] by (simp add: s1_def)
      next
        case (Some records)
        have through: "all_evidenced ro j (committed\<lparr>ls_recorded := jf_fill_seq (last fresh)\<rparr>) s2"
          unfolding all_evidenced_def
        proof (intro ballI impI)
          fix x assume x: "x \<in> set (oj_fills j)" "jf_fill_seq x \<le> ls_recorded (committed\<lparr>ls_recorded := jf_fill_seq (last fresh)\<rparr>) \<and> jf_kind x \<noteq> ''operator_resync''"
          show "evidenced ro x s2"
          proof (cases "jf_fill_seq x \<le> ls_recorded committed")
            case True
            then show ?thesis using x all_evidenced_grow [OF g before] by (simp add: all_evidenced_def)
          next
            case recent: False
            have "last fresh \<in> set fresh" using False by simp
            then have "jf_fill_seq (last fresh) \<le> ls_applied committed" by (simp add: fresh_def)
            then have "x \<in> set fresh" using x recent by (simp add: fresh_def fills_after_mem_def)
            then show ?thesis
              using fresh_evidenced [OF fd [unfolded events_def Inr], where records = records and t = s2] x(2) ok tax Some by (auto simp: store_ok_def events_def s1_def)
          qed
        qed
        show ?thesis
        proof (cases "if suppresses_mutations (ro_mode ro) then reconcile_batch ro base committed fresh records fr sr cb else Inr None")
          case (Inl e)
          then have "r = Inl e" "s' = s2" using rest Some by (simp_all add: sx_bind_def sx_lift_def)
          then show ?thesis using g tax by (simp add: s1_def)
        next
          case (Inr recon)
          obtain m lf where m: "mark_recorded ro (ef_mark faults) committed (jf_fill_seq (last fresh)) (es_ledger s2) = (m, lf)" by fastforce
          note marked = mark_recorded_result [OF m]
          have s': "s' = s2\<lparr>es_ledger := lf\<rparr>" "r = Inr (case m of Inl _ \<Rightarrow> committed | Inr l \<Rightarrow> l, recon)"
            using rest Some Inr m by (auto simp: sx_bind_def sx_lift_def sx_try_def on_ledger_def sx_return_def split: sum.splits)
          have same: "all_evidenced ro j l s' = all_evidenced ro j l s2" "store_grow ro s s' = store_grow ro s s2" for l
            by (simp_all add: s' all_evidenced_def evidenced_def store_grow_def store_ok_def)
          show ?thesis using g through all_evidenced_grow [OF g before] marked tax
            by (cases m) (auto simp: same, auto simp: s' s1_def)
        qed
      qed
    qed
  qed
qed

lemma commit_fills_raises:
  assumes "commit_fills ro j equity executed base f = (Inl e, f')" shows "f' = f"
proof (cases "fills_after_mem j (ls_applied base) = []")
  case True
  then show ?thesis using assms by (auto simp: commit_fills_def touch_ledger_def save_state_def save_ledger_def sx_defs Let_def split: if_splits)
next
  case False
  then show ?thesis using assms
    by (auto simp: commit_fills_def commit_journal_fills_def save_ledger_def sx_defs Let_def split: if_splits sum.splits)
qed


section \<open>Without failures the evidence catches up\<close>

definition no_faults :: io_faults where "no_faults = \<lparr>ef_fills = (\<lambda>_. None), ef_tax = None, ef_mark = None\<rparr>"

definition tradable_fill :: "journal_fill \<Rightarrow> bool" where
  "tradable_fill x \<longleftrightarrow> jf_reason x \<in> set FILL_REASONS \<and> jf_liquidity x \<in> {''maker'', ''taker''} \<and> jf_symbol x \<noteq> [] \<and> 0 < jf_price x \<and> 0 \<le> jf_fee_bps x \<and> 0 \<le> jf_fill_seq x"

lemma journal_ident_fill: "0 \<le> n \<Longrightarrow> journal_ident (Some (fill_ident n)) = Some (nat n)"
  by (auto simp: journal_ident_def fill_ident_def str_int_def list_all_iff dest: str_nat_digits)

text \<open>The tax record of a fill.\<close>

definition fill_record :: "string \<Rightarrow> journal_fill \<Rightarrow> tax_record" where
  "fill_record mode x = (let q = (if jf_side x = ''BUY'' then jf_quantity x else dneg (jf_quantity x)); quote = dmul (dabs q) (jf_price x) in
     \<lparr>tr_record_id = ''simulated:TRADE:'' @ fill_ident (jf_fill_seq x), tr_kind = ''TRADE'', tr_event_time = jf_filled_at x, tr_symbol = jf_symbol x,
      tr_side = (if 0 < q then ''BUY'' else ''SELL''), tr_quantity = dabs q, tr_price = jf_price x, tr_quote_qty = quote,
      tr_fee = rnd28 (dmul quote (jf_fee_bps x) / 10000), tr_fee_asset = ''USDT'', tr_realized_pnl = 0, tr_income_asset = ''USDT'',
      tr_is_maker = (jf_liquidity x = ''maker''), tr_venue_id = jf_fill_seq x, tr_source = ''simulated'', tr_mode = mode, tr_income_type = [],
      tr_position_side = []\<rparr>)"

lemma simulated_record_fill:
  assumes "tradable_fill x"
  shows "simulated_record mode (fill_event_of a f x) = Inr (if jf_quantity x = 0 then None else Some (fill_record mode x))"
proof -
  have "journal_ident (Some (fill_ident (jf_fill_seq x))) = Some (nat (jf_fill_seq x))" using assms by (intro journal_ident_fill) (simp add: tradable_fill_def)
  then show ?thesis using assms
    by (simp add: simulated_record_def fill_event_of_def fill_record_def tradable_fill_def Let_def)
qed

lemma fill_record_valid:
  assumes "tradable_fill x" "jf_quantity x \<noteq> 0" "mode \<in> {mode_value PAPER, mode_value SHADOW}"
  shows "validate_tax_record (fill_record mode x) = Inr ()"
proof -
  define q where "q = (if jf_side x = ''BUY'' then jf_quantity x else dneg (jf_quantity x))"
  have q: "q \<noteq> 0" using assms(2) by (simp add: q_def)
  then have "0 \<le> dmul (dabs q) (jf_price x)" using dmul_pos [of "dabs q" "jf_price x"] assms(1) by (simp add: tradable_fill_def)
  then show ?thesis using q assms
    by (auto simp: fill_record_def Let_def validate_tax_record_def validate_trade_def TAX_RECORD_KINDS_def TRADE_SIDES_def TAX_SOURCE_MODES_def
        tradable_fill_def simp flip: q_def)
qed

lemma simulated_fills:
  assumes "\<forall>x \<in> set fresh. tradable_fill x \<or> jf_kind x = ''operator_resync''"
  shows "simulated_tax_records mode (fill_events_from_journal a f fresh) =
    Inr (sort_key tr_event_time (map (fill_record mode) (filter (\<lambda>x. jf_kind x \<noteq> ''operator_resync'' \<and> jf_quantity x \<noteq> 0) fresh)))"
proof -
  let ?xs = "filter (\<lambda>x. jf_kind x \<noteq> ''operator_resync'') fresh"
  have "rmap (simulated_record mode) (map (fill_event_of a f) ?xs) = Inr (map (\<lambda>x. if jf_quantity x = 0 then None else Some (fill_record mode x)) ?xs)"
    by (rule rmap_map) (use assms simulated_record_fill in auto)
  moreover have "List.map_filter (\<lambda>y. y) (map (\<lambda>x. if jf_quantity x = 0 then None else Some (fill_record mode x)) xs)
      = map (fill_record mode) (filter (\<lambda>x. jf_quantity x \<noteq> 0) xs)" for xs
    by (induction xs) (simp_all add: map_filter_simps)
  ultimately show ?thesis by (simp add: simulated_tax_records_def fill_events_from_journal_def conj_commute)
qed

lemma append_fills_returns:
  assumes "\<forall>x \<in> set fresh. tradable_fill x \<or> jf_kind x = ''operator_resync''"
  shows "\<exists>fd. append_fills month (\<lambda>_. None) (fill_events_from_journal a f fresh) dir = (Inr (), fd)"
proof -
  let ?events = "fill_events_from_journal a f fresh"
  have ok: "fv_reason ev \<in> set FILL_REASONS \<and> fv_liquidity ev \<in> {''maker'', ''taker''}" if "ev \<in> set ?events" for ev
    using assms that by (auto simp: fill_events_from_journal_def fill_event_of_def Let_def tradable_fill_def)
  have rows: "\<exists>rows. rmap event_to_row evs = Inr rows" if "set evs \<subseteq> set ?events" for evs
    using that by (induction evs) (use ok in \<open>auto simp: event_to_row_def rbind_def\<close>)
  have sub: "set (dedupe_batch seen evs) \<subseteq> set evs" for seen evs by (induction evs arbitrary: seen) (auto split: option.splits)
  have month: "\<exists>d'. append_month (\<lambda>_. None) (m, filter (\<lambda>ev. month (fv_timestamp ev) = m) ?events) d = (Inr (), d')" for m d
  proof -
    have "set (dedupe_batch [] (filter (\<lambda>ev. month (fv_timestamp ev) = m) ?events)) \<subseteq> set ?events" using sub by fastforce
    from rows [OF this] obtain rs where "rmap event_to_row (dedupe_batch [] (filter (\<lambda>ev. month (fv_timestamp ev) = m) ?events)) = Inr rs" by blast
    then show ?thesis by (simp add: append_month_run split: option.split)
  qed
  have "\<exists>d'. sx_foldM (\<lambda>m _. append_month (\<lambda>_. None) (m, filter (\<lambda>ev. month (fv_timestamp ev) = m) ?events)) ms () d = (Inr (), d')" for ms d
  proof (induction ms arbitrary: d)
    case (Cons m ms)
    obtain d1 where "append_month (\<lambda>_. None) (m, filter (\<lambda>ev. month (fv_timestamp ev) = m) ?events) d = (Inr (), d1)" using month by blast
    then show ?case using Cons [of d1] by (simp add: sx_bind_def)
  qed (simp add: sx_return_def)
  then show ?thesis using ok by (auto simp: append_fills_def)
qed

lemma rfold_total: "(\<And>x s. x \<in> set xs \<Longrightarrow> \<exists>t. f x s = Inr t) \<Longrightarrow> \<exists>t. rfold f xs s = Inr t"
proof (induction xs arbitrary: s)
  case (Cons x xs)
  obtain t where "f x s = Inr t" using Cons.prems by fastforce
  then show ?case using Cons.IH [of t] Cons.prems by simp
qed simp

lemma reconcile_total:
  assumes "\<forall>r \<in> set trades. \<exists>y. trade_flow r = Inr y" "\<forall>r \<in> set funding. tr_kind r = ''FUNDING_FEE''"
  shows "\<exists>x. reconcile_cycle_cash before after trades funding tolerance = Inr x"
proof -
  obtain y where y: "rfold (\<lambda>r x. if tr_kind r \<noteq> ''FUNDING_FEE'' then Inl ValueError else Inr (dadd x (tr_realized_pnl r))) funding 0 = Inr y"
    using rfold_total [of funding "\<lambda>r x. if tr_kind r \<noteq> ''FUNDING_FEE'' then Inl ValueError else Inr (dadd x (tr_realized_pnl r))" 0] assms(2) by auto
  obtain z where z: "rfold (\<lambda>r x. rbind (trade_flow r) (\<lambda>y. Inr (dadd x y))) trades y = Inr z"
    using rfold_total [of trades "\<lambda>r x. rbind (trade_flow r) (\<lambda>y. Inr (dadd x y))" y] assms(1) by force
  show ?thesis unfolding reconcile_cycle_cash_def y z rbind_Inr Let_def by blast
qed

lemma fill_record_flow: "\<exists>y. trade_flow (fill_record mode x) = Inr y"
  by (auto simp: trade_flow_def fill_record_def Let_def)

lemma append_simulated_returns:
  assumes cod: "codec_ok (ro_codec ro)" "fixed_ok (ro_codec ro) (ro_fixed ro)" and dir: "dir_ok (ro_codec ro) (ro_month ro) d"
    and fills: "\<forall>x \<in> set fresh. tradable_fill x \<or> jf_kind x = ''operator_resync''" and mode: "suppresses_mutations (ro_mode ro)"
  shows "\<exists>d'. append_simulated ro None (fill_events_from_journal a f fresh) d = (Inr (sort_key tr_event_time
    (map (fill_record (mode_value (ro_mode ro))) (filter (\<lambda>x. jf_kind x \<noteq> ''operator_resync'' \<and> jf_quantity x \<noteq> 0) fresh))), d')"
proof -
  define records where "records = sort_key tr_event_time (map (fill_record (mode_value (ro_mode ro))) (filter (\<lambda>x. jf_kind x \<noteq> ''operator_resync'' \<and> jf_quantity x \<noteq> 0) fresh))"
  have sim: "simulated_tax_records (mode_value (ro_mode ro)) (fill_events_from_journal a f fresh) = Inr records" using simulated_fills [OF fills] by (simp add: records_def)
  have "mode_value (ro_mode ro) \<in> {mode_value PAPER, mode_value SHADOW}" using mode by (auto simp: suppresses_mutations_def)
  then have valid: "\<forall>r \<in> set records. validate_tax_record r = Inr ()" using fill_record_valid fills by (auto simp: records_def)
  obtain written d' where "append_tax_records (ro_codec ro) (ro_fixed ro) (ro_month ro) records d = (Inr written, d')"
    by (rule append_ok [OF cod dir valid]) (rule that)
  then show ?thesis unfolding records_def [symmetric] using sim by (cases "records = []") (auto simp: append_simulated_def sx_defs)
qed

lemma record_without_faults:
  assumes "codec_ok (ro_codec ro)" and "fixed_ok (ro_codec ro) (ro_fixed ro)" and "store_ok ro s"
    and "map jf_fill_seq (oj_fills j) = [0..int (length (oj_fills j)) - 1]" and "\<forall>x \<in> set (oj_fills j). tradable_fill x \<or> jf_kind x = ''operator_resync''"
    and "commit_fills ro j equity executed base (es_ledger s) = (Inr committed, f)"
    and "- 1 \<le> ls_recorded committed" and "ls_recorded committed \<le> ls_applied committed" and "ls_applied committed < int (length (oj_fills j))"
    and "\<forall>r \<in> set funding. tr_kind r = ''FUNDING_FEE''" and "\<forall>r \<in> set settlements. \<exists>y. trade_flow r = Inr y"
  shows "\<exists>l recon s'. commit_and_record ro no_faults j fallback equity executed funding settlements cash_before base s = (Inr (l, recon), s')
    \<and> ls_applied l = ls_applied committed \<and> ls_recorded l = ls_applied l
    \<and> (filter (\<lambda>x. jf_fill_seq x \<le> ls_applied committed) (fills_after_mem j (ls_recorded committed)) \<noteq> [] \<and> suppresses_mutations (ro_mode ro) \<longrightarrow>
        reconcile_batch ro base committed (filter (\<lambda>x. jf_fill_seq x \<le> ls_applied committed) (fills_after_mem j (ls_recorded committed)))
          (sort_key tr_event_time (map (fill_record (mode_value (ro_mode ro)))
            (filter (\<lambda>x. jf_kind x \<noteq> ''operator_resync'' \<and> jf_quantity x \<noteq> 0)
              (filter (\<lambda>x. jf_fill_seq x \<le> ls_applied committed) (fills_after_mem j (ls_recorded committed))))))
          funding settlements cash_before = Inr recon)"
proof -
  define fresh where "fresh = filter (\<lambda>x. jf_fill_seq x \<le> ls_applied committed) (fills_after_mem j (ls_recorded committed))"
  let ?recs = "sort_key tr_event_time (map (fill_record (mode_value (ro_mode ro))) (filter (\<lambda>x. jf_kind x \<noteq> ''operator_resync'' \<and> jf_quantity x \<noteq> 0) fresh))"
  let ?s = "s\<lparr>es_ledger := f\<rparr>" and ?events = "fill_events_from_journal (oj_attempts j) fallback fresh"
  note def = record_fills_def [of ro no_faults j fallback funding settlements cash_before base committed, unfolded Let_def, folded fresh_def]
  have start: "commit_and_record ro no_faults j fallback equity executed funding settlements cash_before base s
      = record_fills ro no_faults j fallback funding settlements cash_before base committed ?s"
    using assms(6) by (simp add: commit_and_record_def sx_bind_def on_ledger_def)
  have seqs: "map jf_fill_seq fresh = [ls_recorded committed + 1..ls_applied committed]"
  proof -
    have "map jf_fill_seq fresh = filter (\<lambda>n. ls_recorded committed < n \<and> n \<le> ls_applied committed) (map jf_fill_seq (oj_fills j))"
      by (simp add: fresh_def fills_after_mem_def filter_map comp_def conj_commute)
    also have "\<dots> = [ls_recorded committed + 1..ls_applied committed]"
      by (rule sorted_distinct_set_unique) (use assms(7,9) in \<open>auto simp: assms(4) sorted_wrt_filter\<close>)
    finally show ?thesis .
  qed
  show ?thesis
  proof (cases "fresh = []")
    case True
    then have "record_fills ro no_faults j fallback funding settlements cash_before base committed ?s = (Inr (committed, None), ?s)"
      by (simp add: def sx_return_def)
    moreover have "ls_recorded committed = ls_applied committed" using True seqs assms(8) by simp
    ultimately show ?thesis unfolding start fresh_def [symmetric] using True by simp
  next
    case False
    have tr: "\<forall>x \<in> set fresh. tradable_fill x \<or> jf_kind x = ''operator_resync''" using assms(5) by (auto simp: fresh_def fills_after_mem_def)
    have last_seq: "jf_fill_seq (last fresh) = ls_applied committed"
    proof -
      have "jf_fill_seq (last fresh) = last (map jf_fill_seq fresh)" using False by (simp add: last_map)
      moreover have "ls_recorded committed + 1 \<le> ls_applied committed" using seqs False by (metis map_is_Nil_conv upto_empty linorder_not_less)
      ultimately show ?thesis by (simp add: seqs upto_rec2)
    qed
    obtain fd where fd: "append_fills (ro_month ro) (ef_fills no_faults) ?events (es_fills ?s) = (Inr (), fd)"
      using append_fills_returns [OF tr, of "ro_month ro" "oj_attempts j" fallback "es_fills ?s"] by (auto simp: no_faults_def)
    have step: "sx_try (on_fills (append_fills (ro_month ro) (ef_fills no_faults) ?events)) ?s = (Inr (Some ()), ?s\<lparr>es_fills := fd\<rparr>)"
      using fd by (simp add: sx_try_def on_fills_def)
    obtain records s2 where b: "(if suppresses_mutations (ro_mode ro) then sx_try (on_tax (append_simulated ro (ef_tax no_faults) ?events)) else sx_return (Some []))
        (?s\<lparr>es_fills := fd\<rparr>) = (Inr (Some records), s2)" "\<forall>r \<in> set records. \<exists>y. trade_flow r = Inr y" "suppresses_mutations (ro_mode ro) \<Longrightarrow> records = ?recs"
    proof (cases "suppresses_mutations (ro_mode ro)")
      case True
      have dir: "dir_ok (ro_codec ro) (ro_month ro) (es_tax (?s\<lparr>es_fills := fd\<rparr>))" using assms(3) by (simp add: store_ok_def)
      from append_simulated_returns [OF assms(1,2) dir tr True] obtain d' where
        d': "append_simulated ro None ?events (es_tax s) = (Inr (sort_key tr_event_time
          (map (fill_record (mode_value (ro_mode ro))) (filter (\<lambda>x. jf_kind x \<noteq> ''operator_resync'' \<and> jf_quantity x \<noteq> 0) fresh))), d')" by auto
      show thesis by (rule that) (use True d' fill_record_flow in \<open>auto simp: no_faults_def sx_try_def on_tax_def\<close>)
    qed (simp add: that sx_return_def)
    obtain recon where recon: "(if suppresses_mutations (ro_mode ro) then reconcile_batch ro base committed fresh records funding settlements cash_before else Inr None) = Inr recon"
    proof (cases "suppresses_mutations (ro_mode ro)")
      case True
      have "\<exists>x. reconcile_cycle_cash x1 x2 (filter P records @ settlements) funding x3 = Inr x" for x1 x2 x3 P
        by (rule reconcile_total) (use b(2) assms(10,11) in auto)
      then have "\<exists>x. reconcile_batch ro base committed fresh records funding settlements cash_before = Inr x"
        unfolding reconcile_batch_def Let_def by (simp add: rbind_eq_Inr split: option.split)
      then show thesis using that True by auto
    qed (simp add: that)
    have mark: "sx_try (on_ledger (mark_recorded ro (ef_mark no_faults) committed (jf_fill_seq (last fresh)))) s2
        = (Inr (Some (committed\<lparr>ls_recorded := ls_applied committed\<rparr>)), s2\<lparr>es_ledger := snd (mark_fills_recorded (ro_codec ro) committed (ls_applied committed) (es_ledger s2))\<rparr>)"
      using assms(8) by (auto simp: last_seq no_faults_def mark_recorded_def mark_fills_recorded_def save_state_def save_ledger_def sx_defs sx_try_def on_ledger_def)
    have "record_fills ro no_faults j fallback funding settlements cash_before base committed ?s
        = (Inr (committed\<lparr>ls_recorded := ls_applied committed\<rparr>, recon), s2\<lparr>es_ledger := snd (mark_fills_recorded (ro_codec ro) committed (ls_applied committed) (es_ledger s2))\<rparr>)"
      using False
      by (simp add: def sx_bind_val [of "sx_try (on_fills (append_fills (ro_month ro) (ef_fills no_faults) ?events))", OF step]
          sx_bind_val [of "if suppresses_mutations (ro_mode ro) then sx_try (on_tax (append_simulated ro (ef_tax no_faults) ?events)) else sx_return (Some [])", OF b(1)]
          recon sx_lift_def sx_bind_val [of "sx_try (on_ledger (mark_recorded ro (ef_mark no_faults) committed (jf_fill_seq (last fresh))))", OF mark]
          sx_bind_val [of "\<lambda>s. (Inr recon, s)" _ recon, OF refl] sx_return_def)
    then show ?thesis unfolding start fresh_def [symmetric] using recon b(3) by auto
  qed
qed


text \<open>
  C23: without failures the evidence catches up.  When the commit has returned and the fills of the journal
  are tradable or operator corrections, the call returns, and the recorded watermark of the ledger it
  returns is the applied one: nothing stays without evidence.
\<close>

theorem evidence_catches_up:
  assumes "codec_ok (ro_codec ro)" and "fixed_ok (ro_codec ro) (ro_fixed ro)" and "store_ok ro s"
    and "map jf_fill_seq (oj_fills j) = [0..int (length (oj_fills j)) - 1]" and "\<forall>x \<in> set (oj_fills j). tradable_fill x \<or> jf_kind x = ''operator_resync''"
    and "commit_fills ro j equity executed base (es_ledger s) = (Inr committed, f)"
    and "- 1 \<le> ls_recorded committed" and "ls_recorded committed \<le> ls_applied committed" and "ls_applied committed < int (length (oj_fills j))"
    and "\<forall>r \<in> set funding. tr_kind r = ''FUNDING_FEE''" and "\<forall>r \<in> set settlements. \<exists>y. trade_flow r = Inr y"
  shows "\<exists>l recon s'. commit_and_record ro no_faults j fallback equity executed funding settlements cash_before base s = (Inr (l, recon), s')
    \<and> ls_applied l = ls_applied committed \<and> ls_recorded l = ls_applied l"
  using record_without_faults [OF assms, of fallback cash_before] by blast

section \<open>The cash of a batch is explained\<close>

definition fill_flow :: "journal_fill \<Rightarrow> decimal" where
  "fill_flow x = fill_cash_delta (jf_side x) (jf_quantity x) (jf_price x) (jf_fee_bps x)"

lemma rnd28_dmul [simp]: "rnd28 (dmul a b) = dmul a b" "rnd28 (- dmul a b) = - dmul a b"
  by (simp_all add: dmul_def d28.rnd_idem d28.rnd_minus)

lemma dmul_minus: "dmul (- a) b = - dmul a b"
  by (simp add: dmul_def d28.rnd_minus)

text \<open>The tax record of a fill moves the cash that the ledger books for it.\<close>

lemma fill_record_cash:
  assumes "tradable_fill x" "jf_side x \<in> {''BUY'', ''SELL''}" "0 < jf_quantity x" "exact28 (jf_quantity x)"
  shows "trade_flow (fill_record mode x) = Inr (fill_flow x)"
proof -
  let ?q = "jf_quantity x" and ?p = "jf_price x"
  have quote: "0 < dmul ?q ?p" using assms by (intro dmul_pos) (auto simp: tradable_fill_def)
  have exact: "dneg ?q = - ?q" "dabs ?q = ?q" "dabs (- ?q) = ?q" "dabs (dmul ?q ?p) = dmul ?q ?p" "dneg (- ?q) = ?q" "dneg (dmul ?q ?p) = - dmul ?q ?p"
    using assms(3,4) quote by (simp_all add: dneg_exact dabs_exact dabs_def dneg_def d28.rnd_abs d28.rnd_exact d28.rnd_minus)
  show ?thesis
  proof (cases "jf_side x = ''BUY''")
    case True
    then show ?thesis using assms(3) exact by (simp add: trade_flow_def fill_record_def fill_flow_def fill_cash_delta_def Let_def dmul_minus)
  next
    case False
    then have "jf_side x = ''SELL''" using assms(2) by simp
    then show ?thesis using assms(3) exact by (simp add: trade_flow_def fill_record_def fill_flow_def fill_cash_delta_def Let_def)
  qed
qed

text \<open>Amounts on one decimal grid whose sum has at most 28 digits: no addition rounds.\<close>

definition on_grid :: "int \<Rightarrow> decimal \<Rightarrow> bool" where
  "on_grid e x \<longleftrightarrow> (\<exists>m. x = of_int m * pow10 e)"

definition fits :: "decimal list \<Rightarrow> bool" where
  "fits xs \<longleftrightarrow> (\<exists>e. (\<forall>x \<in> set xs. on_grid e x) \<and> sum_list (map abs xs) < 10 ^ 28 * pow10 e)"

lemma on_grid_add: "on_grid e a \<Longrightarrow> on_grid e b \<Longrightarrow> on_grid e (a + b)"
  unfolding on_grid_def by (metis distrib_right of_int_add)

lemma on_grid_exact: "on_grid e x \<Longrightarrow> \<bar>x\<bar> < 10 ^ 28 * pow10 e \<Longrightarrow> exact28 x"
proof -
  assume "on_grid e x" and small: "\<bar>x\<bar> < 10 ^ 28 * pow10 e"
  then obtain m where m: "x = of_int m * pow10 e" by (auto simp: on_grid_def)
  have "of_int \<bar>m\<bar> * pow10 e < of_int (10 ^ 28) * pow10 e" using small by (simp add: m abs_mult)
  then have "of_int \<bar>m\<bar> < (of_int (10 ^ 28) :: rat)" by (rule mult_right_less_imp_less) (simp add: less_imp_le)
  then have "\<bar>m\<bar> < 10 ^ 28" by (simp only: of_int_less_iff)
  then show ?thesis by (rule exact28_scaled [OF _ m])
qed

lemma foldl_dadd_grid:
  assumes "on_grid e a" "\<forall>x \<in> set xs. on_grid e x" "\<bar>a\<bar> + sum_list (map abs xs) < 10 ^ 28 * pow10 e"
  shows "foldl dadd a xs = a + sum_list xs \<and> exact28 (a + sum_list xs) \<and> on_grid e (a + sum_list xs)"
  using assms
proof (induction xs arbitrary: a)
  case Nil
  then show ?case using on_grid_exact [of e a] by simp
next
  case (Cons x xs)
  have tri: "\<bar>a + x\<bar> \<le> \<bar>a\<bar> + \<bar>x\<bar>" by (rule abs_triangle_ineq)
  have "0 \<le> sum_list (map abs xs)" by (rule sum_list_nonneg) auto
  then have small: "\<bar>a + x\<bar> < 10 ^ 28 * pow10 e" "\<bar>a + x\<bar> + sum_list (map abs xs) < 10 ^ 28 * pow10 e"
    using Cons.prems(3) tri unfolding list.map sum_list.Cons by linarith+
  have grid: "on_grid e (a + x)" using Cons.prems by (intro on_grid_add) auto
  have "dadd a x = a + x" using on_grid_exact [OF grid small(1)] by (simp add: dadd_def d28.rnd_exact)
  then show ?case using Cons.IH [OF grid _ small(2)] Cons.prems(2) by (simp add: add.assoc)
qed

lemma fold_cash:
  "snd (fold (book_step True) xs v) = map_option (\<lambda>cash. foldl dadd cash (map fill_flow (filter (\<lambda>x. jf_kind x \<noteq> ''operator_resync'') xs))) (snd v)"
proof (induction xs arbitrary: v)
  case (Cons x xs)
  show ?case using Cons [of "book_step True x v"] by (cases "snd v") (auto simp: book_step_def Let_def fill_flow_def)
qed (simp add: option.map_ident)

lemma rfold_flows:
  "\<forall>x \<in> set xs. trade_flow (g x) = Inr (h x) \<Longrightarrow> rfold (\<lambda>r x. rbind (trade_flow r) (\<lambda>y. Inr (dadd x y))) (map g xs) s = Inr (foldl dadd s (map h xs))"
  by (induction xs arbitrary: s) auto

lemma reconcile_fills:
  assumes flows: "\<forall>x \<in> set xs. trade_flow (g x) = Inr (h x)" and perm: "mset ys = mset xs" and fits: "fits (cash # map h xs)"
    and after: "after = foldl dadd cash (map h xs)" and tolerance: "0 \<le> tolerance"
  shows "\<exists>r. reconcile_cycle_cash cash after (map g ys) [] tolerance = Inr r \<and> cr_difference r = 0 \<and> cr_within_tolerance r"
proof -
  from fits obtain e where grid: "on_grid e cash" "\<forall>x \<in> set (map h xs). on_grid e x" "\<bar>cash\<bar> + sum_list (map abs (map h xs)) < 10 ^ 28 * pow10 e"
    by (auto simp: fits_def)
  have same: "set ys = set xs" "sum_list (map h ys) = sum_list (map h xs)" "sum_list (map abs (map h ys)) = sum_list (map abs (map h xs))"
    using perm mset_eq_setD [OF perm] by (simp, metis mset_map sum_mset_sum_list, metis mset_map sum_mset_sum_list)
  have zero: "on_grid e 0" unfolding on_grid_def by (rule exI [of _ 0]) simp
  have total: "foldl dadd cash (map h xs) = cash + sum_list (map h xs)" using foldl_dadd_grid [OF grid] by blast
  have expected: "foldl dadd 0 (map h ys) = sum_list (map h xs) \<and> exact28 (sum_list (map h xs))"
    using foldl_dadd_grid [OF zero, of "map h ys"] grid(2,3) same abs_ge_zero [of cash] by simp
  have "rfold (\<lambda>r x. rbind (trade_flow r) (\<lambda>y. Inr (dadd x y))) (map g ys) 0 = Inr (sum_list (map h xs))"
    using rfold_flows [of ys g h 0] flows same(1) expected by simp
  moreover have "dsub after cash = sum_list (map h xs)" using expected by (simp add: after total dsub_def d28.rnd_exact)
  ultimately show ?thesis using tolerance by (simp add: reconcile_cycle_cash_def Let_def)
qed

lemma sort_key_map: "sort_key k (map g xs) = map g (sort_key (k \<circ> g) xs)"
proof -
  have insort: "insort_key k (g x) (map g ys) = map g (insort_key (\<lambda>x. k (g x)) x ys)" for x ys by (induction ys) auto
  show ?thesis unfolding comp_def by (induction xs) (simp_all add: insort)
qed

definition bookable :: "journal_fill \<Rightarrow> bool" where
  "bookable x \<longleftrightarrow> tradable_fill x \<and> jf_side x \<in> {''BUY'', ''SELL''} \<and> 0 < jf_quantity x \<and> exact28 (jf_quantity x)"

text \<open>
  The paper cash is explained to the last digit.  When the fills above the watermark are committed and
  recorded without failure, and the cash and its movements lie on one decimal grid within 28 digits, the
  reconciliation of the simulated tax records with the change of the ledger's cash has difference zero.
\<close>

theorem paper_cash_reconciles:
  assumes "codec_ok (ro_codec ro)" and "fixed_ok (ro_codec ro) (ro_fixed ro)" and "store_ok ro s" and "suppresses_mutations (ro_mode ro)" and "0 \<le> ro_tolerance ro"
    and "seq_ok j" and "\<forall>x \<in> set (oj_fills j). bookable x \<or> jf_kind x = ''operator_resync''"
    and "ls_cash_usdt base = Some cash" and "ls_recorded base = ls_applied base" and "- 1 \<le> ls_applied base" and "ls_applied base < oj_next_fill_seq j - 1"
    and "commit_fills ro j equity executed base (es_ledger s) = (Inr committed, f)"
    and "fits (cash # map fill_flow (filter (\<lambda>x. ls_applied base < jf_fill_seq x \<and> jf_kind x \<noteq> ''operator_resync'') (oj_fills j)))"
  shows "\<exists>l recon s'. commit_and_record ro no_faults j fallback equity executed [] [] None base s = (Inr (l, Some recon), s')
    \<and> cr_difference recon = 0 \<and> cr_within_tolerance recon"
proof -
  define P where "P = filter (\<lambda>x. ls_applied base < jf_fill_seq x) (oj_fills j)"
  define opts where "opts = \<lparr>co_equity = equity, co_track_cash = suppresses_mutations (ro_mode ro), co_starting_capital = ro_starting_capital ro, co_executed_decision_time = executed\<rparr>"
  note seqs = pending_fills_after [OF assms(6,10), folded P_def]
  have after: "fills_after_mem j (ls_applied base) = P" by (simp add: P_def fills_after_mem_def)
  have "P \<noteq> []" using seqs(2) assms(11) by auto
  then have com: "committed_state opts base P = Inr committed"
    using assms(12) seqs(1) by (simp add: commit_fills_def after commit_cases opts_def split: sum.splits)
  note res = committed_state_result [OF com \<open>P \<noteq> []\<close>]
  have upto: "oj_next_fill_seq j - 1 = ls_applied committed"
    using res(1) seqs(2) assms(11) by (metis upto_same_lower zless_add1_eq less_le_not_le add.commute linorder_not_less zle_add1_eq_le)
  have numbers: "map jf_fill_seq (oj_fills j) = [0..int (length (oj_fills j)) - 1]" "ls_applied committed < int (length (oj_fills j))"
  proof -
    have m: "map jf_fill_seq (oj_fills j) = [0..oj_next_fill_seq j - 1]" using assms(6) by (simp add: seq_ok_def)
    then have "length (oj_fills j) = nat (oj_next_fill_seq j)" by (metis length_map length_upto diff_add_cancel diff_zero)
    then have "int (length (oj_fills j)) = oj_next_fill_seq j" using assms(10,11) by simp
    then show "map jf_fill_seq (oj_fills j) = [0..int (length (oj_fills j)) - 1]" "ls_applied committed < int (length (oj_fills j))" using m upto by simp_all
  qed
  have tr: "\<forall>x \<in> set (oj_fills j). tradable_fill x \<or> jf_kind x = ''operator_resync''" using assms(7) by (auto simp: bookable_def)
  have fresh: "filter (\<lambda>x. jf_fill_seq x \<le> ls_applied committed) (fills_after_mem j (ls_recorded committed)) = P"
  proof -
    have "jf_fill_seq x \<le> ls_applied committed" if "x \<in> set P" for x
    proof -
      have "jf_fill_seq x \<in> set (map jf_fill_seq P)" using that by simp
      then show ?thesis unfolding res(1) by simp
    qed
    then show ?thesis using res(3) assms(9) by (simp add: after)
  qed
  define xs where "xs = filter (\<lambda>x. jf_kind x \<noteq> ''operator_resync'') P"
  have book: "\<forall>x \<in> set xs. bookable x" using assms(7) by (auto simp: xs_def P_def)
  have cash: "ls_cash_usdt committed = Some (foldl dadd cash (map fill_flow xs))"
  proof -
    from com assms(4,8) obtain b where b: "rfold (apply_journal_fill True) P (ls_positions base, Some cash) = Inr b" "ls_cash_usdt committed = snd b"
      by (auto simp: committed_state_def opts_def Let_def rbind_eq_Inr split: if_splits)
    from arg_cong [OF rfold_book [OF b(1)], of snd] show ?thesis by (simp add: b(2) book_of_def fold_cash xs_def)
  qed
  have qty: "filter (\<lambda>x. jf_kind x \<noteq> ''operator_resync'' \<and> jf_quantity x \<noteq> 0) P = xs"
    unfolding xs_def by (rule filter_cong [OF refl]) (use assms(7) in \<open>auto simp: P_def bookable_def\<close>)
  let ?mode = "mode_value (ro_mode ro)"
  have records: "sort_key tr_event_time (map (fill_record ?mode) xs) = map (fill_record ?mode) (sort_key (tr_event_time \<circ> fill_record ?mode) xs)" by (rule sort_key_map)
  have flows: "\<forall>x \<in> set xs. trade_flow (fill_record ?mode x) = Inr (fill_flow x)" using book fill_record_cash by (auto simp: bookable_def)
  have fit: "fits (cash # map fill_flow xs)" using assms(13) by (simp add: xs_def P_def conj_commute)
  from reconcile_fills [OF flows _ fit refl assms(5)] obtain recon where
    recon: "reconcile_cycle_cash cash (foldl dadd cash (map fill_flow xs)) (map (fill_record ?mode) (sort_key (tr_event_time \<circ> fill_record ?mode) xs)) [] (ro_tolerance ro) = Inr recon"
      "cr_difference recon = 0" "cr_within_tolerance recon" by (metis mset_sort)
  have none: "filter (\<lambda>x. jf_fill_seq x \<le> ls_applied base) P = []" by (auto simp: P_def filter_empty_conv)
  have batch: "reconcile_batch ro base committed P (sort_key tr_event_time (map (fill_record ?mode) xs)) [] [] None = Inr (Some recon)"
    by (simp add: reconcile_batch_def assms(8) cash none records recon(1))
  have bounds: "- 1 \<le> ls_recorded committed" "ls_recorded committed \<le> ls_applied committed" using res(3,4) assms(9,10) by simp_all
  from record_without_faults [OF assms(1-3) numbers(1) tr assms(12) bounds numbers(2), of "[]" "[]" fallback None]
  obtain l r s' where "commit_and_record ro no_faults j fallback equity executed [] [] None base s = (Inr (l, r), s')"
    "reconcile_batch ro base committed P (sort_key tr_event_time (map (fill_record ?mode) xs)) [] [] None = Inr r"
    using assms(4) \<open>P \<noteq> []\<close> unfolding fresh qty by auto
  then show ?thesis using batch recon by auto
qed

section \<open>A paper cycle\<close>

definition paper_fill :: journal_fill where "paper_fill = (example_journal_fill 0)\<lparr>jf_reason := ''immediate_taker''\<rparr>"

definition paper_journal :: order_journal where "paper_journal = empty_journal\<lparr>oj_fills := [paper_fill], oj_next_fill_seq := 1\<rparr>"

definition paper_base :: ledger_state where "paper_base = empty_ledger\<lparr>ls_cash_usdt := Some 1000\<rparr>"

definition paper_options :: record_options where
  "paper_options = \<lparr>ro_codec = plain_codec, ro_fixed = tally_rat, ro_month = plain_month, ro_mode = PAPER, ro_starting_capital = 1000, ro_tolerance = 0\<rparr>"

definition paper_store :: evidence_store where "paper_store = \<lparr>es_ledger = Missing, es_fills = [], es_tax = []\<rparr>"

definition paper_attempt :: journal_attempt where
  "paper_attempt = \<lparr>ja_attempt_seq = 0, ja_decision_time = 0, ja_run_id = ''r'', ja_mode = ''paper'', ja_pre_trade_equity = 1000, ja_sizing_anchor = ''book_mid'',
     ja_decision_marks = [], ja_started_at = 0\<rparr>"

lemma paper_facts:
  "codec_ok (ro_codec paper_options)" "fixed_ok (ro_codec paper_options) (ro_fixed paper_options)" "store_ok paper_options paper_store"
  "seq_ok paper_journal" "bookable paper_fill" "oj_fills paper_journal = [paper_fill]" "jf_fill_seq paper_fill = 0"
  "ls_applied paper_base = - 1" "ls_recorded paper_base = - 1"
  by (simp_all add: paper_options_def plain_codec_ok tally_fixed_ok store_ok_def paper_store_def fills_ok_def dir_ok_def paper_journal_def seq_ok_def empty_journal_def
      paper_fill_def example_journal_fill_def bookable_def tradable_fill_def FILL_REASONS_def fill_ok_def SIDES_def LIQUIDITY_def FILL_KINDS_def paper_base_def empty_ledger_def upto.simps)

lemma paper_commit:
  obtains committed f where "commit_fills paper_options paper_journal None None paper_base (es_ledger paper_store) = (Inr committed, f)"
    "ls_applied committed = 0" "ls_recorded committed = - 1"
proof -
  let ?opts = "\<lparr>co_equity = None, co_track_cash = True, co_starting_capital = 1000, co_executed_decision_time = None\<rparr>"
  have pending: "fills_after_mem paper_journal (- 1) = [paper_fill]" "pending_fills paper_base [paper_fill] = [paper_fill]"
    by (simp_all add: fills_after_mem_def pending_fills_def paper_facts)
  have ok: "list_all fill_ok [paper_fill]" using paper_facts(4,6) by (simp add: seq_ok_def)
  obtain committed where c: "committed_state ?opts paper_base [paper_fill] = Inr committed"
    using committed_state_total [OF ok, of paper_base 0 ?opts] by (auto simp: paper_facts)
  have run: "commit_fills paper_options paper_journal None None paper_base (es_ledger paper_store) = (Inr committed, Document (ledger_json plain_codec committed))"
    using c pending by (simp add: commit_fills_def paper_facts(8) commit_cases) (simp add: paper_options_def suppresses_mutations_def)
  show thesis
  proof (rule that [OF run])
    have "[0] = [0..ls_applied committed]" using committed_state_result(1) [OF c] by (simp add: paper_facts)
    then show "ls_applied committed = 0" by (metis upto_same_lower upto_single order_refl)
    show "ls_recorded committed = - 1" using committed_state_result(3) [OF c] by (simp add: paper_facts)
  qed
qed


theorem evidence_catches_up_witness:
  "\<exists>l recon s'. commit_and_record paper_options no_faults paper_journal paper_attempt None None [] [] None paper_base paper_store = (Inr (l, recon), s')
     \<and> ls_recorded l = 0"
proof -
  obtain committed f where c: "commit_fills paper_options paper_journal None None paper_base (es_ledger paper_store) = (Inr committed, f)"
    "ls_applied committed = 0" "ls_recorded committed = - 1" by (rule paper_commit)
  show ?thesis
    using evidence_catches_up [OF paper_facts(1-3) _ _ c(1), of "[]" "[]" paper_attempt None] c(2,3) paper_facts by (auto simp: bookable_def)
qed

theorem paper_cash_reconciles_witness:
  "\<exists>l recon s'. commit_and_record paper_options no_faults paper_journal paper_attempt None None [] [] None paper_base paper_store = (Inr (l, Some recon), s')
     \<and> cr_difference recon = 0 \<and> cr_within_tolerance recon"
proof -
  obtain committed f where c: "commit_fills paper_options paper_journal None None paper_base (es_ledger paper_store) = (Inr committed, f)" by (rule paper_commit)
  have kind: "jf_kind paper_fill = ''execution''" by (simp add: paper_fill_def example_journal_fill_def)
  have flow: "fill_flow paper_fill = - 5"
    by (simp add: fill_flow_def paper_fill_def example_journal_fill_def fill_cash_delta_def Let_def dneg_exact dmul_def dsub_def dabs_def d28.rnd_0 d28.rnd_minus
        d28.rnd_exact exact28_numeral)
  have fit: "fits (1000 # map fill_flow (filter (\<lambda>x. ls_applied paper_base < jf_fill_seq x \<and> jf_kind x \<noteq> ''operator_resync'') (oj_fills paper_journal)))"
    unfolding fits_def by (rule exI [of _ 0]) (auto simp: paper_facts kind flow on_grid_def intro: exI [of _ 1000] exI [of _ "- 5"])
  show ?thesis
    using paper_cash_reconciles [OF paper_facts(1-3) _ _ paper_facts(4) _ _ _ _ _ c fit, of paper_attempt]
    by (auto simp: paper_facts) (simp_all add: paper_options_def suppresses_mutations_def paper_base_def paper_journal_def paper_facts)
qed

end
