(* ===== verification/Alert_Outbox.thy ===== *)
theory Alert_Outbox
  imports Json "HOL-Library.Sublist"
begin

text \<open>
  The durable alert outbox (src/src/live/alert_outbox.py) and the alert dispatch in front of it
  (src/src/live/alerting.py): a queue of alerts in one JSON document that the daemon, its heartbeat
  thread and the liveness checker share under a file lock.

  \<^item> an alert is an \<open>alert_record\<close>; a \<open>frozenset\<close> of channels is its sorted list without repetition;
  \<^item> every critical section is a function on the \<open>outbox_disk\<close> that also takes what the file system
    does in it (\<open>outbox_io\<close>): the lock may fail, the read may fail, the write may fail before or after
    the new document is in place;
  \<^item> \<open>drain\<close> is three critical sections with the deliveries between the first two, outside the lock,
    so that the steps of other processes may come between them; the step relation \<open>outbox_run\<close> does that;
  \<^item> seconds are the exact values of the floats (doubling is exact); what the code takes from pandas, the
    text and day of an instant and the conversion between seconds and nanoseconds, are fields of \<open>outbox\<close>.
\<close>

section \<open>Severities\<close>

text \<open>The events of the registry with their severity labels; titles, colours and texts are left out.\<close>

definition EVENT_INFO :: "(string, string) dict" where
  "EVENT_INFO = [
    (''halt_streak'', ''CRITICAL''), (''data_refresh_failed'', ''CRITICAL''), (''day_skipped'', ''CRITICAL''), (''state_corrupt'', ''CRITICAL''),
    (''data_degraded'', ''WARNING''), (''awaiting_params'', ''WARNING''), (''paper_funding_lag'', ''WARNING''),
    (''paper_delisted_unresolved'', ''CRITICAL''), (''delisting_settled'', ''NOTICE''), (''orderbook_backup_impending'', ''NOTICE''),
    (''data_quarantine'', ''WARNING''), (''cycle_interrupted'', ''WARNING''), (''refresh_incomplete'', ''WARNING''),
    (''venue_capture_failed'', ''WARNING''), (''venue_rules_stale'', ''WARNING''), (''daemon_crashed'', ''CRITICAL''),
    (''cycle_complete'', ''NOTICE''), (''recorder_unhealthy'', ''CRITICAL''), (''recorder_recovered'', ''NOTICE''),
    (''intent_reject_cluster'', ''WARNING''), (''flip_open_blocked'', ''WARNING''), (''ledger_reconcile_mismatch'', ''CRITICAL''),
    (''order_journal_regressed'', ''CRITICAL''), (''tax_ledger_corrupt'', ''CRITICAL''), (''tax_income_gap'', ''CRITICAL''),
    (''tax_genesis_not_flat'', ''CRITICAL''), (''daemon_unresponsive'', ''CRITICAL''), (''daemon_stage_overrun'', ''CRITICAL''),
    (''daemon_container_down'', ''CRITICAL''), (''daemon_liveness_recovered'', ''NOTICE''), (''alert_outbox_overflow'', ''CRITICAL''),
    (''order_recovery_unresolved'', ''WARNING''), (''cycle_degraded'', ''CRITICAL''), (''venue_force_close_adopted'', ''WARNING''),
    (''ledger_resynced'', ''NOTICE'')]"

definition event_severity :: "string \<Rightarrow> string" where
  "event_severity event = dict_get EVENT_INFO event ''CRITICAL''"

definition EMAIL_SEVERITIES :: "string list" where
  "EMAIL_SEVERITIES = [''WARNING'', ''CRITICAL'']"

definition NOTICE_SEVERITY :: string where
  "NOTICE_SEVERITY = ''NOTICE''"

section \<open>Records\<close>

type_synonym channel = string

record alert_record =
  ar_dedupe_key :: string
  ar_event :: string
  ar_severity :: string
  ar_detail :: string
  ar_decision_time :: "timestamp option"
  ar_created_at :: timestamp
  ar_pending_channels :: "channel list"
  ar_delivered_channels :: "channel list"
  ar_attempts :: int
  ar_next_attempt_at :: timestamp
  ar_completed_at :: "timestamp option"
  ar_expired :: bool

record drain_report =
  dr_attempted :: nat
  dr_completed :: nat
  dr_expired :: nat
  dr_pending :: nat

abbreviation empty_report :: drain_report where
  "empty_report \<equiv> \<lparr>dr_attempted = 0, dr_completed = 0, dr_expired = 0, dr_pending = 0\<rparr>"

text \<open>The fields of \<open>AlertOutbox\<close>, and of pandas: \<open>pd.Timestamp(x)\<close> of a decoded value,
  \<open>pd.Timedelta(seconds=x)\<close>, \<open>total_seconds()\<close> and the UTC day as text.\<close>

record outbox =
  ob_retry_backoff_s :: rat
  ob_retry_backoff_max_s :: rat
  ob_max_age_s :: rat
  ob_retention_s :: rat
  ob_max_records :: int
  ob_codec :: text_codec
  ob_timestamp :: "json \<Rightarrow> pd_timestamp option"
  ob_timedelta :: "rat \<Rightarrow> int"
  ob_total_seconds :: "int \<Rightarrow> rat"
  ob_day :: "timestamp \<Rightarrow> string"

text \<open>The file: missing, bytes that are no UTF-8 text, text that is no JSON, or a document.\<close>

datatype outbox_file = NoFile | NotText | NotJson | Stored json

record outbox_disk =
  od_file :: outbox_file
  od_quarantine :: "outbox_file list"

record outbox_io =
  io_lock :: bool
  io_read :: bool
  io_quarantine :: bool
  io_write :: bool
  io_landed :: bool

definition default_dedupe_key :: "text_codec \<Rightarrow> string \<Rightarrow> timestamp option \<Rightarrow> string" where
  "default_dedupe_key c event decision_time =
     event @ '':'' @ (case decision_time of None \<Rightarrow> ''none'' | Some t \<Rightarrow> tc_iso c t)"

definition parse_ts :: "outbox \<Rightarrow> json \<Rightarrow> timestamp option" where
  "parse_ts ob raw = (if raw = JNull then None else map_option as_utc (ob_timestamp ob raw))"

definition iso_or_null :: "outbox \<Rightarrow> timestamp option \<Rightarrow> json" where
  "iso_or_null ob t = (case t of None \<Rightarrow> JNull | Some t \<Rightarrow> JStr (tc_iso (ob_codec ob) t))"

text \<open>Keys in the order of \<open>sort_keys=True\<close>.\<close>

definition record_to_json :: "outbox \<Rightarrow> alert_record \<Rightarrow> json" where
  "record_to_json ob r = JObj
     [(''attempts'', JInt (ar_attempts r)),
      (''completed_at'', iso_or_null ob (ar_completed_at r)),
      (''created_at'', JStr (tc_iso (ob_codec ob) (ar_created_at r))),
      (''decision_time'', iso_or_null ob (ar_decision_time r)),
      (''dedupe_key'', JStr (ar_dedupe_key r)),
      (''delivered_channels'', JArr (map JStr (ar_delivered_channels r))),
      (''detail'', JStr (ar_detail r)),
      (''event'', JStr (ar_event r)),
      (''expired'', JBool (ar_expired r)),
      (''next_attempt_at'', JStr (tc_iso (ob_codec ob) (ar_next_attempt_at r))),
      (''pending_channels'', JArr (map JStr (ar_pending_channels r))),
      (''severity'', JStr (ar_severity r))]"

definition channel_set :: "outbox \<Rightarrow> json \<Rightarrow> channel list res" where
  "channel_set ob raw = rbind (py_iter raw) (\<lambda>xs. Inr (sorted_set (map (py_str (ob_codec ob)) xs)))"

definition record_of_json :: "outbox \<Rightarrow> (string \<times> json) list \<Rightarrow> timestamp \<Rightarrow> timestamp \<Rightarrow> alert_record res" where
  "record_of_json ob raw created_at next_attempt_at = (let c = ob_codec ob in
     rbind (obj_item raw ''dedupe_key'') (\<lambda>key. rbind (obj_item raw ''event'') (\<lambda>event.
     rbind (channel_set ob (obj_get_default raw ''pending_channels'' (JArr []))) (\<lambda>pending.
     rbind (channel_set ob (obj_get_default raw ''delivered_channels'' (JArr []))) (\<lambda>delivered.
     rbind (py_int c (obj_get_default raw ''attempts'' (JInt 0))) (\<lambda>attempts.
       Inr \<lparr>ar_dedupe_key = py_str c key, ar_event = py_str c event,
            ar_severity = py_str c (obj_get_default raw ''severity'' (JStr ''CRITICAL'')),
            ar_detail = py_str c (obj_get_default raw ''detail'' (JStr [])),
            ar_decision_time = parse_ts ob (obj_get raw ''decision_time''), ar_created_at = created_at,
            ar_pending_channels = pending, ar_delivered_channels = delivered, ar_attempts = attempts,
            ar_next_attempt_at = next_attempt_at, ar_completed_at = parse_ts ob (obj_get raw ''completed_at''),
            ar_expired = py_bool (obj_get_default raw ''expired'' (JBool False))\<rparr>))))))"

definition record_from_json :: "outbox \<Rightarrow> (string \<times> json) list \<Rightarrow> alert_record option" where
  "record_from_json ob raw = (case (parse_ts ob (obj_get raw ''created_at''), parse_ts ob (obj_get raw ''next_attempt_at'')) of
     (Some created_at, Some next_attempt_at) \<Rightarrow>
       (case record_of_json ob raw created_at next_attempt_at of Inl _ \<Rightarrow> None | Inr r \<Rightarrow> Some r)
   | _ \<Rightarrow> None)"

section \<open>The document\<close>

definition quarantine_locked :: "outbox_io \<Rightarrow> outbox_disk \<Rightarrow> outbox_disk" where
  "quarantine_locked io d = (if io_quarantine io then \<lparr>od_file = NoFile, od_quarantine = od_quarantine d @ [od_file d]\<rparr> else d)"

text \<open>A file that cannot be read counts as empty; bytes that are no text raise, outside the \<open>try\<close>
  around the parser, and are never quarantined.\<close>

definition load_locked :: "outbox \<Rightarrow> outbox_io \<Rightarrow> outbox_disk \<Rightarrow> alert_record list res \<times> outbox_disk" where
  "load_locked ob io d =
     (if od_file d = NoFile \<or> \<not> io_read io then (Inr [], d)
      else case od_file d of
        NotText \<Rightarrow> (Inl ValueError, d)
      | Stored (JObj doc) \<Rightarrow> (case obj_get doc ''records'' of
          JArr items \<Rightarrow> (Inr (List.map_filter (\<lambda>item. case item of JObj raw \<Rightarrow> record_from_json ob raw | _ \<Rightarrow> None) items), d)
        | _ \<Rightarrow> (Inr [], quarantine_locked io d))
      | _ \<Rightarrow> (Inr [], quarantine_locked io d))"

definition outbox_document :: "outbox \<Rightarrow> alert_record list \<Rightarrow> outbox_file" where
  "outbox_document ob records = Stored (JObj [(''records'', JArr (map (record_to_json ob) records))])"

text \<open>An exception after the replacement of the file leaves the new document in place.\<close>

definition write_locked :: "outbox \<Rightarrow> outbox_io \<Rightarrow> alert_record list \<Rightarrow> outbox_disk \<Rightarrow> bool \<times> outbox_disk" where
  "write_locked ob io records d =
     (io_write io, if io_write io \<or> io_landed io then d\<lparr>od_file := outbox_document ob records\<rparr> else d)"

section \<open>Accepting an alert\<close>

definition finished :: "alert_record \<Rightarrow> bool" where
  "finished r \<longleftrightarrow> ar_completed_at r \<noteq> None \<or> ar_expired r"

definition prune :: "outbox \<Rightarrow> timestamp \<Rightarrow> alert_record list \<Rightarrow> alert_record list" where
  "prune ob now records =
     (let cutoff = now - ob_timedelta ob (ob_retention_s ob) in filter (\<lambda>r. \<not> (finished r \<and> ar_created_at r < cutoff)) records)"

text \<open>\<open>2.0 ** n\<close> raises \<open>OverflowError\<close> from 1024 on; a product beyond the floats is infinite and
  the minimum is then the maximal delay.\<close>

definition backoff_delay_s :: "outbox \<Rightarrow> int \<Rightarrow> rat res" where
  "backoff_delay_s ob attempts = (let n = max 0 (attempts - 1) in
     if 1024 \<le> n then Inl ArithmeticError else Inr (min (ob_retry_backoff_s ob * 2 ^ nat n) (ob_retry_backoff_max_s ob)))"

definition new_alert :: "string \<Rightarrow> string \<Rightarrow> string \<Rightarrow> string \<Rightarrow> timestamp option \<Rightarrow> channel list \<Rightarrow> timestamp \<Rightarrow> alert_record" where
  "new_alert key event severity detail decision_time channels now =
     \<lparr>ar_dedupe_key = key, ar_event = event, ar_severity = severity, ar_detail = detail, ar_decision_time = decision_time,
      ar_created_at = now, ar_pending_channels = channels, ar_delivered_channels = [], ar_attempts = 0, ar_next_attempt_at = now,
      ar_completed_at = None, ar_expired = False\<rparr>"

fun evict_finished :: "int \<Rightarrow> alert_record list \<Rightarrow> alert_record list \<Rightarrow> alert_record list" where
  "evict_finished limit [] records = records"
| "evict_finished limit (oldest # rest) records =
     (if int (length records) < limit then records
      else evict_finished limit rest (filter (\<lambda>r. ar_dedupe_key r \<noteq> ar_dedupe_key oldest) records))"

definition make_room :: "outbox \<Rightarrow> alert_record list \<Rightarrow> alert_record list" where
  "make_room ob records = evict_finished (ob_max_records ob) (sort_key ar_created_at (filter finished records)) records"

definition overflow_prefix :: string where
  "overflow_prefix = ''alert_outbox_overflow:''"

definition overflow_alert :: "outbox \<Rightarrow> nat \<Rightarrow> channel list \<Rightarrow> timestamp \<Rightarrow> alert_record" where
  "overflow_alert ob n channels now = new_alert (overflow_prefix @ ob_day ob now) ''alert_outbox_overflow'' ''CRITICAL''
     (''outbox at capacity records='' @ str_nat n) None channels now"

text \<open>\<open>None\<close>: a notice is rejected when the outbox is full.\<close>

definition admit :: "outbox \<Rightarrow> string \<Rightarrow> channel list \<Rightarrow> timestamp \<Rightarrow> alert_record list \<Rightarrow> alert_record list option" where
  "admit ob severity channels now records =
     (let kept = make_room ob (prune ob now records); overflow = overflow_alert ob (length kept) channels now
      in if int (length kept) < ob_max_records ob then Some kept
         else if severity = NOTICE_SEVERITY then None
         else if ar_dedupe_key overflow \<in> ar_dedupe_key ` set kept then Some kept
         else Some (kept @ [overflow]))"

definition enqueue ::
    "outbox \<Rightarrow> outbox_io \<Rightarrow> string \<Rightarrow> string \<Rightarrow> timestamp option \<Rightarrow> string \<Rightarrow> channel list \<Rightarrow> pd_timestamp \<Rightarrow> outbox_disk \<Rightarrow> bool \<times> outbox_disk" where
  "enqueue ob io event detail decision_time key channels now d =
     (let now_utc = as_utc now; severity = event_severity event;
          alert = new_alert key event severity detail decision_time channels now_utc
      in if \<not> io_lock io then (False, d)
         else case load_locked ob io d of (Inl _, d1) \<Rightarrow> (False, d1) | (Inr records, d1) \<Rightarrow>
           if key \<in> ar_dedupe_key ` set records then (True, d1)
           else if channels = [] then
             write_locked ob io (prune ob now_utc (records @ [alert\<lparr>ar_completed_at := Some now_utc, ar_expired := True\<rparr>])) d1
           else (case admit ob severity channels now_utc records of
             None \<Rightarrow> (False, d1)
           | Some kept \<Rightarrow> write_locked ob io (kept @ [alert]) d1))"

section \<open>Draining\<close>

definition due :: "timestamp \<Rightarrow> alert_record \<Rightarrow> bool" where
  "due now r \<longleftrightarrow> \<not> ar_expired r \<and> ar_completed_at r = None \<and> ar_pending_channels r \<noteq> [] \<and> ar_next_attempt_at r \<le> now"

text \<open>The first critical section; \<open>None\<close> when the lock is not available.\<close>

definition drain_load :: "outbox \<Rightarrow> outbox_io \<Rightarrow> timestamp \<Rightarrow> outbox_disk \<Rightarrow> alert_record list option \<times> outbox_disk" where
  "drain_load ob io now d =
     (if \<not> io_lock io then (None, d) else case load_locked ob io d of (Inl _, d1) \<Rightarrow> (None, d1) | (Inr records, d1) \<Rightarrow> (Some (filter (due now) records), d1))"

text \<open>One attempt on every pending channel; an exception of the transport counts as a failed attempt.\<close>

definition delivered_now :: "(alert_record \<Rightarrow> channel \<Rightarrow> bool res) \<Rightarrow> alert_record \<Rightarrow> channel list" where
  "delivered_now deliver r = filter (\<lambda>ch. deliver r ch = Inr True) (ar_pending_channels r)"

definition drain_outcomes :: "(alert_record \<Rightarrow> channel \<Rightarrow> bool res) \<Rightarrow> alert_record list \<Rightarrow> (string, channel list) dict" where
  "drain_outcomes deliver records = fold (\<lambda>r. AList.update (ar_dedupe_key r) (delivered_now deliver r)) records []"

definition drain_attempted :: "alert_record list \<Rightarrow> nat" where
  "drain_attempted records = sum_list (map (length \<circ> ar_pending_channels) records)"

text \<open>The record after one attempt in which \<open>newly\<close> was delivered.\<close>

definition attempted :: "outbox \<Rightarrow> timestamp \<Rightarrow> channel list \<Rightarrow> alert_record \<Rightarrow> alert_record res" where
  "attempted ob now newly current =
     (let delivered = sorted_set (ar_delivered_channels current @ newly);
          remaining = filter (\<lambda>ch. ch \<notin> set newly) (ar_pending_channels current);
          attempts = ar_attempts current + 1;
          updated = current\<lparr>ar_pending_channels := remaining, ar_delivered_channels := delivered, ar_attempts := attempts, ar_expired := False\<rparr>
      in if remaining = [] then Inr (updated\<lparr>ar_completed_at := Some now\<rparr>)
         else rbind (backoff_delay_s ob attempts) (\<lambda>delay.
           Inr (updated\<lparr>ar_next_attempt_at := now + ob_timedelta ob delay, ar_completed_at := None\<rparr>)))"

definition merge_outcome ::
    "outbox \<Rightarrow> timestamp \<Rightarrow> string \<times> channel list \<Rightarrow> (string, alert_record) dict \<Rightarrow> (string, alert_record) dict res" where
  "merge_outcome ob now = (\<lambda>(key, newly) by_key. case map_of by_key key of
     None \<Rightarrow> Inr by_key
   | Some current \<Rightarrow>
       if finished current then Inr by_key
       else rbind (attempted ob now newly current) (\<lambda>updated. Inr (AList.update key updated by_key)))"

definition by_key :: "alert_record list \<Rightarrow> (string, alert_record) dict" where
  "by_key records = fold (\<lambda>r. AList.update (ar_dedupe_key r) r) records []"

definition drain_merge ::
    "outbox \<Rightarrow> outbox_io \<Rightarrow> timestamp \<Rightarrow> (string, channel list) dict \<Rightarrow> outbox_disk \<Rightarrow> outbox_disk" where
  "drain_merge ob io now outcomes d =
     (if \<not> io_lock io then d
      else case load_locked ob io d of (Inl _, d1) \<Rightarrow> d1 | (Inr records, d1) \<Rightarrow>
        (case rfold (merge_outcome ob now) outcomes (by_key records) of
           Inl _ \<Rightarrow> d1
         | Inr merged \<Rightarrow> snd (write_locked ob io (prune ob now (map snd merged)) d1)))"

definition overdue :: "outbox \<Rightarrow> timestamp \<Rightarrow> alert_record \<Rightarrow> bool" where
  "overdue ob now r \<longleftrightarrow> \<not> ar_expired r \<and> ar_completed_at r = None \<and> ar_pending_channels r \<noteq> []
     \<and> ob_max_age_s ob < ob_total_seconds ob (now - ar_created_at r)"

definition expire :: "timestamp \<Rightarrow> alert_record \<Rightarrow> alert_record" where
  "expire now r = r\<lparr>ar_pending_channels := [], ar_completed_at := Some now, ar_expired := True\<rparr>"

definition drain_count :: "nat \<Rightarrow> alert_record list \<Rightarrow> drain_report" where
  "drain_count expired_now records =
     (let expired_total = length (filter ar_expired records)
      in \<lparr>dr_attempted = 0, dr_completed = length (filter (\<lambda>r. ar_completed_at r \<noteq> None \<and> \<not> ar_expired r) records),
          dr_expired = (if expired_now = 0 then expired_total else expired_now),
          dr_pending = length (filter (\<lambda>r. \<not> finished r) records)\<rparr>)"

definition finalize :: "outbox \<Rightarrow> outbox_io \<Rightarrow> timestamp \<Rightarrow> outbox_disk \<Rightarrow> drain_report \<times> outbox_disk" where
  "finalize ob io now d =
     (if \<not> io_lock io then (empty_report, d)
      else case load_locked ob io d of (Inl _, d1) \<Rightarrow> (empty_report, d1) | (Inr records, d1) \<Rightarrow>
        (let expired_now = length (filter (overdue ob now) records);
             updated = prune ob now (map (\<lambda>r. if overdue ob now r then expire now r else r) records)
         in if expired_now = 0 then (drain_count 0 records, d1)
            else (drain_count expired_now updated, snd (write_locked ob io updated d1))))"

text \<open>\<open>busy\<close>: another process holds the lock at the first critical section.\<close>

definition drain ::
    "outbox \<Rightarrow> outbox_io \<times> outbox_io \<times> outbox_io \<Rightarrow> (alert_record \<Rightarrow> channel \<Rightarrow> bool res) \<Rightarrow> pd_timestamp \<Rightarrow> bool \<Rightarrow> bool
     \<Rightarrow> outbox_disk \<Rightarrow> drain_report \<times> outbox_disk" where
  "drain ob ios deliver now blocking busy d = (case ios of (io1, io2, io3) \<Rightarrow>
     if \<not> blocking \<and> busy then (empty_report, d)
     else (case drain_load ob io1 (as_utc now) d of
       (None, d1) \<Rightarrow> (empty_report, d1)
     | (Some [], d1) \<Rightarrow> finalize ob io3 (as_utc now) d1
     | (Some records, d1) \<Rightarrow>
         (case finalize ob io3 (as_utc now) (drain_merge ob io2 (as_utc now) (drain_outcomes deliver records) d1) of
            (report, d2) \<Rightarrow> (report\<lparr>dr_attempted := drain_attempted records\<rparr>, d2))))"

section \<open>Dispatch\<close>

text \<open>What the settings say of the channels, and the transports.\<close>

record alert_settings =
  as_webhook_url :: "string option"
  as_gmail_user :: "string option"
  as_gmail_app_password :: "string option"

record transports =
  tp_webhook :: "alert_record \<Rightarrow> bool res"
  tp_smtp :: "alert_record \<Rightarrow> bool res"

definition truthy :: "string option \<Rightarrow> bool" where
  "truthy s \<longleftrightarrow> (case s of None \<Rightarrow> False | Some t \<Rightarrow> t \<noteq> [])"

definition configured_channels :: "alert_settings \<Rightarrow> channel list" where
  "configured_channels s = (if truthy (as_gmail_user s) \<and> as_gmail_app_password s \<noteq> None then [''email''] else [])
     @ (if truthy (as_webhook_url s) then [''webhook''] else [])"

definition deliver_record :: "alert_settings \<Rightarrow> transports \<Rightarrow> alert_record \<Rightarrow> channel \<Rightarrow> bool res" where
  "deliver_record s tp r ch =
     (if ch = ''webhook'' then Inr (truthy (as_webhook_url s) \<and> tp_webhook tp r = Inr True)
      else if ch = ''email'' then
        (if ar_severity r \<notin> set EMAIL_SEVERITIES then Inr True
         else Inr (truthy (as_gmail_user s) \<and> truthy (as_gmail_app_password s) \<and> tp_smtp tp r = Inr True))
      else Inr False)"

definition dispatch_alert ::
    "outbox \<Rightarrow> alert_settings \<Rightarrow> transports \<Rightarrow> outbox_io \<Rightarrow> outbox_io \<times> outbox_io \<times> outbox_io \<Rightarrow> string \<Rightarrow> string \<Rightarrow> timestamp option \<Rightarrow> string \<Rightarrow> pd_timestamp
     \<Rightarrow> outbox_disk \<Rightarrow> bool \<times> outbox_disk" where
  "dispatch_alert ob s tp io ios event detail decision_time key now d =
     (case enqueue ob io event detail decision_time key (configured_channels s) now d of
        (False, d1) \<Rightarrow> (False, d1)
      | (True, d1) \<Rightarrow> (True, snd (drain ob ios (deliver_record s tp) now True False d1)))"

definition drain_alerts ::
    "outbox \<Rightarrow> alert_settings \<Rightarrow> transports \<Rightarrow> outbox_io \<times> outbox_io \<times> outbox_io \<Rightarrow> pd_timestamp \<Rightarrow> bool \<Rightarrow> bool \<Rightarrow> outbox_disk \<Rightarrow> drain_report \<times> outbox_disk" where
  "drain_alerts ob s tp ios now blocking busy d = drain ob ios (deliver_record s tp) now blocking busy d"


section \<open>What the document holds\<close>

definition outbox_ok :: "outbox \<Rightarrow> bool" where
  "outbox_ok ob \<longleftrightarrow> (\<forall>t. ob_timestamp ob (JStr (tc_iso (ob_codec ob) t)) = Some (Aware t))"

definition record_ok :: "alert_record \<Rightarrow> bool" where
  "record_ok r \<longleftrightarrow> sorted_set (ar_pending_channels r) = ar_pending_channels r \<and> sorted_set (ar_delivered_channels r) = ar_delivered_channels r"

lemma outbox_ts_iso [simp]: "outbox_ok ob \<Longrightarrow> parse_ts ob (JStr (tc_iso (ob_codec ob) t)) = Some t"
  by (simp add: parse_ts_def outbox_ok_def)

lemma outbox_ts_iso_or_null [simp]: "outbox_ok ob \<Longrightarrow> parse_ts ob (iso_or_null ob t) = t"
  by (cases t) (simp_all add: iso_or_null_def parse_ts_def outbox_ok_def)

lemma channel_set_written [simp]: "sorted_set chs = chs \<Longrightarrow> channel_set ob (JArr (map JStr chs)) = Inr chs"
  by (simp add: channel_set_def comp_def)

lemma record_round_trip:
  assumes "outbox_ok ob" "record_ok r"
  shows "(case record_to_json ob r of JObj raw \<Rightarrow> record_from_json ob raw | _ \<Rightarrow> None) = Some r"
  using assms by (simp add: record_to_json_def record_from_json_def record_of_json_def record_ok_def Let_def)

text \<open>The document of a list of alerts with different keys.\<close>

definition alerts_ok :: "alert_record list \<Rightarrow> bool" where
  "alerts_ok rs \<longleftrightarrow> distinct (map ar_dedupe_key rs) \<and> (\<forall>r \<in> set rs. record_ok r)"

definition holds :: "outbox \<Rightarrow> outbox_disk \<Rightarrow> alert_record list \<Rightarrow> bool" where
  "holds ob d rs \<longleftrightarrow> alerts_ok rs \<and> (od_file d = NoFile \<and> rs = [] \<or> od_file d = outbox_document ob rs)"

lemma load_written:
  assumes "outbox_ok ob" "\<forall>r \<in> set rs. record_ok r"
  shows "List.map_filter (\<lambda>item. case item of JObj raw \<Rightarrow> record_from_json ob raw | _ \<Rightarrow> None) (map (record_to_json ob) rs) = rs"
  using assms(2) by (induction rs) (simp_all add: map_filter_simps record_round_trip [OF assms(1)])

lemma load_holds: "outbox_ok ob \<Longrightarrow> holds ob d rs \<Longrightarrow> io_read io \<Longrightarrow> load_locked ob io d = (Inr rs, d)"
  by (auto simp: holds_def alerts_ok_def load_locked_def outbox_document_def load_written)

lemma write_holds:
  assumes "holds ob d rs" "alerts_ok rs'" "write_locked ob io rs' d = (ok, d')"
  shows "holds ob d' (if io_write io \<or> io_landed io then rs' else rs)" "ok = io_write io"
  using assms by (auto simp: holds_def write_locked_def)

lemma alerts_ok_filter: "alerts_ok rs \<Longrightarrow> alerts_ok (filter P rs)"
  by (auto simp: alerts_ok_def intro: distinct_map_filter)

lemma alerts_ok_snoc: "alerts_ok rs \<Longrightarrow> record_ok r \<Longrightarrow> ar_dedupe_key r \<notin> ar_dedupe_key ` set rs \<Longrightarrow> alerts_ok (rs @ [r])"
  by (auto simp: alerts_ok_def)


section \<open>Alerts on their way\<close>

text \<open>An accepted alert is still in the outbox with every channel pending or delivered, or every
  channel has been delivered, or it has been given up as too old.\<close>

definition tracked :: "(string \<times> channel) set \<Rightarrow> (string \<times> timestamp \<times> timestamp) set \<Rightarrow> alert_record list \<Rightarrow> string \<times> channel list \<times> timestamp \<Rightarrow> bool" where
  "tracked sent gone rs = (\<lambda>(key, channels, created).
     (\<exists>r \<in> set rs. ar_dedupe_key r = key \<and> ar_created_at r = created \<and> \<not> finished r
        \<and> set channels \<subseteq> set (ar_pending_channels r) \<union> set (ar_delivered_channels r))
     \<or> (\<forall>ch \<in> set channels. (key, ch) \<in> sent)
     \<or> (\<exists>now. (key, created, now) \<in> gone))"

definition sent_only :: "(string \<times> channel) set \<Rightarrow> alert_record list \<Rightarrow> bool" where
  "sent_only sent rs \<longleftrightarrow> (\<forall>r \<in> set rs. \<forall>ch \<in> set (ar_delivered_channels r). (ar_dedupe_key r, ch) \<in> sent)"

text \<open>Where an unfinished alert goes in one step.\<close>

definition channels_of :: "alert_record \<Rightarrow> channel set" where
  "channels_of r = set (ar_pending_channels r) \<union> set (ar_delivered_channels r)"

definition onward :: "(string \<times> channel) set \<Rightarrow> (string \<times> timestamp \<times> timestamp) set \<Rightarrow> alert_record list \<Rightarrow> alert_record \<Rightarrow> bool" where
  "onward sent gone rs r \<longleftrightarrow>
     (\<exists>r' \<in> set rs. ar_dedupe_key r' = ar_dedupe_key r \<and> ar_created_at r' = ar_created_at r \<and> \<not> finished r' \<and> channels_of r \<subseteq> channels_of r')
     \<or> (\<forall>ch \<in> channels_of r. (ar_dedupe_key r, ch) \<in> sent)
     \<or> (\<exists>now. (ar_dedupe_key r, ar_created_at r, now) \<in> gone)"

lemma tracked_step:
  assumes "tracked sent gone rs a" "\<And>r. r \<in> set rs \<Longrightarrow> \<not> finished r \<Longrightarrow> onward sent' gone' rs' r" "sent \<subseteq> sent'" "gone \<subseteq> gone'"
  shows "tracked sent' gone' rs' a"
proof -
  obtain key channels created where a: "a = (key, channels, created)" by (rule prod_cases3)
  from assms(1) consider r where "r \<in> set rs" "ar_dedupe_key r = key" "ar_created_at r = created" "\<not> finished r" "set channels \<subseteq> channels_of r"
    | "\<forall>ch \<in> set channels. (key, ch) \<in> sent" | now where "(key, created, now) \<in> gone"
    unfolding a tracked_def channels_of_def by auto
  then show ?thesis
  proof cases
    case 1
    with assms(2) have "onward sent' gone' rs' r" by blast
    with 1 show ?thesis unfolding a tracked_def onward_def channels_of_def by blast
  next
    case 2
    with assms(3) show ?thesis unfolding a tracked_def by blast
  next
    case 3
    with assms(4) show ?thesis unfolding a tracked_def by blast
  qed
qed

lemma tracked_keep:
  assumes "tracked sent gone rs a" "\<And>r. r \<in> set rs \<Longrightarrow> \<not> finished r \<Longrightarrow> r \<in> set rs'"
  shows "tracked sent gone rs' a"
  by (rule tracked_step [OF assms(1)]) (use assms(2) in \<open>auto simp: onward_def\<close>)

lemma sent_only_mono: "sent_only sent rs \<Longrightarrow> set rs' \<subseteq> set rs \<Longrightarrow> sent \<subseteq> sent' \<Longrightarrow> sent_only sent' rs'"
  unfolding sent_only_def by blast

lemma prune_keeps: "r \<in> set rs \<Longrightarrow> \<not> finished r \<Longrightarrow> r \<in> set (prune ob now rs)"
  by (simp add: prune_def Let_def)

lemma set_prune: "set (prune ob now rs) \<subseteq> set rs"
  by (auto simp: prune_def Let_def)

lemma alerts_ok_prune: "alerts_ok rs \<Longrightarrow> alerts_ok (prune ob now rs)"
  by (simp add: prune_def Let_def alerts_ok_filter)

lemma evict_finished_sub: "set (evict_finished limit os rs) \<subseteq> set rs"
  by (induction limit os rs rule: evict_finished.induct) auto

lemma alerts_ok_evict: "alerts_ok rs \<Longrightarrow> alerts_ok (evict_finished limit os rs)"
  by (induction limit os rs rule: evict_finished.induct) (auto intro: alerts_ok_filter)

lemma evict_finished_keeps:
  assumes "\<And>x. x \<in> set os \<Longrightarrow> ar_dedupe_key r \<noteq> ar_dedupe_key x" "r \<in> set rs"
  shows "r \<in> set (evict_finished limit os rs)"
  using assms by (induction limit os rs rule: evict_finished.induct) auto

lemma same_key: "alerts_ok rs \<Longrightarrow> r \<in> set rs \<Longrightarrow> r' \<in> set rs \<Longrightarrow> ar_dedupe_key r = ar_dedupe_key r' \<Longrightarrow> r = r'"
  by (auto simp: alerts_ok_def distinct_map dest: inj_onD)

lemma make_room_keeps:
  assumes "alerts_ok rs" "r \<in> set rs" "\<not> finished r" shows "r \<in> set (make_room ob rs)"
proof -
  have "ar_dedupe_key r \<noteq> ar_dedupe_key x" if "x \<in> set (sort_key ar_created_at (filter finished rs))" for x
    using same_key [OF assms(1), of x r] assms(2,3) that by auto
  then show ?thesis unfolding make_room_def using assms(2) by (rule evict_finished_keeps)
qed

lemma make_room_sub: "set (make_room ob rs) \<subseteq> set rs"
  by (simp add: make_room_def evict_finished_sub)

lemma alerts_ok_make_room: "alerts_ok rs \<Longrightarrow> alerts_ok (make_room ob rs)"
  by (simp add: make_room_def alerts_ok_evict)

lemma new_alert_simps [simp]:
  "ar_dedupe_key (new_alert k e s dt dec chs now) = k" "ar_delivered_channels (new_alert k e s dt dec chs now) = []"
  "ar_pending_channels (new_alert k e s dt dec chs now) = chs" "ar_created_at (new_alert k e s dt dec chs now) = now"
  "\<not> finished (new_alert k e s dt dec chs now)" "sorted_set chs = chs \<Longrightarrow> record_ok (new_alert k e s dt dec chs now)"
  "ar_next_attempt_at (new_alert k e s dt dec chs now) = now"
  by (simp_all add: new_alert_def finished_def record_ok_def sorted_set_def)

text \<open>What admission keeps.\<close>

lemma admit_keeps:
  assumes "admit ob severity channels now rs = Some kept" "alerts_ok rs" "sorted_set channels = channels"
  shows "alerts_ok kept" "\<And>r. r \<in> set rs \<Longrightarrow> \<not> finished r \<Longrightarrow> r \<in> set kept"
    "\<And>r. r \<in> set kept \<Longrightarrow> r \<in> set rs \<or> ar_delivered_channels r = [] \<and> prefix overflow_prefix (ar_dedupe_key r)"
proof -
  let ?rs = "make_room ob (prune ob now rs)" and ?o = "overflow_alert ob (length (make_room ob (prune ob now rs))) channels now"
  have ok: "alerts_ok ?rs" using assms(2) by (intro alerts_ok_make_room alerts_ok_prune)
  from assms(1) consider "kept = ?rs" | "kept = ?rs @ [?o]" "ar_dedupe_key ?o \<notin> ar_dedupe_key ` set ?rs"
    by (auto simp: admit_def Let_def split: if_splits)
  note kept = this
  show "alerts_ok kept" using kept by cases (use ok assms(3) in \<open>auto intro!: alerts_ok_snoc simp: overflow_alert_def\<close>)
  show "r \<in> set kept" if "r \<in> set rs" "\<not> finished r" for r
    using kept make_room_keeps [OF alerts_ok_prune [OF assms(2)] prune_keeps [OF that] that(2)] by cases auto
  show "r \<in> set rs \<or> ar_delivered_channels r = [] \<and> prefix overflow_prefix (ar_dedupe_key r)" if "r \<in> set kept" for r
    using kept that make_room_sub [of ob "prune ob now rs"] set_prune [of ob now rs] by cases (auto simp: overflow_alert_def)
qed


section \<open>Outcomes of deliveries\<close>

text \<open>The dictionary of a list with different keys lists it in the same order.\<close>

lemma update_fresh: "k \<notin> fst ` set m \<Longrightarrow> AList.update k v m = m @ [(k, v)]"
  by (induction m) auto

lemma by_key_from:
  "distinct (map ar_dedupe_key rs) \<Longrightarrow> ar_dedupe_key ` set rs \<inter> fst ` set m = {}
   \<Longrightarrow> fold (\<lambda>r. AList.update (ar_dedupe_key r) r) rs m = m @ map (\<lambda>r. (ar_dedupe_key r, r)) rs"
  by (induction rs arbitrary: m) (auto simp: update_fresh image_iff)

lemma by_key_ok: "alerts_ok rs \<Longrightarrow> by_key rs = map (\<lambda>r. (ar_dedupe_key r, r)) rs"
  using by_key_from [of rs "[]"] by (simp add: by_key_def alerts_ok_def)

text \<open>A dictionary of alerts by their keys.\<close>

definition keyed :: "(string, alert_record) dict \<Rightarrow> bool" where
  "keyed m \<longleftrightarrow> (\<forall>(k, r) \<in> set m. ar_dedupe_key r = k)"

lemma keyed_keys: "keyed m \<Longrightarrow> map ar_dedupe_key (map snd m) = map fst m"
  by (induction m) (auto simp: keyed_def)

lemma keyed_alerts_ok: "keyed m \<Longrightarrow> alerts_ok (map snd m) \<longleftrightarrow> dict_ok m \<and> (\<forall>r \<in> snd ` set m. record_ok r)"
  unfolding alerts_ok_def by (subst keyed_keys) auto

lemma set_update_subset: "set (AList.update k v m) \<subseteq> insert (k, v) (set m)"
  by (induction m) auto

lemma keyed_update: "keyed m \<Longrightarrow> ar_dedupe_key r = k \<Longrightarrow> keyed (AList.update k r m)"
  using set_update_subset [of k r m] by (fastforce simp: keyed_def)

lemma update_keeps_others: "(k', x) \<in> set m \<Longrightarrow> k' \<noteq> k \<Longrightarrow> (k', x) \<in> set (AList.update k v m)"
  by (induction m) auto

lemma update_has: "(k, v) \<in> set (AList.update k v m)"
  by (induction m) auto

lemma attempted_fields:
  assumes "attempted ob now newly cur = Inr upd"
  shows "ar_dedupe_key upd = ar_dedupe_key cur" "ar_created_at upd = ar_created_at cur"
    "ar_delivered_channels upd = sorted_set (ar_delivered_channels cur @ newly)"
    "ar_pending_channels upd = filter (\<lambda>ch. ch \<notin> set newly) (ar_pending_channels cur)"
    "finished upd \<longleftrightarrow> ar_pending_channels upd = []" "\<not> ar_expired upd" "ar_attempts upd = ar_attempts cur + 1"
  using assms by (auto simp: attempted_def Let_def rbind_eq_Inr finished_def split: if_splits)

text \<open>One outcome: every unfinished alert goes on.\<close>

lemma merge_outcome_step:
  assumes "merge_outcome ob now (key, newly) m = Inr m'" "keyed m" "alerts_ok (map snd m)"
    "sent_only sent (map snd m)" "\<forall>ch \<in> set newly. (key, ch) \<in> sent"
  shows "keyed m'" "alerts_ok (map snd m')" "sent_only sent (map snd m')"
    "\<And>a. tracked sent gone (map snd m) a \<Longrightarrow> tracked sent gone (map snd m') a"
proof -
  have "keyed m' \<and> alerts_ok (map snd m') \<and> sent_only sent (map snd m') \<and> (\<forall>a. tracked sent gone (map snd m) a \<longrightarrow> tracked sent gone (map snd m') a)"
  proof (cases "m' = m")
    case True
    with assms show ?thesis by simp
  next
    case False
    from assms(1) False obtain cur upd where cur: "map_of m key = Some cur" "\<not> finished cur" and m': "m' = AList.update key upd m"
      and u: "attempted ob now newly cur = Inr upd"
      by (auto simp: merge_outcome_def rbind_eq_Inr split: option.splits if_splits)
    from attempted_fields [OF u]
    have upd: "ar_dedupe_key upd = ar_dedupe_key cur" "ar_created_at upd = ar_created_at cur"
        "ar_delivered_channels upd = sorted_set (ar_delivered_channels cur @ newly)"
        "ar_pending_channels upd = filter (\<lambda>ch. ch \<notin> set newly) (ar_pending_channels cur)"
        "finished upd \<Longrightarrow> ar_pending_channels upd = []" by simp_all
    have mem: "(key, cur) \<in> set m" using cur(1) by (rule map_of_SomeD)
    have key: "ar_dedupe_key cur = key" using mem assms(2) by (auto simp: keyed_def)
    have cur_set: "cur \<in> set (map snd m)" using mem by force
    have keyed: "keyed m'" unfolding m' using assms(2) upd(1) key by (simp add: keyed_update)
    have ok: "record_ok cur" using assms(3) cur_set by (auto simp: alerts_ok_def)
    have sub: "set (map snd m') \<subseteq> insert upd (set (map snd m))" unfolding m' using set_update_subset [of key upd m] by fastforce
    have "record_ok upd"
    proof -
      have "sorted (ar_pending_channels cur)" "distinct (ar_pending_channels cur)"
        using ok by (metis record_ok_def sorted_sorted_set, metis record_ok_def distinct_sorted_set)
      then have "sorted (ar_pending_channels upd)" "distinct (ar_pending_channels upd)"
        unfolding upd(4) by (simp_all add: sorted_wrt_filter)
      then have "sorted_set (ar_pending_channels upd) = ar_pending_channels upd"
        by (simp add: sorted_set_def distinct_remdups_id sorted_sort_id)
      then show ?thesis by (simp add: record_ok_def upd(3))
    qed
    moreover have "\<forall>r \<in> snd ` set m. record_ok r" "dict_ok m" using keyed_alerts_ok [OF assms(2)] assms(3) by blast+
    ultimately have "\<forall>r \<in> snd ` set m'. record_ok r" "dict_ok m'" using sub unfolding set_map by (blast, simp add: m')
    then have "alerts_ok (map snd m')" using keyed_alerts_ok [OF keyed] by blast
    moreover have sent: "sent_only sent (map snd m')"
      unfolding sent_only_def
    proof (intro ballI)
      fix r ch assume r: "r \<in> set (map snd m')" "ch \<in> set (ar_delivered_channels r)"
      show "(ar_dedupe_key r, ch) \<in> sent"
      proof (cases "r = upd")
        case True
        then show ?thesis using r(2) assms(4,5) cur_set upd(1,3) key by (auto simp: sent_only_def)
      next
        case False
        then have "r \<in> set (map snd m)" using r(1) sub by blast
        then show ?thesis using r(2) assms(4) unfolding sent_only_def by blast
      qed
    qed
    moreover have "tracked sent gone (map snd m') a" if "tracked sent gone (map snd m) a" for a
    proof (rule tracked_step [OF that])
      fix r assume r: "r \<in> set (map snd m)" "\<not> finished r"
      show "onward sent gone (map snd m') r"
      proof (cases "r = cur")
        case True
        have chs: "channels_of cur \<subseteq> channels_of upd" by (auto simp: channels_of_def upd(3,4))
        show ?thesis
        proof (cases "finished upd")
          case True
          then have "channels_of upd \<subseteq> set (ar_delivered_channels upd)" using upd(5) by (simp add: channels_of_def)
          then have "\<forall>ch \<in> channels_of cur. (ar_dedupe_key cur, ch) \<in> sent"
            using chs sent upd(1) update_has [of key upd m] by (force simp: sent_only_def m')
          then show ?thesis using \<open>r = cur\<close> by (simp add: onward_def)
        next
          case False
          have "upd \<in> set (map snd m')" unfolding m' using update_has [of key upd m] by force
          then show ?thesis using False chs upd(1,2) \<open>r = cur\<close> unfolding onward_def by blast
        qed
      next
        case False
        obtain k where k: "(k, r) \<in> set m" using r(1) by auto
        then have "k \<noteq> key" using False mem assms(2,3) keyed_alerts_ok [OF assms(2)] eq_key_imp_eq_value [of m key r cur] by auto
        then have "r \<in> set (map snd m')" unfolding m' using update_keeps_others [OF k] by force
        then show ?thesis using r(2) by (auto simp: onward_def)
      qed
    qed simp_all
    ultimately show ?thesis using keyed by blast
  qed
  then show "keyed m'" "alerts_ok (map snd m')" "sent_only sent (map snd m')"
    "\<And>a. tracked sent gone (map snd m) a \<Longrightarrow> tracked sent gone (map snd m') a" by blast+
qed


lemma merge_outcomes:
  assumes "rfold (merge_outcome ob now) outcomes (by_key rs) = Inr m" "alerts_ok rs" "sent_only sent rs"
    "\<forall>(key, newly) \<in> set outcomes. \<forall>ch \<in> set newly. (key, ch) \<in> sent"
  shows "alerts_ok (map snd m)" "sent_only sent (map snd m)" "\<And>a. tracked sent gone rs a \<Longrightarrow> tracked sent gone (map snd m) a"
proof -
  let ?P = "\<lambda>m. keyed m \<and> alerts_ok (map snd m) \<and> sent_only sent (map snd m) \<and> (\<forall>a. tracked sent gone rs a \<longrightarrow> tracked sent gone (map snd m) a)"
  have "?P m"
  proof (rule rfold_invariant [OF assms(1)])
    have "map snd (by_key rs) = rs" by (simp add: by_key_ok [OF assms(2)] comp_def)
    then show "?P (by_key rs)" using assms(2,3) by (auto simp: by_key_ok [OF assms(2)] keyed_def)
  next
    fix oc m1 m2 assume step: "oc \<in> set outcomes" "?P m1" "merge_outcome ob now oc m1 = Inr m2"
    obtain key newly where oc: "oc = (key, newly)" by (cases oc)
    have m1: "keyed m1" "alerts_ok (map snd m1)" "sent_only sent (map snd m1)" using step(2) by blast+
    have "\<forall>ch \<in> set newly. (key, ch) \<in> sent" using assms(4) step(1) oc by blast
    note laws = merge_outcome_step [OF step(3) [unfolded oc] m1 this]
    show "?P m2" using laws step(2) by blast
  qed
  then show "alerts_ok (map snd m)" "sent_only sent (map snd m)" "\<And>a. tracked sent gone rs a \<Longrightarrow> tracked sent gone (map snd m) a" by blast+
qed

lemma drain_outcomes_from:
  "(key, newly) \<in> set (fold (\<lambda>r. AList.update (ar_dedupe_key r) (delivered_now deliver r)) rs m)
   \<Longrightarrow> (key, newly) \<in> set m \<or> (\<exists>r \<in> set rs. key = ar_dedupe_key r \<and> newly = delivered_now deliver r)"
proof (induction rs arbitrary: m)
  case (Cons r rs)
  have "(key, newly) \<in> set (AList.update (ar_dedupe_key r) (delivered_now deliver r) m) \<or> (\<exists>x \<in> set rs. key = ar_dedupe_key x \<and> newly = delivered_now deliver x)"
    using Cons.IH Cons.prems by simp
  then show ?case using set_update_subset [of "ar_dedupe_key r" "delivered_now deliver r" m] by auto
qed simp

lemma drain_outcomes_sent:
  "(key, newly) \<in> set (drain_outcomes deliver rs) \<Longrightarrow> \<exists>r \<in> set rs. key = ar_dedupe_key r \<and> newly = delivered_now deliver r"
  using drain_outcomes_from [of key newly deliver rs "[]"] by (simp add: drain_outcomes_def)

section \<open>Expiry\<close>

definition expiries :: "outbox \<Rightarrow> timestamp \<Rightarrow> alert_record list \<Rightarrow> (string \<times> timestamp \<times> timestamp) set" where
  "expiries ob now rs = {(ar_dedupe_key r, ar_created_at r, now) | r. r \<in> set rs \<and> overdue ob now r}"

lemma expire_simps [simp]:
  "ar_dedupe_key (expire now r) = ar_dedupe_key r" "ar_delivered_channels (expire now r) = ar_delivered_channels r" "finished (expire now r)"
  "ar_created_at (expire now r) = ar_created_at r" "record_ok r \<Longrightarrow> record_ok (expire now r)"
  by (simp_all add: expire_def finished_def record_ok_def)

lemma expired_alerts:
  fixes rs :: "alert_record list" and ob :: outbox and now :: timestamp defines "rs' \<equiv> map (\<lambda>r. if overdue ob now r then expire now r else r) rs"
  assumes "alerts_ok rs" "sent_only sent rs"
  shows "alerts_ok rs'" "sent_only sent rs'" "\<And>a. tracked sent gone rs a \<Longrightarrow> tracked sent (gone \<union> expiries ob now rs) rs' a"
proof -
  have keys: "map ar_dedupe_key rs' = map ar_dedupe_key rs" by (simp add: rs'_def comp_def if_distrib cong: if_cong)
  show "alerts_ok rs'" using assms(2) unfolding alerts_ok_def keys by (auto simp: rs'_def)
  show "sent_only sent rs'" using assms(3) by (auto simp: sent_only_def rs'_def)
  show "tracked sent (gone \<union> expiries ob now rs) rs' a" if "tracked sent gone rs a" for a
  proof (rule tracked_step [OF that])
    fix r assume r: "r \<in> set rs" "\<not> finished r"
    show "onward sent (gone \<union> expiries ob now rs) rs' r"
    proof (cases "overdue ob now r")
      case True
      then show ?thesis using r(1) unfolding onward_def expiries_def by blast
    next
      case False
      then have "r \<in> set rs'" using r(1) by (force simp: rs'_def)
      then show ?thesis using r(2) unfolding onward_def by blast
    qed
  qed auto
qed

section \<open>Runs of the outbox\<close>

text \<open>Any number of processes work on the outbox: what one of them has loaded, and what it has
  delivered without having written it down, is in its memory while others take their steps, and is lost
  when it dies.  The sets at the end record what has happened.\<close>

record outbox_world =
  ow_disk :: outbox_disk
  ow_due :: "alert_record list set"
  ow_outcomes :: "(string, channel list) dict set"
  ow_accepted :: "(string \<times> channel list \<times> timestamp) set"
  ow_sent :: "(string \<times> channel) set"
  ow_gone :: "(string \<times> timestamp \<times> timestamp) set"

definition fresh_outbox :: outbox_world where
  "fresh_outbox = \<lparr>ow_disk = \<lparr>od_file = NoFile, od_quarantine = []\<rparr>, ow_due = {}, ow_outcomes = {}, ow_accepted = {}, ow_sent = {}, ow_gone = {}\<rparr>"

definition stored :: "outbox \<Rightarrow> outbox_io \<Rightarrow> outbox_disk \<Rightarrow> alert_record list" where
  "stored ob io d = (case fst (load_locked ob io d) of Inl _ \<Rightarrow> [] | Inr rs \<Rightarrow> rs)"

definition accepts :: "outbox \<Rightarrow> outbox_io \<Rightarrow> string \<Rightarrow> channel list \<Rightarrow> timestamp \<Rightarrow> bool \<Rightarrow> outbox_disk \<Rightarrow> (string \<times> channel list \<times> timestamp) set" where
  "accepts ob io key channels now ok d =
     (if ok \<and> channels \<noteq> [] \<and> key \<notin> ar_dedupe_key ` set (stored ob io d) then {(key, channels, now)} else {})"

inductive outbox_run :: "outbox \<Rightarrow> outbox_world \<Rightarrow> bool" for ob where
  start: "outbox_run ob fresh_outbox"
| accept: "outbox_run ob w \<Longrightarrow> io_read io \<Longrightarrow> sorted_set channels = channels \<Longrightarrow> \<not> prefix overflow_prefix key
    \<Longrightarrow> enqueue ob io event detail decision_time key channels now (ow_disk w) = (ok, d)
    \<Longrightarrow> outbox_run ob (w\<lparr>ow_disk := d, ow_accepted := ow_accepted w \<union> accepts ob io key channels (as_utc now) ok (ow_disk w)\<rparr>)"
| load: "outbox_run ob w \<Longrightarrow> io_read io \<Longrightarrow> drain_load ob io now (ow_disk w) = (Some rs, d)
    \<Longrightarrow> outbox_run ob (w\<lparr>ow_disk := d, ow_due := insert rs (ow_due w)\<rparr>)"
| send: "outbox_run ob w \<Longrightarrow> rs \<in> ow_due w
    \<Longrightarrow> outbox_run ob (w\<lparr>ow_outcomes := insert (drain_outcomes deliver rs) (ow_outcomes w),
          ow_sent := ow_sent w \<union> {(ar_dedupe_key r, ch) | r ch. r \<in> set rs \<and> ch \<in> set (ar_pending_channels r) \<and> deliver r ch = Inr True}\<rparr>)"
| merge: "outbox_run ob w \<Longrightarrow> io_read io \<Longrightarrow> outcomes \<in> ow_outcomes w
    \<Longrightarrow> outbox_run ob (w\<lparr>ow_disk := drain_merge ob io now outcomes (ow_disk w)\<rparr>)"
| expiry: "outbox_run ob w \<Longrightarrow> io_read io \<Longrightarrow> finalize ob io now (ow_disk w) = (report, d)
    \<Longrightarrow> outbox_run ob (w\<lparr>ow_disk := d, ow_gone := ow_gone w \<union> expiries ob now (stored ob io (ow_disk w))\<rparr>)"

definition outbox_invariant :: "outbox \<Rightarrow> outbox_world \<Rightarrow> bool" where
  "outbox_invariant ob w \<longleftrightarrow> (\<exists>rs. holds ob (ow_disk w) rs \<and> sent_only (ow_sent w) rs \<and> (\<forall>a \<in> ow_accepted w. tracked (ow_sent w) (ow_gone w) rs a))
     \<and> (\<forall>outcomes \<in> ow_outcomes w. \<forall>(key, newly) \<in> set outcomes. \<forall>ch \<in> set newly. (key, ch) \<in> ow_sent w)
     \<and> (\<forall>(key, created, now) \<in> ow_gone w. ob_max_age_s ob < ob_total_seconds ob (now - created))"


text \<open>What each critical section makes of the stored alerts.\<close>

lemma stored_holds: "outbox_ok ob \<Longrightarrow> holds ob d rs \<Longrightarrow> io_read io \<Longrightarrow> stored ob io d = rs"
  by (simp add: stored_def load_holds)

lemma enqueue_step:
  assumes "outbox_ok ob" "holds ob d rs" "io_read io" "sorted_set channels = channels" "\<not> prefix overflow_prefix key"
    "enqueue ob io event detail decision_time key channels now d = (ok, d')" "sent_only sent rs"
  obtains rs' where "holds ob d' rs'" "sent_only sent rs'" "\<And>a. tracked sent gone rs a \<Longrightarrow> tracked sent gone rs' a"
    "\<And>a. a \<in> accepts ob io key channels (as_utc now) ok d \<Longrightarrow> tracked sent gone rs' a"
proof -
  let ?n = "as_utc now" and ?s = "event_severity event"
  let ?a = "new_alert key event ?s detail decision_time channels ?n"
  note stored = stored_holds [OF assms(1-3)]
  have ok: "alerts_ok rs" using assms(2) by (simp add: holds_def)
  consider "d' = d" "\<not> ok \<or> key \<in> ar_dedupe_key ` set rs"
    | "key \<notin> ar_dedupe_key ` set rs" "channels = []" "write_locked ob io (prune ob ?n (rs @ [?a\<lparr>ar_completed_at := Some ?n, ar_expired := True\<rparr>])) d = (ok, d')"
    | kept where "key \<notin> ar_dedupe_key ` set rs" "channels \<noteq> []" "admit ob ?s channels ?n rs = Some kept" "write_locked ob io (kept @ [?a]) d = (ok, d')"
    using assms(6) load_holds [OF assms(1-3)] by (auto simp: enqueue_def Let_def split: if_splits option.splits)
  then show ?thesis
  proof cases
    case 1
    then show ?thesis using that [of rs] assms(2,7) by (auto simp: accepts_def stored)
  next
    case 2
    let ?e = "?a\<lparr>ar_completed_at := Some ?n, ar_expired := True\<rparr>" and ?rs = "rs @ [?a\<lparr>ar_completed_at := Some ?n, ar_expired := True\<rparr>]"
    have e: "ar_dedupe_key ?e = key" "ar_delivered_channels ?e = []" "record_ok ?e" by (simp_all add: new_alert_def record_ok_def sorted_set_def 2(2))
    have "alerts_ok (prune ob ?n ?rs)" using ok e 2(1) by (intro alerts_ok_prune alerts_ok_snoc) auto
    note h = write_holds [OF assms(2) this 2(3)]
    have "sent_only sent ?rs" using assms(7) e(2) by (auto simp: sent_only_def)
    then have s: "sent_only sent (prune ob ?n ?rs)" by (rule sent_only_mono [OF _ set_prune order_refl])
    show ?thesis
    proof (rule that [OF h(1)])
      show "sent_only sent (if io_write io \<or> io_landed io then prune ob ?n ?rs else rs)" using s assms(7) by simp
      show "tracked sent gone (if io_write io \<or> io_landed io then prune ob ?n ?rs else rs) a" if "tracked sent gone rs a" for a
        using tracked_keep [OF that, of "prune ob ?n ?rs"] prune_keeps [of _ ?rs] that by auto
    qed (simp add: accepts_def 2(2))
  next
    case 3
    note kept = admit_keeps [OF 3(3) ok assms(4)]
    have "key \<notin> ar_dedupe_key ` set kept" using kept(3) 3(1) assms(5) by fastforce
    then have "alerts_ok (kept @ [?a])" using kept(1) assms(4) by (intro alerts_ok_snoc) simp_all
    note h = write_holds [OF assms(2) this 3(4)]
    have s: "sent_only sent (kept @ [?a])" using assms(7) kept(3) by (force simp: sent_only_def)
    show ?thesis
    proof (rule that [OF h(1)])
      show "sent_only sent (if io_write io \<or> io_landed io then kept @ [?a] else rs)" using s assms(7) by simp
      show "tracked sent gone (if io_write io \<or> io_landed io then kept @ [?a] else rs) a" if "tracked sent gone rs a" for a
        using tracked_keep [OF that, of "kept @ [?a]"] kept(2) that by auto
      show "tracked sent gone (if io_write io \<or> io_landed io then kept @ [?a] else rs) a" if "a \<in> accepts ob io key channels ?n ok d" for a
        using that h(2) by (auto simp: accepts_def tracked_def split: if_splits)
    qed
  qed
qed

lemma drain_merge_step:
  assumes "outbox_ok ob" "holds ob d rs" "io_read io" "sent_only sent rs"
    "\<forall>(key, newly) \<in> set outcomes. \<forall>ch \<in> set newly. (key, ch) \<in> sent"
  obtains rs' where "holds ob (drain_merge ob io now outcomes d) rs'" "sent_only sent rs'" "\<And>a. tracked sent gone rs a \<Longrightarrow> tracked sent gone rs' a"
proof (cases "drain_merge ob io now outcomes d = d")
  case True
  then show ?thesis using that [of rs] assms(2,4) by simp
next
  case False
  then obtain m ok where m: "rfold (merge_outcome ob now) outcomes (by_key rs) = Inr m"
      "write_locked ob io (prune ob now (map snd m)) d = (ok, drain_merge ob io now outcomes d)"
    by (auto simp: drain_merge_def load_holds [OF assms(1-3)] prod_eq_iff split: if_splits sum.splits)
  have ok: "alerts_ok rs" using assms(2) by (simp add: holds_def)
  note laws = merge_outcomes [OF m(1) ok assms(4,5)]
  have "alerts_ok (prune ob now (map snd m))" using laws(1) by (rule alerts_ok_prune)
  note h = write_holds [OF assms(2) this m(2)]
  have s: "sent_only sent (prune ob now (map snd m))" by (rule sent_only_mono [OF laws(2) set_prune order_refl])
  show ?thesis
  proof (rule that [OF h(1)])
    show "sent_only sent (if io_write io \<or> io_landed io then prune ob now (map snd m) else rs)" using s assms(4) by simp
    show "tracked sent gone (if io_write io \<or> io_landed io then prune ob now (map snd m) else rs) a" if "tracked sent gone rs a" for a
      using tracked_keep [OF laws(3) [OF that], of "prune ob now (map snd m)"] prune_keeps that by auto
  qed
qed

lemma finalize_step:
  assumes "outbox_ok ob" "holds ob d rs" "io_read io" "sent_only sent rs" "finalize ob io now d = (report, d')"
  obtains rs' where "holds ob d' rs'" "sent_only sent rs'" "\<And>a. tracked sent gone rs a \<Longrightarrow> tracked sent (gone \<union> expiries ob now rs) rs' a"
proof (cases "d' = d")
  case True
  have "tracked sent (gone \<union> expiries ob now rs) rs a" if "tracked sent gone rs a" for a
    by (rule tracked_step [OF that]) (auto simp: onward_def)
  then show ?thesis using that [of rs] assms(2,4) True by blast
next
  case False
  let ?x = "map (\<lambda>r. if overdue ob now r then expire now r else r) rs"
  let ?rs = "prune ob now ?x"
  from False assms(5) obtain ok where w: "write_locked ob io ?rs d = (ok, d')"
    by (auto simp: finalize_def Let_def load_holds [OF assms(1-3)] prod_eq_iff split: if_splits)
  have ok: "alerts_ok rs" using assms(2) by (simp add: holds_def)
  note laws = expired_alerts [OF ok assms(4), where ob = ob and now = now]
  note h = write_holds [OF assms(2) alerts_ok_prune [OF laws(1)] w]
  have s: "sent_only sent ?rs" by (rule sent_only_mono [OF laws(2) set_prune order_refl])
  have rs: "tracked sent (gone \<union> expiries ob now rs) rs a" if "tracked sent gone rs a" for a
    by (rule tracked_step [OF that]) (auto simp: onward_def)
  show ?thesis
  proof (rule that [OF h(1)])
    show "sent_only sent (if io_write io \<or> io_landed io then ?rs else rs)" using s assms(4) by simp
    show "tracked sent (gone \<union> expiries ob now rs) (if io_write io \<or> io_landed io then ?rs else rs) a" if "tracked sent gone rs a" for a
      using tracked_keep [OF laws(3) [OF that], of ?rs] prune_keeps [of _ ?x] rs [OF that] by simp
  qed
qed


definition outcomes_sent :: "(string \<times> channel) set \<Rightarrow> (string, channel list) dict \<Rightarrow> bool" where
  "outcomes_sent sent outcomes \<longleftrightarrow> (\<forall>(key, newly) \<in> set outcomes. \<forall>ch \<in> set newly. (key, ch) \<in> sent)"

lemma outbox_invariantI:
  assumes "holds ob (ow_disk w) rs" "sent_only (ow_sent w) rs" "\<And>a. a \<in> ow_accepted w \<Longrightarrow> tracked (ow_sent w) (ow_gone w) rs a"
    "\<And>oc. oc \<in> ow_outcomes w \<Longrightarrow> outcomes_sent (ow_sent w) oc"
    "\<And>key created now. (key, created, now) \<in> ow_gone w \<Longrightarrow> ob_max_age_s ob < ob_total_seconds ob (now - created)"
  shows "outbox_invariant ob w"
proof -
  have "\<exists>rs. holds ob (ow_disk w) rs \<and> sent_only (ow_sent w) rs \<and> (\<forall>a \<in> ow_accepted w. tracked (ow_sent w) (ow_gone w) rs a)"
    using assms(1-3) by blast
  moreover have "\<forall>oc \<in> ow_outcomes w. outcomes_sent (ow_sent w) oc" using assms(4) by blast
  moreover have "\<forall>(key, created, now) \<in> ow_gone w. ob_max_age_s ob < ob_total_seconds ob (now - created)" using assms(5) by blast
  ultimately show ?thesis unfolding outbox_invariant_def outcomes_sent_def by (intro conjI)
qed

lemma outbox_invariantE:
  assumes "outbox_invariant ob w"
  obtains rs where "holds ob (ow_disk w) rs" "sent_only (ow_sent w) rs" "\<And>a. a \<in> ow_accepted w \<Longrightarrow> tracked (ow_sent w) (ow_gone w) rs a"
    "\<And>oc. oc \<in> ow_outcomes w \<Longrightarrow> outcomes_sent (ow_sent w) oc"
    "\<And>key created now. (key, created, now) \<in> ow_gone w \<Longrightarrow> ob_max_age_s ob < ob_total_seconds ob (now - created)"
proof -
  from assms obtain rs where rs: "holds ob (ow_disk w) rs" "sent_only (ow_sent w) rs" "\<forall>a \<in> ow_accepted w. tracked (ow_sent w) (ow_gone w) rs a"
    unfolding outbox_invariant_def by (elim exE conjE)
  show ?thesis
  proof (rule that [OF rs(1,2)])
    show "tracked (ow_sent w) (ow_gone w) rs a" if "a \<in> ow_accepted w" for a using rs(3) that by (rule bspec)
    show "outcomes_sent (ow_sent w) oc" if "oc \<in> ow_outcomes w" for oc using assms that unfolding outbox_invariant_def outcomes_sent_def by blast
    show "ob_max_age_s ob < ob_total_seconds ob (now - created)" if "(key, created, now) \<in> ow_gone w" for key created now
      using assms that unfolding outbox_invariant_def by blast
  qed
qed

lemma outbox_run_invariant:
  assumes ok: "outbox_ok ob" and run: "outbox_run ob w" shows "outbox_invariant ob w"
  using run
proof induction
  case start
  show ?case by (rule outbox_invariantI [of _ _ "[]"]) (simp_all add: fresh_outbox_def holds_def alerts_ok_def sent_only_def)
next
  case (accept w io channels key event detail decision_time now res d)
  from accept.IH show ?case
  proof (rule outbox_invariantE)
    fix rs assume rs: "holds ob (ow_disk w) rs" "sent_only (ow_sent w) rs" "\<And>a. a \<in> ow_accepted w \<Longrightarrow> tracked (ow_sent w) (ow_gone w) rs a"
      "\<And>oc. oc \<in> ow_outcomes w \<Longrightarrow> outcomes_sent (ow_sent w) oc"
      "\<And>key created now. (key, created, now) \<in> ow_gone w \<Longrightarrow> ob_max_age_s ob < ob_total_seconds ob (now - created)"
    obtain rs' where "holds ob d rs'" "sent_only (ow_sent w) rs'" "\<And>a. tracked (ow_sent w) (ow_gone w) rs a \<Longrightarrow> tracked (ow_sent w) (ow_gone w) rs' a"
        "\<And>a. a \<in> accepts ob io key channels (as_utc now) res (ow_disk w) \<Longrightarrow> tracked (ow_sent w) (ow_gone w) rs' a"
      by (rule enqueue_step [where gone = "ow_gone w", OF ok rs(1) accept.hyps(2-5) rs(2)]) (rule that)
    then show ?thesis using rs(3-5) by (intro outbox_invariantI [of _ _ rs']) auto
  qed
next
  case (load w io now rs d)
  from load.IH show ?case
  proof (rule outbox_invariantE)
    fix ss assume ss: "holds ob (ow_disk w) ss"
    have "d = ow_disk w" using load.hyps(3) load_holds [OF ok ss load.hyps(2)] by (simp add: drain_load_def split: if_splits)
    then show ?thesis using load.IH by (simp add: outbox_invariant_def)
  qed
next
  case (send w rs deliver)
  let ?sent = "ow_sent w \<union> {(ar_dedupe_key r, ch) | r ch. r \<in> set rs \<and> ch \<in> set (ar_pending_channels r) \<and> deliver r ch = Inr True}"
  from send.IH show ?case
  proof (rule outbox_invariantE)
    fix ss assume ss: "holds ob (ow_disk w) ss" "sent_only (ow_sent w) ss" "\<And>a. a \<in> ow_accepted w \<Longrightarrow> tracked (ow_sent w) (ow_gone w) ss a"
      "\<And>oc. oc \<in> ow_outcomes w \<Longrightarrow> outcomes_sent (ow_sent w) oc"
      "\<And>key created now. (key, created, now) \<in> ow_gone w \<Longrightarrow> ob_max_age_s ob < ob_total_seconds ob (now - created)"
    have sent: "sent_only ?sent ss" by (rule sent_only_mono [OF ss(2)]) auto
    have tracked: "tracked ?sent (ow_gone w) ss a" if "a \<in> ow_accepted w" for a
      by (rule tracked_step [OF ss(3) [OF that]]) (auto simp: onward_def)
    have "(key, ch) \<in> ?sent" if "(key, newly) \<in> set (drain_outcomes deliver rs)" "ch \<in> set newly" for key newly ch
      using drain_outcomes_sent [OF that(1)] that(2) by (auto simp: delivered_now_def)
    then have new: "outcomes_sent ?sent (drain_outcomes deliver rs)" unfolding outcomes_sent_def by blast
    have old: "outcomes_sent ?sent oc" if "oc \<in> ow_outcomes w" for oc using ss(4) [OF that] unfolding outcomes_sent_def by blast
    show ?thesis by (rule outbox_invariantI [of _ _ ss]) (use ss(1,5) sent tracked new old in auto)
  qed
next
  case (merge w io outcomes now)
  from merge.IH show ?case
  proof (rule outbox_invariantE)
    fix rs assume rs: "holds ob (ow_disk w) rs" "sent_only (ow_sent w) rs" "\<And>a. a \<in> ow_accepted w \<Longrightarrow> tracked (ow_sent w) (ow_gone w) rs a"
      "\<And>oc. oc \<in> ow_outcomes w \<Longrightarrow> outcomes_sent (ow_sent w) oc"
      "\<And>key created now. (key, created, now) \<in> ow_gone w \<Longrightarrow> ob_max_age_s ob < ob_total_seconds ob (now - created)"
    obtain rs' where "holds ob (drain_merge ob io now outcomes (ow_disk w)) rs'" "sent_only (ow_sent w) rs'"
        "\<And>a. tracked (ow_sent w) (ow_gone w) rs a \<Longrightarrow> tracked (ow_sent w) (ow_gone w) rs' a"
      by (rule drain_merge_step [where gone = "ow_gone w", OF ok rs(1) merge.hyps(2) rs(2) rs(4) [OF merge.hyps(3), unfolded outcomes_sent_def]]) (rule that)
    then show ?thesis using rs(3-5) by (intro outbox_invariantI [of _ _ rs']) auto
  qed
next
  case (expiry w io now report d)
  from expiry.IH show ?case
  proof (rule outbox_invariantE)
    fix rs assume rs: "holds ob (ow_disk w) rs" "sent_only (ow_sent w) rs" "\<And>a. a \<in> ow_accepted w \<Longrightarrow> tracked (ow_sent w) (ow_gone w) rs a"
      "\<And>oc. oc \<in> ow_outcomes w \<Longrightarrow> outcomes_sent (ow_sent w) oc"
      "\<And>key created now. (key, created, now) \<in> ow_gone w \<Longrightarrow> ob_max_age_s ob < ob_total_seconds ob (now - created)"
    have old: "stored ob io (ow_disk w) = rs" by (rule stored_holds [OF ok rs(1) expiry.hyps(2)])
    have aged: "ob_max_age_s ob < ob_total_seconds ob (n - created)" if "(key, created, n) \<in> expiries ob now rs" for key created n
      using that by (auto simp: expiries_def overdue_def)
    obtain rs' where "holds ob d rs'" "sent_only (ow_sent w) rs'"
        "\<And>a. tracked (ow_sent w) (ow_gone w) rs a \<Longrightarrow> tracked (ow_sent w) (ow_gone w \<union> expiries ob now rs) rs' a"
      by (rule finalize_step [where gone = "ow_gone w", OF ok rs(1) expiry.hyps(2) rs(2) expiry.hyps(3)]) (rule that)
    then show ?thesis using rs(3-5) aged by (intro outbox_invariantI [of _ _ rs']) (auto simp: old)
  qed
qed

text \<open>
  C25: an accepted alert is never lost.  However many processes work on the outbox, in whatever order
  their critical sections and deliveries come, whichever of them dies in between and whichever lock or
  write fails: an alert that was accepted is in the outbox, with every requested channel pending or
  delivered; or every requested channel has been delivered; or the alert has been given up because it
  was older than the maximal age.  The hypothesis \<open>outbox_ok\<close> says that a written instant reads back;
  the runs are those in which the file can be read.
\<close>

theorem accepted_alert_never_lost:
  assumes "outbox_ok ob" "outbox_run ob w" "(key, channels, created) \<in> ow_accepted w" "io_read io"
  shows "(\<exists>r \<in> set (stored ob io (ow_disk w)). ar_dedupe_key r = key \<and> ar_created_at r = created \<and> \<not> finished r
       \<and> (\<forall>ch \<in> set channels. ch \<in> set (ar_pending_channels r) \<or> (key, ch) \<in> ow_sent w))
     \<or> (\<forall>ch \<in> set channels. (key, ch) \<in> ow_sent w)
     \<or> (\<exists>now. (key, created, now) \<in> ow_gone w \<and> ob_max_age_s ob < ob_total_seconds ob (now - created))"
proof -
  have inv: "outbox_invariant ob w" by (rule outbox_run_invariant [OF assms(1,2)])
  then obtain rs where rs: "holds ob (ow_disk w) rs" "sent_only (ow_sent w) rs" "\<forall>a \<in> ow_accepted w. tracked (ow_sent w) (ow_gone w) rs a"
    by (auto simp: outbox_invariant_def)
  have "tracked (ow_sent w) (ow_gone w) rs (key, channels, created)" using rs(3) assms(3) by (rule bspec)
  then consider r where "r \<in> set rs" "ar_dedupe_key r = key" "ar_created_at r = created" "\<not> finished r"
      "set channels \<subseteq> set (ar_pending_channels r) \<union> set (ar_delivered_channels r)"
    | "\<forall>ch \<in> set channels. (key, ch) \<in> ow_sent w" | now where "(key, created, now) \<in> ow_gone w"
    by (auto simp: tracked_def)
  then show ?thesis
  proof cases
    case 1
    then have "\<forall>ch \<in> set channels. ch \<in> set (ar_pending_channels r) \<or> (key, ch) \<in> ow_sent w"
      using rs(2) by (auto simp: sent_only_def)
    with 1 show ?thesis unfolding stored_holds [OF assms(1) rs(1) assms(4)] by blast
  next
    case 3
    then have "ob_max_age_s ob < ob_total_seconds ob (now - created)" using inv unfolding outbox_invariant_def by fastforce
    with 3 show ?thesis by blast
  qed blast
qed


section \<open>What a drain does\<close>

text \<open>The effect of a drain on the list of alerts: one attempt for every due alert, then expiry.\<close>

definition attempt_due :: "outbox \<Rightarrow> (alert_record \<Rightarrow> channel \<Rightarrow> bool res) \<Rightarrow> timestamp \<Rightarrow> alert_record \<Rightarrow> alert_record" where
  "attempt_due ob deliver now r =
     (if due now r then case attempted ob now (delivered_now deliver r) r of Inl _ \<Rightarrow> r | Inr u \<Rightarrow> u else r)"

definition age :: "outbox \<Rightarrow> timestamp \<Rightarrow> alert_record \<Rightarrow> alert_record" where
  "age ob now r = (if overdue ob now r then expire now r else r)"

definition drain_spec :: "outbox \<Rightarrow> (alert_record \<Rightarrow> channel \<Rightarrow> bool res) \<Rightarrow> timestamp \<Rightarrow> alert_record list \<Rightarrow> alert_record list" where
  "drain_spec ob deliver now rs =
     (if \<exists>r \<in> set rs. due now r \<or> overdue ob now r then prune ob now (map (\<lambda>r. age ob now (attempt_due ob deliver now r)) rs) else rs)"

definition io_fine :: "outbox_io \<Rightarrow> bool" where
  "io_fine io \<longleftrightarrow> io_lock io \<and> io_read io \<and> io_write io"

lemma prune_idem [simp]: "prune ob now (prune ob now rs) = prune ob now rs"
  by (simp add: prune_def Let_def)

lemma age_finished [simp]: "finished r \<Longrightarrow> age ob now r = r"
  by (auto simp: age_def overdue_def finished_def)

lemma age_created [simp]: "ar_created_at (age ob now r) = ar_created_at r"
  by (simp add: age_def)

lemma prune_age: "prune ob now (map (age ob now) (prune ob now rs)) = prune ob now (map (age ob now) rs)"
  by (induction rs) (auto simp: prune_def Let_def)

lemma age_none: "\<forall>r \<in> set rs. \<not> overdue ob now r \<Longrightarrow> map (age ob now) rs = rs"
  by (induction rs) (simp_all add: age_def)

lemma update_keyed_map:
  "distinct (map k rs) \<Longrightarrow> x \<in> set rs \<Longrightarrow> AList.update (k x) v (map (\<lambda>r. (k r, g r)) rs) = map (\<lambda>r. (k r, if r = x then v else g r)) rs"
  by (induction rs) (auto simp: image_iff)

lemma map_of_keyed_map: "distinct (map k rs) \<Longrightarrow> x \<in> set rs \<Longrightarrow> map_of (map (\<lambda>r. (k r, g r)) rs) (k x) = Some (g x)"
  by (induction rs) (auto simp: image_iff)

lemma attempted_total:
  assumes "ar_attempts r < 1024" obtains u where "attempted ob now newly r = Inr u"
proof -
  have "\<exists>x. backoff_delay_s ob (ar_attempts r + 1) = Inr x" using assms by (simp add: backoff_delay_s_def Let_def)
  then have "\<exists>u. attempted ob now newly r = Inr u" by (auto simp: attempted_def Let_def)
  then show ?thesis using that by blast
qed

lemma merge_due:
  assumes "distinct (map ar_dedupe_key rs)" "set ds \<subseteq> set rs" "distinct ds"
    "\<And>r. r \<in> set ds \<Longrightarrow> g r = r \<and> \<not> finished r \<and> attempted ob now (newly r) r = Inr (u r)"
  shows "rfold (merge_outcome ob now) (map (\<lambda>r. (ar_dedupe_key r, newly r)) ds) (map (\<lambda>r. (ar_dedupe_key r, g r)) rs)
    = Inr (map (\<lambda>r. (ar_dedupe_key r, if r \<in> set ds then u r else g r)) rs)"
  using assms(2-4)
proof (induction ds arbitrary: g)
  case (Cons x ds)
  have x: "x \<in> set rs" "g x = x" "\<not> finished x" "attempted ob now (newly x) x = Inr (u x)" using Cons.prems by auto
  let ?g = "\<lambda>r. if r = x then u x else g r"
  have "merge_outcome ob now (ar_dedupe_key x, newly x) (map (\<lambda>r. (ar_dedupe_key r, g r)) rs) = Inr (map (\<lambda>r. (ar_dedupe_key r, ?g r)) rs)"
    using map_of_keyed_map [OF assms(1) x(1), of g] update_keyed_map [OF assms(1) x(1), of "u x" g] x(2-4) by (simp add: merge_outcome_def)
  moreover have "rfold (merge_outcome ob now) (map (\<lambda>r. (ar_dedupe_key r, newly r)) ds) (map (\<lambda>r. (ar_dedupe_key r, ?g r)) rs)
      = Inr (map (\<lambda>r. (ar_dedupe_key r, if r \<in> set ds then u r else ?g r)) rs)"
    by (rule Cons.IH) (use Cons.prems in auto)
  moreover have "(if r \<in> set ds then u r else ?g r) = (if r \<in> set (x # ds) then u r else g r)" for r
    using Cons.prems(2) by auto
  ultimately show ?case by simp
qed simp

lemma drain_outcomes_map_from:
  "distinct (map ar_dedupe_key rs) \<Longrightarrow> ar_dedupe_key ` set rs \<inter> fst ` set m = {}
   \<Longrightarrow> fold (\<lambda>r. AList.update (ar_dedupe_key r) (delivered_now deliver r)) rs m = m @ map (\<lambda>r. (ar_dedupe_key r, delivered_now deliver r)) rs"
  by (induction rs arbitrary: m) (auto simp: update_fresh image_iff)

lemma drain_outcomes_map:
  "distinct (map ar_dedupe_key rs) \<Longrightarrow> drain_outcomes deliver rs = map (\<lambda>r. (ar_dedupe_key r, delivered_now deliver r)) rs"
  using drain_outcomes_map_from [of rs "[]" deliver] by (simp add: drain_outcomes_def)

lemma merge_drained:
  assumes "alerts_ok rs" "\<forall>r \<in> set rs. due now r \<longrightarrow> ar_attempts r < 1024"
  shows "rfold (merge_outcome ob now) (drain_outcomes deliver (filter (due now) rs)) (by_key rs)
    = Inr (map (\<lambda>r. (ar_dedupe_key r, attempt_due ob deliver now r)) rs)"
proof -
  let ?u = "\<lambda>r. attempt_due ob deliver now r"
  have keys: "distinct (map ar_dedupe_key rs)" using assms(1) by (simp add: alerts_ok_def)
  have u: "\<not> finished r \<and> attempted ob now (delivered_now deliver r) r = Inr (?u r)" if r: "r \<in> set (filter (due now) rs)" for r
  proof -
    from r assms(2) have "ar_attempts r < 1024" by simp
    then obtain v where "attempted ob now (delivered_now deliver r) r = Inr v" by (rule attempted_total)
    with r show ?thesis by (simp add: attempt_due_def due_def finished_def)
  qed
  have "rfold (merge_outcome ob now) (map (\<lambda>r. (ar_dedupe_key r, delivered_now deliver r)) (filter (due now) rs)) (map (\<lambda>r. (ar_dedupe_key r, r)) rs)
      = Inr (map (\<lambda>r. (ar_dedupe_key r, if r \<in> set (filter (due now) rs) then ?u r else r)) rs)"
    by (rule merge_due [OF keys]) (use u keys in \<open>auto simp: distinct_map\<close>)
  moreover have "map (\<lambda>r. (ar_dedupe_key r, if r \<in> set (filter (due now) rs) then ?u r else r)) rs = map (\<lambda>r. (ar_dedupe_key r, ?u r)) rs"
    by (simp add: attempt_due_def)
  ultimately show ?thesis
    by (simp add: drain_outcomes_map distinct_map_filter keys by_key_ok [OF assms(1)])
qed

lemma attempts_alerts_ok:
  assumes "alerts_ok rs" "\<forall>r \<in> set rs. due now r \<longrightarrow> ar_attempts r < 1024"
  shows "alerts_ok (map (attempt_due ob deliver now) rs)"
proof -
  note laws = merge_outcomes [OF merge_drained [OF assms] assms(1), of UNIV]
  show ?thesis using laws(1) by (simp add: sent_only_def comp_def)
qed


lemma finalize_fine:
  assumes "outbox_ok ob" "holds ob d rs" "io_fine io"
  obtains report d' where "finalize ob io now d = (report, d')"
    "holds ob d' (if \<exists>r \<in> set rs. overdue ob now r then prune ob now (map (age ob now) rs) else rs)"
    "dr_pending report = length (filter (\<lambda>r. \<not> finished r) (if \<exists>r \<in> set rs. overdue ob now r then prune ob now (map (age ob now) rs) else rs))"
proof -
  let ?rs = "prune ob now (map (age ob now) rs)" and ?n = "length (filter (overdue ob now) rs)"
  have io: "io_lock io" "io_read io" "io_write io" using assms(3) by (simp_all add: io_fine_def)
  have age: "map (\<lambda>r. if overdue ob now r then expire now r else r) rs = map (age ob now) rs" by (simp add: age_def)
  have n: "?n = 0 \<longleftrightarrow> \<not> (\<exists>r \<in> set rs. overdue ob now r)" by (simp add: filter_empty_conv)
  have fin: "finalize ob io now d = (if ?n = 0 then (drain_count 0 rs, d) else (drain_count ?n ?rs, snd (write_locked ob io ?rs d)))"
    by (simp add: finalize_def Let_def load_holds [OF assms(1,2) io(2)] io(1) age)
  have ok: "alerts_ok rs" "sent_only UNIV rs" using assms(2) by (simp_all add: holds_def sent_only_def)
  have "alerts_ok ?rs" using alerts_ok_prune [OF expired_alerts(1) [OF ok, where ob = ob and now = now]] unfolding age .
  then have w: "holds ob (snd (write_locked ob io ?rs d)) ?rs"
    using write_holds(1) [OF assms(2), of ?rs io] io(3) by (cases "write_locked ob io ?rs d") simp
  show ?thesis
  proof (cases "?n = 0")
    case True
    show ?thesis by (rule that [of "drain_count 0 rs" d]) (use True n fin assms(2) in \<open>simp_all add: drain_count_def Let_def\<close>)
  next
    case False
    show ?thesis by (rule that [of "drain_count ?n ?rs" "snd (write_locked ob io ?rs d)"]) (use False n fin w in \<open>simp_all add: drain_count_def Let_def\<close>)
  qed
qed

lemma drain_merge_fine:
  assumes "outbox_ok ob" "holds ob d rs" "io_fine io" "\<forall>r \<in> set rs. due now r \<longrightarrow> ar_attempts r < 1024"
  shows "holds ob (drain_merge ob io now (drain_outcomes deliver (filter (due now) rs)) d) (prune ob now (map (attempt_due ob deliver now) rs))"
proof -
  let ?rs = "prune ob now (map (attempt_due ob deliver now) rs)"
  have io: "io_lock io" "io_read io" "io_write io" using assms(3) by (simp_all add: io_fine_def)
  have ok: "alerts_ok rs" using assms(2) by (simp add: holds_def)
  have "drain_merge ob io now (drain_outcomes deliver (filter (due now) rs)) d = snd (write_locked ob io ?rs d)"
    by (simp add: drain_merge_def load_holds [OF assms(1,2) io(2)] io(1) merge_drained [OF ok assms(4)] comp_def)
  moreover have "alerts_ok ?rs" by (rule alerts_ok_prune [OF attempts_alerts_ok [OF ok assms(4)]])
  ultimately show ?thesis using write_holds(1) [OF assms(2), of ?rs io] io(3) by (cases "write_locked ob io ?rs d") simp
qed

text \<open>
  C26: a drain does what its specification says.  When the locks, the read and the writes succeed, a
  drain tries every channel of every due alert once: an alert whose channels were all delivered is
  completed, another waits for its backoff with the channels that are left, an alert beyond the maximal
  age is given up, every other alert is unchanged, and the report counts the alerts still to deliver.
  Alerts must not have been attempted 1024 times, where the computation of the delay overflows.
\<close>

theorem drain_refines:
  assumes "outbox_ok ob" "holds ob d rs" "\<forall>r \<in> set rs. due (as_utc now) r \<longrightarrow> ar_attempts r < 1024"
    "io_fine io1" "io_fine io2" "io_fine io3" "blocking \<or> \<not> busy"
  shows "\<exists>report d'. drain ob (io1, io2, io3) deliver now blocking busy d = (report, d')
    \<and> holds ob d' (drain_spec ob deliver (as_utc now) rs)
    \<and> dr_attempted report = drain_attempted (filter (due (as_utc now)) rs)
    \<and> dr_pending report = length (filter (\<lambda>r. \<not> finished r) (drain_spec ob deliver (as_utc now) rs))"
proof -
  let ?n = "as_utc now" and ?due = "filter (due (as_utc now)) rs"
  have load: "drain_load ob io1 ?n d = (Some ?due, d)"
    using assms(4) by (simp add: drain_load_def load_holds [OF assms(1,2)] io_fine_def)
  show ?thesis
  proof (cases "?due = []")
    case True
    obtain report d' where f: "finalize ob io3 ?n d = (report, d')"
        "holds ob d' (if \<exists>r \<in> set rs. overdue ob ?n r then prune ob ?n (map (age ob ?n) rs) else rs)"
        "dr_pending report = length (filter (\<lambda>r. \<not> finished r) (if \<exists>r \<in> set rs. overdue ob ?n r then prune ob ?n (map (age ob ?n) rs) else rs))"
      by (rule finalize_fine [OF assms(1,2,6)])
    have rep: "dr_attempted report = 0" using f(1) by (auto simp: finalize_def drain_count_def Let_def split: if_splits prod.splits sum.splits)
    have nodue: "\<forall>r \<in> set rs. \<not> due ?n r" using True by (simp add: filter_empty_conv)
    then have "map (\<lambda>r. age ob ?n (attempt_due ob deliver ?n r)) rs = map (age ob ?n) rs" by (simp add: attempt_due_def)
    moreover have "(\<exists>r \<in> set rs. due ?n r \<or> overdue ob ?n r) \<longleftrightarrow> (\<exists>r \<in> set rs. overdue ob ?n r)" using nodue by blast
    ultimately have "drain_spec ob deliver ?n rs = (if \<exists>r \<in> set rs. overdue ob ?n r then prune ob ?n (map (age ob ?n) rs) else rs)"
      unfolding drain_spec_def by (simp only:)
    moreover have "drain ob (io1, io2, io3) deliver now blocking busy d = (report, d')"
      using assms(7) by (auto simp: drain_def load True f(1))
    ultimately show ?thesis using f(2,3) rep by (simp add: True drain_attempted_def)
  next
    case False
    let ?m = "prune ob ?n (map (attempt_due ob deliver ?n) rs)" and ?spec = "drain_spec ob deliver ?n rs"
    note merged = drain_merge_fine [OF assms(1,2,5,3), of deliver]
    obtain report d' where f: "finalize ob io3 ?n (drain_merge ob io2 ?n (drain_outcomes deliver ?due) d) = (report, d')"
        "holds ob d' (if \<exists>r \<in> set ?m. overdue ob ?n r then prune ob ?n (map (age ob ?n) ?m) else ?m)"
        "dr_pending report = length (filter (\<lambda>r. \<not> finished r) (if \<exists>r \<in> set ?m. overdue ob ?n r then prune ob ?n (map (age ob ?n) ?m) else ?m))"
      by (rule finalize_fine [OF assms(1) merged assms(6)])
    have "(if \<exists>r \<in> set ?m. overdue ob ?n r then prune ob ?n (map (age ob ?n) ?m) else ?m) = prune ob ?n (map (age ob ?n) ?m)"
      using age_none [of ?m ob ?n] by auto
    also have "\<dots> = ?spec"
      using False unfolding prune_age by (auto simp: drain_spec_def comp_def filter_empty_conv)
    finally have spec: "(if \<exists>r \<in> set ?m. overdue ob ?n r then prune ob ?n (map (age ob ?n) ?m) else ?m) = ?spec" .
    obtain x xs where due: "?due = x # xs" using False by (cases ?due) auto
    have "drain ob (io1, io2, io3) deliver now blocking busy d = (report\<lparr>dr_attempted := drain_attempted ?due\<rparr>, d')"
      using assms(7) f(1) unfolding due by (auto simp: drain_def load due)
    then show ?thesis using f(2,3) unfolding spec by simp
  qed
qed

text \<open>The alerts a drain has delivered are complete; the others are tried again after at most the
  maximal delay.\<close>

lemma attempt_due_result:
  assumes "due now r" "ar_attempts r < 1024" "attempt_due ob deliver now r = u"
  shows "finished u \<longleftrightarrow> (\<forall>ch \<in> set (ar_pending_channels r). deliver r ch = Inr True)"
    and "\<not> finished u \<Longrightarrow> \<exists>delay. ar_next_attempt_at u = now + ob_timedelta ob delay \<and> delay \<le> ob_retry_backoff_max_s ob"
proof -
  obtain v where v: "attempted ob now (delivered_now deliver r) r = Inr v" using assms(2) by (rule attempted_total)
  with assms have u: "u = v" by (simp add: attempt_due_def)
  show "finished u \<longleftrightarrow> (\<forall>ch \<in> set (ar_pending_channels r). deliver r ch = Inr True)"
    unfolding u attempted_fields(4,5) [OF v] by (auto simp: delivered_now_def filter_empty_conv)
  show "\<exists>delay. ar_next_attempt_at u = now + ob_timedelta ob delay \<and> delay \<le> ob_retry_backoff_max_s ob" if "\<not> finished u"
    using v that unfolding u by (auto simp: attempted_def backoff_delay_s_def Let_def finished_def rbind_eq_Inr split: if_splits)
qed


section \<open>Files that cannot be read\<close>

text \<open>
  C27: a read error discards the outbox.  When the file cannot be read while an alert is accepted, the
  alerts in it count as none, and the document that is written holds the new alert alone: every alert
  that was waiting in the outbox is lost, although the call reports success.
\<close>

theorem read_error_discards_alerts:
  assumes "outbox_ok ob" "holds ob d rs" "io_lock io" "\<not> io_read io" "io_write io" "channels \<noteq> []" "sorted_set channels = channels" "0 < ob_max_records ob"
  shows "\<exists>d'. enqueue ob io event detail decision_time key channels now d = (True, d')
    \<and> holds ob d' [new_alert key event (event_severity event) detail decision_time channels (as_utc now)]"
proof -
  let ?a = "new_alert key event (event_severity event) detail decision_time channels (as_utc now)"
  have "load_locked ob io d = (Inr [], d)" using assms(4) by (simp add: load_locked_def)
  then have "enqueue ob io event detail decision_time key channels now d = (True, d\<lparr>od_file := outbox_document ob [?a]\<rparr>)"
    using assms(3,5,6,8) by (simp add: enqueue_def Let_def admit_def prune_def make_room_def write_locked_def)
  moreover have "alerts_ok [?a]" using assms(7) by (simp add: alerts_ok_def)
  ultimately show ?thesis by (simp add: holds_def)
qed

text \<open>A file that is no text stops the outbox: it is never moved aside, no alert is accepted and none is sent.\<close>

lemma undecodable_outbox_stuck:
  assumes "od_file d = NotText" "io_read io"
  shows "enqueue ob io event detail decision_time key channels now d = (False, d)" "snd (drain_load ob io n d) = d"
    "fst (drain_load ob io n d) = None" "drain_merge ob io n outcomes d = d" "finalize ob io n d = (empty_report, d)"
  using assms by (simp_all add: enqueue_def drain_load_def drain_merge_def finalize_def load_locked_def Let_def)

section \<open>Examples\<close>

definition plain_outbox :: outbox where
  "plain_outbox = \<lparr>ob_retry_backoff_s = 60, ob_retry_backoff_max_s = 1800, ob_max_age_s = 259200, ob_retention_s = 604800, ob_max_records = 1000,
     ob_codec = plain_codec, ob_timestamp = (\<lambda>j. case j of JStr s \<Rightarrow> Some (Aware (untally_int s)) | _ \<Rightarrow> None),
     ob_timedelta = (\<lambda>s. \<lfloor>s * 1000000000\<rfloor>), ob_total_seconds = (\<lambda>n. of_int n / 1000000000), ob_day = (\<lambda>_. ''day'')\<rparr>"

definition fine_io :: outbox_io where
  "fine_io = \<lparr>io_lock = True, io_read = True, io_quarantine = True, io_write = True, io_landed = False\<rparr>"

definition example_channels :: "channel list" where
  "example_channels = [''email'', ''webhook'']"

definition example_alert :: alert_record where
  "example_alert = new_alert ''halt_streak:1'' ''halt_streak'' ''CRITICAL'' ''three halts'' None example_channels 5"

definition example_disk :: outbox_disk where
  "example_disk = \<lparr>od_file = outbox_document plain_outbox [example_alert], od_quarantine = []\<rparr>"

definition example_world :: outbox_world where
  "example_world = fresh_outbox\<lparr>ow_disk := example_disk, ow_accepted := {(''halt_streak:1'', example_channels, 5)}\<rparr>"

lemma plain_outbox_ok: "outbox_ok plain_outbox"
  by (simp add: outbox_ok_def plain_outbox_def plain_codec_def)

lemma example_channels_ok: "sorted_set example_channels = example_channels" "example_channels \<noteq> []"
  by (simp_all add: sorted_set_def example_channels_def)

lemma example_holds: "holds plain_outbox example_disk [example_alert]"
  by (simp add: holds_def example_disk_def alerts_ok_def example_alert_def example_channels_ok)

lemma example_enqueue:
  "enqueue plain_outbox fine_io ''halt_streak'' ''three halts'' None ''halt_streak:1'' example_channels (Aware 5) (ow_disk fresh_outbox) = (True, example_disk)"
  by (simp add: enqueue_def Let_def load_locked_def fresh_outbox_def fine_io_def example_channels_ok admit_def prune_def make_room_def
      plain_outbox_def [THEN arg_cong, of ob_max_records] write_locked_def example_disk_def example_alert_def event_severity_def dict_get_def EVENT_INFO_def)

lemma example_run: "outbox_run plain_outbox example_world"
proof -
  have "\<not> prefix overflow_prefix ''halt_streak:1''" by (simp add: overflow_prefix_def)
  note run = outbox_run.accept [OF outbox_run.start _ example_channels_ok(1) this example_enqueue]
  have "accepts plain_outbox fine_io ''halt_streak:1'' example_channels 5 True (ow_disk fresh_outbox) = {(''halt_streak:1'', example_channels, 5)}"
    by (simp add: accepts_def stored_def load_locked_def fresh_outbox_def example_channels_ok)
  then have w: "fresh_outbox\<lparr>ow_disk := example_disk, ow_accepted := ow_accepted fresh_outbox \<union>
      accepts plain_outbox fine_io ''halt_streak:1'' example_channels (as_utc (Aware 5)) True (ow_disk fresh_outbox)\<rparr> = example_world"
    by (simp add: example_world_def fresh_outbox_def)
  have "io_read fine_io" by (simp add: fine_io_def)
  from run [OF this] show ?thesis unfolding w .
qed

theorem accepted_alert_never_lost_witness:
  "outbox_run plain_outbox example_world \<and> (''halt_streak:1'', example_channels, 5) \<in> ow_accepted example_world
   \<and> (\<exists>r \<in> set (stored plain_outbox fine_io (ow_disk example_world)). ar_dedupe_key r = ''halt_streak:1'' \<and> \<not> finished r)"
proof -
  have a: "(''halt_streak:1'', example_channels, 5) \<in> ow_accepted example_world" "io_read fine_io" by (simp_all add: example_world_def fine_io_def)
  have none: "ow_sent example_world = {}" "ow_gone example_world = {}" by (simp_all add: example_world_def fresh_outbox_def)
  have ch: "''email'' \<in> set example_channels" by (simp add: example_channels_def)
  from accepted_alert_never_lost [OF plain_outbox_ok example_run a] ch
  have "\<exists>r \<in> set (stored plain_outbox fine_io (ow_disk example_world)). ar_dedupe_key r = ''halt_streak:1'' \<and> \<not> finished r"
    unfolding none by blast
  with example_run a show ?thesis by blast
qed

theorem drain_refines_witness:
  "\<exists>report d'. drain plain_outbox (fine_io, fine_io, fine_io) (\<lambda>r ch. Inr (ch = ''webhook'')) (Aware 7) False False example_disk = (report, d')
     \<and> dr_attempted report = 2 \<and> dr_pending report = 1"
proof -
  let ?deliver = "\<lambda>r ch. Inr (ch = ''webhook'') :: bool res"
  have r: "due 7 example_alert" "ar_attempts example_alert = 0" "ar_pending_channels example_alert = [''email'', ''webhook'']"
      "ar_created_at example_alert = 5" "\<not> ar_expired example_alert" "ar_completed_at example_alert = None"
    by (simp_all add: due_def example_alert_def new_alert_def example_channels_def)
  obtain u where u: "attempted plain_outbox 7 (delivered_now ?deliver example_alert) example_alert = Inr u"
    using r(2) attempted_total [of example_alert] by (metis zero_less_numeral)
  have f: "\<not> finished u" "ar_pending_channels u = [''email'']" "ar_created_at u = 5"
    using attempted_fields [OF u] r by (simp_all add: delivered_now_def)
  have "\<not> overdue plain_outbox 7 u" using f(3) by (simp add: overdue_def plain_outbox_def)
  then have spec: "drain_spec plain_outbox ?deliver 7 [example_alert] = [u]"
    using u r(1) f(1) by (simp add: drain_spec_def attempt_due_def age_def prune_def Let_def)
  have fine: "io_fine fine_io" by (simp add: io_fine_def fine_io_def)
  have "\<exists>report d'. drain plain_outbox (fine_io, fine_io, fine_io) ?deliver (Aware 7) False False example_disk = (report, d')
    \<and> holds plain_outbox d' (drain_spec plain_outbox ?deliver (as_utc (Aware 7)) [example_alert])
    \<and> dr_attempted report = drain_attempted (filter (due (as_utc (Aware 7))) [example_alert])
    \<and> dr_pending report = length (filter (\<lambda>r. \<not> finished r) (drain_spec plain_outbox ?deliver (as_utc (Aware 7)) [example_alert]))"
    by (rule drain_refines [OF plain_outbox_ok example_holds _ fine fine fine]) (simp_all add: r(2))
  then show ?thesis using r f(1) by (auto simp: spec drain_attempted_def)
qed

theorem read_error_discards_alerts_witness:
  "\<exists>d'. enqueue plain_outbox (fine_io\<lparr>io_read := False\<rparr>) ''day_skipped'' ''late'' None ''day_skipped:1'' example_channels (Aware 9) example_disk = (True, d')
     \<and> holds plain_outbox d' [new_alert ''day_skipped:1'' ''day_skipped'' ''CRITICAL'' ''late'' None example_channels 9]"
proof -
  have s: "event_severity ''day_skipped'' = ''CRITICAL''" by (simp add: event_severity_def dict_get_def EVENT_INFO_def)
  have "0 < ob_max_records plain_outbox" by (simp add: plain_outbox_def)
  from read_error_discards_alerts [OF plain_outbox_ok example_holds _ _ _ example_channels_ok(2,1) this,
      of "fine_io\<lparr>io_read := False\<rparr>" "''day_skipped''" "''late''" None "''day_skipped:1''" "Aware 9"]
  show ?thesis by (simp add: s fine_io_def)
qed

end
