(* ===== verification/Sx_Hoare.thy ===== *)
theory Sx_Hoare
  imports Prelude
begin

text \<open>
  A small Hoare logic for the computations \<open>sx\<close>: a triple has a postcondition for a normal end and
  one for an exception, because the state survives both.  An invariant is a triple whose three
  assertions agree.  The rules for the combinators are collected in \<open>sx_rules\<close>; a component adds
  the triples of its operations, and a proof about a composed operation is a sweep of these rules.
\<close>

named_theorems sx_rules "invariants of computations, by their structure"

section \<open>Catching exceptions\<close>

definition sx_catch :: "('s, 'a) sx \<Rightarrow> (exc \<Rightarrow> ('s, 'a) sx) \<Rightarrow> ('s, 'a) sx" where
  "sx_catch m h = (\<lambda>s. case m s of (Inl e, t) \<Rightarrow> h e t | (Inr x, t) \<Rightarrow> (Inr x, t))"

text \<open>\<open>try: x = m() except: h\<close> with \<open>else: f(x)\<close>.\<close>

definition sx_try :: "('s, 'a) sx \<Rightarrow> ('a \<Rightarrow> ('s, 'b) sx) \<Rightarrow> (exc \<Rightarrow> ('s, 'b) sx) \<Rightarrow> ('s, 'b) sx" where
  "sx_try m f h = (\<lambda>s. case m s of (Inl e, t) \<Rightarrow> h e t | (Inr x, t) \<Rightarrow> f x t)"

definition sx_when :: "bool \<Rightarrow> ('s, unit) sx \<Rightarrow> ('s, unit) sx" where
  "sx_when b m = (if b then m else sx_return ())"

text \<open>A computation on a part of the state.\<close>

definition sx_zoom :: "('s \<Rightarrow> 't) \<Rightarrow> (('t \<Rightarrow> 't) \<Rightarrow> 's \<Rightarrow> 's) \<Rightarrow> ('t, 'a) sx \<Rightarrow> ('s, 'a) sx" where
  "sx_zoom get upd m = (\<lambda>s. case m (get s) of (r, t) \<Rightarrow> (r, upd (\<lambda>_. t) s))"

lemma sx_zoom_run: "sx_zoom get upd m s = (fst (m (get s)), upd (\<lambda>_. snd (m (get s))) s)"
  by (simp add: sx_zoom_def split: prod.splits)

section \<open>Triples\<close>

definition sx_triple :: "('s \<Rightarrow> bool) \<Rightarrow> ('s, 'a) sx \<Rightarrow> ('a \<Rightarrow> 's \<Rightarrow> bool) \<Rightarrow> (exc \<Rightarrow> 's \<Rightarrow> bool) \<Rightarrow> bool" where
  "sx_triple P m Q E \<longleftrightarrow> (\<forall>s. P s \<longrightarrow> (case m s of (Inl e, t) \<Rightarrow> E e t | (Inr x, t) \<Rightarrow> Q x t))"

abbreviation sx_inv :: "('s \<Rightarrow> bool) \<Rightarrow> ('s, 'a) sx \<Rightarrow> bool" where
  "sx_inv I m \<equiv> sx_triple I m (\<lambda>_. I) (\<lambda>_. I)"

lemma sx_tripleD_Inr: "sx_triple P m Q E \<Longrightarrow> P s \<Longrightarrow> m s = (Inr x, t) \<Longrightarrow> Q x t"
  by (force simp: sx_triple_def)

lemma sx_tripleD_Inl: "sx_triple P m Q E \<Longrightarrow> P s \<Longrightarrow> m s = (Inl e, t) \<Longrightarrow> E e t"
  by (force simp: sx_triple_def)

lemma sx_invD: "sx_inv I m \<Longrightarrow> I s \<Longrightarrow> m s = (r, t) \<Longrightarrow> I t"
  by (cases r) (auto dest: sx_tripleD_Inr sx_tripleD_Inl)

lemma sx_triple_snd: "sx_triple P m (\<lambda>_. Q) (\<lambda>_. Q) \<Longrightarrow> P s \<Longrightarrow> Q (snd (m s))"
  by (cases "m s"; cases "fst (m s)") (auto dest: sx_tripleD_Inr sx_tripleD_Inl)

lemma sx_tripleI:
  assumes "\<And>s x t. P s \<Longrightarrow> m s = (Inr x, t) \<Longrightarrow> Q x t" "\<And>s e t. P s \<Longrightarrow> m s = (Inl e, t) \<Longrightarrow> E e t"
  shows "sx_triple P m Q E"
  using assms by (auto simp: sx_triple_def split: prod.splits sum.splits)

lemma sx_inv_snd: "(\<And>s. P s \<Longrightarrow> P (snd (m s))) \<Longrightarrow> sx_inv P m"
  by (intro sx_tripleI) (metis snd_conv)+

lemma sx_conseq:
  assumes "sx_triple P' m Q' E'" "\<And>s. P s \<Longrightarrow> P' s" "\<And>x s. Q' x s \<Longrightarrow> Q x s" "\<And>e s. E' e s \<Longrightarrow> E e s"
  shows "sx_triple P m Q E"
  using assms by (fastforce simp: sx_triple_def split: prod.splits sum.splits)

lemma sx_pre: "sx_triple P' m Q E \<Longrightarrow> (\<And>s. P s \<Longrightarrow> P' s) \<Longrightarrow> sx_triple P m Q E"
  by (rule sx_conseq)

lemma sx_triple_return: "(\<And>s. P s \<Longrightarrow> Q x s) \<Longrightarrow> sx_triple P (sx_return x) Q E"
  by (simp add: sx_triple_def sx_return_def)

lemma sx_triple_raise: "(\<And>s. P s \<Longrightarrow> E e s) \<Longrightarrow> sx_triple P (sx_raise e) Q E"
  by (simp add: sx_triple_def sx_raise_def)

lemma sx_triple_lift:
  "(\<And>x s. m = Inr x \<Longrightarrow> P s \<Longrightarrow> Q x s) \<Longrightarrow> (\<And>e s. m = Inl e \<Longrightarrow> P s \<Longrightarrow> E e s) \<Longrightarrow> sx_triple P (sx_lift m) Q E"
  by (cases m) (simp_all add: sx_triple_def sx_lift_def)

lemma sx_triple_gets: "(\<And>s. P s \<Longrightarrow> Q (g s) s) \<Longrightarrow> sx_triple P (sx_gets g) Q E"
  by (simp add: sx_triple_def sx_gets_def)

lemma sx_triple_modify: "(\<And>s. P s \<Longrightarrow> Q () (g s)) \<Longrightarrow> sx_triple P (sx_modify g) Q E"
  by (simp add: sx_triple_def sx_modify_def)

lemma sx_triple_bind:
  assumes "sx_triple P m R E" "\<And>x. sx_triple (R x) (f x) Q E" shows "sx_triple P (sx_bind m f) Q E"
proof (rule sx_tripleI)
  fix s x t assume "P s" "sx_bind m f s = (Inr x, t)"
  then show "Q x t" using assms by (auto simp: sx_bind_Inr dest: sx_tripleD_Inr)
next
  fix s e t assume "P s" "sx_bind m f s = (Inl e, t)"
  then show "E e t" using assms
    by (auto simp: sx_bind_def split: prod.splits sum.splits dest: sx_tripleD_Inr sx_tripleD_Inl)
qed

lemma sx_triple_catch:
  assumes "sx_triple P m Q R" "\<And>e. sx_triple (R e) (h e) Q E" shows "sx_triple P (sx_catch m h) Q E"
proof (rule sx_tripleI)
  fix s x t assume "P s" "sx_catch m h s = (Inr x, t)"
  then show "Q x t" using assms
    by (auto simp: sx_catch_def split: prod.splits sum.splits dest: sx_tripleD_Inr sx_tripleD_Inl)
next
  fix s e t assume "P s" "sx_catch m h s = (Inl e, t)"
  then show "E e t" using assms
    by (auto simp: sx_catch_def split: prod.splits sum.splits dest: sx_tripleD_Inr sx_tripleD_Inl)
qed

lemma sx_triple_try:
  assumes m: "sx_triple P m R H" and f: "\<And>x. sx_triple (R x) (f x) Q E" and h: "\<And>e. sx_triple (H e) (h e) Q E"
  shows "sx_triple P (sx_try m f h) Q E"
  unfolding sx_triple_def
proof (intro allI impI)
  fix s assume s: "P s"
  obtain r u where run: "m s = (r, u)" by (cases "m s")
  show "case sx_try m f h s of (Inl e, t) \<Rightarrow> E e t | (Inr x, t) \<Rightarrow> Q x t"
  proof (cases r)
    case (Inl e)
    with sx_tripleD_Inl [OF m s] run h [of e] show ?thesis by (simp add: sx_try_def sx_triple_def)
  next
    case (Inr x)
    with sx_tripleD_Inr [OF m s] run f [of x] show ?thesis by (simp add: sx_try_def sx_triple_def)
  qed
qed

lemma sx_triple_when: "(b \<Longrightarrow> sx_triple P m Q E) \<Longrightarrow> (\<And>s. \<not> b \<Longrightarrow> P s \<Longrightarrow> Q () s) \<Longrightarrow> sx_triple P (sx_when b m) Q E"
  by (auto simp: sx_when_def intro: sx_triple_return)

lemma sx_triple_if:
  "(b \<Longrightarrow> sx_triple P m Q E) \<Longrightarrow> (\<not> b \<Longrightarrow> sx_triple P n Q E) \<Longrightarrow> sx_triple P (if b then m else n) Q E"
  by simp

lemma sx_triple_option:
  "(x = None \<Longrightarrow> sx_triple P m Q E) \<Longrightarrow> (\<And>y. x = Some y \<Longrightarrow> sx_triple P (n y) Q E)
   \<Longrightarrow> sx_triple P (case x of None \<Rightarrow> m | Some y \<Rightarrow> n y) Q E"
  by (cases x) simp_all

lemma sx_triple_list:
  "(x = [] \<Longrightarrow> sx_triple P m Q E) \<Longrightarrow> (\<And>y ys. x = y # ys \<Longrightarrow> sx_triple P (n y ys) Q E)
   \<Longrightarrow> sx_triple P (case x of [] \<Rightarrow> m | y # ys \<Rightarrow> n y ys) Q E"
  by (cases x) simp_all

lemma sx_triple_prod: "(\<And>a b. x = (a, b) \<Longrightarrow> sx_triple P (n a b) Q E) \<Longrightarrow> sx_triple P (case x of (a, b) \<Rightarrow> n a b) Q E"
  by (cases x) simp

lemma sx_triple_Let: "(\<And>y. y = x \<Longrightarrow> sx_triple P (f y) Q E) \<Longrightarrow> sx_triple P (let y = x in f y) Q E"
  by (simp add: Let_def)

lemma sx_triple_foldM:
  assumes "\<And>x acc. x \<in> set xs \<Longrightarrow> sx_triple (I acc) (f x acc) I E" "\<And>acc s. I acc s \<Longrightarrow> Q acc s"
  shows "sx_triple (I acc) (sx_foldM f xs acc) Q E"
  using assms(1)
proof (induction xs arbitrary: acc)
  case Nil
  show ?case using assms(2) by (simp add: sx_triple_return)
next
  case (Cons x xs)
  show ?case unfolding sx_foldM.simps
  proof (rule sx_triple_bind)
    show "sx_triple (I acc) (f x acc) I E" using Cons.prems by simp
    show "sx_triple (I y) (sx_foldM f xs y) Q E" for y using Cons.IH Cons.prems by simp
  qed
qed

lemma sx_triple_gets_eq:
  "(\<And>x. sx_triple (\<lambda>s. P s \<and> g s = x) (f x) Q E) \<Longrightarrow> sx_triple P (sx_bind (sx_gets g) f) Q E"
  by (force simp: sx_triple_def sx_bind_def sx_gets_def)

lemma sx_inv_catch: "sx_inv I m \<Longrightarrow> (\<And>e. sx_inv I (h e)) \<Longrightarrow> sx_inv I (sx_catch m h)"
  by (rule sx_triple_catch)

lemma sx_inv_try: "sx_inv I m \<Longrightarrow> (\<And>x. sx_inv I (f x)) \<Longrightarrow> (\<And>e. sx_inv I (h e)) \<Longrightarrow> sx_inv I (sx_try m f h)"
  by (rule sx_triple_try)

lemma sx_inv_bind: "sx_inv I m \<Longrightarrow> (\<And>x. sx_inv I (f x)) \<Longrightarrow> sx_inv I (sx_bind m f)"
  by (rule sx_triple_bind)

lemma sx_inv_foldM: "(\<And>x acc. x \<in> set xs \<Longrightarrow> sx_inv I (f x acc)) \<Longrightarrow> sx_inv I (sx_foldM f xs acc)"
  by (rule sx_triple_foldM)

lemma sx_inv_pure: "sx_inv I (sx_return x)" "sx_inv I (sx_raise e)" "sx_inv I (sx_lift m)" "sx_inv I (sx_gets g)"
  by (simp_all add: sx_triple_return sx_triple_raise sx_triple_lift sx_triple_gets)

lemma sx_inv_modify: "(\<And>s. I s \<Longrightarrow> I (g s)) \<Longrightarrow> sx_inv I (sx_modify g)"
  by (rule sx_triple_modify)

lemma sx_inv_zoom:
  "(\<And>s r t. I s \<Longrightarrow> m (get s) = (r, t) \<Longrightarrow> I (upd (\<lambda>_. t) s)) \<Longrightarrow> sx_inv I (sx_zoom get upd m)"
  by (auto simp: sx_triple_def sx_zoom_def split: prod.splits sum.splits)

lemma sx_inv_when: "(b \<Longrightarrow> sx_inv I m) \<Longrightarrow> sx_inv I (sx_when b m)"
  by (rule sx_triple_when)

lemmas sx_inv_rules = sx_inv_bind sx_inv_catch sx_inv_try sx_inv_foldM sx_inv_pure sx_inv_when
  sx_triple_if sx_triple_option sx_triple_list sx_triple_prod sx_triple_Let

declare sx_inv_rules [sx_rules]

section \<open>Rules for sequences of steps\<close>

lemma sx_triple_conj:
  "sx_triple P m Q E \<Longrightarrow> sx_triple P' m Q' E'
   \<Longrightarrow> sx_triple (\<lambda>s. P s \<and> P' s) m (\<lambda>x s. Q x s \<and> Q' x s) (\<lambda>e s. E e s \<and> E' e s)"
  by (fastforce simp: sx_triple_def split: prod.splits sum.splits)

lemma sx_inv_conj: "sx_inv I m \<Longrightarrow> sx_inv J m \<Longrightarrow> sx_inv (\<lambda>s. I s \<and> J s) m"
  by (rule sx_triple_conj)

lemma sx_triple_pre_False: "sx_triple (\<lambda>s. False) m Q E"
  by (simp add: sx_triple_def)

lemma sx_triple_pre_fact: "(b \<Longrightarrow> sx_triple P m Q E) \<Longrightarrow> sx_triple (\<lambda>s. P s \<and> b) m Q E"
  by (auto simp: sx_triple_def)

lemma sx_triple_post:
  "sx_triple P m Q E \<Longrightarrow> (\<And>s x t. m s = (Inr x, t) \<Longrightarrow> R x t) \<Longrightarrow> sx_triple P m (\<lambda>x s. Q x s \<and> R x s) E"
  by (fastforce simp: sx_triple_def split: prod.splits sum.splits)

lemma sx_triple_peek: "(\<And>x. sx_triple P (f x) Q E) \<Longrightarrow> sx_triple P (sx_bind (sx_gets g) f) Q E"
  by (rule sx_triple_bind [OF sx_triple_gets])

lemma sx_triple_bool:
  "(b \<Longrightarrow> sx_triple P m Q E) \<Longrightarrow> (\<not> b \<Longrightarrow> sx_triple P n Q E) \<Longrightarrow> sx_triple P (case b of True \<Rightarrow> m | False \<Rightarrow> n) Q E"
  by (cases b) simp_all

lemma sx_return_bind [simp]: "sx_bind (sx_return x) f = f x"
  by (simp add: sx_defs)

text \<open>The first part keeps the invariant, the second starts from it.\<close>

lemma sx_triple_seq: "sx_triple P m (\<lambda>_. R) E \<Longrightarrow> (\<And>x. sx_triple R (f x) Q E) \<Longrightarrow> sx_triple P (sx_bind m f) Q E"
  by (rule sx_triple_bind)

lemma sx_triple_pre_ex: "(\<And>s0. P s0 \<Longrightarrow> sx_triple P m Q E) \<Longrightarrow> sx_triple P m Q E"
  by (auto simp: sx_triple_def)

end
