(* ===== verification/Daemon.thy ===== *)
theory Daemon
  imports Ledger Sx_Hoare
begin

text \<open>
  The daemon loop (src/src/live/scheduler.py): which decision day is next, how often it is tried, when
  its cycle may start, and what the state file says when the process dies at any point.

  \<^item> The stages of an iteration (venue rules, data refresh, strategy step, trading cycle, pruning), the
    clock, the shutdown flag and sleeping are functions on a state of everything outside the daemon, the
    record \<open>daemon_env\<close>: what is proved holds for every behaviour of them.
  \<^item> An exception of a stage is caught by the loop as in the code, except \<open>SystemExit\<close>, which stands for
    the end of the process.  It ends a run at any call and leaves the state file as it then is.
  \<^item> The \<open>daemon_world\<close> has the state file and, as records of what happened, the alerts, the heartbeats
    and the starts and ends of cycles.  Details of alerts and heartbeats that are mere text, and their
    own time stamps, are left out.
  \<^item> Durations are whole nanoseconds.
\<close>

abbreviation second :: int where "second \<equiv> 1000000000"

definition day :: int where "day = 86400 * second"

lemma day_positive [simp]: "0 < day"
  by (simp add: day_def)

definition normalize :: "timestamp \<Rightarrow> timestamp" where
  "normalize t = t div day * day"

definition ceil_day :: "timestamp \<Rightarrow> timestamp" where
  "ceil_day t = - ((- t) div day) * day"

section \<open>The state file\<close>

record daemon_state =
  ds_last_processed :: "timestamp option"
  ds_pending :: "timestamp option"
  ds_attempts :: int

text \<open>Settings, with hours and minutes as durations, and what is taken from the text and time
  libraries: the codec and \<open>pd.Timestamp(x)\<close> of a decoded value.\<close>

record daemon_settings =
  dc_codec :: text_codec
  dc_timestamp :: "json \<Rightarrow> pd_timestamp option"
  dc_max_signal_staleness :: int
  dc_catchup_buffer :: int
  dc_prefetch_enabled :: bool
  dc_prefetch_offset :: int
  dc_max_attempts :: int
  dc_halt_streak :: int
  dc_max_data_staleness_hours :: rat
  dc_venue_warn_age_days :: rat
  dc_daily_digest :: bool

definition load_stamp :: "daemon_settings \<Rightarrow> json \<Rightarrow> timestamp option res" where
  "load_stamp cfg raw = (if raw = JNull then Inr None else case dc_timestamp cfg raw of
     Some (Aware t) \<Rightarrow> Inr (Some t) | _ \<Rightarrow> Inl DataIntegrityError)"

definition STATE_KEY :: string where
  "STATE_KEY = ''last_processed_decision_time''"

definition load_daemon_state :: "daemon_settings \<Rightarrow> ledger_file \<Rightarrow> daemon_state res" where
  "load_daemon_state cfg f = (case f of
     Missing \<Rightarrow> Inr \<lparr>ds_last_processed = None, ds_pending = None, ds_attempts = 0\<rparr>
   | Document (JObj raw) \<Rightarrow>
       (case map_of raw STATE_KEY of
          None \<Rightarrow> Inl DataIntegrityError
        | Some v \<Rightarrow> rbind (load_stamp cfg v) (\<lambda>processed.
            if map_of raw ''pending_decision_time'' = None \<and> map_of raw ''attempts'' = None
            then Inr \<lparr>ds_last_processed = processed, ds_pending = None, ds_attempts = 0\<rparr>
            else rbind (load_stamp cfg (obj_get raw ''pending_decision_time'')) (\<lambda>pending.
              case py_int (dc_codec cfg) (obj_get_default raw ''attempts'' (JInt 0)) of
                Inl _ \<Rightarrow> Inl DataIntegrityError
              | Inr n \<Rightarrow> Inr \<lparr>ds_last_processed = processed, ds_pending = pending, ds_attempts = n\<rparr>)))
   | _ \<Rightarrow> Inl DataIntegrityError)"

definition stamp_json :: "daemon_settings \<Rightarrow> timestamp option \<Rightarrow> json" where
  "stamp_json cfg t = (case t of None \<Rightarrow> JNull | Some t \<Rightarrow> JStr (tc_iso (dc_codec cfg) t))"

definition daemon_document :: "daemon_settings \<Rightarrow> daemon_state \<Rightarrow> ledger_file" where
  "daemon_document cfg st = Document (JObj
     [(STATE_KEY, stamp_json cfg (ds_last_processed st)),
      (''pending_decision_time'', stamp_json cfg (ds_pending st)),
      (''attempts'', JInt (ds_attempts st))])"

section \<open>The world of the daemon\<close>

record refresh_report =
  rf_ok :: bool
  rf_staleness_hours :: "rat option"
  rf_required_incomplete :: bool

record cycle_report =
  cy_status :: string
  cy_reason :: "string option"

record 'e daemon_env =
  de_now :: "'e \<Rightarrow> timestamp \<times> 'e"
  de_requested :: "'e \<Rightarrow> bool \<times> 'e"
  de_ban_remaining :: "'e \<Rightarrow> int \<times> 'e"
  de_sleep :: "int \<Rightarrow> ('e, unit) sx"
  de_prefetch :: "timestamp \<Rightarrow> ('e, unit) sx"
  de_venue :: "timestamp \<Rightarrow> ('e, string) sx"
  de_refresh :: "timestamp \<Rightarrow> ('e, refresh_report option) sx"
  de_staleness :: "timestamp \<Rightarrow> ('e, rat) sx"
  de_signal :: "timestamp \<Rightarrow> ('e, rat option) sx"
  de_cycle :: "timestamp \<Rightarrow> timestamp \<Rightarrow> ('e, cycle_report) sx"
  de_prune :: "('e, unit) sx"

text \<open>The dedupe key of an alert, with the values it is printed from.\<close>

datatype alert_key =
    DefaultKey
  | RangeKey timestamp timestamp
  | StreakKey timestamp int
  | FileKey

record daemon_alert =
  da_event :: string
  da_decision_time :: "timestamp option"
  da_key :: alert_key

record daemon_beat =
  db_decision_time :: timestamp
  db_status :: string
  db_stage :: string
  db_attempts :: int
  db_halts :: int

text \<open>The cycle of a decision day started at an instant; it ended with a status.\<close>

datatype cycle_event = Started timestamp timestamp | Ended timestamp string

record 'e daemon_world =
  dw_env :: 'e
  dw_state :: ledger_file
  dw_prefetched :: "timestamp option"
  dw_alerts :: "daemon_alert list"
  dw_beats :: "daemon_beat list"
  dw_cycles :: "cycle_event list"

definition on_env :: "('e, 'a) sx \<Rightarrow> ('e daemon_world, 'a) sx" where
  "on_env m = (\<lambda>w. case m (dw_env w) of (r, e) \<Rightarrow> (r, w\<lparr>dw_env := e\<rparr>))"

definition ask :: "('e \<Rightarrow> 'a \<times> 'e) \<Rightarrow> ('e daemon_world, 'a) sx" where
  "ask f = on_env (\<lambda>e. case f e of (x, e') \<Rightarrow> (Inr x, e'))"

text \<open>\<open>except Exception\<close> around a call: everything but the end of the process.\<close>

definition guarded :: "('s, 'a) sx \<Rightarrow> ('s, 'a res) sx" where
  "guarded m = (\<lambda>s. case m s of
     (Inl e, t) \<Rightarrow> if e = SystemExit then (Inl e, t) else (Inr (Inl e), t)
   | (Inr x, t) \<Rightarrow> (Inr (Inr x), t))"

definition save_daemon_state :: "daemon_settings \<Rightarrow> daemon_state \<Rightarrow> ('e daemon_world, unit) sx" where
  "save_daemon_state cfg st = sx_modify (\<lambda>w. w\<lparr>dw_state := daemon_document cfg st\<rparr>)"

definition daemon_alert :: "string \<Rightarrow> timestamp option \<Rightarrow> alert_key \<Rightarrow> ('e daemon_world, unit) sx" where
  "daemon_alert event decision_time key =
     sx_modify (\<lambda>w. w\<lparr>dw_alerts := dw_alerts w @ [\<lparr>da_event = event, da_decision_time = decision_time, da_key = key\<rparr>]\<rparr>)"

definition beat :: "timestamp \<Rightarrow> int \<Rightarrow> int \<Rightarrow> string \<Rightarrow> string \<Rightarrow> ('e daemon_world, unit) sx" where
  "beat target attempts halts status stage = sx_modify (\<lambda>w. w\<lparr>dw_beats := dw_beats w @
     [\<lparr>db_decision_time = target, db_status = status, db_stage = stage, db_attempts = attempts, db_halts = halts\<rparr>]\<rparr>)"

definition log_cycle :: "cycle_event \<Rightarrow> ('e daemon_world, unit) sx" where
  "log_cycle x = sx_modify (\<lambda>w. w\<lparr>dw_cycles := dw_cycles w @ [x]\<rparr>)"

section \<open>Constants\<close>

definition POLL_INTERVAL :: int where "POLL_INTERVAL = 300 * second"

definition RELEASE_OFFSET :: int where "RELEASE_OFFSET = 23 * 3600 * second"

definition RETRY_BACKOFF :: "int list" where
  "RETRY_BACKOFF = [300 * second, 600 * second, 1200 * second, 2400 * second]"

definition BAN_RELEASE_MARGIN :: int where "BAN_RELEASE_MARGIN = 5 * second"

section \<open>The next decision day\<close>

definition next_decision_time :: "timestamp option \<Rightarrow> timestamp \<Rightarrow> timestamp" where
  "next_decision_time processed now = (case processed of None \<Rightarrow> normalize now | Some t \<Rightarrow> normalize (t + day))"

definition choose_target :: "'e daemon_env \<Rightarrow> daemon_state \<Rightarrow> ('e daemon_world, timestamp \<times> int) sx" where
  "choose_target env st = (case ds_pending st of
     Some t \<Rightarrow> sx_return (t, ds_attempts st)
   | None \<Rightarrow> sx_bind (ask (de_now env)) (\<lambda>now. sx_return (next_decision_time (ds_last_processed st) now, 0)))"

text \<open>Days that have become too old are skipped, with an alert that names the range.\<close>

definition catch_up :: "'e daemon_env \<Rightarrow> daemon_settings \<Rightarrow> daemon_state \<Rightarrow> timestamp \<times> int \<Rightarrow> ('e daemon_world, timestamp \<times> int) sx" where
  "catch_up env cfg st = (\<lambda>(target, attempts).
     if ds_pending st = None \<and> ds_last_processed st = None then sx_return (target, attempts)
     else sx_bind (ask (de_now env)) (\<lambda>now.
       let earliest_fresh = ceil_day (now - dc_max_signal_staleness cfg); skipped_last = earliest_fresh - day
       in if target < earliest_fresh
          then sx_bind (daemon_alert ''day_skipped'' (Some skipped_last) (RangeKey target skipped_last)) (\<lambda>_.
               sx_bind (save_daemon_state cfg \<lparr>ds_last_processed = Some skipped_last, ds_pending = None, ds_attempts = 0\<rparr>) (\<lambda>_.
               sx_return (earliest_fresh, 0)))
          else sx_return (target, attempts)))"

section \<open>Waiting\<close>

definition prefetch_pending :: "daemon_settings \<Rightarrow> timestamp \<Rightarrow> 'e daemon_world \<Rightarrow> bool" where
  "prefetch_pending cfg target w \<longleftrightarrow> dc_prefetch_enabled cfg \<and> dw_prefetched w \<noteq> Some target"

definition run_due_prefetches :: "'e daemon_env \<Rightarrow> daemon_settings \<Rightarrow> timestamp \<Rightarrow> ('e daemon_world, unit) sx" where
  "run_due_prefetches env cfg target =
     sx_bind (sx_gets (prefetch_pending cfg target)) (\<lambda>pending.
       if \<not> pending then sx_return ()
       else sx_bind (ask (de_now env)) (\<lambda>now.
         if now < target + dc_prefetch_offset cfg then sx_return ()
         else sx_bind (sx_modify (\<lambda>w. w\<lparr>dw_prefetched := Some target\<rparr>)) (\<lambda>_.
              sx_bind (guarded (on_env (de_prefetch env target))) (\<lambda>_. sx_return ()))))"

definition prefetch_wait_cap :: "daemon_settings \<Rightarrow> timestamp \<Rightarrow> timestamp \<Rightarrow> int \<Rightarrow> 'e daemon_world \<Rightarrow> int" where
  "prefetch_wait_cap cfg target tick wait w =
     (if prefetch_pending cfg target w then min wait (max 0 (target + dc_prefetch_offset cfg - tick)) else wait)"

text \<open>The loop until the release of the decision.  It ends when the clock passes the release or a
  shutdown is requested; the first argument bounds its turns.\<close>

primrec wait_release :: "nat \<Rightarrow> 'e daemon_env \<Rightarrow> daemon_settings \<Rightarrow> timestamp \<Rightarrow> timestamp \<Rightarrow> int \<Rightarrow> ('e daemon_world, unit) sx" where
  "wait_release 0 env cfg target wait_until remaining = sx_raise SystemExit"
| "wait_release (Suc n) env cfg target wait_until remaining =
     (if remaining \<le> 0 then sx_return ()
      else sx_bind (ask (de_requested env)) (\<lambda>stop. if stop then sx_return ()
      else sx_bind (run_due_prefetches env cfg target) (\<lambda>_.
      sx_bind (ask (de_now env)) (\<lambda>now. if wait_until - now \<le> 0 then sx_return ()
      else sx_bind (ask (de_now env)) (\<lambda>tick.
      sx_bind (sx_gets (prefetch_wait_cap cfg target tick (min (wait_until - now) POLL_INTERVAL))) (\<lambda>seconds.
      sx_bind (on_env (de_sleep env seconds)) (\<lambda>_.
      sx_bind (ask (de_requested env)) (\<lambda>stop. if stop then sx_return ()
      else sx_bind (ask (de_now env)) (\<lambda>now. wait_release n env cfg target wait_until (wait_until - now))))))))))"

definition ban_aware_backoff :: "'e daemon_env \<Rightarrow> int \<Rightarrow> ('e daemon_world, int) sx" where
  "ban_aware_backoff env table = sx_bind (ask (de_ban_remaining env)) (\<lambda>remaining.
     sx_return (if 0 < remaining then max table (remaining + BAN_RELEASE_MARGIN) else table))"

text \<open>The backoff of a failed attempt, in steps of the polling interval.\<close>

function backoff_wait :: "'e daemon_env \<Rightarrow> int \<Rightarrow> ('e daemon_world, bool) sx" where
  "backoff_wait env remaining =
     (if remaining \<le> 0 then ask (de_requested env)
      else sx_bind (ask (de_requested env)) (\<lambda>stop. if stop then sx_return True
      else sx_bind (on_env (de_sleep env (min remaining POLL_INTERVAL))) (\<lambda>_.
      sx_bind (ask (de_requested env)) (\<lambda>stop. if stop then sx_return True
      else backoff_wait env (remaining - min remaining POLL_INTERVAL)))))"
  by pat_completeness auto
termination by (relation "measure (\<lambda>(env, remaining). nat remaining)") (auto simp: POLL_INTERVAL_def)

declare backoff_wait.simps [simp del]

text \<open>The counter of attempts is never negative in a file the daemon wrote.\<close>

definition retry_or_skip ::
    "'e daemon_env \<Rightarrow> daemon_settings \<Rightarrow> timestamp option \<Rightarrow> timestamp \<Rightarrow> int \<Rightarrow> ('e daemon_world, bool) sx" where
  "retry_or_skip env cfg processed target attempts =
     (let n = attempts + 1 in
      if dc_max_attempts cfg \<le> n
      then sx_bind (daemon_alert ''day_skipped'' (Some target) DefaultKey) (\<lambda>_.
           sx_bind (save_daemon_state cfg \<lparr>ds_last_processed = Some target, ds_pending = None, ds_attempts = 0\<rparr>) (\<lambda>_.
           sx_return False))
      else sx_bind (save_daemon_state cfg \<lparr>ds_last_processed = processed, ds_pending = Some target, ds_attempts = n\<rparr>) (\<lambda>_.
           sx_bind (ban_aware_backoff env (RETRY_BACKOFF ! nat (min (n - 1) 3))) (backoff_wait env)))"

section \<open>The stages\<close>

text \<open>What a failed refresh is measured by; \<open>None\<close> is infinity.\<close>

definition refresh_staleness :: "'e daemon_env \<Rightarrow> refresh_report option \<Rightarrow> ('e daemon_world, rat option) sx" where
  "refresh_staleness env report = (case Option.bind report rf_staleness_hours of
     Some h \<Rightarrow> sx_return (Some h)
   | None \<Rightarrow> sx_bind (ask (de_now env)) (\<lambda>now. sx_bind (guarded (on_env (de_staleness env now))) (\<lambda>r.
       sx_return (case r of Inl _ \<Rightarrow> None | Inr h \<Rightarrow> Some h))))"

text \<open>\<open>None\<close>: the data are too old and the loop starts over after a pause.\<close>

definition refresh_stage ::
    "'e daemon_env \<Rightarrow> daemon_settings \<Rightarrow> timestamp \<Rightarrow> int \<Rightarrow> int \<Rightarrow> ('e daemon_world, refresh_report option option) sx" where
  "refresh_stage env cfg target attempts halts =
     sx_bind (beat target attempts halts ''RUNNING'' ''refresh'') (\<lambda>_.
     sx_bind (guarded (on_env (de_refresh env target))) (\<lambda>r.
       let report = (case r of Inl _ \<Rightarrow> None | Inr rep \<Rightarrow> rep);
           ok = (case r of Inl _ \<Rightarrow> False | Inr None \<Rightarrow> True | Inr (Some rep) \<Rightarrow> rf_ok rep)
       in if ok then sx_return (Some report)
          else sx_bind (refresh_staleness env report) (\<lambda>staleness.
            if (case staleness of None \<Rightarrow> False | Some h \<Rightarrow> h \<le> dc_max_data_staleness_hours cfg)
            then sx_bind (daemon_alert ''data_degraded'' (Some target) DefaultKey) (\<lambda>_. sx_return (Some report))
            else sx_bind (daemon_alert ''data_refresh_failed'' (Some target) DefaultKey) (\<lambda>_.
                 sx_bind (beat target attempts halts ''AWAITING_DATA'' ''idle'') (\<lambda>_.
                 sx_bind (guarded (on_env (de_sleep env POLL_INTERVAL))) (\<lambda>_. sx_return None))))))"

definition venue_stage :: "'e daemon_env \<Rightarrow> timestamp \<Rightarrow> ('e daemon_world, unit) sx" where
  "venue_stage env target =
     sx_bind (guarded (on_env (de_venue env target))) (\<lambda>r.
       if r = Inr ''failed'' then daemon_alert ''venue_capture_failed'' (Some target) DefaultKey else sx_return ())"

definition alert_streak :: "daemon_settings \<Rightarrow> timestamp \<Rightarrow> int \<Rightarrow> ('e daemon_world, unit) sx" where
  "alert_streak cfg target halts =
     (if dc_halt_streak cfg \<le> halts then daemon_alert ''halt_streak'' (Some target) (StreakKey target halts) else sx_return ())"

definition run_cycle :: "'e daemon_env \<Rightarrow> timestamp \<Rightarrow> ('e daemon_world, cycle_report) sx" where
  "run_cycle env target =
     sx_bind (ask (de_now env)) (\<lambda>now.
     sx_bind (log_cycle (Started target now)) (\<lambda>_.
     sx_bind (guarded (on_env (de_cycle env target now))) (\<lambda>r.
       let report = (case r of Inl _ \<Rightarrow> \<lparr>cy_status = ''HALT'', cy_reason = None\<rparr> | Inr rep \<Rightarrow> rep)
       in sx_bind (log_cycle (Ended target (cy_status report))) (\<lambda>_. sx_return report))))"

definition quietly :: "('s, 'a) sx \<Rightarrow> ('s, unit) sx" where
  "quietly m = sx_bind (guarded m) (\<lambda>_. sx_return ())"

fun split_comma :: "string \<Rightarrow> string \<Rightarrow> string list" where
  "split_comma part [] = [part]"
| "split_comma part (ch # s) = (if ch = CHR '','' then part # split_comma [] s else split_comma (part @ [ch]) s)"

text \<open>A cycle degraded by the freeze of unresolved orders alone raises no alert.\<close>

definition freeze_only :: "cycle_report \<Rightarrow> bool" where
  "freeze_only rep \<longleftrightarrow> set (filter (\<lambda>s. s \<noteq> []) (split_comma [] (case cy_reason rep of None \<Rightarrow> [] | Some s \<Rightarrow> s))) = {''unresolved_own_orders''}"

section \<open>An iteration\<close>

datatype flow = Continue int | Break

definition flow_of :: "int \<Rightarrow> bool \<Rightarrow> flow" where
  "flow_of halts stop = (if stop then Break else Continue halts)"

definition fail_attempt ::
    "'e daemon_env \<Rightarrow> daemon_settings \<Rightarrow> daemon_state \<Rightarrow> timestamp \<Rightarrow> int \<Rightarrow> int \<Rightarrow> ('e daemon_world, flow) sx" where
  "fail_attempt env cfg st target attempts halts =
     sx_bind (retry_or_skip env cfg (ds_last_processed st) target attempts) (\<lambda>stop. sx_return (flow_of halts stop))"

definition finish_day :: "daemon_settings \<Rightarrow> timestamp \<Rightarrow> int \<Rightarrow> ('e daemon_world, flow) sx" where
  "finish_day cfg target halts =
     sx_bind (save_daemon_state cfg \<lparr>ds_last_processed = Some target, ds_pending = None, ds_attempts = 0\<rparr>) (\<lambda>_. sx_return (Continue halts))"

text \<open>What follows from the report of a cycle.\<close>

definition after_cycle ::
    "'e daemon_env \<Rightarrow> daemon_settings \<Rightarrow> daemon_state \<Rightarrow> timestamp \<Rightarrow> int \<Rightarrow> int \<Rightarrow> cycle_report \<Rightarrow> ('e daemon_world, flow) sx" where
  "after_cycle env cfg st target attempts halts report =
     (if cy_status report = ''INTERRUPTED'' then
        sx_bind (beat target attempts halts ''INTERRUPTED'' ''execute'') (\<lambda>_.
        sx_bind (save_daemon_state cfg \<lparr>ds_last_processed = ds_last_processed st, ds_pending = Some target, ds_attempts = attempts\<rparr>) (\<lambda>_.
        sx_return Break))
      else if cy_status report = ''DEGRADED'' then
        sx_bind (if freeze_only report then sx_return () else daemon_alert ''cycle_degraded'' (Some target) DefaultKey) (\<lambda>_.
        sx_bind (beat target attempts halts ''DEGRADED'' ''idle'') (\<lambda>_.
        sx_bind (quietly (on_env (de_prune env))) (\<lambda>_. finish_day cfg target halts)))
      else if cy_status report = ''COMPLETE'' then
        sx_bind (beat target attempts 0 ''COMPLETE'' ''idle'') (\<lambda>_.
        sx_bind (quietly (on_env (de_prune env))) (\<lambda>_.
        sx_bind (if dc_daily_digest cfg then daemon_alert ''cycle_complete'' (Some target) DefaultKey else sx_return ()) (\<lambda>_.
        finish_day cfg target 0)))
      else
        sx_bind (alert_streak cfg target (halts + 1)) (\<lambda>_.
        sx_bind (beat target attempts (halts + 1) (cy_status report) ''idle'') (\<lambda>_.
        sx_bind (quietly (on_env (de_prune env))) (\<lambda>_.
        fail_attempt env cfg st target attempts (halts + 1)))))"

definition execute_stage ::
    "'e daemon_env \<Rightarrow> daemon_settings \<Rightarrow> daemon_state \<Rightarrow> timestamp \<Rightarrow> int \<Rightarrow> int \<Rightarrow> ('e daemon_world, flow) sx" where
  "execute_stage env cfg st target attempts halts =
     sx_bind (beat target attempts halts ''RUNNING'' ''execute'') (\<lambda>_.
     sx_bind (run_cycle env target) (after_cycle env cfg st target attempts halts))"

definition signal_stage ::
    "'e daemon_env \<Rightarrow> daemon_settings \<Rightarrow> daemon_state \<Rightarrow> timestamp \<Rightarrow> int \<Rightarrow> int \<Rightarrow> ('e daemon_world, flow) sx" where
  "signal_stage env cfg st target attempts halts =
     sx_bind (beat target attempts halts ''RUNNING'' ''signal'') (\<lambda>_.
     sx_bind (guarded (on_env (de_signal env target))) (\<lambda>r. case r of
       Inl _ \<Rightarrow>
         sx_bind (alert_streak cfg target (halts + 1)) (\<lambda>_.
         sx_bind (beat target attempts (halts + 1) ''HALT'' ''idle'') (\<lambda>_.
         fail_attempt env cfg st target attempts (halts + 1)))
     | Inr age \<Rightarrow>
         sx_bind (ask (de_requested env)) (\<lambda>stop. if stop then sx_return Break
         else sx_bind (case age of
               None \<Rightarrow> sx_return ()
             | Some a \<Rightarrow> if dc_venue_warn_age_days cfg < a then daemon_alert ''venue_rules_stale'' (Some target) DefaultKey else sx_return ()) (\<lambda>_.
           execute_stage env cfg st target attempts halts))))"

definition work_stages ::
    "'e daemon_env \<Rightarrow> daemon_settings \<Rightarrow> daemon_state \<Rightarrow> timestamp \<Rightarrow> int \<Rightarrow> int \<Rightarrow> ('e daemon_world, flow) sx" where
  "work_stages env cfg st target attempts halts =
     sx_bind (venue_stage env target) (\<lambda>_.
     sx_bind (ask (de_requested env)) (\<lambda>stop. if stop then sx_return Break
     else sx_bind (refresh_stage env cfg target attempts halts) (\<lambda>refreshed. case refreshed of
       None \<Rightarrow> sx_return (Continue halts)
     | Some report \<Rightarrow>
         sx_bind (ask (de_requested env)) (\<lambda>stop. if stop then sx_return Break
         else sx_bind (if (case report of None \<Rightarrow> False | Some rep \<Rightarrow> rf_required_incomplete rep)
                then daemon_alert ''refresh_incomplete'' (Some target) DefaultKey else sx_return ()) (\<lambda>_.
           signal_stage env cfg st target attempts halts)))))"

definition daemon_iteration :: "nat \<Rightarrow> 'e daemon_env \<Rightarrow> daemon_settings \<Rightarrow> int \<Rightarrow> ('e daemon_world, flow) sx" where
  "daemon_iteration fuel env cfg halts =
     sx_bind (sx_gets (\<lambda>w. load_daemon_state cfg (dw_state w))) (\<lambda>loaded. case loaded of
       Inl _ \<Rightarrow>
         sx_bind (daemon_alert ''state_corrupt'' None FileKey) (\<lambda>_.
         sx_bind (ask (de_now env)) (\<lambda>now.
         sx_bind (beat (normalize now) 0 halts ''STATE_CORRUPT'' ''idle'') (\<lambda>_.
         sx_bind (on_env (de_sleep env POLL_INTERVAL)) (\<lambda>_. sx_return (Continue halts)))))
     | Inr st \<Rightarrow>
         sx_bind (sx_bind (choose_target env st) (catch_up env cfg st)) (\<lambda>(target, attempts).
           let wait_until = target + RELEASE_OFFSET + dc_catchup_buffer cfg in
           sx_bind (ask (de_now env)) (\<lambda>now.
           sx_bind (wait_release fuel env cfg target wait_until (wait_until - now)) (\<lambda>_.
           sx_bind (ask (de_requested env)) (\<lambda>stop. if stop then sx_return Break
           else work_stages env cfg st target attempts halts)))))"

text \<open>\<open>run_daemon\<close> with \<open>max_iterations\<close>; an unbounded run that is cut off is one of them.\<close>

primrec run_daemon :: "nat \<Rightarrow> nat \<Rightarrow> 'e daemon_env \<Rightarrow> daemon_settings \<Rightarrow> int \<Rightarrow> ('e daemon_world, unit) sx" where
  "run_daemon 0 fuel env cfg halts = sx_return ()"
| "run_daemon (Suc n) fuel env cfg halts =
     sx_bind (ask (de_requested env)) (\<lambda>stop. if stop then sx_return ()
     else sx_bind (daemon_iteration fuel env cfg halts) (\<lambda>flow. case flow of
       Break \<Rightarrow> sx_return () | Continue h \<Rightarrow> run_daemon n fuel env cfg h))"

section \<open>The heartbeat at the start\<close>

definition restore_consecutive_halts :: "text_codec \<Rightarrow> ledger_file \<Rightarrow> int" where
  "restore_consecutive_halts c f = (case f of
     Document (JObj raw) \<Rightarrow> if obj_get raw ''status'' = JStr ''COMPLETE'' then 0
       else (case py_int c (obj_get_default raw ''consecutive_halts'' (JInt 0)) of Inl _ \<Rightarrow> 0 | Inr n \<Rightarrow> max 0 n)
   | _ \<Rightarrow> 0)"


section \<open>The state file reads back\<close>

definition settings_ok :: "daemon_settings \<Rightarrow> bool" where
  "settings_ok cfg \<longleftrightarrow> (\<forall>t. dc_timestamp cfg (JStr (tc_iso (dc_codec cfg) t)) = Some (Aware t)) \<and> 1 \<le> dc_max_attempts cfg"

lemma load_stamp_json [simp]: "settings_ok cfg \<Longrightarrow> load_stamp cfg (stamp_json cfg t) = Inr t"
  by (cases t) (simp_all add: load_stamp_def stamp_json_def settings_ok_def)

lemma load_saved [simp]: "settings_ok cfg \<Longrightarrow> load_daemon_state cfg (daemon_document cfg st) = Inr st"
  by (simp add: load_daemon_state_def daemon_document_def STATE_KEY_def obj_get_def)

section \<open>Days\<close>

definition on_grid :: "timestamp \<Rightarrow> bool" where
  "on_grid t \<longleftrightarrow> t mod day = 0"

lemma on_grid_iff: "on_grid t \<longleftrightarrow> (\<exists>k. t = k * day)"
  by (auto simp: on_grid_def dvd_def mult.commute simp flip: dvd_eq_mod_eq_0)

lemma on_grid_normalize [simp]: "on_grid (normalize t)"
  by (auto simp: on_grid_iff normalize_def)

lemma on_grid_ceil [simp]: "on_grid (ceil_day t)"
  unfolding on_grid_iff ceil_day_def by blast

lemma on_grid_step [simp]: "on_grid (t + day) \<longleftrightarrow> on_grid t" "on_grid (t - day) \<longleftrightarrow> on_grid t"
  by (simp_all add: on_grid_def)

lemma normalize_grid [simp]: "on_grid t \<Longrightarrow> normalize t = t"
  by (auto simp: on_grid_iff normalize_def)

lemma grid_before: "on_grid d \<Longrightarrow> on_grid f \<Longrightarrow> d < f \<Longrightarrow> d \<le> f - day"
proof -
  assume "on_grid d" "on_grid f" "d < f"
  then obtain j k where jk: "d = j * day" "f = k * day" by (auto simp: on_grid_iff)
  with \<open>d < f\<close> have "j < k" by simp
  then have "j * day \<le> (k - 1) * day" by (intro mult_right_mono) (simp_all add: less_imp_le)
  then show ?thesis by (simp add: jk algebra_simps)
qed

text \<open>The day a state file asks for next.\<close>

definition front :: "daemon_state \<Rightarrow> timestamp option" where
  "front st = (case ds_pending st of Some t \<Rightarrow> Some t | None \<Rightarrow> map_option (\<lambda>t. normalize (t + day)) (ds_last_processed st))"

definition state_ok :: "daemon_settings \<Rightarrow> daemon_state \<Rightarrow> bool" where
  "state_ok cfg st \<longleftrightarrow> 0 \<le> ds_attempts st \<and> ds_attempts st < dc_max_attempts cfg
     \<and> (case ds_last_processed st of None \<Rightarrow> True | Some t \<Rightarrow> on_grid t)
     \<and> (case ds_pending st of None \<Rightarrow> True | Some t \<Rightarrow> on_grid t)
     \<and> (case (ds_last_processed st, ds_pending st) of (Some l, Some p) \<Rightarrow> l < p | _ \<Rightarrow> True)"

lemma front_grid: "state_ok cfg st \<Longrightarrow> front st = Some f \<Longrightarrow> on_grid f"
  by (auto simp: state_ok_def front_def split: option.splits)

lemma last_before_front: "state_ok cfg st \<Longrightarrow> front st = Some f \<Longrightarrow> ds_last_processed st = Some l \<Longrightarrow> l < f"
  by (auto simp: state_ok_def front_def split: option.splits)

section \<open>What has become of a day\<close>

fun ev_day :: "cycle_event \<Rightarrow> timestamp" where
  "ev_day (Started t now) = t"
| "ev_day (Ended t s) = t"

fun is_done :: "cycle_event \<Rightarrow> bool" where
  "is_done (Ended t s) \<longleftrightarrow> s = ''COMPLETE'' \<or> s = ''DEGRADED''"
| "is_done (Started t now) \<longleftrightarrow> False"

text \<open>The cycles go from day to day, and a day whose cycle has ended well is left behind.\<close>

definition in_order :: "cycle_event list \<Rightarrow> bool" where
  "in_order xs \<longleftrightarrow> sorted_wrt (\<lambda>x y. ev_day x \<le> ev_day y \<and> (is_done x \<longrightarrow> ev_day x < ev_day y)) xs"

text \<open>The cycle of the day ended well, or an alert says that the day was skipped.\<close>

definition skips :: "daemon_alert \<Rightarrow> timestamp \<Rightarrow> bool" where
  "skips a d \<longleftrightarrow> da_event a = ''day_skipped'' \<and> (case da_key a of RangeKey x y \<Rightarrow> x \<le> d \<and> d \<le> y | _ \<Rightarrow> da_decision_time a = Some d)"

definition accounted :: "'e daemon_world \<Rightarrow> timestamp \<Rightarrow> bool" where
  "accounted w d \<longleftrightarrow> (\<exists>x \<in> set (dw_cycles w). is_done x \<and> ev_day x = d) \<or> (\<exists>a \<in> set (dw_alerts w). skips a d)"

text \<open>Where a process stands that started at day \<open>f0\<close> with the log \<open>base\<close>: at day \<open>f\<close>, with every day
  since \<open>s0\<close> accounted for.  \<open>left_at\<close> is what also holds when it ends between a cycle and the save.\<close>

definition stands_at :: "daemon_settings \<Rightarrow> timestamp \<Rightarrow> timestamp \<Rightarrow> 'e daemon_world \<Rightarrow> bool" where
  "stands_at cfg s0 f w \<longleftrightarrow> (\<exists>st. load_daemon_state cfg (dw_state w) = Inr st \<and> state_ok cfg st \<and> front st = Some f)
     \<and> s0 \<le> f \<and> (\<forall>d. on_grid d \<longrightarrow> s0 \<le> d \<longrightarrow> d < f \<longrightarrow> accounted w d)"

definition left_at :: "daemon_settings \<Rightarrow> timestamp \<Rightarrow> timestamp \<Rightarrow> cycle_event list \<Rightarrow> timestamp \<Rightarrow> 'e daemon_world \<Rightarrow> bool" where
  "left_at cfg s0 f0 base f w \<longleftrightarrow> stands_at cfg s0 f w \<and> f0 \<le> f
     \<and> (\<exists>new. dw_cycles w = base @ new \<and> in_order new \<and> (\<forall>x \<in> set new. f0 \<le> ev_day x \<and> ev_day x \<le> f))"

definition at_day :: "daemon_settings \<Rightarrow> timestamp \<Rightarrow> timestamp \<Rightarrow> cycle_event list \<Rightarrow> timestamp \<Rightarrow> 'e daemon_world \<Rightarrow> bool" where
  "at_day cfg s0 f0 base f w \<longleftrightarrow> stands_at cfg s0 f w \<and> f0 \<le> f
     \<and> (\<exists>new. dw_cycles w = base @ new \<and> in_order new \<and> (\<forall>x \<in> set new. f0 \<le> ev_day x \<and> ev_day x \<le> f \<and> (is_done x \<longrightarrow> ev_day x < f)))"

lemma at_dayI:
  assumes "stands_at cfg s0 f w" "f0 \<le> f" "dw_cycles w = base @ new" "in_order new"
    "\<And>x. x \<in> set new \<Longrightarrow> f0 \<le> ev_day x \<and> ev_day x \<le> f \<and> (is_done x \<longrightarrow> ev_day x < f)"
  shows "at_day cfg s0 f0 base f w"
  using assms unfolding at_day_def by blast

lemma at_day_left: "at_day cfg s0 f0 base f w \<Longrightarrow> left_at cfg s0 f0 base f w"
  by (auto simp: at_day_def left_at_def)

text \<open>Steps that touch neither the state file nor the log of cycles.\<close>

definition calm :: "'e daemon_world \<Rightarrow> 'e daemon_world \<Rightarrow> bool" where
  "calm w w' \<longleftrightarrow> dw_state w' = dw_state w \<and> dw_cycles w' = dw_cycles w \<and> set (dw_alerts w) \<subseteq> set (dw_alerts w')"

lemma calm_preorder: "reflp calm" "transp calm"
  by (auto simp: reflp_def transp_def calm_def)

lemma calm_refl [simp]: "calm w w"
  by (simp add: calm_def)

lemma accounted_calm: "calm w w' \<Longrightarrow> accounted w d \<Longrightarrow> accounted w' d"
  by (auto simp: calm_def accounted_def)

lemma stands_calm: "calm w w' \<Longrightarrow> stands_at cfg s0 f w \<Longrightarrow> stands_at cfg s0 f w'"
  using accounted_calm unfolding stands_at_def calm_def by metis

lemma at_day_calm: "calm w w' \<Longrightarrow> at_day cfg s0 f0 base f w \<Longrightarrow> at_day cfg s0 f0 base f w'"
  using stands_calm [of w w'] by (simp add: at_day_def) (simp add: calm_def)

lemma left_at_calm: "calm w w' \<Longrightarrow> left_at cfg s0 f0 base f w \<Longrightarrow> left_at cfg s0 f0 base f w'"
  using stands_calm [of w w'] by (simp add: left_at_def) (simp add: calm_def)

section \<open>Frames\<close>

text \<open>A relation between the worlds before and after that every primitive step of the daemon respects
  is respected by every stage that neither saves the state nor runs a cycle; with saves, also by the
  stages that save.  The stages are gone through once, for any such relation.\<close>

lemma sx_keeps_guarded: "sx_keeps R m \<Longrightarrow> sx_keeps R (guarded m)"
  by (auto simp: sx_keeps_def guarded_def split: prod.splits sum.splits) (metis snd_conv)+

lemma sx_keeps_if: "(b \<Longrightarrow> sx_keeps R m) \<Longrightarrow> (\<not> b \<Longrightarrow> sx_keeps R n) \<Longrightarrow> sx_keeps R (if b then m else n)"
  by simp

lemma sx_keeps_option: "sx_keeps R m \<Longrightarrow> (\<And>x. sx_keeps R (n x)) \<Longrightarrow> sx_keeps R (case v of None \<Rightarrow> m | Some x \<Rightarrow> n x)"
  by (cases v) simp_all

lemma sx_keeps_Let: "sx_keeps R (f x) \<Longrightarrow> sx_keeps R (let y = x in f y)"
  by (simp add: Let_def)

lemma sx_keeps_prod: "(\<And>a b. sx_keeps R (f a b)) \<Longrightarrow> sx_keeps R (case x of (a, b) \<Rightarrow> f a b)"
  by (cases x) simp

locale daemon_frame =
  fixes env :: "'e daemon_env" and R :: "'e daemon_world \<Rightarrow> 'e daemon_world \<Rightarrow> bool"
  assumes refl: "reflp R" and trans: "transp R"
    and now: "sx_keeps R (ask (de_now env))" and requested: "sx_keeps R (ask (de_requested env))"
    and ban: "sx_keeps R (ask (de_ban_remaining env))" and sleep: "sx_keeps R (on_env (de_sleep env d))"
    and prefetch: "sx_keeps R (on_env (de_prefetch env t))" and venue: "sx_keeps R (on_env (de_venue env t))"
    and refresh: "sx_keeps R (on_env (de_refresh env t))" and staleness: "sx_keeps R (on_env (de_staleness env t))"
    and signal: "sx_keeps R (on_env (de_signal env t))" and cycle: "sx_keeps R (on_env (de_cycle env t n))"
    and prune: "sx_keeps R (on_env (de_prune env))"
    and alert: "sx_keeps R (daemon_alert e dt k)" and beat: "sx_keeps R (beat t a h s g)"
    and prefetched: "sx_keeps R (sx_modify (\<lambda>w. w\<lparr>dw_prefetched := x\<rparr>))"
begin

lemmas pure = sx_keeps_pure [OF refl]

lemmas bind = sx_keeps_bind [OF trans]

lemmas frame_rules = now requested ban sleep prefetch venue refresh staleness signal cycle prune alert beat prefetched pure bind
  sx_keeps_guarded sx_keeps_if sx_keeps_option sx_keeps_Let sx_keeps_prod

lemma quietly: "sx_keeps R m \<Longrightarrow> sx_keeps R (quietly m)"
  unfolding quietly_def by (intro frame_rules)

lemma prefetches: "sx_keeps R (run_due_prefetches env cfg t)"
  unfolding run_due_prefetches_def by (intro frame_rules)

lemma wait: "sx_keeps R (wait_release n env cfg t u r)"
proof (induction n arbitrary: r)
  case 0
  show ?case unfolding wait_release.simps by (intro frame_rules)
next
  case (Suc n)
  show ?case unfolding wait_release.simps by (intro frame_rules prefetches Suc.IH)
qed

lemma backoff: "sx_keeps R (backoff_wait env r)"
proof (induction "nat r" arbitrary: r rule: less_induct)
  case less
  show ?case by (subst backoff_wait.simps) (intro frame_rules less, simp_all add: POLL_INTERVAL_def)
qed

lemma ban_backoff: "sx_keeps R (ban_aware_backoff env t)"
  unfolding ban_aware_backoff_def by (intro frame_rules)

lemma choose: "sx_keeps R (choose_target env st)"
  unfolding choose_target_def by (intro frame_rules)

lemma venues: "sx_keeps R (venue_stage env t)"
  unfolding venue_stage_def by (intro frame_rules)

lemma refreshing: "sx_keeps R (refresh_stage env cfg t a h)"
  unfolding refresh_stage_def refresh_staleness_def by (intro frame_rules)

lemma streak: "sx_keeps R (alert_streak cfg t h)"
  unfolding alert_streak_def by (intro frame_rules)

lemmas stage_rules = quietly prefetches wait backoff ban_backoff choose venues refreshing streak

end

locale daemon_saving_frame = daemon_frame +
  assumes save: "sx_keeps R (save_daemon_state cfg st)"
begin

lemma catching_up: "sx_keeps R (catch_up env cfg st x)"
  unfolding catch_up_def by (intro frame_rules save)

lemma retry: "sx_keeps R (retry_or_skip env cfg p t a)"
  unfolding retry_or_skip_def by (intro frame_rules save backoff ban_backoff)

lemma after: "sx_keeps R (after_cycle env cfg st t a h rep)"
  unfolding after_cycle_def fail_attempt_def finish_day_def by (intro frame_rules save retry streak quietly)

end

lemma calm_frame: "daemon_frame env calm"
  using calm_preorder
  by unfold_locales (auto simp: sx_keeps_def on_env_def ask_def daemon_alert_def beat_def sx_modify_def calm_def split: prod.splits)

interpretation calm: daemon_frame env calm for env
  by (rule calm_frame)

text \<open>Only a cycle writes to the log of cycles.\<close>

interpretation logged: daemon_saving_frame env "\<lambda>w w'. dw_cycles w' = dw_cycles w" for env
  using preorder_eq_on [of dw_cycles]
  by unfold_locales (auto simp: sx_keeps_def on_env_def ask_def daemon_alert_def beat_def save_daemon_state_def sx_modify_def split: prod.splits)

lemmas calm_rules = calm.frame_rules calm.stage_rules

section \<open>What an iteration does\<close>

lemma calm_triple:
  assumes "sx_keeps calm m" "\<And>w w'. calm w w' \<Longrightarrow> P w \<Longrightarrow> P w'" "\<And>w. P w \<Longrightarrow> E w"
  shows "sx_triple P m (\<lambda>_. P) (\<lambda>_. E)"
  using assms(2,3) sx_keepsD [OF assms(1)] by (intro sx_tripleI) blast+

text \<open>Where a run may be when it ends.\<close>

definition left_somewhere :: "daemon_settings \<Rightarrow> timestamp \<Rightarrow> timestamp \<Rightarrow> cycle_event list \<Rightarrow> 'e daemon_world \<Rightarrow> bool" where
  "left_somewhere cfg s0 f0 base w \<longleftrightarrow> (\<exists>f. left_at cfg s0 f0 base f w)"

definition at_some_day :: "daemon_settings \<Rightarrow> timestamp \<Rightarrow> timestamp \<Rightarrow> cycle_event list \<Rightarrow> 'e daemon_world \<Rightarrow> bool" where
  "at_some_day cfg s0 f0 base w \<longleftrightarrow> (\<exists>f. at_day cfg s0 f0 base f w)"

lemma at_somewhere: "at_day cfg s0 f0 base f w \<Longrightarrow> at_some_day cfg s0 f0 base w" "left_at cfg s0 f0 base f w \<Longrightarrow> left_somewhere cfg s0 f0 base w"
  "at_day cfg s0 f0 base f w \<Longrightarrow> left_somewhere cfg s0 f0 base w" "at_some_day cfg s0 f0 base w \<Longrightarrow> left_somewhere cfg s0 f0 base w"
  unfolding at_some_day_def left_somewhere_def by (blast intro: at_day_left)+

lemma calm_at_day:
  assumes "sx_keeps calm m"
  shows "sx_triple (at_day cfg s0 f0 base f) m (\<lambda>_. at_day cfg s0 f0 base f) (\<lambda>_. left_somewhere cfg s0 f0 base)"
  by (rule calm_triple [OF assms at_day_calm]) (auto intro: at_somewhere)

text \<open>Saving: the day that is left behind is accounted for.\<close>

lemma save_next_day:
  assumes cfg: "settings_ok cfg" and f: "on_grid f"
  shows "sx_triple (\<lambda>w. left_at cfg s0 f0 base f w \<and> accounted w f)
    (save_daemon_state cfg \<lparr>ds_last_processed = Some f, ds_pending = None, ds_attempts = 0\<rparr>)
    (\<lambda>_. at_day cfg s0 f0 base (f + day)) (\<lambda>_. left_somewhere cfg s0 f0 base)"
  unfolding save_daemon_state_def
proof (rule sx_triple_modify)
  fix w :: "'e daemon_world" assume w: "left_at cfg s0 f0 base f w \<and> accounted w f"
  let ?st = "\<lparr>ds_last_processed = Some f, ds_pending = None, ds_attempts = 0\<rparr>"
  let ?w = "w\<lparr>dw_state := daemon_document cfg ?st\<rparr>"
  have st: "state_ok cfg ?st" "front ?st = Some (f + day)" using cfg f by (simp_all add: state_ok_def settings_ok_def front_def)
  have acc: "accounted ?w d \<longleftrightarrow> accounted w d" for d by (simp add: accounted_def)
  have "accounted w d" if "on_grid d" "s0 \<le> d" "d < f + day" for d
  proof (cases "d < f")
    case True
    then show ?thesis using w that by (auto simp: left_at_def stands_at_def)
  next
    case False
    then have "d = f" using grid_before [of d "f + day"] that f by simp
    then show ?thesis using w by simp
  qed
  moreover have "s0 \<le> f + day" "f0 \<le> f + day" using w less_imp_le [OF day_positive] by (auto simp: left_at_def stands_at_def)
  ultimately have "stands_at cfg s0 (f + day) ?w" using st cfg by (auto simp: stands_at_def acc)
  moreover obtain new where new: "dw_cycles w = base @ new" "in_order new" "\<forall>x \<in> set new. f0 \<le> ev_day x \<and> ev_day x \<le> f"
    using w by (auto simp: left_at_def)
  moreover have "f0 \<le> ev_day x \<and> ev_day x \<le> f + day \<and> (is_done x \<longrightarrow> ev_day x < f + day)" if "x \<in> set new" for x
    using bspec [OF new(3) that] day_positive by linarith
  ultimately show "at_day cfg s0 f0 base (f + day) ?w" using \<open>f0 \<le> f + day\<close>
    by (intro at_dayI [of _ _ _ _ _ _ new]) simp_all
qed

lemma save_same_day:
  assumes cfg: "settings_ok cfg" and st: "state_ok cfg st" "front st = Some f"
  shows "sx_triple (at_day cfg s0 f0 base f) (save_daemon_state cfg st) (\<lambda>_. at_day cfg s0 f0 base f) (\<lambda>_. left_somewhere cfg s0 f0 base)"
  unfolding save_daemon_state_def
proof (rule sx_triple_modify)
  fix w :: "'e daemon_world" assume w: "at_day cfg s0 f0 base f w"
  have acc: "accounted (w\<lparr>dw_state := s\<rparr>) d \<longleftrightarrow> accounted w d" for d s by (simp add: accounted_def)
  show "at_day cfg s0 f0 base f (w\<lparr>dw_state := daemon_document cfg st\<rparr>)"
    using w st cfg by (simp add: at_day_def stands_at_def acc)
qed

text \<open>Catching up: the skipped days are named in the alert.\<close>

lemma save_skipped:
  assumes cfg: "settings_ok cfg" and f: "on_grid f" "on_grid f'" "f < f'"
  shows "sx_triple (\<lambda>w. at_day cfg s0 f0 base f w \<and> (\<forall>d. f \<le> d \<longrightarrow> d \<le> f' - day \<longrightarrow> accounted w d))
    (save_daemon_state cfg \<lparr>ds_last_processed = Some (f' - day), ds_pending = None, ds_attempts = 0\<rparr>)
    (\<lambda>_. at_day cfg s0 f0 base f') (\<lambda>_. left_somewhere cfg s0 f0 base)"
  unfolding save_daemon_state_def
proof (rule sx_triple_modify)
  fix w :: "'e daemon_world" assume w: "at_day cfg s0 f0 base f w \<and> (\<forall>d. f \<le> d \<longrightarrow> d \<le> f' - day \<longrightarrow> accounted w d)"
  let ?st = "\<lparr>ds_last_processed = Some (f' - day), ds_pending = None, ds_attempts = 0\<rparr>"
  let ?w = "w\<lparr>dw_state := daemon_document cfg ?st\<rparr>"
  have st: "state_ok cfg ?st" "front ?st = Some f'" using cfg f by (simp_all add: state_ok_def settings_ok_def front_def)
  have acc: "accounted ?w d \<longleftrightarrow> accounted w d" for d by (simp add: accounted_def)
  have "accounted w d" if "on_grid d" "s0 \<le> d" "d < f'" for d
  proof (cases "d < f")
    case True
    then show ?thesis using w that by (auto simp: at_day_def stands_at_def)
  next
    case False
    then show ?thesis using w grid_before [OF that(1) f(2) that(3)] by auto
  qed
  moreover have "s0 \<le> f'" "f0 \<le> f'" using w f(3) by (auto simp: at_day_def stands_at_def)
  ultimately have "stands_at cfg s0 f' ?w" using st cfg by (auto simp: stands_at_def acc)
  moreover obtain new where "dw_cycles w = base @ new" "in_order new" "\<forall>x \<in> set new. f0 \<le> ev_day x \<and> ev_day x \<le> f \<and> (is_done x \<longrightarrow> ev_day x < f)"
    using w by (auto simp: at_day_def)
  ultimately show "at_day cfg s0 f0 base f' ?w" using \<open>f0 \<le> f'\<close> f(3)
    by (intro at_dayI [of _ _ _ _ _ _ new]) fastforce+
qed

lemma alert_skips:
  assumes "\<And>d. d \<in> D \<Longrightarrow> skips \<lparr>da_event = e, da_decision_time = t, da_key = k\<rparr> d"
  shows "sx_triple (at_day cfg s0 f0 base f) (daemon_alert e t k) (\<lambda>_ w. at_day cfg s0 f0 base f w \<and> (\<forall>d \<in> D. accounted w d)) (\<lambda>_. left_somewhere cfg s0 f0 base)"
proof -
  have "sx_triple (at_day cfg s0 f0 base f) (daemon_alert e t k) (\<lambda>_. at_day cfg s0 f0 base f) (\<lambda>_. left_somewhere cfg s0 f0 base)"
    by (rule calm_at_day [OF calm.alert])
  then show ?thesis
    by (rule sx_triple_post) (use assms in \<open>auto simp: daemon_alert_def sx_modify_def accounted_def\<close>)
qed

lemma catch_up_triple:
  assumes cfg: "settings_ok cfg" and st: "state_ok cfg st" "front st = Some f" "f = target" "0 \<le> attempts" "attempts < dc_max_attempts cfg"
  shows "sx_triple (at_day cfg s0 f0 base f) (catch_up env cfg st (target, attempts))
    (\<lambda>(t, n) w. at_day cfg s0 f0 base t w \<and> f \<le> t \<and> on_grid t \<and> 0 \<le> n \<and> n < dc_max_attempts cfg) (\<lambda>_. left_somewhere cfg s0 f0 base)"
proof -
  have grid: "on_grid f" using st(1,2) by (rule front_grid)
  have "sx_triple (at_day cfg s0 f0 base f)
    (let e = ceil_day (now - dc_max_signal_staleness cfg); l = e - day
       in if target < e then sx_bind (daemon_alert ''day_skipped'' (Some l) (RangeKey target l)) (\<lambda>_.
               sx_bind (save_daemon_state cfg \<lparr>ds_last_processed = Some l, ds_pending = None, ds_attempts = 0\<rparr>) (\<lambda>_. sx_return (e, 0)))
          else sx_return (target, attempts))
    (\<lambda>(t, n) w. at_day cfg s0 f0 base t w \<and> f \<le> t \<and> on_grid t \<and> 0 \<le> n \<and> n < dc_max_attempts cfg) (\<lambda>_. left_somewhere cfg s0 f0 base)" for now
  proof (cases "target < ceil_day (now - dc_max_signal_staleness cfg)")
    case True
    let ?e = "ceil_day (now - dc_max_signal_staleness cfg)"
    have "f < ?e" using True st(3) by simp
    have alert: "sx_triple (at_day cfg s0 f0 base f) (daemon_alert ''day_skipped'' (Some (?e - day)) (RangeKey target (?e - day)))
        (\<lambda>_ w. at_day cfg s0 f0 base f w \<and> (\<forall>d \<in> {f..?e - day}. accounted w d)) (\<lambda>_. left_somewhere cfg s0 f0 base)"
      by (rule alert_skips) (use st(3) in \<open>simp add: skips_def\<close>)
    have save: "sx_triple (\<lambda>w. at_day cfg s0 f0 base f w \<and> (\<forall>d \<in> {f..?e - day}. accounted w d))
        (save_daemon_state cfg \<lparr>ds_last_processed = Some (?e - day), ds_pending = None, ds_attempts = 0\<rparr>)
        (\<lambda>_. at_day cfg s0 f0 base ?e) (\<lambda>_. left_somewhere cfg s0 f0 base)"
      by (rule sx_pre [OF save_skipped [OF cfg grid on_grid_ceil \<open>f < ?e\<close>]]) auto
    have n: "0 < dc_max_attempts cfg" using cfg by (simp add: settings_ok_def)
    have "sx_triple (at_day cfg s0 f0 base f) (sx_bind (daemon_alert ''day_skipped'' (Some (?e - day)) (RangeKey target (?e - day))) (\<lambda>_.
               sx_bind (save_daemon_state cfg \<lparr>ds_last_processed = Some (?e - day), ds_pending = None, ds_attempts = 0\<rparr>) (\<lambda>_. sx_return (?e, 0))))
        (\<lambda>(t, n) w. at_day cfg s0 f0 base t w \<and> f \<le> t \<and> on_grid t \<and> 0 \<le> n \<and> n < dc_max_attempts cfg) (\<lambda>_. left_somewhere cfg s0 f0 base)"
      by (rule sx_triple_seq [OF alert sx_triple_seq [OF save sx_triple_return]]) (use \<open>f < ?e\<close> n in simp)
    then show ?thesis using True by (simp add: Let_def)
  next
    case False
    then show ?thesis using st(3-5) grid by (simp add: Let_def sx_triple_return)
  qed
  moreover have "front st \<noteq> None" using st(2) by simp
  ultimately show ?thesis unfolding catch_up_def prod.case
    by (intro sx_triple_if sx_triple_seq [OF calm_at_day [OF calm.now]]) (simp_all add: front_def sx_triple_return)
qed


text \<open>A cycle of the day that is due.\<close>

lemma in_order_snoc:
  assumes "in_order xs" "\<And>x. x \<in> set xs \<Longrightarrow> ev_day x \<le> ev_day y \<and> (is_done x \<longrightarrow> ev_day x < ev_day y)"
  shows "in_order (xs @ [y])"
  using assms by (simp add: in_order_def sorted_wrt_append)

lemma log_triple:
  assumes "ev_day y = f"
  shows "sx_triple (at_day cfg s0 f0 base f) (log_cycle y)
    (\<lambda>_ w. (\<not> is_done y \<longrightarrow> at_day cfg s0 f0 base f w) \<and> left_at cfg s0 f0 base f w \<and> (is_done y \<longrightarrow> accounted w f)) (\<lambda>_. left_somewhere cfg s0 f0 base)"
  unfolding log_cycle_def
proof (rule sx_triple_modify)
  fix w :: "'e daemon_world" assume w: "at_day cfg s0 f0 base f w"
  let ?w = "w\<lparr>dw_cycles := dw_cycles w @ [y]\<rparr>"
  obtain new where new: "dw_cycles w = base @ new" "in_order new" "\<forall>x \<in> set new. f0 \<le> ev_day x \<and> ev_day x \<le> f \<and> (is_done x \<longrightarrow> ev_day x < f)"
    using w by (auto simp: at_day_def)
  have day: "stands_at cfg s0 f w" "f0 \<le> f" using w by (simp_all add: at_day_def)
  have "accounted ?w d" if "accounted w d" for d using that by (auto simp: accounted_def)
  then have stands: "stands_at cfg s0 f ?w" using day(1) by (auto simp: stands_at_def)
  have order: "in_order (new @ [y])" by (rule in_order_snoc [OF new(2)]) (use new(3) assms in auto)
  have "left_at cfg s0 f0 base f ?w" using stands day(2) order new(1,3) assms unfolding left_at_def by (intro conjI exI [of _ "new @ [y]"]) auto
  moreover have "at_day cfg s0 f0 base f ?w" if "\<not> is_done y"
    by (rule at_dayI [OF stands day(2) _ order]) (use new(1,3) assms that day(2) in auto)
  moreover have "accounted ?w f" if "is_done y" using that assms by (auto simp: accounted_def)
  ultimately show "(\<not> is_done y \<longrightarrow> at_day cfg s0 f0 base f ?w) \<and> left_at cfg s0 f0 base f ?w \<and> (is_done y \<longrightarrow> accounted ?w f)" by blast
qed

definition done_status :: "string \<Rightarrow> bool" where
  "done_status s \<longleftrightarrow> s = ''COMPLETE'' \<or> s = ''DEGRADED''"

lemma run_cycle_triple:
  "sx_triple (at_day cfg s0 f0 base f) (run_cycle env f)
    (\<lambda>rep w. (\<not> done_status (cy_status rep) \<longrightarrow> at_day cfg s0 f0 base f w) \<and> left_at cfg s0 f0 base f w \<and> (done_status (cy_status rep) \<longrightarrow> accounted w f))
    (\<lambda>_. left_somewhere cfg s0 f0 base)"
proof -
  have started: "sx_triple (at_day cfg s0 f0 base f) (log_cycle (Started f now)) (\<lambda>_. at_day cfg s0 f0 base f) (\<lambda>_. left_somewhere cfg s0 f0 base)" for now
    by (rule sx_conseq [OF log_triple [of "Started f now" f cfg s0 f0 base]]) simp_all
  have ended: "sx_triple (at_day cfg s0 f0 base f) (sx_bind (log_cycle (Ended f (cy_status rep))) (\<lambda>_. sx_return rep))
      (\<lambda>rep w. (\<not> done_status (cy_status rep) \<longrightarrow> at_day cfg s0 f0 base f w) \<and> left_at cfg s0 f0 base f w \<and> (done_status (cy_status rep) \<longrightarrow> accounted w f))
      (\<lambda>_. left_somewhere cfg s0 f0 base)" for rep
    by (rule sx_triple_seq [OF log_triple sx_triple_return]) (simp_all add: done_status_def)
  show ?thesis unfolding run_cycle_def Let_def
    by (rule sx_triple_seq [OF calm_at_day [OF calm.now] sx_triple_seq [OF started
        sx_triple_seq [OF calm_at_day [OF sx_keeps_guarded [OF calm.cycle]] ended]]])
qed

text \<open>A failed attempt.\<close>

lemma retry_triple:
  assumes cfg: "settings_ok cfg" and st: "on_grid f" "0 \<le> attempts" "case processed of None \<Rightarrow> True | Some l \<Rightarrow> on_grid l \<and> l < f"
  shows "sx_triple (at_day cfg s0 f0 base f) (retry_or_skip env cfg processed f attempts) (\<lambda>_. at_some_day cfg s0 f0 base) (\<lambda>_. left_somewhere cfg s0 f0 base)"
proof (cases "dc_max_attempts cfg \<le> attempts + 1")
  case True
  have alert: "sx_triple (at_day cfg s0 f0 base f) (daemon_alert ''day_skipped'' (Some f) DefaultKey)
      (\<lambda>_ w. at_day cfg s0 f0 base f w \<and> (\<forall>d \<in> {f}. accounted w d)) (\<lambda>_. left_somewhere cfg s0 f0 base)"
    by (rule alert_skips) (simp add: skips_def)
  have save: "sx_triple (\<lambda>w. at_day cfg s0 f0 base f w \<and> (\<forall>d \<in> {f}. accounted w d))
      (save_daemon_state cfg \<lparr>ds_last_processed = Some f, ds_pending = None, ds_attempts = 0\<rparr>) (\<lambda>_. at_day cfg s0 f0 base (f + day)) (\<lambda>_. left_somewhere cfg s0 f0 base)"
    by (rule sx_pre [OF save_next_day [OF cfg st(1)]]) (auto intro: at_day_left)
  show ?thesis unfolding retry_or_skip_def Let_def using True
    by (simp, intro sx_triple_seq [OF alert sx_triple_seq [OF save sx_triple_return]]) (rule at_somewhere)
next
  case False
  let ?st = "\<lparr>ds_last_processed = processed, ds_pending = Some f, ds_attempts = attempts + 1\<rparr>"
  have ok: "state_ok cfg ?st" "front ?st = Some f" using False st by (auto simp: state_ok_def front_def split: option.splits)
  have wait: "sx_triple (at_day cfg s0 f0 base f) (backoff_wait env b) (\<lambda>_. at_some_day cfg s0 f0 base) (\<lambda>_. left_somewhere cfg s0 f0 base)" for b
    by (rule sx_conseq [OF calm_at_day [OF calm.backoff]]) (auto intro: at_somewhere)
  show ?thesis unfolding retry_or_skip_def Let_def using False
    by (simp, intro sx_triple_seq [OF save_same_day [OF cfg ok] sx_triple_seq [OF calm_at_day [OF calm.ban_backoff] wait]])
qed


definition day_ok :: "daemon_settings \<Rightarrow> daemon_state \<Rightarrow> timestamp \<Rightarrow> int \<Rightarrow> bool" where
  "day_ok cfg st t attempts \<longleftrightarrow> on_grid t \<and> 0 \<le> attempts \<and> attempts < dc_max_attempts cfg
     \<and> (case ds_last_processed st of None \<Rightarrow> True | Some l \<Rightarrow> on_grid l \<and> l < t)"

text \<open>The triples of the stages have one shape.\<close>

abbreviation day_triple ::
    "daemon_settings \<Rightarrow> timestamp \<Rightarrow> timestamp \<Rightarrow> cycle_event list \<Rightarrow> timestamp \<Rightarrow> ('e daemon_world, 'a) sx \<Rightarrow> bool" where
  "day_triple cfg s0 f0 base f m \<equiv> sx_triple (at_day cfg s0 f0 base f) m (\<lambda>_. at_some_day cfg s0 f0 base) (\<lambda>_. left_somewhere cfg s0 f0 base)"

lemma day_return: "day_triple cfg s0 f0 base f (sx_return x)"
  by (rule sx_triple_return) (rule at_somewhere)

lemma day_seq: "sx_keeps calm m \<Longrightarrow> (\<And>x. day_triple cfg s0 f0 base f (g x)) \<Longrightarrow> day_triple cfg s0 f0 base f (sx_bind m g)"
  by (rule sx_triple_seq [OF calm_at_day])

lemma some_day_return: "sx_triple (at_some_day cfg s0 f0 base) (sx_return x) (\<lambda>_. at_some_day cfg s0 f0 base) (\<lambda>_. left_somewhere cfg s0 f0 base)"
  by (rule sx_triple_return)

lemma fail_attempt_triple:
  assumes "settings_ok cfg" "day_ok cfg st f attempts"
  shows "day_triple cfg s0 f0 base f (fail_attempt env cfg st f attempts halts)"
  unfolding fail_attempt_def
  by (rule sx_triple_seq [OF retry_triple [OF assms(1)] some_day_return]) (use assms(2) in \<open>simp_all add: day_ok_def\<close>)

lemma finish_triple:
  assumes "settings_ok cfg" "on_grid f"
  shows "sx_triple (\<lambda>w. left_at cfg s0 f0 base f w \<and> accounted w f) (finish_day cfg f halts) (\<lambda>_. at_some_day cfg s0 f0 base) (\<lambda>_. left_somewhere cfg s0 f0 base)"
  unfolding finish_day_def
  by (rule sx_triple_seq [OF save_next_day [OF assms] sx_triple_return]) (rule at_somewhere)

lemma calm_accounted:
  assumes "sx_keeps calm m"
  shows "sx_triple (\<lambda>w. left_at cfg s0 f0 base f w \<and> accounted w f) m (\<lambda>_ w. left_at cfg s0 f0 base f w \<and> accounted w f) (\<lambda>_. left_somewhere cfg s0 f0 base)"
  by (rule calm_triple [OF assms]) (use left_at_calm accounted_calm in blast, use at_somewhere in blast)

lemma done_seq:
  assumes "sx_keeps calm m" "\<And>x. sx_triple (\<lambda>w. left_at cfg s0 f0 base f w \<and> accounted w f) (g x) Q (\<lambda>_. left_somewhere cfg s0 f0 base)"
  shows "sx_triple (\<lambda>w. left_at cfg s0 f0 base f w \<and> accounted w f) (sx_bind m g) Q (\<lambda>_. left_somewhere cfg s0 f0 base)"
  by (rule sx_triple_seq [OF calm_accounted [OF assms(1)] assms(2)])

lemma after_cycle_triple:
  assumes cfg: "settings_ok cfg" and ok: "day_ok cfg st f attempts"
  shows "sx_triple (\<lambda>w. (\<not> done_status (cy_status rep) \<longrightarrow> at_day cfg s0 f0 base f w) \<and> left_at cfg s0 f0 base f w \<and> (done_status (cy_status rep) \<longrightarrow> accounted w f))
    (after_cycle env cfg st f attempts halts rep) (\<lambda>_. at_some_day cfg s0 f0 base) (\<lambda>_. left_somewhere cfg s0 f0 base)"
proof -
  have grid: "on_grid f" using ok by (simp add: day_ok_def)
  note finish = finish_triple [OF cfg grid]
  let ?st = "\<lparr>ds_last_processed = ds_last_processed st, ds_pending = Some f, ds_attempts = attempts\<rparr>"
  have st: "state_ok cfg ?st" "front ?st = Some f" using ok by (auto simp: day_ok_def state_ok_def front_def split: option.splits)
  have interrupted: "day_triple cfg s0 f0 base f (sx_bind (beat f attempts halts ''INTERRUPTED'' ''execute'') (\<lambda>_.
        sx_bind (save_daemon_state cfg ?st) (\<lambda>_. sx_return Break)))"
    by (rule day_seq [OF calm.beat sx_triple_seq [OF save_same_day [OF cfg st] day_return]])
  have failed: "day_triple cfg s0 f0 base f (sx_bind (alert_streak cfg f (halts + 1)) (\<lambda>_. sx_bind (beat f attempts (halts + 1) s ''idle'') (\<lambda>_.
         sx_bind (quietly (on_env (de_prune env))) (\<lambda>_. fail_attempt env cfg st f attempts (halts + 1)))))" for s
    by (intro day_seq calm_rules fail_attempt_triple cfg ok)
  show ?thesis
  proof (cases "done_status (cy_status rep)")
    case True
    then have "sx_triple (\<lambda>w. left_at cfg s0 f0 base f w \<and> accounted w f) (after_cycle env cfg st f attempts halts rep)
        (\<lambda>_. at_some_day cfg s0 f0 base) (\<lambda>_. left_somewhere cfg s0 f0 base)"
      unfolding after_cycle_def done_status_def
      by (elim disjE) (simp_all only: list.inject char.inject if_False if_True simp_thms list.distinct, (intro done_seq calm_rules finish)+)
    then show ?thesis by (rule sx_pre) (use True in simp)
  next
    case False
    have "day_triple cfg s0 f0 base f (after_cycle env cfg st f attempts halts rep)"
    proof (cases "cy_status rep = ''INTERRUPTED''")
      case True
      then show ?thesis using interrupted by (simp add: after_cycle_def)
    next
      case other: False
      then show ?thesis using failed [of "cy_status rep"] False by (simp add: after_cycle_def done_status_def)
    qed
    then show ?thesis by (rule sx_pre) (use False in simp)
  qed
qed

lemma execute_triple:
  assumes "settings_ok cfg" "day_ok cfg st f attempts"
  shows "day_triple cfg s0 f0 base f (execute_stage env cfg st f attempts halts)"
  unfolding execute_stage_def
  by (rule day_seq [OF calm.beat], rule sx_triple_bind [OF run_cycle_triple after_cycle_triple [OF assms]])

lemma signal_triple:
  assumes cfg: "settings_ok cfg" and ok: "day_ok cfg st f attempts"
  shows "day_triple cfg s0 f0 base f (signal_stage env cfg st f attempts halts)"
  unfolding signal_stage_def
proof (rule day_seq [OF calm.beat], rule day_seq [OF sx_keeps_guarded [OF calm.signal]])
  fix r :: "rat option res"
  have failed: "day_triple cfg s0 f0 base f (sx_bind (alert_streak cfg f (halts + 1)) (\<lambda>_. sx_bind (beat f attempts (halts + 1) ''HALT'' ''idle'') (\<lambda>_.
         fail_attempt env cfg st f attempts (halts + 1))))"
    by (intro day_seq calm_rules fail_attempt_triple cfg ok)
  have on: "day_triple cfg s0 f0 base f (sx_bind (ask (de_requested env)) (\<lambda>stop. if stop then sx_return Break
         else sx_bind (case age of None \<Rightarrow> sx_return ()
             | Some a \<Rightarrow> if dc_venue_warn_age_days cfg < a then daemon_alert ''venue_rules_stale'' (Some f) DefaultKey else sx_return ()) (\<lambda>_.
           execute_stage env cfg st f attempts halts)))" for age
    by (intro day_seq sx_triple_if day_return calm_rules execute_triple cfg ok)
  show "day_triple cfg s0 f0 base f (case r of
       Inl _ \<Rightarrow> sx_bind (alert_streak cfg f (halts + 1)) (\<lambda>_. sx_bind (beat f attempts (halts + 1) ''HALT'' ''idle'') (\<lambda>_. fail_attempt env cfg st f attempts (halts + 1)))
     | Inr age \<Rightarrow> sx_bind (ask (de_requested env)) (\<lambda>stop. if stop then sx_return Break
         else sx_bind (case age of None \<Rightarrow> sx_return ()
             | Some a \<Rightarrow> if dc_venue_warn_age_days cfg < a then daemon_alert ''venue_rules_stale'' (Some f) DefaultKey else sx_return ()) (\<lambda>_.
           execute_stage env cfg st f attempts halts)))"
    using failed on by (cases r) simp_all
qed

lemma work_triple:
  assumes cfg: "settings_ok cfg" and ok: "day_ok cfg st f attempts"
  shows "day_triple cfg s0 f0 base f (work_stages env cfg st f attempts halts)"
  unfolding work_stages_def
  by (intro day_seq sx_triple_if sx_triple_option day_return calm_rules signal_triple cfg ok)


lemma stands_loads:
  assumes "at_some_day cfg s0 f0 base w"
  obtains st f where "load_daemon_state cfg (dw_state w) = Inr st" "state_ok cfg st" "front st = Some f" "at_day cfg s0 f0 base f w"
  using assms unfolding at_some_day_def at_day_def stands_at_def by blast

lemma choose_triple:
  assumes "state_ok cfg st" "front st = Some f"
  shows "sx_triple (at_day cfg s0 f0 base f) (choose_target env st)
    (\<lambda>(t, n) w. at_day cfg s0 f0 base f w \<and> t = f \<and> 0 \<le> n \<and> n < dc_max_attempts cfg) (\<lambda>_. left_somewhere cfg s0 f0 base)"
proof (cases "ds_pending st")
  case None
  then obtain l where l: "ds_last_processed st = Some l" "f = normalize (l + day)" using assms(2) by (auto simp: front_def)
  have "0 < dc_max_attempts cfg" using assms(1) by (auto simp: state_ok_def)
  then show ?thesis unfolding choose_target_def using None
    by (simp, intro sx_triple_seq [OF calm_at_day [OF calm.now] sx_triple_return]) (simp add: next_decision_time_def l)
next
  case (Some p)
  then show ?thesis using assms by (simp add: choose_target_def sx_triple_return front_def state_ok_def)
qed

lemma target_triple:
  fixes env :: "'e daemon_env"
  assumes cfg: "settings_ok cfg" and st: "state_ok cfg st" "front st = Some f"
  shows "sx_triple (at_day cfg s0 f0 base f) (sx_bind (choose_target env st) (catch_up env cfg st))
    (\<lambda>(t, n) w. at_day cfg s0 f0 base t w \<and> day_ok cfg st t n) (\<lambda>_. left_somewhere cfg s0 f0 base)"
proof (rule sx_triple_bind [OF choose_triple [OF st]])
  fix x :: "timestamp \<times> int"
  obtain t n where x: "x = (t, n)" by (cases x)
  have grid: "case ds_last_processed st of None \<Rightarrow> True | Some l \<Rightarrow> on_grid l \<and> l < f"
    using st last_before_front [OF st] by (auto simp: state_ok_def split: option.splits)
  have "sx_triple (at_day cfg s0 f0 base f) (catch_up env cfg st (t, n))
      (\<lambda>(t, n) w. at_day cfg s0 f0 base t w \<and> day_ok cfg st t n) (\<lambda>_. left_somewhere cfg s0 f0 base)"
    if n: "f = t" "0 \<le> n" "n < dc_max_attempts cfg"
  proof (rule sx_conseq [OF catch_up_triple [OF cfg st n, where ?s0.0 = s0 and ?f0.0 = f0 and base = base and env = env]])
    fix y and w :: "'e daemon_world" assume y: "(\<lambda>(t, n) w. at_day cfg s0 f0 base t w \<and> f \<le> t \<and> on_grid t \<and> 0 \<le> n \<and> n < dc_max_attempts cfg) y w"
    obtain t' n' where "y = (t', n')" by (cases y)
    with y grid show "(\<lambda>(t, n) w. at_day cfg s0 f0 base t w \<and> day_ok cfg st t n) y w"
      by (simp add: day_ok_def) (cases "ds_last_processed st", simp_all)
  qed simp_all
  then show "sx_triple (case x of (t, n) \<Rightarrow> \<lambda>w. at_day cfg s0 f0 base f w \<and> t = f \<and> 0 \<le> n \<and> n < dc_max_attempts cfg) (catch_up env cfg st x)
      (\<lambda>(t, n) w. at_day cfg s0 f0 base t w \<and> day_ok cfg st t n) (\<lambda>_. left_somewhere cfg s0 f0 base)"
    unfolding x prod.case by (intro sx_triple_pre_fact) auto
qed

lemma iteration_triple:
  fixes env :: "'e daemon_env"
  assumes cfg: "settings_ok cfg"
  shows "sx_triple (at_some_day cfg s0 f0 base) (daemon_iteration fuel env cfg halts) (\<lambda>_. at_some_day cfg s0 f0 base) (\<lambda>_. left_somewhere cfg s0 f0 base)"
  unfolding daemon_iteration_def
proof (rule sx_triple_gets_eq)
  fix loaded
  show "sx_triple (\<lambda>w. at_some_day cfg s0 f0 base w \<and> load_daemon_state cfg (dw_state w) = loaded)
    (case loaded of
       Inl _ \<Rightarrow>
         sx_bind (daemon_alert ''state_corrupt'' None FileKey) (\<lambda>_.
         sx_bind (ask (de_now env)) (\<lambda>now.
         sx_bind (beat (normalize now) 0 halts ''STATE_CORRUPT'' ''idle'') (\<lambda>_.
         sx_bind (on_env (de_sleep env POLL_INTERVAL)) (\<lambda>_. sx_return (Continue halts)))))
     | Inr st \<Rightarrow>
         sx_bind (sx_bind (choose_target env st) (catch_up env cfg st)) (\<lambda>(target, attempts).
           let wait_until = target + RELEASE_OFFSET + dc_catchup_buffer cfg in
           sx_bind (ask (de_now env)) (\<lambda>now.
           sx_bind (wait_release fuel env cfg target wait_until (wait_until - now)) (\<lambda>_.
           sx_bind (ask (de_requested env)) (\<lambda>stop. if stop then sx_return Break
           else work_stages env cfg st target attempts halts)))))
    (\<lambda>_. at_some_day cfg s0 f0 base) (\<lambda>_. left_somewhere cfg s0 f0 base)"
  proof (cases loaded)
    case (Inl e)
    have "False" if "at_some_day cfg s0 f0 base w" "load_daemon_state cfg (dw_state w) = loaded" for w :: "'e daemon_world"
      using that Inl by (auto elim: stands_loads)
    then show ?thesis by (intro sx_pre [OF sx_triple_pre_False]) blast
  next
    case (Inr st)
    have day: "state_ok cfg st \<and> (\<exists>f. front st = Some f \<and> at_day cfg s0 f0 base f w)"
      if "at_some_day cfg s0 f0 base w" "load_daemon_state cfg (dw_state w) = loaded" for w :: "'e daemon_world"
      using that Inr by (auto elim!: stands_loads)
    have work: "sx_triple (\<lambda>w. at_day cfg s0 f0 base t w \<and> day_ok cfg st t n)
        (let wait_until = t + RELEASE_OFFSET + dc_catchup_buffer cfg in
           sx_bind (ask (de_now env)) (\<lambda>now.
           sx_bind (wait_release fuel env cfg t wait_until (wait_until - now)) (\<lambda>_.
           sx_bind (ask (de_requested env)) (\<lambda>stop. if stop then sx_return Break else work_stages env cfg st t n halts))))
        (\<lambda>_. at_some_day cfg s0 f0 base) (\<lambda>_. left_somewhere cfg s0 f0 base)" for t n
      by (intro sx_triple_pre_fact sx_triple_Let day_seq calm_rules sx_triple_if day_return work_triple cfg)
    show ?thesis
    proof (rule sx_triple_pre_ex)
      fix w0 :: "'e daemon_world" assume "at_some_day cfg s0 f0 base w0 \<and> load_daemon_state cfg (dw_state w0) = loaded"
      then obtain f where f: "state_ok cfg st" "front st = Some f" using day by blast
      have "sx_triple (at_day cfg s0 f0 base f) (sx_bind (sx_bind (choose_target env st) (catch_up env cfg st)) (\<lambda>(t, n).
          let wait_until = t + RELEASE_OFFSET + dc_catchup_buffer cfg in
           sx_bind (ask (de_now env)) (\<lambda>now.
           sx_bind (wait_release fuel env cfg t wait_until (wait_until - now)) (\<lambda>_.
           sx_bind (ask (de_requested env)) (\<lambda>stop. if stop then sx_return Break else work_stages env cfg st t n halts)))))
        (\<lambda>_. at_some_day cfg s0 f0 base) (\<lambda>_. left_somewhere cfg s0 f0 base)"
      proof (rule sx_triple_bind [OF target_triple [OF cfg f]])
        fix x :: "timestamp \<times> int"
        show "sx_triple (case x of (t, n) \<Rightarrow> \<lambda>w. at_day cfg s0 f0 base t w \<and> day_ok cfg st t n) (case x of (t, n) \<Rightarrow>
          let wait_until = t + RELEASE_OFFSET + dc_catchup_buffer cfg in
           sx_bind (ask (de_now env)) (\<lambda>now.
           sx_bind (wait_release fuel env cfg t wait_until (wait_until - now)) (\<lambda>_.
           sx_bind (ask (de_requested env)) (\<lambda>stop. if stop then sx_return Break else work_stages env cfg st t n halts))))
          (\<lambda>_. at_some_day cfg s0 f0 base) (\<lambda>_. left_somewhere cfg s0 f0 base)"
          using work by (cases x) simp
      qed
      then show ?thesis unfolding Inr sum.case by (rule sx_pre) (use day f(2) Inr in fastforce)
    qed
  qed
qed

lemma run_triple:
  fixes env :: "'e daemon_env"
  assumes cfg: "settings_ok cfg"
  shows "sx_triple (at_some_day cfg s0 f0 base) (run_daemon n fuel env cfg halts) (\<lambda>_. left_somewhere cfg s0 f0 base) (\<lambda>_. left_somewhere cfg s0 f0 base)"
proof (induction n arbitrary: halts)
  case 0
  show ?case by (simp add: sx_triple_return at_somewhere)
next
  case (Suc n)
  have ask: "sx_triple (at_some_day cfg s0 f0 base) (ask (de_requested env)) (\<lambda>_. at_some_day cfg s0 f0 base) (\<lambda>_. left_somewhere cfg s0 f0 base)"
  proof (rule calm_triple [OF calm.requested])
    show "at_some_day cfg s0 f0 base w'" if "calm w w'" "at_some_day cfg s0 f0 base w" for w w' :: "'e daemon_world"
      using that at_day_calm unfolding at_some_day_def by blast
  qed (rule at_somewhere)
  have step: "sx_triple (at_some_day cfg s0 f0 base) (case fl of Break \<Rightarrow> sx_return () | Continue h \<Rightarrow> run_daemon n fuel env cfg h)
      (\<lambda>_. left_somewhere cfg s0 f0 base) (\<lambda>_. left_somewhere cfg s0 f0 base)" for fl
    using Suc.IH by (cases fl) (simp_all add: sx_triple_return at_somewhere)
  show ?case unfolding run_daemon.simps
    by (intro sx_triple_seq [OF ask] sx_triple_if sx_triple_seq [OF iteration_triple [OF cfg] step])
      (simp_all add: sx_triple_return at_somewhere)
qed


section \<open>No cycle before its release\<close>

text \<open>What is assumed of the clock: the time \<open>clk e\<close> that has surely passed in a state never goes back,
  and a reading lies between the times before and after it.\<close>

definition clock_laws :: "'e daemon_env \<Rightarrow> ('e \<Rightarrow> timestamp) \<Rightarrow> bool" where
  "clock_laws env clk \<longleftrightarrow> (\<forall>e. clk e \<le> fst (de_now env e) \<and> fst (de_now env e) \<le> clk (snd (de_now env e)))
     \<and> (\<forall>e. clk e \<le> clk (snd (de_requested env e))) \<and> (\<forall>e. clk e \<le> clk (snd (de_ban_remaining env e)))
     \<and> (\<forall>e d. clk e \<le> clk (snd (de_sleep env d e))) \<and> (\<forall>e t. clk e \<le> clk (snd (de_prefetch env t e)))
     \<and> (\<forall>e t. clk e \<le> clk (snd (de_venue env t e))) \<and> (\<forall>e t. clk e \<le> clk (snd (de_refresh env t e)))
     \<and> (\<forall>e t. clk e \<le> clk (snd (de_staleness env t e))) \<and> (\<forall>e t. clk e \<le> clk (snd (de_signal env t e)))
     \<and> (\<forall>e t n. clk e \<le> clk (snd (de_cycle env t n e))) \<and> (\<forall>e. clk e \<le> clk (snd (de_prune env e)))"

text \<open>A shutdown that was requested stays requested.\<close>

definition shutdown_stays :: "'e daemon_env \<Rightarrow> bool" where
  "shutdown_stays env \<longleftrightarrow> (\<forall>e. fst (de_requested env e) \<longrightarrow> fst (de_requested env (snd (de_requested env e))))"

definition later :: "('e \<Rightarrow> timestamp) \<Rightarrow> 'e daemon_world \<Rightarrow> 'e daemon_world \<Rightarrow> bool" where
  "later clk w w' \<longleftrightarrow> dw_cycles w' = dw_cycles w \<and> clk (dw_env w) \<le> clk (dw_env w')"

lemma later_frame:
  fixes env :: "'e daemon_env"
  assumes "clock_laws env clk" shows "daemon_saving_frame env (later clk)"
proof -
  have pre: "reflp (later clk)" "transp (later clk)" by (auto simp: reflp_def transp_def later_def)
  have on: "sx_keeps (later clk) (on_env m)" if "\<And>e. clk e \<le> clk (snd (m e))" for m :: "('e, 'a) sx"
    using that by (auto simp: sx_keeps_def on_env_def later_def split: prod.splits) (metis snd_conv)
  have ask: "sx_keeps (later clk) (ask f)" if "\<And>e. clk e \<le> clk (snd (f e))" for f :: "'e \<Rightarrow> 'a \<times> 'e"
    unfolding ask_def by (rule on) (use that in \<open>auto split: prod.splits, metis snd_conv\<close>)
  have now: "clk e \<le> clk (snd (de_now env e))" for e using assms by (auto simp: clock_laws_def intro: order_trans)
  have mods: "sx_keeps (later clk) (daemon_alert x d k)" "sx_keeps (later clk) (beat t a h s g)"
      "sx_keeps (later clk) (sx_modify (\<lambda>w. w\<lparr>dw_prefetched := q\<rparr>))" "sx_keeps (later clk) (save_daemon_state c st)" for x d k t a h s g q c st
    by (simp_all add: sx_keeps_def daemon_alert_def beat_def save_daemon_state_def sx_modify_def later_def)
  show ?thesis
    by unfold_locales (use pre mods now assms [unfolded clock_laws_def] in \<open>simp_all add: on ask\<close>)
qed

definition release :: "daemon_settings \<Rightarrow> timestamp \<Rightarrow> timestamp" where
  "release cfg t = t + RELEASE_OFFSET + dc_catchup_buffer cfg"

definition timely :: "daemon_settings \<Rightarrow> 'e daemon_world \<Rightarrow> bool" where
  "timely cfg w \<longleftrightarrow> (\<forall>t n. Started t n \<in> set (dw_cycles w) \<longrightarrow> release cfg t \<le> n)"

definition passed :: "daemon_settings \<Rightarrow> ('e \<Rightarrow> timestamp) \<Rightarrow> timestamp \<Rightarrow> 'e daemon_world \<Rightarrow> bool" where
  "passed cfg clk u w \<longleftrightarrow> timely cfg w \<and> u \<le> clk (dw_env w)"

lemma timely_triple: "sx_keeps (later clk) m \<Longrightarrow> sx_triple (timely cfg) m (\<lambda>_. timely cfg) (\<lambda>_. timely cfg)"
  by (intro sx_tripleI) (auto dest!: sx_keepsD simp: later_def timely_def)

lemma passed_triple: "sx_keeps (later clk) m \<Longrightarrow> sx_triple (passed cfg clk u) m (\<lambda>_. passed cfg clk u) (\<lambda>_. timely cfg)"
  by (intro sx_tripleI) (auto dest!: sx_keepsD simp: later_def timely_def passed_def)

lemma now_triple:
  assumes "clock_laws env clk"
  shows "sx_triple (timely cfg) (ask (de_now env)) (\<lambda>now w. passed cfg clk now w) (\<lambda>_. timely cfg)"
    "sx_triple (passed cfg clk u) (ask (de_now env)) (\<lambda>now w. timely cfg w \<and> u \<le> now) (\<lambda>_. timely cfg)"
  using assms by (auto simp: sx_triple_def ask_def on_env_def passed_def timely_def clock_laws_def split: prod.splits)
    (metis fst_conv snd_conv order_trans)+

lemma requested_triple:
  assumes "shutdown_stays env"
  shows "sx_triple (timely cfg) (ask (de_requested env)) (\<lambda>stop w. timely cfg w \<and> (stop \<longrightarrow> fst (de_requested env (dw_env w)))) (\<lambda>_. timely cfg)"
  using assms by (auto simp: sx_triple_def ask_def on_env_def timely_def shutdown_stays_def split: prod.splits) (metis fst_conv snd_conv)

lemma wait_release_triple:
  assumes clock: "clock_laws env clk" and stays: "shutdown_stays env"
  shows "sx_triple (passed cfg clk (u - r)) (wait_release n env cfg t u r)
    (\<lambda>_ w. passed cfg clk u w \<or> timely cfg w \<and> fst (de_requested env (dw_env w))) (\<lambda>_. timely cfg)"
proof (induction n arbitrary: r)
  case 0
  show ?case unfolding wait_release.simps by (rule sx_triple_raise) (simp add: passed_def)
next
  case (Suc n)
  let ?Q = "\<lambda>_ w. passed cfg clk u w \<or> timely cfg w \<and> fst (de_requested env (dw_env w))"
  note frame = later_frame [OF clock]
  note keeps = timely_triple [OF daemon_frame.prefetches [OF daemon_saving_frame.axioms(1) [OF frame]]]
    and sleep = timely_triple [OF daemon_frame.sleep [OF daemon_saving_frame.axioms(1) [OF frame]]]
  have again: "sx_triple (timely cfg) (sx_bind (ask (de_now env)) (\<lambda>now. wait_release n env cfg t u (u - now))) ?Q (\<lambda>_. timely cfg)"
    by (rule sx_triple_bind [OF now_triple(1) [OF clock]]) (use Suc.IH [of "u - x" for x] in simp)
  have stop: "sx_triple (\<lambda>w. timely cfg w \<and> (stop \<longrightarrow> fst (de_requested env (dw_env w)))) (if stop then sx_return () else m) ?Q (\<lambda>_. timely cfg)"
    if "sx_triple (timely cfg) m ?Q (\<lambda>_. timely cfg)" for stop m
    by (rule sx_triple_if) (auto intro: sx_triple_return sx_pre [OF that])
  have tail: "sx_triple (timely cfg) (sx_bind (ask (de_now env)) (\<lambda>tick.
      sx_bind (sx_gets (prefetch_wait_cap cfg t tick d)) (\<lambda>seconds.
      sx_bind (on_env (de_sleep env seconds)) (\<lambda>_.
      sx_bind (ask (de_requested env)) (\<lambda>stop. if stop then sx_return ()
      else sx_bind (ask (de_now env)) (\<lambda>now. wait_release n env cfg t u (u - now))))))) ?Q (\<lambda>_. timely cfg)" for d
    by (rule sx_triple_seq [OF timely_triple [OF daemon_frame.now [OF daemon_saving_frame.axioms(1) [OF frame]]]], rule sx_triple_peek,
        rule sx_triple_seq [OF sleep], rule sx_triple_bind [OF requested_triple [OF stays]], rule stop [OF again])
  have mid: "sx_triple (timely cfg) (sx_bind (ask (de_now env)) (\<lambda>now. if u - now \<le> 0 then sx_return ()
      else sx_bind (ask (de_now env)) (\<lambda>tick.
      sx_bind (sx_gets (prefetch_wait_cap cfg t tick (min (u - now) POLL_INTERVAL))) (\<lambda>seconds.
      sx_bind (on_env (de_sleep env seconds)) (\<lambda>_.
      sx_bind (ask (de_requested env)) (\<lambda>stop. if stop then sx_return ()
      else sx_bind (ask (de_now env)) (\<lambda>now. wait_release n env cfg t u (u - now)))))))) ?Q (\<lambda>_. timely cfg)"
  proof (rule sx_triple_bind [OF now_triple(1) [OF clock]])
    fix now
    show "sx_triple (passed cfg clk now) (if u - now \<le> 0 then sx_return ()
      else sx_bind (ask (de_now env)) (\<lambda>tick.
      sx_bind (sx_gets (prefetch_wait_cap cfg t tick (min (u - now) POLL_INTERVAL))) (\<lambda>seconds.
      sx_bind (on_env (de_sleep env seconds)) (\<lambda>_.
      sx_bind (ask (de_requested env)) (\<lambda>stop. if stop then sx_return ()
      else sx_bind (ask (de_now env)) (\<lambda>now. wait_release n env cfg t u (u - now))))))) ?Q (\<lambda>_. timely cfg)"
      by (rule sx_triple_if, rule sx_triple_return, simp add: passed_def, rule sx_pre [OF tail], simp add: passed_def)
  qed
  show ?case unfolding wait_release.simps
  proof (rule sx_triple_if)
    assume "r \<le> 0"
    then show "sx_triple (passed cfg clk (u - r)) (sx_return ()) ?Q (\<lambda>_. timely cfg)" by (intro sx_triple_return) (auto simp: passed_def)
  next
    show "sx_triple (passed cfg clk (u - r)) (sx_bind (ask (de_requested env)) (\<lambda>stop. if stop then sx_return ()
      else sx_bind (run_due_prefetches env cfg t) (\<lambda>_.
      sx_bind (ask (de_now env)) (\<lambda>now. if u - now \<le> 0 then sx_return ()
      else sx_bind (ask (de_now env)) (\<lambda>tick.
      sx_bind (sx_gets (prefetch_wait_cap cfg t tick (min (u - now) POLL_INTERVAL))) (\<lambda>seconds.
      sx_bind (on_env (de_sleep env seconds)) (\<lambda>_.
      sx_bind (ask (de_requested env)) (\<lambda>stop. if stop then sx_return ()
      else sx_bind (ask (de_now env)) (\<lambda>now. wait_release n env cfg t u (u - now)))))))))) ?Q (\<lambda>_. timely cfg)"
      by (rule sx_pre [where P' = "timely cfg"], rule sx_triple_bind [OF requested_triple [OF stays]], rule stop, rule sx_triple_seq [OF keeps mid])
        (simp add: passed_def)
  qed
qed


text \<open>The triples of a stage that starts after the release.\<close>

lemma log_timely:
  "sx_triple (\<lambda>w. timely cfg w \<and> release cfg t \<le> now) (log_cycle (Started t now)) (\<lambda>_. timely cfg) E"
  "sx_triple (timely cfg) (log_cycle (Ended t s)) (\<lambda>_. timely cfg) E"
  by (auto simp: log_cycle_def timely_def intro!: sx_triple_modify)

lemma timely_stages:
  assumes clock: "clock_laws env clk" and u: "u = release cfg t"
  shows "sx_triple (passed cfg clk u) (work_stages env cfg st t attempts halts) (\<lambda>_. timely cfg) (\<lambda>_. timely cfg)"
proof -
  let ?T = "\<lambda>m. sx_triple (passed cfg clk u) m (\<lambda>_. timely cfg) (\<lambda>_. timely cfg)"
  note frame = later_frame [OF clock]
  note base = daemon_saving_frame.axioms(1) [OF frame]
  note rules = daemon_frame.frame_rules [OF base] daemon_frame.stage_rules [OF base]
  have seq: "?T (sx_bind m f)" if "sx_keeps (later clk) m" "\<And>x. ?T (f x)" for m :: "('a daemon_world, 'b) sx" and f :: "'b \<Rightarrow> ('a daemon_world, flow) sx"
    by (rule sx_triple_seq [OF passed_triple [OF that(1)] that(2)])
  have calm: "?T m" if "sx_keeps (later clk) m" for m :: "('a daemon_world, 'b) sx"
    by (rule sx_conseq [OF passed_triple [OF that]]) (auto simp: passed_def)
  have "sx_triple (passed cfg clk u) (run_cycle env t) (\<lambda>_. timely cfg) (\<lambda>_. timely cfg)"
    unfolding run_cycle_def Let_def
    by (rule sx_triple_bind [OF now_triple(2) [OF clock]], unfold u, rule sx_triple_seq [OF log_timely(1)],
        rule sx_triple_seq [OF timely_triple [OF sx_keeps_guarded [OF daemon_frame.cycle [OF base]]]], rule sx_triple_seq [OF log_timely(2)], rule sx_triple_return)
  then have "sx_triple (passed cfg clk u) (sx_bind (run_cycle env t) (after_cycle env cfg st t attempts halts)) (\<lambda>_. timely cfg) (\<lambda>_. timely cfg)"
    by (rule sx_triple_seq [OF _ timely_triple [OF daemon_saving_frame.after [OF frame]]])
  then have exec: "?T (execute_stage env cfg st t attempts halts)" unfolding execute_stage_def by (rule seq [OF daemon_frame.beat [OF base]])
  have fail: "sx_keeps (later clk) (fail_attempt env cfg st t attempts h)" for h
    unfolding fail_attempt_def by (intro rules daemon_saving_frame.retry [OF frame])
  have sig: "?T (signal_stage env cfg st t attempts halts)" unfolding signal_stage_def
  proof (intro seq rules)
    fix r :: "rat option res"
    show "?T (case r of
       Inl _ \<Rightarrow> sx_bind (alert_streak cfg t (halts + 1)) (\<lambda>_. sx_bind (beat t attempts (halts + 1) ''HALT'' ''idle'') (\<lambda>_. fail_attempt env cfg st t attempts (halts + 1)))
     | Inr age \<Rightarrow> sx_bind (ask (de_requested env)) (\<lambda>stop. if stop then sx_return Break
         else sx_bind (case age of None \<Rightarrow> sx_return ()
             | Some a \<Rightarrow> if dc_venue_warn_age_days cfg < a then daemon_alert ''venue_rules_stale'' (Some t) DefaultKey else sx_return ()) (\<lambda>_.
           execute_stage env cfg st t attempts halts)))"
      by (cases r) (simp_all, (intro seq sx_triple_if rules calm [OF fail] calm [OF daemon_frame.pure(1) [OF base]] exec)+)
  qed
  show ?thesis unfolding work_stages_def by (intro seq sx_triple_if sx_triple_option rules sig calm [OF daemon_frame.pure(1) [OF base]])
qed

lemma timely_iteration:
  assumes clock: "clock_laws env clk" and stays: "shutdown_stays env"
  shows "sx_inv (timely cfg) (daemon_iteration fuel env cfg halts)"
proof -
  note frame = later_frame [OF clock]
  note base = daemon_saving_frame.axioms(1) [OF frame]
  note rules = daemon_frame.frame_rules [OF base] daemon_frame.stage_rules [OF base]
  have keep: "sx_inv (timely cfg) m" if "sx_keeps (later clk) m" for m :: "('a daemon_world, 'b) sx" by (rule timely_triple [OF that])
  have stop: "sx_triple (\<lambda>w. passed cfg clk (release cfg t) w \<or> timely cfg w \<and> fst (de_requested env (dw_env w))) (ask (de_requested env))
      (\<lambda>stop w. if stop then timely cfg w else passed cfg clk (release cfg t) w) (\<lambda>_. timely cfg)" for t
    using clock by (auto simp: sx_triple_def ask_def on_env_def passed_def timely_def clock_laws_def split: prod.splits) (metis fst_conv snd_conv order_trans)+
  have work: "sx_inv (timely cfg) (let wait_until = t + RELEASE_OFFSET + dc_catchup_buffer cfg in
           sx_bind (ask (de_now env)) (\<lambda>now.
           sx_bind (wait_release fuel env cfg t wait_until (wait_until - now)) (\<lambda>_.
           sx_bind (ask (de_requested env)) (\<lambda>stop. if stop then sx_return Break else work_stages env cfg st t n halts))))" for st t n
    unfolding Let_def release_def [symmetric]
  proof (rule sx_triple_bind [OF now_triple(1) [OF clock]])
    fix now
    have "sx_triple (passed cfg clk now) (wait_release fuel env cfg t (release cfg t) (release cfg t - now))
        (\<lambda>_ w. passed cfg clk (release cfg t) w \<or> timely cfg w \<and> fst (de_requested env (dw_env w))) (\<lambda>_. timely cfg)"
      using wait_release_triple [OF clock stays, of cfg "release cfg t" "release cfg t - now"] by simp
    then show "sx_triple (passed cfg clk now) (sx_bind (wait_release fuel env cfg t (release cfg t) (release cfg t - now)) (\<lambda>_.
           sx_bind (ask (de_requested env)) (\<lambda>stop. if stop then sx_return Break else work_stages env cfg st t n halts))) (\<lambda>_. timely cfg) (\<lambda>_. timely cfg)"
      by (rule sx_triple_seq [OF _ sx_triple_bind [OF stop]]) (use timely_stages [OF clock refl] in \<open>simp add: sx_triple_return\<close>)
  qed
  show ?thesis unfolding daemon_iteration_def
  proof (rule sx_triple_peek)
    fix loaded
    show "sx_inv (timely cfg) (case loaded of
       Inl _ \<Rightarrow>
         sx_bind (daemon_alert ''state_corrupt'' None FileKey) (\<lambda>_.
         sx_bind (ask (de_now env)) (\<lambda>now.
         sx_bind (beat (normalize now) 0 halts ''STATE_CORRUPT'' ''idle'') (\<lambda>_.
         sx_bind (on_env (de_sleep env POLL_INTERVAL)) (\<lambda>_. sx_return (Continue halts)))))
     | Inr st \<Rightarrow>
         sx_bind (sx_bind (choose_target env st) (catch_up env cfg st)) (\<lambda>(target, attempts).
           let wait_until = target + RELEASE_OFFSET + dc_catchup_buffer cfg in
           sx_bind (ask (de_now env)) (\<lambda>now.
           sx_bind (wait_release fuel env cfg target wait_until (wait_until - now)) (\<lambda>_.
           sx_bind (ask (de_requested env)) (\<lambda>stop. if stop then sx_return Break
           else work_stages env cfg st target attempts halts)))))"
    proof (cases loaded)
      case (Inl e)
      then show ?thesis by simp (intro keep rules)
    next
      case (Inr st)
      have "sx_inv (timely cfg) (sx_bind (choose_target env st) (catch_up env cfg st))"
        by (intro keep daemon_frame.bind [OF base] daemon_frame.choose [OF base] daemon_saving_frame.catching_up [OF frame])
      then show ?thesis unfolding Inr sum.case by (rule sx_triple_seq) (intro sx_triple_prod work)
    qed
  qed
qed

lemma timely_run:
  assumes clock: "clock_laws env clk" and stays: "shutdown_stays env"
  shows "sx_inv (timely cfg) (run_daemon n fuel env cfg halts)"
proof (induction n arbitrary: halts)
  case 0
  show ?case by (simp add: sx_triple_return)
next
  case (Suc n)
  have "sx_inv (timely cfg) (case fl of Break \<Rightarrow> sx_return () | Continue h \<Rightarrow> run_daemon n fuel env cfg h)" for fl
    using Suc.IH by (cases fl) (simp_all add: sx_triple_return)
  then show ?case unfolding run_daemon.simps
    by (intro sx_inv_bind timely_iteration [OF assms] sx_triple_if sx_triple_return
        timely_triple [OF daemon_frame.requested [OF daemon_saving_frame.axioms(1) [OF later_frame [OF clock]]]])
qed


section \<open>The waiting ends\<close>

text \<open>Sleeping takes at least the time asked for, and the prefetch does not end the process.\<close>

definition sleep_laws :: "'e daemon_env \<Rightarrow> ('e \<Rightarrow> timestamp) \<Rightarrow> bool" where
  "sleep_laws env clk \<longleftrightarrow> (\<forall>d e. fst (de_sleep env d e) = Inr () \<and> clk e + d \<le> clk (snd (de_sleep env d e)))
     \<and> (\<forall>t e. fst (de_prefetch env t e) \<noteq> Inl SystemExit)"

text \<open>The turns of the loop: one per polling interval, and at most two more because of the prefetch.\<close>

definition polls :: "int \<Rightarrow> nat" where
  "polls r = nat ((r + POLL_INTERVAL - 1) div POLL_INTERVAL)"

definition extra_turns :: "daemon_settings \<Rightarrow> ('e \<Rightarrow> timestamp) \<Rightarrow> timestamp \<Rightarrow> 'e daemon_world \<Rightarrow> nat" where
  "extra_turns cfg clk t w = (if \<not> prefetch_pending cfg t w then 0 else if clk (dw_env w) < t + dc_prefetch_offset cfg then 2 else 1)"

lemma polls_mono: "r \<le> r' \<Longrightarrow> polls r \<le> polls r'"
  unfolding polls_def by (intro nat_mono zdiv_mono1) (simp_all add: POLL_INTERVAL_def)

lemma polls_step: "r' \<le> r - POLL_INTERVAL \<Longrightarrow> 0 < r \<Longrightarrow> Suc (polls r') \<le> polls r"
proof -
  assume "r' \<le> r - POLL_INTERVAL" "0 < r"
  have "(r' + POLL_INTERVAL - 1) div POLL_INTERVAL \<le> (r - 1) div POLL_INTERVAL"
    using \<open>r' \<le> r - POLL_INTERVAL\<close> by (intro zdiv_mono1) (simp_all add: POLL_INTERVAL_def)
  moreover have "(r + POLL_INTERVAL - 1) div POLL_INTERVAL = (r - 1) div POLL_INTERVAL + 1"
    using div_add_self2 [of POLL_INTERVAL "r - 1"] by (simp add: POLL_INTERVAL_def algebra_simps)
  moreover have "0 \<le> (r - 1) div POLL_INTERVAL" using \<open>0 < r\<close> by (simp add: POLL_INTERVAL_def pos_imp_zdiv_nonneg_iff)
  ultimately show ?thesis unfolding polls_def by linarith
qed

lemma polls_positive: "0 < r \<Longrightarrow> 0 < polls r"
  using polls_step [of "r - POLL_INTERVAL" r] by simp

lemma polls_zero: "r \<le> 0 \<Longrightarrow> polls r = 0"
proof -
  assume "r \<le> 0"
  then have "polls r \<le> polls 0" by (rule polls_mono)
  then show ?thesis by (simp add: polls_def POLL_INTERVAL_def)
qed

text \<open>How a primitive step moves the clock.\<close>

lemma ask_total: "sx_triple P (ask f) (\<lambda>x w. \<exists>v. P v \<and> x = fst (f (dw_env v)) \<and> w = v\<lparr>dw_env := snd (f (dw_env v))\<rparr>) (\<lambda>_ _. False)"
  by (auto simp: sx_triple_def ask_def on_env_def split: prod.splits)

lemma prefetches_total:
  assumes clock: "clock_laws env clk" and laws: "sleep_laws env clk"
  shows "sx_triple (\<lambda>w. c \<le> clk (dw_env w) \<and> k + extra_turns cfg clk t w \<le> n) (run_due_prefetches env cfg t)
    (\<lambda>_ w. c \<le> clk (dw_env w) \<and> (if prefetch_pending cfg t w then k + 2 else k) \<le> n) (\<lambda>_ _. False)"
proof -
  have mono: "clk e \<le> clk (snd (de_prefetch env t e))" "clk e \<le> fst (de_now env e)" "fst (de_now env e) \<le> clk (snd (de_now env e))" for e
    using clock by (simp_all add: clock_laws_def)
  have live: "fst (de_prefetch env t e) \<noteq> Inl SystemExit" for e using laws by (simp add: sleep_laws_def)
  have "case run_due_prefetches env cfg t w of (Inl _, _) \<Rightarrow> False
      | (Inr _, w') \<Rightarrow> c \<le> clk (dw_env w') \<and> (if prefetch_pending cfg t w' then k + 2 else k) \<le> n"
    if w: "c \<le> clk (dw_env w)" "k + extra_turns cfg clk t w \<le> n" for w
  proof (cases "prefetch_pending cfg t w")
    case False
    with w show ?thesis by (simp add: run_due_prefetches_def sx_defs extra_turns_def)
  next
    case True
    obtain now e where now: "de_now env (dw_env w) = (now, e)" by (cases "de_now env (dw_env w)")
    have le: "clk (dw_env w) \<le> now" "now \<le> clk e" using mono(2,3) [of "dw_env w"] now by simp_all
    show ?thesis
    proof (cases "now < t + dc_prefetch_offset cfg")
      case early: True
      then have "k + 2 \<le> n" "c \<le> clk e" using True w le by (auto simp: extra_turns_def)
      then show ?thesis using True early by (simp add: run_due_prefetches_def sx_defs ask_def on_env_def now prefetch_pending_def)
    next
      case late: False
      obtain r e' where pre: "de_prefetch env t e = (r, e')" by (cases "de_prefetch env t e")
      have "r \<noteq> Inl SystemExit" "c \<le> clk e'" using live [of e] mono(1) [of e] le w pre by auto
      moreover have "k \<le> n" using w by simp
      ultimately show ?thesis using True late
        by (cases r) (auto simp: run_due_prefetches_def sx_defs ask_def on_env_def now pre guarded_def prefetch_pending_def)
    qed
  qed
  then show ?thesis by (simp add: sx_triple_def)
qed


lemma clock_readings:
  assumes "clock_laws env clk"
  shows "de_now env e = (n, e') \<Longrightarrow> clk e \<le> n" "de_now env e = (n, e') \<Longrightarrow> n \<le> clk e'" "de_requested env e = (b, e') \<Longrightarrow> clk e \<le> clk e'"
  using assms unfolding clock_laws_def by (metis fst_conv snd_conv)+

lemma wait_release_total:
  assumes clock: "clock_laws env clk" and laws: "sleep_laws env clk"
    and "u - r \<le> clk (dw_env w)" "polls r + extra_turns cfg clk t w < n"
  shows "\<exists>w'. wait_release n env cfg t u r w = (Inr (), w')"
  using assms(3,4)
proof (induction n arbitrary: r w)
  case (Suc n)
  show ?case
  proof (cases "r \<le> 0")
    case True
    then show ?thesis by (simp add: sx_defs)
  next
    case r: False
    obtain stop e1 where e1: "de_requested env (dw_env w) = (stop, e1)" by (cases "de_requested env (dw_env w)")
    let ?w1 = "w\<lparr>dw_env := e1\<rparr>"
    have c1: "clk (dw_env w) \<le> clk e1" by (rule clock_readings(3) [OF clock e1])
    then have x1: "u - r \<le> clk (dw_env ?w1)" "polls r + extra_turns cfg clk t ?w1 \<le> n"
      using Suc.prems by (auto simp: extra_turns_def prefetch_pending_def split: if_splits)
    from prefetches_total [OF clock laws, of "u - r" "polls r" cfg t n] x1
    obtain w2 where w2: "run_due_prefetches env cfg t ?w1 = (Inr (), w2)" "u - r \<le> clk (dw_env w2)"
        "(if prefetch_pending cfg t w2 then polls r + 2 else polls r) \<le> n"
      unfolding sx_triple_def by (cases "run_due_prefetches env cfg t ?w1"; cases "fst (run_due_prefetches env cfg t ?w1)") force+
    obtain now e3 where e3: "de_now env (dw_env w2) = (now, e3)" by (cases "de_now env (dw_env w2)")
    obtain tick e4 where e4: "de_now env e3 = (tick, e4)" by (cases "de_now env e3")
    have c4: "u - r \<le> now" "now \<le> tick" "tick \<le> clk e4"
      using clock_readings(1,2) [OF clock e3] clock_readings(1,2) [OF clock e4] w2(2) by linarith+
    let ?d = "min (u - now) POLL_INTERVAL" and ?due = "t + dc_prefetch_offset cfg"
    let ?s = "prefetch_wait_cap cfg t tick ?d w2"
    obtain e5 where e5: "de_sleep env ?s e4 = (Inr (), e5)" "clk e4 + ?s \<le> clk e5"
      using laws unfolding sleep_laws_def by (metis prod.collapse)
    obtain stop6 e6 where e6: "de_requested env e5 = (stop6, e6)" by (cases "de_requested env e5")
    obtain now7 e7 where e7: "de_now env e6 = (now7, e7)" by (cases "de_now env e6")
    have c7: "clk e5 \<le> now7" "now7 \<le> clk e7"
      using clock_readings(3) [OF clock e6] clock_readings(1,2) [OF clock e7] by linarith+
    let ?w7 = "w2\<lparr>dw_env := e7\<rparr>"
    have again: "\<exists>w'. wait_release n env cfg t u (u - now7) ?w7 = (Inr (), w')" if live: "0 < u - now"
    proof (rule Suc.IH)
      show "u - (u - now7) \<le> clk (dw_env ?w7)" using c7 by simp
      have pending: "prefetch_pending cfg t ?w7 \<longleftrightarrow> prefetch_pending cfg t w2" by (simp add: prefetch_pending_def)
      show "polls (u - now7) + extra_turns cfg clk t ?w7 < n"
      proof (cases "?s = ?d")
        case True
        then have "now + ?d \<le> now7" using c4 c7 e5(2) by linarith
        then consider "u - now7 \<le> 0" | "u - now7 \<le> r - POLL_INTERVAL" using c4(1) by (auto simp: min_def split: if_splits)
        then have "Suc (polls (u - now7)) \<le> polls r"
        proof cases
          case 1
          then show ?thesis using polls_zero [OF 1] polls_positive [of r] r by linarith
        next
          case 2
          then show ?thesis using polls_step r by simp
        qed
        then show ?thesis using w2(3) by (auto simp: extra_turns_def pending split: if_splits)
      next
        case False
        then have p: "prefetch_pending cfg t w2" "?s = max 0 (?due - tick)" by (auto simp: prefetch_wait_cap_def split: if_splits)
        then have "?due \<le> clk e7" "0 \<le> ?s" using c4 c7 e5(2) by linarith+
        moreover have "u - now7 \<le> r" using c4 c7 e5(2) \<open>0 \<le> ?s\<close> by linarith
        ultimately show ?thesis using polls_mono [of "u - now7" r] p(1) w2(3) by (simp add: extra_turns_def pending)
      qed
    qed
    have cap: "prefetch_wait_cap cfg t tick ?d (w2\<lparr>dw_env := e4\<rparr>) = ?s" by (simp add: prefetch_wait_cap_def prefetch_pending_def)
    show ?thesis
    proof (cases "0 < u - now")
      case True
      from again [OF True] obtain w' where "wait_release n env cfg t u (u - now7) ?w7 = (Inr (), w')" by blast
      then show ?thesis using r True by (simp add: sx_defs ask_def on_env_def e1 w2(1) e3 e4 cap e5(1) e6 e7)
    next
      case False
      then show ?thesis using r by (simp add: sx_defs ask_def on_env_def e1 w2(1) e3)
    qed
  qed
qed simp


section \<open>Histories\<close>

text \<open>Processes that run one after the other on the same state file, each ended by itself or at any
  point from outside; a new process has its own surroundings.\<close>

inductive daemon_history :: "daemon_settings \<Rightarrow> 'e daemon_world \<Rightarrow> 'e daemon_world \<Rightarrow> bool" for cfg w0 where
  stored: "daemon_history cfg w0 w0"
| process: "daemon_history cfg w0 w \<Longrightarrow> run_daemon n fuel env cfg halts w = (r, w')
    \<Longrightarrow> daemon_history cfg w0 (w'\<lparr>dw_env := e, dw_prefetched := None\<rparr>)"

lemma run_stands:
  assumes "settings_ok cfg" "stands_at cfg s0 f w" "run_daemon n fuel env cfg halts w = (r, w')"
  shows "\<exists>f'. left_at cfg s0 f (dw_cycles w) f' w'"
proof -
  have "at_day cfg s0 f (dw_cycles w) f w" using assms(2) by (intro at_dayI [of _ _ _ _ _ _ "[]"]) (simp_all add: in_order_def)
  then have "left_somewhere cfg s0 f (dw_cycles w) w'"
    using sx_triple_snd [OF run_triple [OF assms(1), of s0 f "dw_cycles w" n fuel env halts], of w] assms(3) at_somewhere(1) by force
  then show ?thesis by (simp add: left_somewhere_def)
qed


text \<open>
  C29: the decisions are worked off in order.  In one process, whatever happens in it, the cycles go from
  day to day and never back to an earlier one, none is older than the day the state file named at the
  start, and after a cycle that ended well no further cycle of that day is started.
\<close>

theorem decisions_in_order:
  assumes "settings_ok cfg" "load_daemon_state cfg (dw_state w) = Inr st" "state_ok cfg st" "front st = Some f"
    "run_daemon n fuel env cfg halts w = (r, w')"
  shows "\<exists>new. dw_cycles w' = dw_cycles w @ new \<and> in_order new \<and> (\<forall>x \<in> set new. f \<le> ev_day x)"
proof -
  have "stands_at cfg f f w" using assms(2-4) by (auto simp: stands_at_def)
  from run_stands [OF assms(1) this assms(5)] show ?thesis by (auto simp: left_at_def)
qed

text \<open>
  C30: no cycle starts before its release.  For a clock that does not go back and a shutdown request that
  is not taken back, every cycle a process starts begins at or after the release hour of its decision
  day plus the catch-up buffer, however the process waits, retries or catches up.
\<close>

theorem no_cycle_before_release:
  assumes "clock_laws env clk" "shutdown_stays env" "run_daemon n fuel env cfg halts w = (r, w')" "dw_cycles w = []"
    "Started t now \<in> set (dw_cycles w')"
  shows "t + RELEASE_OFFSET + dc_catchup_buffer cfg \<le> now"
proof -
  have "timely cfg w" using assms(4) by (simp add: timely_def)
  from sx_invD [OF timely_run [OF assms(1,2)] this assms(3)] assms(5) show ?thesis by (auto simp: timely_def release_def)
qed

text \<open>
  C31: the wait for the release ends.  When sleeping takes at least the time asked for and the prefetch
  does not kill the process, the loop ends by itself after at most one turn for every polling interval
  that is left and three more, also with the prefetch in between.
\<close>

theorem waiting_ends:
  assumes "clock_laws env clk" "sleep_laws env clk" "wait_until - remaining \<le> clk (dw_env w)"
  shows "\<exists>w'. wait_release (polls remaining + 3) env cfg target wait_until remaining w = (Inr (), w')"
  by (rule wait_release_total [OF assms]) (simp add: extra_turns_def)

section \<open>Examples\<close>

text \<open>An environment that is only a clock; every stage succeeds at once.\<close>

definition clock_env :: "int daemon_env" where
  "clock_env = \<lparr>de_now = (\<lambda>e. (e, e)), de_requested = (\<lambda>e. (False, e)), de_ban_remaining = (\<lambda>e. (0, e)),
     de_sleep = (\<lambda>d e. (Inr (), e + max 0 d)), de_prefetch = (\<lambda>t e. (Inr (), e)), de_venue = (\<lambda>t e. (Inr ''captured'', e)),
     de_refresh = (\<lambda>t e. (Inr None, e)), de_staleness = (\<lambda>t e. (Inr 0, e)), de_signal = (\<lambda>t e. (Inr None, e)),
     de_cycle = (\<lambda>t n e. (Inr \<lparr>cy_status = ''COMPLETE'', cy_reason = None\<rparr>, e)), de_prune = (\<lambda>e. (Inr (), e))\<rparr>"

definition example_daemon :: daemon_settings where
  "example_daemon = \<lparr>dc_codec = plain_codec, dc_timestamp = (\<lambda>j. case j of JStr s \<Rightarrow> Some (Aware (untally_int s)) | _ \<Rightarrow> None),
     dc_max_signal_staleness = 26 * 3600 * second, dc_catchup_buffer = 15 * second, dc_prefetch_enabled = False, dc_prefetch_offset = 0,
     dc_max_attempts = 5, dc_halt_streak = 2, dc_max_data_staleness_hours = 30, dc_venue_warn_age_days = 2, dc_daily_digest = False\<rparr>"

definition day_state :: "timestamp \<Rightarrow> daemon_state" where
  "day_state t = \<lparr>ds_last_processed = Some t, ds_pending = None, ds_attempts = 0\<rparr>"

definition example_start :: "int daemon_world" where
  "example_start = \<lparr>dw_env = 2 * day, dw_state = daemon_document example_daemon (day_state 0), dw_prefetched = None, dw_alerts = [], dw_beats = [], dw_cycles = []\<rparr>"

lemma example_daemon_ok: "settings_ok example_daemon" "load_daemon_state example_daemon (daemon_document example_daemon st) = Inr st"
proof -
  show "settings_ok example_daemon" by (simp add: settings_ok_def example_daemon_def plain_codec_def)
  then show "load_daemon_state example_daemon (daemon_document example_daemon st) = Inr st" by (rule load_saved)
qed

lemma clock_env_laws: "clock_laws clock_env (\<lambda>e. e)" "shutdown_stays clock_env" "sleep_laws clock_env (\<lambda>e. e)"
  by (simp_all add: clock_laws_def shutdown_stays_def sleep_laws_def clock_env_def)

lemma example_day_state: "load_daemon_state example_daemon (dw_state example_start) = Inr (day_state 0)" "state_ok example_daemon (day_state 0)"
  "front (day_state 0) = Some day"
proof -
  show "load_daemon_state example_daemon (dw_state example_start) = Inr (day_state 0)" by (simp add: example_start_def example_daemon_ok(2))
  show "state_ok example_daemon (day_state 0)" by (simp add: state_ok_def day_state_def example_daemon_def on_grid_def)
  show "front (day_state 0) = Some day" by (simp add: day_state_def front_def normalize_def)
qed

lemma example_day_fresh: "ceil_day (2 * day - 26 * 3600 * second) = day"
  by (simp add: ceil_day_def day_def)

lemma example_day_run:
  "\<exists>w. run_daemon 1 1 clock_env example_daemon 0 example_start = (Inr (), w) \<and> dw_cycles w = [Started day (2 * day), Ended day ''COMPLETE'']
     \<and> dw_state w = daemon_document example_daemon (day_state day)"
proof -
  have facts: "next_decision_time (Some 0) e = day" for e by (simp add: next_decision_time_def normalize_def)
  have wait: "day + RELEASE_OFFSET + 15000000000 - 2 * day \<le> 0" by (simp add: day_def RELEASE_OFFSET_def)
  have cfg: "dc_max_signal_staleness example_daemon = 26 * 3600 * second" "dc_catchup_buffer example_daemon = 15 * second" "\<not> dc_daily_digest example_daemon"
    by (simp_all add: example_daemon_def)
  have env: "de_now clock_env e = (e, e)" "de_requested clock_env e = (False, e)" "de_venue clock_env t e = (Inr ''captured'', e)"
      "de_refresh clock_env t e = (Inr None, e)" "de_signal clock_env t e = (Inr None, e)"
      "de_cycle clock_env t n e = (Inr \<lparr>cy_status = ''COMPLETE'', cy_reason = None\<rparr>, e)" "de_prune clock_env e = (Inr (), e)" for e t n
    by (simp_all add: clock_env_def)
  have not_stale: "\<not> day < ceil_day (2 * day - dc_max_signal_staleness example_daemon)" using example_day_fresh by (simp add: cfg(1))
  show ?thesis
    using example_day_state(1) wait not_stale
    by (simp add: daemon_iteration_def choose_target_def catch_up_def day_state_def facts Let_def sx_defs ask_def on_env_def env cfg(2,3)
        work_stages_def venue_stage_def guarded_def refresh_stage_def beat_def signal_stage_def execute_stage_def run_cycle_def log_cycle_def
        after_cycle_def quietly_def finish_day_def save_daemon_state_def example_start_def)
qed



theorem decisions_in_order_witness:
  "\<exists>w new. run_daemon 1 1 clock_env example_daemon 0 example_start = (Inr (), w) \<and> dw_cycles w = new \<and> in_order new
     \<and> new = [Started day (2 * day), Ended day ''COMPLETE''] \<and> (\<forall>x \<in> set new. day \<le> ev_day x)"
proof -
  obtain w where run: "run_daemon 1 1 clock_env example_daemon 0 example_start = (Inr (), w)" "dw_cycles w = [Started day (2 * day), Ended day ''COMPLETE'']"
    using example_day_run by blast
  have "dw_cycles example_start = []" by (simp add: example_start_def)
  with decisions_in_order [OF example_daemon_ok(1) example_day_state run(1)] run show ?thesis by auto
qed

theorem no_cycle_before_release_witness:
  "\<exists>w. run_daemon 1 1 clock_env example_daemon 0 example_start = (Inr (), w) \<and> Started day (2 * day) \<in> set (dw_cycles w)
     \<and> day + RELEASE_OFFSET + dc_catchup_buffer example_daemon \<le> 2 * day"
proof -
  obtain w where run: "run_daemon 1 1 clock_env example_daemon 0 example_start = (Inr (), w)" "Started day (2 * day) \<in> set (dw_cycles w)"
    using example_day_run by auto
  have "dw_cycles example_start = []" by (simp add: example_start_def)
  from no_cycle_before_release [OF clock_env_laws(1,2) run(1) this run(2)] run show ?thesis by blast
qed

theorem waiting_ends_witness:
  "\<exists>w'. wait_release (polls day + 3) clock_env example_daemon (2 * day) (3 * day) day example_start = (Inr (), w')"
  by (rule waiting_ends [OF clock_env_laws(1,3)]) (simp add: example_start_def)

end
