(* ===== verification/Pre_Trade.thy ===== *)
theory Pre_Trade
  imports Orphan_Sweep Evidence Delisting Derisk Sx_Hoare
begin

text \<open>
  The reconciliation before a cycle trades: \<open>_reconcile_pre_trade\<close> of \<open>src/live/runner.py\<close> and the helpers
  it calls there.  It composes the orphan sweep, the recovery, the commit of fills with their evidence,
  the booking of delistings, the search for breaches, the adoption of venue force closes and the
  de-risk state of the ledger, each modelled in the theory of its own file.

  The state adds to the \<open>world\<close> of journal, venue and audit lines the files of ledger and evidence, and
  the alerts handed to the dispatcher, each with its event and its discriminator.  Time stamps are aware.
  The fuel of the force-close paging is the length of the range in milliseconds plus two, which suffices
  on a venue that honours the requested start; without it the paging need not end, and the model
  raises \<open>NoReturn\<close>.

  Proved here: the account is traded without restriction only when venue and ledger agree, and the ledger
  it is traded on is complete, and is the one on disk.
\<close>

section \<open>State and settings\<close>

record 'v cycle_world =
  cw_world :: "'v world"
  cw_store :: evidence_store
  cw_alerts :: "(string \<times> string) list"

definition on_world :: "('v world, 'a) sx \<Rightarrow> ('v cycle_world, 'a) sx" where
  "on_world = sx_zoom cw_world cw_world_update"

definition on_store :: "(evidence_store, 'a) sx \<Rightarrow> ('v cycle_world, 'a) sx" where
  "on_store = sx_zoom cw_store cw_store_update"

definition notify_event :: "string \<Rightarrow> string \<Rightarrow> ('v cycle_world, unit) sx" where
  "notify_event event discriminator = sx_modify (cw_alerts_update (\<lambda>xs. xs @ [(event, discriminator)]))"

definition cw_audit :: "string \<Rightarrow> string \<Rightarrow> string \<Rightarrow> string \<Rightarrow> ('v cycle_world, unit) sx" where
  "cw_audit event symbol cid status = on_world (audit_record event symbol cid status)"

text \<open>The settings the reconciliation reads; look-backs are in nanoseconds, \<open>cs_day\<close> is
  \<open>strftime('%Y%m%d')\<close>.\<close>

record cycle_settings =
  cs_record :: record_options
  cs_day :: "timestamp \<Rightarrow> string"
  cs_taker_fee_bps :: decimal
  cs_order_identity_tolerance_ms :: int
  cs_journal_recovery_lookback :: int
  cs_venue_force_close_lookback :: int
  cs_venue_force_close_auto_adopt :: bool
  cs_derisk_mode_enabled :: bool

abbreviation cs_codec :: "cycle_settings \<Rightarrow> text_codec" where "cs_codec st \<equiv> ro_codec (cs_record st)"

abbreviation cs_mode :: "cycle_settings \<Rightarrow> execution_mode" where "cs_mode st \<equiv> ro_mode (cs_record st)"

definition RECONCILE_QTY_TOLERANCE_FRACTION :: decimal where "RECONCILE_QTY_TOLERANCE_FRACTION = 1 / 1000"

text \<open>The order client as the cycle uses it: the orders, and one page of force orders.\<close>

record 'v cycle_client =
  cl_orders :: "'v venue_client"
  cl_force_orders :: "int \<Rightarrow> int \<Rightarrow> 'v \<Rightarrow> json res \<times> 'v"

section \<open>Commit and unresolved orders\<close>

definition cycle_fallback_attempt :: "cycle_settings \<Rightarrow> timestamp \<Rightarrow> timestamp \<Rightarrow> journal_attempt" where
  "cycle_fallback_attempt st decision_time now =
     \<lparr>ja_attempt_seq = - 1, ja_decision_time = decision_time, ja_run_id = cs_day st decision_time, ja_mode = mode_value (cs_mode st),
      ja_pre_trade_equity = 0, ja_sizing_anchor = ''decision_ohlcv_close'', ja_decision_marks = [], ja_started_at = now\<rparr>"

record commit_args =
  ca_fallback :: journal_attempt
  ca_equity :: "decimal option"
  ca_executed :: "timestamp option"
  ca_funding :: "tax_record list"
  ca_settlement :: "tax_record list"
  ca_cash_before :: "decimal option"

definition plain_commit :: "journal_attempt \<Rightarrow> decimal option \<Rightarrow> commit_args" where
  "plain_commit fallback equity = \<lparr>ca_fallback = fallback, ca_equity = equity, ca_executed = None, ca_funding = [], ca_settlement = [], ca_cash_before = None\<rparr>"

text \<open>\<open>_commit_and_record\<close> on the journal of the cycle.\<close>

definition commit_cycle ::
    "cycle_settings \<Rightarrow> 'v venue_client \<Rightarrow> io_faults \<Rightarrow> commit_args \<Rightarrow> ledger_state \<Rightarrow> ('v cycle_world, ledger_state) sx" where
  "commit_cycle st vc faults args base =
     sx_bind (on_world (on_journal vc (\<lambda>clock. query_journal (cs_codec st) clock (\<lambda>j. j)))) (\<lambda>j.
     sx_bind (on_store (commit_and_record (cs_record st) faults j (ca_fallback args) (ca_equity args) (ca_executed args)
                (ca_funding args) (ca_settlement args) (ca_cash_before args) base)) (\<lambda>(committed, _). sx_return committed))"

definition dedupe_orders :: "unresolved_order list \<Rightarrow> unresolved_order list" where
  "dedupe_orders orders = foldl (\<lambda>seen x. if uo_client_order_id x \<in> uo_client_order_id ` set seen then seen else seen @ [x]) [] orders"

definition record_unresolved_orders :: "unresolved_order list \<Rightarrow> ('v cycle_world, string list) sx" where
  "record_unresolved_orders unresolved =
     (let deduped = dedupe_orders unresolved; symbols = sorted_set (map uo_symbol deduped) in
      if deduped = [] then sx_return []
      else sx_bind (cw_audit ''order_recovery_unresolved'' [] [] []) (\<lambda>_.
           sx_bind (sx_foldM (\<lambda>symbol _. notify_event ''order_recovery_unresolved''
               (symbol @ '':'' @ hd (sort (map uo_client_order_id (filter (\<lambda>x. uo_symbol x = symbol) deduped))))) symbols ()) (\<lambda>_.
             sx_return symbols)))"

definition apply_unresolved_freeze :: "order_intent list \<Rightarrow> string list \<Rightarrow> ('v cycle_world, order_intent list \<times> nat) sx" where
  "apply_unresolved_freeze intents frozen =
     (let freeze = freeze_unresolved_symbols intents frozen in
      sx_bind (sx_foldM (\<lambda>(intent, reason) _. cw_audit ''unresolved_order_blocked'' (oi_symbol intent) [] reason) (dp_blocked freeze) ()) (\<lambda>_.
        sx_return (dp_kept freeze, length (dp_blocked freeze))))"

section \<open>Adoption of force closes\<close>

definition force_closes :: "text_codec \<Rightarrow> (int \<Rightarrow> int \<Rightarrow> 'v \<Rightarrow> json res \<times> 'v) \<Rightarrow> timestamp \<Rightarrow> timestamp \<Rightarrow> 'v \<Rightarrow> venue_force_close list res \<times> 'v" where
  "force_closes c force_orders since until v =
     (case fetch_venue_force_closes (nat (until div 1000000 - since div 1000000) + 2) c force_orders since until v of
        Some r \<Rightarrow> r | None \<Rightarrow> (Inl NoReturn, v))"

definition force_close_request :: "decimal \<Rightarrow> journal_attempt \<Rightarrow> venue_force_close \<Rightarrow> fill_request" where
  "force_close_request fee fallback x =
     \<lparr>fr_kind = ''venue_force_close'', fr_attempt_seq = Some (ja_attempt_seq fallback), fr_symbol = vf_symbol x, fr_side = vf_side x,
      fr_quantity = vf_executed_qty x, fr_price = vf_avg_price x, fr_fee_bps = fee, fr_liquidity = ''taker'', fr_reason = ''venue_force_close'',
      fr_filled_at = Aware (vf_updated_at x), fr_client_order_id = Some (vf_order_id x), fr_leg_index = 0,
      fr_cumulative_executed_qty = None, fr_simulated = False\<rparr>"

text \<open>A resynchronisation by the operator has absorbed every force close before it.\<close>

definition adoption_start :: "journal_fill list \<Rightarrow> timestamp \<Rightarrow> timestamp" where
  "adoption_start fills since =
     (let resync_times = map jf_filled_at (filter (\<lambda>x. jf_kind x = ''operator_resync'') fills)
      in if resync_times = [] then since else max since (Max (set resync_times)))"

definition adopted_ids :: "journal_fill list \<Rightarrow> string list" where
  "adopted_ids fills = filter (\<lambda>i. i \<noteq> []) (List.map_filter jf_client_order_id (filter (\<lambda>x. jf_kind x = ''venue_force_close'') fills))"

definition adopt_close :: "cycle_settings \<Rightarrow> 'v venue_client \<Rightarrow> journal_attempt \<Rightarrow> venue_force_close \<Rightarrow> unit \<Rightarrow> ('v cycle_world, unit) sx" where
  "adopt_close st vc fallback x _ =
     sx_bind (on_world (on_journal vc (\<lambda>clock. record_fill (cs_codec st) clock (force_close_request (cs_taker_fee_bps st) fallback x)))) (\<lambda>_.
     sx_bind (cw_audit ''venue_force_close_adopted'' (vf_symbol x) (vf_order_id x) (vf_auto_close_type x)) (\<lambda>_.
       notify_event ''venue_force_close_adopted'' (''order='' @ vf_order_id x)))"

definition adopt_force_closes ::
    "cycle_settings \<Rightarrow> 'v cycle_client \<Rightarrow> io_faults \<Rightarrow> journal_attempt \<Rightarrow> timestamp \<Rightarrow> position_breach list \<Rightarrow> ledger_state
     \<Rightarrow> ('v cycle_world, ledger_state) sx" where
  "adopt_force_closes st cl faults fallback now breaches state =
     sx_bind (on_world (on_journal (cl_orders cl) (\<lambda>clock. fills_after (cs_codec st) clock (- 1)))) (\<lambda>journal_fills.
     sx_bind (on_world (on_venue (force_closes (cs_codec st) (cl_force_orders cl)
                (adoption_start journal_fills (now - cs_venue_force_close_lookback st)) now))) (\<lambda>closes.
       let fresh = filter (\<lambda>x. vf_order_id x \<notin> set (adopted_ids journal_fills)) closes;
           to_adopt = fst (explain_breaches breaches fresh RECONCILE_QTY_TOLERANCE_FRACTION)
       in sx_bind (sx_foldM (adopt_close st (cl_orders cl) fallback) to_adopt ()) (\<lambda>_.
            if to_adopt = [] then sx_return state
            else commit_cycle st (cl_orders cl) faults (plain_commit fallback None) state)))"

section \<open>Reconciliation\<close>

definition record_delisting_settlements :: "delisting_settlement list \<Rightarrow> ('v cycle_world, unit) sx" where
  "record_delisting_settlements booked =
     sx_foldM (\<lambda>x _. sx_bind (cw_audit ''delisting_settlement_booked'' (ds_symbol x) [] (ds_evidence_source x)) (\<lambda>_.
        notify_event ''delisting_settled'' [])) booked ()"

definition raise_account_breach :: "position_breach list \<Rightarrow> string list \<Rightarrow> unit res" where
  "raise_account_breach breaches foreign_symbols =
     (if breaches \<noteq> [] then Inl ReconciliationBreach else if foreign_symbols \<noteq> [] then Inl ForeignOpenOrderError else Inr ())"

text \<open>The delistings the venue has settled, booked and saved; the result also has the settled symbols.\<close>

definition book_settled ::
    "cycle_settings \<Rightarrow> account_snapshot \<Rightarrow> payload \<Rightarrow> timestamp \<Rightarrow> ledger_state \<Rightarrow> ('v cycle_world, ledger_state \<times> string list) sx" where
  "book_settled st snapshot exchange_info now state =
     sx_bind (sx_lift (settled_delisting_symbols (cs_codec st) exchange_info (as_positions snapshot) (ls_positions state) now)) (\<lambda>settled.
     sx_bind (sx_foldM (\<lambda>symbol _. cw_audit ''delisting_settlement_pending'' symbol [] []) settled ()) (\<lambda>_.
     sx_bind (sx_lift (book_delisting_settlements (cs_codec st) (cs_mode st) exchange_info (as_positions snapshot) [] 0 (Aware now) state)) (\<lambda>(state, booked).
       if booked = [] then sx_return (state, settled)
       else sx_bind (on_store (on_ledger (save_ledger (cs_codec st) state))) (\<lambda>_.
            sx_bind (record_delisting_settlements booked) (\<lambda>_. sx_return (state, settled))))))"

text \<open>The breaches that remain after explained force closes are adopted.\<close>

definition remaining_breaches ::
    "cycle_settings \<Rightarrow> 'v cycle_client \<Rightarrow> io_faults \<Rightarrow> journal_attempt \<Rightarrow> timestamp \<Rightarrow> account_snapshot \<Rightarrow> string list \<Rightarrow> ledger_state
     \<Rightarrow> ('v cycle_world, ledger_state \<times> position_breach list) sx" where
  "remaining_breaches st cl faults fallback now snapshot settled state =
     sx_bind (sx_lift (find_position_breaches snapshot (ls_positions state) RECONCILE_QTY_TOLERANCE_FRACTION settled)) (\<lambda>breaches.
       if breaches \<noteq> [] \<and> cs_venue_force_close_auto_adopt st
       then sx_bind (adopt_force_closes st cl faults fallback now breaches state) (\<lambda>state.
            sx_bind (sx_lift (find_position_breaches snapshot (ls_positions state) RECONCILE_QTY_TOLERANCE_FRACTION settled)) (\<lambda>breaches.
              sx_return (state, breaches)))
       else sx_return (state, breaches))"

definition account_reasons :: "position_breach list \<Rightarrow> string list \<Rightarrow> string list" where
  "account_reasons breaches foreign_symbols =
     (if breaches \<noteq> [] then [''reconciliation_breach''] else []) @ (if foreign_symbols \<noteq> [] then [''foreign_open_orders''] else [])"

text \<open>The de-risk decision: new reasons are persisted, old ones stay in force.\<close>

definition decide_derisk ::
    "cycle_settings \<Rightarrow> timestamp \<Rightarrow> position_breach list \<Rightarrow> string list \<Rightarrow> ledger_state \<Rightarrow> ('v cycle_world, ledger_state \<times> string list) sx" where
  "decide_derisk st now breaches foreign_symbols state =
     (let reasons = account_reasons breaches foreign_symbols in
      sx_bind (if reasons \<noteq> [] \<and> \<not> cs_derisk_mode_enabled st then sx_lift (raise_account_breach breaches foreign_symbols) else sx_return ()) (\<lambda>_.
        if reasons \<noteq> []
        then sx_bind (on_store (on_ledger (enter_derisk (cs_codec st) state reasons (Aware now)))) (\<lambda>state.
             sx_bind (cw_audit ''derisk_entered'' [] [] (if breaches \<noteq> [] \<and> \<not> cs_venue_force_close_auto_adopt st then ''force_close_auto_adopt=off'' else [])) (\<lambda>_.
               sx_return (state, sorted_set (ls_derisk_reasons state))))
        else sx_return (state, if ls_derisk_since state = None then [] else sorted_set (ls_derisk_reasons state))))"

record pre_trade_reconciliation =
  pt_ledger_state :: ledger_state
  pt_sweep :: orphan_sweep
  pt_derisk_reasons :: "string list"
  pt_frozen_symbols :: "string list"

definition reconcile_account ::
    "cycle_settings \<Rightarrow> 'v cycle_client \<Rightarrow> io_faults \<Rightarrow> journal_attempt \<Rightarrow> timestamp \<Rightarrow> account_snapshot \<Rightarrow> payload \<Rightarrow> string list
     \<Rightarrow> ledger_state \<Rightarrow> ('v cycle_world, ledger_state \<times> string list) sx" where
  "reconcile_account st cl faults fallback now snapshot exchange_info foreign_symbols state =
     (if suppresses_mutations (cs_mode st)
      then sx_bind (sx_lift (assert_suppressed_venue_flat snapshot)) (\<lambda>_. sx_return (state, []))
      else sx_bind (book_settled st snapshot exchange_info now state) (\<lambda>(state, settled).
           sx_bind (remaining_breaches st cl faults fallback now snapshot settled state) (\<lambda>(state, breaches).
             decide_derisk st now breaches foreign_symbols state)))"

text \<open>The orders of earlier attempts: swept, recovered, settled.\<close>

definition settle_orders :: "cycle_settings \<Rightarrow> 'v venue_client \<Rightarrow> timestamp \<Rightarrow> ('v world, orphan_sweep \<times> unresolved_settlement) sx" where
  "settle_orders st vc now =
     sx_bind (cancel_orphan_orders (cs_codec st) vc (Aware now) (cs_taker_fee_bps st) (cs_order_identity_tolerance_ms st)) (\<lambda>sweep.
     sx_bind (recover_unresolved_orders (cs_codec st) vc now (cs_journal_recovery_lookback st) (cs_taker_fee_bps st) (cs_order_identity_tolerance_ms st)) (\<lambda>recovery.
     sx_bind (settle_unresolved_orders (cs_codec st) vc (rr_unresolved recovery) (cs_taker_fee_bps st) (cs_order_identity_tolerance_ms st)) (\<lambda>settlement.
       sx_return (sweep, settlement))))"

text \<open>The faults are those of the two commits it may make.\<close>

definition reconcile_pre_trade ::
    "cycle_settings \<Rightarrow> 'v cycle_client \<Rightarrow> io_faults \<times> io_faults \<Rightarrow> timestamp \<Rightarrow> timestamp \<Rightarrow> account_snapshot \<Rightarrow> payload \<Rightarrow> ledger_state
     \<Rightarrow> ('v cycle_world, pre_trade_reconciliation) sx" where
  "reconcile_pre_trade st cl faults decision_time now snapshot exchange_info state =
     (let fallback = cycle_fallback_attempt st decision_time now in
      sx_bind (on_world (on_journal (cl_orders cl) (\<lambda>clock. last_fill_seq (cs_codec st) clock))) (\<lambda>last_seq.
        if last_seq < ls_applied state
        then sx_bind (notify_event ''order_journal_regressed'' []) (\<lambda>_. sx_raise DataIntegrityError)
        else sx_bind (on_world (settle_orders st (cl_orders cl) now)) (\<lambda>(sweep, settlement).
             sx_bind (commit_cycle st (cl_orders cl) (fst faults) (plain_commit fallback None) state) (\<lambda>state.
             sx_bind (record_unresolved_orders (os_unconfirmed sweep @ us_still_open settlement)) (\<lambda>frozen.
             sx_bind (reconcile_account st cl (snd faults) fallback now snapshot exchange_info (os_foreign_symbols sweep) state) (\<lambda>(state, reasons).
               sx_return \<lparr>pt_ledger_state = state, pt_sweep = sweep, pt_derisk_reasons = reasons, pt_frozen_symbols = frozen\<rparr>))))))"

section \<open>The ledger on disk\<close>

text \<open>A restart reads the given ledger, except perhaps for how far the evidence is recorded: the mark
  of a failed save may be on disk while the process still has the old one.\<close>

definition saved :: "text_codec \<Rightarrow> ledger_state \<Rightarrow> ledger_file \<Rightarrow> bool" where
  "saved c s f \<longleftrightarrow> ledger_ok s \<and> (\<exists>k. load_ledger c f = Inr (ledger_norm (s\<lparr>ls_recorded := k\<rparr>)))"

lemma ledger_norm_recorded: "(ledger_norm s)\<lparr>ls_recorded := k\<rparr> = ledger_norm (s\<lparr>ls_recorded := k\<rparr>)"
  by (simp add: ledger_norm_def)

lemma saved_document:
  assumes "codec_ok c" "ledger_ok s" shows "saved c s (Document (ledger_json c s))"
proof -
  have "s\<lparr>ls_recorded := ls_recorded s\<rparr> = s" by simp
  then show ?thesis using load_ledger_json [OF assms] assms(2) unfolding saved_def by metis
qed

lemma saved_marked:
  assumes "codec_ok c" "ledger_ok s" "ledger_ok (s\<lparr>ls_recorded := k\<rparr>)" shows "saved c s (Document (ledger_json c (s\<lparr>ls_recorded := k\<rparr>)))"
  using load_ledger_json [OF assms(1,3)] assms(2) unfolding saved_def by blast

lemma saved_recorded: "saved c s f \<Longrightarrow> ledger_ok (s\<lparr>ls_recorded := k\<rparr>) \<Longrightarrow> saved c (s\<lparr>ls_recorded := k\<rparr>) f"
  by (simp add: saved_def)

lemma saved_ok: "saved c s f \<Longrightarrow> ledger_ok s"
  by (simp add: saved_def)

text \<open>What a commit leaves of the ledger, as far as the later steps of the cycle read it.\<close>

definition commits :: "order_journal \<Rightarrow> timestamp option \<Rightarrow> ledger_state \<Rightarrow> ledger_state \<Rightarrow> bool" where
  "commits j executed base l \<longleftrightarrow> ledger_ok l \<and> ls_applied l = oj_next_fill_seq j - 1
     \<and> ls_last_executed_decision_time l = (case executed of None \<Rightarrow> ls_last_executed_decision_time base | Some t \<Rightarrow> Some t)
     \<and> ls_derisk_since l = ls_derisk_since base \<and> ls_derisk_reasons l = ls_derisk_reasons base"

lemma commits_recorded: "commits j executed base l \<Longrightarrow> ledger_ok (l\<lparr>ls_recorded := k\<rparr>) \<Longrightarrow> commits j executed base (l\<lparr>ls_recorded := k\<rparr>)"
  by (simp add: commits_def)

lemma fills_above:
  assumes "seq_ok j" "n < oj_next_fill_seq j"
  shows "fills_after_mem j n = [] \<longleftrightarrow> n = oj_next_fill_seq j - 1 \<or> oj_next_fill_seq j = 0"
    and "x \<in> set (oj_fills j) \<Longrightarrow> jf_fill_seq x < oj_next_fill_seq j"
    and "0 < oj_next_fill_seq j \<Longrightarrow> \<exists>x \<in> set (oj_fills j). jf_fill_seq x = oj_next_fill_seq j - 1"
proof -
  have seqs: "map jf_fill_seq (oj_fills j) = [0..oj_next_fill_seq j - 1]" using assms(1) by (simp add: seq_ok_def)
  then have "jf_fill_seq ` set (oj_fills j) = {0..oj_next_fill_seq j - 1}" by (metis list.set_map set_upto)
  then have below: "jf_fill_seq x < oj_next_fill_seq j" if "x \<in> set (oj_fills j)" for x using that by force
  have top: "\<exists>x \<in> set (oj_fills j). jf_fill_seq x = oj_next_fill_seq j - 1" if "0 < oj_next_fill_seq j"
    using that \<open>jf_fill_seq ` set (oj_fills j) = {0..oj_next_fill_seq j - 1}\<close> by (metis (no_types, lifting) atLeastAtMost_iff image_iff order_refl zle_diff1_eq)
  show "x \<in> set (oj_fills j) \<Longrightarrow> jf_fill_seq x < oj_next_fill_seq j" by (rule below)
  show "0 < oj_next_fill_seq j \<Longrightarrow> \<exists>x \<in> set (oj_fills j). jf_fill_seq x = oj_next_fill_seq j - 1" by (rule top)
  have nn: "0 \<le> oj_next_fill_seq j" using assms(1) by (simp add: seq_ok_def)
  show "fills_after_mem j n = [] \<longleftrightarrow> n = oj_next_fill_seq j - 1 \<or> oj_next_fill_seq j = 0"
  proof (cases "oj_next_fill_seq j = 0")
    case True
    then have "oj_fills j = []" using seqs by simp
    then show ?thesis using True by (simp add: fills_after_mem_def)
  next
    case False
    then obtain y where y: "y \<in> set (oj_fills j)" "jf_fill_seq y = oj_next_fill_seq j - 1" using top nn by force
    show ?thesis
    proof
      assume "fills_after_mem j n = []"
      then have "\<not> n < jf_fill_seq y" using y(1) by (auto simp: fills_after_mem_def filter_empty_conv)
      then show "n = oj_next_fill_seq j - 1 \<or> oj_next_fill_seq j = 0" using assms(2) y(2) by simp
    next
      assume "n = oj_next_fill_seq j - 1 \<or> oj_next_fill_seq j = 0"
      then have "n = oj_next_fill_seq j - 1" using False by simp
      then show "fills_after_mem j n = []" using below by (force simp: fills_after_mem_def filter_empty_conv)
    qed
  qed
qed

lemma commit_fills_commits:
  assumes j: "seq_ok j" "ls_applied base < oj_next_fill_seq j" and ok: "ledger_ok base"
    and run: "commit_fills ro j equity executed base f = (Inr l, f')"
  shows "commits j executed base l \<and> (l = base \<and> f' = f \<or> f' = Document (ledger_json (ro_codec ro) l))"
proof (cases "fills_after_mem j (ls_applied base) = []")
  case True
  have "- 1 \<le> ls_applied base" "0 \<le> oj_next_fill_seq j" using ok j(1) by (auto simp: ledger_ok_def seq_ok_def)
  with fills_above(1) [OF j] True have "ls_applied base = oj_next_fill_seq j - 1" using j(2) by auto
  then show ?thesis using run True ok
    by (cases executed) (auto simp: commit_fills_def touch_ledger_def save_state_def save_ledger_def sx_defs Let_def commits_def ledger_ok_def split: if_splits)
next
  case False
  define opts where "opts = \<lparr>co_equity = equity, co_track_cash = suppresses_mutations (ro_mode ro),
             co_starting_capital = ro_starting_capital ro, co_executed_decision_time = executed\<rparr>"
  let ?p = "pending_fills base (fills_after_mem j (ls_applied base))"
  have "filter (\<lambda>x. ls_applied base < jf_fill_seq x) (fills_after_mem j (ls_applied base)) = fills_after_mem j (ls_applied base)"
    by (simp add: fills_after_mem_def)
  then have p: "?p = sort_key jf_fill_seq (fills_after_mem j (ls_applied base))" by (simp add: pending_fills_def)
  then have ne: "?p \<noteq> []" using False by (metis set_empty set_sort)
  have cs: "committed_state opts base ?p = Inr l" "f' = Document (ledger_json (ro_codec ro) l)"
    using run False ne by (auto simp: commit_fills_def commit_cases opts_def split: sum.splits)
  note res = committed_state_result [OF cs(1) ne]
  have stamp: "ls_last_executed_decision_time l = (case executed of None \<Rightarrow> ls_last_executed_decision_time base | Some t \<Rightarrow> Some t)"
    using cs(1) by (auto simp: committed_state_def Let_def rbind_eq_Inr opts_def split: if_splits)
  have seqs: "jf_fill_seq ` set (fills_after_mem j (ls_applied base)) = {ls_applied base + 1..ls_applied l}"
    using res(1) p by (metis list.set_map set_sort set_upto)
  have "ls_applied l \<in> jf_fill_seq ` set (fills_after_mem j (ls_applied base))" using seqs res(4) by simp
  then have hi: "ls_applied l \<le> oj_next_fill_seq j - 1" using fills_above(2) [OF j] by (force simp: fills_after_mem_def)
  have "0 \<le> ls_applied l" using res(4) ok by (simp add: ledger_ok_def)
  then have "0 < oj_next_fill_seq j" using hi by simp
  from fills_above(3) [OF j this] obtain x where x: "x \<in> set (oj_fills j)" "jf_fill_seq x = oj_next_fill_seq j - 1" by blast
  have "ls_applied base < jf_fill_seq x" using x(2) res(4) hi by simp
  then have "jf_fill_seq x \<in> jf_fill_seq ` set (fills_after_mem j (ls_applied base))" using x(1) by (simp add: fills_after_mem_def)
  then have "oj_next_fill_seq j - 1 \<le> ls_applied l" using seqs x(2) by simp
  then have "commits j executed base l" using hi stamp res ok by (simp add: commits_def ledger_ok_def)
  then show ?thesis using cs(2) by simp
qed

lemma on_part_ledger: "es_ledger (snd (on_fills m s)) = es_ledger s" "es_ledger (snd (on_tax n s)) = es_ledger s"
  by (simp_all add: on_fills_def on_tax_def split: prod.splits)

lemma try_keeps_ledger:
  "(\<And>s. es_ledger (snd (m s)) = es_ledger s) \<Longrightarrow> sx_triple (\<lambda>s. P (es_ledger s)) (Evidence.sx_try m) (\<lambda>_ s. P (es_ledger s)) E"
  unfolding sx_triple_def Evidence.sx_try_def by (simp split: prod.split sum.split) (metis snd_conv)

text \<open>The mark of the recorded fills: the ledger changes in nothing else, whether the save fails or not.\<close>

lemma mark_triple:
  assumes "codec_ok (ro_codec ro)" "ls_recorded l \<le> through" "through \<le> ls_applied l"
  shows "sx_triple (\<lambda>s. saved (ro_codec ro) l (es_ledger s)) (Evidence.sx_try (on_ledger (mark_recorded ro fault l through)))
     (\<lambda>marked s. \<exists>k. (case marked of None \<Rightarrow> l | Some l' \<Rightarrow> l') = l\<lparr>ls_recorded := k\<rparr> \<and> saved (ro_codec ro) (l\<lparr>ls_recorded := k\<rparr>) (es_ledger s)) E"
  unfolding sx_triple_def
proof (intro allI impI)
  fix s :: evidence_store assume s: "saved (ro_codec ro) l (es_ledger s)"
  have ok: "ledger_ok l" "ledger_ok (l\<lparr>ls_recorded := through\<rparr>)" using saved_ok [OF s] assms(2,3) by (auto simp: ledger_ok_def)
  obtain r f where m: "mark_recorded ro fault l through (es_ledger s) = (r, f)" by fastforce
  note res = mark_recorded_result [OF m]
  have same: "l\<lparr>ls_recorded := ls_recorded l\<rparr> = l" by simp
  have f: "saved (ro_codec ro) l f" using res s saved_marked [OF assms(1) ok] by blast
  show "case Evidence.sx_try (on_ledger (mark_recorded ro fault l through)) s of (Inl e, t) \<Rightarrow> E e t
      | (Inr x, t) \<Rightarrow> \<exists>k. (case x of None \<Rightarrow> l | Some l' \<Rightarrow> l') = l\<lparr>ls_recorded := k\<rparr> \<and> saved (ro_codec ro) (l\<lparr>ls_recorded := k\<rparr>) (es_ledger t)"
  proof (cases r)
    case (Inl e)
    then show ?thesis using m f same by (auto simp: Evidence.sx_try_def on_ledger_def intro!: exI [of _ "ls_recorded l"])
  next
    case (Inr l')
    then show ?thesis using m res saved_recorded [OF f ok(2)] by (auto simp: Evidence.sx_try_def on_ledger_def intro!: exI [of _ through])
  qed
qed

lemma record_fills_triple:
  assumes c: "codec_ok (ro_codec ro)"
  shows "sx_triple (\<lambda>s. saved (ro_codec ro) l (es_ledger s)) (record_fills ro faults j fallback fr sr cb base l)
     (\<lambda>y s. \<exists>k. fst y = l\<lparr>ls_recorded := k\<rparr> \<and> saved (ro_codec ro) (l\<lparr>ls_recorded := k\<rparr>) (es_ledger s))
     (\<lambda>_ s. saved (ro_codec ro) l (es_ledger s))" (is "sx_triple ?P _ ?Q ?E")
proof -
  define fresh where "fresh = filter (\<lambda>x. jf_fill_seq x \<le> ls_applied l) (fills_after_mem j (ls_recorded l))"
  define events where "events = fill_events_from_journal (oj_attempts j) fallback fresh"
  have keep: "sx_triple ?P (sx_return (l, y)) ?Q ?E" for y
    by (rule sx_triple_return) (auto intro!: exI [of _ "ls_recorded l"])
  show ?thesis
  proof (cases "fresh = []")
    case True
    then show ?thesis using keep by (simp add: record_fills_def Let_def fresh_def)
  next
    case False
    then have "last fresh \<in> set fresh" by simp
    then have through: "ls_recorded l \<le> jf_fill_seq (last fresh)" "jf_fill_seq (last fresh) \<le> ls_applied l"
      by (auto simp: fresh_def fills_after_mem_def)
    have mark: "sx_triple ?P (sx_bind (Evidence.sx_try (on_ledger (mark_recorded ro (ef_mark faults) l (jf_fill_seq (last fresh))))) (\<lambda>marked.
        sx_return (case marked of None \<Rightarrow> l | Some l' \<Rightarrow> l', y))) ?Q ?E" for y
      by (rule sx_triple_bind [OF mark_triple [OF c through]]) (auto intro!: sx_triple_return)
    have batch: "sx_triple ?P (sx_bind (sx_lift m) (\<lambda>y.
        sx_bind (Evidence.sx_try (on_ledger (mark_recorded ro (ef_mark faults) l (jf_fill_seq (last fresh))))) (\<lambda>marked.
        sx_return (case marked of None \<Rightarrow> l | Some l' \<Rightarrow> l', y)))) ?Q ?E" for m
      by (rule sx_triple_seq [OF _ mark]) (rule sx_triple_lift)
    have tax: "sx_triple ?P (if b then Evidence.sx_try (on_tax m) else sx_return y) (\<lambda>_. ?P) ?E" for b y and m :: "(tax_dir, 'y) sx"
      by (cases b) (auto intro: try_keeps_ledger sx_triple_return simp: on_part_ledger)
    have written: "sx_triple ?P (Evidence.sx_try (on_fills m)) (\<lambda>_. ?P) ?E" for m :: "(fills_dir, 'y) sx"
      by (rule try_keeps_ledger) (simp add: on_part_ledger)
    show ?thesis unfolding record_fills_def Let_def fresh_def [symmetric] events_def [symmetric] if_not_P [OF False]
      by (rule sx_triple_seq [OF written], rule sx_triple_if [OF keep], rule sx_triple_seq [OF tax], rule sx_triple_option [OF keep batch])
  qed
qed

lemma commit_record_triple:
  assumes c: "codec_ok (ro_codec ro)" and j: "seq_ok j" "ls_applied base < oj_next_fill_seq j"
  shows "sx_triple (\<lambda>s. saved (ro_codec ro) base (es_ledger s)) (commit_and_record ro faults j fallback equity executed fr sr cb base)
     (\<lambda>y s. commits j executed base (fst y) \<and> saved (ro_codec ro) (fst y) (es_ledger s))
     (\<lambda>_ s. saved (ro_codec ro) base (es_ledger s) \<or> (\<exists>l. commits j executed base l \<and> saved (ro_codec ro) l (es_ledger s)))"
proof -
  have commit: "sx_triple (\<lambda>s. saved (ro_codec ro) base (es_ledger s)) (on_ledger (commit_fills ro j equity executed base))
      (\<lambda>l s. saved (ro_codec ro) l (es_ledger s) \<and> commits j executed base l) (\<lambda>_ s. saved (ro_codec ro) base (es_ledger s))"
    unfolding sx_triple_def
  proof (intro allI impI)
    fix s :: evidence_store assume s: "saved (ro_codec ro) base (es_ledger s)"
    obtain r f where m: "commit_fills ro j equity executed base (es_ledger s) = (r, f)" by fastforce
    show "case on_ledger (commit_fills ro j equity executed base) s of (Inl e, t) \<Rightarrow> saved (ro_codec ro) base (es_ledger t)
        | (Inr l, t) \<Rightarrow> saved (ro_codec ro) l (es_ledger t) \<and> commits j executed base l"
    proof (cases r)
      case (Inl e)
      then show ?thesis using m s commit_fills_raises by (force simp: on_ledger_def)
    next
      case (Inr l)
      note res = commit_fills_commits [OF j saved_ok [OF s] m [unfolded Inr]]
      have "ledger_ok l" using res by (simp add: commits_def)
      then have "saved (ro_codec ro) l f" using res s saved_document [OF c] by auto
      then show ?thesis using m Inr res by (simp add: on_ledger_def)
    qed
  qed
  show ?thesis unfolding commit_and_record_def
  proof (rule sx_triple_bind [where R = "\<lambda>l s. saved (ro_codec ro) l (es_ledger s) \<and> commits j executed base l"])
    fix l
    show "sx_triple (\<lambda>s. saved (ro_codec ro) l (es_ledger s) \<and> commits j executed base l) (record_fills ro faults j fallback fr sr cb base l)
       (\<lambda>y s. commits j executed base (fst y) \<and> saved (ro_codec ro) (fst y) (es_ledger s))
       (\<lambda>_ s. saved (ro_codec ro) base (es_ledger s) \<or> (\<exists>l. commits j executed base l \<and> saved (ro_codec ro) l (es_ledger s)))"
    proof (rule sx_triple_pre_fact)
      assume l: "commits j executed base l"
      show "sx_triple (\<lambda>s. saved (ro_codec ro) l (es_ledger s)) (record_fills ro faults j fallback fr sr cb base l)
         (\<lambda>y s. commits j executed base (fst y) \<and> saved (ro_codec ro) (fst y) (es_ledger s))
         (\<lambda>_ s. saved (ro_codec ro) base (es_ledger s) \<or> (\<exists>l. commits j executed base l \<and> saved (ro_codec ro) l (es_ledger s)))"
        by (rule sx_conseq [OF record_fills_triple [OF c]]) (use l in \<open>auto simp: commits_recorded dest: saved_ok\<close>)
    qed
  qed (rule sx_conseq [OF commit], auto)
qed

section \<open>The journal stays sound\<close>

text \<open>Loaded, readable again, gapless, and beyond the given fill.\<close>

definition sound :: "text_codec \<Rightarrow> int \<Rightarrow> 'v world \<Rightarrow> bool" where
  "sound c n w \<longleftrightarrow> synced c (wd_journal w) \<and> seq_ok (mem w) \<and> n < oj_next_fill_seq (mem w)"

lemma next_fill_length: "seq_ok j \<Longrightarrow> oj_next_fill_seq j = int (length (oj_fills j))"
proof -
  assume a: "seq_ok j"
  then have "length (oj_fills j) = length [0..oj_next_fill_seq j - 1]" unfolding seq_ok_def by (metis length_map)
  then show ?thesis using a by (simp add: seq_ok_def)
qed

lemma synced_wal_ok: "synced c j \<Longrightarrow> seq_ok (wal_mem j) \<Longrightarrow> wal_ok c j"
  by (rule wal_okI)

lemma sound_step:
  assumes "codec_ok c" "sound c n w" "\<And>j. j = wd_journal w \<Longrightarrow> length (oj_fills (wal_mem j)) \<le> length (oj_fills (wal_mem (run_op c now oper j)))"
  shows "sound c n (w\<lparr>wd_journal := run_op c now oper (wd_journal w)\<rparr>)"
proof -
  have j: "synced c (wd_journal w)" "seq_ok (mem w)" "n < oj_next_fill_seq (mem w)" using assms(2) by (simp_all add: sound_def)
  note r = run_op_synced [OF assms(1) wal_okI [OF j(1,2)], of now oper]
  have "n < oj_next_fill_seq (wal_mem (run_op c now oper (wd_journal w)))"
    using assms(3) [OF refl] j(3) r next_fill_length [OF j(2)] next_fill_length [OF conjunct2 [OF r]] by simp
  then show ?thesis using r by (simp add: sound_def)
qed

lemma sound_venue: "sx_inv (sound c n) (on_venue m)" "sx_inv (sound c n) (audit_record e s k st)"
  by (auto simp: sound_def on_venue_run audit_record_def intro!: sx_inv_snd sx_inv_modify)

lemma sound_query: "sx_inv (sound c n) (on_journal vc (\<lambda>clock. query_journal c clock g))"
  by (rule sx_inv_snd) (simp add: sound_def on_journal_run query_synced)

lemma sound_fill:
  assumes c: "codec_ok c" shows "sx_inv (sound c n) (on_journal vc (\<lambda>clock. record_fill c clock r))"
proof (rule sx_inv_snd)
  fix w assume w: "sound c n (w :: 'a world)"
  let ?now = "vc_now vc (wd_venue w)"
  have "run_op c ?now (RecordFill r) (wd_journal w) = snd (record_fill c ?now r (wd_journal w))" by (simp add: run_op_def split: prod.splits)
  moreover have "length (oj_fills (wal_mem j)) \<le> length (oj_fills (wal_mem (snd (record_fill c ?now r j))))" if "j = wd_journal w" for j
    using record_fill_synced [OF c, of j ?now r] w that by (auto simp: sound_def)
  ultimately show "sound c n (snd (on_journal vc (\<lambda>clock. record_fill c clock r) w))"
    using sound_step [OF c w, of ?now "RecordFill r"] by (simp add: on_journal_run)
qed

lemma sound_terminal:
  assumes c: "codec_ok c" shows "sx_inv (sound c n) (on_journal vc (\<lambda>clock. record_terminal c clock k st))"
proof (rule sx_inv_snd)
  fix w assume w: "sound c n (w :: 'a world)"
  let ?now = "vc_now vc (wd_venue w)"
  have "run_op c ?now (RecordTerminal k st) (wd_journal w) = snd (record_terminal c ?now k st (wd_journal w))" by (simp add: run_op_def split: prod.splits)
  moreover have "length (oj_fills (wal_mem j)) \<le> length (oj_fills (wal_mem (snd (record_terminal c ?now k st j))))" if j: "j = wd_journal w" for j
  proof -
    have "synced c j" using w j by (simp add: sound_def)
    from record_terminal_synced [OF c this, of ?now k st] show ?thesis by (metis order_refl snd_conv)
  qed
  ultimately show "sound c n (snd (on_journal vc (\<lambda>clock. record_terminal c clock k st) w))"
    using sound_step [OF c w, of ?now "RecordTerminal k st"] by (simp add: on_journal_run)
qed

lemma sound_venue_state: "sound c n (w\<lparr>wd_venue := v\<rparr>) = sound c n w"
  by (simp add: sound_def)

lemma sound_known: "sx_inv (sound c n) (send_cancel vc s k)" "sx_inv (sound c n) (query_known vc s k)"
  by (rule sx_inv_snd, simp add: send_cancel_state query_known_state sound_venue_state)+

lemma sound_confirm: "sx_inv (sound c n) (cancel_and_confirm c vc s k)"
  unfolding cancel_and_confirm_def by (intro sx_inv_rules sound_known)

lemma sound_queries:
  "sx_inv (sound c n) (on_journal vc (\<lambda>clock. submits c clock))" "sx_inv (sound c n) (on_journal vc (\<lambda>clock. observed_qty c clock k))"
  "sx_inv (sound c n) (on_journal vc (\<lambda>clock. last_fill_seq c clock))" "sx_inv (sound c n) (on_journal vc (\<lambda>clock. fills_after c clock i))"
  "sx_inv (sound c n) (on_journal vc (\<lambda>clock. unresolved_submits c clock since))"
  unfolding submits_def observed_qty_def last_fill_seq_def fills_after_def unresolved_submits_def by (rule sound_query)+

lemmas sound_rules = sound_venue sound_query sound_fill sound_terminal sound_known sound_confirm sound_queries

lemma sound_sweep:
  assumes c: "codec_ok c" shows "sx_inv (sound c n) (cancel_orphan_orders c vc now fee tol)"
proof -
  have entry: "sx_inv (sound c n) (classify_entry c e acc)" for e acc
    unfolding classify_entry_def Let_def by (intro sx_inv_rules sound_rules)
  have finish: "sx_inv (sound c n) (finish_orphan c vc conf s acc)" for conf s acc
    unfolding finish_orphan_def Let_def by (intro sx_inv_rules sound_rules c)
  have settle: "sx_inv (sound c n) (settle_orphan c vc now fee conf q e s acc)" for conf q e s acc
    unfolding settle_orphan_def Let_def by (intro sx_inv_rules sound_rules finish c)
  have order: "sx_inv (sound c n) (sweep_order c vc now fee tol subs e acc)" for subs e acc
    unfolding sweep_order_def Let_def by (intro sx_inv_rules sound_rules settle)
  show ?thesis unfolding cancel_orphan_orders_def by (intro sx_inv_rules sound_rules entry order)
qed

lemma sound_recovery:
  assumes c: "codec_ok c"
  shows "sx_inv (sound c n) (recover_unresolved_orders c vc now lookback fee tol)"
    and "sx_inv (sound c n) (settle_unresolved_orders c vc unresolved fee tol)"
proof -
  have book: "sx_inv (sound c n) (book_recovered_delta c vc k s a l p fee tol subs)" for k s a l p tol subs
    unfolding book_recovered_delta_def Let_def by (intro sx_inv_rules sound_rules c)
  have mark: "sx_inv (sound c n) (mark_resolved c vc k s st x)" for k s st and x :: 'y
    unfolding mark_resolved_def by (intro sx_inv_rules sound_rules c)
  have submit: "sx_inv (sound c n) (recover_submit c vc fee tol subs x rep)" for subs x rep
    unfolding recover_submit_def by (intro sx_inv_rules sound_rules book mark)
  have order: "sx_inv (sound c n) (settle_order c vc fee tol subs x acc)" for subs x acc
    unfolding settle_order_def Let_def by (intro sx_inv_rules sound_rules book mark)
  show "sx_inv (sound c n) (recover_unresolved_orders c vc now lookback fee tol)"
    unfolding recover_unresolved_orders_def by (intro sx_inv_rules sound_rules submit)
  show "sx_inv (sound c n) (settle_unresolved_orders c vc unresolved fee tol)"
    unfolding settle_unresolved_orders_def by (intro sx_inv_rules sound_rules order)
qed

lemma sound_settle: "codec_ok (cs_codec st) \<Longrightarrow> sx_inv (sound (cs_codec st) n) (settle_orders st vc now)"
  unfolding settle_orders_def by (intro sx_inv_rules sound_sweep sound_recovery)

section \<open>The ledger of the cycle\<close>

abbreviation ledger_of :: "'v cycle_world \<Rightarrow> ledger_file" where "ledger_of w \<equiv> es_ledger (cw_store w)"

text \<open>The cycle works on a ledger that a restart would read, with a sound journal beyond it; its last
  executed decision is \<open>t\<close>.  When a step raises, that decision is still the one on disk.\<close>

definition standing :: "text_codec \<Rightarrow> timestamp option \<Rightarrow> ledger_state \<Rightarrow> 'v cycle_world \<Rightarrow> bool" where
  "standing c t l w \<longleftrightarrow> sound c (ls_applied l) (cw_world w) \<and> saved c l (ledger_of w) \<and> ls_last_executed_decision_time l = t"

definition unmoved :: "text_codec \<Rightarrow> timestamp option \<Rightarrow> 'v cycle_world \<Rightarrow> bool" where
  "unmoved c t w \<longleftrightarrow> (\<exists>l. saved c l (ledger_of w) \<and> ls_last_executed_decision_time l = t)"

definition caught_up :: "ledger_state \<Rightarrow> 'v cycle_world \<Rightarrow> bool" where
  "caught_up l w \<longleftrightarrow> ls_applied l = oj_next_fill_seq (mem (cw_world w)) - 1"

lemma standing_unmoved: "standing c t l w \<Longrightarrow> unmoved c t w"
  unfolding standing_def unmoved_def by blast

lemma on_world_run: "on_world m w = (fst (m (cw_world w)), w\<lparr>cw_world := snd (m (cw_world w))\<rparr>)"
  by (simp add: on_world_def sx_zoom_run)

lemma on_store_run: "on_store m w = (fst (m (cw_store w)), w\<lparr>cw_store := snd (m (cw_store w))\<rparr>)"
  by (simp add: on_store_def sx_zoom_run)

lemma standing_world:
  assumes "\<And>n. sx_inv (sound c n) m"
  shows "sx_triple (standing c t l) (on_world m) (\<lambda>_. standing c t l) (\<lambda>_. unmoved c t)"
  unfolding sx_triple_def
proof (intro allI impI)
  fix w :: "'a cycle_world" assume w: "standing c t l w"
  have "sound c (ls_applied l) (snd (m (cw_world w)))" by (rule sx_triple_snd [OF assms]) (use w in \<open>simp add: standing_def\<close>)
  then have "standing c t l (w\<lparr>cw_world := snd (m (cw_world w))\<rparr>)" using w by (simp add: standing_def)
  then show "case on_world m w of (Inl e, u) \<Rightarrow> unmoved c t u | (Inr x, u) \<Rightarrow> standing c t l u"
    by (simp add: on_world_run standing_unmoved split: sum.split)
qed

lemma standing_alert: "sx_triple (standing c t l) (notify_event e d) (\<lambda>_. standing c t l) (\<lambda>_. unmoved c t)"
  unfolding notify_event_def by (rule sx_triple_modify) (simp add: standing_def)

lemma standing_audit: "sx_triple (standing c t l) (cw_audit e s k st) (\<lambda>_. standing c t l) (\<lambda>_. unmoved c t)"
  unfolding cw_audit_def by (intro standing_world sound_venue)

lemma standing_return: "sx_triple (standing c t l) (sx_return x) (\<lambda>_. standing c t l) (\<lambda>_. unmoved c t)"
  by (rule sx_triple_return)

lemma standing_raise: "sx_triple (standing c t l) (sx_raise e) Q (\<lambda>_. unmoved c t)"
  by (rule sx_triple_raise) (rule standing_unmoved)

lemma standing_lift: "sx_triple (standing c t l) (sx_lift m) (\<lambda>_. standing c t l) (\<lambda>_. unmoved c t)"
  by (rule sx_triple_lift) (auto dest: standing_unmoved)

lemma standing_fold:
  "(\<And>x acc. x \<in> set xs \<Longrightarrow> sx_triple (standing c t l) (f x acc) (\<lambda>_. standing c t l) (\<lambda>_. unmoved c t))
   \<Longrightarrow> sx_triple (standing c t l) (sx_foldM f xs acc) (\<lambda>_. standing c t l) (\<lambda>_. unmoved c t)"
  by (rule sx_triple_foldM)

lemmas standing_rules = standing_world standing_alert standing_audit standing_return standing_raise standing_lift standing_fold

definition stamp :: "timestamp option \<Rightarrow> timestamp option \<Rightarrow> timestamp option" where
  "stamp executed t = (case executed of None \<Rightarrow> t | Some d \<Rightarrow> Some d)"

text \<open>After a commit the ledger is at the end of the journal, stamped as told, and otherwise in the
  same de-risk state.\<close>

definition committed_from :: "text_codec \<Rightarrow> timestamp option \<Rightarrow> ledger_state \<Rightarrow> ledger_state \<Rightarrow> 'v cycle_world \<Rightarrow> bool" where
  "committed_from c t base l w \<longleftrightarrow> standing c t l w \<and> caught_up l w
     \<and> ls_derisk_since l = ls_derisk_since base \<and> ls_derisk_reasons l = ls_derisk_reasons base"

lemma commit_cycle_triple:
  assumes c: "codec_ok (cs_codec st)"
  shows "sx_triple (standing (cs_codec st) t base) (commit_cycle st vc faults args base)
     (\<lambda>l. committed_from (cs_codec st) (stamp (ca_executed args) t) base l)
     (\<lambda>_ w. unmoved (cs_codec st) t w \<or> unmoved (cs_codec st) (stamp (ca_executed args) t) w)"
  unfolding sx_triple_def
proof (intro allI impI)
  fix w :: "'a cycle_world" assume w: "standing (cs_codec st) t base w"
  define j where "j = mem (cw_world w)"
  let ?e = "ca_executed args"
  let ?run = "commit_and_record (cs_record st) faults j (ca_fallback args) (ca_equity args) ?e (ca_funding args) (ca_settlement args) (ca_cash_before args) base"
  have s: "synced (cs_codec st) (wd_journal (cw_world w))" "seq_ok j" "ls_applied base < oj_next_fill_seq j" "saved (cs_codec st) base (ledger_of w)"
      "ls_last_executed_decision_time base = t"
    using w by (simp_all add: standing_def sound_def j_def)
  have world: "w\<lparr>cw_world := (cw_world w)\<lparr>wd_journal := wd_journal (cw_world w)\<rparr>\<rparr> = w" by simp
  have query: "on_world (on_journal vc (\<lambda>clock. query_journal (cs_codec st) clock (\<lambda>j. j))) w = (Inr j, w)"
    using world by (simp add: on_world_run on_journal_run query_synced [OF s(1)] j_def)
  note triple = commit_record_triple [OF c s(2,3), of faults "ca_fallback args" "ca_equity args" ?e "ca_funding args" "ca_settlement args" "ca_cash_before args"]
  obtain r u where run: "?run (cw_store w) = (r, u)" by fastforce
  have whole: "commit_cycle st vc faults args base w = (case r of Inl e \<Rightarrow> (Inl e, w\<lparr>cw_store := u\<rparr>) | Inr y \<Rightarrow> (Inr (fst y), w\<lparr>cw_store := u\<rparr>))"
    by (simp add: commit_cycle_def sx_bind_def query on_store_run run sx_return_def case_prod_beta split: sum.split)
  show "case commit_cycle st vc faults args base w of (Inl e, w') \<Rightarrow> unmoved (cs_codec st) t w' \<or> unmoved (cs_codec st) (stamp ?e t) w'
      | (Inr l, w') \<Rightarrow> committed_from (cs_codec st) (stamp ?e t) base l w'"
  proof (cases r)
    case (Inl e)
    have "saved (cs_codec st) base (es_ledger u) \<or> (\<exists>l. commits j ?e base l \<and> saved (cs_codec st) l (es_ledger u))"
      using sx_tripleD_Inl [OF triple s(4) run [unfolded Inl]] .
    then show ?thesis unfolding whole Inl using s(5) by (auto simp: unmoved_def commits_def stamp_def)
  next
    case (Inr y)
    have "commits j ?e base (fst y) \<and> saved (cs_codec st) (fst y) (es_ledger u)"
      using sx_tripleD_Inr [OF triple s(4) run [unfolded Inr]] .
    then show ?thesis unfolding whole Inr using s w
      by (simp add: committed_from_def standing_def caught_up_def sound_def commits_def stamp_def j_def split: option.split)
  qed
qed

lemma plain_commit_triple:
  assumes c: "codec_ok (cs_codec st)"
  shows "sx_triple (standing (cs_codec st) t base) (commit_cycle st vc faults (plain_commit fallback equity) base)
     (\<lambda>l. committed_from (cs_codec st) t base l) (\<lambda>_. unmoved (cs_codec st) t)"
  using commit_cycle_triple [OF c, of t base vc faults "plain_commit fallback equity"] by (simp add: plain_commit_def stamp_def)

section \<open>The reconciliation, step by step\<close>

definition rested :: "text_codec \<Rightarrow> timestamp option \<Rightarrow> ledger_state \<Rightarrow> 'v cycle_world \<Rightarrow> bool" where
  "rested c t l w \<longleftrightarrow> standing c t l w \<and> caught_up l w"

lemma rested_unmoved: "rested c t l w \<Longrightarrow> unmoved c t w"
  unfolding rested_def by (auto intro: standing_unmoved)

lemma committed_rested: "committed_from c t base l w \<Longrightarrow> rested c t l w"
  by (simp add: committed_from_def rested_def)

lemma rested_world:
  assumes "\<And>n. sx_inv (sound c n) m" "\<And>w. synced c (wd_journal w) \<Longrightarrow> mem (snd (m w)) = mem w"
  shows "sx_triple (rested c t l) (on_world m) (\<lambda>_. rested c t l) (\<lambda>_. unmoved c t)"
proof -
  have "sx_triple (\<lambda>w. standing c t l w \<and> caught_up l w) (on_world m) (\<lambda>_ w. standing c t l w \<and> caught_up l w) (\<lambda>_. unmoved c t)"
    unfolding sx_triple_def
  proof (intro allI impI)
    fix w :: "'a cycle_world" assume w: "standing c t l w \<and> caught_up l w"
    then have "synced c (wd_journal (cw_world w))" by (simp add: standing_def sound_def)
    then have "caught_up l (snd (on_world m w))" using w assms(2) by (simp add: caught_up_def on_world_run)
    moreover have "case on_world m w of (Inl e, u) \<Rightarrow> unmoved c t u | (Inr x, u) \<Rightarrow> standing c t l u"
      by (rule iffD1 [OF sx_triple_def standing_world [OF assms(1), where t = t and l = l], rule_format, OF conjunct1 [OF w]])
    ultimately show "case on_world m w of (Inl e, u) \<Rightarrow> unmoved c t u | (Inr x, u) \<Rightarrow> standing c t l u \<and> caught_up l u"
      by (auto split: prod.splits sum.splits)
  qed
  then show ?thesis unfolding rested_def [abs_def] .
qed

lemma rested_query: "sx_triple (rested c t l) (on_world (on_journal vc (\<lambda>clock. query_journal c clock g))) (\<lambda>_. rested c t l) (\<lambda>_. unmoved c t)"
  by (rule rested_world [OF sound_query]) (simp add: on_journal_run query_synced)

lemma rested_venue: "sx_triple (rested c t l) (on_world (on_venue m)) (\<lambda>_. rested c t l) (\<lambda>_. unmoved c t)"
  by (rule rested_world [OF sound_venue(1)]) (simp add: on_venue_run)

lemma rested_audit: "sx_triple (rested c t l) (cw_audit e s k st) (\<lambda>_. rested c t l) (\<lambda>_. unmoved c t)"
  unfolding cw_audit_def by (rule rested_world [OF sound_venue(2)]) (simp add: audit_record_def sx_modify_def)

lemma rested_alert: "sx_triple (rested c t l) (notify_event e d) (\<lambda>_. rested c t l) (\<lambda>_. unmoved c t)"
  unfolding notify_event_def by (rule sx_triple_modify) (auto simp: rested_def standing_def caught_up_def)

lemma rested_fold:
  "(\<And>x acc. x \<in> set xs \<Longrightarrow> sx_triple (rested c t l) (f x acc) (\<lambda>_. rested c t l) (\<lambda>_. unmoved c t))
   \<Longrightarrow> sx_triple (rested c t l) (sx_foldM f xs acc) (\<lambda>_. rested c t l) (\<lambda>_. unmoved c t)"
  by (rule sx_triple_foldM)

lemma rested_return: "sx_triple (rested c t l) (sx_return x) (\<lambda>_. rested c t l) (\<lambda>_. unmoved c t)"
  by (rule sx_triple_return)

lemma rested_lift: "sx_triple (rested c t l) (sx_lift m) (\<lambda>x w. rested c t l w \<and> m = Inr x) (\<lambda>_. unmoved c t)"
  by (rule sx_triple_lift) (auto dest: rested_unmoved)

lemma rested_seq:
  "sx_triple (rested c t l) m (\<lambda>_. rested c t l) (\<lambda>_. unmoved c t) \<Longrightarrow> (\<And>x. sx_triple (rested c t l) (f x) Q (\<lambda>_. unmoved c t))
   \<Longrightarrow> sx_triple (rested c t l) (sx_bind m f) Q (\<lambda>_. unmoved c t)"
  by (rule sx_triple_bind)

lemma rested_lift_seq:
  "(\<And>x. m = Inr x \<Longrightarrow> sx_triple (rested c t l) (f x) Q (\<lambda>_. unmoved c t)) \<Longrightarrow> sx_triple (rested c t l) (sx_bind (sx_lift m) f) Q (\<lambda>_. unmoved c t)"
  by (rule sx_triple_bind [OF rested_lift sx_triple_pre_fact])

lemma rested_save:
  assumes "codec_ok c" "ledger_ok l'" "ls_applied l' = ls_applied l" "ls_last_executed_decision_time l' = ls_last_executed_decision_time l"
  shows "sx_triple (rested c t l) (on_store (on_ledger (save_ledger c l'))) (\<lambda>_. rested c t l') (\<lambda>_. unmoved c t)"
  using saved_document [OF assms(1,2)] assms(3,4)
  by (auto simp: sx_triple_def on_store_run on_ledger_def save_ledger_def sx_modify_def rested_def standing_def caught_up_def)

lemmas rested_rules = rested_query rested_venue rested_audit rested_alert rested_fold rested_return rested_seq

lemma unresolved_rested: "sx_triple (rested c t l) (record_unresolved_orders xs) (\<lambda>_. rested c t l) (\<lambda>_. unmoved c t)"
  unfolding record_unresolved_orders_def Let_def by (intro sx_triple_if rested_rules)

lemma freeze_rested: "sx_triple (rested c t l) (apply_unresolved_freeze is xs) (\<lambda>_. rested c t l) (\<lambda>_. unmoved c t)"
  unfolding apply_unresolved_freeze_def Let_def case_prod_beta by (intro rested_rules)

text \<open>Booked delistings change positions, cash and history only.\<close>

lemma live_steps_length: "length (snd (fold (live_step schedule now) xs acc)) = length (snd acc) + length xs"
  by (induction xs arbitrary: acc) (simp_all add: live_step_def case_prod_beta Let_def)

lemma paper_steps_length: "rfold (paper_step fee) xs acc = Inr acc' \<Longrightarrow> length (snd (snd acc')) = length (snd (snd acc)) + length xs"
  by (induction xs arbitrary: acc) (force simp: paper_step_def case_prod_beta Let_def rbind_eq_Inr)+

lemma book_frame:
  assumes "book_delisting_settlements c mode info vp ev fee now l = Inr (l', booked)"
  shows "(booked = [] \<longrightarrow> l' = l) \<and> (\<exists>p k h. l' = l\<lparr>ls_positions := p, ls_cash_usdt := k, ls_position_history := h\<rparr>)"
proof -
  have same: "l = l\<lparr>ls_positions := ls_positions l, ls_cash_usdt := ls_cash_usdt l, ls_position_history := ls_position_history l\<rparr>" by simp
  have live: ?thesis if "book_live c info schedule vp n l = Inr (l', booked)" for schedule n
  proof -
    from that obtain settled where s: "settled_delisting_symbols c info vp (ls_positions l) n = Inr settled" by (auto simp: book_live_def rbind_eq_Inr)
    show ?thesis
    proof (cases "settled = []")
      case True
      then have "l' = l \<and> booked = []" using that s by (simp add: book_live_def)
      then show ?thesis using same by blast
    next
      case False
      obtain p b where f: "fold (live_step schedule n) settled (ls_positions l, []) = (p, b)" by fastforce
      from that s False f obtain h where h: "l' = l\<lparr>ls_positions := p, ls_position_history := h\<rparr>" "booked = b"
        by (auto simp: book_live_def rbind_eq_Inr)
      have "length b = length settled" using live_steps_length [of schedule n settled "(ls_positions l, [])"] f by simp
      then have "booked \<noteq> []" using False h(2) by auto
      moreover have "l' = l\<lparr>ls_positions := p, ls_cash_usdt := ls_cash_usdt l, ls_position_history := h\<rparr>" using h(1) by simp
      ultimately show ?thesis by blast
    qed
  qed
  have paper: ?thesis if "book_paper schedule ev fee n l = Inr (l', booked)" for schedule n
  proof -
    define cands where "cands = List.map_filter (paper_candidate schedule ev n (ls_positions l)) (sort (map fst (ls_positions l)))"
    show ?thesis
    proof (cases "cands = []")
      case True
      then have "l' = l \<and> booked = []" using that by (simp add: book_paper_def Let_def cands_def)
      then show ?thesis using same by blast
    next
      case False
      with that obtain cash p k h where r: "rfold (paper_step fee) cands (ls_positions l, cash, []) = Inr (p, k, booked)"
        and l': "l' = l\<lparr>ls_positions := p, ls_cash_usdt := Some k, ls_position_history := h\<rparr>"
        by (auto simp: book_paper_def Let_def cands_def rbind_eq_Inr split: option.splits)
      have "booked \<noteq> []" using paper_steps_length [OF r] False by auto
      then show ?thesis using l' by blast
    qed
  qed
  from assms consider "l' = l" "booked = []" | n schedule where "book_paper schedule ev fee n l = Inr (l', booked)"
    | n schedule where "book_live c info schedule vp n l = Inr (l', booked)"
    by (auto simp: book_delisting_settlements_def rbind_eq_Inr split: if_splits)
  then show ?thesis
  proof cases
    case 1
    then have "l' = l\<lparr>ls_positions := ls_positions l, ls_cash_usdt := ls_cash_usdt l, ls_position_history := ls_position_history l\<rparr>" by simp
    then show ?thesis using 1(1) by blast
  qed (rule paper, assumption, rule live)
qed

lemma book_settled_triple:
  assumes c: "codec_ok (cs_codec st)"
  shows "sx_triple (rested (cs_codec st) t l :: 'v cycle_world \<Rightarrow> bool) (book_settled st snapshot info now l) (\<lambda>y. rested (cs_codec st) t (fst y)) (\<lambda>_. unmoved (cs_codec st) t)"
  unfolding book_settled_def
proof (rule rested_lift_seq, rule rested_seq [OF rested_fold [OF rested_audit]], rule rested_lift_seq)
  fix settled y
  assume y: "book_delisting_settlements (cs_codec st) (cs_mode st) info (as_positions snapshot) [] 0 (Aware now) l = Inr y"
  obtain l' booked where l': "y = (l', booked)" by (cases y)
  note frame = book_frame [OF y [unfolded l']]
  show "sx_triple (rested (cs_codec st) t l :: 'v cycle_world \<Rightarrow> bool) (case y of (state, booked) \<Rightarrow>
       if booked = [] then sx_return (state, settled)
       else sx_bind (on_store (on_ledger (save_ledger (cs_codec st) state))) (\<lambda>_.
            sx_bind (record_delisting_settlements booked) (\<lambda>_. sx_return (state, settled))))
       (\<lambda>y. rested (cs_codec st) t (fst y)) (\<lambda>_. unmoved (cs_codec st) t)"
  proof (cases "booked = []")
    case True
    then show ?thesis using frame l' by (auto intro: sx_triple_return)
  next
    case False
    have rest: "sx_triple (rested (cs_codec st) t l') (sx_bind (record_delisting_settlements booked) (\<lambda>_. sx_return (l', settled)))
        (\<lambda>y. rested (cs_codec st) t (fst y)) (\<lambda>_. unmoved (cs_codec st) t)"
      unfolding record_delisting_settlements_def
      by (rule rested_seq [OF rested_fold [OF rested_seq [OF rested_audit rested_alert]]]) (rule sx_triple_return, simp)
    have "sx_triple (rested (cs_codec st) t l :: 'v cycle_world \<Rightarrow> bool) (sx_bind (on_store (on_ledger (save_ledger (cs_codec st) l')))
        (\<lambda>_. sx_bind (record_delisting_settlements booked) (\<lambda>_. sx_return (l', settled)))) (\<lambda>y. rested (cs_codec st) t (fst y)) (\<lambda>_. unmoved (cs_codec st) t)"
    proof (rule sx_triple_pre_ex)
      fix s0 :: "'v cycle_world" assume "rested (cs_codec st) t l s0"
      then have "ledger_ok l" by (auto simp: rested_def standing_def saved_def)
      then have ok: "ledger_ok l'" "ls_applied l' = ls_applied l" "ls_last_executed_decision_time l' = ls_last_executed_decision_time l"
        using frame by (auto simp: ledger_ok_def)
      show "sx_triple (rested (cs_codec st) t l :: 'v cycle_world \<Rightarrow> bool) (sx_bind (on_store (on_ledger (save_ledger (cs_codec st) l')))
        (\<lambda>_. sx_bind (record_delisting_settlements booked) (\<lambda>_. sx_return (l', settled)))) (\<lambda>y. rested (cs_codec st) t (fst y)) (\<lambda>_. unmoved (cs_codec st) t)"
        by (rule sx_triple_bind [OF rested_save [OF c ok] rest])
    qed
    then show ?thesis using l' False by simp
  qed
qed

lemma adopt_triple:
  assumes c: "codec_ok (cs_codec st)"
  shows "sx_triple (rested (cs_codec st) t l) (adopt_force_closes st cl faults fallback now breaches l) (rested (cs_codec st) t) (\<lambda>_. unmoved (cs_codec st) t)"
  unfolding adopt_force_closes_def fills_after_def Let_def
proof (rule rested_seq [OF rested_query], rule rested_seq [OF rested_venue])
  fix fills closes
  let ?adopt = "fst (explain_breaches breaches (filter (\<lambda>x. vf_order_id x \<notin> set (adopted_ids fills)) closes) RECONCILE_QTY_TOLERANCE_FRACTION)"
  show "sx_triple (rested (cs_codec st) t l) (sx_bind (sx_foldM (adopt_close st (cl_orders cl) fallback) ?adopt ()) (\<lambda>_.
      if ?adopt = [] then sx_return l else commit_cycle st (cl_orders cl) faults (plain_commit fallback None) l))
      (rested (cs_codec st) t) (\<lambda>_. unmoved (cs_codec st) t)"
  proof (cases "?adopt = []")
    case True
    then show ?thesis by (auto intro: sx_triple_return)
  next
    case False
    have step: "sx_triple (standing (cs_codec st) t l) (adopt_close st (cl_orders cl) fallback x u) (\<lambda>_. standing (cs_codec st) t l) (\<lambda>_. unmoved (cs_codec st) t)" for x u
      unfolding adopt_close_def
      by (rule sx_triple_seq [OF standing_world [OF sound_fill [OF c]]], rule sx_triple_seq [OF standing_audit standing_alert])
    have commit: "sx_triple (standing (cs_codec st) t l) (commit_cycle st (cl_orders cl) faults (plain_commit fallback None) l)
        (rested (cs_codec st) t) (\<lambda>_. unmoved (cs_codec st) t)"
      by (rule sx_conseq [OF plain_commit_triple [OF c]]) (auto dest: committed_rested)
    have "sx_triple (standing (cs_codec st) t l) (sx_bind (sx_foldM (adopt_close st (cl_orders cl) fallback) ?adopt ()) (\<lambda>_.
        commit_cycle st (cl_orders cl) faults (plain_commit fallback None) l)) (rested (cs_codec st) t) (\<lambda>_. unmoved (cs_codec st) t)"
      by (rule sx_triple_seq [OF standing_fold commit]) (rule step)
    from sx_pre [OF this, of "rested (cs_codec st) t l"] False show ?thesis by (simp add: rested_def)
  qed
qed

lemma breaches_triple:
  assumes c: "codec_ok (cs_codec st)"
  shows "sx_triple (rested (cs_codec st) t l) (remaining_breaches st cl faults fallback now snapshot settled l) (\<lambda>y. rested (cs_codec st) t (fst y)) (\<lambda>_. unmoved (cs_codec st) t)"
proof -
  have ret: "sx_triple (rested (cs_codec st) t l') (sx_return (l', y)) (\<lambda>y. rested (cs_codec st) t (fst y)) (\<lambda>_. unmoved (cs_codec st) t)"
    for l' and y :: "position_breach list" by (rule sx_triple_return) simp
  show ?thesis unfolding remaining_breaches_def
    by (rule rested_lift_seq, rule sx_triple_if, rule sx_triple_bind [OF adopt_triple [OF c]], rule rested_lift_seq, rule ret, rule ret)
qed

lemma enter_derisk_state:
  assumes "enter_derisk c l reasons (Aware now) f = (r, f')"
  shows "\<exists>l'. r = Inr l' \<and> (l' = l \<and> f' = f \<or> f' = Document (ledger_json c l'))
     \<and> (\<exists>d. l' = l\<lparr>ls_derisk_since := Some d, ls_derisk_reasons := sorted_set (ls_derisk_reasons l @ reasons)\<rparr>)"
proof (cases "ls_derisk_since l \<noteq> None \<and> sorted_set (ls_derisk_reasons l @ reasons) = ls_derisk_reasons l")
  case True
  then obtain d where "ls_derisk_since l = Some d" by blast
  then have "l = l\<lparr>ls_derisk_since := Some d, ls_derisk_reasons := sorted_set (ls_derisk_reasons l @ reasons)\<rparr>" using True by simp
  moreover have "r = Inr l" "f' = f" using assms True by (simp_all add: enter_derisk_def tz_aware_simps sx_defs Let_def)
  ultimately show ?thesis by blast
next
  case False
  then show ?thesis using assms by (auto simp: enter_derisk_def tz_aware_simps sx_defs Let_def save_state_def save_ledger_def)
qed

lemma decide_triple:
  assumes c: "codec_ok (cs_codec st)"
  shows "sx_triple (rested (cs_codec st) t l :: 'v cycle_world \<Rightarrow> bool) (decide_derisk st now breaches foreign l)
     (\<lambda>y. rested (cs_codec st) t (fst y)) (\<lambda>_. unmoved (cs_codec st) t)"
proof -
  have enter: "sx_triple (rested (cs_codec st) t l :: 'v cycle_world \<Rightarrow> bool) (on_store (on_ledger (enter_derisk (cs_codec st) l reasons (Aware now))))
      (rested (cs_codec st) t) (\<lambda>_. unmoved (cs_codec st) t)" for reasons
    unfolding sx_triple_def
  proof (intro allI impI)
    fix w :: "'v cycle_world" assume w: "rested (cs_codec st) t l w"
    obtain r f where run: "enter_derisk (cs_codec st) l reasons (Aware now) (ledger_of w) = (r, f)" by fastforce
    obtain l' d where r: "r = Inr l'" "l' = l \<and> f = ledger_of w \<or> f = Document (ledger_json (cs_codec st) l')"
      "l' = l\<lparr>ls_derisk_since := Some d, ls_derisk_reasons := sorted_set (ls_derisk_reasons l @ reasons)\<rparr>"
      using enter_derisk_state [OF run] by blast
    have "ledger_ok l" "saved (cs_codec st) l (ledger_of w)" using w by (auto simp: rested_def standing_def saved_def)
    moreover from this have "ledger_ok l'" by (simp add: r(3) ledger_ok_def)
    ultimately have "saved (cs_codec st) l' f" using r(2) saved_document [OF c] by auto
    then have "rested (cs_codec st) t l' (w\<lparr>cw_store := (cw_store w)\<lparr>es_ledger := f\<rparr>\<rparr>)"
      using w by (auto simp: rested_def standing_def caught_up_def r(3))
    then show "case on_store (on_ledger (enter_derisk (cs_codec st) l reasons (Aware now))) w of (Inl e, u) \<Rightarrow> unmoved (cs_codec st) t u
        | (Inr x, u) \<Rightarrow> rested (cs_codec st) t x u"
      using run r(1) by (simp add: on_store_run on_ledger_def)
  qed
  have check: "sx_triple (rested (cs_codec st) t l :: 'v cycle_world \<Rightarrow> bool) (if b then sx_lift m else sx_return ()) (\<lambda>_. rested (cs_codec st) t l) (\<lambda>_. unmoved (cs_codec st) t)"
    for b m by (rule sx_triple_if [OF _ rested_return]) (rule sx_conseq [OF rested_lift], auto)
  have tail: "sx_triple (rested (cs_codec st) t l' :: 'v cycle_world \<Rightarrow> bool) (sx_bind (cw_audit e a b d) (\<lambda>_. sx_return (l', y))) (\<lambda>y. rested (cs_codec st) t (fst y)) (\<lambda>_. unmoved (cs_codec st) t)"
    for l' e a b d and y :: "string list" by (rule rested_seq [OF rested_audit]) (rule sx_triple_return, simp)
  show ?thesis unfolding decide_derisk_def Let_def
    by (rule rested_seq [OF check], rule sx_triple_if, rule sx_triple_bind [OF enter], rule tail, rule sx_triple_return, simp)
qed

lemma account_triple:
  assumes c: "codec_ok (cs_codec st)"
  shows "sx_triple (rested (cs_codec st) t l :: 'v cycle_world \<Rightarrow> bool) (reconcile_account st cl faults fallback now snapshot info foreign l)
     (\<lambda>y. rested (cs_codec st) t (fst y)) (\<lambda>_. unmoved (cs_codec st) t)"
  unfolding reconcile_account_def case_prod_beta
  by (rule sx_triple_if, rule rested_lift_seq, rule sx_triple_return, simp,
      rule sx_triple_bind [OF book_settled_triple [OF c]], rule sx_triple_bind [OF breaches_triple [OF c]], rule decide_triple [OF c])

text \<open>The state at the start of a cycle: a journal that loads, and a ledger read from disk.\<close>

definition at_start :: "text_codec \<Rightarrow> timestamp option \<Rightarrow> ledger_state \<Rightarrow> 'v cycle_world \<Rightarrow> bool" where
  "at_start c t l w \<longleftrightarrow> wal_ok c (wd_journal (cw_world w)) \<and> saved c l (ledger_of w) \<and> ls_last_executed_decision_time l = t"

lemma at_start_unmoved: "at_start c t l w \<Longrightarrow> unmoved c t w"
  unfolding at_start_def unmoved_def by blast

lemma load_journal_triple:
  "sx_triple (at_start c t l) (on_world (on_journal vc (\<lambda>clock. query_journal c clock g)))
     (\<lambda>y w. at_start c t l w \<and> synced c (wd_journal (cw_world w)) \<and> seq_ok (mem (cw_world w)) \<and> y = g (mem (cw_world w))) (\<lambda>_. unmoved c t)"
  unfolding sx_triple_def
proof (intro allI impI)
  fix w :: "'a cycle_world" assume w: "at_start c t l w"
  define now where "now = vc_now vc (wd_venue (cw_world w))"
  obtain j where j: "ensure_loaded c now (wd_journal (cw_world w)) = (Inr (), j)" "synced c j" "seq_ok (wal_mem j)"
    using wal_okE [of c "wd_journal (cw_world w)"] w unfolding at_start_def by blast
  have run: "query_journal c now g (wd_journal (cw_world w)) = (Inr (g (wal_mem j)), j)" using j(1) by (simp add: query_journal_def sx_defs)
  show "case on_world (on_journal vc (\<lambda>clock. query_journal c clock g)) w of (Inl e, u) \<Rightarrow> unmoved c t u
     | (Inr y, u) \<Rightarrow> at_start c t l u \<and> synced c (wd_journal (cw_world u)) \<and> seq_ok (mem (cw_world u)) \<and> y = g (mem (cw_world u))"
    using w wal_okI [OF j(2,3)] j(2,3) by (simp add: on_world_run on_journal_run run [unfolded now_def] at_start_def)
qed

lemma pre_trade_triple:
  assumes c: "codec_ok (cs_codec st)"
  shows "sx_triple (at_start (cs_codec st) t l :: 'v cycle_world \<Rightarrow> bool) (reconcile_pre_trade st cl faults d now snapshot info l)
     (\<lambda>pt. rested (cs_codec st) t (pt_ledger_state pt)) (\<lambda>_. unmoved (cs_codec st) t)"
  unfolding reconcile_pre_trade_def Let_def last_fill_seq_def
proof (rule sx_triple_bind [OF load_journal_triple])
  fix last_seq
  let ?P = "\<lambda>w :: 'v cycle_world. at_start (cs_codec st) t l w \<and> synced (cs_codec st) (wd_journal (cw_world w)) \<and> seq_ok (mem (cw_world w))
      \<and> last_seq = oj_next_fill_seq (mem (cw_world w)) - 1"
  let ?Q = "\<lambda>pt. rested (cs_codec st) t (pt_ledger_state pt)"
  have halt: "sx_triple ?P (sx_bind (notify_event e y) (\<lambda>_. sx_raise x)) ?Q (\<lambda>_. unmoved (cs_codec st) t)" for e y x
    unfolding notify_event_def
    by (rule sx_triple_bind [where R = "\<lambda>_. unmoved (cs_codec st) t"]) (auto intro!: sx_triple_modify sx_triple_raise dest: at_start_unmoved simp: unmoved_def)
  have frozen: "sx_triple (rested (cs_codec st) t l' :: 'v cycle_world \<Rightarrow> bool) (sx_bind (record_unresolved_orders xs) (\<lambda>frozen.
      sx_bind (reconcile_account st cl (snd faults) fb now snapshot info fs l') (\<lambda>(state, reasons). sx_return (g state reasons frozen))))
      ?Q (\<lambda>_. unmoved (cs_codec st) t)" if "\<And>a b f. pt_ledger_state (g a b f) = a" for l' xs fb fs g
    by (rule rested_seq [OF unresolved_rested], rule sx_triple_bind [OF account_triple [OF c]], unfold case_prod_beta, rule sx_triple_return, simp add: that)
  have commit: "sx_triple (standing (cs_codec st) t l :: 'v cycle_world \<Rightarrow> bool) (commit_cycle st (cl_orders cl) (fst faults) (plain_commit fb None) l)
      (rested (cs_codec st) t) (\<lambda>_. unmoved (cs_codec st) t)" for fb
    by (rule sx_conseq [OF plain_commit_triple [OF c]]) (auto dest: committed_rested)
  show "sx_triple ?P (if last_seq < ls_applied l
        then sx_bind (notify_event ''order_journal_regressed'' []) (\<lambda>_. sx_raise DataIntegrityError)
        else sx_bind (on_world (settle_orders st (cl_orders cl) now)) (\<lambda>(sweep, settlement).
             sx_bind (commit_cycle st (cl_orders cl) (fst faults) (plain_commit (cycle_fallback_attempt st d now) None) l) (\<lambda>state.
             sx_bind (record_unresolved_orders (os_unconfirmed sweep @ us_still_open settlement)) (\<lambda>frozen.
             sx_bind (reconcile_account st cl (snd faults) (cycle_fallback_attempt st d now) now snapshot info (os_foreign_symbols sweep) state) (\<lambda>(state, reasons).
               sx_return \<lparr>pt_ledger_state = state, pt_sweep = sweep, pt_derisk_reasons = reasons, pt_frozen_symbols = frozen\<rparr>)))))
      ?Q (\<lambda>_. unmoved (cs_codec st) t)"
  proof (rule sx_triple_if [OF halt], rule sx_pre [where P' = "standing (cs_codec st) t l"])
    show "sx_triple (standing (cs_codec st) t l :: 'v cycle_world \<Rightarrow> bool) (sx_bind (on_world (settle_orders st (cl_orders cl) now)) (\<lambda>(sweep, settlement).
             sx_bind (commit_cycle st (cl_orders cl) (fst faults) (plain_commit (cycle_fallback_attempt st d now) None) l) (\<lambda>state.
             sx_bind (record_unresolved_orders (os_unconfirmed sweep @ us_still_open settlement)) (\<lambda>frozen.
             sx_bind (reconcile_account st cl (snd faults) (cycle_fallback_attempt st d now) now snapshot info (os_foreign_symbols sweep) state) (\<lambda>(state, reasons).
               sx_return \<lparr>pt_ledger_state = state, pt_sweep = sweep, pt_derisk_reasons = reasons, pt_frozen_symbols = frozen\<rparr>)))))
      ?Q (\<lambda>_. unmoved (cs_codec st) t)"
      by (rule sx_triple_seq [OF standing_world [OF sound_settle [OF c]]], rule sx_triple_prod, rule sx_triple_bind [OF commit], rule frozen) simp
    fix s assume "\<not> last_seq < ls_applied l" "?P s"
    then show "standing (cs_codec st) t l s" by (auto simp: at_start_def standing_def sound_def)
  qed
qed

section \<open>What the reconciliation guarantees\<close>

text \<open>A symbol whose delivery the venue lists as past.\<close>

definition delivered :: "text_codec \<Rightarrow> payload \<Rightarrow> timestamp \<Rightarrow> string \<Rightarrow> bool" where
  "delivered c info now symbol = (case listing_entries c info of Inl _ \<Rightarrow> False
     | Inr entries \<Rightarrow> (case map_of entries symbol of None \<Rightarrow> False
         | Some entry \<Rightarrow> obj_get entry ''status'' \<in> JStr ` set DELISTED_SYMBOL_STATUSES
             \<and> (case py_int c (obj_get entry ''deliveryDate'') of Inl _ \<Rightarrow> False | Inr d \<Rightarrow> d \<le> now div 1000000)))"

lemma settled_delivered:
  assumes "settled_delisting_symbols c info vp lp now = Inr settled" "s \<in> set settled"
  shows "delivered c info now s \<and> dict_get vp s 0 = 0"
proof -
  from assms obtain entries where e: "listing_entries c info = Inr entries" and b: "settled_symbol c entries vp lp (now div 1000000) s = Inr True"
    by (auto simp: settled_symbols_Inr)
  have v: "dict_get vp s 0 = 0" using b by (simp add: settled_symbol_def split: if_splits)
  obtain entry where entry: "map_of entries s = Some entry" using b by (auto simp: settled_symbol_def split: if_splits option.splits)
  have status: "obj_get entry ''status'' \<in> JStr ` set DELISTED_SYMBOL_STATUSES" using b entry by (simp add: settled_symbol_def split: if_splits)
  have "(case obj_get entry ''deliveryDate'' of JNull \<Rightarrow> Inr False | v \<Rightarrow> rbind (py_int c v) (\<lambda>d. Inr (d \<le> now div 1000000))) = Inr True"
    using b entry status by (simp add: settled_symbol_def split: if_splits)
  then obtain d where "py_int c (obj_get entry ''deliveryDate'') = Inr d" "d \<le> now div 1000000"
    by (cases "obj_get entry ''deliveryDate''") (auto simp: rbind_eq_Inr)
  then show ?thesis using e entry status v by (simp add: delivered_def)
qed

lemma no_breach_found:
  assumes "find_position_breaches snapshot ledger RECONCILE_QTY_TOLERANCE_FRACTION settled = Inr []"
  shows "\<not> position_breached snapshot ledger RECONCILE_QTY_TOLERANCE_FRACTION settled s"
proof -
  have t: "0 \<le> RECONCILE_QTY_TOLERANCE_FRACTION" by (simp add: RECONCILE_QTY_TOLERANCE_FRACTION_def)
  have "reconcile_or_halt snapshot ledger RECONCILE_QTY_TOLERANCE_FRACTION settled = Inr ()" using assms by (simp add: reconcile_or_halt_def)
  then show ?thesis using reconcile_passes_iff [OF t] by blast
qed

lemma no_reasons_decided:
  assumes "decide_derisk st now breaches foreign l w = (Inr (l', []), w')"
  shows "breaches = []" "foreign = []" "l' = l" "ls_derisk_since l = None \<or> ls_derisk_reasons l = []"
proof -
  have none: "account_reasons breaches foreign = []"
  proof (rule ccontr)
    assume r: "account_reasons breaches foreign \<noteq> []"
    from assms obtain u where "(if account_reasons breaches foreign \<noteq> []
        then sx_bind (on_store (on_ledger (enter_derisk (cs_codec st) l (account_reasons breaches foreign) (Aware now)))) (\<lambda>state.
             sx_bind (cw_audit ''derisk_entered'' [] [] (if breaches \<noteq> [] \<and> \<not> cs_venue_force_close_auto_adopt st then ''force_close_auto_adopt=off'' else [])) (\<lambda>_.
               sx_return (state, sorted_set (ls_derisk_reasons state))))
        else sx_return (l, if ls_derisk_since l = None then [] else sorted_set (ls_derisk_reasons l))) u = (Inr (l', []), w')"
      unfolding decide_derisk_def Let_def sx_bind_Inr by blast
    with r obtain u' where "on_store (on_ledger (enter_derisk (cs_codec st) l (account_reasons breaches foreign) (Aware now))) u = (Inr l', u')"
      and e: "sorted_set (ls_derisk_reasons l') = []"
      unfolding if_P [OF r] sx_bind_Inr sx_pure_Inr by blast
    then obtain f f' where "enter_derisk (cs_codec st) l (account_reasons breaches foreign) (Aware now) f = (Inr l', f')"
      by (auto simp: on_store_run on_ledger_def split: prod.splits)
    from enter_derisk_state [OF this] obtain d where "l' = l\<lparr>ls_derisk_since := Some d, ls_derisk_reasons := sorted_set (ls_derisk_reasons l @ account_reasons breaches foreign)\<rparr>"
      by blast
    from arg_cong [OF this, of ls_derisk_reasons] have "ls_derisk_reasons l' = sorted_set (ls_derisk_reasons l @ account_reasons breaches foreign)" by simp
    then show False using e r by simp
  qed
  then show "breaches = []" "foreign = []" by (auto simp: account_reasons_def split: if_splits)
  then show "l' = l" "ls_derisk_since l = None \<or> ls_derisk_reasons l = []"
    using assms none by (auto simp: decide_derisk_def sx_bind_Inr Let_def split: if_splits)
qed

lemma remaining_checked:
  assumes "remaining_breaches st cl faults fallback now snapshot settled l w = (Inr (l', breaches), w')"
  shows "find_position_breaches snapshot (ls_positions l') RECONCILE_QTY_TOLERANCE_FRACTION settled = Inr breaches"
  using assms by (auto simp: remaining_breaches_def sx_bind_Inr split: if_splits)

text \<open>A journal shorter than the ledger stops the cycle before anything is asked of the venue.\<close>

lemma regressed_journal_halts:
  assumes "last_fill_seq (cs_codec st) (vc_now (cl_orders cl) (wd_venue (cw_world w))) (wd_journal (cw_world w)) = (Inr n, j)" and "n < ls_applied state"
  shows "reconcile_pre_trade st cl faults d now snapshot info state w
     = (Inl DataIntegrityError, w\<lparr>cw_world := (cw_world w)\<lparr>wd_journal := j\<rparr>, cw_alerts := cw_alerts w @ [(''order_journal_regressed'', [])]\<rparr>)"
  using assms by (simp add: reconcile_pre_trade_def Let_def sx_bind_def on_world_run on_journal_run notify_event_def sx_modify_def sx_raise_def)

text \<open>The symbols with an own order that is still open are withheld.\<close>

lemma dedupe_symbols: "set (dedupe_orders orders) \<subseteq> set orders" "uo_client_order_id ` set (dedupe_orders orders) = uo_client_order_id ` set orders"
proof -
  let ?f = "\<lambda>seen x. if uo_client_order_id x \<in> uo_client_order_id ` set seen then seen else seen @ [x]"
  have "set (foldl ?f acc orders) \<subseteq> set acc \<union> set orders \<and> uo_client_order_id ` set (foldl ?f acc orders) = uo_client_order_id ` (set acc \<union> set orders)" for acc
  proof (induction orders arbitrary: acc)
    case (Cons x xs)
    from Cons [of "?f acc x"] show ?case by (simp split: if_splits) blast+
  qed simp
  from this [of "[]"] show "set (dedupe_orders orders) \<subseteq> set orders" "uo_client_order_id ` set (dedupe_orders orders) = uo_client_order_id ` set orders"
    by (simp_all add: dedupe_orders_def)
qed

lemma frozen_symbols:
  assumes "record_unresolved_orders orders w = (Inr frozen, w')" shows "frozen = sorted_set (map uo_symbol (dedupe_orders orders))"
  using assms by (auto simp: record_unresolved_orders_def Let_def sx_bind_Inr sorted_set_def split: if_splits)

text \<open>
  C32: the account is traded without restriction only when venue and ledger agree.  If a cycle that may
  send orders comes out of the reconciliation without a de-risk reason, then the venue shows no open
  order of anybody else, no de-risk reason of an earlier cycle is left in the ledger, and the
  quantity in the ledger, with every fill of the journal, every settled delisting and every adopted force
  close booked, is within tolerance of the quantity in the snapshot, for every symbol but those that
  the venue has delivered and holds flat.
\<close>

theorem trading_resumes_only_on_agreement:
  assumes "\<not> suppresses_mutations (cs_mode st)"
    and "reconcile_pre_trade st cl faults d now snapshot info state w = (Inr pt, w')" and "pt_derisk_reasons pt = []"
  shows "os_foreign_symbols (pt_sweep pt) = []
    \<and> (ls_derisk_since (pt_ledger_state pt) = None \<or> ls_derisk_reasons (pt_ledger_state pt) = [])
    \<and> (\<forall>s. \<not> position_breached snapshot (ls_positions (pt_ledger_state pt)) RECONCILE_QTY_TOLERANCE_FRACTION [] s
          \<or> delivered (cs_codec st) info now s \<and> dict_get (as_positions snapshot) s 0 = 0)"
proof -
  from assms(2,3) obtain sweep l0 fb u u' where "reconcile_account st cl (snd faults) fb now snapshot info (os_foreign_symbols sweep) l0 u = (Inr (pt_ledger_state pt, []), u')"
    and sweep: "pt_sweep pt = sweep"
    by (auto simp: reconcile_pre_trade_def Let_def sx_bind_Inr split: if_splits)
  then obtain l1 settled l2 breaches u1 u2 where s: "book_settled st snapshot info now l0 u = (Inr (l1, settled), u1)"
    and b: "remaining_breaches st cl (snd faults) fb now snapshot settled l1 u1 = (Inr (l2, breaches), u2)"
    and d: "decide_derisk st now breaches (os_foreign_symbols sweep) l2 u2 = (Inr (pt_ledger_state pt, []), u')"
    using assms(1) by (auto simp: reconcile_account_def sx_bind_Inr)
  note none = no_reasons_decided [OF d]
  from s have settled: "settled_delisting_symbols (cs_codec st) info (as_positions snapshot) (ls_positions l0) now = Inr settled"
    by (auto simp: book_settled_def sx_bind_Inr split: if_splits)
  have within: "\<not> position_breached snapshot (ls_positions l2) RECONCILE_QTY_TOLERANCE_FRACTION settled x" for x
    using no_breach_found remaining_checked [OF b] none(1) by simp
  show ?thesis
  proof (intro conjI allI)
    show "os_foreign_symbols (pt_sweep pt) = []" using none(2) sweep by simp
    show "ls_derisk_since (pt_ledger_state pt) = None \<or> ls_derisk_reasons (pt_ledger_state pt) = []" using none(3,4) by simp
    fix x
    show "\<not> position_breached snapshot (ls_positions (pt_ledger_state pt)) RECONCILE_QTY_TOLERANCE_FRACTION [] x
          \<or> delivered (cs_codec st) info now x \<and> dict_get (as_positions snapshot) x 0 = 0"
      using within [of x] settled_delivered [OF settled, of x] none(3) by (auto simp: position_breached_def Let_def)
  qed
qed

text \<open>
  The ledger that the cycle trades on is complete and durable.  From a journal that any history has
  left and a ledger read from disk, the reconciliation returns a ledger with every fill of the journal
  booked, also those it has just recovered from the venue, and a restart would read that ledger; and
  however it ends, the last executed decision on disk is the one it started from, so that a halted
  cycle can be tried again.
\<close>

theorem pre_trade_ledger_complete:
  assumes "codec_ok (cs_codec st)" and "journal_reach (cs_codec st) (wd_journal (cw_world w))" and "saved (cs_codec st) state (ledger_of w)"
    and "reconcile_pre_trade st cl faults d now snapshot info state w = (r, w')"
  shows "(\<exists>l. saved (cs_codec st) l (ledger_of w') \<and> ls_last_executed_decision_time l = ls_last_executed_decision_time state)
    \<and> (\<forall>pt. r = Inr pt \<longrightarrow> saved (cs_codec st) (pt_ledger_state pt) (ledger_of w')
         \<and> ls_applied (pt_ledger_state pt) = int (length (oj_fills (mem (cw_world w')))) - 1)"
proof -
  have start: "at_start (cs_codec st) (ls_last_executed_decision_time state) state w"
    using assms(3) journal_reach_ok [OF assms(1,2)] by (simp add: at_start_def)
  note triple = pre_trade_triple [OF assms(1), of "ls_last_executed_decision_time state" state cl faults d now snapshot info]
  show ?thesis
  proof (cases r)
    case (Inl e)
    with sx_tripleD_Inl [OF triple start] assms(4) show ?thesis by (auto simp: unmoved_def)
  next
    case (Inr pt)
    with sx_tripleD_Inr [OF triple start] assms(4) have end_: "rested (cs_codec st) (ls_last_executed_decision_time state) (pt_ledger_state pt) w'" by blast
    then have "seq_ok (mem (cw_world w'))" by (auto simp: rested_def standing_def sound_def)
    with end_ rested_unmoved [OF end_] Inr next_fill_length show ?thesis
      by (auto simp: rested_def standing_def caught_up_def unmoved_def)
  qed
qed

section \<open>A reconciliation that finds nothing\<close>

definition example_settings :: cycle_settings where
  "example_settings = \<lparr>cs_record = paper_options\<lparr>ro_mode := LIVE_MAINNET\<rparr>, cs_day = (\<lambda>_. ''20240101''), cs_taker_fee_bps = 4,
     cs_order_identity_tolerance_ms = 1000, cs_journal_recovery_lookback = 0, cs_venue_force_close_lookback = 0,
     cs_venue_force_close_auto_adopt = True, cs_derisk_mode_enabled = True\<rparr>"

definition quiet_client :: "unit cycle_client" where
  "quiet_client = \<lparr>cl_orders = \<lparr>vc_cancel = (\<lambda>_ _ v. (Inr (), v)), vc_query = (\<lambda>_ _ v. (Inr [], v)), vc_open_orders = (\<lambda>v. (Inr [], v)),
     vc_now = (\<lambda>_. 0), vc_clock_offset_margin_ms = 0, vc_suppressed = False\<rparr>, cl_force_orders = (\<lambda>_ _ v. (Inr (JArr []), v))\<rparr>"

definition held_ledger :: ledger_state where "held_ledger = empty_ledger\<lparr>ls_positions := [(''BTCUSDT'', 1)]\<rparr>"

definition held_snapshot :: account_snapshot where
  "held_snapshot = (synthetic_flat_snapshot (Aware 0))\<lparr>as_positions := [(''BTCUSDT'', 1)]\<rparr>"

definition held_world :: "unit cycle_world" where
  "held_world = \<lparr>cw_world = \<lparr>wd_journal = open_journal None, wd_venue = (), wd_audit = []\<rparr>,
     cw_store = \<lparr>es_ledger = Document (ledger_json plain_codec held_ledger), es_fills = [], es_tax = []\<rparr>, cw_alerts = []\<rparr>"

lemma example_codec [simp]: "cs_codec example_settings = plain_codec" "cs_mode example_settings = LIVE_MAINNET"
  by (simp_all add: example_settings_def paper_options_def)

lemma example_agrees: "find_position_breaches held_snapshot (ls_positions held_ledger) RECONCILE_QTY_TOLERANCE_FRACTION [] = Inr []"
proof -
  have "\<not> position_breached held_snapshot (ls_positions held_ledger) RECONCILE_QTY_TOLERANCE_FRACTION [] s" for s
  proof -
    have "dict_get (as_positions held_snapshot) s 0 = dict_get (ls_positions held_ledger) s 0" by (simp add: held_snapshot_def held_ledger_def)
    then show ?thesis by (simp add: position_breached_def Let_def RECONCILE_QTY_TOLERANCE_FRACTION_def d28.rnd_0)
  qed
  then show ?thesis by (simp add: find_position_breaches_def RECONCILE_QTY_TOLERANCE_FRACTION_def filter_empty_conv)
qed

definition empty_listing :: payload where "empty_listing = [(''symbols'', JArr [])]"

lemma example_pre_trade:
  "\<exists>w'. reconcile_pre_trade example_settings quiet_client (no_faults, no_faults) 0 0 held_snapshot empty_listing held_ledger held_world
     = (Inr \<lparr>pt_ledger_state = held_ledger, pt_sweep = \<lparr>os_fills = [], os_foreign_symbols = [], os_unconfirmed = []\<rparr>,
          pt_derisk_reasons = [], pt_frozen_symbols = []\<rparr>, w')"
proof -
  let ?j = "\<lparr>wal_file = None, wal_mem = empty_journal, wal_loaded = True\<rparr>"
  have empty: "oj_submits empty_journal = []" "oj_fills empty_journal = []" "oj_next_fill_seq empty_journal = 0" by (simp_all add: empty_journal_def)
  have load: "query_journal plain_codec n g (open_journal None) = (Inr (g empty_journal), ?j)" for n and g :: "order_journal \<Rightarrow> 'y"
    by (simp add: query_journal_def ensure_loaded_def open_journal_def sx_defs)
  have again: "query_journal plain_codec n g ?j = (Inr (g empty_journal), ?j)" for n and g :: "order_journal \<Rightarrow> 'y"
    by (simp add: query_journal_def ensure_loaded_def sx_defs)
  let ?w = "\<lparr>wd_journal = ?j, wd_venue = (), wd_audit = []\<rparr>"
  let ?s = "\<lparr>os_fills = [], os_foreign_symbols = [], os_unconfirmed = []\<rparr>"
  have settle: "settle_orders example_settings (cl_orders quiet_client) 0 ?w
      = (Inr (?s, \<lparr>us_recovered = [], us_resolved_ids = [], us_still_open = []\<rparr>), ?w)"
    by (simp add: settle_orders_def cancel_orphan_orders_def recover_unresolved_orders_def settle_unresolved_orders_def sx_bind_def sx_return_def
        submits_def unresolved_submits_def on_journal_run on_venue_run again quiet_client_def unresolved_mem_def empty empty_report_def)
  have commit: "commit_cycle example_settings (cl_orders quiet_client) no_faults (plain_commit fb None) held_ledger w = (Inr held_ledger, w)"
    if "cw_world w = ?w" for fb w
  proof -
    have "w\<lparr>cw_world := ?w\<rparr> = w" using that by (metis cycle_world.surjective cycle_world.update_convs(1) cycle_world.select_convs(1))
    then show ?thesis using that by (simp add: commit_cycle_def sx_bind_def on_world_run on_store_run on_journal_run again plain_commit_def commit_and_record_def
        commit_fills_def record_fills_def touch_ledger_def on_ledger_def fills_after_mem_def empty sx_return_def Let_def)
  qed
  have held: "ls_positions held_ledger = [(''BTCUSDT'', 1)]" "ls_derisk_since held_ledger = None" "ls_applied held_ledger = - 1" "as_positions held_snapshot = [(''BTCUSDT'', 1)]"
    by (simp_all add: held_ledger_def empty_ledger_def held_snapshot_def)
  have settled: "settled_delisting_symbols plain_codec empty_listing [(''BTCUSDT'', 1)] [(''BTCUSDT'', 1)] 0 = Inr []"
    by (simp add: settled_delisting_symbols_def listing_entries_def settled_symbol_def empty_listing_def dict_get_def)
  have schedule: "parse_delivery_schedule plain_codec empty_listing = Inr []" by (simp add: parse_delivery_schedule_def required_def empty_listing_def)
  have account: "reconcile_account example_settings quiet_client no_faults fb 0 held_snapshot empty_listing [] held_ledger w = (Inr (held_ledger, []), w)" for fb w
    using example_agrees
    by (simp add: reconcile_account_def suppresses_mutations_def book_settled_def remaining_breaches_def decide_derisk_def account_reasons_def sx_bind_def sx_lift_def sx_return_def
        settled schedule book_delisting_settlements_def book_live_def tz_aware_simps held)
  have now: "vc_now (cl_orders quiet_client) v = 0" for v by (simp add: quiet_client_def)
  show ?thesis
    by (simp add: reconcile_pre_trade_def sx_bind_def on_world_run on_journal_run last_fill_seq_def load now empty held held_world_def settle commit account
        record_unresolved_orders_def dedupe_orders_def sx_return_def Let_def)
qed

theorem trading_resumes_only_on_agreement_witness:
  "\<exists>pt w'. reconcile_pre_trade example_settings quiet_client (no_faults, no_faults) 0 0 held_snapshot empty_listing held_ledger held_world = (Inr pt, w')
     \<and> pt_derisk_reasons pt = [] \<and> os_foreign_symbols (pt_sweep pt) = []
     \<and> \<not> position_breached held_snapshot (ls_positions (pt_ledger_state pt)) RECONCILE_QTY_TOLERANCE_FRACTION [] ''BTCUSDT''"
proof -
  obtain w' where run: "reconcile_pre_trade example_settings quiet_client (no_faults, no_faults) 0 0 held_snapshot empty_listing held_ledger held_world
     = (Inr \<lparr>pt_ledger_state = held_ledger, pt_sweep = \<lparr>os_fills = [], os_foreign_symbols = [], os_unconfirmed = []\<rparr>,
          pt_derisk_reasons = [], pt_frozen_symbols = []\<rparr>, w')"
    using example_pre_trade by blast
  have mode: "\<not> suppresses_mutations (cs_mode example_settings)" by (simp add: suppresses_mutations_def)
  have flat: "dict_get (as_positions held_snapshot) ''BTCUSDT'' 0 \<noteq> 0" by (simp add: held_snapshot_def dict_get_def)
  from trading_resumes_only_on_agreement [OF mode run] run flat show ?thesis by auto
qed

theorem pre_trade_ledger_complete_witness:
  "\<exists>pt w'. reconcile_pre_trade example_settings quiet_client (no_faults, no_faults) 0 0 held_snapshot empty_listing held_ledger held_world = (Inr pt, w')
     \<and> saved plain_codec (pt_ledger_state pt) (ledger_of w') \<and> ls_applied (pt_ledger_state pt) = int (length (oj_fills (mem (cw_world w')))) - 1"
proof -
  obtain pt w' where run: "reconcile_pre_trade example_settings quiet_client (no_faults, no_faults) 0 0 held_snapshot empty_listing held_ledger held_world = (Inr pt, w')"
    using example_pre_trade by blast
  have c: "codec_ok (cs_codec example_settings)" "journal_reach (cs_codec example_settings) (wd_journal (cw_world held_world))"
    by (simp_all add: plain_codec_ok held_world_def journal_reach.intros)
  have "ledger_ok held_ledger" by (simp add: held_ledger_def empty_ledger_def ledger_ok_def)
  then have s: "saved (cs_codec example_settings) held_ledger (ledger_of held_world)" by (simp add: held_world_def saved_document plain_codec_ok)
  from pre_trade_ledger_complete [OF c s run] run show ?thesis by auto
qed

end
