(* ===== verification/Paper_Settlement.thy ===== *)
theory Paper_Settlement
  imports Pre_Trade
begin

text \<open>
  The simulated postings of a suppressed-mode cycle: \<open>_settle_paper_funding_and_delistings\<close> of
  \<open>src/live/runner.py\<close> with the funding accrual, the settlement of delisted holdings and the lag check it
  calls there, and \<open>settlement_evidence_from_bars\<close> of \<open>src/core/settlement_evidence.py\<close>.

  The price archives are arguments: the funding rates and trade closes of each symbol, and the hourly bars
  with rows that are not numbers left out.  \<open>pi_decimal_of\<close> is \<open>Decimal(str(x))\<close> of a float and
  \<open>pi_ms_of\<close> the epoch in milliseconds of a record id.

  Proved here: a paper position is closed only on evidence, no delisted holding survives the settlement, and
  every change of the paper cash has a record in the tax ledger.
\<close>

section \<open>Settlement evidence\<close>

record hourly_bar =
  hb_ms :: int
  hb_open :: rat
  hb_high :: rat
  hb_low :: rat
  hb_close :: rat
  hb_volume :: rat

definition MS_PER_HOUR :: int where "MS_PER_HOUR = 3600000"

definition settlement_evidence_from_bars ::
    "(rat \<Rightarrow> decimal) \<Rightarrow> int \<Rightarrow> rat \<Rightarrow> timestamp \<Rightarrow> hourly_bar list res \<Rightarrow> settlement_evidence option res" where
  "settlement_evidence_from_bars decimal_of min_flat_bars price_rtol delivery bars =
     (if min_flat_bars < 1 then Inl DataIntegrityError
      else rbind bars (\<lambda>frame.
        let post = filter (\<lambda>b. delivery div 1000000 \<le> hb_ms b) (sort_key hb_ms frame); ref = hb_close (hd post);
            proven = Inr (Some \<lparr>se_delivery_time = Aware delivery, se_price = decimal_of ref\<rparr>)
        in if int (length post) < min_flat_bars then Inr None
           else if list_ex (\<lambda>d. d \<noteq> MS_PER_HOUR) (diffs (map hb_ms post)) then Inr None
           else if list_ex (\<lambda>b. hb_volume b \<noteq> 0) post then Inr None
           else if list_ex (\<lambda>b. hb_open b \<noteq> hb_high b \<or> hb_high b \<noteq> hb_low b \<or> hb_low b \<noteq> hb_close b) post then Inr None
           else if ref = 0 then (if list_ex (\<lambda>b. hb_close b \<noteq> 0) post then Inr None else proven)
           else rbind (fdiv (Max (set (map (\<lambda>b. \<bar>fsub (hb_close b) ref\<bar>) post))) \<bar>ref\<bar>) (\<lambda>x.
                  if price_rtol < x then Inr None else proven)))"

section \<open>Operations\<close>

record paper_inputs =
  pi_funding :: "(string, series) dict"
  pi_closes :: "(string, series) dict"
  pi_bars :: "string \<Rightarrow> hourly_bar list res"
  pi_decimal_of :: "rat \<Rightarrow> decimal"
  pi_ms_of :: "timestamp \<Rightarrow> int"
  pi_run_id :: string
  pi_min_flat_bars :: int
  pi_price_rtol :: rat
  pi_fee_bps :: decimal

definition PAPER_FUNDING_LAG_HALT :: int where "PAPER_FUNDING_LAG_HALT = 24 * HOUR"

definition PAPER_FUNDING_LAG_GRACE :: int where "PAPER_FUNDING_LAG_GRACE = HOUR"

definition append_paper_records :: "cycle_settings \<Rightarrow> tax_record list \<Rightarrow> ('v cycle_world, unit) sx" where
  "append_paper_records st records =
     sx_bind (on_store (on_tax (append_tax_records (cs_codec st) (ro_fixed (cs_record st)) (ro_month (cs_record st)) records))) (\<lambda>_. sx_return ())"

text \<open>The history starts with the holdings of a ledger that has none.\<close>

definition accrual_start :: "timestamp \<Rightarrow> ledger_state \<Rightarrow> (position_snapshot list \<times> timestamp option) res" where
  "accrual_start now l =
     (let held = filter (\<lambda>(_, q). q \<noteq> 0) (ls_positions l);
          bootstrap_at = (case ls_funding_accrued_through l of None \<Rightarrow> now | Some t \<Rightarrow> t)
      in if ls_position_history l = [] \<and> held \<noteq> []
         then rbind (append_position_snapshot [] (Aware bootstrap_at) held []) (\<lambda>history.
              Inr (history, Some (case ls_funding_accrual_started_at l of None \<Rightarrow> bootstrap_at | Some t \<Rightarrow> t)))
         else Inr (ls_position_history l, ls_funding_accrual_started_at l))"

definition accrue_ledger_funding ::
    "cycle_settings \<Rightarrow> paper_inputs \<Rightarrow> timestamp \<Rightarrow> (string, timestamp) dict \<Rightarrow> ledger_state
     \<Rightarrow> ('v cycle_world, ledger_state \<times> funding_accrual \<times> tax_record list) sx" where
  "accrue_ledger_funding st inp now closed_at l =
     sx_bind (sx_lift (accrual_start now l)) (\<lambda>(history, started_at).
       let symbols = map fst (filter (\<lambda>(_, q). q \<noteq> 0) (ls_positions l)) @ map fst (ls_funding_watermarks l);
           loaded = (\<lambda>d. filter (\<lambda>(s, _). s \<in> set symbols) d)
       in sx_bind (sx_lift (accrue_funding_by_watermark history (ls_funding_watermarks l)
              \<lparr>ai_funding = loaded (pi_funding inp), ai_closes = loaded (pi_closes inp), ai_closed = closed_at\<rparr> (Aware now))) (\<lambda>accrual.
            let records = funding_tax_records (pi_ms_of inp) (pi_run_id inp) (mode_value (cs_mode st)) (fa_events accrual);
                updated = l\<lparr>ls_cash_usdt := map_option (\<lambda>cash. dadd cash (fa_cash_delta accrual)) (ls_cash_usdt l),
                  ls_funding_accrued_through := Some now, ls_funding_accrual_started_at := started_at,
                  ls_funding_watermarks := fa_watermarks accrual, ls_position_history := history\<rparr>
            in if fa_cash_delta accrual \<noteq> 0 \<and> ls_cash_usdt l = None then sx_raise DataIntegrityError
               else sx_bind (sx_when (fa_events accrual \<noteq> []) (append_paper_records st records)) (\<lambda>_.
                    sx_bind (on_store (on_ledger (save_ledger (cs_codec st) updated))) (\<lambda>_.
                      sx_return (updated, accrual, records)))))"

definition delisted_held_symbols ::
    "text_codec \<Rightarrow> (string, decimal) dict \<Rightarrow> payload \<Rightarrow> timestamp \<Rightarrow> (string, timestamp) dict res" where
  "delisted_held_symbols c positions exchange_info now =
     rbind (parse_delivery_schedule c exchange_info) (\<lambda>schedule.
       Inr (fold (\<lambda>(symbol, qty) delisted. case map_of schedule symbol of None \<Rightarrow> delisted
            | Some info \<Rightarrow> (case di_delivery_time info of None \<Rightarrow> delisted
                | Some t \<Rightarrow> if qty \<noteq> 0 \<and> is_delisted info now then AList.update symbol t delisted else delisted)) positions []))"

text \<open>A delisting announcement is no settlement: a holding without evidence stops the cycle.\<close>

definition settle_delisted_paper_positions :: "(string, timestamp) dict \<Rightarrow> ledger_state \<Rightarrow> ('v cycle_world, ledger_state) sx" where
  "settle_delisted_paper_positions delisted l =
     (let held = filter (\<lambda>s. dict_get (ls_positions l) s 0 \<noteq> 0) (sort (map fst delisted)) in
      if held = [] then sx_return l
      else sx_bind (sx_foldM (\<lambda>s _. cw_audit ''paper_delisted_unresolved'' s [] ''delisting_announcement_is_not_settlement'') held ()) (\<lambda>_.
           sx_bind (notify_event ''paper_delisted_unresolved'' []) (\<lambda>_. sx_raise DataIntegrityError)))"

definition enforce_funding_lag :: "funding_accrual \<Rightarrow> ('v cycle_world, unit) sx" where
  "enforce_funding_lag accrual =
     (let exceeded = filter (\<lambda>(_, lag). PAPER_FUNDING_LAG_HALT < lag) (fa_lag_by_symbol accrual) in
      if exceeded \<noteq> [] then sx_raise DataIntegrityError
      else sx_bind (sx_lift (rmap (\<lambda>(s, lag). case map_of (fa_interval_by_symbol accrual) s of None \<Rightarrow> Inl KeyError
               | Some i \<Rightarrow> Inr (2 * i + PAPER_FUNDING_LAG_GRACE < lag)) (fa_lag_by_symbol accrual))) (\<lambda>late.
           sx_when (True \<in> set late) (notify_event ''paper_funding_lag'' [])))"

text \<open>Evidence for each delisted symbol; an unreadable archive is no evidence.\<close>

definition proven_settlements :: "paper_inputs \<Rightarrow> (string, timestamp) dict \<Rightarrow> (string, settlement_evidence) dict res" where
  "proven_settlements inp delisted =
     rfold (\<lambda>(symbol, delivery) proven.
        case settlement_evidence_from_bars (pi_decimal_of inp) (pi_min_flat_bars inp) (pi_price_rtol inp) delivery (pi_bars inp symbol) of
          Inl e \<Rightarrow> if e = DataIntegrityError then Inr proven else Inl e
        | Inr None \<Rightarrow> Inr proven
        | Inr (Some e) \<Rightarrow> Inr (AList.update symbol e proven)) delisted []"

definition settle_delisted ::
    "cycle_settings \<Rightarrow> paper_inputs \<Rightarrow> payload \<Rightarrow> timestamp \<Rightarrow> (string, timestamp) dict \<Rightarrow> ledger_state
     \<Rightarrow> ('v cycle_world, ledger_state \<times> tax_record list) sx" where
  "settle_delisted st inp exchange_info now delisted l =
     sx_bind (sx_lift (proven_settlements inp delisted)) (\<lambda>proven.
     sx_bind (sx_lift (book_delisting_settlements (cs_codec st) (cs_mode st) exchange_info [] proven (pi_fee_bps inp) (Aware now) l)) (\<lambda>(l, booked).
       let records = delisting_settlement_tax_records booked (mode_value (cs_mode st)) in
       sx_bind (if booked = [] then sx_return ()
                else sx_bind (sx_when (records \<noteq> []) (append_paper_records st records)) (\<lambda>_.
                     sx_bind (on_store (on_ledger (save_ledger (cs_codec st) l))) (\<lambda>_. record_delisting_settlements booked))) (\<lambda>_.
         let unresolved = filter (\<lambda>(s, _). dict_get (ls_positions l) s 0 \<noteq> 0) delisted in
         sx_bind (if unresolved = [] then sx_return l else settle_delisted_paper_positions unresolved l) (\<lambda>l.
           sx_return (l, if booked = [] then [] else records)))))"

record paper_settlement =
  px_ledger_state :: ledger_state
  px_cash_before :: "decimal option"
  px_funding_records :: "tax_record list"
  px_settlement_records :: "tax_record list"

definition settle_paper ::
    "cycle_settings \<Rightarrow> paper_inputs \<Rightarrow> payload \<Rightarrow> timestamp \<Rightarrow> ledger_state \<Rightarrow> ('v cycle_world, paper_settlement) sx" where
  "settle_paper st inp exchange_info now l =
     sx_bind (sx_lift (held_symbols_absent_from_exchange (cs_codec st) (ls_positions l) exchange_info)) (\<lambda>absent.
       if absent \<noteq> []
       then sx_bind (cw_audit ''held_symbol_absent'' (concat absent) [] []) (\<lambda>_. sx_raise DataIntegrityError)
       else sx_bind (sx_lift (delisted_held_symbols (cs_codec st) (ls_positions l) exchange_info now)) (\<lambda>delisted.
            sx_bind (accrue_ledger_funding st inp now delisted l) (\<lambda>(l', accrual, funding_records).
            sx_bind (if delisted = [] then sx_return (l', []) else settle_delisted st inp exchange_info now delisted l') (\<lambda>(l'', settlement_records).
            sx_bind (enforce_funding_lag accrual) (\<lambda>_.
              sx_return \<lparr>px_ledger_state = l'', px_cash_before = ls_cash_usdt l, px_funding_records = funding_records,
                px_settlement_records = settlement_records\<rparr>)))))"

section \<open>The ledger stays the one on disk\<close>

lemma rested_records: "sx_triple (rested c t l :: 'v cycle_world \<Rightarrow> bool) (append_paper_records st records) (\<lambda>_. rested c t l) (\<lambda>_. unmoved c t)"
proof -
  have "sx_triple (rested c t l :: 'v cycle_world \<Rightarrow> bool) (on_store (on_tax m)) (\<lambda>_. rested c t l) (\<lambda>_. unmoved c t)" for m :: "(tax_dir, 'y) sx"
    unfolding sx_triple_def
  proof (intro allI impI)
    fix w :: "'v cycle_world" assume w: "rested c t l w"
    obtain r d where m: "m (es_tax (cw_store w)) = (r, d)" by fastforce
    have "rested c t l (w\<lparr>cw_store := (cw_store w)\<lparr>es_tax := d\<rparr>\<rparr>)" using w by (auto simp: rested_def standing_def caught_up_def)
    then show "case on_store (on_tax m) w of (Inl e, u) \<Rightarrow> unmoved c t u | (Inr x, u) \<Rightarrow> rested c t l u"
      using m rested_unmoved by (auto simp: on_store_run on_tax_def split: sum.split)
  qed
  then show ?thesis unfolding append_paper_records_def by (intro rested_seq rested_return)
qed

lemma rested_when: "(b \<Longrightarrow> sx_triple (rested c t l) m (\<lambda>_. rested c t l) E) \<Longrightarrow> sx_triple (rested c t l) (sx_when b m) (\<lambda>_. rested c t l) E"
  by (rule sx_triple_when)

lemma rested_raise: "sx_triple (rested c t l) (sx_raise e) Q (\<lambda>_. unmoved c t)"
  by (rule sx_triple_raise) (rule rested_unmoved)

text \<open>Saving a ledger that agrees with the old one on watermarks and stamp.\<close>

lemma rested_replace:
  assumes "codec_ok c" "ls_applied l' = ls_applied l" "ls_recorded l' = ls_recorded l" "ls_last_executed_decision_time l' = ls_last_executed_decision_time l"
  shows "sx_triple (rested c t l :: 'v cycle_world \<Rightarrow> bool) (on_store (on_ledger (save_ledger c l'))) (\<lambda>_. rested c t l') (\<lambda>_. unmoved c t)"
proof (rule sx_triple_pre_ex)
  fix s0 :: "'v cycle_world" assume "rested c t l s0"
  then have "ledger_ok l" by (auto simp: rested_def standing_def saved_def)
  then have "ledger_ok l'" using assms(2,3) by (simp add: ledger_ok_def)
  then show "sx_triple (rested c t l :: 'v cycle_world \<Rightarrow> bool) (on_store (on_ledger (save_ledger c l'))) (\<lambda>_. rested c t l') (\<lambda>_. unmoved c t)"
    by (intro rested_save assms(1,2,4))
qed

lemma accrue_triple:
  assumes c: "codec_ok (cs_codec st)"
  shows "sx_triple (rested (cs_codec st) t l) (accrue_ledger_funding st inp now ends l) (\<lambda>y. rested (cs_codec st) t (fst y)) (\<lambda>_. unmoved (cs_codec st) t)"
  unfolding accrue_ledger_funding_def Let_def
proof (rule rested_lift_seq, rule sx_triple_prod, rule rested_lift_seq, rule sx_triple_if [OF rested_raise], rule rested_seq [OF rested_when [OF rested_records]],
    rule sx_triple_bind [OF rested_replace [OF c]])
qed (auto intro: sx_triple_return)

lemma settle_delisted_triple:
  assumes c: "codec_ok (cs_codec st)"
  shows "sx_triple (rested (cs_codec st) t l :: 'v cycle_world \<Rightarrow> bool) (settle_delisted st inp info now delisted l) (\<lambda>y. rested (cs_codec st) t (fst y)) (\<lambda>_. unmoved (cs_codec st) t)"
  unfolding settle_delisted_def Let_def
proof (rule rested_lift_seq, rule rested_lift_seq)
  fix proven y
  assume y: "book_delisting_settlements (cs_codec st) (cs_mode st) info [] proven (pi_fee_bps inp) (Aware now) l = Inr y"
  obtain l' booked where l': "y = (l', booked)" by (cases y)
  note frame = book_frame [OF y [unfolded l']]
  let ?r = "delisting_settlement_tax_records booked (mode_value (cs_mode st))"
  let ?u = "filter (\<lambda>(s, _). dict_get (ls_positions l') s 0 \<noteq> 0) delisted"
  have book: "sx_triple (rested (cs_codec st) t l :: 'v cycle_world \<Rightarrow> bool) (if booked = [] then sx_return ()
      else sx_bind (sx_when (?r \<noteq> []) (append_paper_records st ?r)) (\<lambda>_.
           sx_bind (on_store (on_ledger (save_ledger (cs_codec st) l'))) (\<lambda>_. record_delisting_settlements booked)))
      (\<lambda>_. rested (cs_codec st) t l') (\<lambda>_. unmoved (cs_codec st) t)"
  proof (rule sx_triple_if)
    assume "booked = []"
    then show "sx_triple (rested (cs_codec st) t l :: 'v cycle_world \<Rightarrow> bool) (sx_return ()) (\<lambda>_. rested (cs_codec st) t l') (\<lambda>_. unmoved (cs_codec st) t)"
      using frame rested_return by simp
  next
    have records: "sx_triple (rested (cs_codec st) t l' :: 'v cycle_world \<Rightarrow> bool) (record_delisting_settlements booked) (\<lambda>_. rested (cs_codec st) t l') (\<lambda>_. unmoved (cs_codec st) t)"
      unfolding record_delisting_settlements_def by (rule rested_fold [OF rested_seq [OF rested_audit rested_alert]])
    have keep: "ls_applied l' = ls_applied l" "ls_recorded l' = ls_recorded l" "ls_last_executed_decision_time l' = ls_last_executed_decision_time l"
      using frame by auto
    show "sx_triple (rested (cs_codec st) t l :: 'v cycle_world \<Rightarrow> bool) (sx_bind (sx_when (?r \<noteq> []) (append_paper_records st ?r)) (\<lambda>_.
           sx_bind (on_store (on_ledger (save_ledger (cs_codec st) l'))) (\<lambda>_. record_delisting_settlements booked)))
      (\<lambda>_. rested (cs_codec st) t l') (\<lambda>_. unmoved (cs_codec st) t)"
      by (rule rested_seq [OF rested_when [OF rested_records]], rule sx_triple_bind [OF rested_replace [OF c keep] records])
  qed
  have resolve: "sx_triple (rested (cs_codec st) t l' :: 'v cycle_world \<Rightarrow> bool) (if ?u = [] then sx_return l' else settle_delisted_paper_positions ?u l')
      (\<lambda>y w. rested (cs_codec st) t l' w \<and> y = l') (\<lambda>_. unmoved (cs_codec st) t)"
    unfolding settle_delisted_paper_positions_def Let_def
    by (rule sx_triple_if, rule sx_triple_return, simp, rule sx_triple_if, rule sx_triple_return, simp,
        rule rested_seq [OF rested_fold [OF rested_audit]], rule rested_seq [OF rested_alert rested_raise])
  show "sx_triple (rested (cs_codec st) t l :: 'v cycle_world \<Rightarrow> bool) (case y of (l, booked) \<Rightarrow>
       sx_bind (if booked = [] then sx_return ()
                else sx_bind (sx_when (delisting_settlement_tax_records booked (mode_value (cs_mode st)) \<noteq> []) (append_paper_records st (delisting_settlement_tax_records booked (mode_value (cs_mode st))))) (\<lambda>_.
                     sx_bind (on_store (on_ledger (save_ledger (cs_codec st) l))) (\<lambda>_. record_delisting_settlements booked))) (\<lambda>_.
         sx_bind (if filter (\<lambda>(s, _). dict_get (ls_positions l) s 0 \<noteq> 0) delisted = [] then sx_return l
                  else settle_delisted_paper_positions (filter (\<lambda>(s, _). dict_get (ls_positions l) s 0 \<noteq> 0) delisted) l) (\<lambda>l.
           sx_return (l, if booked = [] then [] else delisting_settlement_tax_records booked (mode_value (cs_mode st))))))
      (\<lambda>y. rested (cs_codec st) t (fst y)) (\<lambda>_. unmoved (cs_codec st) t)"
    unfolding l' prod.case
    by (rule sx_triple_bind [OF book], rule sx_triple_bind [OF resolve], rule sx_triple_pre_fact, rule sx_triple_return, simp)
qed

lemma settle_paper_triple:
  assumes c: "codec_ok (cs_codec st)"
  shows "sx_triple (rested (cs_codec st) t l) (settle_paper st inp info now l) (\<lambda>p. rested (cs_codec st) t (px_ledger_state p)) (\<lambda>_. unmoved (cs_codec st) t)"
proof -
  have lag: "sx_triple (rested (cs_codec st) t l') (sx_bind (enforce_funding_lag a) (\<lambda>_. sx_return p)) (\<lambda>p. rested (cs_codec st) t (px_ledger_state p)) (\<lambda>_. unmoved (cs_codec st) t)"
    if "px_ledger_state p = l'" for l' a p
  proof -
    have check: "sx_triple (rested (cs_codec st) t l') (enforce_funding_lag a) (\<lambda>_. rested (cs_codec st) t l') (\<lambda>_. unmoved (cs_codec st) t)"
      unfolding enforce_funding_lag_def Let_def by (rule sx_triple_if [OF rested_raise], rule rested_lift_seq, rule rested_when [OF rested_alert])
    show ?thesis by (rule rested_seq [OF check]) (rule sx_triple_return, simp add: that)
  qed
  have delisted: "sx_triple (rested (cs_codec st) t l') (if d = [] then sx_return (l', []) else settle_delisted st inp info now d l')
      (\<lambda>y. rested (cs_codec st) t (fst y)) (\<lambda>_. unmoved (cs_codec st) t)" for l' d
    by (rule sx_triple_if, rule sx_triple_return, simp, rule settle_delisted_triple [OF c])
  show ?thesis unfolding settle_paper_def case_prod_beta
    by (rule rested_lift_seq, rule sx_triple_if, rule rested_seq [OF rested_audit rested_raise], rule rested_lift_seq,
        rule sx_triple_bind [OF accrue_triple [OF c]], rule sx_triple_bind [OF delisted], rule lag, simp)
qed

section \<open>Every posting has its record\<close>

text \<open>The tax ledger is in order and has the given record ids.\<close>

definition taxed :: "record_options \<Rightarrow> string set \<Rightarrow> 'v cycle_world \<Rightarrow> bool" where
  "taxed ro ids w \<longleftrightarrow> dir_ok (ro_codec ro) (ro_month ro) (es_tax (cw_store w)) \<and> ids \<subseteq> tr_record_id ` dir_records (ro_codec ro) (es_tax (cw_store w))"

definition ids_of :: "tax_record list \<Rightarrow> string set" where "ids_of records = tr_record_id ` set records"

lemma ids_of_Nil [simp]: "ids_of [] = {}"
  by (simp add: ids_of_def)

abbreviation anyway :: "exc \<Rightarrow> 'v cycle_world \<Rightarrow> bool" where "anyway \<equiv> \<lambda>_ _. True"

lemma taxed_append:
  assumes "codec_ok (cs_codec st)" "fixed_ok (cs_codec st) (ro_fixed (cs_record st))"
  shows "sx_triple (taxed (cs_record st) ids) (append_paper_records st records)
     (\<lambda>_ w. taxed (cs_record st) (ids \<union> ids_of records) w \<and> (\<forall>r \<in> set records. validate_tax_record r = Inr ())) anyway"
  unfolding sx_triple_def
proof (intro allI impI)
  fix w :: "'a cycle_world" assume w: "taxed (cs_record st) ids w"
  let ?run = "append_tax_records (cs_codec st) (ro_fixed (cs_record st)) (ro_month (cs_record st)) records"
  obtain r d where run: "?run (es_tax (cw_store w)) = (r, d)" by fastforce
  have dir: "dir_ok (cs_codec st) (ro_month (cs_record st)) (es_tax (cw_store w))" using w by (simp add: taxed_def)
  show "case append_paper_records st records w of (Inl e, u) \<Rightarrow> True
      | (Inr x, u) \<Rightarrow> taxed (cs_record st) (ids \<union> ids_of records) u \<and> (\<forall>r \<in> set records. validate_tax_record r = Inr ())"
  proof (cases r)
    case (Inl e)
    then show ?thesis using run by (simp add: append_paper_records_def sx_bind_def on_store_run on_tax_def)
  next
    case (Inr written)
    note res = append_ids [OF assms dir run [unfolded Inr]]
    have "\<forall>r \<in> set records. validate_tax_record r = Inr ()"
    proof (cases "records = []")
      case False
      then obtain us where "rmap validate_tax_record records = Inr us" using run Inr by (auto simp: append_tax_records_def sx_bind_Inr)
      then show ?thesis using rmap_in by fastforce
    qed simp
    moreover have "ids \<union> ids_of records \<subseteq> tr_record_id ` dir_records (cs_codec st) d"
      using res w unfolding taxed_def ids_of_def by (blast intro: subset_trans image_mono)
    ultimately show ?thesis using run Inr res
      by (simp add: append_paper_records_def sx_bind_def on_store_run on_tax_def sx_return_def taxed_def)
  qed
qed

lemma taxed_others:
  "sx_triple (taxed ro ids) (cw_audit e s k st) (\<lambda>_. taxed ro ids) anyway" "sx_triple (taxed ro ids) (notify_event e d) (\<lambda>_. taxed ro ids) anyway"
  "sx_triple (taxed ro ids) (on_store (on_ledger (save_ledger c l))) (\<lambda>_. taxed ro ids) anyway" "sx_triple (taxed ro ids) (sx_return x) (\<lambda>_. taxed ro ids) anyway"
  by (auto simp: sx_triple_def cw_audit_def audit_record_def on_world_run notify_event_def on_store_run on_ledger_def save_ledger_def sx_defs taxed_def)

lemma taxed_fold:
  "(\<And>x acc. x \<in> set xs \<Longrightarrow> sx_triple (taxed ro ids) (f x acc) (\<lambda>_. taxed ro ids) anyway) \<Longrightarrow> sx_triple (taxed ro ids) (sx_foldM f xs acc) (\<lambda>_. taxed ro ids) anyway"
  by (rule sx_triple_foldM)

lemma taxed_lift_seq:
  "(\<And>x. m = Inr x \<Longrightarrow> sx_triple P (f x) Q anyway) \<Longrightarrow> sx_triple P (sx_bind (sx_lift m) f) Q anyway"
  by (cases m) (auto simp: sx_triple_def sx_bind_def sx_lift_def)

lemma raise_anyway: "sx_triple P (sx_raise e) Q anyway"
  by (rule sx_triple_raise) simp

text \<open>The cash of an accrual is the sum of its events, in their order.\<close>

lemma accrual_cash:
  assumes "accrue_funding_by_watermark history watermarks inp now = Inr a" shows "fa_cash_delta a = foldl dadd 0 (map fe_amount (fa_events a))"
proof -
  from assms obtain n xs where run: "rfold (accrue_symbol history watermarks inp n) xs
      \<lparr>fa_cash_delta = 0, fa_watermarks = [], fa_lag_by_symbol = [], fa_interval_by_symbol = [], fa_events = []\<rparr> = Inr a"
    by (auto simp: accrue_funding_by_watermark_def rbind_eq_Inr)
  show ?thesis
    by (rule rfold_invariant [where P = "\<lambda>a. fa_cash_delta a = foldl dadd 0 (map fe_amount (fa_events a))", OF run])
      (auto simp: accrue_symbol_def rbind_eq_Inr Let_def split: option.splits)
qed

definition funding_flow :: "tax_record list \<Rightarrow> decimal" where
  "funding_flow records = foldl dadd 0 (map tr_realized_pnl records)"

lemma funding_records_flow:
  "funding_flow (funding_tax_records ms run mode events) = foldl dadd 0 (map fe_amount events)" "\<forall>r \<in> set (funding_tax_records ms run mode events). tr_kind r = ''FUNDING_FEE''"
  by (auto simp: funding_flow_def funding_tax_records_def funding_tax_record_def comp_def)

lemma accrue_taxed:
  assumes cod: "codec_ok (cs_codec st)" "fixed_ok (cs_codec st) (ro_fixed (cs_record st))"
  shows "sx_triple (taxed (cs_record st) ids) (accrue_ledger_funding st inp now ends l)
     (\<lambda>y w. taxed (cs_record st) (ids \<union> ids_of (snd (snd y))) w \<and> ls_positions (fst y) = ls_positions l
        \<and> ls_cash_usdt (fst y) = map_option (\<lambda>cash. dadd cash (funding_flow (snd (snd y)))) (ls_cash_usdt l)
        \<and> (\<forall>r \<in> set (snd (snd y)). tr_kind r = ''FUNDING_FEE'')) anyway"
  unfolding accrue_ledger_funding_def Let_def
proof (rule taxed_lift_seq, rule sx_triple_prod, rule taxed_lift_seq, rule sx_triple_if [OF raise_anyway], rule sx_triple_bind)
  fix history started and a :: funding_accrual
  let ?r = "funding_tax_records (pi_ms_of inp) (pi_run_id inp) (mode_value (cs_mode st)) (fa_events a)"
  assume "accrue_funding_by_watermark history (ls_funding_watermarks l)
      \<lparr>ai_funding = filter (\<lambda>(s, _). s \<in> set (map fst (filter (\<lambda>(_, q). q \<noteq> 0) (ls_positions l)) @ map fst (ls_funding_watermarks l))) (pi_funding inp),
         ai_closes = filter (\<lambda>(s, _). s \<in> set (map fst (filter (\<lambda>(_, q). q \<noteq> 0) (ls_positions l)) @ map fst (ls_funding_watermarks l))) (pi_closes inp), ai_closed = ends\<rparr>
      (Aware now) = Inr a"
  from accrual_cash [OF this] have cash: "fa_cash_delta a = funding_flow ?r" by (simp add: funding_records_flow)
  show "sx_triple (taxed (cs_record st) ids) (sx_when (fa_events a \<noteq> []) (append_paper_records st ?r)) (\<lambda>_. taxed (cs_record st) (ids \<union> ids_of ?r)) anyway"
    by (rule sx_triple_when, rule sx_conseq [OF taxed_append [OF cod]]) (auto simp: funding_tax_records_def)
  show "sx_triple (taxed (cs_record st) (ids \<union> ids_of ?r)) (sx_bind (on_store (on_ledger (save_ledger (cs_codec st)
        (l\<lparr>ls_cash_usdt := map_option (\<lambda>cash. dadd cash (fa_cash_delta a)) (ls_cash_usdt l),
                  ls_funding_accrued_through := Some now, ls_funding_accrual_started_at := started,
                  ls_funding_watermarks := fa_watermarks a, ls_position_history := history\<rparr>)))) (\<lambda>_. sx_return
        (l\<lparr>ls_cash_usdt := map_option (\<lambda>cash. dadd cash (fa_cash_delta a)) (ls_cash_usdt l),
                  ls_funding_accrued_through := Some now, ls_funding_accrual_started_at := started,
                  ls_funding_watermarks := fa_watermarks a, ls_position_history := history\<rparr>, a, ?r)))
     (\<lambda>y w. taxed (cs_record st) (ids \<union> ids_of (snd (snd y))) w \<and> ls_positions (fst y) = ls_positions l
        \<and> ls_cash_usdt (fst y) = map_option (\<lambda>cash. dadd cash (funding_flow (snd (snd y)))) (ls_cash_usdt l)
        \<and> (\<forall>r \<in> set (snd (snd y)). tr_kind r = ''FUNDING_FEE'')) anyway" for u
    by (rule sx_triple_bind [OF taxed_others(3)], rule sx_triple_return) (simp add: cash funding_records_flow)
qed

lemma proven_from:
  assumes "proven_settlements inp delisted = Inr proven" "map_of proven s = Some e"
  shows "\<exists>delivery. (s, delivery) \<in> set delisted
     \<and> settlement_evidence_from_bars (pi_decimal_of inp) (pi_min_flat_bars inp) (pi_price_rtol inp) delivery (pi_bars inp s) = Inr (Some e)"
proof -
  let ?ev = "\<lambda>s d. settlement_evidence_from_bars (pi_decimal_of inp) (pi_min_flat_bars inp) (pi_price_rtol inp) d (pi_bars inp s)"
  let ?P = "\<lambda>proven. \<forall>s e. map_of proven s = Some e \<longrightarrow> (\<exists>d. (s, d) \<in> set delisted \<and> ?ev s d = Inr (Some e))"
  have step: "?P u" if x: "x \<in> set delisted" and p: "?P v" and f: "(\<lambda>(symbol, delivery) proven. case ?ev symbol delivery of
          Inl e \<Rightarrow> if e = DataIntegrityError then Inr proven else Inl e | Inr None \<Rightarrow> Inr proven | Inr (Some e) \<Rightarrow> Inr (AList.update symbol e proven)) x v = Inr u" for x v u
  proof -
    obtain y d where y: "x = (y, d)" by (cases x)
    show ?thesis
    proof (cases "?ev y d")
      case (Inl e)
      then show ?thesis using f p by (simp add: y split: if_splits)
    next
      case (Inr r)
      then show ?thesis using f p x by (cases r) (auto simp: y map_of_update split: if_splits)
    qed
  qed
  have "?P proven" by (rule rfold_invariant [where P = ?P, OF assms(1) [unfolded proven_settlements_def]]) (simp, rule step)
  then show ?thesis using assms(2) by blast
qed

lemma settlement_in_records:
  assumes "b \<in> set booked" "ds_price b = Some price"
  shows "settlement_record mode b price \<in> set (delisting_settlement_tax_records booked mode)"
  using assms by (induction booked) (auto simp: delisting_settlement_tax_records_def List.map_filter_simps split: option.splits)

lemma settlement_flow: "r \<in> set (delisting_settlement_tax_records booked mode) \<Longrightarrow> \<exists>y. trade_flow r = Inr y"
proof (induction booked)
  case (Cons b booked)
  then show ?case
    by (auto simp: delisting_settlement_tax_records_def List.map_filter_simps trade_flow_def settlement_record_def split: option.splits if_splits)
qed (simp add: delisting_settlement_tax_records_def)

lemma settled_cash:
  assumes l: "dict_ok (ls_positions l)" "ls_cash_usdt l = Some cash" and run: "book_paper schedule proven fee n l = Inr (l', booked)"
    and valid: "booked \<noteq> [] \<longrightarrow> (\<forall>r \<in> set (delisting_settlement_tax_records booked (mode_value PAPER)). validate_tax_record r = Inr ())"
  shows "ls_cash_usdt l' = Some (fold record_cash (delisting_settlement_tax_records booked (mode_value PAPER)) cash)"
proof -
  note b = book_paper_books [OF l(1) run]
  have "list_all (\<lambda>b. \<exists>price. ds_price b = Some price \<and> 0 < price \<and> ds_quantity b \<noteq> 0 \<and> ds_symbol b \<noteq> []) booked"
  proof (unfold list_all_iff, intro ballI)
    fix x assume x: "x \<in> set booked"
    then obtain price where p: "ds_price x = Some price" using b(4) by (auto simp: list_all_iff)
    have "validate_tax_record (settlement_record (mode_value PAPER) x price) = Inr ()"
      using valid settlement_in_records [OF x p] x by auto
    then have "0 < price" "ds_symbol x \<noteq> []"
      by (auto simp: validate_tax_record_def settlement_record_def validate_trade_def rbind_eq_Inr split: if_splits)
    moreover have "ds_quantity x \<noteq> 0" using b(1) x by (auto simp: books_def list_all_iff)
    ultimately show "\<exists>price. ds_price x = Some price \<and> 0 < price \<and> ds_quantity x \<noteq> 0 \<and> ds_symbol x \<noteq> []" using p by blast
  qed
  moreover have "distinct (map ds_symbol booked)" using b(1) by (simp add: books_def)
  ultimately have "fold record_cash (delisting_settlement_tax_records booked ''paper'') cash = fold settle_cash booked cash"
    using settlement_records_of [of booked cash] by blast
  then show ?thesis using b(3) [OF l(2)] by (simp add: mode_value_def)
qed

text \<open>What the settlement of delisted holdings leaves: closed on evidence, none left, the cash recorded.\<close>

definition settled_paper ::
    "paper_inputs \<Rightarrow> (string, timestamp) dict \<Rightarrow> ledger_state \<Rightarrow> ledger_state \<Rightarrow> tax_record list \<Rightarrow> bool" where
  "settled_paper inp delisted l l' records \<longleftrightarrow>
     (\<forall>s. dict_get (ls_positions l') s 0 = dict_get (ls_positions l) s 0
        \<or> dict_get (ls_positions l') s 0 = 0 \<and> (\<exists>delivery e. (s, delivery) \<in> set delisted
            \<and> settlement_evidence_from_bars (pi_decimal_of inp) (pi_min_flat_bars inp) (pi_price_rtol inp) delivery (pi_bars inp s) = Inr (Some e)))
     \<and> (\<forall>s \<in> fst ` set delisted. dict_get (ls_positions l') s 0 = 0)
     \<and> (\<forall>cash. ls_cash_usdt l = Some cash \<longrightarrow> ls_cash_usdt l' = Some (fold record_cash records cash))
     \<and> (\<forall>r \<in> set records. \<exists>y. trade_flow r = Inr y)"

lemma unresolved_stops:
  assumes "filter (\<lambda>(s, _). dict_get (ls_positions l) s 0 \<noteq> 0) delisted \<noteq> []"
  shows "sx_triple P (settle_delisted_paper_positions (filter (\<lambda>(s, _). dict_get (ls_positions l) s 0 \<noteq> 0) delisted) l) Q anyway"
proof -
  obtain s d where "(s, d) \<in> set (filter (\<lambda>(s, _). dict_get (ls_positions l) s 0 \<noteq> 0) delisted)" using assms by (metis list.set_sel(1) surj_pair)
  then have "s \<in> set (filter (\<lambda>s. dict_get (ls_positions l) s 0 \<noteq> 0) (sort (map fst (filter (\<lambda>(s, _). dict_get (ls_positions l) s 0 \<noteq> 0) delisted))))"
    by force
  then have held: "filter (\<lambda>s. dict_get (ls_positions l) s 0 \<noteq> 0) (sort (map fst (filter (\<lambda>(s, _). dict_get (ls_positions l) s 0 \<noteq> 0) delisted))) \<noteq> []"
    by (metis empty_iff list.set(1))
  show ?thesis unfolding settle_delisted_paper_positions_def Let_def if_not_P [OF held]
    by (rule sx_triple_bind [where R = "\<lambda>_ _. True"], simp add: sx_triple_def split: prod.split sum.split,
        rule sx_triple_bind [where R = "\<lambda>_ _. True"], simp add: sx_triple_def split: prod.split sum.split, rule raise_anyway)
qed

lemma settle_delisted_taxed:
  assumes cod: "codec_ok (cs_codec st)" "fixed_ok (cs_codec st) (ro_fixed (cs_record st))" and mode: "cs_mode st = PAPER" and l: "dict_ok (ls_positions l)"
  shows "sx_triple (taxed (cs_record st) ids :: 'v cycle_world \<Rightarrow> bool) (settle_delisted st inp info now delisted l)
     (\<lambda>y w. taxed (cs_record st) (ids \<union> ids_of (snd y)) w \<and> settled_paper inp delisted l (fst y) (snd y)) anyway"
  unfolding settle_delisted_def Let_def
proof (rule taxed_lift_seq, rule taxed_lift_seq)
  fix proven y
  assume proven: "proven_settlements inp delisted = Inr proven"
    and y: "book_delisting_settlements (cs_codec st) (cs_mode st) info [] proven (pi_fee_bps inp) (Aware now) l = Inr y"
  obtain l' booked where l': "y = (l', booked)" by (cases y)
  obtain schedule n where book: "book_paper schedule proven (pi_fee_bps inp) n l = Inr (l', booked)"
    using y mode by (auto simp: book_delisting_settlements_def rbind_eq_Inr l' split: if_splits)
  note b = book_paper_books [OF l book]
  let ?r = "delisting_settlement_tax_records booked (mode_value (cs_mode st))"
  let ?u = "filter (\<lambda>(s, _). dict_get (ls_positions l') s 0 \<noteq> 0) delisted"
  let ?valid = "booked \<noteq> [] \<longrightarrow> (\<forall>r \<in> set ?r. validate_tax_record r = Inr ())"
  have no_records: "booked = [] \<Longrightarrow> ?r = []" by (simp add: delisting_settlement_tax_records_def List.map_filter_simps)
  have append: "sx_triple (taxed (cs_record st) ids :: 'v cycle_world \<Rightarrow> bool) (if booked = [] then sx_return ()
      else sx_bind (sx_when (?r \<noteq> []) (append_paper_records st ?r)) (\<lambda>_.
           sx_bind (on_store (on_ledger (save_ledger (cs_codec st) l'))) (\<lambda>_. record_delisting_settlements booked)))
      (\<lambda>_ w. taxed (cs_record st) (ids \<union> ids_of ?r) w \<and> ?valid) anyway"
  proof (rule sx_triple_if)
    assume "booked = []"
    then show "sx_triple (taxed (cs_record st) ids :: 'v cycle_world \<Rightarrow> bool) (sx_return ()) (\<lambda>_ w. taxed (cs_record st) (ids \<union> ids_of ?r) w \<and> ?valid) anyway"
      using no_records by (auto intro: sx_triple_return)
  next
    have written: "sx_triple (taxed (cs_record st) ids :: 'v cycle_world \<Rightarrow> bool) (sx_when (?r \<noteq> []) (append_paper_records st ?r)) (\<lambda>_ w. taxed (cs_record st) (ids \<union> ids_of ?r) w \<and> ?valid) anyway"
      by (rule sx_triple_when, rule sx_conseq [OF taxed_append [OF cod]]) auto
    have rest: "sx_triple (taxed (cs_record st) (ids \<union> ids_of ?r) :: 'v cycle_world \<Rightarrow> bool) (sx_bind (on_store (on_ledger (save_ledger (cs_codec st) l'))) (\<lambda>_. record_delisting_settlements booked))
        (\<lambda>_. taxed (cs_record st) (ids \<union> ids_of ?r)) anyway"
      unfolding record_delisting_settlements_def
      by (rule sx_triple_bind [OF taxed_others(3)], rule taxed_fold, rule sx_triple_bind [OF taxed_others(1)], rule taxed_others(2))
    show "sx_triple (taxed (cs_record st) ids :: 'v cycle_world \<Rightarrow> bool) (sx_bind (sx_when (?r \<noteq> []) (append_paper_records st ?r)) (\<lambda>_.
           sx_bind (on_store (on_ledger (save_ledger (cs_codec st) l'))) (\<lambda>_. record_delisting_settlements booked)))
        (\<lambda>_ w. taxed (cs_record st) (ids \<union> ids_of ?r) w \<and> ?valid) anyway"
      by (rule sx_triple_bind [OF written], rule sx_triple_pre_fact, rule sx_conseq [OF rest]) auto
  qed
  have settled: "settled_paper inp delisted l l' ?r" if "?u = []" ?valid
    unfolding settled_paper_def
  proof (intro conjI allI ballI impI)
    fix s
    have z: "zeroed (map ds_symbol booked) (ls_positions l) (ls_positions l')" using b(1) by (simp add: books_def)
    show "dict_get (ls_positions l') s 0 = dict_get (ls_positions l) s 0 \<or> dict_get (ls_positions l') s 0 = 0 \<and> (\<exists>delivery e. (s, delivery) \<in> set delisted
            \<and> settlement_evidence_from_bars (pi_decimal_of inp) (pi_min_flat_bars inp) (pi_price_rtol inp) delivery (pi_bars inp s) = Inr (Some e))"
    proof (cases "s \<in> set (map ds_symbol booked)")
      case True
      then obtain e where "map_of proven s = Some e" using b(4) by (auto simp: list_all_iff)
      from proven_from [OF proven this] show ?thesis using zeroed_get [OF z, of s] True by auto
    qed (simp add: zeroed_get [OF z])
  next
    fix s assume "s \<in> fst ` set delisted"
    then show "dict_get (ls_positions l') s 0 = 0" using that(1) by (auto simp: filter_empty_conv)
  next
    fix cash assume "ls_cash_usdt l = Some cash"
    from settled_cash [OF l this book] that(2) mode show "ls_cash_usdt l' = Some (fold record_cash ?r cash)" by simp
  qed (rule settlement_flow)
  have resolve: "sx_triple (taxed (cs_record st) (ids \<union> ids_of ?r) :: 'v cycle_world \<Rightarrow> bool) (if ?u = [] then sx_return l' else settle_delisted_paper_positions ?u l')
      (\<lambda>z w. taxed (cs_record st) (ids \<union> ids_of ?r) w \<and> (z = l' \<and> ?u = [])) anyway"
    by (rule sx_triple_if, rule sx_triple_return, simp, rule unresolved_stops)
  show "sx_triple (taxed (cs_record st) ids :: 'v cycle_world \<Rightarrow> bool) (case y of (l, booked) \<Rightarrow>
       sx_bind (if booked = [] then sx_return ()
                else sx_bind (sx_when (delisting_settlement_tax_records booked (mode_value (cs_mode st)) \<noteq> []) (append_paper_records st (delisting_settlement_tax_records booked (mode_value (cs_mode st))))) (\<lambda>_.
                     sx_bind (on_store (on_ledger (save_ledger (cs_codec st) l))) (\<lambda>_. record_delisting_settlements booked))) (\<lambda>_.
         sx_bind (if filter (\<lambda>(s, _). dict_get (ls_positions l) s 0 \<noteq> 0) delisted = [] then sx_return l
                  else settle_delisted_paper_positions (filter (\<lambda>(s, _). dict_get (ls_positions l) s 0 \<noteq> 0) delisted) l) (\<lambda>l.
           sx_return (l, if booked = [] then [] else delisting_settlement_tax_records booked (mode_value (cs_mode st))))))
     (\<lambda>y w. taxed (cs_record st) (ids \<union> ids_of (snd y)) w \<and> settled_paper inp delisted l (fst y) (snd y)) anyway"
    unfolding l' prod.case
  proof (rule sx_triple_bind [OF append], rule sx_triple_pre_fact, rule sx_triple_bind [OF resolve], rule sx_triple_pre_fact, rule sx_triple_return)
    fix z and s :: "'v cycle_world"
    assume f: ?valid "z = l' \<and> ?u = []" "taxed (cs_record st) (ids \<union> ids_of ?r) s"
    have "(if booked = [] then [] else ?r) = ?r" using no_records by simp
    then show "taxed (cs_record st) (ids \<union> ids_of (snd (z, if booked = [] then [] else ?r))) s
        \<and> settled_paper inp delisted l (fst (z, if booked = [] then [] else ?r)) (snd (z, if booked = [] then [] else ?r))"
      using f settled [OF _ f(1)] unfolding \<open>(if booked = [] then [] else ?r) = ?r\<close> by simp
  qed
qed

lemma lag_taxed: "sx_triple (taxed ro ids :: 'v cycle_world \<Rightarrow> bool) (enforce_funding_lag a) (\<lambda>_. taxed ro ids) anyway"
  unfolding enforce_funding_lag_def Let_def
  by (rule sx_triple_if [OF raise_anyway], rule taxed_lift_seq, rule sx_triple_when [OF taxed_others(2)])

text \<open>The delisted holdings: those whose delivery time in the schedule has passed.\<close>

definition delisted_at :: "text_codec \<Rightarrow> payload \<Rightarrow> timestamp \<Rightarrow> string \<Rightarrow> timestamp \<Rightarrow> bool" where
  "delisted_at c exchange_info now symbol delivery \<longleftrightarrow>
     (\<exists>schedule info. parse_delivery_schedule c exchange_info = Inr schedule \<and> map_of schedule symbol = Some info
        \<and> di_delivery_time info = Some delivery \<and> is_delisted info now)"

lemma fold_update_entries:
  assumes "dict_ok d" and "\<And>k v acc. f (k, v) acc = (case g k v of None \<Rightarrow> acc | Some t \<Rightarrow> AList.update k t acc)"
  shows "map_of (fold f d acc) s = (case Option.bind (map_of d s) (g s) of None \<Rightarrow> map_of acc s | Some t \<Rightarrow> Some t)"
  using assms(1)
proof (induction d arbitrary: acc)
  case (Cons p d)
  obtain k v where p: "p = (k, v)" by (cases p)
  have rest: "map_of (fold f d (f p acc)) s = (case Option.bind (map_of d s) (g s) of None \<Rightarrow> map_of (f p acc) s | Some t \<Rightarrow> Some t)"
    using Cons by simp
  show ?case
  proof (cases "k = s")
    case True
    then have "map_of d s = None" using Cons.prems p by (simp add: map_of_eq_None_iff)
    then show ?thesis using rest True by (simp add: p assms(2) split: option.split)
  next
    case False
    then have keep: "map_of (f p acc) s = map_of acc s" by (simp add: p assms(2) split: option.split)
    show ?thesis using rest [unfolded keep] False by (simp add: p)
  qed
qed simp

lemma delisted_held_entries:
  assumes "delisted_held_symbols c positions info now = Inr delisted" "dict_ok positions"
  shows "map_of delisted s = Some t \<longleftrightarrow> delisted_at c info now s t \<and> dict_get positions s 0 \<noteq> 0"
proof -
  obtain schedule where s: "parse_delivery_schedule c info = Inr schedule"
    and d: "delisted = fold (\<lambda>(symbol, qty) delisted. case map_of schedule symbol of None \<Rightarrow> delisted
            | Some info \<Rightarrow> (case di_delivery_time info of None \<Rightarrow> delisted
                | Some t \<Rightarrow> if qty \<noteq> 0 \<and> is_delisted info now then AList.update symbol t delisted else delisted)) positions []"
    using assms(1) by (auto simp: delisted_held_symbols_def rbind_eq_Inr)
  let ?g = "\<lambda>symbol qty. case map_of schedule symbol of None \<Rightarrow> None
            | Some info \<Rightarrow> if qty \<noteq> (0 :: decimal) \<and> is_delisted info now then di_delivery_time info else None"
  have "map_of delisted s = (case Option.bind (map_of positions s) (?g s) of None \<Rightarrow> map_of [] s | Some t \<Rightarrow> Some t)"
    unfolding d by (rule fold_update_entries [OF assms(2)]) (simp split: option.split)
  then show ?thesis by (cases "map_of positions s"; cases "map_of schedule s") (auto simp: dict_get_def delisted_at_def s split: option.splits)
qed

lemma delisted_held_dict:
  assumes "delisted_held_symbols c positions info now = Inr delisted" shows "dict_ok delisted"
proof -
  have "dict_ok acc \<Longrightarrow> dict_ok (fold (\<lambda>(symbol, qty) delisted. case map_of schedule symbol of None \<Rightarrow> delisted
            | Some info \<Rightarrow> (case di_delivery_time info of None \<Rightarrow> delisted
                | Some t \<Rightarrow> if qty \<noteq> (0 :: decimal) \<and> is_delisted info now then AList.update symbol t delisted else delisted)) positions acc)"
    for acc :: "(string, timestamp) dict" and schedule
    by (induction positions arbitrary: acc) (auto simp: distinct_update split: option.split)
  then show ?thesis using assms by (auto simp: delisted_held_symbols_def rbind_eq_Inr)
qed

text \<open>A settlement that returns, and what its three steps have left.\<close>

lemma settle_paper_parts:
  assumes run: "settle_paper st inp info now l w = (Inr p, w')"
  obtains delisted l1 accrual u1 u2 u3 where "delisted_held_symbols (cs_codec st) (ls_positions l) info now = Inr delisted"
    and "accrue_ledger_funding st inp now delisted l w = (Inr (l1, accrual, px_funding_records p), u1)"
    and "(if delisted = [] then sx_return (l1, []) else settle_delisted st inp info now delisted l1) u1 = (Inr (px_ledger_state p, px_settlement_records p), u2)"
    and "enforce_funding_lag accrual u2 = (Inr u3, w')"
proof -
  have listed: "held_symbols_absent_from_exchange (cs_codec st) (ls_positions l) info = Inr []"
  proof (cases "held_symbols_absent_from_exchange (cs_codec st) (ls_positions l) info")
    case (Inr absent)
    then show ?thesis using run by (cases "absent = []") (auto simp: settle_paper_def sx_bind_Inr)
  qed (use run in \<open>simp add: settle_paper_def sx_bind_Inr\<close>)
  show ?thesis using run that by (auto simp: settle_paper_def sx_bind_Inr listed)
qed

lemma settle_paper_taxed:
  assumes mode: "cs_mode st = PAPER" and cod: "codec_ok (cs_codec st)" "fixed_ok (cs_codec st) (ro_fixed (cs_record st))"
    and l: "dict_ok (ls_positions l)" "ls_cash_usdt l = Some cash" and dir: "taxed (cs_record st) {} w"
    and run: "settle_paper st inp info now l w = (Inr p, w')"
  shows "\<exists>delisted l1. delisted_held_symbols (cs_codec st) (ls_positions l) info now = Inr delisted
    \<and> ls_positions l1 = ls_positions l \<and> ls_cash_usdt l1 = Some (dadd cash (funding_flow (px_funding_records p)))
    \<and> settled_paper inp delisted l1 (px_ledger_state p) (px_settlement_records p)
    \<and> taxed (cs_record st) (ids_of (px_funding_records p @ px_settlement_records p)) w'"
proof -
  obtain delisted l1 accrual u1 u2 u3 where d: "delisted_held_symbols (cs_codec st) (ls_positions l) info now = Inr delisted"
    and acc: "accrue_ledger_funding st inp now delisted l w = (Inr (l1, accrual, px_funding_records p), u1)"
    and set: "(if delisted = [] then sx_return (l1, []) else settle_delisted st inp info now delisted l1) u1 = (Inr (px_ledger_state p, px_settlement_records p), u2)"
    and lag: "enforce_funding_lag accrual u2 = (Inr u3, w')"
    by (rule settle_paper_parts [OF run])
  from sx_tripleD_Inr [OF accrue_taxed [OF cod] dir acc]
  have t1: "taxed (cs_record st) (ids_of (px_funding_records p)) u1" and pos: "ls_positions l1 = ls_positions l"
    and c1: "ls_cash_usdt l1 = Some (dadd cash (funding_flow (px_funding_records p)))"
    using l(2) by auto
  have l1: "dict_ok (ls_positions l1)" using l(1) pos by simp
  have "sx_triple (taxed (cs_record st) (ids_of (px_funding_records p))) (if delisted = [] then sx_return (l1, []) else settle_delisted st inp info now delisted l1)
     (\<lambda>y w. taxed (cs_record st) (ids_of (px_funding_records p) \<union> ids_of (snd y)) w \<and> settled_paper inp delisted l1 (fst y) (snd y)) anyway"
    by (rule sx_triple_if, rule sx_triple_return, simp add: settled_paper_def, rule settle_delisted_taxed [OF cod mode l1])
  from sx_tripleD_Inr [OF this t1 set]
  have t2: "taxed (cs_record st) (ids_of (px_funding_records p) \<union> ids_of (px_settlement_records p)) u2"
    and settled: "settled_paper inp delisted l1 (px_ledger_state p) (px_settlement_records p)" by auto
  from sx_tripleD_Inr [OF lag_taxed t2 lag] have "taxed (cs_record st) (ids_of (px_funding_records p @ px_settlement_records p)) w'"
    by (simp add: ids_of_def image_Un)
  with d pos c1 settled show ?thesis by blast
qed

lemma settled_positions:
  assumes d: "delisted_held_symbols c positions info now = Inr delisted" "dict_ok positions"
    and s: "settled_paper inp delisted l l' records" "ls_positions l = positions"
  shows "dict_get (ls_positions l') s 0 = dict_get positions s 0
      \<or> dict_get (ls_positions l') s 0 = 0 \<and> (\<exists>delivery e. delisted_at c info now s delivery
          \<and> settlement_evidence_from_bars (pi_decimal_of inp) (pi_min_flat_bars inp) (pi_price_rtol inp) delivery (pi_bars inp s) = Inr (Some e))"
    and "delisted_at c info now s delivery \<Longrightarrow> dict_get (ls_positions l') s 0 = 0"
proof -
  note entry = delisted_held_entries [OF d]
  have same: "dict_get (ls_positions l') s 0 = dict_get positions s 0
      \<or> dict_get (ls_positions l') s 0 = 0 \<and> (\<exists>delivery e. (s, delivery) \<in> set delisted
          \<and> settlement_evidence_from_bars (pi_decimal_of inp) (pi_min_flat_bars inp) (pi_price_rtol inp) delivery (pi_bars inp s) = Inr (Some e))"
    using s unfolding settled_paper_def by blast
  have listed: "(s, delivery) \<in> set delisted \<Longrightarrow> delisted_at c info now s delivery" for delivery
    using entry delisted_held_dict [OF d(1)] by (simp add: map_of_is_SomeI)
  from same listed show "dict_get (ls_positions l') s 0 = dict_get positions s 0
      \<or> dict_get (ls_positions l') s 0 = 0 \<and> (\<exists>delivery e. delisted_at c info now s delivery
          \<and> settlement_evidence_from_bars (pi_decimal_of inp) (pi_min_flat_bars inp) (pi_price_rtol inp) delivery (pi_bars inp s) = Inr (Some e))" by blast
  assume "delisted_at c info now s delivery"
  then have "dict_get positions s 0 \<noteq> 0 \<Longrightarrow> s \<in> fst ` set delisted" using entry [of s delivery] by (metis image_eqI fst_conv map_of_SomeD)
  with same s show "dict_get (ls_positions l') s 0 = 0" unfolding settled_paper_def by metis
qed

text \<open>
  C33: a paper position is never closed at an invented price.  When the simulated postings of a cycle
  succeed, a quantity in the ledger is as it was, unless the venue has delisted the symbol and the
  hourly bars after its delivery prove a settlement price: then it is zero.  No holding whose delivery
  time has passed is left.  The cash has moved by the funding records and then by the settlement
  records of the cycle, in this order and by nothing else, and each of these records is in the tax
  ledger, which is still in order.
\<close>

theorem paper_settlement_is_evidenced:
  assumes mode: "cs_mode st = PAPER" and cod: "codec_ok (cs_codec st)" "fixed_ok (cs_codec st) (ro_fixed (cs_record st))"
    and l: "dict_ok (ls_positions l)" "ls_cash_usdt l = Some cash" and dir: "dir_ok (cs_codec st) (ro_month (cs_record st)) (es_tax (cw_store w))"
    and run: "settle_paper st inp info now l w = (Inr p, w')"
  shows "(\<forall>s. dict_get (ls_positions (px_ledger_state p)) s 0 = dict_get (ls_positions l) s 0
        \<or> dict_get (ls_positions (px_ledger_state p)) s 0 = 0 \<and> (\<exists>delivery e. delisted_at (cs_codec st) info now s delivery
            \<and> settlement_evidence_from_bars (pi_decimal_of inp) (pi_min_flat_bars inp) (pi_price_rtol inp) delivery (pi_bars inp s) = Inr (Some e)))
    \<and> (\<forall>s delivery. delisted_at (cs_codec st) info now s delivery \<longrightarrow> dict_get (ls_positions (px_ledger_state p)) s 0 = 0)
    \<and> ls_cash_usdt (px_ledger_state p) = Some (fold record_cash (px_settlement_records p) (dadd cash (funding_flow (px_funding_records p))))
    \<and> dir_ok (cs_codec st) (ro_month (cs_record st)) (es_tax (cw_store w'))
    \<and> ids_of (px_funding_records p @ px_settlement_records p) \<subseteq> tr_record_id ` dir_records (cs_codec st) (es_tax (cw_store w'))"
proof -
  have "taxed (cs_record st) {} w" using dir by (simp add: taxed_def)
  from settle_paper_taxed [OF mode cod l this run] obtain delisted l1 where
      d: "delisted_held_symbols (cs_codec st) (ls_positions l) info now = Inr delisted" "ls_positions l1 = ls_positions l"
    and cash: "ls_cash_usdt l1 = Some (dadd cash (funding_flow (px_funding_records p)))"
    and settled: "settled_paper inp delisted l1 (px_ledger_state p) (px_settlement_records p)"
    and tax: "taxed (cs_record st) (ids_of (px_funding_records p @ px_settlement_records p)) w'"
    by blast
  note pos = settled_positions [OF d(1) l(1) settled d(2)]
  have "ls_cash_usdt (px_ledger_state p) = Some (fold record_cash (px_settlement_records p) (dadd cash (funding_flow (px_funding_records p))))"
    using settled cash by (simp add: settled_paper_def)
  with pos tax show ?thesis by (auto simp: taxed_def)
qed

section \<open>A delisted holding\<close>

definition old_ledger :: ledger_state where
  "old_ledger = empty_ledger\<lparr>ls_positions := [(''OLDUSDT'', 2)], ls_cash_usdt := Some 10\<rparr>"

definition flat_inputs :: paper_inputs where
  "flat_inputs = \<lparr>pi_funding = [], pi_closes = [],
     pi_bars = (\<lambda>_. Inr [\<lparr>hb_ms = 1, hb_open = 3, hb_high = 3, hb_low = 3, hb_close = 3, hb_volume = 0\<rparr>]),
     pi_decimal_of = id, pi_ms_of = (\<lambda>t. t div 1000000), pi_run_id = ''run'', pi_min_flat_bars = 1, pi_price_rtol = 0, pi_fee_bps = 0\<rparr>"

definition paper_settings :: cycle_settings where "paper_settings = example_settings\<lparr>cs_record := paper_options\<rparr>"

definition old_world :: "unit cycle_world" where
  "old_world = held_world\<lparr>cw_store := \<lparr>es_ledger = Document (ledger_json plain_codec old_ledger), es_fills = [], es_tax = []\<rparr>\<rparr>"

lemma paper_settings_simps [simp]: "cs_codec paper_settings = plain_codec" "cs_mode paper_settings = PAPER" "ro_fixed (cs_record paper_settings) = tally_rat"
  "ro_month (cs_record paper_settings) = plain_month"
  by (simp_all add: paper_settings_def example_settings_def paper_options_def)

lemma old_proven: "settlement_evidence_from_bars id 1 0 1000000 (pi_bars flat_inputs ''OLDUSDT'') = Inr (Some \<lparr>se_delivery_time = Aware 1000000, se_price = 3\<rparr>)"
  by (simp add: settlement_evidence_from_bars_def flat_inputs_def fdiv_def fsub_def)

lemma old_delisted: "delisted_held_symbols plain_codec (ls_positions old_ledger) delisted_info 5000000 = Inr [(''OLDUSDT'', 1000000)]"
  by (simp add: delisted_held_symbols_def parse_delivery_schedule_def delisted_info_def required_def old_ledger_def is_delisted_def DELISTED_STATUSES_def)

lemma old_listed: "held_symbols_absent_from_exchange plain_codec (ls_positions old_ledger) delisted_info = Inr []"
  by (simp add: held_symbols_absent_from_exchange_def delisted_info_def required_def old_ledger_def Let_def) force

definition old_accrued :: ledger_state where
  "old_accrued = old_ledger\<lparr>ls_cash_usdt := Some (dadd 10 0), ls_funding_accrued_through := Some 5000000, ls_funding_accrual_started_at := Some 5000000,
     ls_funding_watermarks := [(''OLDUSDT'', 5000000)], ls_position_history := [\<lparr>ps_effective_from = 5000000, ps_positions = [(''OLDUSDT'', 2)]\<rparr>]\<rparr>"

lemma old_start:
  "accrual_start 5000000 old_ledger = Inr (ls_position_history old_accrued, Some 5000000)"
  by (simp add: accrual_start_def old_ledger_def old_accrued_def empty_ledger_def append_position_snapshot_def POSITION_HISTORY_MAX_def Let_def)

lemma old_watermark:
  "\<exists>i. accrue_funding_by_watermark (ls_position_history old_accrued) [] \<lparr>ai_funding = [], ai_closes = [], ai_closed = [(''OLDUSDT'', 1000000)]\<rparr> (Aware 5000000)
     = Inr \<lparr>fa_cash_delta = 0, fa_watermarks = [(''OLDUSDT'', 5000000)], fa_lag_by_symbol = [], fa_interval_by_symbol = i, fa_events = []\<rparr>"
  by (simp add: accrue_funding_by_watermark_def old_accrued_def current_positions_def accrue_symbol_def start_watermark_def held_since_def holds_def dict_get_def
      released_at_def Let_def sorted_set_def)

lemma old_accrual:
  "\<exists>a w. accrue_ledger_funding paper_settings flat_inputs 5000000 [(''OLDUSDT'', 1000000)] old_ledger old_world = (Inr (old_accrued, a, []), w)
     \<and> fa_lag_by_symbol a = [] \<and> es_tax (cw_store w) = []"
proof -
  obtain i where a: "accrue_funding_by_watermark (ls_position_history old_accrued) [] \<lparr>ai_funding = [], ai_closes = [], ai_closed = [(''OLDUSDT'', 1000000)]\<rparr> (Aware 5000000)
     = Inr \<lparr>fa_cash_delta = 0, fa_watermarks = [(''OLDUSDT'', 5000000)], fa_lag_by_symbol = [], fa_interval_by_symbol = i, fa_events = []\<rparr>"
    using old_watermark by blast
  have l: "ls_funding_watermarks old_ledger = []" "ls_cash_usdt old_ledger = Some 10" by (simp_all add: old_ledger_def empty_ledger_def)
  have f: "pi_funding flat_inputs = []" "pi_closes flat_inputs = []" by (simp_all add: flat_inputs_def)
  show ?thesis
    by (simp add: accrue_ledger_funding_def old_start sx_bind_def sx_lift_def sx_return_def Let_def l f a on_store_run on_ledger_def save_ledger_def sx_when_def funding_tax_records_def sx_defs old_world_def held_world_def)
      (simp add: old_accrued_def old_ledger_def)
qed

lemma old_booked:
  "\<exists>l b. book_delisting_settlements plain_codec PAPER delisted_info [] [(''OLDUSDT'', \<lparr>se_delivery_time = Aware 1000000, se_price = 3\<rparr>)] 0 (Aware 5000000) old_accrued = Inr (l, [b])
     \<and> ls_positions l = [(''OLDUSDT'', 0)] \<and> ds_price b = Some 3 \<and> ds_quantity b = 2 \<and> ds_symbol b = ''OLDUSDT''"
  by (simp add: book_delisting_settlements_def book_paper_def parse_delivery_schedule_def delisted_info_def required_def
      old_accrued_def old_ledger_def empty_ledger_def paper_candidate_def is_delisted_def DELISTED_STATUSES_def paper_step_def
      List.map_filter_simps Let_def append_position_snapshot_def POSITION_HISTORY_MAX_def)

lemma old_settled:
  assumes "es_tax (cw_store w) = []"
  shows "\<exists>l rs w'. settle_delisted paper_settings flat_inputs delisted_info 5000000 [(''OLDUSDT'', 1000000)] old_accrued w = (Inr (l, rs), w')
     \<and> ls_positions l = [(''OLDUSDT'', 0)]"
proof -
  obtain l b where b: "book_delisting_settlements plain_codec PAPER delisted_info [] [(''OLDUSDT'', \<lparr>se_delivery_time = Aware 1000000, se_price = 3\<rparr>)] 0 (Aware 5000000) old_accrued = Inr (l, [b])"
      "ls_positions l = [(''OLDUSDT'', 0)]" "ds_price b = Some 3" "ds_quantity b = 2" "ds_symbol b = ''OLDUSDT''"
    using old_booked by blast
  let ?r = "settlement_record (mode_value PAPER) b 3"
  have r: "delisting_settlement_tax_records [b] (mode_value PAPER) = [?r]" by (simp add: delisting_settlement_tax_records_def List.map_filter_simps b)
  have valid: "validate_tax_record ?r = Inr ()" by (rule settlement_record_valid) (simp_all add: b mode_value_def)
  obtain written dir' where app: "append_tax_records plain_codec tally_rat plain_month [?r] [] = (Inr written, dir')"
    by (rule append_adds [OF plain_codec_ok tally_fixed_ok, of plain_month "[]" "[?r]"]) (auto simp: dir_ok_def valid ids_agree_def dir_records_keys)
  have proven: "proven_settlements flat_inputs [(''OLDUSDT'', 1000000)] = Inr [(''OLDUSDT'', \<lparr>se_delivery_time = Aware 1000000, se_price = 3\<rparr>)]"
    using old_proven by (simp add: proven_settlements_def flat_inputs_def)
  have fee: "pi_fee_bps flat_inputs = 0" by (simp add: flat_inputs_def)
  show ?thesis
    by (simp add: settle_delisted_def sx_bind_def sx_lift_def proven b fee r append_paper_records_def on_store_run on_tax_def assms app sx_return_def
        sx_when_def on_ledger_def save_ledger_def sx_defs record_delisting_settlements_def cw_audit_def on_world_run audit_record_def notify_event_def Let_def dict_get_def)
qed

theorem paper_settlement_is_evidenced_witness:
  "\<exists>p w'. settle_paper paper_settings flat_inputs delisted_info 5000000 old_ledger old_world = (Inr p, w')
     \<and> dict_get (ls_positions old_ledger) ''OLDUSDT'' 0 = 2 \<and> dict_get (ls_positions (px_ledger_state p)) ''OLDUSDT'' 0 = 0
     \<and> ls_cash_usdt (px_ledger_state p) = Some (fold record_cash (px_settlement_records p) (dadd 10 (funding_flow (px_funding_records p))))"
proof -
  obtain a w where acc: "accrue_ledger_funding paper_settings flat_inputs 5000000 [(''OLDUSDT'', 1000000)] old_ledger old_world = (Inr (old_accrued, a, []), w)"
      "fa_lag_by_symbol a = []" "es_tax (cw_store w) = []"
    using old_accrual by blast
  obtain l rs w' where set: "settle_delisted paper_settings flat_inputs delisted_info 5000000 [(''OLDUSDT'', 1000000)] old_accrued w = (Inr (l, rs), w')" "ls_positions l = [(''OLDUSDT'', 0)]"
    using old_settled [OF acc(3)] by blast
  have run: "settle_paper paper_settings flat_inputs delisted_info 5000000 old_ledger old_world
      = (Inr \<lparr>px_ledger_state = l, px_cash_before = ls_cash_usdt old_ledger, px_funding_records = [], px_settlement_records = rs\<rparr>, w')"
    by (simp add: settle_paper_def sx_bind_def sx_lift_def old_listed old_delisted acc set enforce_funding_lag_def sx_when_def sx_return_def)
  have mode: "cs_mode paper_settings = PAPER" by simp
  have c: "codec_ok (cs_codec paper_settings)" "fixed_ok (cs_codec paper_settings) (ro_fixed (cs_record paper_settings))"
    by (simp_all add: plain_codec_ok tally_fixed_ok)
  have l: "dict_ok (ls_positions old_ledger)" "ls_cash_usdt old_ledger = Some 10" "dict_get (ls_positions old_ledger) ''OLDUSDT'' 0 = 2"
    by (simp_all add: old_ledger_def dict_get_def)
  have dir: "dir_ok (cs_codec paper_settings) (ro_month (cs_record paper_settings)) (es_tax (cw_store old_world))"
    by (simp add: old_world_def dir_ok_def)
  from paper_settlement_is_evidenced [OF mode c l(1,2) dir run] run l set(2) show ?thesis by (auto simp: dict_get_def)
qed

end
