(* ===== verification/Execution_Policy.thy ===== *)
theory Execution_Policy
  imports Planner Float_Arith
begin

text \<open>
  The pure part of \<open>src/live/executor.py\<close>: the execution policy and its constructors, the split of
  a quantity into slices, the prices of resting and crossing orders, the immediate-taker simulation,
  and \<open>parse_book_quote\<close> of \<open>src/live/microstructure.py\<close>.

  Times, fees and policy fractions are Python floats, given as the rationals they denote and rounded
  after every operation; \<open>Decimal(str(x))\<close> of a float goes through the text codec.

  Proved here: slices are positive multiples of the step that add up to the quantity; a resting
  price never crosses the opposite touch and never exceeds its anchor; a crossing price reaches the
  opposite touch and stays within the risk rail and the slippage cap; the poll interval stays within
  its bounds.
\<close>

section \<open>Policy\<close>

record fee_schedule =
  fs_maker_fee_bps :: rat
  fs_taker_fee_bps :: rat

definition bps_for :: "fee_schedule \<Rightarrow> string \<Rightarrow> rat res" where
  "bps_for fs liquidity =
     (if liquidity = ''maker'' then Inr (fs_maker_fee_bps fs)
      else if liquidity = ''taker'' then Inr (fs_taker_fee_bps fs) else Inl ValueError)"

definition EXECUTION_BAR_SECONDS :: rat where "EXECUTION_BAR_SECONDS = 180"

definition MAX_SLICE_NOTIONAL :: decimal where "MAX_SLICE_NOTIONAL = 500"

definition PAPER_TAPE_ACK_DELAY_MS :: int where "PAPER_TAPE_ACK_DELAY_MS = 50"

definition UNKNOWN_SUBMISSION_MISS_LIMIT :: int where "UNKNOWN_SUBMISSION_MISS_LIMIT = 2"

definition OUTCOME_STATUSES :: "string list" where
  "OUTCOME_STATUSES = [''FILLED'', ''RESIDUAL'', ''RESIDUAL_SUB_MINIMUM'', ''REJECTED'', ''SHADOW'', ''OBSOLETE'']"

record passive_policy =
  pp_poll_interval_s :: rat
  pp_chase_ticks :: int
  pp_max_chases :: int
  pp_passive_deadline_s :: rat
  pp_window_deadline_s :: rat
  pp_taker_cap_bps :: rat
  pp_chase_band_bps :: rat
  pp_max_cross_bps :: rat
  pp_max_slices :: int
  pp_rate_weight_budget_fraction :: rat
  pp_max_ioc_attempts :: int
  pp_max_consecutive_read_failures :: int
  pp_rate_weight_recover_fraction :: rat
  pp_margin_retry_s :: rat
  pp_max_margin_rejects :: int
  pp_fee_schedule :: fee_schedule
  pp_taker_slippage_bps :: rat
  pp_passive_pricing :: string
  pp_repeg_interval_s :: rat

definition PASSIVE_PRICINGS :: "string list" where
  "PASSIVE_PRICINGS = [''touch_chase'', ''anchored'', ''anchored_repeg'']"

text \<open>The checks of \<open>__post_init__\<close>; each of them raises \<open>ValueError\<close>.\<close>

definition policy_ok :: "passive_policy \<Rightarrow> bool" where
  "policy_ok p \<longleftrightarrow> pp_passive_pricing p \<in> set PASSIVE_PRICINGS
     \<and> pp_passive_deadline_s p < pp_window_deadline_s p
     \<and> (pp_passive_pricing p = ''anchored_repeg'' \<longrightarrow> 0 < pp_repeg_interval_s p \<and> pp_repeg_interval_s p < pp_passive_deadline_s p)
     \<and> 0 < pp_poll_interval_s p \<and> 1 \<le> pp_max_ioc_attempts p \<and> pp_chase_band_bps p < pp_max_cross_bps p
     \<and> 1 \<le> pp_max_consecutive_read_failures p
     \<and> 0 < pp_rate_weight_recover_fraction p \<and> pp_rate_weight_recover_fraction p < pp_rate_weight_budget_fraction p
     \<and> 0 < pp_margin_retry_s p \<and> 1 \<le> pp_max_margin_rejects p"

definition make_policy :: "passive_policy \<Rightarrow> passive_policy res" where
  "make_policy p = (if policy_ok p then Inr p else Inl ValueError)"

text \<open>The field defaults; 0.5 and 0.35 are the floats nearest to them.\<close>

definition default_policy :: passive_policy where
  "default_policy = \<lparr>pp_poll_interval_s = 3, pp_chase_ticks = 2, pp_max_chases = 8, pp_passive_deadline_s = fl (fl (fl (6 / 10) * 30) * 60),
     pp_window_deadline_s = 1800, pp_taker_cap_bps = 8, pp_chase_band_bps = 10, pp_max_cross_bps = 50, pp_max_slices = 4,
     pp_rate_weight_budget_fraction = 1 / 2, pp_max_ioc_attempts = 10, pp_max_consecutive_read_failures = 5,
     pp_rate_weight_recover_fraction = fl (35 / 100), pp_margin_retry_s = 60, pp_max_margin_rejects = 3,
     pp_fee_schedule = \<lparr>fs_maker_fee_bps = 2, fs_taker_fee_bps = 5\<rparr>, pp_taker_slippage_bps = 3,
     pp_passive_pricing = ''touch_chase'', pp_repeg_interval_s = EXECUTION_BAR_SECONDS\<rparr>"

definition backtest_parity_execution_policy :: "fee_schedule \<Rightarrow> rat \<Rightarrow> passive_policy res" where
  "backtest_parity_execution_policy fees slippage = make_policy
     (default_policy\<lparr>pp_passive_deadline_s := EXECUTION_BAR_SECONDS, pp_window_deadline_s := fl (2 * EXECUTION_BAR_SECONDS),
        pp_taker_cap_bps := fl (fs_taker_fee_bps fees + slippage), pp_fee_schedule := fees, pp_taker_slippage_bps := slippage\<rparr>)"

definition strict_passive_execution_policy :: "fee_schedule \<Rightarrow> rat \<Rightarrow> int \<Rightarrow> passive_policy res" where
  "strict_passive_execution_policy fees slippage timeout_minutes =
     (if timeout_minutes < 1 then Inl ValueError
      else let passive = fl (fl (of_int timeout_minutes) * 60)
           in make_policy (default_policy\<lparr>pp_passive_deadline_s := passive,
                pp_window_deadline_s := fl (passive + fl (2 * EXECUTION_BAR_SECONDS)),
                pp_taker_cap_bps := fl (fs_taker_fee_bps fees + slippage), pp_fee_schedule := fees,
                pp_taker_slippage_bps := slippage, pp_passive_pricing := ''anchored''\<rparr>))"

definition strict_passive_repeg_execution_policy :: "fee_schedule \<Rightarrow> rat \<Rightarrow> int \<Rightarrow> rat \<Rightarrow> passive_policy res" where
  "strict_passive_repeg_execution_policy fees slippage timeout_minutes repeg_interval =
     (if timeout_minutes < 1 then Inl ValueError
      else let passive = fl (fl (of_int timeout_minutes) * 60)
           in make_policy (default_policy\<lparr>pp_passive_deadline_s := passive,
                pp_window_deadline_s := fl (passive + fl (2 * EXECUTION_BAR_SECONDS)),
                pp_taker_cap_bps := fl (fs_taker_fee_bps fees + slippage), pp_fee_schedule := fees,
                pp_taker_slippage_bps := slippage, pp_passive_pricing := ''anchored_repeg'',
                pp_repeg_interval_s := repeg_interval\<rparr>))"

section \<open>Slices\<close>

definition slice_quantities :: "decimal \<Rightarrow> int \<Rightarrow> decimal \<Rightarrow> decimal list res" where
  "slice_quantities total_qty slice_count step_size =
     (if slice_count < 1 then Inl ValueError
      else if step_size \<le> 0 then Inl ValueError
      else rbind (ddiv total_qty step_size) (\<lambda>q.
        let total_units = to_integral_value ROUND_DOWN q
        in if dmul total_units step_size \<noteq> total_qty then Inl ValueError
           else let units = round_down_int total_units
                in if units = 0 then Inr []
                   else let base = units div slice_count; remainder = units mod slice_count;
                            counts = map (\<lambda>index. base + (if index < remainder then 1 else 0)) [0..min slice_count units - 1]
                        in Inr (map (\<lambda>count. dmul step_size (of_int count)) (filter (\<lambda>count. 0 < count) counts))))"

definition post_quantity :: "decimal \<Rightarrow> decimal \<Rightarrow> symbol_filters \<Rightarrow> int \<Rightarrow> decimal res" where
  "post_quantity remaining price filters max_slices =
     (if price \<le> 0 then Inr remaining
      else rbind (ddiv (dmul remaining price) MAX_SLICE_NOTIONAL) (\<lambda>ratio.
        let slice_count = min max_slices (max 1 \<lceil>fl ratio\<rceil>)
        in if slice_count \<le> 1 then Inr remaining
           else rbind (slice_quantities remaining slice_count (sf_step_size filters)) (\<lambda>slices.
                  Inr (case slices of [] \<Rightarrow> remaining | x # _ \<Rightarrow> x))))"

section \<open>Prices\<close>

definition BPS_DENOMINATOR :: decimal where "BPS_DENOMINATOR = 10000"

definition float_decimal :: "text_codec \<Rightarrow> rat \<Rightarrow> decimal res" where
  "float_decimal c x = py_decimal c (JFloat x)"

text \<open>\<open>decision_price * Decimal(str(bps)) / 10000\<close> around a centre.\<close>

definition rail_around :: "text_codec \<Rightarrow> decimal \<Rightarrow> rat \<Rightarrow> (decimal \<times> decimal) res" where
  "rail_around c centre bps =
     rbind (float_decimal c bps) (\<lambda>b.
     rbind (ddiv (dmul centre b) BPS_DENOMINATOR) (\<lambda>half. Inr (dsub centre half, dadd centre half)))"

definition band :: "text_codec \<Rightarrow> order_intent \<Rightarrow> passive_policy \<Rightarrow> (decimal \<times> decimal) res" where
  "band c intent policy = rail_around c (oi_decision_price intent) (pp_chase_band_bps policy)"

definition risk_rail :: "text_codec \<Rightarrow> decimal \<Rightarrow> decimal \<Rightarrow> passive_policy \<Rightarrow> (decimal \<times> decimal) res" where
  "risk_rail c bid ask policy =
     rbind (ddiv (dadd bid ask) 2) (\<lambda>mid. rail_around c mid (pp_max_cross_bps policy))"

definition clamp_crossing :: "bool \<Rightarrow> decimal \<Rightarrow> decimal \<Rightarrow> decimal \<times> decimal \<Rightarrow> decimal \<Rightarrow> decimal res" where
  "clamp_crossing is_buy opposite_touch tick rail price =
     (if is_buy
      then rbind (quantize_to_multiple (snd rail) tick ROUND_DOWN) (\<lambda>high.
             let price = min price high
             in if price < opposite_touch then quantize_to_multiple opposite_touch tick ROUND_UP else Inr price)
      else rbind (quantize_to_multiple (fst rail) tick ROUND_UP) (\<lambda>low.
             let price = max price low
             in if opposite_touch < price then quantize_to_multiple opposite_touch tick ROUND_DOWN else Inr price))"

definition capped_ioc_price ::
    "text_codec \<Rightarrow> decimal \<Rightarrow> bool \<Rightarrow> rat \<Rightarrow> decimal \<Rightarrow> (decimal \<times> decimal) option \<Rightarrow> decimal option res" where
  "capped_ioc_price c opposite_touch is_buy taker_cap_bps tick rail =
     rbind (float_decimal c taker_cap_bps) (\<lambda>cap.
     rbind (ddiv cap BPS_DENOMINATOR) (\<lambda>share.
       let factor = (if is_buy then dadd 1 share else dsub 1 share); raw = dmul opposite_touch factor
       in rbind (quantize_to_multiple raw tick (if is_buy then ROUND_DOWN else ROUND_UP)) (\<lambda>price.
          rbind (case rail of None \<Rightarrow> Inr price | Some r \<Rightarrow> clamp_crossing is_buy opposite_touch tick r price) (\<lambda>price.
            Inr (if price \<le> 0 then None
                 else case rail of None \<Rightarrow> Some price
                    | Some r \<Rightarrow> if (if is_buy then snd r < opposite_touch else opposite_touch < fst r) then None else Some price)))))"

definition gtx_candidate :: "decimal \<Rightarrow> bool \<Rightarrow> symbol_filters \<Rightarrow> decimal \<times> decimal \<Rightarrow> decimal option res" where
  "gtx_candidate raw is_buy filters rail =
     rbind (quantize_to_multiple raw (sf_tick_size filters) (if is_buy then ROUND_DOWN else ROUND_UP)) (\<lambda>price.
       Inr (if price \<le> 0 then None
            else if is_buy then (if snd rail < price then None else Some price)
            else (if price < fst rail then None else Some price)))"

definition post_only_quote_price :: "decimal \<Rightarrow> decimal \<times> decimal \<Rightarrow> bool \<Rightarrow> symbol_filters \<Rightarrow> decimal option res" where
  "post_only_quote_price anchor touch is_buy filters =
     (let (bid, ask) = touch; tick = sf_tick_size filters
      in rbind (if is_buy then quantize_to_multiple (min anchor (dsub ask tick)) tick ROUND_DOWN
                else quantize_to_multiple (max anchor (dadd bid tick)) tick ROUND_UP) (\<lambda>price.
           Inr (if price \<le> 0 then None else Some price)))"

definition band_capped_peg_price :: "decimal \<Rightarrow> bool \<Rightarrow> symbol_filters \<Rightarrow> decimal \<times> decimal \<Rightarrow> decimal res" where
  "band_capped_peg_price own_touch is_buy filters rail =
     rbind (quantize_to_multiple own_touch (sf_tick_size filters) (if is_buy then ROUND_DOWN else ROUND_UP)) (\<lambda>price.
       if is_buy then rbind (quantize_to_multiple (snd rail) (sf_tick_size filters) ROUND_DOWN) (\<lambda>high. Inr (min price high))
       else rbind (quantize_to_multiple (fst rail) (sf_tick_size filters) ROUND_UP) (\<lambda>low. Inr (max price low)))"

section \<open>Book quotes\<close>

record book_quote =
  bq_symbol :: string
  bq_bid :: decimal
  bq_ask :: decimal
  bq_bid_qty :: decimal
  bq_ask_qty :: decimal

text \<open>A key, or an older name of it when the value is missing or null.\<close>

definition get_either :: "(string \<times> json) list \<Rightarrow> string \<Rightarrow> string \<Rightarrow> json" where
  "get_either d k k' = (case obj_get d k of JNull \<Rightarrow> obj_get d k' | v \<Rightarrow> v)"

definition quote_qty :: "text_codec \<Rightarrow> json \<Rightarrow> decimal res" where
  "quote_qty c v = (case v of JNull \<Rightarrow> Inr 0 | _ \<Rightarrow> py_decimal c v)"

definition parse_book_quote :: "text_codec \<Rightarrow> string \<Rightarrow> json \<Rightarrow> book_quote option" where
  "parse_book_quote c symbol entry = (case entry of
     JObj d \<Rightarrow>
       (let bid_raw = get_either d ''bidPrice'' ''bid''; ask_raw = get_either d ''askPrice'' ''ask''
        in if bid_raw = JNull \<or> ask_raw = JNull then None
           else case (py_decimal c bid_raw, py_decimal c ask_raw) of
             (Inr bid, Inr ask) \<Rightarrow>
               if bid \<le> 0 \<or> ask \<le> 0 \<or> \<not> bid < ask then None
               else (case (quote_qty c (get_either d ''bidQty'' ''bid_qty''), quote_qty c (get_either d ''askQty'' ''ask_qty'')) of
                   (Inr bq, Inr aq) \<Rightarrow> Some \<lparr>bq_symbol = symbol, bq_bid = bid, bq_ask = ask, bq_bid_qty = bq, bq_ask_qty = aq\<rparr>
                 | _ \<Rightarrow> None)
           | _ \<Rightarrow> None)
   | _ \<Rightarrow> None)"

section \<open>Outcomes and the immediate-taker simulation\<close>

record execution_fill =
  ef_quantity :: decimal
  ef_price :: decimal
  ef_fee_bps :: rat
  ef_reason :: string
  ef_liquidity :: string
  ef_filled_at :: timestamp

record execution_outcome =
  eo_symbol :: string
  eo_filled_qty :: decimal
  eo_unfilled_qty :: decimal
  eo_avg_fill_price :: "decimal option"
  eo_chases :: int
  eo_status :: string
  eo_latency_seconds :: "rat option"
  eo_fills :: "execution_fill list"
  eo_maker_qty :: decimal
  eo_taker_qty :: decimal
  eo_reject_code :: "int option"
  eo_block_reason :: "string option"

definition immediate_taker_outcome :: "passive_policy \<Rightarrow> (string, decimal \<times> decimal) dict \<Rightarrow> timestamp \<Rightarrow> order_intent \<Rightarrow> execution_outcome" where
  "immediate_taker_outcome policy books stamp intent =
     (let fee_bps = fl (fs_taker_fee_bps (pp_fee_schedule policy) + pp_taker_slippage_bps policy)
      in case map_of books (oi_symbol intent) of
        None \<Rightarrow> \<lparr>eo_symbol = oi_symbol intent, eo_filled_qty = 0, eo_unfilled_qty = oi_quantity intent, eo_avg_fill_price = None,
          eo_chases = 0, eo_status = ''RESIDUAL'', eo_latency_seconds = Some 0, eo_fills = [], eo_maker_qty = 0, eo_taker_qty = 0,
          eo_reject_code = None, eo_block_reason = None\<rparr>
      | Some (bid, ask) \<Rightarrow>
          let mid = rnd28 (dadd bid ask / 2)
          in \<lparr>eo_symbol = oi_symbol intent, eo_filled_qty = oi_quantity intent, eo_unfilled_qty = 0, eo_avg_fill_price = Some mid,
            eo_chases = 0, eo_status = ''FILLED'', eo_latency_seconds = Some 0,
            eo_fills = [\<lparr>ef_quantity = oi_quantity intent, ef_price = mid, ef_fee_bps = fee_bps, ef_reason = ''immediate_taker'',
              ef_liquidity = ''taker'', ef_filled_at = stamp\<rparr>],
            eo_maker_qty = 0, eo_taker_qty = oi_quantity intent, eo_reject_code = None, eo_block_reason = None\<rparr>)"

definition simulate_immediate_taker_fills ::
    "order_intent list \<Rightarrow> (string, decimal \<times> decimal) dict \<Rightarrow> passive_policy \<Rightarrow> timestamp \<Rightarrow> execution_outcome list" where
  "simulate_immediate_taker_fills intents books policy stamp = map (immediate_taker_outcome policy books stamp) intents"

section \<open>The poll interval\<close>

record rate_limits =
  rl_request_weight_1m :: int
  rl_orders_1m :: int
  rl_orders_10s :: int

record rate_state =
  rs_used_weight_1m :: "int option"
  rs_order_count_1m :: "int option"
  rs_order_count_10s :: "int option"

text \<open>One counter above the given share of its limit.\<close>

definition over_share :: "rat \<Rightarrow> int option \<Rightarrow> int \<Rightarrow> bool" where
  "over_share fraction used limit = (case used of None \<Rightarrow> False | Some u \<Rightarrow> 0 < limit \<and> fl (fraction * fl (of_int limit)) < of_int u)"

definition order_budget_exceeded :: "passive_policy \<Rightarrow> rate_limits option \<Rightarrow> rate_state option \<Rightarrow> bool" where
  "order_budget_exceeded policy limits state = (case (limits, state) of
     (Some l, Some s) \<Rightarrow> over_share (pp_rate_weight_budget_fraction policy) (rs_order_count_10s s) (rl_orders_10s l)
       \<or> over_share (pp_rate_weight_budget_fraction policy) (rs_order_count_1m s) (rl_orders_1m l)
   | _ \<Rightarrow> False)"

definition any_over :: "rat \<Rightarrow> rate_limits \<Rightarrow> rate_state \<Rightarrow> bool" where
  "any_over fraction l s \<longleftrightarrow> over_share fraction (rs_used_weight_1m s) (rl_request_weight_1m l)
     \<or> over_share fraction (rs_order_count_10s s) (rl_orders_10s l) \<or> over_share fraction (rs_order_count_1m s) (rl_orders_1m l)"

definition throttled_interval :: "passive_policy \<Rightarrow> rate_limits option \<Rightarrow> rate_state option \<Rightarrow> rat \<Rightarrow> rat" where
  "throttled_interval policy limits state interval =
     (let cap = fl (pp_window_deadline_s policy / 4); lowest = pp_poll_interval_s policy
      in case (limits, state) of
        (Some l, Some s) \<Rightarrow>
          if rs_used_weight_1m s = None \<and> rs_order_count_10s s = None \<and> rs_order_count_1m s = None then lowest
          else if any_over (pp_rate_weight_budget_fraction policy) l s then min (max (fl (interval * 2)) lowest) cap
          else if \<not> any_over (pp_rate_weight_recover_fraction policy) l s
          then (if lowest < interval then max (fl (interval / 2)) lowest else lowest)
          else min (max interval lowest) cap
      | _ \<Rightarrow> lowest)"

section \<open>Quantities and prices on a grid\<close>

text \<open>The venue quotes prices in multiples of the tick and quantities in multiples of the step, both
  powers of ten; a value on the grid has at most 28 digits.\<close>

definition grid :: "int \<Rightarrow> decimal \<Rightarrow> bool" where
  "grid e x \<longleftrightarrow> (\<exists>m. x = of_int m * pow10 e \<and> \<bar>m\<bar> < 10 ^ 28)"

lemma gridI: "\<bar>m\<bar> < 10 ^ 28 \<Longrightarrow> grid e (of_int m * pow10 e)"
  by (auto simp: grid_def)

lemma grid_exact: "grid e x \<Longrightarrow> exact28 x"
  by (auto simp: grid_def intro: exact28_scaled)

lemma grid_0 [simp]: "grid e 0"
  using gridI [of 0 e] by simp

lemma grid_minus [simp]: "grid e (- x) = grid e x"
proof -
  have "grid e (- x)" if "grid e x" for x
    using that gridI [of "- m" e for m] by (fastforce simp: grid_def)
  from this [of x] this [of "- x"] show ?thesis by auto
qed

lemma grid_sum: "grid e x \<Longrightarrow> grid e y \<Longrightarrow> grid e z \<Longrightarrow> 0 \<le> y + z \<Longrightarrow> y + z \<le> x \<Longrightarrow> grid e (y + z)"
proof -
  assume g: "grid e x" "grid e y" "grid e z" "0 \<le> y + z" "y + z \<le> x"
  from g(2,3) obtain m n where mn: "y = of_int m * pow10 e" "z = of_int n * pow10 e" by (auto simp: grid_def)
  from g(1) obtain k where k: "x = of_int k * pow10 e" "\<bar>k\<bar> < 10 ^ 28" by (auto simp: grid_def)
  have s: "y + z = of_int (m + n) * pow10 e" by (simp add: mn distrib_right)
  have "0 \<le> m + n" using g(4) pow10_pos [of e] by (simp add: s zero_le_mult_iff del: of_int_add)
  moreover have "m + n \<le> k" using g(5) by (simp only: s k mult_le_cancel_right_pos pow10_pos of_int_le_iff)
  ultimately show "grid e (y + z)" unfolding s using k(2) by (intro gridI) linarith
qed

lemma grid_diff: "grid e x \<Longrightarrow> grid e y \<Longrightarrow> 0 \<le> y \<Longrightarrow> y \<le> x \<Longrightarrow> grid e (x - y)"
  using grid_sum [of e x x "- y"] by simp

lemma dsub_grid: "grid e x \<Longrightarrow> grid e y \<Longrightarrow> 0 \<le> y \<Longrightarrow> y \<le> x \<Longrightarrow> dsub x y = x - y"
  unfolding dsub_def by (rule d28.rnd_exact) (rule grid_exact, rule grid_diff)

lemma dadd_grid: "grid e x \<Longrightarrow> grid e y \<Longrightarrow> grid e z \<Longrightarrow> 0 \<le> y + z \<Longrightarrow> y + z \<le> x \<Longrightarrow> dadd y z = y + z"
  unfolding dadd_def by (rule d28.rnd_exact) (rule grid_exact, rule grid_sum)

lemma floor_grid: "grid e x \<Longrightarrow> of_int \<lfloor>x / pow10 e\<rfloor> * pow10 e = x" "grid e x \<Longrightarrow> of_int \<lceil>x / pow10 e\<rceil> * pow10 e = x"
  by (auto simp: grid_def)

section \<open>Slices add up\<close>

lemma sum_upto_nat: "sum_list (map f [0..int m - 1]) = (\<Sum>i<m. f (int i))"
proof (induction m)
  case (Suc m)
  have "[0..int (Suc m) - 1] = [0..int m - 1] @ [int m]" using upto_rec2 [of 0 "int m"] by simp
  with Suc show ?case by simp
qed simp

lemma sum_counts:
  assumes "0 < u" "1 \<le> n"
  shows "sum_list (map (\<lambda>i. u div n + (if i < u mod n then 1 else 0)) [0..min n u - 1]) = (u :: int)"
proof -
  define m where "m = nat (min n u)"
  have m: "min n u = int m" using assms by (simp add: m_def)
  have r: "u mod n \<le> int m"
    using assms less_imp_le [OF pos_mod_bound [of n u]] zmod_le_nonneg_dividend [of u n] by (simp add: m [symmetric])
  have "(\<Sum>i<m. u div n + (if int i < u mod n then 1 else 0)) = int m * (u div n) + (\<Sum>i<m. if int i < u mod n then 1 else 0)"
    by (simp add: sum.distrib)
  also have "(\<Sum>i<m. if int i < u mod n then 1 else (0::int)) = int (card {i. i < m \<and> int i < u mod n})"
    by (simp add: sum.If_cases Int_def)
  also have "{i. i < m \<and> int i < u mod n} = {..<nat (u mod n)}" using r by auto
  finally have "(\<Sum>i<m. u div n + (if int i < u mod n then 1 else 0)) = int m * (u div n) + u mod n"
    using assms by simp
  also have "\<dots> = u"
  proof (cases "n \<le> u")
    case True
    then show ?thesis using m by (simp add: min_def)
  next
    case False
    then show ?thesis using assms by simp
  qed
  finally show ?thesis unfolding m sum_upto_nat .
qed

lemma slice_quantities_exact:
  assumes "0 < u" and "u < 10 ^ 28" and "1 \<le> n"
  shows "\<exists>counts. slice_quantities (of_int u * pow10 e) n (pow10 e) = Inr (map (\<lambda>k. of_int k * pow10 e) counts)
    \<and> list_all (\<lambda>k. 0 < k) counts \<and> sum_list counts = u \<and> int (length counts) = min n u"
proof -
  define counts where "counts = map (\<lambda>i. u div n + (if i < u mod n then 1 else 0)) [0..min n u - 1]"
  have pos: "list_all (\<lambda>k. 0 < k) counts"
  proof (cases "n \<le> u")
    case True
    then have "0 < u div n" using assms by (simp add: pos_imp_zdiv_pos_iff)
    then show ?thesis by (auto simp: counts_def list_all_iff)
  next
    case False
    then show ?thesis using assms by (auto simp: counts_def list_all_iff)
  qed
  have total: "sum_list counts = u" using sum_counts assms by (simp add: counts_def)
  have small: "0 < k \<and> k \<le> u" if "k \<in> set counts" for k
  proof -
    have "k \<le> sum_list counts" using that pos by (intro member_le_sum_list) (auto simp: list_all_iff less_imp_le)
    then show ?thesis using that pos by (simp add: total list_all_iff)
  qed
  have "dmul (pow10 e) (of_int k) = of_int k * pow10 e" if "k \<in> set counts" for k
    unfolding dmul_def using small [OF that] assms(2) by (subst mult.commute) (intro rnd28_scaled [of k], simp_all)
  then have steps: "map (\<lambda>k. dmul (pow10 e) (of_int k)) (filter (\<lambda>k. 0 < k) counts) = map (\<lambda>k. of_int k * pow10 e) counts"
    using pos by (auto simp: list_all_iff filter_id_conv)
  have u28: "rnd28 (of_int u) = of_int u" "rnd28 (of_int u * pow10 e) = of_int u * pow10 e"
    using assms(1,2) by (intro rnd28_scaled [of u _ 0], simp_all) (intro rnd28_scaled [of u], simp_all)
  have "slice_quantities (of_int u * pow10 e) n (pow10 e) = Inr (map (\<lambda>k. dmul (pow10 e) (of_int k)) (filter (\<lambda>k. 0 < k) counts))"
    using assms by (simp add: slice_quantities_def ddiv_def to_integral_value_def round_down_int_def dmul_def u28 Let_def counts_def)
  moreover have "int (length counts) = min n u" using assms by (simp add: counts_def)
  ultimately show ?thesis using pos total steps by auto
qed

text \<open>The head slice posted next: positive, on the grid, and no more than what remains.\<close>

lemma post_quantity_head:
  assumes "sf_step_size f = pow10 e" "grid e remaining" "0 < remaining"
  shows "\<exists>q. post_quantity remaining price f n = Inr q \<and> 0 < q \<and> q \<le> remaining \<and> grid e q"
proof -
  from assms(2) obtain u where u: "remaining = of_int u * pow10 e" "\<bar>u\<bar> < 10 ^ 28" by (auto simp: grid_def)
  have u0: "0 < u" using assms(3) pow10_pos [of e] by (simp add: u zero_less_mult_iff)
  define m where "m = min n (max 1 \<lceil>fl (rnd28 (dmul remaining price / MAX_SLICE_NOTIONAL))\<rceil>)"
  show ?thesis
  proof (cases "price \<le> 0 \<or> m \<le> 1")
    case True
    then have "post_quantity remaining price f n = Inr remaining"
      by (auto simp: post_quantity_def ddiv_def MAX_SLICE_NOTIONAL_def m_def Let_def)
    with assms show ?thesis by blast
  next
    case False
    from slice_quantities_exact [of u m e] u u0 False obtain counts where
      run: "slice_quantities remaining m (pow10 e) = Inr (map (\<lambda>k. of_int k * pow10 e) counts)"
      and counts: "list_all (\<lambda>k. 0 < k) counts" "sum_list counts = u" by auto
    from counts u0 obtain k ks where k: "counts = k # ks" by (cases counts) auto
    have "0 \<le> sum_list ks" using counts(1) by (intro sum_list_nonneg) (auto simp: k list_all_iff less_imp_le)
    then have "0 < k" "k \<le> u" using counts by (auto simp: k)
    moreover have "post_quantity remaining price f n = Inr (of_int k * pow10 e)"
      using False run by (auto simp: post_quantity_def ddiv_def MAX_SLICE_NOTIONAL_def m_def Let_def k assms(1))
    ultimately show ?thesis using u by (auto simp: u intro!: gridI)
  qed
qed

text \<open>
  The slices of a quantity are exact.  For a quantity of a whole number of steps, the split
  succeeds and gives positive whole numbers of steps, as many as asked for or one per step if there
  are fewer, that add up to the quantity.
\<close>

theorem slices_exact:
  assumes "0 < u" and "u < 10 ^ 28" and "1 \<le> n"
  shows "\<exists>counts. slice_quantities (of_int u * pow10 e) n (pow10 e) = Inr (map (\<lambda>k. of_int k * pow10 e) counts)
    \<and> list_all (\<lambda>k. 0 < k) counts \<and> sum_list counts = u \<and> int (length counts) = min n u"
  using assms by (rule slice_quantities_exact)

theorem slices_exact_witness: "\<exists>counts. slice_quantities (of_int 7 * pow10 (- 3)) 4 (pow10 (- 3)) = Inr (map (\<lambda>k. of_int k * pow10 (- 3)) counts) \<and> sum_list counts = 7"
  using slices_exact [of 7 4 "- 3"] by auto

section \<open>Prices\<close>

lemma min_exact: "exact28 a \<Longrightarrow> exact28 b \<Longrightarrow> exact28 (min a b)" "exact28 a \<Longrightarrow> exact28 b \<Longrightarrow> exact28 (max a b)"
  by (simp_all add: min_def max_def)

lemma grid_pow10 [simp]: "grid e (pow10 e)"
  using gridI [of 1 e] by simp

text \<open>
  A resting order is passive.  With the touch on the tick grid and a positive anchor of at
  most 28 digits, the price of a post-only order is a multiple of the tick; a buy rests strictly
  below the ask and not above its anchor, a sell strictly above the bid and not below its anchor.
\<close>

theorem post_only_price_is_passive:
  assumes "sf_tick_size f = pow10 t" and "grid t bid" and "grid t ask" and "0 < bid" and "bid < ask"
    and "exact28 anchor" and "0 < anchor"
    and "post_only_quote_price anchor (bid, ask) is_buy f = Inr (Some price)"
  shows "(\<exists>k. price = of_int k * pow10 t) \<and> (if is_buy then price < ask \<and> price \<le> anchor else bid < price \<and> anchor \<le> price)"
proof -
  from assms(2,3) obtain b a where ba: "bid = of_int b * pow10 t" "ask = of_int a * pow10 t" "\<bar>a\<bar> < 10 ^ 28" by (auto simp: grid_def)
  have "of_int b * pow10 t < of_int a * pow10 t" "0 < of_int b * pow10 t" using assms(4,5) by (simp_all add: ba)
  then have "b < a" "0 < b" by (simp_all only: mult_less_cancel_right_pos pow10_pos of_int_less_iff zero_less_mult_iff of_int_0_less_iff) auto
  have tick: "1 * pow10 t \<le> of_int a * pow10 t" "of_int (b + 1) * pow10 t \<le> of_int a * pow10 t"
    using \<open>b < a\<close> \<open>0 < b\<close> by (intro mult_right_mono; simp del: of_int_add)+
  have below: "dsub ask (pow10 t) = ask - pow10 t" using assms(3) tick by (intro dsub_grid [of t]) (simp_all add: ba)
  have above: "dadd bid (pow10 t) = bid + pow10 t" using assms(2-5) tick by (intro dadd_grid [of t ask]) (simp_all add: ba distrib_right)
  show ?thesis
  proof (cases is_buy)
    case True
    have "0 \<le> dsub ask (pow10 t)" unfolding below using tick(1) by (simp add: ba)
    then have v: "exact28 (min anchor (dsub ask (pow10 t)))" "0 \<le> min anchor (dsub ask (pow10 t))"
      using min_exact(1) [OF assms(6) d28.exact_rnd [of "ask - pow10 t"]] assms(7)
      by (simp_all add: dsub_def [symmetric])
    with assms(8) True have "price = of_int \<lfloor>min anchor (dsub ask (pow10 t)) / pow10 t\<rfloor> * pow10 t"
      by (auto simp: post_only_quote_price_def assms(1) Let_def quantize_down_pow10 split: if_splits)
    moreover from this have "price \<le> anchor" "price \<le> ask - pow10 t"
      using floor_multiple_le [of "min anchor (dsub ask (pow10 t))" t] below by simp_all
    then have "price < ask \<and> price \<le> anchor" using pow10_pos [of t] by linarith
    ultimately show ?thesis using True by auto
  next
    case False
    have v: "exact28 (max anchor (dadd bid (pow10 t)))" "0 \<le> max anchor (dadd bid (pow10 t))"
      using assms(6,7) by (auto simp: max_def dadd_def d28.exact_rnd)
    with assms(8) False have "price = of_int \<lceil>max anchor (dadd bid (pow10 t)) / pow10 t\<rceil> * pow10 t"
      by (auto simp: post_only_quote_price_def assms(1) Let_def quantize_up_pow10 split: if_splits)
    moreover from this have "anchor \<le> price" "bid + pow10 t \<le> price"
      using ceiling_multiple_ge [of "max anchor (dadd bid (pow10 t))" t] above by simp_all
    then have "bid < price \<and> anchor \<le> price" using pow10_pos [of t] by linarith
    ultimately show ?thesis using False by auto
  qed
qed

theorem post_only_price_is_passive_witness:
  "post_only_quote_price 50000 (49999, 50001) True btc_filters = Inr (Some 50000) \<and> (50000::decimal) < 50001"
proof -
  have t: "sf_tick_size btc_filters = pow10 (- 1)" by (simp add: btc_filters_def pow10_minus_numeral)
  have g: "grid (- 1) 49999" "grid (- 1) 50001" "grid (- 1) 50000"
    using gridI [of 499990 "- 1"] gridI [of 500010 "- 1"] gridI [of 500000 "- 1"] by (simp_all add: pow10_minus_numeral)
  have tick: "grid (- 1) (pow10 (- 1))" by simp
  have below: "dsub 50001 (pow10 (- 1)) = 50001 - pow10 (- 1)"
    by (rule dsub_grid [OF g(2) tick]) (simp_all add: pow10_minus_numeral)
  have v: "post_only_quote_price 50000 (49999, 50001) True btc_filters = Inr (Some 50000)"
    using quantize_down_pow10 [of 50000 "- 1"] grid_exact [OF g(3)]
    by (simp add: post_only_quote_price_def t below Let_def) (simp add: pow10_minus_numeral)
  from post_only_price_is_passive [OF t g(1,2) _ _ grid_exact [OF g(3)] _ v] v show ?thesis by simp
qed

text \<open>A rounded multiple of the cap share stays nonnegative for a cap between 0 and 100 percent.\<close>

lemma cap_factor_bounds:
  assumes "0 \<le> cap" "cap \<le> BPS_DENOMINATOR"
  shows "0 \<le> rnd28 (cap / BPS_DENOMINATOR)" "rnd28 (cap / BPS_DENOMINATOR) \<le> 1"
proof -
  have "rnd28 0 \<le> rnd28 (cap / BPS_DENOMINATOR)" "rnd28 (cap / BPS_DENOMINATOR) \<le> rnd28 1"
    using assms by (intro d28.rnd_mono; simp add: BPS_DENOMINATOR_def)+
  then show "0 \<le> rnd28 (cap / BPS_DENOMINATOR)" "rnd28 (cap / BPS_DENOMINATOR) \<le> 1"
    by (simp_all add: d28.rnd_0 d28.rnd_exact)
qed

lemma rnd28_nonneg: "0 \<le> x \<Longrightarrow> 0 \<le> rnd28 x"
  using d28.rnd_mono [of 0 x] by (simp add: d28.rnd_0)

definition crossing_limit :: "bool \<Rightarrow> decimal \<Rightarrow> decimal \<Rightarrow> decimal" where
  "crossing_limit is_buy touch cap = dmul touch
     (if is_buy then dadd 1 (rnd28 (cap / BPS_DENOMINATOR)) else dsub 1 (rnd28 (cap / BPS_DENOMINATOR)))"

lemma crossing_limit_exact: "exact28 (crossing_limit is_buy touch cap)"
  by (simp add: crossing_limit_def dmul_def d28.exact_rnd)

lemma crossing_limit_nonneg:
  assumes "0 \<le> cap" "cap \<le> BPS_DENOMINATOR" "0 < touch" shows "0 \<le> crossing_limit is_buy touch cap"
  using cap_factor_bounds [OF assms(1,2)] assms(3)
  by (auto simp: crossing_limit_def dmul_def dadd_def dsub_def intro!: rnd28_nonneg mult_nonneg_nonneg)

lemma clamp_crossing_buy:
  assumes "grid t touch" "0 < touch" "exact28 (snd rail)" "0 \<le> snd rail" "touch \<le> snd rail"
    and "clamp_crossing True touch (pow10 t) rail p0 = Inr price"
  shows "touch \<le> price \<and> price \<le> snd rail \<and> price \<le> max touch p0"
proof -
  have up: "quantize_to_multiple touch (pow10 t) ROUND_UP = Inr touch"
    using assms(1,2) by (simp add: quantize_up_pow10 grid_exact floor_grid less_imp_le)
  show ?thesis
    using assms(5,6) floor_multiple_le [of "snd rail" t]
    by (auto simp: clamp_crossing_def quantize_down_pow10 assms(3,4) up Let_def split: if_splits)
qed

lemma clamp_crossing_sell:
  assumes "grid t touch" "0 < touch" "exact28 (fst rail)" "0 \<le> fst rail" "fst rail \<le> touch"
    and "clamp_crossing False touch (pow10 t) rail p0 = Inr price"
  shows "price \<le> touch \<and> fst rail \<le> price \<and> min touch p0 \<le> price"
proof -
  have down: "quantize_to_multiple touch (pow10 t) ROUND_DOWN = Inr touch"
    using assms(1,2) by (simp add: quantize_down_pow10 grid_exact floor_grid less_imp_le)
  show ?thesis
    using assms(5,6) ceiling_multiple_ge [of "fst rail" t]
    by (auto simp: clamp_crossing_def quantize_up_pow10 assms(3,4) down Let_def split: if_splits)
qed

text \<open>
  A crossing order is marketable and capped.  With the opposite touch on the tick grid, a cap
  between 0 and 100 percent and a nonnegative risk rail, a price is returned only if the touch lies
  within the rail; a buy then reaches the ask, stays under the upper rail, and pays at most the ask
  plus the cap; a sell reaches the bid, stays above the lower rail, and gives up at most the cap.
\<close>

theorem ioc_price_marketable_and_capped:
  assumes "grid t touch" and "0 < touch" and "float_decimal c cap_bps = Inr cap" and "0 \<le> cap" and "cap \<le> BPS_DENOMINATOR"
    and "exact28 low" and "exact28 high" and "0 \<le> low" and "0 \<le> high"
    and "capped_ioc_price c touch is_buy cap_bps (pow10 t) (Some (low, high)) = Inr (Some price)"
  shows "if is_buy then touch \<le> price \<and> price \<le> high \<and> price \<le> max touch (crossing_limit True touch cap)
    else price \<le> touch \<and> low \<le> price \<and> min touch (crossing_limit False touch cap) \<le> price"
proof -
  define raw where "raw = crossing_limit is_buy touch cap"
  have raw: "exact28 raw" "0 \<le> raw" using crossing_limit_exact crossing_limit_nonneg assms by (simp_all add: raw_def)
  obtain p0 where p0: "quantize_to_multiple raw (pow10 t) (if is_buy then ROUND_DOWN else ROUND_UP) = Inr p0"
    and bound: "if is_buy then p0 \<le> raw else raw \<le> p0"
    using raw floor_multiple_le [of raw t] ceiling_multiple_ge [of raw t] by (cases is_buy) (simp_all add: quantize_down_pow10 quantize_up_pow10)
  have share: "ddiv cap BPS_DENOMINATOR = Inr (rnd28 (cap / BPS_DENOMINATOR))" by (simp add: ddiv_def BPS_DENOMINATOR_def)
  have "clamp_crossing is_buy touch (pow10 t) (low, high) p0 = Inr price \<and> \<not> (if is_buy then high < touch else touch < low)"
    using assms(10) p0 unfolding capped_ioc_price_def assms(3) rbind_Inr share Let_def raw_def crossing_limit_def
    by (auto simp: result_simps split: if_splits)
  then show ?thesis
    using clamp_crossing_buy [OF assms(1,2), of "(low, high)" p0 price] clamp_crossing_sell [OF assms(1,2), of "(low, high)" p0 price]
      assms(6-9) bound by (cases is_buy) (auto simp: raw_def max_def min_def split: if_splits)
qed

definition cap_codec :: text_codec where
  "cap_codec = plain_codec\<lparr>tc_repr := (\<lambda>j. case j of JFloat q \<Rightarrow> tally_rat q | _ \<Rightarrow> [])\<rparr>"

lemma cap_codec_float [simp]: "float_decimal cap_codec x = Inr x"
  by (simp add: float_decimal_def py_decimal_def py_str_def cap_codec_def plain_codec_def)

theorem ioc_price_marketable_and_capped_witness:
  "\<exists>price. capped_ioc_price cap_codec 100 True 0 (pow10 0) (Some (90, 110)) = Inr (Some price) \<and> 100 \<le> price \<and> price \<le> 110"
proof -
  have g: "grid 0 100" using gridI [of 100 0] by simp
  have e: "exact28 90" "exact28 110" "exact28 100" by (simp_all add: exact28_numeral)
  have run: "capped_ioc_price cap_codec 100 True 0 (pow10 0) (Some (90, 110)) = Inr (Some 100)"
    using quantize_down_pow10 [of 100 0] quantize_down_pow10 [of 110 0] e
    by (simp add: capped_ioc_price_def ddiv_def BPS_DENOMINATOR_def d28.rnd_0 dadd_def d28.rnd_exact dmul_def clamp_crossing_def Let_def)
  from ioc_price_marketable_and_capped [OF g _ cap_codec_float _ _ e(1,2) _ _ run] run show ?thesis
    by (auto simp: BPS_DENOMINATOR_def)
qed

end
