(* ===== verification/Intent_Runtime.thy ===== *)
theory Intent_Runtime
  imports Execution_Policy Venue Sx_Hoare
begin

text \<open>
  The state of one intent during execution (\<open>_IntentRuntime\<close> of \<open>src/live/executor.py\<close>) and the
  operations on it: journalling of fills and terminal states, settlement from venue answers,
  release of the active order, paper fills, the close gate, and the treatment of submissions whose
  outcome is unknown.

  What the executor reaches outside the process is the record \<open>exec_env\<close>: the order client, the
  clock and the sleeper, the shutdown flag, the rate-limit counters, the trade tape of the paper
  mode, and the conversion of a float time to a time stamp.  An operation on one intent runs on a
  \<open>cell\<close>: the runtime, what all intents of a cycle share, and the world.  A runtime refers to the
  reduce-only leg it waits for by its index; the status of that leg is an argument.
\<close>

section \<open>State\<close>

record intent_runtime =
  rt_intent :: order_intent
  rt_filters :: "symbol_filters option"
  rt_fee_schedule :: fee_schedule
  rt_phase :: string
  rt_active_id :: "string option"
  rt_active_price :: decimal
  rt_reported_executed :: decimal
  rt_filled_total :: decimal
  rt_fill_notional :: decimal
  rt_chases :: int
  rt_attempts :: int
  rt_ioc_attempts :: int
  rt_posted_at :: rat
  rt_finalized_at :: rat
  rt_terminal_status :: "string option"
  rt_paper_active :: bool
  rt_active_post_qty :: decimal
  rt_fills :: "execution_fill list"
  rt_passive_started_at :: rat
  rt_last_repeg_at :: rat
  rt_passive_quote :: decimal
  rt_unresolved_id :: "string option"
  rt_unresolved_price :: decimal
  rt_unresolved_post_qty :: decimal
  rt_unresolved_tif :: string
  rt_unknown_misses :: int
  rt_read_failures :: int
  rt_unresolved_at :: rat
  rt_reject_code :: "int option"
  rt_margin_rejects :: int
  rt_margin_wait_until :: rat
  rt_attempt_seq :: "int option"
  rt_shutdown_finalized :: bool
  rt_journal_enabled :: bool
  rt_journal_submitted :: "string list"
  rt_journal_terminals :: "string list"
  rt_order_identity_tolerance_ms :: "int option"
  rt_close_dependency :: "nat option"
  rt_block_reason :: "string option"
  rt_hard_stop_at :: rat
  rt_wait_logged :: bool

definition new_runtime :: "order_intent \<Rightarrow> symbol_filters option \<Rightarrow> fee_schedule \<Rightarrow> intent_runtime" where
  "new_runtime intent filters fees =
     \<lparr>rt_intent = intent, rt_filters = filters, rt_fee_schedule = fees, rt_phase = ''passive'', rt_active_id = None,
      rt_active_price = 0, rt_reported_executed = 0, rt_filled_total = 0, rt_fill_notional = 0, rt_chases = 0, rt_attempts = 0,
      rt_ioc_attempts = 0, rt_posted_at = 0, rt_finalized_at = 0, rt_terminal_status = None, rt_paper_active = False,
      rt_active_post_qty = 0, rt_fills = [], rt_passive_started_at = 0, rt_last_repeg_at = 0, rt_passive_quote = 0,
      rt_unresolved_id = None, rt_unresolved_price = 0, rt_unresolved_post_qty = 0, rt_unresolved_tif = [],
      rt_unknown_misses = 0, rt_read_failures = 0, rt_unresolved_at = 0, rt_reject_code = None, rt_margin_rejects = 0,
      rt_margin_wait_until = 0, rt_attempt_seq = None, rt_shutdown_finalized = False, rt_journal_enabled = False,
      rt_journal_submitted = [], rt_journal_terminals = [], rt_order_identity_tolerance_ms = None, rt_close_dependency = None,
      rt_block_reason = None, rt_hard_stop_at = 0, rt_wait_logged = False\<rparr>"

definition rt_done :: "intent_runtime \<Rightarrow> bool" where
  "rt_done rt \<longleftrightarrow> rt_terminal_status rt \<noteq> None"

definition snapshot :: "intent_runtime \<Rightarrow> execution_outcome" where
  "snapshot rt =
     (let status = (case rt_terminal_status rt of Some s \<Rightarrow> s
            | None \<Rightarrow> if 0 < oi_quantity (rt_intent rt) \<and> oi_quantity (rt_intent rt) \<le> rt_filled_total rt then ''FILLED'' else ''RESIDUAL'');
          latency = (if 0 < rt_posted_at rt \<and> 0 < rt_finalized_at rt then Some (max 0 (fsub (rt_finalized_at rt) (rt_posted_at rt))) else None);
          quantity_of = (\<lambda>liq. foldl (\<lambda>a x. dadd a (ef_quantity x)) 0 (filter (\<lambda>x. ef_liquidity x = liq) (rt_fills rt)))
      in \<lparr>eo_symbol = oi_symbol (rt_intent rt), eo_filled_qty = rt_filled_total rt,
          eo_unfilled_qty = max (dsub (oi_quantity (rt_intent rt)) (rt_filled_total rt)) 0,
          eo_avg_fill_price = (if 0 < rt_filled_total rt then Some (rnd28 (rt_fill_notional rt / rt_filled_total rt)) else None),
          eo_chases = rt_chases rt, eo_status = status, eo_latency_seconds = latency, eo_fills = rt_fills rt,
          eo_maker_qty = quantity_of ''maker'', eo_taker_qty = quantity_of ''taker'',
          eo_reject_code = (if status = ''REJECTED'' then rt_reject_code rt else None), eo_block_reason = rt_block_reason rt\<rparr>)"

text \<open>What the intents of a cycle share: the freeze flags, the submissions by id, and the symbols
  already reported for an invalid quote or a degraded tape.\<close>

record cycle_state =
  cy_risk_increase_frozen :: bool
  cy_freeze_code :: "int option"
  cy_identity_submits :: "(string, journal_submit) dict"
  cy_degraded_symbols :: "string list"
  cy_invalid_reported :: "string list"

record 'v cell =
  cl_rt :: intent_runtime
  cl_cycle :: cycle_state
  cl_world :: "'v world"

section \<open>The outside\<close>

datatype order_response = ShadowResponse | PaperResponse | VenueAccepted

record order_params =
  op_symbol :: string
  op_side :: string
  op_type :: string
  op_time_in_force :: string
  op_quantity :: decimal
  op_price :: decimal
  op_client_order_id :: string
  op_reduce_only :: bool

record 'v trade_tape =
  tp_is_live :: "'v \<Rightarrow> string \<Rightarrow> int \<Rightarrow> bool res"
  tp_traded_through :: "'v \<Rightarrow> string \<Rightarrow> string \<Rightarrow> decimal \<Rightarrow> int \<Rightarrow> int option res"

record 'v exec_env =
  ev_codec :: text_codec
  ev_client :: "'v venue_client"
  ev_new_order :: "order_params \<Rightarrow> 'v \<Rightarrow> order_response res \<times> 'v"
  ev_book_tickers :: "('v \<Rightarrow> (string, json) dict res \<times> 'v) option"
  ev_book_ticker :: "string \<Rightarrow> 'v \<Rightarrow> json res \<times> 'v"
  ev_clock :: "'v \<Rightarrow> rat \<times> 'v"
  ev_sleep :: "rat \<Rightarrow> 'v \<Rightarrow> unit res \<times> 'v"
  ev_shutdown :: "'v \<Rightarrow> bool"
  ev_rate_state :: "'v \<Rightarrow> rate_state option"
  ev_unknown_outcome_horizon :: "'v \<Rightarrow> rat option"
  ev_default_horizon_s :: rat
  ev_default_tolerance_ms :: int
  ev_tape :: "'v trade_tape option"
  ev_fill_time :: "rat \<Rightarrow> timestamp"
  ev_symbol_tag :: "string \<Rightarrow> string"
  ev_policy :: passive_policy
  ev_rate_limits :: "rate_limits option"

abbreviation in_world :: "('v world, 'a) sx \<Rightarrow> ('v cell, 'a) sx" where
  "in_world m \<equiv> sx_zoom cl_world cl_world_update m"

abbreviation upd_rt :: "(intent_runtime \<Rightarrow> intent_runtime) \<Rightarrow> ('v cell, unit) sx" where
  "upd_rt f \<equiv> sx_modify (cl_rt_update f)"

abbreviation get_rt :: "('v cell, intent_runtime) sx" where
  "get_rt \<equiv> sx_gets cl_rt"

definition rt_symbol :: "intent_runtime \<Rightarrow> string" where "rt_symbol rt = oi_symbol (rt_intent rt)"

definition is_buy_side :: "intent_runtime \<Rightarrow> bool" where "is_buy_side rt \<longleftrightarrow> oi_side (rt_intent rt) = ''BUY''"

definition rt_audit :: "string \<Rightarrow> string option \<Rightarrow> string \<Rightarrow> ('v cell, unit) sx" where
  "rt_audit event cid status = sx_bind get_rt (\<lambda>rt.
     in_world (audit_record event (rt_symbol rt) (case cid of None \<Rightarrow> [] | Some x \<Rightarrow> x) status))"

section \<open>Journalling\<close>

definition journal_terminal_once :: "'v exec_env \<Rightarrow> string option \<Rightarrow> string \<Rightarrow> ('v cell, unit) sx" where
  "journal_terminal_once env order_id status = sx_bind get_rt (\<lambda>rt. case order_id of
     None \<Rightarrow> sx_return ()
   | Some oid \<Rightarrow>
       if oid \<in> set (rt_journal_terminals rt) \<or> oid \<notin> set (rt_journal_submitted rt) then sx_return ()
       else sx_bind (upd_rt (rt_journal_terminals_update (\<lambda>ts. oid # ts))) (\<lambda>_.
              in_world (on_journal (ev_client env) (\<lambda>now. record_terminal (ev_codec env) now oid status))))"

definition release_active :: "'v exec_env \<Rightarrow> string \<Rightarrow> ('v cell, unit) sx" where
  "release_active env status = sx_bind get_rt (\<lambda>rt.
     sx_bind (journal_terminal_once env (rt_active_id rt) status) (\<lambda>_.
       upd_rt (\<lambda>rt. rt\<lparr>rt_active_id := None, rt_active_price := 0, rt_active_post_qty := 0, rt_reported_executed := 0,
                      rt_paper_active := False\<rparr>)))"

definition execution_request ::
    "intent_runtime \<Rightarrow> decimal \<Rightarrow> decimal \<Rightarrow> rat \<Rightarrow> string \<Rightarrow> string \<Rightarrow> timestamp \<Rightarrow> string \<Rightarrow> decimal option \<Rightarrow> bool \<Rightarrow> fill_request" where
  "execution_request rt quantity price fee_bps liquidity reason filled_at cid cumulative simulated =
     \<lparr>fr_kind = ''execution'', fr_attempt_seq = rt_attempt_seq rt, fr_symbol = rt_symbol rt, fr_side = oi_side (rt_intent rt),
      fr_quantity = quantity, fr_price = price, fr_fee_bps = fee_bps, fr_liquidity = liquidity, fr_reason = reason,
      fr_filled_at = Aware filled_at, fr_client_order_id = Some cid, fr_leg_index = oi_leg_index (rt_intent rt),
      fr_cumulative_executed_qty = cumulative, fr_simulated = simulated\<rparr>"

definition apply_execution_fill ::
    "'v exec_env \<Rightarrow> decimal \<Rightarrow> decimal \<Rightarrow> string \<Rightarrow> string \<Rightarrow> decimal \<Rightarrow> bool \<Rightarrow> rat \<Rightarrow> ('v cell, unit) sx" where
  "apply_execution_fill env quantity price liquidity cid cumulative simulated now =
     (if quantity \<le> 0 \<or> price \<le> 0 then sx_raise ValueError
      else sx_bind get_rt (\<lambda>rt.
           sx_bind (sx_lift (bps_for (rt_fee_schedule rt) liquidity)) (\<lambda>fee_bps.
             let reason = (if liquidity = ''maker'' then ''maker_fill'' else ''timeout_taker''); filled_at = ev_fill_time env now
             in sx_bind (sx_when (rt_journal_enabled rt)
                  (sx_bind (in_world (on_journal (ev_client env) (\<lambda>clock. record_fill (ev_codec env) clock
                     (execution_request rt quantity price fee_bps liquidity reason filled_at cid
                        (if simulated then None else Some cumulative) simulated)))) (\<lambda>_. sx_return ()))) (\<lambda>_.
                sx_bind (upd_rt (\<lambda>rt. rt\<lparr>rt_filled_total := dadd (rt_filled_total rt) quantity,
                    rt_fill_notional := dadd (rt_fill_notional rt) (dmul quantity price), rt_reported_executed := cumulative,
                    rt_fills := rt_fills rt @ [\<lparr>ef_quantity = quantity, ef_price = price, ef_fee_bps = fee_bps, ef_reason = reason,
                                               ef_liquidity = liquidity, ef_filled_at = filled_at\<rparr>]\<rparr>)) (\<lambda>_.
                  rt_audit ''fill'' (Some cid) [])))))"

section \<open>Venue answers\<close>

definition parse_avg_price :: "text_codec \<Rightarrow> payload \<Rightarrow> decimal option" where
  "parse_avg_price c p =
     (let raw = (case map_of p ''avgPrice'' of Some v \<Rightarrow> v | None \<Rightarrow> obj_get p ''avg_price'')
      in if raw = JNull \<or> strip (py_str c raw) = [] then None
         else case py_decimal c raw of Inl _ \<Rightarrow> None | Inr price \<Rightarrow> if 0 < price then Some price else None)"

definition executed_of :: "text_codec \<Rightarrow> payload \<Rightarrow> decimal res" where
  "executed_of c p = (case map_of p ''executedQty'' of None \<Rightarrow> Inr 0 | Some v \<Rightarrow> py_decimal c v)"

definition guard_active_identity :: "'v exec_env \<Rightarrow> payload \<Rightarrow> ('v cell, unit) sx" where
  "guard_active_identity env payload = (\<lambda>s.
     let rt = cl_rt s; margin = vc_clock_offset_margin_ms (ev_client env);
         tolerance = (case rt_order_identity_tolerance_ms rt of None \<Rightarrow> ev_default_tolerance_ms env | Some t \<Rightarrow> t)
                       + (if 0 < margin then margin else 0)
     in (if \<not> rt_journal_enabled rt then Inr ()
         else case rt_active_id rt of None \<Rightarrow> Inr ()
            | Some cid \<Rightarrow> (case map_of (cy_identity_submits (cl_cycle s)) cid of None \<Rightarrow> Inr ()
                | Some m \<Rightarrow> if js_recorded_at m = TS_MIN then Inr ()
                    else assert_order_identity (ev_codec env) payload (js_recorded_at m) tolerance), s))"

text \<open>The tail of \<open>_sync_venue_order\<close>, once the payload is known.\<close>

definition apply_venue_payload :: "'v exec_env \<Rightarrow> rat \<Rightarrow> string \<Rightarrow> payload \<Rightarrow> ('v cell, string) sx" where
  "apply_venue_payload env now cid payload =
     sx_bind (guard_active_identity env payload) (\<lambda>_.
     sx_bind get_rt (\<lambda>rt.
     sx_bind (sx_lift (executed_of (ev_codec env) payload)) (\<lambda>executed.
     sx_bind (sx_lift (guard_res (executed \<le> rt_active_post_qty rt) DataIntegrityError)) (\<lambda>_.
     sx_bind (sx_when (rt_reported_executed rt < executed)
        (apply_execution_fill env (dsub executed (rt_reported_executed rt))
           (case parse_avg_price (ev_codec env) payload of Some p \<Rightarrow> p | None \<Rightarrow> rt_active_price rt)
           (if rt_phase rt = ''passive'' then ''maker'' else ''taker'') cid executed False now)) (\<lambda>_.
       sx_return (payload_status (ev_codec env) payload))))))"

definition sync_venue_order :: "'v exec_env \<Rightarrow> rat \<Rightarrow> payload option \<Rightarrow> ('v cell, string) sx" where
  "sync_venue_order env now payload = sx_bind get_rt (\<lambda>rt. case rt_active_id rt of
     None \<Rightarrow> sx_raise AssertionError
   | Some cid \<Rightarrow>
       if rt_paper_active rt then sx_raise AssertionError
       else sx_bind (case payload of Some p \<Rightarrow> sx_return p
               | None \<Rightarrow> in_world (on_venue (vc_query (ev_client env) (rt_symbol rt) cid))) (\<lambda>p.
            apply_venue_payload env now cid p))"

text \<open>The shared end of a cancellation: settle what the confirmation reports, then insist on it.\<close>

definition settle_confirmation :: "'v exec_env \<Rightarrow> rat \<Rightarrow> cancel_confirmation \<Rightarrow> ('v cell, unit) sx" where
  "settle_confirmation env now conf =
     sx_bind (case cc_payload conf of None \<Rightarrow> sx_return [] | Some p \<Rightarrow> sync_venue_order env now (Some p)) (\<lambda>_.
       if \<not> cc_closed conf \<or> cc_payload conf = None
       then sx_bind get_rt (\<lambda>rt. sx_bind (rt_audit ''order_cancel_unconfirmed'' (rt_active_id rt) (cc_status conf)) (\<lambda>_.
              sx_raise CancelNotConfirmed))
       else sx_return ())"

definition cancel_and_settle :: "'v exec_env \<Rightarrow> string \<Rightarrow> rat \<Rightarrow> ('v cell, unit) sx" where
  "cancel_and_settle env reason now = sx_bind get_rt (\<lambda>rt. case rt_active_id rt of
     None \<Rightarrow> sx_raise AssertionError
   | Some cid \<Rightarrow>
       sx_bind (rt_audit ''order_cancelled'' (Some cid) reason) (\<lambda>_.
         if rt_paper_active rt then release_active env ''CANCELED''
         else sx_bind (in_world (cancel_and_confirm (ev_codec env) (ev_client env) (rt_symbol rt) cid)) (\<lambda>conf.
              sx_bind (settle_confirmation env now conf) (\<lambda>_. release_active env (cc_status conf)))))"

section \<open>Paper fills\<close>

definition now_ms :: "rat \<Rightarrow> int" where "now_ms t = round_down_int (fl (t * 1000))"

definition tape_live :: "'v exec_env \<Rightarrow> 'v trade_tape \<Rightarrow> string \<Rightarrow> rat \<Rightarrow> 'v \<Rightarrow> bool" where
  "tape_live env tape symbol now v = (case tp_is_live tape v symbol (now_ms now) of Inr b \<Rightarrow> b | Inl _ \<Rightarrow> False)"

text \<open>\<open>_simulate_paper_fill\<close>; the tape is given together with the time, or not at all.\<close>

definition simulate_paper_fill ::
    "'v exec_env \<Rightarrow> intent_runtime \<Rightarrow> decimal \<times> decimal \<Rightarrow> string \<Rightarrow> decimal \<Rightarrow> decimal \<Rightarrow> ('v trade_tape \<times> rat) option \<Rightarrow> 'v \<Rightarrow> decimal" where
  "simulate_paper_fill env rt touch tif price post_qty tape v =
     (let (bid, ask) = touch;
          by_touch = (if is_buy_side rt then ask < price else price < bid);
          by_tape = (case tape of None \<Rightarrow> False
            | Some (tp, now) \<Rightarrow> tape_live env tp (rt_symbol rt) now v \<and>
                (case tp_traded_through tp v (rt_symbol rt) (oi_side (rt_intent rt)) price (now_ms (rt_posted_at rt) + PAPER_TAPE_ACK_DELAY_MS) of
                   Inr (Some fill_ms) \<Rightarrow> fill_ms \<le> now_ms now | _ \<Rightarrow> False))
      in if tif = ''GTX'' \<and> \<not> by_touch \<and> \<not> by_tape then 0 else post_qty)"

definition note_paper_tape_degraded :: "('v cell, unit) sx" where
  "note_paper_tape_degraded = (\<lambda>s.
     let symbol = rt_symbol (cl_rt s)
     in if symbol \<in> set (cy_degraded_symbols (cl_cycle s)) then (Inr (), s)
        else rt_audit ''paper_tape_degraded'' None []
          (s\<lparr>cl_cycle := (cl_cycle s)\<lparr>cy_degraded_symbols := symbol # cy_degraded_symbols (cl_cycle s)\<rparr>\<rparr>))"

text \<open>A resting paper order against the touch and, when it is live, the tape.\<close>

definition paper_gtx_fill :: "'v exec_env \<Rightarrow> decimal \<times> decimal \<Rightarrow> decimal \<Rightarrow> decimal \<Rightarrow> rat \<Rightarrow> ('v cell, decimal) sx" where
  "paper_gtx_fill env touch price post_qty now =
     sx_bind get_rt (\<lambda>rt.
     sx_bind (sx_gets (\<lambda>s. wd_venue (cl_world s))) (\<lambda>v.
     case ev_tape env of
       None \<Rightarrow> sx_return (simulate_paper_fill env rt touch ''GTX'' price post_qty None v)
     | Some tape \<Rightarrow>
         if tape_live env tape (rt_symbol rt) now v
         then sx_return (simulate_paper_fill env rt touch ''GTX'' price post_qty (Some (tape, now)) v)
         else sx_bind note_paper_tape_degraded (\<lambda>_. sx_return (simulate_paper_fill env rt touch ''GTX'' price post_qty None v))))"

section \<open>The close gate\<close>

datatype gate = GateOpen | GateWait | GateBlocked

definition gate_state :: "string option option \<Rightarrow> gate" where
  "gate_state dep = (case dep of None \<Rightarrow> GateOpen | Some None \<Rightarrow> GateWait
     | Some (Some status) \<Rightarrow> if status \<in> {''RESIDUAL'', ''REJECTED''} then GateBlocked else GateOpen)"

definition gated_passive_deadline_s :: "passive_policy \<Rightarrow> intent_runtime \<Rightarrow> rat" where
  "gated_passive_deadline_s policy rt =
     (if rt_close_dependency rt = None then pp_passive_deadline_s policy
      else let reserve = fsub (pp_window_deadline_s policy) (pp_passive_deadline_s policy);
               remaining = fsub (fsub (rt_hard_stop_at rt) (rt_passive_started_at rt)) reserve
           in min (pp_passive_deadline_s policy) (max 0 remaining))"

definition set_terminal :: "string \<Rightarrow> rat \<Rightarrow> ('v cell, unit) sx" where
  "set_terminal status now = upd_rt (\<lambda>rt. rt\<lparr>rt_terminal_status := Some status, rt_finalized_at := now\<rparr>)"

definition apply_close_gate :: "string option option \<Rightarrow> rat \<Rightarrow> ('v cell, bool) sx" where
  "apply_close_gate dep now = (case gate_state dep of
     GateOpen \<Rightarrow> sx_return False
   | GateWait \<Rightarrow> sx_bind get_rt (\<lambda>rt.
       sx_bind (sx_when (\<not> rt_wait_logged rt) (sx_bind (upd_rt (\<lambda>rt. rt\<lparr>rt_wait_logged := True\<rparr>)) (\<lambda>_. rt_audit ''flip_open_waiting'' None []))) (\<lambda>_.
         sx_return True))
   | GateBlocked \<Rightarrow>
       sx_bind (upd_rt (\<lambda>rt. rt\<lparr>rt_terminal_status := Some ''RESIDUAL'', rt_block_reason := Some ''blocked_by_close_leg'', rt_finalized_at := now\<rparr>)) (\<lambda>_.
       sx_bind (rt_audit ''flip_open_blocked'' None []) (\<lambda>_. sx_return True)))"

section \<open>Submissions of unknown outcome\<close>

definition unknown_outcome_horizon_s :: "'v exec_env \<Rightarrow> 'v \<Rightarrow> rat" where
  "unknown_outcome_horizon_s env v = (case ev_unknown_outcome_horizon env v of
     Some h \<Rightarrow> if 0 < h then h else ev_default_horizon_s env | None \<Rightarrow> ev_default_horizon_s env)"

definition lookup_unknown_submission :: "'v exec_env \<Rightarrow> ('v cell, bool) sx" where
  "lookup_unknown_submission env = sx_bind get_rt (\<lambda>rt. case rt_unresolved_id rt of
     None \<Rightarrow> sx_raise AssertionError
   | Some cid \<Rightarrow> sx_bind (in_world (query_known (ev_client env) (rt_symbol rt) cid)) (\<lambda>answer. sx_return (answer \<noteq> None)))"

definition adopt_unresolved :: "rat \<Rightarrow> ('v cell, unit) sx" where
  "adopt_unresolved now = upd_rt (\<lambda>rt. rt\<lparr>rt_active_id := rt_unresolved_id rt, rt_active_price := rt_unresolved_price rt,
     rt_active_post_qty := rt_unresolved_post_qty rt, rt_reported_executed := 0, rt_posted_at := now,
     rt_ioc_attempts := rt_ioc_attempts rt + (if rt_unresolved_tif rt = ''IOC'' then 1 else 0),
     rt_unresolved_id := None, rt_unknown_misses := 0\<rparr>)"

definition adopt_unknown_submission :: "rat \<Rightarrow> ('v cell, unit) sx" where
  "adopt_unknown_submission now = sx_bind get_rt (\<lambda>rt.
     sx_bind (rt_audit ''order_unknown_adopted'' (rt_unresolved_id rt) []) (\<lambda>_. adopt_unresolved now))"

definition declare_not_placed :: "'v exec_env \<Rightarrow> ('v cell, unit) sx" where
  "declare_not_placed env = sx_bind get_rt (\<lambda>rt.
     sx_bind (rt_audit ''order_unknown_not_placed'' (rt_unresolved_id rt) []) (\<lambda>_.
     sx_bind (journal_terminal_once env (rt_unresolved_id rt) ''NOT_PLACED'') (\<lambda>_.
       upd_rt (\<lambda>rt. rt\<lparr>rt_unresolved_id := None, rt_unknown_misses := 0\<rparr>))))"

text \<open>A lookup that found nothing: it counts, and after enough misses and time the order was never placed.\<close>

definition count_miss :: "'v exec_env \<Rightarrow> rat \<Rightarrow> ('v cell, bool) sx" where
  "count_miss env now =
     sx_bind (upd_rt (\<lambda>rt. rt\<lparr>rt_unknown_misses := rt_unknown_misses rt + 1\<rparr>)) (\<lambda>_.
     sx_bind (sx_gets (\<lambda>s. s)) (\<lambda>s.
       if rt_unknown_misses (cl_rt s) < UNKNOWN_SUBMISSION_MISS_LIMIT then sx_return False
       else if fsub now (rt_unresolved_at (cl_rt s)) < unknown_outcome_horizon_s env (wd_venue (cl_world s)) then sx_return False
       else sx_bind (declare_not_placed env) (\<lambda>_. sx_return True)))"

definition resolve_unknown_submission :: "'v exec_env \<Rightarrow> rat \<Rightarrow> ('v cell, bool) sx" where
  "resolve_unknown_submission env now =
     sx_bind (sx_catch (sx_bind (lookup_unknown_submission env) (\<lambda>b. sx_return (Some b)))
        (\<lambda>e. if e = TransientReadError then sx_return None else sx_raise e)) (\<lambda>found. case found of
       None \<Rightarrow> sx_return False
     | Some True \<Rightarrow> sx_bind (adopt_unknown_submission now) (\<lambda>_. sx_return True)
     | Some False \<Rightarrow> count_miss env now)"

definition read_clock :: "'v exec_env \<Rightarrow> ('v cell, rat) sx" where
  "read_clock env = in_world (on_venue (\<lambda>v. case ev_clock env v of (t, v') \<Rightarrow> (Inr t, v')))"

definition resolve_unknown_at_exit ::
    "'v exec_env \<Rightarrow> (rat \<Rightarrow> 'v \<Rightarrow> unit res \<times> 'v) \<Rightarrow> rat \<Rightarrow> ('v cell, rat option) sx" where
  "resolve_unknown_at_exit env sleep now =
     sx_bind (sx_gets (\<lambda>s. (unknown_outcome_horizon_s env (wd_venue (cl_world s)), rt_unresolved_at (cl_rt s)))) (\<lambda>(horizon, since).
     sx_bind (lookup_unknown_submission env) (\<lambda>found.
       if found then sx_bind (adopt_unknown_submission now) (\<lambda>_. sx_return (Some now))
       else if horizon \<le> fsub now since then sx_bind (declare_not_placed env) (\<lambda>_. sx_return (Some now))
       else
         sx_bind (in_world (on_venue (sleep (fsub horizon (fsub now since))))) (\<lambda>_.
         sx_bind (read_clock env) (\<lambda>now.
         sx_bind (lookup_unknown_submission env) (\<lambda>found.
           if found then sx_bind (adopt_unknown_submission now) (\<lambda>_. sx_return (Some now))
           else if fsub now since < horizon
           then sx_bind get_rt (\<lambda>rt. sx_bind (rt_audit ''order_unknown_left_unresolved'' (rt_unresolved_id rt) []) (\<lambda>_. sx_return None))
           else sx_bind (declare_not_placed env) (\<lambda>_. sx_return (Some now)))))))"

end
