(* ===== verification/Executor.thy ===== *)
theory Executor
  imports Intent_Runtime
begin

text \<open>
  The execution loop of \<open>src/live/executor.py\<close>: polling and posting of one intent, the loop over
  the ticks of a window, the clean end of a window, of a shutdown and of an abort, and
  \<open>execute_intents\<close>.

  The loop runs on an \<open>exec\<close> state: the runtimes of all intents, what they share, and the world.
\<close>

section \<open>Polling the active order\<close>

definition remaining_qty :: "intent_runtime \<Rightarrow> decimal" where
  "remaining_qty rt = dsub (oi_quantity (rt_intent rt)) (rt_filled_total rt)"

text \<open>A resting paper order took a fill: true when that completed the order.\<close>

definition book_resting :: "'v exec_env \<Rightarrow> intent_runtime \<Rightarrow> decimal \<Rightarrow> rat \<Rightarrow> ('v cell, bool) sx" where
  "book_resting env rt fill now =
     sx_bind (apply_execution_fill env fill (rt_active_price rt) ''maker'' (the (rt_active_id rt)) (dadd (rt_reported_executed rt) fill) True now) (\<lambda>_.
     sx_bind get_rt (\<lambda>rt.
       if rt_active_post_qty rt \<le> rt_reported_executed rt
       then sx_bind (release_active env ''FILLED'') (\<lambda>_.
            sx_bind (sx_when (remaining_qty rt \<le> 0) (set_terminal ''FILLED'' now)) (\<lambda>_. sx_return True))
       else sx_return False))"

text \<open>The paper branch of \<open>_poll_active\<close>: true when the poll is over for this tick.\<close>

definition poll_paper :: "'v exec_env \<Rightarrow> decimal \<times> decimal \<Rightarrow> rat \<Rightarrow> ('v cell, bool) sx" where
  "poll_paper env touch now = sx_bind get_rt (\<lambda>rt.
     let resting_qty = dsub (rt_active_post_qty rt) (rt_reported_executed rt)
     in if pp_passive_pricing (ev_policy env) \<in> {''anchored'', ''anchored_repeg''} \<and> rt_phase rt = ''passive''
           \<and> 0 < rt_active_price rt \<and> 0 < resting_qty
        then sx_bind (paper_gtx_fill env touch (rt_active_price rt) resting_qty now) (\<lambda>fill.
               if fill \<le> 0 then sx_return False else book_resting env rt fill now)
        else sx_return False)"

text \<open>The phase step of \<open>_poll_active\<close> for an order that is not complete.\<close>

definition poll_passive :: "'v exec_env \<Rightarrow> symbol_filters \<Rightarrow> decimal \<times> decimal \<Rightarrow> rat \<Rightarrow> ('v cell, unit) sx" where
  "poll_passive env filters touch now = sx_bind get_rt (\<lambda>rt.
     sx_bind (sx_lift (band (ev_codec env) (rt_intent rt) (ev_policy env))) (\<lambda>rail.
       let policy = ev_policy env; is_buy = is_buy_side rt; own_touch = (if is_buy then fst touch else snd touch);
           timed_out = (gated_passive_deadline_s policy rt \<le> fsub now (rt_passive_started_at rt));
           exhausted = (pp_passive_pricing policy = ''touch_chase'' \<and> pp_max_chases policy \<le> rt_chases rt);
           repeg_due = (pp_passive_pricing policy = ''anchored_repeg'' \<and> pp_repeg_interval_s policy \<le> fsub now (rt_last_repeg_at rt));
           moved = (dmul (sf_tick_size filters) (of_int (pp_chase_ticks policy)) \<le> dabs (dsub own_touch (rt_active_price rt)));
           slice_done = (0 < rt_active_post_qty rt \<and> rt_active_post_qty rt \<le> rt_reported_executed rt \<and> 0 < remaining_qty rt)
       in if timed_out
          then sx_bind (cancel_and_settle env ''passive_timeout'' now) (\<lambda>_. upd_rt (\<lambda>rt. rt\<lparr>rt_phase := ''ioc''\<rparr>))
          else if slice_done then cancel_and_settle env ''slice_done'' now
          else if exhausted then sx_return ()
          else if repeg_due
          then sx_bind (sx_lift (band_capped_peg_price own_touch is_buy filters rail)) (\<lambda>candidate.
               sx_bind (upd_rt (\<lambda>rt. rt\<lparr>rt_last_repeg_at := now, rt_passive_quote := candidate\<rparr>)) (\<lambda>_.
                 sx_when (candidate \<noteq> rt_active_price rt) (cancel_and_settle env ''repeg'' now)))
          else if moved \<and> pp_passive_pricing policy = ''touch_chase''
          then sx_bind (cancel_and_settle env ''chase'' now) (\<lambda>_. upd_rt (\<lambda>rt. rt\<lparr>rt_chases := rt_chases rt + 1\<rparr>))
          else sx_return ()))"

definition poll_active :: "'v exec_env \<Rightarrow> symbol_filters \<Rightarrow> decimal \<times> decimal \<Rightarrow> rat \<Rightarrow> ('v cell, unit) sx" where
  "poll_active env filters touch now = sx_bind get_rt (\<lambda>rt.
     sx_bind (if rt_paper_active rt then poll_paper env touch now
              else sx_bind (sync_venue_order env now None) (\<lambda>_. sx_return False)) (\<lambda>over.
       if over then sx_return ()
       else sx_bind get_rt (\<lambda>rt.
         if remaining_qty rt \<le> 0
         then sx_bind (sx_when (rt_active_id rt \<noteq> None) (release_active env ''FILLED'')) (\<lambda>_. set_terminal ''FILLED'' now)
         else if rt_phase rt = ''passive'' then poll_passive env filters touch now
         else cancel_and_settle env ''ioc_expired'' now)))"

section \<open>Posting\<close>

definition end_rejected :: "'v exec_env \<Rightarrow> rat \<Rightarrow> int option \<Rightarrow> string option \<Rightarrow> ('v cell, unit) sx" where
  "end_rejected env now code order_id =
     sx_bind (journal_terminal_once env order_id ''REJECTED'') (\<lambda>_.
     sx_bind (upd_rt (\<lambda>rt. rt\<lparr>rt_terminal_status := Some ''REJECTED'', rt_reject_code := code, rt_finalized_at := now\<rparr>)) (\<lambda>_.
       rt_audit ''intent_rejected'' order_id []))"

definition end_sub_minimum :: "rat \<Rightarrow> ('v cell, unit) sx" where
  "end_sub_minimum now = sx_bind (set_terminal ''RESIDUAL_SUB_MINIMUM'' now) (\<lambda>_. rt_audit ''intent_sub_minimum'' None [])"

definition TOO_MANY_REQUESTS :: int where "TOO_MANY_REQUESTS = 429"

definition handle_post_error :: "'v exec_env \<Rightarrow> int option \<Rightarrow> int \<Rightarrow> string \<Rightarrow> rat \<Rightarrow> ('v cell, bool) sx" where
  "handle_post_error env code http order_id now = sx_bind get_rt (\<lambda>rt.
     let action = resolve_error_action code; handled = (\<lambda>m. sx_bind m (\<lambda>_. sx_return True))
     in if http = TOO_MANY_REQUESTS \<or> action = RETRY_BACKOFF_LONG
        then handled (sx_bind (journal_terminal_once env (Some order_id) ''NOT_PLACED'') (\<lambda>_. rt_audit ''order_rate_limited'' (Some order_id) []))
        else if action = INTENT_REJECT then handled (end_rejected env now code (Some order_id))
        else if action = MARGIN_WAIT
        then if oi_reduce_only (rt_intent rt) then handled (end_rejected env now code (Some order_id))
             else sx_bind (upd_rt (\<lambda>rt. rt\<lparr>rt_margin_rejects := rt_margin_rejects rt + 1\<rparr>)) (\<lambda>_.
                  if pp_max_margin_rejects (ev_policy env) < rt_margin_rejects rt + 1 then handled (end_rejected env now code (Some order_id))
                  else sx_bind (upd_rt (\<lambda>rt. rt\<lparr>rt_margin_wait_until := fl (now + pp_margin_retry_s (ev_policy env))\<rparr>)) (\<lambda>_.
                       handled (sx_bind (journal_terminal_once env (Some order_id) ''NOT_PLACED'') (\<lambda>_. rt_audit ''intent_margin_wait'' (Some order_id) []))))
        else if action = RISK_INCREASE_FREEZE
        then sx_bind (sx_modify (cl_cycle_update (\<lambda>c. c\<lparr>cy_risk_increase_frozen := True, cy_freeze_code := code\<rparr>))) (\<lambda>_.
             sx_bind (rt_audit ''risk_increase_frozen'' None []) (\<lambda>_. handled (end_rejected env now code (Some order_id))))
        else if action = BENIGN_REPRICE
        then sx_bind (journal_terminal_once env (Some order_id) ''NOT_PLACED'') (\<lambda>_.
             handled (upd_rt (\<lambda>rt. rt\<lparr>rt_chases := rt_chases rt + 1\<rparr>)))
        else sx_return False)"

definition mark_posted :: "string \<Rightarrow> decimal \<Rightarrow> decimal \<Rightarrow> rat \<Rightarrow> bool \<Rightarrow> ('v cell, unit) sx" where
  "mark_posted order_id price post_qty now simulated =
     upd_rt (\<lambda>rt. rt\<lparr>rt_active_id := Some order_id, rt_active_price := price, rt_active_post_qty := post_qty,
       rt_reported_executed := 0, rt_posted_at := now, rt_paper_active := (if simulated then True else rt_paper_active rt)\<rparr>)"

definition record_order_posted :: "string \<Rightarrow> string \<Rightarrow> ('v cell, unit) sx" where
  "record_order_posted order_id tif =
     sx_bind (sx_when (tif = ''IOC'') (upd_rt (\<lambda>rt. rt\<lparr>rt_ioc_attempts := rt_ioc_attempts rt + 1\<rparr>))) (\<lambda>_.
       rt_audit ''order_posted'' (Some order_id) tif)"

definition book_paper_post :: "'v exec_env \<Rightarrow> string \<Rightarrow> string \<Rightarrow> decimal \<Rightarrow> decimal \<Rightarrow> decimal \<Rightarrow> rat \<Rightarrow> ('v cell, unit) sx" where
  "book_paper_post env order_id tif price post_qty executed now =
     sx_bind (apply_execution_fill env executed price (if tif = ''GTX'' then ''maker'' else ''taker'') order_id executed True now) (\<lambda>_.
     sx_bind (sx_when (post_qty \<le> executed) (release_active env ''FILLED'')) (\<lambda>_.
     sx_bind get_rt (\<lambda>rt.
       if remaining_qty rt \<le> 0
       then sx_bind (set_terminal ''FILLED'' now) (\<lambda>_. rt_audit ''paper_filled'' (Some order_id) tif)
       else record_order_posted order_id tif)))"

definition settle_paper_post ::
    "'v exec_env \<Rightarrow> string \<Rightarrow> string \<Rightarrow> decimal \<Rightarrow> decimal \<Rightarrow> decimal \<times> decimal \<Rightarrow> rat \<Rightarrow> ('v cell, unit) sx" where
  "settle_paper_post env order_id tif price post_qty touch now =
     sx_bind (mark_posted order_id price post_qty now True) (\<lambda>_.
     sx_bind (if tif = ''GTX'' then paper_gtx_fill env touch price post_qty now else sx_return post_qty) (\<lambda>executed.
       if executed \<le> 0 then record_order_posted order_id tif else book_paper_post env order_id tif price post_qty executed now))"

text \<open>The answer to \<open>new_order\<close>.\<close>

definition after_post ::
    "'v exec_env \<Rightarrow> string \<Rightarrow> string \<Rightarrow> decimal \<Rightarrow> decimal \<Rightarrow> decimal \<times> decimal \<Rightarrow> rat \<Rightarrow> order_response \<Rightarrow> ('v cell, unit) sx" where
  "after_post env order_id tif price post_qty touch now response = (case response of
     ShadowResponse \<Rightarrow> set_terminal ''SHADOW'' now
   | PaperResponse \<Rightarrow> settle_paper_post env order_id tif price post_qty touch now
   | VenueAccepted \<Rightarrow> sx_bind (mark_posted order_id price post_qty now False) (\<lambda>_. record_order_posted order_id tif))"

definition post_failed ::
    "'v exec_env \<Rightarrow> string \<Rightarrow> string \<Rightarrow> decimal \<Rightarrow> decimal \<Rightarrow> rat \<Rightarrow> exc \<Rightarrow> ('v cell, unit) sx" where
  "post_failed env order_id tif price post_qty now e = (case e of
     OrderStatusUnknown \<Rightarrow>
       sx_bind (upd_rt (\<lambda>rt. rt\<lparr>rt_unresolved_id := Some order_id, rt_unresolved_price := price, rt_unresolved_post_qty := post_qty,
           rt_unresolved_tif := tif, rt_unknown_misses := 0, rt_unresolved_at := now\<rparr>)) (\<lambda>_. rt_audit ''order_status_unknown'' (Some order_id) [])
   | VenueError code http \<Rightarrow>
       sx_bind (handle_post_error env code http order_id now) (\<lambda>handled. if handled then sx_return () else sx_raise e)
   | OrderObsolete \<Rightarrow>
       sx_bind (journal_terminal_once env (Some order_id) ''OBSOLETE'') (\<lambda>_.
       sx_bind (set_terminal ''OBSOLETE'' now) (\<lambda>_. rt_audit ''intent_obsolete'' (Some order_id) []))
   | _ \<Rightarrow> sx_raise e)"

text \<open>Number, name, journal and send one order.\<close>

definition journal_submission :: "'v exec_env \<Rightarrow> string \<Rightarrow> int \<Rightarrow> decimal \<Rightarrow> ('v cell, unit) sx" where
  "journal_submission env order_id submit_seq post_qty = sx_bind get_rt (\<lambda>rt. case rt_attempt_seq rt of
     None \<Rightarrow> sx_return ()
   | Some attempt_seq \<Rightarrow>
       sx_when (rt_journal_enabled rt)
         (sx_bind (in_world (on_journal (ev_client env) (\<lambda>now. record_submit (ev_codec env) now
             \<lparr>sr_client_order_id = order_id, sr_symbol = rt_symbol rt, sr_submit_seq = submit_seq, sr_attempt_seq = attempt_seq,
              sr_side = oi_side (rt_intent rt), sr_quantity = post_qty, sr_reduce_only = oi_reduce_only (rt_intent rt),
              sr_leg_index = oi_leg_index (rt_intent rt)\<rparr>))) (\<lambda>submit.
          sx_bind (sx_modify (cl_cycle_update (\<lambda>c. c\<lparr>cy_identity_submits := AList.update order_id submit (cy_identity_submits c)\<rparr>))) (\<lambda>_.
            upd_rt (\<lambda>rt. rt\<lparr>rt_journal_submitted := order_id # rt_journal_submitted rt\<rparr>)))))"

definition order_of :: "intent_runtime \<Rightarrow> string \<Rightarrow> string \<Rightarrow> decimal \<Rightarrow> decimal \<Rightarrow> order_params" where
  "order_of rt order_id tif price post_qty =
     \<lparr>op_symbol = rt_symbol rt, op_side = oi_side (rt_intent rt), op_type = ''LIMIT'', op_time_in_force = tif, op_quantity = post_qty,
      op_price = price, op_client_order_id = order_id, op_reduce_only = oi_reduce_only (rt_intent rt)\<rparr>"

definition send_order ::
    "'v exec_env \<Rightarrow> string \<Rightarrow> decimal \<Rightarrow> decimal \<Rightarrow> decimal \<times> decimal \<Rightarrow> rat \<Rightarrow> ('v cell, unit) sx" where
  "send_order env tif price post_qty touch now = sx_bind get_rt (\<lambda>rt.
     sx_bind (if rt_journal_enabled rt then in_world (on_journal (ev_client env) (\<lambda>clock. next_submit_seq (ev_codec env) clock))
              else sx_return (rt_attempts rt)) (\<lambda>submit_seq.
     sx_bind (sx_lift (build_client_order_id (ev_symbol_tag env) (oi_client_order_prefix (rt_intent rt)) (rt_symbol rt)
                (oi_leg_index (rt_intent rt)) 0 submit_seq)) (\<lambda>order_id.
     sx_bind (journal_submission env order_id submit_seq post_qty) (\<lambda>_.
     sx_bind (upd_rt (\<lambda>rt. rt\<lparr>rt_attempts := rt_attempts rt + 1\<rparr>)) (\<lambda>_.
       sx_try (in_world (on_venue (ev_new_order env (order_of rt order_id tif price post_qty))))
         (after_post env order_id tif price post_qty touch now) (post_failed env order_id tif price post_qty now))))))"

text \<open>The size of the next order, or the end of an intent whose remainder cannot be posted.\<close>

definition post_order ::
    "'v exec_env \<Rightarrow> symbol_filters \<Rightarrow> string \<Rightarrow> decimal \<Rightarrow> decimal \<times> decimal \<Rightarrow> rat \<Rightarrow> ('v cell, unit) sx" where
  "post_order env filters tif price touch now = sx_bind get_rt (\<lambda>rt.
     let remaining = remaining_qty rt
     in if remaining < sf_min_qty filters then end_sub_minimum now
        else sx_bind (sx_lift (post_quantity remaining price filters (pp_max_slices (ev_policy env)))) (\<lambda>slice.
          let small = (slice < sf_min_qty filters \<or> dmul slice price < sf_min_notional filters)
          in if small \<and> dmul remaining price < sf_min_notional filters \<and> \<not> oi_reduce_only (rt_intent rt) then end_sub_minimum now
             else sx_bind (sx_gets (\<lambda>s. order_budget_exceeded (ev_policy env) (ev_rate_limits env) (ev_rate_state env (wd_venue (cl_world s))))) (\<lambda>busy.
               if busy then sx_return () else send_order env tif price (if small then remaining else slice) touch now)))"

text \<open>The price of the next order; \<open>None\<close> holds the order back.\<close>

definition passive_price :: "'v exec_env \<Rightarrow> symbol_filters \<Rightarrow> decimal \<times> decimal \<Rightarrow> decimal \<times> decimal \<Rightarrow> intent_runtime \<Rightarrow> decimal option res" where
  "passive_price env filters touch rail rt =
     (if pp_passive_pricing (ev_policy env) \<in> {''anchored'', ''anchored_repeg''}
      then post_only_quote_price (if 0 < rt_passive_quote rt then rt_passive_quote rt else oi_decision_price (rt_intent rt)) touch (is_buy_side rt) filters
      else gtx_candidate (if is_buy_side rt then fst touch else snd touch) (is_buy_side rt) filters rail)"

definition crossing_price :: "'v exec_env \<Rightarrow> symbol_filters \<Rightarrow> decimal \<times> decimal \<Rightarrow> decimal \<times> decimal \<Rightarrow> intent_runtime \<Rightarrow> decimal option res" where
  "crossing_price env filters touch rail rt =
     capped_ioc_price (ev_codec env) (if is_buy_side rt then snd touch else fst touch) (is_buy_side rt)
       (pp_taker_cap_bps (ev_policy env)) (sf_tick_size filters) (Some rail)"

text \<open>The posting half of \<open>_poll_or_post\<close>: a resting order in the passive phase, a crossing one after it.\<close>

definition post_phase ::
    "'v exec_env \<Rightarrow> symbol_filters \<Rightarrow> decimal \<times> decimal \<Rightarrow> decimal \<times> decimal \<Rightarrow> decimal \<times> decimal \<Rightarrow> rat \<Rightarrow> ('v cell, unit) sx" where
  "post_phase env filters band_rail risk touch now = sx_bind get_rt (\<lambda>rt.
     if rt_phase rt = ''passive''
     then sx_bind (sx_lift (passive_price env filters touch band_rail rt)) (\<lambda>price. case price of
            None \<Rightarrow> sx_return () | Some p \<Rightarrow> post_order env filters ''GTX'' p touch now)
     else if pp_max_ioc_attempts (ev_policy env) \<le> rt_ioc_attempts rt then set_terminal ''RESIDUAL'' now
     else sx_bind (sx_lift (crossing_price env filters touch risk rt)) (\<lambda>price. case price of
            None \<Rightarrow> sx_return () | Some p \<Rightarrow> post_order env filters ''IOC'' p touch now))"

definition post_next ::
    "'v exec_env \<Rightarrow> symbol_filters \<Rightarrow> decimal \<times> decimal \<Rightarrow> decimal \<times> decimal \<Rightarrow> decimal \<times> decimal \<Rightarrow> rat \<Rightarrow> ('v cell, unit) sx" where
  "post_next env filters band_rail risk touch now = sx_bind (sx_gets (\<lambda>s. s)) (\<lambda>s.
     let rt = cl_rt s; flags = cl_cycle s
     in if remaining_qty rt \<le> 0
        then sx_bind (journal_terminal_once env (rt_active_id rt) ''FILLED'') (\<lambda>_. set_terminal ''FILLED'' now)
        else if now < rt_margin_wait_until rt then sx_return ()
        else if cy_risk_increase_frozen flags \<and> \<not> oi_reduce_only (rt_intent rt) then end_rejected env now (cy_freeze_code flags) None
        else sx_bind (sx_when (rt_phase rt = ''passive'' \<and> gated_passive_deadline_s (ev_policy env) rt \<le> fsub now (rt_passive_started_at rt))
               (upd_rt (\<lambda>rt. rt\<lparr>rt_phase := ''ioc''\<rparr>))) (\<lambda>_. post_phase env filters band_rail risk touch now))"

text \<open>A transient read failure of the poll skips the tick until there were too many in a row.\<close>

definition poll_guarded :: "'v exec_env \<Rightarrow> symbol_filters \<Rightarrow> decimal \<times> decimal \<Rightarrow> rat \<Rightarrow> ('v cell, bool) sx" where
  "poll_guarded env filters touch now = sx_catch
     (sx_bind (poll_active env filters touch now) (\<lambda>_.
      sx_bind (upd_rt (\<lambda>rt. rt\<lparr>rt_read_failures := 0\<rparr>)) (\<lambda>_.
      sx_bind get_rt (\<lambda>rt. sx_return (\<not> rt_done rt \<and> rt_active_id rt = None)))))
     (\<lambda>e. if e \<noteq> TransientReadError then sx_raise e
        else sx_bind (upd_rt (\<lambda>rt. rt\<lparr>rt_read_failures := rt_read_failures rt + 1\<rparr>)) (\<lambda>_.
             sx_bind get_rt (\<lambda>rt. sx_bind (rt_audit ''tick_skipped_read_failure'' (rt_active_id rt) []) (\<lambda>_.
               if pp_max_consecutive_read_failures (ev_policy env) < rt_read_failures rt then sx_raise e else sx_return False))))"

definition poll_then_post ::
    "'v exec_env \<Rightarrow> symbol_filters \<Rightarrow> decimal \<times> decimal \<Rightarrow> decimal \<times> decimal \<Rightarrow> decimal \<times> decimal \<Rightarrow> rat \<Rightarrow> ('v cell, unit) sx" where
  "poll_then_post env filters band_rail risk touch now = sx_bind get_rt (\<lambda>rt.
     sx_bind (if rt_active_id rt \<noteq> None then poll_guarded env filters touch now else sx_return True) (\<lambda>proceed.
       if proceed then post_next env filters band_rail risk touch now else sx_return ()))"

text \<open>\<open>_poll_or_post\<close> behind the close gate.\<close>

definition act_on_touch :: "'v exec_env \<Rightarrow> intent_runtime \<Rightarrow> symbol_filters \<Rightarrow> decimal \<times> decimal \<Rightarrow> rat \<Rightarrow> ('v cell, unit) sx" where
  "act_on_touch env rt filters touch now =
     sx_bind (upd_rt (\<lambda>rt. rt\<lparr>rt_passive_started_at := (if rt_passive_started_at rt = 0 then now else rt_passive_started_at rt),
                              rt_last_repeg_at := (if rt_last_repeg_at rt = 0 then now else rt_last_repeg_at rt)\<rparr>)) (\<lambda>_.
     sx_bind (sx_lift (band (ev_codec env) (rt_intent rt) (ev_policy env))) (\<lambda>band_rail.
     sx_bind (sx_lift (risk_rail (ev_codec env) (fst touch) (snd touch) (ev_policy env))) (\<lambda>risk.
     sx_bind (if rt_unresolved_id rt \<noteq> None then resolve_unknown_submission env now else sx_return True) (\<lambda>resolved.
       if \<not> resolved then sx_return () else poll_then_post env filters band_rail risk touch now))))"

definition poll_or_post :: "'v exec_env \<Rightarrow> string option option \<Rightarrow> decimal \<times> decimal \<Rightarrow> rat \<Rightarrow> ('v cell, unit) sx" where
  "poll_or_post env dep touch now = sx_bind get_rt (\<lambda>rt. case rt_filters rt of
     None \<Rightarrow> sx_raise AssertionError
   | Some filters \<Rightarrow>
     sx_bind (apply_close_gate dep now) (\<lambda>gated. if gated then sx_return () else act_on_touch env rt filters touch now))"

section \<open>The end of a window\<close>

definition release_at_exit :: "'v exec_env \<Rightarrow> rat \<Rightarrow> ('v cell, unit) sx" where
  "release_at_exit env now = sx_bind get_rt (\<lambda>rt. case rt_active_id rt of
     None \<Rightarrow> sx_return ()
   | Some cid \<Rightarrow>
       if rt_paper_active rt then release_active env ''CANCELED''
       else sx_bind (in_world (cancel_and_confirm (ev_codec env) (ev_client env) (rt_symbol rt) cid)) (\<lambda>conf.
            sx_bind (settle_confirmation env now conf) (\<lambda>_.
            sx_bind (rt_audit ''order_cancelled'' (Some cid) ''window_end'') (\<lambda>_. release_active env (cc_status conf)))))"

definition end_window :: "'v exec_env \<Rightarrow> rat \<Rightarrow> ('v cell, unit) sx" where
  "end_window env now = sx_bind (release_at_exit env now) (\<lambda>_.
     sx_bind get_rt (\<lambda>rt.
       if 0 < remaining_qty rt then sx_bind (set_terminal ''RESIDUAL'' now) (\<lambda>_. rt_audit ''order_residual'' None [])
       else set_terminal ''FILLED'' now))"

definition finalize_one :: "'v exec_env \<Rightarrow> (rat \<Rightarrow> 'v \<Rightarrow> unit res \<times> 'v) \<Rightarrow> ('v cell, unit) sx" where
  "finalize_one env sleep = sx_bind get_rt (\<lambda>rt.
     if rt_done rt then sx_return ()
     else sx_bind (read_clock env) (\<lambda>now.
          sx_bind (if rt_unresolved_id rt \<noteq> None then resolve_unknown_at_exit env sleep now else sx_return (Some now)) (\<lambda>resolved.
            case resolved of None \<Rightarrow> sx_return () | Some now \<Rightarrow> end_window env now)))"

section \<open>The loop\<close>

record 'v exec =
  ex_rts :: "intent_runtime list"
  ex_cycle :: cycle_state
  ex_world :: "'v world"

definition on_runtime :: "nat \<Rightarrow> ('v cell, 'a) sx \<Rightarrow> ('v exec, 'a) sx" where
  "on_runtime i m = (\<lambda>s. case m \<lparr>cl_rt = ex_rts s ! i, cl_cycle = ex_cycle s, cl_world = ex_world s\<rparr> of
     (r, t) \<Rightarrow> (r, s\<lparr>ex_rts := (ex_rts s)[i := cl_rt t], ex_cycle := cl_cycle t, ex_world := cl_world t\<rparr>))"

abbreviation ex_in_world :: "('v world, 'a) sx \<Rightarrow> ('v exec, 'a) sx" where
  "ex_in_world m \<equiv> sx_zoom ex_world ex_world_update m"

definition ex_read_clock :: "'v exec_env \<Rightarrow> ('v exec, rat) sx" where
  "ex_read_clock env = ex_in_world (on_venue (\<lambda>v. case ev_clock env v of (t, v') \<Rightarrow> (Inr t, v')))"

definition dep_status :: "'v exec \<Rightarrow> nat \<Rightarrow> string option option" where
  "dep_status s i = (case rt_close_dependency (ex_rts s ! i) of None \<Rightarrow> None | Some j \<Rightarrow> Some (rt_terminal_status (ex_rts s ! j)))"

text \<open>\<open>candidate\<close> of \<open>_link_close_dependencies\<close>: the last reduce-only leg of the symbol before this one.\<close>

definition close_candidate :: "order_intent list \<Rightarrow> nat \<Rightarrow> nat option" where
  "close_candidate intents i = foldl (\<lambda>cand j.
     let o1 = intents ! j; me = intents ! i
     in if j \<noteq> i \<and> oi_symbol o1 = oi_symbol me \<and> oi_reduce_only o1 \<and> oi_leg_index o1 < oi_leg_index me
           \<and> (case cand of None \<Rightarrow> True | Some k \<Rightarrow> oi_leg_index (intents ! k) < oi_leg_index o1)
        then Some j else cand) None [0..<length intents]"

definition link_close_dependencies :: "intent_runtime list \<Rightarrow> intent_runtime list" where
  "link_close_dependencies rts = map (\<lambda>i. (rts ! i)\<lparr>rt_close_dependency :=
       (if oi_reduce_only (rt_intent (rts ! i)) then None else close_candidate (map rt_intent rts) i)\<rparr>) [0..<length rts]"

definition effective_window_deadline_s :: "passive_policy \<Rightarrow> intent_runtime list \<Rightarrow> rat" where
  "effective_window_deadline_s policy rts =
     (if list_ex (\<lambda>rt. rt_close_dependency rt \<noteq> None) rts then fl (pp_window_deadline_s policy + pp_passive_deadline_s policy)
      else pp_window_deadline_s policy)"

definition note_invalid_quote :: "bool \<Rightarrow> string \<Rightarrow> ('v exec, unit) sx" where
  "note_invalid_quote once symbol = (\<lambda>s.
     if once \<and> symbol \<in> set (cy_invalid_reported (ex_cycle s)) then (Inr (), s)
     else ex_in_world (audit_record ''quote_invalid'' symbol [] [])
       (if once then s\<lparr>ex_cycle := (ex_cycle s)\<lparr>cy_invalid_reported := symbol # cy_invalid_reported (ex_cycle s)\<rparr>\<rparr> else s))"

definition add_book :: "'v exec_env \<Rightarrow> bool \<Rightarrow> string \<Rightarrow> json \<Rightarrow> (string, decimal \<times> decimal) dict \<Rightarrow> ('v exec, (string, decimal \<times> decimal) dict) sx" where
  "add_book env once symbol entry books = (case parse_book_quote (ev_codec env) symbol entry of
     None \<Rightarrow> sx_bind (note_invalid_quote once symbol) (\<lambda>_. sx_return books)
   | Some q \<Rightarrow> sx_return (AList.update symbol (bq_bid q, bq_ask q) books))"

definition fetch_books :: "'v exec_env \<Rightarrow> bool \<Rightarrow> string list \<Rightarrow> ('v exec, (string, decimal \<times> decimal) dict) sx" where
  "fetch_books env once symbols = (case ev_book_tickers env of
     Some batch \<Rightarrow> sx_bind (ex_in_world (on_venue batch)) (\<lambda>payloads.
       sx_foldM (\<lambda>symbol books. case map_of payloads symbol of None \<Rightarrow> sx_return books
         | Some JNull \<Rightarrow> sx_return books | Some entry \<Rightarrow> add_book env once symbol entry books) symbols [])
   | None \<Rightarrow> sx_foldM (\<lambda>symbol books. sx_bind (ex_in_world (on_venue (ev_book_ticker env symbol))) (\<lambda>entry.
       add_book env once symbol entry books)) symbols [])"

definition open_order_ids :: "intent_runtime \<Rightarrow> nat" where
  "open_order_ids rt = (if rt_active_id rt \<noteq> None then 1 else 0) + (if rt_unresolved_id rt \<noteq> None then 1 else 0)"

definition no_sleep :: "rat \<Rightarrow> 'v \<Rightarrow> unit res \<times> 'v" where "no_sleep t v = (Inr (), v)"

definition cleanup_failed :: "nat \<Rightarrow> ('v exec, unit) sx" where
  "cleanup_failed i = on_runtime i (sx_bind get_rt (\<lambda>rt.
     rt_audit ''abort_cleanup_failed'' (case rt_active_id rt of None \<Rightarrow> rt_unresolved_id rt | Some x \<Rightarrow> Some x) []))"

definition shutdown_one :: "'v exec_env \<Rightarrow> rat \<Rightarrow> rat \<Rightarrow> nat \<Rightarrow> nat \<Rightarrow> ('v exec, nat) sx" where
  "shutdown_one env budget start i unsettled =
     sx_bind (on_runtime i (upd_rt (\<lambda>rt. rt\<lparr>rt_shutdown_finalized := True\<rparr>))) (\<lambda>_.
     sx_bind (sx_gets (\<lambda>s. ex_rts s ! i)) (\<lambda>rt.
       if rt_done rt then sx_return unsettled
       else if rt_active_id rt = None \<and> rt_unresolved_id rt = None
       then sx_bind (on_runtime i (finalize_one env no_sleep)) (\<lambda>_. sx_return unsettled)
       else sx_bind (ex_read_clock env) (\<lambda>now.
         if budget \<le> fsub now start then sx_return (unsettled + open_order_ids rt)
         else sx_bind (sx_catch (on_runtime i (finalize_one env no_sleep)) (\<lambda>_. cleanup_failed i)) (\<lambda>_.
              sx_bind (sx_gets (\<lambda>s. ex_rts s ! i)) (\<lambda>rt. sx_return (unsettled + open_order_ids rt))))))"

definition shutdown_finalize :: "'v exec_env \<Rightarrow> nat list \<Rightarrow> rat option \<Rightarrow> ('v exec, nat) sx" where
  "shutdown_finalize env live budget_s =
     (let budget = (case budget_s of Some b \<Rightarrow> if 0 < b then b else 20 | None \<Rightarrow> 20)
      in sx_bind (ex_read_clock env) (\<lambda>start. sx_foldM (shutdown_one env budget start) live 0))"

definition cleanup_one :: "'v exec_env \<Rightarrow> nat \<Rightarrow> unit \<Rightarrow> ('v exec, unit) sx" where
  "cleanup_one env i _ = sx_bind (sx_gets (\<lambda>s. ex_rts s ! i)) (\<lambda>rt.
     if rt_shutdown_finalized rt \<or> rt_done rt \<or> rt_paper_active rt \<or> rt_active_id rt = None \<and> rt_unresolved_id rt = None then sx_return ()
     else sx_catch (on_runtime i (finalize_one env no_sleep)) (\<lambda>_. cleanup_failed i))"

definition cleanup_on_abort :: "'v exec_env \<Rightarrow> ('v exec, unit) sx" where
  "cleanup_on_abort env = (\<lambda>s. sx_foldM (cleanup_one env) [0..<length (ex_rts s)] () s)"

definition tick_intent :: "'v exec_env \<Rightarrow> (string, decimal \<times> decimal) dict \<Rightarrow> rat \<Rightarrow> nat \<Rightarrow> unit \<Rightarrow> ('v exec, unit) sx" where
  "tick_intent env books now i _ = (\<lambda>s.
     let rt = ex_rts s ! i
     in if rt_done rt then (Inr (), s)
        else case map_of books (rt_symbol rt) of None \<Rightarrow> (Inr (), s)
           | Some touch \<Rightarrow> on_runtime i (poll_or_post env (dep_status s i) touch now) s)"

definition all_done :: "nat list \<Rightarrow> 'v exec \<Rightarrow> bool" where
  "all_done live s \<longleftrightarrow> list_all (\<lambda>i. rt_done (ex_rts s ! i)) live"

definition ex_sleep :: "'v exec_env \<Rightarrow> rat \<Rightarrow> ('v exec, unit) sx" where
  "ex_sleep env t = ex_in_world (on_venue (ev_sleep env t))"

record loop_args =
  lo_live :: "nat list"
  lo_tick_order :: "nat list"
  lo_symbols :: "string list"
  lo_start :: rat
  lo_window_s :: rat
  lo_cleanup_budget_s :: "rat option"

text \<open>The \<open>while\<close> loop; its first argument counts the ticks left.\<close>

primrec tick_loop :: "nat \<Rightarrow> 'v exec_env \<Rightarrow> loop_args \<Rightarrow> rat \<Rightarrow> int \<Rightarrow> ('v exec, unit) sx" where
  "tick_loop 0 env args interval failures = sx_return ()"
| "tick_loop (Suc n) env args interval failures = sx_bind (sx_gets (\<lambda>s. (all_done (lo_live args) s, ev_shutdown env (wd_venue (ex_world s))))) (\<lambda>(over, stop).
     if over then sx_return ()
     else if stop
     then sx_bind (shutdown_finalize env (lo_live args) (lo_cleanup_budget_s args)) (\<lambda>_.
          sx_bind (ex_in_world (audit_record ''execution_interrupted'' [] [] [])) (\<lambda>_. sx_raise ExecutionInterrupted))
     else sx_bind (ex_read_clock env) (\<lambda>now.
       if lo_window_s args \<le> fsub now (lo_start args) then sx_return ()
       else sx_bind (sx_catch (sx_bind (fetch_books env True (lo_symbols args)) (\<lambda>b. sx_return (Some b)))
                      (\<lambda>e. if e = TransientReadError then sx_return None else sx_raise e)) (\<lambda>books. case books of
           None \<Rightarrow>
             sx_bind (ex_in_world (audit_record ''tick_skipped_read_failure'' [] [] [])) (\<lambda>_.
               if pp_max_consecutive_read_failures (ev_policy env) < failures + 1 then sx_raise TransientReadError
               else sx_bind (ex_sleep env interval) (\<lambda>_. tick_loop n env args interval (failures + 1)))
         | Some b \<Rightarrow>
             sx_bind (sx_foldM (tick_intent env b now) (lo_tick_order args) ()) (\<lambda>_.
             sx_bind (sx_gets (\<lambda>s. (all_done (lo_live args) s, ev_rate_state env (wd_venue (ex_world s))))) (\<lambda>(over, rates).
               if over then sx_return ()
               else let interval = throttled_interval (ev_policy env) (ev_rate_limits env) rates interval
                    in sx_bind (ex_sleep env interval) (\<lambda>_. tick_loop n env args interval 0))))))"

definition late_gate :: "'v exec_env \<Rightarrow> nat \<Rightarrow> unit \<Rightarrow> ('v exec, unit) sx" where
  "late_gate env i _ = (\<lambda>s.
     if rt_block_reason (ex_rts s ! i) = None \<and> gate_state (dep_status s i) = GateBlocked
     then sx_bind (ex_read_clock env) (\<lambda>now. sx_bind (on_runtime i (apply_close_gate (dep_status s i) now)) (\<lambda>_. sx_return ())) s
     else (Inr (), s))"

definition max_ticks :: "passive_policy \<Rightarrow> rat \<Rightarrow> nat" where
  "max_ticks policy window_s = nat (\<lceil>fl (window_s / pp_poll_interval_s policy)\<rceil> + 1)"

text \<open>The window for the live intents; \<open>rts\<close> are the runtimes at the start.\<close>

definition run_window :: "'v exec_env \<Rightarrow> rat option \<Rightarrow> rat \<Rightarrow> intent_runtime list \<Rightarrow> nat list \<Rightarrow> ('v exec, unit) sx" where
  "run_window env cleanup_budget_s window_s rts live =
     sx_bind (ex_read_clock env) (\<lambda>start.
     sx_bind (sx_modify (ex_rts_update (map (\<lambda>rt. rt\<lparr>rt_hard_stop_at := fl (start + window_s)\<rparr>)))) (\<lambda>_.
       let reduce = (\<lambda>i. oi_reduce_only (rt_intent (rts ! i)));
           args = \<lparr>lo_live = live, lo_tick_order = filter reduce live @ filter (\<lambda>i. \<not> reduce i) live,
             lo_symbols = sorted_set (map (\<lambda>i. rt_symbol (rts ! i)) live), lo_start = start, lo_window_s = window_s,
             lo_cleanup_budget_s = cleanup_budget_s\<rparr>
       in sx_bind (tick_loop (max_ticks (ev_policy env) window_s) env args (pp_poll_interval_s (ev_policy env)) 0) (\<lambda>_.
          sx_bind (sx_foldM (\<lambda>i _. on_runtime i (finalize_one env (ev_sleep env))) live ()) (\<lambda>_.
            sx_foldM (late_gate env) live ()))))"

definition run_loop :: "'v exec_env \<Rightarrow> rat option \<Rightarrow> rat \<Rightarrow> ('v exec, unit) sx" where
  "run_loop env cleanup_budget_s window_s = (\<lambda>s.
     let rts = ex_rts s; live = filter (\<lambda>i. \<not> rt_done (rts ! i)) [0..<length rts]
     in if live = [] then (Inr (), s) else run_window env cleanup_budget_s window_s rts live s)"

section \<open>Execution of a list of intents\<close>

text \<open>The result, the content of the outcome sink (\<open>None\<close> when it is not written), and the world.\<close>

definition start_runtime :: "'v exec_env \<Rightarrow> (string, symbol_filters) dict \<Rightarrow> int option \<Rightarrow> int option \<Rightarrow> order_intent \<Rightarrow> intent_runtime" where
  "start_runtime env filters attempt_seq tolerance intent =
     (new_runtime intent (map_of filters (oi_symbol intent)) (pp_fee_schedule (ev_policy env)))
       \<lparr>rt_attempt_seq := attempt_seq, rt_journal_enabled := (attempt_seq \<noteq> None), rt_order_identity_tolerance_ms := tolerance,
        rt_terminal_status := (if map_of filters (oi_symbol intent) = None then Some ''RESIDUAL'' else None)\<rparr>"

definition fresh_cycle :: "journal_submit list \<Rightarrow> cycle_state" where
  "fresh_cycle subs = \<lparr>cy_risk_increase_frozen = False, cy_freeze_code = None,
     cy_identity_submits = fold (\<lambda>s d. AList.update (js_client_order_id s) s d) subs [],
     cy_degraded_symbols = [], cy_invalid_reported = []\<rparr>"

definition taker_request :: "int option \<Rightarrow> order_intent \<Rightarrow> execution_fill \<Rightarrow> fill_request" where
  "taker_request attempt_seq intent x =
     \<lparr>fr_kind = ''execution'', fr_attempt_seq = attempt_seq, fr_symbol = oi_symbol intent, fr_side = oi_side intent,
      fr_quantity = ef_quantity x, fr_price = ef_price x, fr_fee_bps = ef_fee_bps x, fr_liquidity = ef_liquidity x,
      fr_reason = ef_reason x, fr_filled_at = Aware (ef_filled_at x), fr_client_order_id = None, fr_leg_index = oi_leg_index intent,
      fr_cumulative_executed_qty = None, fr_simulated = True\<rparr>"

definition execute_immediate_taker ::
    "'v exec_env \<Rightarrow> order_intent list \<Rightarrow> int option \<Rightarrow> ('v exec, execution_outcome list) sx" where
  "execute_immediate_taker env intents attempt_seq =
     sx_bind (sx_gets (\<lambda>s. ev_shutdown env (wd_venue (ex_world s)))) (\<lambda>stop.
       if stop then sx_raise ExecutionInterrupted
       else if intents = [] then sx_return []
       else sx_bind (fetch_books env False (sorted_set (map oi_symbol intents))) (\<lambda>books.
            sx_bind (ex_read_clock env) (\<lambda>now.
              let outcomes = simulate_immediate_taker_fills intents books (ev_policy env) (ev_fill_time env now)
              in sx_bind (sx_when (attempt_seq \<noteq> None)
                   (sx_foldM (\<lambda>(intent, outcome) _.
                      sx_foldM (\<lambda>x _. sx_bind (ex_in_world (on_journal (ev_client env) (\<lambda>clock.
                          record_fill (ev_codec env) clock (taker_request attempt_seq intent x)))) (\<lambda>_. sx_return ())) (eo_fills outcome) ())
                      (zip intents outcomes) ())) (\<lambda>_.
                 sx_bind (sx_foldM (\<lambda>intent _. ex_in_world (audit_record ''intent_outcome'' (oi_symbol intent) [] [])) intents ()) (\<lambda>_.
                   sx_return outcomes)))))"

definition run_and_report :: "'v exec_env \<Rightarrow> rat option \<Rightarrow> ('v exec, execution_outcome list) sx" where
  "run_and_report env cleanup_budget_s =
     sx_bind (sx_gets (\<lambda>s. effective_window_deadline_s (ev_policy env) (ex_rts s))) (\<lambda>window_s.
     sx_bind (sx_catch (run_loop env cleanup_budget_s window_s) (\<lambda>e. sx_bind (cleanup_on_abort env) (\<lambda>_. sx_raise e))) (\<lambda>_.
     sx_bind (sx_gets ex_rts) (\<lambda>rts.
     sx_bind (sx_foldM (\<lambda>rt _. ex_in_world (audit_record ''intent_outcome'' (rt_symbol rt) [] (eo_status (snapshot rt)))) rts ()) (\<lambda>_.
       sx_return (map snapshot rts)))))"

definition execute_passive ::
    "'v exec_env \<Rightarrow> order_intent list \<Rightarrow> (string, symbol_filters) dict \<Rightarrow> int option \<Rightarrow> int option \<Rightarrow> rat option
     \<Rightarrow> ('v exec, execution_outcome list) sx" where
  "execute_passive env intents filters attempt_seq tolerance cleanup_budget_s =
     sx_bind (if attempt_seq \<noteq> None then ex_in_world (on_journal (ev_client env) (\<lambda>clock. submits (ev_codec env) clock)) else sx_return []) (\<lambda>subs.
     sx_bind (sx_modify (\<lambda>s. s\<lparr>ex_rts := link_close_dependencies (map (start_runtime env filters attempt_seq tolerance) intents),
                              ex_cycle := fresh_cycle subs\<rparr>)) (\<lambda>_.
       run_and_report env cleanup_budget_s))"

definition execute_intents ::
    "'v exec_env \<Rightarrow> string option \<Rightarrow> order_intent list \<Rightarrow> (string, symbol_filters) dict \<Rightarrow> int option \<Rightarrow> int option \<Rightarrow> rat option
     \<Rightarrow> 'v world \<Rightarrow> execution_outcome list res \<times> execution_outcome list \<times> 'v world" where
  "execute_intents env paper_fill_model intents filters attempt_seq tolerance cleanup_budget_s w =
     (let start = \<lparr>ex_rts = [], ex_cycle = fresh_cycle [], ex_world = w\<rparr>
      in if paper_fill_model = Some ''immediate_taker''
         then (case execute_immediate_taker env intents attempt_seq start of
                 (Inl e, s) \<Rightarrow> (Inl e, [], ex_world s) | (Inr out, s) \<Rightarrow> (Inr out, out, ex_world s))
         else (case execute_passive env intents filters attempt_seq tolerance cleanup_budget_s start of
                 (r, s) \<Rightarrow> (r, map snapshot (ex_rts s), ex_world s)))"

text \<open>One intent without journal, tape, rate limits, shutdown or sleep.\<close>

definition execute_intent :: "'v exec_env \<Rightarrow> order_intent \<Rightarrow> symbol_filters \<Rightarrow> 'v world \<Rightarrow> execution_outcome res \<times> 'v world" where
  "execute_intent env intent filters w =
     (case execute_intents (env\<lparr>ev_sleep := no_sleep, ev_rate_limits := None, ev_tape := None, ev_shutdown := \<lambda>_. False\<rparr>)
            None [intent] [(oi_symbol intent, filters)] None None None w of
        (Inl e, _, w') \<Rightarrow> (Inl e, w')
      | (Inr outcomes, _, w') \<Rightarrow> ((case outcomes of [] \<Rightarrow> Inl KeyError | out # _ \<Rightarrow> Inr out), w'))"

end
