(* ===== verification/Executor_Laws.thy ===== *)
theory Executor_Laws
  imports Executor
begin

text \<open>
  What an invariant of execution has to satisfy, and what follows from it.  An invariant is stated
  on the \<open>cell\<close> of one intent.  The locales name the steps it has to survive: bookkeeping that
  does not touch the order state, calls that go outside, and the few operations that move the
  order state.  Inside the locales the invariant is carried through every operation of the
  executor, once for all invariants.
\<close>

section \<open>The state an invariant may speak about\<close>

definition rt_static :: "intent_runtime \<Rightarrow> order_intent \<times> symbol_filters option \<times> nat option \<times> int option \<times> bool" where
  "rt_static rt = (rt_intent rt, rt_filters rt, rt_close_dependency rt, rt_attempt_seq rt, rt_journal_enabled rt)"

definition rt_orders :: "intent_runtime \<Rightarrow> (string option \<times> decimal \<times> decimal \<times> bool) \<times> (string option \<times> decimal) \<times> string list \<times> string list" where
  "rt_orders rt = ((rt_active_id rt, rt_active_post_qty rt, rt_reported_executed rt, rt_paper_active rt),
     (rt_unresolved_id rt, rt_unresolved_post_qty rt), rt_journal_submitted rt, rt_journal_terminals rt)"

definition rt_core where
  "rt_core rt = (rt_static rt, rt_orders rt, rt_filled_total rt, rt_fills rt, rt_terminal_status rt)"

lemmas core_defs = rt_core_def rt_static_def rt_orders_def

definition outside_step :: "'v exec_env \<Rightarrow> 'v \<Rightarrow> 'v \<Rightarrow> bool" where
  "outside_step env v v' \<longleftrightarrow> v' = v
     \<or> (\<exists>sy cid. v' = snd (vc_query (ev_client env) sy cid v)) \<or> (\<exists>sy cid. v' = snd (vc_cancel (ev_client env) sy cid v))
     \<or> v' = snd (ev_clock env v) \<or> (\<exists>t. v' = snd (ev_sleep env t v))
     \<or> (\<exists>sy. v' = snd (ev_book_ticker env sy v)) \<or> (\<exists>batch. ev_book_tickers env = Some batch \<and> v' = snd (batch v))"

text \<open>What the venue may answer to the query of an order of a symbol.\<close>

definition answered :: "'v exec_env \<Rightarrow> string \<Rightarrow> payload \<Rightarrow> bool" where
  "answered env sy p \<longleftrightarrow> (\<exists>cid v. fst (vc_query (ev_client env) sy cid v) = Inr p)"

text \<open>A way to wait: the sleeper of the environment, or not at all.\<close>

definition sleeper :: "'v exec_env \<Rightarrow> (rat \<Rightarrow> 'v \<Rightarrow> unit res \<times> 'v) \<Rightarrow> bool" where
  "sleeper env sleep \<longleftrightarrow> sleep = ev_sleep env \<or> sleep = no_sleep"

lemma in_world_bind: "in_world (sx_bind m f) = sx_bind (in_world m) (\<lambda>x. in_world (f x))"
  by (auto simp: sx_zoom_def sx_bind_def fun_eq_iff split: prod.splits sum.splits)

section \<open>Laws every invariant has\<close>

locale cell_laws =
  fixes env :: "'v exec_env" and I :: "'v cell \<Rightarrow> bool"
  assumes book: "\<lbrakk>I s; rt_core (f (cl_rt s)) = rt_core (cl_rt s)\<rbrakk> \<Longrightarrow> I (cl_rt_update f s)"
    and cycle: "\<lbrakk>I s; cy_identity_submits (g (cl_cycle s)) = cy_identity_submits (cl_cycle s)\<rbrakk> \<Longrightarrow> I (cl_cycle_update g s)"
    and audit: "I s \<Longrightarrow> I (s\<lparr>cl_world := (cl_world s)\<lparr>wd_audit := a\<rparr>\<rparr>)"
    and outside: "\<lbrakk>I s; outside_step env (wd_venue (cl_world s)) v\<rbrakk> \<Longrightarrow> I (s\<lparr>cl_world := (cl_world s)\<lparr>wd_venue := v\<rparr>\<rparr>)"
begin

lemma upd_book: "(\<And>rt. rt_core (f rt) = rt_core rt) \<Longrightarrow> sx_inv I (upd_rt f)"
  by (rule sx_inv_modify) (rule book)

lemma rt_audit_inv: "sx_inv I (rt_audit e cid st)"
  by (simp add: rt_audit_def sx_triple_def sx_defs sx_zoom_def audit_record_def audit)

lemma call_inv: "(\<And>v. outside_step env v (snd (m v))) \<Longrightarrow> sx_inv I (in_world (on_venue m))"
  by (rule sx_inv_zoom) (auto simp: on_venue_run intro: outside)

lemma outside_calls:
  "sx_inv I (in_world (on_venue (vc_query (ev_client env) sy cid)))"
  "sx_inv I (in_world (on_venue (vc_cancel (ev_client env) sy cid)))"
  "sx_inv I (read_clock env)" "sleeper env sleep \<Longrightarrow> sx_inv I (in_world (on_venue (sleep t)))"
  unfolding read_clock_def
  by (rule call_inv, force simp: outside_step_def sleeper_def no_sleep_def split: prod.splits)+

lemma query_known_inv: "sx_inv I (in_world (query_known (ev_client env) sy cid))"
proof (rule sx_inv_zoom)
  fix s r t assume "I s" "query_known (ev_client env) sy cid (cl_world s) = (r, t)"
  moreover have "outside_step env v (snd (vc_query (ev_client env) sy cid v))" for v by (auto simp: outside_step_def)
  ultimately show "I (s\<lparr>cl_world := t\<rparr>)" using query_known_state [of "ev_client env" sy cid "cl_world s"] outside by simp
qed

lemma lookup_unknown_inv: "sx_inv I (lookup_unknown_submission env)"
  unfolding lookup_unknown_submission_def by (intro sx_rules query_known_inv)

lemma send_cancel_inv: "sx_inv I (in_world (send_cancel (ev_client env) sy cid))"
proof (rule sx_inv_zoom)
  fix s r t assume "I s" "send_cancel (ev_client env) sy cid (cl_world s) = (r, t)"
  moreover have "outside_step env v (snd (vc_cancel (ev_client env) sy cid v))" for v by (auto simp: outside_step_def)
  ultimately show "I (s\<lparr>cl_world := t\<rparr>)" using send_cancel_state [of "ev_client env" sy cid "cl_world s"] outside by simp
qed

lemma degraded_inv: "sx_inv I note_paper_tape_degraded"
proof -
  have "I (s\<lparr>cl_cycle := (cl_cycle s)\<lparr>cy_degraded_symbols := d\<rparr>\<rparr>)" if "I s" for s d
    using cycle [OF that, of "\<lambda>_. (cl_cycle s)\<lparr>cy_degraded_symbols := d\<rparr>"] by simp
  then show ?thesis using rt_audit_inv
    by (fastforce simp: note_paper_tape_degraded_def sx_triple_def Let_def)
qed

lemma paper_gtx_inv: "sx_inv I (paper_gtx_fill env touch price qty now)"
  unfolding paper_gtx_fill_def by (intro sx_rules degraded_inv)

lemma query_known_answered:
  "sx_triple I (in_world (query_known (ev_client env) sy cid)) (\<lambda>a s. I s \<and> (\<forall>p. a = Some p \<longrightarrow> answered env sy p)) (\<lambda>_. I)"
proof (rule sx_tripleI)
  fix s e t assume "I s" "in_world (query_known (ev_client env) sy cid) s = (Inl e, t)"
  then show "I t" by (rule sx_tripleD_Inl [OF query_known_inv])
next
  fix s a t assume s: "I s" and run: "in_world (query_known (ev_client env) sy cid) s = (Inr a, t)"
  have "answered env sy p" if "a = Some p" for p
    using run that unfolding answered_def
    by (auto simp: sx_zoom_def query_known_def on_venue_run split: sum.splits exc.splits option.splits if_splits)
  with sx_tripleD_Inr [OF query_known_inv s run] show "I t \<and> (\<forall>p. a = Some p \<longrightarrow> answered env sy p)" by blast
qed

lemma cancel_confirm_inv:
  "sx_triple I (in_world (cancel_and_confirm c (ev_client env) sy cid))
     (\<lambda>conf s. I s \<and> (\<forall>p. cc_payload conf = Some p \<longrightarrow> answered env sy p)) (\<lambda>_. I)"
  unfolding cancel_and_confirm_def in_world_bind
proof (rule sx_triple_bind [OF send_cancel_inv], rule sx_triple_bind [OF query_known_answered])
  fix a
  show "sx_triple (\<lambda>s. I s \<and> (\<forall>p. a = Some p \<longrightarrow> answered env sy p))
     (in_world (case a of None \<Rightarrow> sx_return \<lparr>cc_symbol = sy, cc_client_order_id = cid, cc_closed = True,
                 cc_status = ORDER_NOT_FOUND_STATUS, cc_payload = None\<rparr>
     | Some p \<Rightarrow>
         let status = payload_status c p
         in if status = [] then sx_raise DataIntegrityError
            else sx_return \<lparr>cc_symbol = sy, cc_client_order_id = cid,
                   cc_closed = (status \<notin> set OPEN_ORDER_STATUSES), cc_status = status, cc_payload = Some p\<rparr>))
     (\<lambda>conf s. I s \<and> (\<forall>p. cc_payload conf = Some p \<longrightarrow> answered env sy p)) (\<lambda>_. I)"
    by (cases a) (auto simp: sx_triple_def sx_zoom_def sx_defs Let_def)
qed

end

section \<open>Polling keeps an invariant\<close>

text \<open>A simulated fill of a resting order takes all of it or nothing.\<close>

lemma paper_gtx_result: "paper_gtx_fill env touch price qty now s = (Inr x, t) \<Longrightarrow> x = 0 \<or> x = qty"
  by (auto simp: paper_gtx_fill_def sx_bind_Inr sx_gets_def simulate_paper_fill_def Let_def split: option.splits if_splits prod.splits)

lemma release_active_none: "release_active env st s = (Inr u, t) \<Longrightarrow> rt_active_id (cl_rt t) = None"
  by (auto simp: release_active_def sx_bind_Inr sx_modify_def sx_gets_def)

locale poll_laws = cell_laws +
  assumes release: "sx_inv I (release_active env st)"
    and settle: "answered env sy p \<Longrightarrow>
      sx_triple (\<lambda>s. I s \<and> rt_active_id (cl_rt s) = Some cid \<and> rt_symbol (cl_rt s) = sy) (apply_venue_payload env now cid p) (\<lambda>_. I) (\<lambda>_. I)"
    and paper: "sx_triple (\<lambda>s. I s \<and> rt_active_id (cl_rt s) \<noteq> None) (poll_paper env touch now) (\<lambda>_. I) (\<lambda>_. I)"
    and ended: "\<lbrakk>I s; rt_active_id (cl_rt s) = None; st \<in> set OUTCOME_STATUSES;
      rt_core (f (cl_rt s)) = rt_core ((cl_rt s)\<lparr>rt_terminal_status := Some st\<rparr>)\<rbrakk> \<Longrightarrow> I (cl_rt_update f s)"
begin

lemma release_none: "sx_triple I (release_active env st) (\<lambda>_ s. I s \<and> rt_active_id (cl_rt s) = None) (\<lambda>_. I)"
  by (rule sx_triple_post [OF release release_active_none])

lemma set_terminal_inv:
  "st \<in> set OUTCOME_STATUSES \<Longrightarrow> sx_triple (\<lambda>s. I s \<and> rt_active_id (cl_rt s) = None) (set_terminal st now) (\<lambda>_. I) (\<lambda>_. I)"
  unfolding set_terminal_def by (rule sx_triple_modify) (auto intro: ended simp: core_defs)

sublocale named: cell_laws env "\<lambda>s. I s \<and> rt_symbol (cl_rt s) = sy"
  by unfold_locales (auto intro: book cycle audit outside simp: core_defs rt_symbol_def)

lemma named_I: "sx_inv (\<lambda>s. I s \<and> rt_symbol (cl_rt s) = sy) m \<Longrightarrow>
    sx_triple (\<lambda>s. I s \<and> rt_symbol (cl_rt s) = sy) m (\<lambda>_ s. I s \<and> rt_symbol (cl_rt s) = sy) (\<lambda>_. I)"
  by (erule sx_conseq) auto

lemma settled:
  "\<lbrakk>answered env (rt_symbol (cl_rt s)) p; I s; rt_active_id (cl_rt s) = Some cid\<rbrakk> \<Longrightarrow> I (snd (apply_venue_payload env now cid p s))"
  by (rule sx_triple_snd [OF settle]) auto

lemma sync_query_inv: "sx_inv I (sync_venue_order env now None)"
proof -
  have call: "I t \<and> cl_rt t = cl_rt s \<and> (\<forall>p. r = Inr p \<longrightarrow> answered env sy p)"
    if "in_world (on_venue (vc_query (ev_client env) sy cid)) s = (r, t)" "I s" for s r t sy cid
    using that sx_invD [OF outside_calls(1) that(2,1)]
    by (auto simp: sx_zoom_def on_venue_run answered_def)
  have "I (snd (sync_venue_order env now None s))" if "I s" for s
    using that by (auto simp: sync_venue_order_def sx_bind_def sx_gets_def sx_raise_def split: option.splits sum.splits prod.splits
        dest!: call intro!: settled)
  then show ?thesis by (rule sx_inv_snd)
qed

lemma sync_payload_inv:
  assumes "answered env sy p" shows "sx_triple (\<lambda>s. I s \<and> rt_symbol (cl_rt s) = sy) (sync_venue_order env now (Some p)) (\<lambda>_. I) (\<lambda>_. I)"
  unfolding sync_venue_order_def option.case sx_return_bind
  by (intro sx_triple_gets_eq sx_triple_option sx_triple_if sx_triple_raise sx_pre [OF settle [OF assms]]) auto

lemma settle_confirmation_inv:
  assumes "\<And>p. cc_payload conf = Some p \<Longrightarrow> answered env sy p"
  shows "sx_triple (\<lambda>s. I s \<and> rt_symbol (cl_rt s) = sy) (settle_confirmation env now conf) (\<lambda>_. I) (\<lambda>_. I)"
proof -
  have "sx_triple (\<lambda>s. I s \<and> rt_symbol (cl_rt s) = sy)
     (case cc_payload conf of None \<Rightarrow> sx_return [] | Some p \<Rightarrow> sync_venue_order env now (Some p)) (\<lambda>_. I) (\<lambda>_. I)"
    using assms by (auto split: option.splits intro: sx_triple_return sync_payload_inv)
  then show ?thesis unfolding settle_confirmation_def by (rule sx_triple_seq) (intro sx_rules rt_audit_inv)
qed

lemma cancel_release_inv:
  assumes "\<And>conf. sx_inv I (f conf)"
  shows "sx_triple (\<lambda>s. I s \<and> rt_symbol (cl_rt s) = sy)
    (sx_bind (in_world (cancel_and_confirm (ev_codec env) (ev_client env) sy cid)) (\<lambda>conf.
       sx_bind (settle_confirmation env now conf) (\<lambda>_. f conf))) (\<lambda>_. I) (\<lambda>_. I)"
proof (rule sx_triple_bind)
  show "sx_triple (\<lambda>s. I s \<and> rt_symbol (cl_rt s) = sy) (in_world (cancel_and_confirm (ev_codec env) (ev_client env) sy cid))
      (\<lambda>conf s. (I s \<and> rt_symbol (cl_rt s) = sy) \<and> (\<forall>p. cc_payload conf = Some p \<longrightarrow> answered env sy p)) (\<lambda>_. I)"
    by (rule sx_conseq [OF named.cancel_confirm_inv]) auto
qed (rule sx_triple_pre_fact, rule sx_triple_seq [OF settle_confirmation_inv assms], simp)

lemma cancel_and_settle_inv: "sx_inv I (cancel_and_settle env reason now)"
  unfolding cancel_and_settle_def
proof (intro sx_triple_gets_eq sx_triple_option)
  fix rt cid
  let ?N = "\<lambda>s. I s \<and> rt_symbol (cl_rt s) = rt_symbol rt"
  show "sx_triple (\<lambda>s. I s \<and> cl_rt s = rt) (sx_bind (rt_audit ''order_cancelled'' (Some cid) reason) (\<lambda>_.
         if rt_paper_active rt then release_active env ''CANCELED''
         else sx_bind (in_world (cancel_and_confirm (ev_codec env) (ev_client env) (rt_symbol rt) cid)) (\<lambda>conf.
              sx_bind (settle_confirmation env now conf) (\<lambda>_. release_active env (cc_status conf))))) (\<lambda>_. I) (\<lambda>_. I)"
    by (rule sx_pre [where P' = ?N]) (intro sx_triple_seq [OF named_I [OF named.rt_audit_inv]] sx_triple_if cancel_release_inv release
        sx_pre [OF release], auto)
qed (auto intro: sx_triple_raise)

lemma poll_passive_inv: "sx_inv I (poll_passive env filters touch now)"
  unfolding poll_passive_def by (intro sx_rules cancel_and_settle_inv upd_book) (simp_all add: core_defs)

lemma poll_active_inv:
  "sx_triple (\<lambda>s. I s \<and> rt_active_id (cl_rt s) \<noteq> None) (poll_active env filters touch now) (\<lambda>_. I) (\<lambda>_. I)"
  unfolding poll_active_def
proof (rule sx_triple_gets_eq, rule sx_triple_seq)
  fix rt
  show "sx_triple (\<lambda>s. (I s \<and> rt_active_id (cl_rt s) \<noteq> None) \<and> cl_rt s = rt)
      (if rt_paper_active rt then poll_paper env touch now else sx_bind (sync_venue_order env now None) (\<lambda>_. sx_return False)) (\<lambda>_. I) (\<lambda>_. I)"
    by (intro sx_triple_if sx_pre [OF paper] sx_pre [OF sx_inv_bind] sync_query_inv sx_inv_pure) auto
next
  fix over
  have "sx_triple (\<lambda>s. I s \<and> cl_rt s = rt)
      (sx_bind (sx_when (rt_active_id rt \<noteq> None) (release_active env ''FILLED'')) (\<lambda>_. set_terminal ''FILLED'' now)) (\<lambda>_. I) (\<lambda>_. I)" for rt
    by (rule sx_triple_seq [OF _ set_terminal_inv])
      (auto intro!: sx_triple_when sx_pre [OF release_none] simp: OUTCOME_STATUSES_def)
  then show "sx_inv I (if over then sx_return () else sx_bind get_rt (\<lambda>rt.
         if remaining_qty rt \<le> 0
         then sx_bind (sx_when (rt_active_id rt \<noteq> None) (release_active env ''FILLED'')) (\<lambda>_. set_terminal ''FILLED'' now)
         else if rt_phase rt = ''passive'' then poll_passive env filters touch now
         else cancel_and_settle env ''ioc_expired'' now))"
    by (intro sx_triple_if sx_inv_pure sx_triple_gets_eq) (auto intro: sx_pre [OF poll_passive_inv] sx_pre [OF cancel_and_settle_inv])
qed

lemma poll_guarded_inv:
  "sx_triple (\<lambda>s. I s \<and> rt_active_id (cl_rt s) \<noteq> None) (poll_guarded env filters touch now)
     (\<lambda>b s. I s \<and> (b \<longrightarrow> rt_active_id (cl_rt s) = None \<and> \<not> rt_done (cl_rt s))) (\<lambda>_. I)"
  unfolding poll_guarded_def
proof (rule sx_triple_catch [where R = "\<lambda>_. I"])
  show "sx_triple (\<lambda>s. I s \<and> rt_active_id (cl_rt s) \<noteq> None)
     (sx_bind (poll_active env filters touch now) (\<lambda>_.
      sx_bind (upd_rt (\<lambda>rt. rt\<lparr>rt_read_failures := 0\<rparr>)) (\<lambda>_.
      sx_bind get_rt (\<lambda>rt. sx_return (\<not> rt_done rt \<and> rt_active_id rt = None)))))
     (\<lambda>b s. I s \<and> (b \<longrightarrow> rt_active_id (cl_rt s) = None \<and> \<not> rt_done (cl_rt s))) (\<lambda>_. I)"
    by (rule sx_triple_seq [OF poll_active_inv], rule sx_triple_seq [OF upd_book])
      (auto simp: core_defs intro!: sx_triple_gets_eq sx_triple_return)
  have "sx_inv I (sx_bind (upd_rt (\<lambda>rt. rt\<lparr>rt_read_failures := rt_read_failures rt + 1\<rparr>)) (\<lambda>_.
       sx_bind get_rt (\<lambda>rt. rt_audit ''tick_skipped_read_failure'' (rt_active_id rt) [])))"
    by (intro sx_rules rt_audit_inv upd_book) (simp add: core_defs)
  show "sx_triple I (if e \<noteq> TransientReadError then sx_raise e
        else sx_bind (upd_rt (\<lambda>rt. rt\<lparr>rt_read_failures := rt_read_failures rt + 1\<rparr>)) (\<lambda>_.
             sx_bind get_rt (\<lambda>rt. sx_bind (rt_audit ''tick_skipped_read_failure'' (rt_active_id rt) []) (\<lambda>_.
               if pp_max_consecutive_read_failures (ev_policy env) < rt_read_failures rt then sx_raise e else sx_return False))))
     (\<lambda>b s. I s \<and> (b \<longrightarrow> rt_active_id (cl_rt s) = None \<and> \<not> rt_done (cl_rt s))) (\<lambda>_. I)" for e
    by (intro sx_triple_if sx_triple_raise sx_triple_seq [OF upd_book] sx_triple_seq [OF sx_inv_pure(4)] sx_triple_seq [OF rt_audit_inv]
        sx_triple_return) (simp_all add: core_defs)
qed

end

section \<open>Posting and the end of a window keep an invariant\<close>

abbreviation idle :: "'v cell \<Rightarrow> bool" where
  "idle s \<equiv> rt_unresolved_id (cl_rt s) = None \<and> rt_active_id (cl_rt s) = None"

abbreviation unresolved_is :: "string option \<Rightarrow> 'v cell \<Rightarrow> bool" where
  "unresolved_is u s \<equiv> rt_unresolved_id (cl_rt s) = u"

lemma in_world_rt: "(\<And>s w. I (s\<lparr>cl_world := w\<rparr>) = I s) \<Longrightarrow> sx_inv I (in_world m)"
  by (rule sx_inv_zoom) simp

text \<open>The look-up of an unknown submission does not end the intent.\<close>

lemma resolve_status: "sx_inv (\<lambda>s. \<not> rt_done (cl_rt s)) (resolve_unknown_submission env now)"
  unfolding resolve_unknown_submission_def lookup_unknown_submission_def adopt_unknown_submission_def adopt_unresolved_def count_miss_def
    declare_not_placed_def journal_terminal_once_def rt_audit_def
  by (intro sx_rules sx_inv_modify in_world_rt sx_triple_bool) (simp_all add: rt_done_def)

lemma journal_terminal_none [simp]: "journal_terminal_once env None st = sx_return ()"
  by (simp add: journal_terminal_once_def sx_defs fun_eq_iff)

locale runtime_laws = cell_laws env I + quiet: poll_laws env "\<lambda>s. I s \<and> rt_unresolved_id (cl_rt s) = None"
  for env :: "'v exec_env" and I :: "'v cell \<Rightarrow> bool" +
  fixes E :: "'v cell \<Rightarrow> bool"
  assumes weaken: "I s \<Longrightarrow> E s"
    and adopt: "sx_triple (\<lambda>s. I s \<and> rt_unresolved_id (cl_rt s) \<noteq> None) (adopt_unresolved now) (\<lambda>_. I) (\<lambda>_. I)"
    and not_placed: "sx_triple (\<lambda>s. I s \<and> rt_unresolved_id (cl_rt s) \<noteq> None) (declare_not_placed env) (\<lambda>_. I) (\<lambda>_. I)"
    and post: "\<lbrakk>I s0; rt_filters (cl_rt s0) = Some filters\<rbrakk> \<Longrightarrow>
      sx_triple (\<lambda>s. I s \<and> idle s \<and> \<not> rt_done (cl_rt s) \<and> 0 < remaining_qty (cl_rt s)) (post_order env filters tif price touch now) (\<lambda>_. I) (\<lambda>_. E)"
begin

sublocale pending: cell_laws env "\<lambda>s. I s \<and> rt_unresolved_id (cl_rt s) \<noteq> None"
  by unfold_locales (auto intro: book cycle audit outside simp: core_defs)

sublocale ready: cell_laws env "\<lambda>s. I s \<and> idle s"
  by unfold_locales (auto intro: book cycle audit outside simp: core_defs)

lemma set_terminal_idle: "st \<in> set OUTCOME_STATUSES \<Longrightarrow> sx_triple (\<lambda>s. I s \<and> idle s) (set_terminal st now) (\<lambda>_. I) (\<lambda>_. I)"
  by (rule sx_conseq [OF quiet.set_terminal_inv]) auto

lemma end_rejected_idle: "sx_triple (\<lambda>s. I s \<and> idle s) (end_rejected env now code None) (\<lambda>_. I) (\<lambda>_. I)"
  unfolding end_rejected_def journal_terminal_none
  unfolding sx_return_bind
proof (rule sx_triple_seq)
  show "sx_triple (\<lambda>s. I s \<and> idle s)
     (upd_rt (\<lambda>rt. rt\<lparr>rt_terminal_status := Some ''REJECTED'', rt_reject_code := code, rt_finalized_at := now\<rparr>)) (\<lambda>_. I) (\<lambda>_. I)"
    by (rule sx_triple_modify) (use quiet.ended [of _ "''REJECTED''"] in \<open>auto simp: core_defs OUTCOME_STATUSES_def\<close>)
qed (rule rt_audit_inv)

lemma adopt_inv:
  "sx_triple (\<lambda>s. I s \<and> rt_unresolved_id (cl_rt s) \<noteq> None) (adopt_unknown_submission now)
     (\<lambda>_ s. I s \<and> rt_unresolved_id (cl_rt s) = None) (\<lambda>_. I)"
proof -
  have "sx_triple (\<lambda>s. I s \<and> rt_unresolved_id (cl_rt s) \<noteq> None) (adopt_unresolved now)
      (\<lambda>_ s. I s \<and> rt_unresolved_id (cl_rt s) = None) (\<lambda>_. I)"
    by (rule sx_triple_post [OF adopt]) (auto simp: adopt_unresolved_def sx_modify_def)
  then show ?thesis unfolding adopt_unknown_submission_def
    by (intro sx_triple_peek sx_triple_seq [OF sx_conseq [OF pending.rt_audit_inv]]) auto
qed

lemma not_placed_inv:
  "sx_triple (\<lambda>s. I s \<and> rt_unresolved_id (cl_rt s) \<noteq> None) (declare_not_placed env)
     (\<lambda>_ s. I s \<and> rt_unresolved_id (cl_rt s) = None) (\<lambda>_. I)"
  by (rule sx_triple_post [OF not_placed]) (auto simp: declare_not_placed_def sx_modify_def sx_bind_Inr)

lemma lookup_pending:
  "sx_triple (\<lambda>s. I s \<and> rt_unresolved_id (cl_rt s) \<noteq> None) (lookup_unknown_submission env)
     (\<lambda>_ s. I s \<and> rt_unresolved_id (cl_rt s) \<noteq> None) (\<lambda>_. I)"
  by (rule sx_conseq [OF pending.lookup_unknown_inv]) auto

lemma pending_I:
  "sx_inv (\<lambda>s. I s \<and> rt_unresolved_id (cl_rt s) \<noteq> None) m \<Longrightarrow>
   sx_triple (\<lambda>s. I s \<and> rt_unresolved_id (cl_rt s) \<noteq> None) m (\<lambda>_ s. I s \<and> rt_unresolved_id (cl_rt s) \<noteq> None) (\<lambda>_. I)"
  by (erule sx_conseq) auto

lemma count_miss_inv:
  "sx_triple (\<lambda>s. I s \<and> rt_unresolved_id (cl_rt s) \<noteq> None) (count_miss env now)
     (\<lambda>b s. I s \<and> (b \<longrightarrow> rt_unresolved_id (cl_rt s) = None)) (\<lambda>_. I)"
  unfolding count_miss_def
  by (intro sx_triple_seq [OF pending_I [OF pending.upd_book]] sx_triple_peek sx_triple_if sx_triple_return
      sx_triple_seq [OF not_placed_inv]) (simp_all add: core_defs)

lemma resolve_unknown_inv:
  "sx_triple (\<lambda>s. I s \<and> rt_unresolved_id (cl_rt s) \<noteq> None) (resolve_unknown_submission env now)
     (\<lambda>b s. I s \<and> (b \<longrightarrow> rt_unresolved_id (cl_rt s) = None)) (\<lambda>_. I)"
proof -
  have "sx_inv (\<lambda>s. I s \<and> rt_unresolved_id (cl_rt s) \<noteq> None) (sx_catch (sx_bind (lookup_unknown_submission env) (\<lambda>b. sx_return (Some b)))
        (\<lambda>e. if e = TransientReadError then sx_return None else sx_raise e))"
    by (intro sx_rules pending.lookup_unknown_inv)
  from pending_I [OF this] show ?thesis unfolding resolve_unknown_submission_def
    by (rule sx_triple_seq) (intro sx_triple_option sx_triple_bool count_miss_inv sx_triple_seq [OF adopt_inv] sx_triple_return; simp)
qed

lemma resolve_at_exit_inv:
  assumes "sleeper env sleep"
  shows "sx_triple (\<lambda>s. I s \<and> rt_unresolved_id (cl_rt s) \<noteq> None) (resolve_unknown_at_exit env sleep now)
     (\<lambda>r s. I s \<and> (r \<noteq> None \<longrightarrow> rt_unresolved_id (cl_rt s) = None)) (\<lambda>_. I)"
  unfolding resolve_unknown_at_exit_def
  by (intro sx_triple_peek sx_triple_prod sx_triple_if sx_triple_seq [OF lookup_pending] sx_triple_seq [OF adopt_inv]
      sx_triple_seq [OF not_placed_inv] sx_triple_return sx_triple_seq [OF pending_I [OF pending.outside_calls(4) [OF assms]]]
      sx_triple_seq [OF pending_I [OF pending.outside_calls(3)]] sx_triple_seq [OF pending_I [OF pending.rt_audit_inv]])
    simp_all

lemma posting_inv:
  assumes "I s0" "rt_filters (cl_rt s0) = Some filters"
  shows "sx_triple (\<lambda>s. (I s \<and> idle s \<and> \<not> rt_done (cl_rt s)) \<and> 0 < remaining_qty (cl_rt s))
     (sx_bind (sx_lift price) (\<lambda>price. case price of None \<Rightarrow> sx_return () | Some p \<Rightarrow> post_order env filters tif p touch now)) (\<lambda>_. I) (\<lambda>_. E)"
  by (rule sx_triple_seq [where R = "\<lambda>s. (I s \<and> idle s \<and> \<not> rt_done (cl_rt s)) \<and> 0 < remaining_qty (cl_rt s)"])
    (auto intro!: sx_triple_lift sx_triple_option sx_triple_return sx_pre [OF post [OF assms]] weaken)

lemma ready_E: "sx_triple P m (\<lambda>_. I) (\<lambda>_. I) \<Longrightarrow> sx_triple P m (\<lambda>_. I) (\<lambda>_. E)"
  by (erule sx_conseq) (auto intro: weaken)

lemma post_phase_inv:
  assumes "I s0" "rt_filters (cl_rt s0) = Some filters"
  shows "sx_triple (\<lambda>s. (I s \<and> idle s \<and> \<not> rt_done (cl_rt s)) \<and> 0 < remaining_qty (cl_rt s)) (post_phase env filters band_rail risk touch now) (\<lambda>_. I) (\<lambda>_. E)"
  unfolding post_phase_def
  by (intro sx_triple_peek sx_triple_if posting_inv [OF assms] sx_pre [OF ready_E [OF set_terminal_idle]])
    (simp_all add: OUTCOME_STATUSES_def)

lemma post_next_inv:
  assumes "I s0" "rt_filters (cl_rt s0) = Some filters"
  shows "sx_triple (\<lambda>s. I s \<and> idle s \<and> \<not> rt_done (cl_rt s)) (post_next env filters band_rail risk touch now) (\<lambda>_. I) (\<lambda>_. E)"
  unfolding post_next_def Let_def
proof (intro sx_triple_gets_eq sx_triple_if)
  fix s1 :: "'v cell"
  show "sx_triple (\<lambda>s. (I s \<and> idle s \<and> \<not> rt_done (cl_rt s)) \<and> s = s1)
     (sx_bind (journal_terminal_once env (rt_active_id (cl_rt s1)) ''FILLED'') (\<lambda>_. set_terminal ''FILLED'' now)) (\<lambda>_. I) (\<lambda>_. E)"
    by (rule sx_pre [where P' = "\<lambda>s. (I s \<and> idle s) \<and> idle s1"], rule sx_triple_pre_fact)
      (auto simp: OUTCOME_STATUSES_def intro!: ready_E set_terminal_idle)
  show "sx_triple (\<lambda>s. (I s \<and> idle s \<and> \<not> rt_done (cl_rt s)) \<and> s = s1) (sx_return ()) (\<lambda>_. I) (\<lambda>_. E)"
    by (rule sx_triple_return) simp
  show "sx_triple (\<lambda>s. (I s \<and> idle s \<and> \<not> rt_done (cl_rt s)) \<and> s = s1) (end_rejected env now (cy_freeze_code (cl_cycle s1)) None) (\<lambda>_. I) (\<lambda>_. E)"
    by (rule sx_pre [OF ready_E [OF end_rejected_idle]]) simp
  assume pos: "\<not> remaining_qty (cl_rt s1) \<le> 0"
  show "sx_triple (\<lambda>s. (I s \<and> idle s \<and> \<not> rt_done (cl_rt s)) \<and> s = s1)
     (sx_bind (sx_when (rt_phase (cl_rt s1) = ''passive'' \<and> gated_passive_deadline_s (ev_policy env) (cl_rt s1) \<le> fsub now (rt_passive_started_at (cl_rt s1)))
             (upd_rt (\<lambda>rt. rt\<lparr>rt_phase := ''ioc''\<rparr>))) (\<lambda>_. post_phase env filters band_rail risk touch now)) (\<lambda>_. I) (\<lambda>_. E)"
    using pos by (intro sx_triple_seq [OF _ post_phase_inv [OF assms]] sx_triple_when sx_triple_modify)
      (auto simp: remaining_qty_def core_defs rt_done_def intro: book)
qed

lemma apply_close_gate_inv:
  "sx_triple (\<lambda>s. I s \<and> (gate_state dep \<noteq> GateOpen \<longrightarrow> idle s) \<and> rt_unresolved_id (cl_rt s) = u) (apply_close_gate dep now)
     (\<lambda>gated s. I s \<and> (gated \<or> rt_unresolved_id (cl_rt s) = u)) (\<lambda>_. I)"
proof (cases "gate_state dep")
  case GateOpen
  then show ?thesis by (simp add: apply_close_gate_def sx_triple_return)
next
  case GateWait
  have "sx_inv I (apply_close_gate dep now)"
    unfolding apply_close_gate_def GateWait gate.case
    by (intro sx_rules rt_audit_inv upd_book) (simp add: core_defs)
  moreover have "gated" if "apply_close_gate dep now s = (Inr gated, t)" for s gated t
    using that by (auto simp: apply_close_gate_def GateWait sx_bind_Inr)
  ultimately show ?thesis by (intro sx_tripleI) (auto dest: sx_tripleD_Inr sx_tripleD_Inl)
next
  case GateBlocked
  have block: "sx_triple (\<lambda>s. I s \<and> idle s)
     (upd_rt (\<lambda>rt. rt\<lparr>rt_terminal_status := Some ''RESIDUAL'', rt_block_reason := Some ''blocked_by_close_leg'', rt_finalized_at := now\<rparr>)) (\<lambda>_. I) (\<lambda>_. I)"
    by (rule sx_triple_modify) (use quiet.ended [of _ "''RESIDUAL''"] in \<open>auto simp: core_defs OUTCOME_STATUSES_def\<close>)
  have "sx_triple (\<lambda>s. I s \<and> idle s) (apply_close_gate dep now) (\<lambda>gated s. I s \<and> gated) (\<lambda>_. I)"
    unfolding apply_close_gate_def GateBlocked gate.case
    by (intro sx_triple_seq [OF block] sx_triple_seq [OF rt_audit_inv] sx_triple_return) simp
  then show ?thesis by (rule sx_conseq) (auto simp: GateBlocked)
qed

lemma gate_idle: "sx_triple (\<lambda>s. I s \<and> idle s) (apply_close_gate dep now) (\<lambda>_. I) (\<lambda>_. I)"
  by (rule sx_conseq [OF apply_close_gate_inv [of dep None]]) auto

lemma poll_then_post_inv:
  assumes "I s0" "rt_filters (cl_rt s0) = Some filters"
  shows "sx_triple (\<lambda>s. I s \<and> unresolved_is None s \<and> \<not> rt_done (cl_rt s)) (poll_then_post env filters band_rail risk touch now) (\<lambda>_. I) (\<lambda>_. E)"
  unfolding poll_then_post_def
proof (rule sx_triple_gets_eq, rule sx_triple_bind)
  fix rt
  let ?proceed = "\<lambda>b s. (I s \<and> unresolved_is None s) \<and> (b \<longrightarrow> rt_active_id (cl_rt s) = None \<and> \<not> rt_done (cl_rt s))"
  show "sx_triple (\<lambda>s. (I s \<and> unresolved_is None s \<and> \<not> rt_done (cl_rt s)) \<and> cl_rt s = rt)
      (if rt_active_id rt \<noteq> None then poll_guarded env filters touch now else sx_return True) ?proceed (\<lambda>_. E)"
    by (intro sx_triple_if sx_conseq [OF quiet.poll_guarded_inv] sx_triple_return) (auto intro: weaken)
  show "sx_triple (?proceed b) (if b then post_next env filters band_rail risk touch now else sx_return ()) (\<lambda>_. I) (\<lambda>_. E)" for b
    by (intro sx_triple_if sx_pre [OF post_next_inv [OF assms]] sx_triple_return) auto
qed

lemma act_on_touch_inv:
  assumes "I s0" "rt_filters (cl_rt s0) = Some filters"
  shows "sx_triple (\<lambda>s. I s \<and> unresolved_is (rt_unresolved_id rt) s \<and> \<not> rt_done (cl_rt s)) (act_on_touch env rt filters touch now) (\<lambda>_. I) (\<lambda>_. E)"
proof -
  let ?R = "\<lambda>s. I s \<and> unresolved_is (rt_unresolved_id rt) s \<and> \<not> rt_done (cl_rt s)"
  have resolve: "sx_triple ?R (if rt_unresolved_id rt \<noteq> None then resolve_unknown_submission env now else sx_return True)
      (\<lambda>b s. I s \<and> (b \<longrightarrow> unresolved_is None s) \<and> \<not> rt_done (cl_rt s)) (\<lambda>_. E)"
    by (intro sx_triple_if sx_conseq [OF sx_triple_conj [OF resolve_unknown_inv resolve_status]] sx_triple_return) (auto intro: weaken)
  have lift: "sx_triple ?R (sx_lift m) (\<lambda>_. ?R) (\<lambda>_. E)" for m :: "(decimal \<times> decimal) res"
    by (rule sx_triple_lift) (auto intro: weaken)
  show ?thesis unfolding act_on_touch_def
    by (intro sx_triple_seq [OF sx_triple_modify [where Q = "\<lambda>_. ?R"]] sx_triple_seq [OF lift] sx_triple_bind [OF resolve]
        sx_triple_if sx_triple_return sx_pre [OF poll_then_post_inv [OF assms]]) (auto intro: book simp: core_defs rt_done_def)
qed

lemma poll_or_post_inv:
  "sx_triple (\<lambda>s. I s \<and> (gate_state dep \<noteq> GateOpen \<longrightarrow> idle s) \<and> \<not> rt_done (cl_rt s)) (poll_or_post env dep touch now) (\<lambda>_. I) (\<lambda>_. E)"
  unfolding poll_or_post_def
proof (intro sx_triple_gets_eq sx_triple_option)
  fix rt filters
  let ?P = "\<lambda>s. (I s \<and> (gate_state dep \<noteq> GateOpen \<longrightarrow> idle s) \<and> \<not> rt_done (cl_rt s)) \<and> cl_rt s = rt"
  let ?Q = "\<lambda>gated s. I s \<and> (gated \<or> unresolved_is (rt_unresolved_id rt) s \<and> \<not> rt_done (cl_rt s))"
  assume filters: "rt_filters rt = Some filters"
  have same: "apply_close_gate dep now s = (Inr False, t) \<Longrightarrow> t = s" for s t
    by (cases "gate_state dep") (auto simp: apply_close_gate_def sx_bind_Inr)
  have gate: "sx_triple ?P (apply_close_gate dep now) ?Q (\<lambda>_. E)"
  proof (rule sx_tripleI)
    fix s gated t assume s: "?P s" and run: "apply_close_gate dep now s = (Inr gated, t)"
    then show "?Q gated t"
      using sx_tripleD_Inr [OF apply_close_gate_inv [of dep "rt_unresolved_id rt" now] _ run] same [of s t] by (cases gated) auto
  next
    fix s e t assume "?P s" "apply_close_gate dep now s = (Inl e, t)"
    then show "E t" using sx_tripleD_Inl [OF apply_close_gate_inv [of dep "rt_unresolved_id rt" now]] weaken by blast
  qed
  show "sx_triple ?P (sx_bind (apply_close_gate dep now) (\<lambda>gated.
       if gated then sx_return () else act_on_touch env rt filters touch now)) (\<lambda>_. I) (\<lambda>_. E)"
  proof (rule sx_triple_pre_ex)
    fix s0 assume "?P s0"
    then have "I s0" "rt_filters (cl_rt s0) = Some filters" using filters by auto
    then show ?thesis
      by (intro sx_triple_bind [OF gate] sx_triple_if sx_triple_return sx_pre [OF act_on_touch_inv]) auto
  qed
qed (auto intro: sx_triple_raise weaken)

lemma release_at_exit_inv:
  "sx_triple (\<lambda>s. I s \<and> rt_unresolved_id (cl_rt s) = None) (release_at_exit env now) (\<lambda>_ s. I s \<and> idle s) (\<lambda>_. I)"
proof -
  let ?Q = "\<lambda>s. I s \<and> rt_unresolved_id (cl_rt s) = None"
  have none: "rt_active_id (cl_rt t) = None" if "release_at_exit env now s = (Inr u, t)" for s u t
    using that by (auto simp: release_at_exit_def sx_bind_Inr sx_gets_def split: option.splits if_splits dest: release_active_none)
  have "sx_inv ?Q (release_at_exit env now)" unfolding release_at_exit_def
    by (intro sx_triple_gets_eq sx_triple_option sx_triple_if sx_triple_return sx_pre [OF quiet.release]
        sx_pre [OF quiet.cancel_release_inv [OF sx_inv_bind [OF quiet.rt_audit_inv quiet.release]]]) auto
  from sx_triple_post [OF this none] show ?thesis by (rule sx_conseq) auto
qed

lemma end_window_inv: "sx_triple (\<lambda>s. I s \<and> rt_unresolved_id (cl_rt s) = None) (end_window env now) (\<lambda>_. I) (\<lambda>_. I)"
  unfolding end_window_def
  by (intro sx_triple_seq [OF release_at_exit_inv] sx_triple_peek sx_triple_if sx_triple_seq [OF set_terminal_idle]
      set_terminal_idle rt_audit_inv) (simp_all add: OUTCOME_STATUSES_def)

lemma finalize_one_inv:
  assumes "sleeper env sleep" shows "sx_inv I (finalize_one env sleep)"
  unfolding finalize_one_def
proof (intro sx_triple_gets_eq sx_triple_if)
  fix rt :: intent_runtime
  let ?R = "\<lambda>s. I s \<and> rt_unresolved_id (cl_rt s) = rt_unresolved_id rt"
  have clock: "sx_triple (\<lambda>s. I s \<and> cl_rt s = rt) (read_clock env) (\<lambda>_. ?R) (\<lambda>_. I)"
    by (rule sx_tripleI) (use outside_calls(3) in \<open>auto dest: sx_tripleD_Inr sx_tripleD_Inl simp: read_clock_def sx_zoom_def on_venue_run split: prod.splits\<close>)
  have resolve: "sx_triple ?R (if rt_unresolved_id rt \<noteq> None then resolve_unknown_at_exit env sleep now else sx_return (Some now))
      (\<lambda>r s. I s \<and> (r \<noteq> None \<longrightarrow> rt_unresolved_id (cl_rt s) = None)) (\<lambda>_. I)" for now
    by (intro sx_triple_if sx_conseq [OF resolve_at_exit_inv [OF assms]] sx_triple_return) auto
  show "sx_triple (\<lambda>s. I s \<and> cl_rt s = rt) (sx_bind (read_clock env) (\<lambda>now.
          sx_bind (if rt_unresolved_id rt \<noteq> None then resolve_unknown_at_exit env sleep now else sx_return (Some now)) (\<lambda>resolved.
            case resolved of None \<Rightarrow> sx_return () | Some now \<Rightarrow> end_window env now))) (\<lambda>_. I) (\<lambda>_. I)"
    by (intro sx_triple_seq [OF clock] sx_triple_bind [OF resolve] sx_triple_option sx_triple_return sx_pre [OF end_window_inv]) auto
qed (auto intro: sx_triple_return)

end

section \<open>Invariants of the single steps\<close>

text \<open>Polling does not touch a submission of unknown outcome.\<close>

lemma terminal_once_unresolved: "sx_inv (unresolved_is u) (journal_terminal_once env oid st)"
  unfolding journal_terminal_once_def by (intro sx_rules sx_inv_modify in_world_rt) simp_all

lemma release_unresolved: "sx_inv (unresolved_is u) (release_active env st)"
  unfolding release_active_def by (intro sx_rules sx_inv_modify terminal_once_unresolved) simp

lemma fill_unresolved: "sx_inv (unresolved_is u) (apply_execution_fill env q p l cid cum sim now)"
  unfolding apply_execution_fill_def rt_audit_def by (intro sx_rules sx_inv_modify in_world_rt) simp_all

lemma payload_unresolved: "sx_inv (unresolved_is u) (apply_venue_payload env now cid p)"
proof -
  have "sx_inv (unresolved_is u) (guard_active_identity env p)"
    by (simp add: guard_active_identity_def sx_triple_def Let_def split: sum.splits)
  then show ?thesis unfolding apply_venue_payload_def by (intro sx_rules fill_unresolved)
qed

lemma paper_unresolved: "sx_inv (unresolved_is u) (poll_paper env touch now)"
proof -
  have "sx_inv (unresolved_is u) (note_paper_tape_degraded)"
    by (auto simp: note_paper_tape_degraded_def rt_audit_def sx_triple_def sx_defs sx_zoom_def audit_record_def Let_def)
  then show ?thesis unfolding poll_paper_def book_resting_def paper_gtx_fill_def set_terminal_def
    by (intro sx_rules fill_unresolved release_unresolved sx_inv_modify) simp_all
qed

text \<open>The books an intent keeps, which the order state is not part of.\<close>

definition rt_books where
  "rt_books rt = (rt_static rt, rt_filled_total rt, rt_fills rt, rt_journal_submitted rt, rt_journal_terminals rt)"

definition status_step :: "string option \<Rightarrow> string option \<Rightarrow> bool" where
  "status_step a b \<longleftrightarrow> b = a \<or> (\<exists>st \<in> set OUTCOME_STATUSES. b = Some st)"

locale step_laws = cell_laws +
  assumes orders: "\<lbrakk>I s; rt_books (f (cl_rt s)) = rt_books (cl_rt s);
      status_step (rt_terminal_status (cl_rt s)) (rt_terminal_status (f (cl_rt s)))\<rbrakk> \<Longrightarrow> I (cl_rt_update f s)"
    and fill: "sx_inv I (apply_execution_fill env q p l cid cum sim now)"
    and terminal_once: "sx_inv I (journal_terminal_once env oid st)"
begin

lemmas books_defs = rt_books_def rt_static_def status_step_def OUTCOME_STATUSES_def

lemma upd_orders:
  "(\<And>rt. rt_books (f rt) = rt_books rt) \<Longrightarrow> (\<And>rt. status_step (rt_terminal_status rt) (rt_terminal_status (f rt))) \<Longrightarrow> sx_inv I (upd_rt f)"
  by (rule sx_inv_modify) (rule orders)

lemma release_inv: "sx_inv I (release_active env st)"
  unfolding release_active_def by (intro sx_rules upd_orders terminal_once) (simp_all add: books_defs)

lemma payload_inv: "sx_inv I (apply_venue_payload env now cid p)"
proof -
  have "sx_inv I (guard_active_identity env p)"
    by (simp add: guard_active_identity_def sx_triple_def Let_def split: sum.splits)
  then show ?thesis unfolding apply_venue_payload_def by (intro sx_rules fill)
qed

lemma set_terminal_any: "st \<in> set OUTCOME_STATUSES \<Longrightarrow> sx_inv I (set_terminal st now)"
  unfolding set_terminal_def by (rule upd_orders) (auto simp: rt_books_def rt_static_def status_step_def)

lemma paper_inv: "sx_inv I (poll_paper env touch now)"
  unfolding poll_paper_def book_resting_def
  by (intro sx_rules paper_gtx_inv fill release_inv set_terminal_any) (simp add: OUTCOME_STATUSES_def)

lemma end_rejected_inv: "sx_inv I (end_rejected env now code oid)"
  unfolding end_rejected_def by (intro sx_rules rt_audit_inv terminal_once upd_orders) (simp_all add: books_defs)

lemma end_sub_minimum_inv: "sx_inv I (end_sub_minimum now)"
  unfolding end_sub_minimum_def by (intro sx_rules rt_audit_inv set_terminal_any) (simp add: OUTCOME_STATUSES_def)

lemma handle_post_error_inv: "sx_inv I (handle_post_error env code http oid now)"
proof -
  have freeze: "sx_inv I (sx_modify (cl_cycle_update (\<lambda>c. c\<lparr>cy_risk_increase_frozen := True, cy_freeze_code := code\<rparr>)))"
    by (rule sx_inv_modify) (rule cycle, simp_all)
  show ?thesis unfolding handle_post_error_def Let_def
    by (intro sx_rules rt_audit_inv terminal_once upd_orders end_rejected_inv freeze) (simp_all add: books_defs)
qed

lemma record_posted_inv: "sx_inv I (record_order_posted oid tif)"
  unfolding record_order_posted_def by (intro sx_rules rt_audit_inv upd_orders) (simp_all add: books_defs)

lemma mark_posted_inv: "sx_inv I (mark_posted oid price qty now sim)"
  unfolding mark_posted_def by (rule upd_orders) (simp_all add: books_defs)

lemma after_post_inv: "sx_inv I (after_post env oid tif price qty touch now resp)"
  unfolding after_post_def settle_paper_post_def book_paper_post_def
  by (cases resp; simp only: order_response.case; intro sx_rules set_terminal_any mark_posted_inv record_posted_inv paper_gtx_inv
      fill release_inv rt_audit_inv; simp add: OUTCOME_STATUSES_def)

lemma post_failed_inv: "sx_inv I (post_failed env oid tif price qty now e)"
proof (cases e)
  case (VenueError code http)
  then show ?thesis unfolding post_failed_def
    by (simp only: exc.case, intro sx_rules handle_post_error_inv)
next
  case OrderObsolete
  then show ?thesis unfolding post_failed_def
    by (simp only: exc.case, intro sx_rules terminal_once set_terminal_any rt_audit_inv) (simp add: OUTCOME_STATUSES_def)
next
  case OrderStatusUnknown
  then show ?thesis unfolding post_failed_def
    by (simp only: exc.case, intro sx_rules upd_orders rt_audit_inv) (simp_all add: books_defs)
qed (simp_all add: post_failed_def sx_inv_pure)

lemma adopt_any: "sx_inv I (adopt_unresolved now)"
  unfolding adopt_unresolved_def by (rule upd_orders) (simp_all add: books_defs)

lemma declare_any: "sx_inv I (declare_not_placed env)"
  unfolding declare_not_placed_def by (intro sx_rules rt_audit_inv terminal_once upd_orders) (simp_all add: books_defs)

lemma send_by_parts:
  assumes "\<And>oid n q. sx_inv I (journal_submission env oid n q)" "\<And>p. sx_inv I (in_world (on_venue (ev_new_order env p)))"
    and "sx_inv I (in_world (on_journal (ev_client env) (\<lambda>clock. next_submit_seq (ev_codec env) clock)))"
  shows "sx_inv I (send_order env tif price qty touch now)"
  unfolding send_order_def
  by (intro sx_rules assms after_post_inv post_failed_inv upd_orders) (simp_all add: books_defs)

end

locale send_laws = step_laws +
  assumes send: "sx_inv I (send_order env tif price qty touch now)"
begin

lemma post_order_any: "sx_inv I (post_order env filters tif price touch now)"
  unfolding post_order_def by (intro sx_rules end_sub_minimum_inv send)

sublocale runtime_laws env I I
proof unfold_locales
  show "\<lbrakk>I s \<and> unresolved_is None s; rt_core (f (cl_rt s)) = rt_core (cl_rt s)\<rbrakk>
      \<Longrightarrow> I (cl_rt_update f s) \<and> unresolved_is None (cl_rt_update f s)" for s f
    by (auto intro: book simp: core_defs)
  show "sx_inv (\<lambda>s. I s \<and> unresolved_is None s) (release_active env st)" for st
    by (rule sx_inv_conj [OF release_inv release_unresolved])
  show "sx_triple (\<lambda>s. (I s \<and> unresolved_is None s) \<and> rt_active_id (cl_rt s) = Some cid \<and> rt_symbol (cl_rt s) = sy) (apply_venue_payload env now cid p)
      (\<lambda>_ s. I s \<and> unresolved_is None s) (\<lambda>_ s. I s \<and> unresolved_is None s)" for p cid sy now
    by (rule sx_pre [OF sx_inv_conj [OF payload_inv payload_unresolved]]) simp
  show "sx_triple (\<lambda>s. (I s \<and> unresolved_is None s) \<and> rt_active_id (cl_rt s) \<noteq> None) (poll_paper env touch now)
      (\<lambda>_ s. I s \<and> unresolved_is None s) (\<lambda>_ s. I s \<and> unresolved_is None s)" for touch now
    by (rule sx_pre [OF sx_inv_conj [OF paper_inv paper_unresolved]]) simp
  show "I (cl_rt_update f s) \<and> unresolved_is None (cl_rt_update f s)"
    if "I s \<and> unresolved_is None s" "rt_active_id (cl_rt s) = None" "st \<in> set OUTCOME_STATUSES"
      "rt_core (f (cl_rt s)) = rt_core ((cl_rt s)\<lparr>rt_terminal_status := Some st\<rparr>)" for s st f
    using that orders [of s f] by (auto simp: core_defs rt_books_def status_step_def)
  show "sx_triple (\<lambda>s. I s \<and> idle s \<and> \<not> rt_done (cl_rt s) \<and> 0 < remaining_qty (cl_rt s)) (post_order env filters tif price touch now) (\<lambda>_. I) (\<lambda>_. I)"
    for filters tif price touch now
    by (rule sx_pre [OF post_order_any]) simp
qed (auto intro: cycle audit outside sx_pre [OF adopt_any] sx_pre [OF declare_any])

end

end
