(* ===== verification/Executor_Runs.thy ===== *)
theory Executor_Runs
  imports Executor_Laws
begin

text \<open>
  Invariants of a whole run.  \<open>gate_ok\<close> is the close gate as an invariant: an open leg whose close
  leg has not ended well is untouched.  The locale \<open>run_laws\<close> lifts an invariant of the cells to
  the state of the loop and carries it through the loop, the clean end, the shutdown and the
  clean-up after an abort.
\<close>

section \<open>What no operation changes\<close>

lemma on_journal_rt: "sx_inv (\<lambda>s. P (cl_rt s)) (in_world m)"
  by (rule sx_inv_zoom) simp

lemma fill_static: "sx_inv (\<lambda>s. rt_static (cl_rt s) = x) (apply_execution_fill env q p l cid cum sim now)"
  unfolding apply_execution_fill_def rt_audit_def by (intro sx_rules sx_inv_modify on_journal_rt) (simp add: rt_static_def)

lemma terminal_static: "sx_inv (\<lambda>s. rt_static (cl_rt s) = x) (journal_terminal_once env oid st)"
  unfolding journal_terminal_once_def by (intro sx_rules sx_inv_modify on_journal_rt) (simp add: rt_static_def)

lemma submission_static: "sx_inv (\<lambda>s. rt_static (cl_rt s) = x) (journal_submission env oid n q)"
  unfolding journal_submission_def by (intro sx_rules sx_inv_modify on_journal_rt) (simp_all add: rt_static_def)

interpretation static_steps: step_laws env "\<lambda>s. rt_static (cl_rt s) = x" for env :: "'v exec_env" and x
  by unfold_locales (auto simp: rt_core_def rt_books_def intro: fill_static terminal_static)

interpretation static: send_laws env "\<lambda>s. rt_static (cl_rt s) = x" for env :: "'v exec_env" and x
  by unfold_locales (intro static_steps.send_by_parts submission_static on_journal_rt)

section \<open>The close gate\<close>

definition untouched :: "intent_runtime \<Rightarrow> bool" where
  "untouched rt \<longleftrightarrow> rt_active_id rt = None \<and> rt_unresolved_id rt = None \<and> rt_journal_submitted rt = [] \<and> rt_attempts rt = 0
     \<and> rt_fills rt = [] \<and> rt_filled_total rt = 0"

lemma gated_poll_untouched:
  assumes "gate_state dep \<noteq> GateOpen" "untouched (cl_rt c)" "poll_or_post env dep touch now c = (r, t)"
  shows "untouched (cl_rt t)"
  using assms by (cases "gate_state dep")
    (auto simp: poll_or_post_def apply_close_gate_def sx_defs sx_when_def rt_audit_def sx_zoom_def audit_record_def untouched_def
      split: option.splits if_splits)

lemma finalize_untouched:
  assumes "untouched (cl_rt c)" "finalize_one env sleep c = (r, t)" shows "untouched (cl_rt t)"
  using assms
  by (auto simp: finalize_one_def end_window_def release_at_exit_def set_terminal_def read_clock_def sx_defs rt_audit_def sx_zoom_def
      audit_record_def on_venue_run untouched_def split: if_splits prod.splits)

lemma gate_untouched:
  assumes "untouched (cl_rt c)" "apply_close_gate dep now c = (r, t)" shows "untouched (cl_rt t)"
  using assms by (cases "gate_state dep")
    (auto simp: apply_close_gate_def sx_defs sx_when_def rt_audit_def sx_zoom_def audit_record_def untouched_def split: if_splits)

text \<open>The same, for the state a step leaves.\<close>

lemma static_snd: "(\<And>x. sx_inv (\<lambda>s. rt_static (cl_rt s) = x) m) \<Longrightarrow> rt_static (cl_rt (snd (m c))) = rt_static (cl_rt c)"
  by (rule sx_triple_snd [of "\<lambda>s. rt_static (cl_rt s) = rt_static (cl_rt c)"]) simp_all

lemma poll_static:
  assumes "gate_state dep \<noteq> GateOpen \<Longrightarrow> idle c" "\<not> rt_done (cl_rt c)"
  shows "rt_static (cl_rt (snd (poll_or_post env dep touch now c))) = rt_static (cl_rt c)"
  using sx_triple_snd [OF static.poll_or_post_inv [of "rt_static (cl_rt c)" dep], of c] assms by blast

lemma untouched_idle: "untouched (cl_rt c) \<Longrightarrow> idle c"
  by (simp add: untouched_def)

lemma gate_static: "idle c \<Longrightarrow> rt_static (cl_rt (snd (apply_close_gate dep now c))) = rt_static (cl_rt c)"
  by (rule sx_triple_snd [OF static.gate_idle]) simp

lemma untouched_snd:
  "untouched (cl_rt c) \<Longrightarrow> gate_state dep \<noteq> GateOpen \<Longrightarrow> untouched (cl_rt (snd (poll_or_post env dep touch now c)))"
  "untouched (cl_rt c) \<Longrightarrow> untouched (cl_rt (snd (finalize_one env sleep c)))"
  "untouched (cl_rt c) \<Longrightarrow> untouched (cl_rt (snd (apply_close_gate dep now c)))"
  by (metis gated_poll_untouched finalize_untouched gate_untouched surjective_pairing)+

lemma finalize_done: "rt_done (cl_rt c) \<Longrightarrow> finalize_one env sleep c = (Inr (), c)"
  by (simp add: finalize_one_def sx_defs)

definition cell_at :: "'v exec \<Rightarrow> nat \<Rightarrow> 'v cell" where
  "cell_at s i = \<lparr>cl_rt = ex_rts s ! i, cl_cycle = ex_cycle s, cl_world = ex_world s\<rparr>"

definition put_cell :: "'v exec \<Rightarrow> nat \<Rightarrow> 'v cell \<Rightarrow> 'v exec" where
  "put_cell s i t = s\<lparr>ex_rts := (ex_rts s)[i := cl_rt t], ex_cycle := cl_cycle t, ex_world := cl_world t\<rparr>"

lemma cell_at_simps [simp]: "cl_rt (cell_at s i) = ex_rts s ! i" "cl_cycle (cell_at s i) = ex_cycle s" "cl_world (cell_at s i) = ex_world s"
  by (simp_all add: cell_at_def)

lemma put_cell_simps [simp]:
  "ex_rts (put_cell s i t) = (ex_rts s)[i := cl_rt t]" "ex_cycle (put_cell s i t) = cl_cycle t" "ex_world (put_cell s i t) = cl_world t"
  by (simp_all add: put_cell_def)

lemma on_runtime_run: "on_runtime i m s = (fst (m (cell_at s i)), put_cell s i (snd (m (cell_at s i))))"
  by (simp add: on_runtime_def cell_at_def put_cell_def split: prod.splits)

definition gate_ok :: "'v exec \<Rightarrow> bool" where
  "gate_ok s \<longleftrightarrow> (\<forall>i < length (ex_rts s).
     (\<forall>j. rt_close_dependency (ex_rts s ! i) = Some j \<longrightarrow> j < length (ex_rts s) \<and> j \<noteq> i \<and> rt_close_dependency (ex_rts s ! j) = None)
     \<and> (gate_state (dep_status s i) \<noteq> GateOpen \<longrightarrow> untouched (ex_rts s ! i)))"

text \<open>A step on one intent keeps the gate if it keeps that intent untouched while it is gated and
  does not change the end of an intent that others may wait for.\<close>

definition gate_safe :: "'v exec \<Rightarrow> nat \<Rightarrow> intent_runtime \<Rightarrow> bool" where
  "gate_safe s i rt \<longleftrightarrow> rt_static rt = rt_static (ex_rts s ! i)
     \<and> (gate_state (dep_status s i) \<noteq> GateOpen \<longrightarrow> untouched (ex_rts s ! i) \<longrightarrow> untouched rt)
     \<and> (rt_done (ex_rts s ! i) \<longrightarrow> rt_terminal_status rt = rt_terminal_status (ex_rts s ! i) \<or> rt_close_dependency (ex_rts s ! i) \<noteq> None)"

lemma dep_status_cong:
  "rt_close_dependency (ex_rts t ! i) = rt_close_dependency (ex_rts s ! i) \<Longrightarrow>
   (\<And>j. rt_close_dependency (ex_rts s ! i) = Some j \<Longrightarrow> rt_terminal_status (ex_rts t ! j) = rt_terminal_status (ex_rts s ! j)) \<Longrightarrow>
   dep_status t i = dep_status s i"
  by (simp add: dep_status_def split: option.splits)

lemma gate_ok_step:
  assumes ok: "gate_ok s" and i: "i < length (ex_rts s)" and safe: "gate_safe s i (cl_rt t)"
  shows "gate_ok (put_cell s i t)"
  unfolding gate_ok_def
proof (intro allI impI)
  let ?t = "put_cell s i t"
  fix k assume "k < length (ex_rts ?t)"
  then have k: "k < length (ex_rts s)" by simp
  have dep: "rt_close_dependency (ex_rts ?t ! j) = rt_close_dependency (ex_rts s ! j)" for j
    using safe i by (cases "j = i") (auto simp: gate_safe_def rt_static_def)
  note okk = ok [unfolded gate_ok_def, rule_format, OF k]
  have "untouched (ex_rts ?t ! k)" if gate: "gate_state (dep_status ?t k) \<noteq> GateOpen"
  proof (cases "dep_status ?t k = dep_status s k")
    case True
    with gate okk safe i show ?thesis by (cases "k = i") (auto simp: gate_safe_def)
  next
    case False
    then obtain j where j: "rt_close_dependency (ex_rts s ! k) = Some j" "rt_terminal_status (ex_rts ?t ! j) \<noteq> rt_terminal_status (ex_rts s ! j)"
      using dep_status_cong [of ?t k s] dep by blast
    then have "j = i" by (cases "j = i") auto
    with j(1) okk have ik: "i \<noteq> k" "rt_close_dependency (ex_rts s ! i) = None" by auto
    with safe j(2) \<open>j = i\<close> i have "\<not> rt_done (ex_rts s ! i)" by (auto simp: gate_safe_def)
    then have "gate_state (dep_status s k) \<noteq> GateOpen"
      using j(1) \<open>j = i\<close> by (simp add: dep_status_def gate_state_def rt_done_def)
    with okk ik(1) show ?thesis by simp
  qed
  moreover have "j < length (ex_rts ?t) \<and> j \<noteq> k \<and> rt_close_dependency (ex_rts ?t ! j) = None"
    if "rt_close_dependency (ex_rts ?t ! k) = Some j" for j
    using okk that dep by simp
  ultimately show "(\<forall>j. rt_close_dependency (ex_rts ?t ! k) = Some j \<longrightarrow> j < length (ex_rts ?t) \<and> j \<noteq> k \<and> rt_close_dependency (ex_rts ?t ! j) = None)
     \<and> (gate_state (dep_status ?t k) \<noteq> GateOpen \<longrightarrow> untouched (ex_rts ?t ! k))" by blast
qed

lemma gate_ok_cong:
  assumes "map rt_core (ex_rts t) = map rt_core (ex_rts s)" "map rt_attempts (ex_rts t) = map rt_attempts (ex_rts s)" "gate_ok s"
  shows "gate_ok t"
proof -
  have len: "length (ex_rts t) = length (ex_rts s)" using assms(1) map_eq_imp_length_eq by blast
  have core: "rt_core (ex_rts t ! j) = rt_core (ex_rts s ! j)" "rt_attempts (ex_rts t ! j) = rt_attempts (ex_rts s ! j)"
    if "j < length (ex_rts s)" for j
    using that assms(1,2) len by (metis nth_map)+
  have fields: "rt_close_dependency (ex_rts t ! j) = rt_close_dependency (ex_rts s ! j)" "untouched (ex_rts t ! j) = untouched (ex_rts s ! j)"
      "rt_terminal_status (ex_rts t ! j) = rt_terminal_status (ex_rts s ! j)" if "j < length (ex_rts s)" for j
    using core [OF that] by (simp_all add: core_defs untouched_def)
  have dep: "dep_status t k = dep_status s k" if "k < length (ex_rts s)" for k
  proof (rule dep_status_cong)
    fix j assume "rt_close_dependency (ex_rts s ! k) = Some j"
    then have "j < length (ex_rts s)" using assms(3) that unfolding gate_ok_def by blast
    then show "rt_terminal_status (ex_rts t ! j) = rt_terminal_status (ex_rts s ! j)" by (rule fields(3))
  qed (rule fields(1) [OF that])
  show ?thesis unfolding gate_ok_def
  proof (intro allI impI)
    fix k assume "k < length (ex_rts t)"
    then have k: "k < length (ex_rts s)" using len by simp
    note okk = assms(3) [unfolded gate_ok_def, rule_format, OF k]
    show "(\<forall>j. rt_close_dependency (ex_rts t ! k) = Some j \<longrightarrow> j < length (ex_rts t) \<and> j \<noteq> k \<and> rt_close_dependency (ex_rts t ! j) = None)
       \<and> (gate_state (dep_status t k) \<noteq> GateOpen \<longrightarrow> untouched (ex_rts t ! k))"
      using okk by (simp add: fields [OF k] dep [OF k] len) (metis fields(1))
  qed
qed

section \<open>Invariants of a run\<close>

locale run_laws =
  fixes env :: "'v exec_env" and I E :: "'x \<Rightarrow> 'v cell \<Rightarrow> bool" and J JE :: "'v exec \<Rightarrow> bool"
  assumes cell: "runtime_laws env (I x) (E x)"
    and focus: "\<lbrakk>J s; i < length (ex_rts s)\<rbrakk> \<Longrightarrow> \<exists>x. I x (cell_at s i)
      \<and> (\<forall>t. I x t \<longrightarrow> rt_static (cl_rt t) = rt_static (ex_rts s ! i) \<longrightarrow> J (put_cell s i t)) \<and> (\<forall>t. E x t \<longrightarrow> JE (put_cell s i t))"
    and weaken: "J s \<Longrightarrow> JE s"
    and books: "\<lbrakk>J s; map rt_core rts = map rt_core (ex_rts s)\<rbrakk> \<Longrightarrow> J (s\<lparr>ex_rts := rts\<rparr>)"
    and cycle: "\<lbrakk>J s; cy_identity_submits c = cy_identity_submits (ex_cycle s)\<rbrakk> \<Longrightarrow> J (s\<lparr>ex_cycle := c\<rparr>)"
    and audit: "J s \<Longrightarrow> J (s\<lparr>ex_world := (ex_world s)\<lparr>wd_audit := a\<rparr>\<rparr>)"
    and outside: "\<lbrakk>J s; outside_step env (wd_venue (ex_world s)) v\<rbrakk> \<Longrightarrow> J (s\<lparr>ex_world := (ex_world s)\<lparr>wd_venue := v\<rparr>\<rparr>)"
begin

definition ok :: "nat \<Rightarrow> 'v exec \<Rightarrow> bool" where
  "ok n s \<longleftrightarrow> J s \<and> gate_ok s \<and> length (ex_rts s) = n"

definition ended :: "nat \<Rightarrow> 'v exec \<Rightarrow> bool" where
  "ended n s \<longleftrightarrow> JE s \<and> gate_ok s \<and> length (ex_rts s) = n"

lemma ok_ended: "ok n s \<Longrightarrow> ended n s"
  by (simp add: ok_def ended_def weaken)

lemma ok_world: "ok n s \<Longrightarrow> ok n (s\<lparr>ex_world := (ex_world s)\<lparr>wd_audit := a\<rparr>\<rparr>)"
  "ok n s \<Longrightarrow> outside_step env (wd_venue (ex_world s)) v \<Longrightarrow> ok n (s\<lparr>ex_world := (ex_world s)\<lparr>wd_venue := v\<rparr>\<rparr>)"
  by (auto simp: ok_def audit outside intro: gate_ok_cong)

text \<open>The step on one intent.\<close>

lemma on_runtime_ok:
  assumes "ok n s" "i < n" "on_runtime i m s = (r, t)"
    and m: "\<And>x. I x (cell_at s i) \<Longrightarrow> (case m (cell_at s i) of (Inl e, u) \<Rightarrow> E x u | (Inr y, u) \<Rightarrow> I x u)"
    and safe: "gate_safe s i (cl_rt (snd (m (cell_at s i))))"
  shows "case r of Inl e \<Rightarrow> ended n t | Inr y \<Rightarrow> ok n t"
proof -
  obtain x where x: "I x (cell_at s i)" "\<And>t. I x t \<Longrightarrow> rt_static (cl_rt t) = rt_static (ex_rts s ! i) \<Longrightarrow> J (put_cell s i t)"
      "\<And>t. E x t \<Longrightarrow> JE (put_cell s i t)"
    using focus [of s i] assms(1,2) by (auto simp: ok_def)
  have "gate_ok t" "length (ex_rts t) = n"
    using assms gate_ok_step [OF _ _ safe] by (auto simp: ok_def on_runtime_run)
  with m [OF x(1)] x(2,3) assms(3) safe show ?thesis
    by (auto simp: ok_def ended_def on_runtime_run gate_safe_def split: prod.splits sum.splits)
qed

lemma on_runtime_keep:
  assumes s: "ok n s" "i < n" and m: "\<And>x. I x (cell_at s i) \<Longrightarrow> I x (snd (m (cell_at s i)))"
    and safe: "gate_safe s i (cl_rt (snd (m (cell_at s i))))"
  shows "ok n (snd (on_runtime i m s))"
proof -
  obtain x where x: "I x (cell_at s i)" "\<And>t. I x t \<Longrightarrow> rt_static (cl_rt t) = rt_static (ex_rts s ! i) \<Longrightarrow> J (put_cell s i t)"
    using focus [of s i] s by (auto simp: ok_def)
  show ?thesis
    using x(2) [OF m [OF x(1)]] safe s gate_ok_step [OF _ _ safe] by (auto simp: ok_def on_runtime_run gate_safe_def)
qed

lemma on_runtime_inv:
  assumes "i < n" and m: "\<And>x. sx_inv (I x) m"
    and safe: "\<And>s. ok n s \<Longrightarrow> gate_safe s i (cl_rt (snd (m (cell_at s i))))"
  shows "sx_inv (ok n) (on_runtime i m)"
  by (rule sx_inv_snd) (use assms(1) safe in \<open>auto intro!: on_runtime_keep sx_triple_snd [OF m]\<close>)

lemma ex_audit_inv: "sx_inv (ok n) (ex_in_world (audit_record e sy cid st))"
  by (rule sx_inv_zoom) (auto simp: audit_record_def sx_modify_def intro: ok_world)

lemma ex_call_inv: "(\<And>v. outside_step env v (snd (m v))) \<Longrightarrow> sx_inv (ok n) (ex_in_world (on_venue m))"
  by (rule sx_inv_zoom) (auto simp: on_venue_run intro: ok_world)

lemma ex_read_clock_inv: "sx_inv (ok n) (ex_read_clock env)"
  unfolding ex_read_clock_def by (rule ex_call_inv) (auto simp: outside_step_def split: prod.splits)

lemma ex_sleep_inv: "sx_inv (ok n) (ex_sleep env t)"
  unfolding ex_sleep_def by (rule ex_call_inv) (auto simp: outside_step_def)

lemma note_invalid_quote_inv: "sx_inv (ok n) (note_invalid_quote once sy)"
proof -
  have reported: "ok n (s\<lparr>ex_cycle := (ex_cycle s)\<lparr>cy_invalid_reported := c\<rparr>\<rparr>)" if "ok n s" for s c
    using that by (auto simp: ok_def intro!: cycle intro: gate_ok_cong)
  have "ok n t" if "ok n s" "note_invalid_quote once sy s = (r, t)" for s r t
    using that sx_invD [OF ex_audit_inv that(1)] sx_invD [OF ex_audit_inv reported [OF that(1)]]
    by (auto simp: note_invalid_quote_def split: if_splits)
  then show ?thesis by (intro sx_tripleI)
qed

lemma fetch_books_inv: "sx_inv (ok n) (fetch_books env once symbols)"
proof -
  have add: "sx_inv (ok n) (add_book env once sy entry books)" for sy entry books
    unfolding add_book_def by (intro sx_rules note_invalid_quote_inv)
  have json: "sx_inv (ok n) m \<Longrightarrow> (\<And>j. sx_inv (ok n) (f j)) \<Longrightarrow> sx_inv (ok n) (case j of JNull \<Rightarrow> m | x \<Rightarrow> f x)" for j m and f :: "json \<Rightarrow> ('v exec, (string, decimal \<times> decimal) dict) sx"
    by (cases j) simp_all
  have calls: "sx_inv (ok n) (ex_in_world (on_venue batch))" if "ev_book_tickers env = Some batch" for batch
    by (rule ex_call_inv) (auto simp: outside_step_def that)
  have "sx_inv (ok n) (ex_in_world (on_venue (ev_book_ticker env sy)))" for sy
    by (rule ex_call_inv) (auto simp: outside_step_def)
  then show ?thesis unfolding fetch_books_def
    by (intro sx_rules calls add json)
qed

text \<open>The operations of the loop.\<close>

lemma on_runtime_book:
  assumes "i < n" "\<And>c. rt_core (cl_rt (snd (m c))) = rt_core (cl_rt c)" "\<And>c. rt_attempts (cl_rt (snd (m c))) = rt_attempts (cl_rt c)"
    "\<And>x. sx_inv (I x) m"
  shows "sx_inv (ok n) (on_runtime i m)"
  using assms(1,4)
proof (rule on_runtime_inv)
  fix s
  show "gate_safe s i (cl_rt (snd (m (cell_at s i))))"
    using assms(2,3) [of "cell_at s i"] by (auto simp: gate_safe_def untouched_def core_defs)
qed

lemma finalize_inv: "i < n \<Longrightarrow> sleeper env sleep \<Longrightarrow> sx_inv (ok n) (on_runtime i (finalize_one env sleep))"
proof (rule on_runtime_inv)
  assume sleep: "sleeper env sleep"
  show "sx_inv (I x) (finalize_one env sleep)" for x by (rule runtime_laws.finalize_one_inv [OF cell sleep])
  fix s
  show "gate_safe s i (cl_rt (snd (finalize_one env sleep (cell_at s i))))"
    using finalize_done [of "cell_at s i" env sleep]
    by (simp add: gate_safe_def untouched_snd static_snd [OF static.finalize_one_inv [OF sleep]])
qed

lemma tick_intent_inv: "i < n \<Longrightarrow> sx_triple (ok n) (tick_intent env books now i u) (\<lambda>_. ok n) (\<lambda>_. ended n)"
proof -
  assume i: "i < n"
  have "case r of Inl e \<Rightarrow> ended n t | Inr y \<Rightarrow> ok n t" if s: "ok n s" and run: "tick_intent env books now i u s = (r, t)" for s r t
  proof (cases "rt_done (ex_rts s ! i) \<or> map_of books (rt_symbol (ex_rts s ! i)) = None")
    case True
    with s run show ?thesis by (auto simp: tick_intent_def Let_def split: if_splits)
  next
    case False
    then obtain touch where r: "on_runtime i (poll_or_post env (dep_status s i) touch now) s = (r, t)"
      using run by (auto simp: tick_intent_def Let_def split: option.splits)
    have gated: "gate_state (dep_status s i) \<noteq> GateOpen \<Longrightarrow> untouched (ex_rts s ! i)"
      using s i unfolding ok_def gate_ok_def by blast
    show ?thesis
    proof (rule on_runtime_ok [OF s i r])
      fix x assume "I x (cell_at s i)"
      then show "case poll_or_post env (dep_status s i) touch now (cell_at s i) of (Inl e, u) \<Rightarrow> E x u | (Inr y, u) \<Rightarrow> I x u"
        using runtime_laws.poll_or_post_inv [OF cell [of x], of "dep_status s i" touch now] gated
          False
        unfolding sx_triple_def by (auto simp: untouched_def)
    next
      show "gate_safe s i (cl_rt (snd (poll_or_post env (dep_status s i) touch now (cell_at s i))))"
        using False poll_static [of "dep_status s i" "cell_at s i"] untouched_idle [of "cell_at s i"] gated
        by (simp add: gate_safe_def untouched_snd)
    qed
  qed
  then show ?thesis by (intro sx_tripleI) force+
qed

lemma late_gate_inv:
  assumes i: "i < n" shows "sx_inv (ok n) (late_gate env i u)"
proof (rule sx_inv_snd)
  fix s assume s: "ok n s"
  let ?dep = "dep_status s i"
  show "ok n (snd (late_gate env i u s))"
  proof (cases "rt_block_reason (ex_rts s ! i) = None \<and> gate_state ?dep = GateBlocked")
    case False
    then show ?thesis using s by (auto simp: late_gate_def)
  next
    case True
    then have blocked: "gate_state ?dep = GateBlocked" ..
    obtain now v where clock: "ev_clock env (wd_venue (ex_world s)) = (now, v)" by (cases "ev_clock env (wd_venue (ex_world s))")
    define s1 where "s1 = s\<lparr>ex_world := (ex_world s)\<lparr>wd_venue := v\<rparr>\<rparr>"
    have s1: "ok n s1" unfolding s1_def by (rule ok_world(2) [OF s]) (simp add: outside_step_def clock)
    have un: "untouched (ex_rts s1 ! i)" using s i blocked unfolding ok_def gate_ok_def s1_def by force
    have dep: "rt_close_dependency (ex_rts s1 ! i) \<noteq> None"
      using blocked by (auto simp: s1_def dep_status_def gate_state_def split: option.splits)
    have idle: "idle (cell_at s1 i)" using un by (simp add: untouched_def)
    have "ok n (snd (on_runtime i (apply_close_gate ?dep now) s1))"
    proof (rule on_runtime_keep [OF s1 i])
      fix x assume "I x (cell_at s1 i)"
      then show "I x (snd (apply_close_gate ?dep now (cell_at s1 i)))"
        by (intro sx_triple_snd [OF runtime_laws.gate_idle [OF cell]]) (use idle in simp)
    next
      show "gate_safe s1 i (cl_rt (snd (apply_close_gate ?dep now (cell_at s1 i))))"
        using dep un idle by (simp add: gate_safe_def untouched_snd gate_static)
    qed
    then show ?thesis
      using True by (auto simp: late_gate_def ex_read_clock_def sx_zoom_def on_venue_run clock s1_def sx_defs split: prod.splits sum.splits)
  qed
qed

lemma cleanup_failed_inv: "i < n \<Longrightarrow> sx_inv (ok n) (cleanup_failed i)"
  unfolding cleanup_failed_def
proof (rule on_runtime_book)
  show "sx_inv (I x) (sx_bind get_rt (\<lambda>rt. rt_audit ''abort_cleanup_failed'' (case rt_active_id rt of None \<Rightarrow> rt_unresolved_id rt | Some x \<Rightarrow> Some x) []))" for x
    by (intro sx_rules cell_laws.rt_audit_inv [OF runtime_laws.axioms(1) [OF cell]])
qed (simp_all add: rt_audit_def sx_defs sx_zoom_def audit_record_def)

lemma cleanup_on_abort_inv: "sx_inv (ok n) (cleanup_on_abort env)"
proof -
  have "sx_inv (ok n) (cleanup_one env i u)" if "i < n" for i u
    unfolding cleanup_one_def by (intro sx_rules finalize_inv cleanup_failed_inv that) (simp add: sleeper_def)
  then have "sx_inv (ok n) (sx_foldM (cleanup_one env) [0..<n] ())" by (intro sx_inv_foldM) simp
  then show ?thesis unfolding cleanup_on_abort_def by (auto simp: sx_triple_def ok_def)
qed

lemma shutdown_finalize_inv: "set live \<subseteq> {..<n} \<Longrightarrow> sx_inv (ok n) (shutdown_finalize env live budget)"
proof -
  assume live: "set live \<subseteq> {..<n}"
  have flag: "sx_inv (ok n) (on_runtime i (upd_rt (\<lambda>rt. rt\<lparr>rt_shutdown_finalized := True\<rparr>)))" if "i < n" for i
    using that by (rule on_runtime_book)
      (simp_all add: sx_modify_def core_defs cell_laws.upd_book [OF runtime_laws.axioms(1) [OF cell], unfolded sx_modify_def])
  have "sx_inv (ok n) (shutdown_one env b start i u)" if "i < n" for b start i u
    unfolding shutdown_one_def
    by (intro sx_rules flag finalize_inv cleanup_failed_inv ex_read_clock_inv that) (simp_all add: sleeper_def)
  then show ?thesis unfolding shutdown_finalize_def using live by (intro sx_rules ex_read_clock_inv) auto
qed

lemma weak: "sx_inv (ok n) m \<Longrightarrow> sx_triple (ok n) m (\<lambda>_. ok n) (\<lambda>_. ended n)"
  by (erule sx_conseq) (auto intro: ok_ended)

lemma tick_loop_inv:
  assumes args: "set (lo_live args) \<subseteq> {..<n}" "set (lo_tick_order args) \<subseteq> {..<n}"
  shows "sx_triple (ok n) (tick_loop k env args interval failures) (\<lambda>_. ok n) (\<lambda>_. ended n)"
proof (induction k arbitrary: interval failures)
  case 0
  show ?case by (simp add: sx_triple_return)
next
  case (Suc k)
  have ticks: "sx_triple (ok n) (sx_foldM (tick_intent env b now) (lo_tick_order args) ()) (\<lambda>_. ok n) (\<lambda>_. ended n)" for b now
    using args(2) by (intro sx_triple_foldM) (auto intro: tick_intent_inv)
  have books: "sx_inv (ok n) (sx_catch (sx_bind (fetch_books env True (lo_symbols args)) (\<lambda>b. sx_return (Some b)))
                      (\<lambda>e. if e = TransientReadError then sx_return None else sx_raise e))"
    by (intro sx_rules fetch_books_inv)
  show ?case unfolding tick_loop.simps Let_def
    by (intro sx_triple_peek sx_triple_prod sx_triple_if sx_triple_return sx_triple_raise sx_triple_option
        sx_triple_seq [OF weak [OF shutdown_finalize_inv [OF args(1)]]] sx_triple_seq [OF weak [OF ex_audit_inv]]
        sx_triple_seq [OF weak [OF ex_read_clock_inv]] sx_triple_seq [OF weak [OF books]] sx_triple_seq [OF weak [OF ex_sleep_inv]]
        sx_triple_seq [OF ticks] Suc.IH) (auto intro: ok_ended)
qed

lemma hard_stop_inv: "sx_inv (ok n) (sx_modify (ex_rts_update (map (\<lambda>rt. rt\<lparr>rt_hard_stop_at := h\<rparr>))))"
proof (rule sx_inv_modify)
  fix s assume s: "ok n s"
  let ?rts = "map (\<lambda>rt. rt\<lparr>rt_hard_stop_at := h\<rparr>) (ex_rts s)"
  have "map rt_core ?rts = map rt_core (ex_rts s)" "map rt_attempts ?rts = map rt_attempts (ex_rts s)" by (simp_all add: core_defs)
  then have "J (s\<lparr>ex_rts := ?rts\<rparr>)" "gate_ok (s\<lparr>ex_rts := ?rts\<rparr>)"
    using s books [of s ?rts] gate_ok_cong [of "s\<lparr>ex_rts := ?rts\<rparr>" s] by (auto simp: ok_def)
  then show "ok n (ex_rts_update (map (\<lambda>rt. rt\<lparr>rt_hard_stop_at := h\<rparr>)) s)" using s
    by (cases s) (simp add: ok_def)
qed

lemma run_window_inv:
  assumes "set live \<subseteq> {..<n}"
  shows "sx_triple (ok n) (run_window env budget window_s rts live) (\<lambda>_. ok n) (\<lambda>_. ended n)"
  unfolding run_window_def Let_def
  using assms by (intro sx_triple_seq [OF weak [OF ex_read_clock_inv]] sx_triple_seq [OF weak [OF hard_stop_inv]] sx_triple_seq [OF tick_loop_inv]
      weak sx_inv_bind sx_inv_foldM finalize_inv late_gate_inv) (auto simp: sleeper_def)

lemma run_loop_inv: "sx_triple (ok n) (run_loop env budget window_s) (\<lambda>_. ok n) (\<lambda>_. ended n)"
  unfolding sx_triple_def
proof (intro allI impI)
  fix s assume s: "ok n s"
  let ?live = "filter (\<lambda>i. \<not> rt_done (ex_rts s ! i)) [0..<length (ex_rts s)]"
  have "set ?live \<subseteq> {..<n}" using s by (auto simp: ok_def)
  from run_window_inv [OF this, of budget window_s "ex_rts s", unfolded sx_triple_def, rule_format, OF s] s
  show "case run_loop env budget window_s s of (Inl e, t) \<Rightarrow> ended n t | (Inr x, t) \<Rightarrow> ok n t"
    unfolding run_loop_def Let_def by (cases "?live = []") (simp_all only: if_True if_False prod.case sum.case simp_thms)
qed

lemma report_tail:
  "sx_triple (ok n) (sx_bind (sx_gets ex_rts) (\<lambda>rts.
     sx_bind (sx_foldM (\<lambda>rt _. ex_in_world (audit_record ''intent_outcome'' (rt_symbol rt) [] (eo_status (snapshot rt)))) rts ()) (\<lambda>_.
       sx_return (map snapshot rts)))) (\<lambda>out s. ok n s \<and> out = map snapshot (ex_rts s)) (\<lambda>_. ok n)"
proof (rule sx_triple_gets_eq)
  fix rts
  let ?P = "\<lambda>s. ok n s \<and> ex_rts s = rts"
  have "sx_inv ?P (ex_in_world (audit_record e sy cid st))" for e sy cid st
    by (rule sx_inv_conj [OF ex_audit_inv]) (rule sx_inv_zoom, simp)
  then have "sx_inv ?P (sx_foldM (\<lambda>rt _. ex_in_world (audit_record ''intent_outcome'' (rt_symbol rt) [] (eo_status (snapshot rt)))) rts ())"
    by (intro sx_inv_foldM)
  then have "sx_triple ?P (sx_foldM (\<lambda>rt _. ex_in_world (audit_record ''intent_outcome'' (rt_symbol rt) [] (eo_status (snapshot rt)))) rts ()) (\<lambda>_. ?P) (\<lambda>_. ok n)"
    by (rule sx_conseq) auto
  then show "sx_triple ?P (sx_bind (sx_foldM (\<lambda>rt _. ex_in_world (audit_record ''intent_outcome'' (rt_symbol rt) [] (eo_status (snapshot rt)))) rts ()) (\<lambda>_.
       sx_return (map snapshot rts))) (\<lambda>out s. ok n s \<and> out = map snapshot (ex_rts s)) (\<lambda>_. ok n)"
    by (rule sx_triple_seq) (auto intro: sx_triple_return)
qed

lemma report_normal: "sx_triple (ok n) (run_and_report env budget) (\<lambda>out s. ok n s \<and> out = map snapshot (ex_rts s)) (\<lambda>_ _. True)"
  unfolding run_and_report_def
  by (intro sx_triple_peek sx_triple_seq [OF sx_triple_catch [OF run_loop_inv]] sx_conseq [OF report_tail])
    (auto simp: sx_triple_def sx_defs split: prod.splits sum.splits)

end

text \<open>An invariant that holds after an exception too.\<close>

locale stable_run = run_laws env I E J J
  for env :: "'v exec_env" and I E :: "'x \<Rightarrow> 'v cell \<Rightarrow> bool" and J :: "'v exec \<Rightarrow> bool"
begin

lemma report_stable: "sx_triple (ok n) (run_and_report env budget) (\<lambda>out s. ok n s \<and> out = map snapshot (ex_rts s)) (\<lambda>_. ok n)"
proof -
  have "ended = ok" by (simp add: fun_eq_iff ok_def ended_def)
  then have "sx_triple (ok n) (sx_catch (run_loop env budget w) (\<lambda>e. sx_bind (cleanup_on_abort env) (\<lambda>_. sx_raise e))) (\<lambda>_. ok n) (\<lambda>_. ok n)" for w
    using run_loop_inv by (intro sx_inv_catch sx_inv_bind cleanup_on_abort_inv sx_inv_pure) simp
  then show ?thesis unfolding run_and_report_def by (intro sx_triple_peek sx_triple_seq [OF _ report_tail])
qed

lemma report_keeps: "ok n s \<Longrightarrow> run_and_report env budget s = (r, t) \<Longrightarrow> ok n t"
  by (cases r) (auto dest: sx_tripleD_Inr [OF report_stable] sx_tripleD_Inl [OF report_stable])

end

text \<open>The intents of the runtimes stay what they are.\<close>

interpretation static_run: stable_run env "\<lambda>x s. rt_static (cl_rt s) = x" "\<lambda>x s. rt_static (cl_rt s) = x" "\<lambda>s. map rt_static (ex_rts s) = xs"
  for env :: "'v exec_env" and xs
proof (intro stable_run.intro run_laws.intro)
  show "runtime_laws env (\<lambda>s. rt_static (cl_rt s) = x) (\<lambda>s. rt_static (cl_rt s) = x)" for x by (rule static.runtime_laws_axioms)
next
  fix s :: "'v exec" and i assume "map rt_static (ex_rts s) = xs" "i < length (ex_rts s)"
  then show "\<exists>x. rt_static (cl_rt (cell_at s i)) = x
      \<and> (\<forall>t. rt_static (cl_rt t) = x \<longrightarrow> rt_static (cl_rt t) = rt_static (ex_rts s ! i) \<longrightarrow> map rt_static (ex_rts (put_cell s i t)) = xs)
      \<and> (\<forall>t. rt_static (cl_rt t) = x \<longrightarrow> map rt_static (ex_rts (put_cell s i t)) = xs)"
    by (auto simp: map_update list_update_same_conv)
next
  fix s :: "'v exec" and rts assume "map rt_static (ex_rts s) = xs" "map rt_core rts = map rt_core (ex_rts s)"
  then show "map rt_static (ex_rts (s\<lparr>ex_rts := rts\<rparr>)) = xs"
    by (auto simp: list_eq_iff_nth_eq rt_core_def)
qed simp_all

section \<open>The start of a run\<close>

lemma close_candidate_Some:
  assumes "close_candidate intents i = Some j"
  shows "j < length intents \<and> j \<noteq> i \<and> oi_reduce_only (intents ! j) \<and> oi_symbol (intents ! j) = oi_symbol (intents ! i)
    \<and> oi_leg_index (intents ! j) < oi_leg_index (intents ! i)"
proof -
  have "cand = Some j \<Longrightarrow> j < length intents \<and> j \<noteq> i \<and> oi_reduce_only (intents ! j) \<and> oi_symbol (intents ! j) = oi_symbol (intents ! i)
      \<and> oi_leg_index (intents ! j) < oi_leg_index (intents ! i)"
    if "cand = foldl (\<lambda>cand j. let o1 = intents ! j; me = intents ! i
       in if j \<noteq> i \<and> oi_symbol o1 = oi_symbol me \<and> oi_reduce_only o1 \<and> oi_leg_index o1 < oi_leg_index me
             \<and> (case cand of None \<Rightarrow> True | Some k \<Rightarrow> oi_leg_index (intents ! k) < oi_leg_index o1)
          then Some j else cand) None [0..<m]" "m \<le> length intents" for m cand
    using that by (induction m arbitrary: cand) (auto simp: Let_def split: if_splits)
  from this [OF _ order_refl] assms show ?thesis unfolding close_candidate_def by blast
qed

lemma start_fields [simp]:
  "rt_intent (start_runtime env filters aseq tol intent) = intent"
  "rt_journal_enabled (start_runtime env filters aseq tol intent) = (aseq \<noteq> None)"
  "rt_attempt_seq (start_runtime env filters aseq tol intent) = aseq"
  "untouched (start_runtime env filters aseq tol intent)"
  by (simp_all add: start_runtime_def new_runtime_def untouched_def)

lemma link_length [simp]: "length (link_close_dependencies rts) = length rts"
  by (simp add: link_close_dependencies_def)

lemma link_nth: "i < length rts \<Longrightarrow> link_close_dependencies rts ! i = (rts ! i)\<lparr>rt_close_dependency :=
    (if oi_reduce_only (rt_intent (rts ! i)) then None else close_candidate (map rt_intent rts) i)\<rparr>"
  by (simp add: link_close_dependencies_def)

lemma gate_ok_start:
  assumes "ex_rts s = link_close_dependencies (map (start_runtime env filters aseq tol) intents)" shows "gate_ok s"
proof -
  have "untouched (ex_rts s ! i)" if "i < length (ex_rts s)" for i
    using that assms start_fields(4) [of env filters aseq tol "intents ! i"] by (simp add: link_nth untouched_def)
  moreover have "j < length (ex_rts s) \<and> j \<noteq> i \<and> rt_close_dependency (ex_rts s ! j) = None"
    if "i < length (ex_rts s)" "rt_close_dependency (ex_rts s ! i) = Some j" for i j
    using that assms close_candidate_Some [of intents i j] by (auto simp: link_nth comp_def split: if_splits)
  ultimately show ?thesis unfolding gate_ok_def by blast
qed

end
