(* ===== verification/Executor_Books.thy ===== *)
theory Executor_Books
  imports Executor_Runs Recovery "HOL-Library.Multiset"
begin

text \<open>
  The journal and the memory of a run agree.  Whatever the venue, the clock or the shutdown flag do
  and however the run ends, the fills and submissions that the run appended to the journal are the
  fills and submissions its runtimes hold, and every order a runtime counts as ended has a terminal
  record.
\<close>

section \<open>Lines of the journal and of a runtime\<close>

type_synonym book_line = "int option \<times> string \<times> string \<times> int \<times> execution_fill"

definition fill_line :: "journal_fill \<Rightarrow> book_line" where
  "fill_line x = (jf_attempt_seq x, jf_symbol x, jf_side x, jf_leg_index x,
     \<lparr>ef_quantity = jf_quantity x, ef_price = jf_price x, ef_fee_bps = jf_fee_bps x, ef_reason = jf_reason x,
      ef_liquidity = jf_liquidity x, ef_filled_at = jf_filled_at x\<rparr>)"

definition intent_line :: "int option \<Rightarrow> order_intent \<Rightarrow> execution_fill \<Rightarrow> book_line" where
  "intent_line aseq intent x = (aseq, oi_symbol intent, oi_side intent, oi_leg_index intent, x)"

definition rt_lines :: "intent_runtime \<Rightarrow> book_line list" where
  "rt_lines rt = map (intent_line (rt_attempt_seq rt) (rt_intent rt)) (rt_fills rt)"

lemma execution_fill_line:
  assumes "check_fill (execution_request rt q p fee liq reason stamp cid cum sim) j = Inr x"
  shows "fill_line x = intent_line (rt_attempt_seq rt) (rt_intent rt)
    \<lparr>ef_quantity = q, ef_price = p, ef_fee_bps = fee, ef_reason = reason, ef_liquidity = liq, ef_filled_at = stamp\<rparr>"
  using assms
  by (auto simp: check_fill_def execution_request_def fill_line_def intent_line_def rt_symbol_def tz_aware_def split: if_splits option.splits)

section \<open>The invariant of one intent\<close>

record books =
  bk_fills :: "journal_fill list"
  bk_submits :: "journal_submit list"

definition agree :: "'v exec_env \<Rightarrow> books \<Rightarrow> book_line multiset \<times> string multiset \<times> string set \<Rightarrow> 'v cell \<Rightarrow> bool" where
  "agree env base others s \<longleftrightarrow> codec_ok (ev_codec env) \<and> (case others of (F, S, T) \<Rightarrow>
     let rt = cl_rt s; j = wal_mem (wd_journal (cl_world s))
     in synced (ev_codec env) (wd_journal (cl_world s)) \<and> rt_journal_enabled rt \<and> rt_attempt_seq rt \<noteq> None
        \<and> (\<exists>new. oj_fills j = bk_fills base @ new \<and> mset (map fill_line new) = F + mset (rt_lines rt))
        \<and> (\<exists>new. oj_submits j = bk_submits base @ new \<and> mset (map js_client_order_id new) = S + mset (rt_journal_submitted rt))
        \<and> (\<forall>cid \<in> T \<union> set (rt_journal_terminals rt). map_of (oj_terminals j) cid \<noteq> None))"

lemma agree_cong:
  assumes "agree env base x s" "wd_journal (cl_world t) = wd_journal (cl_world s)" "rt_static (cl_rt t) = rt_static (cl_rt s)"
    "rt_fills (cl_rt t) = rt_fills (cl_rt s)" "rt_journal_submitted (cl_rt t) = rt_journal_submitted (cl_rt s)"
    "rt_journal_terminals (cl_rt t) = rt_journal_terminals (cl_rt s)"
  shows "agree env base x t"
  using assms by (auto simp: agree_def Let_def rt_static_def rt_lines_def split: prod.splits)

lemma agree_synced: "agree env base x s \<Longrightarrow> codec_ok (ev_codec env) \<and> synced (ev_codec env) (wd_journal (cl_world s))"
  by (auto simp: agree_def Let_def split: prod.splits)

lemma rt_audit_run: "\<exists>a. rt_audit e cid st s = (Inr (), s\<lparr>cl_world := (cl_world s)\<lparr>wd_audit := a\<rparr>\<rparr>)"
  by (simp add: rt_audit_def sx_defs sx_zoom_def audit_record_def) blast

lemma world_journal_same [simp]: "s\<lparr>cl_world := (cl_world s)\<lparr>wd_journal := wd_journal (cl_world s)\<rparr>\<rparr> = s"
  by simp

lemma agree_fill:
  "sx_inv (agree env base x) (apply_execution_fill env q p l cid cum sim now)"
proof (rule sx_inv_snd)
  fix s :: "'a cell" assume s: "agree env base x s"
  note c = conjunct1 [OF agree_synced [OF s]] and sync = conjunct2 [OF agree_synced [OF s]]
  have en: "rt_journal_enabled (cl_rt s)" using s by (auto simp: agree_def Let_def split: prod.splits)
  show "agree env base x (snd (apply_execution_fill env q p l cid cum sim now s))"
  proof (cases "q \<le> 0 \<or> p \<le> 0 \<or> (\<exists>e. bps_for (rt_fee_schedule (cl_rt s)) l = Inl e)")
    case True
    then show ?thesis using s by (auto simp: apply_execution_fill_def sx_defs)
  next
    case False
    then obtain fee where fee: "bps_for (rt_fee_schedule (cl_rt s)) l = Inr fee" by (cases "bps_for (rt_fee_schedule (cl_rt s)) l") auto
    define reason where "reason = (if l = ''maker'' then ''maker_fill'' else ''timeout_taker'')"
    define r where "r = execution_request (cl_rt s) q p fee l reason (ev_fill_time env now) cid (if sim then None else Some cum) sim"
    let ?x = "\<lparr>ef_quantity = q, ef_price = p, ef_fee_bps = fee, ef_reason = reason, ef_liquidity = l, ef_filled_at = ev_fill_time env now\<rparr>"
    from record_fill_synced [OF c sync, of "vc_now (ev_client env) (wd_venue (cl_world s))" r] consider
        (no) e where "record_fill (ev_codec env) (vc_now (ev_client env) (wd_venue (cl_world s))) r (wd_journal (cl_world s)) = (Inl e, wd_journal (cl_world s))"
      | (yes) y j where "record_fill (ev_codec env) (vc_now (ev_client env) (wd_venue (cl_world s))) r (wd_journal (cl_world s)) = (Inr y, j)"
          "check_fill r (wal_mem (wd_journal (cl_world s))) = Inr y" "synced (ev_codec env) j"
          "oj_submits (wal_mem j) = oj_submits (wal_mem (wd_journal (cl_world s)))" "oj_terminals (wal_mem j) = oj_terminals (wal_mem (wd_journal (cl_world s)))"
          "oj_fills (wal_mem j) = oj_fills (wal_mem (wd_journal (cl_world s))) @ [y]"
      by blast
    then show ?thesis
    proof cases
      case no
      then show ?thesis using False fee en s
        by (auto simp: apply_execution_fill_def sx_defs sx_when_def sx_zoom_def on_journal_def Let_def reason_def r_def)
    next
      case yes
      let ?t = "s\<lparr>cl_world := (cl_world s)\<lparr>wd_journal := j\<rparr>\<rparr>"
      let ?u = "cl_rt_update (\<lambda>rt. rt\<lparr>rt_filled_total := dadd (rt_filled_total rt) q,
                    rt_fill_notional := dadd (rt_fill_notional rt) (dmul q p), rt_reported_executed := cum, rt_fills := rt_fills rt @ [?x]\<rparr>) ?t"
      have run: "apply_execution_fill env q p l cid cum sim now s = rt_audit ''fill'' (Some cid) [] ?u"
        using False fee en yes(1) by (auto simp: apply_execution_fill_def sx_defs sx_when_def sx_zoom_def on_journal_def Let_def reason_def r_def)
      have line: "fill_line y = intent_line (rt_attempt_seq (cl_rt s)) (rt_intent (cl_rt s)) ?x"
        by (rule execution_fill_line [OF yes(2) [unfolded r_def]])
      have "agree env base x ?u"
        using s yes(3-6) line by (auto simp: agree_def Let_def rt_lines_def split: prod.splits)
      moreover obtain a where "rt_audit ''fill'' (Some cid) [] ?u = (Inr (), ?u\<lparr>cl_world := (cl_world ?u)\<lparr>wd_audit := a\<rparr>\<rparr>)"
        using rt_audit_run by blast
      ultimately show ?thesis unfolding run by (auto intro: agree_cong)
    qed
  qed
qed

lemma agree_terminal:
  "sx_inv (agree env base x) (journal_terminal_once env oid st)"
proof (rule sx_inv_snd)
  fix s :: "'a cell" assume s: "agree env base x s"
  show "agree env base x (snd (journal_terminal_once env oid st s))"
  proof (cases "\<exists>k. oid = Some k \<and> k \<notin> set (rt_journal_terminals (cl_rt s)) \<and> k \<in> set (rt_journal_submitted (cl_rt s))")
    case False
    then have "snd (journal_terminal_once env oid st s) = s"
      by (cases oid) (auto simp: journal_terminal_once_def sx_defs)
    with s show ?thesis by simp
  next
    case True
    then obtain k where k: "oid = Some k" "k \<notin> set (rt_journal_terminals (cl_rt s))" "k \<in> set (rt_journal_submitted (cl_rt s))" by blast
    let ?now = "vc_now (ev_client env) (wd_venue (cl_world s))"
    obtain j where j: "record_terminal (ev_codec env) ?now k st (wd_journal (cl_world s)) = (Inr (), j)" "synced (ev_codec env) j"
        "oj_submits (wal_mem j) = oj_submits (wal_mem (wd_journal (cl_world s)))" "oj_fills (wal_mem j) = oj_fills (wal_mem (wd_journal (cl_world s)))"
        "oj_terminals (wal_mem j) = AList.update k \<lparr>jt_client_order_id = k, jt_status = st, jt_recorded_at = ?now\<rparr> (oj_terminals (wal_mem (wd_journal (cl_world s))))"
      using record_terminal_synced agree_synced [OF s] by metis
    have "snd (journal_terminal_once env oid st s) = (cl_rt_update (rt_journal_terminals_update (\<lambda>ts. k # ts)) s)\<lparr>cl_world := (cl_world s)\<lparr>wd_journal := j\<rparr>\<rparr>"
      using k j(1) by (simp add: journal_terminal_once_def sx_defs sx_zoom_def on_journal_def)
    then show ?thesis using s j(2-5) by (auto simp: agree_def Let_def rt_lines_def split: prod.splits)
  qed
qed

lemma agree_submission:
  "sx_inv (agree env base x) (journal_submission env oid n q)"
proof (rule sx_inv_snd)
  fix s :: "'a cell" assume s: "agree env base x s"
  then obtain a where a: "rt_attempt_seq (cl_rt s) = Some a" "rt_journal_enabled (cl_rt s)" by (auto simp: agree_def Let_def split: prod.splits)
  let ?now = "vc_now (ev_client env) (wd_venue (cl_world s))"
  define r where "r = \<lparr>sr_client_order_id = oid, sr_symbol = rt_symbol (cl_rt s), sr_submit_seq = n, sr_attempt_seq = a,
      sr_side = oi_side (rt_intent (cl_rt s)), sr_quantity = q, sr_reduce_only = oi_reduce_only (rt_intent (cl_rt s)),
      sr_leg_index = oi_leg_index (rt_intent (cl_rt s))\<rparr>"
  from record_submit_synced [OF conjunct1 [OF agree_synced [OF s]] conjunct2 [OF agree_synced [OF s]], of ?now r] consider
      (no) e where "record_submit (ev_codec env) ?now r (wd_journal (cl_world s)) = (Inl e, wd_journal (cl_world s))"
    | (yes) y j where "record_submit (ev_codec env) ?now r (wd_journal (cl_world s)) = (Inr y, j)"
        "check_submit ?now r (wal_mem (wd_journal (cl_world s))) = Inr y" "synced (ev_codec env) j"
        "oj_submits (wal_mem j) = oj_submits (wal_mem (wd_journal (cl_world s))) @ [y]"
        "oj_terminals (wal_mem j) = oj_terminals (wal_mem (wd_journal (cl_world s)))" "oj_fills (wal_mem j) = oj_fills (wal_mem (wd_journal (cl_world s)))"
    by blast
  then show "agree env base x (snd (journal_submission env oid n q s))"
  proof cases
    case no
    then show ?thesis using a s by (simp add: journal_submission_def sx_defs sx_when_def sx_zoom_def on_journal_def r_def)
  next
    case yes
    have "js_client_order_id y = oid" using yes(2) by (auto simp: check_submit_def r_def split: if_splits)
    then show ?thesis using a s yes(1,3-6)
      by (auto simp: journal_submission_def sx_defs sx_when_def sx_zoom_def on_journal_def r_def agree_def Let_def rt_lines_def split: prod.splits)
  qed
qed

lemma next_submit_world:
  "synced c (wd_journal (cl_world s)) \<Longrightarrow> in_world (on_journal vc (\<lambda>clock. next_submit_seq c clock)) s = (Inr (oj_next_submit_seq (wal_mem (wd_journal (cl_world s)))), s)"
  by (simp add: sx_zoom_def on_journal_def next_submit_seq_def query_synced)

interpretation agree_steps: step_laws env "agree env base x" for env :: "'v exec_env" and base x
  by unfold_locales (auto simp: rt_core_def rt_orders_def rt_books_def elim!: agree_cong intro: agree_fill agree_terminal)

interpretation agree: send_laws env "agree env base x" for env :: "'v exec_env" and base x
proof unfold_locales
  fix tif price qty touch now
  show "sx_inv (agree env base x) (send_order env tif price qty touch now)"
  proof (rule agree_steps.send_by_parts)
    show "sx_inv (agree env base x) (in_world (on_journal (ev_client env) (\<lambda>clock. next_submit_seq (ev_codec env) clock)))"
      by (rule sx_inv_snd) (simp add: next_submit_world agree_synced)
    show "sx_inv (agree env base x) (in_world (on_venue (ev_new_order env p)))" for p
      by (rule sx_inv_snd) (auto simp: sx_zoom_def on_venue_run elim: agree_cong)
  qed (rule agree_submission)
qed

section \<open>The invariant of a run\<close>

lemma core_map:
  assumes "map rt_core rts = map rt_core rts'" "\<And>a b. rt_core a = rt_core b \<Longrightarrow> f a = f b" shows "map f rts = map f rts'"
  using assms(1) by (auto simp: list_eq_iff_nth_eq intro: assms(2))

lemma core_ball:
  assumes "map rt_core rts = map rt_core rts'" "\<And>a b. rt_core a = rt_core b \<Longrightarrow> P a = P b" shows "(\<forall>rt \<in> set rts. P rt) = (\<forall>rt \<in> set rts'. P rt)"
proof -
  have "map P rts = map P rts'" by (rule core_map [OF assms])
  then have "(False \<in> set (map P rts)) = (False \<in> set (map P rts'))" by simp
  then show ?thesis by auto
qed


definition all_agree :: "'v exec_env \<Rightarrow> books \<Rightarrow> 'v exec \<Rightarrow> bool" where
  "all_agree env base s \<longleftrightarrow> codec_ok (ev_codec env) \<and> (let rts = ex_rts s; j = wal_mem (wd_journal (ex_world s))
     in synced (ev_codec env) (wd_journal (ex_world s)) \<and> (\<forall>rt \<in> set rts. rt_journal_enabled rt \<and> rt_attempt_seq rt \<noteq> None)
        \<and> (\<exists>new. oj_fills j = bk_fills base @ new \<and> mset (map fill_line new) = mset (concat (map rt_lines rts)))
        \<and> (\<exists>new. oj_submits j = bk_submits base @ new \<and> mset (map js_client_order_id new) = mset (concat (map rt_journal_submitted rts)))
        \<and> (\<forall>rt \<in> set rts. \<forall>cid \<in> set (rt_journal_terminals rt). map_of (oj_terminals j) cid \<noteq> None))"

definition others :: "nat \<Rightarrow> intent_runtime list \<Rightarrow> intent_runtime list" where
  "others i rts = take i rts @ drop (Suc i) rts"

lemma mset_concat_update:
  "i < length rts \<Longrightarrow> mset (concat (map f (rts[i := r]))) = mset (concat (map f (others i rts))) + mset (f r)"
  by (simp add: upd_conv_take_nth_drop others_def)

lemma set_update_others: "i < length rts \<Longrightarrow> set (rts[i := r]) = insert r (set (others i rts))"
  by (simp add: upd_conv_take_nth_drop others_def)

lemma focus_others:
  assumes "i < length rts"
  shows "mset (concat (map f rts)) = mset (concat (map f (others i rts))) + mset (f (rts ! i))" "set rts = insert (rts ! i) (set (others i rts))"
  using mset_concat_update [OF assms, of f "rts ! i"] set_update_others [OF assms, of "rts ! i"] by simp_all

lemma ex_same [simp]: "ex_world (s\<lparr>ex_rts := r\<rparr>) = ex_world s" "ex_rts (s\<lparr>ex_rts := r\<rparr>) = r" "ex_cycle (s\<lparr>ex_rts := r\<rparr>) = ex_cycle s"
  by simp_all

interpretation agree_run: stable_run env "agree env base" "agree env base" "all_agree env base" for env :: "'v exec_env" and base
proof (intro stable_run.intro run_laws.intro)
  show "runtime_laws env (agree env base x) (agree env base x)" for x by (rule agree.runtime_laws_axioms)
next
  fix s :: "'v exec" and i assume s: "all_agree env base s" and i: "i < length (ex_rts s)"
  let ?o = "others i (ex_rts s)"
  let ?x = "(mset (concat (map rt_lines ?o)), mset (concat (map rt_journal_submitted ?o)), \<Union> (set ` rt_journal_terminals ` set ?o))"
  have "agree env base ?x (cell_at s i)"
    using s focus_others(1) [OF i, of rt_lines] focus_others(1) [OF i, of rt_journal_submitted] focus_others(2) [OF i] by (auto simp: agree_def all_agree_def Let_def)
  moreover have "all_agree env base (put_cell s i t)" if "agree env base ?x t" for t
    using s i that by (auto simp: agree_def all_agree_def Let_def mset_concat_update set_update_others focus_others(2) [OF i])
  ultimately show "\<exists>x. agree env base x (cell_at s i)
      \<and> (\<forall>t. agree env base x t \<longrightarrow> rt_static (cl_rt t) = rt_static (ex_rts s ! i) \<longrightarrow> all_agree env base (put_cell s i t))
      \<and> (\<forall>t. agree env base x t \<longrightarrow> all_agree env base (put_cell s i t))"
    by blast
next
  fix s :: "'v exec" and rts assume s: "all_agree env base s" and rts: "map rt_core rts = map rt_core (ex_rts s)"
  have "map rt_lines rts = map rt_lines (ex_rts s)" "map rt_journal_submitted rts = map rt_journal_submitted (ex_rts s)"
      "\<And>j. (\<forall>rt \<in> set rts. \<forall>cid \<in> set (rt_journal_terminals rt). map_of (oj_terminals j) cid \<noteq> None)
         = (\<forall>rt \<in> set (ex_rts s). \<forall>cid \<in> set (rt_journal_terminals rt). map_of (oj_terminals j) cid \<noteq> None)"
      "(\<forall>rt \<in> set rts. rt_journal_enabled rt \<and> rt_attempt_seq rt \<noteq> None) = (\<forall>rt \<in> set (ex_rts s). rt_journal_enabled rt \<and> rt_attempt_seq rt \<noteq> None)"
    by (rule core_map [OF rts] core_ball [OF rts], simp add: core_defs rt_lines_def)+
  with s show "all_agree env base (s\<lparr>ex_rts := rts\<rparr>)" by (simp only: all_agree_def Let_def exec.simps exec.update_convs ex_same) blast
qed (auto simp: all_agree_def Let_def)

section \<open>Execution\<close>

abbreviation fills_of :: "'v world \<Rightarrow> journal_fill list" where
  "fills_of w \<equiv> oj_fills (wal_mem (wd_journal w))"

abbreviation submits_of :: "'v world \<Rightarrow> journal_submit list" where
  "submits_of w \<equiv> oj_submits (wal_mem (wd_journal w))"

definition started :: "'v exec_env \<Rightarrow> order_intent list \<Rightarrow> (string, symbol_filters) dict \<Rightarrow> int option \<Rightarrow> int option \<Rightarrow> 'v world \<Rightarrow> 'v exec" where
  "started env intents filters aseq tol w =
     \<lparr>ex_rts = link_close_dependencies (map (start_runtime env filters aseq tol) intents),
      ex_cycle = fresh_cycle (if aseq = None then [] else submits_of w), ex_world = w\<rparr>"

lemma started_fields [simp]:
  "ex_world (started env intents filters aseq tol w) = w" "length (ex_rts (started env intents filters aseq tol w)) = length intents"
  by (simp_all add: started_def)

lemma started_nth:
  "i < length intents \<Longrightarrow> \<exists>d. ex_rts (started env intents filters aseq tol w) ! i = (start_runtime env filters aseq tol (intents ! i))\<lparr>rt_close_dependency := d\<rparr>"
  by (auto simp: started_def link_nth)

lemma started_gate: "gate_ok (started env intents filters aseq tol w)"
  by (rule gate_ok_start) (simp add: started_def)

lemma execute_passive_started:
  assumes "synced (ev_codec env) (wd_journal (ex_world s)) \<or> aseq = None"
  shows "execute_passive env intents filters aseq tol budget s = run_and_report env budget (started env intents filters aseq tol (ex_world s))"
proof -
  have "on_journal (ev_client env) (\<lambda>clock. submits (ev_codec env) clock) (ex_world s) = (Inr (submits_of (ex_world s)), ex_world s)"
    if "synced (ev_codec env) (wd_journal (ex_world s))"
    using that by (simp add: on_journal_def submits_def query_synced)
  then show ?thesis using assms
    by (cases s) (auto simp: execute_passive_def sx_defs sx_zoom_def started_def)
qed

lemma runtimes_static:
  assumes "run_and_report env budget (started env intents filters aseq tol w) = (r, t)"
  shows "length (ex_rts t) = length intents" "gate_ok t" "\<And>out. r = Inr out \<Longrightarrow> out = map snapshot (ex_rts t)"
    "\<And>i. i < length intents \<Longrightarrow> rt_intent (ex_rts t ! i) = intents ! i \<and> rt_attempt_seq (ex_rts t ! i) = aseq \<and> rt_filters (ex_rts t ! i) = map_of filters (oi_symbol (intents ! i))
       \<and> rt_close_dependency (ex_rts t ! i) = rt_close_dependency (ex_rts (started env intents filters aseq tol w) ! i)"
proof -
  let ?s = "started env intents filters aseq tol w"
  have ok: "static_run.ok (map rt_static (ex_rts ?s)) (length intents) ?s"
    using started_gate by (simp add: static_run.ok_def)
  show "out = map snapshot (ex_rts t)" if "r = Inr out" for out
    using sx_tripleD_Inr [OF static_run.report_stable ok] assms that by blast
  from static_run.report_keeps [OF ok assms] have "static_run.ok (map rt_static (ex_rts ?s)) (length intents) t" .
  then have t: "map rt_static (ex_rts t) = map rt_static (ex_rts ?s)" "gate_ok t" "length (ex_rts t) = length intents"
    by (simp_all add: static_run.ok_def)
  then show "length (ex_rts t) = length intents" "gate_ok t" by simp_all
  fix i assume i: "i < length intents"
  then have "rt_static (ex_rts t ! i) = rt_static (ex_rts ?s ! i)"
    using t by (metis nth_map started_fields(2))
  then show "rt_intent (ex_rts t ! i) = intents ! i \<and> rt_attempt_seq (ex_rts t ! i) = aseq \<and> rt_filters (ex_rts t ! i) = map_of filters (oi_symbol (intents ! i))
       \<and> rt_close_dependency (ex_rts t ! i) = rt_close_dependency (ex_rts (started env intents filters aseq tol w) ! i)"
    using started_nth [OF i, of env filters aseq tol w] by (auto simp: rt_static_def start_runtime_def new_runtime_def)
qed

lemma started_agree:
  assumes "codec_ok (ev_codec env)" "synced (ev_codec env) (wd_journal w)"
  shows "agree_run.ok env \<lparr>bk_fills = fills_of w, bk_submits = submits_of w\<rparr> (length intents) (started env intents filters (Some a) tol w)"
proof -
  have rt: "rt_journal_enabled rt \<and> rt_attempt_seq rt = Some a \<and> rt_lines rt = [] \<and> rt_journal_submitted rt = [] \<and> rt_journal_terminals rt = []"
    if "rt \<in> set (ex_rts (started env intents filters (Some a) tol w))" for rt
    using that started_nth [of _ intents env filters "Some a" tol w]
    by (fastforce simp: in_set_conv_nth start_runtime_def new_runtime_def rt_lines_def)
  then have "concat (map rt_lines (ex_rts (started env intents filters (Some a) tol w))) = []"
      "concat (map rt_journal_submitted (ex_rts (started env intents filters (Some a) tol w))) = []" by auto
  then show ?thesis using assms started_gate rt by (auto simp: agree_run.ok_def all_agree_def Let_def)
qed

definition reported_lines :: "int option \<Rightarrow> order_intent list \<Rightarrow> execution_outcome list \<Rightarrow> book_line list" where
  "reported_lines aseq intents outcomes = concat (map2 (\<lambda>intent out. map (intent_line aseq intent) (eo_fills out)) intents outcomes)"

lemma snapshot_fills [simp]: "eo_fills (snapshot rt) = rt_fills rt"
  by (simp add: snapshot_def Let_def)

lemma passive_books:
  assumes "codec_ok (ev_codec env)" "synced (ev_codec env) (wd_journal w)"
    and run: "run_and_report env budget (started env intents filters (Some a) tol w) = (r, t)"
  shows "all_agree env \<lparr>bk_fills = fills_of w, bk_submits = submits_of w\<rparr> t"
    and "reported_lines (Some a) intents (map snapshot (ex_rts t)) = concat (map rt_lines (ex_rts t))"
proof -
  show "all_agree env \<lparr>bk_fills = fills_of w, bk_submits = submits_of w\<rparr> t"
    using agree_run.report_keeps [OF started_agree [OF assms(1,2)] run] by (simp add: agree_run.ok_def)
  have "map2 (\<lambda>intent out. map (intent_line (Some a) intent) (eo_fills out)) intents (map snapshot (ex_rts t)) = map rt_lines (ex_rts t)"
    by (rule nth_equalityI) (simp_all add: runtimes_static [OF run] rt_lines_def)
  then show "reported_lines (Some a) intents (map snapshot (ex_rts t)) = concat (map rt_lines (ex_rts t))"
    by (simp add: reported_lines_def)
qed

text \<open>The immediate taker journals the simulated fills one by one.\<close>

lemma taker_line: "check_fill (taker_request aseq intent x) j = Inr y \<Longrightarrow> fill_line y = intent_line aseq intent x"
  by (auto simp: check_fill_def taker_request_def fill_line_def intent_line_def tz_aware_def split: if_splits option.splits)

definition taker_booked :: "'v exec_env \<Rightarrow> journal_fill list \<Rightarrow> book_line list \<Rightarrow> 'v exec \<Rightarrow> bool" where
  "taker_booked env base lines s \<longleftrightarrow> synced (ev_codec env) (wd_journal (ex_world s))
     \<and> (\<exists>new. fills_of (ex_world s) = base @ new \<and> map fill_line new = lines)"

lemma taker_record:
  assumes "codec_ok (ev_codec env)" "taker_booked env base lines s"
    "ex_in_world (on_journal (ev_client env) (\<lambda>clock. record_fill (ev_codec env) clock (taker_request aseq intent x))) s = (Inr y, t)"
  shows "taker_booked env base (lines @ [intent_line aseq intent x]) t"
proof -
  let ?now = "vc_now (ev_client env) (wd_venue (ex_world s))"
  have run: "record_fill (ev_codec env) ?now (taker_request aseq intent x) (wd_journal (ex_world s)) = (Inr y, wd_journal (ex_world t))"
    using assms(3) by (auto simp: sx_zoom_def on_journal_def split: prod.splits)
  from record_fill_synced [of "ev_codec env" "wd_journal (ex_world s)" ?now "taker_request aseq intent x"] assms(1,2) run
  have "check_fill (taker_request aseq intent x) (wal_mem (wd_journal (ex_world s))) = Inr y" "synced (ev_codec env) (wd_journal (ex_world t))"
      "fills_of (ex_world t) = fills_of (ex_world s) @ [y]"
    by (auto simp: taker_booked_def)
  with assms(2) taker_line show ?thesis by (fastforce simp: taker_booked_def)
qed

lemma taker_fills:
  assumes c: "codec_ok (ev_codec env)" and start: "taker_booked env base lines s"
    and run: "sx_foldM (\<lambda>x _. sx_bind (ex_in_world (on_journal (ev_client env) (\<lambda>clock. record_fill (ev_codec env) clock (taker_request aseq intent x)))) (\<lambda>_. sx_return ())) xs () s = (Inr u, t)"
  shows "taker_booked env base (lines @ map (intent_line aseq intent) xs) t"
  by (rule sx_foldM_invariant [OF run, where P = "\<lambda>d _. taker_booked env base (lines @ map (intent_line aseq intent) d)"])
    (auto simp: start sx_bind_Inr append_assoc [symmetric] simp del: append_assoc dest: taker_record [OF c])

lemma taker_all:
  assumes c: "codec_ok (ev_codec env)" and start: "taker_booked env base [] s"
    and run: "sx_foldM (\<lambda>(intent, outcome) _. sx_foldM (\<lambda>x _. sx_bind (ex_in_world (on_journal (ev_client env) (\<lambda>clock.
        record_fill (ev_codec env) clock (taker_request aseq intent x)))) (\<lambda>_. sx_return ())) (eo_fills outcome) ()) (zip intents outcomes) () s = (Inr u, t)"
  shows "taker_booked env base (reported_lines aseq intents outcomes) t"
proof -
  have "taker_booked env base (concat (map (\<lambda>(i, out). map (intent_line aseq i) (eo_fills out)) (zip intents outcomes))) t"
    by (rule sx_foldM_invariant [OF run, where P = "\<lambda>d _. taker_booked env base (concat (map (\<lambda>(i, out). map (intent_line aseq i) (eo_fills out)) d))"])
      (auto simp: start split: prod.splits dest: taker_fills [OF c])
  then show ?thesis by (simp add: reported_lines_def)
qed

lemma taker_books:
  assumes c: "codec_ok (ev_codec env)" and sync: "synced (ev_codec env) (wd_journal (ex_world s))" and "ex_rts s = []"
    and run: "execute_immediate_taker env intents (Some a) s = (Inr out, t)"
  shows "taker_booked env (fills_of (ex_world s)) (reported_lines (Some a) intents out) t"
proof (cases "intents = []")
  case True
  then show ?thesis using run sync by (auto simp: execute_immediate_taker_def sx_defs taker_booked_def reported_lines_def split: if_splits)
next
  case False
  let ?base = "\<lparr>bk_fills = fills_of (ex_world s), bk_submits = submits_of (ex_world s)\<rparr>"
  have ok: "agree_run.ok env ?base 0 s"
    using assms(1-3) by (simp add: agree_run.ok_def all_agree_def gate_ok_def)
  have empty: "taker_booked env (fills_of (ex_world s)) [] u" if "agree_run.ok env ?base 0 u" for u
    using that by (auto simp: agree_run.ok_def all_agree_def Let_def taker_booked_def)
  from run False obtain b s1 now s2 s3 where
      books: "fetch_books env False (sorted_set (map oi_symbol intents)) s = (Inr b, s1)"
      and clock: "ex_read_clock env s1 = (Inr now, s2)"
      and fold: "sx_foldM (\<lambda>(intent, outcome) _. sx_foldM (\<lambda>x _. sx_bind (ex_in_world (on_journal (ev_client env) (\<lambda>clock.
        record_fill (ev_codec env) clock (taker_request (Some a) intent x)))) (\<lambda>_. sx_return ())) (eo_fills outcome) ()) (zip intents out) () s2 = (Inr (), s3)"
      and tail: "sx_foldM (\<lambda>intent _. ex_in_world (audit_record ''intent_outcome'' (oi_symbol intent) [] [])) intents () s3 = (Inr (), t)"
    by (auto simp: execute_immediate_taker_def sx_bind_Inr sx_gets_def sx_when_def Let_def split: if_splits)
  have "agree_run.ok env ?base 0 s2"
    using sx_tripleD_Inr [OF agree_run.ex_read_clock_inv sx_tripleD_Inr [OF agree_run.fetch_books_inv ok books] clock] .
  from taker_all [OF c empty [OF this] fold] have "taker_booked env (fills_of (ex_world s)) (reported_lines (Some a) intents out) s3" .
  note booked = this
  have audits: "sx_inv (taker_booked env base lines) (ex_in_world (audit_record e sy k st))" for base lines e sy k st
    by (rule sx_inv_zoom) (auto simp: audit_record_def sx_modify_def taker_booked_def)
  have "sx_inv (taker_booked env b l) (sx_foldM (\<lambda>intent _. ex_in_world (audit_record ''intent_outcome'' (oi_symbol intent) [] [])) intents ())" for b l
    by (rule sx_inv_foldM, rule audits)
  from sx_invD [OF this booked tail] show ?thesis .
qed

text \<open>Both ways of execution end with books that agree with the outcomes.\<close>

lemma run_booked:
  assumes "codec_ok (ev_codec env)" and "synced (ev_codec env) (wd_journal w)"
    and "execute_intents env model intents filters (Some a) tol budget w = (r, sink, w')"
    and "model = Some ''immediate_taker'' \<longrightarrow> (\<exists>out. r = Inr out)"
  obtains new where "synced (ev_codec env) (wd_journal w')" "\<forall>out. r = Inr out \<longrightarrow> out = sink"
    "fills_of w' = fills_of w @ new" "mset (map fill_line new) = mset (reported_lines (Some a) intents sink)"
proof (cases "model = Some ''immediate_taker''")
  case True
  then obtain out t where run: "execute_immediate_taker env intents (Some a) \<lparr>ex_rts = [], ex_cycle = fresh_cycle [], ex_world = w\<rparr> = (Inr out, t)"
      "r = Inr out" "sink = out" "w' = ex_world t"
    using assms(3,4) by (auto simp: execute_intents_def Let_def split: prod.splits sum.splits)
  from taker_books [OF assms(1) _ _ run(1)] assms(2) run(2-4) that show ?thesis
    by (auto simp: taker_booked_def simp flip: mset_map)
next
  case False
  let ?s = "started env intents filters (Some a) tol w"
  obtain t where run: "run_and_report env budget ?s = (r, t)" "sink = map snapshot (ex_rts t)" "w' = ex_world t"
    using assms(2,3) False by (auto simp: execute_intents_def Let_def execute_passive_started split: prod.splits)
  have "\<forall>out. r = Inr out \<longrightarrow> out = sink" using runtimes_static(3) [OF run(1)] run(2) by auto
  then show ?thesis using passive_books [OF assms(1,2) run(1)] run(2,3) that by (auto simp: all_agree_def Let_def)
qed


text \<open>A venue with one quote, for the witnesses; the order entry is a parameter.\<close>

definition demo_policy :: passive_policy where
  "demo_policy = default_policy\<lparr>pp_fee_schedule := \<lparr>fs_maker_fee_bps = 0, fs_taker_fee_bps = 0\<rparr>, pp_taker_slippage_bps := 0\<rparr>"

definition demo_env :: "(order_params \<Rightarrow> unit \<Rightarrow> order_response res \<times> unit) \<Rightarrow> unit exec_env" where
  "demo_env send = \<lparr>ev_codec = plain_codec, ev_client = stubborn_venue, ev_new_order = send, ev_book_tickers = None,
     ev_book_ticker = (\<lambda>sy v. (Inr (JObj [(''bidPrice'', JStr (tc_dec_str plain_codec 99)), (''askPrice'', JStr (tc_dec_str plain_codec 101))]), v)),
     ev_clock = (\<lambda>v. (0, v)), ev_sleep = (\<lambda>t v. (Inr (), v)), ev_shutdown = (\<lambda>v. False), ev_rate_state = (\<lambda>v. None),
     ev_unknown_outcome_horizon = (\<lambda>v. None), ev_default_horizon_s = 60, ev_default_tolerance_ms = 1000, ev_tape = None,
     ev_fill_time = (\<lambda>t. 0), ev_symbol_tag = (\<lambda>s. s), ev_policy = demo_policy, ev_rate_limits = None\<rparr>"

definition paper_entry :: "order_params \<Rightarrow> 'v \<Rightarrow> order_response res \<times> 'v" where
  "paper_entry p v = (Inr PaperResponse, v)"

definition demo_intent :: order_intent where
  "demo_intent = \<lparr>oi_symbol = ''BTCUSDT'', oi_side = ''BUY'', oi_quantity = 1, oi_reduce_only = False, oi_target_qty = 1, oi_current_qty = 0,
     oi_client_order_prefix = ''mh'', oi_leg_index = 0, oi_decision_price = 100\<rparr>"

lemma demo_codec: "codec_ok (ev_codec (demo_env send))" "synced (ev_codec (demo_env send)) (wd_journal loaded_world)"
  by (simp_all add: demo_env_def plain_codec_ok loaded_world_synced)

lemma demo_taker:
  "\<exists>out w'. execute_intents (demo_env send) (Some ''immediate_taker'') [demo_intent] [] (Some 0) None None loaded_world = (Inr out, out, w')
     \<and> map (\<lambda>x. map ef_quantity (eo_fills x)) out = [[1]]"
proof -
  have mid: "rnd28 (dadd 99 101 / 2) = 100" by (simp add: dadd_def d28.rnd_exact exact28_numeral)
  show ?thesis
    by (simp add: execute_intents_def execute_immediate_taker_def demo_env_def demo_intent_def fetch_books_def add_book_def parse_book_quote_def
        get_either_def quote_qty_def plain_codec_ok sorted_set_def sx_defs sx_zoom_def on_venue_def ex_read_clock_def Let_def
        simulate_immediate_taker_fills_def immediate_taker_outcome_def mid demo_policy_def default_policy_def sx_when_def
        on_journal_run record_fill_def ensure_loaded_def loaded_world_def check_fill_def taker_request_def
        FILL_KINDS_def SIDES_def LIQUIDITY_def observed_mem_def empty_journal_def dict_get_def
        commit_record_def ensure_v2_schema_def append_record_def modify_mem_def audit_record_def)
qed


end
