(* ===== verification/Executor_Orders.thy ===== *)
theory Executor_Orders
  imports Executor_Safety
begin

text \<open>
  The orders of a run and the journal.  The venue receives exactly the orders that were journalled
  before, in that order, and a run that ends normally leaves no order unaccounted for.

  The orders the venue has received are a function \<open>sent\<close> of the environment state: entering an
  order appends it, and no other call of the executor changes it.
\<close>

section \<open>Received orders and submissions\<close>

type_synonym order_key = "string \<times> string \<times> string option \<times> decimal option \<times> bool option"

definition submit_key :: "journal_submit \<Rightarrow> order_key" where
  "submit_key m = (js_client_order_id m, js_symbol m, js_side m, js_quantity m, js_reduce_only m)"

definition entered_key :: "order_params \<Rightarrow> order_key" where
  "entered_key p = (op_client_order_id p, op_symbol p, Some (op_side p), Some (op_quantity p), Some (op_reduce_only p))"

definition records_entries :: "'v exec_env \<Rightarrow> ('v \<Rightarrow> order_params list) \<Rightarrow> bool" where
  "records_entries env sent \<longleftrightarrow> (\<forall>p v. sent (snd (ev_new_order env p v)) = sent v @ [p])
     \<and> (\<forall>v v'. outside_step env v v' \<longrightarrow> sent v' = sent v)"

record entry_base =
  eb_submits :: "journal_submit list"
  eb_sent :: "order_params list"

definition entries_match :: "'v exec_env \<Rightarrow> ('v \<Rightarrow> order_params list) \<Rightarrow> entry_base \<Rightarrow> 'v world \<Rightarrow> bool" where
  "entries_match env sent base w \<longleftrightarrow> codec_ok (ev_codec env) \<and> records_entries env sent \<and> synced (ev_codec env) (wd_journal w)
     \<and> (\<exists>new ps. submits_of w = eb_submits base @ new \<and> sent (wd_venue w) = eb_sent base @ ps
          \<and> map submit_key new = map entered_key ps \<and> (\<forall>p \<in> set ps. op_type p = ''LIMIT''))"

definition entered :: "'v exec_env \<Rightarrow> ('v \<Rightarrow> order_params list) \<Rightarrow> entry_base \<Rightarrow> 'v cell \<Rightarrow> bool" where
  "entered env sent base s \<longleftrightarrow> entries_match env sent base (cl_world s) \<and> rt_journal_enabled (cl_rt s) \<and> rt_attempt_seq (cl_rt s) \<noteq> None"

lemma entries_match_journal:
  assumes "entries_match env sent base w" "synced (ev_codec env) j" "oj_submits (wal_mem j) = submits_of w"
  shows "entries_match env sent base (w\<lparr>wd_journal := j\<rparr>)"
  using assms by (auto simp: entries_match_def)

lemma entered_upd: "(\<And>rt. rt_static (f rt) = rt_static rt) \<Longrightarrow> sx_inv (entered env sent base) (upd_rt f)"
  by (rule sx_inv_modify) (simp add: entered_def rt_static_def)

lemma entered_audit: "sx_inv (entered env sent base) (rt_audit ev cid st)"
  by (auto simp: rt_audit_def sx_triple_def sx_defs sx_zoom_def audit_record_def entered_def entries_match_def)

lemma entered_fill: "sx_inv (entered env sent base) (apply_execution_fill env q p l cid cum sim now)"
proof -
  have "sx_inv (entered env sent base) (in_world (on_journal (ev_client env) (\<lambda>clock. record_fill (ev_codec env) clock r)))" for r
  proof (rule sx_inv_zoom)
    fix s res t assume s: "entered env sent base s" and run: "on_journal (ev_client env) (\<lambda>clock. record_fill (ev_codec env) clock r) (cl_world s) = (res, t)"
    then have "codec_ok (ev_codec env)" "synced (ev_codec env) (wd_journal (cl_world s))" by (auto simp: entered_def entries_match_def)
    from record_fill_synced [OF this, of "vc_now (ev_client env) (wd_venue (cl_world s))" r] s run
    show "entered env sent base (s\<lparr>cl_world := t\<rparr>)"
      by (auto simp: on_journal_def entered_def intro: entries_match_journal)
  qed
  then show ?thesis unfolding apply_execution_fill_def
    by (intro sx_rules entered_upd entered_audit) (simp_all add: rt_static_def)
qed

lemma entered_terminal: "sx_inv (entered env sent base) (journal_terminal_once env oid st)"
proof -
  have "sx_inv (entered env sent base) (in_world (on_journal (ev_client env) (\<lambda>clock. record_terminal (ev_codec env) clock k st)))" for k
  proof (rule sx_inv_zoom)
    fix s res t assume s: "entered env sent base s" and run: "on_journal (ev_client env) (\<lambda>clock. record_terminal (ev_codec env) clock k st) (cl_world s) = (res, t)"
    then have "codec_ok (ev_codec env)" "synced (ev_codec env) (wd_journal (cl_world s))" by (auto simp: entered_def entries_match_def)
    then obtain j where "record_terminal (ev_codec env) (vc_now (ev_client env) (wd_venue (cl_world s))) k st (wd_journal (cl_world s)) = (Inr (), j)"
        "synced (ev_codec env) j" "oj_submits (wal_mem j) = submits_of (cl_world s)"
      using record_terminal_synced by metis
    with s run show "entered env sent base (s\<lparr>cl_world := t\<rparr>)"
      by (auto simp: on_journal_def entered_def intro: entries_match_journal)
  qed
  then show ?thesis unfolding journal_terminal_once_def
    by (intro sx_rules entered_upd) (simp add: rt_static_def)
qed

interpretation entry_steps: step_laws env "entered env sent base" for env :: "'v exec_env" and sent base
  by unfold_locales
    (auto simp: entered_def rt_core_def rt_books_def rt_static_def entries_match_def records_entries_def intro: entered_fill entered_terminal)

text \<open>Between the journal record and the order entry: one submission ahead of the venue.\<close>

definition announced :: "'v exec_env \<Rightarrow> ('v \<Rightarrow> order_params list) \<Rightarrow> entry_base \<Rightarrow> order_key \<Rightarrow> 'v cell \<Rightarrow> bool" where
  "announced env sent base k s \<longleftrightarrow> rt_journal_enabled (cl_rt s) \<and> rt_attempt_seq (cl_rt s) \<noteq> None
     \<and> codec_ok (ev_codec env) \<and> records_entries env sent \<and> synced (ev_codec env) (wd_journal (cl_world s))
     \<and> (\<exists>new ps m. submits_of (cl_world s) = eb_submits base @ new @ [m] \<and> sent (wd_venue (cl_world s)) = eb_sent base @ ps
          \<and> map submit_key new = map entered_key ps \<and> (\<forall>p \<in> set ps. op_type p = ''LIMIT'') \<and> submit_key m = k)"

lemma submission_announces:
  "sx_triple (\<lambda>s. entered env sent base s \<and> cl_rt s = rt) (journal_submission env oid n q)
     (\<lambda>_. announced env sent base (entered_key (order_of rt oid tif price q))) (\<lambda>_. entered env sent base)"
proof (rule sx_tripleI)
  fix s u t assume s: "entered env sent base s \<and> cl_rt s = rt" and run: "journal_submission env oid n q s = (Inr u, t)"
  obtain a where a: "rt_attempt_seq rt = Some a" "rt_journal_enabled rt" using s by (auto simp: entered_def)
  let ?now = "vc_now (ev_client env) (wd_venue (cl_world s))"
  define r where "r = \<lparr>sr_client_order_id = oid, sr_symbol = rt_symbol rt, sr_submit_seq = n, sr_attempt_seq = a,
      sr_side = oi_side (rt_intent rt), sr_quantity = q, sr_reduce_only = oi_reduce_only (rt_intent rt), sr_leg_index = oi_leg_index (rt_intent rt)\<rparr>"
  have sync: "codec_ok (ev_codec env)" "synced (ev_codec env) (wd_journal (cl_world s))" using s by (auto simp: entered_def entries_match_def)
  obtain m j where m: "record_submit (ev_codec env) ?now r (wd_journal (cl_world s)) = (Inr m, j)"
    using run a s record_submit_synced [OF sync, of ?now r]
    by (auto simp: journal_submission_def sx_defs sx_when_def sx_zoom_def on_journal_def r_def)
  then have check: "check_submit ?now r (wal_mem (wd_journal (cl_world s))) = Inr m" "synced (ev_codec env) j"
      "oj_submits (wal_mem j) = submits_of (cl_world s) @ [m]"
    using record_submit_synced [OF sync, of ?now r] by auto
  have "submit_key m = entered_key (order_of rt oid tif price q)"
    using check(1) by (auto simp: check_submit_def r_def submit_key_def entered_key_def order_of_def split: if_splits)
  moreover have "wd_journal (cl_world t) = j" "wd_venue (cl_world t) = wd_venue (cl_world s)" "rt_static (cl_rt t) = rt_static rt"
    using run a s m by (auto simp: journal_submission_def sx_defs sx_when_def sx_zoom_def on_journal_def r_def rt_static_def)
  ultimately show "announced env sent base (entered_key (order_of rt oid tif price q)) t"
    using s a check(2,3) by (auto simp: announced_def entered_def entries_match_def rt_static_def)
next
  fix s e t assume s: "entered env sent base s \<and> cl_rt s = rt" and run: "journal_submission env oid n q s = (Inl e, t)"
  obtain a where a: "rt_attempt_seq rt = Some a" "rt_journal_enabled rt" using s by (auto simp: entered_def)
  have sync: "codec_ok (ev_codec env)" "synced (ev_codec env) (wd_journal (cl_world s))" using s by (auto simp: entered_def entries_match_def)
  have "t = s" using run a s record_submit_synced [OF sync]
    by (auto simp: journal_submission_def sx_defs sx_when_def sx_zoom_def on_journal_def split: prod.splits sum.splits)
      (metis Inl_Inr_False prod.inject world_journal_same)+
  with s show "entered env sent base t" by simp
qed

lemma entry_received:
  "sx_triple (announced env sent base (entered_key p)) (in_world (on_venue (ev_new_order env p))) (\<lambda>_. entered env sent base) (\<lambda>_. entered env sent base)"
  if "op_type p = ''LIMIT''"
proof -
  have "entered env sent base (s\<lparr>cl_world := (cl_world s)\<lparr>wd_venue := snd (ev_new_order env p (wd_venue (cl_world s)))\<rparr>\<rparr>)"
    if s: "announced env sent base (entered_key p) s" for s
  proof -
    obtain new ps m where "submits_of (cl_world s) = eb_submits base @ new @ [m]" "sent (wd_venue (cl_world s)) = eb_sent base @ ps"
        "map submit_key new = map entered_key ps" "\<forall>p \<in> set ps. op_type p = ''LIMIT''" "submit_key m = entered_key p"
      using s by (auto simp: announced_def)
    then show ?thesis using s \<open>op_type p = ''LIMIT''\<close>
      by (auto simp: announced_def entered_def entries_match_def records_entries_def intro!: exI [of _ "new @ [m]"] exI [of _ "ps @ [p]"])
  qed
  then show ?thesis by (auto simp: sx_triple_def sx_zoom_def on_venue_run split: sum.splits)
qed

lemma entered_send: "sx_inv (entered env sent base) (send_order env tif price q touch now)"
proof -
  let ?I = "\<lambda>rt s. entered env sent base s \<and> cl_rt s = rt"
  have number: "sx_triple (?I rt) (if b then in_world (on_journal (ev_client env) (\<lambda>clock. next_submit_seq (ev_codec env) clock)) else sx_return n)
      (\<lambda>_. ?I rt) (\<lambda>_. entered env sent base)" for b n rt
  proof (rule sx_triple_if)
    show "sx_triple (?I rt) (in_world (on_journal (ev_client env) (\<lambda>clock. next_submit_seq (ev_codec env) clock))) (\<lambda>_. ?I rt) (\<lambda>_. entered env sent base)"
      by (rule sx_tripleI) (auto simp: next_submit_world entered_def entries_match_def)
  qed (auto intro: sx_triple_return)
  have lift: "sx_triple (?I rt) (sx_lift m) (\<lambda>_. ?I rt) (\<lambda>_. entered env sent base)" for m rt by (rule sx_triple_lift) auto
  have count: "sx_triple (announced env sent base k) (upd_rt (\<lambda>rt. rt\<lparr>rt_attempts := rt_attempts rt + 1\<rparr>)) (\<lambda>_. announced env sent base k) E" for k E
    by (rule sx_triple_modify) (simp add: announced_def)
  show ?thesis unfolding send_order_def
    by (intro sx_triple_gets_eq sx_triple_seq [OF number] sx_triple_seq [OF lift] sx_triple_seq [OF submission_announces [where tif = tif and price = price]] sx_triple_seq [OF count]
        sx_triple_try [OF entry_received] entry_steps.after_post_inv entry_steps.post_failed_inv) (simp add: order_of_def)
qed

interpretation entries: send_laws env "entered env sent base" for env :: "'v exec_env" and sent base
  by unfold_locales (rule entered_send)

definition entries_ok :: "'v exec_env \<Rightarrow> ('v \<Rightarrow> order_params list) \<Rightarrow> entry_base \<Rightarrow> 'v exec \<Rightarrow> bool" where
  "entries_ok env sent base s \<longleftrightarrow> entries_match env sent base (ex_world s) \<and> (\<forall>rt \<in> set (ex_rts s). rt_journal_enabled rt \<and> rt_attempt_seq rt \<noteq> None)"

interpretation entry_run: stable_run env "\<lambda>_ :: unit. entered env sent base" "\<lambda>_. entered env sent base" "entries_ok env sent base"
  for env :: "'v exec_env" and sent base
proof (intro stable_run.intro run_laws.intro)
  show "runtime_laws env (entered env sent base) (entered env sent base)" by (rule entries.runtime_laws_axioms)
next
  fix s :: "'v exec" and i assume s: "entries_ok env sent base s" "i < length (ex_rts s)"
  then show "\<exists>_ :: unit. entered env sent base (cell_at s i)
      \<and> (\<forall>t. entered env sent base t \<longrightarrow> rt_static (cl_rt t) = rt_static (ex_rts s ! i) \<longrightarrow> entries_ok env sent base (put_cell s i t))
      \<and> (\<forall>t. entered env sent base t \<longrightarrow> entries_ok env sent base (put_cell s i t))"
    by (auto simp: entries_ok_def entered_def set_update_others focus_others(2) [OF s(2)])
next
  fix s :: "'v exec" and rts assume s: "entries_ok env sent base s" and rts: "map rt_core rts = map rt_core (ex_rts s)"
  have "(\<forall>rt \<in> set rts. rt_journal_enabled rt \<and> rt_attempt_seq rt \<noteq> None) = (\<forall>rt \<in> set (ex_rts s). rt_journal_enabled rt \<and> rt_attempt_seq rt \<noteq> None)"
    by (rule core_ball [OF rts]) (simp add: core_defs)
  with s show "entries_ok env sent base (s\<lparr>ex_rts := rts\<rparr>)" by (simp add: entries_ok_def)
qed (auto simp: entries_ok_def entries_match_def records_entries_def)


text \<open>A venue that notes the orders it receives and knows nothing else.\<close>

definition noting_env :: "order_params list exec_env" where
  "noting_env = \<lparr>ev_codec = plain_codec,
     ev_client = \<lparr>vc_cancel = (\<lambda>s cid v. (Inl OrderStatusUnknown, v)), vc_query = (\<lambda>s cid v. (Inl (VenueError (Some (- 2013)) 400), v)),
       vc_open_orders = (\<lambda>v. (Inr [], v)), vc_now = (\<lambda>v. 0), vc_clock_offset_margin_ms = 0, vc_suppressed = False\<rparr>,
     ev_new_order = (\<lambda>p v. (Inr PaperResponse, v @ [p])), ev_book_tickers = None,
     ev_book_ticker = (\<lambda>sy v. (Inr (JObj [(''bidPrice'', JStr (tc_dec_str plain_codec 99)), (''askPrice'', JStr (tc_dec_str plain_codec 101))]), v)),
     ev_clock = (\<lambda>v. (0, v)), ev_sleep = (\<lambda>t v. (Inr (), v)), ev_shutdown = (\<lambda>v. False), ev_rate_state = (\<lambda>v. None),
     ev_unknown_outcome_horizon = (\<lambda>v. None), ev_default_horizon_s = 60, ev_default_tolerance_ms = 1000, ev_tape = None,
     ev_fill_time = (\<lambda>t. 0), ev_symbol_tag = (\<lambda>s. s), ev_policy = demo_policy, ev_rate_limits = None\<rparr>"

definition quiet_world :: "order_params list world" where
  "quiet_world = \<lparr>wd_journal = wd_journal loaded_world, wd_venue = [], wd_audit = []\<rparr>"

lemma quiet_world_ok: "codec_ok (ev_codec noting_env)" "synced (ev_codec noting_env) (wd_journal quiet_world)"
  by (simp_all add: noting_env_def quiet_world_def plain_codec_ok loaded_world_synced)


section \<open>Nothing is left behind\<close>

text \<open>Every submission is ended, or is the order at work, or is the one of unknown outcome.  The
  mode that suppresses every entry is left out: it ends an intent at its first submission.\<close>

definition set_opt :: "'a option \<Rightarrow> 'a set" where
  "set_opt x = (case x of None \<Rightarrow> {} | Some y \<Rightarrow> {y})"

definition no_shadow :: "'v exec_env \<Rightarrow> bool" where
  "no_shadow env \<longleftrightarrow> (\<forall>p v. fst (ev_new_order env p v) \<noteq> Inr ShadowResponse)"

definition tended :: "intent_runtime \<Rightarrow> bool" where
  "tended rt \<longleftrightarrow> (rt_done rt \<longrightarrow> rt_active_id rt = None \<and> rt_unresolved_id rt = None) \<and> (rt_unresolved_id rt \<noteq> None \<longrightarrow> rt_active_id rt = None)
     \<and> set (rt_journal_submitted rt) \<subseteq> set (rt_journal_terminals rt) \<union> set_opt (rt_active_id rt) \<union> set_opt (rt_unresolved_id rt)"

definition rt_tend where
  "rt_tend rt = (rt_terminal_status rt, rt_active_id rt, rt_unresolved_id rt, rt_journal_submitted rt, rt_journal_terminals rt)"

lemma tended_cong: "rt_tend a = rt_tend b \<Longrightarrow> tended a = tended b"
  by (simp add: tended_def rt_tend_def rt_done_def)

text \<open>A submission that has not been answered yet.\<close>

definition open_entry :: "string \<Rightarrow> intent_runtime \<Rightarrow> bool" where
  "open_entry oid rt \<longleftrightarrow> \<not> rt_done rt \<and> rt_active_id rt = None \<and> rt_unresolved_id rt = None
     \<and> set (rt_journal_submitted rt) \<subseteq> insert oid (set (rt_journal_terminals rt))"

definition no_open_entry :: "intent_runtime \<Rightarrow> bool" where
  "no_open_entry rt \<longleftrightarrow> rt_active_id rt = None \<and> rt_unresolved_id rt = None \<and> set (rt_journal_submitted rt) \<subseteq> set (rt_journal_terminals rt)"

lemma no_open_entry_tended: "no_open_entry rt \<Longrightarrow> tended rt"
  by (simp add: no_open_entry_def tended_def set_opt_def)

lemma tended_idle: "tended rt \<Longrightarrow> rt_unresolved_id rt = None \<Longrightarrow> rt_active_id rt = None \<Longrightarrow> no_open_entry rt"
  by (simp add: no_open_entry_def tended_def set_opt_def)

lemma terminal_once_state:
  "cl_rt (snd (journal_terminal_once env (Some oid) st s)) = (cl_rt s)\<lparr>rt_journal_terminals :=
     (if oid \<in> set (rt_journal_terminals (cl_rt s)) \<or> oid \<notin> set (rt_journal_submitted (cl_rt s)) then rt_journal_terminals (cl_rt s)
      else oid # rt_journal_terminals (cl_rt s))\<rparr>"
  by (cases "cl_rt s") (simp add: journal_terminal_once_def sx_defs sx_zoom_run split: sum.splits)

lemma terminal_closes:
  "sx_triple (\<lambda>s. open_entry oid (cl_rt s)) (journal_terminal_once env (Some oid) st) (\<lambda>_ s. no_open_entry (cl_rt s)) (\<lambda>_ _. True)"
proof -
  have "no_open_entry (cl_rt (snd (journal_terminal_once env (Some oid) st s)))" if "open_entry oid (cl_rt s)" for s
    using that by (auto simp: terminal_once_state open_entry_def no_open_entry_def)
  then show ?thesis by (auto simp: sx_triple_def split: prod.splits sum.splits) (metis snd_conv)
qed

text \<open>Operations that do not touch the orders or the status.\<close>

lemma tend_modify: "(\<And>rt. rt_tend (f rt) = rt_tend rt) \<Longrightarrow> sx_inv (\<lambda>s. P (rt_tend (cl_rt s))) (upd_rt f)"
  by (rule sx_inv_modify) simp

lemma tend_audit: "sx_inv (\<lambda>s. P (rt_tend (cl_rt s))) (rt_audit ev cid st)"
  unfolding rt_audit_def by (intro sx_rules on_journal_rt)

lemma tend_fill: "sx_inv (\<lambda>s. P (rt_tend (cl_rt s))) (apply_execution_fill env q p l cid cum sim now)"
  unfolding apply_execution_fill_def by (intro sx_rules tend_modify tend_audit on_journal_rt) (simp add: rt_tend_def)

lemma tend_payload: "sx_inv (\<lambda>s. P (rt_tend (cl_rt s))) (apply_venue_payload env now cid p)"
proof -
  have "sx_inv (\<lambda>s. P (rt_tend (cl_rt s))) (guard_active_identity env p)"
    by (simp add: guard_active_identity_def sx_triple_def Let_def split: sum.splits)
  then show ?thesis unfolding apply_venue_payload_def by (intro sx_rules tend_fill)
qed

lemma tend_paper: "sx_inv (\<lambda>s. P (rt_tend (cl_rt s))) (paper_gtx_fill env touch price qty now)"
proof -
  have "sx_inv (\<lambda>s. P (rt_tend (cl_rt s))) note_paper_tape_degraded"
    by (auto simp: note_paper_tape_degraded_def rt_audit_def sx_triple_def sx_defs sx_zoom_def audit_record_def Let_def)
  then show ?thesis unfolding paper_gtx_fill_def by (intro sx_rules)
qed

lemma tend_recorded: "sx_inv (\<lambda>s. P (rt_tend (cl_rt s))) (record_order_posted oid tif)"
  unfolding record_order_posted_def by (intro sx_rules tend_audit tend_modify) (simp add: rt_tend_def)

text \<open>A predicate on runtimes that only looks at these fields.\<close>

lemma tend_keeps:
  assumes "\<And>P. sx_inv (\<lambda>s. P (rt_tend (cl_rt s))) m" "\<And>a b. rt_tend a = rt_tend b \<Longrightarrow> Q a = Q b"
  shows "sx_inv (\<lambda>s. Q (cl_rt s)) m"
proof -
  have "Q (cl_rt (snd (m s)))" if "Q (cl_rt s)" for s
    using sx_triple_snd [OF assms(1) [of "\<lambda>r. r = rt_tend (cl_rt s)"]] assms(2) that by blast
  then show ?thesis by (rule sx_inv_snd)
qed

lemma tend_preds:
  "rt_tend a = rt_tend b \<Longrightarrow> tended a = tended b" "rt_tend a = rt_tend b \<Longrightarrow> open_entry k a = open_entry k b"
  "rt_tend a = rt_tend b \<Longrightarrow> no_open_entry a = no_open_entry b"
  "rt_tend a = rt_tend b \<Longrightarrow> (tended a \<and> rt_unresolved_id a = u) = (tended b \<and> rt_unresolved_id b = u)"
  by (simp_all add: rt_tend_def tended_def rt_done_def open_entry_def no_open_entry_def)

abbreviation tending :: "'v cell \<Rightarrow> bool" where "tending s \<equiv> tended (cl_rt s) \<and> unresolved_is None s"

lemma release_tending: "sx_triple tending (release_active env st) (\<lambda>_ s. no_open_entry (cl_rt s)) (\<lambda>_. tending)"
proof -
  have "case release_active env st s of (Inl e, t) \<Rightarrow> tending t | (Inr u, t) \<Rightarrow> no_open_entry (cl_rt t)" if s: "tending s" for s
  proof (cases "rt_active_id (cl_rt s)")
    case None
    with s show ?thesis by (auto simp: release_active_def sx_defs tended_def no_open_entry_def set_opt_def)
  next
    case (Some a)
    with s terminal_once_state [of env a st s] show ?thesis
      by (auto simp: release_active_def sx_defs tended_def no_open_entry_def set_opt_def rt_done_def split: prod.splits sum.splits if_splits)
  qed
  then show ?thesis by (simp add: sx_triple_def)
qed

lemma set_terminal_tended: "sx_triple (\<lambda>s. no_open_entry (cl_rt s)) (set_terminal st now) (\<lambda>_ s. no_open_entry (cl_rt s)) (\<lambda>_ _. True)"
  unfolding set_terminal_def by (rule sx_triple_modify) (simp add: no_open_entry_def)

lemma no_open_tending: "no_open_entry rt \<Longrightarrow> tended rt \<and> rt_unresolved_id rt = None"
  using no_open_entry_tended by (auto simp: no_open_entry_def)

lemma paper_tending: "sx_inv tending (poll_paper env touch now)"
proof -
  have inv: "(\<And>P. sx_inv (\<lambda>s. P (rt_tend (cl_rt s))) m) \<Longrightarrow> sx_inv tending m" for m :: "('a cell, 'b) sx"
    by (rule tend_keeps [OF _ tend_preds(4)])
  have ended: "sx_triple (\<lambda>s. no_open_entry (cl_rt s)) (sx_bind (sx_when b (set_terminal ''FILLED'' now)) (\<lambda>_. sx_return True)) (\<lambda>_. tending) (\<lambda>_. tending)" for b
    by (auto simp: sx_when_def set_terminal_def sx_triple_def sx_defs no_open_entry_def tended_def set_opt_def)
  show ?thesis unfolding poll_paper_def book_resting_def Let_def
    by (intro sx_inv_rules inv [OF tend_paper] inv [OF tend_fill] sx_triple_seq [OF release_tending ended])
qed

text \<open>The answer to an order entry takes care of the submission.\<close>

lemma mark_posted_tending: "sx_triple (\<lambda>s. open_entry oid (cl_rt s)) (mark_posted oid price q now sim) (\<lambda>_. tending) (\<lambda>_ _. True)"
  unfolding mark_posted_def by (rule sx_triple_modify) (auto simp: open_entry_def tended_def set_opt_def rt_done_def)

lemma tending_keeps: "(\<And>P. sx_inv (\<lambda>s. P (rt_tend (cl_rt s))) m) \<Longrightarrow> sx_triple tending m (\<lambda>_. tending) (\<lambda>_ _. True)"
  by (rule sx_conseq [OF tend_keeps [OF _ tend_preds(4)]]) auto

lemma closed_keeps:
  "(\<And>P. sx_inv (\<lambda>s. P (rt_tend (cl_rt s))) m) \<Longrightarrow>
   sx_triple (\<lambda>s. no_open_entry (cl_rt s)) m (\<lambda>_ s. no_open_entry (cl_rt s)) (\<lambda>_ _. True)"
  by (rule sx_conseq [OF tend_keeps [OF _ tend_preds(3)]]) auto

lemma paper_post_tended:
  "sx_triple (\<lambda>s. open_entry oid (cl_rt s)) (settle_paper_post env oid tif price q touch now) (\<lambda>_ s. tended (cl_rt s)) (\<lambda>_ _. True)"
proof -
  have sim: "sx_triple tending (if tif = ''GTX'' then paper_gtx_fill env touch price q now else sx_return q)
      (\<lambda>x s. tending s \<and> (x = 0 \<or> x = q)) (\<lambda>_ _. True)"
    by (intro sx_triple_if sx_triple_post [OF tending_keeps [OF tend_paper] paper_gtx_result] sx_triple_return) auto
  have release: "sx_triple tending (release_active env st) (\<lambda>_ s. no_open_entry (cl_rt s)) (\<lambda>_ _. True)" for st
    by (rule sx_conseq [OF release_tending]) auto
  have "sx_triple (\<lambda>s. tending s \<and> x = q) (book_paper_post env oid tif price q x now) (\<lambda>_ s. no_open_entry (cl_rt s)) (\<lambda>_ _. True)" for x
  proof (rule sx_triple_pre_fact)
    assume "x = q"
    then show "sx_triple tending (book_paper_post env oid tif price q x now) (\<lambda>_ s. no_open_entry (cl_rt s)) (\<lambda>_ _. True)"
      unfolding book_paper_post_def sx_when_def
      by (simp only: order_refl if_True) (intro sx_triple_seq [OF tending_keeps [OF tend_fill]] sx_triple_seq [OF release] sx_triple_peek sx_triple_if
          sx_triple_seq [OF set_terminal_tended] closed_keeps [OF tend_audit] closed_keeps [OF tend_recorded])
  qed
  then have booked: "sx_triple (\<lambda>s. tending s \<and> x = q) (book_paper_post env oid tif price q x now) (\<lambda>_ s. tended (cl_rt s)) (\<lambda>_ _. True)" for x
    by (rule sx_conseq) (auto intro: no_open_entry_tended)
  have recorded: "sx_triple tending (record_order_posted oid tif) (\<lambda>_ s. tended (cl_rt s)) (\<lambda>_ _. True)"
    by (rule sx_conseq [OF tending_keeps [OF tend_recorded]]) auto
  show ?thesis unfolding settle_paper_post_def
    by (intro sx_triple_seq [OF mark_posted_tending] sx_triple_bind [OF sim] sx_triple_if sx_pre [OF booked] sx_pre [OF recorded]) auto
qed

lemma after_post_tended:
  assumes "resp \<noteq> ShadowResponse"
  shows "sx_triple (\<lambda>s. open_entry oid (cl_rt s)) (after_post env oid tif price q touch now resp) (\<lambda>_ s. tended (cl_rt s)) (\<lambda>_ _. True)"
proof (cases resp)
  case VenueAccepted
  have "sx_triple tending (record_order_posted oid tif) (\<lambda>_ s. tended (cl_rt s)) (\<lambda>_ _. True)"
    by (rule sx_conseq [OF tending_keeps [OF tend_recorded]]) auto
  then show ?thesis unfolding after_post_def VenueAccepted order_response.case by (rule sx_triple_seq [OF mark_posted_tending])
qed (use assms in \<open>simp_all add: after_post_def paper_post_tended\<close>)

lemma end_rejected_closes:
  "sx_triple (\<lambda>s. open_entry oid (cl_rt s)) (end_rejected env now code (Some oid)) (\<lambda>_ s. no_open_entry (cl_rt s)) (\<lambda>_ _. True)"
  unfolding end_rejected_def
  by (intro sx_triple_seq [OF terminal_closes] sx_triple_seq [OF sx_triple_modify [where Q = "\<lambda>_ s. no_open_entry (cl_rt s)"]] closed_keeps [OF tend_audit])
    (simp add: no_open_entry_def)

lemma handle_error_closes:
  "sx_triple (\<lambda>s. open_entry oid (cl_rt s)) (handle_post_error env code http oid now) (\<lambda>b s. b \<longrightarrow> no_open_entry (cl_rt s)) (\<lambda>_ _. True)"
proof -
  let ?O = "\<lambda>s. open_entry oid (cl_rt s)"
  let ?C = "\<lambda>s. no_open_entry (cl_rt s)"
  have open_modify: "sx_triple ?O (upd_rt f) (\<lambda>_. ?O) (\<lambda>_ _. True)" if "\<And>rt. rt_tend (f rt) = rt_tend rt" for f
    by (rule sx_triple_modify) (simp add: tend_preds(2) [OF that])
  have freeze: "sx_triple ?O (sx_modify (cl_cycle_update f)) (\<lambda>_. ?O) (\<lambda>_ _. True)" for f
    by (rule sx_triple_modify) simp
  have open_audit: "sx_triple ?O (rt_audit e k st) (\<lambda>_. ?O) (\<lambda>_ _. True)" for e k st
    by (rule sx_conseq [OF tend_keeps [OF tend_audit tend_preds(2)]]) auto
  have handled: "sx_triple ?O m (\<lambda>_. ?C) (\<lambda>_ _. True) \<Longrightarrow> sx_triple ?O (sx_bind m (\<lambda>_. sx_return True)) (\<lambda>b s. b \<longrightarrow> ?C s) (\<lambda>_ _. True)" for m :: "('a cell, unit) sx"
    by (rule sx_triple_seq) (auto intro: sx_triple_return)
  have count: "sx_triple ?C (upd_rt (\<lambda>rt. rt\<lparr>rt_chases := rt_chases rt + 1\<rparr>)) (\<lambda>_. ?C) (\<lambda>_ _. True)"
    by (rule closed_keeps [OF tend_modify]) (simp add: rt_tend_def)
  show ?thesis unfolding handle_post_error_def Let_def
    by (intro sx_triple_peek sx_triple_if handled end_rejected_closes sx_triple_seq [OF terminal_closes] closed_keeps [OF tend_audit]
        sx_triple_seq [OF open_modify] sx_triple_seq [OF freeze] sx_triple_seq [OF open_audit] sx_triple_seq [OF count] sx_triple_return)
      (simp_all add: rt_tend_def)
qed

lemma post_failed_tended:
  "sx_triple (\<lambda>s. open_entry oid (cl_rt s)) (post_failed env oid tif price q now e) (\<lambda>_ s. tended (cl_rt s)) (\<lambda>_ _. True)"
proof (cases e)
  case (VenueError code http)
  have "sx_triple (\<lambda>s. b \<longrightarrow> no_open_entry (cl_rt s)) (if b then sx_return () else sx_raise (VenueError code http)) (\<lambda>_ s. tended (cl_rt s)) (\<lambda>_ _. True)" for b
    by (auto intro: sx_triple_return sx_triple_raise no_open_entry_tended)
  then show ?thesis unfolding post_failed_def VenueError exc.case by (rule sx_triple_bind [OF handle_error_closes])
next
  case OrderObsolete
  have "sx_triple (\<lambda>s. open_entry oid (cl_rt s)) (sx_bind (journal_terminal_once env (Some oid) ''OBSOLETE'') (\<lambda>_.
       sx_bind (set_terminal ''OBSOLETE'' now) (\<lambda>_. rt_audit ''intent_obsolete'' (Some oid) []))) (\<lambda>_ s. no_open_entry (cl_rt s)) (\<lambda>_ _. True)"
    by (intro sx_triple_seq [OF terminal_closes] sx_triple_seq [OF set_terminal_tended] closed_keeps [OF tend_audit])
  then show ?thesis unfolding post_failed_def OrderObsolete exc.case by (rule sx_conseq) (auto intro: no_open_entry_tended)
next
  case OrderStatusUnknown
  have "sx_triple (\<lambda>s. tended (cl_rt s)) (rt_audit ''order_status_unknown'' (Some oid) []) (\<lambda>_ s. tended (cl_rt s)) (\<lambda>_ _. True)"
    by (rule sx_conseq [OF tend_keeps [OF tend_audit tend_preds(1)]]) auto
  then show ?thesis unfolding post_failed_def OrderStatusUnknown exc.case
    by (intro sx_triple_seq [OF sx_triple_modify [where Q = "\<lambda>_ s. tended (cl_rt s)"]])
      (auto simp: open_entry_def tended_def set_opt_def rt_done_def)
qed (auto simp: post_failed_def intro: sx_triple_raise)

lemma submission_opens:
  "sx_triple (\<lambda>s. no_open_entry (cl_rt s) \<and> \<not> rt_done (cl_rt s)) (journal_submission env oid n q) (\<lambda>_ s. open_entry oid (cl_rt s)) (\<lambda>_ _. True)"
  by (rule sx_tripleI)
    (auto simp: journal_submission_def sx_defs sx_when_def sx_zoom_run open_entry_def no_open_entry_def rt_done_def split: option.splits sum.splits if_splits)

lemma send_tended:
  assumes "no_shadow env"
  shows "sx_triple (\<lambda>s. no_open_entry (cl_rt s) \<and> \<not> rt_done (cl_rt s)) (send_order env tif price q touch now) (\<lambda>_ s. tended (cl_rt s)) (\<lambda>_ _. True)"
proof -
  let ?C = "\<lambda>s. no_open_entry (cl_rt s) \<and> \<not> rt_done (cl_rt s)"
  have number: "sx_triple ?C (if b then in_world m else sx_return n) (\<lambda>_. ?C) (\<lambda>_ _. True)" for b m n
    by (rule sx_conseq [where P' = ?C and Q' = "\<lambda>_. ?C" and E' = "\<lambda>_. ?C"], intro sx_rules on_journal_rt) auto
  have lift: "sx_triple ?C (sx_lift m) (\<lambda>_. ?C) (\<lambda>_ _. True)" for m by (rule sx_triple_lift) auto
  have count: "sx_triple (\<lambda>s. open_entry k (cl_rt s)) (upd_rt (\<lambda>rt. rt\<lparr>rt_attempts := rt_attempts rt + 1\<rparr>)) (\<lambda>_ s. open_entry k (cl_rt s)) (\<lambda>_ _. True)" for k
    by (rule sx_triple_modify) (simp add: open_entry_def rt_done_def)
  have call: "sx_triple (\<lambda>s. open_entry k (cl_rt s)) (in_world (on_venue (ev_new_order env p)))
      (\<lambda>resp s. open_entry k (cl_rt s) \<and> resp \<noteq> ShadowResponse) (\<lambda>_ s. open_entry k (cl_rt s))" for k p
    using assms by (intro sx_triple_post [OF on_journal_rt]) (auto simp: no_shadow_def sx_zoom_def on_venue_run)
  show ?thesis unfolding send_order_def
    by (intro sx_triple_peek sx_triple_seq [OF number] sx_triple_seq [OF lift] sx_triple_seq [OF submission_opens]
        sx_triple_seq [OF count] sx_triple_try [OF call] sx_triple_pre_fact after_post_tended post_failed_tended)
qed

definition tends :: "'v exec_env \<Rightarrow> 'v cell \<Rightarrow> bool" where
  "tends env s \<longleftrightarrow> no_shadow env \<and> tended (cl_rt s)"

lemma post_tended:
  assumes "no_shadow env"
  shows "sx_triple (\<lambda>s. no_open_entry (cl_rt s) \<and> \<not> rt_done (cl_rt s)) (post_order env filters tif price touch now) (\<lambda>_ s. tended (cl_rt s)) (\<lambda>_ _. True)"
proof -
  let ?C = "\<lambda>s. no_open_entry (cl_rt s) \<and> \<not> rt_done (cl_rt s)"
  have sub: "sx_triple ?C (end_sub_minimum now) (\<lambda>_ s. tended (cl_rt s)) (\<lambda>_ _. True)"
    unfolding end_sub_minimum_def
    by (rule sx_conseq [OF sx_triple_seq [OF set_terminal_tended closed_keeps [OF tend_audit]]]) (auto intro: no_open_entry_tended)
  have lift: "sx_triple ?C (sx_lift m) (\<lambda>_. ?C) (\<lambda>_ _. True)" for m by (rule sx_triple_lift) auto
  show ?thesis unfolding post_order_def Let_def
    by (intro sx_triple_peek sx_triple_if sub sx_triple_seq [OF lift] send_tended [OF assms] sx_triple_return) (auto intro: no_open_entry_tended)
qed

lemma declare_tended:
  "sx_triple (\<lambda>s. tended (cl_rt s) \<and> rt_unresolved_id (cl_rt s) \<noteq> None) (declare_not_placed env) (\<lambda>_ s. tended (cl_rt s)) (\<lambda>_ s. tended (cl_rt s))"
proof -
  have "tended (cl_rt (snd (declare_not_placed env s)))" if s: "tended (cl_rt s)" "rt_unresolved_id (cl_rt s) = Some u" for s u
  proof -
    obtain a where a: "rt_audit ''order_unknown_not_placed'' (Some u) [] s = (Inr (), s\<lparr>cl_world := (cl_world s)\<lparr>wd_audit := a\<rparr>\<rparr>)"
      using rt_audit_run by blast
    with s terminal_once_state [of env u "''NOT_PLACED''" "s\<lparr>cl_world := (cl_world s)\<lparr>wd_audit := a\<rparr>\<rparr>"] show ?thesis
      by (auto simp: declare_not_placed_def sx_defs tended_def set_opt_def rt_done_def split: prod.splits sum.splits if_splits)
  qed
  then show ?thesis by (auto simp: sx_triple_def split: prod.splits sum.splits) (metis snd_conv)+
qed

lemma tended_core: "rt_core a = rt_core b \<Longrightarrow> tended a = tended b"
  by (rule tended_cong) (simp add: core_defs rt_tend_def)

interpretation tend: runtime_laws env "tends env" "\<lambda>_. True" for env :: "'v exec_env"
proof unfold_locales
  fix f and s :: "'v cell"
  assume "rt_core (f (cl_rt s)) = rt_core (cl_rt s)"
  then show "tends env s \<Longrightarrow> tends env (cl_rt_update f s)"
      "tends env s \<and> unresolved_is None s \<Longrightarrow> tends env (cl_rt_update f s) \<and> unresolved_is None (cl_rt_update f s)"
    using tended_core [of "f (cl_rt s)" "cl_rt s"] by (auto simp: tends_def core_defs)
next
  let ?Q = "\<lambda>s. tends env s \<and> unresolved_is None s"
  have Q: "?Q s \<longleftrightarrow> no_shadow env \<and> tending s" for s by (simp add: tends_def)
  have up: "sx_inv tending m \<Longrightarrow> sx_inv ?Q m" for m :: "('v cell, 'b) sx"
    unfolding Q by (cases "no_shadow env") (simp_all add: sx_triple_def)
  show "sx_inv ?Q (release_active env st)" for st
    by (rule up, rule sx_conseq [OF release_tending]) (auto dest: no_open_tending)
  show "sx_triple (\<lambda>s. ?Q s \<and> rt_active_id (cl_rt s) = Some cid \<and> rt_symbol (cl_rt s) = sy) (apply_venue_payload env now cid p) (\<lambda>_. ?Q) (\<lambda>_. ?Q)" for sy p cid now
    by (rule sx_pre [OF up [OF tend_keeps [OF tend_payload tend_preds(4)]]]) blast+
  show "sx_triple (\<lambda>s. ?Q s \<and> rt_active_id (cl_rt s) \<noteq> None) (poll_paper env touch now) (\<lambda>_. ?Q) (\<lambda>_. ?Q)" for touch now
    by (rule sx_pre [OF up [OF paper_tending]]) blast
  show "?Q (cl_rt_update f s)" if "?Q s" "rt_active_id (cl_rt s) = None" "rt_core (f (cl_rt s)) = rt_core ((cl_rt s)\<lparr>rt_terminal_status := Some st\<rparr>)"
    for s :: "'v cell" and st f
    using that by (auto simp: tends_def core_defs tended_def)
  show "sx_triple (\<lambda>s. tends env s \<and> rt_unresolved_id (cl_rt s) \<noteq> None) (adopt_unresolved now) (\<lambda>_. tends env) (\<lambda>_. tends env)" for now
    unfolding adopt_unresolved_def by (rule sx_triple_modify) (auto simp: tends_def tended_def set_opt_def rt_done_def)
  show "sx_triple (\<lambda>s. tends env s \<and> rt_unresolved_id (cl_rt s) \<noteq> None) (declare_not_placed env) (\<lambda>_. tends env) (\<lambda>_. tends env)"
    unfolding tends_def by (cases "no_shadow env") (simp_all add: declare_tended [simplified] sx_triple_pre_False)
  show "sx_triple (\<lambda>s. tends env s \<and> idle s \<and> \<not> rt_done (cl_rt s) \<and> 0 < remaining_qty (cl_rt s)) (post_order env filters tif price touch now) (\<lambda>_. tends env) (\<lambda>_ _. True)"
    for filters tif price touch now
    by (rule sx_triple_pre_ex, rule sx_conseq [OF post_tended]) (auto simp: tends_def intro: tended_idle)
qed (auto simp: tends_def)

section \<open>The end of a normal run\<close>

interpretation tend_run: run_laws env "\<lambda>_ :: unit. tends env" "\<lambda>_ _. True" "\<lambda>s. no_shadow env \<and> (\<forall>rt \<in> set (ex_rts s). tended rt)" "\<lambda>_. True"
  for env :: "'v exec_env"
proof (intro run_laws.intro)
  show "runtime_laws env (tends env) (\<lambda>_. True)" by (rule tend.runtime_laws_axioms)
next
  fix s :: "'v exec" and i assume s: "no_shadow env \<and> (\<forall>rt \<in> set (ex_rts s). tended rt)" "i < length (ex_rts s)"
  then show "\<exists>_ :: unit. tends env (cell_at s i)
      \<and> (\<forall>t. tends env t \<longrightarrow> rt_static (cl_rt t) = rt_static (ex_rts s ! i) \<longrightarrow> no_shadow env \<and> (\<forall>rt \<in> set (ex_rts (put_cell s i t)). tended rt))
      \<and> (\<forall>t :: 'v cell. True \<longrightarrow> True)"
    by (auto simp: tends_def set_update_others focus_others(2) [OF s(2)])
next
  fix s :: "'v exec" and rts assume s: "no_shadow env \<and> (\<forall>rt \<in> set (ex_rts s). tended rt)" and rts: "map rt_core rts = map rt_core (ex_rts s)"
  have "(\<forall>rt \<in> set rts. tended rt) = (\<forall>rt \<in> set (ex_rts s). tended rt)" by (rule core_ball [OF rts tended_core])
  with s show "no_shadow env \<and> (\<forall>rt \<in> set (ex_rts (s\<lparr>ex_rts := rts\<rparr>)). tended rt)" by simp
qed simp_all

text \<open>Ended, or of unknown outcome.\<close>

definition wound_up :: "intent_runtime \<Rightarrow> bool" where
  "wound_up rt \<longleftrightarrow> rt_done rt \<or> rt_unresolved_id rt \<noteq> None"

lemma wound_up_tended: "wound_up rt \<Longrightarrow> tended rt \<Longrightarrow> rt_active_id rt = None"
  by (auto simp: wound_up_def tended_def)

lemma audit_rt: "sx_inv (\<lambda>s. P (cl_rt s)) (rt_audit e cid st)"
  unfolding rt_audit_def by (intro sx_rules on_journal_rt)

lemma end_window_done: "sx_triple (\<lambda>_. True) (end_window env now) (\<lambda>_ s. rt_done (cl_rt s)) (\<lambda>_ _. True)"
proof -
  have set: "sx_triple (\<lambda>_. True) (set_terminal st now) (\<lambda>_ s. rt_done (cl_rt s)) (\<lambda>_ _. True)" for st
    unfolding set_terminal_def by (rule sx_triple_modify) (simp add: rt_done_def)
  have audit: "sx_triple (\<lambda>s. rt_done (cl_rt s)) (rt_audit e cid st) (\<lambda>_ s. rt_done (cl_rt s)) (\<lambda>_ _. True)" for e cid st
    by (rule sx_conseq [OF audit_rt]) auto
  have any: "sx_triple (\<lambda>_. True) m (\<lambda>_ _. True) (\<lambda>_ _. True)" for m :: "('a cell, 'b) sx" by (auto simp: sx_triple_def split: prod.splits sum.splits)
  show ?thesis unfolding end_window_def
    by (intro sx_triple_seq [OF any] sx_triple_peek sx_triple_if sx_triple_seq [OF set] set audit)
qed

lemma exit_unresolved:
  "sx_triple (\<lambda>s. rt_unresolved_id (cl_rt s) \<noteq> None) (resolve_unknown_at_exit env sleep now)
     (\<lambda>r s. r = None \<longrightarrow> rt_unresolved_id (cl_rt s) \<noteq> None) (\<lambda>_ _. True)"
proof -
  let ?U = "\<lambda>s. rt_unresolved_id (cl_rt s) \<noteq> None"
  have up: "sx_inv ?U m \<Longrightarrow> sx_triple ?U m (\<lambda>_. ?U) (\<lambda>_ _. True)" for m :: "('a cell, 'b) sx" by (erule sx_conseq) auto
  have lookup: "sx_inv ?U (lookup_unknown_submission env)"
    unfolding lookup_unknown_submission_def by (intro sx_rules on_journal_rt)
  have found: "sx_triple ?U (sx_bind m (\<lambda>_. sx_return (Some x))) (\<lambda>r s. r = None \<longrightarrow> ?U s) (\<lambda>_ _. True)" for m :: "('a cell, 'b) sx" and x
    by (auto simp: sx_triple_def sx_defs split: prod.splits sum.splits)
  show ?thesis unfolding resolve_unknown_at_exit_def read_clock_def
    by (intro sx_triple_peek sx_triple_prod sx_triple_if sx_triple_seq [OF up [OF lookup]] found
        sx_triple_seq [OF up [OF on_journal_rt]] sx_triple_seq [OF up [OF audit_rt]] sx_triple_return) simp
qed

lemma finalize_wound_up: "finalize_one env sleep s = (Inr u, t) \<Longrightarrow> wound_up (cl_rt t)"
  by (auto simp: finalize_one_def sx_bind_Inr sx_gets_def sx_return_def wound_up_def read_clock_def sx_zoom_def on_venue_run
      split: if_splits option.splits prod.splits dest!: sx_tripleD_Inr [OF end_window_done, rotated] sx_tripleD_Inr [OF exit_unresolved, rotated])

lemma gate_wound_up: "wound_up (cl_rt s) \<Longrightarrow> wound_up (cl_rt (snd (apply_close_gate dep now s)))"
  by (cases "gate_state dep")
    (auto simp: apply_close_gate_def sx_defs sx_when_def rt_audit_def sx_zoom_def audit_record_def wound_up_def rt_done_def)

text \<open>An intent that has ended stays ended.\<close>

lemma done_step: "rt_done a \<Longrightarrow> status_step (rt_terminal_status a) (rt_terminal_status b) \<Longrightarrow> rt_done b"
  by (auto simp: rt_done_def status_step_def)

lemma done_fill: "sx_inv (\<lambda>s. d \<longrightarrow> rt_done (cl_rt s)) (apply_execution_fill env q p l cid cum sim now)"
  unfolding apply_execution_fill_def rt_audit_def by (intro sx_rules sx_inv_modify on_journal_rt) (simp add: rt_done_def)

lemma done_terminal: "sx_inv (\<lambda>s. d \<longrightarrow> rt_done (cl_rt s)) (journal_terminal_once env oid st)"
  unfolding journal_terminal_once_def by (intro sx_rules sx_inv_modify on_journal_rt) (simp add: rt_done_def)

lemma done_submission: "sx_inv (\<lambda>s. d \<longrightarrow> rt_done (cl_rt s)) (journal_submission env oid n q)"
  unfolding journal_submission_def by (intro sx_rules sx_inv_modify on_journal_rt) (simp_all add: rt_done_def)

lemma done_core: "rt_core a = rt_core b \<Longrightarrow> rt_done a = rt_done b"
  by (simp add: rt_core_def rt_done_def)

interpretation done_steps: step_laws env "\<lambda>s. d \<longrightarrow> rt_done (cl_rt s)" for env :: "'v exec_env" and d
  by unfold_locales (auto dest: done_core done_step intro: done_fill done_terminal)

interpretation done_laws: send_laws env "\<lambda>s. d \<longrightarrow> rt_done (cl_rt s)" for env :: "'v exec_env" and d
  by unfold_locales (intro done_steps.send_by_parts done_submission on_journal_rt)

interpretation done_run: stable_run env "\<lambda>d s. d \<longrightarrow> rt_done (cl_rt s)" "\<lambda>d s. d \<longrightarrow> rt_done (cl_rt s)"
    "\<lambda>s. \<forall>i \<in> D. i < length (ex_rts s) \<longrightarrow> rt_done (ex_rts s ! i)"
  for env :: "'v exec_env" and D
proof (intro stable_run.intro run_laws.intro)
  show "runtime_laws env (\<lambda>s. d \<longrightarrow> rt_done (cl_rt s)) (\<lambda>s. d \<longrightarrow> rt_done (cl_rt s))" for d by (rule done_laws.runtime_laws_axioms)
next
  let ?J = "\<lambda>s. \<forall>i \<in> D. i < length (ex_rts s) \<longrightarrow> rt_done (ex_rts s ! i)"
  fix s :: "'v exec" and i assume s: "?J s" "i < length (ex_rts s)"
  then have put: "?J (put_cell s i t)" if "i \<in> D \<longrightarrow> rt_done (cl_rt t)" for t
    using that by (auto simp: nth_list_update)
  from s have first: "i \<in> D \<longrightarrow> rt_done (cl_rt (cell_at s i))" by simp
  show "\<exists>d. (d \<longrightarrow> rt_done (cl_rt (cell_at s i)))
      \<and> (\<forall>t. (d \<longrightarrow> rt_done (cl_rt t)) \<longrightarrow> rt_static (cl_rt t) = rt_static (ex_rts s ! i) \<longrightarrow> ?J (put_cell s i t))
      \<and> (\<forall>t. (d \<longrightarrow> rt_done (cl_rt t)) \<longrightarrow> ?J (put_cell s i t))"
    by (rule exI [of _ "i \<in> D"], rule conjI [OF first], intro conjI allI impI put) blast+
next
  fix s :: "'v exec" and rts assume s: "\<forall>i \<in> D. i < length (ex_rts s) \<longrightarrow> rt_done (ex_rts s ! i)" and rts: "map rt_core rts = map rt_core (ex_rts s)"
  have len: "length rts = length (ex_rts s)" using rts by (rule map_eq_imp_length_eq)
  have "rt_done (rts ! i)" if "i \<in> D" "i < length rts" for i
  proof -
    have "map rt_core rts ! i = map rt_core (ex_rts s) ! i" by (simp only: rts)
    then have "rt_done (rts ! i) = rt_done (ex_rts s ! i)" using that(2) len by (intro done_core) simp
    then show ?thesis using s that len by simp
  qed
  then show "\<forall>i \<in> D. i < length (ex_rts (s\<lparr>ex_rts := rts\<rparr>)) \<longrightarrow> rt_done (ex_rts (s\<lparr>ex_rts := rts\<rparr>) ! i)" by simp
qed simp_all

text \<open>The final pass closes every live intent.\<close>

definition wound_up_on :: "nat set \<Rightarrow> 'v exec \<Rightarrow> bool" where
  "wound_up_on D s \<longleftrightarrow> (\<forall>i \<in> D. i < length (ex_rts s) \<longrightarrow> wound_up (ex_rts s ! i))"

lemma nth_update: "k < length xs \<Longrightarrow> xs[i := x] ! k = (if k = i then x else xs ! k)"
  by (simp add: nth_list_update)

lemma on_runtime_wound_up:
  assumes "wound_up_on D s" "wound_up (cl_rt (snd (m (cell_at s i))))" "on_runtime i m s = (r, t)"
  shows "wound_up_on (insert i D) t"
  using assms by (auto simp: wound_up_on_def on_runtime_run nth_update)

lemma finalize_pass:
  assumes start: "wound_up_on D s" and run: "sx_foldM (\<lambda>i _. on_runtime i (finalize_one env sleep)) live () s = (Inr u, t)"
  shows "wound_up_on (D \<union> set live) t"
proof -
  have step: "wound_up_on (insert i D) y" if "wound_up_on D x" "on_runtime i (finalize_one env sleep) x = (Inr v, y)" for x y :: "'a exec" and i v D
  proof -
    obtain r z where z: "finalize_one env sleep (cell_at x i) = (r, z)" by (cases "finalize_one env sleep (cell_at x i)")
    with that(2) have "wound_up (cl_rt z)" by (intro finalize_wound_up) (simp add: on_runtime_run)
    with that z show ?thesis by (intro on_runtime_wound_up) simp_all
  qed
  show ?thesis
    by (rule sx_foldM_invariant [OF run, where P = "\<lambda>d _. wound_up_on (D \<union> set d)"]) (use start in \<open>auto dest: step\<close>)
qed

lemma late_pass:
  assumes "wound_up_on D s" and run: "sx_foldM (late_gate env) live () s = (Inr u, t)"
  shows "wound_up_on D t"
proof -
  have step: "wound_up_on D y" if "wound_up_on D x" "late_gate env i () x = (Inr v, y)" for x y :: "'a exec" and i v
    using that by (auto simp: late_gate_def wound_up_on_def ex_read_clock_def sx_bind_Inr sx_return_def sx_zoom_def on_venue_run on_runtime_run nth_update
        intro!: gate_wound_up split: if_splits prod.splits)
  show ?thesis by (rule sx_foldM_invariant [OF run, where P = "\<lambda>_ _. wound_up_on D"]) (use assms step in auto)
qed

lemma run_window_wound_up:
  assumes live: "set live \<subseteq> {..<n}"
  shows "sx_triple (done_run.ok D n) (run_window env budget window_s rts live) (\<lambda>_. wound_up_on (D \<union> set live)) (\<lambda>_ _. True)"
proof -
  have up: "sx_inv I m \<Longrightarrow> sx_triple I m (\<lambda>_. I) (\<lambda>_ _. True)" for I and m :: "('a exec, 'b) sx" by (erule sx_conseq) auto
  have ticks: "sx_triple (done_run.ok D n) (tick_loop k env args interval 0) (\<lambda>_. wound_up_on D) (\<lambda>_ _. True)"
    if "set (lo_live args) \<subseteq> {..<n}" "set (lo_tick_order args) \<subseteq> {..<n}" for k args interval
    by (rule sx_conseq [OF done_run.tick_loop_inv [where D = D, OF that]]) (auto simp only: done_run.ok_def wound_up_on_def wound_up_def)
  have finals: "sx_triple (wound_up_on D) (sx_foldM (\<lambda>i _. on_runtime i (finalize_one env (ev_sleep env))) live ()) (\<lambda>_. wound_up_on (D \<union> set live)) (\<lambda>_ _. True)"
    by (rule sx_tripleI) (auto intro: finalize_pass)
  have late: "sx_triple (wound_up_on (D \<union> set live)) (sx_foldM (late_gate env) live ()) (\<lambda>_. wound_up_on (D \<union> set live)) (\<lambda>_ _. True)"
    by (rule sx_tripleI) (auto intro: late_pass)
  show ?thesis unfolding run_window_def Let_def
    by (intro sx_triple_seq [OF up [OF done_run.ex_read_clock_inv]] sx_triple_seq [OF up [OF done_run.hard_stop_inv]] sx_triple_seq [OF ticks]
        sx_triple_seq [OF finals] late) (use live in auto)
qed

lemma run_loop_wound_up:
  assumes gate: "gate_ok s" and run: "run_loop env budget window_s s = (Inr u, t)"
  shows "wound_up_on UNIV t"
proof -
  let ?n = "length (ex_rts s)"
  let ?live = "filter (\<lambda>i. \<not> rt_done (ex_rts s ! i)) [0..<?n]"
  let ?D = "{i. i < ?n \<and> rt_done (ex_rts s ! i)}"
  have start: "done_run.ok ?D ?n s" using gate unfolding done_run.ok_def by simp
  have len: "length (ex_rts t) = ?n" using sx_tripleD_Inr [OF done_run.run_loop_inv start run] unfolding done_run.ok_def by simp
  have "wound_up_on (?D \<union> set ?live) t"
  proof (cases "?live = []")
    case True
    with run show ?thesis by (auto simp: run_loop_def Let_def wound_up_on_def wound_up_def)
  next
    case False
    with run have "run_window env budget window_s (ex_rts s) ?live s = (Inr u, t)" by (simp add: run_loop_def Let_def)
    from sx_tripleD_Inr [OF run_window_wound_up start this] show ?thesis by auto
  qed
  then show ?thesis by (auto simp: wound_up_on_def len)
qed

lemma run_wound_up:
  assumes "gate_ok s" "run_and_report env budget s = (Inr out, t)"
  shows "\<forall>rt \<in> set (ex_rts t). wound_up rt"
proof -
  have audit: "ex_rts y = ex_rts x" if "sx_foldM (\<lambda>rt _. ex_in_world (audit_record e (f rt) c (g rt))) rts () x = (Inr v, y)"
    for x y :: "'a exec" and e f c g and rts :: "'b list" and v
    by (rule sx_foldM_invariant [OF that, where P = "\<lambda>_ _ z. ex_rts z = ex_rts x"]) (auto simp: sx_zoom_def split: prod.splits)
  from assms(2) obtain w s1 where "run_loop env budget w s = (Inr (), s1)" "ex_rts t = ex_rts s1"
    unfolding run_and_report_def sx_bind_Inr
    by (auto simp: sx_gets_def sx_return_def sx_catch_def sx_bind_def sx_raise_def split: prod.splits sum.splits dest!: audit)
  with run_loop_wound_up [OF assms(1)] show ?thesis by (auto simp: wound_up_on_def in_set_conv_nth)
qed



end
