(* ===== verification/Executor_Scope.thy ===== *)
theory Executor_Scope
  imports Executor_Orders Pre_Trade
begin

text \<open>
  What a run of the executor may touch in the journal of a cycle: the journal stays sound, and every order
  it submits is an order for one of the intents it was given, with the side and the reduce-only flag
  of that intent.
\<close>

definition covers :: "order_intent \<Rightarrow> journal_submit \<Rightarrow> bool" where
  "covers i m \<longleftrightarrow> js_symbol m = oi_symbol i \<and> js_side m = Some (oi_side i) \<and> js_reduce_only m = Some (oi_reduce_only i)"

definition in_scope :: "journal_submit list \<Rightarrow> order_intent set \<Rightarrow> 'v world \<Rightarrow> bool" where
  "in_scope base S w \<longleftrightarrow> (\<exists>new. submits_of w = base @ new \<and> (\<forall>m \<in> set new. \<exists>i \<in> S. covers i m))"

definition scoped :: "'v exec_env \<Rightarrow> int \<Rightarrow> journal_submit list \<Rightarrow> order_intent set \<Rightarrow> 'v world \<Rightarrow> bool" where
  "scoped env n base S w \<longleftrightarrow> codec_ok (ev_codec env) \<and> sound (ev_codec env) n w \<and> in_scope base S w"

definition scoping :: "'v exec_env \<Rightarrow> int \<Rightarrow> journal_submit list \<Rightarrow> order_intent set \<Rightarrow> 'v cell \<Rightarrow> bool" where
  "scoping env n base S s \<longleftrightarrow> scoped env n base S (cl_world s) \<and> rt_intent (cl_rt s) \<in> S"

lemma in_scope_same: "submits_of w' = submits_of w \<Longrightarrow> in_scope base S w' = in_scope base S w"
  by (simp add: in_scope_def)

lemma scoped_venue [simp]: "scoped env n base S (w\<lparr>wd_venue := v\<rparr>) = scoped env n base S w" "scoped env n base S (w\<lparr>wd_audit := a\<rparr>) = scoped env n base S w"
  by (simp_all add: scoped_def sound_def in_scope_def)

lemma scoped_fill:
  assumes "scoped env n base S w"
  shows "scoped env n base S (snd (on_journal vc (\<lambda>clock. record_fill (ev_codec env) clock r) w))"
proof -
  have c: "codec_ok (ev_codec env)" and s: "sound (ev_codec env) n w" using assms by (simp_all add: scoped_def)
  have "sound (ev_codec env) n (snd (on_journal vc (\<lambda>clock. record_fill (ev_codec env) clock r) w))"
    by (rule sx_triple_snd [OF sound_fill [OF c] s])
  moreover have "submits_of (snd (on_journal vc (\<lambda>clock. record_fill (ev_codec env) clock r) w)) = submits_of w"
    using record_fill_synced [OF c, of "wd_journal w" "vc_now vc (wd_venue w)" r] s by (auto simp: on_journal_run sound_def)
  ultimately show ?thesis using assms in_scope_same by (auto simp: scoped_def)
qed

lemma scoped_terminal:
  assumes "scoped env n base S w"
  shows "scoped env n base S (snd (on_journal vc (\<lambda>clock. record_terminal (ev_codec env) clock k st) w))"
proof -
  have c: "codec_ok (ev_codec env)" and s: "sound (ev_codec env) n w" using assms by (simp_all add: scoped_def)
  have "sound (ev_codec env) n (snd (on_journal vc (\<lambda>clock. record_terminal (ev_codec env) clock k st) w))"
    by (rule sx_triple_snd [OF sound_terminal [OF c] s])
  moreover have "submits_of (snd (on_journal vc (\<lambda>clock. record_terminal (ev_codec env) clock k st) w)) = submits_of w"
  proof -
    have "synced (ev_codec env) (wd_journal w)" using s by (simp add: sound_def)
    from record_terminal_synced [OF c this, of "vc_now vc (wd_venue w)" k st] show ?thesis by (metis on_journal_run snd_conv world.select_convs(1) world.surjective world.update_convs(1))
  qed
  ultimately show ?thesis using assms in_scope_same by (auto simp: scoped_def)
qed

lemma scoped_submit:
  assumes "scoped env n base S w" and "i \<in> S" "sr_symbol r = oi_symbol i" "sr_side r = oi_side i" "sr_reduce_only r = oi_reduce_only i"
  shows "scoped env n base S (snd (on_journal vc (\<lambda>clock. record_submit (ev_codec env) clock r) w))"
proof -
  have c: "codec_ok (ev_codec env)" and s: "sound (ev_codec env) n w" and scope: "in_scope base S w" using assms(1) by (simp_all add: scoped_def)
  have sync: "synced (ev_codec env) (wd_journal w)" "seq_ok (mem w)" using s by (simp_all add: sound_def)
  let ?now = "vc_now vc (wd_venue w)"
  note res = record_submit_synced [OF c sync(1), of ?now r]
  have op: "run_op (ev_codec env) ?now (RecordSubmit r) (wd_journal w) = snd (record_submit (ev_codec env) ?now r (wd_journal w))" by (simp add: run_op_def split: prod.splits)
  have "length (oj_fills (wal_mem j)) \<le> length (oj_fills (wal_mem (snd (record_submit (ev_codec env) ?now r j))))" if "j = wd_journal w" for j
    using res that by auto
  then have "sound (ev_codec env) n (w\<lparr>wd_journal := run_op (ev_codec env) ?now (RecordSubmit r) (wd_journal w)\<rparr>)"
    using op by (intro sound_step [OF c s]) auto
  then have sound: "sound (ev_codec env) n (snd (on_journal vc (\<lambda>clock. record_submit (ev_codec env) clock r) w))" by (simp add: on_journal_run op)
  have cov: "covers i m" if "check_submit ?now r k = Inr m" for m k
    using that assms(3-5) by (auto simp: check_submit_def covers_def split: if_splits)
  have "in_scope base S (snd (on_journal vc (\<lambda>clock. record_submit (ev_codec env) clock r) w))"
  proof -
    obtain new where new: "submits_of w = base @ new" "\<forall>m \<in> set new. \<exists>i \<in> S. covers i m" using scope by (auto simp: in_scope_def)
    from res consider "oj_submits (wal_mem (snd (record_submit (ev_codec env) ?now r (wd_journal w)))) = submits_of w"
      | m where "check_submit ?now r (mem w) = Inr m" "oj_submits (wal_mem (snd (record_submit (ev_codec env) ?now r (wd_journal w)))) = submits_of w @ [m]"
      by (auto split: sum.splits)
    then show ?thesis
    proof cases
      case 1
      then show ?thesis using new by (auto simp: in_scope_def on_journal_run)
    next
      case 2
      then show ?thesis using new cov [OF 2(1)] assms(2) by (auto simp: in_scope_def on_journal_run)
    qed
  qed
  with sound c show ?thesis by (simp add: scoped_def)
qed

section \<open>The steps of a run\<close>

lemma scoping_world:
  "(\<And>w. scoped env n base S w \<Longrightarrow> scoped env n base S (snd (m w))) \<Longrightarrow> sx_inv (scoping env n base S) (in_world m)"
  by (rule sx_inv_snd) (simp add: sx_zoom_run scoping_def)

lemma scoping_upd: "(\<And>rt. rt_static (f rt) = rt_static rt) \<Longrightarrow> sx_inv (scoping env n base S) (upd_rt f)"
  by (rule sx_inv_modify) (simp add: scoping_def rt_static_def)

lemma scoping_audit: "sx_inv (scoping env n base S) (rt_audit e cid st)"
proof (rule sx_inv_snd)
  fix s assume s: "scoping env n base S s"
  obtain a where "rt_audit e cid st s = (Inr (), s\<lparr>cl_world := (cl_world s)\<lparr>wd_audit := a\<rparr>\<rparr>)" using rt_audit_run by blast
  then show "scoping env n base S (snd (rt_audit e cid st s))" using s by (simp add: scoping_def)
qed

lemma scoping_fill: "sx_inv (scoping env n base S) (apply_execution_fill env q p l cid cum sim now)"
  unfolding apply_execution_fill_def
  by (intro sx_rules scoping_upd scoping_audit scoping_world scoped_fill) (simp_all add: rt_static_def)

lemma scoping_terminal: "sx_inv (scoping env n base S) (journal_terminal_once env oid st)"
  unfolding journal_terminal_once_def by (intro sx_rules scoping_upd scoping_world scoped_terminal) (simp_all add: rt_static_def)

lemma scoping_submission: "sx_inv (scoping env n base S) (journal_submission env oid k q)"
proof (rule sx_inv_snd)
  fix s assume s: "scoping env n base S s"
  let ?rt = "cl_rt s"
  let ?r = "\<lambda>a. \<lparr>sr_client_order_id = oid, sr_symbol = rt_symbol ?rt, sr_submit_seq = k, sr_attempt_seq = a,
      sr_side = oi_side (rt_intent ?rt), sr_quantity = q, sr_reduce_only = oi_reduce_only (rt_intent ?rt), sr_leg_index = oi_leg_index (rt_intent ?rt)\<rparr>"
  have "scoped env n base S (snd (on_journal (ev_client env) (\<lambda>clock. record_submit (ev_codec env) clock (?r a)) (cl_world s)))" for a
    using s by (intro scoped_submit [of env n base S _ "rt_intent ?rt"]) (simp_all add: scoping_def rt_symbol_def)
  then show "scoping env n base S (snd (journal_submission env oid k q s))" using s
    by (auto simp: journal_submission_def sx_defs sx_when_def sx_zoom_def scoping_def split: prod.splits sum.splits option.splits) (metis snd_conv)+
qed

interpretation scoping_steps: step_laws env "scoping env n base S" for env :: "'v exec_env" and n base S
  by unfold_locales (auto simp: scoping_def rt_core_def rt_books_def rt_static_def intro: scoping_fill scoping_terminal)

interpretation scoping: send_laws env "scoping env n base S" for env :: "'v exec_env" and n base S
proof unfold_locales
  fix tif price qty touch now
  show "sx_inv (scoping env n base S) (send_order env tif price qty touch now)"
  proof (rule scoping_steps.send_by_parts)
    show "sx_inv (scoping env n base S) (in_world (on_journal (ev_client env) (\<lambda>clock. next_submit_seq (ev_codec env) clock)))"
      by (rule sx_inv_snd) (auto simp: next_submit_world scoping_def scoped_def sound_def)
    show "sx_inv (scoping env n base S) (in_world (on_venue (ev_new_order env p)))" for p
      by (rule scoping_world) (simp add: on_venue_run)
  qed (rule scoping_submission)
qed

definition scope_ok :: "'v exec_env \<Rightarrow> int \<Rightarrow> journal_submit list \<Rightarrow> order_intent set \<Rightarrow> 'v exec \<Rightarrow> bool" where
  "scope_ok env n base S s \<longleftrightarrow> scoped env n base S (ex_world s) \<and> (\<forall>rt \<in> set (ex_rts s). rt_intent rt \<in> S)"

interpretation scoping_run: stable_run env "\<lambda>_ :: unit. scoping env n base S" "\<lambda>_. scoping env n base S" "scope_ok env n base S"
  for env :: "'v exec_env" and n base S
proof (intro stable_run.intro run_laws.intro)
  show "runtime_laws env (scoping env n base S) (scoping env n base S)" by (rule scoping.runtime_laws_axioms)
next
  fix s :: "'v exec" and i assume s: "scope_ok env n base S s" "i < length (ex_rts s)"
  then show "\<exists>_ :: unit. scoping env n base S (cell_at s i)
      \<and> (\<forall>t. scoping env n base S t \<longrightarrow> rt_static (cl_rt t) = rt_static (ex_rts s ! i) \<longrightarrow> scope_ok env n base S (put_cell s i t))
      \<and> (\<forall>t. scoping env n base S t \<longrightarrow> scope_ok env n base S (put_cell s i t))"
    by (auto simp: scope_ok_def scoping_def set_update_others focus_others(2) [OF s(2)])
next
  fix s :: "'v exec" and rts assume s: "scope_ok env n base S s" and rts: "map rt_core rts = map rt_core (ex_rts s)"
  have "(\<forall>rt \<in> set rts. rt_intent rt \<in> S) = (\<forall>rt \<in> set (ex_rts s). rt_intent rt \<in> S)"
    by (rule core_ball [OF rts]) (simp add: core_defs)
  with s show "scope_ok env n base S (s\<lparr>ex_rts := rts\<rparr>)" by (simp add: scope_ok_def)
qed (auto simp: scope_ok_def)

lemma taker_scoped: "sx_inv (scoping_run.ok env n base S k) (execute_immediate_taker env intents (Some a))"
proof -
  let ?J = "scoping_run.ok env n base S k"
  have booked: "sx_inv ?J (ex_in_world (on_journal (ev_client env) (\<lambda>clock. record_fill (ev_codec env) clock (taker_request (Some a) intent x))))" for intent x
  proof (rule sx_inv_snd)
    fix s assume s: "?J s"
    have "scoped env n base S (snd (on_journal (ev_client env) (\<lambda>clock. record_fill (ev_codec env) clock (taker_request (Some a) intent x)) (ex_world s)))"
      using s by (intro scoped_fill) (simp add: scoping_run.ok_def scope_ok_def)
    with s show "?J (snd (ex_in_world (on_journal (ev_client env) (\<lambda>clock. record_fill (ev_codec env) clock (taker_request (Some a) intent x))) s))"
      by (auto simp: scoping_run.ok_def scope_ok_def sx_zoom_run intro: gate_ok_cong)
  qed
  show ?thesis unfolding execute_immediate_taker_def Let_def
    by (intro sx_rules scoping_run.fetch_books_inv scoping_run.ex_read_clock_inv scoping_run.ex_audit_inv)
      (auto split: prod.splits intro!: sx_inv_foldM sx_inv_bind booked sx_inv_pure)
qed

text \<open>A whole run, ended normally or by an exception.\<close>

lemma execution_scoped:
  assumes c: "codec_ok (ev_codec env)" "sound (ev_codec env) n w"
    and run: "execute_intents env model intents filters (Some a) tol budget w = (r, sink, w')"
  shows "sound (ev_codec env) n w' \<and> in_scope (submits_of w) (set intents) w'"
proof -
  have start: "scoped env n (submits_of w) (set intents) w" using c by (simp add: scoped_def in_scope_def)
  have "scoped env n (submits_of w) (set intents) w'"
  proof (cases "model = Some ''immediate_taker''")
    case True
    let ?s = "\<lparr>ex_rts = [], ex_cycle = fresh_cycle [], ex_world = w\<rparr>"
    have "scoping_run.ok env n (submits_of w) (set intents) 0 ?s" using start by (simp add: scoping_run.ok_def gate_ok_def scope_ok_def)
    from sx_triple_snd [OF taker_scoped this] have "scoping_run.ok env n (submits_of w) (set intents) 0 (snd (execute_immediate_taker env intents (Some a) ?s))" .
    with True run show ?thesis by (auto simp: execute_intents_def Let_def scoping_run.ok_def scope_ok_def split: prod.splits sum.splits)
  next
    case False
    have "synced (ev_codec env) (wd_journal w) \<or> Some a = None" using c by (simp add: sound_def)
    from passive_run [OF this False run] obtain t where t: "run_and_report env budget (started env intents filters (Some a) tol w) = (r, t)"
      and w': "w' = ex_world t" by metis
    have "rt_intent (ex_rts (started env intents filters (Some a) tol w) ! i) = intents ! i" if "i < length intents" for i
      using started_nth [OF that, of env filters "Some a" tol w] by auto
    then have "\<forall>rt \<in> set (ex_rts (started env intents filters (Some a) tol w)). rt_intent rt \<in> set intents"
      by (metis in_set_conv_nth nth_mem started_fields(2))
    then have "scoping_run.ok env n (submits_of w) (set intents) (length intents) (started env intents filters (Some a) tol w)"
      using start by (simp add: scoping_run.ok_def started_gate scope_ok_def)
    from scoping_run.report_keeps [OF this t] show ?thesis by (simp add: scoping_run.ok_def w' scope_ok_def)
  qed
  then show ?thesis by (simp add: scoped_def)
qed

end
