(* ===== verification/Signal.thy ===== *)
theory Signal
  imports Ledger
begin

text \<open>
  The signal of a decision day: \<open>src/live/signal.py\<close> and \<open>weights_asof\<close> of
  \<open>src/live/deployed_weights.py\<close>.  A row of target weights is observable one hour after its time stamp
  and stale after a limit.

  The parquet frames are arguments, a missing file being the empty frame of weights, and so is the
  exception of an unreadable one.  A weight or a price is the decimal of the shortest representation of its float.

  Proved here: the row that is used is the newest one at or before the decision, and the two gates let it
  pass exactly between its release and its expiry.
\<close>

section \<open>Target weights\<close>

type_synonym weight_row = "(string \<times> decimal option) list"

type_synonym weight_frame = "(timestamp \<times> weight_row) list"

definition SIGNAL_LAG :: int where "SIGNAL_LAG = HOUR"

text \<open>A frame is empty without rows and without columns.\<close>

definition frame_empty :: "weight_frame \<Rightarrow> bool" where
  "frame_empty frame \<longleftrightarrow> frame = [] \<or> snd (hd frame) = []"

definition weights_asof :: "weight_frame \<Rightarrow> pd_timestamp \<Rightarrow> int \<Rightarrow> (timestamp \<times> weight_row) res" where
  "weights_asof frame decision_time max_staleness =
     (if frame_empty frame then Inl DataIntegrityError
      else rbind (tz_aware DataIntegrityError decision_time) (\<lambda>dt.
        let past = filter (\<lambda>t. t \<le> dt) (map fst frame); candidate = Max (set past)
        in if past = [] then Inl DataIntegrityError
           else case filter (\<lambda>(t, _). t = candidate) frame of
                  [(_, row)] \<Rightarrow> if max_staleness < dt - candidate then Inl StaleSignalError else Inr (candidate, row)
                | _ \<Rightarrow> Inl ValueError))"

text \<open>A decision lies on the daily grid, to the second.\<close>

definition on_grid :: "timestamp \<Rightarrow> bool" where
  "on_grid t \<longleftrightarrow> t mod (24 * HOUR) div 1000000000 = 0"

text \<open>A limit of zero stands for the default of 96 hours.\<close>

definition latest_target_weights :: "weight_frame res \<Rightarrow> pd_timestamp \<Rightarrow> int \<Rightarrow> (timestamp \<times> weight_row) res" where
  "latest_target_weights frame decision_time max_staleness =
     rbind (tz_aware ValueError decision_time) (\<lambda>dt.
       if \<not> on_grid dt then Inl ValueError
       else rbind frame (\<lambda>rows. if frame_empty rows then Inl DataIntegrityError
         else weights_asof rows (Aware dt) (if max_staleness = 0 then 96 * HOUR else max_staleness)))"

section \<open>Gates\<close>

definition assert_signal_available :: "pd_timestamp \<Rightarrow> pd_timestamp \<Rightarrow> unit res" where
  "assert_signal_available decision_time now =
     rbind (tz_aware ValueError decision_time) (\<lambda>dt. rbind (tz_aware ValueError now) (\<lambda>n.
       guard_res (\<not> n < dt + SIGNAL_LAG) CausalityViolation))"

definition assert_signal_fresh :: "pd_timestamp \<Rightarrow> pd_timestamp \<Rightarrow> int \<Rightarrow> unit res" where
  "assert_signal_fresh decision_time now max_staleness =
     rbind (tz_aware ValueError decision_time) (\<lambda>dt. rbind (tz_aware ValueError now) (\<lambda>n.
       guard_res (\<not> dt + max_staleness < n) StaleSignalError))"

section \<open>Decision closes\<close>

datatype price_cell = Not_a_number | Infinite | Price decimal

type_synonym close_frame = "(timestamp \<times> (string \<times> price_cell) list) list"

text \<open>The first argument says whether the index of the frame carries a time zone.\<close>

definition present_cells :: "(string \<times> price_cell) list \<Rightarrow> (string \<times> price_cell) list" where
  "present_cells row = filter (\<lambda>(_, x). x \<noteq> Not_a_number) row"

definition close_price :: "string \<times> price_cell \<Rightarrow> (string \<times> decimal) res" where
  "close_price cell = (case cell of (s, Price p) \<Rightarrow> if p \<le> 0 then Inl DataIntegrityError else Inr (s, p) | _ \<Rightarrow> Inl DataIntegrityError)"

definition latest_decision_ohlcv_close :: "(bool \<times> close_frame) res \<Rightarrow> pd_timestamp \<Rightarrow> (string, decimal) dict res" where
  "latest_decision_ohlcv_close artifact decision_time =
     rbind (tz_aware ValueError decision_time) (\<lambda>dt. rbind artifact (\<lambda>(aware, frame).
       if frame = [] then Inl DataIntegrityError
       else if \<not> aware then Inl DataIntegrityError
       else case filter (\<lambda>(t, _). t = dt) frame of
              [(_, row)] \<Rightarrow> if present_cells row = [] then Inl DataIntegrityError else rmap close_price (present_cells row)
            | _ \<Rightarrow> Inl DataIntegrityError))"

section \<open>The row in force\<close>

lemma weights_asof_newest:
  assumes "weights_asof frame (Aware dt) max_staleness = Inr (t, row)"
  shows "(t, row) \<in> set frame" "t \<le> dt" "dt - t \<le> max_staleness" "\<And>t' row'. (t', row') \<in> set frame \<Longrightarrow> t' \<le> dt \<Longrightarrow> t' \<le> t \<and> (t' = t \<longrightarrow> row' = row)"
proof -
  let ?past = "filter (\<lambda>t. t \<le> dt) (map fst frame)"
  have ne: "?past \<noteq> []" using assms by (auto simp: weights_asof_def Let_def split: if_splits)
  obtain x where f: "filter (\<lambda>(t, _). t = Max (set ?past)) frame = [(x, row)]" and t: "t = Max (set ?past)" and stale: "dt - t \<le> max_staleness"
    using assms by (auto simp: weights_asof_def Let_def split: if_splits list.splits)
  have in_frame: "(x, row) \<in> set frame" "x = t"
    using arg_cong [OF f, of set] t by auto
  then show "(t, row) \<in> set frame" by simp
  have "Max (set ?past) \<in> set ?past" using ne by (intro Max_in) (simp_all only: set_empty finite_set not_False_eq_True)
  then show "t \<le> dt" by (simp add: t)
  show "dt - t \<le> max_staleness" by (rule stale)
  fix t' row' assume r: "(t', row') \<in> set frame" "t' \<le> dt"
  have "t' \<in> set ?past" using r by force
  then have "t' \<le> t" using Max_ge [of "set ?past" t'] by (simp add: t)
  moreover have "row' = row" if "t' = t" using r that arg_cong [OF f, of set] t by force
  ultimately show "t' \<le> t \<and> (t' = t \<longrightarrow> row' = row)" by blast
qed

lemma gates_iff:
  "assert_signal_available (Aware t) (Aware now) = Inr () \<longleftrightarrow> t + SIGNAL_LAG \<le> now"
  "assert_signal_fresh (Aware t) (Aware now) m = Inr () \<longleftrightarrow> now \<le> t + m"
  by (simp_all add: assert_signal_available_def assert_signal_fresh_def guard_res_def)

lemma target_weights_newest:
  assumes "latest_target_weights frame (Aware dt) max_staleness = Inr (t, row)"
  obtains rows where "frame = Inr rows" "weights_asof rows (Aware dt) (if max_staleness = 0 then 96 * HOUR else max_staleness) = Inr (t, row)" "on_grid dt"
  using assms by (auto simp: latest_target_weights_def rbind_eq_Inr split: if_splits)

lemma closes_positive:
  assumes "latest_decision_ohlcv_close artifact dt = Inr closes" "(s, p) \<in> set closes" shows "0 < p"
proof -
  obtain row where r: "rmap close_price row = Inr closes"
    using assms(1) by (auto simp: latest_decision_ohlcv_close_def rbind_eq_Inr split: if_splits list.splits)
  then have "closes = map (\<lambda>cell. (fst cell, case snd cell of Price p \<Rightarrow> p | _ \<Rightarrow> 0)) row \<and> (\<forall>cell \<in> set row. \<exists>p. snd cell = Price p \<and> 0 < p)"
    by (induction row arbitrary: closes) (auto simp: rbind_eq_Inr close_price_def split: price_cell.splits if_splits)
  then show ?thesis using assms(2) by force
qed

end
