(* ===== verification/Cycle_Plan.thy ===== *)
theory Cycle_Plan
  imports Paper_Settlement Signal Sizing Execution_Policy
begin

text \<open>
  The decisions of a cycle before it sends orders: the parts of \<open>run_shadow_cycle\<close> of
  \<open>src/live/runner.py\<close> from the quotes to the list of intents, with \<open>check_risk_gates\<close> and the audit helpers,
  \<open>parse_rate_limits\<close> and \<open>book_tickers\<close> of \<open>src/live/rest.py\<close>, and the batch branch of \<open>fetch_book_quotes\<close> of
  \<open>src/live/microstructure.py\<close>.

  Settings that the code holds as floats are rationals, those it only uses through \<open>Decimal(str(x))\<close>
  decimals; a weight is a number or NaN.  The microstructure record is a call of the venue without a result.

  Proved here: what reaches the executor.  No intent is for a frozen symbol, and in a cycle that must
  only reduce risk every intent reduces a position of the account and none is for a foreign symbol.
\<close>

section \<open>Settings and the outside\<close>

record shadow_settings =
  ss_cycle :: cycle_settings
  ss_max_weights_staleness :: int
  ss_max_signal_staleness :: int
  ss_max_gross_leverage :: rat
  ss_max_daily_orders :: int
  ss_max_daily_turnover_fraction :: decimal
  ss_min_free_margin_fraction :: decimal
  ss_leverage_buffer_fraction :: rat
  ss_execution_policy :: string
  ss_fee_schedule :: fee_schedule
  ss_taker_slippage_bps :: rat
  ss_passive_timeout_minutes :: int
  ss_repeg_interval_s :: rat
  ss_paper_fill_model :: string
  ss_cleanup_budget_s :: rat
  ss_reject_cluster_alert_min_symbols :: int
  ss_exec_depth_capture_enabled :: bool
  ss_tax_collection_enabled :: bool
  ss_tax_max_pages :: nat

abbreviation ss_codec :: "shadow_settings \<Rightarrow> text_codec" where "ss_codec ss \<equiv> cs_codec (ss_cycle ss)"

abbreviation ss_mode :: "shadow_settings \<Rightarrow> execution_mode" where "ss_mode ss \<equiv> cs_mode (ss_cycle ss)"

abbreviation ss_suppressed :: "shadow_settings \<Rightarrow> bool" where "ss_suppressed ss \<equiv> suppresses_mutations (ss_mode ss)"

record 'v market =
  mk_request :: "'v rest"
  mk_capture :: "'v \<Rightarrow> unit res \<times> 'v"

section \<open>Rate limits and quotes\<close>

definition interval_seconds :: "(string, int) dict" where
  "interval_seconds = [(''SECOND'', 1), (''MINUTE'', 60), (''HOUR'', 3600), (''DAY'', 86400)]"

text \<open>The limits found so far: weight per minute, orders per minute, orders per ten seconds.\<close>

type_synonym limits_found = "int option \<times> int option \<times> int option"

definition rate_limit_entry :: "text_codec \<Rightarrow> json \<Rightarrow> limits_found \<Rightarrow> limits_found res" where
  "rate_limit_entry c entry acc = (case (entry, acc) of
     (JObj d, (weight, orders, burst)) \<Rightarrow>
       (case (obj_get d ''rateLimitType'', obj_get d ''interval'') of
          (JStr kind, JStr interval) \<Rightarrow>
            if kind \<noteq> ''REQUEST_WEIGHT'' \<and> kind \<noteq> ''ORDERS'' then Inr acc
            else (case (map_of interval_seconds (py_upper interval), py_int c (obj_get d ''intervalNum'')) of
                (Some seconds, Inr n) \<Rightarrow>
                  (let limit = obj_get d ''limit''; window = n * seconds in
                   if limit = JNull then Inr acc
                   else if kind = ''REQUEST_WEIGHT'' \<and> window = 60 \<and> weight = None
                   then rbind (py_int c limit) (\<lambda>x. Inr (Some x, orders, burst))
                   else if kind = ''ORDERS'' \<and> window = 60 \<and> orders = None
                   then rbind (py_int c limit) (\<lambda>x. Inr (weight, Some x, burst))
                   else if kind = ''ORDERS'' \<and> window = 10 \<and> burst = None
                   then rbind (py_int c limit) (\<lambda>x. Inr (weight, orders, Some x))
                   else Inr acc)
              | _ \<Rightarrow> Inr acc)
        | _ \<Rightarrow> Inr acc)
   | _ \<Rightarrow> Inr acc)"

definition parse_rate_limits :: "text_codec \<Rightarrow> payload \<Rightarrow> rate_limits res" where
  "parse_rate_limits c exchange_info = (case obj_get exchange_info ''rateLimits'' of
     JArr entries \<Rightarrow> rbind (rfold (rate_limit_entry c) entries (None, None, None)) (\<lambda>found.
       case found of (Some w, Some m, Some b) \<Rightarrow> Inr \<lparr>rl_request_weight_1m = w, rl_orders_1m = m, rl_orders_10s = b\<rparr>
       | _ \<Rightarrow> Inl DataIntegrityError)
   | _ \<Rightarrow> Inl DataIntegrityError)"

definition book_tickers :: "text_codec \<Rightarrow> 'v rest \<Rightarrow> 'v \<Rightarrow> (string, json) dict res \<times> 'v" where
  "book_tickers c req v = (case req ''GET'' ''/fapi/v1/ticker/bookTicker'' [] v of
     (Inl e, v') \<Rightarrow> (Inl e, v')
   | (Inr (JArr entries), v') \<Rightarrow> (Inr (fold (\<lambda>e d. case e of
         JObj x \<Rightarrow> (case map_of x ''symbol'' of None \<Rightarrow> d | Some s \<Rightarrow> AList.update (py_str c s) e d) | _ \<Rightarrow> d) entries []), v')
   | (Inr _, v') \<Rightarrow> (Inl DataIntegrityError, v'))"

definition quotes_of :: "text_codec \<Rightarrow> (string, json) dict \<Rightarrow> string list \<Rightarrow> (string, book_quote) dict" where
  "quotes_of c payload symbols = List.map_filter (\<lambda>s. case map_of payload s of None \<Rightarrow> None
     | Some entry \<Rightarrow> map_option (Pair s) (parse_book_quote c s entry)) symbols"

definition mid :: "book_quote \<Rightarrow> decimal res" where
  "mid q = ddiv (dadd (bq_bid q) (bq_ask q)) 2"

definition marks_from_tickers :: "text_codec \<Rightarrow> 'v rest \<Rightarrow> string list \<Rightarrow> ('v world, (string, decimal) dict) sx" where
  "marks_from_tickers c req symbols =
     sx_bind (on_venue (book_tickers c req)) (\<lambda>payload.
       sx_lift (rmap (\<lambda>(s, q). rbind (mid q) (\<lambda>m. Inr (s, m))) (quotes_of c payload symbols)))"

section \<open>Gates\<close>

definition valued :: "(string, decimal) dict \<Rightarrow> (string \<times> decimal) list \<Rightarrow> decimal" where
  "valued marks xs = foldl dadd 0 (List.map_filter (\<lambda>(s, q). map_option (\<lambda>m. dabs (dmul q m)) (map_of marks s)) xs)"

definition within_equity :: "decimal \<Rightarrow> decimal \<Rightarrow> decimal res \<Rightarrow> unit res" where
  "within_equity notional equity allowed =
     (if equity \<le> 0 then Inr ()
      else rbind (ddiv notional equity) (\<lambda>x. rbind allowed (\<lambda>limit. guard_res (x \<le> limit) RiskGateBreach)))"

definition check_risk_gates ::
    "shadow_settings \<Rightarrow> order_intent list \<Rightarrow> (string, decimal) dict \<Rightarrow> (string, decimal) dict \<Rightarrow> decimal \<Rightarrow> unit res" where
  "check_risk_gates ss intents targets marks equity =
     rbind (within_equity (valued marks targets) equity (float_decimal (ss_codec ss) (ss_max_gross_leverage ss))) (\<lambda>_.
     rbind (guard_res (int (length intents) \<le> ss_max_daily_orders ss) RiskGateBreach) (\<lambda>_.
       within_equity (valued marks (map (\<lambda>i. (oi_symbol i, oi_quantity i)) intents)) equity (Inr (ss_max_daily_turnover_fraction ss))))"

section \<open>From weights to intents\<close>

record market_view =
  mv_wanted :: "string list"
  mv_marks :: "(string, decimal) dict"
  mv_decision_marks :: "(string, decimal) dict"

text \<open>Quotes of every symbol of interest, and the decision closes, of which no active target may be
  missing.\<close>

definition view_market ::
    "shadow_settings \<Rightarrow> 'v market \<Rightarrow> (bool \<times> close_frame) res \<Rightarrow> timestamp \<Rightarrow> weight_row \<Rightarrow> (string, decimal) dict \<Rightarrow> ('v world, market_view) sx" where
  "view_market ss mk closes effective_dt weights positions =
     (let wanted = sorted_set (map fst weights @ map fst positions) in
      sx_bind (marks_from_tickers (ss_codec ss) (mk_request mk) wanted) (\<lambda>marks.
      sx_bind (sx_catch (on_venue (mk_capture mk)) (\<lambda>_. sx_return ())) (\<lambda>_.
      sx_bind (sx_lift (latest_decision_ohlcv_close closes (Aware effective_dt))) (\<lambda>decision_marks.
        let active = map fst (filter (\<lambda>(_, w). w \<noteq> None \<and> w \<noteq> Some 0) weights) in
        if \<exists>s \<in> set active. s \<notin> set (map fst decision_marks) then sx_raise DataIntegrityError
        else sx_return \<lparr>mv_wanted = wanted, mv_marks = marks, mv_decision_marks = decision_marks\<rparr>))))"

definition audit_sizing_mark_fallbacks :: "(string, decimal) dict \<Rightarrow> (string, decimal) dict \<Rightarrow> ('v world, unit) sx" where
  "audit_sizing_mark_fallbacks positions marks =
     sx_foldM (\<lambda>(s, q) _. sx_when (q \<noteq> 0 \<and> map_of marks s = None) (audit_record ''sizing_mark_fallback'' s [] [])) positions ()"

definition audit_risk_blocked :: "order_intent list \<Rightarrow> ('v world, unit) sx" where
  "audit_risk_blocked blocked = sx_foldM (\<lambda>i _. audit_record ''intent_risk_control_blocked'' (oi_symbol i) [] (oi_side i)) blocked ()"

text \<open>The share of the target notional that no order can be sent for.\<close>

definition dropped_fraction :: "decimal \<Rightarrow> weight_row \<Rightarrow> (string, decimal) dict \<Rightarrow> dropped_symbol list \<Rightarrow> rat res" where
  "dropped_fraction equity weights targets dropped =
     (let dropped_notional = foldl dadd 0 (map (dabs \<circ> ds_target_notional) dropped);
          sized = List.map_filter (\<lambda>(s, _). map_option (\<lambda>w. dabs (dmul equity (case w of None \<Rightarrow> 0 | Some x \<Rightarrow> x))) (map_of weights s)) targets;
          whole = dadd dropped_notional (foldl dadd 0 sized)
      in if 0 < whole then rbind (ddiv dropped_notional whole) (\<lambda>x. Inr (fl x)) else Inr 0)"

record sized_plan =
  sp_equity :: decimal
  sp_targets :: "(string, decimal) dict"
  sp_dropped_fraction :: rat
  sp_intents :: "order_intent list"

definition size_and_plan ::
    "shadow_settings \<Rightarrow> account_snapshot \<Rightarrow> (string, symbol_filters) dict \<Rightarrow> weight_row \<Rightarrow> market_view \<Rightarrow> ledger_state \<Rightarrow> string \<Rightarrow> ('v world, sized_plan) sx" where
  "size_and_plan ss snapshot filters weights view state run_id =
     sx_bind (audit_sizing_mark_fallbacks (ls_positions state) (mv_marks view)) (\<lambda>_.
     sx_bind (sx_lift (resolve_sizing_equity snapshot (ro_starting_capital (cs_record (ss_cycle ss))) (ss_suppressed ss) (ls_cash_usdt state)
        (Some (ls_positions state)) (Some (mv_marks view)) (Some (mv_decision_marks view)))) (\<lambda>equity.
     sx_bind (sx_lift (target_quantities weights (mv_marks view) filters equity (Some (mv_decision_marks view)))) (\<lambda>(targets, dropped).
     sx_bind (sx_foldM (\<lambda>d _. audit_record ''symbol_dropped'' (Sizing.ds_symbol d) [] (ds_reason d)) dropped ()) (\<lambda>_.
     sx_bind (sx_lift (dropped_fraction equity weights targets dropped)) (\<lambda>fraction.
     sx_bind (sx_lift (plan_orders targets (effective_positions (ss_suppressed ss) snapshot (ls_positions state)) filters (mv_marks view) run_id)) (\<lambda>planned.
       let (allowed, risk_blocked) = partition_risk_controlled planned filters in
       sx_bind (audit_risk_blocked risk_blocked) (\<lambda>_.
       sx_bind (sx_lift (check_risk_gates ss allowed targets (mv_marks view) equity)) (\<lambda>_.
         sx_return \<lparr>sp_equity = equity, sp_targets = targets, sp_dropped_fraction = fraction, sp_intents = allowed\<rparr>))))))))"

section \<open>Restricting the plan\<close>

definition margin_reasons :: "shadow_settings \<Rightarrow> account_snapshot \<Rightarrow> string list \<Rightarrow> string list res" where
  "margin_reasons ss snapshot reasons =
     rbind (if ss_suppressed ss then Inr False else free_margin_breached snapshot (ss_min_free_margin_fraction ss)) (\<lambda>margin_floor.
       if margin_floor \<and> \<not> cs_derisk_mode_enabled (ss_cycle ss) then Inl RiskGateBreach
       else Inr (if margin_floor \<and> ''free_margin_floor'' \<notin> set reasons then sort (reasons @ [''free_margin_floor'']) else reasons))"

definition cap_leverage :: "shadow_settings \<Rightarrow> 'v rest \<Rightarrow> order_intent list \<Rightarrow> ('v world, order_intent list) sx" where
  "cap_leverage ss req kept =
     (if ss_suppressed ss \<or> kept = [] then sx_return kept
      else sx_bind (on_venue (req ''GET'' ''/fapi/v1/leverageBracket'' [])) (\<lambda>raw.
           sx_bind (sx_lift (parse_leverage_brackets (ss_codec ss) raw)) (\<lambda>brackets.
           sx_bind (ensure_venue_leverage (ss_codec ss) req (sorted_set (map oi_symbol kept)) brackets (ss_max_gross_leverage ss) (ss_leverage_buffer_fraction ss)) (\<lambda>leverages.
             reject_intents_over_notional_cap kept brackets leverages))))"

record restricted_plan =
  rs_kept :: "order_intent list"
  rs_reasons :: "string list"
  rs_blocked :: nat
  rs_frozen_blocked :: nat

definition restrict_plan ::
    "shadow_settings \<Rightarrow> 'v rest \<Rightarrow> account_snapshot \<Rightarrow> pre_trade_reconciliation \<Rightarrow> order_intent list \<Rightarrow> ('v cycle_world, restricted_plan) sx" where
  "restrict_plan ss req snapshot pt intents =
     sx_bind (sx_lift (margin_reasons ss snapshot (pt_derisk_reasons pt))) (\<lambda>reasons.
     sx_bind (apply_unresolved_freeze intents (pt_frozen_symbols pt)) (\<lambda>(kept, frozen_blocked).
     sx_bind (on_world (cap_leverage ss req kept)) (\<lambda>kept.
       if reasons = [] then sx_return \<lparr>rs_kept = kept, rs_reasons = reasons, rs_blocked = 0, rs_frozen_blocked = frozen_blocked\<rparr>
       else let plan = derisk_filter kept (as_positions snapshot) (os_foreign_symbols (pt_sweep pt)) in
            sx_bind (sx_foldM (\<lambda>(i, reason) _. cw_audit ''derisk_blocked'' (oi_symbol i) [] reason) (dp_blocked plan) ()) (\<lambda>_.
              sx_return \<lparr>rs_kept = dp_kept plan, rs_reasons = reasons, rs_blocked = length (dp_blocked plan), rs_frozen_blocked = frozen_blocked\<rparr>))))"

section \<open>What reaches the executor\<close>

lemma capped_subset:
  assumes "cap_leverage ss req kept w = (Inr kept', w')" shows "set kept' \<subseteq> set kept"
  using assms by (auto simp: cap_leverage_def sx_bind_Inr split: if_splits dest!: notional_cap_exact)

text \<open>The intents an account state allows: none on a frozen symbol, and under de-risking only those
  that the de-risk filter keeps.\<close>

definition permitted :: "account_snapshot \<Rightarrow> pre_trade_reconciliation \<Rightarrow> string list \<Rightarrow> order_intent \<Rightarrow> bool" where
  "permitted snapshot pt reasons i \<longleftrightarrow> oi_symbol i \<notin> set (pt_frozen_symbols pt)
     \<and> (reasons = [] \<or> derisk_block_reason (os_foreign_symbols (pt_sweep pt)) (as_positions snapshot) i = None)"

lemma margin_reasons_grow: "margin_reasons ss snapshot reasons = Inr reasons' \<Longrightarrow> set reasons \<subseteq> set reasons'"
  by (auto simp: margin_reasons_def rbind_eq_Inr split: if_splits)

lemma restrict_plan_permitted:
  assumes "restrict_plan ss req snapshot pt intents w = (Inr rs, w')"
  shows "set (rs_kept rs) \<subseteq> set intents" "\<forall>i \<in> set (rs_kept rs). permitted snapshot pt (rs_reasons rs) i"
    "set (pt_derisk_reasons pt) \<subseteq> set (rs_reasons rs)"
proof -
  from assms obtain reasons kept n u kept' u' where r: "margin_reasons ss snapshot (pt_derisk_reasons pt) = Inr reasons"
    and f: "apply_unresolved_freeze intents (pt_frozen_symbols pt) w = (Inr (kept, n), u)"
    and c: "on_world (cap_leverage ss req kept) u = (Inr kept', u')"
    and rs: "rs_reasons rs = reasons" "rs_kept rs = (if reasons = [] then kept' else dp_kept (derisk_filter kept' (as_positions snapshot) (os_foreign_symbols (pt_sweep pt))))"
    by (auto simp: restrict_plan_def sx_bind_Inr Let_def split: if_splits)
  have kept: "kept = filter (\<lambda>i. oi_symbol i \<notin> set (pt_frozen_symbols pt)) intents"
    using f freeze_unresolved_symbols_exact [of intents "pt_frozen_symbols pt"] by (auto simp: apply_unresolved_freeze_def Let_def sx_bind_Inr)
  have "cap_leverage ss req kept (cw_world u) = (Inr kept', snd (cap_leverage ss req kept (cw_world u)))"
    using c by (auto simp: on_world_run prod_eq_iff)
  from capped_subset [OF this] have cap: "set kept' \<subseteq> set kept" .
  show "set (rs_kept rs) \<subseteq> set intents" using cap kept rs(2) by (auto simp: derisk_filter_kept_iff)
  show "\<forall>i \<in> set (rs_kept rs). permitted snapshot pt (rs_reasons rs) i"
    using cap kept rs by (auto simp: permitted_def derisk_filter_kept_iff split: if_splits)
  show "set (pt_derisk_reasons pt) \<subseteq> set (rs_reasons rs)" using margin_reasons_grow [OF r] rs(1) by simp
qed

end
