(* ===== verification/Cycle.thy ===== *)
theory Cycle
  imports Executor_Scope Cycle_Plan Tax_Collection
begin

text \<open>
  One cycle of the live runner: \<open>run_shadow_cycle\<close> of \<open>src/live/runner.py\<close>, composed of the signal gates, the
  pre-trade reconciliation, the paper postings, the plan, the executor, the commit and the tax
  collection, with \<open>_flush_already_executed\<close>, \<open>_commit_on_abort\<close>, the two outcome alerts, \<open>_uncovered_positions\<close>,
  the run manifest and \<open>NullOrderClient\<close>.

  The depth recorder and the trade tape are calls of the outside that may raise.  Left out are what the
  code does for observation only and under \<open>except Exception\<close>: latency, execution quality, portfolio state,
  microstructure, the stop and the summary of the trade tape, and the extra alert that a corrupt tax
  ledger gets; the \<open>finally\<close> that stops a recorder still running; and the text of the exception in the
  reason of a halt, which is empty here.

  What holds of a cycle is stated in \<open>Cycle_Safety\<close>.
\<close>

section \<open>Exceptions\<close>

definition live_error :: "exc \<Rightarrow> bool" where
  "live_error e = (case e of LiveTradingError \<Rightarrow> True | RiskGateBreach \<Rightarrow> True | ReconciliationBreach \<Rightarrow> True | ForeignOpenOrderError \<Rightarrow> True
     | CausalityViolation \<Rightarrow> True | StaleSignalError \<Rightarrow> True | StaleOrderIdentity \<Rightarrow> True | OrderStatusUnknown \<Rightarrow> True | TransientReadError \<Rightarrow> True
     | OrderObsolete \<Rightarrow> True | CancelNotConfirmed \<Rightarrow> True | ExecutionInterrupted \<Rightarrow> True | VenueError _ _ \<Rightarrow> True | _ \<Rightarrow> False)"

text \<open>The exceptions that end a cycle with a report.\<close>

definition halting :: "exc \<Rightarrow> bool" where
  "halting e \<longleftrightarrow> live_error e \<or> e \<in> {ValueError, DataIntegrityError, OSError}"

text \<open>What \<open>except Exception\<close> catches.\<close>

definition ordinary :: "exc \<Rightarrow> bool" where "ordinary e \<longleftrightarrow> e \<noteq> SystemExit \<and> e \<noteq> NoReturn"

section \<open>World, environment and report\<close>

record 'v shadow_world =
  sw_cycle :: "'v cycle_world"
  sw_watermark :: ledger_file
  sw_manifest :: ledger_file

definition on_cycle :: "('v cycle_world, 'a) sx \<Rightarrow> ('v shadow_world, 'a) sx" where
  "on_cycle = sx_zoom sw_cycle sw_cycle_update"

record manifest_input =
  mi_enabled :: bool
  mi_current :: "payload res"
  mi_resolve :: "string \<Rightarrow> json res"
  mi_legacy_sha :: "string option"

record 'v shadow_env =
  sv_exec :: "'v exec_env"
  sv_market :: "'v market"
  sv_request :: "'v rest"
  sv_force_orders :: "int \<Rightarrow> int \<Rightarrow> 'v \<Rightarrow> json res \<times> 'v"
  sv_null_client :: bool
  sv_exchange_info :: "'v \<Rightarrow> payload res \<times> 'v"
  sv_sync_time :: "'v \<Rightarrow> unit res \<times> 'v"
  sv_weights :: "weight_frame res"
  sv_closes :: "(bool \<times> close_frame) res"
  sv_paper :: paper_inputs
  sv_depth_start :: "order_intent list \<Rightarrow> 'v \<Rightarrow> unit res \<times> 'v"
  sv_depth_stop :: "'v \<Rightarrow> unit res \<times> 'v"
  sv_tape_start :: "string list \<Rightarrow> 'v \<Rightarrow> unit res \<times> 'v"
  sv_tax_client :: "'v tax_client"
  sv_collection :: collection_params
  sv_manifest :: manifest_input
  sv_pre_faults :: "io_faults \<times> io_faults"
  sv_commit_faults :: io_faults
  sv_abort_faults :: io_faults
  sv_flush_faults :: io_faults

record shadow_report =
  rp_status :: string
  rp_reason :: "string option"
  rp_decision_time :: timestamp
  rp_intent_count :: nat
  rp_outcomes :: "execution_outcome list"
  rp_dropped_fraction :: rat
  rp_intents :: "order_intent list"

definition null_order_client :: "'v venue_client \<Rightarrow> 'v venue_client" where
  "null_order_client vc = vc\<lparr>vc_cancel := \<lambda>_ _ v. (Inr (), v), vc_query := \<lambda>_ _ v. (Inr [], v), vc_open_orders := \<lambda>v. (Inr [], v)\<rparr>"

definition order_client :: "'v shadow_env \<Rightarrow> 'v venue_client" where
  "order_client sv = (if sv_null_client sv then null_order_client (ev_client (sv_exec sv)) else ev_client (sv_exec sv))"

definition reconcile_client :: "'v shadow_env \<Rightarrow> 'v cycle_client" where
  "reconcile_client sv = \<lparr>cl_orders = order_client sv, cl_force_orders = sv_force_orders sv\<rparr>"

section \<open>The run manifest\<close>

definition COMPARED_KEYS :: "string list" where
  "COMPARED_KEYS = [''strategy_id'', ''name_clip'', ''execution_policy'', ''mode'', ''unit_bootstrap_sha256'']"

definition strategy_id_matches :: "manifest_input \<Rightarrow> json \<Rightarrow> json \<Rightarrow> bool res" where
  "strategy_id_matches mi stored canonical = (case stored of
     JStr s \<Rightarrow> (case mi_resolve mi s of Inr x \<Rightarrow> Inr (x = canonical)
       | Inl e \<Rightarrow> if e = DataIntegrityError then Inr False else Inl e)
   | _ \<Rightarrow> Inr False)"

definition allowed_changes :: "manifest_input \<Rightarrow> payload \<Rightarrow> payload \<Rightarrow> string list \<Rightarrow> string list res" where
  "allowed_changes mi raw current mismatched =
     rbind (if ''strategy_id'' \<in> set mismatched then strategy_id_matches mi (obj_get raw ''strategy_id'') (obj_get current ''strategy_id'') else Inr False) (\<lambda>renamed.
       let sha = (case mi_legacy_sha mi of None \<Rightarrow> False | Some s \<Rightarrow> ''unit_bootstrap_sha256'' \<in> set mismatched
             \<and> obj_get raw ''unit_bootstrap_sha256'' = JStr s \<and> obj_get current ''unit_bootstrap_sha256'' \<noteq> JStr s);
           clip = ''name_clip'' \<in> set mismatched \<and> obj_get raw ''name_clip'' = JNull
       in Inr ((if renamed then [''strategy_id''] else []) @ (if sha then [''unit_bootstrap_sha256''] else []) @ (if clip then [''name_clip''] else [])))"

definition assert_run_manifest_compatible :: "manifest_input \<Rightarrow> (ledger_file, unit) sx" where
  "assert_run_manifest_compatible mi =
     sx_bind (sx_gets id) (\<lambda>f. if \<not> mi_enabled mi then sx_return () else case f of
         Missing \<Rightarrow> sx_return () | Corrupt \<Rightarrow> sx_raise ValueError
       | Document j \<Rightarrow> sx_bind (sx_lift (mi_current mi)) (\<lambda>current.
           sx_bind (sx_lift (as_obj j)) (\<lambda>raw.
             let mismatched = filter (\<lambda>k. obj_get raw k \<noteq> obj_get current k) COMPARED_KEYS in
             if mismatched = [] then sx_return ()
             else sx_bind (sx_lift (allowed_changes mi raw current mismatched)) (\<lambda>allowed.
                  if set mismatched \<subseteq> set allowed \<and> allowed \<noteq> []
                  then sx_modify (\<lambda>_. Document (JObj (fold (\<lambda>k d. AList.update k (obj_get current k) d) allowed raw)))
                  else sx_raise DataIntegrityError))))"

definition ensure_run_manifest :: "manifest_input \<Rightarrow> (ledger_file, unit) sx" where
  "ensure_run_manifest mi =
     sx_bind (sx_gets id) (\<lambda>f. if \<not> mi_enabled mi \<or> f \<noteq> Missing then sx_return ()
       else sx_bind (sx_lift (mi_current mi)) (\<lambda>current. sx_modify (\<lambda>_. Document (JObj current))))"

definition on_manifest :: "(ledger_file, 'a) sx \<Rightarrow> ('v shadow_world, 'a) sx" where
  "on_manifest = sx_zoom sw_manifest sw_manifest_update"

section \<open>Preparation\<close>

text \<open>The row of weights in force, released and not expired.\<close>

definition gate_signal :: "shadow_settings \<Rightarrow> weight_frame res \<Rightarrow> timestamp \<Rightarrow> timestamp \<Rightarrow> (timestamp \<times> weight_row) res" where
  "gate_signal ss frame decision_time now =
     rbind (latest_target_weights frame (Aware decision_time) (ss_max_weights_staleness ss)) (\<lambda>(effective_dt, weights).
     rbind (assert_signal_available (Aware effective_dt) (Aware now)) (\<lambda>_.
     rbind (assert_signal_fresh (Aware effective_dt) (Aware now) (ss_max_signal_staleness ss)) (\<lambda>_. Inr (effective_dt, weights))))"

record venue_view =
  vv_info :: payload
  vv_filters :: "(string, symbol_filters) dict"
  vv_limits :: rate_limits
  vv_snapshot :: account_snapshot

definition view_venue :: "shadow_settings \<Rightarrow> 'v shadow_env \<Rightarrow> timestamp \<Rightarrow> ('v world, venue_view) sx" where
  "view_venue ss sv now =
     sx_bind (Venue.on_venue (sv_exchange_info sv)) (\<lambda>info.
     sx_bind (sx_lift (parse_exchange_filters (ss_codec ss) info)) (\<lambda>filters.
     sx_bind (sx_lift (parse_rate_limits (ss_codec ss) info)) (\<lambda>limits.
     sx_bind (if sv_null_client sv then sx_return (synthetic_flat_snapshot (Aware now))
              else sx_bind (Venue.on_venue (sv_sync_time sv)) (\<lambda>_. fetch_account_snapshot (ss_codec ss) (sv_request sv) now)) (\<lambda>snapshot.
     sx_bind (sx_lift (assert_venue_configuration snapshot)) (\<lambda>_.
       sx_return \<lparr>vv_info = info, vv_filters = filters, vv_limits = limits, vv_snapshot = snapshot\<rparr>)))))"

definition load_state :: "shadow_settings \<Rightarrow> ('v cycle_world, ledger_state) sx" where
  "load_state ss = sx_bind (sx_gets (\<lambda>w. load_ledger (ss_codec ss) (es_ledger (cw_store w)))) sx_lift"

text \<open>The journal object of the cycle is a new one.\<close>

definition open_cycle_journal :: "('v cycle_world, unit) sx" where
  "open_cycle_journal = sx_modify (cw_world_update (\<lambda>w. w\<lparr>wd_journal := open_journal (wal_file (wd_journal w))\<rparr>))"

record prepared =
  pd_venue :: venue_view
  pd_reconciliation :: pre_trade_reconciliation
  pd_market :: market_view
  pd_paper :: paper_settlement
  pd_sized :: sized_plan
  pd_restricted :: restricted_plan

abbreviation pd_kept :: "prepared \<Rightarrow> order_intent list" where "pd_kept p \<equiv> rs_kept (pd_restricted p)"

definition degraded :: "prepared \<Rightarrow> bool" where
  "degraded p \<longleftrightarrow> rs_reasons (pd_restricted p) \<noteq> [] \<or> pt_frozen_symbols (pd_reconciliation p) \<noteq> []"

definition paper_postings :: "shadow_settings \<Rightarrow> 'v shadow_env \<Rightarrow> payload \<Rightarrow> timestamp \<Rightarrow> ledger_state \<Rightarrow> ('v cycle_world, paper_settlement) sx" where
  "paper_postings ss sv info now state =
     (if ss_suppressed ss then settle_paper (ss_cycle ss) (sv_paper sv) info now state
      else sx_return \<lparr>px_ledger_state = state, px_cash_before = None, px_funding_records = [], px_settlement_records = []\<rparr>)"

definition prepare_cycle ::
    "shadow_settings \<Rightarrow> 'v shadow_env \<Rightarrow> timestamp \<Rightarrow> timestamp \<Rightarrow> timestamp \<Rightarrow> weight_row \<Rightarrow> ('v cycle_world, prepared) sx" where
  "prepare_cycle ss sv decision_time now effective_dt weights =
     sx_bind (on_world (view_venue ss sv now)) (\<lambda>venue.
     sx_bind (load_state ss) (\<lambda>state.
     sx_bind open_cycle_journal (\<lambda>_.
     sx_bind (reconcile_pre_trade (ss_cycle ss) (reconcile_client sv) (sv_pre_faults sv) decision_time now (vv_snapshot venue) (vv_info venue) state) (\<lambda>pt.
     sx_bind (on_world (view_market ss (sv_market sv) (sv_closes sv) effective_dt weights
        (effective_positions (ss_suppressed ss) (vv_snapshot venue) (ls_positions (pt_ledger_state pt))))) (\<lambda>view.
     sx_bind (paper_postings ss sv (vv_info venue) now (pt_ledger_state pt)) (\<lambda>paper.
     sx_bind (on_world (size_and_plan ss (vv_snapshot venue) (vv_filters venue) weights view (px_ledger_state paper) (cs_day (ss_cycle ss) decision_time))) (\<lambda>sized.
     sx_bind (restrict_plan ss (sv_request sv) (vv_snapshot venue) pt (sp_intents sized)) (\<lambda>restricted.
       sx_return \<lparr>pd_venue = venue, pd_reconciliation = pt, pd_market = view, pd_paper = paper, pd_sized = sized, pd_restricted = restricted\<rparr>))))))))"

section \<open>Execution\<close>

definition uncovered_positions ::
    "(string, decimal) dict \<Rightarrow> (string, decimal) dict \<Rightarrow> (string, symbol_filters) dict \<Rightarrow> (string, decimal) dict \<Rightarrow> order_intent list \<Rightarrow> (string \<times> string) list" where
  "uncovered_positions current targets filters marks intents =
     List.map_filter (\<lambda>(s, q).
        if q = 0 \<or> s \<in> oi_symbol ` set intents \<or> dict_get targets s 0 = q then None
        else if map_of filters s = None then Some (s, ''no_filters'')
        else if map_of marks s = None then Some (s, ''no_mark'') else None) current"

definition select_policy :: "shadow_settings \<Rightarrow> passive_policy res" where
  "select_policy ss =
     (if ss_execution_policy ss = ''strict_passive''
      then strict_passive_execution_policy (ss_fee_schedule ss) (ss_taker_slippage_bps ss) (ss_passive_timeout_minutes ss)
      else if ss_execution_policy ss = ''strict_passive_repeg''
      then strict_passive_repeg_execution_policy (ss_fee_schedule ss) (ss_taker_slippage_bps ss) (ss_passive_timeout_minutes ss) (ss_repeg_interval_s ss)
      else backtest_parity_execution_policy (ss_fee_schedule ss) (ss_taker_slippage_bps ss))"

definition start_depth :: "shadow_settings \<Rightarrow> 'v shadow_env \<Rightarrow> order_intent list \<Rightarrow> ('v world, unit) sx" where
  "start_depth ss sv kept =
     (if ss_mode ss = LIVE_TESTNET then audit_record ''exec_depth_skipped'' [] [] ''testnet''
      else if \<not> ss_exec_depth_capture_enabled ss then audit_record ''exec_depth_skipped'' [] [] ''disabled''
      else if kept = [] then audit_record ''exec_depth_skipped'' [] [] ''empty''
      else sx_bind (Venue.on_venue (sv_depth_start sv kept)) (\<lambda>_. audit_record ''exec_depth_ready'' [] [] []))"

definition uses_tape :: "shadow_settings \<Rightarrow> order_intent list \<Rightarrow> bool" where
  "uses_tape ss kept \<longleftrightarrow> ss_mode ss = PAPER \<and> ss_paper_fill_model ss = ''tape_through'' \<and> kept \<noteq> []"

definition start_tape :: "shadow_settings \<Rightarrow> 'v shadow_env \<Rightarrow> order_intent list \<Rightarrow> ('v world, unit) sx" where
  "start_tape ss sv kept = sx_when (uses_tape ss kept)
     (sx_bind (Venue.on_venue (sv_tape_start sv (sorted_set (map oi_symbol kept)))) (\<lambda>_. audit_record ''paper_tape_ready'' [] [] []))"

text \<open>The environment of the executor in this cycle.\<close>

definition cycle_exec_env :: "shadow_settings \<Rightarrow> 'v shadow_env \<Rightarrow> passive_policy \<Rightarrow> rate_limits \<Rightarrow> order_intent list \<Rightarrow> 'v exec_env" where
  "cycle_exec_env ss sv policy limits kept = (sv_exec sv)
     \<lparr>ev_codec := ss_codec ss, ev_client := order_client sv,
      ev_new_order := (if sv_null_client sv then \<lambda>_ v. (Inr (if ss_mode ss = PAPER then PaperResponse else ShadowResponse), v) else ev_new_order (sv_exec sv)),
      ev_policy := policy, ev_rate_limits := Some limits, ev_tape := (if uses_tape ss kept then ev_tape (sv_exec sv) else None)\<rparr>"

definition attempt_request_of :: "shadow_settings \<Rightarrow> prepared \<Rightarrow> timestamp \<Rightarrow> timestamp \<Rightarrow> attempt_request" where
  "attempt_request_of ss p decision_time now =
     \<lparr>ar_decision_time = Aware decision_time, ar_run_id = cs_day (ss_cycle ss) decision_time, ar_mode = mode_value (ss_mode ss),
      ar_pre_trade_equity = sp_equity (pd_sized p), ar_sizing_anchor = ''decision_ohlcv_close'',
      ar_decision_marks = fold (\<lambda>i d. case map_of (mv_decision_marks (pd_market p)) (oi_symbol i) of None \<Rightarrow> d | Some m \<Rightarrow> AList.update (oi_symbol i) m d) (pd_kept p) [],
      ar_started_at = Aware now\<rparr>"

definition run_intents ::
    "shadow_settings \<Rightarrow> 'v exec_env \<Rightarrow> prepared \<Rightarrow> journal_attempt \<Rightarrow> ('v cycle_world, execution_outcome list res \<times> execution_outcome list) sx" where
  "run_intents ss env p att w =
     (case execute_intents env (if ss_mode ss = PAPER then Some (ss_paper_fill_model ss) else None) (pd_kept p) (vv_filters (pd_venue p))
             (Some (ja_attempt_seq att)) (Some (cs_order_identity_tolerance_ms (ss_cycle ss))) (Some (ss_cleanup_budget_s ss)) (cw_world w) of
        (r, sink, w') \<Rightarrow> (Inr (r, sink), w\<lparr>cw_world := w'\<rparr>))"

section \<open>Alerts and commits\<close>

definition rejected_symbols :: "execution_outcome list \<Rightarrow> int \<Rightarrow> string list" where
  "rejected_symbols outcomes code = sorted_set (map eo_symbol (filter (\<lambda>x. eo_status x = ''REJECTED'' \<and> eo_reject_code x = Some code) outcomes))"

definition alert_reject_cluster :: "shadow_settings \<Rightarrow> execution_outcome list \<Rightarrow> ('v cycle_world, unit) sx" where
  "alert_reject_cluster ss outcomes =
     sx_foldM (\<lambda>code _. sx_when (ss_reject_cluster_alert_min_symbols ss \<le> int (length (rejected_symbols outcomes code)))
        (sx_bind (cw_audit ''intent_reject_cluster'' [] [] (str_int code)) (\<lambda>_. notify_event ''intent_reject_cluster'' (''code='' @ str_int code))))
       (sorted_set (List.map_filter eo_reject_code (filter (\<lambda>x. eo_status x = ''REJECTED'') outcomes))) ()"

definition flip_blocked :: "execution_outcome \<Rightarrow> bool" where
  "flip_blocked x \<longleftrightarrow> eo_status x = ''RESIDUAL'' \<and> eo_block_reason x = Some ''blocked_by_close_leg''"

definition alert_flip_blocked :: "execution_outcome list \<Rightarrow> ('v cycle_world, unit) sx" where
  "alert_flip_blocked outcomes =
     sx_bind (sx_foldM (\<lambda>x alerted.
        if eo_symbol x \<in> set alerted \<or> \<not> flip_blocked x then sx_return alerted
        else sx_bind (cw_audit ''flip_open_blocked_alert'' (eo_symbol x) [] []) (\<lambda>_.
             sx_bind (notify_event ''flip_open_blocked'' (''symbol='' @ eo_symbol x)) (\<lambda>_. sx_return (eo_symbol x # alerted)))) outcomes []) (\<lambda>_. sx_return ())"

definition alert_outcomes :: "shadow_settings \<Rightarrow> execution_outcome list \<Rightarrow> ('v cycle_world, unit) sx" where
  "alert_outcomes ss outcomes = sx_bind (alert_reject_cluster ss outcomes) (\<lambda>_. alert_flip_blocked outcomes)"

definition commit_on_abort ::
    "shadow_settings \<Rightarrow> 'v shadow_env \<Rightarrow> journal_attempt \<Rightarrow> decimal \<Rightarrow> string \<Rightarrow> ledger_state \<Rightarrow> ('v cycle_world, unit) sx" where
  "commit_on_abort ss sv att equity stage state =
     sx_catch (sx_bind (commit_cycle (ss_cycle ss) (order_client sv) (sv_abort_faults sv) (plain_commit att (Some equity)) state) (\<lambda>_. sx_return ()))
       (\<lambda>e. if ordinary e then cw_audit ''commit_failed'' [] [] stage else sx_raise e)"

definition commit_args_of :: "prepared \<Rightarrow> journal_attempt \<Rightarrow> timestamp \<Rightarrow> commit_args" where
  "commit_args_of p att decision_time =
     \<lparr>ca_fallback = att, ca_equity = Some (sp_equity (pd_sized p)), ca_executed = (if degraded p then None else Some decision_time),
      ca_funding = px_funding_records (pd_paper p), ca_settlement = px_settlement_records (pd_paper p), ca_cash_before = px_cash_before (pd_paper p)\<rparr>"

text \<open>What an exception of the execution or of the commit leads to: \<open>Inl\<close> the outcomes of an
  interrupted run.\<close>

definition abort_execution ::
    "shadow_settings \<Rightarrow> 'v shadow_env \<Rightarrow> prepared \<Rightarrow> journal_attempt \<Rightarrow> execution_outcome list \<Rightarrow> exc
     \<Rightarrow> ('v cycle_world, execution_outcome list + execution_outcome list) sx" where
  "abort_execution ss sv p att sink e =
     (let commit = (\<lambda>stage. commit_on_abort ss sv att (sp_equity (pd_sized p)) stage (px_ledger_state (pd_paper p)));
          alert = sx_when (sink \<noteq> []) (alert_outcomes ss sink)
      in if e = NoReturn then sx_raise e
         else if e = ExecutionInterrupted
         then sx_bind (commit ''interrupted'') (\<lambda>_. sx_bind alert (\<lambda>_. sx_bind (cw_audit ''cycle_interrupted'' [] [] ''shutdown_requested'') (\<lambda>_. sx_return (Inl sink))))
         else if live_error e then sx_bind (commit ''halt'') (\<lambda>_. sx_bind alert (\<lambda>_. sx_raise e))
         else sx_bind (commit ''abort'') (\<lambda>_. sx_raise e))"

definition attempt_execution ::
    "shadow_settings \<Rightarrow> 'v shadow_env \<Rightarrow> 'v exec_env \<Rightarrow> prepared \<Rightarrow> timestamp \<Rightarrow> journal_attempt
     \<Rightarrow> ('v cycle_world, execution_outcome list + execution_outcome list) sx" where
  "attempt_execution ss sv env p decision_time att =
     sx_bind (run_intents ss env p att) (\<lambda>(r, sink).
       sx_catch (sx_bind (sx_lift r) (\<lambda>outcomes.
                 sx_bind (alert_outcomes ss outcomes) (\<lambda>_.
                 sx_bind (commit_cycle (ss_cycle ss) (order_client sv) (sv_commit_faults sv) (commit_args_of p att decision_time) (px_ledger_state (pd_paper p))) (\<lambda>_.
                   sx_return (Inr outcomes)))))
         (abort_execution ss sv p att sink))"

definition execute_plan ::
    "shadow_settings \<Rightarrow> 'v shadow_env \<Rightarrow> timestamp \<Rightarrow> timestamp \<Rightarrow> prepared \<Rightarrow> ('v cycle_world, execution_outcome list + execution_outcome list) sx" where
  "execute_plan ss sv decision_time now p =
     sx_bind (on_world (start_depth ss sv (pd_kept p))) (\<lambda>_.
     sx_bind (sx_foldM (\<lambda>(s, reason) _. cw_audit ''position_uncovered'' s [] reason)
        (uncovered_positions (effective_positions (ss_suppressed ss) (vv_snapshot (pd_venue p)) (ls_positions (px_ledger_state (pd_paper p))))
           (sp_targets (pd_sized p)) (vv_filters (pd_venue p)) (mv_marks (pd_market p)) (pd_kept p)) ()) (\<lambda>_.
     sx_bind (sx_lift (select_policy ss)) (\<lambda>policy.
     sx_bind (cw_audit ''execution_policy_selected'' [] [] (ss_execution_policy ss)) (\<lambda>_.
     sx_bind (on_world (start_tape ss sv (pd_kept p))) (\<lambda>_.
     sx_bind (on_world (on_journal (order_client sv) (\<lambda>clock. begin_attempt (ss_codec ss) clock (attempt_request_of ss p decision_time now)))) (\<lambda>att.
       attempt_execution ss sv (cycle_exec_env ss sv policy (vv_limits (pd_venue p)) (pd_kept p)) p decision_time att))))))"

section \<open>The cycle\<close>

text \<open>The evidence of a decision that has been executed before is flushed, whatever happens.\<close>

definition flush_already_executed :: "shadow_settings \<Rightarrow> 'v shadow_env \<Rightarrow> timestamp \<Rightarrow> timestamp \<Rightarrow> ('v cycle_world, unit) sx" where
  "flush_already_executed ss sv decision_time now =
     sx_catch (sx_bind open_cycle_journal (\<lambda>_.
               sx_bind (load_state ss) (\<lambda>state.
                 if ls_recorded state < ls_applied state
                 then sx_bind (commit_cycle (ss_cycle ss) (order_client sv) (sv_flush_faults sv)
                        (plain_commit (cycle_fallback_attempt (ss_cycle ss) decision_time now) None) state) (\<lambda>_. sx_return ())
                 else sx_return ())))
       (\<lambda>e. if ordinary e then sx_return () else sx_raise e)"

definition on_tax_world :: "('v tax_world, 'a) sx \<Rightarrow> ('v shadow_world, 'a) sx" where
  "on_tax_world m s =
     (case m \<lparr>wd_venue = Venue.wd_venue (cw_world (sw_cycle s)), wd_dir = es_tax (cw_store (sw_cycle s)), wd_watermark = sw_watermark s\<rparr> of
        (r, t) \<Rightarrow> (r, s\<lparr>sw_cycle := (sw_cycle s)\<lparr>cw_world := world.wd_venue_update (\<lambda>_. tax_world.wd_venue t) (cw_world (sw_cycle s)),
             cw_store := (cw_store (sw_cycle s))\<lparr>es_tax := wd_dir t\<rparr>\<rparr>, sw_watermark := wd_watermark t\<rparr>))"

definition report_tax_issue :: "tax_issue \<Rightarrow> ('v cycle_world, unit) sx" where
  "report_tax_issue x =
     sx_bind (cw_audit ''tax_collect_issue'' [] (ti_stream x) (ti_stage x)) (\<lambda>_.
       if ti_stage x = ''retention_gap'' then notify_event ''tax_income_gap'' []
       else if ti_stage x = ''genesis_not_flat'' then notify_event ''tax_genesis_not_flat'' []
       else sx_return ())"

definition collect_live_tax ::
    "shadow_settings \<Rightarrow> 'v shadow_env \<Rightarrow> string list \<Rightarrow> account_snapshot \<Rightarrow> timestamp \<Rightarrow> ('v shadow_world, unit) sx" where
  "collect_live_tax ss sv symbols account now =
     (if ss_suppressed ss then sx_return ()
      else if \<not> ss_tax_collection_enabled ss then on_cycle (cw_audit ''tax_collection_disabled'' [] [] (mode_value (ss_mode ss)))
      else sx_catch (sx_bind (on_tax_world (collect_and_persist_live_tax (sv_tax_client sv)
                 ((sv_collection sv)\<lparr>cp_codec := ss_codec ss, cp_mode := mode_value (ss_mode ss), cp_now := now\<rparr>)
                 (ro_fixed (cs_record (ss_cycle ss))) (ro_month (cs_record (ss_cycle ss))) (ss_tax_max_pages ss) symbols
                 (Some \<lparr>vs_taken_at = as_taken_at account, vs_positions = as_positions account\<rparr>)))
               (\<lambda>(_, issues). on_cycle (sx_foldM (\<lambda>x _. report_tax_issue x) issues ())))
             (\<lambda>e. if e = DataIntegrityError
                  then on_cycle (sx_bind (cw_audit ''tax_watermark_invalid'' [] [] []) (\<lambda>_. notify_event ''tax_ledger_corrupt'' []))
                  else if ordinary e then on_cycle (cw_audit ''tax_ledger_write_failed'' [] [] []) else sx_raise e))"

fun join_comma :: "string list \<Rightarrow> string" where
  "join_comma [] = []"
| "join_comma [x] = x"
| "join_comma (x # xs) = x @ '','' @ join_comma xs"

definition UNRESOLVED_ORDERS_REASON :: string where "UNRESOLVED_ORDERS_REASON = ''unresolved_own_orders''"

definition report_reasons :: "prepared \<Rightarrow> string list" where
  "report_reasons p = sorted_set (rs_reasons (pd_restricted p) @ (if pt_frozen_symbols (pd_reconciliation p) \<noteq> [] then [UNRESOLVED_ORDERS_REASON] else []))"

definition cycle_report_of :: "prepared \<Rightarrow> timestamp \<Rightarrow> execution_outcome list \<Rightarrow> shadow_report" where
  "cycle_report_of p decision_time outcomes =
     \<lparr>rp_status = (if degraded p then ''DEGRADED'' else ''COMPLETE''),
      rp_reason = (if degraded p then Some (join_comma (report_reasons p)) else None), rp_decision_time = decision_time,
      rp_intent_count = length outcomes, rp_outcomes = outcomes, rp_dropped_fraction = sp_dropped_fraction (pd_sized p), rp_intents = pd_kept p\<rparr>"

definition short_report :: "string \<Rightarrow> string option \<Rightarrow> timestamp \<Rightarrow> shadow_report" where
  "short_report status reason decision_time =
     \<lparr>rp_status = status, rp_reason = reason, rp_decision_time = decision_time, rp_intent_count = 0, rp_outcomes = [], rp_dropped_fraction = 0, rp_intents = []\<rparr>"

definition finish_cycle ::
    "shadow_settings \<Rightarrow> 'v shadow_env \<Rightarrow> timestamp \<Rightarrow> timestamp \<Rightarrow> prepared \<Rightarrow> execution_outcome list \<Rightarrow> ('v shadow_world, shadow_report) sx" where
  "finish_cycle ss sv decision_time now p outcomes =
     sx_bind (sx_when (ss_exec_depth_capture_enabled ss \<and> ss_mode ss \<noteq> LIVE_TESTNET \<and> pd_kept p \<noteq> [])
        (on_cycle (sx_bind (on_world (Venue.on_venue (sv_depth_stop sv))) (\<lambda>_. cw_audit ''exec_depth_capture'' [] [] [])))) (\<lambda>_.
     sx_bind (collect_live_tax ss sv (mv_wanted (pd_market p)) (vv_snapshot (pd_venue p)) now) (\<lambda>_.
       if degraded p
       then sx_bind (on_cycle (load_state ss)) (\<lambda>_.
            sx_bind (on_cycle (cw_audit ''cycle_degraded'' [] [] (join_comma (report_reasons p)))) (\<lambda>_.
            sx_bind (sx_when (rs_reasons (pd_restricted p) \<noteq> []) (on_cycle (notify_event ''cycle_degraded'' []))) (\<lambda>_.
              sx_return (cycle_report_of p decision_time outcomes))))
       else sx_bind (on_manifest (ensure_run_manifest (sv_manifest sv))) (\<lambda>_.
            sx_bind (on_cycle (cw_audit ''cycle_complete'' [] [] [])) (\<lambda>_.
              sx_return (cycle_report_of p decision_time outcomes)))))"

definition trade_decision ::
    "shadow_settings \<Rightarrow> 'v shadow_env \<Rightarrow> timestamp \<Rightarrow> timestamp \<Rightarrow> ('v shadow_world, shadow_report) sx" where
  "trade_decision ss sv decision_time now =
     sx_bind (sx_lift (gate_signal ss (sv_weights sv) decision_time now)) (\<lambda>(effective_dt, weights).
     sx_bind (on_cycle (prepare_cycle ss sv decision_time now effective_dt weights)) (\<lambda>p.
     sx_bind (on_cycle (execute_plan ss sv decision_time now p)) (\<lambda>result. case result of
         Inl partial \<Rightarrow> sx_return ((short_report ''INTERRUPTED'' (Some ''shutdown_requested'') decision_time)
           \<lparr>rp_intent_count := length partial, rp_outcomes := partial, rp_dropped_fraction := sp_dropped_fraction (pd_sized p)\<rparr>)
       | Inr outcomes \<Rightarrow> finish_cycle ss sv decision_time now p outcomes)))"

definition already_executed :: "timestamp \<Rightarrow> ledger_state \<Rightarrow> bool" where
  "already_executed decision_time state = (case ls_last_executed_decision_time state of None \<Rightarrow> False | Some t \<Rightarrow> decision_time \<le> t)"

definition run_shadow_cycle ::
    "shadow_settings \<Rightarrow> 'v shadow_env \<Rightarrow> timestamp \<Rightarrow> timestamp \<Rightarrow> ('v shadow_world, shadow_report) sx" where
  "run_shadow_cycle ss sv decision_time now =
     sx_catch (sx_bind (on_manifest (assert_run_manifest_compatible (sv_manifest sv))) (\<lambda>_.
               sx_bind (on_cycle (load_state ss)) (\<lambda>state.
                 if already_executed decision_time state
                 then sx_bind (on_cycle (flush_already_executed ss sv decision_time now)) (\<lambda>_.
                        sx_return (short_report ''COMPLETE'' (Some ''already_executed'') decision_time))
                 else trade_decision ss sv decision_time now)))
       (\<lambda>e. if halting e then sx_return (short_report ''HALT'' (Some []) decision_time) else sx_raise e)"

end
