(* ===== verification/Cycle_Laws.thy ===== *)
theory Cycle_Laws
  imports Cycle
begin

text \<open>
  The lemmas on one cycle of the live runner, phase by phase: a ledger that was saved is read back as
  saved; the preparation ends with every journalled fill booked on disk; every order that the execution
  writes to the journal belongs to the restricted plan; whatever a commit does or fails to do leaves a readable ledger;
  and the report of a cycle agrees with the ledger it leaves.
\<close>

section \<open>Steps that leave the journal alone\<close>

abbreviation calm :: "('v world, 'a) sx \<Rightarrow> bool" where "calm m \<equiv> \<forall>j. sx_inv (\<lambda>w. wd_journal w = j) m"

lemma calm_venue: "sx_inv (\<lambda>w. wd_journal w = j) (Venue.on_venue m)" "sx_inv (\<lambda>w. wd_journal w = j) (audit_record e s k st)"
  by (auto simp: on_venue_run audit_record_def intro!: sx_inv_snd sx_inv_modify)

lemma calm_if: "sx_inv I m \<Longrightarrow> sx_inv I n \<Longrightarrow> sx_inv I (if b then m else n)"
  by simp

lemma calm_prod: "(\<And>a b. sx_inv I (f a b)) \<Longrightarrow> sx_inv I (case x of (a, b) \<Rightarrow> f a b)"
  by (cases x) simp

lemma calm_prod_fun: "(\<And>a b. sx_inv I (f a b y)) \<Longrightarrow> sx_inv I ((case x of (a, b) \<Rightarrow> f a b) y)"
  by (cases x) simp

lemmas quiet_rules = sx_inv_rules calm_venue calm_if calm_prod

lemma calm_flag: "sx_inv (\<lambda>w. wd_journal w = j) (flag_of req account key path)"
  unfolding flag_of_def fetch_flag_def by (cases "obj_get account key") (auto intro!: quiet_rules split: json.splits option.splits)

lemma calm_snapshot: "sx_inv (\<lambda>w. wd_journal w = j) (fetch_account_snapshot c req now)"
  unfolding fetch_account_snapshot_def by (intro quiet_rules calm_flag)

lemma calm_view_venue: "calm (view_venue ss sv now)"
  unfolding view_venue_def by (intro allI quiet_rules calm_snapshot)

lemma calm_view_market: "calm (view_market ss mk closes d weights positions)"
  unfolding view_market_def marks_from_tickers_def Let_def by (intro allI quiet_rules)

lemma calm_size_and_plan: "calm (size_and_plan ss account filters weights view state run_id)"
  unfolding size_and_plan_def audit_sizing_mark_fallbacks_def audit_risk_blocked_def Let_def by (intro allI quiet_rules calm_prod_fun)

lemma calm_post: "sx_inv (\<lambda>w. wd_journal w = j) (post_change req blocked path params)"
  by (rule sx_inv_snd) (auto simp: post_change_def on_venue_run split: prod.splits sum.splits exc.splits option.splits)

lemma calm_cap_intent: "sx_inv (\<lambda>w. wd_journal w = j) (cap_intent brackets leverages i kept)"
  unfolding cap_intent_def by (auto split: option.splits intro!: quiet_rules)

lemma calm_cap_leverage: "calm (cap_leverage ss req kept)"
  unfolding cap_leverage_def ensure_venue_leverage_def reject_intents_over_notional_cap_def by (intro allI quiet_rules calm_post calm_cap_intent)

lemma calm_start: "calm (start_depth ss sv kept)" "calm (start_tape ss sv kept)"
  unfolding start_depth_def start_tape_def by (intro allI quiet_rules)+

lemma calm_journal: "calm m \<Longrightarrow> wd_journal (snd (m w)) = wd_journal w"
  using sx_triple_snd [where P = "\<lambda>u. wd_journal u = wd_journal w" and Q = "\<lambda>u. wd_journal u = wd_journal w" and s = w] by blast

lemma calm_sound: "calm m \<Longrightarrow> sx_inv (sound c n) m"
  by (rule sx_inv_snd) (simp add: sound_def calm_journal)

lemma calm_rested: "calm m \<Longrightarrow> sx_triple (rested c t l) (on_world m) (\<lambda>_. rested c t l) (\<lambda>_. unmoved c t)"
  by (rule rested_world [OF calm_sound]) (simp_all add: calm_journal)

section \<open>A ledger read from disk\<close>

lemma watermark_field_least: "key_field (parse_watermark c) raw k (- 1) = Inr n \<Longrightarrow> - 1 \<le> n"
  by (auto simp: key_field_def parse_watermark_def split: option.splits json.splits sum.splits if_splits)

lemma loaded_ok:
  assumes "load_ledger c f = Inr l" shows "ledger_ok l"
proof -
  have "ledger_ok l" if "load_document c raw = Inr l" for raw
    using that watermark_field_least [of c raw]
    by (auto simp: load_document_def rbind_eq_Inr guard_res_def empty_ledger_def ledger_ok_def split: option.splits if_splits)
  then show ?thesis using assms by (auto simp: load_ledger_def empty_ledger_def ledger_ok_def split: ledger_file.splits json.splits)
qed

lemma norm_snapshot_idem: "norm_snapshot (norm_snapshot h) = norm_snapshot h"
  by (simp add: norm_snapshot_def sort_key_id_if_sorted)

lemma ledger_norm_idem: "ledger_norm (ledger_norm s) = ledger_norm s"
proof -
  have "map norm_snapshot (sort_key ps_effective_from (map norm_snapshot h)) = sort_key ps_effective_from (map norm_snapshot h)" for h
    by (rule map_idI) (auto simp: norm_snapshot_idem)
  then show ?thesis by (simp add: ledger_norm_def sort_key_id_if_sorted filter_sort)
qed

lemma reload:
  assumes "saved c s f" obtains l where "load_ledger c f = Inr l" "saved c l f" "ls_applied l = ls_applied s"
    "ls_last_executed_decision_time l = ls_last_executed_decision_time s"
proof -
  obtain k where k: "load_ledger c f = Inr (ledger_norm (s\<lparr>ls_recorded := k\<rparr>))" using assms by (auto simp: saved_def)
  define l where "l = ledger_norm (s\<lparr>ls_recorded := k\<rparr>)"
  have "l\<lparr>ls_recorded := ls_recorded l\<rparr> = l" by simp
  moreover have "ledger_norm l = l" by (simp add: l_def ledger_norm_idem)
  ultimately have "saved c l f" unfolding saved_def using k loaded_ok [OF k] l_def by metis
  then show ?thesis using that k by (simp add: l_def ledger_norm_def)
qed

section \<open>Preparation\<close>

text \<open>Before a cycle: a journal file that loads, and a ledger file with the stamp \<open>t\<close>.\<close>

definition ready :: "text_codec \<Rightarrow> timestamp option \<Rightarrow> 'v cycle_world \<Rightarrow> bool" where
  "ready c t w \<longleftrightarrow> wal_ok c (open_journal (wal_file (wd_journal (cw_world w)))) \<and> unmoved c t w"

lemma ready_calm:
  assumes "calm m" shows "sx_triple (ready c t) (on_world m) (\<lambda>_. ready c t) (\<lambda>_. unmoved c t)"
  using calm_journal [OF assms] by (auto simp: sx_triple_def on_world_run ready_def unmoved_def split: sum.split)

lemma unmovedI: "saved c l (ledger_of w) \<Longrightarrow> unmoved c (ls_last_executed_decision_time l) w"
  by (auto simp: unmoved_def)

lemma load_state_run:
  assumes "unmoved (ss_codec ss) t w"
  obtains l where "load_state ss w = (Inr l, w)" "saved (ss_codec ss) l (ledger_of w)" "ls_last_executed_decision_time l = t"
proof -
  obtain s where s: "saved (ss_codec ss) s (ledger_of w)" "ls_last_executed_decision_time s = t" using assms by (auto simp: unmoved_def)
  from reload [OF s(1)] obtain l where "load_ledger (ss_codec ss) (ledger_of w) = Inr l" "saved (ss_codec ss) l (ledger_of w)"
    "ls_last_executed_decision_time l = t" using s(2) by metis
  then show ?thesis using that by (simp add: load_state_def sx_bind_def sx_gets_def sx_lift_def)
qed

lemma load_state_triple:
  "sx_triple (ready (ss_codec ss) t) (load_state ss)
     (\<lambda>l w. ready (ss_codec ss) t w \<and> saved (ss_codec ss) l (ledger_of w) \<and> ls_last_executed_decision_time l = t) E"
  by (rule sx_tripleI) (auto simp: ready_def elim!: load_state_run intro: unmovedI)

lemma open_journal_triple:
  "sx_triple (\<lambda>w. ready c t w \<and> saved c l (ledger_of w) \<and> ls_last_executed_decision_time l = t) open_cycle_journal (\<lambda>_. at_start c t l) E"
  unfolding open_cycle_journal_def by (rule sx_triple_modify) (simp add: ready_def at_start_def)

lemma paper_postings_triple:
  assumes "codec_ok (ss_codec ss)"
  shows "sx_triple (rested (ss_codec ss) t l) (paper_postings ss sv info now l) (\<lambda>p. rested (ss_codec ss) t (px_ledger_state p)) (\<lambda>_. unmoved (ss_codec ss) t)"
  unfolding paper_postings_def by (rule sx_triple_if [OF settle_paper_triple [OF assms]], rule sx_triple_return) simp

lemma restrict_plan_triple:
  "sx_triple (rested c t l) (restrict_plan ss req account pt intents) (\<lambda>_. rested c t l) (\<lambda>_. unmoved c t)"
  unfolding restrict_plan_def Let_def
  by (rule rested_lift_seq, rule rested_seq [OF freeze_rested], rule sx_triple_prod, rule rested_seq [OF calm_rested [OF calm_cap_leverage]],
      rule sx_triple_if [OF rested_return], rule rested_seq [OF rested_fold rested_return], unfold case_prod_beta, rule rested_audit)

lemma prepare_triple:
  assumes c: "codec_ok (ss_codec ss)"
  shows "sx_triple (ready (ss_codec ss) t) (prepare_cycle ss sv d now e weights)
     (\<lambda>p. rested (ss_codec ss) t (px_ledger_state (pd_paper p))) (\<lambda>_. unmoved (ss_codec ss) t)"
  unfolding prepare_cycle_def
  by (rule sx_triple_seq [OF ready_calm [OF calm_view_venue]], rule sx_triple_bind [OF load_state_triple], rule sx_triple_seq [OF open_journal_triple],
      rule sx_triple_bind [OF pre_trade_triple [OF c]], rule rested_seq [OF calm_rested [OF calm_view_market]],
      rule sx_triple_bind [OF paper_postings_triple [OF c]], rule rested_seq [OF calm_rested [OF calm_size_and_plan]],
      rule rested_seq [OF restrict_plan_triple], rule sx_triple_return) simp

section \<open>Every submission belongs to the plan\<close>

definition in_plan :: "text_codec \<Rightarrow> int \<Rightarrow> journal_submit list \<Rightarrow> order_intent set \<Rightarrow> 'v cycle_world \<Rightarrow> bool" where
  "in_plan c n base S w \<longleftrightarrow> sound c n (cw_world w) \<and> in_scope base S (cw_world w)"

lemma in_plan_world:
  assumes "\<And>u. sound c n u \<Longrightarrow> sound c n (snd (m u)) \<and> submits_of (snd (m u)) = submits_of u"
  shows "sx_inv (in_plan c n base S) (on_world m)"
  by (rule sx_inv_snd) (use assms in \<open>auto simp: in_plan_def on_world_run in_scope_def\<close>)

lemma in_plan_calm: "calm m \<Longrightarrow> sx_inv (in_plan c n base S) (on_world m)"
  by (rule in_plan_world) (simp add: sound_def calm_journal)

lemma in_plan_audit: "sx_inv (in_plan c n base S) (cw_audit e s k st)"
  unfolding cw_audit_def by (rule in_plan_calm) (simp add: calm_venue)

lemma in_plan_alert: "sx_inv (in_plan c n base S) (notify_event e y)"
  unfolding notify_event_def by (rule sx_inv_modify) (simp add: in_plan_def)

lemma in_plan_store: "sx_inv (in_plan c n base S) (on_store m)"
  by (rule sx_inv_snd) (simp add: in_plan_def on_store_run)

lemma attempt_synced:
  assumes c: "codec_ok c" and j: "synced c j"
  shows "oj_fills (wal_mem (snd (begin_attempt c now r j))) = oj_fills (wal_mem j) \<and> oj_submits (wal_mem (snd (begin_attempt c now r j))) = oj_submits (wal_mem j)
     \<and> oj_next_fill_seq (wal_mem (snd (begin_attempt c now r j))) = oj_next_fill_seq (wal_mem j)"
proof -
  have fresh: "oj_next_attempt_seq k \<le> ja_attempt_seq a" if "check_attempt r k = Inr a" for k a
    using check_attempt_seq [OF that] by simp
  note op = attempt_entry.op_synced [OF c synced_ensure_loaded [OF j] j, of "check_attempt r" now, folded begin_attempt_def, OF fresh]
  obtain res j' where run: "begin_attempt c now r j = (res, j')" by fastforce
  show ?thesis
  proof (cases res)
    case (Inl e)
    with op run show ?thesis by simp
  next
    case (Inr a)
    with op run have "journal_view (wal_mem j') = journal_view (add_attempt a ((wal_mem j)\<lparr>oj_has_schema := True\<rparr>))" by simp
    from journal_view_fields [OF this] run show ?thesis by (simp add: add_attempt_def put_attempt_def)
  qed
qed

lemma sound_attempt:
  assumes c: "codec_ok c" and w: "sound c n (w :: 'v world)"
  shows "sound c n (snd (on_journal vc (\<lambda>clock. begin_attempt c clock r) w)) \<and> submits_of (snd (on_journal vc (\<lambda>clock. begin_attempt c clock r) w)) = submits_of w"
proof -
  let ?now = "vc_now vc (Venue.wd_venue w)"
  have j: "synced c (wd_journal w)" using w by (simp add: sound_def)
  have "run_op c ?now (BeginAttempt r) (wd_journal w) = snd (begin_attempt c ?now r (wd_journal w))" by (simp add: run_op_def)
  then show ?thesis using sound_step [OF c w, of ?now "BeginAttempt r"] attempt_synced [OF c j, of ?now r] by (simp add: on_journal_run)
qed

lemmas in_plan_rules = sx_inv_rules calm_if calm_prod calm_prod_fun in_plan_audit in_plan_alert in_plan_store in_plan_calm

lemma in_plan_commit: "sx_inv (in_plan (cs_codec st) n base S) (commit_cycle st vc faults args l)"
  unfolding commit_cycle_def
  by (intro in_plan_rules in_plan_world) (auto simp: on_journal_run query_synced sound_def)

lemma in_plan_alerts: "sx_inv (in_plan c n base S) (alert_outcomes ss outcomes)"
  unfolding alert_outcomes_def alert_reject_cluster_def alert_flip_blocked_def by (intro in_plan_rules)

lemma in_plan_abort: "sx_inv (in_plan (ss_codec ss) n base S) (abort_execution ss sv p att sink e)"
  unfolding abort_execution_def commit_on_abort_def Let_def by (intro in_plan_rules in_plan_commit in_plan_alerts)

lemma in_plan_run:
  assumes "codec_ok (ss_codec ss)" "ev_codec env = ss_codec ss"
  shows "sx_inv (in_plan (ss_codec ss) n base (set (pd_kept p))) (run_intents ss env p att)"
proof (rule sx_inv_snd)
  fix w assume w: "in_plan (ss_codec ss) n base (set (pd_kept p)) (w :: 'a cycle_world)"
  obtain r sink w' where run: "execute_intents env (if ss_mode ss = PAPER then Some (ss_paper_fill_model ss) else None) (pd_kept p) (vv_filters (pd_venue p))
      (Some (ja_attempt_seq att)) (Some (cs_order_identity_tolerance_ms (ss_cycle ss))) (Some (ss_cleanup_budget_s ss)) (cw_world w) = (r, sink, w')"
    by (metis prod_cases3)
  have "sound (ss_codec ss) n w' \<and> in_scope (submits_of (cw_world w)) (set (pd_kept p)) w'"
    using execution_scoped [of env n "cw_world w"] assms w run by (simp add: in_plan_def)
  moreover from this w have "in_scope base (set (pd_kept p)) w'" by (force simp: in_plan_def in_scope_def)
  ultimately show "in_plan (ss_codec ss) n base (set (pd_kept p)) (snd (run_intents ss env p att w))" by (simp add: run_intents_def run in_plan_def)
qed

lemma in_plan_attempt:
  "codec_ok c \<Longrightarrow> sx_inv (in_plan c n base S) (on_world (on_journal vc (\<lambda>clock. begin_attempt c clock r)))"
  by (rule in_plan_world) (rule sound_attempt)

lemma in_plan_execute:
  assumes c: "codec_ok (ss_codec ss)"
  shows "sx_inv (in_plan (ss_codec ss) n base (set (pd_kept p))) (execute_plan ss sv d now p)"
proof -
  have "sx_inv (in_plan (ss_codec ss) n base (set (pd_kept p))) (attempt_execution ss sv (cycle_exec_env ss sv policy limits kept) p d att)" for policy limits kept att
    unfolding attempt_execution_def
    by (intro in_plan_rules in_plan_alerts in_plan_commit in_plan_abort in_plan_run c) (simp add: cycle_exec_env_def)
  then show ?thesis unfolding execute_plan_def
    by (intro in_plan_attempt [OF c] sx_inv_bind in_plan_calm [OF calm_start(1)] in_plan_calm [OF calm_start(2)] in_plan_audit sx_inv_pure sx_inv_foldM calm_prod_fun)
qed

lemma prepared_restricted:
  assumes "prepare_cycle ss sv d now e weights w = (Inr p, u)"
  shows "\<exists>w1. restrict_plan ss (sv_request sv) (vv_snapshot (pd_venue p)) (pd_reconciliation p) (sp_intents (pd_sized p)) w1 = (Inr (pd_restricted p), u)"
  using assms unfolding prepare_cycle_def sx_bind_Inr sx_return_def by auto

text \<open>An order that the state of the account allows: not for a symbol with an unresolved order, and while
  there is a reason to reduce risk only one that closes an open position that no foreign order works on.\<close>

definition order_permitted :: "prepared \<Rightarrow> journal_submit \<Rightarrow> bool" where
  "order_permitted p m \<longleftrightarrow> js_symbol m \<notin> set (pt_frozen_symbols (pd_reconciliation p))
     \<and> (rs_reasons (pd_restricted p) = []
        \<or> js_reduce_only m = Some True \<and> js_symbol m \<notin> set (os_foreign_symbols (pt_sweep (pd_reconciliation p)))
          \<and> (let q = dict_get (as_positions (vv_snapshot (pd_venue p))) (js_symbol m) 0 in
             q \<noteq> 0 \<and> js_side m = Some (if 0 < q then ''SELL'' else ''BUY'')))"

lemma permitted_order:
  assumes "permitted (vv_snapshot (pd_venue p)) (pd_reconciliation p) (rs_reasons (pd_restricted p)) i" "covers i m"
  shows "order_permitted p m"
  using assms by (auto simp: permitted_def covers_def order_permitted_def derisk_block_reason_def Let_def split: if_splits)

section \<open>What a commit can do to the ledger file\<close>

text \<open>The ledger file holds a ledger whose stamp is one of the given ones.\<close>

definition held_file :: "text_codec \<Rightarrow> timestamp option set \<Rightarrow> ledger_file \<Rightarrow> bool" where
  "held_file c S f \<longleftrightarrow> (\<exists>l. saved c l f \<and> ls_last_executed_decision_time l \<in> S)"

abbreviation disk :: "text_codec \<Rightarrow> timestamp option set \<Rightarrow> 'v cycle_world \<Rightarrow> bool" where
  "disk c S w \<equiv> held_file c S (ledger_of w)"

lemma unmoved_disk: "unmoved c t w \<longleftrightarrow> disk c {t} w"
  by (auto simp: unmoved_def held_file_def)

lemma disk_mono: "disk c S w \<Longrightarrow> S \<subseteq> T \<Longrightarrow> disk c T w"
  by (auto simp: held_file_def)

lemma commit_fills_result:
  assumes ok: "ledger_ok base" and run: "commit_fills ro j equity executed base f = (Inr l, f')"
  shows "ledger_ok l \<and> ls_last_executed_decision_time l = stamp executed (ls_last_executed_decision_time base) \<and> (f' = f \<or> f' = Document (ledger_json (ro_codec ro) l))"
proof (cases "fills_after_mem j (ls_applied base) = []")
  case True
  then show ?thesis using run ok
    by (cases executed) (auto simp: commit_fills_def touch_ledger_def save_state_def save_ledger_def sx_defs Let_def ledger_ok_def stamp_def split: if_splits)
next
  case False
  let ?p = "pending_fills base (fills_after_mem j (ls_applied base))"
  have "set ?p = set (fills_after_mem j (ls_applied base))" by (auto simp: pending_fills_def fills_after_mem_def)
  then have ne: "?p \<noteq> []" using False by (metis set_empty)
  define opts where "opts = \<lparr>co_equity = equity, co_track_cash = suppresses_mutations (ro_mode ro),
             co_starting_capital = ro_starting_capital ro, co_executed_decision_time = executed\<rparr>"
  have cs: "committed_state opts base ?p = Inr l" "f' = Document (ledger_json (ro_codec ro) l)"
    using run False ne by (auto simp: commit_fills_def commit_cases opts_def split: sum.splits)
  have "ls_last_executed_decision_time l = stamp executed (ls_last_executed_decision_time base)"
    using cs(1) by (auto simp: committed_state_def Let_def rbind_eq_Inr opts_def stamp_def split: if_splits)
  then show ?thesis using committed_state_result(3,4) [OF cs(1) ne] ok cs(2) by (simp add: ledger_ok_def)
qed

lemma held_mark:
  assumes c: "codec_ok (ro_codec ro)" and l: "ledger_ok l" "ls_last_executed_decision_time l \<in> S" and through: "ls_recorded l \<le> through" "through \<le> ls_applied l"
  shows "sx_inv (\<lambda>s. held_file (ro_codec ro) S (es_ledger s)) (Evidence.sx_try (on_ledger (mark_recorded ro fault l through)))"
proof (rule sx_inv_snd)
  fix s :: evidence_store assume s: "held_file (ro_codec ro) S (es_ledger s)"
  obtain r f where m: "mark_recorded ro fault l through (es_ledger s) = (r, f)" by fastforce
  have "ledger_ok (l\<lparr>ls_recorded := through\<rparr>)" using l(1) through by (simp add: ledger_ok_def)
  then have "held_file (ro_codec ro) S (Document (ledger_json (ro_codec ro) (l\<lparr>ls_recorded := through\<rparr>)))"
    using saved_marked [OF c l(1)] l(2) by (auto simp: held_file_def)
  then have "held_file (ro_codec ro) S f" using mark_recorded_result [OF m] s by auto
  then show "held_file (ro_codec ro) S (es_ledger (snd (Evidence.sx_try (on_ledger (mark_recorded ro fault l through)) s)))"
    using m by (simp add: Evidence.sx_try_def on_ledger_def split: sum.split)
qed

lemma held_parts:
  "sx_inv (\<lambda>s. held_file c S (es_ledger s)) (Evidence.sx_try (on_fills m))" "sx_inv (\<lambda>s. held_file c S (es_ledger s)) (Evidence.sx_try (on_tax n))"
  by (rule try_keeps_ledger, simp add: on_part_ledger)+

lemma held_record:
  assumes c: "codec_ok (ro_codec ro)" and l: "ledger_ok l" "ls_last_executed_decision_time l \<in> S"
  shows "sx_inv (\<lambda>s. held_file (ro_codec ro) S (es_ledger s)) (record_fills ro faults j fallback fr sr cb base l)"
proof -
  define fresh where "fresh = filter (\<lambda>x. jf_fill_seq x \<le> ls_applied l) (fills_after_mem j (ls_recorded l))"
  show ?thesis
  proof (cases "fresh = []")
    case True
    then show ?thesis by (simp add: record_fills_def Let_def fresh_def sx_inv_pure)
  next
    case False
    then have "last fresh \<in> set fresh" by simp
    then have through: "ls_recorded l \<le> jf_fill_seq (last fresh)" "jf_fill_seq (last fresh) \<le> ls_applied l"
      by (auto simp: fresh_def fills_after_mem_def)
    show ?thesis unfolding record_fills_def Let_def fresh_def [symmetric] if_not_P [OF False]
      by (intro sx_inv_bind calm_if held_parts sx_inv_pure) (auto split: option.splits intro!: sx_inv_bind sx_inv_pure held_mark [OF c l through])
  qed
qed

lemma held_commit:
  assumes c: "codec_ok (ro_codec ro)" and base: "ledger_ok base" "stamp executed (ls_last_executed_decision_time base) \<in> S"
  shows "sx_inv (\<lambda>s. held_file (ro_codec ro) S (es_ledger s)) (commit_and_record ro faults j fallback equity executed fr sr cb base)"
  unfolding commit_and_record_def
proof (rule sx_triple_bind)
  let ?I = "\<lambda>s :: evidence_store. held_file (ro_codec ro) S (es_ledger s)"
  let ?R = "\<lambda>l s. ?I s \<and> ledger_ok l \<and> ls_last_executed_decision_time l \<in> S"
  show "sx_triple ?I (on_ledger (commit_fills ro j equity executed base)) ?R (\<lambda>_. ?I)" unfolding sx_triple_def
  proof (intro allI impI)
    fix s assume s: "?I s"
    obtain r f where m: "commit_fills ro j equity executed base (es_ledger s) = (r, f)" by fastforce
    show "case on_ledger (commit_fills ro j equity executed base) s of (Inl e, t) \<Rightarrow> ?I t | (Inr l, t) \<Rightarrow> ?R l t"
    proof (cases r)
      case (Inl e)
      then show ?thesis using m s commit_fills_raises by (force simp: on_ledger_def)
    next
      case (Inr l)
      note res = commit_fills_result [OF base(1) m [unfolded Inr]]
      have "held_file (ro_codec ro) S (Document (ledger_json (ro_codec ro) l))"
        unfolding held_file_def using saved_document [OF c conjunct1 [OF res]] res base(2) by metis
      then have "held_file (ro_codec ro) S f" using res s by auto
      then show ?thesis using m Inr res base(2) by (simp add: on_ledger_def)
    qed
  qed
  fix l
  show "sx_triple (?R l) (record_fills ro faults j fallback fr sr cb base l) (\<lambda>_. ?I) (\<lambda>_. ?I)"
    by (rule sx_triple_pre_fact) (auto intro: held_record [OF c])
qed

lemma disk_commit:
  assumes "codec_ok (cs_codec st)" "ledger_ok base" "stamp (ca_executed args) (ls_last_executed_decision_time base) \<in> S"
  shows "sx_inv (disk (cs_codec st) S) (commit_cycle st vc faults args base)"
proof -
  have world: "sx_inv (disk (cs_codec st) S) (on_world m)" for m :: "('v world, 'y) sx"
    by (rule sx_inv_snd) (simp add: on_world_run)
  have store: "sx_inv (disk (cs_codec st) S) (on_store m)" if "sx_inv (\<lambda>s. held_file (cs_codec st) S (es_ledger s)) m" for m :: "(evidence_store, 'y) sx"
    by (rule sx_inv_snd) (use sx_triple_snd [OF that] in \<open>simp add: on_store_run\<close>)
  show ?thesis unfolding commit_cycle_def
    by (intro sx_inv_bind world store held_commit assms) (auto intro: sx_inv_pure split: prod.splits)
qed

section \<open>The exceptions of a commit\<close>

definition commit_errors :: "exc set" where "commit_errors = {DataIntegrityError, AssertionError, ValueError}"

lemma commit_errors_ordinary: "e \<in> commit_errors \<Longrightarrow> ordinary e \<and> e \<noteq> NoReturn \<and> e \<noteq> ExecutionInterrupted \<and> \<not> live_error e"
  by (auto simp: commit_errors_def ordinary_def live_error_def)

lemma rfold_error: "rfold f xs acc = Inl e \<Longrightarrow> (\<And>x b. f x b = Inl e \<Longrightarrow> P) \<Longrightarrow> P"
  by (induction xs arbitrary: acc) (auto simp: rbind_def split: sum.splits)

lemma commit_fills_error:
  assumes "commit_fills ro j equity executed base f = (Inl e, f')" shows "e \<in> commit_errors"
proof -
  have state: "e \<in> commit_errors" if "committed_state opts base pending = Inl e" for opts pending
    using that unfolding committed_state_def Let_def append_position_snapshot_def tz_aware_def
    by (auto simp: rbind_def commit_errors_def apply_journal_fill_def Let_def split: if_splits sum.splits option.splits elim!: rfold_error)
  show ?thesis
    using assms by (auto simp: commit_fills_def commit_cases touch_ledger_def save_state_def save_ledger_def sx_defs Let_def split: if_splits sum.splits dest: state)
qed

lemma reconcile_error:
  assumes "reconcile_batch ro base l fresh batch fr sr cb = Inl e" shows "e \<in> commit_errors"
  using assms by (auto simp: reconcile_batch_def reconcile_cycle_cash_def trade_flow_def rbind_def commit_errors_def Let_def split: option.splits sum.splits if_splits elim!: rfold_error)

lemma try_never_raises: "sx_triple P (Evidence.sx_try m) (\<lambda>_ _. True) E"
  unfolding sx_triple_def Evidence.sx_try_def by (simp split: prod.split sum.split)

lemma commit_error:
  "sx_triple (\<lambda>_. True) (commit_and_record ro faults j fallback equity executed fr sr cb base) (\<lambda>_ _. True) (\<lambda>e _. e \<in> commit_errors)"
proof -
  have mark: "sx_triple (\<lambda>_. True) (sx_bind (Evidence.sx_try m) (\<lambda>x. sx_return (f x))) (\<lambda>_ _. True) (\<lambda>e _. e \<in> commit_errors)"
    for m :: "('s, 'y) sx" and f :: "'y option \<Rightarrow> 'z"
    by (rule sx_triple_bind [OF try_never_raises]) (rule sx_triple_return, simp)
  have check: "sx_triple (\<lambda>_. True) (sx_bind (sx_lift (if b then reconcile_batch ro base l fresh batch fr sr cb else Inr None)) g) (\<lambda>_ _. True) (\<lambda>e _. e \<in> commit_errors)"
    if "\<And>x. sx_triple (\<lambda>_. True) (g x) (\<lambda>_ _. True) (\<lambda>e _. e \<in> commit_errors)" for b l fresh batch and g :: "cash_reconciliation option \<Rightarrow> (evidence_store, 'z) sx"
    by (rule sx_triple_bind [where R = "\<lambda>_ _. True", OF _ that], rule sx_triple_lift) (auto split: if_splits dest: reconcile_error)
  have tax: "sx_triple (\<lambda>_. True) (if b then Evidence.sx_try m else sx_return y) (\<lambda>_ _. True) (\<lambda>e _. e \<in> commit_errors)" for b y and m :: "(evidence_store, 'y) sx"
    by (auto intro: try_never_raises sx_triple_return)
  have recorded: "sx_triple (\<lambda>_. True) (record_fills ro faults j fallback fr sr cb base l) (\<lambda>_ _. True) (\<lambda>e _. e \<in> commit_errors)" for l
    unfolding record_fills_def Let_def
    by (rule sx_triple_if, rule sx_triple_return, simp, rule sx_triple_bind [OF try_never_raises], rule sx_triple_if, rule sx_triple_return, simp,
        rule sx_triple_bind [OF tax], rule sx_triple_option, rule sx_triple_return, simp, rule check, rule mark)
  have "sx_triple (\<lambda>_. True) (on_ledger (commit_fills ro j equity executed base)) (\<lambda>_ _. True) (\<lambda>e _. e \<in> commit_errors)"
    unfolding sx_triple_def on_ledger_def by (auto split: prod.splits sum.splits dest: commit_fills_error)
  then show ?thesis unfolding commit_and_record_def by (rule sx_triple_bind) (rule recorded)
qed

text \<open>The first query of a journal that loads.\<close>

lemma query_run:
  assumes "wal_ok c (wd_journal (cw_world w))"
  obtains j where "on_world (on_journal vc (\<lambda>clock. query_journal c clock g)) w = (Inr (g (wal_mem j)), w\<lparr>cw_world := (cw_world w)\<lparr>wd_journal := j\<rparr>\<rparr>)"
    "synced c j" "seq_ok (wal_mem j)"
proof -
  define now where "now = vc_now vc (Venue.wd_venue (cw_world w))"
  obtain j where j: "ensure_loaded c now (wd_journal (cw_world w)) = (Inr (), j)" "synced c j" "seq_ok (wal_mem j)" using wal_okE [OF assms] by blast
  have "query_journal c now g (wd_journal (cw_world w)) = (Inr (g (wal_mem j)), j)" using j(1) by (simp add: query_journal_def sx_defs)
  then show ?thesis using that [of j] j(2,3) by (simp add: on_world_run on_journal_run now_def)
qed

lemma query_returns:
  "wal_ok c (wd_journal (cw_world w)) \<Longrightarrow> on_world (on_journal vc (\<lambda>clock. query_journal c clock g)) w = (Inl e, u) \<Longrightarrow> P"
  by (rule query_run [of c w vc g]) simp_all

lemma standing_wal: "standing c t l w \<Longrightarrow> wal_ok c (wd_journal (cw_world w))"
  by (auto simp: standing_def sound_def intro: synced_wal_ok)

lemma commit_cycle_error:
  "sx_triple (\<lambda>w :: 'v cycle_world. wal_ok (cs_codec st) (wd_journal (cw_world w))) (commit_cycle st vc faults args base) (\<lambda>_ _. True) (\<lambda>e _. e \<in> commit_errors)"
  unfolding commit_cycle_def
proof (rule sx_triple_bind [where R = "\<lambda>_ _. True"])
  show "sx_triple (\<lambda>w :: 'v cycle_world. wal_ok (cs_codec st) (wd_journal (cw_world w))) (on_world (on_journal vc (\<lambda>clock. query_journal (cs_codec st) clock (\<lambda>j. j))))
      (\<lambda>_ _. True) (\<lambda>e _. e \<in> commit_errors)"
    by (rule sx_tripleI) (auto dest: query_returns)
  fix j
  have "sx_triple (\<lambda>_ :: 'v cycle_world. True) (on_store m) (\<lambda>_ _. True) (\<lambda>e _. e \<in> commit_errors)"
    if "sx_triple (\<lambda>_. True) m (\<lambda>_ _. True) (\<lambda>e _. e \<in> commit_errors)" for m :: "(evidence_store, 'y) sx"
  proof (rule sx_tripleI)
    fix s :: "'v cycle_world" and e u assume "on_store m s = (Inl e, u)"
    then have "m (cw_store s) = (Inl e, snd (m (cw_store s)))" by (simp add: on_store_run prod_eq_iff)
    from sx_tripleD_Inl [OF that TrueI this] show "e \<in> commit_errors" .
  qed simp
  from this [OF commit_error]
  show "sx_triple (\<lambda>_ :: 'v cycle_world. True) (sx_bind (on_store (commit_and_record (cs_record st) faults j (ca_fallback args) (ca_equity args) (ca_executed args) (ca_funding args)
       (ca_settlement args) (ca_cash_before args) base)) (\<lambda>(l, _). sx_return l)) (\<lambda>_ _. True) (\<lambda>e _. e \<in> commit_errors)"
    by (rule sx_triple_bind [where R = "\<lambda>_ _. True"]) (auto intro!: sx_triple_return split: prod.splits)
qed

section \<open>Execution and commit\<close>

lemma alerts_standing: "sx_triple (standing c t l) (alert_outcomes ss outcomes) (\<lambda>_. standing c t l) (\<lambda>_. unmoved c t)"
proof -
  have blocked: "sx_triple (standing c t l) (if b then sx_return y else sx_bind (cw_audit e s k st) (\<lambda>_. sx_bind (notify_event e' x) (\<lambda>_. sx_return z)))
      (\<lambda>_. standing c t l) (\<lambda>_. unmoved c t)" for b y z e s k st e' x
    by (rule sx_triple_if [OF standing_return], rule sx_triple_seq [OF standing_audit], rule sx_triple_seq [OF standing_alert standing_return])
  have cluster: "sx_triple (standing c t l) (sx_when b (sx_bind (cw_audit e s k st) (\<lambda>_. notify_event e' x))) (\<lambda>_. standing c t l) (\<lambda>_. unmoved c t)" for b e s k st e' x
    by (rule sx_triple_when, rule sx_triple_seq [OF standing_audit standing_alert])
  show ?thesis unfolding alert_outcomes_def alert_reject_cluster_def alert_flip_blocked_def
    by (rule sx_triple_seq [OF standing_fold [OF cluster]], rule sx_triple_seq [OF standing_fold [OF blocked] standing_return])
qed

lemma disk_steps:
  "sx_inv (disk c S) (cw_audit e s k st)" "sx_inv (disk c S) (notify_event e y)" "sx_inv (disk c S) (alert_outcomes ss outcomes)"
proof -
  show steps: "sx_inv (disk c S) (cw_audit e s k st)" "sx_inv (disk c S) (notify_event e y)" for e s k st y
    by (simp_all add: cw_audit_def notify_event_def on_world_run sx_inv_snd sx_inv_modify)
  show "sx_inv (disk c S) (alert_outcomes ss outcomes)"
    unfolding alert_outcomes_def alert_reject_cluster_def alert_flip_blocked_def by (intro sx_inv_rules calm_if steps)
qed

lemma disk_abort:
  assumes "codec_ok (ss_codec ss)" "ledger_ok (px_ledger_state (pd_paper p))" "ls_last_executed_decision_time (px_ledger_state (pd_paper p)) \<in> S"
  shows "sx_inv (disk (ss_codec ss) S) (abort_execution ss sv p att sink e)"
  unfolding abort_execution_def commit_on_abort_def Let_def
  by (intro sx_inv_rules calm_if disk_steps disk_commit assms) (use assms in \<open>simp_all add: plain_commit_def stamp_def\<close>)

lemma run_intents_triple:
  assumes "codec_ok (ss_codec ss)" "ev_codec env = ss_codec ss"
  shows "sx_inv (standing (ss_codec ss) t l) (run_intents ss env p att)"
proof (rule sx_inv_snd)
  fix w assume w: "standing (ss_codec ss) t l (w :: 'a cycle_world)"
  then have "in_plan (ss_codec ss) (ls_applied l) (submits_of (cw_world w)) (set (pd_kept p)) w" by (simp add: standing_def in_plan_def in_scope_def)
  from sx_triple_snd [OF in_plan_run [OF assms] this] have "sound (ss_codec ss) (ls_applied l) (cw_world (snd (run_intents ss env p att w)))"
    by (simp add: in_plan_def)
  moreover have "ledger_of (snd (run_intents ss env p att w)) = ledger_of w" by (simp add: run_intents_def split: prod.split)
  ultimately show "standing (ss_codec ss) t l (snd (run_intents ss env p att w))" using w by (simp add: standing_def)
qed

text \<open>How an execution may leave the cycle: with outcomes, committed and stamped as the plan says; interrupted,
  with the old stamp; or with an exception.\<close>

definition executed :: "text_codec \<Rightarrow> prepared \<Rightarrow> timestamp \<Rightarrow> timestamp option \<Rightarrow> execution_outcome list + execution_outcome list \<Rightarrow> 'v cycle_world \<Rightarrow> bool" where
  "executed c p d t result w \<longleftrightarrow> (case result of Inl _ \<Rightarrow> disk c {t} w | Inr _ \<Rightarrow> \<exists>l. rested c (if degraded p then t else Some d) l w)"

lemma abort_triple:
  assumes c: "codec_ok (ss_codec ss)" and l: "ledger_ok (px_ledger_state (pd_paper p))" "ls_last_executed_decision_time (px_ledger_state (pd_paper p)) = t"
  shows "sx_triple (\<lambda>w. disk (ss_codec ss) {t} w \<or> e \<in> commit_errors \<and> disk (ss_codec ss) {t, Some d} w) (abort_execution ss sv p att sink e)
     (executed (ss_codec ss) p d t) (\<lambda>_. disk (ss_codec ss) {t, Some d})"
proof (rule sx_tripleI)
  fix w x w' assume w: "disk (ss_codec ss) {t} w \<or> e \<in> commit_errors \<and> disk (ss_codec ss) {t, Some d} w" and run: "abort_execution ss sv p att sink e w = (Inr x, w')"
  have "e = ExecutionInterrupted" "\<exists>y. x = Inl y" using run by (auto simp: abort_execution_def Let_def sx_bind_Inr sx_raise_def split: if_splits)
  moreover from this w have "disk (ss_codec ss) {t} w" using commit_errors_ordinary by blast
  moreover have "disk (ss_codec ss) {t} w'" by (rule sx_invD [OF disk_abort [OF c l(1)] _ run]) (use l calculation in auto)
  ultimately show "executed (ss_codec ss) p d t x w'" by (auto simp: executed_def)
next
  fix w e' w' assume w: "disk (ss_codec ss) {t} w \<or> e \<in> commit_errors \<and> disk (ss_codec ss) {t, Some d} w" and run: "abort_execution ss sv p att sink e w = (Inl e', w')"
  have "disk (ss_codec ss) {t, Some d} w" using w disk_mono by blast
  show "disk (ss_codec ss) {t, Some d} w'" by (rule sx_invD [OF disk_abort [OF c l(1)] _ run]) (use l \<open>disk (ss_codec ss) {t, Some d} w\<close> in auto)
qed

lemma attempt_triple:
  assumes c: "codec_ok (ss_codec ss)" "ev_codec env = ss_codec ss"
  shows "sx_triple (standing (ss_codec ss) t (px_ledger_state (pd_paper p)) :: 'v cycle_world \<Rightarrow> bool) (attempt_execution ss sv env p d att)
     (executed (ss_codec ss) p d t) (\<lambda>_. disk (ss_codec ss) {t, Some d})" (is "sx_triple (?P :: 'v cycle_world \<Rightarrow> bool) _ ?Q ?E")
proof (rule sx_triple_pre_ex)
  fix s0 :: "'v cycle_world" assume s0: "?P s0"
  let ?l = "px_ledger_state (pd_paper p)"
  let ?H = "\<lambda>e w :: 'v cycle_world. disk (ss_codec ss) {t} w \<or> e \<in> commit_errors \<and> disk (ss_codec ss) {t, Some d} w"
  have l: "ledger_ok ?l" "ls_last_executed_decision_time ?l = t" using s0 by (auto simp: standing_def saved_def)
  have run: "sx_triple ?P (run_intents ss env p att) (\<lambda>_. ?P) ?E"
    by (rule sx_conseq [OF run_intents_triple [OF c]]) (auto dest!: standing_unmoved simp: unmoved_disk intro: disk_mono)
  have args: "stamp (ca_executed (commit_args_of p att d)) t = (if degraded p then t else Some d)" by (simp add: commit_args_of_def stamp_def)
  have commit: "sx_triple ?P (sx_bind (commit_cycle (ss_cycle ss) (order_client sv) (sv_commit_faults sv) (commit_args_of p att d) ?l) (\<lambda>_. sx_return (Inr outcomes))) ?Q ?H" for outcomes
  proof (rule sx_triple_bind [where R = "\<lambda>l. committed_from (ss_codec ss) (stamp (ca_executed (commit_args_of p att d)) t) ?l l"])
    show "sx_triple ?P (commit_cycle (ss_cycle ss) (order_client sv) (sv_commit_faults sv) (commit_args_of p att d) ?l)
       (\<lambda>l. committed_from (ss_codec ss) (stamp (ca_executed (commit_args_of p att d)) t) ?l l) ?H"
      by (rule sx_conseq [OF sx_triple_conj [OF commit_cycle_triple [OF c(1)] commit_cycle_error]]) (auto simp: args unmoved_disk split: if_splits intro: disk_mono standing_wal)
  qed (rule sx_triple_return, auto simp: executed_def args dest!: committed_rested)
  have body: "sx_triple ?P (sx_bind (sx_lift r) (\<lambda>outcomes. sx_bind (alert_outcomes ss outcomes) (\<lambda>_.
      sx_bind (commit_cycle (ss_cycle ss) (order_client sv) (sv_commit_faults sv) (commit_args_of p att d) ?l) (\<lambda>_. sx_return (Inr outcomes))))) ?Q ?H" for r
  proof (rule sx_triple_seq [where R = ?P])
    show "sx_triple ?P (sx_lift r) (\<lambda>_. ?P) ?H" by (rule sx_conseq [OF standing_lift]) (auto simp: unmoved_disk)
    fix outcomes
    show "sx_triple ?P (sx_bind (alert_outcomes ss outcomes) (\<lambda>_. sx_bind (commit_cycle (ss_cycle ss) (order_client sv) (sv_commit_faults sv) (commit_args_of p att d) ?l) (\<lambda>_. sx_return (Inr outcomes)))) ?Q ?H"
      by (rule sx_triple_seq [OF _ commit], rule sx_conseq [OF alerts_standing]) (auto simp: unmoved_disk)
  qed
  show "sx_triple ?P (attempt_execution ss sv env p d att) ?Q ?E" unfolding attempt_execution_def
    by (rule sx_triple_seq [OF run], rule sx_triple_prod, rule sx_triple_catch [OF body abort_triple [OF c(1) l]])
qed

lemma standing_calm: "calm m \<Longrightarrow> sx_triple (standing c t l) (on_world m) (\<lambda>_. standing c t l) (\<lambda>_. unmoved c t)"
  by (rule standing_world) (rule calm_sound)

lemma cycle_execute_triple:
  assumes c: "codec_ok (ss_codec ss)"
  shows "sx_triple (rested (ss_codec ss) t (px_ledger_state (pd_paper p)) :: 'v cycle_world \<Rightarrow> bool) (execute_plan ss sv d now p)
     (executed (ss_codec ss) p d t) (\<lambda>_. disk (ss_codec ss) {t, Some d})"
proof (rule sx_pre [where P' = "standing (ss_codec ss) t (px_ledger_state (pd_paper p))"])
  let ?P = "standing (ss_codec ss) t (px_ledger_state (pd_paper p)) :: 'v cycle_world \<Rightarrow> bool"
  let ?E = "\<lambda>_ :: exc. disk (ss_codec ss) {t, Some d} :: 'v cycle_world \<Rightarrow> bool"
  have step: "sx_triple ?P (sx_bind m f) Q ?E" if "sx_triple ?P m (\<lambda>_. ?P) (\<lambda>_. unmoved (ss_codec ss) t)" "\<And>x. sx_triple ?P (f x) Q ?E"
    for m :: "('v cycle_world, 'y) sx" and f and Q :: "'z \<Rightarrow> 'v cycle_world \<Rightarrow> bool"
    by (rule sx_triple_seq [OF sx_conseq [OF that(1)] that(2)]) (auto simp: unmoved_disk intro: disk_mono)
  have opened: "sx_triple ?P (on_world (on_journal vc (\<lambda>clock. begin_attempt (ss_codec ss) clock r))) (\<lambda>_. ?P) (\<lambda>_. unmoved (ss_codec ss) t)" for vc r
    by (rule standing_world, rule sx_inv_snd) (simp add: sound_attempt [OF c])
  show "sx_triple ?P (execute_plan ss sv d now p) (executed (ss_codec ss) p d t) ?E" unfolding execute_plan_def case_prod_beta
    by (rule step [OF standing_calm [OF calm_start(1)]], rule step [OF standing_fold [OF standing_audit]], rule step [OF standing_lift],
        rule step [OF standing_audit], rule step [OF standing_calm [OF calm_start(2)]], rule step [OF opened], rule attempt_triple [OF c]) (simp add: cycle_exec_env_def)
qed (simp add: rested_def)

section \<open>The whole cycle\<close>

lemma on_cycle_run: "on_cycle m s = (fst (m (sw_cycle s)), s\<lparr>sw_cycle := snd (m (sw_cycle s))\<rparr>)"
  by (simp add: on_cycle_def sx_zoom_run)

lemma on_cycle_triple:
  assumes "sx_triple P m Q E"
  shows "sx_triple (\<lambda>s. P (sw_cycle s)) (on_cycle m) (\<lambda>x s. Q x (sw_cycle s)) (\<lambda>e s. E e (sw_cycle s))"
proof (rule sx_tripleI)
  fix s x u assume "P (sw_cycle s)" and run: "on_cycle m s = (Inr x, u)"
  moreover have "m (sw_cycle s) = (Inr x, sw_cycle u)" using run by (auto simp: on_cycle_run prod_eq_iff)
  ultimately show "Q x (sw_cycle u)" using sx_tripleD_Inr [OF assms] by blast
next
  fix s e u assume "P (sw_cycle s)" and run: "on_cycle m s = (Inl e, u)"
  moreover have "m (sw_cycle s) = (Inl e, sw_cycle u)" using run by (auto simp: on_cycle_run prod_eq_iff)
  ultimately show "E e (sw_cycle u)" using sx_tripleD_Inl [OF assms] by blast
qed

lemma on_manifest_inv: "sx_inv (\<lambda>s. P (sw_cycle s)) (on_manifest m)"
  by (rule sx_inv_snd) (simp add: on_manifest_def sx_zoom_run)

text \<open>The tax collection touches neither journal nor ledger.\<close>

lemma rested_tax: "sx_inv (\<lambda>s. rested c t l (sw_cycle s)) (on_tax_world m)"
  by (rule sx_inv_snd) (auto simp: on_tax_world_def rested_def standing_def sound_def caught_up_def split: prod.split)

lemma rested_inv: "sx_triple (rested c t l) m (\<lambda>_. rested c t l) (\<lambda>_. unmoved c t) \<Longrightarrow> (\<And>w. \<exists>x u. m w = (Inr x, u)) \<Longrightarrow> sx_inv (rested c t l) m"
  by (rule sx_tripleI) (auto dest: sx_tripleD_Inr, metis Inl_Inr_False fst_conv)

lemma audit_returns: "\<exists>x u. cw_audit e s k st w = (Inr x, u)"
  by (simp add: cw_audit_def on_world_run audit_record_def sx_modify_def)

lemma alert_returns: "\<exists>x u. notify_event e y w = (Inr x, u)"
  by (simp add: notify_event_def sx_modify_def)

lemmas rested_notes = rested_inv [OF rested_audit audit_returns] rested_inv [OF rested_alert alert_returns]

lemma rested_collect: "sx_inv (\<lambda>s. rested c t l (sw_cycle s)) (collect_live_tax ss sv symbols account now)"
  unfolding collect_live_tax_def report_tax_issue_def
  by (intro calm_if sx_inv_rules on_cycle_triple calm_prod rested_tax rested_notes)

text \<open>What a report says about the ledger on disk.\<close>

definition concluded :: "text_codec \<Rightarrow> timestamp option \<Rightarrow> timestamp \<Rightarrow> shadow_report \<Rightarrow> 'v shadow_world \<Rightarrow> bool" where
  "concluded c t d rp s \<longleftrightarrow>
     rp_status rp = ''COMPLETE'' \<and> rp_reason rp = None \<and> (\<exists>l. rested c (Some d) l (sw_cycle s))
   \<or> rp_status rp = ''COMPLETE'' \<and> rp_reason rp = Some ''already_executed'' \<and> (\<exists>u. t = Some u \<and> d \<le> u) \<and> disk c {t} (sw_cycle s)
   \<or> rp_status rp \<in> {''DEGRADED'', ''INTERRUPTED''} \<and> disk c {t} (sw_cycle s)
   \<or> rp_status rp = ''HALT'' \<and> disk c {t, Some d} (sw_cycle s)"

lemma sx_triple_ex: "(\<And>l. sx_triple (P l) m Q E) \<Longrightarrow> sx_triple (\<lambda>s. \<exists>l. P l s) m Q E"
  by (rule sx_tripleI) (auto dest: sx_tripleD_Inr sx_tripleD_Inl)

lemma rested_disk: "rested c x l w \<Longrightarrow> x \<in> S \<Longrightarrow> disk c S w"
  by (auto simp: rested_def standing_def held_file_def)

lemma load_state_inv: "sx_inv P (load_state ss)"
  unfolding load_state_def by (intro sx_inv_rules)

lemma finish_inv:
  assumes x: "x \<in> S"
  shows "sx_triple (\<lambda>s :: 'v shadow_world. rested (ss_codec ss) x l (sw_cycle s)) (finish_cycle ss sv d now p outcomes)
     (\<lambda>rp s. rested (ss_codec ss) x l (sw_cycle s) \<and> rp = cycle_report_of p d outcomes) (\<lambda>_ s. disk (ss_codec ss) S (sw_cycle s))"
    (is "sx_triple ?I _ ?Q ?E")
proof -
  have keep: "sx_triple ?I m (\<lambda>_. ?I) ?E" if "sx_inv ?I m" for m :: "('v shadow_world, 'y) sx"
    by (rule sx_conseq [OF that]) (auto intro: rested_disk [OF _ x])
  have stop: "sx_triple ?I (sx_when b (on_cycle (sx_bind (on_world (Venue.on_venue m)) (\<lambda>_. cw_audit e s k st)))) (\<lambda>_. ?I) ?E" for b e s k st and m :: "'v \<Rightarrow> 'y res \<times> 'v"
  proof (rule sx_triple_when)
    have "sx_triple ?I (on_cycle (sx_bind (on_world (Venue.on_venue m)) (\<lambda>_. cw_audit e s k st))) (\<lambda>_. ?I) (\<lambda>_ s. unmoved (ss_codec ss) x (sw_cycle s))"
      by (rule on_cycle_triple) (rule rested_seq [OF rested_venue rested_audit])
    then show "sx_triple ?I (on_cycle (sx_bind (on_world (Venue.on_venue m)) (\<lambda>_. cw_audit e s k st))) (\<lambda>_. ?I) ?E"
      by (rule sx_conseq) (use x in \<open>auto simp: unmoved_disk intro: disk_mono\<close>)
  qed simp
  have report: "sx_triple ?I (sx_return (cycle_report_of p d outcomes)) ?Q ?E" by (rule sx_triple_return) simp
  show ?thesis unfolding finish_cycle_def
    by (rule sx_triple_seq [OF stop], rule sx_triple_seq [OF keep [OF rested_collect]], rule sx_triple_if,
        rule sx_triple_seq [OF keep [OF on_cycle_triple [OF load_state_inv]]], rule sx_triple_seq [OF keep [OF on_cycle_triple [OF rested_notes(1)]]],
        rule sx_triple_seq [OF keep [OF sx_inv_when [OF on_cycle_triple [OF rested_notes(2)]]] report],
        rule sx_triple_seq [OF keep [OF on_manifest_inv]], rule sx_triple_seq [OF keep [OF on_cycle_triple [OF rested_notes(1)]] report])
qed

lemma cycle_finish_triple:
  "sx_triple (\<lambda>s. \<exists>l. rested (ss_codec ss) (if degraded p then t else Some d) l (sw_cycle s)) (finish_cycle ss sv d now p outcomes)
     (concluded (ss_codec ss) t d) (\<lambda>_ s. disk (ss_codec ss) {t, Some d} (sw_cycle s))"
proof (rule sx_triple_ex)
  fix l
  show "sx_triple (\<lambda>s. rested (ss_codec ss) (if degraded p then t else Some d) l (sw_cycle s)) (finish_cycle ss sv d now p outcomes)
     (concluded (ss_codec ss) t d) (\<lambda>_ s. disk (ss_codec ss) {t, Some d} (sw_cycle s))"
    by (rule sx_conseq [OF finish_inv [where S = "{t, Some d}"]]) (auto simp: concluded_def cycle_report_of_def dest: rested_disk [where S = "{t}"])
qed

lemma trade_triple:
  assumes c: "codec_ok (ss_codec ss)"
  shows "sx_triple (\<lambda>s. ready (ss_codec ss) t (sw_cycle s)) (trade_decision ss sv d now) (concluded (ss_codec ss) t d)
     (\<lambda>_ s. disk (ss_codec ss) {t, Some d} (sw_cycle s))" (is "sx_triple ?P _ ?Q ?E")
proof -
  have prepare: "sx_triple ?P (on_cycle (prepare_cycle ss sv d now e weights)) (\<lambda>p s. rested (ss_codec ss) t (px_ledger_state (pd_paper p)) (sw_cycle s)) ?E" for e weights
    by (rule sx_conseq [OF on_cycle_triple [OF prepare_triple [OF c]]]) (auto simp: unmoved_disk intro: disk_mono)
  have gate: "sx_triple ?P (sx_lift m) (\<lambda>_. ?P) ?E" for m :: "'y res"
    by (rule sx_triple_lift) (auto simp: ready_def unmoved_disk intro: disk_mono)
  have end_up: "sx_triple (\<lambda>s. executed (ss_codec ss) p d t result (sw_cycle s)) (case result of
        Inl partial \<Rightarrow> sx_return ((short_report ''INTERRUPTED'' (Some ''shutdown_requested'') d)
           \<lparr>rp_intent_count := length partial, rp_outcomes := partial, rp_dropped_fraction := sp_dropped_fraction (pd_sized p)\<rparr>)
      | Inr outcomes \<Rightarrow> finish_cycle ss sv d now p outcomes) ?Q ?E" for p result
  proof (cases result)
    case (Inl partial)
    then show ?thesis by (auto intro!: sx_triple_return simp: executed_def concluded_def short_report_def)
  next
    case (Inr outcomes)
    show ?thesis unfolding Inr executed_def sum.case by (rule cycle_finish_triple)
  qed
  show ?thesis unfolding trade_decision_def
    by (rule sx_triple_seq [OF gate], rule sx_triple_prod, rule sx_triple_bind [OF prepare],
        rule sx_triple_bind [OF on_cycle_triple [OF cycle_execute_triple [OF c]]], rule end_up)
qed

lemma flush_disk:
  assumes c: "codec_ok (ss_codec ss)"
  shows "sx_inv (disk (ss_codec ss) {t} :: 'v cycle_world \<Rightarrow> bool) (flush_already_executed ss sv d now)"
proof -
  have journal: "sx_inv (disk (ss_codec ss) {t}) open_cycle_journal" unfolding open_cycle_journal_def by (rule sx_inv_modify) simp
  let ?R = "\<lambda>l (w :: 'v cycle_world). disk (ss_codec ss) {t} w \<and> ledger_ok l \<and> ls_last_executed_decision_time l = t"
  have load: "sx_triple (disk (ss_codec ss) {t}) (load_state ss) ?R (\<lambda>_. disk (ss_codec ss) {t})"
    by (rule sx_tripleI) (auto simp: unmoved_disk [symmetric] elim!: load_state_run dest: saved_ok intro: unmovedI)
  have commit: "sx_triple (?R l) (if ls_recorded l < ls_applied l then sx_bind (commit_cycle (ss_cycle ss) vc faults (plain_commit att None) l) (\<lambda>_. sx_return ()) else sx_return ())
      (\<lambda>_. disk (ss_codec ss) {t}) (\<lambda>_. disk (ss_codec ss) {t})" for l vc faults att
    by (rule sx_triple_pre_fact) (intro calm_if sx_inv_rules disk_commit c; simp add: plain_commit_def stamp_def)
  show ?thesis unfolding flush_already_executed_def
    by (rule sx_inv_catch, rule sx_triple_seq [OF journal], rule sx_triple_bind [OF load commit]) (intro calm_if sx_inv_rules)
qed

text \<open>The stamps a cycle may leave: the old one, or that of a decision that is later.\<close>

definition newer :: "timestamp option \<Rightarrow> timestamp \<Rightarrow> bool" where
  "newer t d = (case t of None \<Rightarrow> True | Some u \<Rightarrow> u < d)"

definition stamps :: "timestamp option \<Rightarrow> timestamp \<Rightarrow> timestamp option set" where
  "stamps t d = {t} \<union> {x. x = Some d \<and> newer t d}"

lemma not_already: "\<not> already_executed d l \<longleftrightarrow> newer (ls_last_executed_decision_time l) d"
  by (auto simp: newer_def already_executed_def split: option.splits)

lemma stamps_new: "newer t d \<Longrightarrow> stamps t d = {t, Some d}"
  by (auto simp: stamps_def)

lemma skip_concluded:
  "disk c {Some u} (sw_cycle s) \<Longrightarrow> d \<le> u \<Longrightarrow> concluded c (Some u) d (short_report ''COMPLETE'' (Some ''already_executed'') d) s"
  by (simp add: concluded_def short_report_def)

lemma short_report_reason [simp]: "rp_reason (short_report status reason d) = reason"
  by (simp add: short_report_def)

lemma concluded_disk: "concluded c t d rp s \<Longrightarrow> disk c {t, Some d} (sw_cycle s)"
  by (auto simp: concluded_def intro: disk_mono rested_disk)

lemma cycle_triple:
  assumes c: "codec_ok (ss_codec ss)"
  shows "sx_triple (\<lambda>s. ready (ss_codec ss) t (sw_cycle s)) (run_shadow_cycle ss sv d now)
     (\<lambda>rp s. concluded (ss_codec ss) t d rp s \<and> (rp_reason rp = None \<longrightarrow> newer t d) \<and> disk (ss_codec ss) (stamps t d) (sw_cycle s))
     (\<lambda>_ s. disk (ss_codec ss) (stamps t d) (sw_cycle s))" (is "sx_triple ?P _ ?Q ?E")
proof -
  let ?R = "\<lambda>l s. ready (ss_codec ss) t (sw_cycle s) \<and> ls_last_executed_decision_time l = t"
  have old: "disk (ss_codec ss) (stamps t d) s" if "disk (ss_codec ss) {t} s" for s using that by (rule disk_mono) (simp add: stamps_def)
  have manifest: "sx_triple ?P (on_manifest m) (\<lambda>_. ?P) ?E" for m :: "(ledger_file, 'y) sx"
    by (rule sx_conseq [OF on_manifest_inv [where P = "ready (ss_codec ss) t"]]) (auto simp: ready_def unmoved_disk intro: old)
  have load: "sx_triple ?P (on_cycle (load_state ss)) ?R ?E"
    by (rule sx_conseq [OF on_cycle_triple [OF load_state_triple]]) auto
  have skip: "sx_triple (?R l) (sx_bind (on_cycle (flush_already_executed ss sv d now)) (\<lambda>_. sx_return (short_report ''COMPLETE'' (Some ''already_executed'') d))) ?Q ?E"
    if "already_executed d l" for l
  proof (rule sx_triple_pre_fact)
    assume "ls_last_executed_decision_time l = t"
    with that obtain u where u: "t = Some u" "d \<le> u" by (auto simp: already_executed_def split: option.splits)
    show "sx_triple ?P (sx_bind (on_cycle (flush_already_executed ss sv d now)) (\<lambda>_. sx_return (short_report ''COMPLETE'' (Some ''already_executed'') d))) ?Q ?E"
    proof (rule sx_triple_seq [where R = "\<lambda>s. disk (ss_codec ss) {t} (sw_cycle s)"])
      show "sx_triple ?P (on_cycle (flush_already_executed ss sv d now)) (\<lambda>_ s. disk (ss_codec ss) {t} (sw_cycle s)) ?E"
        by (rule sx_conseq [OF on_cycle_triple [OF flush_disk [OF c]]]) (auto simp: ready_def unmoved_disk intro: old)
    qed (rule sx_triple_return, simp add: old, simp add: u skip_concluded)
  qed
  have trade: "sx_triple (?R l) (trade_decision ss sv d now) ?Q ?E" if "\<not> already_executed d l" for l
  proof (rule sx_triple_pre_fact)
    assume "ls_last_executed_decision_time l = t"
    then have n: "newer t d" using that not_already by blast
    note s = stamps_new [OF n]
    show "sx_triple ?P (trade_decision ss sv d now) ?Q ?E" unfolding s by (rule sx_conseq [OF trade_triple [OF c]]) (use n in \<open>auto dest: concluded_disk\<close>)
  qed
  have halt: "sx_triple (?E e) (if halting e then sx_return (short_report ''HALT'' (Some []) d) else sx_raise e) ?Q ?E" for e
    by (rule sx_triple_if; (rule sx_triple_return | rule sx_triple_raise)) (auto simp: concluded_def short_report_def stamps_def elim: disk_mono)
  show ?thesis unfolding run_shadow_cycle_def
    by (rule sx_triple_catch [OF _ halt], rule sx_triple_seq [OF manifest], rule sx_triple_bind [OF load], rule sx_triple_if [OF skip trade])
qed

lemma saved_stamp: "saved c l f \<Longrightarrow> saved c l' f \<Longrightarrow> ls_last_executed_decision_time l = ls_last_executed_decision_time l'"
  by (auto simp: saved_def ledger_norm_def dest!: arg_cong [where f = ls_last_executed_decision_time])


end
