(* ===== verification/Cycle_Restart.thy ===== *)
theory Cycle_Restart
  imports Cycle_Laws
begin

text \<open>
  Cycles in sequence: whatever happens in a cycle, the next one starts from a journal and a ledger that can
  be read.  And what a cycle does for a decision that is on record: it flushes evidence and returns.
\<close>

section \<open>The journal file stays readable\<close>

definition filed :: "text_codec \<Rightarrow> 'v cycle_world \<Rightarrow> bool" where
  "filed c w \<longleftrightarrow> wal_ok c (open_journal (wal_file (wd_journal (cw_world w))))"

definition kept_sound :: "text_codec \<Rightarrow> 'v cycle_world \<Rightarrow> bool" where "kept_sound c w \<longleftrightarrow> sound c (- 1) (cw_world w)"

lemma sound_filed: "kept_sound c w \<Longrightarrow> filed c w"
  by (auto simp: kept_sound_def sound_def filed_def intro: wal_ok_reopen(1) [OF synced_wal_ok] synced_loaded)

lemma sound_world: "(sx_inv (sound c (- 1)) m) \<Longrightarrow> sx_inv (kept_sound c) (on_world m)"
  by (rule sx_inv_snd) (auto simp: kept_sound_def on_world_run dest: sx_triple_snd)

lemma sound_calm: "calm m \<Longrightarrow> sx_inv (kept_sound c) (on_world m)"
  by (rule sound_world) (rule calm_sound)

lemma sound_parts: "sx_inv (kept_sound c) (on_store n)" "sx_inv (kept_sound c) (notify_event e y)" "sx_inv (kept_sound c) (cw_audit e s k st)"
  "sx_inv (kept_sound c) (on_world (on_journal vc (\<lambda>clock. query_journal c clock g)))" "sx_inv (kept_sound c) (on_world (Venue.on_venue v))"
  unfolding notify_event_def cw_audit_def
  by (auto simp: kept_sound_def on_store_run intro!: sx_inv_snd [of _ "on_store n"] sx_inv_modify sound_world sound_venue sound_query)

lemmas kept_rules = sx_inv_rules calm_if calm_prod calm_prod_fun sound_parts

lemma kept_commit: "sx_inv (kept_sound (cs_codec st)) (commit_cycle st vc faults args base)"
  unfolding commit_cycle_def by (intro kept_rules)

lemma kept_adopt: "codec_ok (cs_codec st) \<Longrightarrow> sx_inv (kept_sound (cs_codec st)) (adopt_force_closes st cl faults fallback now breaches l)"
  unfolding adopt_force_closes_def adopt_close_def fills_after_def Let_def
  by (intro kept_rules kept_commit sound_world sound_fill)

lemma kept_account:
  assumes "codec_ok (cs_codec st)"
  shows "sx_inv (kept_sound (cs_codec st)) (reconcile_account st cl faults fallback now account info foreign l)"
  unfolding reconcile_account_def book_settled_def record_delisting_settlements_def remaining_breaches_def decide_derisk_def Let_def
  by (intro kept_rules kept_adopt assms)

lemma kept_paper: "sx_inv (kept_sound c) (settle_paper st inp info now l)"
  unfolding settle_paper_def accrue_ledger_funding_def settle_delisted_def settle_delisted_paper_positions_def append_paper_records_def
    record_delisting_settlements_def enforce_funding_lag_def Let_def
  by (intro kept_rules)

lemma kept_restrict: "sx_inv (kept_sound c) (restrict_plan ss req account pt intents)"
  unfolding restrict_plan_def apply_unresolved_freeze_def Let_def by (intro kept_rules sound_calm calm_cap_leverage)

lemma kept_execute:
  assumes "codec_ok (ss_codec ss)" shows "sx_inv (kept_sound (ss_codec ss)) (execute_plan ss sv d now p)"
proof (rule sx_inv_snd)
  fix w :: "'a cycle_world" assume "kept_sound (ss_codec ss) w"
  then have "in_plan (ss_codec ss) (- 1) (submits_of (cw_world w)) (set (pd_kept p)) w" by (simp add: kept_sound_def in_plan_def in_scope_def)
  from sx_triple_snd [OF in_plan_execute [OF assms] this] show "kept_sound (ss_codec ss) (snd (execute_plan ss sv d now p w))"
    by (simp add: kept_sound_def in_plan_def)
qed

text \<open>The first query of a new journal object loads it.\<close>

lemma first_query:
  "sx_triple (\<lambda>w. wal_ok c (wd_journal (cw_world w))) (on_world (on_journal vc (\<lambda>clock. query_journal c clock g))) (\<lambda>_. kept_sound c) E"
proof (rule sx_tripleI)
  fix w :: "'a cycle_world" and y u
  assume w: "wal_ok c (wd_journal (cw_world w))" and run: "on_world (on_journal vc (\<lambda>clock. query_journal c clock g)) w = (Inr y, u)"
  from query_run [OF w, of vc g] obtain j where j: "u = w\<lparr>cw_world := (cw_world w)\<lparr>wd_journal := j\<rparr>\<rparr>" "synced c j" "seq_ok (wal_mem j)" using run by (metis Pair_inject)
  moreover have "- 1 < oj_next_fill_seq (wal_mem j)" using j(3) by (simp add: seq_ok_def)
  ultimately show "kept_sound c u" by (simp add: kept_sound_def sound_def)
qed (auto dest: query_returns)

lemma open_filed: "sx_triple (filed c) open_cycle_journal (\<lambda>_ w. wal_ok c (wd_journal (cw_world w))) E"
  unfolding open_cycle_journal_def by (rule sx_triple_modify) (simp add: filed_def)

lemma filed_pre_trade:
  assumes c: "codec_ok (cs_codec st)"
  shows "sx_triple (\<lambda>w. wal_ok (cs_codec st) (wd_journal (cw_world w))) (reconcile_pre_trade st cl faults d now account info l) (\<lambda>_. kept_sound (cs_codec st)) (\<lambda>_. kept_sound (cs_codec st))"
  unfolding reconcile_pre_trade_def record_unresolved_orders_def last_fill_seq_def Let_def
  by (rule sx_triple_bind [OF first_query]) (intro kept_rules sound_world sound_settle kept_commit kept_account c)

lemma sound_step_filed:
  "sx_inv (kept_sound c) m \<Longrightarrow> (\<And>x. sx_triple (kept_sound c) (f x) (\<lambda>_. kept_sound c) (\<lambda>_. filed c)) \<Longrightarrow> sx_triple (kept_sound c) (sx_bind m f) (\<lambda>_. kept_sound c) (\<lambda>_. filed c)"
  by (rule sx_triple_seq [where R = "kept_sound c"]) (auto elim!: sx_conseq intro: sound_filed)

lemma filed_prepare:
  assumes c: "codec_ok (ss_codec ss)"
  shows "sx_triple (filed (ss_codec ss)) (prepare_cycle ss sv d now e weights) (\<lambda>_. kept_sound (ss_codec ss)) (\<lambda>_. filed (ss_codec ss))"
proof -
  have venue: "sx_inv (filed (ss_codec ss)) (on_world m)" if "calm m" for m :: "('v world, 'y) sx"
    by (rule sx_inv_snd) (simp add: filed_def on_world_run calm_journal [OF that])
  have paper: "sx_inv (kept_sound (ss_codec ss)) (paper_postings ss sv info now l)" for info l
    unfolding paper_postings_def by (intro kept_rules kept_paper)
  have pre: "sx_triple (\<lambda>w. wal_ok (ss_codec ss) (wd_journal (cw_world w))) (reconcile_pre_trade (ss_cycle ss) cl faults d now account info l)
      (\<lambda>_. kept_sound (ss_codec ss)) (\<lambda>_. filed (ss_codec ss))" for cl faults account info l
    by (rule sx_conseq [OF filed_pre_trade [OF c]]) (auto intro: sound_filed)
  show ?thesis unfolding prepare_cycle_def
    by (rule sx_triple_seq [OF venue [OF calm_view_venue]], rule sx_triple_seq [OF load_state_inv], rule sx_triple_seq [OF open_filed],
        rule sx_triple_seq [OF pre], rule sound_step_filed [OF sound_calm [OF calm_view_market]], rule sound_step_filed [OF paper],
        rule sound_step_filed [OF sound_calm [OF calm_size_and_plan]], rule sound_step_filed [OF kept_restrict], rule sx_triple_return)
qed

lemma kept_tax: "sx_inv (\<lambda>s. kept_sound c (sw_cycle s)) (on_tax_world m)"
  by (rule sx_inv_snd) (auto simp: on_tax_world_def kept_sound_def sound_def split: prod.split)

lemma kept_finish: "sx_inv (\<lambda>s. kept_sound c (sw_cycle s)) (finish_cycle ss sv d now p outcomes)"
  unfolding finish_cycle_def collect_live_tax_def report_tax_issue_def
  by (intro sx_inv_rules calm_if calm_prod kept_tax on_manifest_inv on_cycle_triple load_state_inv kept_rules)

lemma filed_commit:
  "sx_triple (\<lambda>w. wal_ok (cs_codec st) (wd_journal (cw_world w))) (commit_cycle st vc faults args l) (\<lambda>_. kept_sound (cs_codec st)) (\<lambda>_. kept_sound (cs_codec st))"
  unfolding commit_cycle_def by (rule sx_triple_bind [OF first_query]) (intro kept_rules)

lemma filed_flush: "sx_inv (filed (ss_codec ss) :: 'v cycle_world \<Rightarrow> bool) (flush_already_executed ss sv d now)"
proof -
  let ?P = "\<lambda>w :: 'v cycle_world. wal_ok (ss_codec ss) (wd_journal (cw_world w)) \<and> filed (ss_codec ss) w"
  have opened: "sx_triple (filed (ss_codec ss)) open_cycle_journal (\<lambda>_. ?P) (\<lambda>_. filed (ss_codec ss))"
    unfolding open_cycle_journal_def by (rule sx_triple_modify) (simp add: filed_def open_journal_def)
  have load: "sx_triple ?P (load_state ss) (\<lambda>_. ?P) (\<lambda>_. filed (ss_codec ss))" by (rule sx_conseq [OF load_state_inv [where P = ?P]]) auto
  have "sx_triple ?P (commit_cycle (ss_cycle ss) vc faults args l) (\<lambda>_. filed (ss_codec ss)) (\<lambda>_. filed (ss_codec ss))" for vc faults args l
    by (rule sx_conseq [OF filed_commit]) (auto intro: sound_filed)
  then have "sx_triple ?P (sx_bind (commit_cycle (ss_cycle ss) vc faults args l) (\<lambda>_. sx_return ())) (\<lambda>_. filed (ss_codec ss)) (\<lambda>_. filed (ss_codec ss))" for vc faults args l
    by (rule sx_triple_seq) (rule sx_triple_return)
  then have commit: "sx_triple ?P (if b then sx_bind (commit_cycle (ss_cycle ss) vc faults args l) (\<lambda>_. sx_return ()) else sx_return ())
      (\<lambda>_. filed (ss_codec ss)) (\<lambda>_. filed (ss_codec ss))" for b vc faults args l
    by (rule sx_triple_if) (rule sx_triple_return, simp)
  show ?thesis unfolding flush_already_executed_def
    by (rule sx_inv_catch, rule sx_triple_seq [OF opened], rule sx_triple_seq [OF load commit]) (intro calm_if sx_inv_rules)
qed

lemma filed_trade:
  assumes c: "codec_ok (ss_codec ss)"
  shows "sx_inv (\<lambda>s. filed (ss_codec ss) (sw_cycle s)) (trade_decision ss sv d now)"
proof -
  let ?F = "\<lambda>s :: 'a shadow_world. filed (ss_codec ss) (sw_cycle s)"
  let ?K = "\<lambda>s :: 'a shadow_world. kept_sound (ss_codec ss) (sw_cycle s)"
  have weaken: "sx_triple ?K m (\<lambda>_. ?K) (\<lambda>_. ?F)" if "sx_inv ?K m" for m :: "('a shadow_world, 'y) sx"
    by (rule sx_conseq [OF that]) (auto intro: sound_filed)
  have finish: "sx_triple ?K (case x of Inl y \<Rightarrow> sx_return (g y) | Inr z \<Rightarrow> finish_cycle ss sv d now p z) (\<lambda>_. ?F) (\<lambda>_. ?F)" for x p and g :: "execution_outcome list \<Rightarrow> shadow_report"
    by (rule sx_conseq [where P' = ?K and Q' = "\<lambda>_. ?K" and E' = "\<lambda>_. ?K"]) (auto split: sum.split intro: sound_filed sx_triple_return kept_finish)
  show ?thesis unfolding trade_decision_def
    by (rule sx_triple_seq [OF sx_inv_pure(3)], rule sx_triple_prod, rule sx_triple_seq [OF on_cycle_triple [OF filed_prepare [OF c]]],
        rule sx_triple_seq [OF weaken [OF on_cycle_triple [OF kept_execute [OF c]]]], rule finish)
qed

lemma filed_cycle:
  assumes c: "codec_ok (ss_codec ss)"
  shows "sx_inv (\<lambda>s. filed (ss_codec ss) (sw_cycle s)) (run_shadow_cycle ss sv d now)"
  unfolding run_shadow_cycle_def
  by (intro sx_inv_rules calm_if on_manifest_inv on_cycle_triple load_state_inv filed_flush filed_trade c)

section \<open>Cycles in sequence\<close>

lemma cycle_ready:
  assumes c: "codec_ok (ss_codec ss)" and w: "ready (ss_codec ss) t (sw_cycle w)" and run: "run_shadow_cycle ss sv d now w = (r, w')"
  obtains t' where "ready (ss_codec ss) t' (sw_cycle w')" "t' \<in> stamps t d"
    "\<And>rp. r = Inr rp \<Longrightarrow> rp_status rp = ''COMPLETE'' \<Longrightarrow> rp_reason rp = None \<Longrightarrow> t' = Some d \<and> newer t d"
proof -
  have filed: "filed (ss_codec ss) (sw_cycle w')"
    by (rule sx_invD [OF filed_cycle [OF c] _ run]) (use w in \<open>simp add: filed_def ready_def\<close>)
  show ?thesis
  proof (cases r)
    case (Inl e)
    have "disk (ss_codec ss) (stamps t d) (sw_cycle w')" by (rule sx_tripleD_Inl [OF cycle_triple [OF c] w run [unfolded Inl]])
    then show ?thesis using that filed Inl by (auto simp: held_file_def ready_def filed_def unmoved_def)
  next
    case (Inr rp)
    have post: "concluded (ss_codec ss) t d rp w' \<and> (rp_reason rp = None \<longrightarrow> newer t d) \<and> disk (ss_codec ss) (stamps t d) (sw_cycle w')"
      by (rule sx_tripleD_Inr [OF cycle_triple [OF c] w run [unfolded Inr]])
    then obtain l where l: "saved (ss_codec ss) l (ledger_of (sw_cycle w'))" "ls_last_executed_decision_time l \<in> stamps t d" by (auto simp: held_file_def)
    have "ls_last_executed_decision_time l = Some d \<and> newer t d" if "rp_status rp = ''COMPLETE''" "rp_reason rp = None"
      using post that saved_stamp [OF l(1)] by (auto simp: concluded_def rested_def standing_def)
    then show ?thesis using that [of "ls_last_executed_decision_time l"] filed l Inr by (auto simp: ready_def filed_def intro: unmovedI)
  qed
qed

record 'v cycle_input =
  ci_env :: "'v shadow_env"
  ci_decision :: timestamp
  ci_now :: timestamp

text \<open>The cycles of a daemon, in one process or in many, and the decisions that they report complete.\<close>

primrec run_cycles :: "shadow_settings \<Rightarrow> 'v cycle_input list \<Rightarrow> 'v shadow_world \<Rightarrow> timestamp list \<times> 'v shadow_world" where
  "run_cycles ss [] w = ([], w)"
| "run_cycles ss (x # xs) w =
     (case run_shadow_cycle ss (ci_env x) (ci_decision x) (ci_now x) w of (r, w') \<Rightarrow>
        case run_cycles ss xs w' of (ds, w'') \<Rightarrow>
          ((case r of Inl e \<Rightarrow> [] | Inr rp \<Rightarrow> if rp_status rp = ''COMPLETE'' \<and> rp_reason rp = None then [ci_decision x] else []) @ ds, w''))"

definition stamp_le :: "timestamp option \<Rightarrow> timestamp option \<Rightarrow> bool" where
  "stamp_le t t' = (case t of None \<Rightarrow> True | Some u \<Rightarrow> (case t' of None \<Rightarrow> False | Some u' \<Rightarrow> u \<le> u'))"

lemma newer_mono: "stamp_le t t' \<Longrightarrow> newer t' d \<Longrightarrow> newer t d"
  by (auto simp: stamp_le_def newer_def split: option.splits)

lemma stamp_le_trans: "stamp_le t t' \<Longrightarrow> stamp_le t' t'' \<Longrightarrow> stamp_le t t''"
  by (auto simp: stamp_le_def split: option.splits)

lemma stamps_le: "t' \<in> stamps t d \<Longrightarrow> stamp_le t t'"
  by (auto simp: stamps_def stamp_le_def newer_def split: option.splits)

section \<open>A decision on record\<close>

text \<open>Neither the venue is called nor the journal file written.\<close>

definition idle :: "'v \<Rightarrow> journal_file option \<Rightarrow> 'v cycle_world \<Rightarrow> bool" where
  "idle v f w \<longleftrightarrow> Venue.wd_venue (cw_world w) = v \<and> wal_file (wd_journal (cw_world w)) = f"

lemma ensure_loaded_file: "wal_file (snd (ensure_loaded c now j)) = wal_file j"
  by (simp add: ensure_loaded_def Let_def split: option.split prod.split)

lemma idle_query: "sx_inv (idle v f) (on_world (on_journal vc (\<lambda>clock. query_journal c clock g)))"
proof (rule sx_inv_snd)
  have "wal_file (snd (query_journal c now g j)) = wal_file j" for now j
    using ensure_loaded_file [of c now j] by (cases "ensure_loaded c now j", cases "fst (ensure_loaded c now j)") (auto simp: query_journal_def sx_defs)
  then show "idle v f (snd (on_world (on_journal vc (\<lambda>clock. query_journal c clock g)) w))" if "idle v f w" for w
    using that by (simp add: idle_def on_world_run on_journal_run)
qed

lemma idle_flush: "sx_inv (idle v f) (flush_already_executed ss sv d now)"
proof -
  have store: "sx_inv (idle v f) (on_store m)" for m :: "(evidence_store, 'y) sx" by (rule sx_inv_snd) (simp add: idle_def on_store_run)
  have journal: "sx_inv (idle v f) open_cycle_journal"
    unfolding open_cycle_journal_def by (rule sx_inv_modify) (simp add: idle_def open_journal_def)
  show ?thesis unfolding flush_already_executed_def commit_cycle_def
    by (intro sx_inv_rules calm_if calm_prod store journal idle_query load_state_inv)
qed

lemma flush_returns:
  "sx_triple (ready (ss_codec ss) t) (flush_already_executed ss sv d now) (\<lambda>_ _. True) (\<lambda>_ _. False)"
proof -
  have commit: "sx_triple (at_start (ss_codec ss) t l) (if b then sx_bind (commit_cycle (ss_cycle ss) vc faults args l) (\<lambda>_. sx_return ()) else sx_return ())
      (\<lambda>_ _. True) (\<lambda>e _. e \<in> commit_errors)" for b vc faults args l
    by (rule sx_triple_if; (rule sx_triple_bind [where R = "\<lambda>_ _. True"])?; (rule sx_triple_return | rule sx_pre [OF commit_cycle_error])) (auto simp: at_start_def)
  have opened: "sx_triple (ready (ss_codec ss) t) open_cycle_journal (\<lambda>_ w. ready (ss_codec ss) t w \<and> wal_ok (ss_codec ss) (wd_journal (cw_world w))) (\<lambda>e _. e \<in> commit_errors)"
    unfolding open_cycle_journal_def by (rule sx_triple_modify) (simp add: ready_def unmoved_def open_journal_def)
  have load: "sx_triple (\<lambda>w. ready (ss_codec ss) t w \<and> wal_ok (ss_codec ss) (wd_journal (cw_world w))) (load_state ss) (\<lambda>l. at_start (ss_codec ss) t l) (\<lambda>e _. e \<in> commit_errors)"
    by (rule sx_tripleI) (auto simp: ready_def at_start_def elim!: load_state_run)
  show ?thesis unfolding flush_already_executed_def
    by (rule sx_triple_catch [where R = "\<lambda>e _. e \<in> commit_errors"], rule sx_triple_seq [OF opened], rule sx_triple_bind [OF load commit])
      (auto simp: sx_triple_def sx_return_def dest: commit_errors_ordinary)
qed

lemma flushed:
  assumes "ready (ss_codec ss) t w" obtains w' where "flush_already_executed ss sv d now w = (Inr (), w')"
proof -
  obtain r w' where run: "flush_already_executed ss sv d now w = (r, w')" by fastforce
  show ?thesis using that sx_tripleD_Inl [OF flush_returns assms] run by (cases r) (fastforce, simp)
qed

lemma flush_keeps:
  assumes "codec_ok (ss_codec ss)" "ready (ss_codec ss) t w" "flush_already_executed ss sv d now w = (r, w')"
  shows "Venue.wd_venue (cw_world w') = Venue.wd_venue (cw_world w) \<and> wal_file (wd_journal (cw_world w')) = wal_file (wd_journal (cw_world w)) \<and> unmoved (ss_codec ss) t w'"
proof -
  have "idle (Venue.wd_venue (cw_world w)) (wal_file (wd_journal (cw_world w))) w'" by (rule sx_invD [OF idle_flush _ assms(3)]) (simp add: idle_def)
  moreover have "disk (ss_codec ss) {t} w'" by (rule sx_invD [OF flush_disk [OF assms(1)] _ assms(3)]) (use assms(2) in \<open>simp add: ready_def unmoved_disk\<close>)
  ultimately show ?thesis by (simp add: idle_def unmoved_disk)
qed


end
