(* ===== verification/Cycle_Safety.thy ===== *)
theory Cycle_Safety
  imports Cycle_Restart
begin

text \<open>
  What a cycle of the live runner (\<open>run_shadow_cycle\<close> of \<open>src/live/runner.py\<close>) guarantees: which orders it may submit,
  what its report says about the ledger on disk, that a decision on record is not traded again, and
  what holds over any number of cycles.  The lemmas are those of \<open>Cycle_Laws\<close> and \<open>Cycle_Restart\<close>.
\<close>

section \<open>Guarantees\<close>


text \<open>C3: whatever happens in a cycle, the ledger on disk is one that a restart can read, and its record of
  the last executed decision is the old one, or the decision of this cycle when that is later.  A report \<open>COMPLETE\<close> without a reason
  means that the decision is on record and that every fill of the journal is booked; a cycle that is
  skipped, degraded or interrupted leaves the old record, so that a later run of the decision is not refused.\<close>

theorem cycle_report_matches_ledger:
  assumes "codec_ok (ss_codec ss)" and "ready (ss_codec ss) t (sw_cycle w)" and "run_shadow_cycle ss sv d now w = (r, w')"
  shows "\<exists>l. saved (ss_codec ss) l (ledger_of (sw_cycle w')) \<and> ls_last_executed_decision_time l \<in> stamps t d
    \<and> (case r of Inl e \<Rightarrow> True
       | Inr rp \<Rightarrow> rp_status rp = ''COMPLETE'' \<and> rp_reason rp = None \<and> newer t d \<and> ls_last_executed_decision_time l = Some d
            \<and> ls_applied l = oj_next_fill_seq (mem (cw_world (sw_cycle w'))) - 1
         \<or> rp_status rp = ''COMPLETE'' \<and> rp_reason rp = Some ''already_executed'' \<and> (\<exists>u. t = Some u \<and> d \<le> u) \<and> ls_last_executed_decision_time l = t
         \<or> rp_status rp \<in> {''DEGRADED'', ''INTERRUPTED''} \<and> ls_last_executed_decision_time l = t
         \<or> rp_status rp = ''HALT'')"
proof (cases r)
  case (Inl e)
  have "disk (ss_codec ss) (stamps t d) (sw_cycle w')"
    by (rule sx_tripleD_Inl [OF cycle_triple [OF assms(1)] assms(2,3) [unfolded Inl]])
  then show ?thesis using Inl by (auto simp: held_file_def)
next
  case (Inr rp)
  have "concluded (ss_codec ss) t d rp w' \<and> (rp_reason rp = None \<longrightarrow> newer t d) \<and> disk (ss_codec ss) (stamps t d) (sw_cycle w')"
    by (rule sx_tripleD_Inr [OF cycle_triple [OF assms(1)] assms(2,3) [unfolded Inr]])
  moreover from this obtain l0 where l0: "saved (ss_codec ss) l0 (ledger_of (sw_cycle w'))" "ls_last_executed_decision_time l0 \<in> stamps t d"
    unfolding held_file_def by blast
  moreover have "ls_last_executed_decision_time l \<in> stamps t d" if "saved (ss_codec ss) l (ledger_of (sw_cycle w'))" for l
    using saved_stamp [OF that l0(1)] l0(2) by simp
  ultimately show ?thesis unfolding Inr concluded_def sum.case rested_def standing_def caught_up_def held_file_def by blast
qed

text \<open>C5: a decision that is on record as executed is not traded again: the venue is not called, nothing is
  written to the journal file, the record stays, and unless the run manifest forbids the run the report is
  \<open>COMPLETE\<close> with the reason \<open>already_executed\<close>, even when its evidence cannot be flushed.\<close>

theorem executed_decision_not_traded:
  assumes "codec_ok (ss_codec ss)" and "ready (ss_codec ss) (Some u) (sw_cycle w)" and "d \<le> u" and "run_shadow_cycle ss sv d now w = (r, w')"
  shows "Venue.wd_venue (cw_world (sw_cycle w')) = Venue.wd_venue (cw_world (sw_cycle w))
    \<and> wal_file (wd_journal (cw_world (sw_cycle w'))) = wal_file (wd_journal (cw_world (sw_cycle w)))
    \<and> unmoved (ss_codec ss) (Some u) (sw_cycle w')
    \<and> (fst (assert_run_manifest_compatible (sv_manifest sv) (sw_manifest w)) = Inr () \<longrightarrow> r = Inr (short_report ''COMPLETE'' (Some ''already_executed'') d))"
proof -
  obtain q m where man: "assert_run_manifest_compatible (sv_manifest sv) (sw_manifest w) = (q, m)" by fastforce
  define w1 where "w1 = w\<lparr>sw_manifest := m\<rparr>"
  have w1: "on_manifest (assert_run_manifest_compatible (sv_manifest sv)) w = (q, w1)" by (simp add: on_manifest_def sx_zoom_def man w1_def)
  show ?thesis
  proof (cases q)
    case (Inl e)
    then have "w' = w1" using assms(4) w1 by (auto simp: run_shadow_cycle_def sx_catch_def sx_bind_def sx_return_def sx_raise_def split: if_splits)
    then show ?thesis using man Inl assms(2) by (simp add: w1_def ready_def)
  next
    case (Inr _)
    have "unmoved (ss_codec ss) (Some u) (sw_cycle w1)" using assms(2) by (simp add: w1_def ready_def)
    then obtain l where load: "load_state ss (sw_cycle w1) = (Inr l, sw_cycle w1)" "ls_last_executed_decision_time l = Some u" by (rule load_state_run)
    have l: "on_cycle (load_state ss) w1 = (Inr l, w1)" "already_executed d l" using load assms(3) by (simp_all add: on_cycle_run already_executed_def)
    obtain w2 where flush: "flush_already_executed ss sv d now (sw_cycle w) = (Inr (), w2)" using flushed [OF assms(2)] by blast
    note kept = flush_keeps [OF assms(1,2) flush]
    have "on_cycle (flush_already_executed ss sv d now) w1 = (Inr (), w1\<lparr>sw_cycle := w2\<rparr>)" using flush by (simp add: on_cycle_run w1_def)
    then have "run_shadow_cycle ss sv d now w = (Inr (short_report ''COMPLETE'' (Some ''already_executed'') d), w1\<lparr>sw_cycle := w2\<rparr>)"
      unfolding run_shadow_cycle_def sx_catch_def sx_bind_def by (simp add: w1 Inr l sx_return_def)
    then have "r = Inr (short_report ''COMPLETE'' (Some ''already_executed'') d)" "sw_cycle w' = w2" using assms(4) by auto
    then show ?thesis using kept by simp
  qed
qed

text \<open>C2: over any number of cycles, in one process or in many, and however each of them ends, the journal and the
  ledger can be read afterwards, the record of the last executed decision never goes back, and the
  decisions that are reported complete follow each other in time: none is completed twice.\<close>

theorem decisions_complete_once:
  assumes "codec_ok (ss_codec ss)" and "ready (ss_codec ss) t (sw_cycle w)" and "run_cycles ss xs w = (ds, w')"
  shows "sorted_wrt (<) ds \<and> (\<forall>d \<in> set ds. newer t d) \<and> (\<exists>t'. ready (ss_codec ss) t' (sw_cycle w') \<and> stamp_le t t')"
  using assms(2,3)
proof (induction xs arbitrary: t w ds w')
  case Nil
  then show ?case by (auto simp: stamp_le_def split: option.split intro!: exI [of _ t])
next
  case (Cons x xs)
  obtain r w1 where run: "run_shadow_cycle ss (ci_env x) (ci_decision x) (ci_now x) w = (r, w1)" by fastforce
  obtain es w2 where rest: "run_cycles ss xs w1 = (es, w2)" by fastforce
  from cycle_ready [OF assms(1) Cons.prems(1) run] obtain t' where t': "ready (ss_codec ss) t' (sw_cycle w1)" "t' \<in> stamps t (ci_decision x)"
    "\<And>rp. r = Inr rp \<Longrightarrow> rp_status rp = ''COMPLETE'' \<Longrightarrow> rp_reason rp = None \<Longrightarrow> t' = Some (ci_decision x) \<and> newer t (ci_decision x)" by metis
  note ih = Cons.IH [OF t'(1) rest]
  have ds: "ds = (case r of Inl e \<Rightarrow> [] | Inr rp \<Rightarrow> if rp_status rp = ''COMPLETE'' \<and> rp_reason rp = None then [ci_decision x] else []) @ es" "w' = w2"
    using Cons.prems(2) run rest by auto
  have older: "\<forall>d \<in> set es. newer t d" using ih stamps_le [OF t'(2)] newer_mono by blast
  have final: "\<exists>t''. ready (ss_codec ss) t'' (sw_cycle w') \<and> stamp_le t t''" using ih stamps_le [OF t'(2)] stamp_le_trans ds(2) by blast
  show ?case
  proof (cases "ds = es")
    case True
    then show ?thesis using ih older final by simp
  next
    case False
    then obtain rp where "r = Inr rp" "rp_status rp = ''COMPLETE''" "rp_reason rp = None" "ds = ci_decision x # es"
      using ds(1) by (auto split: sum.splits if_splits)
    moreover from this t'(3) have "t' = Some (ci_decision x)" "newer t (ci_decision x)" by blast+
    ultimately show ?thesis using ih older final by (auto simp: newer_def)
  qed
qed

section \<open>A flat paper account\<close>

text \<open>No credentials, no holdings, one symbol without a weight; the ledger file is a parameter.\<close>

definition flat_listing :: payload where
  "flat_listing = [(''symbols'', JArr []), (''rateLimits'', JArr
     [JObj [(''rateLimitType'', JStr ''REQUEST_WEIGHT''), (''interval'', JStr ''MINUTE''), (''intervalNum'', JInt 1), (''limit'', JInt 2400)],
      JObj [(''rateLimitType'', JStr ''ORDERS''), (''interval'', JStr ''MINUTE''), (''intervalNum'', JInt 1), (''limit'', JInt 1200)],
      JObj [(''rateLimitType'', JStr ''ORDERS''), (''interval'', JStr ''SECOND''), (''intervalNum'', JInt 10), (''limit'', JInt 300)]])]"

definition flat_settings :: shadow_settings where
  "flat_settings = \<lparr>ss_cycle = paper_settings, ss_max_weights_staleness = 24 * HOUR, ss_max_signal_staleness = 24 * HOUR, ss_max_gross_leverage = 3,
     ss_max_daily_orders = 100, ss_max_daily_turnover_fraction = 1, ss_min_free_margin_fraction = 0, ss_leverage_buffer_fraction = 0,
     ss_execution_policy = ''backtest_parity'', ss_fee_schedule = \<lparr>fs_maker_fee_bps = 0, fs_taker_fee_bps = 0\<rparr>, ss_taker_slippage_bps = 0,
     ss_passive_timeout_minutes = 1, ss_repeg_interval_s = 1, ss_paper_fill_model = ''immediate_taker'', ss_cleanup_budget_s = 1,
     ss_reject_cluster_alert_min_symbols = 3, ss_exec_depth_capture_enabled = False, ss_tax_collection_enabled = False, ss_tax_max_pages = 1\<rparr>"

definition flat_env :: "unit shadow_env" where
  "flat_env = \<lparr>sv_exec = demo_env paper_entry, sv_market = \<lparr>mk_request = (\<lambda>_ _ _ v. (Inr (JArr []), v)), mk_capture = (\<lambda>v. (Inr (), v))\<rparr>,
     sv_request = (\<lambda>_ _ _ v. (Inr JNull, v)), sv_force_orders = (\<lambda>_ _ v. (Inr (JArr []), v)), sv_null_client = True,
     sv_exchange_info = (\<lambda>v. (Inr flat_listing, v)), sv_sync_time = (\<lambda>v. (Inr (), v)), sv_weights = Inr [(0, [(''BTCUSDT'', None)])],
     sv_closes = Inr (True, [(0, [(''BTCUSDT'', Price 100)])]), sv_paper = flat_inputs, sv_depth_start = (\<lambda>_ v. (Inr (), v)), sv_depth_stop = (\<lambda>v. (Inr (), v)),
     sv_tape_start = (\<lambda>_ v. (Inr (), v)),
     sv_tax_client = \<lparr>cl_user_trades = (\<lambda>_ _ _ v. (Inr (JArr []), v)), cl_income = (\<lambda>_ _ _ v. (Inr (JArr []), v))\<rparr>,
     sv_collection = \<lparr>cp_codec = plain_codec, cp_ms = (\<lambda>t. t div 1000000), cp_mode = [], cp_now = 0, cp_settlement_asset = ''USDT'', cp_income_page_limit = 3,
        cp_trades_page_limit = 2, cp_income_window = 50000000, cp_income_overlap = 1000000, cp_income_retention = 80000000\<rparr>,
     sv_manifest = \<lparr>mi_enabled = False, mi_current = Inr [], mi_resolve = (\<lambda>_. Inr JNull), mi_legacy_sha = None\<rparr>,
     sv_pre_faults = (no_faults, no_faults), sv_commit_faults = no_faults, sv_abort_faults = no_faults, sv_flush_faults = no_faults\<rparr>"

definition flat_world :: "ledger_file \<Rightarrow> unit shadow_world" where
  "flat_world f = \<lparr>sw_cycle = \<lparr>cw_world = \<lparr>wd_journal = open_journal None, wd_venue = (), wd_audit = []\<rparr>,
     cw_store = \<lparr>es_ledger = f, es_fills = [], es_tax = []\<rparr>, cw_alerts = []\<rparr>, sw_watermark = Missing, sw_manifest = Missing\<rparr>"

lemma flat_codec [simp]: "ss_cycle flat_settings = paper_settings" "codec_ok plain_codec"
  by (simp_all add: flat_settings_def plain_codec_ok)

lemma empty_wal: "wal_ok c (open_journal None)"
proof -
  have "ensure_loaded c now (open_journal None) = (Inr (), \<lparr>wal_file = None, wal_mem = empty_journal, wal_loaded = True\<rparr>)" for now
    by (simp add: ensure_loaded_def open_journal_def)
  moreover have "synced c \<lparr>wal_file = None, wal_mem = empty_journal, wal_loaded = True\<rparr>" "seq_ok empty_journal"
    by (simp_all add: synced_def empty_journal_def seq_ok_def)
  ultimately show ?thesis unfolding wal_ok_def by (metis wal.select_convs(2))
qed

lemma no_file: "wal_file (open_journal None) = None"
  by (simp add: open_journal_def)

lemma flat_ready: "saved plain_codec l f \<Longrightarrow> ready plain_codec (ls_last_executed_decision_time l) (sw_cycle (flat_world f))"
  using no_file by (auto simp: flat_world_def ready_def unmoved_def empty_wal)

lemma flat_start: "ready plain_codec None (sw_cycle (flat_world Missing))"
proof -
  have norm: "ledger_norm (empty_ledger\<lparr>ls_recorded := - 1\<rparr>) = empty_ledger" by (simp add: ledger_norm_def empty_ledger_def)
  have "load_ledger plain_codec Missing = Inr empty_ledger" by (simp add: load_ledger_def)
  then have "saved plain_codec empty_ledger Missing" unfolding saved_def using norm by (metis loaded_ok)
  from flat_ready [OF this] show ?thesis by (simp add: empty_ledger_def)
qed

section \<open>The cycle of the flat account\<close>

lemma flat_filters: "parse_exchange_filters plain_codec flat_listing = Inr []"
  by (simp add: parse_exchange_filters_def required_def flat_listing_def)

lemma flat_limits: "parse_rate_limits plain_codec flat_listing = Inr \<lparr>rl_request_weight_1m = 2400, rl_orders_1m = 1200, rl_orders_10s = 300\<rparr>"
  by (simp add: parse_rate_limits_def flat_listing_def obj_get_def rate_limit_entry_def interval_seconds_def py_upper_def char_upper_def Let_def)

abbreviation flat_venue :: venue_view where
  "flat_venue \<equiv> \<lparr>vv_info = flat_listing, vv_filters = [], vv_limits = \<lparr>rl_request_weight_1m = 2400, rl_orders_1m = 1200, rl_orders_10s = 300\<rparr>, vv_snapshot = synthetic_flat_snapshot (Aware HOUR)\<rparr>"

lemma flat_view: "view_venue flat_settings flat_env HOUR w = (Inr flat_venue, w)"
  by (simp add: view_venue_def flat_env_def on_venue_run sx_defs flat_filters flat_limits assert_venue_configuration_def synthetic_flat_snapshot_def)

lemma flat_market:
  "view_market flat_settings (sv_market flat_env) (sv_closes flat_env) 0 [(''BTCUSDT'', None)] [] w = (Inr \<lparr>mv_wanted = [''BTCUSDT''], mv_marks = [], mv_decision_marks = [(''BTCUSDT'', 100)]\<rparr>, w)"
  by (simp add: view_market_def marks_from_tickers_def book_tickers_def flat_env_def on_venue_run sx_defs sx_catch_def sorted_set_def quotes_of_def latest_decision_ohlcv_close_def
     present_cells_def close_price_def tz_aware_simps Let_def map_filter_def)

abbreviation flat_journal :: wal where "flat_journal \<equiv> \<lparr>wal_file = None, wal_mem = empty_journal, wal_loaded = True\<rparr>"

lemma empty_journal_parts [simp]: "oj_submits empty_journal = []" "oj_fills empty_journal = []" "oj_next_fill_seq empty_journal = 0"
  by (simp_all add: empty_journal_def)

lemma flat_query:
  "query_journal plain_codec n g (open_journal None) = (Inr (g empty_journal), flat_journal)"
  "query_journal plain_codec n g flat_journal = (Inr (g empty_journal), flat_journal)"
  by (simp_all add: query_journal_def ensure_loaded_def open_journal_def sx_defs)

abbreviation flat_loaded :: "unit world" where "flat_loaded \<equiv> \<lparr>wd_journal = flat_journal, wd_venue = (), wd_audit = []\<rparr>"

abbreviation nothing_swept :: orphan_sweep where "nothing_swept \<equiv> \<lparr>os_fills = [], os_foreign_symbols = [], os_unconfirmed = []\<rparr>"

lemma flat_settle:
  "settle_orders paper_settings (order_client flat_env) now flat_loaded = (Inr (nothing_swept, \<lparr>us_recovered = [], us_resolved_ids = [], us_still_open = []\<rparr>), flat_loaded)"
  by (simp add: settle_orders_def cancel_orphan_orders_def recover_unresolved_orders_def settle_unresolved_orders_def sx_bind_def sx_return_def order_client_def null_order_client_def
      submits_def unresolved_submits_def on_journal_run on_venue_run flat_query flat_env_def unresolved_mem_def empty_report_def)

lemma flat_commit:
  assumes "cw_world w = flat_loaded" "ls_applied l = - 1" "ls_recorded l = - 1"
  shows "commit_cycle paper_settings vc faults (plain_commit fb None) l w = (Inr l, w)"
proof -
  have "w\<lparr>cw_world := flat_loaded\<rparr> = w" using assms(1) by (metis cycle_world.surjective cycle_world.update_convs(1) cycle_world.select_convs(1))
  then show ?thesis using assms by (simp add: commit_cycle_def sx_bind_def on_world_run on_store_run on_journal_run flat_query plain_commit_def commit_and_record_def
      commit_fills_def record_fills_def touch_ledger_def on_ledger_def fills_after_mem_def sx_return_def Let_def)
qed

lemma flat_account: "reconcile_account paper_settings cl faults fb now (synthetic_flat_snapshot t) info foreign l w = (Inr (l, []), w)"
  by (simp add: reconcile_account_def suppresses_mutations_def assert_suppressed_venue_flat_def synthetic_flat_snapshot_def guard_res_def sx_bind_def sx_lift_def sx_return_def)

lemma flat_pre_trade:
  assumes "wd_journal (cw_world w) = open_journal None" "wd_audit (cw_world w) = []" "ls_applied l = - 1" "ls_recorded l = - 1"
  shows "reconcile_pre_trade paper_settings (reconcile_client flat_env) faults d now (synthetic_flat_snapshot t) info l w
     = (Inr \<lparr>pt_ledger_state = l, pt_sweep = nothing_swept, pt_derisk_reasons = [], pt_frozen_symbols = []\<rparr>, w\<lparr>cw_world := flat_loaded\<rparr>)"
proof -
  have w: "cw_world w = \<lparr>wd_journal = open_journal None, wd_venue = (), wd_audit = []\<rparr>" using assms(1,2) by simp
  show ?thesis
    by (simp add: reconcile_pre_trade_def reconcile_client_def sx_bind_def on_world_run on_journal_run last_fill_seq_def flat_query w assms(3,4) flat_settle flat_commit flat_account
        record_unresolved_orders_def dedupe_orders_def sx_return_def Let_def)
qed

definition accrued_ledger :: ledger_state where "accrued_ledger = empty_ledger\<lparr>ls_funding_accrued_through := Some HOUR\<rparr>"

lemma flat_listed: "held_symbols_absent_from_exchange plain_codec [] flat_listing = Inr []"
  by (simp add: held_symbols_absent_from_exchange_def flat_listing_def required_def Let_def)

lemma flat_delisted: "delisted_held_symbols plain_codec [] flat_listing HOUR = Inr []"
  by (simp add: delisted_held_symbols_def parse_delivery_schedule_def flat_listing_def required_def)

lemma flat_accrual:
  "accrue_ledger_funding paper_settings flat_inputs HOUR [] empty_ledger w
     = (Inr (accrued_ledger, \<lparr>fa_cash_delta = 0, fa_watermarks = [], fa_lag_by_symbol = [], fa_interval_by_symbol = [], fa_events = []\<rparr>, []),
        w\<lparr>cw_store := (cw_store w)\<lparr>es_ledger := Document (ledger_json plain_codec (accrued_ledger))\<rparr>\<rparr>)"
  by (simp add: accrue_ledger_funding_def accrual_start_def empty_ledger_def accrue_funding_by_watermark_def current_positions_def sorted_set_def sx_defs sx_when_def Let_def
      funding_tax_records_def on_store_run on_ledger_def save_ledger_def accrued_ledger_def)

lemma flat_paper:
  "settle_paper paper_settings flat_inputs flat_listing HOUR empty_ledger w
     = (Inr \<lparr>px_ledger_state = accrued_ledger, px_cash_before = None, px_funding_records = [], px_settlement_records = []\<rparr>,
        w\<lparr>cw_store := (cw_store w)\<lparr>es_ledger := Document (ledger_json plain_codec (accrued_ledger))\<rparr>\<rparr>)"
proof -
  have l: "ls_positions empty_ledger = []" "ls_cash_usdt empty_ledger = None" by (simp_all add: empty_ledger_def)
  show ?thesis
    by (simp add: settle_paper_def l flat_listed flat_delisted flat_accrual sx_bind_def sx_lift_def sx_return_def enforce_funding_lag_def sx_when_def)
qed

lemma paper_suppressed [simp]: "suppresses_mutations PAPER" "ro_starting_capital (cs_record paper_settings) = 1000"
  by (simp_all add: suppresses_mutations_def paper_settings_def paper_options_def)

lemma flat_limit: "tc_dec plain_codec (py_str plain_codec (JFloat x)) = DecFinite 0"
  by (simp add: plain_codec_def py_str_def untally_rat_def untally_int_def Fract_of_int_quotient)

lemma flat_sized:
  "size_and_plan flat_settings (synthetic_flat_snapshot (Aware HOUR)) [] [(''BTCUSDT'', None)] \<lparr>mv_wanted = [''BTCUSDT''], mv_marks = [], mv_decision_marks = [(''BTCUSDT'', 100)]\<rparr> (accrued_ledger) run_id w
     = (Inr \<lparr>sp_equity = 1000, sp_targets = [], sp_dropped_fraction = 0, sp_intents = []\<rparr>, w)"
proof -
  have l: "ls_positions (accrued_ledger) = []" "ls_cash_usdt (accrued_ledger) = None" by (simp_all add: accrued_ledger_def empty_ledger_def)
  have equity: "resolve_sizing_equity a 1000 True None (Some []) m f = Inr 1000" for a f and m :: "(string, decimal) dict option"
    by (cases m) (simp_all add: resolve_sizing_equity_def)
  have fraction: "dropped_fraction 1000 [(''BTCUSDT'', None)] [] [] = Inr 0" by (simp add: dropped_fraction_def dadd_def d28.rnd_0 List.map_filter_simps)
  have gates: "check_risk_gates flat_settings [] [] [] 1000 = Inr ()"
    by (simp add: check_risk_gates_def within_equity_def valued_def List.map_filter_simps ddiv_def d28.rnd_0 guard_res_def float_decimal_def py_decimal_def flat_limit)
      (simp add: flat_settings_def)
  show ?thesis
    by (simp add: size_and_plan_def audit_sizing_mark_fallbacks_def audit_risk_blocked_def l sx_bind_def sx_lift_def sx_return_def equity fraction target_quantities_def sizing_step_def size_symbol_def plan_orders_def
        effective_positions_def sorted_set_def gates Let_def)
qed

lemma flat_restricted:
  "restrict_plan flat_settings req account \<lparr>pt_ledger_state = l, pt_sweep = nothing_swept, pt_derisk_reasons = [], pt_frozen_symbols = []\<rparr> [] w
     = (Inr \<lparr>rs_kept = [], rs_reasons = [], rs_blocked = 0, rs_frozen_blocked = 0\<rparr>, w)"
proof -
  have same: "w\<lparr>cw_world := cw_world w\<rparr> = w" by simp
  have "apply_unresolved_freeze [] [] w = (Inr ([], 0), w)"
    by (simp add: apply_unresolved_freeze_def freeze_unresolved_symbols_def Let_def sx_bind_def sx_return_def)
  then show ?thesis using same
    by (simp add: restrict_plan_def margin_reasons_def cap_leverage_def on_world_run sx_bind_def sx_lift_def sx_return_def)
qed

abbreviation flat_prepared :: prepared where
  "flat_prepared \<equiv> \<lparr>pd_venue = flat_venue, pd_reconciliation = \<lparr>pt_ledger_state = empty_ledger, pt_sweep = nothing_swept, pt_derisk_reasons = [], pt_frozen_symbols = []\<rparr>,
     pd_market = \<lparr>mv_wanted = [''BTCUSDT''], mv_marks = [], mv_decision_marks = [(''BTCUSDT'', 100)]\<rparr>,
     pd_paper = \<lparr>px_ledger_state = accrued_ledger, px_cash_before = None, px_funding_records = [], px_settlement_records = []\<rparr>,
     pd_sized = \<lparr>sp_equity = 1000, sp_targets = [], sp_dropped_fraction = 0, sp_intents = []\<rparr>,
     pd_restricted = \<lparr>rs_kept = [], rs_reasons = [], rs_blocked = 0, rs_frozen_blocked = 0\<rparr>\<rparr>"

abbreviation flat_first :: "unit shadow_world" where "flat_first \<equiv> flat_world Missing"

definition flat_after :: "unit cycle_world" where
  "flat_after = \<lparr>cw_world = flat_loaded, cw_store = \<lparr>es_ledger = Document (ledger_json plain_codec (accrued_ledger)), es_fills = [], es_tax = []\<rparr>, cw_alerts = []\<rparr>"

lemma flat_prepare:
  "prepare_cycle flat_settings flat_env 0 HOUR 0 [(''BTCUSDT'', None)] (sw_cycle flat_first) = (Inr flat_prepared, flat_after)"
proof -
  let ?w = "sw_cycle flat_first"
  have venue: "on_world (view_venue flat_settings flat_env HOUR) ?w = (Inr flat_venue, ?w)" by (simp add: on_world_run flat_view)
  have load: "load_state flat_settings ?w = (Inr empty_ledger, ?w)" by (simp add: load_state_def sx_defs flat_world_def load_ledger_def)
  have journal: "open_cycle_journal ?w = (Inr (), ?w)" by (simp add: open_cycle_journal_def sx_modify_def flat_world_def no_file)
  have e: "ls_applied empty_ledger = - 1" "ls_recorded empty_ledger = - 1" "ls_positions empty_ledger = []" by (simp_all add: empty_ledger_def)
  let ?w1 = "?w\<lparr>cw_world := flat_loaded\<rparr>"
  have pre: "reconcile_pre_trade paper_settings (reconcile_client flat_env) (sv_pre_faults flat_env) 0 HOUR (synthetic_flat_snapshot (Aware HOUR)) flat_listing empty_ledger ?w
      = (Inr (pd_reconciliation flat_prepared), ?w1)"
    by (simp add: flat_pre_trade e flat_world_def)
  have market: "on_world (view_market flat_settings (sv_market flat_env) (sv_closes flat_env) 0 [(''BTCUSDT'', None)] []) ?w1 = (Inr (pd_market flat_prepared), ?w1)"
    by (simp add: on_world_run flat_market)
  have paper: "paper_postings flat_settings flat_env flat_listing HOUR empty_ledger ?w1 = (Inr (pd_paper flat_prepared), flat_after)"
    using flat_paper [of ?w1] by (simp add: paper_postings_def flat_env_def flat_after_def flat_world_def)
  have size: "on_world (size_and_plan flat_settings (synthetic_flat_snapshot (Aware HOUR)) [] [(''BTCUSDT'', None)] (pd_market flat_prepared) (accrued_ledger) run_id) flat_after = (Inr (pd_sized flat_prepared), flat_after)" for run_id
    by (simp add: on_world_run flat_sized)
  show ?thesis
    unfolding prepare_cycle_def sx_bind_def
    by (simp add: venue load journal pre [simplified] market [simplified] paper [simplified] size [simplified] flat_restricted sx_return_def effective_positions_def e)
qed

lemma flat_attempt:
  "\<exists>a j. begin_attempt plain_codec n r flat_journal = (Inr a, j) \<and> wal_loaded j \<and> oj_fills (wal_mem j) = []" if "ar_decision_time r = Aware d" "ar_started_at r = Aware s" for r
  using that by (simp add: begin_attempt_def ensure_loaded_def check_attempt_def commit_record_def ensure_v2_schema_def append_record_def modify_mem_def sx_defs Let_def
      add_attempt_def put_attempt_def empty_journal_def)

lemma flat_commit_stamped:
  assumes "wal_loaded (wd_journal (cw_world w))" "oj_fills (mem (cw_world w)) = []" "ls_recorded l = - 1"
  shows "\<exists>l' u. commit_cycle paper_settings vc faults args l w = (Inr l', u)"
  using assms
  by (simp add: commit_cycle_def query_journal_def ensure_loaded_def sx_bind_def sx_gets_def on_world_run on_store_run on_journal_run commit_and_record_def
      commit_fills_def record_fills_def touch_ledger_def save_state_def save_ledger_def sx_modify_def on_ledger_def fills_after_mem_def sx_return_def Let_def split: prod.split)

lemma flat_floats: "fl 360 = 360" "0 < fl (7 / 20)" "fl (7 / 20) < 1 / 2"
  by code_simp+

lemma flat_policy: "\<exists>policy. select_policy flat_settings = Inr policy"
  using flat_floats
  by (simp add: select_policy_def flat_settings_def backtest_parity_execution_policy_def make_policy_def default_policy_def policy_ok_def PASSIVE_PRICINGS_def EXECUTION_BAR_SECONDS_def)

lemma flat_attempted:
  assumes "wal_loaded (wd_journal (cw_world w))" "oj_fills (mem (cw_world w)) = []" "ev_shutdown env (Venue.wd_venue (cw_world w)) = False"
  shows "\<exists>u. attempt_execution flat_settings sv env flat_prepared d att w = (Inr (Inr []), u)"
proof -
  have run: "run_intents flat_settings env flat_prepared att w = (Inr (Inr [], []), w)"
    using assms(3) by (simp add: run_intents_def execute_intents_def execute_immediate_taker_def flat_settings_def sx_defs Let_def)
  have alert: "alert_outcomes flat_settings [] w = (Inr (), w)"
    by (simp add: alert_outcomes_def alert_reject_cluster_def alert_flip_blocked_def sorted_set_def List.map_filter_simps sx_defs)
  have "ls_recorded (accrued_ledger) = - 1" by (simp add: accrued_ledger_def empty_ledger_def)
  from flat_commit_stamped [OF assms(1,2) this] obtain l' u where
    "commit_cycle paper_settings (order_client sv) (sv_commit_faults sv) (commit_args_of flat_prepared att d) (accrued_ledger) w = (Inr l', u)" by blast
  then show ?thesis by (simp add: attempt_execution_def sx_bind_def run sx_catch_def sx_lift_def alert sx_return_def)
qed

lemma flat_execute: "\<exists>u. execute_plan flat_settings flat_env 0 HOUR flat_prepared flat_after = (Inr (Inr []), u)"
proof -
  obtain policy where policy: "select_policy flat_settings = Inr policy" using flat_policy by blast
  have flat: "ls_positions (accrued_ledger) = []" by (simp add: accrued_ledger_def empty_ledger_def)
  have audit: "\<exists>w'. cw_audit e s k st w = (Inr (), w') \<and> wd_journal (cw_world w') = wd_journal (cw_world w)" for e s k st and w :: "unit cycle_world"
    by (simp add: cw_audit_def on_world_run audit_record_def sx_modify_def)
  obtain w1 where w1: "on_world (start_depth flat_settings flat_env []) flat_after = (Inr (), w1)" "wd_journal (cw_world w1) = flat_journal"
    using audit [of "''exec_depth_skipped''" "[]" "[]" "''disabled''" flat_after] by (auto simp: start_depth_def flat_settings_def cw_audit_def flat_after_def)
  obtain w2 where w2: "cw_audit ''execution_policy_selected'' [] [] (ss_execution_policy flat_settings) w1 = (Inr (), w2)" "wd_journal (cw_world w2) = flat_journal"
    using audit [of "''execution_policy_selected''" "[]" "[]" "ss_execution_policy flat_settings" w1] w1(2) by auto
  have tape: "on_world (start_tape flat_settings flat_env []) w2 = (Inr (), w2)" by (simp add: start_tape_def uses_tape_def sx_when_def sx_return_def on_world_run)
  let ?r = "attempt_request_of flat_settings flat_prepared 0 HOUR"
  have dates: "ar_decision_time ?r = Aware 0" "ar_started_at ?r = Aware HOUR" by (simp_all add: attempt_request_of_def)
  obtain a j where j: "begin_attempt plain_codec (vc_now (order_client flat_env) ()) ?r flat_journal = (Inr a, j)" "wal_loaded j" "oj_fills (wal_mem j) = []"
    using flat_attempt [OF dates] by blast
  define w3 where "w3 = w2\<lparr>cw_world := (cw_world w2)\<lparr>wd_journal := j\<rparr>\<rparr>"
  have opened: "on_world (on_journal (order_client flat_env) (\<lambda>clock. begin_attempt plain_codec clock ?r)) w2 = (Inr a, w3)"
    by (simp add: on_world_run on_journal_run w2(2) j(1) w3_def)
  have "\<exists>u. attempt_execution flat_settings flat_env (cycle_exec_env flat_settings flat_env policy (vv_limits flat_venue) []) flat_prepared 0 a w3 = (Inr (Inr []), u)"
    using j(2,3) by (intro flat_attempted) (simp_all add: w3_def cycle_exec_env_def flat_env_def demo_env_def)
  then show ?thesis
    by (simp add: execute_plan_def sx_bind_def w1 policy sx_lift_def w2 tape opened effective_positions_def flat uncovered_positions_def List.map_filter_simps sx_return_def)
qed

lemma flat_gate: "gate_signal flat_settings (sv_weights flat_env) 0 HOUR = Inr (0, [(''BTCUSDT'', None)])"
  by (simp add: gate_signal_def latest_target_weights_def weights_asof_def frame_empty_def on_grid_def flat_env_def flat_settings_def assert_signal_available_def assert_signal_fresh_def SIGNAL_LAG_def
      guard_res_def tz_aware_simps HOUR_def)

lemma flat_finish: "\<exists>u. finish_cycle flat_settings flat_env 0 HOUR flat_prepared [] w = (Inr (cycle_report_of flat_prepared 0 []), u)"
  by (simp add: finish_cycle_def collect_live_tax_def ensure_run_manifest_def on_manifest_def sx_zoom_run flat_env_def flat_settings_def degraded_def sx_when_def sx_defs on_cycle_run
      cw_audit_def on_world_run audit_record_def)

lemma flat_complete:
  "\<exists>u. run_shadow_cycle flat_settings flat_env 0 HOUR flat_first = (Inr (cycle_report_of flat_prepared 0 []), u)"
proof -
  have manifest: "on_manifest (assert_run_manifest_compatible (sv_manifest flat_env)) flat_first = (Inr (), flat_first)"
    by (simp add: on_manifest_def sx_zoom_run assert_run_manifest_compatible_def flat_env_def flat_world_def sx_defs)
  have load: "on_cycle (load_state flat_settings) flat_first = (Inr empty_ledger, flat_first)"
    by (simp add: on_cycle_run load_state_def sx_defs flat_world_def load_ledger_def)
  obtain u where u: "execute_plan flat_settings flat_env 0 HOUR flat_prepared flat_after = (Inr (Inr []), u)" using flat_execute by blast
  have prepare: "on_cycle (prepare_cycle flat_settings flat_env 0 HOUR 0 [(''BTCUSDT'', None)]) flat_first = (Inr flat_prepared, flat_first\<lparr>sw_cycle := flat_after\<rparr>)"
    by (simp add: on_cycle_run flat_prepare)
  have execute: "on_cycle (execute_plan flat_settings flat_env 0 HOUR flat_prepared) (flat_first\<lparr>sw_cycle := flat_after\<rparr>) = (Inr (Inr []), flat_first\<lparr>sw_cycle := u\<rparr>)"
    by (simp add: on_cycle_run u)
  have fresh: "\<not> already_executed 0 empty_ledger" by (simp add: already_executed_def empty_ledger_def)
  obtain v where v: "finish_cycle flat_settings flat_env 0 HOUR flat_prepared [] (flat_first\<lparr>sw_cycle := u\<rparr>) = (Inr (cycle_report_of flat_prepared 0 []), v)"
    using flat_finish by blast
  show ?thesis
    unfolding run_shadow_cycle_def trade_decision_def sx_catch_def sx_bind_def
    by (simp add: manifest load fresh flat_gate sx_lift_def prepare execute v)
qed

section \<open>The guarantees at work\<close>

definition stamped_ledger :: ledger_state where "stamped_ledger = empty_ledger\<lparr>ls_last_executed_decision_time := Some 7, ls_applied := 2\<rparr>"

theorem executed_decision_not_traded_witness:
  "\<exists>w'. run_shadow_cycle flat_settings flat_env 7 (30 * HOUR) (flat_world (Document (ledger_json plain_codec stamped_ledger)))
       = (Inr (short_report ''COMPLETE'' (Some ''already_executed'') 7), w')
     \<and> wal_file (wd_journal (cw_world (sw_cycle w'))) = None \<and> unmoved plain_codec (Some 7) (sw_cycle w')"
proof -
  let ?w = "flat_world (Document (ledger_json plain_codec stamped_ledger))"
  obtain r w' where run: "run_shadow_cycle flat_settings flat_env 7 (30 * HOUR) ?w = (r, w')" by fastforce
  have ready: "ready plain_codec (Some 7) (sw_cycle ?w)" using flat_ready [OF saved_document [OF flat_codec(2)], of stamped_ledger] by (simp add: stamped_ledger_def empty_ledger_def ledger_ok_def)
  have manifest: "fst (assert_run_manifest_compatible (sv_manifest flat_env) (sw_manifest ?w)) = Inr ()"
    by (simp add: assert_run_manifest_compatible_def flat_env_def sx_defs)
  have unwritten: "wal_file (wd_journal (cw_world (sw_cycle ?w))) = None" by (simp add: flat_world_def no_file)
  show ?thesis using executed_decision_not_traded [of flat_settings 7 ?w 7 flat_env, OF _ _ _ run] ready manifest unwritten run by auto
qed


theorem cycle_report_matches_ledger_witness:
  "\<exists>w' l. run_shadow_cycle flat_settings flat_env 0 HOUR flat_first = (Inr (cycle_report_of flat_prepared 0 []), w')
     \<and> rp_status (cycle_report_of flat_prepared 0 []) = ''COMPLETE''
     \<and> saved plain_codec l (ledger_of (sw_cycle w')) \<and> ls_last_executed_decision_time l = Some 0"
proof -
  obtain w' where run: "run_shadow_cycle flat_settings flat_env 0 HOUR flat_first = (Inr (cycle_report_of flat_prepared 0 []), w')" using flat_complete by blast
  have report: "rp_status (cycle_report_of flat_prepared 0 []) = ''COMPLETE''" "rp_reason (cycle_report_of flat_prepared 0 []) = None"
    by (simp_all add: cycle_report_of_def degraded_def)
  have "codec_ok (ss_codec flat_settings)" "ready (ss_codec flat_settings) None (sw_cycle flat_first)" using flat_start by simp_all
  from cycle_report_matches_ledger [OF this run] obtain l where "saved plain_codec l (ledger_of (sw_cycle w'))" "ls_last_executed_decision_time l = Some 0"
    using report by auto
  then show ?thesis using run report(1) by blast
qed

theorem decisions_complete_once_witness:
  "\<exists>w' t'. run_cycles flat_settings [\<lparr>ci_env = flat_env, ci_decision = 0, ci_now = HOUR\<rparr>, \<lparr>ci_env = flat_env, ci_decision = 0, ci_now = 2 * HOUR\<rparr>] flat_first = ([0], w')
     \<and> ready plain_codec t' (sw_cycle w')"
proof -
  let ?xs = "[\<lparr>ci_env = flat_env, ci_decision = 0, ci_now = HOUR\<rparr>, \<lparr>ci_env = flat_env, ci_decision = 0, ci_now = 2 * HOUR\<rparr>]"
  obtain w1 where first: "run_shadow_cycle flat_settings flat_env 0 HOUR flat_first = (Inr (cycle_report_of flat_prepared 0 []), w1)" using flat_complete by blast
  have report: "rp_status (cycle_report_of flat_prepared 0 []) = ''COMPLETE''" "rp_reason (cycle_report_of flat_prepared 0 []) = None"
    by (simp_all add: cycle_report_of_def degraded_def)
  obtain r w2 where second: "run_shadow_cycle flat_settings flat_env 0 (2 * HOUR) w1 = (r, w2)" by fastforce
  obtain ds where run: "run_cycles flat_settings ?xs flat_first = (0 # ds, w2)" "ds = [] \<or> ds = [0]"
    using report by (simp add: first second split: sum.split)
  have "codec_ok (ss_codec flat_settings)" "ready (ss_codec flat_settings) None (sw_cycle flat_first)" using flat_start by simp_all
  from decisions_complete_once [OF this run(1)] run show ?thesis by auto
qed

end
