(* ===== verification/Executor_Limits.thy ===== *)
theory Executor_Limits
  imports Executor_Safety
begin

text \<open>
  No overfill.  For quantities on the grid of the symbol, the filled quantity together with what is
  still open at the venue never exceeds the quantity of the intent, whatever the venue answers.
\<close>

section \<open>The room an intent has\<close>

definition rt_room where
  "rt_room rt = (rt_intent rt, rt_filters rt, (rt_active_id rt, rt_active_post_qty rt, rt_reported_executed rt),
     (rt_unresolved_id rt, rt_unresolved_post_qty rt), rt_filled_total rt)"

text \<open>\<open>e\<close> gives the exponent of the quantity step of a symbol; what the venue reports as executed is on that grid.\<close>

definition on_grid :: "(string \<Rightarrow> int) \<Rightarrow> 'v exec_env \<Rightarrow> bool" where
  "on_grid e env \<longleftrightarrow> (\<forall>sy p q. answered env sy p \<longrightarrow> executed_of (ev_codec env) p = Inr q \<longrightarrow> grid (e sy) q)"

definition fits :: "(string \<Rightarrow> int) \<Rightarrow> 'v exec_env \<Rightarrow> intent_runtime \<Rightarrow> bool" where
  "fits e env rt \<longleftrightarrow> (let k = e (rt_symbol rt); room = oi_quantity (rt_intent rt) in
     on_grid e env \<and> grid k room \<and> (\<forall>f. rt_filters rt = Some f \<longrightarrow> sf_step_size f = pow10 k)
     \<and> grid k (rt_filled_total rt) \<and> 0 \<le> rt_filled_total rt \<and> rt_filled_total rt \<le> room
     \<and> (rt_active_id rt \<noteq> None \<longrightarrow> grid k (rt_active_post_qty rt) \<and> grid k (rt_reported_executed rt) \<and> 0 \<le> rt_reported_executed rt
          \<and> rt_reported_executed rt \<le> rt_active_post_qty rt \<and> rt_filled_total rt - rt_reported_executed rt + rt_active_post_qty rt \<le> room)
     \<and> (rt_unresolved_id rt \<noteq> None \<longrightarrow> rt_active_id rt = None \<and> grid k (rt_unresolved_post_qty rt) \<and> 0 \<le> rt_unresolved_post_qty rt
          \<and> rt_filled_total rt + rt_unresolved_post_qty rt \<le> room))"

lemma fits_room: "rt_room a = rt_room b \<Longrightarrow> fits e env a = fits e env b"
  by (simp add: rt_room_def fits_def rt_symbol_def)

lemma fits_move: "fits e env a \<Longrightarrow> rt_room a = rt_room b \<Longrightarrow> fits e env b"
  using fits_room by blast

lemma core_room: "rt_core a = rt_core b \<Longrightarrow> rt_room a = rt_room b"
  by (simp add: core_defs rt_room_def)

text \<open>Operations that do not move the room.\<close>

lemma room_modify: "(\<And>rt. rt_room (f rt) = rt_room rt) \<Longrightarrow> sx_inv (\<lambda>s. P (rt_room (cl_rt s))) (upd_rt f)"
  by (rule sx_inv_modify) simp

lemma room_audit: "sx_inv (\<lambda>s. P (rt_room (cl_rt s))) (rt_audit ev cid st)"
  unfolding rt_audit_def by (intro sx_rules on_journal_rt)

lemma room_terminal: "sx_inv (\<lambda>s. P (rt_room (cl_rt s))) (journal_terminal_once env oid st)"
  unfolding journal_terminal_once_def by (intro sx_rules room_modify on_journal_rt) (simp add: rt_room_def)

lemma room_submission: "sx_inv (\<lambda>s. P (rt_room (cl_rt s))) (journal_submission env oid n q)"
  unfolding journal_submission_def
  by (intro sx_rules room_modify on_journal_rt, rule sx_inv_modify) (simp_all add: rt_room_def)

lemma room_set_terminal: "sx_inv (\<lambda>s. P (rt_room (cl_rt s))) (set_terminal st now)"
  unfolding set_terminal_def by (rule room_modify) (simp add: rt_room_def)

lemma room_end_rejected: "sx_inv (\<lambda>s. P (rt_room (cl_rt s))) (end_rejected env now code oid)"
  unfolding end_rejected_def by (intro sx_rules room_terminal room_audit room_modify) (simp add: rt_room_def)

lemma room_handle_error: "sx_inv (\<lambda>s. P (rt_room (cl_rt s))) (handle_post_error env code http oid now)"
proof -
  have "sx_inv (\<lambda>s. P (rt_room (cl_rt s))) (sx_modify (cl_cycle_update f))" for f by (rule sx_inv_modify) simp
  then show ?thesis unfolding handle_post_error_def Let_def
    by (intro sx_rules room_terminal room_audit room_modify room_end_rejected) (simp_all add: rt_room_def)
qed

lemma room_recorded: "sx_inv (\<lambda>s. P (rt_room (cl_rt s))) (record_order_posted oid tif)"
  unfolding record_order_posted_def by (intro sx_rules room_audit room_modify) (simp add: rt_room_def)

lemma room_sub_minimum: "sx_inv (\<lambda>s. P (rt_room (cl_rt s))) (end_sub_minimum now)"
  unfolding end_sub_minimum_def by (intro sx_rules room_audit room_set_terminal)

lemma room_paper_fill:
  "sx_triple (\<lambda>s. P (rt_room (cl_rt s))) (paper_gtx_fill env touch price qty now) (\<lambda>fill s. P (rt_room (cl_rt s)) \<and> (fill = 0 \<or> fill = qty)) (\<lambda>_ s. P (rt_room (cl_rt s)))"
proof -
  have "sx_inv (\<lambda>s. P (rt_room (cl_rt s))) note_paper_tape_degraded"
    by (auto simp: note_paper_tape_degraded_def rt_audit_def sx_triple_def sx_defs sx_zoom_def audit_record_def Let_def)
  then have "sx_inv (\<lambda>s. P (rt_room (cl_rt s))) (paper_gtx_fill env touch price qty now)"
    unfolding paper_gtx_fill_def by (intro sx_rules)
  then show ?thesis
    by (rule sx_triple_post) (rule paper_gtx_result)
qed

text \<open>The same for a property that only looks at the room.\<close>

lemma paper_fill_keeps:
  assumes "\<And>a b. rt_room a = rt_room b \<Longrightarrow> Q a \<Longrightarrow> Q b"
  shows "sx_triple (\<lambda>s. Q (cl_rt s)) (paper_gtx_fill env touch price qty now) (\<lambda>fill s. Q (cl_rt s) \<and> (fill = 0 \<or> fill = qty)) (\<lambda>_ s. Q (cl_rt s))"
  by (rule sx_conseq [OF room_paper_fill [of "\<lambda>r. \<exists>a. rt_room a = r \<and> Q a"]]) (auto intro: assms)

section \<open>Fills\<close>

text \<open>The open quantity taken by a fill.\<close>

definition takes :: "(string \<Rightarrow> int) \<Rightarrow> decimal \<Rightarrow> decimal \<Rightarrow> intent_runtime \<Rightarrow> bool" where
  "takes e q cum rt \<longleftrightarrow> rt_active_id rt \<noteq> None \<and> 0 < q \<and> grid (e (rt_symbol rt)) q \<and> grid (e (rt_symbol rt)) cum
     \<and> cum = rt_reported_executed rt + q \<and> cum \<le> rt_active_post_qty rt"

lemma takes_room: "takes e q cum a \<Longrightarrow> rt_room a = rt_room b \<Longrightarrow> takes e q cum b"
  by (auto simp: takes_def rt_room_def rt_symbol_def)

lemma fill_fits:
  "sx_triple (\<lambda>s. fits e env (cl_rt s) \<and> takes e q cum (cl_rt s)) (apply_execution_fill env q p l cid cum sim now)
     (\<lambda>_ s. fits e env (cl_rt s) \<and> rt_active_id (cl_rt s) \<noteq> None) (\<lambda>_ s. fits e env (cl_rt s))"
proof -
  let ?P = "\<lambda>s. fits e env (cl_rt s) \<and> takes e q cum (cl_rt s)"
  have keep: "sx_triple ?P m (\<lambda>_. ?P) (\<lambda>_ s. fits e env (cl_rt s))" if "sx_inv ?P m" for m :: "('a cell, 'b) sx"
    by (rule sx_conseq [OF that]) auto
  have step: "fits e env (rt\<lparr>rt_filled_total := dadd (rt_filled_total rt) q, rt_fill_notional := n, rt_reported_executed := cum, rt_fills := fs\<rparr>)
      \<and> rt_active_id rt \<noteq> None" if rt: "fits e env rt" "takes e q cum rt" for rt n fs
  proof -
    let ?k = "e (rt_symbol rt)"
    have w: "grid ?k (oi_quantity (rt_intent rt))" "grid ?k (rt_filled_total rt)" "grid ?k q" "0 \<le> rt_filled_total rt + q"
        "rt_filled_total rt + q \<le> oi_quantity (rt_intent rt)"
      using rt by (auto simp: fits_def takes_def Let_def)
    have "dadd (rt_filled_total rt) q = rt_filled_total rt + q" "grid ?k (rt_filled_total rt + q)"
      using dadd_grid [OF w] grid_sum [OF w] by simp_all
    with rt w show ?thesis by (auto simp: fits_def takes_def Let_def rt_symbol_def)
  qed
  let ?Q = "\<lambda>s. fits e env (cl_rt s) \<and> rt_active_id (cl_rt s) \<noteq> None"
  have audits: "sx_triple ?Q (rt_audit ev k st) (\<lambda>_. ?Q) (\<lambda>_ s. fits e env (cl_rt s))" for ev k st
  proof -
    have "sx_inv (\<lambda>s. ?Q s) (rt_audit ev k st)" unfolding rt_audit_def by (intro sx_rules on_journal_rt)
    then show ?thesis by (rule sx_conseq) auto
  qed
  show ?thesis unfolding apply_execution_fill_def Let_def
    by (intro sx_triple_if sx_triple_raise sx_triple_peek sx_triple_seq [OF keep [OF sx_inv_pure(3)]] sx_triple_seq [OF keep]
        sx_triple_seq [OF sx_triple_modify [where Q = "\<lambda>_. ?Q"]] audits sx_inv_when sx_inv_bind on_journal_rt sx_inv_pure)
      (auto simp: step)
qed

section \<open>The laws\<close>

abbreviation fitting :: "(string \<Rightarrow> int) \<Rightarrow> 'v exec_env \<Rightarrow> 'v cell \<Rightarrow> bool" where
  "fitting e env s \<equiv> fits e env (cl_rt s)"

lemma fits_inv: "(\<And>P. sx_inv (\<lambda>s. P (rt_room (cl_rt s))) m) \<Longrightarrow> sx_inv (fitting e env) m"
proof -
  assume m: "\<And>P. sx_inv (\<lambda>s. P (rt_room (cl_rt s))) m"
  have "fitting e env (snd (m s))" if "fitting e env s" for s
    using sx_triple_snd [OF m [of "\<lambda>r. r = rt_room (cl_rt s)"]] fits_room that by blast
  then show ?thesis by (rule sx_inv_snd)
qed

lemma release_fits: "sx_inv (fitting e env) (release_active env st)"
  unfolding release_active_def
  by (intro sx_rules fits_inv [OF room_terminal], rule sx_inv_modify) (auto simp: fits_def Let_def rt_symbol_def)

lemma settle_fits:
  assumes "answered env sy p"
  shows "sx_triple (\<lambda>s. fitting e env s \<and> rt_active_id (cl_rt s) = Some cid \<and> rt_symbol (cl_rt s) = sy) (apply_venue_payload env now cid p)
    (\<lambda>_. fitting e env) (\<lambda>_. fitting e env)"
proof -
  let ?P = "\<lambda>s. fitting e env s \<and> rt_active_id (cl_rt s) = Some cid \<and> rt_symbol (cl_rt s) = sy"
  have guard: "sx_triple ?P (guard_active_identity env p) (\<lambda>_. ?P) (\<lambda>_. fitting e env)"
    by (auto simp: guard_active_identity_def sx_triple_def Let_def split: sum.splits option.splits)
  have takes: "takes e (dsub ex (rt_reported_executed rt)) ex rt"
    if "fits e env rt" "rt_active_id rt = Some cid" "rt_symbol rt = sy" "executed_of (ev_codec env) p = Inr ex" "ex \<le> rt_active_post_qty rt"
      "rt_reported_executed rt < ex" for rt ex
  proof -
    have g: "grid (e sy) ex" "grid (e sy) (rt_reported_executed rt)" "0 \<le> rt_reported_executed rt"
      using that assms by (auto simp: fits_def on_grid_def Let_def)
    then show ?thesis using that dsub_grid [OF g(1,2,3)] grid_diff [OF g(1,2,3)] by (simp add: takes_def)
  qed
  have fill: "sx_triple (\<lambda>s. ?P s \<and> cl_rt s = rt \<and> executed_of (ev_codec env) p = Inr ex \<and> ex \<le> rt_active_post_qty rt)
     (sx_when (rt_reported_executed rt < ex) (apply_execution_fill env (dsub ex (rt_reported_executed rt)) price liq cid ex False now))
     (\<lambda>_. fitting e env) (\<lambda>_. fitting e env)" for rt ex price liq
    by (intro sx_triple_when sx_conseq [OF fill_fits]) (auto intro: takes)
  show ?thesis unfolding apply_venue_payload_def
  proof (rule sx_triple_seq [OF guard], rule sx_triple_gets_eq, rule sx_triple_bind)
    fix rt
    show "sx_triple (\<lambda>s. ?P s \<and> cl_rt s = rt) (sx_lift (executed_of (ev_codec env) p))
       (\<lambda>ex s. ?P s \<and> cl_rt s = rt \<and> executed_of (ev_codec env) p = Inr ex) (\<lambda>_. fitting e env)"
      by (rule sx_triple_lift) auto
    fix ex
    have "sx_triple (\<lambda>s. ?P s \<and> cl_rt s = rt \<and> executed_of (ev_codec env) p = Inr ex) (sx_lift (guard_res (ex \<le> rt_active_post_qty rt) DataIntegrityError))
       (\<lambda>_ s. ?P s \<and> cl_rt s = rt \<and> executed_of (ev_codec env) p = Inr ex \<and> ex \<le> rt_active_post_qty rt) (\<lambda>_. fitting e env)"
      by (rule sx_triple_lift) auto
    then show "sx_triple (\<lambda>s. ?P s \<and> cl_rt s = rt \<and> executed_of (ev_codec env) p = Inr ex)
       (sx_bind (sx_lift (guard_res (ex \<le> rt_active_post_qty rt) DataIntegrityError)) (\<lambda>_.
        sx_bind (sx_when (rt_reported_executed rt < ex) (apply_execution_fill env (dsub ex (rt_reported_executed rt))
           (case parse_avg_price (ev_codec env) p of Some p \<Rightarrow> p | None \<Rightarrow> rt_active_price rt)
           (if rt_phase rt = ''passive'' then ''maker'' else ''taker'') cid ex False now)) (\<lambda>_.
          sx_return (payload_status (ev_codec env) p)))) (\<lambda>_. fitting e env) (\<lambda>_. fitting e env)"
      by (rule sx_triple_seq) (intro sx_triple_seq [OF fill] sx_inv_pure)
  qed
qed

lemma paper_fits:
  "sx_triple (\<lambda>s. fitting e env s \<and> rt_active_id (cl_rt s) \<noteq> None) (poll_paper env touch now) (\<lambda>_. fitting e env) (\<lambda>_. fitting e env)"
  unfolding poll_paper_def Let_def
proof (intro sx_triple_gets_eq sx_triple_if)
  fix rt :: intent_runtime
  let ?rest = "dsub (rt_active_post_qty rt) (rt_reported_executed rt)"
  let ?R = "\<lambda>r. rt_room rt = r \<and> fits e env rt \<and> rt_active_id rt \<noteq> None"
  assume pos: "pp_passive_pricing (ev_policy env) \<in> {''anchored'', ''anchored_repeg''} \<and> rt_phase rt = ''passive'' \<and> 0 < rt_active_price rt \<and> 0 < ?rest"
  have takes: "takes e ?rest (dadd (rt_reported_executed rt) ?rest) rt" if "fits e env rt" "rt_active_id rt \<noteq> None"
  proof -
    let ?k = "e (rt_symbol rt)"
    have g: "grid ?k (rt_active_post_qty rt)" "grid ?k (rt_reported_executed rt)" "0 \<le> rt_reported_executed rt" "rt_reported_executed rt \<le> rt_active_post_qty rt"
      using that by (auto simp: fits_def Let_def)
    have rest: "?rest = rt_active_post_qty rt - rt_reported_executed rt" by (rule dsub_grid [OF g])
    have "grid ?k ?rest" using grid_diff [OF g] rest by simp
    with g have "dadd (rt_reported_executed rt) ?rest = rt_active_post_qty rt"
      using dadd_grid [of ?k "rt_active_post_qty rt" "rt_reported_executed rt" ?rest] rest by simp
    with that pos g rest \<open>grid ?k ?rest\<close> show ?thesis by (simp add: takes_def)
  qed
  have fill: "sx_triple (\<lambda>s. ?R (rt_room (cl_rt s)) \<and> (x = 0 \<or> x = ?rest) \<and> \<not> x \<le> 0)
      (apply_execution_fill env x (rt_active_price rt) ''maker'' (the (rt_active_id rt)) (dadd (rt_reported_executed rt) x) True now)
      (\<lambda>_. fitting e env) (\<lambda>_. fitting e env)" for x
    by (rule sx_conseq [OF fill_fits]) (auto intro: takes_room [OF takes] fits_move)
  have booked: "sx_triple (\<lambda>s. ?R (rt_room (cl_rt s)) \<and> (x = 0 \<or> x = ?rest) \<and> \<not> x \<le> 0) (book_resting env rt x now) (\<lambda>_. fitting e env) (\<lambda>_. fitting e env)" for x
    unfolding book_resting_def
    by (rule sx_triple_seq [OF fill]) (intro sx_inv_rules release_fits fits_inv [OF room_set_terminal])
  have paper: "sx_triple (\<lambda>s. (fitting e env s \<and> rt_active_id (cl_rt s) \<noteq> None) \<and> cl_rt s = rt) (paper_gtx_fill env touch (rt_active_price rt) ?rest now)
        (\<lambda>x s. ?R (rt_room (cl_rt s)) \<and> (x = 0 \<or> x = ?rest)) (\<lambda>_. fitting e env)"
    by (rule sx_conseq [OF room_paper_fill [of ?R]]) (auto intro: fits_move)
  show "sx_triple (\<lambda>s. (fitting e env s \<and> rt_active_id (cl_rt s) \<noteq> None) \<and> cl_rt s = rt)
     (sx_bind (paper_gtx_fill env touch (rt_active_price rt) ?rest now) (\<lambda>fill.
        if fill \<le> 0 then sx_return False else book_resting env rt fill now)) (\<lambda>_. fitting e env) (\<lambda>_. fitting e env)"
    by (intro sx_triple_bind [OF paper] sx_triple_if sx_triple_return sx_pre [OF booked]) (auto intro: fits_move)
qed (auto intro: sx_triple_return)

text \<open>An order of a size for which there is room.\<close>

definition has_room :: "(string \<Rightarrow> int) \<Rightarrow> 'v exec_env \<Rightarrow> decimal \<Rightarrow> intent_runtime \<Rightarrow> bool" where
  "has_room e env q rt \<longleftrightarrow> fits e env rt \<and> rt_unresolved_id rt = None \<and> rt_active_id rt = None
     \<and> 0 < q \<and> grid (e (rt_symbol rt)) q \<and> rt_filled_total rt + q \<le> oi_quantity (rt_intent rt)"

lemma has_room_fits: "has_room e env q rt \<Longrightarrow> fits e env rt"
  by (simp add: has_room_def)

lemma has_room_inv:
  assumes "\<And>P. sx_inv (\<lambda>s. P (rt_room (cl_rt s))) m"
  shows "sx_triple (\<lambda>s. has_room e env q (cl_rt s)) m (\<lambda>_ s. has_room e env q (cl_rt s)) (\<lambda>_. fitting e env)"
proof -
  have "has_room e env q (cl_rt (snd (m s)))" if s: "has_room e env q (cl_rt s)" for s
  proof -
    have "rt_room (cl_rt (snd (m s))) = rt_room (cl_rt s)"
      using sx_triple_snd [OF assms [of "\<lambda>r. r = rt_room (cl_rt s)"]] by blast
    with s show ?thesis using fits_room [of "cl_rt (snd (m s))" "cl_rt s" e env] by (simp add: has_room_def rt_room_def rt_symbol_def)
  qed
  then have "sx_inv (\<lambda>s. has_room e env q (cl_rt s)) m" by (rule sx_inv_snd)
  then show ?thesis by (rule sx_conseq) (auto intro: has_room_fits)
qed

lemma post_failed_fits:
  "sx_triple (\<lambda>s. has_room e env q (cl_rt s)) (post_failed env oid tif price q now ex) (\<lambda>_. fitting e env) (\<lambda>_. fitting e env)"
proof (cases ex)
  case (VenueError code http)
  show ?thesis unfolding post_failed_def VenueError exc.case
    by (rule sx_pre [OF sx_inv_bind]) (auto intro: has_room_fits fits_inv [OF room_handle_error] sx_inv_pure)
next
  case OrderObsolete
  show ?thesis unfolding post_failed_def OrderObsolete exc.case
    by (rule sx_pre [OF sx_inv_bind]) (auto intro!: sx_inv_bind intro: has_room_fits fits_inv [OF room_terminal] fits_inv [OF room_set_terminal] fits_inv [OF room_audit])
next
  case OrderStatusUnknown
  show ?thesis unfolding post_failed_def OrderStatusUnknown exc.case
    by (intro sx_triple_seq [OF sx_triple_modify [where Q = "\<lambda>_. fitting e env"]] fits_inv [OF room_audit])
      (auto simp: has_room_def fits_def Let_def rt_symbol_def)
qed (auto simp: post_failed_def intro: sx_triple_raise has_room_fits)

lemma mark_posted_fits:
  "sx_triple (\<lambda>s. has_room e env q (cl_rt s)) (mark_posted oid price q now sim)
     (\<lambda>_ s. fitting e env s \<and> takes e q q (cl_rt s)) (\<lambda>_. fitting e env)"
  unfolding mark_posted_def
  by (rule sx_triple_modify) (auto simp: has_room_def fits_def takes_def Let_def rt_symbol_def)

lemma settle_paper_fits:
  "sx_triple (\<lambda>s. has_room e env q (cl_rt s)) (settle_paper_post env oid tif price q touch now) (\<lambda>_. fitting e env) (\<lambda>_. fitting e env)"
proof -
  let ?R = "\<lambda>s. fitting e env s \<and> takes e q q (cl_rt s)"
  have sim: "sx_triple ?R (if tif = ''GTX'' then paper_gtx_fill env touch price q now else sx_return q)
      (\<lambda>x s. ?R s \<and> (x = 0 \<or> x = q)) (\<lambda>_. fitting e env)"
    by (intro sx_triple_if sx_conseq [OF paper_fill_keeps [of "\<lambda>rt. fits e env rt \<and> takes e q q rt"]] sx_triple_return)
      (auto intro: fits_move takes_room)
  have "sx_triple (\<lambda>s. ?R s \<and> x = q) (apply_execution_fill env x price l oid x True now) (\<lambda>_. fitting e env) (\<lambda>_. fitting e env)" for x l
    by (rule sx_conseq [OF fill_fits]) auto
  then have booked: "sx_triple (\<lambda>s. ?R s \<and> x = q) (book_paper_post env oid tif price q x now) (\<lambda>_. fitting e env) (\<lambda>_. fitting e env)" for x
    unfolding book_paper_post_def
    by (rule sx_triple_seq) (intro sx_inv_rules release_fits fits_inv [OF room_set_terminal] fits_inv [OF room_audit] fits_inv [OF room_recorded])
  show ?thesis unfolding settle_paper_post_def
    by (intro sx_triple_seq [OF mark_posted_fits] sx_triple_bind [OF sim] sx_triple_if sx_pre [OF booked] sx_pre [OF fits_inv [OF room_recorded]])
      auto
qed

lemma after_post_fits:
  "sx_triple (\<lambda>s. has_room e env q (cl_rt s)) (after_post env oid tif price q touch now resp) (\<lambda>_. fitting e env) (\<lambda>_. fitting e env)"
proof (cases resp)
  case ShadowResponse
  then show ?thesis by (auto simp: after_post_def intro: sx_pre [OF fits_inv [OF room_set_terminal]] has_room_fits)
next
  case PaperResponse
  then show ?thesis by (simp add: after_post_def settle_paper_fits)
next
  case VenueAccepted
  then show ?thesis unfolding after_post_def
    by (simp, intro sx_triple_seq [OF mark_posted_fits] sx_pre [OF fits_inv [OF room_recorded]]) auto
qed

lemma send_fits:
  "sx_triple (\<lambda>s. has_room e env q (cl_rt s)) (send_order env tif price q touch now) (\<lambda>_. fitting e env) (\<lambda>_. fitting e env)"
proof -
  let ?R = "\<lambda>s. has_room e env q (cl_rt s)"
  have number: "sx_triple ?R (if b then in_world m else sx_return n) (\<lambda>_. ?R) (\<lambda>_. fitting e env)" for b m n
    by (rule has_room_inv) (intro sx_rules on_journal_rt)
  have lift: "sx_triple ?R (sx_lift m) (\<lambda>_. ?R) (\<lambda>_. fitting e env)" for m
    by (rule has_room_inv) (rule sx_inv_pure)
  have count: "sx_triple ?R (upd_rt (\<lambda>rt. rt\<lparr>rt_attempts := rt_attempts rt + 1\<rparr>)) (\<lambda>_. ?R) (\<lambda>_. fitting e env)"
    by (rule has_room_inv) (rule room_modify, simp add: rt_room_def)
  have call: "sx_triple ?R (in_world m) (\<lambda>_. ?R) (\<lambda>_. ?R)" for m by (rule on_journal_rt)
  show ?thesis unfolding send_order_def
    by (intro sx_triple_peek sx_triple_seq [OF number] sx_triple_seq [OF lift] sx_triple_seq [OF has_room_inv [OF room_submission]]
        sx_triple_seq [OF count] sx_triple_try [OF call] after_post_fits post_failed_fits)
qed

lemma has_room_remaining:
  assumes "fits e env rt" "rt_unresolved_id rt = None" "rt_active_id rt = None" "0 < remaining_qty rt" "0 < q" "q \<le> remaining_qty rt"
    "grid (e (rt_symbol rt)) q"
  shows "has_room e env q rt"
proof -
  let ?k = "e (rt_symbol rt)"
  have "remaining_qty rt = oi_quantity (rt_intent rt) - rt_filled_total rt"
    unfolding remaining_qty_def by (rule dsub_grid [of ?k]) (use assms(1) in \<open>auto simp: fits_def Let_def\<close>)
  with assms show ?thesis by (simp add: has_room_def)
qed

lemma remaining_grid: "fits e env rt \<Longrightarrow> grid (e (rt_symbol rt)) (remaining_qty rt)"
  using dsub_grid [of "e (rt_symbol rt)" "oi_quantity (rt_intent rt)" "rt_filled_total rt"]
    grid_diff [of "e (rt_symbol rt)" "oi_quantity (rt_intent rt)" "rt_filled_total rt"]
  by (auto simp: fits_def remaining_qty_def Let_def)

lemma post_fits:
  "sx_triple (\<lambda>s. fitting e env s \<and> idle s \<and> 0 < remaining_qty (cl_rt s) \<and> rt_filters (cl_rt s) = Some filters)
     (post_order env filters tif price touch now) (\<lambda>_. fitting e env) (\<lambda>_. fitting e env)"
  unfolding post_order_def Let_def
proof (intro sx_triple_gets_eq sx_triple_if)
  fix rt :: intent_runtime
  let ?P = "\<lambda>s. (fitting e env s \<and> idle s \<and> 0 < remaining_qty (cl_rt s) \<and> rt_filters (cl_rt s) = Some filters) \<and> cl_rt s = rt"
  let ?slice = "post_quantity (remaining_qty rt) price filters (pp_max_slices (ev_policy env))"
  show "sx_triple ?P (end_sub_minimum now) (\<lambda>_. fitting e env) (\<lambda>_. fitting e env)"
    by (rule sx_pre [OF fits_inv [OF room_sub_minimum]]) auto
  have head: "\<exists>q. ?slice = Inr q \<and> 0 < q \<and> q \<le> remaining_qty rt \<and> grid (e (rt_symbol rt)) q" if "?P s" for s :: "'a cell"
    by (rule post_quantity_head) (use that in \<open>auto simp: fits_def Let_def remaining_grid\<close>)
  have slice: "sx_triple ?P (sx_lift ?slice)
      (\<lambda>q s. has_room e env q (cl_rt s) \<and> has_room e env (remaining_qty rt) (cl_rt s)) (\<lambda>_. fitting e env)"
  proof (rule sx_triple_lift)
    fix q s assume "?slice = Inr q" "?P s"
    with head [OF this(2)] show "has_room e env q (cl_rt s) \<and> has_room e env (remaining_qty rt) (cl_rt s)"
      by (auto intro!: has_room_remaining intro: remaining_grid)
  qed auto
  let ?Q = "\<lambda>q s. has_room e env q (cl_rt s) \<and> has_room e env (remaining_qty rt) (cl_rt s)"
  have sub: "sx_triple (?Q q) (end_sub_minimum now) (\<lambda>_. fitting e env) (\<lambda>_. fitting e env)" for q
    by (rule sx_pre [OF fits_inv [OF room_sub_minimum]]) (auto intro: has_room_fits)
  have send: "sx_triple (?Q q) (send_order env tif price (if b then remaining_qty rt else q) touch now) (\<lambda>_. fitting e env) (\<lambda>_. fitting e env)" for q b
    by (rule sx_pre [OF send_fits]) auto
  show "sx_triple ?P (sx_bind (sx_lift ?slice) (\<lambda>slice.
          if (slice < sf_min_qty filters \<or> dmul slice price < sf_min_notional filters) \<and> dmul (remaining_qty rt) price < sf_min_notional filters
             \<and> \<not> oi_reduce_only (rt_intent rt) then end_sub_minimum now
             else sx_bind (sx_gets (\<lambda>s. order_budget_exceeded (ev_policy env) (ev_rate_limits env) (ev_rate_state env (wd_venue (cl_world s))))) (\<lambda>busy.
               if busy then sx_return () else send_order env tif price (if slice < sf_min_qty filters \<or> dmul slice price < sf_min_notional filters then remaining_qty rt else slice) touch now)))
     (\<lambda>_. fitting e env) (\<lambda>_. fitting e env)"
    by (intro sx_triple_bind [OF slice] sx_triple_if sub sx_triple_peek sx_triple_return send) (auto intro: has_room_fits)
qed

lemma declare_fits: "sx_inv (fitting e env) (declare_not_placed env)"
  unfolding declare_not_placed_def
  by (intro sx_rules fits_inv [OF room_audit] fits_inv [OF room_terminal], rule sx_inv_modify) (auto simp: fits_def Let_def rt_symbol_def)

text \<open>The room of an intent together with what never changes about it.\<close>

abbreviation fitting_at where "fitting_at e env x s \<equiv> fitting e env s \<and> rt_static (cl_rt s) = x"

interpretation room: runtime_laws env "fitting_at e env x" "fitting_at e env x" for e and env :: "'v exec_env" and x
proof unfold_locales
  let ?I = "fitting_at e env x"
  let ?Q = "\<lambda>s. ?I s \<and> unresolved_is None s"
  fix f and s :: "'v cell"
  assume "rt_core (f (cl_rt s)) = rt_core (cl_rt s)"
  then show "?I s \<Longrightarrow> ?I (cl_rt_update f s)" "?Q s \<Longrightarrow> ?Q (cl_rt_update f s)"
    using fits_room [OF core_room, of "f (cl_rt s)" "cl_rt s" e env] by (auto simp: core_defs)
next
  let ?I = "fitting_at e env x"
  let ?Q = "\<lambda>s. ?I s \<and> unresolved_is None s"
  show "sx_inv ?Q (release_active env st)" for st
    by (intro sx_inv_conj release_fits static_steps.release_inv release_unresolved)
  show "sx_triple (\<lambda>s. ?Q s \<and> rt_active_id (cl_rt s) = Some cid \<and> rt_symbol (cl_rt s) = sy) (apply_venue_payload env now cid p) (\<lambda>_. ?Q) (\<lambda>_. ?Q)"
    if "answered env sy p" for sy p cid now
    by (rule sx_conseq [OF sx_triple_conj [OF settle_fits [OF that] sx_inv_conj [OF static_steps.payload_inv payload_unresolved]]]) auto
  show "sx_triple (\<lambda>s. ?Q s \<and> rt_active_id (cl_rt s) \<noteq> None) (poll_paper env touch now) (\<lambda>_. ?Q) (\<lambda>_. ?Q)" for touch now
    by (rule sx_conseq [OF sx_triple_conj [OF paper_fits sx_inv_conj [OF static_steps.paper_inv paper_unresolved]]]) auto
  show "?Q (cl_rt_update f s)" if "?Q s" "rt_core (f (cl_rt s)) = rt_core ((cl_rt s)\<lparr>rt_terminal_status := Some st\<rparr>)" for s :: "'v cell" and st f
    using that fits_room [of "f (cl_rt s)" "cl_rt s" e env] by (auto simp: core_defs rt_room_def)
  show "sx_triple (\<lambda>s. ?I s \<and> rt_unresolved_id (cl_rt s) \<noteq> None) (adopt_unresolved now) (\<lambda>_. ?I) (\<lambda>_. ?I)" for now
    unfolding adopt_unresolved_def by (rule sx_triple_modify) (auto simp: fits_def Let_def rt_symbol_def rt_static_def)
  show "sx_triple (\<lambda>s. ?I s \<and> rt_unresolved_id (cl_rt s) \<noteq> None) (declare_not_placed env) (\<lambda>_. ?I) (\<lambda>_. ?I)"
    by (rule sx_pre [OF sx_inv_conj [OF declare_fits static_steps.declare_any]]) simp
  show "sx_triple (\<lambda>s. ?I s \<and> idle s \<and> \<not> rt_done (cl_rt s) \<and> 0 < remaining_qty (cl_rt s)) (post_order env filters tif price touch now) (\<lambda>_. ?I) (\<lambda>_. ?I)"
    if "?I s0" "rt_filters (cl_rt s0) = Some filters" for s0 filters tif price touch now
    using that by (intro sx_conseq [OF sx_triple_conj [OF post_fits static.post_order_any]]) (auto simp: rt_static_def)
qed auto

interpretation room_run: stable_run env "fitting_at e env" "fitting_at e env" "\<lambda>s. \<forall>rt \<in> set (ex_rts s). fits e env rt"
  for e and env :: "'v exec_env"
proof (intro stable_run.intro run_laws.intro)
  show "runtime_laws env (fitting_at e env x) (fitting_at e env x)" for x by (rule room.runtime_laws_axioms)
next
  fix s :: "'v exec" and i assume s: "\<forall>rt \<in> set (ex_rts s). fits e env rt" "i < length (ex_rts s)"
  then have "\<forall>rt \<in> set (ex_rts (put_cell s i t)). fits e env rt" if "fits e env (cl_rt t)" for t
    using that by (auto simp: set_update_others focus_others(2) [OF s(2)])
  with s show "\<exists>x. fitting_at e env x (cell_at s i)
      \<and> (\<forall>t. fitting_at e env x t \<longrightarrow> rt_static (cl_rt t) = rt_static (ex_rts s ! i) \<longrightarrow> (\<forall>rt \<in> set (ex_rts (put_cell s i t)). fits e env rt))
      \<and> (\<forall>t. fitting_at e env x t \<longrightarrow> (\<forall>rt \<in> set (ex_rts (put_cell s i t)). fits e env rt))"
    by auto
next
  fix s :: "'v exec" and rts assume s: "\<forall>rt \<in> set (ex_rts s). fits e env rt" and rts: "map rt_core rts = map rt_core (ex_rts s)"
  have "(\<forall>rt \<in> set rts. fits e env rt) = (\<forall>rt \<in> set (ex_rts s). fits e env rt)"
    by (rule core_ball [OF rts fits_room [OF core_room]])
  with s show "\<forall>rt \<in> set (ex_rts (s\<lparr>ex_rts := rts\<rparr>)). fits e env rt" by simp
qed simp_all



end
