(* ===== verification/Executor_Ledger.thy ===== *)
theory Executor_Ledger
  imports Executor_Safety Ledger
begin

text \<open>
  From the executor to the ledger.  A run keeps the journal a journal: reachable by its operations,
  in step with its file, and every fill it adds is an execution.  So the ledger can consume what the
  run has written, and what it then books are the fills that the run reported.
\<close>

section \<open>The journal during a run\<close>

definition journal_kept :: "text_codec \<Rightarrow> journal_fill list \<Rightarrow> wal \<Rightarrow> bool" where
  "journal_kept c base j \<longleftrightarrow> codec_ok c \<and> synced c j \<and> journal_reach c j
     \<and> (\<exists>new. oj_fills (wal_mem j) = base @ new \<and> (\<forall>x \<in> set new. jf_kind x = ''execution''))"

lemma kept_fill:
  assumes "journal_kept c base j" "fr_kind r = ''execution''"
  shows "journal_kept c base (snd (record_fill c now r j))"
proof -
  have reach: "journal_reach c (snd (record_fill c now r j))"
    using journal_reach.op [of c j now "RecordFill r"] assms(1) by (simp add: journal_kept_def run_op_def)
  have kind: "jf_kind x = ''execution''" if "check_fill r k = Inr x" for x k
    using that assms(2) by (auto simp: check_fill_def result_simps split: if_splits option.splits)
  show ?thesis
    using record_fill_synced [of c j now r] assms(1) reach by (auto simp: journal_kept_def dest: kind)
qed

lemma kept_submit: "journal_kept c base j \<Longrightarrow> journal_kept c base (snd (record_submit c now r j))"
  using record_submit_synced [of c j now r] journal_reach.op [of c j now "RecordSubmit r"]
  by (auto simp: journal_kept_def run_op_def)

lemma kept_terminal:
  assumes "journal_kept c base j" shows "journal_kept c base (snd (record_terminal c now cid st j))"
proof -
  have "codec_ok c" "synced c j" using assms by (simp_all add: journal_kept_def)
  then obtain j' where "record_terminal c now cid st j = (Inr (), j')" "synced c j'" "oj_fills (wal_mem j') = oj_fills (wal_mem j)"
    by (rule record_terminal_synced)
  then show ?thesis using assms journal_reach.op [of c j now "RecordTerminal cid st"]
    by (auto simp: journal_kept_def run_op_def)
qed

abbreviation keeping :: "'v exec_env \<Rightarrow> journal_fill list \<Rightarrow> 'v cell \<Rightarrow> bool" where
  "keeping env base s \<equiv> journal_kept (ev_codec env) base (wd_journal (cl_world s))"

lemma keeping_journal:
  "(\<And>now j. journal_kept (ev_codec env) base j \<Longrightarrow> journal_kept (ev_codec env) base (snd (m now j)))
   \<Longrightarrow> sx_inv (keeping env base) (in_world (on_journal vc m))"
  by (rule sx_inv_snd) (simp add: sx_zoom_run on_journal_def split: prod.splits, metis snd_conv)

lemma keeping_audit: "sx_inv (keeping env base) (rt_audit e cid st)"
proof (rule sx_inv_snd)
  fix s assume "keeping env base s"
  moreover obtain a where "rt_audit e cid st s = (Inr (), s\<lparr>cl_world := (cl_world s)\<lparr>wd_audit := a\<rparr>\<rparr>)" using rt_audit_run by blast
  ultimately show "keeping env base (snd (rt_audit e cid st s))" by simp
qed

lemma keeping_fill: "sx_inv (keeping env base) (apply_execution_fill env q p l cid cum sim now)"
  unfolding apply_execution_fill_def
  by (intro sx_rules sx_inv_modify keeping_audit keeping_journal kept_fill) (simp_all add: execution_request_def)

lemma keeping_terminal: "sx_inv (keeping env base) (journal_terminal_once env oid st)"
  unfolding journal_terminal_once_def by (intro sx_rules sx_inv_modify keeping_journal kept_terminal) simp_all

lemma keeping_submission: "sx_inv (keeping env base) (journal_submission env oid n q)"
  unfolding journal_submission_def by (intro sx_rules sx_inv_modify keeping_journal kept_submit) simp_all

interpretation keeping_steps: step_laws env "keeping env base" for env :: "'v exec_env" and base
  by unfold_locales (auto intro: keeping_fill keeping_terminal)

interpretation keeping: send_laws env "keeping env base" for env :: "'v exec_env" and base
proof unfold_locales
  fix tif price qty touch now
  show "sx_inv (keeping env base) (send_order env tif price qty touch now)"
  proof (rule keeping_steps.send_by_parts)
    show "sx_inv (keeping env base) (in_world (on_journal (ev_client env) (\<lambda>clock. next_submit_seq (ev_codec env) clock)))"
      by (rule sx_inv_snd) (simp add: next_submit_world journal_kept_def)
    show "sx_inv (keeping env base) (in_world (on_venue (ev_new_order env p)))" for p
      by (rule sx_inv_snd) (simp add: sx_zoom_run on_venue_run)
  qed (rule keeping_submission)
qed

interpretation keeping_run: stable_run env "\<lambda>_ :: unit. keeping env base" "\<lambda>_. keeping env base"
    "\<lambda>s. journal_kept (ev_codec env) base (wd_journal (ex_world s))"
  for env :: "'v exec_env" and base
  by (intro stable_run.intro run_laws.intro keeping.runtime_laws_axioms) auto

lemma taker_keeps: "sx_inv (keeping_run.ok env base n) (execute_immediate_taker env intents (Some a))"
proof -
  let ?J = "keeping_run.ok env base n"
  have booked: "sx_inv ?J (ex_in_world (on_journal (ev_client env) (\<lambda>clock. record_fill (ev_codec env) clock (taker_request (Some a) intent x))))" for intent x
  proof (rule sx_inv_snd)
    fix s assume s: "?J s"
    have "journal_kept (ev_codec env) base (snd (record_fill (ev_codec env) now (taker_request (Some a) intent x) (wd_journal (ex_world s))))" for now
      using s by (intro kept_fill) (simp_all add: keeping_run.ok_def taker_request_def)
    with s show "?J (snd (ex_in_world (on_journal (ev_client env) (\<lambda>clock. record_fill (ev_codec env) clock (taker_request (Some a) intent x))) s))"
      by (auto simp: keeping_run.ok_def sx_zoom_run on_journal_def split: prod.splits intro: gate_ok_cong) (metis snd_conv)
  qed
  show ?thesis unfolding execute_immediate_taker_def Let_def
    by (intro sx_rules keeping_run.fetch_books_inv keeping_run.ex_read_clock_inv keeping_run.ex_audit_inv)
      (auto split: prod.splits intro!: sx_inv_foldM sx_inv_bind booked sx_inv_pure)
qed

lemma execution_keeps:
  assumes "journal_kept (ev_codec env) base (wd_journal w)"
    and "execute_intents env model intents filters (Some a) tol budget w = (r, sink, w')"
  shows "journal_kept (ev_codec env) base (wd_journal w')"
proof (cases "model = Some ''immediate_taker''")
  case True
  let ?s = "\<lparr>ex_rts = [], ex_cycle = fresh_cycle [], ex_world = w\<rparr>"
  have "keeping_run.ok env base 0 ?s" using assms(1) by (simp add: keeping_run.ok_def gate_ok_def)
  from sx_triple_snd [OF taker_keeps this] have "keeping_run.ok env base 0 (snd (execute_immediate_taker env intents (Some a) ?s))" .
  with True assms(2) show ?thesis by (auto simp: execute_intents_def Let_def keeping_run.ok_def split: prod.splits sum.splits)
next
  case False
  have "synced (ev_codec env) (wd_journal w) \<or> Some a = None" using assms(1) by (simp add: journal_kept_def)
  from passive_run [OF this False assms(2)] obtain t where run: "run_and_report env budget (started env intents filters (Some a) tol w) = (r, t)"
    and w': "w' = ex_world t" by metis
  have "keeping_run.ok env base (length intents) (started env intents filters (Some a) tol w)"
    using assms(1) by (simp add: keeping_run.ok_def started_gate)
  from keeping_run.report_keeps [OF this run] show ?thesis by (simp add: keeping_run.ok_def w')
qed

section \<open>What the ledger makes of a reported fill\<close>

definition line_step :: "bool \<Rightarrow> book_line \<Rightarrow> book_view \<Rightarrow> book_view" where
  "line_step track line v = (case line of (_, symbol, side, _, x) \<Rightarrow>
     ((fst v)(symbol := if side = ''BUY'' then dadd (fst v symbol) (ef_quantity x) else dsub (fst v symbol) (ef_quantity x)),
      if track then map_option (\<lambda>cash. dadd cash (fill_cash_delta side (ef_quantity x) (ef_price x) (ef_fee_bps x))) (snd v) else snd v))"

lemma book_step_line: "jf_kind x = ''execution'' \<Longrightarrow> book_step track x = line_step track (fill_line x)"
  by (simp add: fun_eq_iff book_step_def line_step_def fill_line_def Let_def)

lemma fold_book_lines: "\<forall>x \<in> set fills. jf_kind x = ''execution'' \<Longrightarrow> fold (book_step track) fills v = fold (line_step track) (map fill_line fills) v"
  by (induction fills arbitrary: v) (simp_all add: book_step_line)

text \<open>A ledger that had caught up before the run books the new fills and nothing else.\<close>

lemma commit_new_fills:
  assumes kept: "journal_kept c base j" and new: "oj_fills (wal_mem j) = base @ new"
    and s: "reflects opts base s" "ls_applied s = int (length base) - 1"
  shows "\<exists>t f'. commit_journal_fills c opts s (fills_after_mem (wal_mem j) (ls_applied s)) f = (Inr t, f')
     \<and> book_view opts t = fold (line_step (co_track_cash opts)) (map fill_line new) (book_view opts s)
     \<and> ls_applied t = int (length (oj_fills (wal_mem j))) - 1"
proof -
  have k: "codec_ok c" "synced c j" "journal_reach c j" using kept by (simp_all add: journal_kept_def)
  have kinds: "\<forall>x \<in> set new. jf_kind x = ''execution''" using kept new by (auto simp: journal_kept_def)
  note log = journal_log [OF k(1,3) synced_ensure_loaded [OF k(2)]]
  obtain t where t: "fst (commit_journal_fills c opts s (fills_after_mem (wal_mem j) (ls_applied s)) f) = Inr t"
      "reflects opts (base @ new) t" "ls_applied t = int (length (base @ new)) - 1"
    using commit_catches_up [OF log, of opts s c f] reflects_grow [OF s(1), of new] new log(3) by auto
  have "book_view opts t = fold (book_step (co_track_cash opts)) new (book_view opts s)"
    using t(2,3) s by (simp add: reflects_def)
  with t kinds show ?thesis by (metis fold_book_lines new prod.collapse)
qed

end
