(* ===== verification/Spec2Isabelle.thy ===== *)
theory Spec2Isabelle
  imports Derisk Sizing Orphan_Sweep Tax_Basis Tax_Coverage Delisting Evidence Alert_Outbox Daemon Pre_Trade Paper_Settlement Cycle_Safety Executor_Limits Executor_Orders Executor_Ledger
begin

text \<open>
  Crypto Pilot, live trading: a verification of the core of \<open>src/live\<close>.

  \<^bold>\<open>The program.\<close>  Crypto Pilot trades perpetual futures on Binance.  Once a cycle the live daemon
  reads the account and compares it with its own ledger, turns target weights into quantities,
  plans orders, sends them, and books what was filled.  The parts that must survive crashes and
  lying networks are an append-only order journal, a ledger file that consumes the fills of the
  journal, and a recovery that asks the venue about every order the journal cannot account for.  A
  tax ledger keeps every fill and folds it into a moving-average cost basis.  A daemon decides which
  decision day is next, waits for its release and calls the cycle; alerts go through a durable outbox.

  \<^bold>\<open>The theories.\<close>  Every theory names the file it models in its opening text.

  \<^item> \<open>Prelude\<close>: exceptions and results (\<open>res\<close>, an error or a value), computations on a state that
    may raise and keep the state they reached (\<open>sx\<close>), dictionaries, sorted key lists, time stamps.
  \<^item> \<open>Decimal_Arith\<close>: \<open>decimal.Decimal\<close> with half-even rounding to 28 and to 60 digits, its laws
    in the locale \<open>decimal_context\<close>, interpreted for both contexts.  \<open>Float_Arith\<close>: the few float
    operations of the leverage code.
  \<^item> \<open>Json\<close>: decoded JSON, Python's conversions, and the texts of numbers and times as a
    \<open>text_codec\<close> parameter whose hypothesis \<open>codec_ok\<close> says that they read back.
  \<^item> \<open>Filters\<close> (\<open>filters.py\<close>), \<open>Planner\<close> (\<open>planner.py\<close>), \<open>Derisk\<close> (\<open>derisk.py\<close>), \<open>Sizing\<close>
    (\<open>sizing.py\<close>): from target weights to orders that the venue accepts.
  \<^item> \<open>Order_Journal\<close> (\<open>order_journal.py\<close>): the journal file, its lazy load, torn tails, the four
    appending operations and the queries.
  \<^item> \<open>Log_Consumer\<close>: the contract between a numbered log and a consumer with a watermark.
    \<open>Ledger\<close> (\<open>ledger.py\<close>): the ledger file, the commit of journal fills, which implements that
    contract, the de-risk state, position history and funding accrual.
  \<^item> \<open>Venue\<close> (\<open>errors.py\<close>, \<open>order_identity.py\<close>, \<open>order_cancel.py\<close>): error policy, the order client
    as a parameter, cancel with confirmation.  \<open>Recovery\<close> (\<open>recovery.py\<close>) and \<open>Orphan_Sweep\<close>
    (\<open>order_cancel.py\<close>): orders left over from an earlier process.
  \<^item> The executor (\<open>executor.py\<close>).  \<open>Execution_Policy\<close>: policy, slices, prices, quotes, rate
    budgets, the immediate taker.  \<open>Intent_Runtime\<close>: the state of one intent, fills, venue answers,
    paper fills, the close gate, submissions of unknown outcome.  \<open>Executor\<close>: polling, posting, the
    end of a window, the tick loop, shutdown, clean-up, \<open>execute_intents\<close>.  \<open>Sx_Hoare\<close> has Hoare
    triples for computations that may raise.  \<open>Executor_Laws\<close> and \<open>Executor_Runs\<close> have the locales
    that lift an invariant of the primitive steps to one intent, to the loop and to a whole run;
    \<open>Executor_Books\<close>, \<open>Executor_Safety\<close>, \<open>Executor_Limits\<close>, \<open>Executor_Orders\<close>,
    \<open>Executor_Ledger\<close> and \<open>Executor_Scope\<close> interpret them, one for each promise.
  \<^item> \<open>Account\<close> (\<open>account.py\<close>): account snapshot, leverage and margin configuration, notional cap,
    sizing equity, reconciliation of ledger and venue, force-close evidence.
  \<^item> \<open>Tax_Schema\<close> (\<open>tax_schema.py\<close>, \<open>ExecutionMode\<close> of \<open>settings.py\<close>) and \<open>Tax_Basis\<close>
    (\<open>tax_basis.py\<close>): tax records and the moving-average fold.
  \<^item> \<open>Tax_Ledger\<close> (\<open>tax_ledger.py\<close>): monthly shards, the append by record id, the watermark file and the
    gaps of the history.  \<open>Tax_Collection\<close>: reading trades and income page by page under one budget, and
    the collection cycle; \<open>Tax_Coverage\<close>: what the watermark then says about the account.
  \<^item> \<open>Evidence\<close> (\<open>fills.py\<close>, the simulated records and the cash reconciliation of \<open>tax_ledger.py\<close>, and
    \<open>_commit_and_record\<close> of \<open>runner.py\<close>): from the fills of the journal to the ledger, the fill ledger and
    the tax ledger.
  \<^item> \<open>Delisting\<close> (\<open>delisting_settlement.py\<close>): settlement of delivered positions.
  \<^item> The cycle (\<open>run_shadow_cycle\<close> of \<open>runner.py\<close>).  \<open>Signal\<close> (\<open>signal.py\<close>, \<open>deployed_weights.py\<close>): the
    row of weights in force at a decision, its release and expiry.  \<open>Pre_Trade\<close>: sweep, recovery, commit,
    delistings, breaches, force closes and the de-risk state before a cycle trades.
    \<open>Paper_Settlement\<close>: funding and settlements of a simulated account.  \<open>Cycle_Plan\<close>: quotes, risk gates,
    sizing, plan and its restriction.  \<open>Cycle\<close> composes these with the executor, the commit and the tax
    collection.  \<open>Cycle_Laws\<close> has the lemmas of each phase, \<open>Cycle_Restart\<close> those of cycles in sequence,
    \<open>Cycle_Safety\<close> the theorems.
  \<^item> \<open>Daemon\<close> (\<open>scheduler.py\<close>): the loop around the cycle and its state file.  \<open>Alert_Outbox\<close>
    (\<open>alert_outbox.py\<close>, \<open>alerting.py\<close>): the queue of alerts and its interleaved critical sections.

  \<^bold>\<open>State and operations.\<close>  A class or dataclass is a record, an operation is a function on it; an
  exception is a value of \<open>exc\<close>.  The journal is the pair of the object's memory and its file
  (\<open>wal\<close>), so that a crash is a step that drops the memory and may cut the last line; recovery,
  sweep and executor run on a \<open>world\<close> of journal, audit lines and the state of everything outside the
  process.  The executor adds the runtimes of its intents and the flags of the cycle (\<open>exec\<close>), and
  works on one of them at a time (\<open>cell\<close>).  A cycle adds the files of ledger and evidence and the alerts
  (\<open>cycle_world\<close>), and the run manifest (\<open>shadow_world\<close>); the daemon and the outbox have worlds of their own,
  in which the cycle is one of the stages and the daemon one of several processes.
  The venue client is a record of arbitrary functions on that outside state: what is proved holds
  for every answer it gives, unless a theorem names an assumption on it.

  \<^bold>\<open>What is shown.\<close>
  Of a cycle, whatever the venue answers and the file system refuses: it submits no order for a symbol with
  an unaccounted order, and only reducing orders when there is a reason to reduce risk; its report
  agrees with the ledger it leaves; a decision on record is not traded again; and over any number of cycles
  every decision completes at most once, in order, with files that load at every start.
  Trading resumes only when venue and ledger agree, and a paper position is closed only on evidence.
  The journal always loads again after crashes, and does not book a cumulative quantity twice; the ledger is the fold of the journal up to its watermark and a
  repeated commit changes nothing; both files read back what was written.  Recovery accounts for
  every unresolved submission and never closes an order the venue reports open; the sweep leaves foreign orders alone.  Of a run of the executor, whatever the venue
  answers: the journal holds exactly the fills it reports, and the ledger books exactly those; every
  order sent was journalled before; no intent is filled beyond its quantity; a normal end leaves no
  order at work; an open leg waits for its close leg; every intent gets one outcome.  Planned orders satisfy the filters, move
  toward the target and not past it, and under de-risking only reduce.  Reconciliation passes
  exactly when no symbol is out of tolerance.  The cost-basis step conserves quantity and book
  value, and the fold is causal and independent of the input order.  Delisting settlements are booked
  once, with the same cash in ledger and tax records.  The tax ledger keeps each record once, also after a
  crash in the middle of an append; the collection never moves its watermark past a trade or an income
  row that is not in the ledger, unless it records the gap; every committed fill gets its evidence once,
  whichever write fails.
  The daemon drops no day without an alert, runs the decisions in order and none before its release, and its
  waiting ends.  An accepted alert stays in the outbox until it is delivered or given up, under every
  interleaving of the processes that share it.  Four theorems show behaviour that
  contradicts what the code's documentation promises: a journal line that lost only its newline
  spoils the file, a failed load of the journal is not retried, a page of force orders without
  executions ends the paging, and a read error of the outbox discards the alerts that wait in it.

  \<^bold>\<open>Fuel.\<close>  The only loop whose end depends on the venue, the paging of force orders, takes fuel; for a
  venue that honours the requested start time the number of milliseconds in the range, plus two, is
  enough, and that is proved.  Where a cycle calls it with that fuel and it does not suffice, the result is the
  exception \<open>NoReturn\<close>, which nothing catches.  The daemon's wait for a release takes a number of turns;
  three more than the polls until the release suffice on a clock that advances, which is proved; the
  daemon loop itself counts \<open>max_iterations\<close>.  The tick loop counts down the number of ticks that the code computes
  (\<open>max_ticks\<close>), and the tax collection counts down its page budget.  All other loops are structural.

  \<^bold>\<open>Not modelled.\<close>  Exponent limits, NaN and infinities of decimals beyond the tests the code makes
  for them; the texts of exceptions and log lines.  Of the runner, what it records for observation only
  (latency, execution quality, portfolio state, microstructure), the inside of the depth recorder and the trade
  tape, and the readers of the price archives.  The end of the process is the exception
  \<open>SystemExit\<close>, which any call of the outside may raise; a line torn by it is a step of the journal's
  own histories and does not occur within a cycle.
  Not at all: the HTTP client, settings validation, the yearly tax summary, operator tools, the transports of
  alerts, liveness supervision, strategy computation, market data capture and the backtest engine.
\<close>

section \<open>From the venue to the ledger\<close>



end
